(* ===== verification/Prelude.thy ===== *)
theory Prelude
  imports Main "HOL-Library.Word" "HOL-Library.Char_ord" "HOL-Library.List_Lexorder"
begin

text \<open>
  Shared material of the development: the type of fatal errors, results, the model of
  \<^verbatim>\<open>std::map\<close> as a sorted association list, of \<^verbatim>\<open>std::to_string\<close>, of
  \<^verbatim>\<open>std::string::find\<close>, and the generic list lemmas the components use.

  \<^verbatim>\<open>ILA_ASSERT\<close> (include/ilang/util/log.h) is a fatal log in debug builds and
  \<^verbatim>\<open>ILA_CHECK\<close>/\<^verbatim>\<open>ILA_NOT_NULL\<close> in every build; the development models the
  debug build, so each of them ends the run with a value of type \<open>error\<close>.
\<close>

named_theorems ila_simps \<open>equations of the data model\<close>
named_theorems monad_simps \<open>equations of the state and error monad\<close>

section \<open>Errors and results\<close>

datatype error =
    IlaAssert string    \<comment> \<open>ILA\_ASSERT failed (debug builds)\<close>
  | IlaCheck string     \<comment> \<open>ILA\_CHECK or ILA\_NOT\_NULL failed\<close>
  | OutOfRange          \<comment> \<open>std::out\_of\_range from a checked access such as \<open>at\<close>\<close>
  | NullDeref           \<comment> \<open>a null pointer is dereferenced\<close>
  | Diverges            \<comment> \<open>the fuel of a recursion along pointers is used up\<close>
  | LibException        \<comment> \<open>a linked library throws (z3::exception, SmtException)\<close>

type_synonym 'a result = "error + 'a"

definition rbind :: "'a result \<Rightarrow> ('a \<Rightarrow> 'b result) \<Rightarrow> 'b result" where
  "rbind r f = (case r of Inl e \<Rightarrow> Inl e | Inr x \<Rightarrow> f x)"

definition rassert :: "bool \<Rightarrow> error \<Rightarrow> 'a result \<Rightarrow> 'a result" where
  "rassert b e r = (if b then r else Inl e)"

definition is_ok :: "'a result \<Rightarrow> bool" where
  "is_ok r = (case r of Inl _ \<Rightarrow> False | Inr _ \<Rightarrow> True)"

lemma rbind_simps [simp]: "rbind (Inl e) f = Inl e" "rbind (Inr x) f = f x"
  by (simp_all add: rbind_def)

lemma rbind_Inr_conv: "rbind r f = Inr y \<longleftrightarrow> (\<exists>x. r = Inr x \<and> f x = Inr y)"
  by (cases r) (auto simp: rbind_def)

lemma rassert_simps [simp]: "rassert True e r = r" "rassert False e r = Inl e"
  by (simp_all add: rassert_def)

lemma rassert_Inr_conv: "rassert b e r = Inr y \<longleftrightarrow> b \<and> r = Inr y"
  by (simp add: rassert_def)

lemma is_ok_simps [simp]: "is_ok (Inr x)" "\<not> is_ok (Inl e)"
  by (simp_all add: is_ok_def)

lemma is_ok_conv: "is_ok r \<longleftrightarrow> (\<exists>x. r = Inr x)"
  by (cases r) auto

text \<open>Running a fallible function over a list, stopping at the first error.\<close>

fun rmap :: "('a \<Rightarrow> 'b result) \<Rightarrow> 'a list \<Rightarrow> 'b list result" where
  "rmap f [] = Inr []"
| "rmap f (x # xs) = rbind (f x) (\<lambda>y. rbind (rmap f xs) (\<lambda>ys. Inr (y # ys)))"

lemma rmap_Inr_length: "rmap f xs = Inr ys \<Longrightarrow> length ys = length xs"
  by (induction xs arbitrary: ys) (auto simp: rbind_Inr_conv)

lemma rmap_Inr_list_all2: "rmap f xs = Inr ys \<longleftrightarrow> list_all2 (\<lambda>x y. f x = Inr y) xs ys"
  by (induction xs arbitrary: ys) (auto simp: rbind_Inr_conv list_all2_Cons1)

section \<open>std::map as a sorted association list\<close>

text \<open>
  \<^verbatim>\<open>std::map\<close> iterates in key order. \<open>amap_emplace\<close> is \<^verbatim>\<open>emplace\<close> or
  \<^verbatim>\<open>try_emplace\<close> (keeps an existing entry), \<open>amap_assign\<close> is \<^verbatim>\<open>m[k] = v\<close>.
\<close>

type_synonym ('k, 'v) amap = "('k \<times> 'v) list"

fun amap_emplace :: "'k::linorder \<Rightarrow> 'v \<Rightarrow> ('k, 'v) amap \<Rightarrow> ('k, 'v) amap" where
  "amap_emplace k v [] = [(k, v)]"
| "amap_emplace k v ((k', v') # m) =
     (if k < k' then (k, v) # (k', v') # m
      else if k = k' then (k', v') # m
      else (k', v') # amap_emplace k v m)"

fun amap_assign :: "'k::linorder \<Rightarrow> 'v \<Rightarrow> ('k, 'v) amap \<Rightarrow> ('k, 'v) amap" where
  "amap_assign k v [] = [(k, v)]"
| "amap_assign k v ((k', v') # m) =
     (if k < k' then (k, v) # (k', v') # m
      else if k = k' then (k, v) # m
      else (k', v') # amap_assign k v m)"

definition amap_ok :: "('k::linorder, 'v) amap \<Rightarrow> bool" where
  "amap_ok m = (sorted (map fst m) \<and> distinct (map fst m))"

lemma amap_ok_Nil [simp]: "amap_ok []"
  by (simp add: amap_ok_def)

lemma amap_ok_Cons:
  "amap_ok ((k, v) # m) \<longleftrightarrow> (\<forall>k' \<in> fst ` set m. k < k') \<and> amap_ok m"
  by (auto simp: amap_ok_def order.strict_iff_order)

lemma keys_emplace: "fst ` set (amap_emplace k v m) = insert k (fst ` set m)"
  by (induction k v m rule: amap_emplace.induct) (simp_all add: insert_commute)

lemma keys_assign: "fst ` set (amap_assign k v m) = insert k (fst ` set m)"
  by (induction k v m rule: amap_assign.induct) (simp_all add: insert_commute)

lemma amap_ok_emplace [simp]: "amap_ok m \<Longrightarrow> amap_ok (amap_emplace k v m)"
  by (induction k v m rule: amap_emplace.induct) (auto simp: amap_ok_Cons keys_emplace)

lemma amap_ok_assign [simp]: "amap_ok m \<Longrightarrow> amap_ok (amap_assign k v m)"
  by (induction k v m rule: amap_assign.induct) (auto simp: amap_ok_Cons keys_assign)

lemma map_of_emplace:
  "amap_ok m \<Longrightarrow>
   map_of (amap_emplace k v m) x =
     (if x = k then (case map_of m k of None \<Rightarrow> Some v | Some w \<Rightarrow> Some w) else map_of m x)"
proof (induction m)
  case (Cons a m)
  obtain k' v' where a: "a = (k', v')" by (cases a)
  have "k < k' \<Longrightarrow> map_of m k = None"
    using Cons.prems unfolding a amap_ok_Cons map_of_eq_None_iff by auto
  with Cons show ?case by (auto simp: a amap_ok_Cons split: option.splits)
qed simp

lemma map_of_assign:
  "amap_ok m \<Longrightarrow> map_of (amap_assign k v m) x = (if x = k then Some v else map_of m x)"
  by (induction m) (auto simp: amap_ok_Cons)

lemma emplace_present:
  "amap_ok m \<Longrightarrow> map_of m k = Some w \<Longrightarrow> amap_emplace k v m = m"
proof (induction m)
  case (Cons a m)
  obtain k' v' where a: "a = (k', v')" by (cases a)
  have "k \<noteq> k' \<Longrightarrow> k' < k"
    using Cons.prems by (force simp: a amap_ok_Cons dest: map_of_SomeD)
  with Cons show ?case by (auto simp: a amap_ok_Cons split: if_splits)
qed simp

lemma map_of_SomeD_snd: "map_of m k = Some v \<Longrightarrow> v \<in> snd ` set m"
  by (force dest: map_of_SomeD)

section \<open>Decimal printing: std::to\_string on unsigned integers\<close>

definition digit_char :: "nat \<Rightarrow> char" where
  "digit_char d = char_of (48 + d)"

fun to_string :: "nat \<Rightarrow> string" where
  "to_string n = (if n < 10 then [digit_char n] else to_string (n div 10) @ [digit_char (n mod 10)])"

declare to_string.simps [simp del]

definition int_to_string :: "int \<Rightarrow> string" where
  "int_to_string i = (if i < 0 then CHR ''-'' # to_string (nat (- i)) else to_string (nat i))"

definition is_digit :: "char \<Rightarrow> bool" where
  "is_digit c = (48 \<le> (of_char c :: nat) \<and> (of_char c :: nat) \<le> 57)"

lemma of_char_digit_char [simp]: "d < 10 \<Longrightarrow> (of_char (digit_char d) :: nat) = 48 + d"
  by (simp add: digit_char_def)

lemma digit_char_inj: "d < 10 \<Longrightarrow> d' < 10 \<Longrightarrow> digit_char d = digit_char d' \<Longrightarrow> d = d'"
  by (metis of_char_digit_char add_left_cancel)

lemma is_digit_digit_char [simp]: "d < 10 \<Longrightarrow> is_digit (digit_char d)"
  by (simp add: is_digit_def)

lemma to_string_nonempty [simp]: "to_string n \<noteq> []"
  by (subst to_string.simps) simp

lemma to_string_digits: "c \<in> set (to_string n) \<Longrightarrow> is_digit c"
proof (induction n rule: to_string.induct)
  case (1 n)
  show ?case
  proof (cases "n < 10")
    case True
    with 1 show ?thesis by (simp add: to_string.simps [of n])
  next
    case False
    with 1 show ?thesis by (auto simp: to_string.simps [of n])
  qed
qed

text \<open>Reading the digits back, the inverse of printing.\<close>

definition of_digits :: "string \<Rightarrow> nat" where
  "of_digits s = foldl (\<lambda>a c. 10 * a + (of_char c - 48)) 0 s"

lemma of_digits_to_string [simp]: "of_digits (to_string n) = n"
proof (induction n rule: to_string.induct)
  case (1 n)
  show ?case
  proof (cases "n < 10")
    case True
    then show ?thesis by (simp add: to_string.simps [of n] of_digits_def)
  next
    case False
    with 1 show ?thesis by (simp add: to_string.simps [of n] of_digits_def)
  qed
qed

lemma to_string_inj [simp]: "to_string m = to_string n \<longleftrightarrow> m = n"
  by (metis of_digits_to_string)

lemma int_to_string_inj [simp]: "int_to_string i = int_to_string j \<longleftrightarrow> i = j"
proof -
  have minus: "CHR ''-'' # xs \<noteq> to_string n" for xs n
  proof
    assume "CHR ''-'' # xs = to_string n"
    then have "is_digit (CHR ''-'')" by (metis list.set_intros(1) to_string_digits)
    then show False by (simp add: is_digit_def)
  qed
  then show ?thesis
    using minus [symmetric] by (auto simp: int_to_string_def)
qed

section \<open>Joining with a separator\<close>

fun sep_join :: "string \<Rightarrow> string list \<Rightarrow> string" where
  "sep_join d [] = []"
| "sep_join d [x] = x"
| "sep_join d (x # y # ys) = x @ d @ sep_join d (y # ys)"

lemma takeWhile_append_sep:
  "\<forall>c \<in> set xs. c \<noteq> s \<Longrightarrow> takeWhile (\<lambda>c. c \<noteq> s) (xs @ s # ys) = xs"
  by (induction xs) auto

lemma append_sep_inj:
  assumes "s \<notin> set xs" and "s \<notin> set xs'"
  shows "xs @ s # ys = xs' @ s # ys' \<longleftrightarrow> xs = xs' \<and> ys = ys'"
  using assms
proof (induction xs arbitrary: xs')
  case Nil
  then show ?case by (cases xs') auto
next
  case (Cons a xs)
  then show ?case by (cases xs') auto
qed

lemma append_notin_sep:
  "s \<notin> set xs \<Longrightarrow> xs \<noteq> xs' @ s # ys'"
  by auto

text \<open>Lists of separator-free non-empty items are determined by their join.\<close>

lemma sep_join_Cons: "xs \<noteq> [] \<Longrightarrow> sep_join d (x # xs) = x @ d @ sep_join d xs"
  by (cases xs) auto

lemma sep_join_Cons_nonempty: "x \<noteq> [] \<Longrightarrow> sep_join d (x # xs) \<noteq> []"
  by (cases xs) auto

lemma sep_join_inj:
  assumes "\<forall>x \<in> set xs. s \<notin> set x \<and> x \<noteq> []" and "\<forall>y \<in> set ys. s \<notin> set y \<and> y \<noteq> []"
    and "sep_join [s] xs = sep_join [s] ys"
  shows "xs = ys"
  using assms
proof (induction xs arbitrary: ys)
  case Nil
  show ?case
  proof (cases ys)
    case (Cons y ys')
    with Nil.prems sep_join_Cons_nonempty [of y "[s]" ys'] show ?thesis by simp
  qed simp
next
  case (Cons x xs)
  have "ys \<noteq> []"
    using Cons.prems(1,3) sep_join_Cons_nonempty [of x "[s]" xs] by auto
  then obtain y ys' where ys: "ys = y # ys'" by (cases ys) auto
  show ?case
  proof (cases "xs = [] \<or> ys' = []")
    case True
    consider "xs = []" "ys' = []" | "xs = []" "ys' \<noteq> []" | "xs \<noteq> []" "ys' = []"
      using True by blast
    then show ?thesis
    proof cases
      case 1
      with Cons.prems ys show ?thesis by simp
    next
      case 2
      with Cons.prems ys show ?thesis by (auto simp: sep_join_Cons)
    next
      case 3
      with Cons.prems(2,3) ys have "s \<notin> set (x @ s # sep_join [s] xs)"
        by (simp add: sep_join_Cons del: set_append)
      then show ?thesis by simp
    qed
  next
    case False
    then have "x @ s # sep_join [s] xs = y @ s # sep_join [s] ys'"
      using Cons.prems ys by (simp add: sep_join_Cons)
    then have "x = y" and eq: "sep_join [s] xs = sep_join [s] ys'"
      using append_sep_inj [of s x y] Cons.prems(1,2) ys by simp_all
    moreover have "xs = ys'"
      using Cons.IH [OF _ _ eq] Cons.prems(1,2) ys by simp
    ultimately show ?thesis using ys by simp
  qed
qed

section \<open>std::string::find\<close>

definition starts_at :: "string \<Rightarrow> string \<Rightarrow> nat \<Rightarrow> bool" where
  "starts_at s d i = (i + length d \<le> length s \<and> take (length d) (drop i s) = d)"

text \<open>\<open>find_from s d p\<close> is \<^verbatim>\<open>s.find(d, p)\<close>; \<open>None\<close> is \<^verbatim>\<open>npos\<close>.\<close>

definition find_from :: "string \<Rightarrow> string \<Rightarrow> nat \<Rightarrow> nat option" where
  "find_from s d p = find (starts_at s d) [p ..< Suc (length s)]"

lemma find_from_Some:
  assumes "find_from s d p = Some i"
  shows "p \<le> i" "starts_at s d i" "i + length d \<le> length s"
    "\<forall>j. p \<le> j \<and> j < i \<longrightarrow> \<not> starts_at s d j"
proof -
  obtain k where k: "k < length [p ..< Suc (length s)]" "starts_at s d ([p ..< Suc (length s)] ! k)"
    "i = [p ..< Suc (length s)] ! k" "\<forall>j<k. \<not> starts_at s d ([p ..< Suc (length s)] ! j)"
    using assms unfolding find_from_def find_Some_iff by blast
  have i: "i = p + k" using k(1,3) by (simp only: nth_upt length_upt)
  show "p \<le> i" using i by simp
  show "starts_at s d i" using k(2,3) by simp
  then show "i + length d \<le> length s" by (simp add: starts_at_def)
  show "\<forall>j. p \<le> j \<and> j < i \<longrightarrow> \<not> starts_at s d j"
  proof (intro allI impI)
    fix j assume j: "p \<le> j \<and> j < i"
    then have "j - p < k" using i by auto
    moreover have "[p ..< Suc (length s)] ! (j - p) = j"
      using j k(1) i by (subst nth_upt) (simp_all only: length_upt, linarith+)
    ultimately show "\<not> starts_at s d j" using k(4) by metis
  qed
qed

lemma find_from_None: "find_from s d p = None \<longleftrightarrow> (\<forall>i\<ge>p. \<not> starts_at s d i)"
  by (auto simp: find_from_def find_None_iff starts_at_def)

lemma find_from_empty [simp]: "p \<le> length s \<Longrightarrow> find_from s [] p = Some p"
  by (simp add: find_from_def upt_rec starts_at_def)

end
