(* ===== verification/StrUtil.thy ===== *)
theory StrUtil
  imports Prelude
begin

text \<open>
  The string helpers of src/util/str\_util.cc: number printing and parsing, case
  conversion, trimming, splitting, joining and replacing. The regular-expression helpers
  wrap \<^verbatim>\<open>std::regex\<close> and are not modelled. \<^verbatim>\<open>Split\<close> and
  \<^verbatim>\<open>ReplaceAll\<close> loop on the position \<^verbatim>\<open>find\<close> returns and do not end for an
  empty pattern, so they are partial functions: \<open>None\<close> is a call that never returns.
\<close>

section \<open>Characters\<close>

definition c_isspace :: "char \<Rightarrow> bool" where
  "c_isspace c = (let n = (of_char c :: nat) in n = 32 \<or> (9 \<le> n \<and> n \<le> 13))"

definition c_toupper :: "char \<Rightarrow> char" where
  "c_toupper c = (let n = (of_char c :: nat) in if 97 \<le> n \<and> n \<le> 122 then char_of (n - 32) else c)"

definition c_tolower :: "char \<Rightarrow> char" where
  "c_tolower c = (let n = (of_char c :: nat) in if 65 \<le> n \<and> n \<le> 90 then char_of (n + 32) else c)"

section \<open>Integers to strings in a custom base\<close>

definition base_digit :: "bool \<Rightarrow> nat \<Rightarrow> char" where
  "base_digit uppercase d =
     (if d < 10 then char_of (48 + d) else char_of ((if uppercase then 65 else 97) + d - 10))"

function int_to_str_loop :: "nat \<Rightarrow> nat \<Rightarrow> bool \<Rightarrow> string \<Rightarrow> string" where
  "int_to_str_loop value base uppercase ret =
     (if value \<noteq> 0 \<and> 1 < base
      then int_to_str_loop (value div base) base uppercase (base_digit uppercase (value mod base) # ret)
      else ret)"
  by pat_completeness auto
termination by (relation "measure (\<lambda>(v, _). v)") auto

declare int_to_str_loop.simps [simp del]

definition IntToStrCustomBase :: "64 word \<Rightarrow> nat \<Rightarrow> bool \<Rightarrow> string result" where
  "IntToStrCustomBase value base uppercase =
     rassert (1 < base \<and> base \<le> 36) (IlaAssert ''unsupported base'')
       (if value = 0 then Inr ''0'' else Inr (int_to_str_loop (unat value) base uppercase []))"

section \<open>Case conversion and booleans\<close>

definition StrToUpper :: "string \<Rightarrow> string" where
  "StrToUpper str = map c_toupper str"

definition StrToLower :: "string \<Rightarrow> string" where
  "StrToLower str = map c_tolower str"

definition StrToBool :: "string \<Rightarrow> bool result" where
  "StrToBool str =
     (let up = StrToUpper str
      in rassert (up = ''TRUE'' \<or> up = ''FALSE'') (IlaAssert ''Unknown boolean value'')
           (Inr (up = ''TRUE'')))"

section \<open>Strings to integers\<close>

text \<open>
  \<^verbatim>\<open>std::stoi\<close>, \<^verbatim>\<open>std::stoll\<close> and \<^verbatim>\<open>std::stoull\<close> read with
  \<^verbatim>\<open>strtol\<close>, \<^verbatim>\<open>strtoll\<close> and \<^verbatim>\<open>strtoull\<close>: white space, an optional
  sign, an optional \<^verbatim>\<open>0x\<close> for bases 0 and 16, then the longest run of digits.
  \<open>c_strto\<close> gives the sign and the magnitude, \<open>None\<close> when there is no digit.
\<close>

definition digit_val :: "char \<Rightarrow> nat \<Rightarrow> nat option" where
  "digit_val c base =
     (let n = (of_char c :: nat);
          d = (if 48 \<le> n \<and> n \<le> 57 then n - 48
               else if 97 \<le> n \<and> n \<le> 122 then n - 87
               else if 65 \<le> n \<and> n \<le> 90 then n - 55 else 36)
      in if d < base \<and> d < 36 then Some d else None)"

fun read_digits :: "nat \<Rightarrow> nat \<Rightarrow> string \<Rightarrow> nat" where
  "read_digits base acc [] = acc"
| "read_digits base acc (c # s) =
     (case digit_val c base of None \<Rightarrow> acc | Some d \<Rightarrow> read_digits base (acc * base + d) s)"

definition c_sign :: "string \<Rightarrow> bool \<times> string" where
  "c_sign s = (case s of
       CHR ''-'' # r \<Rightarrow> (True, r) | CHR ''+'' # r \<Rightarrow> (False, r) | _ \<Rightarrow> (False, s))"

definition hex_prefix :: "string \<Rightarrow> bool" where
  "hex_prefix s = (case s of
       a # x # d # _ \<Rightarrow> a = CHR ''0'' \<and> (x = CHR ''x'' \<or> x = CHR ''X'') \<and> digit_val d 16 \<noteq> None
     | _ \<Rightarrow> False)"

definition c_strto :: "string \<Rightarrow> int \<Rightarrow> (bool \<times> nat) option" where
  "c_strto str base =
     (let (neg, s) = c_sign (dropWhile c_isspace str);
          hex = ((base = 0 \<or> base = 16) \<and> hex_prefix s);
          b = (if base \<noteq> 0 then nat base else if hex then 16
               else if take 1 s = ''0'' then 8 else 10);
          r = (if hex then drop 2 s else s)
      in if \<not> (base = 0 \<or> (2 \<le> base \<and> base \<le> 36)) then None
         else (case r of [] \<Rightarrow> None
               | c # _ \<Rightarrow> if digit_val c b = None then None else Some (neg, read_digits b 0 r)))"

text \<open>The wrappers catch the exceptions \<^verbatim>\<open>invalid_argument\<close> and \<^verbatim>\<open>out_of_range\<close> and return 0.\<close>

definition in_signed_range :: "nat \<Rightarrow> int \<Rightarrow> bool" where
  "in_signed_range w i = (- (2 ^ (w - 1)) \<le> i \<and> i < 2 ^ (w - 1))"

definition StrToInt :: "string \<Rightarrow> int \<Rightarrow> int" where
  "StrToInt str base = (case c_strto str base of
       None \<Rightarrow> 0
     | Some (neg, n) \<Rightarrow>
         (let i = (if neg then - int n else int n)
          in if in_signed_range 64 i \<and> in_signed_range 32 i then i else 0))"

definition StrToLong :: "string \<Rightarrow> int \<Rightarrow> int" where
  "StrToLong str base = (case c_strto str base of
       None \<Rightarrow> 0
     | Some (neg, n) \<Rightarrow>
         (let i = (if neg then - int n else int n) in if in_signed_range 64 i then i else 0))"

definition StrToULongLong :: "string \<Rightarrow> int \<Rightarrow> 64 word" where
  "StrToULongLong str base = (case c_strto str base of
       None \<Rightarrow> 0
     | Some (neg, n) \<Rightarrow>
         if n < 2 ^ 64 then (if neg then - of_nat n else of_nat n) else 0)"

section \<open>Trimming\<close>

definition StrLeftTrim :: "string \<Rightarrow> string" where
  "StrLeftTrim s = dropWhile c_isspace s"

definition StrRightTrim :: "string \<Rightarrow> string" where
  "StrRightTrim s = rev (dropWhile c_isspace (rev s))"

definition StrTrim :: "string \<Rightarrow> string" where
  "StrTrim s = StrRightTrim (StrLeftTrim s)"

definition RemoveWhiteSpace :: "string \<Rightarrow> string" where
  "RemoveWhiteSpace s = filter (\<lambda>c. \<not> c_isspace c) s"

section \<open>Splitting, joining, replacing\<close>

definition substr :: "string \<Rightarrow> nat \<Rightarrow> nat \<Rightarrow> string" where
  "substr s i n = take n (drop i s)"

partial_function (option) split_loop ::
    "string \<Rightarrow> string \<Rightarrow> nat \<Rightarrow> string list \<Rightarrow> string list option" where
  "split_loop str delim prev tokens =
     (let pos = (case find_from str delim prev of None \<Rightarrow> length str | Some i \<Rightarrow> i);
          token = substr str prev (pos - prev);
          tokens' = (if token \<noteq> [] then tokens @ [token] else tokens);
          prev' = pos + length delim
      in if pos < length str \<and> prev' < length str
         then split_loop str delim prev' tokens' else Some tokens')"

definition Split :: "string \<Rightarrow> string \<Rightarrow> string list option" where
  "Split str delim = split_loop str delim 0 []"

function SplitSpaceTabEnter :: "string \<Rightarrow> string list" where
  "SplitSpaceTabEnter str =
     (let s = dropWhile c_isspace str
      in if s = [] then []
         else takeWhile (\<lambda>c. \<not> c_isspace c) s # SplitSpaceTabEnter (dropWhile (\<lambda>c. \<not> c_isspace c) s))"
  by pat_completeness auto
termination
proof (relation "measure length")
  fix str s assume s: "s = dropWhile c_isspace str" and ne: "s \<noteq> []"
  then have "\<not> c_isspace (hd s)" by (metis hd_dropWhile)
  then have "length (dropWhile (\<lambda>c. \<not> c_isspace c) s) < length s"
    using ne by (cases s) (auto simp: le_imp_less_Suc length_dropWhile_le)
  also have "\<dots> \<le> length str" using s by (simp add: length_dropWhile_le)
  finally show "(dropWhile (\<lambda>c. \<not> c_isspace c) s, str) \<in> measure length" by simp
qed simp

declare SplitSpaceTabEnter.simps [simp del]

fun join_loop :: "string \<Rightarrow> string \<Rightarrow> string list \<Rightarrow> string \<Rightarrow> string" where
  "join_loop delim d [] ret = ret"
| "join_loop delim d (s # ss) ret = join_loop delim delim ss (ret @ (d @ s))"

definition Join :: "string list \<Rightarrow> string \<Rightarrow> string" where
  "Join ss delim = join_loop delim [] ss []"

partial_function (option) replace_loop ::
    "string \<Rightarrow> string \<Rightarrow> string \<Rightarrow> nat \<Rightarrow> string \<Rightarrow> string option" where
  "replace_loop str a b from res =
     (case find_from str a from of
        None \<Rightarrow> Some (res @ drop from str)
      | Some pos \<Rightarrow>
          replace_loop str a b (pos + length a) (res @ substr str from (pos - from) @ b))"

definition ReplaceAll :: "string \<Rightarrow> string \<Rightarrow> string \<Rightarrow> string option" where
  "ReplaceAll str a b = replace_loop str a b 0 []"

definition StrEndsWith :: "string \<Rightarrow> string \<Rightarrow> bool" where
  "StrEndsWith str suffix =
     (length suffix \<le> length str \<and>
      substr str (length str - length suffix) (length suffix) = suffix)"

definition StrStartsWith :: "string \<Rightarrow> string \<Rightarrow> bool" where
  "StrStartsWith str pre = (length pre \<le> length str \<and> substr str 0 (length pre) = pre)"

section \<open>Printing and parsing are inverse\<close>

lemma of_char_base_digit:
  "d < 36 \<Longrightarrow> (of_char (base_digit u d) :: nat) = (if d < 10 then 48 + d else if u then 55 + d else 87 + d)"
  by (auto simp: base_digit_def of_char_of)

lemma digit_val_base_digit [simp]: "d < b \<Longrightarrow> b \<le> 36 \<Longrightarrow> digit_val (base_digit u d) b = Some d"
  by (auto simp: digit_val_def Let_def of_char_base_digit)

lemma base_digit_not_special:
  assumes "d < 36"
  shows "\<not> c_isspace (base_digit u d)" "base_digit u d \<noteq> CHR ''-''" "base_digit u d \<noteq> CHR ''+''"
proof -
  have n: "48 \<le> (of_char (base_digit u d) :: nat)"
    using assms by (simp add: of_char_base_digit)
  then show "\<not> c_isspace (base_digit u d)" by (simp add: c_isspace_def Let_def)
  have "(of_char (CHR ''-'') :: nat) = 45" "(of_char (CHR ''+'') :: nat) = 43" by simp_all
  with n show "base_digit u d \<noteq> CHR ''-''" "base_digit u d \<noteq> CHR ''+''" by auto
qed

lemma hex_digit_not_x:
  assumes "d < 16"
  shows "base_digit u d \<noteq> CHR ''x''" "base_digit u d \<noteq> CHR ''X''"
proof -
  have n: "(of_char (base_digit u d) :: nat) = (if d < 10 then 48 + d else if u then 55 + d else 87 + d)"
    using assms by (simp add: of_char_base_digit)
  have "(of_char (CHR ''x'') :: nat) = 120" "(of_char (CHR ''X'') :: nat) = 88" by simp_all
  with n assms show "base_digit u d \<noteq> CHR ''x''" "base_digit u d \<noteq> CHR ''X''"
    by (auto split: if_splits)
qed

lemma int_to_str_loop_read:
  "1 < b \<Longrightarrow> b \<le> 36 \<Longrightarrow>
   \<exists>k. \<forall>acc. read_digits b acc (int_to_str_loop v b u ret) = read_digits b (acc * b ^ k + v) ret"
proof (induction v b u ret rule: int_to_str_loop.induct)
  case (1 v b u ret)
  show ?case
  proof (cases "v = 0")
    case True
    then show ?thesis by (intro exI [of _ 0]) (simp add: int_to_str_loop.simps [of 0])
  next
    case False
    with 1 obtain k where k: "\<forall>acc. read_digits b acc
        (int_to_str_loop (v div b) b u (base_digit u (v mod b) # ret)) =
        read_digits b (acc * b ^ k + v div b) (base_digit u (v mod b) # ret)" by auto
    have "(acc * b ^ k + v div b) * b + v mod b = acc * b ^ Suc k + v" for acc
      by (simp add: algebra_simps)
    then show ?thesis
      using k False "1.prems"
      by (intro exI [of _ "Suc k"]) (simp add: int_to_str_loop.simps [of v])
  qed
qed

lemma int_to_str_loop_set:
  "set (int_to_str_loop v b u ret) \<subseteq> {base_digit u d | d. d < b} \<union> set ret"
proof (induction v b u ret rule: int_to_str_loop.induct)
  case (1 v b u ret)
  show ?case
  proof (cases "v \<noteq> 0 \<and> 1 < b")
    case True
    then have "base_digit u (v mod b) \<in> {base_digit u d | d. d < b}" by auto
    then have "set (int_to_str_loop (v div b) b u (base_digit u (v mod b) # ret)) \<subseteq>
        {base_digit u d | d. d < b} \<union> set ret"
      using "1.IH" [OF True] by (auto simp del: mem_Collect_eq)
    with True show ?thesis by (subst int_to_str_loop.simps) simp
  next
    case False
    then show ?thesis by (subst int_to_str_loop.simps) auto
  qed
qed

lemma int_to_str_loop_nonempty:
  "ret \<noteq> [] \<or> v \<noteq> 0 \<Longrightarrow> 1 < b \<Longrightarrow> int_to_str_loop v b u ret \<noteq> []"
proof (induction v b u ret rule: int_to_str_loop.induct)
  case (1 v b u ret)
  then show ?case by (subst int_to_str_loop.simps) auto
qed

text \<open>The text a printed number gives is read whole: no blank, sign or prefix is in the way.\<close>

lemma c_strto_digits:
  assumes "1 < b" "b \<le> 36" "s \<noteq> []" "set s \<subseteq> {base_digit u d | d. d < b}"
  shows "c_strto s (int b) = Some (False, read_digits b 0 s)"
proof -
  obtain d r where s: "s = base_digit u d # r" "d < b" using assms(3,4) by (cases s) auto
  have d: "d < 36" using s(2) assms(2) by simp
  have ws: "dropWhile c_isspace s = s" using base_digit_not_special(1) [OF d] s(1) by simp
  have sign: "c_sign s = (False, s)"
    using base_digit_not_special(2,3) [OF d] s(1)
    by (auto simp: c_sign_def split: list.splits char.splits bool.splits)
  have "\<not> hex_prefix s" if "b = 16"
    using assms(4) that hex_digit_not_x by (fastforce simp: hex_prefix_def split: list.splits)
  with ws sign s assms(1,2) show ?thesis
    by (auto simp: c_strto_def Let_def split: list.splits)
qed

section \<open>Splitting\<close>

lemma split_loop_returns:
  assumes "delim \<noteq> []"
  shows "\<exists>ts. split_loop str delim prev tokens = Some ts"
proof (induction "length str - prev" arbitrary: prev tokens rule: less_induct)
  case less
  show ?case
  proof (cases "find_from str delim prev")
    case None
    then show ?thesis by (simp add: split_loop.simps [of str delim prev] Let_def)
  next
    case (Some pos)
    let ?tok = "substr str prev (pos - prev)"
    let ?toks = "if ?tok \<noteq> [] then tokens @ [?tok] else tokens"
    show ?thesis
    proof (cases "pos < length str \<and> pos + length delim < length str")
      case True
      have "prev \<le> pos" using find_from_Some(1) [OF Some] .
      moreover have "0 < length delim" using assms by simp
      ultimately have "length str - (pos + length delim) < length str - prev"
        using True by linarith
      then obtain ts where "split_loop str delim (pos + length delim) ?toks = Some ts"
        using less by blast
      with True Some show ?thesis
        by (simp add: split_loop.simps [of str delim prev] Let_def split del: if_split)
    next
      case False
      with Some show ?thesis by (auto simp: split_loop.simps [of str delim prev] Let_def)
    qed
  qed
qed

lemma split_loop_diverges:
  assumes ret: "split_loop str delim prev tokens = Some ts"
  shows "delim = [] \<Longrightarrow> \<not> prev < length str"
proof (rule split_loop.raw_induct
    [where P = "\<lambda>str delim prev tokens ts. delim = [] \<longrightarrow> \<not> prev < length str", OF _ ret, THEN mp])
  fix f str delim prev tokens ts
  assume IH: "\<And>str delim prev tokens ts. f str delim prev tokens = Some ts \<Longrightarrow> delim = [] \<longrightarrow> \<not> prev < length str"
    and eq: "(let pos = (case find_from str delim prev of None \<Rightarrow> length str | Some i \<Rightarrow> i);
          token = substr str prev (pos - prev);
          tokens' = (if token \<noteq> [] then tokens @ [token] else tokens);
          prev' = pos + length delim
      in if pos < length str \<and> prev' < length str then f str delim prev' tokens' else Some tokens') = Some ts"
  show "delim = [] \<longrightarrow> \<not> prev < length str"
  proof (intro impI notI)
    assume d: "delim = []" and p: "prev < length str"
    then have "find_from str delim prev = Some prev" using d by simp
    with eq d p have "f str [] prev tokens = Some ts" by (simp add: Let_def substr_def)
    with IH p show False by blast
  qed
qed

text \<open>Single-character delimiters.\<close>

lemma starts_at_single: "starts_at s [c] i \<longleftrightarrow> i < length s \<and> s ! i = c"
  by (auto simp: starts_at_def take_Suc hd_drop_conv_nth)

lemma find_from_single_Some:
  assumes "c \<notin> set t"
  shows "find_from (pre @ t @ c # rest) [c] (length pre) = Some (length pre + length t)"
proof (cases "find_from (pre @ t @ c # rest) [c] (length pre)")
  case None
  have "starts_at (pre @ t @ c # rest) [c] (length pre + length t)"
    by (simp add: starts_at_single nth_append)
  with None show ?thesis by (auto simp: find_from_None)
next
  case (Some i)
  have st: "starts_at (pre @ t @ c # rest) [c] i" and le: "length pre \<le> i"
    and first: "\<forall>j. length pre \<le> j \<and> j < i \<longrightarrow> \<not> starts_at (pre @ t @ c # rest) [c] j"
    using find_from_Some [OF Some] by auto
  have "\<not> i < length pre + length t"
  proof
    assume "i < length pre + length t"
    then have lt: "i - length pre < length t" using le by linarith
    then have "t ! (i - length pre) = c" using st le by (simp add: starts_at_single nth_append)
    then show False using lt assms nth_mem by metis
  qed
  moreover have "starts_at (pre @ t @ c # rest) [c] (length pre + length t)"
    by (simp add: starts_at_single nth_append)
  then have "\<not> length pre + length t < i" using first by (meson le_add1)
  ultimately have "i = length pre + length t" by simp
  with Some show ?thesis by simp
qed

lemma find_from_single_None:
  assumes "c \<notin> set t"
  shows "find_from (pre @ t) [c] (length pre) = None"
  unfolding find_from_None
proof (intro allI impI notI)
  fix i assume "length pre \<le> i" "starts_at (pre @ t) [c] i"
  then have "t ! (i - length pre) = c" "i - length pre < length t"
    by (auto simp: starts_at_single nth_append)
  then show False using assms nth_mem by metis
qed

lemma split_loop_tokens:
  assumes "\<forall>t \<in> set ts. t \<noteq> [] \<and> c \<notin> set t" "ts \<noteq> []"
  shows "split_loop (pre @ sep_join [c] ts) [c] (length pre) acc = Some (acc @ ts)"
  using assms
proof (induction ts arbitrary: pre acc)
  case (Cons t ts)
  show ?case
  proof (cases ts)
    case Nil
    with Cons.prems show ?thesis
      by (simp add: split_loop.simps find_from_single_None substr_def)
  next
    case (Cons t2 ts2)
    let ?rest = "sep_join [c] ts"
    have str: "pre @ sep_join [c] (t # ts) = pre @ t @ c # ?rest"
      using Cons by (simp add: sep_join_Cons)
    have ne: "?rest \<noteq> []" using Cons.prems Cons sep_join_Cons_nonempty [of t2 "[c]" ts2] by simp
    have "split_loop (pre @ t @ c # ?rest) [c] (length pre) acc =
          split_loop (pre @ t @ c # ?rest) [c] (length (pre @ t @ [c])) (acc @ [t])"
      using Cons.prems ne
      by (subst split_loop.simps) (simp add: find_from_single_Some substr_def)
    also have "\<dots> = Some ((acc @ [t]) @ ts)"
      using Cons.IH [of "pre @ t @ [c]" "acc @ [t]"] Cons.prems Cons by simp
    finally show ?thesis using str by simp
  qed
qed simp

lemma join_loop_sep_join:
  "join_loop delim d ss ret = ret @ (if ss = [] then [] else d @ sep_join delim ss)"
proof (induction ss arbitrary: d ret)
  case (Cons s ss)
  show ?case
  proof (cases ss)
    case (Cons s2 ss2)
    then show ?thesis using Cons.IH [of delim "ret @ d @ s"] by simp
  qed simp
qed simp

lemma Join_sep_join: "Join ss delim = sep_join delim ss"
  by (cases ss) (simp_all add: Join_def join_loop_sep_join)

section \<open>Replacing\<close>

text \<open>The reference: replace the leftmost occurrence, go on after it, never inside the replacement.\<close>

function replace_spec :: "string \<Rightarrow> string \<Rightarrow> string \<Rightarrow> string" where
  "replace_spec a b s =
     (if a \<noteq> [] \<and> take (length a) s = a then b @ replace_spec a b (drop (length a) s)
      else case s of [] \<Rightarrow> [] | x # xs \<Rightarrow> x # replace_spec a b xs)"
  by pat_completeness auto
termination
proof (relation "measure (\<lambda>(a, b, s). length s)")
  fix a b s :: string assume "a \<noteq> [] \<and> take (length a) s = a"
  then have "s \<noteq> []" "a \<noteq> []" by auto
  then show "((a, b, drop (length a) s), (a, b, s)) \<in> measure (\<lambda>(a, b, s). length s)"
    by (cases a; cases s) auto
qed auto

declare replace_spec.simps [simp del]

lemma replace_spec_skip:
  assumes "\<forall>j < n. take (length a) (drop j s) \<noteq> a" "n \<le> length s"
  shows "replace_spec a b s = take n s @ replace_spec a b (drop n s)"
  using assms
proof (induction n arbitrary: s)
  case (Suc n)
  then obtain x xs where s: "s = x # xs" by (cases s) auto
  have "take (length a) s \<noteq> a" using Suc.prems(1) by fastforce
  then have "replace_spec a b s = x # replace_spec a b xs"
    using s by (subst replace_spec.simps) simp
  moreover have "\<forall>j < n. take (length a) (drop j xs) \<noteq> a" using Suc.prems(1) s by fastforce
  ultimately show ?case using Suc.IH [of xs] Suc.prems(2) s by simp
qed simp

lemma not_starts_at: "\<not> starts_at s a i \<Longrightarrow> i \<le> length s \<Longrightarrow> take (length a) (drop i s) \<noteq> a"
  unfolding starts_at_def by (metis (no_types) drop_drop length_drop length_take linear min.absorb_iff2
      add.commute le_diff_conv2 min_def)

lemma replace_loop_spec:
  assumes "a \<noteq> []" "from \<le> length str"
  shows "replace_loop str a b from res = Some (res @ replace_spec a b (drop from str))"
  using assms(2)
proof (induction "length str - from" arbitrary: "from" res rule: less_induct)
  case less
  show ?case
  proof (cases "find_from str a from")
    case None
    have "\<forall>j < length (drop from str). take (length a) (drop j (drop from str)) \<noteq> a"
      using None less.prems not_starts_at by (simp add: find_from_None)
    then have "replace_spec a b (drop from str) = drop from str @ replace_spec a b []"
      using replace_spec_skip [of "length (drop from str)" a "drop from str" b] by simp
    then show ?thesis using None assms(1) by (simp add: replace_loop.simps replace_spec.simps [of a b "[]"])
  next
    case (Some pos)
    note f = find_from_Some [OF Some]
    have lt: "length str - (pos + length a) < length str - from"
      using f assms(1) by (cases a) auto
    have "replace_loop str a b from res =
        Some ((res @ substr str from (pos - from) @ b) @ replace_spec a b (drop (pos + length a) str))"
      using Some less.hyps [OF lt] f(3) by (simp add: replace_loop.simps)
    moreover have "replace_spec a b (drop from str) =
        take (pos - from) (drop from str) @ replace_spec a b (drop pos str)"
      using replace_spec_skip [of "pos - from" a "drop from str" b] f not_starts_at [of str a] by simp
    moreover have "replace_spec a b (drop pos str) = b @ replace_spec a b (drop (pos + length a) str)"
      using f(2) assms(1) by (subst replace_spec.simps) (simp add: starts_at_def add.commute)
    ultimately show ?thesis by (simp add: substr_def)
  qed
qed

lemma replace_loop_diverges:
  assumes ret: "replace_loop str a b from res = Some r"
  shows "a = [] \<Longrightarrow> \<not> from \<le> length str"
proof (rule replace_loop.raw_induct
    [where P = "\<lambda>str a b from res r. a = [] \<longrightarrow> \<not> from \<le> length str", OF _ ret, THEN mp])
  fix f str a b "from" res r
  assume IH: "\<And>str a b from res r. f str a b from res = Some r \<Longrightarrow> a = [] \<longrightarrow> \<not> from \<le> length str"
    and eq: "(case find_from str a from of
        None \<Rightarrow> Some (res @ drop from str)
      | Some pos \<Rightarrow> f str a b (pos + length a) (res @ substr str from (pos - from) @ b)) = Some r"
  show "a = [] \<longrightarrow> \<not> from \<le> length str"
  proof (intro impI notI)
    assume a: "a = []" and p: "from \<le> length str"
    then have "find_from str a from = Some from" by simp
    with eq a p have "f str [] b from (res @ substr str from 0 @ b) = Some r" by simp
    with IH p show False by blast
  qed
qed

lemma Split_empty_str: "delim \<noteq> [] \<Longrightarrow> Split [] delim = Some []"
  by (simp add: Split_def split_loop.simps find_from_def starts_at_def substr_def)

section \<open>Properties\<close>

text \<open>C37: a printed 64-bit number parses back. Whatever base between 2 and 36 and whatever case of
  letters \<^verbatim>\<open>IntToStrCustomBase\<close> prints with, \<^verbatim>\<open>StrToULongLong\<close> in the same
  base returns the value.\<close>

theorem IntToStr_StrToULongLong:
  assumes "IntToStrCustomBase v b u = Inr s"
  shows "StrToULongLong s (int b) = v"
proof -
  have b: "1 < b" "b \<le> 36" using assms by (auto simp: IntToStrCustomBase_def rassert_Inr_conv)
  define t where "t = (if v = 0 then ''0'' else int_to_str_loop (unat v) b u [])"
  have s: "s = t" using assms b by (auto simp: IntToStrCustomBase_def t_def)
  have zero: "''0'' = [base_digit u 0]" by (simp add: base_digit_def char_of_def bit_0)
  have "t \<noteq> []" using b by (auto simp: t_def int_to_str_loop_nonempty unat_eq_0)
  moreover have "set t \<subseteq> {base_digit u d | d. d < b}"
    using int_to_str_loop_set [of "unat v" b u "[]"] b zero by (auto simp: t_def)
  moreover have "read_digits b 0 t = unat v"
  proof (cases "v = 0")
    case True
    then have "t = [base_digit u 0]" using zero by (simp add: t_def)
    then show ?thesis using b True by simp
  next
    case False
    then show ?thesis using int_to_str_loop_read [OF b, of "unat v" u "[]"] by (auto simp: t_def)
  qed
  ultimately have "c_strto t (int b) = Some (False, unat v)"
    using c_strto_digits [OF b] by simp
  then show ?thesis using s unsigned_less [where ?'a = nat and w = v] by (simp add: StrToULongLong_def)
qed

theorem IntToStr_StrToULongLong_witness:
  "IntToStrCustomBase 48879 16 True = Inr ''BEEF'' \<and> StrToULongLong ''BEEF'' (int 16) = 48879"
proof -
  have h: "IntToStrCustomBase 48879 16 True = Inr ''BEEF''"
    by (simp add: IntToStrCustomBase_def int_to_str_loop.simps base_digit_def char_of_def bit_0)
  show ?thesis using h IntToStr_StrToULongLong [OF h] by blast
qed

text \<open>C38: joining tokens with a one-character delimiter and splitting again gives the tokens back, for
  tokens that are non-empty and free of the delimiter (\<^verbatim>\<open>Split\<close> drops empty tokens).\<close>

theorem Split_Join:
  assumes "\<forall>t \<in> set ts. t \<noteq> [] \<and> c \<notin> set t"
  shows "Split (Join ts [c]) [c] = Some ts"
proof (cases "ts = []")
  case True
  then show ?thesis by (simp add: Join_sep_join Split_empty_str)
next
  case False
  then show ?thesis
    using split_loop_tokens [OF assms False, of "[]" "[]"] by (simp add: Split_def Join_sep_join)
qed

theorem Split_Join_witness:
  "Split (Join [''a'', ''bc''] '','') '','' = Some [''a'', ''bc'']"
  by (rule Split_Join) simp

text \<open>C40: \<^verbatim>\<open>Split\<close> returns on every input except a non-empty string with an empty
  delimiter, where its loop never advances and the call does not return.\<close>

theorem Split_returns_iff: "Split str delim = None \<longleftrightarrow> delim = [] \<and> str \<noteq> []"
proof
  assume n: "Split str delim = None"
  then have d: "delim = []"
    using split_loop_returns [of delim str 0 "[]"] by (auto simp: Split_def)
  have "split_loop [] [] 0 [] \<noteq> None"
    by (subst split_loop.simps) (simp add: substr_def)
  with n d show "delim = [] \<and> str \<noteq> []" by (auto simp: Split_def)
next
  assume "delim = [] \<and> str \<noteq> []"
  then show "Split str delim = None"
    using split_loop_diverges [of str delim 0 "[]"] by (cases "Split str delim") (auto simp: Split_def)
qed

text \<open>C39: \<^verbatim>\<open>ReplaceAll\<close> replaces the leftmost non-overlapping occurrences and goes on
  after each of them, for every non-empty pattern; for an empty pattern it never returns.\<close>

theorem ReplaceAll_spec:
  "ReplaceAll str a b = (if a = [] then None else Some (replace_spec a b str))"
proof (cases "a = []")
  case True
  then show ?thesis
    using replace_loop_diverges [of str a b 0 "[]"]
    by (cases "ReplaceAll str a b") (auto simp: ReplaceAll_def)
next
  case False
  then show ?thesis using replace_loop_spec [of a 0 str b "[]"] by (simp add: ReplaceAll_def)
qed

end
