(* ===== verification/Symbols.thy ===== *)
theory Symbols
  imports StrUtil
begin

text \<open>
  The class \<^verbatim>\<open>Symbol\<close> of src/ila/symbol.cc: a name with an identifier drawn from a
  global counter. Every object of the ILA data model (src/ila/object.cc) owns one.
\<close>

record Symbol =
  sym_name :: string
  sym_id :: nat

text \<open>The static \<^verbatim>\<open>counter_\<close> is passed and returned.\<close>

definition Symbol_default :: "nat \<Rightarrow> Symbol \<times> nat" where
  "Symbol_default counter =
     (let i = counter + 1 in (\<lparr>sym_name = ''$'' @ to_string i, sym_id = i\<rparr>, i))"

definition Symbol_str :: "string \<Rightarrow> nat \<Rightarrow> Symbol \<times> nat" where
  "Symbol_str str counter = (let i = counter + 1 in (\<lparr>sym_name = str, sym_id = i\<rparr>, i))"

definition Symbol_copy :: "Symbol \<Rightarrow> Symbol" where
  "Symbol_copy rhs = \<lparr>sym_name = sym_name rhs, sym_id = sym_id rhs\<rparr>"

definition format_name :: "string \<Rightarrow> string \<Rightarrow> string \<Rightarrow> string" where
  "format_name nm pre suffix =
     (let res = nm;
          res = (if pre \<noteq> [] then pre @ ''_sEp_'' @ res else res);
          res = (if suffix \<noteq> [] then res @ ''_sEp_'' @ suffix else res)
      in res)"

definition format_str :: "Symbol \<Rightarrow> string \<Rightarrow> string \<Rightarrow> string" where
  "format_str s pre suffix = format_name (sym_name s) pre suffix"

definition to_int :: "Symbol \<Rightarrow> int" where
  "to_int s = StrToInt (sym_name s) 10"

definition set_name :: "string \<Rightarrow> Symbol \<Rightarrow> Symbol" where
  "set_name nm s = s\<lparr>sym_name := nm\<rparr>"

text \<open>Assignment copies the name and keeps the identifier of the target.\<close>

definition Symbol_assign :: "Symbol \<Rightarrow> Symbol \<Rightarrow> Symbol" where
  "Symbol_assign lhs rhs = lhs\<lparr>sym_name := sym_name rhs\<rparr>"

definition Symbol_eq :: "Symbol \<Rightarrow> Symbol \<Rightarrow> bool" where
  "Symbol_eq lhs rhs = (sym_name lhs = sym_name rhs)"

definition Symbol_less :: "Symbol \<Rightarrow> Symbol \<Rightarrow> bool" where
  "Symbol_less lhs rhs = (sym_name lhs < sym_name rhs)"

text \<open>For a fixed variable the formatted names of different suffixes differ.\<close>

lemma format_name_suffix_inj:
  "s1 \<noteq> [] \<Longrightarrow> s2 \<noteq> [] \<Longrightarrow> format_name n p s1 = format_name n p s2 \<longleftrightarrow> s1 = s2"
  by (simp add: format_name_def Let_def)

lemma format_name_name_inj:
  "format_name n1 p s = format_name n2 p s \<longleftrightarrow> n1 = n2"
  by (simp add: format_name_def Let_def)

text \<open>Fresh symbols have fresh identifiers.\<close>

lemma Symbol_fresh:
  "Symbol_str str c = (s, c') \<Longrightarrow> c < sym_id s \<and> sym_id s = c'"
  "Symbol_default c = (s, c') \<Longrightarrow> c < sym_id s \<and> sym_id s = c'"
  by (auto simp: Symbol_str_def Symbol_default_def Let_def)

end
