(* ===== verification/Sorts.thy ===== *)
theory Sorts
  imports Symbols
begin

text \<open>
  The sorts of include/ilang/ila/ast/sort.h and src/ila/ast/sort.cc. Each subclass of
  \<^verbatim>\<open>Sort\<close> is a constructor; a virtual method is a function by cases. A query that the
  base class answers with a failed assertion is an error. The Z3 sorts of structs and
  vectors (an uninterpreted sort named by a private symbol) are not modelled.
\<close>

datatype AstUidSort = kBool | kBv | kMem | kStruct | kVec

datatype sort =
    SortBool
  | SortBv int
  | SortMem int int
  | SortStruct "(string \<times> sort) list"
  | SortVector sort int

definition MakeBoolSort :: sort where
  "MakeBoolSort = SortBool"

definition MakeBvSort :: "int \<Rightarrow> sort" where
  "MakeBvSort w = SortBv w"

definition MakeMemSort :: "int \<Rightarrow> int \<Rightarrow> sort" where
  "MakeMemSort a d = SortMem a d"

definition MakeStructSort :: "(string \<times> sort) list \<Rightarrow> sort" where
  "MakeStructSort ms = SortStruct ms"

definition MakeVectorSort :: "sort \<Rightarrow> int \<Rightarrow> sort result" where
  "MakeVectorSort da n =
     rassert (0 \<le> n) (IlaAssert ''Can't define a vector of negative size'') (Inr (SortVector da n))"

fun sort_uid :: "sort \<Rightarrow> AstUidSort" where
  "sort_uid SortBool = kBool"
| "sort_uid (SortBv _) = kBv"
| "sort_uid (SortMem _ _) = kMem"
| "sort_uid (SortStruct _) = kStruct"
| "sort_uid (SortVector _ _) = kVec"

fun is_bool :: "sort \<Rightarrow> bool" where
  "is_bool SortBool = True"
| "is_bool _ = False"

text \<open>\<^verbatim>\<open>is_bv(width)\<close>: width 0, the default argument, accepts every width.\<close>

fun is_bv :: "sort \<Rightarrow> int \<Rightarrow> bool" where
  "is_bv (SortBv w) width = (if width = 0 then True else width = w)"
| "is_bv _ width = False"

fun is_mem :: "sort \<Rightarrow> bool" where
  "is_mem (SortMem _ _) = True"
| "is_mem _ = False"

fun is_struct :: "sort \<Rightarrow> bool" where
  "is_struct (SortStruct _) = True"
| "is_struct _ = False"

fun is_vec :: "sort \<Rightarrow> bool" where
  "is_vec (SortVector _ _) = True"
| "is_vec _ = False"

text \<open>
  The overload \<^verbatim>\<open>is_vec(data_atom)\<close> is not overridden by \<^verbatim>\<open>SortVector\<close>: every
  sort answers with the base class.
\<close>

definition is_vec_of :: "sort \<Rightarrow> sort \<Rightarrow> bool" where
  "is_vec_of s da = False"

fun bit_width :: "sort \<Rightarrow> int result" where
  "bit_width (SortBv w) = Inr w"
| "bit_width _ = Inl (IlaAssert ''Query bit-width from non-bit-vector sort.'')"

fun addr_width :: "sort \<Rightarrow> int result" where
  "addr_width (SortMem a d) = Inr a"
| "addr_width _ = Inl (IlaAssert ''Query addr-width from non-mem sort.'')"

fun data_width :: "sort \<Rightarrow> int result" where
  "data_width (SortMem a d) = Inr d"
| "data_width _ = Inl (IlaAssert ''Query data-width from non-mem sort.'')"

fun find_member :: "string \<Rightarrow> (string \<times> sort) list \<Rightarrow> sort result" where
  "find_member nm [] = Inl (IlaAssert ''member not found'')"
| "find_member nm ((n, s) # ms) = (if n = nm then Inr s else find_member nm ms)"

fun get_member_sort :: "sort \<Rightarrow> string \<Rightarrow> sort result" where
  "get_member_sort (SortStruct ms) nm = find_member nm ms"
| "get_member_sort _ nm = Inl (IlaAssert ''Can't get the member of a sort that's not a struct.'')"

fun sort_members :: "sort \<Rightarrow> (string \<times> sort) list result" where
  "sort_members (SortStruct ms) = Inr ms"
| "sort_members _ = Inl (IlaAssert ''Can't get the members of a sort that's not a struct.'')"

fun data_atom :: "sort \<Rightarrow> sort result" where
  "data_atom (SortVector da n) = Inr da"
| "data_atom _ = Inl (IlaAssert ''Can't get the data-atom of a sort that's not a vector.'')"

fun vec_size :: "sort \<Rightarrow> int result" where
  "vec_size (SortVector da n) = Inr n"
| "vec_size _ = Inl (IlaAssert ''Can't get the vector size of a sort that's not a vector.'')"

text \<open>
  \<^verbatim>\<open>Equal\<close>, class by class. Vectors of members compare by length, then pair by
  pair, with the overloaded \<^verbatim>\<open>==\<close> on sort pointers, which calls \<^verbatim>\<open>Equal\<close>.
\<close>

fun sort_Equal :: "sort \<Rightarrow> sort \<Rightarrow> bool"
  and members_Equal :: "(string \<times> sort) list \<Rightarrow> (string \<times> sort) list \<Rightarrow> bool" where
  "sort_Equal SortBool rhs = is_bool rhs"
| "sort_Equal (SortBv w) rhs = (is_bv rhs 0 \<and> bit_width rhs = Inr w)"
| "sort_Equal (SortMem a d) rhs = (is_mem rhs \<and> addr_width rhs = Inr a \<and> data_width rhs = Inr d)"
| "sort_Equal (SortStruct ms) rhs =
     (if \<not> is_struct rhs then False
      else case sort_members rhs of Inl e \<Rightarrow> False | Inr ms' \<Rightarrow> members_Equal ms ms')"
| "sort_Equal (SortVector da n) rhs =
     (if \<not> is_vec rhs then False
      else vec_size rhs = Inr n \<and>
           (case data_atom rhs of Inl e \<Rightarrow> False | Inr da' \<Rightarrow> sort_Equal da da'))"
| "members_Equal [] [] = True"
| "members_Equal ((n, s) # ms) ((n', s') # ms') = (n = n' \<and> sort_Equal s s' \<and> members_Equal ms ms')"
| "members_Equal _ _ = False"

fun sort_Print :: "sort \<Rightarrow> string" and members_Print :: "bool \<Rightarrow> (string \<times> sort) list \<Rightarrow> string" where
  "sort_Print SortBool = ''Boolean''"
| "sort_Print (SortBv w) = ''Bv('' @ int_to_string w @ '')''"
| "sort_Print (SortMem a d) = ''Mem('' @ int_to_string a @ '', '' @ int_to_string d @ '')''"
| "sort_Print (SortStruct ms) = ''{ '' @ members_Print True ms @ '' }''"
| "sort_Print (SortVector da n) = ''Array['' @ int_to_string n @ ''](''  @ sort_Print da @ '')''"
| "members_Print isfirst [] = []"
| "members_Print isfirst ((n, s) # ms) =
     (if isfirst then [] else '', '') @ n @ '': '' @ sort_Print s @ members_Print False ms"

lemma is_bool_iff [simp]: "is_bool s \<longleftrightarrow> s = SortBool"
  by (cases s) auto

lemma is_bv_iff [simp]: "is_bv s 0 \<longleftrightarrow> (\<exists>w. s = SortBv w)"
  by (cases s) auto

lemma is_bv_width_iff: "w \<noteq> 0 \<Longrightarrow> is_bv s w \<longleftrightarrow> s = SortBv w"
  by (cases s) auto

lemma is_mem_iff [simp]: "is_mem s \<longleftrightarrow> (\<exists>a d. s = SortMem a d)"
  by (cases s) auto

lemma is_struct_iff [simp]: "is_struct s \<longleftrightarrow> (\<exists>ms. s = SortStruct ms)"
  by (cases s) auto

lemma is_vec_iff [simp]: "is_vec s \<longleftrightarrow> (\<exists>da n. s = SortVector da n)"
  by (cases s) auto

lemma width_Inr_iff [simp]:
  "bit_width s = Inr w \<longleftrightarrow> s = SortBv w"
  "addr_width s = Inr a \<longleftrightarrow> (\<exists>d. s = SortMem a d)"
  "data_width s = Inr d \<longleftrightarrow> (\<exists>a. s = SortMem a d)"
  "data_atom s = Inr da \<longleftrightarrow> (\<exists>n. s = SortVector da n)"
  "vec_size s = Inr n \<longleftrightarrow> (\<exists>da. s = SortVector da n)"
  "sort_members s = Inr ms \<longleftrightarrow> s = SortStruct ms"
  by (cases s; auto)+

text \<open>The class-by-class comparison is equality of sorts.\<close>

lemma sort_Equal_iff [simp]: "sort_Equal s t \<longleftrightarrow> s = t"
  and members_Equal_iff [simp]: "members_Equal ms ms' \<longleftrightarrow> ms = ms'"
proof (induction s t and ms ms' rule: sort_Equal_members_Equal.induct)
  case (4 ms rhs)
  then show ?case by (cases rhs) auto
next
  case (5 da n rhs)
  then show ?case by (cases rhs) auto
qed auto

lemma find_member_conv:
  "find_member nm ms = (case map_of ms nm of None \<Rightarrow> Inl (IlaAssert ''member not found'') | Some s \<Rightarrow> Inr s)"
  by (induction nm ms rule: find_member.induct) auto

end
