(* ===== verification/Containers.thy ===== *)
theory Containers
  imports Prelude
begin

text \<open>
  The containers of include/ilang/util/container.h: \<^verbatim>\<open>KeyVec\<close>, a vector with an
  index from keys to positions, with its pseudo iterator, and \<^verbatim>\<open>MapSet\<close>.
  \<^verbatim>\<open>find\<close> hands out a pointer to the container's own \<^verbatim>\<open>it_\<close>, so two results
  alias; the model returns a pointer value and the container with \<^verbatim>\<open>it_\<close> updated.
\<close>

section \<open>KeyVec\<close>

datatype KeyVecItVal = END | FOUND

record ('k, 't) KeyVecIt =
  result :: KeyVecItVal
  first :: "'k option"     \<comment> \<open>\<open>None\<close>: the default-constructed key\<close>
  second :: "'t option"    \<comment> \<open>\<open>None\<close>: the default-constructed data\<close>

record ('k, 't) KeyVec =
  vec :: "'t list"
  kmap :: "('k, nat) amap"
  it :: "('k, 't) KeyVecIt"

text \<open>A \<^verbatim>\<open>KeyVecItPtr\<close> points to the static \<^verbatim>\<open>end_\<close> or to the container's \<^verbatim>\<open>it_\<close>.\<close>

datatype KeyVecItPtr = EndPtr | ItPtr

definition KeyVecIt_new :: "('k, 't) KeyVecIt" where
  "KeyVecIt_new = \<lparr>result = END, first = None, second = None\<rparr>"

definition KeyVec_new :: "('k, 't) KeyVec" where
  "KeyVec_new = \<lparr>vec = [], kmap = [], it = KeyVecIt_new\<rparr>"

definition kv_deref :: "('k, 't) KeyVec \<Rightarrow> KeyVecItPtr \<Rightarrow> ('k, 't) KeyVecIt" where
  "kv_deref kv p = (case p of EndPtr \<Rightarrow> KeyVecIt_new | ItPtr \<Rightarrow> it kv)"

text \<open>The overloaded \<^verbatim>\<open>==\<close> on iterator pointers compares the results only.\<close>

definition kv_it_eq :: "('k, 't) KeyVec \<Rightarrow> KeyVecItPtr \<Rightarrow> KeyVecItPtr \<Rightarrow> bool" where
  "kv_it_eq kv p q = (result (kv_deref kv p) = result (kv_deref kv q))"

definition push_back :: "'k::linorder \<Rightarrow> 't \<Rightarrow> ('k, 't) KeyVec \<Rightarrow> bool \<times> ('k, 't) KeyVec" where
  "push_back key data kv =
     (let idx = length (vec kv); status = (map_of (kmap kv) key = None);
          kv1 = kv\<lparr>kmap := amap_emplace key idx (kmap kv)\<rparr>
      in (status, if status then kv1\<lparr>vec := vec kv1 @ [data]\<rparr> else kv1))"

definition kv_at :: "('k, 't) KeyVec \<Rightarrow> nat \<Rightarrow> 't result" where
  "kv_at kv idx = (if idx < length (vec kv) then Inr (vec kv ! idx) else Inl OutOfRange)"

definition kv_size :: "('k, 't) KeyVec \<Rightarrow> nat" where
  "kv_size kv = length (vec kv)"

definition kv_empty :: "('k, 't) KeyVec \<Rightarrow> bool" where
  "kv_empty kv = (kv_size kv = 0)"

definition kv_clear :: "('k, 't) KeyVec \<Rightarrow> ('k, 't) KeyVec" where
  "kv_clear kv = kv\<lparr>vec := [], kmap := []\<rparr>"

definition kv_find :: "'k \<Rightarrow> ('k, 't) KeyVec \<Rightarrow> KeyVecItPtr \<times> ('k, 't) KeyVec" where
  "kv_find key kv =
     (case map_of (kmap kv) key of
        None \<Rightarrow> (EndPtr, kv)
      | Some idx \<Rightarrow>
          (ItPtr, kv\<lparr>it := \<lparr>result = FOUND, first = Some key, second = Some (vec kv ! idx)\<rparr>\<rparr>))"

text \<open>
  The idiom of every client: \<^verbatim>\<open>pos = m.find(k); pos == m.end() ? nullptr : pos->second\<close>.
\<close>

definition kv_get :: "('k, 't) KeyVec \<Rightarrow> 'k \<Rightarrow> 't option" where
  "kv_get kv key =
     (let (pos, kv') = kv_find key kv
      in if kv_it_eq kv' pos EndPtr then None else second (kv_deref kv' pos))"

section \<open>MapSet\<close>

type_synonym ('k, 't) MapSet = "('k, 't set) amap"

definition ms_insert :: "'k::linorder \<Rightarrow> 't \<Rightarrow> ('k, 't) MapSet \<Rightarrow> ('k, 't) MapSet" where
  "ms_insert k t m =
     amap_assign k (insert t (case map_of m k of None \<Rightarrow> {} | Some s \<Rightarrow> s)) m"

definition ms_get :: "'k \<Rightarrow> ('k, 't) MapSet \<Rightarrow> 't set result" where
  "ms_get k m = (case map_of m k of None \<Rightarrow> Inl OutOfRange | Some s \<Rightarrow> Inr s)"

section \<open>The invariant and the insertion-ordered view of a KeyVec\<close>

definition kv_inv :: "('k::linorder, 't) KeyVec \<Rightarrow> bool" where
  "kv_inv kv = (amap_ok (kmap kv) \<and> distinct (map snd (kmap kv)) \<and>
                snd ` set (kmap kv) = {..< length (vec kv)})"

definition kv_key :: "('k, 't) KeyVec \<Rightarrow> nat \<Rightarrow> 'k" where
  "kv_key kv i = the (map_of (map prod.swap (kmap kv)) i)"

definition kv_entries :: "('k, 't) KeyVec \<Rightarrow> ('k \<times> 't) list" where
  "kv_entries kv = map (\<lambda>i. (kv_key kv i, vec kv ! i)) [0 ..< length (vec kv)]"

lemma kv_inv_new [simp]: "kv_inv KeyVec_new"
  by (simp add: kv_inv_def KeyVec_new_def)

lemma kv_inv_clear [simp]: "kv_inv (kv_clear kv)"
  by (simp add: kv_inv_def kv_clear_def)

lemma kv_inv_range: "kv_inv kv \<Longrightarrow> map_of (kmap kv) k = Some i \<Longrightarrow> i < length (vec kv)"
  using map_of_SomeD_snd [of "kmap kv" k i] by (simp add: kv_inv_def)

lemma snd_emplace_fresh:
  "map_of m k = None \<Longrightarrow> set (amap_emplace k v m) = insert (k, v) (set m)"
  by (induction k v m rule: amap_emplace.induct) (auto split: if_splits)

lemma map_swap_fst: "map fst (map prod.swap m) = map snd m"
  by (simp add: comp_def)

lemma distinct_snd_emplace_fresh:
  "map_of m k = None \<Longrightarrow> v \<notin> snd ` set m \<Longrightarrow> distinct (map snd m) \<Longrightarrow>
   distinct (map snd (amap_emplace k v m))"
proof (induction k v m rule: amap_emplace.induct)
  case (2 k v k' v' m)
  have fresh: "map_of m k = None" using 2(2) by (auto split: if_splits)
  show ?case
    using 2 snd_emplace_fresh [OF fresh, of v] by (auto split: if_splits)
qed simp

lemma kv_inv_push [simp]: "kv_inv kv \<Longrightarrow> kv_inv (snd (push_back k t kv))"
proof -
  assume inv: "kv_inv kv"
  show ?thesis
  proof (cases "map_of (kmap kv) k")
    case None
    have "length (vec kv) \<notin> snd ` set (kmap kv)" using inv by (auto simp: kv_inv_def)
    with None inv show ?thesis
      by (auto simp: kv_inv_def push_back_def Let_def distinct_snd_emplace_fresh
          snd_emplace_fresh lessThan_Suc)
  next
    case (Some i)
    with Some inv show ?thesis by (simp add: kv_inv_def push_back_def Let_def emplace_present)
  qed
qed

lemma kv_key_mem: "kv_inv kv \<Longrightarrow> i < length (vec kv) \<Longrightarrow> (kv_key kv i, i) \<in> set (kmap kv)"
proof -
  assume inv: "kv_inv kv" and i: "i < length (vec kv)"
  then have "i \<in> snd ` set (kmap kv)" by (simp add: kv_inv_def)
  then obtain k where "(k, i) \<in> set (kmap kv)" by auto
  then have "(i, k) \<in> set (map prod.swap (kmap kv))" by force
  then obtain k' where k': "map_of (map prod.swap (kmap kv)) i = Some k'"
    by (meson weak_map_of_SomeI)
  then show ?thesis unfolding kv_key_def by (auto dest: map_of_SomeD)
qed

lemma kv_key_iff:
  assumes inv: "kv_inv kv"
  shows "map_of (kmap kv) k = Some i \<longleftrightarrow> i < length (vec kv) \<and> kv_key kv i = k"
proof
  assume m: "map_of (kmap kv) k = Some i"
  have i: "i < length (vec kv)" using kv_inv_range [OF inv m] .
  have "distinct (map fst (map prod.swap (kmap kv)))"
    using inv by (simp add: kv_inv_def comp_def)
  moreover have "(i, k) \<in> set (map prod.swap (kmap kv))" using map_of_SomeD [OF m] by force
  ultimately have "map_of (map prod.swap (kmap kv)) i = Some k" by simp
  then show "i < length (vec kv) \<and> kv_key kv i = k" using i by (simp add: kv_key_def)
next
  assume "i < length (vec kv) \<and> kv_key kv i = k"
  then have "(k, i) \<in> set (kmap kv)" using kv_key_mem [OF inv, of i] by simp
  then show "map_of (kmap kv) k = Some i" using inv by (simp add: kv_inv_def amap_ok_def)
qed

lemma kv_entries_keys_distinct: "kv_inv kv \<Longrightarrow> distinct (map fst (kv_entries kv))"
proof -
  assume inv: "kv_inv kv"
  have "inj_on (kv_key kv) {0 ..< length (vec kv)}"
    by (rule inj_onI) (metis (no_types) inv kv_key_iff atLeastLessThan_iff option.inject)
  then show ?thesis by (simp add: kv_entries_def comp_def distinct_map)
qed

lemma kv_get_conv: "kv_get kv k = map_option ((!) (vec kv)) (map_of (kmap kv) k)"
  by (simp add: kv_get_def kv_find_def kv_it_eq_def kv_deref_def KeyVecIt_new_def split: option.splits)

lemma kv_get_entries: "kv_inv kv \<Longrightarrow> kv_get kv k = map_of (kv_entries kv) k"
proof -
  assume inv: "kv_inv kv"
  show ?thesis
  proof (cases "map_of (kmap kv) k")
    case None
    then have "\<forall>i < length (vec kv). kv_key kv i \<noteq> k" using kv_key_iff [OF inv] by (metis option.distinct(1))
    then have "map_of (kv_entries kv) k = None"
      by (auto simp: map_of_eq_None_iff kv_entries_def)
    with None show ?thesis by (simp add: kv_get_conv)
  next
    case (Some i)
    then have i: "i < length (vec kv)" "kv_key kv i = k" using kv_key_iff [OF inv] by auto
    then have "(k, vec kv ! i) \<in> set (kv_entries kv)" by (auto simp: kv_entries_def)
    then have "map_of (kv_entries kv) k = Some (vec kv ! i)"
      using kv_entries_keys_distinct [OF inv] by simp
    with Some show ?thesis by (simp add: kv_get_conv)
  qed
qed

lemma kv_fresh_iff:
  assumes "kv_inv kv"
  shows "map_of (kmap kv) k = None \<longleftrightarrow> k \<notin> fst ` set (kv_entries kv)"
proof -
  have "map_of (kv_entries kv) k = map_option ((!) (vec kv)) (map_of (kmap kv) k)"
    using kv_get_entries [OF assms, of k] by (simp add: kv_get_conv)
  then have "map_of (kmap kv) k = None \<longleftrightarrow> map_of (kv_entries kv) k = None"
    by (cases "map_of (kmap kv) k") simp_all
  then show ?thesis by (simp only: map_of_eq_None_iff)
qed

lemma kv_push_status: "kv_inv kv \<Longrightarrow> fst (push_back k t kv) \<longleftrightarrow> k \<notin> fst ` set (kv_entries kv)"
  by (simp only: push_back_def Let_def fst_conv kv_fresh_iff)

lemma kv_push_entries:
  assumes inv: "kv_inv kv" and fresh: "map_of (kmap kv) k = None"
  shows "kv_entries (snd (push_back k t kv)) = kv_entries kv @ [(k, t)]"
proof -
  let ?kv' = "snd (push_back k t kv)" and ?n = "length (vec kv)"
  have inv': "kv_inv ?kv'" using inv by simp
  have vec': "vec ?kv' = vec kv @ [t]" using fresh by (simp add: push_back_def Let_def)
  have km': "map_of (kmap ?kv') x = (if x = k then Some ?n else map_of (kmap kv) x)" for x
    using fresh inv by (simp add: push_back_def Let_def kv_inv_def map_of_emplace)
  have "kv_key ?kv' i = kv_key kv i" if "i < ?n" for i
  proof -
    have "map_of (kmap kv) (kv_key kv i) = Some i" using kv_key_iff [OF inv] that by blast
    then have "map_of (kmap ?kv') (kv_key kv i) = Some i" using km' fresh by auto
    then show ?thesis using kv_key_iff [OF inv'] by blast
  qed
  moreover have "kv_key ?kv' ?n = k" using km' [of k] kv_key_iff [OF inv'] by auto
  ultimately show ?thesis
    by (simp add: kv_entries_def vec' nth_append)
qed

lemma kv_push_old:
  "kv_inv kv \<Longrightarrow> map_of (kmap kv) k = Some i \<Longrightarrow> snd (push_back k t kv) = kv"
  by (simp add: push_back_def Let_def emplace_present kv_inv_def)

section \<open>The contract of a keyed vector\<close>

text \<open>
  What the ILA classes rely on: pushing under a new key appends an entry, pushing under a
  known key is refused and changes nothing, and lookups read the entries.
\<close>

locale keyed_vector =
  fixes kinv :: "'m \<Rightarrow> bool"
    and entries :: "'m \<Rightarrow> ('k \<times> 't) list"
    and push :: "'k \<Rightarrow> 't \<Rightarrow> 'm \<Rightarrow> bool \<times> 'm"
    and get :: "'m \<Rightarrow> 'k \<Rightarrow> 't option"
  assumes push_inv: "kinv m \<Longrightarrow> kinv (snd (push k t m))"
    and keys_distinct: "kinv m \<Longrightarrow> distinct (map fst (entries m))"
    and push_spec: "kinv m \<Longrightarrow>
        push k t m = (b, m') \<Longrightarrow>
        b = (k \<notin> fst ` set (entries m)) \<and>
        entries m' = (if b then entries m @ [(k, t)] else entries m)"
    and get_spec: "kinv m \<Longrightarrow> get m k = map_of (entries m) k"
begin

lemma push_eq:
  "kinv m \<Longrightarrow>
   entries (snd (push k t m)) =
     (if k \<in> fst ` set (entries m) then entries m else entries m @ [(k, t)])"
  using push_spec [of m k t "fst (push k t m)" "snd (push k t m)"] by auto

lemma get_push:
  assumes "kinv m"
  shows "get (snd (push k t m)) x =
     (if x = k then (case get m k of None \<Rightarrow> Some t | Some u \<Rightarrow> Some u) else get m x)"
proof -
  have get': "get (snd (push k t m)) x = map_of (entries (snd (push k t m))) x"
    using assms by (simp add: get_spec push_inv)
  show ?thesis
  proof (cases "get m k")
    case None
    with assms have "k \<notin> fst ` set (entries m)" by (simp add: get_spec map_of_eq_None_iff)
    with assms None get' show ?thesis
      by (auto simp: push_eq get_spec map_add_def split: option.splits)
  next
    case (Some u)
    with assms have "k \<in> fst ` set (entries m)"
      by (metis get_spec map_of_eq_None_iff option.distinct(1))
    with assms Some get' show ?thesis by (auto simp: push_eq get_spec)
  qed
qed

lemma get_stable: "kinv m \<Longrightarrow> get m x = Some u \<Longrightarrow> get (snd (push k t m)) x = Some u"
  by (cases "x = k") (simp_all add: get_push)

lemma get_mem: "kinv m \<Longrightarrow> get m x = Some u \<Longrightarrow> (x, u) \<in> set (entries m)"
  by (simp add: get_spec map_of_SomeD)

lemma get_iff_mem: "kinv m \<Longrightarrow> get m x = Some u \<longleftrightarrow> (x, u) \<in> set (entries m)"
  using keys_distinct [of m] by (simp add: get_spec)

lemma push_all:
  assumes "kinv m" and "distinct (map fst kts)" and "fst ` set kts \<inter> fst ` set (entries m) = {}"
  shows "kinv (fold (\<lambda>(k, t) m. snd (push k t m)) kts m) \<and>
         entries (fold (\<lambda>(k, t) m. snd (push k t m)) kts m) = entries m @ kts"
  using assms
proof (induction kts arbitrary: m)
  case (Cons kt kts)
  obtain k t where kt: "kt = (k, t)" by (cases kt)
  have e: "entries (snd (push k t m)) = entries m @ [(k, t)]"
    using Cons.prems kt by (simp add: push_eq)
  have "fst ` set kts \<inter> fst ` set (entries (snd (push k t m))) = {}"
    using Cons.prems kt e by auto
  then show ?case
    using Cons.IH [of "snd (push k t m)"] Cons.prems kt e by (simp add: push_inv)
qed simp

end

interpretation kv: keyed_vector kv_inv kv_entries push_back kv_get
proof
  fix m :: "('k::linorder, 't) KeyVec" and k t b m'
  assume inv: "kv_inv m" and p: "push_back k t m = (b, m')"
  show "b = (k \<notin> fst ` set (kv_entries m)) \<and>
        kv_entries m' = (if b then kv_entries m @ [(k, t)] else kv_entries m)"
  proof (cases "map_of (kmap m) k")
    case None
    then have "k \<notin> fst ` set (kv_entries m)" using kv_fresh_iff [OF inv] by blast
    with None p kv_push_entries [OF inv None, of t] show ?thesis
      by (auto simp: push_back_def Let_def)
  next
    case (Some i)
    then have "k \<in> fst ` set (kv_entries m)" using kv_fresh_iff [OF inv, of k] by auto
    with Some p kv_push_old [OF inv Some, of t] kv_push_status [OF inv, of k t] show ?thesis by auto
  qed
qed (simp_all add: kv_entries_keys_distinct kv_get_entries)

section \<open>Properties\<close>

text \<open>The entries of a sequence of pushes: the first one under each key.\<close>

fun firsts :: "('k \<times> 't) list \<Rightarrow> ('k \<times> 't) list" where
  "firsts [] = []"
| "firsts ((k, t) # kts) = (k, t) # filter (\<lambda>e. fst e \<noteq> k) (firsts kts)"

lemma push_fold:
  "kv_inv kv \<Longrightarrow>
   kv_inv (fold (\<lambda>(k, t) m. snd (push_back k t m)) kts kv) \<and>
   kv_entries (fold (\<lambda>(k, t) m. snd (push_back k t m)) kts kv) =
     kv_entries kv @ filter (\<lambda>e. fst e \<notin> fst ` set (kv_entries kv)) (firsts kts)"
proof (induction kts arbitrary: kv)
  case (Cons kt kts)
  obtain k t where kt: "kt = (k, t)" by (cases kt)
  let ?kv = "snd (push_back k t kv)"
  have inv: "kv_inv ?kv" using Cons.prems by simp
  have e: "kv_entries ?kv = (if k \<in> fst ` set (kv_entries kv) then kv_entries kv else kv_entries kv @ [(k, t)])"
    using kv.push_eq [OF Cons.prems] .
  have "filter (\<lambda>e. fst e \<notin> fst ` set (kv_entries ?kv)) (firsts kts) =
      filter (\<lambda>e. fst e \<notin> fst ` set (kv_entries kv)) (filter (\<lambda>e. fst e \<noteq> k) (firsts kts))"
    by (auto simp: e intro: filter_cong)
  with Cons.IH [OF inv] kt show ?case by (simp add: e)
qed simp

lemma map_of_filter_ne:
  "map_of (filter (\<lambda>e. fst e \<noteq> k') xs) k = (if k = k' then None else map_of xs k)"
  by (induction xs) auto

lemma map_of_firsts: "map_of (firsts kts) k = map_of kts k"
  by (induction kts rule: firsts.induct) (simp_all add: map_of_filter_ne)

lemma fst_firsts: "fst ` set (firsts kts) = fst ` set kts"
  by (induction kts rule: firsts.induct) force+

lemma push_all_new:
  "kv_inv (fold (\<lambda>(k, t) m. snd (push_back k t m)) kts KeyVec_new) \<and>
   kv_entries (fold (\<lambda>(k, t) m. snd (push_back k t m)) kts KeyVec_new) = firsts kts"
  using push_fold [OF kv_inv_new, of kts] by (simp add: kv_entries_def KeyVec_new_def)

text \<open>C35: A \<^verbatim>\<open>KeyVec\<close> filled by any sequence of pushes is well formed, holds by index exactly
  the data of the first push under each key, in order of these pushes, and finds under a key
  the data first pushed under it and nothing under any other key.\<close>

theorem KeyVec_pushes:
  "let kv = fold (\<lambda>(k, t) m. snd (push_back k t m)) kts KeyVec_new in
   kv_inv kv \<and> vec kv = map snd (firsts kts) \<and> kv_size kv = card (fst ` set kts) \<and>
   (\<forall>k. kv_get kv k = map_of kts k)"
proof -
  let ?kv = "fold (\<lambda>(k, t) m. snd (push_back k t m)) kts KeyVec_new"
  have inv: "kv_inv ?kv" and e: "kv_entries ?kv = firsts kts" using push_all_new by blast+
  have v: "vec ?kv = map snd (firsts kts)"
    by (simp flip: e add: kv_entries_def comp_def map_nth)
  have "length (firsts kts) = card (fst ` set kts)"
    using distinct_card [OF kv_entries_keys_distinct [OF inv]] e by (simp add: fst_firsts)
  with v have "kv_size ?kv = card (fst ` set kts)" by (simp add: kv_size_def)
  with inv v e show ?thesis by (simp add: Let_def kv_get_entries map_of_firsts)
qed

text \<open>C36: The results of two lookups share the container's one iterator: after a second successful
  lookup the first result reads the data of the second, and the two compare equal.\<close>

theorem find_results_alias:
  assumes "kv_find k1 kv = (p1, kv1)" "kv_find k2 kv1 = (p2, kv2)"
    and "kv_get kv k1 = Some a" "kv_get kv k2 = Some b"
  shows "second (kv_deref kv1 p1) = Some a \<and> second (kv_deref kv2 p1) = Some b \<and>
     second (kv_deref kv2 p2) = Some b \<and> kv_it_eq kv2 p1 p2"
  using assms by (auto simp: kv_get_conv kv_find_def kv_deref_def kv_it_eq_def split: option.splits)

text \<open>Two keys, 1 and 2, with the data 10 and 20.\<close>

definition two_keys :: "(nat, nat) KeyVec" where
  "two_keys = snd (push_back 2 20 (snd (push_back 1 10 KeyVec_new)))"

theorem find_results_alias_witness:
  "let (p1, kv1) = kv_find 1 two_keys; (p2, kv2) = kv_find 2 kv1 in
   second (kv_deref kv1 p1) = Some 10 \<and> second (kv_deref kv2 p1) = Some 20 \<and> kv_it_eq kv2 p1 p2"
proof -
  have "kv_get two_keys 1 = Some 10" "kv_get two_keys 2 = Some 20"
    by (simp_all add: kv_get_conv two_keys_def push_back_def Let_def KeyVec_new_def)
  with find_results_alias [of 1 two_keys _ _ 2 _ _ 10 20] show ?thesis by (auto simp: Let_def split: prod.splits)
qed

end
