(* ===== verification/Ast.thy ===== *)
theory Ast
  imports Sorts Containers
begin

text \<open>
  The data of the ILA model: constant values (src/ila/ast/sort\_value.cc), uninterpreted
  functions (src/ila/ast/func.cc) and expression nodes (include/ilang/ila/ast/expr.h,
  expr\_op.h, expr\_const.h, expr\_var.h).

  An expression node is a value that carries the identifier of its symbol, which is
  different for every node object, so equality of expressions models equality of
  \<^verbatim>\<open>ExprPtr\<close>. The base class \<^verbatim>\<open>Expr\<close> gives the fields, the subclass the
  \<open>ekind\<close>. A host is the identifier of an ILA.
\<close>

section \<open>Constant values\<close>

type_synonym BvValType = "64 word"

definition BvValTypeBitWidth :: int where
  "BvValTypeBitWidth = 64"

record MemVal =
  val_map :: "(BvValType, BvValType) amap"
  def_val :: BvValType

datatype Value = BoolVal bool | BvVal BvValType | MemV MemVal

definition BoolVal_of_str :: "string \<Rightarrow> bool result" where
  "BoolVal_of_str str = StrToBool str"

definition BoolVal_str :: "bool \<Rightarrow> string" where
  "BoolVal_str val = (if val then ''TRUE'' else ''FALSE'')"

definition BvVal_of_str :: "string \<Rightarrow> BvValType" where
  "BvVal_of_str str = StrToULongLong str 10"

definition BvVal_str :: "BvValType \<Rightarrow> string" where
  "BvVal_str val = to_string (unat val)"

definition MemVal_new :: "BvValType \<Rightarrow> MemVal" where
  "MemVal_new d = \<lparr>val_map = [], def_val = d\<rparr>"

definition MemVal_with :: "BvValType \<Rightarrow> (BvValType, BvValType) amap \<Rightarrow> MemVal" where
  "MemVal_with d m = \<lparr>val_map = m, def_val = d\<rparr>"

definition get_data :: "MemVal \<Rightarrow> BvValType \<Rightarrow> BvValType" where
  "get_data mv addr = (case map_of (val_map mv) addr of None \<Rightarrow> def_val mv | Some d \<Rightarrow> d)"

text \<open>\<^verbatim>\<open>set_data\<close> uses \<^verbatim>\<open>emplace\<close>, which keeps an entry that is already there.\<close>

definition set_data :: "BvValType \<Rightarrow> BvValType \<Rightarrow> MemVal \<Rightarrow> MemVal" where
  "set_data addr data mv = mv\<lparr>val_map := amap_emplace addr data (val_map mv)\<rparr>"

definition MemVal_Print :: "MemVal \<Rightarrow> string" where
  "MemVal_Print mv =
     ''[Def: '' @ to_string (unat (def_val mv)) @ ''][''
     @ concat (map (\<lambda>(a, d). ''('' @ to_string (unat a) @ '', '' @ to_string (unat d) @ '')'') (val_map mv))
     @ '']''"

definition MemVal_ok :: "MemVal \<Rightarrow> bool" where
  "MemVal_ok mv = amap_ok (val_map mv)"

section \<open>Uninterpreted functions\<close>

record Func =
  func_id :: nat
  func_name :: string
  func_out :: sort
  func_args :: "sort list"
  func_host :: "nat option"

section \<open>Expressions\<close>

datatype AstUidExprOp =
    kInvalid | kNegate | kNot | kComplement | kAnd | kOr | kXor
  | kShiftLeft | kArithShiftRight | kLogicShiftRight
  | kAdd | kSubtract | kMultiply
  | kEqual | kLessThan | kGreaterThan | kUnsignedLessThan | kUnsignedGreaterThan
  | kLoad | kStore | kConcatenate | kExtract | kZeroExtend | kSignedExtend
  | kApplyFunc | kImply | kIfThenElse | kDivide | kRotateLeft | kRotateRight
  | kSignedRemainder | kUnsignedRemainder | kSignedModular

datatype ekind = KVar | KConst Value | KOp AstUidExprOp | KApp Func

datatype expr = Expr
  (eid: nat)
  (ename: string)
  (esort: sort)
  (ehost: "nat option")
  (eparams: "int list")
  (eargs: "expr list")
  (ekind: ekind)

definition is_var :: "expr \<Rightarrow> bool" where
  "is_var e = (case ekind e of KVar \<Rightarrow> True | _ \<Rightarrow> False)"

definition is_const :: "expr \<Rightarrow> bool" where
  "is_const e = (case ekind e of KConst _ \<Rightarrow> True | _ \<Rightarrow> False)"

definition is_op :: "expr \<Rightarrow> bool" where
  "is_op e = (case ekind e of KOp _ \<Rightarrow> True | KApp _ \<Rightarrow> True | _ \<Rightarrow> False)"

abbreviation e_is_bool :: "expr \<Rightarrow> bool" where
  "e_is_bool e \<equiv> is_bool (esort e)"

abbreviation e_is_bv :: "expr \<Rightarrow> bool" where
  "e_is_bv e \<equiv> is_bv (esort e) 0"

abbreviation e_is_mem :: "expr \<Rightarrow> bool" where
  "e_is_mem e \<equiv> is_mem (esort e)"

text \<open>\<^verbatim>\<open>arg(i)\<close> and \<^verbatim>\<open>param(i)\<close> are checked accesses.\<close>

definition arg :: "expr \<Rightarrow> nat \<Rightarrow> expr result" where
  "arg e i = (if i < length (eargs e) then Inr (eargs e ! i) else Inl OutOfRange)"

definition param :: "expr \<Rightarrow> nat \<Rightarrow> int result" where
  "param e i = (if i < length (eparams e) then Inr (eparams e ! i) else Inl OutOfRange)"

definition set_sort :: "sort \<Rightarrow> expr \<Rightarrow> expr" where
  "set_sort s e = Expr (eid e) (ename e) s (ehost e) (eparams e) (eargs e) (ekind e)"

definition set_host :: "nat option \<Rightarrow> expr \<Rightarrow> expr" where
  "set_host h e = Expr (eid e) (ename e) (esort e) h (eparams e) (eargs e) (ekind e)"

definition set_params :: "int list \<Rightarrow> expr \<Rightarrow> expr" where
  "set_params ps e = Expr (eid e) (ename e) (esort e) (ehost e) ps (eargs e) (ekind e)"

definition set_args :: "expr list \<Rightarrow> expr \<Rightarrow> expr" where
  "set_args as e = Expr (eid e) (ename e) (esort e) (ehost e) (eparams e) as (ekind e)"

definition replace_arg_at :: "int \<Rightarrow> expr \<Rightarrow> expr \<Rightarrow> expr result" where
  "replace_arg_at idx a e =
     (if 0 \<le> idx \<and> nat idx < length (eargs e) then Inr (set_args ((eargs e)[nat idx := a]) e)
      else Inl OutOfRange)"

text \<open>The search loop has no break: the last occurrence is replaced.\<close>

definition last_index :: "expr \<Rightarrow> expr list \<Rightarrow> nat" where
  "last_index a as =
     fold (\<lambda>i idx. if as ! i = a then i else idx) [0 ..< length as] (length as)"

definition replace_arg :: "expr \<Rightarrow> expr \<Rightarrow> expr \<Rightarrow> expr" where
  "replace_arg a b e =
     (let idx = last_index a (eargs e)
      in if idx \<noteq> length (eargs e) then set_args ((eargs e)[idx := b]) e else e)"

text \<open>\<^verbatim>\<open>GetUidExprOp\<close> casts to \<^verbatim>\<open>ExprOp\<close> and dereferences the result.\<close>

definition GetUidExprOp :: "expr \<Rightarrow> AstUidExprOp result" where
  "GetUidExprOp e = (case ekind e of
       KOp u \<Rightarrow> Inr u | KApp f \<Rightarrow> Inr kApplyFunc | _ \<Rightarrow> Inl NullDeref)"

definition GetUidSort :: "expr \<Rightarrow> AstUidSort" where
  "GetUidSort e = sort_uid (esort e)"

section \<open>Visitors\<close>

text \<open>Children first, then the node; the function object's state is passed along.\<close>

fun DepthFirstVisit :: "(expr \<Rightarrow> 's \<Rightarrow> 's result) \<Rightarrow> expr \<Rightarrow> 's \<Rightarrow> 's result"
  and visit_args :: "(expr \<Rightarrow> 's \<Rightarrow> 's result) \<Rightarrow> expr list \<Rightarrow> 's \<Rightarrow> 's result" where
  "DepthFirstVisit func (Expr i n s h ps as k) st =
     rbind (visit_args func as st) (\<lambda>st'. func (Expr i n s h ps as k) st')"
| "visit_args func [] st = Inr st"
| "visit_args func (a # as) st = rbind (DepthFirstVisit func a st) (visit_args func as)"

fun DepthFirstVisitPrePost ::
      "(expr \<Rightarrow> 's \<Rightarrow> bool) \<Rightarrow> (expr \<Rightarrow> 's \<Rightarrow> 's result) \<Rightarrow> expr \<Rightarrow> 's \<Rightarrow> 's result"
  and visit_args_pp ::
      "(expr \<Rightarrow> 's \<Rightarrow> bool) \<Rightarrow> (expr \<Rightarrow> 's \<Rightarrow> 's result) \<Rightarrow> expr list \<Rightarrow> 's \<Rightarrow> 's result" where
  "DepthFirstVisitPrePost pre post (Expr i n s h ps as k) st =
     (if pre (Expr i n s h ps as k) st then Inr st
      else rbind (visit_args_pp pre post as st) (\<lambda>st'. post (Expr i n s h ps as k) st'))"
| "visit_args_pp pre post [] st = Inr st"
| "visit_args_pp pre post (a # as) st =
     rbind (DepthFirstVisitPrePost pre post a st) (visit_args_pp pre post as)"

section \<open>Names of operations, printing\<close>

definition kOpName :: "AstUidExprOp \<Rightarrow> string option" where
  "kOpName u = (case u of
       kInvalid \<Rightarrow> None
     | kNegate \<Rightarrow> Some ''NEGATE'' | kNot \<Rightarrow> Some ''NOT'' | kComplement \<Rightarrow> Some ''COMPLEMENT''
     | kAnd \<Rightarrow> Some ''AND'' | kOr \<Rightarrow> Some ''OR'' | kXor \<Rightarrow> Some ''XOR''
     | kShiftLeft \<Rightarrow> Some ''SHL'' | kArithShiftRight \<Rightarrow> Some ''ASHR''
     | kLogicShiftRight \<Rightarrow> Some ''LSHR''
     | kAdd \<Rightarrow> Some ''ADD'' | kSubtract \<Rightarrow> Some ''SUB'' | kMultiply \<Rightarrow> Some ''MUL''
     | kEqual \<Rightarrow> Some ''EQ'' | kLessThan \<Rightarrow> Some ''LT'' | kGreaterThan \<Rightarrow> Some ''GT''
     | kUnsignedLessThan \<Rightarrow> Some ''ULT'' | kUnsignedGreaterThan \<Rightarrow> Some ''UGT''
     | kLoad \<Rightarrow> Some ''LOAD'' | kStore \<Rightarrow> Some ''STORE''
     | kConcatenate \<Rightarrow> Some ''CONCAT'' | kExtract \<Rightarrow> Some ''EXTRACT''
     | kZeroExtend \<Rightarrow> Some ''ZERO_EXTEND'' | kSignedExtend \<Rightarrow> Some ''SIGN_EXTEND''
     | kApplyFunc \<Rightarrow> Some ''APP'' | kImply \<Rightarrow> Some ''IMPLY'' | kIfThenElse \<Rightarrow> Some ''ITE''
     | kDivide \<Rightarrow> Some ''DIV''
     | kRotateLeft \<Rightarrow> Some ''LEFT_ROTATE'' | kRotateRight \<Rightarrow> Some ''RIGHT_ROTATE''
     | kSignedRemainder \<Rightarrow> Some ''SREM'' | kUnsignedRemainder \<Rightarrow> Some ''UREM''
     | kSignedModular \<Rightarrow> Some ''SMOD'')"

definition op_name :: "expr \<Rightarrow> string result" where
  "op_name e = rbind (GetUidExprOp e)
     (\<lambda>u. case kOpName u of None \<Rightarrow> Inl (IlaAssert ''kOpName'') | Some n \<Rightarrow> Inr n)"

definition ExprOp_Print :: "expr \<Rightarrow> string result" where
  "ExprOp_Print e = rbind (op_name e) (\<lambda>n. Inr (format_name (ename e) n []))"

definition ExprVar_Print :: "expr \<Rightarrow> string result" where
  "ExprVar_Print e = (case esort e of
       SortBool \<Rightarrow> Inr (ename e)
     | SortBv w \<Rightarrow> Inr (ename e @ ''('' @ int_to_string w @ '')'')
     | SortMem a d \<Rightarrow> Inr (ename e @ ''('' @ int_to_string a @ '', '' @ int_to_string d @ '')'')
     | _ \<Rightarrow> Inl (IlaAssert ''Unknown sort for var''))"

section \<open>Basic facts\<close>

lemma kind_cases:
  obtains (var) "ekind e = KVar" | (const) v where "ekind e = KConst v"
    | (opn) u where "ekind e = KOp u" | (app) f where "ekind e = KApp f"
  by (cases "ekind e") auto

lemma is_var_iff [simp]: "is_var e \<longleftrightarrow> ekind e = KVar"
  by (simp add: is_var_def split: ekind.splits)

lemma is_const_iff [simp]: "is_const e \<longleftrightarrow> (\<exists>v. ekind e = KConst v)"
  by (simp add: is_const_def split: ekind.splits)

lemma is_op_iff [simp]: "is_op e \<longleftrightarrow> (\<exists>u. ekind e = KOp u) \<or> (\<exists>f. ekind e = KApp f)"
  by (simp add: is_op_def split: ekind.splits)

lemma set_field_simps [simp]:
  "eid (set_host h e) = eid e" "ename (set_host h e) = ename e" "esort (set_host h e) = esort e"
  "ehost (set_host h e) = h" "eparams (set_host h e) = eparams e" "eargs (set_host h e) = eargs e"
  "ekind (set_host h e) = ekind e"
  "eid (set_params ps e) = eid e" "ename (set_params ps e) = ename e"
  "esort (set_params ps e) = esort e" "ehost (set_params ps e) = ehost e"
  "eparams (set_params ps e) = ps" "eargs (set_params ps e) = eargs e"
  "ekind (set_params ps e) = ekind e"
  "eid (set_args as e) = eid e" "ename (set_args as e) = ename e" "esort (set_args as e) = esort e"
  "ehost (set_args as e) = ehost e" "eparams (set_args as e) = eparams e"
  "eargs (set_args as e) = as" "ekind (set_args as e) = ekind e"
  by (simp_all add: set_host_def set_params_def set_args_def)

lemma arg_simps [simp]: "i < length (eargs e) \<Longrightarrow> arg e i = Inr (eargs e ! i)"
  by (simp add: arg_def)

lemma param_simps [simp]: "i < length (eparams e) \<Longrightarrow> param e i = Inr (eparams e ! i)"
  by (simp add: param_def)

text \<open>
  Memory constants: a read after a write returns the written data exactly when the
  address held no entry before.
\<close>

lemma get_set_data:
  "MemVal_ok mv \<Longrightarrow>
   get_data (set_data a d mv) x =
     (if x = a \<and> map_of (val_map mv) a = None then d else get_data mv x)"
  by (auto simp: get_data_def set_data_def MemVal_ok_def map_of_emplace split: option.splits)

lemma MemVal_ok_simps [simp]:
  "MemVal_ok (MemVal_new d)" "MemVal_ok mv \<Longrightarrow> MemVal_ok (set_data a d mv)"
  by (simp_all add: MemVal_ok_def MemVal_new_def set_data_def)

end
