(* ===== verification/Heap.thy ===== *)
theory Heap
  imports Ast
begin

text \<open>
  The mutable objects of the ILA model and the monad their operations run in. ILAs
  (\<^verbatim>\<open>InstrLvlAbs\<close>) and instructions (\<^verbatim>\<open>Instr\<close>) are shared, mutable and linked by
  pointers in both directions, so they live in a heap; a pointer is the identifier of the
  object's symbol. \<^verbatim>\<open>Symbol::counter_\<close> is the heap's counter. The model allocates one
  identifier per expression, function, instruction or ILA object; identifiers of sort
  objects and temporary symbols are not observable and not drawn.
\<close>

section \<open>Objects\<close>

text \<open>Containers of variables (include/ilang/ila/var\_container.h).\<close>

datatype VarContainer =
    VarPrimitive expr
  | VarVector sort "VarContainer list"
  | VarStruct sort "(string \<times> VarContainer) list"

text \<open>Instruction sequencing (include/ilang/ila/transition.h). A node is identified by its
  instruction: the map holds one node per instruction.\<close>

record InstrTranEdge =
  edge_src :: nat
  edge_dst :: nat
  edge_cnd :: expr

record InstrTranNode =
  node_instr :: nat
  node_next :: "nat list"
  node_prev :: "nat list"

record InstrSeq =
  seq_root :: "nat option"
  seq_edges :: "InstrTranEdge list"
  seq_nodes :: "(nat, InstrTranNode) amap"

record Instr =
  instr_name :: string
  instr_host :: "nat option"
  instr_decode :: "expr option"
  instr_updates :: "(string, expr) amap"
  instr_prog :: "nat option"

record Ila =
  ila_name :: string
  ila_parent :: "nat option"
  ila_inputs :: "(string, expr) KeyVec"
  ila_states :: "(string, expr) KeyVec"
  ila_input_objects :: "(string, VarContainer) KeyVec"
  ila_state_objects :: "(string, VarContainer) KeyVec"
  ila_inits :: "expr list"
  ila_fetch :: "expr option"
  ila_valid :: "expr option"
  ila_instrs :: "(string, nat) KeyVec"
  ila_childs :: "(string, nat) KeyVec"
  ila_seq :: "InstrSeq option"
  ila_spec :: bool

record heap =
  counter :: nat
  ilas :: "nat \<rightharpoonup> Ila"
  instrs :: "nat \<rightharpoonup> Instr"

definition empty_heap :: heap where
  "empty_heap = \<lparr>counter = 0, ilas = Map.empty, instrs = Map.empty\<rparr>"

section \<open>The monad\<close>

type_synonym 'a M = "heap \<Rightarrow> ('a \<times> heap) result"

definition ret :: "'a \<Rightarrow> 'a M" where
  "ret x = (\<lambda>h. Inr (x, h))"

definition bnd :: "'a M \<Rightarrow> ('a \<Rightarrow> 'b M) \<Rightarrow> 'b M" where
  "bnd m f = (\<lambda>h. case m h of Inl e \<Rightarrow> Inl e | Inr (x, h') \<Rightarrow> f x h')"

definition lift :: "'a result \<Rightarrow> 'a M" where
  "lift r = (\<lambda>h. case r of Inl e \<Rightarrow> Inl e | Inr x \<Rightarrow> Inr (x, h))"

definition ila_assert :: "bool \<Rightarrow> string \<Rightarrow> unit M" where
  "ila_assert b msg = (\<lambda>h. if b then Inr ((), h) else Inl (IlaAssert msg))"

definition ila_check :: "bool \<Rightarrow> string \<Rightarrow> unit M" where
  "ila_check b msg = (\<lambda>h. if b then Inr ((), h) else Inl (IlaCheck msg))"

definition not_null :: "'a option \<Rightarrow> 'a M" where
  "not_null p = (\<lambda>h. case p of None \<Rightarrow> Inl (IlaCheck ''not null'') | Some x \<Rightarrow> Inr (x, h))"

definition get_ila :: "nat \<Rightarrow> Ila M" where
  "get_ila p = (\<lambda>h. case ilas h p of None \<Rightarrow> Inl NullDeref | Some m \<Rightarrow> Inr (m, h))"

definition put_ila :: "nat \<Rightarrow> Ila \<Rightarrow> unit M" where
  "put_ila p m = (\<lambda>h. Inr ((), h\<lparr>ilas := (ilas h)(p \<mapsto> m)\<rparr>))"

definition get_instr :: "nat \<Rightarrow> Instr M" where
  "get_instr p = (\<lambda>h. case instrs h p of None \<Rightarrow> Inl NullDeref | Some m \<Rightarrow> Inr (m, h))"

definition put_instr :: "nat \<Rightarrow> Instr \<Rightarrow> unit M" where
  "put_instr p m = (\<lambda>h. Inr ((), h\<lparr>instrs := (instrs h)(p \<mapsto> m)\<rparr>))"

text \<open>A fresh symbol identifier, by the counter of \<^verbatim>\<open>Symbol\<close>.\<close>

definition new_id :: "nat M" where
  "new_id = (\<lambda>h. let (s, c) = Symbol_default (counter h) in Inr (sym_id s, h\<lparr>counter := c\<rparr>))"

fun mapM :: "('a \<Rightarrow> 'b M) \<Rightarrow> 'a list \<Rightarrow> 'b list M" where
  "mapM f [] = ret []"
| "mapM f (x # xs) = bnd (f x) (\<lambda>y. bnd (mapM f xs) (\<lambda>ys. ret (y # ys)))"

fun foldM :: "('a \<Rightarrow> 'b \<Rightarrow> 'b M) \<Rightarrow> 'a list \<Rightarrow> 'b \<Rightarrow> 'b M" where
  "foldM f [] s = ret s"
| "foldM f (x # xs) s = bnd (f x s) (foldM f xs)"

fun iterM :: "('a \<Rightarrow> unit M) \<Rightarrow> 'a list \<Rightarrow> unit M" where
  "iterM f [] = ret ()"
| "iterM f (x # xs) = bnd (f x) (\<lambda>_. iterM f xs)"

section \<open>Rules of the monad\<close>

text \<open>Evaluation on a given heap, used to run closed terms.\<close>

lemma monad_run [monad_simps]:
  "ret x h = Inr (x, h)"
  "bnd m f h = (case m h of Inl e \<Rightarrow> Inl e | Inr (x, h') \<Rightarrow> f x h')"
  "ila_assert b msg h = (if b then Inr ((), h) else Inl (IlaAssert msg))"
  "ila_check b msg h = (if b then Inr ((), h) else Inl (IlaCheck msg))"
  "put_ila p n h = Inr ((), h\<lparr>ilas := (ilas h)(p \<mapsto> n)\<rparr>)"
  "put_instr p i h = Inr ((), h\<lparr>instrs := (instrs h)(p \<mapsto> i)\<rparr>)"
  "new_id h = Inr (counter h + 1, h\<lparr>counter := counter h + 1\<rparr>)"
  "get_ila p h = (case ilas h p of None \<Rightarrow> Inl NullDeref | Some m \<Rightarrow> Inr (m, h))"
  "get_instr p h = (case instrs h p of None \<Rightarrow> Inl NullDeref | Some i \<Rightarrow> Inr (i, h))"
  "lift r h = (case r of Inl e \<Rightarrow> Inl e | Inr x \<Rightarrow> Inr (x, h))"
  "not_null q h = (case q of None \<Rightarrow> Inl (IlaCheck ''not null'') | Some x \<Rightarrow> Inr (x, h))"
  by (simp_all add: ret_def bnd_def ila_assert_def ila_check_def put_ila_def put_instr_def new_id_def
      Symbol_default_def Let_def get_ila_def get_instr_def lift_def not_null_def)

text \<open>Inversion: what a successful run went through.\<close>

lemma run_Inr [simp]:
  "ret x h = Inr (y, h') \<longleftrightarrow> y = x \<and> h' = h"
  "bnd m f h = Inr (y, h') \<longleftrightarrow> (\<exists>x h1. m h = Inr (x, h1) \<and> f x h1 = Inr (y, h'))"
  "lift r h = Inr (y, h') \<longleftrightarrow> r = Inr y \<and> h' = h"
  "ila_assert b msg h = Inr (u, h') \<longleftrightarrow> b \<and> h' = h"
  "ila_check b msg h = Inr (u, h') \<longleftrightarrow> b \<and> h' = h"
  "not_null q h = Inr (y, h') \<longleftrightarrow> q = Some y \<and> h' = h"
  "get_ila p h = Inr (m', h') \<longleftrightarrow> ilas h p = Some m' \<and> h' = h"
  "get_instr p h = Inr (i', h') \<longleftrightarrow> instrs h p = Some i' \<and> h' = h"
  "put_ila p n h = Inr (u, h') \<longleftrightarrow> h' = h\<lparr>ilas := (ilas h)(p \<mapsto> n)\<rparr>"
  "put_instr p i h = Inr (u, h') \<longleftrightarrow> h' = h\<lparr>instrs := (instrs h)(p \<mapsto> i)\<rparr>"
  "new_id h = Inr (k, h') \<longleftrightarrow> k = counter h + 1 \<and> h' = h\<lparr>counter := counter h + 1\<rparr>"
  by (auto simp: monad_simps split: sum.splits option.splits if_splits)

lemma bnd_assoc: "bnd (bnd m f) g = bnd m (\<lambda>x. bnd (f x) g)"
  by (auto simp: bnd_def fun_eq_iff split: sum.splits)

lemma bnd_ret [simp]: "bnd (ret x) f = f x" "bnd m ret = m"
  by (auto simp: bnd_def ret_def fun_eq_iff split: sum.splits)

lemma bnd_cong [fundef_cong]:
  "m = m' \<Longrightarrow> (\<And>h x h'. m' h = Inr (x, h') \<Longrightarrow> f x h' = f' x h') \<Longrightarrow> bnd m f = bnd m' f'"
  by (auto simp: bnd_def fun_eq_iff split: sum.splits)

section \<open>Heap extension\<close>

text \<open>
  \<open>only_alloc\<close>: a run that only draws identifiers, as every construction of expressions
  does: the objects are untouched and the counter does not go back.
\<close>

definition only_alloc :: "heap \<Rightarrow> heap \<Rightarrow> bool" where
  "only_alloc h h' = (ilas h' = ilas h \<and> instrs h' = instrs h \<and> counter h \<le> counter h')"

lemma only_alloc_refl [simp]: "only_alloc h h"
  by (simp add: only_alloc_def)

lemma only_alloc_trans [trans]: "only_alloc h1 h2 \<Longrightarrow> only_alloc h2 h3 \<Longrightarrow> only_alloc h1 h3"
  by (auto simp: only_alloc_def)

lemma only_alloc_new: "only_alloc h (h\<lparr>counter := counter h + 1\<rparr>)"
  by (simp add: only_alloc_def)

end
