(* ===== verification/ExprOps.thy ===== *)
theory ExprOps
  imports Heap
begin

text \<open>
  The constructors of expression nodes: variables (src/ila/ast/expr\_var.cc), constants
  (src/ila/ast/expr\_const.cc), one class per operation (src/ila/ast/expr\_op.cc) and
  uninterpreted functions (src/ila/ast/func.cc). A constructor draws an identifier, sets
  the host and then checks the sorts of its arguments. Until \<^verbatim>\<open>set_sort\<close> runs the
  sort pointer of the C++ node is null; the model has \<open>SortBool\<close> there.
\<close>

section \<open>Variables and constants\<close>

definition ExprVar_bool :: "string \<Rightarrow> expr M" where
  "ExprVar_bool name = bnd new_id (\<lambda>i. ret (Expr i name MakeBoolSort None [] [] KVar))"

definition ExprVar_bv :: "string \<Rightarrow> int \<Rightarrow> expr M" where
  "ExprVar_bv name width = bnd new_id (\<lambda>i. ret (Expr i name (MakeBvSort width) None [] [] KVar))"

definition ExprVar_mem :: "string \<Rightarrow> int \<Rightarrow> int \<Rightarrow> expr M" where
  "ExprVar_mem name aw dw =
     bnd new_id (\<lambda>i. ret (Expr i name (MakeMemSort aw dw) None [] [] KVar))"

text \<open>Nodes without a name of their own are named by their identifier.\<close>

definition anon_name :: "nat \<Rightarrow> string" where
  "anon_name i = ''$'' @ to_string i"

definition ExprConst_bool :: "bool \<Rightarrow> expr M" where
  "ExprConst_bool v = bnd new_id (\<lambda>i. ret (Expr i (anon_name i) MakeBoolSort None [] [] (KConst (BoolVal v))))"

definition ExprConst_bv :: "BvValType \<Rightarrow> int \<Rightarrow> expr M" where
  "ExprConst_bv v width =
     bnd new_id (\<lambda>i.
     bnd (ila_check (0 < width) ''Non-positive bit-width'') (\<lambda>_.
     bnd (ila_check (BvValTypeBitWidth \<le> width \<or> drop_bit (nat width) v = 0) ''bv_val width'') (\<lambda>_.
     ret (Expr i (anon_name i) (MakeBvSort width) None [] [] (KConst (BvVal v))))))"

definition ExprConst_mem :: "MemVal \<Rightarrow> int \<Rightarrow> int \<Rightarrow> expr M" where
  "ExprConst_mem v aw dw =
     bnd new_id (\<lambda>i.
     ret (Expr i (anon_name i) (MakeMemSort aw dw) None [] [] (KConst (MemV v))))"

definition val_bool :: "expr \<Rightarrow> bool result" where
  "val_bool e = rassert (e_is_bool e) (IlaAssert ''Not boolean constant'')
     (case ekind e of KConst (BoolVal v) \<Rightarrow> Inr v | _ \<Rightarrow> Inl NullDeref)"

definition val_bv :: "expr \<Rightarrow> BvValType result" where
  "val_bv e = rassert (e_is_bv e) (IlaAssert ''Not bitvector constant'')
     (case ekind e of KConst (BvVal v) \<Rightarrow> Inr v | _ \<Rightarrow> Inl NullDeref)"

definition val_mem :: "expr \<Rightarrow> MemVal result" where
  "val_mem e = rassert (e_is_mem e) (IlaAssert ''Not memory constant'')
     (case ekind e of KConst (MemV v) \<Rightarrow> Inr v | _ \<Rightarrow> Inl NullDeref)"

definition ExprConst_Print :: "expr \<Rightarrow> string result" where
  "ExprConst_Print e =
     (if e_is_bool e then rbind (val_bool e) (\<lambda>v. Inr (BoolVal_str v))
      else if e_is_bv e then rbind (val_bv e) (\<lambda>v. Inr (BvVal_str v))
      else rassert (e_is_mem e) (IlaAssert ''Print neither bool, bv, nor mem.'')
             (rbind (val_mem e) (\<lambda>v. Inr (MemVal_Print v))))"

section \<open>Uninterpreted functions\<close>

definition Func_New :: "string \<Rightarrow> sort \<Rightarrow> sort list \<Rightarrow> Func M" where
  "Func_New name out args =
     bnd new_id (\<lambda>i. ret \<lparr>func_id = i, func_name = name, func_out = out, func_args = args, func_host = None\<rparr>)"

definition Func_New0 :: "string \<Rightarrow> sort \<Rightarrow> Func M" where
  "Func_New0 name out = Func_New name out []"

definition Func_New1 :: "string \<Rightarrow> sort \<Rightarrow> sort \<Rightarrow> Func M" where
  "Func_New1 name out arg0 = Func_New name out [arg0]"

definition Func_New2 :: "string \<Rightarrow> sort \<Rightarrow> sort \<Rightarrow> sort \<Rightarrow> Func M" where
  "Func_New2 name out arg0 arg1 = Func_New name out [arg0, arg1]"

definition CheckSort :: "Func \<Rightarrow> expr list \<Rightarrow> bool M" where
  "CheckSort f args =
     bnd (ila_check (length args = length (func_args f)) ''Argument number mismatch'') (\<lambda>_.
     bnd (iterM (\<lambda>i. ila_check (sort_Equal (esort (args ! i)) (func_args f ! i)) ''Sort mismatch'')
            [0 ..< length args]) (\<lambda>_.
     ret True))"

definition Func_Print :: "Func \<Rightarrow> string" where
  "Func_Print f = ''Func.'' @ func_name f"

section \<open>The base class of operations\<close>

text \<open>
  \<^verbatim>\<open>std::set<InstrLvlAbsPtr>\<close> iterates in the order of the pointers, here the order of
  the identifiers. The first host none of whose children is a host is returned.
\<close>

fun find_leaf :: "nat list \<Rightarrow> nat list \<Rightarrow> nat option M" where
  "find_leaf hosts [] = ret None"
| "find_leaf hosts (p # ps) =
     bnd (get_ila p) (\<lambda>m.
       if kv_size (ila_childs m) = 0 then ret (Some p)
       else if list_all (\<lambda>c. c \<notin> set hosts) (vec (ila_childs m)) then ret (Some p)
       else find_leaf hosts ps)"

definition host_set :: "expr list \<Rightarrow> nat list" where
  "host_set args = sort (remdups (List.map_filter ehost args))"

definition GetHost :: "expr list \<Rightarrow> nat option M" where
  "GetHost args = find_leaf (host_set args) (host_set args)"

definition ExprOp_new :: "ekind \<Rightarrow> expr list \<Rightarrow> int list \<Rightarrow> expr M" where
  "ExprOp_new k args params =
     bnd new_id (\<lambda>i. bnd (GetHost args) (\<lambda>h. ret (Expr i (anon_name i) SortBool h params args k)))"

definition GetSortBinaryOperation :: "expr \<Rightarrow> expr \<Rightarrow> sort M" where
  "GetSortBinaryOperation e0 e1 =
     bnd (ila_assert (sort_Equal (esort e0) (esort e1)) ''Mismatch sorts'') (\<lambda>_. ret (esort e0))"

definition GetSortBinaryComparison :: "expr \<Rightarrow> expr \<Rightarrow> sort M" where
  "GetSortBinaryComparison e0 e1 =
     bnd (ila_assert (sort_Equal (esort e0) (esort e1)) ''Mismatch sorts'') (\<lambda>_. ret MakeBoolSort)"

section \<open>One class per operation\<close>

definition ExprOpNeg :: "expr \<Rightarrow> expr M" where
  "ExprOpNeg a =
     bnd (ExprOp_new (KOp kNegate) [a] []) (\<lambda>e.
     bnd (ila_assert (e_is_bv a) ''Negate can only be applied to bitvector.'') (\<lambda>_.
     ret (set_sort (esort a) e)))"

definition ExprOpNot :: "expr \<Rightarrow> expr M" where
  "ExprOpNot a =
     bnd (ExprOp_new (KOp kNot) [a] []) (\<lambda>e.
     bnd (ila_assert (e_is_bool a) ''Not can only be applied to bool.'') (\<lambda>_.
     ret (set_sort (esort a) e)))"

definition ExprOpCompl :: "expr \<Rightarrow> expr M" where
  "ExprOpCompl a =
     bnd (ExprOp_new (KOp kComplement) [a] []) (\<lambda>e.
     bnd (ila_assert (e_is_bv a) ''Complement can only be applied to bitvector.'') (\<lambda>_.
     ret (set_sort (esort a) e)))"

definition ExprOpAnd :: "expr \<Rightarrow> expr \<Rightarrow> expr M" where
  "ExprOpAnd a b =
     bnd (ExprOp_new (KOp kAnd) [a, b] []) (\<lambda>e.
     bnd (GetSortBinaryOperation a b) (\<lambda>s. ret (set_sort s e)))"

definition ExprOpOr :: "expr \<Rightarrow> expr \<Rightarrow> expr M" where
  "ExprOpOr a b =
     bnd (ExprOp_new (KOp kOr) [a, b] []) (\<lambda>e.
     bnd (GetSortBinaryOperation a b) (\<lambda>s. ret (set_sort s e)))"

definition ExprOpXor :: "expr \<Rightarrow> expr \<Rightarrow> expr M" where
  "ExprOpXor a b =
     bnd (ExprOp_new (KOp kXor) [a, b] []) (\<lambda>e.
     bnd (GetSortBinaryOperation a b) (\<lambda>s. ret (set_sort s e)))"

definition ExprOpShl :: "expr \<Rightarrow> expr \<Rightarrow> expr M" where
  "ExprOpShl bv n =
     bnd (ExprOp_new (KOp kShiftLeft) [bv, n] []) (\<lambda>e.
     bnd (ila_assert (e_is_bv bv) ''Left shift can only be applied to bit-vectors.'') (\<lambda>_.
     bnd (GetSortBinaryOperation bv n) (\<lambda>s. ret (set_sort s e))))"

definition ExprOpAshr :: "expr \<Rightarrow> expr \<Rightarrow> expr M" where
  "ExprOpAshr bv n =
     bnd (ExprOp_new (KOp kArithShiftRight) [bv, n] []) (\<lambda>e.
     bnd (ila_assert (e_is_bv bv) ''Right shift can only be applied to bit-vectors.'') (\<lambda>_.
     bnd (GetSortBinaryOperation bv n) (\<lambda>s. ret (set_sort s e))))"

definition ExprOpLshr :: "expr \<Rightarrow> expr \<Rightarrow> expr M" where
  "ExprOpLshr bv n =
     bnd (ExprOp_new (KOp kLogicShiftRight) [bv, n] []) (\<lambda>e.
     bnd (ila_assert (e_is_bv bv) ''Right shift can only be applied to bit-vectors.'') (\<lambda>_.
     bnd (GetSortBinaryOperation bv n) (\<lambda>s. ret (set_sort s e))))"

definition ExprOpAdd :: "expr \<Rightarrow> expr \<Rightarrow> expr M" where
  "ExprOpAdd a b =
     bnd (ExprOp_new (KOp kAdd) [a, b] []) (\<lambda>e.
     bnd (GetSortBinaryOperation a b) (\<lambda>s. ret (set_sort s e)))"

definition ExprOpSub :: "expr \<Rightarrow> expr \<Rightarrow> expr M" where
  "ExprOpSub a b =
     bnd (ExprOp_new (KOp kSubtract) [a, b] []) (\<lambda>e.
     bnd (GetSortBinaryOperation a b) (\<lambda>s. ret (set_sort s e)))"

definition ExprOpDiv :: "expr \<Rightarrow> expr \<Rightarrow> expr M" where
  "ExprOpDiv a b =
     bnd (ExprOp_new (KOp kDivide) [a, b] []) (\<lambda>e.
     bnd (GetSortBinaryOperation a b) (\<lambda>s. ret (set_sort s e)))"

definition ExprOpSRem :: "expr \<Rightarrow> expr \<Rightarrow> expr M" where
  "ExprOpSRem a b =
     bnd (ExprOp_new (KOp kSignedRemainder) [a, b] []) (\<lambda>e.
     bnd (GetSortBinaryOperation a b) (\<lambda>s. ret (set_sort s e)))"

definition ExprOpURem :: "expr \<Rightarrow> expr \<Rightarrow> expr M" where
  "ExprOpURem a b =
     bnd (ExprOp_new (KOp kUnsignedRemainder) [a, b] []) (\<lambda>e.
     bnd (GetSortBinaryOperation a b) (\<lambda>s. ret (set_sort s e)))"

definition ExprOpSMod :: "expr \<Rightarrow> expr \<Rightarrow> expr M" where
  "ExprOpSMod a b =
     bnd (ExprOp_new (KOp kSignedModular) [a, b] []) (\<lambda>e.
     bnd (GetSortBinaryOperation a b) (\<lambda>s. ret (set_sort s e)))"

definition ExprOpMul :: "expr \<Rightarrow> expr \<Rightarrow> expr M" where
  "ExprOpMul a b =
     bnd (ExprOp_new (KOp kMultiply) [a, b] []) (\<lambda>e.
     bnd (GetSortBinaryOperation a b) (\<lambda>s. ret (set_sort s e)))"

definition ExprOpEq :: "expr \<Rightarrow> expr \<Rightarrow> expr M" where
  "ExprOpEq a b =
     bnd (ExprOp_new (KOp kEqual) [a, b] []) (\<lambda>e.
     bnd (GetSortBinaryComparison a b) (\<lambda>s. ret (set_sort s e)))"

definition ExprOpLt :: "expr \<Rightarrow> expr \<Rightarrow> expr M" where
  "ExprOpLt a b =
     bnd (ExprOp_new (KOp kLessThan) [a, b] []) (\<lambda>e.
     bnd (GetSortBinaryComparison a b) (\<lambda>s. ret (set_sort s e)))"

definition ExprOpGt :: "expr \<Rightarrow> expr \<Rightarrow> expr M" where
  "ExprOpGt a b =
     bnd (ExprOp_new (KOp kGreaterThan) [a, b] []) (\<lambda>e.
     bnd (GetSortBinaryComparison a b) (\<lambda>s. ret (set_sort s e)))"

definition ExprOpUlt :: "expr \<Rightarrow> expr \<Rightarrow> expr M" where
  "ExprOpUlt a b =
     bnd (ExprOp_new (KOp kUnsignedLessThan) [a, b] []) (\<lambda>e.
     bnd (GetSortBinaryComparison a b) (\<lambda>s. ret (set_sort s e)))"

definition ExprOpUgt :: "expr \<Rightarrow> expr \<Rightarrow> expr M" where
  "ExprOpUgt a b =
     bnd (ExprOp_new (KOp kUnsignedGreaterThan) [a, b] []) (\<lambda>e.
     bnd (GetSortBinaryComparison a b) (\<lambda>s. ret (set_sort s e)))"

definition ExprOpLoad :: "expr \<Rightarrow> expr \<Rightarrow> expr M" where
  "ExprOpLoad mem addr =
     bnd (ExprOp_new (KOp kLoad) [mem, addr] []) (\<lambda>e.
     bnd (lift (addr_width (esort mem))) (\<lambda>aw.
     bnd (lift (bit_width (esort addr))) (\<lambda>bw.
     bnd (ila_assert (aw = bw) ''Load'') (\<lambda>_.
     bnd (lift (data_width (esort mem))) (\<lambda>dw.
     ret (set_sort (MakeBvSort dw) e))))))"

definition ExprOpStore :: "expr \<Rightarrow> expr \<Rightarrow> expr \<Rightarrow> expr M" where
  "ExprOpStore mem addr data =
     bnd (ExprOp_new (KOp kStore) [mem, addr, data] []) (\<lambda>e.
     bnd (lift (addr_width (esort mem))) (\<lambda>aw.
     bnd (lift (bit_width (esort addr))) (\<lambda>bw.
     bnd (ila_assert (aw = bw) ''Store'') (\<lambda>_.
     bnd (lift (data_width (esort mem))) (\<lambda>dw.
     bnd (lift (bit_width (esort data))) (\<lambda>bw'.
     bnd (ila_assert (dw = bw') ''Store'') (\<lambda>_.
     ret (set_sort (esort mem) e))))))))"

definition ExprOpConcat :: "expr \<Rightarrow> expr \<Rightarrow> expr M" where
  "ExprOpConcat hi lo =
     bnd (ExprOp_new (KOp kConcatenate) [hi, lo] []) (\<lambda>e.
     bnd (ila_assert (e_is_bv hi) ''Concat non-bv var'') (\<lambda>_.
     bnd (ila_assert (e_is_bv lo) ''Concat non-bv var'') (\<lambda>_.
     bnd (lift (bit_width (esort hi))) (\<lambda>wh.
     bnd (lift (bit_width (esort lo))) (\<lambda>wl.
     ret (set_sort (MakeBvSort (wh + wl)) e))))))"

definition ExprOpExtract :: "expr \<Rightarrow> int \<Rightarrow> int \<Rightarrow> expr M" where
  "ExprOpExtract bv hi lo =
     bnd (ExprOp_new (KOp kExtract) [bv] [hi, lo]) (\<lambda>e.
     bnd (ila_assert (e_is_bv bv) ''Extract can only be applied to bitvector.'') (\<lambda>_.
     bnd (ila_assert (lo \<le> hi) ''Invalid boundary for extraction.'') (\<lambda>_.
     ret (set_sort (MakeBvSort (hi - lo + 1)) e))))"

definition ExprOpZExt :: "expr \<Rightarrow> int \<Rightarrow> expr M" where
  "ExprOpZExt bv out_width =
     bnd (ExprOp_new (KOp kZeroExtend) [bv] [out_width]) (\<lambda>e.
     bnd (ila_assert (e_is_bv bv) ''Zero-extend can only be applied to bit-vector.'') (\<lambda>_.
     bnd (lift (bit_width (esort bv))) (\<lambda>w.
     bnd (ila_assert (w \<le> out_width) ''extend'') (\<lambda>_.
     ret (set_sort (MakeBvSort out_width) e)))))"

definition ExprOpSExt :: "expr \<Rightarrow> int \<Rightarrow> expr M" where
  "ExprOpSExt bv out_width =
     bnd (ExprOp_new (KOp kSignedExtend) [bv] [out_width]) (\<lambda>e.
     bnd (ila_assert (e_is_bv bv) ''Sign-extend can only be applied to bit-vector.'') (\<lambda>_.
     bnd (lift (bit_width (esort bv))) (\<lambda>w.
     bnd (ila_assert (w \<le> out_width) ''extend'') (\<lambda>_.
     ret (set_sort (MakeBvSort out_width) e)))))"

definition ExprOpLRotate :: "expr \<Rightarrow> int \<Rightarrow> expr M" where
  "ExprOpLRotate bv immediate =
     bnd (ExprOp_new (KOp kRotateLeft) [bv] [immediate]) (\<lambda>e.
     bnd (ila_assert (e_is_bv bv) ''Left-rotate can only be applied to bit-vector.'') (\<lambda>_.
     bnd (ila_assert (0 \<le> immediate) ''Invalid number of times to rotate.'') (\<lambda>_.
     ret (set_sort (esort bv) e))))"

definition ExprOpRRotate :: "expr \<Rightarrow> int \<Rightarrow> expr M" where
  "ExprOpRRotate bv immediate =
     bnd (ExprOp_new (KOp kRotateRight) [bv] [immediate]) (\<lambda>e.
     bnd (ila_assert (e_is_bv bv) ''Right-rotate can only be applied to bit-vector.'') (\<lambda>_.
     bnd (ila_assert (0 \<le> immediate) ''Invalid number of times to rotate.'') (\<lambda>_.
     ret (set_sort (esort bv) e))))"

definition ExprOpAppFunc :: "Func \<Rightarrow> expr list \<Rightarrow> expr M" where
  "ExprOpAppFunc f args =
     bnd (ExprOp_new (KApp f) args []) (\<lambda>e.
     bnd (CheckSort f args) (\<lambda>b.
     bnd (ila_assert b ''CheckSort'') (\<lambda>_.
     ret (set_sort (func_out f) e))))"

definition ExprOpImply :: "expr \<Rightarrow> expr \<Rightarrow> expr M" where
  "ExprOpImply ante cons =
     bnd (ExprOp_new (KOp kImply) [ante, cons] []) (\<lambda>e.
     bnd (ila_assert (e_is_bool ante) ''Antecedent must be Boolean.'') (\<lambda>_.
     bnd (ila_assert (e_is_bool cons) ''Consequent must be Boolean.'') (\<lambda>_.
     ret (set_sort MakeBoolSort e))))"

definition ExprOpIte :: "expr \<Rightarrow> expr \<Rightarrow> expr \<Rightarrow> expr M" where
  "ExprOpIte cnd true_expr false_expr =
     bnd (ExprOp_new (KOp kIfThenElse) [cnd, true_expr, false_expr] []) (\<lambda>e.
     bnd (ila_assert (e_is_bool cnd) ''Condition must be Boolean.'') (\<lambda>_.
     bnd (ila_assert (sort_Equal (esort true_expr) (esort false_expr)) ''sort mismatch'') (\<lambda>_.
     ret (set_sort (esort true_expr) e))))"


section \<open>The host of an operation\<close>

lemma set_sort_simps [simp]:
  "set_sort t (Expr i n s h ps as k) = Expr i n t h ps as k"
  by (simp add: set_sort_def)

text \<open>A child is created after its parent, so the tree of ILAs grows in the identifiers.\<close>

definition childs_grow :: "heap \<Rightarrow> bool" where
  "childs_grow h = (\<forall>p m. ilas h p = Some m \<longrightarrow> (\<forall>c \<in> set (vec (ila_childs m)). p < c))"

definition is_leaf_of :: "heap \<Rightarrow> nat set \<Rightarrow> nat \<Rightarrow> bool" where
  "is_leaf_of h hosts p =
     (p \<in> hosts \<and> (\<exists>m. ilas h p = Some m \<and> set (vec (ila_childs m)) \<inter> hosts = {}))"

lemma find_leaf_heap: "find_leaf hs ps h = Inr (r, h') \<Longrightarrow> h' = h"
  by (induction ps arbitrary: h) (auto split: if_splits)

lemma find_leaf_leaf:
  "find_leaf hs ps h = Inr (Some p, h') \<Longrightarrow> set ps \<subseteq> set hs \<Longrightarrow> is_leaf_of h (set hs) p"
  by (induction ps) (auto simp: is_leaf_of_def kv_size_def list_all_iff split: if_splits)

lemma find_leaf_total:
  "\<forall>p \<in> set ps. ilas h p \<noteq> None \<Longrightarrow> q \<in> set ps \<Longrightarrow> is_leaf_of h (set hs) q \<Longrightarrow>
   \<exists>p. find_leaf hs ps h = Inr (Some p, h)"
proof (induction ps)
  case (Cons a ps)
  then obtain m where m: "ilas h a = Some m" by auto
  with Cons show ?case
    by (fastforce simp: monad_simps is_leaf_of_def list_all_iff)
qed simp

lemma set_host_set [simp]: "set (host_set as) = {p. \<exists>a \<in> set as. ehost a = Some p}"
  by (force simp: host_set_def List.map_filter_def)

lemma find_leaf_counter [simp]:
  "find_leaf hs ps (h\<lparr>counter := c\<rparr>) =
     (case find_leaf hs ps h of Inl e \<Rightarrow> Inl e | Inr (r, _) \<Rightarrow> Inr (r, h\<lparr>counter := c\<rparr>))"
  by (induction ps) (auto simp: monad_simps split: option.splits sum.splits)

definition GetHost_val :: "heap \<Rightarrow> expr list \<Rightarrow> nat option result" where
  "GetHost_val h as = (case GetHost as h of Inl e \<Rightarrow> Inl e | Inr (p, _) \<Rightarrow> Inr p)"

lemma GetHost_run:
  "GetHost as (h\<lparr>counter := c\<rparr>) =
     (case GetHost_val h as of Inl e \<Rightarrow> Inl e | Inr p \<Rightarrow> Inr (p, h\<lparr>counter := c\<rparr>))"
  by (simp add: GetHost_def GetHost_val_def split: sum.splits)

text \<open>When every host exists and children are younger than parents, a leaf host is found.\<close>

lemma GetHost_total:
  assumes grow: "childs_grow h" and ex: "\<forall>p \<in> set (host_set as). ilas h p \<noteq> None"
  shows "if host_set as = [] then GetHost_val h as = Inr None
         else \<exists>p. GetHost_val h as = Inr (Some p) \<and> is_leaf_of h (set (host_set as)) p"
proof (cases "host_set as = []")
  case True
  then show ?thesis by (simp add: GetHost_val_def GetHost_def monad_simps)
next
  case False
  let ?q = "Max (set (host_set as))"
  have q: "?q \<in> set (host_set as)" using False by (intro Max_in) (simp_all del: set_host_set)
  then obtain m where m: "ilas h ?q = Some m" using ex by blast
  have "set (vec (ila_childs m)) \<inter> set (host_set as) = {}"
    using grow m Max_ge [of "set (host_set as)"] unfolding childs_grow_def
    by (metis List.finite_set disjoint_iff linorder_not_le)
  then have "is_leaf_of h (set (host_set as)) ?q" using q m unfolding is_leaf_of_def by blast
  then obtain p where p: "find_leaf (host_set as) (host_set as) h = Inr (Some p, h)"
    using find_leaf_total [OF ex q] by blast
  then have "is_leaf_of h (set (host_set as)) p"
    using find_leaf_leaf by blast
  with p False show ?thesis by (simp add: GetHost_val_def GetHost_def)
qed

section \<open>What a constructor builds\<close>

text \<open>
  \<open>built k as ps s h e h'\<close>: \<open>e\<close> is the fresh node with the given fields, and only the
  counter of the heap moved.
\<close>

definition built :: "ekind \<Rightarrow> expr list \<Rightarrow> int list \<Rightarrow> sort \<Rightarrow> heap \<Rightarrow> expr \<Rightarrow> heap \<Rightarrow> bool" where
  "built k as ps s h e h' =
     (h' = h\<lparr>counter := counter h + 1\<rparr> \<and>
      (\<exists>p. GetHost_val h as = Inr p \<and>
           e = Expr (counter h + 1) (anon_name (counter h + 1)) s p ps as k))"

lemma ExprOp_new_Inr:
  "ExprOp_new k as ps h = Inr (e, h') \<longleftrightarrow> built k as ps SortBool h e h'"
  by (auto simp: ExprOp_new_def GetHost_run built_def split: sum.splits)

lemma built_SortBool_set_sort:
  "(\<exists>e0. built k as ps SortBool h e0 h' \<and> e = set_sort s e0) \<longleftrightarrow> built k as ps s h e h'"
  by (auto simp: built_def)

lemma built_fields:
  assumes "built k as ps s h e h'"
  shows "ekind e = k" "eargs e = as" "eparams e = ps" "esort e = s" "eid e = counter h + 1"
    "only_alloc h h'" "counter h < counter h'"
  using assms by (auto simp: built_def only_alloc_def)

lemma iterM_check_Inr:
  "iterM (\<lambda>i. ila_check (P i) msg) xs h = Inr (u, h') \<longleftrightarrow> (\<forall>i \<in> set xs. P i) \<and> h' = h"
  by (induction xs arbitrary: h) auto

lemma CheckSort_Inr:
  "CheckSort f as h = Inr (b, h') \<longleftrightarrow> map esort as = func_args f \<and> b \<and> h' = h"
proof -
  have "map esort as = func_args f \<longleftrightarrow>
        length as = length (func_args f) \<and> (\<forall>i \<in> set [0 ..< length as]. esort (as ! i) = func_args f ! i)"
    by (subst list_eq_iff_nth_eq) auto
  then show ?thesis by (auto simp: CheckSort_def iterM_check_Inr)
qed

lemmas ctor_defs =
  ExprOpNeg_def ExprOpNot_def ExprOpCompl_def ExprOpAnd_def ExprOpOr_def ExprOpXor_def
  ExprOpShl_def ExprOpAshr_def ExprOpLshr_def ExprOpAdd_def ExprOpSub_def ExprOpDiv_def
  ExprOpSRem_def ExprOpURem_def ExprOpSMod_def ExprOpMul_def ExprOpEq_def ExprOpLt_def
  ExprOpGt_def ExprOpUlt_def ExprOpUgt_def ExprOpLoad_def ExprOpStore_def ExprOpConcat_def
  ExprOpExtract_def ExprOpZExt_def ExprOpSExt_def ExprOpLRotate_def ExprOpRRotate_def
  ExprOpAppFunc_def ExprOpImply_def ExprOpIte_def

lemmas ctor_sort_defs =
  GetSortBinaryOperation_def GetSortBinaryComparison_def MakeBoolSort_def MakeBvSort_def
  MakeMemSort_def

text \<open>The sort rule of every operation, as the constructors check it.\<close>

definition same_sort :: "sort list \<Rightarrow> int list \<Rightarrow> sort option" where
  "same_sort ss ps = (case (ss, ps) of ([s, t], []) \<Rightarrow> (if s = t then Some s else None) | _ \<Rightarrow> None)"

definition unary_bv :: "sort list \<Rightarrow> int list \<Rightarrow> sort option" where
  "unary_bv ss ps = (case (ss, ps) of ([SortBv w], []) \<Rightarrow> Some (SortBv w) | _ \<Rightarrow> None)"

definition binary_bv :: "sort list \<Rightarrow> int list \<Rightarrow> sort option" where
  "binary_bv ss ps = (case (ss, ps) of
     ([SortBv w, SortBv v], []) \<Rightarrow> (if w = v then Some (SortBv w) else None) | _ \<Rightarrow> None)"

definition comparison :: "sort list \<Rightarrow> int list \<Rightarrow> sort option" where
  "comparison ss ps = (case (ss, ps) of ([s, t], []) \<Rightarrow> (if s = t then Some SortBool else None) | _ \<Rightarrow> None)"

definition extension :: "sort list \<Rightarrow> int list \<Rightarrow> sort option" where
  "extension ss ps = (case (ss, ps) of
     ([SortBv w], [v]) \<Rightarrow> (if w \<le> v then Some (SortBv v) else None) | _ \<Rightarrow> None)"

definition rotation :: "sort list \<Rightarrow> int list \<Rightarrow> sort option" where
  "rotation ss ps = (case (ss, ps) of
     ([SortBv w], [n]) \<Rightarrow> (if 0 \<le> n then Some (SortBv w) else None) | _ \<Rightarrow> None)"

lemmas sort_rule_defs =
  same_sort_def unary_bv_def binary_bv_def comparison_def extension_def rotation_def

definition op_sort :: "AstUidExprOp \<Rightarrow> sort list \<Rightarrow> int list \<Rightarrow> sort option" where
  "op_sort u ss ps = (case u of
       kInvalid \<Rightarrow> None
     | kApplyFunc \<Rightarrow> None
     | kNegate \<Rightarrow> unary_bv ss ps
     | kComplement \<Rightarrow> unary_bv ss ps
     | kNot \<Rightarrow> (case (ss, ps) of ([SortBool], []) \<Rightarrow> Some SortBool | _ \<Rightarrow> None)
     | kAnd \<Rightarrow> same_sort ss ps
     | kOr \<Rightarrow> same_sort ss ps
     | kXor \<Rightarrow> same_sort ss ps
     | kAdd \<Rightarrow> same_sort ss ps
     | kSubtract \<Rightarrow> same_sort ss ps
     | kDivide \<Rightarrow> same_sort ss ps
     | kSignedRemainder \<Rightarrow> same_sort ss ps
     | kUnsignedRemainder \<Rightarrow> same_sort ss ps
     | kSignedModular \<Rightarrow> same_sort ss ps
     | kMultiply \<Rightarrow> same_sort ss ps
     | kShiftLeft \<Rightarrow> binary_bv ss ps
     | kArithShiftRight \<Rightarrow> binary_bv ss ps
     | kLogicShiftRight \<Rightarrow> binary_bv ss ps
     | kEqual \<Rightarrow> comparison ss ps
     | kLessThan \<Rightarrow> comparison ss ps
     | kGreaterThan \<Rightarrow> comparison ss ps
     | kUnsignedLessThan \<Rightarrow> comparison ss ps
     | kUnsignedGreaterThan \<Rightarrow> comparison ss ps
     | kLoad \<Rightarrow> (case (ss, ps) of
         ([SortMem a d, SortBv w], []) \<Rightarrow> (if a = w then Some (SortBv d) else None) | _ \<Rightarrow> None)
     | kStore \<Rightarrow> (case (ss, ps) of
         ([SortMem a d, SortBv w, SortBv v], []) \<Rightarrow>
           (if a = w \<and> d = v then Some (SortMem a d) else None) | _ \<Rightarrow> None)
     | kConcatenate \<Rightarrow> (case (ss, ps) of
         ([SortBv w, SortBv v], []) \<Rightarrow> Some (SortBv (w + v)) | _ \<Rightarrow> None)
     | kExtract \<Rightarrow> (case (ss, ps) of
         ([SortBv w], [hi, lo]) \<Rightarrow> (if lo \<le> hi then Some (SortBv (hi - lo + 1)) else None) | _ \<Rightarrow> None)
     | kZeroExtend \<Rightarrow> extension ss ps
     | kSignedExtend \<Rightarrow> extension ss ps
     | kRotateLeft \<Rightarrow> rotation ss ps
     | kRotateRight \<Rightarrow> rotation ss ps
     | kImply \<Rightarrow> (case (ss, ps) of ([SortBool, SortBool], []) \<Rightarrow> Some SortBool | _ \<Rightarrow> None)
     | kIfThenElse \<Rightarrow> (case (ss, ps) of
         ([SortBool, s, t], []) \<Rightarrow> (if s = t then Some s else None) | _ \<Rightarrow> None))"

text \<open>The constructor of every operation, by its identifier.\<close>

definition unary_ctor :: "(expr \<Rightarrow> expr M) \<Rightarrow> expr list \<Rightarrow> int list \<Rightarrow> expr M" where
  "unary_ctor c as ps = (case (as, ps) of ([a], []) \<Rightarrow> c a | _ \<Rightarrow> lift (Inl OutOfRange))"

definition param_ctor :: "(expr \<Rightarrow> int \<Rightarrow> expr M) \<Rightarrow> expr list \<Rightarrow> int list \<Rightarrow> expr M" where
  "param_ctor c as ps = (case (as, ps) of ([a], [p]) \<Rightarrow> c a p | _ \<Rightarrow> lift (Inl OutOfRange))"

definition binary_ctor :: "(expr \<Rightarrow> expr \<Rightarrow> expr M) \<Rightarrow> expr list \<Rightarrow> int list \<Rightarrow> expr M" where
  "binary_ctor c as ps = (case (as, ps) of ([a, b], []) \<Rightarrow> c a b | _ \<Rightarrow> lift (Inl OutOfRange))"

definition ternary_ctor :: "(expr \<Rightarrow> expr \<Rightarrow> expr \<Rightarrow> expr M) \<Rightarrow> expr list \<Rightarrow> int list \<Rightarrow> expr M" where
  "ternary_ctor c as ps = (case (as, ps) of ([a, b, d], []) \<Rightarrow> c a b d | _ \<Rightarrow> lift (Inl OutOfRange))"

lemmas arity_ctor_defs = unary_ctor_def param_ctor_def binary_ctor_def ternary_ctor_def

definition construct :: "AstUidExprOp \<Rightarrow> expr list \<Rightarrow> int list \<Rightarrow> expr M" where
  "construct u as ps = (case u of
       kInvalid \<Rightarrow> lift (Inl OutOfRange)
     | kApplyFunc \<Rightarrow> lift (Inl OutOfRange)
     | kNegate \<Rightarrow> unary_ctor ExprOpNeg as ps
     | kNot \<Rightarrow> unary_ctor ExprOpNot as ps
     | kComplement \<Rightarrow> unary_ctor ExprOpCompl as ps
     | kAnd \<Rightarrow> binary_ctor ExprOpAnd as ps
     | kOr \<Rightarrow> binary_ctor ExprOpOr as ps
     | kXor \<Rightarrow> binary_ctor ExprOpXor as ps
     | kShiftLeft \<Rightarrow> binary_ctor ExprOpShl as ps
     | kArithShiftRight \<Rightarrow> binary_ctor ExprOpAshr as ps
     | kLogicShiftRight \<Rightarrow> binary_ctor ExprOpLshr as ps
     | kAdd \<Rightarrow> binary_ctor ExprOpAdd as ps
     | kSubtract \<Rightarrow> binary_ctor ExprOpSub as ps
     | kDivide \<Rightarrow> binary_ctor ExprOpDiv as ps
     | kSignedRemainder \<Rightarrow> binary_ctor ExprOpSRem as ps
     | kUnsignedRemainder \<Rightarrow> binary_ctor ExprOpURem as ps
     | kSignedModular \<Rightarrow> binary_ctor ExprOpSMod as ps
     | kMultiply \<Rightarrow> binary_ctor ExprOpMul as ps
     | kEqual \<Rightarrow> binary_ctor ExprOpEq as ps
     | kLessThan \<Rightarrow> binary_ctor ExprOpLt as ps
     | kGreaterThan \<Rightarrow> binary_ctor ExprOpGt as ps
     | kUnsignedLessThan \<Rightarrow> binary_ctor ExprOpUlt as ps
     | kUnsignedGreaterThan \<Rightarrow> binary_ctor ExprOpUgt as ps
     | kLoad \<Rightarrow> binary_ctor ExprOpLoad as ps
     | kConcatenate \<Rightarrow> binary_ctor ExprOpConcat as ps
     | kImply \<Rightarrow> binary_ctor ExprOpImply as ps
     | kStore \<Rightarrow> ternary_ctor ExprOpStore as ps
     | kIfThenElse \<Rightarrow> ternary_ctor ExprOpIte as ps
     | kZeroExtend \<Rightarrow> param_ctor ExprOpZExt as ps
     | kSignedExtend \<Rightarrow> param_ctor ExprOpSExt as ps
     | kRotateLeft \<Rightarrow> param_ctor ExprOpLRotate as ps
     | kRotateRight \<Rightarrow> param_ctor ExprOpRRotate as ps
     | kExtract \<Rightarrow> (case (as, ps) of ([a], [hi, lo]) \<Rightarrow> ExprOpExtract a hi lo | _ \<Rightarrow> lift (Inl OutOfRange)))"


section \<open>Each constructor, inverted\<close>

lemma ctor_unary:
  "ExprOpNeg a h = Inr (e, h') \<longleftrightarrow> e_is_bv a \<and> built (KOp kNegate) [a] [] (esort a) h e h'"
  "ExprOpNot a h = Inr (e, h') \<longleftrightarrow> e_is_bool a \<and> built (KOp kNot) [a] [] (esort a) h e h'"
  "ExprOpCompl a h = Inr (e, h') \<longleftrightarrow> e_is_bv a \<and> built (KOp kComplement) [a] [] (esort a) h e h'"
  by (auto simp: ctor_defs ctor_sort_defs ExprOp_new_Inr built_def)

lemma ctor_same:
  "ExprOpAnd a b h = Inr (e, h') \<longleftrightarrow> esort a = esort b \<and> built (KOp kAnd) [a, b] [] (esort a) h e h'"
  "ExprOpOr a b h = Inr (e, h') \<longleftrightarrow> esort a = esort b \<and> built (KOp kOr) [a, b] [] (esort a) h e h'"
  "ExprOpXor a b h = Inr (e, h') \<longleftrightarrow> esort a = esort b \<and> built (KOp kXor) [a, b] [] (esort a) h e h'"
  "ExprOpAdd a b h = Inr (e, h') \<longleftrightarrow> esort a = esort b \<and> built (KOp kAdd) [a, b] [] (esort a) h e h'"
  "ExprOpSub a b h = Inr (e, h') \<longleftrightarrow> esort a = esort b \<and> built (KOp kSubtract) [a, b] [] (esort a) h e h'"
  "ExprOpDiv a b h = Inr (e, h') \<longleftrightarrow> esort a = esort b \<and> built (KOp kDivide) [a, b] [] (esort a) h e h'"
  "ExprOpSRem a b h = Inr (e, h') \<longleftrightarrow> esort a = esort b \<and> built (KOp kSignedRemainder) [a, b] [] (esort a) h e h'"
  "ExprOpURem a b h = Inr (e, h') \<longleftrightarrow> esort a = esort b \<and> built (KOp kUnsignedRemainder) [a, b] [] (esort a) h e h'"
  "ExprOpSMod a b h = Inr (e, h') \<longleftrightarrow> esort a = esort b \<and> built (KOp kSignedModular) [a, b] [] (esort a) h e h'"
  "ExprOpMul a b h = Inr (e, h') \<longleftrightarrow> esort a = esort b \<and> built (KOp kMultiply) [a, b] [] (esort a) h e h'"
  by (auto simp: ctor_defs ctor_sort_defs ExprOp_new_Inr built_def)

lemma ctor_shift:
  "ExprOpShl a b h = Inr (e, h') \<longleftrightarrow> e_is_bv a \<and> esort a = esort b \<and> built (KOp kShiftLeft) [a, b] [] (esort a) h e h'"
  "ExprOpAshr a b h = Inr (e, h') \<longleftrightarrow> e_is_bv a \<and> esort a = esort b \<and> built (KOp kArithShiftRight) [a, b] [] (esort a) h e h'"
  "ExprOpLshr a b h = Inr (e, h') \<longleftrightarrow> e_is_bv a \<and> esort a = esort b \<and> built (KOp kLogicShiftRight) [a, b] [] (esort a) h e h'"
  by (auto simp: ctor_defs ctor_sort_defs ExprOp_new_Inr built_def)

lemma ctor_cmp:
  "ExprOpEq a b h = Inr (e, h') \<longleftrightarrow> esort a = esort b \<and> built (KOp kEqual) [a, b] [] SortBool h e h'"
  "ExprOpLt a b h = Inr (e, h') \<longleftrightarrow> esort a = esort b \<and> built (KOp kLessThan) [a, b] [] SortBool h e h'"
  "ExprOpGt a b h = Inr (e, h') \<longleftrightarrow> esort a = esort b \<and> built (KOp kGreaterThan) [a, b] [] SortBool h e h'"
  "ExprOpUlt a b h = Inr (e, h') \<longleftrightarrow> esort a = esort b \<and> built (KOp kUnsignedLessThan) [a, b] [] SortBool h e h'"
  "ExprOpUgt a b h = Inr (e, h') \<longleftrightarrow> esort a = esort b \<and> built (KOp kUnsignedGreaterThan) [a, b] [] SortBool h e h'"
  by (auto simp: ctor_defs ctor_sort_defs ExprOp_new_Inr built_def)

lemma ctor_mem:
  "ExprOpLoad a b h = Inr (e, h') \<longleftrightarrow> (\<exists>aw dw. esort a = SortMem aw dw \<and> esort b = SortBv aw \<and> built (KOp kLoad) [a, b] [] (SortBv dw) h e h')"
  "ExprOpStore a b c h = Inr (e, h') \<longleftrightarrow> (\<exists>aw dw. esort a = SortMem aw dw \<and> esort b = SortBv aw \<and> esort c = SortBv dw \<and> built (KOp kStore) [a, b, c] [] (SortMem aw dw) h e h')"
  by (auto simp: ctor_defs ctor_sort_defs ExprOp_new_Inr built_def)

lemma ctor_bits:
  "ExprOpConcat a b h = Inr (e, h') \<longleftrightarrow> (\<exists>w v. esort a = SortBv w \<and> esort b = SortBv v \<and> built (KOp kConcatenate) [a, b] [] (SortBv (w + v)) h e h')"
  "ExprOpExtract a hi lo h = Inr (e, h') \<longleftrightarrow> e_is_bv a \<and> lo \<le> hi \<and> built (KOp kExtract) [a] [hi, lo] (SortBv (hi - lo + 1)) h e h'"
  "ExprOpZExt a v h = Inr (e, h') \<longleftrightarrow> (\<exists>w. esort a = SortBv w \<and> w \<le> v \<and> built (KOp kZeroExtend) [a] [v] (SortBv v) h e h')"
  "ExprOpSExt a v h = Inr (e, h') \<longleftrightarrow> (\<exists>w. esort a = SortBv w \<and> w \<le> v \<and> built (KOp kSignedExtend) [a] [v] (SortBv v) h e h')"
  "ExprOpLRotate a v h = Inr (e, h') \<longleftrightarrow> e_is_bv a \<and> 0 \<le> v \<and> built (KOp kRotateLeft) [a] [v] (esort a) h e h'"
  "ExprOpRRotate a v h = Inr (e, h') \<longleftrightarrow> e_is_bv a \<and> 0 \<le> v \<and> built (KOp kRotateRight) [a] [v] (esort a) h e h'"
  by (auto simp: ctor_defs ctor_sort_defs ExprOp_new_Inr built_def)

lemma ctor_control:
  "ExprOpImply a b h = Inr (e, h') \<longleftrightarrow> e_is_bool a \<and> e_is_bool b \<and> built (KOp kImply) [a, b] [] SortBool h e h'"
  "ExprOpIte a b c h = Inr (e, h') \<longleftrightarrow> e_is_bool a \<and> esort b = esort c \<and> built (KOp kIfThenElse) [a, b, c] [] (esort b) h e h'"
  "ExprOpAppFunc f as h = Inr (e, h') \<longleftrightarrow> map esort as = func_args f \<and> built (KApp f) as [] (func_out f) h e h'"
  by (auto simp: ctor_defs ctor_sort_defs ExprOp_new_Inr built_def CheckSort_Inr)

lemmas ctor_Inr =
  ctor_unary ctor_same ctor_shift ctor_cmp ctor_mem ctor_bits ctor_control

lemma construct_Inr:
  "construct u as ps h = Inr (e, h') \<longleftrightarrow>
     (\<exists>s. op_sort u (map esort as) ps = Some s \<and> built (KOp u) as ps s h e h')"
  by (cases u)
     (auto simp: construct_def op_sort_def arity_ctor_defs sort_rule_defs ctor_Inr
      split: list.splits sort.splits if_splits)

section \<open>Properties\<close>

text \<open>C20: A constructor of an operation succeeds exactly when the sorts of its arguments and
  its parameters satisfy the operation's sort rule and the host can be determined; it then
  returns a fresh node of the sort the rule gives, whose host is the one determined, and
  leaves every ILA and instruction untouched. Holds for all 31 operation classes other
  than function application.\<close>

theorem construct_sorts:
  "construct u as ps h = Inr (e, h') \<longleftrightarrow>
     (\<exists>s p. op_sort u (map esort as) ps = Some s \<and> GetHost_val h as = Inr p \<and>
            e = Expr (counter h + 1) (anon_name (counter h + 1)) s p ps as (KOp u) \<and>
            h' = h\<lparr>counter := counter h + 1\<rparr>)"
  by (auto simp: construct_Inr built_def)

text \<open>C21: When the hosts of the arguments are ILAs of a tree in which children are younger than
  their parents, building an operation finds a host: none if no argument has one, otherwise
  a host of some argument that has no child among the other hosts (the most detailed
  level the arguments come from).\<close>

theorem ExprOp_host:
  assumes "childs_grow h" and "\<forall>p \<in> set (host_set as). ilas h p \<noteq> None"
  shows "\<exists>e h'. ExprOp_new k as ps h = Inr (e, h') \<and>
     (case ehost e of None \<Rightarrow> \<forall>a \<in> set as. ehost a = None
      | Some p \<Rightarrow> is_leaf_of h {p. \<exists>a \<in> set as. ehost a = Some p} p)"
proof (cases "host_set as = []")
  case True
  then have "\<forall>a \<in> set as. ehost a = None"
    using set_host_set [of as] by (metis (mono_tags, lifting) empty_iff list.set(1) mem_Collect_eq option.exhaust)
  with True GetHost_total [OF assms] show ?thesis by (auto simp: ExprOp_new_Inr built_def)
next
  case False
  with GetHost_total [OF assms] show ?thesis by (auto simp: ExprOp_new_Inr built_def)
qed

text \<open>A parent ILA 1 with the child ILA 2, and one argument from each.\<close>

definition two_ilas :: heap where
  "two_ilas =
     (let m = \<lparr>ila_name = ''m'', ila_parent = None, ila_inputs = KeyVec_new, ila_states = KeyVec_new,
               ila_input_objects = KeyVec_new, ila_state_objects = KeyVec_new, ila_inits = [],
               ila_fetch = None, ila_valid = None, ila_instrs = KeyVec_new,
               ila_childs = snd (push_back ''c'' 2 KeyVec_new), ila_seq = None, ila_spec = True\<rparr>
      in \<lparr>counter = 2,
          ilas = [1 \<mapsto> m, 2 \<mapsto> m\<lparr>ila_name := ''c'', ila_parent := Some 1, ila_childs := KeyVec_new\<rparr>],
          instrs = Map.empty\<rparr>)"

definition two_args :: "expr list" where
  "two_args = [Expr 3 ''x'' (SortBv 8) (Some 1) [] [] KVar, Expr 4 ''y'' (SortBv 8) (Some 2) [] [] KVar]"

theorem ExprOp_host_witness:
  "childs_grow two_ilas \<and>
   (\<exists>e h'. ExprOp_new (KOp kAdd) two_args [] two_ilas = Inr (e, h') \<and>
      (case ehost e of None \<Rightarrow> \<forall>a \<in> set two_args. ehost a = None
       | Some p \<Rightarrow> is_leaf_of two_ilas {p. \<exists>a \<in> set two_args. ehost a = Some p} p))"
proof
  show g: "childs_grow two_ilas"
    by (auto simp: childs_grow_def two_ilas_def Let_def push_back_def KeyVec_new_def)
  have "\<forall>p \<in> set (host_set two_args). ilas two_ilas p \<noteq> None"
    by (auto simp: two_args_def two_ilas_def Let_def)
  from ExprOp_host [OF g this] show "\<exists>e h'. ExprOp_new (KOp kAdd) two_args [] two_ilas = Inr (e, h') \<and>
      (case ehost e of None \<Rightarrow> \<forall>a \<in> set two_args. ehost a = None
       | Some p \<Rightarrow> is_leaf_of two_ilas {p. \<exists>a \<in> set two_args. ehost a = Some p} p)" .
qed

end
