(* ===== verification/Semantics.thy ===== *)
theory Semantics
  imports ExprOps
begin

text \<open>
  The meaning of expressions, the specification the translations and rewritings are
  proved against. A bit-vector of width \<open>w\<close> is an integer in \<open>[0, 2^w)\<close>, a memory a
  function on addresses that is 0 outside its address range; the operations are those of
  the SMT-LIB theories of fixed-size bit-vectors and arrays.
\<close>

unbundle bit_operations_syntax

section \<open>Values\<close>

datatype sval = VBool bool | VBv int | VMem "int \<Rightarrow> int" | VErr

record interp =
  ivar :: "expr \<Rightarrow> sval"
  ifun :: "Func \<Rightarrow> sval list \<Rightarrow> sval"

fun val_ok :: "sort \<Rightarrow> sval \<Rightarrow> bool" where
  "val_ok SortBool (VBool b) = True"
| "val_ok (SortBv w) (VBv v) = (0 \<le> v \<and> v < 2 ^ nat w)"
| "val_ok (SortMem a d) (VMem f) =
     ((\<forall>x. 0 \<le> f x \<and> f x < 2 ^ nat d) \<and> (\<forall>x. \<not> (0 \<le> x \<and> x < 2 ^ nat a) \<longrightarrow> f x = 0))"
| "val_ok _ _ = False"

section \<open>Bit-vector operations\<close>

definition bv_signed :: "nat \<Rightarrow> int \<Rightarrow> int" where
  "bv_signed w a = (if a < 2 ^ (w - 1) then a else a - 2 ^ w)"

definition tdiv :: "int \<Rightarrow> int \<Rightarrow> int" where
  "tdiv a b = sgn a * sgn b * (\<bar>a\<bar> div \<bar>b\<bar>)"

definition bv_sdiv :: "nat \<Rightarrow> int \<Rightarrow> int \<Rightarrow> int" where
  "bv_sdiv w a b =
     (if b = 0 then (if bv_signed w a < 0 then 1 else 2 ^ w - 1)
      else tdiv (bv_signed w a) (bv_signed w b)) mod 2 ^ w"

definition bv_srem :: "nat \<Rightarrow> int \<Rightarrow> int \<Rightarrow> int" where
  "bv_srem w a b =
     (if b = 0 then a
      else bv_signed w a - bv_signed w b * tdiv (bv_signed w a) (bv_signed w b)) mod 2 ^ w"

definition bv_smod :: "nat \<Rightarrow> int \<Rightarrow> int \<Rightarrow> int" where
  "bv_smod w a b = (if b = 0 then a else bv_signed w a mod bv_signed w b) mod 2 ^ w"

definition bv_urem :: "int \<Rightarrow> int \<Rightarrow> int" where
  "bv_urem a b = (if b = 0 then a else a mod b)"

definition bv_shl :: "nat \<Rightarrow> int \<Rightarrow> int \<Rightarrow> int" where
  "bv_shl w a n = (if int w \<le> n then 0 else (a * 2 ^ nat n) mod 2 ^ w)"

definition bv_lshr :: "nat \<Rightarrow> int \<Rightarrow> int \<Rightarrow> int" where
  "bv_lshr w a n = (if int w \<le> n then 0 else a div 2 ^ nat n)"

definition bv_ashr :: "nat \<Rightarrow> int \<Rightarrow> int \<Rightarrow> int" where
  "bv_ashr w a n = (bv_signed w a div 2 ^ (if int w \<le> n then w else nat n)) mod 2 ^ w"

definition bv_extract :: "int \<Rightarrow> int \<Rightarrow> int \<Rightarrow> int" where
  "bv_extract hi lo a = (a div 2 ^ nat lo) mod 2 ^ nat (hi - lo + 1)"

definition bv_rotl :: "nat \<Rightarrow> int \<Rightarrow> int \<Rightarrow> int" where
  "bv_rotl w n a = (let k = nat n mod w in (a * 2 ^ k) mod 2 ^ w + a div 2 ^ (w - k))"

definition bv_rotr :: "nat \<Rightarrow> int \<Rightarrow> int \<Rightarrow> int" where
  "bv_rotr w n a = (let k = nat n mod w in a div 2 ^ k + (a * 2 ^ (w - k)) mod 2 ^ w)"

section \<open>The meaning of an operation\<close>

definition bv1 :: "(int \<Rightarrow> int) \<Rightarrow> sval list \<Rightarrow> sval" where
  "bv1 f vs = (case vs of [VBv a] \<Rightarrow> VBv (f a) | _ \<Rightarrow> VErr)"

definition bv2 :: "(int \<Rightarrow> int \<Rightarrow> int) \<Rightarrow> sval list \<Rightarrow> sval" where
  "bv2 f vs = (case vs of [VBv a, VBv b] \<Rightarrow> VBv (f a b) | _ \<Rightarrow> VErr)"

definition bvp :: "(int \<Rightarrow> int \<Rightarrow> bool) \<Rightarrow> sval list \<Rightarrow> sval" where
  "bvp f vs = (case vs of [VBv a, VBv b] \<Rightarrow> VBool (f a b) | _ \<Rightarrow> VErr)"

definition bool_or_bv :: "(bool \<Rightarrow> bool \<Rightarrow> bool) \<Rightarrow> (int \<Rightarrow> int \<Rightarrow> int) \<Rightarrow> sval list \<Rightarrow> sval" where
  "bool_or_bv g f vs = (case vs of
     [VBool a, VBool b] \<Rightarrow> VBool (g a b) | [VBv a, VBv b] \<Rightarrow> VBv (f a b) | _ \<Rightarrow> VErr)"

definition width_of :: "sort list \<Rightarrow> nat \<Rightarrow> nat" where
  "width_of ss i =
     (if i < length ss then (case ss ! i of SortBv w \<Rightarrow> nat w | _ \<Rightarrow> 0) else 0)"

definition op_sem :: "AstUidExprOp \<Rightarrow> sort list \<Rightarrow> int list \<Rightarrow> sval list \<Rightarrow> sval" where
  "op_sem u ss ps vs = (let w = width_of ss 0 in case u of
       kInvalid \<Rightarrow> VErr
     | kApplyFunc \<Rightarrow> VErr
     | kNegate \<Rightarrow> bv1 (\<lambda>a. (- a) mod 2 ^ w) vs
     | kNot \<Rightarrow> (case vs of [VBool a] \<Rightarrow> VBool (\<not> a) | _ \<Rightarrow> VErr)
     | kComplement \<Rightarrow> bv1 (\<lambda>a. 2 ^ w - 1 - a) vs
     | kAnd \<Rightarrow> bool_or_bv (\<and>) (AND) vs
     | kOr \<Rightarrow> bool_or_bv (\<or>) (OR) vs
     | kXor \<Rightarrow> bool_or_bv (\<noteq>) (XOR) vs
     | kShiftLeft \<Rightarrow> bv2 (bv_shl w) vs
     | kArithShiftRight \<Rightarrow> bv2 (bv_ashr w) vs
     | kLogicShiftRight \<Rightarrow> bv2 (bv_lshr w) vs
     | kAdd \<Rightarrow> bv2 (\<lambda>a b. (a + b) mod 2 ^ w) vs
     | kSubtract \<Rightarrow> bv2 (\<lambda>a b. (a - b) mod 2 ^ w) vs
     | kMultiply \<Rightarrow> bv2 (\<lambda>a b. (a * b) mod 2 ^ w) vs
     | kDivide \<Rightarrow> bv2 (bv_sdiv w) vs
     | kSignedRemainder \<Rightarrow> bv2 (bv_srem w) vs
     | kUnsignedRemainder \<Rightarrow> bv2 bv_urem vs
     | kSignedModular \<Rightarrow> bv2 (bv_smod w) vs
     | kEqual \<Rightarrow> (case vs of [a, b] \<Rightarrow> VBool (a = b) | _ \<Rightarrow> VErr)
     | kLessThan \<Rightarrow> bvp (\<lambda>a b. bv_signed w a < bv_signed w b) vs
     | kGreaterThan \<Rightarrow> bvp (\<lambda>a b. bv_signed w b < bv_signed w a) vs
     | kUnsignedLessThan \<Rightarrow> bvp (\<lambda>a b. a < b) vs
     | kUnsignedGreaterThan \<Rightarrow> bvp (\<lambda>a b. b < a) vs
     | kLoad \<Rightarrow> (case vs of [VMem m, VBv a] \<Rightarrow> VBv (m a) | _ \<Rightarrow> VErr)
     | kStore \<Rightarrow> (case vs of [VMem m, VBv a, VBv d] \<Rightarrow> VMem (m(a := d)) | _ \<Rightarrow> VErr)
     | kConcatenate \<Rightarrow> bv2 (\<lambda>a b. a * 2 ^ width_of ss 1 + b) vs
     | kExtract \<Rightarrow> (case ps of [hi, lo] \<Rightarrow> bv1 (bv_extract hi lo) vs | _ \<Rightarrow> VErr)
     | kZeroExtend \<Rightarrow> bv1 (\<lambda>a. a) vs
     | kSignedExtend \<Rightarrow> (case ps of [v] \<Rightarrow> bv1 (\<lambda>a. bv_signed w a mod 2 ^ nat v) vs | _ \<Rightarrow> VErr)
     | kRotateLeft \<Rightarrow> (case ps of [n] \<Rightarrow> bv1 (bv_rotl w n) vs | _ \<Rightarrow> VErr)
     | kRotateRight \<Rightarrow> (case ps of [n] \<Rightarrow> bv1 (bv_rotr w n) vs | _ \<Rightarrow> VErr)
     | kImply \<Rightarrow> (case vs of [VBool a, VBool b] \<Rightarrow> VBool (a \<longrightarrow> b) | _ \<Rightarrow> VErr)
     | kIfThenElse \<Rightarrow> (case vs of [VBool c, a, b] \<Rightarrow> (if c then a else b) | _ \<Rightarrow> VErr))"

definition mem_const :: "int \<Rightarrow> MemVal \<Rightarrow> int \<Rightarrow> int" where
  "mem_const aw mv x =
     (if 0 \<le> x \<and> x < 2 ^ nat aw
      then uint (if x < 2 ^ 64 then get_data mv (word_of_int x) else def_val mv) else 0)"

definition const_sem :: "sort \<Rightarrow> Value \<Rightarrow> sval" where
  "const_sem s v = (case v of
       BoolVal b \<Rightarrow> VBool b
     | BvVal x \<Rightarrow> VBv (uint x)
     | MemV mv \<Rightarrow> (case s of SortMem aw dw \<Rightarrow> VMem (mem_const aw mv) | _ \<Rightarrow> VErr))"

fun eval :: "interp \<Rightarrow> expr \<Rightarrow> sval" where
  "eval I (Expr i n s h ps as k) = (case k of
       KVar \<Rightarrow> ivar I (Expr i n s h ps as k)
     | KConst v \<Rightarrow> const_sem s v
     | KOp u \<Rightarrow> op_sem u (map esort as) ps (map (eval I) as)
     | KApp f \<Rightarrow> ifun I f (map (eval I) as))"

section \<open>Well-formed expressions\<close>

fun sort_wf :: "sort \<Rightarrow> bool" where
  "sort_wf SortBool = True"
| "sort_wf (SortBv w) = (0 < w)"
| "sort_wf (SortMem a d) = (0 < a \<and> 0 < d)"
| "sort_wf _ = False"

text \<open>The constructors leave some misuse to the back ends: arithmetic on Booleans, an
  extraction beyond the width. \<open>sem_ok\<close> excludes it.\<close>

definition sem_ok :: "AstUidExprOp \<Rightarrow> sort list \<Rightarrow> int list \<Rightarrow> bool" where
  "sem_ok u ss ps = (case u of
       kExtract \<Rightarrow> (case (ss, ps) of ([SortBv w], [hi, lo]) \<Rightarrow> 0 \<le> lo \<and> hi < w | _ \<Rightarrow> False)
     | kAnd \<Rightarrow> is_bool (ss ! 0) \<or> is_bv (ss ! 0) 0
     | kOr \<Rightarrow> is_bool (ss ! 0) \<or> is_bv (ss ! 0) 0
     | kXor \<Rightarrow> is_bool (ss ! 0) \<or> is_bv (ss ! 0) 0
     | kAdd \<Rightarrow> is_bv (ss ! 0) 0 | kSubtract \<Rightarrow> is_bv (ss ! 0) 0 | kMultiply \<Rightarrow> is_bv (ss ! 0) 0
     | kDivide \<Rightarrow> is_bv (ss ! 0) 0 | kSignedRemainder \<Rightarrow> is_bv (ss ! 0) 0
     | kUnsignedRemainder \<Rightarrow> is_bv (ss ! 0) 0 | kSignedModular \<Rightarrow> is_bv (ss ! 0) 0
     | kLessThan \<Rightarrow> is_bv (ss ! 0) 0 | kGreaterThan \<Rightarrow> is_bv (ss ! 0) 0
     | kUnsignedLessThan \<Rightarrow> is_bv (ss ! 0) 0 | kUnsignedGreaterThan \<Rightarrow> is_bv (ss ! 0) 0
     | _ \<Rightarrow> True)"

definition const_wf :: "sort \<Rightarrow> Value \<Rightarrow> bool" where
  "const_wf s v = (case (s, v) of
       (SortBool, BoolVal b) \<Rightarrow> True
     | (SortBv w, BvVal x) \<Rightarrow> 0 < w \<and> uint x < 2 ^ nat w
     | (SortMem a d, MemV mv) \<Rightarrow>
         sort_wf (SortMem a d) \<and> MemVal_ok mv \<and> uint (def_val mv) < 2 ^ nat d \<and>
         list_all (\<lambda>(x, y). uint x < 2 ^ nat a \<and> uint y < 2 ^ nat d) (val_map mv)
     | _ \<Rightarrow> False)"

definition node_wf :: "sort \<Rightarrow> int list \<Rightarrow> sort list \<Rightarrow> ekind \<Rightarrow> bool" where
  "node_wf s ps ss k = (case k of
       KVar \<Rightarrow> ss = [] \<and> sort_wf s
     | KConst v \<Rightarrow> ss = [] \<and> ps = [] \<and> const_wf s v
     | KOp u \<Rightarrow> op_sort u ss ps = Some s \<and> sem_ok u ss ps
     | KApp f \<Rightarrow> ss = func_args f \<and> ps = [] \<and> s = func_out f \<and> sort_wf s)"

fun wf_expr :: "expr \<Rightarrow> bool" where
  "wf_expr (Expr i n s h ps as k) = (list_all wf_expr as \<and> node_wf s ps (map esort as) k)"

definition interp_ok :: "interp \<Rightarrow> bool" where
  "interp_ok I =
     ((\<forall>e. sort_wf (esort e) \<longrightarrow> val_ok (esort e) (ivar I e)) \<and>
      (\<forall>f vs. sort_wf (func_out f) \<longrightarrow> list_all2 val_ok (func_args f) vs \<longrightarrow>
              val_ok (func_out f) (ifun I f vs)))"

text \<open>The interpretation that makes every variable and function zero.\<close>

definition zero_val :: "sort \<Rightarrow> sval" where
  "zero_val s = (case s of SortBool \<Rightarrow> VBool False | SortBv w \<Rightarrow> VBv 0 | SortMem a d \<Rightarrow> VMem (\<lambda>x. 0) | _ \<Rightarrow> VErr)"

definition zero_interp :: interp where
  "zero_interp = \<lparr>ivar = (\<lambda>e. zero_val (esort e)), ifun = (\<lambda>f vs. zero_val (func_out f))\<rparr>"

lemma zero_interp_ok: "interp_ok zero_interp"
proof -
  have "sort_wf s \<Longrightarrow> val_ok s (zero_val s)" for s by (cases s) (simp_all add: zero_val_def)
  then show ?thesis by (simp add: interp_ok_def zero_interp_def)
qed


section \<open>Type soundness\<close>

lemma val_ok_iff:
  "val_ok SortBool v \<longleftrightarrow> (\<exists>b. v = VBool b)"
  "val_ok (SortBv w) v \<longleftrightarrow> (\<exists>a. v = VBv a \<and> 0 \<le> a \<and> a < 2 ^ nat w)"
  "val_ok (SortMem aw dw) v \<longleftrightarrow>
     (\<exists>f. v = VMem f \<and> (\<forall>x. 0 \<le> f x \<and> f x < 2 ^ nat dw) \<and>
          (\<forall>x. \<not> (0 \<le> x \<and> x < 2 ^ nat aw) \<longrightarrow> f x = 0))"
  by (cases v; auto)+

lemma bitop_bounds:
  fixes a b :: int
  assumes "0 \<le> a" "a < 2 ^ n" "0 \<le> b" "b < 2 ^ n"
  shows "0 \<le> a AND b \<and> a AND b < 2 ^ n" "0 \<le> a OR b \<and> a OR b < 2 ^ n"
    "0 \<le> a XOR b \<and> a XOR b < 2 ^ n"
proof -
  have "take_bit n a = a" "take_bit n b = b" using assms by (simp_all add: take_bit_int_eq_self)
  then have "take_bit n (a AND b) = a AND b" "take_bit n (a OR b) = a OR b"
    "take_bit n (a XOR b) = a XOR b" by simp_all
  then show "0 \<le> a AND b \<and> a AND b < 2 ^ n" "0 \<le> a OR b \<and> a OR b < 2 ^ n"
    "0 \<le> a XOR b \<and> a XOR b < 2 ^ n"
    using take_bit_int_less_exp take_bit_nonnegative by metis+
qed

lemma int_div_less: "(0::int) < q \<Longrightarrow> a < n * q \<Longrightarrow> a div q < n"
  by (metis div_mult_mod_eq le_add_same_cancel1 mult_less_cancel_right_pos order_le_less_trans
      pos_mod_sign)

lemma split_bounds:
  fixes a :: int
  assumes "0 \<le> a" "a < 2 ^ w" "k \<le> w"
  shows "0 \<le> (a * 2 ^ k) mod 2 ^ w + a div 2 ^ (w - k)"
    "(a * 2 ^ k) mod 2 ^ w + a div 2 ^ (w - k) < 2 ^ w"
proof -
  have w: "(2::int) ^ w = 2 ^ (w - k) * 2 ^ k" using assms(3) by (simp flip: power_add)
  have m: "(a * 2 ^ k) mod 2 ^ w = (a mod 2 ^ (w - k)) * 2 ^ k"
    unfolding w by (rule mult_mod_left [symmetric])
  have "a mod 2 ^ (w - k) \<le> 2 ^ (w - k) - 1" by (simp add: zle_diff1_eq)
  then have "(a mod 2 ^ (w - k)) * 2 ^ k \<le> (2 ^ (w - k) - 1) * 2 ^ k" by (rule mult_right_mono) simp
  then have le: "(a * 2 ^ k) mod 2 ^ w \<le> 2 ^ w - 2 ^ k" unfolding m w by (simp add: algebra_simps)
  have "a div 2 ^ (w - k) < 2 ^ k"
    using assms by (intro int_div_less) (simp_all add: w mult.commute)
  with le show "(a * 2 ^ k) mod 2 ^ w + a div 2 ^ (w - k) < 2 ^ w" by linarith
  show "0 \<le> (a * 2 ^ k) mod 2 ^ w + a div 2 ^ (w - k)"
    using assms by (simp add: pos_imp_zdiv_nonneg_iff)
qed


lemma list_all2_len:
  "list_all2 P [s] vs \<longleftrightarrow> (\<exists>v. vs = [v] \<and> P s v)"
  "list_all2 P [s, t] vs \<longleftrightarrow> (\<exists>v u. vs = [v, u] \<and> P s v \<and> P t u)"
  "list_all2 P [s, t, r] vs \<longleftrightarrow> (\<exists>v u x. vs = [v, u, x] \<and> P s v \<and> P t u \<and> P r x)"
  by (auto simp: list_all2_Cons1)

lemmas op_sem_defs =
  op_sem_def Let_def bv1_def bv2_def bvp_def bool_or_bv_def width_of_def

lemma op_sort_wf:
  "op_sort u ss ps = Some s \<Longrightarrow> list_all sort_wf ss \<Longrightarrow> sort_wf s"
  by (cases u) (auto simp: op_sort_def sort_rule_defs split: list.splits sort.splits if_splits)

lemma shift_bounds:
  fixes a :: int
  assumes "0 \<le> a" "a < 2 ^ w" "0 \<le> n"
  shows "0 \<le> bv_lshr w a n" "bv_lshr w a n < 2 ^ w" "0 \<le> bv_shl w a n" "bv_shl w a n < 2 ^ w"
    "0 \<le> bv_ashr w a n" "bv_ashr w a n < 2 ^ w"
proof -
  have "a < 2 ^ w * 2 ^ nat n" using assms(2) by (rule less_le_trans) simp
  then have "a div 2 ^ nat n < 2 ^ w" by (intro int_div_less) simp_all
  then show "bv_lshr w a n < 2 ^ w" by (simp add: bv_lshr_def)
qed (use assms in \<open>simp_all add: bv_lshr_def bv_shl_def bv_ashr_def pos_imp_zdiv_nonneg_iff\<close>)

lemma urem_bounds:
  "0 \<le> a \<Longrightarrow> a < 2 ^ w \<Longrightarrow> 0 \<le> b \<Longrightarrow> b < 2 ^ w \<Longrightarrow> 0 \<le> bv_urem a b \<and> bv_urem a b < 2 ^ w"
  by (auto simp: bv_urem_def pos_mod_bound intro: less_trans [OF pos_mod_bound])

lemma rot_bounds:
  fixes a :: int
  assumes "0 \<le> a" "a < 2 ^ w" "0 < w"
  shows "0 \<le> bv_rotl w n a" "bv_rotl w n a < 2 ^ w" "0 \<le> bv_rotr w n a" "bv_rotr w n a < 2 ^ w"
proof -
  let ?k = "nat n mod w"
  have k: "?k \<le> w" using assms(3) by (simp add: less_imp_le)
  show "0 \<le> bv_rotl w n a" "bv_rotl w n a < 2 ^ w"
    using split_bounds [OF assms(1,2) k] by (simp_all add: bv_rotl_def Let_def)
  show "0 \<le> bv_rotr w n a" "bv_rotr w n a < 2 ^ w"
    using split_bounds [OF assms(1,2), of "w - ?k"] k by (simp_all add: bv_rotr_def Let_def add.commute)
qed

lemma concat_bounds:
  fixes a b :: int
  assumes "0 \<le> a" "a < 2 ^ w" "0 \<le> b" "b < 2 ^ v"
  shows "0 \<le> a * 2 ^ v + b" "a * 2 ^ v + b < 2 ^ (w + v)"
proof -
  have "a * 2 ^ v \<le> (2 ^ w - 1) * 2 ^ v" using assms(2) by (intro mult_right_mono) simp_all
  then show "a * 2 ^ v + b < 2 ^ (w + v)" using assms(4) by (simp add: power_add algebra_simps)
qed (use assms in simp)

lemma extend_bound: "(a::int) < 2 ^ nat w \<Longrightarrow> w \<le> v \<Longrightarrow> a < 2 ^ nat v"
  by (erule less_le_trans) (simp add: nat_mono)

text \<open>The sort rules, inverted.\<close>

lemma sort_rule_Some:
  "unary_bv ss ps = Some s \<longleftrightarrow> (\<exists>w. ss = [SortBv w] \<and> ps = [] \<and> s = SortBv w)"
  "same_sort ss ps = Some s \<longleftrightarrow> ss = [s, s] \<and> ps = []"
  "binary_bv ss ps = Some s \<longleftrightarrow> (\<exists>w. ss = [SortBv w, SortBv w] \<and> ps = [] \<and> s = SortBv w)"
  "comparison ss ps = Some s \<longleftrightarrow> (\<exists>t. ss = [t, t] \<and> ps = [] \<and> s = SortBool)"
  "extension ss ps = Some s \<longleftrightarrow> (\<exists>w v. ss = [SortBv w] \<and> ps = [v] \<and> w \<le> v \<and> s = SortBv v)"
  "rotation ss ps = Some s \<longleftrightarrow> (\<exists>w n. ss = [SortBv w] \<and> ps = [n] \<and> 0 \<le> n \<and> s = SortBv w)"
  by (auto simp: sort_rule_defs split: list.splits sort.splits if_splits)

lemma op_sort_Some:
  "op_sort kLoad ss ps = Some s \<longleftrightarrow>
     (\<exists>a d. ss = [SortMem a d, SortBv a] \<and> ps = [] \<and> s = SortBv d)"
  "op_sort kStore ss ps = Some s \<longleftrightarrow>
     (\<exists>a d. ss = [SortMem a d, SortBv a, SortBv d] \<and> ps = [] \<and> s = SortMem a d)"
  "op_sort kConcatenate ss ps = Some s \<longleftrightarrow>
     (\<exists>w v. ss = [SortBv w, SortBv v] \<and> ps = [] \<and> s = SortBv (w + v))"
  "op_sort kExtract ss ps = Some s \<longleftrightarrow>
     (\<exists>w hi lo. ss = [SortBv w] \<and> ps = [hi, lo] \<and> lo \<le> hi \<and> s = SortBv (hi - lo + 1))"
  "op_sort kNot ss ps = Some s \<longleftrightarrow> ss = [SortBool] \<and> ps = [] \<and> s = SortBool"
  "op_sort kImply ss ps = Some s \<longleftrightarrow> ss = [SortBool, SortBool] \<and> ps = [] \<and> s = SortBool"
  "op_sort kIfThenElse ss ps = Some s \<longleftrightarrow> ss = [SortBool, s, s] \<and> ps = []"
  "op_sort kEqual ss ps = Some s \<longleftrightarrow> (\<exists>t. ss = [t, t] \<and> ps = [] \<and> s = SortBool)"
  by (auto simp: op_sort_def sort_rule_Some split: list.splits sort.splits if_splits)

lemma bv1_ok:
  "list_all2 val_ok [SortBv w] vs \<Longrightarrow>
   (\<And>a. 0 \<le> a \<Longrightarrow> a < 2 ^ nat w \<Longrightarrow> 0 \<le> f a \<and> f a < 2 ^ nat v) \<Longrightarrow> val_ok (SortBv v) (bv1 f vs)"
  by (auto simp: bv1_def list_all2_len val_ok_iff)

lemma bv2_ok:
  "list_all2 val_ok [SortBv w, SortBv u] vs \<Longrightarrow>
   (\<And>a b. 0 \<le> a \<Longrightarrow> a < 2 ^ nat w \<Longrightarrow> 0 \<le> b \<Longrightarrow> b < 2 ^ nat u \<Longrightarrow>
      0 \<le> f a b \<and> f a b < 2 ^ nat v) \<Longrightarrow> val_ok (SortBv v) (bv2 f vs)"
  by (auto simp: bv2_def list_all2_len val_ok_iff)

lemma bvp_ok: "list_all2 val_ok [SortBv w, SortBv w] vs \<Longrightarrow> val_ok SortBool (bvp f vs)"
  by (auto simp: bvp_def list_all2_len val_ok_iff)

lemma bool_or_bv_ok:
  "list_all2 val_ok [s, s] vs \<Longrightarrow> is_bool s \<or> is_bv s 0 \<Longrightarrow>
   (\<And>a b n. 0 \<le> a \<Longrightarrow> a < 2 ^ n \<Longrightarrow> 0 \<le> b \<Longrightarrow> b < 2 ^ n \<Longrightarrow> 0 \<le> f a b \<and> f a b < 2 ^ n) \<Longrightarrow>
   val_ok s (bool_or_bv g f vs)"
  by (auto simp: bool_or_bv_def list_all2_len val_ok_iff)

lemma width_of_simps [simp]:
  "width_of (SortBv w # ss) 0 = nat w" "width_of (s # SortBv w # ss) (Suc 0) = nat w"
  by (simp_all add: width_of_def)

lemma mod_bounds [simp]: "0 \<le> (a::int) mod 2 ^ n" "a mod 2 ^ n < 2 ^ n"
  by simp_all

lemma signed_bounds:
  "0 \<le> bv_sdiv w a b" "bv_sdiv w a b < 2 ^ w" "0 \<le> bv_srem w a b" "bv_srem w a b < 2 ^ w"
  "0 \<le> bv_smod w a b" "bv_smod w a b < 2 ^ w" "0 \<le> bv_extract hi lo a"
  "bv_extract hi lo a < 2 ^ nat (hi - lo + 1)"
  by (simp_all only: bv_sdiv_def bv_srem_def bv_smod_def bv_extract_def mod_bounds)

lemmas bv_bounds =
  bitop_bounds shift_bounds urem_bounds rot_bounds concat_bounds signed_bounds extend_bound
  nat_add_distrib

text \<open>Operations map values of the argument sorts to values of the result sort.\<close>

lemma op_sem_ok:
  assumes "op_sort u ss ps = Some s" "sem_ok u ss ps" "list_all sort_wf ss" "list_all2 val_ok ss vs"
  shows "val_ok s (op_sem u ss ps vs)"
proof (cases "u \<in> {kLoad, kStore, kIfThenElse, kNot, kImply, kEqual}")
  case True
  with assms show ?thesis
    by (auto simp: op_sort_Some op_sem_def list_all2_len val_ok_iff)
next
  case False
  show ?thesis
  proof (cases "u \<in> {kConcatenate, kExtract}")
    case True
    with assms show ?thesis
      by (auto simp: op_sort_Some op_sem_def nat_add_distrib simp del: list_all2_Cons
          intro!: bv1_ok bv2_ok concat_bounds signed_bounds)
  next
    case other: False
    have "list_all2 val_ok ss vs \<longrightarrow> val_ok s (op_sem u ss ps vs)"
      using assms(1,2,3) False other
      apply (cases u)
      apply (simp_all add: op_sort_def sort_rule_Some sem_ok_def op_sem_def del: list_all2_Cons)
      apply (auto simp: Let_def bv_bounds simp del: list_all2_Cons
          intro!: bv1_ok bv2_ok bvp_ok bool_or_bv_ok)
      done
    with assms(4) show ?thesis by blast
  qed
qed


lemma get_data_bound:
  assumes "uint (def_val mv) < 2 ^ n" "list_all (\<lambda>(x, y). uint y < 2 ^ n) (val_map mv)"
  shows "uint (get_data mv x) < 2 ^ n"
  using assms by (auto simp: get_data_def list_all_iff split: option.splits dest!: map_of_SomeD)

lemma const_sem_ok: "const_wf s v \<Longrightarrow> val_ok s (const_sem s v)"
proof (cases v)
  case (MemV mv)
  assume wf: "const_wf s v"
  then obtain a d where s: "s = SortMem a d" using MemV by (auto simp: const_wf_def split: sort.splits)
  have "uint (get_data mv x) < 2 ^ nat d" for x
    using wf MemV s by (intro get_data_bound) (auto simp: const_wf_def list_all_iff)
  then show ?thesis
    using wf MemV s by (auto simp: const_sem_def mem_const_def const_wf_def)
qed (auto simp: const_wf_def const_sem_def split: sort.splits)

lemma const_wf_sort: "const_wf s v \<Longrightarrow> sort_wf s"
  by (auto simp: const_wf_def split: sort.splits Value.splits)

lemma wf_sort: "wf_expr e \<Longrightarrow> sort_wf (esort e)"
proof (induction e rule: wf_expr.induct)
  case (1 i n s h ps as k)
  have "list_all sort_wf (map esort as)" using 1 by (auto simp: list_all_iff)
  with 1 show ?case
    by (auto simp: node_wf_def dest: op_sort_wf const_wf_sort split: ekind.splits)
qed

lemma wf_args: "wf_expr e \<Longrightarrow> a \<in> set (eargs e) \<Longrightarrow> wf_expr a"
  by (cases e) (auto simp: list_all_iff)

lemma wf_node: "wf_expr e \<Longrightarrow> node_wf (esort e) (eparams e) (map esort (eargs e)) (ekind e)"
  by (cases e) simp

lemma eval_val_ok:
  "wf_expr e \<Longrightarrow> interp_ok I \<Longrightarrow> val_ok (esort e) (eval I e)"
proof (induction e rule: wf_expr.induct)
  case (1 i n s h ps as k)
  have args: "list_all sort_wf (map esort as)" using 1 by (auto simp: list_all_iff wf_sort)
  have vals: "list_all2 val_ok (map esort as) (map (eval I) as)"
    using 1 by (auto simp: list_all_iff list_all2_conv_all_nth)
  have s: "sort_wf s" using wf_sort [OF 1(2)] by simp
  show ?case
  proof (cases k)
    case KVar
    with 1(3) s have "val_ok s (ivar I (Expr i n s h ps as k))"
      unfolding interp_ok_def by (metis expr.sel(3))
    with KVar show ?thesis by simp
  next
    case (KConst v)
    with 1 show ?thesis by (simp add: node_wf_def const_sem_ok)
  next
    case (KOp u)
    with 1 args vals show ?thesis by (simp add: node_wf_def op_sem_ok)
  next
    case (KApp f)
    with 1(2) have f: "func_args f = map esort as" "func_out f = s" by (simp_all add: node_wf_def)
    with 1(3) vals s have "val_ok s (ifun I f (map (eval I) as))"
      unfolding interp_ok_def by metis
    with KApp show ?thesis by simp
  qed
qed

text \<open>A constructed operation is well formed when the back ends accept its sorts.\<close>

lemma built_wf:
  "built (KOp u) as ps s h e h' \<Longrightarrow> op_sort u (map esort as) ps = Some s \<Longrightarrow>
   sem_ok u (map esort as) ps \<Longrightarrow> list_all wf_expr as \<Longrightarrow> wf_expr e"
  by (auto simp: built_def node_wf_def)

lemma built_eval:
  "built (KOp u) as ps s h e h' \<Longrightarrow> eval I e = op_sem u (map esort as) ps (map (eval I) as)"
  by (auto simp: built_def)

lemma wf_bool_val: "wf_expr e \<Longrightarrow> interp_ok I \<Longrightarrow> esort e = SortBool \<Longrightarrow> \<exists>b. eval I e = VBool b"
  using val_ok_iff(1) [of "eval I e"] eval_val_ok [of e I] by simp


section \<open>Properties\<close>

text \<open>C19: Type soundness. Under an interpretation that gives every variable and function a value
  of its sort, a well-formed expression evaluates to a value of its sort: a Boolean, a
  bit-vector within its width, or a memory within its address and data widths; and an
  operation node that a constructor returns for well-formed arguments, with sorts the
  operation has a meaning for, is well formed.\<close>

theorem eval_sort:
  assumes "interp_ok I" and "list_all wf_expr as"
    and "construct u as ps h = Inr (e, h')" and "sem_ok u (map esort as) ps"
  shows "wf_expr e \<and> val_ok (esort e) (eval I e)"
proof -
  obtain s where "op_sort u (map esort as) ps = Some s" and "built (KOp u) as ps s h e h'"
    using assms(3) by (cases "op_sort u (map esort as) ps") (auto simp: construct_Inr)
  then have "wf_expr e" using assms(2,4) built_wf by blast
  with assms(1) show ?thesis by (simp add: eval_val_ok)
qed

text \<open>Adding two 4-bit constants, 9 + 9.\<close>

definition const9 :: expr where
  "const9 = Expr 1 ''$1'' (SortBv 4) None [] [] (KConst (BvVal 9))"

theorem eval_sort_witness:
  "\<exists>e h'. construct kAdd [const9, const9] [] empty_heap = Inr (e, h') \<and>
     wf_expr e \<and> val_ok (esort e) (eval zero_interp e)"
proof -
  have "list_all wf_expr [const9, const9]" "sem_ok kAdd (map esort [const9, const9]) []"
    by (simp_all add: const9_def node_wf_def const_wf_def sem_ok_def)
  moreover obtain e h' where "construct kAdd [const9, const9] [] empty_heap = Inr (e, h')"
    by (auto simp: construct_Inr const9_def op_sort_def same_sort_def built_def GetHost_val_def
        GetHost_def host_set_def List.map_filter_def monad_simps)
  ultimately show ?thesis using eval_sort [OF zero_interp_ok] by blast
qed

end
