(* ===== verification/AstHub.thy ===== *)
theory AstHub
  imports Semantics
begin

text \<open>
  The namespace \<^verbatim>\<open>asthub\<close> (src/ila/ast\_hub.cc): the functions through which the rest of
  the program builds expressions. Overloads are told apart by a suffix: \<open>_bool\<close>,
  \<open>_int\<close> and \<open>_val\<close> name the overloads that take a C++ Boolean, \<^verbatim>\<open>int\<close> or
  \<^verbatim>\<open>BvValType\<close> on the right, \<open>_v\<close> the ones that take a wrapped constant.
\<close>

section \<open>Variables and constants\<close>

definition NewBoolVar :: "string \<Rightarrow> expr M" where
  "NewBoolVar name = ExprVar_bool name"

definition NewBvVar :: "string \<Rightarrow> int \<Rightarrow> expr M" where
  "NewBvVar name width = ExprVar_bv name width"

definition NewMemVar :: "string \<Rightarrow> int \<Rightarrow> int \<Rightarrow> expr M" where
  "NewMemVar name aw dw = ExprVar_mem name aw dw"

definition BoolConst :: "bool \<Rightarrow> expr M" where
  "BoolConst val = ExprConst_bool val"

definition BvConst :: "BvValType \<Rightarrow> int \<Rightarrow> expr M" where
  "BvConst val width = ExprConst_bv val width"

definition MemConst :: "BvValType \<Rightarrow> int \<Rightarrow> int \<Rightarrow> expr M" where
  "MemConst def aw dw = ExprConst_mem (MemVal_new def) aw dw"

definition MemConst_v :: "MemVal \<Rightarrow> int \<Rightarrow> int \<Rightarrow> expr M" where
  "MemConst_v val aw dw = ExprConst_mem val aw dw"

section \<open>Operations\<close>

definition Negate :: "expr \<Rightarrow> expr M" where
  "Negate a = ExprOpNeg a"

definition NotE :: "expr \<Rightarrow> expr M" where
  "NotE a = ExprOpNot a"

definition Complement :: "expr \<Rightarrow> expr M" where
  "Complement a = ExprOpCompl a"

definition EqE :: "expr \<Rightarrow> expr \<Rightarrow> expr M" where
  "EqE l r = ExprOpEq l r"

definition Eq_val :: "expr \<Rightarrow> BvValType \<Rightarrow> expr M" where
  "Eq_val l r =
     bnd (if e_is_bool l then BoolConst (r = 1)
          else bnd (lift (bit_width (esort l))) (\<lambda>w. BvConst r w))
       (\<lambda>rc. EqE l rc)"

text \<open>
  And, Or and Xor accept a Boolean with a 1-bit vector: the vector is compared with 1 and
  the function calls itself on two Booleans, where the first branch applies.
\<close>

definition AndE :: "expr \<Rightarrow> expr \<Rightarrow> expr M" where
  "AndE l r =
     (if sort_Equal (esort l) (esort r) then ExprOpAnd l r
      else if is_bv (esort l) 1 \<and> e_is_bool r then bnd (Eq_val l 1) (\<lambda>l'. ExprOpAnd l' r)
      else bnd (ila_assert (e_is_bool l \<and> is_bv (esort r) 1) ''AND two expressions of different sorts not supported'')
             (\<lambda>_. bnd (Eq_val r 1) (\<lambda>r'. ExprOpAnd l r')))"

definition OrE :: "expr \<Rightarrow> expr \<Rightarrow> expr M" where
  "OrE l r =
     (if sort_Equal (esort l) (esort r) then ExprOpOr l r
      else if is_bv (esort l) 1 \<and> e_is_bool r then bnd (Eq_val l 1) (\<lambda>l'. ExprOpOr l' r)
      else bnd (ila_assert (e_is_bool l \<and> is_bv (esort r) 1) ''OR two expressions of different sorts not supported'')
             (\<lambda>_. bnd (Eq_val r 1) (\<lambda>r'. ExprOpOr l r')))"

definition XorE :: "expr \<Rightarrow> expr \<Rightarrow> expr M" where
  "XorE l r =
     (if sort_Equal (esort l) (esort r) then ExprOpXor l r
      else if is_bv (esort l) 1 \<and> e_is_bool r then bnd (Eq_val l 1) (\<lambda>l'. ExprOpXor l' r)
      else bnd (ila_assert (e_is_bool l \<and> is_bv (esort r) 1) ''XOR two expressions of different sorts not supported'')
             (\<lambda>_. bnd (Eq_val r 1) (\<lambda>r'. ExprOpXor l r')))"

definition Shl :: "expr \<Rightarrow> expr \<Rightarrow> expr M" where
  "Shl l r = ExprOpShl l r"

definition Ashr :: "expr \<Rightarrow> expr \<Rightarrow> expr M" where
  "Ashr l r = ExprOpAshr l r"

definition Lshr :: "expr \<Rightarrow> expr \<Rightarrow> expr M" where
  "Lshr l r = ExprOpLshr l r"

definition Add :: "expr \<Rightarrow> expr \<Rightarrow> expr M" where
  "Add l r = ExprOpAdd l r"

definition Sub :: "expr \<Rightarrow> expr \<Rightarrow> expr M" where
  "Sub l r = ExprOpSub l r"

definition Div :: "expr \<Rightarrow> expr \<Rightarrow> expr M" where
  "Div l r = ExprOpDiv l r"

definition SRem :: "expr \<Rightarrow> expr \<Rightarrow> expr M" where
  "SRem l r = ExprOpSRem l r"

definition URem :: "expr \<Rightarrow> expr \<Rightarrow> expr M" where
  "URem l r = ExprOpURem l r"

definition SMod :: "expr \<Rightarrow> expr \<Rightarrow> expr M" where
  "SMod l r = ExprOpSMod l r"

definition Mul :: "expr \<Rightarrow> expr \<Rightarrow> expr M" where
  "Mul l r = ExprOpMul l r"

definition And_bool :: "expr \<Rightarrow> bool \<Rightarrow> expr M" where
  "And_bool l r = bnd (BoolConst r) (\<lambda>rc. AndE l rc)"

definition Or_bool :: "expr \<Rightarrow> bool \<Rightarrow> expr M" where
  "Or_bool l r = bnd (BoolConst r) (\<lambda>rc. OrE l rc)"

definition Xor_bool :: "expr \<Rightarrow> bool \<Rightarrow> expr M" where
  "Xor_bool l r = bnd (BoolConst r) (\<lambda>rc. XorE l rc)"

definition Shl_int :: "expr \<Rightarrow> int \<Rightarrow> expr M" where
  "Shl_int l r =
     bnd (lift (bit_width (esort l))) (\<lambda>w. bnd (BvConst (word_of_int r) w) (\<lambda>rc. Shl l rc))"

definition Ashr_int :: "expr \<Rightarrow> int \<Rightarrow> expr M" where
  "Ashr_int l r =
     bnd (lift (bit_width (esort l))) (\<lambda>w. bnd (BvConst (word_of_int r) w) (\<lambda>rc. Ashr l rc))"

definition Lshr_int :: "expr \<Rightarrow> int \<Rightarrow> expr M" where
  "Lshr_int l r =
     bnd (lift (bit_width (esort l))) (\<lambda>w. bnd (BvConst (word_of_int r) w) (\<lambda>rc. Lshr l rc))"

definition Add_val :: "expr \<Rightarrow> BvValType \<Rightarrow> expr M" where
  "Add_val l r = bnd (lift (bit_width (esort l))) (\<lambda>w. bnd (BvConst r w) (\<lambda>rc. Add l rc))"

definition Sub_val :: "expr \<Rightarrow> BvValType \<Rightarrow> expr M" where
  "Sub_val l r = bnd (lift (bit_width (esort l))) (\<lambda>w. bnd (BvConst r w) (\<lambda>rc. Sub l rc))"

definition Mul_val :: "expr \<Rightarrow> BvValType \<Rightarrow> expr M" where
  "Mul_val l r = bnd (lift (bit_width (esort l))) (\<lambda>w. bnd (BvConst r w) (\<lambda>rc. Mul l rc))"

section \<open>Comparisons\<close>

definition Ne :: "expr \<Rightarrow> expr \<Rightarrow> expr M" where
  "Ne l r = bnd (ExprOpEq l r) (\<lambda>eq. ExprOpNot eq)"

definition Lt :: "expr \<Rightarrow> expr \<Rightarrow> expr M" where
  "Lt l r = ExprOpLt l r"

definition Gt :: "expr \<Rightarrow> expr \<Rightarrow> expr M" where
  "Gt l r = ExprOpGt l r"

definition Le :: "expr \<Rightarrow> expr \<Rightarrow> expr M" where
  "Le l r = bnd (ExprOpEq l r) (\<lambda>eq. bnd (ExprOpLt l r) (\<lambda>c. ExprOpOr eq c))"

definition Ge :: "expr \<Rightarrow> expr \<Rightarrow> expr M" where
  "Ge l r = bnd (ExprOpEq l r) (\<lambda>eq. bnd (ExprOpGt l r) (\<lambda>c. ExprOpOr eq c))"

definition Ult :: "expr \<Rightarrow> expr \<Rightarrow> expr M" where
  "Ult l r = ExprOpUlt l r"

definition Ugt :: "expr \<Rightarrow> expr \<Rightarrow> expr M" where
  "Ugt l r = ExprOpUgt l r"

definition Ule :: "expr \<Rightarrow> expr \<Rightarrow> expr M" where
  "Ule l r = bnd (ExprOpEq l r) (\<lambda>eq. bnd (ExprOpUlt l r) (\<lambda>c. ExprOpOr eq c))"

definition Uge :: "expr \<Rightarrow> expr \<Rightarrow> expr M" where
  "Uge l r = bnd (ExprOpEq l r) (\<lambda>eq. bnd (ExprOpUgt l r) (\<lambda>c. ExprOpOr eq c))"

definition Ne_val :: "expr \<Rightarrow> BvValType \<Rightarrow> expr M" where
  "Ne_val l r =
     bnd (if e_is_bool l then BoolConst (r = 1)
          else bnd (lift (bit_width (esort l))) (\<lambda>w. BvConst r w))
       (\<lambda>rc. Ne l rc)"

definition Lt_val :: "expr \<Rightarrow> BvValType \<Rightarrow> expr M" where
  "Lt_val l r = bnd (lift (bit_width (esort l))) (\<lambda>w. bnd (BvConst r w) (\<lambda>rc. Lt l rc))"

definition Gt_val :: "expr \<Rightarrow> BvValType \<Rightarrow> expr M" where
  "Gt_val l r = bnd (lift (bit_width (esort l))) (\<lambda>w. bnd (BvConst r w) (\<lambda>rc. Gt l rc))"

definition Le_val :: "expr \<Rightarrow> BvValType \<Rightarrow> expr M" where
  "Le_val l r = bnd (lift (bit_width (esort l))) (\<lambda>w. bnd (BvConst r w) (\<lambda>rc. Le l rc))"

definition Ge_val :: "expr \<Rightarrow> BvValType \<Rightarrow> expr M" where
  "Ge_val l r = bnd (lift (bit_width (esort l))) (\<lambda>w. bnd (BvConst r w) (\<lambda>rc. Ge l rc))"

definition Ult_val :: "expr \<Rightarrow> BvValType \<Rightarrow> expr M" where
  "Ult_val l r = bnd (lift (bit_width (esort l))) (\<lambda>w. bnd (BvConst r w) (\<lambda>rc. Ult l rc))"

definition Ugt_val :: "expr \<Rightarrow> BvValType \<Rightarrow> expr M" where
  "Ugt_val l r = bnd (lift (bit_width (esort l))) (\<lambda>w. bnd (BvConst r w) (\<lambda>rc. Ugt l rc))"

definition Ule_val :: "expr \<Rightarrow> BvValType \<Rightarrow> expr M" where
  "Ule_val l r = bnd (lift (bit_width (esort l))) (\<lambda>w. bnd (BvConst r w) (\<lambda>rc. Ule l rc))"

definition Uge_val :: "expr \<Rightarrow> BvValType \<Rightarrow> expr M" where
  "Uge_val l r = bnd (lift (bit_width (esort l))) (\<lambda>w. bnd (BvConst r w) (\<lambda>rc. Uge l rc))"

section \<open>Memories\<close>

definition Load :: "expr \<Rightarrow> expr \<Rightarrow> expr M" where
  "Load mem addr = ExprOpLoad mem addr"

definition Store :: "expr \<Rightarrow> expr \<Rightarrow> expr \<Rightarrow> expr M" where
  "Store mem addr data = ExprOpStore mem addr data"

definition Load_val :: "expr \<Rightarrow> BvValType \<Rightarrow> expr M" where
  "Load_val mem addr =
     bnd (lift (addr_width (esort mem))) (\<lambda>aw. bnd (BvConst addr aw) (\<lambda>ac. Load mem ac))"

definition Store_val :: "expr \<Rightarrow> BvValType \<Rightarrow> BvValType \<Rightarrow> expr M" where
  "Store_val mem addr data =
     bnd (lift (addr_width (esort mem))) (\<lambda>aw.
     bnd (BvConst addr aw) (\<lambda>ac.
     bnd (lift (data_width (esort mem))) (\<lambda>dw.
     bnd (BvConst data dw) (\<lambda>dc. Store mem ac dc))))"

text \<open>\<^verbatim>\<open>SetMemSize\<close> mutates the node; the model returns the node as it is afterwards.\<close>

definition SetMemSize :: "expr \<Rightarrow> int \<Rightarrow> (bool \<times> expr) result" where
  "SetMemSize mem sz =
     rassert (e_is_mem mem) (IlaAssert ''Set size to non-memory variable'')
       (rassert (0 < sz) (IlaAssert ''Setting non-positive memory size'')
         (if length (eparams mem) \<noteq> 0 then Inr (False, mem) else Inr (True, set_params [sz] mem)))"

definition GetMemSize :: "expr \<Rightarrow> int result" where
  "GetMemSize mem =
     rassert (e_is_mem mem) (IlaAssert ''Get size from non-memory variable'')
       (if length (eparams mem) = 0 then Inr 0
        else rassert (length (eparams mem) = 1) (IlaAssert ''Unrecognized memory parameter set'')
               (param mem 0))"

section \<open>Bit manipulation, functions, control\<close>

definition Ite :: "expr \<Rightarrow> expr \<Rightarrow> expr \<Rightarrow> expr M" where
  "Ite cnd true_expr false_expr = ExprOpIte cnd true_expr false_expr"

definition Concat :: "expr \<Rightarrow> expr \<Rightarrow> expr M" where
  "Concat hi lo =
     bnd (BvConst 0 1) (\<lambda>const_zero.
     bnd (BvConst 1 1) (\<lambda>const_one.
     bnd (if e_is_bool hi then Ite hi const_one const_zero else ret hi) (\<lambda>bv_hi.
     bnd (if e_is_bool lo then Ite lo const_one const_zero else ret lo) (\<lambda>bv_lo.
     ExprOpConcat bv_hi bv_lo))))"

definition Extract :: "expr \<Rightarrow> int \<Rightarrow> int \<Rightarrow> expr M" where
  "Extract bv hi lo = ExprOpExtract bv hi lo"

definition ZExt :: "expr \<Rightarrow> int \<Rightarrow> expr M" where
  "ZExt bv out_width = ExprOpZExt bv out_width"

definition SExt :: "expr \<Rightarrow> int \<Rightarrow> expr M" where
  "SExt bv out_width = ExprOpSExt bv out_width"

definition LRotate :: "expr \<Rightarrow> int \<Rightarrow> expr M" where
  "LRotate bv immediate = ExprOpLRotate bv immediate"

definition RRotate :: "expr \<Rightarrow> int \<Rightarrow> expr M" where
  "RRotate bv immediate = ExprOpRRotate bv immediate"

definition AppFunc0 :: "Func \<Rightarrow> expr M" where
  "AppFunc0 func = ExprOpAppFunc func []"

definition AppFunc1 :: "Func \<Rightarrow> expr \<Rightarrow> expr M" where
  "AppFunc1 func arg0 = ExprOpAppFunc func [arg0]"

definition AppFunc2 :: "Func \<Rightarrow> expr \<Rightarrow> expr \<Rightarrow> expr M" where
  "AppFunc2 func arg0 arg1 = ExprOpAppFunc func [arg0, arg1]"

definition AppFunc :: "Func \<Rightarrow> expr list \<Rightarrow> expr M" where
  "AppFunc func args = ExprOpAppFunc func args"

definition Imply :: "expr \<Rightarrow> expr \<Rightarrow> expr M" where
  "Imply p q = ExprOpImply p q"


section \<open>What the functions return\<close>

lemma drop_bit_zero_iff: "drop_bit n (v :: 64 word) = 0 \<longleftrightarrow> uint v < 2 ^ n"
proof -
  have "uint (drop_bit n v) = drop_bit n (take_bit 64 (uint v))"
    using unsigned_drop_bit_eq [where ?'a = int and n = n and w = v] by simp
  also have "\<dots> = uint v div 2 ^ n"
    using uint_bounded [of v] by (simp add: take_bit_int_eq_self drop_bit_eq_div)
  finally have "uint (drop_bit n v) = uint v div 2 ^ n" .
  moreover have "uint v div 2 ^ n = 0 \<longleftrightarrow> uint v < 2 ^ n"
    using zero_less_power [of "2 :: int" n] by (auto simp: zdiv_eq_0_iff)
  ultimately show ?thesis by (metis unsigned_0 unsigned_word_eqI)
qed

lemma BvConst_Inr:
  "BvConst v w h = Inr (e, h') \<longleftrightarrow>
     0 < w \<and> uint v < 2 ^ nat w \<and> h' = h\<lparr>counter := counter h + 1\<rparr> \<and>
     e = Expr (counter h + 1) (anon_name (counter h + 1)) (SortBv w) None [] [] (KConst (BvVal v))"
proof -
  have "BvValTypeBitWidth \<le> w \<Longrightarrow> uint v < 2 ^ nat w"
    using uint_bounded [of v] power_increasing [of 64 "nat w" "2 :: int"]
    by (simp add: BvValTypeBitWidth_def nat_le_iff le_nat_iff)
  then show ?thesis
    by (auto simp: BvConst_def ExprConst_bv_def drop_bit_zero_iff MakeBvSort_def)
qed

lemma BvConst_err: "BvConst v w h = Inl err \<Longrightarrow> \<exists>msg. err = IlaCheck msg"
  by (auto simp: BvConst_def ExprConst_bv_def monad_simps split: if_splits)

lemma BoolConst_Inr:
  "BoolConst b h = Inr (e, h') \<longleftrightarrow>
     h' = h\<lparr>counter := counter h + 1\<rparr> \<and>
     e = Expr (counter h + 1) (anon_name (counter h + 1)) SortBool None [] [] (KConst (BoolVal b))"
  by (auto simp: BoolConst_def ExprConst_bool_def MakeBoolSort_def)

lemma BvConst_wf:
  "BvConst v w h = Inr (e, h') \<Longrightarrow> wf_expr e \<and> esort e = SortBv w \<and> eval I e = VBv (uint v)"
  by (auto simp: BvConst_Inr node_wf_def const_wf_def const_sem_def)

lemma BoolConst_wf:
  "BoolConst b h = Inr (e, h') \<Longrightarrow> wf_expr e \<and> esort e = SortBool \<and> eval I e = VBool b"
  by (auto simp: BoolConst_Inr node_wf_def const_wf_def const_sem_def)

text \<open>A built operation, read through its sort rule and its meaning.\<close>

lemma built_op:
  assumes "built (KOp u) as ps s h e h'" "op_sort u (map esort as) ps = Some s"
    "sem_ok u (map esort as) ps" "list_all wf_expr as"
  shows "wf_expr e \<and> esort e = s \<and> eval I e = op_sem u (map esort as) ps (map (eval I) as)"
  using built_wf [OF assms] built_eval [OF assms(1)] built_fields(4) [OF assms(1)] by simp

lemma ExprOpEq_ok:
  assumes "ExprOpEq l r h = Inr (e, h')" "wf_expr l" "wf_expr r"
  shows "wf_expr e \<and> esort e = SortBool \<and> eval I e = VBool (eval I l = eval I r)"
  using assms built_op [of kEqual "[l, r]" "[]" SortBool h e h' I]
  by (auto simp: ctor_Inr op_sort_Some sem_ok_def op_sem_def)

lemma bool_val_cases:
  assumes "wf_expr e" "interp_ok I" "esort e = SortBool"
  obtains b where "eval I e = VBool b"
  using wf_bool_val [OF assms] by blast

lemma bv_val_cases:
  assumes "wf_expr e" "interp_ok I" "esort e = SortBv w"
  obtains a where "eval I e = VBv a" "0 \<le> a" "a < 2 ^ nat w"
  using eval_val_ok [OF assms(1,2)] assms(3) val_ok_iff(2) [of w "eval I e"] by auto

text \<open>The truth of a Boolean or a 1-bit vector.\<close>

definition truth :: "sval \<Rightarrow> bool" where
  "truth v = (v = VBool True \<or> v = VBv 1)"

lemma Eq_val_one:
  assumes "Eq_val l 1 h = Inr (e, h')" "wf_expr l" "interp_ok I" "esort l = SortBv 1"
  shows "wf_expr e \<and> esort e = SortBool \<and> eval I e = VBool (truth (eval I l))"
proof -
  obtain c h1 where c: "BvConst 1 1 h = Inr (c, h1)" and e: "ExprOpEq l c h1 = Inr (e, h')"
    using assms(1,4) by (auto simp: Eq_val_def EqE_def)
  have cw: "wf_expr c" "eval I c = VBv 1" using BvConst_wf [OF c, of I] by simp_all
  obtain a where a: "eval I l = VBv a" using bv_val_cases [OF assms(2,3,4)] by blast
  show ?thesis using ExprOpEq_ok [OF e assms(2) cw(1), of I] cw(2) a by (simp add: truth_def)
qed

lemma logic_ctor_ok:
  assumes "wf_expr l" "wf_expr r" "interp_ok I" "esort l = SortBool" "esort r = SortBool"
  shows "ExprOpAnd l r h = Inr (e, h') \<Longrightarrow>
      wf_expr e \<and> esort e = SortBool \<and> eval I e = VBool (truth (eval I l) \<and> truth (eval I r))"
    and "ExprOpOr l r h = Inr (e, h') \<Longrightarrow>
      wf_expr e \<and> esort e = SortBool \<and> eval I e = VBool (truth (eval I l) \<or> truth (eval I r))"
    and "ExprOpXor l r h = Inr (e, h') \<Longrightarrow>
      wf_expr e \<and> esort e = SortBool \<and> eval I e = VBool (truth (eval I l) \<noteq> truth (eval I r))"
proof -
  obtain a b where v: "eval I l = VBool a" "eval I r = VBool b"
    using bool_val_cases [OF assms(1,3,4)] bool_val_cases [OF assms(2,3,5)] by metis
  note built_op' = built_op [where as = "[l, r]" and ps = "[]" and s = SortBool and I = I]
  show "ExprOpAnd l r h = Inr (e, h') \<Longrightarrow>
      wf_expr e \<and> esort e = SortBool \<and> eval I e = VBool (truth (eval I l) \<and> truth (eval I r))"
    using built_op' [of kAnd h e h'] assms v
    by (auto simp: ctor_Inr op_sort_def same_sort_def sem_ok_def op_sem_def bool_or_bv_def truth_def)
  show "ExprOpOr l r h = Inr (e, h') \<Longrightarrow>
      wf_expr e \<and> esort e = SortBool \<and> eval I e = VBool (truth (eval I l) \<or> truth (eval I r))"
    using built_op' [of kOr h e h'] assms v
    by (auto simp: ctor_Inr op_sort_def same_sort_def sem_ok_def op_sem_def bool_or_bv_def truth_def)
  show "ExprOpXor l r h = Inr (e, h') \<Longrightarrow>
      wf_expr e \<and> esort e = SortBool \<and> eval I e = VBool (truth (eval I l) \<noteq> truth (eval I r))"
    using built_op' [of kXor h e h'] assms v
    by (auto simp: ctor_Inr op_sort_def same_sort_def sem_ok_def op_sem_def bool_or_bv_def truth_def)
qed


section \<open>Success\<close>

definition hosts_ok :: "heap \<Rightarrow> expr list \<Rightarrow> bool" where
  "hosts_ok h as = (childs_grow h \<and> (\<forall>a \<in> set as. \<forall>p. ehost a = Some p \<longrightarrow> ilas h p \<noteq> None))"

lemma built_total:
  assumes "hosts_ok h as" "set args \<subseteq> set as"
  shows "\<exists>e h'. built k args ps s h e h' \<and> hosts_ok h' (e # as)"
proof -
  have ex: "\<forall>p \<in> set (host_set args). ilas h p \<noteq> None" and g: "childs_grow h"
    using assms by (auto simp: hosts_ok_def)
  obtain p where p: "GetHost_val h args = Inr p" "\<forall>q. p = Some q \<longrightarrow> q \<in> set (host_set args)"
    using GetHost_total [OF g ex] by (fastforce simp: is_leaf_of_def split: if_splits)
  let ?h' = "h\<lparr>counter := counter h + 1\<rparr>"
  let ?e = "Expr (counter h + 1) (anon_name (counter h + 1)) s p ps args k"
  have "built k args ps s h ?e ?h'" using p by (simp add: built_def)
  moreover have "hosts_ok ?h' (?e # as)"
    using assms(1) p(2) ex by (auto simp: hosts_ok_def childs_grow_def)
  ultimately show ?thesis by blast
qed

lemma cmp_ctor_ok:
  assumes "wf_expr l" "wf_expr r" "esort l = SortBv w" "esort r = SortBv w"
    "eval I l = VBv a" "eval I r = VBv b"
  shows "ExprOpEq l r h = Inr (e, h') \<Longrightarrow> wf_expr e \<and> esort e = SortBool \<and> eval I e = VBool (a = b)"
    "ExprOpLt l r h = Inr (e, h') \<Longrightarrow> wf_expr e \<and> esort e = SortBool \<and>
       eval I e = VBool (bv_signed (nat w) a < bv_signed (nat w) b)"
    "ExprOpGt l r h = Inr (e, h') \<Longrightarrow> wf_expr e \<and> esort e = SortBool \<and>
       eval I e = VBool (bv_signed (nat w) b < bv_signed (nat w) a)"
    "ExprOpUlt l r h = Inr (e, h') \<Longrightarrow> wf_expr e \<and> esort e = SortBool \<and> eval I e = VBool (a < b)"
    "ExprOpUgt l r h = Inr (e, h') \<Longrightarrow> wf_expr e \<and> esort e = SortBool \<and> eval I e = VBool (b < a)"
proof -
  have "wf_expr e \<and> esort e = SortBool \<and> eval I e = VBool P"
    if "built (KOp u) [l, r] [] SortBool h e h'" "op_sort u [SortBv w, SortBv w] [] = Some SortBool"
      "sem_ok u [SortBv w, SortBv w] []" "op_sem u [SortBv w, SortBv w] [] [VBv a, VBv b] = VBool P"
    for u P
    using built_op [OF that(1), of I] that assms by simp
  note ok = this
  note defs = ctor_Inr op_sort_def comparison_def sem_ok_def op_sem_def bvp_def Let_def assms(3,4)
  show "ExprOpEq l r h = Inr (e, h') \<Longrightarrow> wf_expr e \<and> esort e = SortBool \<and> eval I e = VBool (a = b)"
    by (rule ok [of kEqual]) (simp_all add: defs)
  show "ExprOpLt l r h = Inr (e, h') \<Longrightarrow> wf_expr e \<and> esort e = SortBool \<and>
       eval I e = VBool (bv_signed (nat w) a < bv_signed (nat w) b)"
    by (rule ok [of kLessThan]) (simp_all add: defs)
  show "ExprOpGt l r h = Inr (e, h') \<Longrightarrow> wf_expr e \<and> esort e = SortBool \<and>
       eval I e = VBool (bv_signed (nat w) b < bv_signed (nat w) a)"
    by (rule ok [of kGreaterThan]) (simp_all add: defs)
  show "ExprOpUlt l r h = Inr (e, h') \<Longrightarrow> wf_expr e \<and> esort e = SortBool \<and> eval I e = VBool (a < b)"
    by (rule ok [of kUnsignedLessThan]) (simp_all add: defs)
  show "ExprOpUgt l r h = Inr (e, h') \<Longrightarrow> wf_expr e \<and> esort e = SortBool \<and> eval I e = VBool (b < a)"
    by (rule ok [of kUnsignedGreaterThan]) (simp_all add: defs)
qed

lemma signed_le_iff:
  assumes "0 \<le> a" "a < 2 ^ w" "0 \<le> b" "b < 2 ^ w" "0 < w"
  shows "a = b \<or> bv_signed w a < bv_signed w b \<longleftrightarrow> bv_signed w a \<le> bv_signed w b"
    "a = b \<or> bv_signed w b < bv_signed w a \<longleftrightarrow> bv_signed w b \<le> bv_signed w a"
proof -
  have "bv_signed w a = bv_signed w b \<longleftrightarrow> a = b"
    using assms by (auto simp: bv_signed_def split: if_splits)
  then show "a = b \<or> bv_signed w a < bv_signed w b \<longleftrightarrow> bv_signed w a \<le> bv_signed w b"
    "a = b \<or> bv_signed w b < bv_signed w a \<longleftrightarrow> bv_signed w b \<le> bv_signed w a" by auto
qed

text \<open>The two-step comparisons: both parts are built, then joined by Or.\<close>

lemma or_of_cmp:
  assumes h: "hosts_ok h [l, r]" and srt: "esort l = esort r"
    and c1: "\<And>h e h'. ExprOpEq l r h = Inr (e, h') \<Longrightarrow>
       wf_expr e \<and> esort e = SortBool \<and> eval I e = VBool A"
    and c2: "\<And>h e h'. C h = Inr (e, h') \<Longrightarrow>
       wf_expr e \<and> esort e = SortBool \<and> eval I e = VBool B"
    and C: "\<And>h e h'. C h = Inr (e, h') \<longleftrightarrow> esort l = esort r \<and> built (KOp u) [l, r] [] SortBool h e h'"
    and I: "interp_ok I"
  shows "\<exists>e h'. bnd (ExprOpEq l r) (\<lambda>eq. bnd (C) (\<lambda>c. ExprOpOr eq c)) h = Inr (e, h') \<and>
     wf_expr e \<and> esort e = SortBool \<and> eval I e = VBool (A \<or> B)"
proof -
  obtain e1 h1 where b1: "built (KOp kEqual) [l, r] [] SortBool h e1 h1" "hosts_ok h1 [e1, l, r]"
    using built_total [OF h, of "[l, r]"] by fastforce
  obtain e2 h2 where b2: "built (KOp u) [l, r] [] SortBool h1 e2 h2" "hosts_ok h2 [e2, e1, l, r]"
    using built_total [OF b1(2), of "[l, r]"] by fastforce
  obtain e h' where b3: "built (KOp kOr) [e1, e2] [] SortBool h2 e h'"
    using built_total [OF b2(2), of "[e1, e2]"] by fastforce
  have r1: "ExprOpEq l r h = Inr (e1, h1)" and r2: "C h1 = Inr (e2, h2)"
    using b1 b2 srt by (simp_all add: ctor_Inr C)
  have r3: "ExprOpOr e1 e2 h2 = Inr (e, h')" using b3 c1 [OF r1] c2 [OF r2] by (simp add: ctor_Inr)
  have "wf_expr e \<and> esort e = SortBool \<and> eval I e = VBool (A \<or> B)"
    using logic_ctor_ok(2) [OF _ _ I _ _ r3] c1 [OF r1] c2 [OF r2] by (simp add: truth_def)
  with r1 r2 r3 show ?thesis by (auto simp: monad_simps)
qed

lemma conv_left:
  assumes "bnd (Eq_val l 1) C h = Inr (e, h')"
    and "wf_expr l" "interp_ok I" "esort l = SortBv 1"
    and "\<And>l' h e h'. C l' h = Inr (e, h') \<Longrightarrow> wf_expr l' \<Longrightarrow> esort l' = SortBool \<Longrightarrow>
       wf_expr e \<and> esort e = SortBool \<and> eval I e = VBool (f (truth (eval I l')))"
  shows "wf_expr e \<and> esort e = SortBool \<and> eval I e = VBool (f (truth (eval I l)))"
proof -
  obtain l' h1 where l': "Eq_val l 1 h = Inr (l', h1)" and e: "C l' h1 = Inr (e, h')"
    using assms(1) by auto
  have c: "wf_expr l'" "esort l' = SortBool" "eval I l' = VBool (truth (eval I l))"
    using Eq_val_one [OF l' assms(2-4)] by simp_all
  show ?thesis using assms(5) [OF e c(1,2)] c(3) by (simp add: truth_def)
qed

text \<open>The bits of a Boolean or bit-vector, as \<^verbatim>\<open>Concat\<close> reads them.\<close>

definition sort_bits :: "sort \<Rightarrow> int" where
  "sort_bits s = (case s of SortBv w \<Rightarrow> w | _ \<Rightarrow> 1)"

definition as_bits :: "sval \<Rightarrow> int" where
  "as_bits v = (case v of VBool b \<Rightarrow> (if b then 1 else 0) | VBv a \<Rightarrow> a | _ \<Rightarrow> 0)"

lemma bool_to_bits:
  assumes "(if e_is_bool x then Ite x one zero else ret x) h = Inr (e, h')"
    and "wf_expr x" "interp_ok I" "esort x = SortBool \<or> e_is_bv e"
    and "wf_expr one" "esort one = SortBv 1" "eval I one = VBv 1"
    and "wf_expr zero" "esort zero = SortBv 1" "eval I zero = VBv 0"
  shows "wf_expr e \<and> esort e = SortBv (sort_bits (esort x)) \<and> eval I e = VBv (as_bits (eval I x))"
proof (cases "esort x = SortBool")
  case True
  obtain b where b: "eval I x = VBool b" using bool_val_cases [OF assms(2,3) True] .
  have "built (KOp kIfThenElse) [x, one, zero] [] (SortBv 1) h e h'"
    using assms(1,6,9) True by (auto simp: Ite_def ctor_Inr)
  from built_op [OF this, of I] assms True b show ?thesis
    by (simp add: op_sort_def sem_ok_def op_sem_def sort_bits_def as_bits_def)
next
  case False
  then have e: "e = x" using assms(1) by simp
  then obtain w where "esort x = SortBv w" using assms(4) False by auto
  moreover from this obtain a where "eval I x = VBv a" using bv_val_cases [OF assms(2,3)] by metis
  ultimately show ?thesis using e assms(2) by (simp add: sort_bits_def as_bits_def)
qed

text \<open>The overloads that take a number: a constant of the left operand's width is built first.\<close>

lemma val_overload:
  assumes C: "\<And>r h e h'. C l r h = Inr (e, h') \<longleftrightarrow> esort l = esort r \<and> built (KOp u) [l, r] [] (esort l) h e h'"
    and u: "u \<in> {kAdd, kSubtract, kMultiply}"
    and l: "wf_expr l" "esort l = SortBv w" "eval I l = VBv a" and h: "hosts_ok h [l]"
  shows "if uint r < 2 ^ nat w
    then \<exists>e h'. bnd (lift (bit_width (esort l))) (\<lambda>w. bnd (BvConst r w) (\<lambda>rc. C l rc)) h = Inr (e, h') \<and>
           wf_expr e \<and> esort e = SortBv w \<and>
           eval I e = op_sem u [SortBv w, SortBv w] [] [VBv a, VBv (uint r)]
    else \<exists>msg. bnd (lift (bit_width (esort l))) (\<lambda>w. bnd (BvConst r w) (\<lambda>rc. C l rc)) h = Inl (IlaCheck msg)"
proof (cases "uint r < 2 ^ nat w")
  case True
  have w: "0 < w" using wf_sort [OF l(1)] l(2) by simp
  obtain c h1 where c: "BvConst r w h = Inr (c, h1)" using True w by (simp add: BvConst_Inr)
  have cw: "wf_expr c" "esort c = SortBv w" "eval I c = VBv (uint r)" using BvConst_wf [OF c] by auto
  have "hosts_ok h1 [l, c]" using h c by (auto simp: BvConst_Inr hosts_ok_def childs_grow_def)
  then obtain e h' where b: "built (KOp u) [l, c] [] (SortBv w) h1 e h'"
    using built_total [of h1 "[l, c]" "[l, c]"] by blast
  have "C l c h1 = Inr (e, h')" using b C cw l by simp
  moreover have "wf_expr e \<and> esort e = SortBv w \<and>
      eval I e = op_sem u [SortBv w, SortBv w] [] [VBv a, VBv (uint r)]"
    using built_op [OF b, of I] u l cw by (auto simp: op_sort_def same_sort_def sem_ok_def)
  ultimately show ?thesis using True l c by (simp add: monad_simps)
next
  case False
  then have "\<exists>msg. BvConst r w h = Inl (IlaCheck msg)"
    using BvConst_Inr [of r w h] BvConst_err [of r w h] by (cases "BvConst r w h") auto
  with False l show ?thesis by (auto simp: monad_simps)
qed

section \<open>Properties\<close>

text \<open>And, Or and Xor on a Boolean and a 1-bit vector, in either order, or on two Booleans,
  build a well-formed Boolean expression whose value is the logical connective of the two
  truth values, where a 1-bit vector is true when it is 1.\<close>

theorem mixed_logic:
  assumes "wf_expr l" "wf_expr r" "interp_ok I" "esort l = SortBool \<or> esort r = SortBool"
  shows "(AndE l r h = Inr (e, h') \<longrightarrow>
            wf_expr e \<and> esort e = SortBool \<and> eval I e = VBool (truth (eval I l) \<and> truth (eval I r))) \<and>
         (OrE l r h = Inr (e, h') \<longrightarrow>
            wf_expr e \<and> esort e = SortBool \<and> eval I e = VBool (truth (eval I l) \<or> truth (eval I r))) \<and>
         (XorE l r h = Inr (e, h') \<longrightarrow>
            wf_expr e \<and> esort e = SortBool \<and> eval I e = VBool (truth (eval I l) \<noteq> truth (eval I r)))"
proof -
  consider "esort l = SortBool" "esort r = SortBool" | "esort l = SortBv 1" "esort r = SortBool"
    | "esort l = SortBool" "esort r = SortBv 1"
    | "\<not> sort_Equal (esort l) (esort r)" "\<not> (is_bv (esort l) 1 \<and> e_is_bool r)"
      "\<not> (e_is_bool l \<and> is_bv (esort r) 1)"
    using assms(4) by (cases "esort l = SortBool"; cases "esort r = SortBool") (auto simp: is_bv_width_iff)
  then show ?thesis
  proof cases
    case 1
    then show ?thesis
      using logic_ctor_ok [OF assms(1-3) 1] by (simp add: AndE_def OrE_def XorE_def)
  next
    case 2
    note c = logic_ctor_ok [OF _ assms(2,3) _ 2(2)]
      and k = conv_left [OF _ assms(1,3) 2(1), where h = h and e = e and h' = h']
    have *: "AndE l r = bnd (Eq_val l 1) (\<lambda>l'. ExprOpAnd l' r)"
      "OrE l r = bnd (Eq_val l 1) (\<lambda>l'. ExprOpOr l' r)"
      "XorE l r = bnd (Eq_val l 1) (\<lambda>l'. ExprOpXor l' r)"
      using 2 by (simp_all add: AndE_def OrE_def XorE_def is_bv_width_iff)
    show ?thesis unfolding *
      using k [where C = "\<lambda>l'. ExprOpAnd l' r" and f = "\<lambda>x. x \<and> truth (eval I r)"]
        k [where C = "\<lambda>l'. ExprOpOr l' r" and f = "\<lambda>x. x \<or> truth (eval I r)"]
        k [where C = "\<lambda>l'. ExprOpXor l' r" and f = "\<lambda>x. x \<noteq> truth (eval I r)"] c
      by blast
  next
    case 3
    note c = logic_ctor_ok [OF assms(1) _ assms(3) 3(1)]
      and k = conv_left [OF _ assms(2,3) 3(2), where h = h and e = e and h' = h']
    have *: "AndE l r = bnd (Eq_val r 1) (\<lambda>r'. ExprOpAnd l r')"
      "OrE l r = bnd (Eq_val r 1) (\<lambda>r'. ExprOpOr l r')"
      "XorE l r = bnd (Eq_val r 1) (\<lambda>r'. ExprOpXor l r')"
      using 3 by (auto simp: AndE_def OrE_def XorE_def is_bv_width_iff fun_eq_iff monad_simps)
    show ?thesis unfolding *
      using k [where C = "\<lambda>r'. ExprOpAnd l r'" and f = "\<lambda>x. truth (eval I l) \<and> x"]
        k [where C = "\<lambda>r'. ExprOpOr l r'" and f = "\<lambda>x. truth (eval I l) \<or> x"]
        k [where C = "\<lambda>r'. ExprOpXor l r'" and f = "\<lambda>x. truth (eval I l) \<noteq> x"] c
      by blast
  next
    case 4
    then show ?thesis by (auto simp: AndE_def OrE_def XorE_def)
  qed
qed

text \<open>C30: On bit-vectors of one width, with hosts known to the heap, the derived comparisons
  always return an expression, and it has the intended value: disequality, signed and
  unsigned less-or-equal and greater-or-equal.\<close>

theorem derived_comparisons:
  assumes "wf_expr l" "wf_expr r" "esort l = SortBv w" "esort r = SortBv w" "interp_ok I"
    and "hosts_ok h [l, r]" and "eval I l = VBv a" and "eval I r = VBv b"
  shows "(\<exists>e h'. Ne l r h = Inr (e, h') \<and> eval I e = VBool (a \<noteq> b)) \<and>
         (\<exists>e h'. Le l r h = Inr (e, h') \<and> eval I e = VBool (bv_signed (nat w) a \<le> bv_signed (nat w) b)) \<and>
         (\<exists>e h'. Ge l r h = Inr (e, h') \<and> eval I e = VBool (bv_signed (nat w) a \<ge> bv_signed (nat w) b)) \<and>
         (\<exists>e h'. Ule l r h = Inr (e, h') \<and> eval I e = VBool (a \<le> b)) \<and>
         (\<exists>e h'. Uge l r h = Inr (e, h') \<and> eval I e = VBool (a \<ge> b))"
proof -
  note ok = cmp_ctor_ok [OF assms(1-4) assms(7,8)]
  have w: "0 < nat w" using wf_sort [OF assms(1)] assms(3) by simp
  have rng: "0 \<le> a" "a < 2 ^ nat w" "0 \<le> b" "b < 2 ^ nat w"
    using eval_val_ok [OF assms(1,5)] eval_val_ok [OF assms(2,5)] assms(3,4,7,8) by simp_all
  have srt: "esort l = esort r" using assms(3,4) by simp
  have or: "\<exists>e h'. bnd (ExprOpEq l r) (\<lambda>eq. bnd C (ExprOpOr eq)) h = Inr (e, h') \<and> eval I e = VBool (a = b \<or> B)"
    if "\<And>h e h'. C h = Inr (e, h') \<longrightarrow> wf_expr e \<and> esort e = SortBool \<and> eval I e = VBool B"
      "\<And>h e h'. C h = Inr (e, h') \<longleftrightarrow> esort l = esort r \<and> built (KOp u) [l, r] [] SortBool h e h'"
    for C B u
    using or_of_cmp [OF assms(6) srt, of I "a = b" C B u] ok(1) that assms(5) by blast
  have le: "(a = b \<or> a < b) = (a \<le> b)" "(a = b \<or> b < a) = (b \<le> a)" by auto
  have ne: "\<exists>e h'. Ne l r h = Inr (e, h') \<and> eval I e = VBool (a \<noteq> b)"
  proof -
    obtain e1 h1 where b1: "built (KOp kEqual) [l, r] [] SortBool h e1 h1" "hosts_ok h1 [e1, l, r]"
      using built_total [OF assms(6), of "[l, r]"] by fastforce
    obtain e h' where b2: "built (KOp kNot) [e1] [] SortBool h1 e h'"
      using built_total [OF b1(2), of "[e1]"] by fastforce
    have r1: "ExprOpEq l r h = Inr (e1, h1)" using b1 srt by (simp add: ctor_Inr)
    then have "esort e1 = SortBool" "eval I e1 = VBool (a = b)" using ok(1) by blast+
    moreover from this b2 have "ExprOpNot e1 h1 = Inr (e, h')" by (simp add: ctor_Inr)
    ultimately have "Ne l r h = Inr (e, h') \<and> eval I e = VBool (a \<noteq> b)"
      using built_eval [OF b2, of I] r1 by (simp add: Ne_def monad_simps op_sem_def)
    then show ?thesis by blast
  qed
  then show ?thesis
    using or [OF _ ctor_cmp(2)] or [OF _ ctor_cmp(3)] or [OF _ ctor_cmp(4)] or [OF _ ctor_cmp(5)] ok(2-5)
    unfolding Le_def Ge_def Ule_def Uge_def signed_le_iff [OF rng w, symmetric] le [symmetric] by blast
qed


text \<open>C31: Concatenation accepts Booleans: when it returns, the result has the sum of the widths (a
  Boolean counts as one bit) and its value is the high part shifted over the low part.\<close>

theorem Concat_bits:
  assumes "wf_expr hi" "wf_expr lo" "interp_ok I" "Concat hi lo h = Inr (e, h')"
  shows "wf_expr e \<and> esort e = SortBv (sort_bits (esort hi) + sort_bits (esort lo)) \<and>
    eval I e = VBv (as_bits (eval I hi) * 2 ^ nat (sort_bits (esort lo)) + as_bits (eval I lo))"
proof -
  obtain z n bh bl h1 h2 h3 h4 where z: "BvConst 0 1 h = Inr (z, h1)" and n: "BvConst 1 1 h1 = Inr (n, h2)"
    and bh: "(if e_is_bool hi then Ite hi n z else ret hi) h2 = Inr (bh, h3)"
    and bl: "(if e_is_bool lo then Ite lo n z else ret lo) h3 = Inr (bl, h4)"
    and e: "ExprOpConcat bh bl h4 = Inr (e, h')"
    using assms(4) by (auto simp: Concat_def simp del: is_bool_iff)
  have bv: "e_is_bv bh" "e_is_bv bl" using e by (auto simp: ctor_Inr)
  have cs: "wf_expr n" "esort n = SortBv 1" "eval I n = VBv 1"
    "wf_expr z" "esort z = SortBv 1" "eval I z = VBv 0"
    using BvConst_wf [OF z] BvConst_wf [OF n] by auto
  have H: "wf_expr bh \<and> esort bh = SortBv (sort_bits (esort hi)) \<and> eval I bh = VBv (as_bits (eval I hi))"
    using bool_to_bits [OF bh assms(1,3) _ cs] bv by blast
  have L: "wf_expr bl \<and> esort bl = SortBv (sort_bits (esort lo)) \<and> eval I bl = VBv (as_bits (eval I lo))"
    using bool_to_bits [OF bl assms(2,3) _ cs] bv by blast
  show ?thesis
    using e H L built_op [where u = kConcatenate and as = "[bh, bl]" and ps = "[]" and h = h4 and e = e
        and h' = h' and I = I]
    by (auto simp: ctor_Inr op_sort_Some sem_ok_def op_sem_def bv2_def)
qed

text \<open>C32: The overloads of Add, Sub and Mul with a number on the right succeed exactly when the
  number fits the width of the left operand, with the value modulo the width; a number
  that does not fit is a failed check.\<close>

theorem arith_val_overloads:
  assumes "wf_expr l" "esort l = SortBv w" "eval I l = VBv a" "hosts_ok h [l]"
  shows "if uint r < 2 ^ nat w
    then (\<exists>e h'. Add_val l r h = Inr (e, h') \<and> eval I e = VBv ((a + uint r) mod 2 ^ nat w)) \<and>
         (\<exists>e h'. Sub_val l r h = Inr (e, h') \<and> eval I e = VBv ((a - uint r) mod 2 ^ nat w)) \<and>
         (\<exists>e h'. Mul_val l r h = Inr (e, h') \<and> eval I e = VBv ((a * uint r) mod 2 ^ nat w))
    else (\<exists>msg. Add_val l r h = Inl (IlaCheck msg)) \<and> (\<exists>msg. Sub_val l r h = Inl (IlaCheck msg)) \<and>
         (\<exists>msg. Mul_val l r h = Inl (IlaCheck msg))"
  using val_overload [of ExprOpAdd l kAdd w I a h r] val_overload [of ExprOpSub l kSubtract w I a h r]
    val_overload [of ExprOpMul l kMultiply w I a h r] assms
  by (auto simp: Add_val_def Sub_val_def Mul_val_def Add_def [abs_def] Sub_def [abs_def]
      Mul_def [abs_def] ctor_same op_sem_def bv2_def Let_def split: if_splits)

section \<open>Instances\<close>

definition bit_x :: expr where
  "bit_x = Expr 1 ''x'' (SortBv 1) None [] [] KVar"

definition flag_b :: expr where
  "flag_b = Expr 2 ''b'' SortBool None [] [] KVar"

lemma instance_wf [simp]: "wf_expr bit_x" "wf_expr flag_b"
  by (simp_all add: bit_x_def flag_b_def node_wf_def)

lemma instance_hosts [simp]: "hosts_ok empty_heap [bit_x]" "hosts_ok empty_heap [bit_x, bit_x]"
  by (simp_all add: hosts_ok_def childs_grow_def empty_heap_def bit_x_def)

lemma instance_sorts [simp]: "esort bit_x = SortBv 1" "esort flag_b = SortBool"
  "ehost bit_x = None" "ehost flag_b = None" "eval zero_interp bit_x = VBv 0"
  "eval zero_interp flag_b = VBool False"
  by (simp_all add: bit_x_def flag_b_def zero_interp_def zero_val_def)

lemma GetHost_none: "\<forall>a \<in> set as. ehost a = None \<Longrightarrow> GetHost_val h as = Inr None"
  by (simp add: GetHost_val_def GetHost_def host_set_def List.map_filter_def filter_empty_conv monad_simps
      cong: filter_cong)

theorem mixed_logic_witness:
  "\<exists>e h'. AndE bit_x flag_b empty_heap = Inr (e, h') \<and> wf_expr e \<and> esort e = SortBool \<and>
     eval zero_interp e = VBool False"
proof -
  have "\<exists>e h'. AndE bit_x flag_b empty_heap = Inr (e, h')"
    by (auto simp: AndE_def is_bv_width_iff Eq_val_def EqE_def BvConst_Inr ctor_Inr built_def GetHost_none)
  then obtain e h' where e: "AndE bit_x flag_b empty_heap = Inr (e, h')" by blast
  with mixed_logic [of bit_x flag_b zero_interp empty_heap e h'] show ?thesis
    by (simp add: zero_interp_ok truth_def)
qed

theorem derived_comparisons_witness:
  "\<exists>e h'. Ule bit_x bit_x empty_heap = Inr (e, h') \<and> eval zero_interp e = VBool True"
  using derived_comparisons [of bit_x bit_x 1 zero_interp empty_heap 0 0] by (simp add: zero_interp_ok)

theorem Concat_bits_witness:
  "\<exists>e h'. Concat flag_b bit_x empty_heap = Inr (e, h') \<and> esort e = SortBv 2 \<and>
     eval zero_interp e = VBv 0"
proof -
  have "\<exists>e h'. Concat flag_b bit_x empty_heap = Inr (e, h')"
    by (auto simp: Concat_def Ite_def BvConst_Inr ctor_Inr built_def GetHost_none)
  then obtain e h' where e: "Concat flag_b bit_x empty_heap = Inr (e, h')" by blast
  with Concat_bits [OF _ _ zero_interp_ok e] show ?thesis by (simp add: sort_bits_def as_bits_def)
qed

theorem arith_val_overloads_witness:
  "(\<exists>e h'. Add_val bit_x 1 empty_heap = Inr (e, h') \<and> eval zero_interp e = VBv 1) \<and>
   (\<exists>msg. Add_val bit_x 2 empty_heap = Inl (IlaCheck msg))"
  using arith_val_overloads [of bit_x 1 zero_interp 0 empty_heap 1]
    arith_val_overloads [of bit_x 1 zero_interp 0 empty_heap 2] by simp

end
