(* ===== verification/HashAst.thy ===== *)
theory HashAst
  imports AstHub
begin

text \<open>
  Sharing of expression nodes (src/ila/hash\_ast.cc): \<^verbatim>\<open>ExprMngr\<close> keeps a table from a
  hash string to a representative node and rewrites the arguments of every visited node to
  representatives. \<^verbatim>\<open>TopEq\<close> of src/ila/ast\_hub.cc compares two representatives.

  The C++ visitor mutates the nodes in place; the model returns the node as it is after the
  visit. A node met a second time in the same expression is visited again, in the model
  from its original arguments, in the program from its representatives; both lead to the
  same node because lookups in the growing table are stable.
\<close>

section \<open>The hash string\<close>

fun sort_uid_num :: "AstUidSort \<Rightarrow> nat" where
  "sort_uid_num kBool = 1"
| "sort_uid_num kBv = 2"
| "sort_uid_num kMem = 3"
| "sort_uid_num kStruct = 4"
| "sort_uid_num kVec = 5"

definition op_uids :: "AstUidExprOp list" where
  "op_uids = [kInvalid, kNegate, kNot, kComplement, kAnd, kOr, kXor, kShiftLeft, kArithShiftRight,
     kLogicShiftRight, kAdd, kSubtract, kMultiply, kEqual, kLessThan, kGreaterThan,
     kUnsignedLessThan, kUnsignedGreaterThan, kLoad, kStore, kConcatenate, kExtract,
     kZeroExtend, kSignedExtend, kApplyFunc, kImply, kIfThenElse, kDivide, kRotateLeft,
     kRotateRight, kSignedRemainder, kUnsignedRemainder, kSignedModular]"

definition op_uid_num :: "AstUidExprOp \<Rightarrow> nat" where
  "op_uid_num u = length (takeWhile (\<lambda>v. v \<noteq> u) op_uids)"

definition GetSortHash :: "sort \<Rightarrow> string" where
  "GetSortHash s =
     sep_join ''_'' [to_string (sort_uid_num (sort_uid s)),
       int_to_string (case s of SortBv w \<Rightarrow> w | _ \<Rightarrow> 0),
       int_to_string (case s of SortMem a d \<Rightarrow> a | _ \<Rightarrow> 0),
       int_to_string (case s of SortMem a d \<Rightarrow> d | _ \<Rightarrow> 0)]"

definition const_value_str :: "expr \<Rightarrow> string result" where
  "const_value_str e =
     (if e_is_bool e then rbind (val_bool e) (\<lambda>b. Inr (BoolVal_str b))
      else if e_is_bv e then rbind (val_bv e) (\<lambda>v. Inr (BvVal_str v))
      else Inr (to_string (eid e)))"

text \<open>Parameters are pushed into a vector of \<^verbatim>\<open>size_t\<close>, so a negative one wraps around.\<close>

definition param_num :: "int \<Rightarrow> nat" where
  "param_num p = unat (word_of_int p :: 64 word)"

definition arg_ids :: "expr \<Rightarrow> nat list" where
  "arg_ids e = map eid (eargs e) @ (case ekind e of KApp f \<Rightarrow> [func_id f] | _ \<Rightarrow> [])"

definition Hash :: "expr \<Rightarrow> string result" where
  "Hash e =
     (if is_var e then Inr (sep_join ''::'' [''var'', GetSortHash (esort e), to_string (eid e)])
      else if is_const e then
        rbind (const_value_str e) (\<lambda>v. Inr (sep_join ''::'' [''const'', GetSortHash (esort e), v]))
      else rassert (is_op e) (IlaAssert ''is_op'')
        (rbind (GetUidExprOp e) (\<lambda>u.
           Inr (sep_join ''::'' [''op'', GetSortHash (esort e), to_string (op_uid_num u),
                  sep_join '','' (map to_string (arg_ids e)),
                  sep_join '','' (map (\<lambda>p. to_string (param_num p)) (eparams e))]))))"

section \<open>The manager\<close>

type_synonym emap = "string \<rightharpoonup> expr"

definition lookup_rep :: "emap \<Rightarrow> string \<Rightarrow> expr result" where
  "lookup_rep m key = (case m key of
     None \<Rightarrow> Inl (IlaAssert ''representative not found'') | Some r \<Rightarrow> Inr r)"

definition ExprMngr_call :: "expr \<Rightarrow> emap \<Rightarrow> (expr \<times> emap) result" where
  "ExprMngr_call node m =
     rbind (rmap (\<lambda>a. rbind (Hash a) (lookup_rep m)) (eargs node)) (\<lambda>reps.
     let node' = set_args reps node in
     rbind (Hash node') (\<lambda>hash.
       Inr (node', if m hash = None then m(hash \<mapsto> node') else m)))"

fun mngr_visit :: "expr \<Rightarrow> emap \<Rightarrow> (expr \<times> emap) result"
  and mngr_visit_args :: "expr list \<Rightarrow> emap \<Rightarrow> (expr list \<times> emap) result" where
  "mngr_visit (Expr i n s h ps as k) m =
     rbind (mngr_visit_args as m) (\<lambda>(as', m'). ExprMngr_call (Expr i n s h ps as' k) m')"
| "mngr_visit_args [] m = Inr ([], m)"
| "mngr_visit_args (a # as) m =
     rbind (mngr_visit a m) (\<lambda>(a', m').
     rbind (mngr_visit_args as m') (\<lambda>(as', m''). Inr (a' # as', m'')))"

text \<open>Result: the representative, the visited node, the table.\<close>

definition GetRep :: "expr \<Rightarrow> emap \<Rightarrow> (expr \<times> expr \<times> emap) result" where
  "GetRep node m =
     rbind (mngr_visit node m) (\<lambda>(node', m').
     rbind (Hash node') (\<lambda>key.
     rbind (lookup_rep m' key) (\<lambda>r. Inr (r, node', m'))))"

definition mngr_clear :: "emap \<Rightarrow> emap" where
  "mngr_clear m = Map.empty"

definition TopEq :: "expr \<Rightarrow> expr \<Rightarrow> bool result" where
  "TopEq a b =
     rbind (GetRep a Map.empty) (\<lambda>(x, _, m).
     rbind (GetRep b m) (\<lambda>(y, _, _). Inr (x = y)))"

section \<open>The hash is injective\<close>

lemma op_uid_num_inj: "op_uid_num u = op_uid_num v \<Longrightarrow> u = v"
proof -
  have "op_uids ! op_uid_num w = w" for w by (cases w) (simp_all add: op_uid_num_def op_uids_def)
  then show "op_uid_num u = op_uid_num v \<Longrightarrow> u = v" by metis
qed

lemma digit_not:
  "is_digit c \<Longrightarrow> c \<noteq> CHR '':'' \<and> c \<noteq> CHR ''_'' \<and> c \<noteq> CHR '','' "
  by (auto simp: is_digit_def)

lemma to_string_no_sep:
  "CHR '':'' \<notin> set (to_string n)" "CHR ''_'' \<notin> set (to_string n)" "CHR '','' \<notin> set (to_string n)"
  using to_string_digits digit_not by blast+

lemma int_to_string_no_sep:
  "CHR '':'' \<notin> set (int_to_string n)" "CHR ''_'' \<notin> set (int_to_string n)"
  by (auto simp: int_to_string_def to_string_no_sep)

lemma int_to_string_nonempty [simp]: "int_to_string n \<noteq> []"
  by (simp add: int_to_string_def)

definition prim_sort :: "sort \<Rightarrow> bool" where
  "prim_sort s = (case s of SortBool \<Rightarrow> True | SortBv _ \<Rightarrow> True | SortMem _ _ \<Rightarrow> True | _ \<Rightarrow> False)"

lemma GetSortHash_inj:
  assumes "GetSortHash s = GetSortHash t" "prim_sort s" "prim_sort t"
  shows "s = t"
proof -
  let ?f = "\<lambda>s. [to_string (sort_uid_num (sort_uid s)),
       int_to_string (case s of SortBv w \<Rightarrow> w | _ \<Rightarrow> 0),
       int_to_string (case s of SortMem a d \<Rightarrow> a | _ \<Rightarrow> 0),
       int_to_string (case s of SortMem a d \<Rightarrow> d | _ \<Rightarrow> 0)]"
  have "?f s = ?f t"
    by (rule sep_join_inj [of _ "CHR ''_''"])
       (use assms(1) in \<open>simp_all add: GetSortHash_def to_string_no_sep int_to_string_no_sep\<close>)
  with assms(2,3) show ?thesis by (cases s; cases t) (simp_all add: prim_sort_def)
qed


text \<open>What the hash sees of a node besides its arguments, and the whole structure.\<close>

datatype head =
    HdVar sort nat
  | HdConst sort string
  | HdOp sort AstUidExprOp "nat option" "int list"

definition head :: "expr \<Rightarrow> head" where
  "head e = (case ekind e of
       KVar \<Rightarrow> HdVar (esort e) (eid e)
     | KConst v \<Rightarrow> HdConst (esort e) (case const_value_str e of Inr str \<Rightarrow> str | _ \<Rightarrow> [])
     | KOp u \<Rightarrow> HdOp (esort e) u None (eparams e)
     | KApp f \<Rightarrow> HdOp (esort e) kApplyFunc (Some (func_id f)) (eparams e))"

datatype skeleton = Skel head "skeleton list"

fun skel :: "expr \<Rightarrow> skeleton" where
  "skel (Expr i n s h ps as k) = Skel (head (Expr i n s h ps as k)) (map skel as)"

text \<open>Nodes the manager is made for: Boolean, bit-vector or memory sorts, constants of their
  sort, parameters in the range of \<^verbatim>\<open>int\<close>.\<close>

definition node_ok :: "expr \<Rightarrow> bool" where
  "node_ok e = (prim_sort (esort e) \<and> list_all (\<lambda>p. - (2 ^ 31) \<le> p \<and> p < 2 ^ 31) (eparams e) \<and>
     (case ekind e of
        KVar \<Rightarrow> eargs e = []
      | KConst v \<Rightarrow> eargs e = [] \<and>
          (case (esort e, v) of (SortBool, BoolVal _) \<Rightarrow> True | (SortBv _, BvVal _) \<Rightarrow> True
           | (SortMem _ _, MemV _) \<Rightarrow> True | _ \<Rightarrow> False)
      | KOp u \<Rightarrow> u \<noteq> kApplyFunc
      | KApp f \<Rightarrow> True))"

lemma param_num_inj:
  assumes "- (2 ^ 31) \<le> p" "p < 2 ^ 31" "- (2 ^ 31) \<le> q" "q < 2 ^ 31" "param_num p = param_num q"
  shows "p = q"
proof -
  have eq: "(word_of_int p :: 64 word) = word_of_int q"
    using assms(5) unfolding param_num_def by (rule unsigned_word_eqI)
  have "sint (word_of_int p :: 64 word) = p" if "- (2 ^ 31) \<le> p" "p < 2 ^ 31" for p
    using that by (subst sint_sbintrunc') (simp add: signed_take_bit_int_eq_self)
  then show ?thesis using assms(1-4) eq by metis
qed

lemma const_str_no_sep: "const_value_str e = Inr v \<Longrightarrow> CHR '':'' \<notin> set v"
  by (auto simp: const_value_str_def rbind_Inr_conv BoolVal_str_def BvVal_str_def to_string_no_sep
      split: if_splits)

lemma const_str_ok: "node_ok e \<Longrightarrow> ekind e = KConst v \<Longrightarrow> \<exists>str. const_value_str e = Inr str"
  by (auto simp: node_ok_def const_value_str_def val_bool_def val_bv_def prim_sort_def
      split: sort.splits Value.splits)

lemma Hash_total: "node_ok e \<Longrightarrow> \<exists>k. Hash e = Inr k"
  using const_str_ok [of e] by (cases "ekind e") (auto simp: Hash_def GetUidExprOp_def)

lemma colon_inj:
  "CHR '':'' \<notin> set a \<Longrightarrow> CHR '':'' \<notin> set b \<Longrightarrow>
   a @ CHR '':'' # CHR '':'' # x = b @ CHR '':'' # CHR '':'' # y \<longleftrightarrow> a = b \<and> x = y"
  by (simp add: append_sep_inj)

lemma comma_join_inj:
  assumes "sep_join '','' (map to_string xs) = sep_join '','' (map to_string ys)"
  shows "xs = ys"
proof -
  have "map to_string xs = map to_string ys"
    by (rule sep_join_inj [of _ "CHR '',''"]) (use assms in \<open>auto simp: to_string_no_sep\<close>)
  moreover have "inj to_string" by (rule injI) simp
  ultimately show ?thesis by (simp add: inj_map_eq_map)
qed

lemma comma_join_no_colon: "CHR '':'' \<notin> set (sep_join '','' (map to_string xs))"
proof (induction xs)
  case (Cons x xs)
  then show ?case by (cases xs) (auto simp: to_string_no_sep)
qed simp

lemma GetSortHash_no_colon: "CHR '':'' \<notin> set (GetSortHash s)"
  by (simp add: GetSortHash_def to_string_no_sep int_to_string_no_sep)

lemmas field_simps' =
  colon_inj GetSortHash_no_colon to_string_no_sep comma_join_no_colon


lemma params_inj:
  assumes "list_all (\<lambda>p. - (2 ^ 31) \<le> p \<and> p < 2 ^ 31) xs"
    and "list_all (\<lambda>p. - (2 ^ 31) \<le> p \<and> p < 2 ^ 31) ys" and "map param_num xs = map param_num ys"
  shows "xs = ys"
  using assms
proof (induction xs arbitrary: ys)
  case (Cons x xs)
  then obtain y ys' where ys: "ys = y # ys'" by (cases ys) auto
  have "x = y" by (rule param_num_inj) (use Cons.prems ys in simp_all)
  moreover have "xs = ys'" by (rule Cons.IH) (use Cons.prems ys in simp_all)
  ultimately show ?case using ys by simp
qed simp

text \<open>The three shapes of a hash string.\<close>

lemma Hash_var: "ekind e = KVar \<Longrightarrow>
  Hash e = Inr (''var'' @ ''::'' @ GetSortHash (esort e) @ ''::'' @ to_string (eid e))"
  by (simp add: Hash_def)

lemma Hash_const: "ekind e = KConst v \<Longrightarrow> const_value_str e = Inr str \<Longrightarrow>
  Hash e = Inr (''const'' @ ''::'' @ GetSortHash (esort e) @ ''::'' @ str)"
  by (simp add: Hash_def)

lemma Hash_op: "GetUidExprOp e = Inr u \<Longrightarrow>
  Hash e = Inr (''op'' @ ''::'' @ GetSortHash (esort e) @ ''::'' @ to_string (op_uid_num u) @ ''::'' @
    sep_join '','' (map to_string (arg_ids e)) @ ''::'' @
    sep_join '','' (map (\<lambda>p. to_string (param_num p)) (eparams e)))"
  by (auto simp: Hash_def GetUidExprOp_def split: ekind.splits)

lemma Hash_op_inj:
  assumes "GetUidExprOp e = Inr u" "GetUidExprOp f = Inr v" "Hash e = Hash f"
    "node_ok e" "node_ok f"
  shows "esort e = esort f \<and> u = v \<and> arg_ids e = arg_ids f \<and> eparams e = eparams f"
proof -
  have cc: "sep_join '','' (map (\<lambda>p. to_string (param_num p)) ps) =
        sep_join '','' (map to_string (map param_num ps))" for ps
    by (simp add: comp_def)
  have "GetSortHash (esort e) = GetSortHash (esort f)" "op_uid_num u = op_uid_num v"
    "sep_join '','' (map to_string (arg_ids e)) = sep_join '','' (map to_string (arg_ids f))"
    "sep_join '','' (map to_string (map param_num (eparams e))) =
     sep_join '','' (map to_string (map param_num (eparams f)))"
    using assms(3) unfolding Hash_op [OF assms(1)] Hash_op [OF assms(2)] cc
    by (simp_all add: field_simps' del: map_map)
  then show ?thesis
    using assms(4,5) GetSortHash_inj op_uid_num_inj comma_join_inj params_inj
    by (metis (no_types, lifting) node_ok_def)
qed

lemma Hash_inj:
  assumes "Hash e = Hash f" "node_ok e" "node_ok f"
  shows "head e = head f \<and> map eid (eargs e) = map eid (eargs f)"
proof -
  consider (vv) "ekind e = KVar" "ekind f = KVar"
    | (cc) v w where "ekind e = KConst v" "ekind f = KConst w"
    | (oo) u w where "GetUidExprOp e = Inr u" "GetUidExprOp f = Inr w"
    | (vc) v where "ekind e = KVar" "ekind f = KConst v"
    | (cv) v where "ekind e = KConst v" "ekind f = KVar"
    | (vo) u where "ekind e = KVar" "GetUidExprOp f = Inr u"
    | (ov) u where "GetUidExprOp e = Inr u" "ekind f = KVar"
    | (co) u v where "ekind e = KConst v" "GetUidExprOp f = Inr u"
    | (oc) u v where "GetUidExprOp e = Inr u" "ekind f = KConst v"
    by (cases "ekind e"; cases "ekind f") (auto simp: GetUidExprOp_def)
  then show ?thesis
  proof cases
    case vv
    with assms have "GetSortHash (esort e) = GetSortHash (esort f)" "eid e = eid f"
      by (simp_all add: Hash_var field_simps')
    with vv assms show ?thesis by (auto simp: head_def node_ok_def dest: GetSortHash_inj)
  next
    case cc
    obtain s t where st: "const_value_str e = Inr s" "const_value_str f = Inr t"
      using const_str_ok assms cc by blast
    with assms cc have "GetSortHash (esort e) = GetSortHash (esort f)" "s = t"
      by (simp_all add: Hash_const field_simps')
    with cc st assms show ?thesis by (auto simp: head_def node_ok_def dest: GetSortHash_inj)
  next
    case oo
    from Hash_op_inj [OF oo assms] oo assms(2,3) show ?thesis
      by (auto simp: head_def GetUidExprOp_def arg_ids_def node_ok_def split: ekind.splits)
  qed (use assms const_str_ok [of e] const_str_ok [of f] in
      \<open>auto simp: Hash_var Hash_const Hash_op\<close>)
qed

lemma Hash_cong:
  assumes "head e = head f" "map eid (eargs e) = map eid (eargs f)" "node_ok e" "node_ok f"
  shows "Hash e = Hash f"
  using assms const_str_ok [of e] const_str_ok [of f]
  by (cases "ekind e"; cases "ekind f")
     (auto simp: head_def Hash_def GetUidExprOp_def arg_ids_def node_ok_def)


section \<open>Representatives\<close>

lemma rmap_cong [fundef_cong]:
  "xs = ys \<Longrightarrow> (\<And>x. x \<in> set ys \<Longrightarrow> f x = g x) \<Longrightarrow> rmap f xs = rmap g ys"
  by (induction xs arbitrary: ys) auto

text \<open>The representative a table gives an expression.\<close>

fun repr :: "emap \<Rightarrow> expr \<Rightarrow> expr result" where
  "repr m (Expr i n s h ps as k) =
     rbind (rmap (repr m) as) (\<lambda>rs. rbind (Hash (Expr i n s h ps rs k)) (lookup_rep m))"

lemma repr_conv: "repr m e = rbind (rmap (repr m) (eargs e)) (\<lambda>rs. rbind (Hash (set_args rs e)) (lookup_rep m))"
  by (cases e) (simp add: set_args_def)

lemma lookup_rep_Inr [simp]: "lookup_rep m k = Inr r \<longleftrightarrow> m k = Some r"
  by (simp add: lookup_rep_def split: option.splits)

lemma rmap_mono:
  "rmap f xs = Inr ys \<Longrightarrow> (\<And>x y. x \<in> set xs \<Longrightarrow> f x = Inr y \<Longrightarrow> g x = Inr y) \<Longrightarrow> rmap g xs = Inr ys"
  by (induction xs arbitrary: ys) (auto simp: rbind_Inr_conv)

lemma repr_mono: "m \<subseteq>\<^sub>m m' \<Longrightarrow> repr m e = Inr r \<Longrightarrow> repr m' e = Inr r"
proof (induction m e arbitrary: r rule: repr.induct)
  case (1 m i n s h ps as k)
  then obtain rs key where rs: "rmap (repr m) as = Inr rs" and key: "Hash (Expr i n s h ps rs k) = Inr key"
    and r: "m key = Some r"
    by (auto simp: rbind_Inr_conv)
  have "rmap (repr m') as = Inr rs" using rs by (rule rmap_mono) (use 1 in auto)
  moreover have "m' key = Some r" using r 1(2) by (metis domI map_le_def)
  ultimately show ?case using key by simp
qed

lemma reprs_mono: "m \<subseteq>\<^sub>m m' \<Longrightarrow> rmap (repr m) es = Inr rs \<Longrightarrow> rmap (repr m') es = Inr rs"
  using rmap_mono repr_mono by metis

definition coherent :: "expr set \<Rightarrow> bool" where
  "coherent S =
     (inj_on eid S \<and> (\<forall>e \<in> S. node_ok e \<and> set (eargs e) \<subseteq> S) \<and>
      (\<forall>e \<in> S. \<forall>e' \<in> S. \<forall>f f'. ekind e = KApp f \<and> ekind e' = KApp f' \<and> func_id f = func_id f' \<longrightarrow> f = f'))"

definition minv :: "expr set \<Rightarrow> emap \<Rightarrow> bool" where
  "minv S m = (\<forall>k r. m k = Some r \<longrightarrow>
     Hash r = Inr k \<and> (\<exists>e \<in> S. \<exists>rs. rmap (repr m) (eargs e) = Inr rs \<and> r = set_args rs e))"

definition visited :: "emap \<Rightarrow> expr \<Rightarrow> expr \<Rightarrow> bool" where
  "visited m e e' = (\<exists>rs. rmap (repr m) (eargs e) = Inr rs \<and> e' = set_args rs e)"

lemma visited_mono: "m \<subseteq>\<^sub>m m' \<Longrightarrow> visited m e e' \<Longrightarrow> visited m' e e'"
  by (auto simp: visited_def dest: reprs_mono)

lemma visited_repr: "visited m e e' \<Longrightarrow> rbind (Hash e') (lookup_rep m) = repr m e"
  by (subst repr_conv) (auto simp: visited_def)

lemma node_ok_set_args: "node_ok e \<Longrightarrow> length rs = length (eargs e) \<Longrightarrow> node_ok (set_args rs e)"
  by (auto simp: node_ok_def split: ekind.splits)

lemma head_set_args [simp]: "head (set_args rs e) = head e"
  by (simp add: head_def const_value_str_def val_bool_def val_bv_def split: ekind.splits)

lemma call_spec:
  assumes S: "coherent S" "e \<in> S" and m: "minv S m" and es: "list_all2 (visited m) (eargs e) es"
    and rs: "rmap (repr m) (eargs e) = Inr rs"
  shows "\<exists>m'. ExprMngr_call (set_args es e) m = Inr (set_args rs e, m') \<and> minv S m' \<and> m \<subseteq>\<^sub>m m' \<and>
     visited m' e (set_args rs e) \<and> is_ok (repr m' e)"
proof -
  have len: "length rs = length (eargs e)" using rs by (rule rmap_Inr_length)
  have "node_ok (set_args rs e)" using S len by (auto simp: coherent_def node_ok_set_args)
  then obtain key where key: "Hash (set_args rs e) = Inr key" using Hash_total by blast
  have "rmap (\<lambda>a. rbind (Hash a) (lookup_rep m)) es = rmap (repr m) (eargs e)"
    using es by (induction rule: list_all2_induct) (simp_all add: visited_repr)
  with rs have reps: "rmap (\<lambda>a. rbind (Hash a) (lookup_rep m)) es = Inr rs" by simp
  let ?m' = "if m key = None then m(key \<mapsto> set_args rs e) else m"
  have le: "m \<subseteq>\<^sub>m ?m'" by (auto simp: map_le_def)
  have rs': "rmap (repr ?m') (eargs e) = Inr rs" using reprs_mono [OF le rs] .
  have "ExprMngr_call (set_args es e) m = Inr (set_args rs e, ?m')"
    using reps key by (simp add: ExprMngr_call_def set_args_def Let_def)
  moreover have "minv S ?m'"
    unfolding minv_def
  proof (intro allI impI)
    fix k r assume kr: "?m' k = Some r"
    show "Hash r = Inr k \<and> (\<exists>e \<in> S. \<exists>rs. rmap (repr ?m') (eargs e) = Inr rs \<and> r = set_args rs e)"
    proof (cases "m k = Some r")
      case True
      then show ?thesis using m reprs_mono [OF le] unfolding minv_def by blast
    next
      case False
      then have "k = key" "r = set_args rs e" using kr by (auto split: if_splits)
      then show ?thesis using key rs' S by blast
    qed
  qed
  moreover have "is_ok (repr ?m' e)"
    using rs' key by (subst repr_conv) (auto simp: is_ok_conv)
  ultimately show ?thesis using le rs' by (auto simp: visited_def)
qed

lemma visit_spec:
  assumes S: "coherent S"
  shows "e \<in> S \<Longrightarrow> minv S m \<Longrightarrow>
      \<exists>e' m'. mngr_visit e m = Inr (e', m') \<and> minv S m' \<and> m \<subseteq>\<^sub>m m' \<and> visited m' e e' \<and> is_ok (repr m' e)"
    and "set es \<subseteq> S \<Longrightarrow> minv S m \<Longrightarrow>
      \<exists>es' m'. mngr_visit_args es m = Inr (es', m') \<and> minv S m' \<and> m \<subseteq>\<^sub>m m' \<and>
         list_all2 (visited m') es es' \<and> is_ok (rmap (repr m') es)"
proof (induction e m and es m rule: mngr_visit_mngr_visit_args.induct)
  case (1 i n s h ps as k m)
  let ?e = "Expr i n s h ps as k"
  have "set as \<subseteq> S" using S 1(2) by (force simp: coherent_def)
  then obtain es' m1 rs where v: "mngr_visit_args as m = Inr (es', m1)" "minv S m1" "m \<subseteq>\<^sub>m m1"
    "list_all2 (visited m1) as es'" "rmap (repr m1) as = Inr rs"
    using 1(1) [OF _ 1(3)] by (auto simp: is_ok_conv)
  then show ?case
    using call_spec [OF S 1(2) v(2), of es' rs] map_le_trans [OF v(3)]
    by (auto simp: set_args_def)
next
  case (2 m)
  then show ?case by simp
next
  case (3 a as m)
  then obtain a' m1 where v: "mngr_visit a m = Inr (a', m1)" "minv S m1" "m \<subseteq>\<^sub>m m1" "visited m1 a a'"
    "is_ok (repr m1 a)" by auto
  with 3 obtain es' m2 where w: "mngr_visit_args as m1 = Inr (es', m2)" "minv S m2" "m1 \<subseteq>\<^sub>m m2"
    "list_all2 (visited m2) as es'" "is_ok (rmap (repr m2) as)" by fastforce
  have "visited m2 a a'" using visited_mono [OF w(3) v(4)] .
  moreover have "is_ok (repr m2 a)" using v(5) repr_mono [OF w(3)] by (auto simp: is_ok_conv)
  ultimately show ?case using v w map_le_trans [OF v(3) w(3)] by (auto simp: is_ok_conv)
qed


lemma rep_unique:
  assumes "coherent S" "minv S m" "m k = Some r" "m k' = Some r'" "eid r = eid r'"
  shows "r = r'"
proof -
  obtain e rs e' rs' where e: "e \<in> S" "rmap (repr m) (eargs e) = Inr rs" "r = set_args rs e"
    and e': "e' \<in> S" "rmap (repr m) (eargs e') = Inr rs'" "r' = set_args rs' e'"
    using assms(2-4) unfolding minv_def by metis
  then have "e = e'" using assms(1,5) by (auto simp: coherent_def inj_on_def)
  with e e' show ?thesis by simp
qed

lemma repr_in_table: "repr m e = Inr r \<Longrightarrow> \<exists>k. m k = Some r"
  by (subst (asm) repr_conv) (auto simp: rbind_Inr_conv)

lemma reprs_in_table: "rmap (repr m) es = Inr rs \<Longrightarrow> r \<in> set rs \<Longrightarrow> \<exists>k. m k = Some r"
proof (induction es arbitrary: rs)
  case (Cons e es)
  then show ?case using repr_in_table by (auto simp: rbind_Inr_conv)
qed simp

lemma eids_inj:
  assumes "coherent S" "minv S m" "\<forall>r \<in> set rs. \<exists>k. m k = Some r" "\<forall>r \<in> set rs'. \<exists>k. m k = Some r"
    "map eid rs = map eid rs'"
  shows "rs = rs'"
proof (rule nth_equalityI)
  show len: "length rs = length rs'" using assms(5) map_eq_imp_length_eq by blast
  fix i assume i: "i < length rs"
  then have "eid (rs ! i) = eid (rs' ! i)" using assms(5) len by (metis nth_map)
  moreover obtain k k' where "m k = Some (rs ! i)" "m k' = Some (rs' ! i)"
    using assms(3,4) i len by (metis nth_mem)
  ultimately show "rs ! i = rs' ! i" using rep_unique [OF assms(1,2)] by blast
qed

lemma skel_conv: "skel e = Skel (head e) (map skel (eargs e))"
  by (cases e) simp

text \<open>A representative has the structure of the expression it stands for.\<close>

lemma repr_args:
  assumes S: "coherent S" and m: "minv S m" and e: "e \<in> S" "repr m e = Inr r"
  shows "head r = head e \<and> rmap (repr m) (eargs e) = Inr (eargs r)"
proof -
  obtain rs key where rs: "rmap (repr m) (eargs e) = Inr rs" "Hash (set_args rs e) = Inr key" "m key = Some r"
    using e(2) by (subst (asm) repr_conv) (auto simp: rbind_Inr_conv)
  obtain o' rs' where o': "o' \<in> S" "rmap (repr m) (eargs o') = Inr rs'" "r = set_args rs' o'" "Hash r = Inr key"
    using m rs(3) unfolding minv_def by metis
  have ok: "node_ok (set_args rs e)" "node_ok r"
    using S e(1) o' rs(1) by (auto simp: coherent_def node_ok_set_args dest: rmap_Inr_length)
  from Hash_inj [OF _ ok] rs(2) o'(4) have "head r = head e" "map eid rs = map eid (eargs r)" by simp_all
  moreover from this(2) have "rs = eargs r"
    using eids_inj [OF S m] reprs_in_table rs(1) o' by (metis set_field_simps(20))
  ultimately show ?thesis using rs(1) by simp
qed

lemma repr_skel:
  assumes S: "coherent S" and m: "minv S m"
  shows "e \<in> S \<Longrightarrow> repr m e = Inr r \<Longrightarrow> skel r = skel e"
proof (induction e arbitrary: r)
  case (Expr i n s h ps as k)
  let ?e = "Expr i n s h ps as k"
  have r: "head r = head ?e" "rmap (repr m) as = Inr (eargs r)"
    using repr_args [OF S m Expr(2,3)] by simp_all
  have "set as \<subseteq> S" using S Expr(2) by (force simp: coherent_def)
  with r(2) Expr(1) have "map skel (eargs r) = map skel as"
    unfolding rmap_Inr_list_all2 by (induction rule: list_all2_induct) auto
  with r(1) show ?case by (simp add: skel_conv [of r])
qed

text \<open>Expressions of the same structure have the same representative.\<close>

lemma skel_repr:
  assumes S: "coherent S" and m: "minv S m"
  shows "e \<in> S \<Longrightarrow> e' \<in> S \<Longrightarrow> skel e = skel e' \<Longrightarrow> repr m e = Inr r \<Longrightarrow> repr m e' = Inr r' \<Longrightarrow> r = r'"
proof (induction e arbitrary: e' r r')
  case (Expr i n s h ps as k)
  let ?e = "Expr i n s h ps as k"
  have hd: "head ?e = head e'" "map skel as = map skel (eargs e')"
    using Expr.prems(3) skel_conv [of e'] by simp_all
  have sub: "set as \<subseteq> S" "set (eargs e') \<subseteq> S"
    using S Expr.prems(1,2) unfolding coherent_def by force+
  have a: "head r = head ?e" "rmap (repr m) as = Inr (eargs r)"
    and a': "head r' = head e'" "rmap (repr m) (eargs e') = Inr (eargs r')"
    using repr_args [OF S m Expr.prems(1,4)] repr_args [OF S m Expr.prems(2,5)] by simp_all
  have "eargs r = eargs r'"
  proof (rule nth_equalityI)
    have len: "length (eargs r) = length as" "length (eargs r') = length (eargs e')"
      using rmap_Inr_length [OF a(2)] rmap_Inr_length [OF a'(2)] by simp_all
    have lens: "length as = length (eargs e')" using hd(2) map_eq_imp_length_eq by blast
    show "length (eargs r) = length (eargs r')" using len lens by simp
    fix j assume j: "j < length (eargs r)"
    then have nth: "as ! j \<in> set as" "eargs e' ! j \<in> set (eargs e')" "skel (as ! j) = skel (eargs e' ! j)"
      using len lens hd(2) by (simp_all add: list_eq_iff_nth_eq [of "map skel as"])
    have "repr m (as ! j) = Inr (eargs r ! j)" "repr m (eargs e' ! j) = Inr (eargs r' ! j)"
      using a(2) a'(2) j len lens by (simp_all add: rmap_Inr_list_all2 list_all2_conv_all_nth)
    then show "eargs r ! j = eargs r' ! j" using Expr.IH nth sub by blast
  qed
  moreover obtain k1 k2 where k: "m k1 = Some r" "m k2 = Some r'"
    using Expr.prems(4,5) repr_in_table by blast
  have "Hash r = Hash r'"
  proof (rule Hash_cong)
    show "head r = head r'" using hd a a' by simp
    show "map eid (eargs r) = map eid (eargs r')" using \<open>eargs r = eargs r'\<close> by simp
    show "node_ok r" "node_ok r'"
      using k m S unfolding minv_def coherent_def by (metis node_ok_set_args rmap_Inr_length)+
  qed
  then have "k1 = k2" using k m unfolding minv_def by (metis sum.inject(2))
  with k show ?case by simp
qed

lemma const_head_inj:
  assumes "head e = head e'" "node_ok e" "node_ok e'" "ekind e = KConst v" "ekind e' = KConst v'"
  shows "v = v' \<or> eid e = eid e'"
proof -
  have s: "esort e' = esort e" and str: "const_value_str e = const_value_str e'"
    using assms const_str_ok [of e v] const_str_ok [of e' v'] by (auto simp: head_def)
  show ?thesis
  proof (cases "esort e")
    case SortBool
    then obtain b b' where "v = BoolVal b" "v' = BoolVal b'"
      using assms s by (auto simp: node_ok_def split: Value.splits)
    with str assms s SortBool show ?thesis
      by (auto simp: const_value_str_def val_bool_def BoolVal_str_def split: if_splits)
  next
    case (SortBv w)
    then obtain b b' where "v = BvVal b" "v' = BvVal b'"
      using assms s by (auto simp: node_ok_def split: Value.splits)
    with str assms s SortBv show ?thesis
      by (simp add: const_value_str_def val_bv_def BvVal_str_def word_unat_eq_iff)
  next
    case (SortMem a d)
    with str s show ?thesis by (simp add: const_value_str_def)
  qed (use assms in \<open>auto simp: node_ok_def prim_sort_def\<close>)
qed

text \<open>Expressions of the same structure have the same value.\<close>

lemma map_eq_transfer:
  "map f xs = map f ys \<Longrightarrow> (\<And>x y. x \<in> set xs \<Longrightarrow> y \<in> set ys \<Longrightarrow> f x = f y \<Longrightarrow> g x = g y) \<Longrightarrow>
   map g xs = map g ys"
proof (induction xs arbitrary: ys)
  case (Cons x xs)
  then show ?case by (cases ys) auto
qed simp

lemma skel_eval:
  assumes S: "coherent S"
  shows "e \<in> S \<Longrightarrow> e' \<in> S \<Longrightarrow> skel e = skel e' \<Longrightarrow> eval I e = eval I e'"
proof (induction e arbitrary: e')
  case (Expr i n s h ps as k)
  let ?e = "Expr i n s h ps as k"
  obtain i' n' s' h' ps' as' k' where e': "e' = Expr i' n' s' h' ps' as' k'" by (cases e')
  have hd: "head ?e = head e'" "map skel as = map skel as'"
    using Expr.prems(3) e' by simp_all
  have sub: "set as \<subseteq> S" "set as' \<subseteq> S" and ok: "node_ok ?e" "node_ok e'"
    using S Expr.prems(1,2) e' unfolding coherent_def by force+
  have same: "i = i' \<Longrightarrow> ?e = e'"
    using S Expr.prems(1,2) e' unfolding coherent_def inj_on_def by (metis expr.sel(1))
  have ev: "map (eval I) as = map (eval I) as'"
    using hd(2) by (rule map_eq_transfer) (use sub Expr.IH in blast)
  have srt: "map esort as = map esort as'"
  proof -
    have "skel a = skel a' \<Longrightarrow> esort a = esort a'" for a a'
      unfolding skel_conv [of a] skel_conv [of a'] by (auto simp: head_def split: ekind.splits)
    with hd(2) show ?thesis by (rule map_eq_transfer)
  qed
  show ?case
  proof (cases k)
    case KVar
    with hd(1) e' have "i = i'" by (auto simp: head_def split: ekind.splits)
    then show ?thesis using same by simp
  next
    case (KConst v)
    with hd(1) e' obtain v' where k': "k' = KConst v'" "s' = s" by (auto simp: head_def split: ekind.splits)
    have "v = v' \<or> i = i'"
      using const_head_inj [OF hd(1) ok, of v v'] e' k' KConst by simp
    then show ?thesis using same k' KConst e' by auto
  next
    case (KOp u)
    with hd(1) ok e' have "k' = KOp u" "ps' = ps"
      by (auto simp: head_def node_ok_def split: ekind.splits)
    with KOp e' ev srt show ?thesis by simp
  next
    case (KApp f)
    with hd(1) ok e' obtain f' where k': "k' = KApp f'" "func_id f' = func_id f"
      by (auto simp: head_def node_ok_def split: ekind.splits)
    have "f' = f" using S Expr.prems(1,2) KApp k' e' unfolding coherent_def by (metis expr.sel(7))
    with KApp k' e' ev show ?thesis by simp
  qed
qed


section \<open>Properties\<close>

lemma minv_empty [simp]: "minv S Map.empty"
  by (simp add: minv_def)

lemma GetRep_spec:
  assumes "coherent S" "minv S m" "e \<in> S"
  shows "\<exists>r e' m'. GetRep e m = Inr (r, e', m') \<and> minv S m' \<and> m \<subseteq>\<^sub>m m' \<and> visited m' e e' \<and> repr m' e = Inr r"
  using visit_spec(1) [OF assms(1,3,2)] visited_repr
  by (fastforce simp: GetRep_def is_ok_conv rbind_Inr_conv)

lemma visited_skel:
  assumes "coherent S" "minv S m" "e \<in> S" "visited m e e'"
  shows "skel e' = skel e"
proof -
  obtain rs where rs: "rmap (repr m) (eargs e) = Inr rs" "e' = set_args rs e"
    using assms(4) by (auto simp: visited_def)
  have "set (eargs e) \<subseteq> S" using assms(1,3) by (auto simp: coherent_def)
  with rs(1) have "map skel rs = map skel (eargs e)"
    unfolding rmap_Inr_list_all2 using repr_skel [OF assms(1,2)] by (induction rule: list_all2_induct) auto
  with rs(2) show ?thesis by (simp add: skel_conv [of e] skel_conv [of "set_args rs e"])
qed

text \<open>C22: \<^verbatim>\<open>TopEq\<close> decides structural equality: on expressions whose nodes have distinct
  identifiers it always returns, and returns true exactly when the two expressions have the
  same structure (the same operations, parameters, constants and variables, whatever their
  node objects); then they have the same value under every interpretation.\<close>

theorem TopEq_structural:
  assumes "coherent S" "a \<in> S" "b \<in> S"
  shows "TopEq a b = Inr (skel a = skel b) \<and> (skel a = skel b \<longrightarrow> eval I a = eval I b)"
proof -
  obtain x a' m1 where x: "GetRep a Map.empty = Inr (x, a', m1)" "minv S m1" "repr m1 a = Inr x"
    using GetRep_spec [OF assms(1) minv_empty assms(2)] by blast
  obtain y b' m2 where y: "GetRep b m1 = Inr (y, b', m2)" "minv S m2" "m1 \<subseteq>\<^sub>m m2" "repr m2 b = Inr y"
    using GetRep_spec [OF assms(1) x(2) assms(3)] by blast
  have x2: "repr m2 a = Inr x" using repr_mono [OF y(3) x(3)] .
  have "x = y \<longleftrightarrow> skel a = skel b"
    using repr_skel [OF assms(1) y(2) assms(2) x2] repr_skel [OF assms(1) y(2) assms(3) y(4)]
      skel_repr [OF assms(1) y(2) assms(2,3) _ x2 y(4)] by auto
  then show ?thesis
    using x(1) y(1) skel_eval [OF assms] by (simp add: TopEq_def)
qed

text \<open>C23: \<^verbatim>\<open>GetRep\<close> always finds a representative; the representative and the visited node
  keep the structure of the expression; two expressions registered one after the other get
  the same representative exactly when they have the same structure.\<close>

theorem GetRep_canonical:
  assumes "coherent S" "minv S m" "a \<in> S" "b \<in> S"
  shows "\<exists>x a' m1 y b' m2. GetRep a m = Inr (x, a', m1) \<and> GetRep b m1 = Inr (y, b', m2) \<and> minv S m2 \<and>
     skel x = skel a \<and> skel a' = skel a \<and> skel y = skel b \<and> skel b' = skel b \<and>
     (x = y \<longleftrightarrow> skel a = skel b)"
proof -
  obtain x a' m1 where x: "GetRep a m = Inr (x, a', m1)" "minv S m1" "repr m1 a = Inr x" "visited m1 a a'"
    using GetRep_spec [OF assms(1,2,3)] by blast
  obtain y b' m2 where y: "GetRep b m1 = Inr (y, b', m2)" "minv S m2" "m1 \<subseteq>\<^sub>m m2" "repr m2 b = Inr y"
      "visited m2 b b'"
    using GetRep_spec [OF assms(1) x(2) assms(4)] by blast
  have x2: "repr m2 a = Inr x" using repr_mono [OF y(3) x(3)] .
  have sk: "skel x = skel a" "skel y = skel b"
    using repr_skel [OF assms(1) y(2) assms(3) x2] repr_skel [OF assms(1) y(2) assms(4) y(4)] by simp_all
  have "x = y \<longleftrightarrow> skel a = skel b"
    using sk skel_repr [OF assms(1) y(2) assms(3,4) _ x2 y(4)] by auto
  with sk x y visited_skel [OF assms(1) x(2) assms(3) x(4)] visited_skel [OF assms(1) y(2) assms(4) y(5)]
  show ?thesis by blast
qed

text \<open>Two separately built nodes for \<open>x + x\<close>.\<close>

definition var_x :: expr where
  "var_x = Expr 1 ''x'' (SortBv 8) None [] [] KVar"

definition sum_x :: "nat \<Rightarrow> expr" where
  "sum_x i = Expr i (anon_name i) (SortBv 8) None [] [var_x, var_x] (KOp kAdd)"

lemma sum_x_coherent: "coherent {var_x, sum_x 2, sum_x 3}"
  by (auto simp: coherent_def var_x_def sum_x_def node_ok_def prim_sort_def)

theorem TopEq_structural_witness:
  "TopEq (sum_x 2) (sum_x 3) = Inr True \<and> eval zero_interp (sum_x 2) = eval zero_interp (sum_x 3) \<and>
   TopEq var_x (sum_x 3) = Inr False"
  using TopEq_structural [OF sum_x_coherent, of "sum_x 2" "sum_x 3" zero_interp]
    TopEq_structural [OF sum_x_coherent, of var_x "sum_x 3" zero_interp]
  by (simp add: sum_x_def var_x_def head_def)

theorem GetRep_canonical_witness:
  "\<exists>x a' m1 b' m2. GetRep (sum_x 2) Map.empty = Inr (x, a', m1) \<and> GetRep (sum_x 3) m1 = Inr (x, b', m2)"
  using GetRep_canonical [OF sum_x_coherent minv_empty, of "sum_x 2" "sum_x 3"]
  by (auto simp: sum_x_def var_x_def head_def)

end
