(* ===== verification/VarContainers.thy ===== *)
theory VarContainers
  imports AstHub
begin

text \<open>
  Containers of variables (src/ila/var\_container.cc, include/ilang/ila/var\_container.h): a
  primitive variable, a vector of containers or a struct of named containers, and the
  operations that rearrange them. The templates \<^verbatim>\<open>from_cpp_obj\<close> recurse over the
  type of the C++ object; the model takes the conversion of the elements as an argument.
  A method that a class does not override fails an assertion of the base class.
\<close>

section \<open>Accessors\<close>

fun vc_sort :: "VarContainer \<Rightarrow> sort" where
  "vc_sort (VarPrimitive e) = esort e"
| "vc_sort (VarVector s xs) = s"
| "vc_sort (VarStruct s ms) = s"

definition invalid_operation_error :: "'a result" where
  "invalid_operation_error = Inl (IlaAssert ''invalid operation'')"

fun to_primitive_expr :: "VarContainer \<Rightarrow> expr result" where
  "to_primitive_expr (VarPrimitive e) = Inr e"
| "to_primitive_expr _ = invalid_operation_error"

fun vc_nth :: "VarContainer \<Rightarrow> nat \<Rightarrow> VarContainer result" where
  "vc_nth (VarVector s xs) idx =
     (if idx < length xs then Inr (xs ! idx) else Inl (IlaAssert ''index out of bounds''))"
| "vc_nth _ idx = invalid_operation_error"

fun vc_size :: "VarContainer \<Rightarrow> nat result" where
  "vc_size (VarVector s xs) = Inr (length xs)"
| "vc_size _ = invalid_operation_error"

fun vc_elements :: "VarContainer \<Rightarrow> VarContainer list result" where
  "vc_elements (VarVector s xs) = Inr xs"
| "vc_elements _ = invalid_operation_error"

fun vc_member :: "VarContainer \<Rightarrow> string \<Rightarrow> VarContainer result" where
  "vc_member (VarStruct s ms) name =
     (case map_of ms name of None \<Rightarrow> Inl (IlaAssert ''member not found'') | Some x \<Rightarrow> Inr x)"
| "vc_member _ name = invalid_operation_error"

fun vc_members :: "VarContainer \<Rightarrow> (string \<times> VarContainer) list result" where
  "vc_members (VarStruct s ms) = Inr ms"
| "vc_members _ = invalid_operation_error"

text \<open>\<^verbatim>\<open>visit_with\<close>: the container first, then its parts.\<close>

fun visit_with :: "(VarContainer \<Rightarrow> 's \<Rightarrow> 's) \<Rightarrow> VarContainer \<Rightarrow> 's \<Rightarrow> 's" where
  "visit_with visit (VarPrimitive e) st = visit (VarPrimitive e) st"
| "visit_with visit (VarVector s xs) st =
     fold (\<lambda>x. visit_with visit x) xs (visit (VarVector s xs) st)"
| "visit_with visit (VarStruct s ms) st =
     fold (\<lambda>p. visit_with visit (snd p)) ms (visit (VarStruct s ms) st)"

section \<open>Construction\<close>

text \<open>A vector sort has a non-negative size, which its constructor checks.\<close>

fun VarContainer_Make :: "string \<Rightarrow> sort \<Rightarrow> VarContainer M"
  and Make_members :: "string \<Rightarrow> (string \<times> sort) list \<Rightarrow> (string \<times> VarContainer) list M" where
  "VarContainer_Make name SortBool = bnd (NewBoolVar name) (\<lambda>e. ret (VarPrimitive e))"
| "VarContainer_Make name (SortBv w) = bnd (NewBvVar name w) (\<lambda>e. ret (VarPrimitive e))"
| "VarContainer_Make name (SortMem a d) = bnd (NewMemVar name a d) (\<lambda>e. ret (VarPrimitive e))"
| "VarContainer_Make name (SortVector da n) =
     bnd (mapM (\<lambda>i. VarContainer_Make (name @ ''_'' @ to_string i @ ''_'') da) [0 ..< nat n])
       (\<lambda>vc. ret (VarVector (SortVector da n) vc))"
| "VarContainer_Make name (SortStruct ms) =
     bnd (Make_members (name @ ''_'') ms) (\<lambda>sc. ret (VarStruct (SortStruct ms) sc))"
| "Make_members prefix [] = ret []"
| "Make_members prefix ((nm, t) # ms) =
     bnd (VarContainer_Make (prefix @ nm @ ''_'') t) (\<lambda>c.
     bnd (Make_members prefix ms) (\<lambda>cs. ret ((nm, c) # cs)))"

definition from_primitive_expr :: "expr \<Rightarrow> VarContainer" where
  "from_primitive_expr p = VarPrimitive p"

definition from_cpp_vector ::
    "(sort \<Rightarrow> 't \<Rightarrow> VarContainer result) \<Rightarrow> sort \<Rightarrow> 't list \<Rightarrow> VarContainer result" where
  "from_cpp_vector conv s obj =
     rassert (is_vec s) (IlaAssert ''can't convert given vector to VarContainer'')
       (rbind (rmap (\<lambda>x. rbind (data_atom s) (\<lambda>da. conv da x)) obj) (\<lambda>v.
        rbind (vec_size s) (\<lambda>n.
        rassert (n = int (length v)) (IlaAssert ''expected vector-like of size'')
          (Inr (VarVector s v)))))"

text \<open>The members are collected in a map, where the first of a name stays, then listed in the
  order of the sort.\<close>

definition from_cpp_struct ::
    "(sort \<Rightarrow> 't \<Rightarrow> VarContainer result) \<Rightarrow> sort \<Rightarrow> (string \<times> 't) list \<Rightarrow> VarContainer result" where
  "from_cpp_struct conv s obj =
     rassert (is_struct s) (IlaAssert ''can't convert sequence of pairs to VarContainer'')
       (rbind (rmap (\<lambda>(nm, x). rbind (get_member_sort s nm) (\<lambda>t.
                 rbind (conv t x) (\<lambda>c. Inr (nm, c)))) obj) (\<lambda>ms.
        rbind (sort_members s) (\<lambda>sms.
        rbind (rmap (\<lambda>(nm, t). case map_of ms nm of
                 None \<Rightarrow> Inl (IlaAssert ''missing member'') | Some x \<Rightarrow> Inr (nm, x)) sms) (\<lambda>res.
        Inr (VarStruct s res)))))"

definition from_cpp_expr :: "sort \<Rightarrow> expr \<Rightarrow> VarContainer result" where
  "from_cpp_expr s obj =
     rassert (sort_Equal s (esort obj)) (IlaAssert ''expected sort'') (Inr (from_primitive_expr obj))"

definition from_cpp_container :: "sort \<Rightarrow> VarContainer \<Rightarrow> VarContainer result" where
  "from_cpp_container s obj =
     rassert (sort_Equal s (vc_sort obj)) (IlaAssert ''expected sort'') (Inr obj)"

section \<open>Transformers\<close>

text \<open>A list of pairs read into an \<^verbatim>\<open>unordered_map\<close>: the first pair of a key stays.\<close>

fun umap :: "('k \<times> 'v) list \<Rightarrow> ('k \<times> 'v) list" where
  "umap [] = []"
| "umap ((k, v) # ms) = (k, v) # filter (\<lambda>p. fst p \<noteq> k) (umap ms)"

fun order_preserving_partition ::
    "VarContainer \<Rightarrow> nat \<Rightarrow> (nat \<Rightarrow> nat) \<Rightarrow> VarContainer list result" where
  "order_preserving_partition (VarVector s xs) n_parts which_part =
     rbind (rmap (\<lambda>i. rassert (which_part i < n_parts)
              (IlaAssert ''partition function out of bounds'') (Inr (which_part i))) [0 ..< length xs])
       (\<lambda>idxs. rmap (\<lambda>p.
          let part = map fst (filter (\<lambda>(x, q). q = p) (zip xs idxs)) in
          rbind (data_atom s) (\<lambda>da.
          rbind (MakeVectorSort da (int (length part))) (\<lambda>t.
          from_cpp_vector from_cpp_container t part))) [0 ..< n_parts])"
| "order_preserving_partition _ n_parts which_part = invalid_operation_error"

definition vc_unzip :: "VarContainer \<Rightarrow> VarContainer result" where
  "vc_unzip v = (case v of
     VarVector s xs \<Rightarrow>
       rbind (data_atom s) (\<lambda>da.
       rassert (is_struct da) (IlaAssert ''can't unzip vector of data-atoms if they aren't structs'')
       (rbind (sort_members da) (\<lambda>dms.
       rassert (dms \<noteq> []) (IlaAssert ''can't unzip vector of empty structs'')
       (rbind (rmap (\<lambda>(nm, t). rbind (MakeVectorSort t (int (length xs))) (\<lambda>vs. Inr (nm, vs))) dms) (\<lambda>res_sort.
       rbind (rmap vc_members xs) (\<lambda>rows.
       let names = remdups (map fst dms) @ filter (\<lambda>nm. nm \<notin> set (map fst dms)) (remdups (map fst (concat rows)));
           res = map (\<lambda>nm. (nm, map snd (filter (\<lambda>(n, m). n = nm) (concat rows)))) names in
       from_cpp_struct (from_cpp_vector from_cpp_container) (MakeStructSort res_sort) res))))))
   | _ \<Rightarrow> invalid_operation_error)"

text \<open>The size check of \<^verbatim>\<open>zip\<close>: \<^verbatim>\<open>sz\<close> starts at -1 and takes the first size.\<close>

fun zip_sorts :: "int \<Rightarrow> (string \<times> sort) list \<Rightarrow> (int \<times> (string \<times> sort) list) result" where
  "zip_sorts sz [] = Inr (sz, [])"
| "zip_sorts sz ((nm, v) # ms) =
     rassert (is_vec v) (IlaAssert ''expected vector'')
       (rbind (vec_size v) (\<lambda>n.
        rassert (sz < 0 \<or> sz = n) (IlaAssert ''expected vector of size'')
          (rbind (data_atom v) (\<lambda>da.
           rbind (zip_sorts (if sz < 0 then n else sz) ms) (\<lambda>(sz', das). Inr (sz', (nm, da) # das))))))"

definition vc_zip :: "VarContainer \<Rightarrow> VarContainer result" where
  "vc_zip v = (case v of
     VarStruct s ms \<Rightarrow>
       rassert (ms \<noteq> []) (IlaAssert ''can't zip empty struct'')
       (rbind (sort_members s) (\<lambda>sms.
        rbind (zip_sorts (-1) sms) (\<lambda>(sz, da).
        rbind (rmap (\<lambda>i. rmap (\<lambda>(nm, x). rbind (vc_nth x i) (\<lambda>y. Inr (nm, y))) ms) [0 ..< nat sz]) (\<lambda>rows.
        rbind (MakeVectorSort (MakeStructSort da) sz) (\<lambda>t.
        from_cpp_vector (from_cpp_struct from_cpp_container) t rows)))))
   | _ \<Rightarrow> invalid_operation_error)"

definition vc_project :: "VarContainer \<Rightarrow> string list \<Rightarrow> VarContainer result" where
  "vc_project v names = (case v of
     VarStruct s ms \<Rightarrow>
       rbind (rmap (\<lambda>nm. case map_of ms nm of
                None \<Rightarrow> Inl (IlaAssert ''member not found'') | Some x \<Rightarrow> Inr (nm, x)) names) (\<lambda>projection.
       from_cpp_struct from_cpp_container
         (MakeStructSort (map (\<lambda>(nm, x). (nm, vc_sort x)) projection)) projection)
   | _ \<Rightarrow> invalid_operation_error)"

definition vc_project_without :: "VarContainer \<Rightarrow> string list \<Rightarrow> VarContainer result" where
  "vc_project_without v names = (case v of
     VarStruct s ms \<Rightarrow>
       rbind (sort_members s) (\<lambda>sms.
       let ms' = filter (\<lambda>(nm, x). nm \<notin> set names) (umap ms);
           projsort = filter (\<lambda>(nm, t). nm \<in> set (map fst ms')) sms in
       from_cpp_struct from_cpp_container (MakeStructSort projsort) ms')
   | _ \<Rightarrow> invalid_operation_error)"

definition vc_join_with :: "VarContainer \<Rightarrow> VarContainer \<Rightarrow> VarContainer result" where
  "vc_join_with v b = (case v of
     VarStruct s ms \<Rightarrow>
       (case b of
          VarStruct s' ms' \<Rightarrow>
            rassert (length (umap (ms @ ms')) = length ms + length ms')
              (IlaAssert ''structs being merged contained duplicate keys'')
            (rbind (sort_members s) (\<lambda>sms.
             rbind (sort_members s') (\<lambda>sms'.
             from_cpp_struct from_cpp_container (MakeStructSort (sms @ sms')) (umap (ms @ ms')))))
        | _ \<Rightarrow> Inl (IlaAssert ''can't join non-structs''))
   | _ \<Rightarrow> invalid_operation_error)"


section \<open>Well-formed containers\<close>

fun vc_ok :: "VarContainer \<Rightarrow> bool" where
  "vc_ok (VarPrimitive e) = (\<not> is_struct (esort e) \<and> \<not> is_vec (esort e))"
| "vc_ok (VarVector s xs) =
     ((case s of SortVector da n \<Rightarrow> n = int (length xs) \<and> list_all (\<lambda>x. vc_sort x = da) xs | _ \<Rightarrow> False) \<and>
      list_all vc_ok xs)"
| "vc_ok (VarStruct s ms) =
     (s = SortStruct (map (\<lambda>(nm, x). (nm, vc_sort x)) ms) \<and> distinct (map fst ms) \<and>
      list_all (\<lambda>p. vc_ok (snd p)) ms)"

fun sort_ok :: "sort \<Rightarrow> bool" where
  "sort_ok (SortVector da n) = (0 \<le> n \<and> sort_ok da)"
| "sort_ok (SortStruct ms) = (distinct (map fst ms) \<and> list_all (\<lambda>p. sort_ok (snd p)) ms)"
| "sort_ok _ = True"

fun vc_leaves :: "VarContainer \<Rightarrow> expr list" where
  "vc_leaves (VarPrimitive e) = [e]"
| "vc_leaves (VarVector s xs) = concat (map vc_leaves xs)"
| "vc_leaves (VarStruct s ms) = concat (map (\<lambda>p. vc_leaves (snd p)) ms)"

text \<open>The state of a construction: fresh, distinct variables.\<close>

definition fresh_leaves :: "heap \<Rightarrow> heap \<Rightarrow> expr list \<Rightarrow> bool" where
  "fresh_leaves h h' es =
     (only_alloc h h' \<and> distinct (map eid es) \<and>
      list_all (\<lambda>e. is_var e \<and> counter h < eid e \<and> eid e \<le> counter h') es)"

lemma fresh_leaves_append:
  "fresh_leaves h h1 es \<Longrightarrow> fresh_leaves h1 h2 es' \<Longrightarrow> fresh_leaves h h2 (es @ es')"
  by (fastforce simp: fresh_leaves_def only_alloc_def list_all_iff)

lemma fresh_leaves_Nil [simp]: "fresh_leaves h h []"
  by (simp add: fresh_leaves_def)

lemma mapM_fresh:
  assumes "\<And>i h. \<exists>c h'. f i h = Inr (c, h') \<and> P c \<and> fresh_leaves h h' (vc_leaves c)"
  shows "\<exists>cs h'. mapM f ks h = Inr (cs, h') \<and> length cs = length ks \<and> list_all P cs \<and>
     fresh_leaves h h' (concat (map vc_leaves cs))"
proof (induction ks arbitrary: h)
  case Nil
  then show ?case by (simp add: monad_simps)
next
  case (Cons i ks)
  obtain c h1 where c: "f i h = Inr (c, h1)" "P c" "fresh_leaves h h1 (vc_leaves c)" using assms by blast
  obtain cs h2 where "mapM f ks h1 = Inr (cs, h2)" "length cs = length ks" "list_all P cs"
    "fresh_leaves h1 h2 (concat (map vc_leaves cs))" using Cons by blast
  with c show ?case by (auto simp: monad_simps intro: fresh_leaves_append)
qed

lemma new_var_fresh:
  "\<exists>e h'. NewBoolVar nm h = Inr (e, h') \<and> esort e = SortBool \<and> fresh_leaves h h' [e]"
  "\<exists>e h'. NewBvVar nm w h = Inr (e, h') \<and> esort e = SortBv w \<and> fresh_leaves h h' [e]"
  "\<exists>e h'. NewMemVar nm a d h = Inr (e, h') \<and> esort e = SortMem a d \<and> fresh_leaves h h' [e]"
  by (auto simp: NewBoolVar_def NewBvVar_def NewMemVar_def ExprVar_bool_def ExprVar_bv_def
      ExprVar_mem_def ctor_sort_defs fresh_leaves_def only_alloc_def)

lemma Make_spec:
  "sort_ok t \<Longrightarrow> \<exists>c h'. VarContainer_Make name t h = Inr (c, h') \<and>
     (vc_ok c \<and> vc_sort c = t) \<and> fresh_leaves h h' (vc_leaves c)"
  "list_all (\<lambda>p. sort_ok (snd p)) ms \<Longrightarrow> \<exists>cs h'. Make_members prefix ms h = Inr (cs, h') \<and>
     map (\<lambda>(nm, x). (nm, vc_sort x)) cs = ms \<and> list_all (\<lambda>p. vc_ok (snd p)) cs \<and>
     fresh_leaves h h' (concat (map (\<lambda>p. vc_leaves (snd p)) cs))"
proof (induction name t and prefix ms arbitrary: h and h rule: VarContainer_Make_Make_members.induct)
  case (4 name da n)
  have "\<exists>c h'. VarContainer_Make (name @ ''_'' @ to_string i @ ''_'') da h = Inr (c, h') \<and>
      (vc_ok c \<and> vc_sort c = da) \<and> fresh_leaves h h' (vc_leaves c)" for i h
    using 4 by simp
  from mapM_fresh [where f = "\<lambda>i. VarContainer_Make (name @ ''_'' @ to_string i @ ''_'') da"
      and P = "\<lambda>c. vc_ok c \<and> vc_sort c = da" and ks = "[0 ..< nat n]" and h = h, OF this] 4(2)
  show ?case by (auto simp: monad_simps list_all_iff)
next
  case (5 name ms)
  then obtain cs h' where "Make_members (name @ ''_'') ms h = Inr (cs, h')"
    "map (\<lambda>(nm, x). (nm, vc_sort x)) cs = ms" "list_all (\<lambda>p. vc_ok (snd p)) cs"
    "fresh_leaves h h' (concat (map (\<lambda>p. vc_leaves (snd p)) cs))" by fastforce
  moreover from this(2) have "map fst cs = map fst ms" by (auto simp: comp_def case_prod_beta)
  ultimately show ?case using 5(2) by (simp add: monad_simps)
next
  case (7 prefix nm t ms)
  obtain c h1 where c: "VarContainer_Make (prefix @ nm @ ''_'') t h = Inr (c, h1)" "vc_ok c" "vc_sort c = t"
    "fresh_leaves h h1 (vc_leaves c)" using 7 by fastforce
  obtain cs h2 where "Make_members prefix ms h1 = Inr (cs, h2)" "map (\<lambda>(nm, x). (nm, vc_sort x)) cs = ms"
    "list_all (\<lambda>p. vc_ok (snd p)) cs" "fresh_leaves h1 h2 (concat (map (\<lambda>p. vc_leaves (snd p)) cs))"
    using 7 by fastforce
  with c show ?case by (auto simp: monad_simps intro: fresh_leaves_append)
next
  case (1 name)
  then show ?case using new_var_fresh(1) [of name h] by (auto simp: monad_simps)
next
  case (2 name w)
  then show ?case using new_var_fresh(2) [of name w h] by (auto simp: monad_simps)
next
  case (3 name a d)
  then show ?case using new_var_fresh(3) [of name a d h] by (auto simp: monad_simps)
next
  case (6 prefix)
  then show ?case by (simp add: monad_simps)
qed


section \<open>Conversion from lists\<close>

lemma rmap_all: "(\<And>x. x \<in> set xs \<Longrightarrow> f x = Inr (g x)) \<Longrightarrow> rmap f xs = Inr (map g xs)"
  by (induction xs) auto

lemma from_vector_same:
  assumes "n = int (length obj)" "\<And>x. x \<in> set obj \<Longrightarrow> conv da x = Inr (f x)"
  shows "from_cpp_vector conv (SortVector da n) obj = Inr (VarVector (SortVector da n) (map f obj))"
  using rmap_all [of obj "conv da" f] assms by (simp add: from_cpp_vector_def)

lemma from_struct_gen:
  assumes d: "distinct (map fst dms)"
    and conv: "\<And>nm y. (nm, y) \<in> set dms \<Longrightarrow> conv (srt nm y) (g nm y) = Inr (f nm y)"
  shows "from_cpp_struct conv (SortStruct (map (\<lambda>(nm, y). (nm, srt nm y)) dms)) (map (\<lambda>(nm, y). (nm, g nm y)) dms) =
    Inr (VarStruct (SortStruct (map (\<lambda>(nm, y). (nm, srt nm y)) dms)) (map (\<lambda>(nm, y). (nm, f nm y)) dms))"
    (is "from_cpp_struct conv (SortStruct ?sms) ?obj = Inr (VarStruct _ ?ms)")
proof -
  have lookup: "map_of (map (\<lambda>(nm, y). (nm, F nm y)) dms) nm = Some (F nm y)" if "(nm, y) \<in> set dms" for nm y F
  proof -
    have "(nm, F nm y) \<in> set (map (\<lambda>(nm, y). (nm, F nm y)) dms)" using that by force
    moreover have "distinct (map fst (map (\<lambda>(nm, y). (nm, F nm y)) dms))"
      using d by (simp add: comp_def case_prod_beta)
    ultimately show ?thesis by simp
  qed
  have 1: "rmap (\<lambda>(nm, x). rbind (get_member_sort (SortStruct ?sms) nm) (\<lambda>t.
       rbind (conv t x) (\<lambda>c. Inr (nm, c)))) ?obj = Inr ?ms"
    unfolding rmap_Inr_list_all2 list.rel_map
    by (auto simp: list_all2_same find_member_conv lookup conv)
  have 2: "rmap (\<lambda>(nm, t). case map_of ?ms nm of
       None \<Rightarrow> Inl (IlaAssert ''missing member'') | Some x \<Rightarrow> Inr (nm, x)) ?sms = Inr ?ms"
    unfolding rmap_Inr_list_all2 list.rel_map by (auto simp: list_all2_same lookup)
  show ?thesis using 1 2 by (simp add: from_cpp_struct_def)
qed

lemma from_struct_containers:
  assumes "distinct (map fst ms)"
  shows "from_cpp_struct from_cpp_container (SortStruct (map (\<lambda>(nm, x). (nm, vc_sort x)) ms)) ms =
    Inr (VarStruct (SortStruct (map (\<lambda>(nm, x). (nm, vc_sort x)) ms)) ms)"
  using from_struct_gen [where g = "\<lambda>nm x. x" and f = "\<lambda>nm x. x" and srt = "\<lambda>nm. vc_sort"
      and conv = from_cpp_container, OF assms]
  by (simp add: from_cpp_container_def)

lemma from_container_same: "vc_sort x = s \<Longrightarrow> from_cpp_container s x = Inr x"
  by (simp add: from_cpp_container_def)

lemma from_vector_containers:
  "n = int (length xs) \<Longrightarrow> \<forall>x \<in> set xs. vc_sort x = da \<Longrightarrow>
   from_cpp_vector from_cpp_container (SortVector da n) xs = Inr (VarVector (SortVector da n) xs)"
  using from_vector_same [where f = "\<lambda>x. x" and conv = from_cpp_container and obj = xs and da = da and n = n]
  by (simp add: from_container_same)

section \<open>Zip and unzip\<close>

text \<open>A vector of structs as rows of columns.\<close>

lemma row_member:
  "distinct (map fst ms) \<Longrightarrow> (nm, x) \<in> set ms \<Longrightarrow> filter (\<lambda>(n, m). n = nm) ms = [(nm, x)]"
proof (induction ms)
  case (Cons p ms)
  obtain n y where p: "p = (n, y)" by (cases p)
  show ?case
  proof (cases "n = nm")
    case True
    then have "filter (\<lambda>(n, m). n = nm) ms = []" using Cons.prems(1) p by (force simp: filter_empty_conv)
    moreover have "y = x" using True Cons.prems p by force
    ultimately show ?thesis using True p by simp
  qed (use Cons p in auto)
qed simp

definition struct_row :: "(string \<times> sort) list \<Rightarrow> VarContainer \<Rightarrow> (string \<times> VarContainer) list \<Rightarrow> bool" where
  "struct_row dms x ms = (x = VarStruct (SortStruct dms) ms \<and> dms = map (\<lambda>(nm, y). (nm, vc_sort y)) ms)"

lemma rows_exist:
  assumes "list_all (\<lambda>x. vc_sort x = SortStruct dms) xs" and "list_all vc_ok xs"
  shows "\<exists>rows. list_all2 (struct_row dms) xs rows"
  using assms
proof (induction xs)
  case Nil
  show ?case by (rule exI [of _ "[]"]) simp
next
  case (Cons x xs)
  then obtain rows where r: "list_all2 (struct_row dms) xs rows" by auto
  have "\<exists>ms. struct_row dms x ms" using Cons.prems by (cases x) (auto simp: struct_row_def)
  with r show ?case by (meson list_all2_Cons)
qed

text \<open>The struct of columns that corresponds to the rows.\<close>

definition unzipped :: "(string \<times> sort) list \<Rightarrow> (string \<times> VarContainer) list list \<Rightarrow> VarContainer" where
  "unzipped dms rows =
     (let n = int (length rows) in
      VarStruct (SortStruct (map (\<lambda>(nm, t). (nm, SortVector t n)) dms))
        (map (\<lambda>(nm, t). (nm, VarVector (SortVector t n) (map (\<lambda>ms. the (map_of ms nm)) rows))) dms))"

lemma struct_row_keys: "struct_row dms x ms \<Longrightarrow> map fst ms = map fst dms"
  by (auto simp: struct_row_def comp_def case_prod_beta)

lemma struct_row_lookup:
  assumes "struct_row dms x ms" "distinct (map fst dms)" "(nm, t) \<in> set dms"
  shows "(nm, the (map_of ms nm)) \<in> set ms \<and> vc_sort (the (map_of ms nm)) = t"
proof -
  obtain y where y: "(nm, y) \<in> set ms" "vc_sort y = t"
    using assms(1,3) by (auto simp: struct_row_def)
  then have "map_of ms nm = Some y" using assms(2) struct_row_keys [OF assms(1)] by simp
  with y show ?thesis by simp
qed

lemma column_of_rows:
  assumes "list_all2 (struct_row dms) xs rows" "distinct (map fst dms)" "(nm, t) \<in> set dms"
  shows "map snd (filter (\<lambda>(n, m). n = nm) (concat rows)) = map (\<lambda>ms. the (map_of ms nm)) rows"
  using assms(1)
proof (induction rule: list_all2_induct)
  case (Cons x xs ms rows)
  have "filter (\<lambda>(n, m). n = nm) ms = [(nm, the (map_of ms nm))]"
    using struct_row_lookup [OF Cons(1) assms(2,3)] struct_row_keys [OF Cons(1)] assms(2)
    by (intro row_member) simp_all
  with Cons show ?case by simp
qed simp

lemma unzip_eq:
  assumes rows: "list_all2 (struct_row dms) xs rows" and d: "distinct (map fst dms)" "dms \<noteq> []"
  shows "vc_unzip (VarVector (SortVector (SortStruct dms) n) xs) = Inr (unzipped dms rows)"
proof -
  let ?n = "int (length rows)"
  have len: "length xs = length rows" using rows by (rule list_all2_lengthD)
  have ms: "rmap vc_members xs = Inr rows"
    using rows unfolding rmap_Inr_list_all2 by (rule list_all2_mono) (simp add: struct_row_def)
  have names: "remdups (map fst dms) @ filter (\<lambda>nm. nm \<notin> set (map fst dms)) (remdups (map fst (concat rows))) = map fst dms"
  proof -
    have "set (map fst (concat rows)) \<subseteq> set (map fst dms)"
      using rows
    proof (induction rule: list_all2_induct)
      case (Cons x xs ms rows)
      have "set (map fst ms) = set (map fst dms)" using struct_row_keys [OF Cons(1)] by simp
      with Cons show ?case by simp
    qed simp
    then have "filter (\<lambda>nm. nm \<notin> set (map fst dms)) (remdups (map fst (concat rows))) = []"
      by (auto simp: filter_empty_conv)
    then show ?thesis using d(1) by (simp add: distinct_remdups_id)
  qed
  let ?obj = "map (\<lambda>(nm, t). (nm, map (\<lambda>ms. the (map_of ms nm)) rows)) dms"
  have obj: "map (\<lambda>nm. (nm, map snd (filter (\<lambda>(n, m). n = nm) (concat rows)))) (map fst dms) = ?obj"
    using column_of_rows [OF rows d(1)] by (auto simp del: filter_concat)
  have struct: "from_cpp_struct (from_cpp_vector from_cpp_container)
      (SortStruct (map (\<lambda>(nm, t). (nm, SortVector t ?n)) dms)) ?obj = Inr (unzipped dms rows)"
  proof -
    have "from_cpp_vector from_cpp_container (SortVector t ?n) (map (\<lambda>ms. the (map_of ms nm)) rows) =
        Inr (VarVector (SortVector t ?n) (map (\<lambda>ms. the (map_of ms nm)) rows))"
      if nm: "(nm, t) \<in> set dms" for nm t
    proof -
      have "\<forall>ms \<in> set rows. vc_sort (the (map_of ms nm)) = t"
        using rows by (induction rule: list_all2_induct) (use struct_row_lookup [OF _ d(1) nm] in auto)
      then show ?thesis by (intro from_vector_containers) auto
    qed
    from from_struct_gen [where g = "\<lambda>nm t. map (\<lambda>ms. the (map_of ms nm)) rows"
        and srt = "\<lambda>nm t. SortVector t ?n" and conv = "from_cpp_vector from_cpp_container", OF d(1) this]
    show ?thesis by (simp add: unzipped_def Let_def)
  qed
  have srt: "rmap (\<lambda>(nm, t). rbind (MakeVectorSort t (int (length xs))) (\<lambda>vs. Inr (nm, vs))) dms =
      Inr (map (\<lambda>(nm, t). (nm, SortVector t ?n)) dms)"
    by (rule rmap_all) (auto simp: MakeVectorSort_def len)
  show ?thesis
    using d(2) struct
    by (simp only: vc_unzip_def VarContainer.case data_atom.simps rbind_simps is_struct.simps
        rassert_def sort_members.simps srt ms Let_def names obj MakeStructSort_def if_True simp_thms)
qed

lemma zip_sorts_all:
  "0 \<le> n \<Longrightarrow> sz = -1 \<or> sz = n \<Longrightarrow>
   zip_sorts sz (map (\<lambda>(nm, t). (nm, SortVector t n)) dms) = Inr (if dms = [] then sz else n, dms)"
  by (induction dms arbitrary: sz) auto

lemma row_rebuild:
  assumes "struct_row dms x ms" "distinct (map fst dms)"
  shows "map (\<lambda>(nm, t). (nm, the (map_of ms nm))) dms = ms"
proof -
  have "map (\<lambda>(nm, t). (nm, the (map_of ms nm))) (map (\<lambda>(nm, y). (nm, vc_sort y)) ms) = ms"
  proof -
    have "distinct (map fst ms)" using assms struct_row_keys by metis
    then show ?thesis by (subst map_map, intro map_idI) (auto simp: comp_def)
  qed
  then show ?thesis using assms(1) by (simp add: struct_row_def)
qed

lemma zip_eq:
  assumes rows: "list_all2 (struct_row dms) xs rows" and d: "distinct (map fst dms)" "dms \<noteq> []"
  shows "vc_zip (unzipped dms rows) = Inr (VarVector (SortVector (SortStruct dms) (int (length xs))) xs)"
proof -
  let ?n = "int (length rows)"
  have len: "length xs = length rows" using rows by (rule list_all2_lengthD)
  have xs: "map (VarStruct (SortStruct dms)) rows = xs"
    using rows by (induction rule: list_all2_induct) (simp_all add: struct_row_def)
  let ?cols = "map (\<lambda>(nm, t). (nm, VarVector (SortVector t ?n) (map (\<lambda>ms. the (map_of ms nm)) rows))) dms"
  have row: "rmap (\<lambda>(nm, x). rbind (vc_nth x i) (\<lambda>y. Inr (nm, y))) ?cols = Inr (rows ! i)" if i: "i < length rows" for i
  proof -
    have "struct_row dms (xs ! i) (rows ! i)" using rows i len by (simp add: list_all2_conv_all_nth)
    from row_rebuild [OF this d(1)]
    have "rows ! i = map (\<lambda>(nm, t). (nm, the (map_of (rows ! i) nm))) dms" by simp
    moreover have "rmap (\<lambda>(nm, x). rbind (vc_nth x i) (\<lambda>y. Inr (nm, y))) ?cols =
        Inr (map (\<lambda>(nm, t). (nm, the (map_of (rows ! i) nm))) dms)"
      unfolding rmap_Inr_list_all2 list.rel_map by (auto simp: list_all2_same i)
    ultimately show ?thesis by simp
  qed
  have rws: "rmap (\<lambda>i. rmap (\<lambda>(nm, x). rbind (vc_nth x i) (\<lambda>y. Inr (nm, y))) ?cols) [0 ..< length rows] = Inr rows"
    using rmap_all [of "[0 ..< length rows]" _ "(!) rows"] row by (simp add: map_nth)
  have "from_cpp_struct from_cpp_container (SortStruct dms) ms = Inr (VarStruct (SortStruct dms) ms)"
    if mem: "ms \<in> set rows" for ms
  proof -
    obtain i where "i < length rows" "ms = rows ! i" using mem unfolding in_set_conv_nth by blast
    then obtain x where "struct_row dms x ms" using rows len by (auto simp: list_all2_conv_all_nth)
    then have eq: "dms = map (\<lambda>(nm, y). (nm, vc_sort y)) ms" and "map fst ms = map fst dms"
      using struct_row_keys by (auto simp: struct_row_def)
    then have "distinct (map fst ms)" using d(1) by metis
    then show ?thesis unfolding eq by (rule from_struct_containers)
  qed
  then have vec: "from_cpp_vector (from_cpp_struct from_cpp_container) (SortVector (SortStruct dms) ?n) rows =
      Inr (VarVector (SortVector (SortStruct dms) ?n) xs)"
    using from_vector_same [of ?n rows "from_cpp_struct from_cpp_container" "SortStruct dms"
        "VarStruct (SortStruct dms)"] xs by simp
  show ?thesis
    using d(2) vec zip_sorts_all [of ?n "-1" dms] rws
    by (simp add: vc_zip_def unzipped_def Let_def MakeVectorSort_def MakeStructSort_def len)
qed


section \<open>Projection and join\<close>

lemma umap_distinct: "distinct (map fst ms) \<Longrightarrow> umap ms = ms"
proof (induction ms rule: umap.induct)
  case (2 k v ms)
  then have "filter (\<lambda>p. fst p \<noteq> k) ms = ms" by (intro filter_True) force
  with 2 show ?case by simp
qed simp

definition mk_struct :: "(string \<times> VarContainer) list \<Rightarrow> VarContainer" where
  "mk_struct ms = VarStruct (SortStruct (map (\<lambda>(nm, x). (nm, vc_sort x)) ms)) ms"

lemma vc_ok_struct: "vc_ok (VarStruct s ms) \<longleftrightarrow>
    VarStruct s ms = mk_struct ms \<and> distinct (map fst ms) \<and> list_all (\<lambda>p. vc_ok (snd p)) ms"
  by (simp add: mk_struct_def)

lemma project_struct:
  assumes "distinct (map fst ms)" "distinct ns" "set ns \<subseteq> fst ` set ms"
  shows "vc_project (mk_struct ms) ns = Inr (mk_struct (map (\<lambda>nm. (nm, the (map_of ms nm))) ns))"
proof -
  let ?p = "map (\<lambda>nm. (nm, the (map_of ms nm))) ns"
  have "map_of ms nm \<noteq> None" if "nm \<in> set ns" for nm using that assms(3) by (auto simp: map_of_eq_None_iff)
  then have "rmap (\<lambda>nm. case map_of ms nm of
      None \<Rightarrow> Inl (IlaAssert ''member not found'') | Some x \<Rightarrow> Inr (nm, x)) ns = Inr ?p"
    by (intro rmap_all) (auto split: option.splits)
  moreover have "distinct (map fst ?p)" using assms(2) by (simp add: comp_def)
  ultimately show ?thesis
    using from_struct_containers [of ?p] by (simp add: vc_project_def mk_struct_def MakeStructSort_def)
qed

lemma project_without_struct:
  assumes "distinct (map fst ms)"
  shows "vc_project_without (mk_struct ms) ns = Inr (mk_struct (filter (\<lambda>p. fst p \<notin> set ns) ms))"
proof -
  let ?ms = "filter (\<lambda>p. fst p \<notin> set ns) ms"
  have f: "filter (\<lambda>(nm, x). nm \<notin> set ns) (umap ms) = ?ms"
    using assms by (simp add: umap_distinct case_prod_beta')
  have "filter (\<lambda>(nm, t). nm \<in> set (map fst ?ms)) (map (\<lambda>(nm, x). (nm, vc_sort x)) ms) =
      map (\<lambda>(nm, x). (nm, vc_sort x)) ?ms"
    by (auto simp: filter_map comp_def case_prod_beta intro!: filter_cong arg_cong [where f = "map _"])
  moreover have "distinct (map fst ?ms)" using assms by (rule distinct_map_filter)
  ultimately show ?thesis
    using from_struct_containers [of ?ms]
    by (simp add: vc_project_without_def mk_struct_def f Let_def MakeStructSort_def del: set_map)
qed

lemma join_struct:
  assumes "distinct (map fst (ms @ ms'))"
  shows "vc_join_with (mk_struct ms) (mk_struct ms') = Inr (mk_struct (ms @ ms'))"
  using from_struct_containers [OF assms]
  by (simp add: vc_join_with_def mk_struct_def umap_distinct [OF assms] MakeStructSort_def)

section \<open>Properties\<close>

text \<open>C33: \<^verbatim>\<open>VarContainer::Make\<close> always returns for a sort with distinct member names and
  non-negative vector sizes: the container is well formed, has exactly the requested sort,
  its variables are fresh and pairwise different, and nothing else of the heap changes.\<close>

theorem Make_well_formed:
  assumes "sort_ok t"
  shows "\<exists>c h'. VarContainer_Make name t h = Inr (c, h') \<and> vc_ok c \<and> vc_sort c = t \<and>
     fresh_leaves h h' (vc_leaves c)"
  using Make_spec(1) [OF assms, of name h] by blast

text \<open>C34: Unzipping a well-formed vector of structs and zipping the result gives the vector back;
  neither operation fails. The structs must have at least one member.\<close>

theorem unzip_zip:
  assumes "vc_ok (VarVector (SortVector (SortStruct dms) n) xs)" "dms \<noteq> []" "distinct (map fst dms)"
  shows "\<exists>s. vc_unzip (VarVector (SortVector (SortStruct dms) n) xs) = Inr s \<and>
     vc_zip s = Inr (VarVector (SortVector (SortStruct dms) n) xs)"
proof -
  have "n = int (length xs)" "list_all (\<lambda>x. vc_sort x = SortStruct dms) xs" "list_all vc_ok xs"
    using assms(1) by simp_all
  moreover from rows_exist [OF this(2,3)] obtain rows where "list_all2 (struct_row dms) xs rows" by blast
  ultimately show ?thesis using unzip_eq [OF _ assms(3,2)] zip_eq [OF _ assms(3,2)] by blast
qed

text \<open>The order-preserving partition of a well-formed vector succeeds exactly when the
  partition function stays below the number of parts; part \<open>p\<close> then is the well-formed
  vector of the elements whose index is mapped to \<open>p\<close>, in their original order.\<close>

theorem partition_spec:
  assumes "vc_ok (VarVector (SortVector da n) xs)"
  shows "order_preserving_partition (VarVector (SortVector da n) xs) n_parts f =
    (if \<forall>i < length xs. f i < n_parts
     then Inr (map (\<lambda>p. let part = map ((!) xs) (filter (\<lambda>i. f i = p) [0 ..< length xs])
                      in VarVector (SortVector da (int (length part))) part) [0 ..< n_parts])
     else Inl (IlaAssert ''partition function out of bounds''))"
proof (cases "\<forall>i < length xs. f i < n_parts")
  case True
  have idx: "rmap (\<lambda>i. rassert (f i < n_parts) (IlaAssert ''partition function out of bounds'') (Inr (f i)))
      [0 ..< length xs] = Inr (map f [0 ..< length xs])"
    by (rule rmap_all) (use True in simp)
  let ?part = "\<lambda>p. map ((!) xs) (filter (\<lambda>i. f i = p) [0 ..< length xs])"
  have zip: "zip xs (map f [0 ..< length xs]) = map (\<lambda>i. (xs ! i, f i)) [0 ..< length xs]"
    by (rule nth_equalityI) simp_all
  have part: "map fst (filter (\<lambda>(x, q). q = p) (zip xs (map f [0 ..< length xs]))) = ?part p" for p
    unfolding zip by (simp add: filter_map comp_def)
  have srt: "\<forall>x \<in> set (?part p). vc_sort x = da" for p
    using assms by (auto simp: list_all_iff)
  have "rmap (\<lambda>p. rbind (MakeVectorSort da (int (length (?part p)))) (\<lambda>t.
       from_cpp_vector from_cpp_container t (?part p))) [0 ..< n_parts] =
     Inr (map (\<lambda>p. VarVector (SortVector da (int (length (?part p)))) (?part p)) [0 ..< n_parts])"
    by (rule rmap_all) (simp only: MakeVectorSort_def rassert_def of_nat_0_le_iff if_True rbind_simps
        from_vector_containers [OF refl srt])
  then show ?thesis
    by (simp only: order_preserving_partition.simps idx rbind_simps Let_def part
        data_atom.simps if_P [OF True])
next
  case False
  have "rmap (\<lambda>i. rassert (f i < n_parts) e (Inr (f i))) ks = Inl e"
    if "\<exists>i \<in> set ks. \<not> f i < n_parts" for e ks
    using that by (induction ks) (auto simp: rassert_def)
  then have "rmap (\<lambda>i. rassert (f i < n_parts) (IlaAssert ''partition function out of bounds'') (Inr (f i)))
      [0 ..< length xs] = Inl (IlaAssert ''partition function out of bounds'')"
    using False by force
  with False show ?thesis by auto
qed


text \<open>For a well-formed struct, projecting to some members, projecting to the other members
  and joining the two never fails; the joined struct is well formed and every member is
  found in it exactly as in the original.\<close>

theorem project_join:
  assumes "vc_ok (VarStruct s ms)" "distinct ns" "set ns \<subseteq> fst ` set ms"
  shows "\<exists>p q j. vc_project (VarStruct s ms) ns = Inr p \<and> vc_project_without (VarStruct s ms) ns = Inr q \<and>
     vc_join_with p q = Inr j \<and> vc_ok j \<and> (\<forall>nm. vc_member j nm = vc_member (VarStruct s ms) nm)"
proof -
  let ?p = "map (\<lambda>nm. (nm, the (map_of ms nm))) ns" and ?q = "filter (\<lambda>p. fst p \<notin> set ns) ms"
  have ms: "VarStruct s ms = mk_struct ms" "distinct (map fst ms)" "list_all (\<lambda>p. vc_ok (snd p)) ms"
    using assms(1) unfolding vc_ok_struct by simp_all
  have d: "distinct (map fst (?p @ ?q))"
    using assms(2) ms(2) by (auto simp: comp_def distinct_map_filter)
  have ex: "(nm, the (map_of ms nm)) \<in> set ms" if "nm \<in> set ns" for nm
    using that assms(3) by (metis (no_types, lifting) map_of_SomeD map_of_eq_None_iff option.collapse subsetD)
  have "vc_ok (mk_struct (?p @ ?q))"
    using d ms(3) ex by (force simp: mk_struct_def list_all_iff simp del: map_append)
  moreover have "map_of (?p @ ?q) nm = map_of ms nm" for nm
  proof (cases "nm \<in> set ns")
    case True
    with d ex ms(2) show ?thesis by (metis (no_types, lifting) UnI1 image_eqI list.set_map map_of_is_SomeI set_append)
  next
    case False
    then have "map_of ?p nm = None" by (auto simp: map_of_eq_None_iff)
    moreover have "map_of ?q nm = map_of ms nm" using False by (induction ms) auto
    ultimately show ?thesis by (simp add: map_add_def split: option.splits)
  qed
  ultimately show ?thesis
    using project_struct [OF ms(2) assms(2,3)] project_without_struct [OF ms(2), of ns] join_struct [OF d] ms(1)
    by (auto simp: mk_struct_def)
qed

section \<open>Instances\<close>

definition pair_sort :: sort where
  "pair_sort = SortStruct [(''a'', SortBool), (''b'', SortBv 8)]"

definition pair_of :: "nat \<Rightarrow> VarContainer" where
  "pair_of i = VarStruct pair_sort
     [(''a'', VarPrimitive (Expr i ''x_a'' SortBool None [] [] KVar)),
      (''b'', VarPrimitive (Expr (i + 1) ''x_b'' (SortBv 8) None [] [] KVar))]"

lemma pair_ok: "vc_ok (pair_of i)" "vc_ok (VarVector (SortVector pair_sort 2) [pair_of 1, pair_of 3])"
  by (simp_all add: pair_of_def pair_sort_def)

theorem Make_well_formed_witness:
  "\<exists>c h'. VarContainer_Make ''x'' (SortVector pair_sort 2) empty_heap = Inr (c, h') \<and> vc_ok c \<and>
     vc_sort c = SortVector pair_sort 2 \<and> fresh_leaves empty_heap h' (vc_leaves c)"
proof -
  have "sort_ok (SortVector pair_sort 2)" by (simp add: pair_sort_def)
  from Make_well_formed [OF this] show ?thesis .
qed

theorem unzip_zip_witness:
  "\<exists>s. vc_unzip (VarVector (SortVector pair_sort 2) [pair_of 1, pair_of 3]) = Inr s \<and>
     vc_zip s = Inr (VarVector (SortVector pair_sort 2) [pair_of 1, pair_of 3])"
  using unzip_zip [OF pair_ok(2) [unfolded pair_sort_def]] by (simp add: pair_sort_def)

theorem partition_spec_witness:
  "order_preserving_partition (VarVector (SortVector pair_sort 2) [pair_of 1, pair_of 3]) 2 (\<lambda>i. 1 - i) =
     Inr [VarVector (SortVector pair_sort 1) [pair_of 3], VarVector (SortVector pair_sort 1) [pair_of 1]]"
  unfolding partition_spec [OF pair_ok(2)] by (simp add: upt_rec less_Suc_eq)

theorem project_join_witness:
  "\<exists>p q j. vc_project (pair_of 1) [''b''] = Inr p \<and> vc_project_without (pair_of 1) [''b''] = Inr q \<and>
     vc_join_with p q = Inr j \<and> vc_ok j \<and> (\<forall>nm. vc_member j nm = vc_member (pair_of 1) nm)"
  using project_join [OF pair_ok(1) [of 1, unfolded pair_of_def], of "[''b'']"] by (simp add: pair_of_def)

end
