(* ===== verification/Ilas.thy ===== *)
theory Ilas
  imports VarContainers
begin

text \<open>
  Instructions (src/ila/instr.cc), instruction-level abstractions
  (src/ila/instr\_lvl\_abs.cc) and instruction sequencing (src/ila/transition.cc).

  An operation takes the identifier of the object it is called on. A pointer argument that
  the code checks for null is an option. \<^verbatim>\<open>Unify\<close> is the identity because
  \<^verbatim>\<open>kUnifyAst\<close> is false. A recursion along the pointers of the tree of ILAs takes fuel;
  parents are older than children, so the fuel the operations pass is never used up on a
  reachable heap.
\<close>

section \<open>Instructions\<close>

definition Instr_New :: "string \<Rightarrow> nat option \<Rightarrow> nat M" where
  "Instr_New name host =
     bnd new_id (\<lambda>i.
     bnd (put_instr i \<lparr>instr_name = name, instr_host = host, instr_decode = None, instr_updates = [],
                       instr_prog = None\<rparr>) (\<lambda>_. ret i))"

definition Unify :: "expr \<Rightarrow> expr" where
  "Unify e = e"

definition ForceSetDecode :: "nat \<Rightarrow> expr option \<Rightarrow> unit M" where
  "ForceSetDecode i decode =
     bnd (not_null decode) (\<lambda>d.
     bnd (ila_check (e_is_bool d) ''Decode must have Boolean sort.'') (\<lambda>_.
     bnd (get_instr i) (\<lambda>x. put_instr i (x\<lparr>instr_decode := Some (Unify d)\<rparr>))))"

definition set_decode :: "nat \<Rightarrow> expr option \<Rightarrow> unit M" where
  "set_decode i decode =
     bnd (get_instr i) (\<lambda>x. if instr_decode x = None then ForceSetDecode i decode else ret ())"

definition ForceAddUpdate :: "nat \<Rightarrow> string \<Rightarrow> expr \<Rightarrow> unit M" where
  "ForceAddUpdate i name update =
     bnd (get_instr i) (\<lambda>x. put_instr i (x\<lparr>instr_updates := amap_assign name (Unify update) (instr_updates x)\<rparr>))"

definition set_update :: "nat \<Rightarrow> string \<Rightarrow> expr \<Rightarrow> unit M" where
  "set_update i name update =
     bnd (get_instr i) (\<lambda>x.
       if map_of (instr_updates x) name = None then ForceAddUpdate i name update else ret ())"

definition set_update_var :: "nat \<Rightarrow> expr \<Rightarrow> expr \<Rightarrow> unit M" where
  "set_update_var i state update = set_update i (ename state) update"

definition set_program :: "nat \<Rightarrow> nat option \<Rightarrow> unit M" where
  "set_program i program =
     bnd (get_instr i) (\<lambda>x.
     bnd (ila_assert (instr_prog x = None) ''Child-program has been defined'') (\<lambda>_.
     bnd (ila_assert (program \<noteq> None) ''NULL program.'') (\<lambda>_.
     put_instr i (x\<lparr>instr_prog := program\<rparr>))))"

definition update :: "Instr \<Rightarrow> string \<Rightarrow> expr option" where
  "update x name = map_of (instr_updates x) name"

definition update_var :: "Instr \<Rightarrow> expr \<Rightarrow> expr option" where
  "update_var x state = update x (ename state)"

definition updated_states :: "Instr \<Rightarrow> string list" where
  "updated_states x = map fst (instr_updates x)"

definition Instr_Print :: "Instr \<Rightarrow> string" where
  "Instr_Print x = ''Instr.'' @ instr_name x"

section \<open>Instruction sequencing\<close>

definition InstrTranEdge_new :: "nat \<Rightarrow> nat \<Rightarrow> expr \<Rightarrow> InstrTranEdge" where
  "InstrTranEdge_new src dst cnd = \<lparr>edge_src = src, edge_dst = dst, edge_cnd = cnd\<rparr>"

definition InstrTranNode_new :: "nat \<Rightarrow> InstrTranNode" where
  "InstrTranNode_new instr = \<lparr>node_instr = instr, node_next = [], node_prev = []\<rparr>"

definition nodes_next :: "InstrTranNode \<Rightarrow> nat \<Rightarrow> nat result" where
  "nodes_next n i = (if i < length (node_next n) then Inr (node_next n ! i)
     else Inl (IlaAssert ''Access overflow for out-going nodes.''))"

definition nodes_prev :: "InstrTranNode \<Rightarrow> nat \<Rightarrow> nat result" where
  "nodes_prev n i = (if i < length (node_prev n) then Inr (node_prev n ! i)
     else Inl (IlaAssert ''Access overflow for in-comming nodes.''))"

definition AddNext :: "nat \<Rightarrow> InstrTranNode \<Rightarrow> InstrTranNode" where
  "AddNext nx n = n\<lparr>node_next := node_next n @ [nx]\<rparr>"

definition AddPrev :: "nat \<Rightarrow> InstrTranNode \<Rightarrow> InstrTranNode" where
  "AddPrev pv n = n\<lparr>node_prev := node_prev n @ [pv]\<rparr>"

definition InstrSeq_New :: InstrSeq where
  "InstrSeq_New = \<lparr>seq_root = None, seq_edges = [], seq_nodes = []\<rparr>"

definition seq_clear :: "InstrSeq \<Rightarrow> InstrSeq" where
  "seq_clear s = s\<lparr>seq_edges := [], seq_nodes := []\<rparr>"

definition set_root :: "nat \<Rightarrow> InstrSeq \<Rightarrow> InstrSeq" where
  "set_root i s = s\<lparr>seq_root := Some i\<rparr>"

definition node_update :: "nat \<Rightarrow> (InstrTranNode \<Rightarrow> InstrTranNode) \<Rightarrow> (nat, InstrTranNode) amap \<Rightarrow> (nat, InstrTranNode) amap" where
  "node_update i f ns = (case map_of ns i of None \<Rightarrow> ns | Some n \<Rightarrow> amap_assign i (f n) ns)"

text \<open>Nodes are shared by pointers; here a node is updated in the map, so the same instruction
  as source and destination gets both updates on its one node.\<close>

definition AddTran :: "nat \<Rightarrow> nat \<Rightarrow> expr \<Rightarrow> InstrSeq \<Rightarrow> InstrSeq" where
  "AddTran src dst cnd s =
     (let s = s\<lparr>seq_edges := seq_edges s @ [InstrTranEdge_new src dst cnd]\<rparr>;
          ns = amap_emplace src (InstrTranNode_new src) (seq_nodes s);
          ns = amap_emplace dst (InstrTranNode_new dst) ns;
          ns = node_update src (AddNext dst) ns;
          ns = node_update dst (AddPrev src) ns
      in s\<lparr>seq_nodes := ns\<rparr>)"

section \<open>Instruction-level abstractions\<close>

definition ila_init :: "string \<Rightarrow> nat option \<Rightarrow> Ila" where
  "ila_init name parent =
     \<lparr>ila_name = name, ila_parent = parent, ila_inputs = KeyVec_new, ila_states = KeyVec_new,
      ila_input_objects = KeyVec_new, ila_state_objects = KeyVec_new, ila_inits = [],
      ila_fetch = None, ila_valid = None, ila_instrs = KeyVec_new, ila_childs = KeyVec_new,
      ila_seq = None, ila_spec = True\<rparr>"

definition InstrLvlAbs_New :: "string \<Rightarrow> nat option \<Rightarrow> nat M" where
  "InstrLvlAbs_New name parent =
     bnd new_id (\<lambda>p. bnd (put_ila p (ila_init name parent)) (\<lambda>_. ret p))"

definition set_spec :: "nat \<Rightarrow> bool \<Rightarrow> unit M" where
  "set_spec p spec = bnd (get_ila p) (\<lambda>m. put_ila p (m\<lparr>ila_spec := spec\<rparr>))"

definition find_input :: "Ila \<Rightarrow> string \<Rightarrow> expr option" where
  "find_input m name = kv_get (ila_inputs m) name"

definition find_state :: "Ila \<Rightarrow> string \<Rightarrow> expr option" where
  "find_state m name = kv_get (ila_states m) name"

definition find_input_object :: "Ila \<Rightarrow> string \<Rightarrow> VarContainer option" where
  "find_input_object m name = kv_get (ila_input_objects m) name"

definition find_state_object :: "Ila \<Rightarrow> string \<Rightarrow> VarContainer option" where
  "find_state_object m name = kv_get (ila_state_objects m) name"

definition find_instr :: "Ila \<Rightarrow> string \<Rightarrow> nat option" where
  "find_instr m name = kv_get (ila_instrs m) name"

definition find_child :: "Ila \<Rightarrow> string \<Rightarrow> nat option" where
  "find_child m name = kv_get (ila_childs m) name"

definition AddInput :: "nat \<Rightarrow> expr option \<Rightarrow> unit M" where
  "AddInput p input_var =
     bnd (not_null input_var) (\<lambda>v.
     bnd (ila_assert (is_var v) ''Register non-var to Inputs.'') (\<lambda>_.
     bnd (get_ila p) (\<lambda>m.
     bnd (ila_assert (find_input m (ename v) = None) (ename v)) (\<lambda>_.
     bnd (ila_assert (find_state m (ename v) = None) (ename v)) (\<lambda>_.
     put_ila p (m\<lparr>ila_inputs := snd (push_back (ename v) (Unify v) (ila_inputs m))\<rparr>))))))"

definition AddState :: "nat \<Rightarrow> expr option \<Rightarrow> unit M" where
  "AddState p state_var =
     bnd (not_null state_var) (\<lambda>v.
     bnd (ila_assert (is_var v) ''Register non-var to States.'') (\<lambda>_.
     bnd (get_ila p) (\<lambda>m.
     bnd (ila_assert (find_input m (ename v) = None) ''state'') (\<lambda>_.
     bnd (ila_assert (find_state m (ename v) = None) ''state'') (\<lambda>_.
     put_ila p (m\<lparr>ila_states := snd (push_back (ename v) (Unify v) (ila_states m))\<rparr>))))))"

text \<open>The visitors of \<^verbatim>\<open>AddInputObject\<close> and \<^verbatim>\<open>AddStateObject\<close> register every primitive.\<close>

definition visit_primitives :: "(expr \<Rightarrow> unit M) \<Rightarrow> VarContainer \<Rightarrow> unit M" where
  "visit_primitives f obj =
     visit_with (\<lambda>vc act. bnd act (\<lambda>_. case vc of VarPrimitive e \<Rightarrow> f e | _ \<Rightarrow> ret ())) obj (ret ())"

definition AddInputObject :: "nat \<Rightarrow> string \<Rightarrow> VarContainer option \<Rightarrow> unit M" where
  "AddInputObject p name obj =
     bnd (not_null obj) (\<lambda>ob.
     bnd (get_ila p) (\<lambda>m.
     bnd (ila_assert (find_input_object m name = None) ''object name already taken'') (\<lambda>_.
     bnd (ila_assert (find_state_object m name = None) ''object name already taken'') (\<lambda>_.
     bnd (visit_primitives (\<lambda>e. AddInput p (Some e)) ob) (\<lambda>_.
     bnd (get_ila p) (\<lambda>m.
     put_ila p (m\<lparr>ila_input_objects := snd (push_back name ob (ila_input_objects m))\<rparr>)))))))"

definition AddStateObject :: "nat \<Rightarrow> string \<Rightarrow> VarContainer option \<Rightarrow> unit M" where
  "AddStateObject p name obj =
     bnd (not_null obj) (\<lambda>ob.
     bnd (get_ila p) (\<lambda>m.
     bnd (ila_assert (find_input_object m name = None) ''object name already taken'') (\<lambda>_.
     bnd (ila_assert (find_state_object m name = None) ''object name already taken'') (\<lambda>_.
     bnd (visit_primitives (\<lambda>e. AddState p (Some e)) ob) (\<lambda>_.
     bnd (get_ila p) (\<lambda>m.
     put_ila p (m\<lparr>ila_state_objects := snd (push_back name ob (ila_state_objects m))\<rparr>)))))))"

definition AddInit :: "nat \<Rightarrow> expr option \<Rightarrow> unit M" where
  "AddInit p cntr_expr =
     bnd (not_null cntr_expr) (\<lambda>c.
     bnd (ila_assert (e_is_bool c) ''Initial condition must be Boolean.'') (\<lambda>_.
     bnd (get_ila p) (\<lambda>m. put_ila p (m\<lparr>ila_inits := ila_inits m @ [Unify c]\<rparr>))))"

definition ForceSetFetch :: "nat \<Rightarrow> expr option \<Rightarrow> unit M" where
  "ForceSetFetch p fetch_expr =
     bnd (not_null fetch_expr) (\<lambda>e.
     bnd (ila_assert (e_is_bv e) ''Fetch function must be bit-vector.'') (\<lambda>_.
     bnd (get_ila p) (\<lambda>m. put_ila p (m\<lparr>ila_fetch := Some (Unify e)\<rparr>))))"

definition ForceSetValid :: "nat \<Rightarrow> expr option \<Rightarrow> unit M" where
  "ForceSetValid p valid_expr =
     bnd (not_null valid_expr) (\<lambda>e.
     bnd (ila_assert (e_is_bool e) ''Valid function must be Boolean.'') (\<lambda>_.
     bnd (get_ila p) (\<lambda>m. put_ila p (m\<lparr>ila_valid := Some (Unify e)\<rparr>))))"

definition SetFetch :: "nat \<Rightarrow> expr option \<Rightarrow> unit M" where
  "SetFetch p fetch_expr =
     bnd (get_ila p) (\<lambda>m.
     bnd (ila_assert (ila_fetch m = None) ''Fetch alraedy defined'') (\<lambda>_. ForceSetFetch p fetch_expr))"

definition SetValid :: "nat \<Rightarrow> expr option \<Rightarrow> unit M" where
  "SetValid p valid_expr =
     bnd (get_ila p) (\<lambda>m.
     bnd (ila_assert (ila_valid m = None) ''Valid already defined'') (\<lambda>_. ForceSetValid p valid_expr))"

text \<open>The status of \<^verbatim>\<open>push_back\<close> is dropped: a duplicate name is not registered.\<close>

definition AddInstr :: "nat \<Rightarrow> nat option \<Rightarrow> unit M" where
  "AddInstr p instr =
     bnd (not_null instr) (\<lambda>i.
     bnd (get_instr i) (\<lambda>x.
     bnd (get_ila p) (\<lambda>m. put_ila p (m\<lparr>ila_instrs := snd (push_back (instr_name x) i (ila_instrs m))\<rparr>))))"

definition AddChild :: "nat \<Rightarrow> nat option \<Rightarrow> unit M" where
  "AddChild p child =
     bnd (not_null child) (\<lambda>c.
     bnd (get_ila c) (\<lambda>mc.
     bnd (get_ila p) (\<lambda>m. put_ila p (m\<lparr>ila_childs := snd (push_back (ila_name mc) c (ila_childs m))\<rparr>))))"

definition NewBoolInput :: "nat \<Rightarrow> string \<Rightarrow> expr M" where
  "NewBoolInput p name =
     bnd (NewBoolVar name) (\<lambda>v. let v = set_host (Some p) v in bnd (AddInput p (Some v)) (\<lambda>_. ret v))"

definition NewBvInput :: "nat \<Rightarrow> string \<Rightarrow> int \<Rightarrow> expr M" where
  "NewBvInput p name width =
     bnd (NewBvVar name width) (\<lambda>v. let v = set_host (Some p) v in bnd (AddInput p (Some v)) (\<lambda>_. ret v))"

definition NewMemInput :: "nat \<Rightarrow> string \<Rightarrow> int \<Rightarrow> int \<Rightarrow> expr M" where
  "NewMemInput p name aw dw =
     bnd (NewMemVar name aw dw) (\<lambda>v. let v = set_host (Some p) v in bnd (AddInput p (Some v)) (\<lambda>_. ret v))"

definition NewInputObject :: "nat \<Rightarrow> string \<Rightarrow> sort \<Rightarrow> VarContainer M" where
  "NewInputObject p name s =
     bnd (VarContainer_Make name s) (\<lambda>ob. bnd (AddInputObject p name (Some ob)) (\<lambda>_. ret ob))"

definition NewBoolState :: "nat \<Rightarrow> string \<Rightarrow> expr M" where
  "NewBoolState p name =
     bnd (NewBoolVar name) (\<lambda>v. let v = set_host (Some p) v in bnd (AddState p (Some v)) (\<lambda>_. ret v))"

definition NewBvState :: "nat \<Rightarrow> string \<Rightarrow> int \<Rightarrow> expr M" where
  "NewBvState p name width =
     bnd (NewBvVar name width) (\<lambda>v. let v = set_host (Some p) v in bnd (AddState p (Some v)) (\<lambda>_. ret v))"

definition NewMemState :: "nat \<Rightarrow> string \<Rightarrow> int \<Rightarrow> int \<Rightarrow> expr M" where
  "NewMemState p name aw dw =
     bnd (NewMemVar name aw dw) (\<lambda>v. let v = set_host (Some p) v in bnd (AddState p (Some v)) (\<lambda>_. ret v))"

definition NewStateObject :: "nat \<Rightarrow> string \<Rightarrow> sort \<Rightarrow> VarContainer M" where
  "NewStateObject p name s =
     bnd (VarContainer_Make name s) (\<lambda>ob. bnd (AddStateObject p name (Some ob)) (\<lambda>_. ret ob))"

definition NewBoolFreeVar :: "nat \<Rightarrow> string \<Rightarrow> expr M" where
  "NewBoolFreeVar p name = bnd (NewBoolVar name) (\<lambda>v. ret (set_host (Some p) v))"

definition NewBvFreeVar :: "nat \<Rightarrow> string \<Rightarrow> int \<Rightarrow> expr M" where
  "NewBvFreeVar p name width = bnd (NewBvVar name width) (\<lambda>v. ret (set_host (Some p) v))"

definition NewMemFreeVar :: "nat \<Rightarrow> string \<Rightarrow> int \<Rightarrow> int \<Rightarrow> expr M" where
  "NewMemFreeVar p name aw dw = bnd (NewMemVar name aw dw) (\<lambda>v. ret (set_host (Some p) v))"

text \<open>The visitor of \<^verbatim>\<open>NewFreeVarObject\<close> sets the host of every primitive in place.\<close>

fun vc_set_host :: "nat option \<Rightarrow> VarContainer \<Rightarrow> VarContainer" where
  "vc_set_host p (VarPrimitive e) = VarPrimitive (set_host p e)"
| "vc_set_host p (VarVector s xs) = VarVector s (map (vc_set_host p) xs)"
| "vc_set_host p (VarStruct s ms) = VarStruct s (map (\<lambda>x. (fst x, vc_set_host p (snd x))) ms)"

definition NewFreeVarObject :: "nat \<Rightarrow> string \<Rightarrow> sort \<Rightarrow> VarContainer M" where
  "NewFreeVarObject p name s =
     bnd (VarContainer_Make name s) (\<lambda>ob. ret (vc_set_host (Some p) ob))"

definition NewInstr :: "nat \<Rightarrow> string \<Rightarrow> nat M" where
  "NewInstr p name =
     bnd (get_ila p) (\<lambda>m.
     let tmp_name = (if name = [] then ''I.'' @ to_string (kv_size (ila_instrs m)) else name) in
     bnd (Instr_New tmp_name (Some p)) (\<lambda>i.
     bnd (AddInstr p (Some i)) (\<lambda>_. ret i)))"

definition NewChild :: "nat \<Rightarrow> string \<Rightarrow> nat M" where
  "NewChild p name =
     bnd (InstrLvlAbs_New name (Some p)) (\<lambda>c.
     bnd (get_ila p) (\<lambda>m.
     bnd (iterM (\<lambda>v. AddState c (Some v)) (vec (ila_states m))) (\<lambda>_.
     bnd (iterM (\<lambda>v. AddInput c (Some v)) (vec (ila_inputs m))) (\<lambda>_.
     bnd (AddChild p (Some c)) (\<lambda>_. ret c)))))"

definition AddSeqTran :: "nat \<Rightarrow> nat \<Rightarrow> nat \<Rightarrow> expr \<Rightarrow> unit M" where
  "AddSeqTran p src dst cnd =
     bnd (get_ila p) (\<lambda>m.
     let s = (case ila_seq m of None \<Rightarrow> InstrSeq_New | Some s \<Rightarrow> s) in
     put_ila p (m\<lparr>ila_seq := Some (AddTran src dst (Unify cnd) s)\<rparr>))"

fun GetRootName_n :: "nat \<Rightarrow> nat \<Rightarrow> string M" where
  "GetRootName_n 0 p = lift (Inl Diverges)"
| "GetRootName_n (Suc n) p =
     bnd (get_ila p) (\<lambda>m. case ila_parent m of
        Some q \<Rightarrow> bnd (GetRootName_n n q) (\<lambda>nm. ret (nm @ ''.'' @ ila_name m))
      | None \<Rightarrow> ret (ila_name m))"

definition GetRootName :: "nat \<Rightarrow> string M" where
  "GetRootName p = GetRootName_n (Suc p) p"

definition Ila_Print :: "Ila \<Rightarrow> string" where
  "Ila_Print m = ''ILA.'' @ ila_name m"

text \<open>The templated visitor of ILAs: children first, then the ILA itself.\<close>

fun ila_visit_n :: "nat \<Rightarrow> (nat \<Rightarrow> 's \<Rightarrow> 's M) \<Rightarrow> nat \<Rightarrow> 's \<Rightarrow> 's M" where
  "ila_visit_n 0 func p st = lift (Inl Diverges)"
| "ila_visit_n (Suc n) func p st =
     bnd (get_ila p) (\<lambda>m.
     bnd (foldM (ila_visit_n n func) (vec (ila_childs m)) st) (func p))"

definition ila_DepthFirstVisit :: "(nat \<Rightarrow> 's \<Rightarrow> 's M) \<Rightarrow> nat \<Rightarrow> 's \<Rightarrow> 's M" where
  "ila_DepthFirstVisit func p st = (\<lambda>h. ila_visit_n (Suc (counter h - p)) func p st h)"


section \<open>The invariant\<close>

abbreviation kv_keys :: "('k, 't) KeyVec \<Rightarrow> 'k set" where
  "kv_keys kv \<equiv> fst ` set (kv_entries kv)"

text \<open>Within one ILA: the maps are well formed, variables are registered under their name,
  an input and a state never share a name, the special functions have their sort.\<close>

definition var_map_ok :: "(string, expr) KeyVec \<Rightarrow> bool" where
  "var_map_ok kv = (kv_inv kv \<and> (\<forall>(n, e) \<in> set (kv_entries kv). ename e = n \<and> is_var e))"

definition ila_local :: "Ila \<Rightarrow> bool" where
  "ila_local m =
     (var_map_ok (ila_inputs m) \<and> var_map_ok (ila_states m) \<and>
      kv_keys (ila_inputs m) \<inter> kv_keys (ila_states m) = {} \<and>
      kv_inv (ila_input_objects m) \<and> kv_inv (ila_state_objects m) \<and>
      kv_inv (ila_instrs m) \<and> kv_inv (ila_childs m) \<and>
      list_all e_is_bool (ila_inits m) \<and>
      (\<forall>e. ila_fetch m = Some e \<longrightarrow> e_is_bv e) \<and> (\<forall>e. ila_valid m = Some e \<longrightarrow> e_is_bool e))"

text \<open>Between objects: the parent exists and is older, children are younger and registered
  under their name, so are instructions.\<close>

definition ila_links :: "heap \<Rightarrow> nat \<Rightarrow> Ila \<Rightarrow> bool" where
  "ila_links h p m =
     (p \<le> counter h \<and>
      (\<forall>q. ila_parent m = Some q \<longrightarrow> q < p \<and> ilas h q \<noteq> None) \<and>
      (\<forall>(n, c) \<in> set (kv_entries (ila_childs m)). p < c \<and> (\<exists>mc. ilas h c = Some mc \<and> ila_name mc = n)) \<and>
      (\<forall>(n, i) \<in> set (kv_entries (ila_instrs m)). \<exists>x. instrs h i = Some x \<and> instr_name x = n))"

definition instr_ok :: "heap \<Rightarrow> nat \<Rightarrow> Instr \<Rightarrow> bool" where
  "instr_ok h i x =
     (i \<le> counter h \<and> amap_ok (instr_updates x) \<and> (\<forall>d. instr_decode x = Some d \<longrightarrow> e_is_bool d))"

definition heap_inv :: "heap \<Rightarrow> bool" where
  "heap_inv h =
     ((\<forall>p m. ilas h p = Some m \<longrightarrow> ila_local m \<and> ila_links h p m) \<and>
      (\<forall>i x. instrs h i = Some x \<longrightarrow> instr_ok h i x))"

lemma heap_inv_empty: "heap_inv empty_heap"
  by (simp add: heap_inv_def empty_heap_def)

text \<open>Names never change, objects never disappear.\<close>

definition extends :: "heap \<Rightarrow> heap \<Rightarrow> bool" where
  "extends h h' =
     (counter h \<le> counter h' \<and>
      (\<forall>p m. ilas h p = Some m \<longrightarrow> (\<exists>m'. ilas h' p = Some m' \<and> ila_name m' = ila_name m)) \<and>
      (\<forall>i x. instrs h i = Some x \<longrightarrow> (\<exists>x'. instrs h' i = Some x' \<and> instr_name x' = instr_name x)))"

lemma ila_links_mono: "ila_links h p m \<Longrightarrow> extends h h' \<Longrightarrow> ila_links h' p m"
  unfolding ila_links_def extends_def by (fastforce split: prod.splits)

lemma instr_ok_mono: "instr_ok h i x \<Longrightarrow> extends h h' \<Longrightarrow> instr_ok h' i x"
  by (auto simp: instr_ok_def extends_def)

lemma heap_inv_put_ila:
  assumes "heap_inv h" "ilas h p = Some m" "ila_name m' = ila_name m" "ila_local m'" "ila_links h p m'"
  shows "heap_inv (h\<lparr>ilas := (ilas h)(p \<mapsto> m')\<rparr>)"
proof -
  let ?h = "h\<lparr>ilas := (ilas h)(p \<mapsto> m')\<rparr>"
  have "extends h ?h" using assms(2,3) by (auto simp: extends_def)
  then show ?thesis
    using assms unfolding heap_inv_def by (auto simp: instr_ok_def intro: ila_links_mono)
qed

lemma heap_inv_put_instr:
  assumes "heap_inv h" "instrs h i = Some x" "instr_name x' = instr_name x" "instr_ok h i x'"
  shows "heap_inv (h\<lparr>instrs := (instrs h)(i \<mapsto> x')\<rparr>)"
proof -
  let ?h = "h\<lparr>instrs := (instrs h)(i \<mapsto> x')\<rparr>"
  have "extends h ?h" using assms(2,3) by (auto simp: extends_def)
  then show ?thesis
    using assms unfolding heap_inv_def by (auto simp: instr_ok_def intro: ila_links_mono)
qed

lemma heap_inv_alloc: "heap_inv h \<Longrightarrow> only_alloc h h' \<Longrightarrow> heap_inv h'"
proof -
  assume "heap_inv h" and a: "only_alloc h h'"
  moreover have "extends h h'" using a by (auto simp: only_alloc_def extends_def)
  ultimately show "heap_inv h'"
    unfolding heap_inv_def only_alloc_def by (metis ila_links_mono instr_ok_mono)
qed

text \<open>Updates of one ILA that leave its links alone.\<close>

lemma links_same:
  "ila_links h p m \<Longrightarrow> ila_parent m' = ila_parent m \<Longrightarrow> ila_childs m' = ila_childs m \<Longrightarrow>
   ila_instrs m' = ila_instrs m \<Longrightarrow> ila_links h p m'"
  by (simp add: ila_links_def)

lemma get_None_iff: "kv_inv kv \<Longrightarrow> kv_get kv k = None \<longleftrightarrow> k \<notin> kv_keys kv"
  by (simp add: kv.get_spec map_of_eq_None_iff)

lemma var_map_push:
  assumes "var_map_ok kv" "kv_get kv (ename v) = None" "is_var v"
  shows "var_map_ok (snd (push_back (ename v) v kv)) \<and>
     kv_keys (snd (push_back (ename v) v kv)) = insert (ename v) (kv_keys kv)"
  using assms by (auto simp: var_map_ok_def get_None_iff kv.push_eq kv_inv_push)

lemma AddInput_inv: "AddInput p v h = Inr (u, h') \<Longrightarrow> heap_inv h \<Longrightarrow> heap_inv h'"
proof -
  assume r: "AddInput p v h = Inr (u, h')" and inv: "heap_inv h"
  then obtain w m where w: "v = Some w" "is_var w" "ilas h p = Some m" "find_input m (ename w) = None"
    "find_state m (ename w) = None"
    "h' = h\<lparr>ilas := (ilas h)(p \<mapsto> m\<lparr>ila_inputs := snd (push_back (ename w) w (ila_inputs m))\<rparr>)\<rparr>"
    by (auto simp: AddInput_def Unify_def simp del: is_var_iff)
  have m: "ila_local m" "ila_links h p m" using inv w(3) by (auto simp: heap_inv_def)
  have "ila_local (m\<lparr>ila_inputs := snd (push_back (ename w) w (ila_inputs m))\<rparr>)"
    using m(1) w(4,5) var_map_push [OF _ _ w(2), of "ila_inputs m"]
    by (auto simp: ila_local_def find_input_def find_state_def var_map_ok_def get_None_iff)
  then show "heap_inv h'"
    unfolding w(6) using inv w(3) m(2) by (intro heap_inv_put_ila) (auto intro: links_same)
qed

lemma AddState_inv: "AddState p v h = Inr (u, h') \<Longrightarrow> heap_inv h \<Longrightarrow> heap_inv h'"
proof -
  assume r: "AddState p v h = Inr (u, h')" and inv: "heap_inv h"
  then obtain w m where w: "v = Some w" "is_var w" "ilas h p = Some m" "find_input m (ename w) = None"
    "find_state m (ename w) = None"
    "h' = h\<lparr>ilas := (ilas h)(p \<mapsto> m\<lparr>ila_states := snd (push_back (ename w) w (ila_states m))\<rparr>)\<rparr>"
    by (auto simp: AddState_def Unify_def simp del: is_var_iff)
  have m: "ila_local m" "ila_links h p m" using inv w(3) by (auto simp: heap_inv_def)
  have "ila_local (m\<lparr>ila_states := snd (push_back (ename w) w (ila_states m))\<rparr>)"
    using m(1) w(4,5) var_map_push [OF _ _ w(2), of "ila_states m"]
    by (auto simp: ila_local_def find_input_def find_state_def var_map_ok_def get_None_iff)
  then show "heap_inv h'"
    unfolding w(6) using inv w(3) m(2) by (intro heap_inv_put_ila) (auto intro: links_same)
qed


text \<open>An operation keeps the invariant when every successful run does.\<close>

definition keeps :: "'a M \<Rightarrow> bool" where
  "keeps f = (\<forall>h x h'. f h = Inr (x, h') \<longrightarrow> heap_inv h \<longrightarrow> heap_inv h')"

named_theorems keeps_intros \<open>operations that keep the invariant\<close>

lemma keepsI: "(\<And>h x h'. f h = Inr (x, h') \<Longrightarrow> heap_inv h \<Longrightarrow> heap_inv h') \<Longrightarrow> keeps f"
  by (simp add: keeps_def)

lemma keeps_bnd [keeps_intros]: "keeps m \<Longrightarrow> (\<And>x. keeps (f x)) \<Longrightarrow> keeps (bnd m f)"
  by (auto simp: keeps_def)

lemma keeps_bnd_run: "keeps m \<Longrightarrow> (\<And>h x h'. m h = Inr (x, h') \<Longrightarrow> keeps (f x)) \<Longrightarrow> keeps (bnd m f)"
  by (auto simp: keeps_def)

lemma keeps_basic [keeps_intros]:
  "keeps (ret x)" "keeps (lift r)" "keeps (ila_assert b msg)" "keeps (ila_check b msg)" "keeps (not_null q)"
  "keeps (get_ila p)" "keeps (get_instr i)"
  by (simp_all add: keeps_def)

lemma keeps_alloc: "(\<And>h x h'. f h = Inr (x, h') \<Longrightarrow> only_alloc h h') \<Longrightarrow> keeps f"
  by (auto simp: keeps_def intro: heap_inv_alloc)

lemma keeps_new_id [keeps_intros]: "keeps new_id"
  by (rule keeps_alloc) (auto simp: only_alloc_def)

lemma keeps_if [keeps_intros]: "keeps a \<Longrightarrow> keeps b \<Longrightarrow> keeps (if c then a else b)"
  by simp

lemma keeps_iterM [keeps_intros]: "(\<And>x. keeps (f x)) \<Longrightarrow> keeps (iterM f xs)"
  by (induction xs) (simp_all add: keeps_intros)

lemma keeps_mapM [keeps_intros]: "(\<And>x. keeps (f x)) \<Longrightarrow> keeps (mapM f xs)"
  by (induction xs) (simp_all add: keeps_intros)

lemma keeps_AddInput [keeps_intros]: "keeps (AddInput p v)"
  by (rule keepsI) (rule AddInput_inv)

lemma keeps_AddState [keeps_intros]: "keeps (AddState p v)"
  by (rule keepsI) (rule AddState_inv)

lemma keeps_vars [keeps_intros]:
  "keeps (NewBoolVar nm)" "keeps (NewBvVar nm w)" "keeps (NewMemVar nm a d)"
  by (simp_all add: NewBoolVar_def NewBvVar_def NewMemVar_def ExprVar_bool_def ExprVar_bv_def
      ExprVar_mem_def keeps_intros)

lemma keeps_Make [keeps_intros]: "keeps (VarContainer_Make nm s)"
  and keeps_Make_members: "keeps (Make_members nm ms)"
proof (induction nm s and nm ms rule: VarContainer_Make_Make_members.induct)
  case (7 prefix nm t ms)
  then show ?case by (auto intro!: keeps_bnd_run [OF 7(1)] keeps_intros)
qed (simp_all add: keeps_intros)

text \<open>Updates of one ILA that leave its links alone keep the invariant.\<close>

lemma keeps_update_ila:
  assumes "\<And>m. ila_local m \<Longrightarrow> P m \<Longrightarrow> ila_local (f m)"
    and "\<And>m. ila_name (f m) = ila_name m \<and> ila_parent (f m) = ila_parent m \<and>
             ila_childs (f m) = ila_childs m \<and> ila_instrs (f m) = ila_instrs m"
  shows "keeps (bnd (get_ila p) (\<lambda>m. bnd (ila_assert (P m) msg) (\<lambda>_. put_ila p (f m))))"
proof (rule keepsI)
  fix h h' :: heap and x :: unit
  assume r: "bnd (get_ila p) (\<lambda>m. bnd (ila_assert (P m) msg) (\<lambda>_. put_ila p (f m))) h = Inr (x, h')"
    and inv: "heap_inv h"
  then obtain m where m: "ilas h p = Some m" "P m" "h' = h\<lparr>ilas := (ilas h)(p \<mapsto> f m)\<rparr>" by auto
  have "ila_local m" "ila_links h p m" using inv m(1) by (auto simp: heap_inv_def)
  with assms m show "heap_inv h'"
    using inv by (auto intro!: heap_inv_put_ila intro: links_same)
qed

lemmas keeps_update_ila' = keeps_update_ila [where P = "\<lambda>_. True" and msg = "[]"]

lemma assert_True [simp]: "bnd (ila_assert True msg) f = f ()"
  by (simp add: bnd_def ila_assert_def fun_eq_iff)

lemma keeps_put_seq: "keeps (bnd (get_ila p) (\<lambda>m. put_ila p (m\<lparr>ila_seq := s m\<rparr>)))"
  using keeps_update_ila' [of "\<lambda>m. m\<lparr>ila_seq := s m\<rparr>"] by (simp add: ila_local_def)

lemma keeps_AddSeqTran [keeps_intros]: "keeps (AddSeqTran p src dst cnd)"
  using keeps_put_seq [of p "\<lambda>m. Some (AddTran src dst (Unify cnd)
      (case ila_seq m of None \<Rightarrow> InstrSeq_New | Some s \<Rightarrow> s))"]
  by (simp add: AddSeqTran_def Let_def)

lemma keeps_set_spec [keeps_intros]: "keeps (set_spec p b)"
  using keeps_update_ila' [of "\<lambda>m. m\<lparr>ila_spec := b\<rparr>"] by (simp add: ila_local_def set_spec_def)

lemma keeps_guarded:
  "(P \<Longrightarrow> keeps f) \<Longrightarrow> keeps (bnd (ila_assert P msg) (\<lambda>_. f))"
  by (auto simp: keeps_def)

lemma keeps_AddInit [keeps_intros]: "keeps (AddInit p c)"
proof -
  have "e_is_bool e \<Longrightarrow> keeps (bnd (get_ila p) (\<lambda>m. put_ila p (m\<lparr>ila_inits := ila_inits m @ [e]\<rparr>)))" for e
    using keeps_update_ila' [of "\<lambda>m. m\<lparr>ila_inits := ila_inits m @ [e]\<rparr>"] by (simp add: ila_local_def)
  then show ?thesis unfolding AddInit_def Unify_def by - (rule keeps_bnd, rule keeps_basic, rule keeps_guarded, simp)
qed

lemma keeps_Fetch [keeps_intros]: "keeps (ForceSetFetch p c)" "keeps (SetFetch p c)"
proof -
  have "e_is_bv e \<Longrightarrow> keeps (bnd (get_ila p) (\<lambda>m. put_ila p (m\<lparr>ila_fetch := Some e\<rparr>)))" for e
    using keeps_update_ila' [of "\<lambda>m. m\<lparr>ila_fetch := Some e\<rparr>"] by (simp add: ila_local_def)
  then show "keeps (ForceSetFetch p c)"
    unfolding ForceSetFetch_def Unify_def by - (rule keeps_bnd, rule keeps_basic, rule keeps_guarded, simp)
  then show "keeps (SetFetch p c)" by (auto simp: SetFetch_def intro!: keeps_intros)
qed

lemma keeps_Valid [keeps_intros]: "keeps (ForceSetValid p c)" "keeps (SetValid p c)"
proof -
  have "e_is_bool e \<Longrightarrow> keeps (bnd (get_ila p) (\<lambda>m. put_ila p (m\<lparr>ila_valid := Some e\<rparr>)))" for e
    using keeps_update_ila' [of "\<lambda>m. m\<lparr>ila_valid := Some e\<rparr>"] by (simp add: ila_local_def)
  then show "keeps (ForceSetValid p c)"
    unfolding ForceSetValid_def Unify_def by - (rule keeps_bnd, rule keeps_basic, rule keeps_guarded, simp)
  then show "keeps (SetValid p c)" by (auto simp: SetValid_def intro!: keeps_intros)
qed

lemma keeps_visit:
  assumes "\<And>e. keeps (f e)"
  shows "keeps act \<Longrightarrow> keeps (visit_with (\<lambda>vc act. bnd act (\<lambda>_. case vc of VarPrimitive e \<Rightarrow> f e | _ \<Rightarrow> ret ())) obj act)"
proof (induction obj arbitrary: act)
  case (VarPrimitive e)
  then show ?case by (simp add: assms keeps_intros)
next
  case (VarVector s xs)
  have "keeps (fold (\<lambda>x. visit_with (\<lambda>vc act. bnd act (\<lambda>_. case vc of VarPrimitive e \<Rightarrow> f e | _ \<Rightarrow> ret ())) x) ys act)"
    if "set ys \<subseteq> set xs" "keeps act" for ys act
    using that by (induction ys arbitrary: act) (auto simp: VarVector.IH)
  then show ?case using VarVector.prems by (simp add: keeps_intros)
next
  case (VarStruct s ms)
  have "keeps (fold (\<lambda>x. visit_with (\<lambda>vc act. bnd act (\<lambda>_. case vc of VarPrimitive e \<Rightarrow> f e | _ \<Rightarrow> ret ())) (snd x)) ys act)"
    if "set ys \<subseteq> set ms" "keeps act" for ys act
    using that
  proof (induction ys arbitrary: act)
    case (Cons y ys)
    then show ?case using VarStruct.IH [of y "snd y"] by (cases y) simp
  qed simp
  then show ?case using VarStruct.prems by (simp add: keeps_intros)
qed

lemma keeps_visit_primitives [keeps_intros]: "(\<And>e. keeps (f e)) \<Longrightarrow> keeps (visit_primitives f obj)"
  unfolding visit_primitives_def by (rule keeps_visit) (simp_all add: keeps_intros)

lemma keeps_AddObject [keeps_intros]: "keeps (AddInputObject p nm ob)" "keeps (AddStateObject p nm ob)"
proof -
  have push: "keeps (bnd (get_ila p) (\<lambda>m. put_ila p (m\<lparr>ila_input_objects := snd (push_back nm x (ila_input_objects m))\<rparr>)))"
    "keeps (bnd (get_ila p) (\<lambda>m. put_ila p (m\<lparr>ila_state_objects := snd (push_back nm x (ila_state_objects m))\<rparr>)))"
    for x
    using keeps_update_ila' [of "\<lambda>m. m\<lparr>ila_input_objects := snd (push_back nm x (ila_input_objects m))\<rparr>"]
      keeps_update_ila' [of "\<lambda>m. m\<lparr>ila_state_objects := snd (push_back nm x (ila_state_objects m))\<rparr>"]
    by (simp_all add: ila_local_def)
  note step = keeps_bnd [OF keeps_basic(5)] keeps_bnd [OF keeps_basic(6)] keeps_bnd [OF keeps_basic(3)]
  show "keeps (AddInputObject p nm ob)" unfolding AddInputObject_def
    by (rule step(1), rule step(2), rule step(3), rule step(3), rule keeps_bnd,
        rule keeps_visit_primitives, rule keeps_AddInput, rule push(1))
  show "keeps (AddStateObject p nm ob)" unfolding AddStateObject_def
    by (rule step(1), rule step(2), rule step(3), rule step(3), rule keeps_bnd,
        rule keeps_visit_primitives, rule keeps_AddState, rule push(2))
qed

lemma keeps_New_vars [keeps_intros]:
  "keeps (NewBoolInput p nm)" "keeps (NewBvInput p nm w)" "keeps (NewMemInput p nm a d)"
  "keeps (NewBoolState p nm)" "keeps (NewBvState p nm w)" "keeps (NewMemState p nm a d)"
  "keeps (NewInputObject p nm s)" "keeps (NewStateObject p nm s)" "keeps (NewFreeVarObject p nm s)"
  "keeps (NewBoolFreeVar p nm)" "keeps (NewBvFreeVar p nm w)" "keeps (NewMemFreeVar p nm a d)"
  by (simp_all add: NewBoolInput_def NewBvInput_def NewMemInput_def NewBoolState_def NewBvState_def
      NewMemState_def NewInputObject_def NewStateObject_def NewFreeVarObject_def NewBoolFreeVar_def
      NewBvFreeVar_def NewMemFreeVar_def Let_def keeps_intros)


section \<open>Instructions and links\<close>

lemma keeps_update_instr:
  assumes "\<And>h x. instr_ok h i x \<Longrightarrow> instr_ok h i (f x)" and "\<And>x. instr_name (f x) = instr_name x"
  shows "keeps (bnd (get_instr i) (\<lambda>x. put_instr i (f x)))"
proof (rule keepsI)
  fix h h' :: heap and u :: unit
  assume r: "bnd (get_instr i) (\<lambda>x. put_instr i (f x)) h = Inr (u, h')" and inv: "heap_inv h"
  then obtain x where x: "instrs h i = Some x" "h' = h\<lparr>instrs := (instrs h)(i \<mapsto> f x)\<rparr>" by auto
  with inv have "instr_ok h i x" by (auto simp: heap_inv_def)
  with x show "heap_inv h'" using heap_inv_put_instr [OF inv x(1)] assms by simp
qed

lemma keeps_decode [keeps_intros]: "keeps (ForceSetDecode i d)" "keeps (set_decode i d)"
proof -
  have *: "e_is_bool e \<Longrightarrow> keeps (bnd (get_instr i) (\<lambda>x. put_instr i (x\<lparr>instr_decode := Some e\<rparr>)))" for e
    by (rule keeps_update_instr) (simp_all add: instr_ok_def)
  have "keeps (bnd (ila_check b msg) (\<lambda>_. f))" if "b \<Longrightarrow> keeps f" for b msg and f :: "unit M"
    using that by (auto simp: keeps_def)
  with * show "keeps (ForceSetDecode i d)"
    unfolding ForceSetDecode_def Unify_def by (intro keeps_bnd [OF keeps_basic(5)]) simp
  then show "keeps (set_decode i d)" by (auto simp: set_decode_def intro!: keeps_intros)
qed

lemma keeps_updates [keeps_intros]: "keeps (ForceAddUpdate i nm e)" "keeps (set_update i nm e)"
  "keeps (set_update_var i v e)"
proof -
  show 1: "keeps (ForceAddUpdate i nm e)" for nm e
    unfolding ForceAddUpdate_def by (rule keeps_update_instr) (simp_all add: instr_ok_def)
  show 2: "keeps (set_update i nm e)" for nm e
    by (auto simp: set_update_def 1 intro!: keeps_intros)
  show "keeps (set_update_var i v e)" by (simp add: set_update_var_def 2)
qed

lemma keeps_set_program [keeps_intros]: "keeps (set_program i p)"
proof (rule keepsI)
  fix h h' :: heap and u :: unit
  assume r: "set_program i p h = Inr (u, h')" and inv: "heap_inv h"
  then obtain x where x: "instrs h i = Some x" "h' = h\<lparr>instrs := (instrs h)(i \<mapsto> x\<lparr>instr_prog := p\<rparr>)\<rparr>"
    by (auto simp: set_program_def)
  with inv have "instr_ok h i x" by (auto simp: heap_inv_def)
  with x show "heap_inv h'" using heap_inv_put_instr [OF inv x(1)] by (simp add: instr_ok_def)
qed

lemma heap_invD:
  assumes "heap_inv h"
  shows "ilas h p = Some m \<Longrightarrow> ila_local m" "ilas h p = Some m \<Longrightarrow> ila_links h p m"
    "ilas h p = Some m \<Longrightarrow> p \<le> counter h" "instrs h i = Some x \<Longrightarrow> instr_ok h i x"
    "instrs h i = Some x \<Longrightarrow> i \<le> counter h"
  using assms unfolding heap_inv_def ila_links_def instr_ok_def by blast+

lemma fresh_ila: "heap_inv h \<Longrightarrow> counter h < p \<Longrightarrow> ilas h p = None"
  using heap_invD(3) [of h p] by (cases "ilas h p") auto

lemma fresh_instr: "heap_inv h \<Longrightarrow> counter h < i \<Longrightarrow> instrs h i = None"
  using heap_invD(5) [of h i] by (cases "instrs h i") auto

lemma kv_entries_new [simp]: "kv_entries KeyVec_new = []"
  by (simp add: kv_entries_def KeyVec_new_def)

lemma ila_local_init: "ila_local (ila_init nm q)"
  by (simp add: ila_local_def ila_init_def var_map_ok_def)

lemma New_run:
  "InstrLvlAbs_New nm q h = Inr (p, h') \<longleftrightarrow>
     p = counter h + 1 \<and> h' = h\<lparr>counter := counter h + 1, ilas := (ilas h)(p \<mapsto> ila_init nm q)\<rparr>"
  by (auto simp: InstrLvlAbs_New_def)

lemma New_inv:
  assumes inv: "heap_inv h" and q: "\<forall>r. q = Some r \<longrightarrow> ilas h r \<noteq> None"
    and r: "InstrLvlAbs_New nm q h = Inr (p, h')"
  shows "heap_inv h'"
proof -
  have h': "p = counter h + 1" "h' = h\<lparr>counter := counter h + 1, ilas := (ilas h)(p \<mapsto> ila_init nm q)\<rparr>"
    using r by (auto simp: New_run)
  have fresh: "ilas h p = None" using fresh_ila [OF inv] h'(1) by simp
  then have ext: "extends h h'" by (auto simp: extends_def h')
  have "ila_links h' p (ila_init nm q)"
  proof -
    have "r < p \<and> ilas h' r \<noteq> None" if "q = Some r" for r
    proof -
      from q that obtain m where m: "ilas h r = Some m" by blast
      from heap_invD(3) [OF inv m] m show ?thesis by (simp add: h')
    qed
    then show ?thesis using h' by (auto simp: ila_links_def ila_init_def)
  qed
  moreover have "instr_ok h' j x" if "instrs h j = Some x" for j x
    using heap_invD(4) [OF inv that] ext by (rule instr_ok_mono)
  moreover have "ila_local m \<and> ila_links h' r m" if "ilas h r = Some m" for r m
    using heap_invD(1,2) [OF inv that] ila_links_mono [OF _ ext] by blast
  ultimately show ?thesis
    using ila_local_init unfolding heap_inv_def by (auto simp: h'(2) split: if_splits)
qed

lemma Instr_New_run:
  "Instr_New nm q h = Inr (i, h') \<longleftrightarrow> i = counter h + 1 \<and>
     h' = h\<lparr>counter := counter h + 1, instrs := (instrs h)(i \<mapsto> \<lparr>instr_name = nm, instr_host = q,
        instr_decode = None, instr_updates = [], instr_prog = None\<rparr>)\<rparr>"
  by (auto simp: Instr_New_def)

lemma keeps_Instr_New [keeps_intros]: "keeps (Instr_New nm q)"
proof (rule keepsI)
  fix h h' :: heap and i :: nat
  assume r: "Instr_New nm q h = Inr (i, h')" and inv: "heap_inv h"
  then have h': "i = counter h + 1" "h' = h\<lparr>counter := counter h + 1, instrs := (instrs h)(i \<mapsto>
      \<lparr>instr_name = nm, instr_host = q, instr_decode = None, instr_updates = [], instr_prog = None\<rparr>)\<rparr>"
    by (auto simp: Instr_New_run)
  have "instrs h i = None" using fresh_instr [OF inv] h'(1) by simp
  then have ext: "extends h h'" by (auto simp: extends_def h')
  have "instr_ok h' j x" if "instrs h j = Some x" for j x
    using heap_invD(4) [OF inv that] ext by (rule instr_ok_mono)
  moreover have "ila_local m \<and> ila_links h' p m" if "ilas h p = Some m" for p m
    using heap_invD(1,2) [OF inv that] ila_links_mono [OF _ ext] by blast
  moreover have "instr_ok h' i \<lparr>instr_name = nm, instr_host = q, instr_decode = None, instr_updates = [], instr_prog = None\<rparr>"
    by (simp add: instr_ok_def h')
  ultimately show "heap_inv h'" unfolding heap_inv_def by (auto simp: h'(2) split: if_splits)
qed

lemma keeps_AddInstr [keeps_intros]: "keeps (AddInstr p i)"
proof (rule keepsI)
  fix h h' :: heap and u :: unit
  assume r: "AddInstr p i h = Inr (u, h')" and inv: "heap_inv h"
  then obtain j x m where m: "instrs h j = Some x" "ilas h p = Some m"
    "h' = h\<lparr>ilas := (ilas h)(p \<mapsto> m\<lparr>ila_instrs := snd (push_back (instr_name x) j (ila_instrs m))\<rparr>)\<rparr>"
    by (auto simp: AddInstr_def)
  have l: "ila_local m" "ila_links h p m" using inv m(2) by (auto simp: heap_inv_def)
  then have "kv_inv (ila_instrs m)" by (simp add: ila_local_def)
  then have "ila_links h p (m\<lparr>ila_instrs := snd (push_back (instr_name x) j (ila_instrs m))\<rparr>)"
    using l(2) m(1) by (auto simp: ila_links_def kv.push_eq)
  moreover have "ila_local (m\<lparr>ila_instrs := snd (push_back (instr_name x) j (ila_instrs m))\<rparr>)"
    using l(1) by (simp add: ila_local_def)
  ultimately show "heap_inv h'" unfolding m(3) using inv m(2) by (intro heap_inv_put_ila) auto
qed

lemma AddChild_inv:
  assumes "p < c" "AddChild p (Some c) h = Inr (u, h')" "heap_inv h"
  shows "heap_inv h'"
proof -
  obtain mc m where m: "ilas h c = Some mc" "ilas h p = Some m"
    "h' = h\<lparr>ilas := (ilas h)(p \<mapsto> m\<lparr>ila_childs := snd (push_back (ila_name mc) c (ila_childs m))\<rparr>)\<rparr>"
    using assms(2) by (auto simp: AddChild_def)
  have l: "ila_local m" "ila_links h p m" using assms(3) m(2) by (auto simp: heap_inv_def)
  then have "kv_inv (ila_childs m)" by (simp add: ila_local_def)
  then have "ila_links h p (m\<lparr>ila_childs := snd (push_back (ila_name mc) c (ila_childs m))\<rparr>)"
    using l(2) m(1) assms(1) by (auto simp: ila_links_def kv.push_eq)
  moreover have "ila_local (m\<lparr>ila_childs := snd (push_back (ila_name mc) c (ila_childs m))\<rparr>)"
    using l(1) by (simp add: ila_local_def)
  ultimately show "heap_inv h'" unfolding m(3) using assms(3) m(2) by (intro heap_inv_put_ila) auto
qed

lemma keeps_NewInstr [keeps_intros]: "keeps (NewInstr p nm)"
  by (simp add: NewInstr_def Let_def keeps_intros)

lemma NewChild_inv:
  assumes "ilas h p \<noteq> None" "NewChild p nm h = Inr (c, h')" "heap_inv h"
  shows "heap_inv h'"
proof -
  obtain h1 m h2 h3 where r: "InstrLvlAbs_New nm (Some p) h = Inr (c, h1)" "ilas h1 p = Some m"
    "iterM (\<lambda>v. AddState c (Some v)) (vec (ila_states m)) h1 = Inr ((), h2)"
    "iterM (\<lambda>v. AddInput c (Some v)) (vec (ila_inputs m)) h2 = Inr ((), h3)"
    "AddChild p (Some c) h3 = Inr ((), h')"
    using assms(2) by (auto simp: NewChild_def)
  have "heap_inv h1" using New_inv [OF assms(3) _ r(1)] assms(1) by simp
  moreover have "keeps (iterM (\<lambda>v. AddState c (Some v)) (vec (ila_states m)))"
    "keeps (iterM (\<lambda>v. AddInput c (Some v)) (vec (ila_inputs m)))" by (simp_all add: keeps_intros)
  ultimately have "heap_inv h3" using r(3,4) unfolding keeps_def by blast
  moreover have "p < c" using assms(1) heap_invD(3) [OF assms(3), of p] r(1) by (fastforce simp: New_run)
  ultimately show ?thesis using AddChild_inv [OF _ r(5)] by simp
qed

section \<open>Reachable heaps\<close>

text \<open>One step: a call of an operation of the data model that returns. A child is registered
  with an ILA that existed before it.\<close>

inductive ila_step :: "heap \<Rightarrow> heap \<Rightarrow> bool" where
  new_ila: "InstrLvlAbs_New nm None h = Inr (p, h') \<Longrightarrow> ila_step h h'"
| new_sub: "ilas h q \<noteq> None \<Longrightarrow> InstrLvlAbs_New nm (Some q) h = Inr (p, h') \<Longrightarrow> ila_step h h'"
| new_child: "ilas h p \<noteq> None \<Longrightarrow> NewChild p nm h = Inr (c, h') \<Longrightarrow> ila_step h h'"
| add_child: "p < c \<Longrightarrow> AddChild p (Some c) h = Inr (u, h') \<Longrightarrow> ila_step h h'"
| add_input: "AddInput p v h = Inr (u, h') \<Longrightarrow> ila_step h h'"
| add_state: "AddState p v h = Inr (u, h') \<Longrightarrow> ila_step h h'"
| add_input_object: "AddInputObject p nm ob h = Inr (u, h') \<Longrightarrow> ila_step h h'"
| add_state_object: "AddStateObject p nm ob h = Inr (u, h') \<Longrightarrow> ila_step h h'"
| add_init: "AddInit p c h = Inr (u, h') \<Longrightarrow> ila_step h h'"
| set_fetch: "SetFetch p c h = Inr (u, h') \<Longrightarrow> ila_step h h'"
| set_valid: "SetValid p c h = Inr (u, h') \<Longrightarrow> ila_step h h'"
| force_fetch: "ForceSetFetch p c h = Inr (u, h') \<Longrightarrow> ila_step h h'"
| force_valid: "ForceSetValid p c h = Inr (u, h') \<Longrightarrow> ila_step h h'"
| add_instr: "AddInstr p i h = Inr (u, h') \<Longrightarrow> ila_step h h'"
| new_instr: "NewInstr p nm h = Inr (i, h') \<Longrightarrow> ila_step h h'"
| instr_new: "Instr_New nm q h = Inr (i, h') \<Longrightarrow> ila_step h h'"
| bool_input: "NewBoolInput p nm h = Inr (e, h') \<Longrightarrow> ila_step h h'"
| bv_input: "NewBvInput p nm w h = Inr (e, h') \<Longrightarrow> ila_step h h'"
| mem_input: "NewMemInput p nm a d h = Inr (e, h') \<Longrightarrow> ila_step h h'"
| bool_state: "NewBoolState p nm h = Inr (e, h') \<Longrightarrow> ila_step h h'"
| bv_state: "NewBvState p nm w h = Inr (e, h') \<Longrightarrow> ila_step h h'"
| mem_state: "NewMemState p nm a d h = Inr (e, h') \<Longrightarrow> ila_step h h'"
| input_object: "NewInputObject p nm s h = Inr (ob, h') \<Longrightarrow> ila_step h h'"
| state_object: "NewStateObject p nm s h = Inr (ob, h') \<Longrightarrow> ila_step h h'"
| free_object: "NewFreeVarObject p nm s h = Inr (ob, h') \<Longrightarrow> ila_step h h'"
| seq_tran: "AddSeqTran p src dst c h = Inr (u, h') \<Longrightarrow> ila_step h h'"
| spec_flag: "set_spec p b h = Inr (u, h') \<Longrightarrow> ila_step h h'"
| decode_set: "set_decode i dc h = Inr (u, h') \<Longrightarrow> ila_step h h'"
| decode_force: "ForceSetDecode i dc h = Inr (u, h') \<Longrightarrow> ila_step h h'"
| update_set: "set_update i nm e h = Inr (u, h') \<Longrightarrow> ila_step h h'"
| update_force: "ForceAddUpdate i nm e h = Inr (u, h') \<Longrightarrow> ila_step h h'"
| program_set: "set_program i q h = Inr (u, h') \<Longrightarrow> ila_step h h'"
| expr_built: "construct op as ps h = Inr (e, h') \<Longrightarrow> ila_step h h'"

inductive reachable :: "heap \<Rightarrow> bool" where
  start: "reachable empty_heap"
| step: "reachable h \<Longrightarrow> ila_step h h' \<Longrightarrow> reachable h'"

lemma keepsD: "keeps f \<Longrightarrow> f h = Inr (x, h') \<Longrightarrow> heap_inv h \<Longrightarrow> heap_inv h'"
  by (auto simp: keeps_def)

lemmas keeps_ops = keeps_AddInput [THEN keepsD] keeps_AddState [THEN keepsD] keeps_AddObject [THEN keepsD]
  keeps_AddInit [THEN keepsD] keeps_Fetch [THEN keepsD] keeps_Valid [THEN keepsD] keeps_AddInstr [THEN keepsD]
  keeps_NewInstr [THEN keepsD] keeps_Instr_New [THEN keepsD] keeps_New_vars [THEN keepsD]
  keeps_AddSeqTran [THEN keepsD] keeps_set_spec [THEN keepsD] keeps_decode [THEN keepsD]
  keeps_updates [THEN keepsD] keeps_set_program [THEN keepsD]

lemma ila_step_inv: "ila_step h h' \<Longrightarrow> heap_inv h \<Longrightarrow> heap_inv h'"
proof (induction rule: ila_step.induct)
  case (new_sub h q nm p h')
  then show ?case using New_inv [of h "Some q"] by simp
next
  case (expr_built op as ps h e h')
  then show ?case by (auto simp: construct_Inr dest: built_fields(6) intro: heap_inv_alloc)
next
  case (new_ila nm h p h')
  then show ?case using New_inv [of h None] by simp
qed (erule (1) keeps_ops NewChild_inv AddChild_inv; assumption)+

lemma reachable_heap_inv: "reachable h \<Longrightarrow> heap_inv h"
  by (induction rule: reachable.induct) (auto simp: heap_inv_empty ila_step_inv)


section \<open>Consequences of the invariant\<close>

lemma root_name_fuel:
  assumes inv: "heap_inv h"
  shows "ilas h p = Some m \<Longrightarrow> p < n \<Longrightarrow> \<exists>nm. GetRootName_n n p h = Inr (nm, h)"
proof (induction n arbitrary: p m)
  case (Suc n)
  show ?case
  proof (cases "ila_parent m")
    case None
    then show ?thesis using Suc.prems by (simp add: monad_simps)
  next
    case (Some q)
    have "q < p" "ilas h q \<noteq> None" using heap_invD(2) [OF inv Suc.prems(1)] Some by (auto simp: ila_links_def)
    with Suc obtain nm where "GetRootName_n n q h = Inr (nm, h)" by fastforce
    then show ?thesis using Suc.prems Some by (simp add: monad_simps)
  qed
qed simp

lemma root_name_more:
  "GetRootName_n n p h = Inr (nm, h') \<Longrightarrow> n \<le> k \<Longrightarrow> GetRootName_n k p h = Inr (nm, h')"
proof (induction n arbitrary: p k nm h')
  case (Suc n)
  then obtain k' where k: "k = Suc k'" "n \<le> k'" by (cases k) auto
  obtain m where m: "ilas h p = Some m" using Suc.prems(1) by auto
  show ?case
  proof (cases "ila_parent m")
    case None
    then show ?thesis using Suc.prems(1) m k by (simp add: monad_simps)
  next
    case (Some q)
    then obtain nm' where "GetRootName_n n q h = Inr (nm', h')" "nm = nm' @ ''.'' @ ila_name m"
      using Suc.prems(1) m by auto
    moreover from Suc.IH [OF this(1) k(2)] have "GetRootName_n k' q h = Inr (nm', h')" .
    ultimately show ?thesis using m Some k by (simp add: monad_simps)
  qed
qed simp

lemma heap_put_same: "ilas h c = Some m \<Longrightarrow> h\<lparr>ilas := (ilas h)(c \<mapsto> m)\<rparr> = h"
  by (simp add: fun_upd_idem)

lemma iter_AddState:
  assumes "ilas h c = Some m" "ila_local m" "distinct (map ename vs)" "list_all is_var vs"
    "ename ` set vs \<inter> (kv_keys (ila_inputs m) \<union> kv_keys (ila_states m)) = {}"
  shows "\<exists>st. iterM (\<lambda>v. AddState c (Some v)) vs h = Inr ((), h\<lparr>ilas := (ilas h)(c \<mapsto> m\<lparr>ila_states := st\<rparr>)\<rparr>) \<and>
     ila_local (m\<lparr>ila_states := st\<rparr>) \<and> kv_entries st = kv_entries (ila_states m) @ map (\<lambda>v. (ename v, v)) vs"
  using assms
proof (induction vs arbitrary: h m)
  case Nil
  have e: "m\<lparr>ila_states := ila_states m\<rparr> = m" by (cases m) simp
  show ?case
    by (rule exI [of _ "ila_states m"]) (simp add: e Nil ret_def heap_put_same [OF Nil(1)] del: fun_upd_apply)
next
  case (Cons v vs)
  let ?st = "snd (push_back (ename v) v (ila_states m))"
  let ?m = "m\<lparr>ila_states := ?st\<rparr>" and ?h = "h\<lparr>ilas := (ilas h)(c \<mapsto> m\<lparr>ila_states := snd (push_back (ename v) v (ila_states m))\<rparr>)\<rparr>"
  have kv: "kv_inv (ila_inputs m)" "kv_inv (ila_states m)" using Cons.prems(2) by (auto simp: ila_local_def var_map_ok_def)
  have none: "find_input m (ename v) = None" "find_state m (ename v) = None"
    using Cons.prems(5) kv by (auto simp: find_input_def find_state_def get_None_iff)
  have step: "AddState c (Some v) h = Inr ((), ?h)"
    using Cons.prems(1,4) none by (simp add: AddState_def Unify_def)
  have push: "var_map_ok ?st" "kv_keys ?st = insert (ename v) (kv_keys (ila_states m))"
    using var_map_push [of "ila_states m" v] none Cons.prems(2,4) by (auto simp: ila_local_def find_state_def)
  have entries: "kv_entries ?st = kv_entries (ila_states m) @ [(ename v, v)]"
    using kv none by (simp add: kv.push_eq find_state_def get_None_iff)
  have "ila_local ?m" using Cons.prems(2) push none kv
    by (auto simp: ila_local_def find_input_def get_None_iff)
  moreover have "ilas ?h c = Some ?m" "distinct (map ename vs)" "list_all is_var vs"
    "ename ` set vs \<inter> (kv_keys (ila_inputs ?m) \<union> kv_keys (ila_states ?m)) = {}"
    using Cons.prems push by (auto simp: list_all_iff)
  ultimately obtain st where st: "iterM (\<lambda>v. AddState c (Some v)) vs ?h =
      Inr ((), ?h\<lparr>ilas := (ilas ?h)(c \<mapsto> ?m\<lparr>ila_states := st\<rparr>)\<rparr>)"
    "ila_local (?m\<lparr>ila_states := st\<rparr>)" "kv_entries st = kv_entries (ila_states ?m) @ map (\<lambda>v. (ename v, v)) vs"
    using Cons.IH [of ?h ?m] by blast
  have "?h\<lparr>ilas := (ilas ?h)(c \<mapsto> ?m\<lparr>ila_states := st\<rparr>)\<rparr> = h\<lparr>ilas := (ilas h)(c \<mapsto> m\<lparr>ila_states := st\<rparr>)\<rparr>"
    by (simp del: fun_upd_apply)
  with st(1) step have "iterM (\<lambda>v. AddState c (Some v)) (v # vs) h =
      Inr ((), h\<lparr>ilas := (ilas h)(c \<mapsto> m\<lparr>ila_states := st\<rparr>)\<rparr>)"
    by (simp add: bnd_def)
  with st(2,3) entries show ?case by (intro exI [of _ st]) (simp del: fun_upd_apply iterM.simps)
qed

lemma iter_AddInput:
  assumes "ilas h c = Some m" "ila_local m" "distinct (map ename vs)" "list_all is_var vs"
    "ename ` set vs \<inter> (kv_keys (ila_inputs m) \<union> kv_keys (ila_states m)) = {}"
  shows "\<exists>st. iterM (\<lambda>v. AddInput c (Some v)) vs h = Inr ((), h\<lparr>ilas := (ilas h)(c \<mapsto> m\<lparr>ila_inputs := st\<rparr>)\<rparr>) \<and>
     ila_local (m\<lparr>ila_inputs := st\<rparr>) \<and> kv_entries st = kv_entries (ila_inputs m) @ map (\<lambda>v. (ename v, v)) vs"
  using assms
proof (induction vs arbitrary: h m)
  case Nil
  have e: "m\<lparr>ila_inputs := ila_inputs m\<rparr> = m" by (cases m) simp
  show ?case
    by (rule exI [of _ "ila_inputs m"]) (simp add: e Nil ret_def heap_put_same [OF Nil(1)] del: fun_upd_apply)
next
  case (Cons v vs)
  let ?st = "snd (push_back (ename v) v (ila_inputs m))"
  let ?m = "m\<lparr>ila_inputs := ?st\<rparr>" and ?h = "h\<lparr>ilas := (ilas h)(c \<mapsto> m\<lparr>ila_inputs := snd (push_back (ename v) v (ila_inputs m))\<rparr>)\<rparr>"
  have kv: "kv_inv (ila_inputs m)" "kv_inv (ila_states m)" using Cons.prems(2) by (auto simp: ila_local_def var_map_ok_def)
  have none: "find_input m (ename v) = None" "find_state m (ename v) = None"
    using Cons.prems(5) kv by (auto simp: find_input_def find_state_def get_None_iff)
  have step: "AddInput c (Some v) h = Inr ((), ?h)"
    using Cons.prems(1,4) none by (simp add: AddInput_def Unify_def)
  have push: "var_map_ok ?st" "kv_keys ?st = insert (ename v) (kv_keys (ila_inputs m))"
    using var_map_push [of "ila_inputs m" v] none Cons.prems(2,4) by (auto simp: ila_local_def find_input_def)
  have entries: "kv_entries ?st = kv_entries (ila_inputs m) @ [(ename v, v)]"
    using kv none by (simp add: kv.push_eq find_input_def get_None_iff)
  have "ila_local ?m" using Cons.prems(2) push none kv
    by (auto simp: ila_local_def find_state_def get_None_iff)
  moreover have "ilas ?h c = Some ?m" "distinct (map ename vs)" "list_all is_var vs"
    "ename ` set vs \<inter> (kv_keys (ila_inputs ?m) \<union> kv_keys (ila_states ?m)) = {}"
    using Cons.prems push by (auto simp: list_all_iff)
  ultimately obtain st where st: "iterM (\<lambda>v. AddInput c (Some v)) vs ?h =
      Inr ((), ?h\<lparr>ilas := (ilas ?h)(c \<mapsto> ?m\<lparr>ila_inputs := st\<rparr>)\<rparr>)"
    "ila_local (?m\<lparr>ila_inputs := st\<rparr>)" "kv_entries st = kv_entries (ila_inputs ?m) @ map (\<lambda>v. (ename v, v)) vs"
    using Cons.IH [of ?h ?m] by blast
  have "?h\<lparr>ilas := (ilas ?h)(c \<mapsto> ?m\<lparr>ila_inputs := st\<rparr>)\<rparr> = h\<lparr>ilas := (ilas h)(c \<mapsto> m\<lparr>ila_inputs := st\<rparr>)\<rparr>"
    by (simp del: fun_upd_apply)
  with st(1) step have "iterM (\<lambda>v. AddInput c (Some v)) (v # vs) h =
      Inr ((), h\<lparr>ilas := (ilas h)(c \<mapsto> m\<lparr>ila_inputs := st\<rparr>)\<rparr>)"
    by (simp add: bnd_def)
  with st(2,3) entries show ?case by (intro exI [of _ st]) (simp del: fun_upd_apply iterM.simps)
qed

text \<open>The variables of an ILA, read back from its map.\<close>

lemma kv_entries_vec: "map snd (kv_entries kv) = vec kv"
  by (rule nth_equalityI) (simp_all add: kv_entries_def)

lemma var_map_vec:
  assumes "var_map_ok kv"
  shows "map (\<lambda>v. (ename v, v)) (vec kv) = kv_entries kv" "list_all is_var (vec kv)"
    "distinct (map ename (vec kv))" "ename ` set (vec kv) = kv_keys kv"
proof -
  have e: "\<forall>(n, e) \<in> set (kv_entries kv). ename e = n \<and> is_var e" and inv: "kv_inv kv"
    using assms by (simp_all add: var_map_ok_def)
  show m: "map (\<lambda>v. (ename v, v)) (vec kv) = kv_entries kv"
    unfolding kv_entries_vec [symmetric] map_map by (rule map_idI) (use e in auto)
  show "list_all is_var (vec kv)"
    unfolding kv_entries_vec [symmetric] using e by (auto simp: list_all_iff)
  have k: "map ename (vec kv) = map fst (kv_entries kv)" unfolding m [symmetric] by (simp add: comp_def)
  show "distinct (map ename (vec kv))" unfolding k using kv.keys_distinct [OF inv] .
  show "ename ` set (vec kv) = kv_keys kv" using arg_cong [OF k, of set] by simp
qed


section \<open>Instruction sequencing: nodes and edges\<close>

text \<open>The nodes list, for every instruction, its successors and predecessors in the order in
  which the edges were added.\<close>

definition seq_inv :: "InstrSeq \<Rightarrow> bool" where
  "seq_inv s =
     (amap_ok (seq_nodes s) \<and>
      (\<forall>i. map_of (seq_nodes s) i =
         (if \<exists>e \<in> set (seq_edges s). i = edge_src e \<or> i = edge_dst e
          then Some \<lparr>node_instr = i,
                     node_next = map edge_dst (filter (\<lambda>e. edge_src e = i) (seq_edges s)),
                     node_prev = map edge_src (filter (\<lambda>e. edge_dst e = i) (seq_edges s))\<rparr>
          else None)))"

lemma node_update_ok [simp]: "amap_ok ns \<Longrightarrow> amap_ok (node_update i f ns)"
  by (simp add: node_update_def split: option.splits)

lemma map_of_node_update:
  "amap_ok ns \<Longrightarrow> map_of (node_update i f ns) j = (if j = i then map_option f (map_of ns i) else map_of ns j)"
  by (simp add: node_update_def map_of_assign split: option.splits)

lemma AddTran_inv: "seq_inv s \<Longrightarrow> seq_inv (AddTran src dst cnd s)"
  unfolding seq_inv_def
  by (auto simp: AddTran_def Let_def map_of_node_update map_of_emplace InstrTranNode_new_def
      InstrTranEdge_new_def AddNext_def AddPrev_def filter_empty_conv)

text \<open>The run of \<^verbatim>\<open>NewChild\<close>: two objects change.\<close>

lemma NewChild_run:
  assumes inv: "heap_inv h" and m: "ilas h p = Some m"
  shows "\<exists>st inp. NewChild p nm h = Inr (counter h + 1, h\<lparr>counter := counter h + 1, ilas := (ilas h)
       (counter h + 1 \<mapsto> (ila_init nm (Some p))\<lparr>ila_states := st, ila_inputs := inp\<rparr>,
        p \<mapsto> m\<lparr>ila_childs := snd (push_back nm (counter h + 1) (ila_childs m))\<rparr>)\<rparr>) \<and>
     kv_inv st \<and> kv_inv inp \<and> kv_entries st = kv_entries (ila_states m) \<and> kv_entries inp = kv_entries (ila_inputs m)"
proof -
  let ?c = "counter h + 1"
  let ?h1 = "h\<lparr>counter := ?c, ilas := (ilas h)(?c \<mapsto> ila_init nm (Some p))\<rparr>"
  have new: "InstrLvlAbs_New nm (Some p) h = Inr (?c, ?h1)" by (simp add: New_run)
  have pc: "p < ?c" using heap_invD(3) [OF inv m] by simp
  have loc: "ila_local m" using heap_invD(1) [OF inv m] .
  then have vm: "var_map_ok (ila_states m)" "var_map_ok (ila_inputs m)" by (simp_all add: ila_local_def)
  have i0: "ila_inputs (ila_init nm (Some p)) = KeyVec_new" "ila_states (ila_init nm (Some p)) = KeyVec_new"
    by (simp_all add: ila_init_def)
  have g1: "ilas ?h1 ?c = Some (ila_init nm (Some p))" by simp
  obtain st where st: "iterM (\<lambda>v. AddState ?c (Some v)) (vec (ila_states m)) ?h1 =
      Inr ((), ?h1\<lparr>ilas := (ilas ?h1)(?c \<mapsto> (ila_init nm (Some p))\<lparr>ila_states := st\<rparr>)\<rparr>)"
    "ila_local ((ila_init nm (Some p))\<lparr>ila_states := st\<rparr>)" "kv_entries st = kv_entries (ila_states m)"
    using iter_AddState [OF g1 ila_local_init var_map_vec(3,2) [OF vm(1)]]
    by (auto simp: i0 var_map_vec [OF vm(1)])
  let ?m1 = "(ila_init nm (Some p))\<lparr>ila_states := st\<rparr>"
  let ?h2 = "?h1\<lparr>ilas := (ilas ?h1)(?c \<mapsto> ?m1)\<rparr>"
  have g2: "ilas ?h2 ?c = Some ?m1" by simp
  have disj: "ename ` set (vec (ila_inputs m)) \<inter> (kv_keys (ila_inputs ?m1) \<union> kv_keys (ila_states ?m1)) = {}"
    using loc by (simp add: i0 st(3) var_map_vec [OF vm(2)] ila_local_def)
  obtain inp where inp: "iterM (\<lambda>v. AddInput ?c (Some v)) (vec (ila_inputs m)) ?h2 =
      Inr ((), ?h2\<lparr>ilas := (ilas ?h2)(?c \<mapsto> ?m1\<lparr>ila_inputs := inp\<rparr>)\<rparr>)"
    "kv_entries inp = kv_entries (ila_inputs m)" "ila_local (?m1\<lparr>ila_inputs := inp\<rparr>)"
    using iter_AddInput [OF g2 st(2) var_map_vec(3,2) [OF vm(2)] disj]
    by (auto simp: i0 var_map_vec [OF vm(2)])
  let ?mc = "?m1\<lparr>ila_inputs := inp\<rparr>"
  let ?h3 = "?h2\<lparr>ilas := (ilas ?h2)(?c \<mapsto> ?mc)\<rparr>"
  let ?m' = "m\<lparr>ila_childs := snd (push_back nm ?c (ila_childs m))\<rparr>"
  have gp: "ilas ?h3 p = Some m" "ilas ?h1 p = Some m" using pc m by auto
  have add: "AddChild p (Some ?c) ?h3 = Inr ((), ?h3\<lparr>ilas := (ilas ?h3)(p \<mapsto> ?m')\<rparr>)"
    using gp by (simp add: AddChild_def monad_simps ila_init_def)
  let ?h4 = "?h3\<lparr>ilas := (ilas ?h3)(p \<mapsto> ?m')\<rparr>"
  have run: "NewChild p nm h = Inr (?c, ?h4)"
    unfolding NewChild_def bnd_def new get_ila_def gp
    by (simp only: sum.case prod.case option.case gp st(1) inp(1) add ret_def)
  have "?h4 = h\<lparr>counter := counter h + 1, ilas := (ilas h)(?c \<mapsto> ?mc, p \<mapsto> ?m')\<rparr>" using pc by (simp add: fun_upd_twist)
  moreover have "kv_inv st" "kv_inv inp" using inp(3) by (simp_all add: ila_local_def var_map_ok_def)
  ultimately show ?thesis using run st(3) inp(2) by (intro exI [of _ st] exI [of _ inp]) simp
qed

section \<open>Properties\<close>

text \<open>C1: Every heap that the operations of the data model can reach satisfies the invariant:
  in every ILA inputs and states are registered under their own, pairwise different names
  and no input shares a name with a state; initial conditions, valid and decode functions
  are Boolean and fetch functions are bit-vectors; parents exist and are older, children and
  instructions exist and are registered under their names.\<close>

theorem reachable_invariant: "reachable h \<Longrightarrow> heap_inv h"
  by (rule reachable_heap_inv)

text \<open>C25: On a reachable heap the qualified name of an ILA is always computed: the walk along
  the parents ends, and the name is the parent's qualified name, a dot and the own name.\<close>

theorem GetRootName_returns:
  assumes "reachable h" "ilas h p = Some m"
  shows "\<exists>nm. GetRootName p h = Inr (nm, h) \<and>
    (case ila_parent m of None \<Rightarrow> nm = ila_name m
     | Some q \<Rightarrow> \<exists>nq. GetRootName q h = Inr (nq, h) \<and> nm = nq @ ''.'' @ ila_name m)"
proof (cases "ila_parent m")
  case None
  then show ?thesis using assms(2) by (simp add: GetRootName_def monad_simps)
next
  case (Some q)
  have inv: "heap_inv h" using assms(1) by (rule reachable_heap_inv)
  then have q: "q < p" "ilas h q \<noteq> None"
    using heap_invD(2) [OF inv assms(2)] Some by (auto simp: ila_links_def)
  then obtain nq where nq: "GetRootName_n (Suc q) q h = Inr (nq, h)"
    using root_name_fuel [OF inv, of q] by blast
  have "GetRootName_n p q h = Inr (nq, h)" by (rule root_name_more [OF nq]) (use q(1) in simp)
  then show ?thesis using assms(2) Some nq
    by (simp add: GetRootName_def GetRootName_n.simps(2) [of p] monad_simps del: GetRootName_n.simps)
qed

text \<open>C24: Creating a child succeeds on every ILA of a reachable heap. The child has exactly the
  parent's states and inputs, in order, points to the parent, and has no instructions or
  children; the parent registers it unless it already has a child of that name.\<close>

theorem NewChild_inherits:
  assumes "reachable h" "ilas h p = Some m"
  shows "\<exists>c h' mc m'. NewChild p nm h = Inr (c, h') \<and> ilas h c = None \<and> ilas h' c = Some mc \<and>
     ilas h' p = Some m' \<and> ila_parent mc = Some p \<and> ila_name mc = nm \<and>
     kv_entries (ila_states mc) = kv_entries (ila_states m) \<and>
     kv_entries (ila_inputs mc) = kv_entries (ila_inputs m) \<and>
     kv_entries (ila_instrs mc) = [] \<and> kv_entries (ila_childs mc) = [] \<and>
     kv_entries (ila_childs m') = (if nm \<in> kv_keys (ila_childs m) then kv_entries (ila_childs m)
                                   else kv_entries (ila_childs m) @ [(nm, c)])"
proof -
  have inv: "heap_inv h" using assms(1) by (rule reachable_heap_inv)
  let ?c = "counter h + 1" and ?m' = "m\<lparr>ila_childs := snd (push_back nm (counter h + 1) (ila_childs m))\<rparr>"
  obtain st inp where run: "NewChild p nm h = Inr (?c, h\<lparr>counter := ?c, ilas := (ilas h)
      (?c \<mapsto> (ila_init nm (Some p))\<lparr>ila_states := st, ila_inputs := inp\<rparr>, p \<mapsto> ?m')\<rparr>)"
    "kv_entries st = kv_entries (ila_states m)" "kv_entries inp = kv_entries (ila_inputs m)"
    using NewChild_run [OF inv assms(2)] by blast
  have "p < ?c" using heap_invD(3) [OF inv assms(2)] by simp
  moreover have "ilas h ?c = None" using fresh_ila [OF inv] by simp
  moreover have "kv_inv (ila_childs m)" using heap_invD(1) [OF inv assms(2)] by (simp add: ila_local_def)
  ultimately show ?thesis
    using run kv.push_eq [of "ila_childs m" nm ?c]
    by (intro exI [of _ ?c] exI [of _ "h\<lparr>counter := ?c, ilas := (ilas h)
      (?c \<mapsto> (ila_init nm (Some p))\<lparr>ila_states := st, ila_inputs := inp\<rparr>, p \<mapsto> ?m')\<rparr>"]) (auto simp: ila_init_def)
qed

text \<open>C26: Registering a state succeeds exactly when the ILA exists, the expression is a variable
  and its name is neither an input nor a state; afterwards the state is found under its
  name, every other lookup is unchanged, and the new state is the last one.\<close>

theorem AddState_registers:
  assumes "heap_inv h" "ilas h p = Some m"
  shows "if is_var v \<and> find_input m (ename v) = None \<and> find_state m (ename v) = None
    then \<exists>m'. AddState p (Some v) h = Inr ((), h\<lparr>ilas := (ilas h)(p \<mapsto> m')\<rparr>) \<and>
           (\<forall>n. find_state m' n = (if n = ename v then Some v else find_state m n)) \<and>
           (\<forall>n. find_input m' n = find_input m n) \<and> vec (ila_states m') = vec (ila_states m) @ [v]
    else \<exists>msg. AddState p (Some v) h = Inl (IlaAssert msg)"
proof (cases "is_var v \<and> find_input m (ename v) = None \<and> find_state m (ename v) = None")
  case True
  let ?st = "snd (push_back (ename v) v (ila_states m))"
  have inv: "kv_inv (ila_states m)"
    using heap_invD(1) [OF assms] by (simp add: ila_local_def var_map_ok_def)
  have "AddState p (Some v) h = Inr ((), h\<lparr>ilas := (ilas h)(p \<mapsto> m\<lparr>ila_states := ?st\<rparr>)\<rparr>)"
    using True assms(2) by (simp add: AddState_def Unify_def)
  moreover have "kv_get ?st n = (if n = ename v then Some v else kv_get (ila_states m) n)" for n
    using True by (simp add: kv.get_push [OF inv] find_state_def)
  moreover have "vec ?st = vec (ila_states m) @ [v]"
    using True inv unfolding kv_entries_vec [symmetric] by (simp add: kv.push_eq find_state_def get_None_iff)
  ultimately show ?thesis
    using True by (auto simp: find_state_def find_input_def intro!: exI [of _ "m\<lparr>ila_states := ?st\<rparr>"])
next
  case False
  then show ?thesis using assms(2) by (auto simp: AddState_def monad_simps)
qed

text \<open>C27: An update function is set at most once by \<open>set_update\<close>: the first call defines it, a
  later call for the same state changes nothing, and \<open>ForceAddUpdate\<close> replaces it; updates of
  other states are never touched.\<close>

theorem set_update_first_wins:
  assumes "heap_inv h" "instrs h i = Some x"
  shows "\<exists>x1 x2. set_update i nm e h = Inr ((), h\<lparr>instrs := (instrs h)(i \<mapsto> x1)\<rparr>) \<and>
     ForceAddUpdate i nm e h = Inr ((), h\<lparr>instrs := (instrs h)(i \<mapsto> x2)\<rparr>) \<and>
     update x1 nm = (case update x nm of None \<Rightarrow> Some e | Some d \<Rightarrow> Some d) \<and> update x2 nm = Some e \<and>
     (\<forall>n. n \<noteq> nm \<longrightarrow> update x1 n = update x n \<and> update x2 n = update x n)"
proof -
  have ok: "amap_ok (instr_updates x)" using heap_invD(4) [OF assms] by (simp add: instr_ok_def)
  let ?x2 = "x\<lparr>instr_updates := amap_assign nm e (instr_updates x)\<rparr>"
  have F: "ForceAddUpdate i nm e h = Inr ((), h\<lparr>instrs := (instrs h)(i \<mapsto> ?x2)\<rparr>)"
    using assms(2) by (simp add: ForceAddUpdate_def Unify_def)
  have U: "update ?x2 n = (if n = nm then Some e else update x n)" for n
    using ok by (simp add: update_def map_of_assign)
  show ?thesis
  proof (cases "update x nm")
    case None
    then have "set_update i nm e h = Inr ((), h\<lparr>instrs := (instrs h)(i \<mapsto> ?x2)\<rparr>)"
      using F assms(2) by (simp add: set_update_def update_def monad_simps)
    with F U None show ?thesis by (intro exI [of _ ?x2]) simp
  next
    case (Some d)
    have "h\<lparr>instrs := (instrs h)(i \<mapsto> x)\<rparr> = h" using assms(2) by (simp add: fun_upd_idem)
    with Some have "set_update i nm e h = Inr ((), h\<lparr>instrs := (instrs h)(i \<mapsto> x)\<rparr>)"
      using assms(2) by (simp add: set_update_def update_def monad_simps)
    with F U Some show ?thesis by (intro exI [of _ x] exI [of _ ?x2]) simp
  qed
qed

text \<open>In an instruction sequence built from the empty one by adding transitions, every
  instruction that occurs in an edge has one node, whose successors and predecessors are
  those of the edges, in the order the edges were added; no other instruction has a node.\<close>

theorem AddTran_nodes:
  "seq_inv (fold (\<lambda>(src, dst, cnd). AddTran src dst cnd) ts InstrSeq_New) \<and>
   seq_edges (fold (\<lambda>(src, dst, cnd). AddTran src dst cnd) ts InstrSeq_New) =
     map (\<lambda>(src, dst, cnd). InstrTranEdge_new src dst cnd) ts"
proof -
  have "seq_inv s \<Longrightarrow> seq_inv (fold (\<lambda>(src, dst, cnd). AddTran src dst cnd) ts s) \<and>
    seq_edges (fold (\<lambda>(src, dst, cnd). AddTran src dst cnd) ts s) =
      seq_edges s @ map (\<lambda>(src, dst, cnd). InstrTranEdge_new src dst cnd) ts" for s
    by (induction ts arbitrary: s) (auto simp: AddTran_inv, simp add: AddTran_def Let_def)
  moreover have "seq_inv InstrSeq_New" by (simp add: seq_inv_def InstrSeq_New_def)
  ultimately show ?thesis by (auto simp: InstrSeq_New_def)
qed


section \<open>Instances\<close>

text \<open>A reachable heap: an ILA with a Boolean state and an instruction that sets it.\<close>

definition small_model :: "nat M" where
  "small_model =
     bnd (InstrLvlAbs_New ''m'' None) (\<lambda>p.
     bnd (NewBoolState p ''s'') (\<lambda>s.
     bnd (NewInstr p ''i'') (\<lambda>i.
     bnd (set_update i ''s'' s) (\<lambda>_. ret p))))"

definition small_heap :: heap where
  "small_heap = (case small_model empty_heap of Inr (p, h) \<Rightarrow> h | Inl _ \<Rightarrow> empty_heap)"

lemma small_model_run: "\<exists>h. small_model empty_heap = Inr (1, h)"
  by (simp add: small_model_def monad_simps InstrLvlAbs_New_def empty_heap_def NewBoolState_def
      NewBoolVar_def ExprVar_bool_def AddState_def find_input_def find_state_def ila_init_def
      KeyVec_new_def kv_get_conv NewInstr_def Instr_New_def AddInstr_def set_update_def
      ForceAddUpdate_def Let_def set_host_def)

lemma small_heap_reachable: "reachable small_heap"
proof -
  obtain h where h: "small_model empty_heap = Inr (1, h)" using small_model_run by blast
  then obtain p h1 s h2 i h3 where "InstrLvlAbs_New ''m'' None empty_heap = Inr (p, h1)"
    "NewBoolState p ''s'' h1 = Inr (s, h2)" "NewInstr p ''i'' h2 = Inr (i, h3)"
    "set_update i ''s'' s h3 = Inr ((), h)"
    by (auto simp: small_model_def)
  then have "reachable h"
    by (meson reachable.intros ila_step.intros)
  with h show ?thesis by (simp add: small_heap_def)
qed

lemma small_heap_objects: "\<exists>m. ilas small_heap 1 = Some m \<and> ila_parent m = None \<and> ila_name m = ''m''"
  "\<exists>x. instrs small_heap 3 = Some x"
  by (simp_all add: small_heap_def small_model_def monad_simps InstrLvlAbs_New_def empty_heap_def NewBoolState_def
      NewBoolVar_def ExprVar_bool_def AddState_def find_input_def find_state_def ila_init_def
      KeyVec_new_def kv_get_conv NewInstr_def Instr_New_def AddInstr_def set_update_def
      ForceAddUpdate_def Let_def set_host_def)

theorem reachable_invariant_witness: "reachable small_heap \<and> heap_inv small_heap \<and> ilas small_heap 1 \<noteq> None"
  using reachable_invariant [OF small_heap_reachable] small_heap_reachable small_heap_objects(1) by auto

theorem GetRootName_returns_witness: "GetRootName 1 small_heap = Inr (''m'', small_heap)"
proof -
  obtain m where m: "ilas small_heap 1 = Some m" "ila_parent m = None" "ila_name m = ''m''"
    using small_heap_objects(1) by blast
  from GetRootName_returns [OF small_heap_reachable m(1)] m show ?thesis by auto
qed

theorem NewChild_inherits_witness:
  "\<exists>c h' mc. NewChild 1 ''c'' small_heap = Inr (c, h') \<and> ilas h' c = Some mc \<and> ila_parent mc = Some 1"
proof -
  obtain m where m: "ilas small_heap 1 = Some m" using small_heap_objects(1) by blast
  from NewChild_inherits [OF small_heap_reachable m, of "''c''"] show ?thesis by blast
qed

theorem AddState_registers_witness:
  "\<exists>m msg. ilas small_heap 1 = Some m \<and> AddState 1 (Some const9) small_heap = Inl (IlaAssert msg)"
proof -
  obtain m where m: "ilas small_heap 1 = Some m" using small_heap_objects(1) by blast
  from AddState_registers [OF reachable_heap_inv [OF small_heap_reachable] m, of const9] m
  show ?thesis by (auto simp: const9_def)
qed

theorem set_update_first_wins_witness:
  "\<exists>h1. set_update 3 ''t'' const9 small_heap = Inr ((), h1)"
proof -
  obtain x where x: "instrs small_heap 3 = Some x" using small_heap_objects(2) by blast
  from set_update_first_wins [OF reachable_heap_inv [OF small_heap_reachable] x, of "''t''" const9]
  show ?thesis by blast
qed

end
