(* ===== verification/Rewriter.thy ===== *)
theory Rewriter
  imports Ilas
begin

text \<open>
  Rewriting of expressions: the function object \<^verbatim>\<open>FuncObjRewrExpr\<close>
  (src/ila-mngr/u\_rewrite\_expr.cc) with its two subclasses
  (src/ila-mngr/p\_rewrite\_conditional\_store.cc and p\_rewrite\_store\_load.cc).

  A rewriting table maps an expression to its replacement; a replacement is an option
  because \<^verbatim>\<open>RewriteOp\<close> returns a null pointer for the operations it does not know.
  The virtual \<^verbatim>\<open>RewriteOp\<close> is a parameter of the functions that call it.
\<close>

section \<open>The function object\<close>

type_synonym ExprMap = "expr \<rightharpoonup> expr option"

type_synonym rewrite_op = "ExprMap \<Rightarrow> expr \<Rightarrow> expr option M"

definition rewr_get :: "ExprMap \<Rightarrow> expr \<Rightarrow> expr option M" where
  "rewr_get rule e =
     lift (case rule e of None \<Rightarrow> Inl (IlaAssert ''not found'') | Some dst \<Rightarrow> Inr dst)"

definition rewr_pre :: "ExprMap \<Rightarrow> expr \<Rightarrow> bool" where
  "rewr_pre rule e = (rule e \<noteq> None)"

definition deref :: "'a option \<Rightarrow> 'a M" where
  "deref p = lift (case p of None \<Rightarrow> Inl NullDeref | Some x \<Rightarrow> Inr x)"

definition Rewrite :: "rewrite_op \<Rightarrow> ExprMap \<Rightarrow> expr \<Rightarrow> expr option M" where
  "Rewrite rewrite_op rule e =
     (if is_var e \<or> is_const e then ret (Some e)
      else bnd (ila_assert (is_op e) ''Unkown type'') (\<lambda>_. rewrite_op rule e))"

definition rewr_post :: "rewrite_op \<Rightarrow> ExprMap \<Rightarrow> expr \<Rightarrow> ExprMap M" where
  "rewr_post rewrite_op rule e =
     bnd (Rewrite rewrite_op rule e) (\<lambda>dst.
     bnd (ila_assert (rule e = None) ''Rewriting rule redefined (exist cycle in the AST)'') (\<lambda>_.
     ret (rule(e \<mapsto> dst))))"

text \<open>\<^verbatim>\<open>e->DepthFirstVisitPrePost(func)\<close> with the table of the function object and the
  heap as the state of the visit.\<close>

definition rewr_visit :: "rewrite_op \<Rightarrow> ExprMap \<Rightarrow> expr \<Rightarrow> ExprMap M" where
  "rewr_visit rewrite_op rule e =
     (\<lambda>h. DepthFirstVisitPrePost (\<lambda>x st. rewr_pre (fst st) x)
            (\<lambda>x st. rewr_post rewrite_op (fst st) x (snd st)) e (rule, h))"

definition get_arg :: "ExprMap \<Rightarrow> expr \<Rightarrow> nat \<Rightarrow> expr option M" where
  "get_arg rule e i = bnd (lift (arg e i)) (rewr_get rule)"

definition rewr1 :: "ExprMap \<Rightarrow> expr \<Rightarrow> (expr \<Rightarrow> expr M) \<Rightarrow> expr option M" where
  "rewr1 rule e f =
     bnd (get_arg rule e 0) (\<lambda>p. bnd (deref p) (\<lambda>a. bnd (f a) (\<lambda>d. ret (Some d))))"

definition rewr2 :: "ExprMap \<Rightarrow> expr \<Rightarrow> (expr \<Rightarrow> expr \<Rightarrow> expr M) \<Rightarrow> expr option M" where
  "rewr2 rule e f =
     bnd (get_arg rule e 0) (\<lambda>p0. bnd (get_arg rule e 1) (\<lambda>p1.
     bnd (deref p0) (\<lambda>a0. bnd (deref p1) (\<lambda>a1. bnd (f a0 a1) (\<lambda>d. ret (Some d))))))"

definition rewr3 :: "ExprMap \<Rightarrow> expr \<Rightarrow> (expr \<Rightarrow> expr \<Rightarrow> expr \<Rightarrow> expr M) \<Rightarrow> expr option M" where
  "rewr3 rule e f =
     bnd (get_arg rule e 0) (\<lambda>p0. bnd (get_arg rule e 1) (\<lambda>p1. bnd (get_arg rule e 2) (\<lambda>p2.
     bnd (deref p0) (\<lambda>a0. bnd (deref p1) (\<lambda>a1. bnd (deref p2) (\<lambda>a2.
     bnd (f a0 a1 a2) (\<lambda>d. ret (Some d))))))))"

definition RewriteOp :: rewrite_op where
  "RewriteOp rule e =
     bnd (lift (GetUidExprOp e)) (\<lambda>expr_op_uid. case expr_op_uid of
       kNegate \<Rightarrow> rewr1 rule e Negate
     | kNot \<Rightarrow> rewr1 rule e NotE
     | kComplement \<Rightarrow> rewr1 rule e Complement
     | kAnd \<Rightarrow> rewr2 rule e AndE
     | kOr \<Rightarrow> rewr2 rule e OrE
     | kXor \<Rightarrow> rewr2 rule e XorE
     | kShiftLeft \<Rightarrow> rewr2 rule e Shl
     | kArithShiftRight \<Rightarrow> rewr2 rule e Ashr
     | kLogicShiftRight \<Rightarrow> rewr2 rule e Lshr
     | kAdd \<Rightarrow> rewr2 rule e Add
     | kSubtract \<Rightarrow> rewr2 rule e Sub
     | kDivide \<Rightarrow> rewr2 rule e Div
     | kUnsignedRemainder \<Rightarrow> rewr2 rule e URem
     | kMultiply \<Rightarrow> rewr2 rule e Mul
     | kEqual \<Rightarrow> rewr2 rule e EqE
     | kLessThan \<Rightarrow> rewr2 rule e Lt
     | kGreaterThan \<Rightarrow> rewr2 rule e Gt
     | kUnsignedLessThan \<Rightarrow> rewr2 rule e Ult
     | kUnsignedGreaterThan \<Rightarrow> rewr2 rule e Ugt
     | kLoad \<Rightarrow> rewr2 rule e Load
     | kStore \<Rightarrow> rewr3 rule e Store
     | kConcatenate \<Rightarrow> rewr2 rule e Concat
     | kExtract \<Rightarrow> rewr1 rule e (\<lambda>a. bnd (lift (param e 0)) (\<lambda>p0. bnd (lift (param e 1)) (Extract a p0)))
     | kZeroExtend \<Rightarrow> rewr1 rule e (\<lambda>a. bnd (lift (param e 0)) (ZExt a))
     | kSignedExtend \<Rightarrow> rewr1 rule e (\<lambda>a. bnd (lift (param e 0)) (SExt a))
     | kRotateLeft \<Rightarrow> rewr1 rule e (\<lambda>a. bnd (lift (param e 0)) (LRotate a))
     | kRotateRight \<Rightarrow> rewr1 rule e (\<lambda>a. bnd (lift (param e 0)) (RRotate a))
     | kImply \<Rightarrow> rewr2 rule e Imply
     | kIfThenElse \<Rightarrow> rewr3 rule e Ite
     | kApplyFunc \<Rightarrow> (case ekind e of
         KApp f \<Rightarrow>
           bnd (mapM (\<lambda>a. bnd (rewr_get rule a) deref) (eargs e)) (\<lambda>args.
           bnd (AppFunc f args) (\<lambda>d. ret (Some d)))
       | _ \<Rightarrow> lift (Inl NullDeref))
     | kInvalid \<Rightarrow> ret None
     | kSignedRemainder \<Rightarrow> ret None
     | kSignedModular \<Rightarrow> ret None)"

text \<open>A rewriting as the passes call it: visit, then look the result up; the table is kept.\<close>

definition rewr_expr :: "rewrite_op \<Rightarrow> ExprMap \<Rightarrow> expr \<Rightarrow> (expr option \<times> ExprMap) M" where
  "rewr_expr rewrite_op rule e =
     bnd (rewr_visit rewrite_op rule e) (\<lambda>rule'. bnd (rewr_get rule' e) (\<lambda>d. ret (d, rule')))"

section \<open>Conditional stores\<close>

definition IsStore :: "expr \<Rightarrow> bool M" where
  "IsStore x =
     bnd (ila_assert (e_is_mem x) ''Invariant violation'') (\<lambda>_.
     if is_op x then bnd (lift (GetUidExprOp x)) (\<lambda>u. ret (u = kStore)) else ret False)"

text \<open>The patterns of \<^verbatim>\<open>RewriteCondMem\<close>; \<open>None\<close> is a pattern that does not apply.\<close>

definition cond_single_1 :: "expr \<Rightarrow> expr \<Rightarrow> expr \<Rightarrow> expr option M" where
  "cond_single_1 cnd mem1 mem2 =
     bnd (IsStore mem1) (\<lambda>s1. if s1 \<and> \<not> is_op mem2 then
       bnd (lift (arg mem1 0)) (\<lambda>base. if base = mem2 then
         bnd (lift (arg mem1 1)) (\<lambda>mem1_addr.
         bnd (lift (arg mem1 2)) (\<lambda>mem1_data.
         bnd (Load mem2 mem1_addr) (\<lambda>ld.
         bnd (Ite cnd mem1_data ld) (\<lambda>new_data.
         bnd (Store mem2 mem1_addr new_data) (\<lambda>d. ret (Some d))))))
       else ret None)
     else ret None)"

definition cond_single_2 :: "expr \<Rightarrow> expr \<Rightarrow> expr \<Rightarrow> expr option M" where
  "cond_single_2 cnd mem1 mem2 =
     (if is_op mem1 then ret None else
      bnd (IsStore mem2) (\<lambda>s2. if s2 then
        bnd (lift (arg mem2 0)) (\<lambda>base. if base = mem1 then
          bnd (lift (arg mem2 1)) (\<lambda>mem2_addr.
          bnd (lift (arg mem2 2)) (\<lambda>mem2_data.
          bnd (Load mem1 mem2_addr) (\<lambda>ld.
          bnd (Ite cnd ld mem2_data) (\<lambda>new_data.
          bnd (Store mem1 mem2_addr new_data) (\<lambda>d. ret (Some d))))))
        else ret None)
      else ret None))"

definition cond_same_dest :: "expr \<Rightarrow> expr \<Rightarrow> expr \<Rightarrow> expr option M" where
  "cond_same_dest cnd mem1 mem2 =
     bnd (IsStore mem1) (\<lambda>s1. if s1 then bnd (IsStore mem2) (\<lambda>s2. if s2 then
       bnd (lift (arg mem1 0)) (\<lambda>base1. bnd (lift (arg mem2 0)) (\<lambda>base2. if base1 = base2 then
         bnd (lift (arg mem1 1)) (\<lambda>a1. bnd (lift (arg mem2 1)) (\<lambda>a2.
         bnd (Ite cnd a1 a2) (\<lambda>new_addr.
         bnd (lift (arg mem1 2)) (\<lambda>d1. bnd (lift (arg mem2 2)) (\<lambda>d2.
         bnd (Ite cnd d1 d2) (\<lambda>new_data.
         bnd (Store base1 new_addr new_data) (\<lambda>d. ret (Some d))))))))
       else ret None))
     else ret None) else ret None)"

definition RewriteCondMem :: rewrite_op where
  "RewriteCondMem rule e =
     bnd (get_arg rule e 0) (\<lambda>p_cond.
     bnd (get_arg rule e 1) (\<lambda>p_mem1.
     bnd (get_arg rule e 2) (\<lambda>p_mem2.
     if p_mem1 = p_mem2 then ret p_mem1 else
     bnd (deref p_mem1) (\<lambda>mem1. bnd (deref p_mem2) (\<lambda>mem2. bnd (deref p_cond) (\<lambda>cnd.
     bnd (cond_single_1 cnd mem1 mem2) (\<lambda>r1. if r1 \<noteq> None then ret r1 else
     bnd (cond_single_2 cnd mem1 mem2) (\<lambda>r2. if r2 \<noteq> None then ret r2 else
     bnd (cond_same_dest cnd mem1 mem2) (\<lambda>r3. if r3 \<noteq> None then ret r3 else
     RewriteOp rule e)))))))))"

definition CondStore_RewriteOp :: rewrite_op where
  "CondStore_RewriteOp rule e =
     (if e_is_mem e then
        bnd (lift (GetUidExprOp e)) (\<lambda>u. if u = kIfThenElse then RewriteCondMem rule e else RewriteOp rule e)
      else RewriteOp rule e)"

section \<open>Loads of stores\<close>

text \<open>
  \<^verbatim>\<open>FuncObjRewrStoreLoad::RewriteOp\<close> takes its argument by value, so it is not an
  override of the virtual function and is never called: the pass runs the base class's
  \<open>RewriteOp\<close>. \<open>StoreLoad_RewriteOp\<close> is the function as it is written.
\<close>

definition RewriteLoad :: rewrite_op where
  "RewriteLoad rule e =
     bnd (get_arg rule e 0) (\<lambda>p_mem. bnd (deref p_mem) (\<lambda>mem.
     if is_var mem \<or> is_const mem then ret (Some e) else
     bnd (IsStore mem) (\<lambda>st.
     bnd (if st then bnd (lift (arg mem 0)) (\<lambda>base. ret (\<not> is_op base)) else ret False) (\<lambda>single.
     if single then
       bnd (get_arg rule e 1) (\<lambda>p_addr.
       bnd (lift (arg mem 1)) (\<lambda>addr_store.
       bnd (deref p_addr) (\<lambda>addr_load.
       bnd (EqE addr_load addr_store) (\<lambda>cnd.
       bnd (lift (arg mem 0)) (\<lambda>base.
       bnd (Load base addr_load) (\<lambda>data_load.
       bnd (lift (arg mem 2)) (\<lambda>data_store.
       bnd (Ite cnd data_store data_load) (\<lambda>d. ret (Some d)))))))))
     else RewriteOp rule e))))"

definition StoreLoad_RewriteOp :: rewrite_op where
  "StoreLoad_RewriteOp rule e =
     bnd (lift (GetUidExprOp e)) (\<lambda>u. if u = kLoad then RewriteLoad rule e else RewriteOp rule e)"

section \<open>What a rewriting keeps\<close>

fun every :: "(expr \<Rightarrow> bool) \<Rightarrow> expr \<Rightarrow> bool" where
  "every P (Expr i n s h ps as k) = (P (Expr i n s h ps as k) \<and> list_all (every P) as)"

definition supported :: "expr \<Rightarrow> bool" where
  "supported e = (ekind e \<noteq> KOp kSignedRemainder \<and> ekind e \<noteq> KOp kSignedModular)"

definition host_in :: "heap \<Rightarrow> expr \<Rightarrow> bool" where
  "host_in h e = (\<forall>p. ehost e = Some p \<longrightarrow> ilas h p \<noteq> None)"

text \<open>An expression the rewriter accepts: well formed, without the two operations it does not
  know, and with hosts that exist.\<close>

definition good :: "heap \<Rightarrow> expr \<Rightarrow> bool" where
  "good h e = (wf_expr e \<and> every (\<lambda>x. supported x \<and> host_in h x) e)"

text \<open>\<open>replaces R h e d\<close>: \<open>d\<close> may stand for \<open>e\<close>. It has the same sort, and for every pair
  of interpretations in \<open>R\<close> its value under the first is that of \<open>e\<close> under the second.\<close>

definition replaces :: "(interp \<times> interp) set \<Rightarrow> heap \<Rightarrow> expr \<Rightarrow> expr \<Rightarrow> bool" where
  "replaces R h e d = (good h d \<and> esort d = esort e \<and> (\<forall>(I, J) \<in> R. eval I d = eval J e))"

definition table_ok :: "(interp \<times> interp) set \<Rightarrow> heap \<Rightarrow> ExprMap \<Rightarrow> bool" where
  "table_ok R h rule = (\<forall>e p. rule e = Some p \<longrightarrow> (\<exists>d. p = Some d \<and> replaces R h e d))"

definition covered :: "(interp \<times> interp) set \<Rightarrow> heap \<Rightarrow> ExprMap \<Rightarrow> expr \<Rightarrow> bool" where
  "covered R h rule e = (\<exists>d. rule e = Some (Some d) \<and> replaces R h e d)"

definition fun_agree :: "(interp \<times> interp) set \<Rightarrow> bool" where
  "fun_agree R = (\<forall>(I, J) \<in> R. interp_ok I \<and> ifun I = ifun J)"

fun subexprs :: "expr \<Rightarrow> expr set" where
  "subexprs (Expr i n s h ps as k) = insert (Expr i n s h ps as k) (\<Union>a \<in> set as. subexprs a)"

lemma every_args: "every P e \<Longrightarrow> a \<in> set (eargs e) \<Longrightarrow> every P a"
  by (cases e) (auto simp: list_all_iff)

lemma every_node: "every P e \<Longrightarrow> P e"
  by (cases e) simp

lemma good_args: "good h e \<Longrightarrow> a \<in> set (eargs e) \<Longrightarrow> good h a"
  by (auto simp: good_def wf_args intro: every_args)

lemma good_alloc: "only_alloc h h' \<Longrightarrow> good h' e \<longleftrightarrow> good h e"
proof -
  assume "only_alloc h h'"
  then have "host_in h' = host_in h" by (auto simp: host_in_def only_alloc_def fun_eq_iff)
  then show ?thesis by (simp add: good_def)
qed

lemma good_dom: "dom (ilas h') = dom (ilas h) \<Longrightarrow> good h' e \<longleftrightarrow> good h e"
proof -
  assume "dom (ilas h') = dom (ilas h)"
  then have "ilas h' p = None \<longleftrightarrow> ilas h p = None" for p by (metis domIff)
  then have "host_in h' = host_in h" by (auto simp: host_in_def fun_eq_iff)
  then show ?thesis by (simp add: good_def)
qed

lemma inv_childs_grow: "heap_inv h \<Longrightarrow> childs_grow h"
proof -
  assume inv: "heap_inv h"
  have "\<forall>c \<in> set (vec (ila_childs m)). p < c" if "ilas h p = Some m" for p m
    using heap_invD(2) [OF inv that] by (force simp: ila_links_def simp flip: kv_entries_vec)
  then show ?thesis by (simp add: childs_grow_def)
qed

lemma replaces_alloc: "only_alloc h h' \<Longrightarrow> replaces R h' e d \<longleftrightarrow> replaces R h e d"
  by (simp add: replaces_def good_alloc)

lemma covered_alloc: "only_alloc h h' \<Longrightarrow> covered R h' rule e \<longleftrightarrow> covered R h rule e"
  by (simp add: covered_def replaces_alloc)

lemma table_alloc: "only_alloc h h' \<Longrightarrow> table_ok R h' rule \<longleftrightarrow> table_ok R h rule"
  by (simp add: table_ok_def replaces_alloc)

lemma table_covered: "table_ok R h rule \<Longrightarrow> rule e \<noteq> None \<Longrightarrow> covered R h rule e"
  by (auto simp: table_ok_def covered_def)

lemma size_subexprs: "x \<in> subexprs e \<Longrightarrow> size x \<le> size e"
proof (induction e rule: subexprs.induct)
  case (1 i n s h ps as k)
  show ?case
  proof (cases "x = Expr i n s h ps as k")
    case False
    then obtain a where "a \<in> set as" "x \<in> subexprs a" using 1(2) by auto
    then have "size x \<le> size a" "size a \<le> size_list size as" using 1(1) by (auto intro: size_list_estimation')
    then show ?thesis by simp
  qed simp
qed

lemma arg_not_super: "a \<in> set (eargs e) \<Longrightarrow> e \<notin> subexprs a"
proof
  assume a: "a \<in> set (eargs e)" "e \<in> subexprs a"
  then have "size e \<le> size a" by (simp add: size_subexprs)
  moreover have "size a < size e"
    using a(1) size_list_estimation' [of a "eargs e" "size a" size] by (cases e) simp
  ultimately show False by simp
qed

section \<open>The contract of a node rewriting\<close>

text \<open>
  The function object promises for each operation node whose arguments have replacements
  a replacement of the node. The visit then covers the whole expression, whatever the
  overridden \<^verbatim>\<open>RewriteOp\<close> does.
\<close>

locale node_rewriting =
  fixes R :: "(interp \<times> interp) set" and rewrite_op :: rewrite_op
  assumes funs: "fun_agree R"
    and node: "good h e \<Longrightarrow> is_op e \<Longrightarrow> childs_grow h \<Longrightarrow>
      \<forall>a \<in> set (eargs e). covered R h rule a \<Longrightarrow>
      \<exists>d h'. rewrite_op rule e h = Inr (Some d, h') \<and> only_alloc h h' \<and> replaces R h' e d"
begin

text \<open>A leaf that the table does not replace must mean the same on both sides.\<close>

definition leaves_agree :: "ExprMap \<Rightarrow> bool" where
  "leaves_agree rule = (\<forall>(I, J) \<in> R. \<forall>v. ekind v = KVar \<longrightarrow> rule v = None \<longrightarrow> ivar I v = ivar J v)"

lemma leaf_replaces:
  assumes "good h e" "\<not> is_op e" "rule e = None" "leaves_agree rule"
  shows "replaces R h e e"
proof -
  have "eval I e = eval J e" if "(I, J) \<in> R" for I J
    using assms that funs by (cases e; cases "ekind e") (auto simp: leaves_agree_def)
  with assms show ?thesis by (auto simp: replaces_def)
qed

lemma post_ok:
  assumes "good h e" "childs_grow h" "\<forall>a \<in> set (eargs e). covered R h rule a"
    and "rule e = None" "leaves_agree rule"
  shows "\<exists>d h'. rewr_post rewrite_op rule e h = Inr (rule(e \<mapsto> Some d), h') \<and>
     only_alloc h h' \<and> replaces R h' e d"
proof (cases "is_op e")
  case True
  then have "\<not> (is_var e \<or> is_const e)" by auto
  with node [OF assms(1) True assms(2,3)] True assms(4) show ?thesis
    by (auto simp: rewr_post_def Rewrite_def simp del: is_var_iff is_const_iff is_op_iff)
next
  case False
  then have "is_var e \<or> is_const e" by (cases "ekind e") auto
  with leaf_replaces [OF assms(1) False assms(4,5)] assms(4) show ?thesis
    by (auto simp: rewr_post_def Rewrite_def simp del: is_var_iff is_const_iff is_op_iff)
qed

definition visit_ok :: "expr set \<Rightarrow> ExprMap \<Rightarrow> heap \<Rightarrow> ExprMap \<times> heap \<Rightarrow> bool" where
  "visit_ok D rule h st =
     (only_alloc h (snd st) \<and> table_ok R (snd st) (fst st) \<and> rule \<subseteq>\<^sub>m fst st \<and>
      dom (fst st) \<subseteq> dom rule \<union> D)"

lemma leaves_agree_mono:
  assumes "leaves_agree rule" "rule \<subseteq>\<^sub>m rule'"
  shows "leaves_agree rule'"
proof -
  have "rule v = None" if "rule' v = None" for v
    using assms(2) that by (metis map_le_def domIff)
  with assms(1) show ?thesis by (auto simp: leaves_agree_def)
qed

lemma childs_grow_alloc: "only_alloc h h' \<Longrightarrow> childs_grow h \<Longrightarrow> childs_grow h'"
  by (simp add: only_alloc_def childs_grow_def)

abbreviation visit :: "expr \<Rightarrow> ExprMap \<times> heap \<Rightarrow> (ExprMap \<times> heap) result" where
  "visit \<equiv> DepthFirstVisitPrePost (\<lambda>x st. rewr_pre (fst st) x)
             (\<lambda>x st. rewr_post rewrite_op (fst st) x (snd st))"

abbreviation visits :: "expr list \<Rightarrow> ExprMap \<times> heap \<Rightarrow> (ExprMap \<times> heap) result" where
  "visits \<equiv> visit_args_pp (\<lambda>x st. rewr_pre (fst st) x)
             (\<lambda>x st. rewr_post rewrite_op (fst st) x (snd st))"

definition ready :: "ExprMap \<Rightarrow> heap \<Rightarrow> bool" where
  "ready rule h = (childs_grow h \<and> table_ok R h rule \<and> leaves_agree rule)"

lemma visit_ready: "ready rule h \<Longrightarrow> visit_ok D rule h st \<Longrightarrow> ready (fst st) (snd st)"
  by (auto simp: ready_def visit_ok_def intro: childs_grow_alloc leaves_agree_mono)

lemma visit_ok_trans:
  assumes "visit_ok D rule h st" "visit_ok E (fst st) (snd st) st'"
  shows "visit_ok (D \<union> E) rule h st'"
  using assms map_le_trans unfolding visit_ok_def by (blast intro: only_alloc_trans)

lemma visits_ok:
  assumes "\<forall>a \<in> set as. \<forall>rule h. good h a \<longrightarrow> ready rule h \<longrightarrow>
      (\<exists>st. visit a (rule, h) = Inr st \<and> visit_ok (subexprs a) rule h st \<and> fst st a \<noteq> None)"
    and "\<forall>a \<in> set as. good h a" "ready rule h"
  shows "\<exists>st. visits as (rule, h) = Inr st \<and> visit_ok (\<Union>a \<in> set as. subexprs a) rule h st \<and>
      (\<forall>a \<in> set as. fst st a \<noteq> None)"
  using assms
proof (induction as arbitrary: rule h)
  case Nil
  then show ?case by (simp add: visit_ok_def ready_def)
next
  case (Cons a as)
  obtain st1 where 1: "visit a (rule, h) = Inr st1" "visit_ok (subexprs a) rule h st1" "fst st1 a \<noteq> None"
    using Cons.prems(1) [THEN bspec, of a, THEN spec, THEN spec, of h rule] Cons.prems(2,3) by auto
  have g: "\<forall>a \<in> set as. good (snd st1) a"
    using Cons.prems(2) 1(2) by (auto simp: visit_ok_def good_alloc)
  obtain st2 where 2: "visits as (fst st1, snd st1) = Inr st2"
      "visit_ok (\<Union>a \<in> set as. subexprs a) (fst st1) (snd st1) st2" "\<forall>a \<in> set as. fst st2 a \<noteq> None"
    using Cons.IH [OF _ g visit_ready [OF Cons.prems(3) 1(2)]] Cons.prems(1) by auto
  have "fst st2 a \<noteq> None" using 1(3) 2(2) by (metis domIff map_le_def visit_ok_def)
  then show ?case using 1(1) 2 visit_ok_trans [OF 1(2) 2(2)] by simp
qed

lemma visit_sound:
  "good h e \<Longrightarrow> ready rule h \<Longrightarrow>
   \<exists>st. visit e (rule, h) = Inr st \<and> visit_ok (subexprs e) rule h st \<and> fst st e \<noteq> None"
proof (induction e arbitrary: rule h)
  case (Expr i n s ho ps as k)
  let ?e = "Expr i n s ho ps as k"
  show ?case
  proof (cases "rule ?e = None")
    case False
    with Expr.prems show ?thesis
      by (auto simp: rewr_pre_def visit_ok_def ready_def)
  next
    case True
    obtain st where st: "visits as (rule, h) = Inr st"
        "visit_ok (\<Union>a \<in> set as. subexprs a) rule h st" "\<forall>a \<in> set as. fst st a \<noteq> None"
      using visits_ok [of as h rule] Expr.IH Expr.prems good_args [of h ?e] by auto
    have ready: "ready (fst st) (snd st)" using visit_ready [OF Expr.prems(2) st(2)] .
    have new: "fst st ?e = None"
      using st(2) True arg_not_super [of _ ?e] by (fastforce simp: visit_ok_def)
    have cov: "\<forall>a \<in> set (eargs ?e). covered R (snd st) (fst st) a"
      using st(3) ready by (auto simp: ready_def intro: table_covered)
    have "good (snd st) ?e" using Expr.prems(1) st(2) good_alloc by (auto simp: visit_ok_def)
    then obtain d h' where d: "rewr_post rewrite_op (fst st) ?e (snd st) = Inr ((fst st)(?e \<mapsto> Some d), h')"
        "only_alloc (snd st) h'" "replaces R h' ?e d"
      using post_ok [of "snd st" ?e "fst st"] cov new ready by (auto simp: ready_def)
    have "visit_ok (subexprs ?e) rule h ((fst st)(?e \<mapsto> Some d), h')"
      using st(2) d(2,3) True new
      by (auto simp: visit_ok_def table_ok_def replaces_alloc map_le_def intro: only_alloc_trans)
    with st(1) d(1) True show ?thesis by (auto simp: rewr_pre_def)
  qed
qed

text \<open>The whole rewriting: it returns, the result stands for the expression, and the table is
  ready for the next expression.\<close>

lemma rewr_expr_sound:
  assumes "good h e" "ready rule h"
  shows "\<exists>d rule' h'. rewr_expr rewrite_op rule e h = Inr ((Some d, rule'), h') \<and>
     only_alloc h h' \<and> replaces R h' e d \<and> ready rule' h'"
proof -
  obtain rule' h' where v: "visit e (rule, h) = Inr (rule', h')" "visit_ok (subexprs e) rule h (rule', h')"
      "rule' e \<noteq> None"
    using visit_sound [OF assms] by auto
  have r: "ready rule' h'" using visit_ready [OF assms(2) v(2)] by simp
  then obtain d where "rule' e = Some (Some d)" "replaces R h' e d"
    using table_covered [of R h' rule' e] v(3) by (auto simp: ready_def covered_def)
  then show ?thesis using v r
    by (auto simp: rewr_expr_def rewr_visit_def rewr_get_def visit_ok_def)
qed

end


section \<open>The base class keeps the contract\<close>

lemma good_built:
  assumes "built (KOp u) as ps s h e h'" "op_sort u (map esort as) ps = Some s"
    "sem_ok u (map esort as) ps" "\<forall>a \<in> set as. good h a" "supported e"
    and "\<forall>p. GetHost_val h as = Inr (Some p) \<longrightarrow> ilas h p \<noteq> None"
  shows "good h' e"
proof -
  have "wf_expr e" using built_wf [OF assms(1-3)] assms(4) by (simp add: list_all_iff good_def)
  moreover have "host_in h' e" using assms(1,6) by (auto simp: built_def host_in_def)
  moreover have "\<forall>a \<in> set as. good h' a"
    using assms(1,4) good_alloc [OF built_fields(6) [OF assms(1)]] by auto
  ultimately show ?thesis using assms(1,5) by (cases e) (auto simp: good_def built_def list_all_iff)
qed

lemma build_good:
  assumes "childs_grow h" "\<forall>a \<in> set as. good h a" "op_sort u (map esort as) ps = Some s"
    "sem_ok u (map esort as) ps" "u \<noteq> kSignedRemainder" "u \<noteq> kSignedModular"
  shows "\<exists>e h'. built (KOp u) as ps s h e h' \<and> good h' e \<and> esort e = s \<and> childs_grow h' \<and>
     only_alloc h h' \<and> (\<forall>I. eval I e = op_sem u (map esort as) ps (map (eval I) as))"
proof -
  have hosts: "\<forall>a \<in> set as. host_in h a" using assms(2) every_node by (fastforce simp: good_def)
  then have "hosts_ok h as" using assms(1) by (auto simp: hosts_ok_def host_in_def)
  then obtain e h' where b: "built (KOp u) as ps s h e h'" "hosts_ok h' (e # as)"
    using built_total [of h as as] by blast
  have "\<forall>p. GetHost_val h as = Inr (Some p) \<longrightarrow> ilas h p \<noteq> None"
    using b by (auto simp: built_def hosts_ok_def)
  moreover have "supported e" using b(1) assms(5,6) by (auto simp: built_def supported_def)
  ultimately have "good h' e" using good_built [OF b(1) assms(3,4,2)] by blast
  then show ?thesis
    using b built_eval [OF b(1)] built_fields [OF b(1)] by (auto simp: hosts_ok_def)
qed

text \<open>The replacements of the arguments, as a list.\<close>

lemma covered_list:
  assumes "\<forall>a \<in> set as. covered R h rule a"
  obtains ds where "list_all2 (\<lambda>a d. rule a = Some (Some d) \<and> replaces R h a d) as ds"
  using assms that list_all2_all_nthI
proof -
  have "\<exists>ds. list_all2 (\<lambda>a d. rule a = Some (Some d) \<and> replaces R h a d) as ds"
    using assms by (induction as) (auto simp: covered_def list_all2_Cons1)
  with that show thesis by blast
qed

lemma replaces_list:
  assumes "list_all2 (\<lambda>a d. rule a = Some (Some d) \<and> replaces R h a d) as ds"
  shows "map esort ds = map esort as" "\<forall>d \<in> set ds. good h d"
    "(I, J) \<in> R \<Longrightarrow> map (eval I) ds = map (eval J) as"
    "map rule as = map (\<lambda>d. Some (Some d)) ds"
  using assms by (induction rule: list_all2_induct) (auto simp: replaces_def)

text \<open>On replaced arguments the switch of \<^verbatim>\<open>RewriteOp\<close> is the constructor of the
  operation; \<^verbatim>\<open>Concat\<close> builds two constants first.\<close>

lemma get_arg_run:
  "rule a0 = Some (Some d0) \<Longrightarrow> eargs e = a0 # as \<Longrightarrow> get_arg rule e 0 = ret (Some d0)"
  "rule a1 = Some (Some d1) \<Longrightarrow> eargs e = a0 # a1 # as \<Longrightarrow> get_arg rule e (Suc 0) = ret (Some d1)"
  "rule a2 = Some (Some d2) \<Longrightarrow> eargs e = a0 # a1 # a2 # as \<Longrightarrow> get_arg rule e 2 = ret (Some d2)"
  by (auto simp: get_arg_def rewr_get_def arg_def fun_eq_iff monad_simps)

lemma deref_Some [simp]: "deref (Some x) = ret x"
  by (simp add: deref_def fun_eq_iff monad_simps)

lemma lift_Inr [simp]: "lift (Inr x) = ret x"
  by (simp add: fun_eq_iff monad_simps)

lemma concat_run:
  assumes "e_is_bv hi" "e_is_bv lo"
  shows "Concat hi lo h = ExprOpConcat hi lo (h\<lparr>counter := counter h + 2\<rparr>)"
  using assms by (auto simp: Concat_def BvConst_def ExprConst_bv_def monad_simps BvValTypeBitWidth_def)

lemmas hub_defs = Negate_def NotE_def Complement_def AndE_def OrE_def XorE_def Shl_def Ashr_def
  Lshr_def Add_def Sub_def Div_def URem_def Mul_def EqE_def Lt_def Gt_def Ult_def Ugt_def Load_def
  Store_def Extract_def ZExt_def SExt_def LRotate_def RRotate_def Imply_def Ite_def

definition some_of :: "('a \<times> heap) result \<Rightarrow> ('a option \<times> heap) result" where
  "some_of r = (case r of Inl e \<Rightarrow> Inl e | Inr (x, h) \<Rightarrow> Inr (Some x, h))"

lemma rewr_run:
  "rule a0 = Some (Some d0) \<Longrightarrow> eargs e = [a0] \<Longrightarrow> rewr1 rule e f h = some_of (f d0 h)"
  "rule a0 = Some (Some d0) \<Longrightarrow> rule a1 = Some (Some d1) \<Longrightarrow> eargs e = [a0, a1] \<Longrightarrow>
     rewr2 rule e g h = some_of (g d0 d1 h)"
  "rule a0 = Some (Some d0) \<Longrightarrow> rule a1 = Some (Some d1) \<Longrightarrow> rule a2 = Some (Some d2) \<Longrightarrow>
     eargs e = [a0, a1, a2] \<Longrightarrow> rewr3 rule e k h = some_of (k d0 d1 d2 h)"
  by (simp_all add: rewr1_def rewr2_def rewr3_def get_arg_run some_of_def)
     (simp_all add: monad_simps split: sum.splits)

lemma RewriteOp_run:
  assumes "ekind e = KOp u" "op_sort u (map esort ds) (eparams e) = Some s"
    and "map rule (eargs e) = map (\<lambda>d. Some (Some d)) ds"
    and "u \<noteq> kSignedRemainder" "u \<noteq> kSignedModular"
  shows "RewriteOp rule e h = some_of (construct u ds (eparams e)
           (if u = kConcatenate then h\<lparr>counter := counter h + 2\<rparr> else h))"
proof (cases "u = kConcatenate")
  case True
  with assms(2) obtain d0 d1 w v where ds: "ds = [d0, d1]" "eparams e = []" "esort d0 = SortBv w"
      "esort d1 = SortBv v"
    by (auto simp: op_sort_Some map_eq_Cons_conv)
  with assms(3) obtain a0 a1 where "eargs e = [a0, a1]" "rule a0 = Some (Some d0)" "rule a1 = Some (Some d1)"
    by (auto simp: map_eq_Cons_conv)
  with True ds assms(1) show ?thesis
    by (simp add: RewriteOp_def GetUidExprOp_def rewr_run concat_run construct_def binary_ctor_def)
next
  case False
  have u: "GetUidExprOp e = Inr u" using assms(1) by (simp add: GetUidExprOp_def)
  show ?thesis
  proof (cases "u \<in> {kLoad, kStore, kExtract, kNot, kImply, kIfThenElse}")
    case True
    with assms(2,3) show ?thesis unfolding RewriteOp_def u
      by (auto simp: op_sort_Some map_eq_Cons_conv rewr_run hub_defs construct_def arity_ctor_defs)
  next
    case rest: False
    show ?thesis
      using assms(2-5) False rest unfolding RewriteOp_def u
      by (cases u)
         (auto simp: op_sort_def sort_rule_Some map_eq_Cons_conv rewr_run hub_defs construct_def
          arity_ctor_defs)
  qed
qed

lemma mapM_get_run:
  "map rule as = map (\<lambda>d. Some (Some d)) ds \<Longrightarrow>
   mapM (\<lambda>a. bnd (rewr_get rule a) deref) as = ret ds"
proof (induction as arbitrary: ds)
  case (Cons a as)
  then obtain d ds' where "ds = d # ds'" "rule a = Some (Some d)" "map rule as = map (\<lambda>d. Some (Some d)) ds'"
    by (auto simp: map_eq_Cons_conv Cons_eq_map_conv)
  with Cons.IH show ?case by (simp add: rewr_get_def)
qed simp

lemma eval_op_node:
  "eval I e = (case ekind e of KVar \<Rightarrow> ivar I e | KConst v \<Rightarrow> const_sem (esort e) v
     | KOp u \<Rightarrow> op_sem u (map esort (eargs e)) (eparams e) (map (eval I) (eargs e))
     | KApp f \<Rightarrow> ifun I f (map (eval I) (eargs e)))"
  by (cases e) (simp split: ekind.split)

lemma RewriteOp_node_op:
  assumes "good h e" "ekind e = KOp u" "childs_grow h" "\<forall>a \<in> set (eargs e). covered R h rule a"
  shows "\<exists>d h'. RewriteOp rule e h = Inr (Some d, h') \<and> only_alloc h h' \<and> replaces R h' e d"
proof -
  obtain ds where ds: "list_all2 (\<lambda>a d. rule a = Some (Some d) \<and> replaces R h a d) (eargs e) ds"
    using covered_list [OF assms(4)] .
  note r = replaces_list [OF ds]
  have wf: "op_sort u (map esort ds) (eparams e) = Some (esort e)" "sem_ok u (map esort ds) (eparams e)"
    using wf_node [of e] assms(1,2) r(1) by (simp_all add: good_def node_wf_def)
  have u: "u \<noteq> kSignedRemainder" "u \<noteq> kSignedModular"
    using assms(1,2) every_node by (fastforce simp: good_def supported_def)+
  let ?h = "if u = kConcatenate then h\<lparr>counter := counter h + 2\<rparr> else h"
  have a: "only_alloc h ?h" by (simp add: only_alloc_def)
  then have "childs_grow ?h" "\<forall>d \<in> set ds. good ?h d"
    using assms(3) r(2) good_alloc [OF a] by (auto simp: childs_grow_def)
  then obtain d h' where d: "built (KOp u) ds (eparams e) (esort e) ?h d h'" "good h' d" "esort d = esort e"
      "only_alloc ?h h'" "\<forall>I. eval I d = op_sem u (map esort ds) (eparams e) (map (eval I) ds)"
    using build_good [OF _ _ wf u] by blast
  have "construct u ds (eparams e) ?h = Inr (d, h')" using d(1) wf(1) by (auto simp: construct_Inr)
  then have "RewriteOp rule e h = Inr (Some d, h')"
    using RewriteOp_run [OF assms(2) wf(1) r(4) u] by (simp add: some_of_def)
  moreover have "replaces R h' e d"
    using d(2,3,5) r(1,3) assms(2) by (auto simp: replaces_def eval_op_node [of _ e])
  ultimately show ?thesis using only_alloc_trans [OF a d(4)] by blast
qed

lemma RewriteOp_node_app:
  assumes "good h e" "ekind e = KApp f" "childs_grow h" "\<forall>a \<in> set (eargs e). covered R h rule a"
    and "fun_agree R"
  shows "\<exists>d h'. RewriteOp rule e h = Inr (Some d, h') \<and> only_alloc h h' \<and> replaces R h' e d"
proof -
  obtain ds where ds: "list_all2 (\<lambda>a d. rule a = Some (Some d) \<and> replaces R h a d) (eargs e) ds"
    using covered_list [OF assms(4)] .
  note r = replaces_list [OF ds]
  have wf: "map esort ds = func_args f" "eparams e = []" "esort e = func_out f" "sort_wf (func_out f)"
    using wf_node [of e] assms(1,2) r(1) by (auto simp: good_def node_wf_def)
  have "\<forall>d \<in> set ds. host_in h d" using r(2) every_node by (fastforce simp: good_def)
  then have "hosts_ok h ds" using assms(3) by (auto simp: hosts_ok_def host_in_def)
  then obtain d h' where b: "built (KApp f) ds [] (func_out f) h d h'" "hosts_ok h' (d # ds)"
    using built_total [of h ds ds] by blast
  note bf = built_fields [OF b(1)]
  have "wf_expr d" using bf wf r(2) by (cases d) (auto simp: good_def list_all_iff node_wf_def)
  moreover have "host_in h' d" using b(2) by (auto simp: hosts_ok_def host_in_def)
  moreover have "\<forall>x \<in> set ds. good h' x" using r(2) good_alloc [OF bf(6)] by simp
  ultimately have g: "good h' d"
    using bf by (cases d) (auto simp: good_def list_all_iff supported_def)
  have "ExprOpAppFunc f ds h = Inr (d, h')" using b(1) wf(1) by (simp add: ctor_Inr)
  then have "RewriteOp rule e h = Inr (Some d, h')"
    using assms(2) r(4)
    by (simp add: RewriteOp_def GetUidExprOp_def mapM_get_run AppFunc_def)
  moreover have "replaces R h' e d"
    using g bf wf r(3) assms(2,5) by (auto simp: replaces_def eval_op_node fun_agree_def)
  ultimately show ?thesis using bf(6) by blast
qed

lemma RewriteOp_node:
  assumes "fun_agree R" "good h e" "is_op e" "childs_grow h" "\<forall>a \<in> set (eargs e). covered R h rule a"
  shows "\<exists>d h'. RewriteOp rule e h = Inr (Some d, h') \<and> only_alloc h h' \<and> replaces R h' e d"
  using assms RewriteOp_node_op RewriteOp_node_app by (auto simp del: bex_simps)

text \<open>A table that replaces variables acts as a substitution: an expression is read with each
  replaced variable standing for the value of its replacement.\<close>

definition subst_interp :: "ExprMap \<Rightarrow> interp \<Rightarrow> interp" where
  "subst_interp rule I =
     I\<lparr>ivar := (\<lambda>v. case rule v of Some (Some d) \<Rightarrow> eval I d | _ \<Rightarrow> ivar I v)\<rparr>"

definition subst_pairs :: "ExprMap \<Rightarrow> (interp \<times> interp) set" where
  "subst_pairs rule = {(I, subst_interp rule I) | I. interp_ok I}"

definition same_pairs :: "(interp \<times> interp) set" where
  "same_pairs = {(I, I) | I. interp_ok I}"

interpretation subst: node_rewriting "subst_pairs rule0" RewriteOp for rule0
proof unfold_locales
  show "fun_agree (subst_pairs rule0)"
    by (auto simp: fun_agree_def subst_pairs_def subst_interp_def)
  then show "\<exists>d h'. RewriteOp rule e h = Inr (Some d, h') \<and> only_alloc h h' \<and> replaces (subst_pairs rule0) h' e d"
    if "good h e" "is_op e" "childs_grow h" "\<forall>a \<in> set (eargs e). covered (subst_pairs rule0) h rule a"
    for h e rule
    using RewriteOp_node that by blast
qed

section \<open>Conditional stores keep the contract\<close>

text \<open>The three constructors the patterns use, on good arguments.\<close>

definition made :: "heap \<Rightarrow> (expr \<times> heap) result \<Rightarrow> sort \<Rightarrow> (interp \<Rightarrow> sval) \<Rightarrow> bool" where
  "made h r s v =
     (\<exists>e h'. r = Inr (e, h') \<and> only_alloc h h' \<and> childs_grow h' \<and> good h' e \<and> esort e = s \<and>
             (\<forall>I. eval I e = v I))"

lemma Load_made:
  assumes "childs_grow h" "good h m" "good h a" "esort m = SortMem aw dw" "esort a = SortBv aw"
  shows "made h (Load m a h) (SortBv dw)
           (\<lambda>I. op_sem kLoad [SortMem aw dw, SortBv aw] [] [eval I m, eval I a])"
  using build_good [OF assms(1), of "[m, a]" kLoad "[]" "SortBv dw"] assms
  by (auto simp: made_def Load_def ctor_Inr op_sort_Some sem_ok_def)

lemma Store_made:
  assumes "childs_grow h" "good h m" "good h a" "good h d"
    and "esort m = SortMem aw dw" "esort a = SortBv aw" "esort d = SortBv dw"
  shows "made h (Store m a d h) (SortMem aw dw)
           (\<lambda>I. op_sem kStore [SortMem aw dw, SortBv aw, SortBv dw] [] [eval I m, eval I a, eval I d])"
  using build_good [OF assms(1), of "[m, a, d]" kStore "[]" "SortMem aw dw"] assms
  by (auto simp: made_def Store_def ctor_Inr op_sort_Some sem_ok_def)

lemma Ite_made:
  assumes "childs_grow h" "good h c" "good h a" "good h b"
    and "esort c = SortBool" "esort a = s" "esort b = s"
  shows "made h (Ite c a b h) s
           (\<lambda>I. op_sem kIfThenElse [SortBool, s, s] [] [eval I c, eval I a, eval I b])"
  using build_good [OF assms(1), of "[c, a, b]" kIfThenElse "[]" s] assms
  by (auto simp: made_def Ite_def ctor_Inr op_sort_Some sem_ok_def)

lemma EqE_made:
  assumes "childs_grow h" "good h a" "good h b" "esort a = s" "esort b = s"
  shows "made h (EqE a b h) SortBool (\<lambda>I. VBool (eval I a = eval I b))"
  using build_good [OF assms(1), of "[a, b]" kEqual "[]" SortBool] assms
  by (auto simp: made_def EqE_def ctor_Inr op_sort_Some sem_ok_def op_sem_def)

lemma madeE:
  assumes "made h r s v"
  obtains e h' where "r = Inr (e, h')" "only_alloc h h'" "childs_grow h'" "good h' e" "esort e = s"
    "\<forall>I. eval I e = v I"
  using assms by (auto simp: made_def)

lemma store_node:
  assumes "good h x" "esort x = SortMem aw dw" "ekind x = KOp kStore"
  obtains b a d where "eargs x = [b, a, d]" "good h b" "good h a" "good h d"
    "esort b = SortMem aw dw" "esort a = SortBv aw" "esort d = SortBv dw"
    "\<forall>I. eval I x = op_sem kStore [SortMem aw dw, SortBv aw, SortBv dw] [] [eval I b, eval I a, eval I d]"
proof -
  have "op_sort kStore (map esort (eargs x)) (eparams x) = Some (SortMem aw dw)"
    using wf_node [of x] assms by (simp add: good_def node_wf_def)
  then obtain b a d where x: "eargs x = [b, a, d]" "esort b = SortMem aw dw" "esort a = SortBv aw"
      "esort d = SortBv dw" "eparams x = []"
    by (auto simp: op_sort_Some map_eq_Cons_conv)
  moreover have "\<forall>y \<in> set (eargs x). good h y" using good_args [OF assms(1)] by simp
  ultimately show thesis using that assms(3) by (simp add: eval_op_node [of _ x])
qed

lemma store_base:
  "good h x \<Longrightarrow> esort x = SortMem aw dw \<Longrightarrow> ekind x = KOp kStore \<Longrightarrow> \<exists>b. arg x 0 = Inr b"
  by (rule store_node) (auto simp: arg_def)

lemma IsStore_run:
  "esort x = SortMem aw dw \<Longrightarrow> IsStore x = ret (ekind x = KOp kStore)"
  by (auto simp: IsStore_def GetUidExprOp_def fun_eq_iff monad_simps split: ekind.splits)

lemma mem_val_cases:
  assumes "good h e" "interp_ok I" "esort e = SortMem aw dw"
  obtains f where "eval I e = VMem f"
  using eval_val_ok [of e I] assms val_ok_iff(3) [of aw dw "eval I e"] by (auto simp: good_def)

text \<open>What a pattern may return for the conditional memory.\<close>

definition cond_val :: "interp \<Rightarrow> expr \<Rightarrow> expr \<Rightarrow> expr \<Rightarrow> sval" where
  "cond_val I c m1 m2 = (if eval I c = VBool True then eval I m1 else eval I m2)"

definition pattern_ok :: "heap \<Rightarrow> expr \<Rightarrow> expr \<Rightarrow> expr \<Rightarrow> (expr option \<times> heap) result \<Rightarrow> bool" where
  "pattern_ok h c m1 m2 r =
     (r = Inr (None, h) \<or>
      (\<exists>d h'. r = Inr (Some d, h') \<and> only_alloc h h' \<and> good h' d \<and> esort d = esort m1 \<and>
              (\<forall>I. interp_ok I \<longrightarrow> eval I d = cond_val I c m1 m2)))"

definition cond_mem :: "heap \<Rightarrow> int \<Rightarrow> int \<Rightarrow> expr \<Rightarrow> expr \<Rightarrow> expr \<Rightarrow> bool" where
  "cond_mem h aw dw c m1 m2 =
     (childs_grow h \<and> good h c \<and> good h m1 \<and> good h m2 \<and> esort c = SortBool \<and>
      esort m1 = SortMem aw dw \<and> esort m2 = SortMem aw dw)"

lemma bool_good: "good h c \<Longrightarrow> interp_ok I \<Longrightarrow> esort c = SortBool \<Longrightarrow> \<exists>b. eval I c = VBool b"
  using wf_bool_val by (auto simp: good_def)

lemma bv_good: "good h e \<Longrightarrow> interp_ok I \<Longrightarrow> esort e = SortBv w \<Longrightarrow> \<exists>a. eval I e = VBv a"
  using bv_val_cases [of e I w] by (auto simp: good_def)

lemma mem_good: "good h e \<Longrightarrow> interp_ok I \<Longrightarrow> esort e = SortMem aw dw \<Longrightarrow> \<exists>f. eval I e = VMem f"
  using mem_val_cases [of h e I aw dw] by auto

text \<open>A store under a condition, on either branch: the data is chosen instead of the memory.\<close>

lemma guarded_store:
  assumes "childs_grow h" "good h c" "good h b" "good h a" "good h d" "esort c = SortBool"
    and "esort b = SortMem aw dw" "esort a = SortBv aw" "esort d = SortBv dw"
  obtains s h' where
    "bnd (Load b a) (\<lambda>l. bnd (Ite c (if sw then l else d) (if sw then d else l)) (\<lambda>n.
       bnd (Store b a n) (\<lambda>e. ret (Some e)))) h = Inr (Some s, h')"
    "only_alloc h h'" "good h' s" "esort s = SortMem aw dw"
    "\<forall>I. interp_ok I \<longrightarrow> eval I s = (if (eval I c = VBool True) = sw then eval I b else
       op_sem kStore [SortMem aw dw, SortBv aw, SortBv dw] [] [eval I b, eval I a, eval I d])"
proof -
  obtain l h1 where l: "Load b a h = Inr (l, h1)" "only_alloc h h1" "childs_grow h1" "good h1 l"
      "esort l = SortBv dw" "\<forall>I. eval I l = op_sem kLoad [SortMem aw dw, SortBv aw] [] [eval I b, eval I a]"
    using Load_made [of h b a aw dw] assms by (auto elim: madeE)
  let ?x = "if sw then l else d" and ?y = "if sw then d else l"
  obtain n h2 where n: "Ite c ?x ?y h1 = Inr (n, h2)" "only_alloc h1 h2" "childs_grow h2" "good h2 n"
      "esort n = SortBv dw"
      "\<forall>I. eval I n = op_sem kIfThenElse [SortBool, SortBv dw, SortBv dw] [] [eval I c, eval I ?x, eval I ?y]"
    using Ite_made [of h1 c ?x ?y "SortBv dw"] assms l good_alloc [OF l(2)]
    by (cases sw) (auto elim: madeE)
  have a2: "only_alloc h h2" using only_alloc_trans [OF l(2) n(2)] .
  obtain s h3 where s: "Store b a n h2 = Inr (s, h3)" "only_alloc h2 h3" "good h3 s" "esort s = SortMem aw dw"
      "\<forall>I. eval I s = op_sem kStore [SortMem aw dw, SortBv aw, SortBv dw] [] [eval I b, eval I a, eval I n]"
    using Store_made [of h2 b a n aw dw] assms n good_alloc [OF a2] by (auto elim: madeE)
  have "eval I s = (if (eval I c = VBool True) = sw then eval I b else
       op_sem kStore [SortMem aw dw, SortBv aw, SortBv dw] [] [eval I b, eval I a, eval I d])"
    if I: "interp_ok I" for I
  proof -
    obtain cb where "eval I c = VBool cb" using bool_good [OF assms(2) I assms(6)] by blast
    moreover obtain f where "eval I b = VMem f" using mem_good [OF assms(3) I assms(7)] by blast
    moreover obtain xa where "eval I a = VBv xa" using bv_good [OF assms(4) I assms(8)] by blast
    moreover obtain xd where "eval I d = VBv xd" using bv_good [OF assms(5) I assms(9)] by blast
    ultimately show ?thesis using s(5) n(6) l(6) by (simp add: op_sem_def)
  qed
  then show thesis
    using that [of s h3] l(1) n(1) s only_alloc_trans [OF a2 s(2)] by (simp add: monad_simps)
qed

lemma cond_single_1_ok:
  assumes "cond_mem h aw dw c m1 m2"
  shows "pattern_ok h c m1 m2 (cond_single_1 c m1 m2 h)"
proof (cases "ekind m1 = KOp kStore \<and> \<not> is_op m2 \<and> arg m1 0 = Inr m2")
  case False
  then show ?thesis
    using assms store_base [of h m1 aw dw]
    by (auto simp: cond_single_1_def pattern_ok_def cond_mem_def IsStore_run monad_simps
        simp del: is_op_iff)
next
  case True
  note cm = assms [unfolded cond_mem_def]
  obtain b a d where x: "eargs m1 = [b, a, d]" "good h b" "good h a" "good h d" "esort b = SortMem aw dw"
    "esort a = SortBv aw" "esort d = SortBv dw"
    "\<forall>I. eval I m1 = op_sem kStore [SortMem aw dw, SortBv aw, SortBv dw] [] [eval I b, eval I a, eval I d]"
    using store_node [of h m1 aw dw] cm True by blast
  have b: "b = m2" using True x(1) by (simp add: arg_def)
  have gs: "childs_grow h" "good h c" "good h m2" "good h a" "good h d" "esort c = SortBool"
    "esort m2 = SortMem aw dw" "esort a = SortBv aw" "esort d = SortBv dw" using cm x by simp_all
  obtain s h' where s0: "bnd (Load m2 a) (\<lambda>l. bnd (Ite c (if False then l else d) (if False then d else l)) (\<lambda>n.
       bnd (Store m2 a n) (\<lambda>e. ret (Some e)))) h = Inr (Some s, h')"
    and s: "only_alloc h h'" "good h' s" "esort s = SortMem aw dw"
    and v: "\<forall>I. interp_ok I \<longrightarrow> eval I s = (if (eval I c = VBool True) = False then eval I m2 else
       op_sem kStore [SortMem aw dw, SortBv aw, SortBv dw] [] [eval I m2, eval I a, eval I d])"
    by (rule guarded_store [OF gs, of False])
  have "\<forall>I. interp_ok I \<longrightarrow> eval I s = cond_val I c m1 m2"
    using v x(8) b by (simp add: cond_val_def)
  moreover have "cond_single_1 c m1 m2 h = Inr (Some s, h')"
    using True x(1) b cm s0 by (simp add: cond_single_1_def IsStore_run arg_def del: is_op_iff run_Inr)
  ultimately show ?thesis using s cm by (auto simp: pattern_ok_def)
qed

lemma cond_single_2_ok:
  assumes "cond_mem h aw dw c m1 m2"
  shows "pattern_ok h c m1 m2 (cond_single_2 c m1 m2 h)"
proof (cases "ekind m2 = KOp kStore \<and> \<not> is_op m1 \<and> arg m2 0 = Inr m1")
  case False
  then show ?thesis
    using assms store_base [of h m2 aw dw]
    by (auto simp: cond_single_2_def pattern_ok_def cond_mem_def IsStore_run monad_simps
        simp del: is_op_iff)
next
  case True
  note cm = assms [unfolded cond_mem_def]
  obtain b a d where x: "eargs m2 = [b, a, d]" "good h b" "good h a" "good h d" "esort b = SortMem aw dw"
    "esort a = SortBv aw" "esort d = SortBv dw"
    "\<forall>I. eval I m2 = op_sem kStore [SortMem aw dw, SortBv aw, SortBv dw] [] [eval I b, eval I a, eval I d]"
    using store_node [of h m2 aw dw] cm True by blast
  have b: "b = m1" using True x(1) by (simp add: arg_def)
  have gs: "childs_grow h" "good h c" "good h m1" "good h a" "good h d" "esort c = SortBool"
    "esort m1 = SortMem aw dw" "esort a = SortBv aw" "esort d = SortBv dw" using cm x by simp_all
  obtain s h' where s0: "bnd (Load m1 a) (\<lambda>l. bnd (Ite c (if True then l else d) (if True then d else l)) (\<lambda>n.
       bnd (Store m1 a n) (\<lambda>e. ret (Some e)))) h = Inr (Some s, h')"
    and s: "only_alloc h h'" "good h' s" "esort s = SortMem aw dw"
    and v: "\<forall>I. interp_ok I \<longrightarrow> eval I s = (if (eval I c = VBool True) = True then eval I m1 else
       op_sem kStore [SortMem aw dw, SortBv aw, SortBv dw] [] [eval I m1, eval I a, eval I d])"
    by (rule guarded_store [OF gs, of True])
  have "\<forall>I. interp_ok I \<longrightarrow> eval I s = cond_val I c m1 m2"
    using v x(8) b by (simp add: cond_val_def)
  moreover have "cond_single_2 c m1 m2 h = Inr (Some s, h')"
    using True x(1) b cm s0 by (simp add: cond_single_2_def IsStore_run arg_def del: is_op_iff run_Inr)
  ultimately show ?thesis using s cm by (auto simp: pattern_ok_def)
qed

lemma op_sem_ite: "op_sem kIfThenElse ss ps [VBool c, x, y] = (if c then x else y)"
  by (simp add: op_sem_def)

lemma cond_same_dest_ok:
  assumes "cond_mem h aw dw c m1 m2"
  shows "pattern_ok h c m1 m2 (cond_same_dest c m1 m2 h)"
proof (cases "ekind m1 = KOp kStore \<and> ekind m2 = KOp kStore \<and> arg m1 0 = arg m2 0")
  case False
  then show ?thesis
    using assms store_base [of h m1 aw dw] store_base [of h m2 aw dw]
    by (auto simp: cond_same_dest_def pattern_ok_def cond_mem_def IsStore_run monad_simps
        simp del: is_op_iff)
next
  case True
  note cm = assms [unfolded cond_mem_def]
  obtain b a1 d1 where x: "eargs m1 = [b, a1, d1]" "good h b" "good h a1" "good h d1" "esort b = SortMem aw dw"
    "esort a1 = SortBv aw" "esort d1 = SortBv dw"
    "\<forall>I. eval I m1 = op_sem kStore [SortMem aw dw, SortBv aw, SortBv dw] [] [eval I b, eval I a1, eval I d1]"
    using store_node [of h m1 aw dw] cm True by blast
  obtain b2 a2 d2 where y: "eargs m2 = [b2, a2, d2]" "good h b2" "good h a2" "good h d2"
    "esort b2 = SortMem aw dw" "esort a2 = SortBv aw" "esort d2 = SortBv dw"
    "\<forall>I. eval I m2 = op_sem kStore [SortMem aw dw, SortBv aw, SortBv dw] [] [eval I b2, eval I a2, eval I d2]"
    using store_node [of h m2 aw dw] cm True by blast
  have b: "b2 = b" using True x(1) y(1) by (simp add: arg_def)
  obtain na h1 where na: "Ite c a1 a2 h = Inr (na, h1)" "only_alloc h h1" "childs_grow h1" "good h1 na"
      "esort na = SortBv aw"
      "\<forall>I. eval I na = op_sem kIfThenElse [SortBool, SortBv aw, SortBv aw] [] [eval I c, eval I a1, eval I a2]"
    using Ite_made [of h c a1 a2 "SortBv aw"] cm x y by (auto elim: madeE)
  obtain nd h2 where nd: "Ite c d1 d2 h1 = Inr (nd, h2)" "only_alloc h1 h2" "childs_grow h2" "good h2 nd"
      "esort nd = SortBv dw"
      "\<forall>I. eval I nd = op_sem kIfThenElse [SortBool, SortBv dw, SortBv dw] [] [eval I c, eval I d1, eval I d2]"
    using Ite_made [of h1 c d1 d2 "SortBv dw"] cm x y na good_alloc [OF na(2)] by (auto elim: madeE)
  have al: "only_alloc h h2" using only_alloc_trans [OF na(2) nd(2)] .
  obtain s h3 where s: "Store b na nd h2 = Inr (s, h3)" "only_alloc h2 h3" "good h3 s" "esort s = SortMem aw dw"
      "\<forall>I. eval I s = op_sem kStore [SortMem aw dw, SortBv aw, SortBv dw] [] [eval I b, eval I na, eval I nd]"
    using Store_made [of h2 b na nd aw dw] x nd na good_alloc [OF al] good_alloc [OF nd(2)]
    by (auto elim: madeE)
  have "eval I s = cond_val I c m1 m2" if I: "interp_ok I" for I
  proof -
    obtain cb where "eval I c = VBool cb" using bool_good [of h c I] cm I by blast
    then show ?thesis using s(5) na(6) nd(6) x(8) y(8) b by (simp add: op_sem_ite cond_val_def)
  qed
  moreover have "cond_same_dest c m1 m2 h = Inr (Some s, h3)"
    using True x(1) y(1) b na(1) nd(1) s(1) cm
    by (simp add: cond_same_dest_def IsStore_run arg_def monad_simps del: is_op_iff run_Inr)
  ultimately show ?thesis
    using s cm only_alloc_trans [OF al s(2)] by (auto simp: pattern_ok_def)
qed

lemma same_pairs_agree: "fun_agree same_pairs"
  by (auto simp: fun_agree_def same_pairs_def)

lemma replaces_same:
  "replaces same_pairs h e d \<longleftrightarrow> good h d \<and> esort d = esort e \<and> (\<forall>I. interp_ok I \<longrightarrow> eval I d = eval I e)"
  by (auto simp: replaces_def same_pairs_def)

lemma mem_ite_args:
  assumes "good h e" "ekind e = KOp kIfThenElse" "esort e = SortMem aw dw" "childs_grow h"
    and "\<forall>a \<in> set (eargs e). covered same_pairs h rule a"
  obtains c m1 m2 where "get_arg rule e 0 = ret (Some c)" "get_arg rule e (Suc 0) = ret (Some m1)"
    "get_arg rule e 2 = ret (Some m2)" "cond_mem h aw dw c m1 m2"
    "\<forall>I. interp_ok I \<longrightarrow> eval I e = cond_val I c m1 m2"
proof -
  have "op_sort kIfThenElse (map esort (eargs e)) (eparams e) = Some (SortMem aw dw)"
    using wf_node [of e] assms by (simp add: good_def node_wf_def)
  then obtain a0 a1 a2 where e: "eargs e = [a0, a1, a2]" "esort a0 = SortBool" "esort a1 = SortMem aw dw"
      "esort a2 = SortMem aw dw"
    by (auto simp: op_sort_Some map_eq_Cons_conv)
  obtain c where c: "rule a0 = Some (Some c)" "replaces same_pairs h a0 c"
    using assms(5) e(1) by (auto simp: covered_def)
  obtain m1 where m1: "rule a1 = Some (Some m1)" "replaces same_pairs h a1 m1"
    using assms(5) e(1) by (auto simp: covered_def)
  obtain m2 where m2: "rule a2 = Some (Some m2)" "replaces same_pairs h a2 m2"
    using assms(5) e(1) by (auto simp: covered_def)
  have cm: "cond_mem h aw dw c m1 m2" using c m1 m2 e assms(4) by (simp add: cond_mem_def replaces_same)
  moreover have "eval I e = cond_val I c m1 m2" if I: "interp_ok I" for I
  proof -
    obtain b where "eval I c = VBool b" using bool_good [of h c I] cm I by (auto simp: cond_mem_def)
    with c m1 m2 I e assms(2) show ?thesis
      by (simp add: eval_op_node [of I e] op_sem_ite cond_val_def replaces_same)
  qed
  moreover have "get_arg rule e 0 = ret (Some c)" "get_arg rule e (Suc 0) = ret (Some m1)"
      "get_arg rule e 2 = ret (Some m2)"
    using get_arg_run [of rule] c(1) m1(1) m2(1) e(1) by simp_all
  ultimately show thesis using that [of c m1 m2] by blast
qed

lemma RewriteCondMem_node:
  assumes "good h e" "ekind e = KOp kIfThenElse" "esort e = SortMem aw dw" "childs_grow h"
    and "\<forall>a \<in> set (eargs e). covered same_pairs h rule a"
  shows "\<exists>d h'. RewriteCondMem rule e h = Inr (Some d, h') \<and> only_alloc h h' \<and>
     replaces same_pairs h' e d"
proof -
  obtain c m1 m2 where g: "get_arg rule e 0 = ret (Some c)" "get_arg rule e (Suc 0) = ret (Some m1)"
    "get_arg rule e 2 = ret (Some m2)" and cm: "cond_mem h aw dw c m1 m2"
    and v: "\<forall>I. interp_ok I \<longrightarrow> eval I e = cond_val I c m1 m2"
    by (rule mem_ite_args [OF assms])
  have base: "\<exists>d h'. RewriteOp rule e h = Inr (Some d, h') \<and> only_alloc h h' \<and> replaces same_pairs h' e d"
    using RewriteOp_node_op [OF assms(1,2,4,5)] .
  have ok: "replaces same_pairs h' e d"
    if "good h' d" "esort d = esort m1" "\<forall>I. interp_ok I \<longrightarrow> eval I d = cond_val I c m1 m2" for d h'
    using that v cm assms(3) by (simp add: replaces_same cond_mem_def)
  show ?thesis
  proof (cases "m1 = m2")
    case True
    then have "RewriteCondMem rule e h = Inr (Some m1, h)" using g by (simp add: RewriteCondMem_def)
    moreover have "replaces same_pairs h e m1"
      using True cm by (intro ok) (simp_all add: cond_mem_def cond_val_def)
    ultimately show ?thesis by simp
  next
    case False
    note p = cond_single_1_ok [OF cm] cond_single_2_ok [OF cm] cond_same_dest_ok [OF cm]
    from p [unfolded pattern_ok_def] base ok False show ?thesis
      by (auto simp: RewriteCondMem_def g monad_simps del: ex_simps)
  qed
qed

interpretation cond_store: node_rewriting same_pairs CondStore_RewriteOp
proof unfold_locales
  show "fun_agree same_pairs" by (rule same_pairs_agree)
  fix h e rule
  assume g: "good h e" "is_op e" "childs_grow h" "\<forall>a \<in> set (eargs e). covered same_pairs h rule a"
  show "\<exists>d h'. CondStore_RewriteOp rule e h = Inr (Some d, h') \<and> only_alloc h h' \<and>
      replaces same_pairs h' e d"
  proof (cases "ekind e = KOp kIfThenElse \<and> e_is_mem e")
    case True
    then obtain aw dw where "esort e = SortMem aw dw" by auto
    with True RewriteCondMem_node [OF g(1) _ _ g(3,4)] show ?thesis
      by (simp add: CondStore_RewriteOp_def GetUidExprOp_def)
  next
    case False
    then have "CondStore_RewriteOp rule e = RewriteOp rule e"
      using g(2) by (auto simp: CondStore_RewriteOp_def GetUidExprOp_def)
    with RewriteOp_node [OF same_pairs_agree g] show ?thesis by simp
  qed
qed

interpretation same: node_rewriting same_pairs RewriteOp
  by unfold_locales (simp_all add: same_pairs_agree RewriteOp_node [OF same_pairs_agree] del: is_op_iff)

text \<open>The rewriting of loads, as it is written, keeps the contract too.\<close>

lemma load_args:
  assumes "good h e" "ekind e = KOp kLoad"
    and "\<forall>a \<in> set (eargs e). covered same_pairs h rule a"
  obtains m a aw dw where "get_arg rule e 0 = ret (Some m)" "get_arg rule e (Suc 0) = ret (Some a)"
    "good h m" "good h a" "esort m = SortMem aw dw" "esort a = SortBv aw" "esort e = SortBv dw"
    "\<forall>I. interp_ok I \<longrightarrow> eval I e = op_sem kLoad [SortMem aw dw, SortBv aw] [] [eval I m, eval I a]"
proof -
  have "op_sort kLoad (map esort (eargs e)) (eparams e) = Some (esort e)"
    using wf_node [of e] assms by (simp add: good_def node_wf_def)
  then obtain a0 a1 aw dw where e: "eargs e = [a0, a1]" "esort a0 = SortMem aw dw" "esort a1 = SortBv aw"
      "esort e = SortBv dw" "eparams e = []"
    by (auto simp: op_sort_Some map_eq_Cons_conv)
  obtain m where m: "rule a0 = Some (Some m)" "replaces same_pairs h a0 m"
    using assms(3) e(1) by (auto simp: covered_def)
  obtain a where a: "rule a1 = Some (Some a)" "replaces same_pairs h a1 a"
    using assms(3) e(1) by (auto simp: covered_def)
  have g: "get_arg rule e 0 = ret (Some m)" "get_arg rule e (Suc 0) = ret (Some a)"
    using get_arg_run [of rule] m(1) a(1) e(1) by simp_all
  have "\<forall>I. interp_ok I \<longrightarrow> eval I e = op_sem kLoad [SortMem aw dw, SortBv aw] [] [eval I m, eval I a]"
    using m(2) a(2) e assms(2) by (simp add: eval_op_node [of _ e] replaces_same)
  then show thesis using that [OF g] m(2) a(2) e by (simp add: replaces_same)
qed

lemma RewriteLoad_node:
  assumes "good h e" "ekind e = KOp kLoad" "childs_grow h"
    and "\<forall>a \<in> set (eargs e). covered same_pairs h rule a"
  shows "\<exists>d h'. RewriteLoad rule e h = Inr (Some d, h') \<and> only_alloc h h' \<and>
     replaces same_pairs h' e d"
proof -
  obtain m a aw dw where g: "get_arg rule e 0 = ret (Some m)" "get_arg rule e (Suc 0) = ret (Some a)"
    and ma: "good h m" "good h a" "esort m = SortMem aw dw" "esort a = SortBv aw" "esort e = SortBv dw"
    and v: "\<forall>I. interp_ok I \<longrightarrow> eval I e = op_sem kLoad [SortMem aw dw, SortBv aw] [] [eval I m, eval I a]"
    by (rule load_args [OF assms(1,2,4)])
  show ?thesis
  proof (cases "ekind m = KOp kStore \<and> \<not> is_op (eargs m ! 0)")
    case False
    have "\<exists>b. arg m 0 = Inr b \<and> b = eargs m ! 0" if "ekind m = KOp kStore"
      using store_base [OF ma(1,3) that] by (auto simp: arg_def split: if_splits)
    then have "RewriteLoad rule e h = (if is_var m \<or> is_const m then Inr (Some e, h) else RewriteOp rule e h)"
      using False ma(3) by (auto simp: RewriteLoad_def g IsStore_run monad_simps simp del: is_op_iff)
    moreover have "replaces same_pairs h e e" using assms(1) by (simp add: replaces_same)
    ultimately show ?thesis using RewriteOp_node_op [OF assms(1,2,3,4)] by auto
  next
    case True
    obtain b sa sd where x: "eargs m = [b, sa, sd]" "good h b" "good h sa" "good h sd" "esort b = SortMem aw dw"
      "esort sa = SortBv aw" "esort sd = SortBv dw"
      "\<forall>I. eval I m = op_sem kStore [SortMem aw dw, SortBv aw, SortBv dw] [] [eval I b, eval I sa, eval I sd]"
      using store_node [of h m aw dw] ma True by blast
    obtain c h1 where c: "EqE a sa h = Inr (c, h1)" "only_alloc h h1" "childs_grow h1" "good h1 c"
        "esort c = SortBool" "\<forall>I. eval I c = VBool (eval I a = eval I sa)"
      using EqE_made [of h a sa "SortBv aw"] ma x assms(3) by (auto elim: madeE)
    obtain l h2 where l: "Load b a h1 = Inr (l, h2)" "only_alloc h1 h2" "childs_grow h2" "good h2 l"
        "esort l = SortBv dw" "\<forall>I. eval I l = op_sem kLoad [SortMem aw dw, SortBv aw] [] [eval I b, eval I a]"
      using Load_made [of h1 b a aw dw] ma x c good_alloc [OF c(2)] by (auto elim: madeE)
    have al: "only_alloc h h2" using only_alloc_trans [OF c(2) l(2)] .
    obtain d h3 where d: "Ite c sd l h2 = Inr (d, h3)" "only_alloc h2 h3" "good h3 d" "esort d = SortBv dw"
        "\<forall>I. eval I d = op_sem kIfThenElse [SortBool, SortBv dw, SortBv dw] [] [eval I c, eval I sd, eval I l]"
      using Ite_made [of h2 c sd l "SortBv dw"] x c l good_alloc [OF al] good_alloc [OF l(2)]
      by (auto elim: madeE)
    have "eval I d = eval I e" if I: "interp_ok I" for I
    proof -
      obtain f where "eval I b = VMem f" using mem_good [OF x(2) I x(5)] by blast
      moreover obtain xa where "eval I a = VBv xa" using bv_good [OF ma(2) I ma(4)] by blast
      moreover obtain ya where "eval I sa = VBv ya" using bv_good [OF x(3) I x(6)] by blast
      moreover obtain yd where "eval I sd = VBv yd" using bv_good [OF x(4) I x(7)] by blast
      ultimately show ?thesis using d(5) l(6) c(6) x(8) v I by (simp add: op_sem_def)
    qed
    then have "replaces same_pairs h3 e d" using d ma(5) by (simp add: replaces_same)
    moreover have "RewriteLoad rule e h = Inr (Some d, h3)"
      using True x(1) ma(3) c(1) l(1) d(1)
      by (simp add: RewriteLoad_def g IsStore_run arg_def monad_simps del: is_op_iff run_Inr)
    ultimately show ?thesis using only_alloc_trans [OF al d(2)] by blast
  qed
qed

interpretation store_load: node_rewriting same_pairs StoreLoad_RewriteOp
proof unfold_locales
  show "fun_agree same_pairs" by (rule same_pairs_agree)
  fix h e rule
  assume g: "good h e" "is_op e" "childs_grow h" "\<forall>a \<in> set (eargs e). covered same_pairs h rule a"
  show "\<exists>d h'. StoreLoad_RewriteOp rule e h = Inr (Some d, h') \<and> only_alloc h h' \<and>
      replaces same_pairs h' e d"
  proof (cases "ekind e = KOp kLoad")
    case True
    with RewriteLoad_node [OF g(1) _ g(3,4)] show ?thesis
      by (simp add: StoreLoad_RewriteOp_def GetUidExprOp_def)
  next
    case False
    then have "StoreLoad_RewriteOp rule e = RewriteOp rule e"
      using g(2) by (auto simp: StoreLoad_RewriteOp_def GetUidExprOp_def)
    with RewriteOp_node [OF same_pairs_agree g] show ?thesis by simp
  qed
qed

lemma rewr_subst_sound:
  assumes "childs_grow h" "good h e"
    and "\<forall>v p. rule v = Some p \<longrightarrow> ekind v = KVar \<and> (\<exists>d. p = Some d \<and> good h d \<and> esort d = esort v)"
  shows "\<exists>d rule' h'. rewr_expr RewriteOp rule e h = Inr ((Some d, rule'), h') \<and> only_alloc h h' \<and>
     good h' d \<and> esort d = esort e \<and>
     (\<forall>I. interp_ok I \<longrightarrow> eval I d = eval (subst_interp rule I) e)"
proof -
  have "eval (subst_interp rule I) v = eval I d" if "rule v = Some (Some d)" for v d I
    using assms(3) that by (auto simp: eval_op_node [of _ v] subst_interp_def)
  then have "table_ok (subst_pairs rule) h rule"
    using assms(3) by (auto simp: table_ok_def replaces_def subst_pairs_def) (metis option.inject)+
  moreover have "subst.leaves_agree rule rule"
    unfolding subst.leaves_agree_def by (auto simp: subst_pairs_def subst_interp_def)
  ultimately have "subst.ready rule rule h" using assms(1) by (simp add: subst.ready_def)
  from subst.rewr_expr_sound [OF assms(2) this] show ?thesis
    by (fastforce simp: replaces_def subst_pairs_def)
qed

section \<open>Properties\<close>

text \<open>C2: Rewriting is substitution. On a good expression and a table that replaces variables by
  good expressions of the same sort, the visit and the lookup succeed, allocate expressions
  only, and give a good expression of the same sort whose value under any interpretation is
  the value of the original with each replaced variable read as its replacement.\<close>

theorem rewrite_substitution:
  assumes "childs_grow h" "good h e"
    and "\<forall>v p. rule v = Some p \<longrightarrow> ekind v = KVar \<and> (\<exists>d. p = Some d \<and> good h d \<and> esort d = esort v)"
  shows "\<exists>d rule' h'. rewr_expr RewriteOp rule e h = Inr ((Some d, rule'), h') \<and> only_alloc h h' \<and>
     good h' d \<and> esort d = esort e \<and>
     (\<forall>I. interp_ok I \<longrightarrow> eval I d = eval (subst_interp rule I) e)"
  using assms by (rule rewr_subst_sound)

text \<open>The variable of a sum is replaced by the constant 9: 9 + 9 in 4 bits.\<close>

definition sub_x :: expr where
  "sub_x = Expr 2 ''x'' (SortBv 4) None [] [] KVar"

definition sum_x9 :: expr where
  "sum_x9 = Expr 3 ''$3'' (SortBv 4) None [] [sub_x, const9] (KOp kAdd)"

theorem rewrite_substitution_witness:
  "\<exists>d rule' h'. rewr_expr RewriteOp [sub_x \<mapsto> Some const9] sum_x9 empty_heap = Inr ((Some d, rule'), h') \<and>
     eval zero_interp d = VBv 2"
proof -
  have g: "childs_grow empty_heap" "good empty_heap sum_x9" "good empty_heap const9"
    by (simp_all add: childs_grow_def empty_heap_def good_def sum_x9_def sub_x_def const9_def node_wf_def
        const_wf_def op_sort_def same_sort_def sem_ok_def supported_def host_in_def)
  have "\<forall>v p. [sub_x \<mapsto> Some const9] v = Some p \<longrightarrow>
      ekind v = KVar \<and> (\<exists>d. p = Some d \<and> good empty_heap d \<and> esort d = esort v)"
    using g(3) by (auto simp: sub_x_def const9_def split: if_splits)
  from rewrite_substitution [OF g(1,2) this] zero_interp_ok
  show ?thesis
    by (fastforce simp: subst_interp_def sum_x9_def sub_x_def const9_def const_sem_def op_sem_def bv2_def)
qed

text \<open>C3: Every rewriting of loads of stores as \<^verbatim>\<open>FuncObjRewrStoreLoad\<close> writes it, and every
  rewriting of conditional stores, gives for a good expression a good expression of the same
  sort with the same value under every interpretation, starting from an empty table.\<close>

theorem rewrite_patterns:
  assumes "childs_grow h" "good h e" "rewrite_op \<in> {CondStore_RewriteOp, StoreLoad_RewriteOp, RewriteOp}"
  shows "\<exists>d rule' h'. rewr_expr rewrite_op Map.empty e h = Inr ((Some d, rule'), h') \<and>
     only_alloc h h' \<and> good h' d \<and> esort d = esort e \<and> (\<forall>I. interp_ok I \<longrightarrow> eval I d = eval I e)"
proof -
  have t: "table_ok same_pairs h Map.empty" by (simp add: table_ok_def)
  have "cond_store.leaves_agree Map.empty"
    unfolding cond_store.leaves_agree_def by (auto simp: same_pairs_def)
  with t assms(1) have r: "cond_store.ready Map.empty h" by (simp add: cond_store.ready_def)
  from assms(3) consider "rewrite_op = CondStore_RewriteOp" | "rewrite_op = StoreLoad_RewriteOp"
    | "rewrite_op = RewriteOp" by blast
  then show ?thesis
  proof cases
    case 1
    with cond_store.rewr_expr_sound [OF assms(2) r] show ?thesis by (auto simp: replaces_same)
  next
    case 2
    with store_load.rewr_expr_sound [OF assms(2) r] show ?thesis by (auto simp: replaces_same)
  next
    case 3
    with same.rewr_expr_sound [OF assms(2) r] show ?thesis by (auto simp: replaces_same)
  qed
qed

text \<open>A store of 9 at address 9 under the condition \<open>c\<close>.\<close>

definition cond_mem_expr :: expr where
  "cond_mem_expr =
     (let m = Expr 4 ''m'' (SortMem 4 4) None [] [] KVar;
          c = Expr 5 ''c'' SortBool None [] [] KVar;
          st = Expr 6 ''$6'' (SortMem 4 4) None [] [m, const9, const9] (KOp kStore)
      in Expr 7 ''$7'' (SortMem 4 4) None [] [c, st, m] (KOp kIfThenElse))"

theorem rewrite_patterns_witness:
  "\<exists>d rule' h'. rewr_expr CondStore_RewriteOp Map.empty cond_mem_expr empty_heap = Inr ((Some d, rule'), h') \<and>
     esort d = SortMem 4 4 \<and> (\<forall>I. interp_ok I \<longrightarrow> eval I d = eval I cond_mem_expr)"
proof -
  have "childs_grow empty_heap" "good empty_heap cond_mem_expr"
    by (simp_all add: childs_grow_def empty_heap_def good_def cond_mem_expr_def const9_def node_wf_def Let_def
        const_wf_def op_sort_def sem_ok_def supported_def host_in_def)
  from rewrite_patterns [OF this, of CondStore_RewriteOp] show ?thesis
    by (auto simp: cond_mem_expr_def Let_def)
qed

end
