(* ===== verification/AbsKnob.thy ===== *)
theory AbsKnob
  imports Rewriter
begin

text \<open>
  The helpers of namespace \<^verbatim>\<open>absknob\<close> (src/ila-mngr/u\_abs\_knob.cc) and the function
  objects that copy and flatten trees of ILAs (src/ila-mngr/u\_rewrite\_ila.cc): collecting the
  variables and instructions of an expression, an ILA or a tree of ILAs, copying variables,
  expressions, instructions and whole trees into another ILA.

  \<^verbatim>\<open>ExprSet\<close> is a hash set of pointers, whose iteration order is unspecified; the model keeps
  the order of insertion.
\<close>

section \<open>Collecting variables and instructions\<close>

type_synonym ExprSet = "expr list"

definition es_insert :: "expr \<Rightarrow> ExprSet \<Rightarrow> ExprSet" where
  "es_insert e vars = (if e \<in> set vars then vars else vars @ [e])"

definition FuncObjInsertExprVar :: "expr \<Rightarrow> ExprSet \<Rightarrow> ExprSet result" where
  "FuncObjInsertExprVar e vars = Inr (if is_var e then es_insert e vars else vars)"

definition GetVar_expr :: "expr \<Rightarrow> ExprSet result" where
  "GetVar_expr e = DepthFirstVisit FuncObjInsertExprVar e []"

definition InsertStt :: "nat \<Rightarrow> ExprSet \<Rightarrow> ExprSet M" where
  "InsertStt p stts = bnd (get_ila p) (\<lambda>m. ret (fold es_insert (vec (ila_states m)) stts))"

definition InsertInp :: "nat \<Rightarrow> ExprSet \<Rightarrow> ExprSet M" where
  "InsertInp p inps = bnd (get_ila p) (\<lambda>m. ret (fold es_insert (vec (ila_inputs m)) inps))"

definition InsertVar :: "nat \<Rightarrow> ExprSet \<Rightarrow> ExprSet M" where
  "InsertVar p vars = bnd (InsertStt p vars) (InsertInp p)"

definition InsertSttTree :: "nat \<Rightarrow> ExprSet \<Rightarrow> ExprSet M" where
  "InsertSttTree root stts = ila_DepthFirstVisit InsertStt root stts"

definition InsertInpTree :: "nat \<Rightarrow> ExprSet \<Rightarrow> ExprSet M" where
  "InsertInpTree root inps = ila_DepthFirstVisit InsertInp root inps"

definition InsertVarTree :: "nat \<Rightarrow> ExprSet \<Rightarrow> ExprSet M" where
  "InsertVarTree root vars = bnd (InsertSttTree root vars) (InsertInpTree root)"

text \<open>The overloads that take an instruction use the host of the instruction.\<close>

definition InsertStt_instr :: "nat \<Rightarrow> ExprSet \<Rightarrow> ExprSet M" where
  "InsertStt_instr i vars =
     bnd (get_instr i) (\<lambda>x. bnd (not_null (instr_host x)) (\<lambda>p. InsertStt p vars))"

definition InsertSttTree_instr :: "nat \<Rightarrow> ExprSet \<Rightarrow> ExprSet M" where
  "InsertSttTree_instr i vars =
     bnd (get_instr i) (\<lambda>x. bnd (not_null (instr_host x)) (\<lambda>p. InsertSttTree p vars))"

definition GetVar :: "nat \<Rightarrow> ExprSet M" where
  "GetVar p = InsertVar p []"

definition GetStt :: "nat \<Rightarrow> ExprSet M" where
  "GetStt p = InsertStt p []"

definition GetInp :: "nat \<Rightarrow> ExprSet M" where
  "GetInp p = InsertInp p []"

definition GetVarTree :: "nat \<Rightarrow> ExprSet M" where
  "GetVarTree root = InsertVarTree root []"

definition GetSttTree :: "nat \<Rightarrow> ExprSet M" where
  "GetSttTree root = InsertSttTree root []"

text \<open>\<^verbatim>\<open>GetInpTree\<close> calls \<^verbatim>\<open>InsertInp\<close>: only the inputs of the top ILA.\<close>

definition GetInpTree :: "nat \<Rightarrow> ExprSet M" where
  "GetInpTree root = InsertInp root []"

definition InsertInstr :: "nat \<Rightarrow> nat list \<Rightarrow> nat list M" where
  "InsertInstr p iv = bnd (get_ila p) (\<lambda>m. ret (iv @ vec (ila_instrs m)))"

definition GetInstr :: "nat \<Rightarrow> nat list M" where
  "GetInstr p = InsertInstr p []"

definition InsertInstrTree :: "nat \<Rightarrow> nat list \<Rightarrow> nat list M" where
  "InsertInstrTree root iv = ila_DepthFirstVisit InsertInstr root iv"

definition GetInstrTree :: "nat \<Rightarrow> nat list M" where
  "GetInstrTree root = InsertInstrTree root []"

section \<open>Copying\<close>

definition absknob_Rewrite :: "expr option \<Rightarrow> ExprMap \<Rightarrow> expr M" where
  "absknob_Rewrite e rule =
     (case e of
        None \<Rightarrow> lift (Inl (IlaAssert ''Rewriting NULL pointer''))
      | Some x \<Rightarrow>
          bnd (rewr_expr RewriteOp rule x) (\<lambda>(rewr, _).
          case rewr of None \<Rightarrow> lift (Inl (IlaAssert ''Fail rewriting'')) | Some d \<Rightarrow> ret d))"

definition copy_update :: "Instr \<Rightarrow> nat \<Rightarrow> ExprMap \<Rightarrow> string \<Rightarrow> unit M" where
  "copy_update x dst em state =
     bnd (absknob_Rewrite (update x state) em) (\<lambda>update_dst. set_update dst state update_dst)"

definition RewriteInstr :: "nat \<Rightarrow> nat \<Rightarrow> ExprMap \<Rightarrow> unit M" where
  "RewriteInstr src dst expr_map =
     bnd (get_instr src) (\<lambda>x.
     bnd (absknob_Rewrite (instr_decode x) expr_map) (\<lambda>d_dst.
     bnd (set_decode dst (Some d_dst)) (\<lambda>_.
     iterM (copy_update x dst expr_map) (updated_states x))))"

definition DuplInp :: "nat \<Rightarrow> expr \<Rightarrow> expr M" where
  "DuplInp m inp =
     bnd (ila_assert (is_var inp) ''Creating input from non-var Expr.'') (\<lambda>_.
     if e_is_bool inp then NewBoolInput m (ename inp)
     else if e_is_bv inp then bnd (lift (bit_width (esort inp))) (\<lambda>w. NewBvInput m (ename inp) w)
     else
       bnd (ila_assert (e_is_mem inp) ''Unknown sort'') (\<lambda>_.
       bnd (lift (addr_width (esort inp))) (\<lambda>aw. bnd (lift (data_width (esort inp))) (\<lambda>dw.
       NewMemInput m (ename inp) aw dw))))"

definition DuplStt :: "nat \<Rightarrow> expr \<Rightarrow> expr M" where
  "DuplStt m stt =
     bnd (ila_assert (is_var stt) ''Creating state from non-var Expr.'') (\<lambda>_.
     if e_is_bool stt then NewBoolState m (ename stt)
     else if e_is_bv stt then bnd (lift (bit_width (esort stt))) (\<lambda>w. NewBvState m (ename stt) w)
     else
       bnd (ila_assert (e_is_mem stt) ''Unkown sort'') (\<lambda>_.
       bnd (lift (addr_width (esort stt))) (\<lambda>aw. bnd (lift (data_width (esort stt))) (\<lambda>dw.
       NewMemState m (ename stt) aw dw))))"

text \<open>\<^verbatim>\<open>try_emplace\<close> keeps an entry that is already there.\<close>

definition try_emplace :: "expr \<Rightarrow> expr \<Rightarrow> ExprMap \<Rightarrow> ExprMap" where
  "try_emplace src dst m = (if m src = None then m(src \<mapsto> Some dst) else m)"

definition DuplInps :: "nat \<Rightarrow> nat \<Rightarrow> ExprMap \<Rightarrow> ExprMap M" where
  "DuplInps src dst expr_map =
     bnd (GetInp src) (\<lambda>inps.
     foldM (\<lambda>inp_src expr_map.
       bnd (get_ila dst) (\<lambda>m.
       bnd (case find_input m (ename inp_src) of None \<Rightarrow> DuplInp dst inp_src | Some inp_dst \<Rightarrow> ret inp_dst) (\<lambda>inp_dst.
       ret (try_emplace inp_src inp_dst expr_map)))) inps expr_map)"

definition DuplStts :: "nat \<Rightarrow> nat \<Rightarrow> ExprMap \<Rightarrow> ExprMap M" where
  "DuplStts src dst expr_map =
     bnd (GetStt src) (\<lambda>stts.
     foldM (\<lambda>stt_src expr_map.
       bnd (get_ila dst) (\<lambda>m.
       bnd (case find_state m (ename stt_src) of None \<Rightarrow> DuplStt dst stt_src | Some stt_dst \<Rightarrow> ret stt_dst) (\<lambda>stt_dst.
       ret (try_emplace stt_src stt_dst expr_map)))) stts expr_map)"

definition DuplFetch :: "nat \<Rightarrow> nat \<Rightarrow> ExprMap \<Rightarrow> expr option M" where
  "DuplFetch src dst expr_map =
     bnd (get_ila src) (\<lambda>m. case ila_fetch m of
       None \<Rightarrow> ret None
     | Some f_src \<Rightarrow>
         bnd (absknob_Rewrite (Some f_src) expr_map) (\<lambda>f_dst.
         bnd (SetFetch dst (Some f_dst)) (\<lambda>_. ret (Some f_dst))))"

definition DuplValid :: "nat \<Rightarrow> nat \<Rightarrow> ExprMap \<Rightarrow> expr option M" where
  "DuplValid src dst expr_map =
     bnd (get_ila src) (\<lambda>m. case ila_valid m of
       None \<Rightarrow> ret None
     | Some v_src \<Rightarrow>
         bnd (absknob_Rewrite (Some v_src) expr_map) (\<lambda>v_dst.
         bnd (SetValid dst (Some v_dst)) (\<lambda>_. ret (Some v_dst))))"

definition DuplInit :: "nat \<Rightarrow> nat \<Rightarrow> ExprMap \<Rightarrow> unit M" where
  "DuplInit src dst expr_map =
     bnd (get_ila src) (\<lambda>m.
     iterM (\<lambda>i_src. bnd (absknob_Rewrite (Some i_src) expr_map) (\<lambda>i_dst. AddInit dst (Some i_dst))) (ila_inits m))"

type_synonym CnstIlaMap = "nat \<rightharpoonup> nat"

definition DuplInstr :: "nat \<Rightarrow> nat \<Rightarrow> ExprMap \<Rightarrow> CnstIlaMap \<Rightarrow> nat M" where
  "DuplInstr i_src dst expr_map ila_map =
     bnd (get_instr i_src) (\<lambda>x.
     bnd (NewInstr dst (instr_name x)) (\<lambda>i_dst.
     bnd (RewriteInstr i_src i_dst expr_map) (\<lambda>_.
     case instr_prog x of
       None \<Rightarrow> ret i_dst
     | Some p_src \<Rightarrow> (case ila_map p_src of
         None \<Rightarrow> lift (Inl (IlaAssert ''Child-program not mapped.''))
       | Some p_dst \<Rightarrow> bnd (set_program i_dst (Some p_dst)) (\<lambda>_. ret i_dst)))))"

text \<open>\<^verbatim>\<open>DuplInstrSeq\<close> is not implemented in the code: it does nothing.\<close>

definition DuplInstrSeq :: "nat \<Rightarrow> nat \<Rightarrow> unit M" where
  "DuplInstrSeq src dst = ret ()"

section \<open>Function objects over trees of ILAs\<close>

text \<open>\<^verbatim>\<open>DepthFirstVisitPrePost\<close> of ILAs. The fuel bounds the depth: a child is younger than
  its parent. The children are read after \<^verbatim>\<open>pre\<close>; none of the function objects changes the
  children of an ILA it visits.\<close>

fun ila_visit_pp :: "nat \<Rightarrow> (nat \<Rightarrow> 's \<Rightarrow> (bool \<times> 's) M) \<Rightarrow> (nat \<Rightarrow> 's \<Rightarrow> 's M) \<Rightarrow> nat \<Rightarrow> 's \<Rightarrow> 's M" where
  "ila_visit_pp 0 pre post p st = lift (Inl Diverges)"
| "ila_visit_pp (Suc n) pre post p st =
     bnd (pre p st) (\<lambda>(stop, st).
     if stop then ret st
     else
       bnd (get_ila p) (\<lambda>m.
       bnd (foldM (ila_visit_pp n pre post) (vec (ila_childs m)) st) (post p)))"

definition ila_DepthFirstVisitPrePost ::
  "(nat \<Rightarrow> 's \<Rightarrow> (bool \<times> 's) M) \<Rightarrow> (nat \<Rightarrow> 's \<Rightarrow> 's M) \<Rightarrow> nat \<Rightarrow> 's \<Rightarrow> 's M" where
  "ila_DepthFirstVisitPrePost pre post p st = (\<lambda>h. ila_visit_pp (Suc (counter h - p)) pre post p st h)"

record FuncObjRewrIla =
  rewr_ila_map :: CnstIlaMap
  rewr_expr_map :: ExprMap

definition FuncObjRewrIla_get :: "FuncObjRewrIla \<Rightarrow> nat \<Rightarrow> nat M" where
  "FuncObjRewrIla_get f m =
     lift (case rewr_ila_map f m of None \<Rightarrow> Inl (IlaCheck ''not found'') | Some d \<Rightarrow> Inr d)"

definition rewr_ila_child :: "nat \<Rightarrow> nat \<Rightarrow> FuncObjRewrIla \<Rightarrow> FuncObjRewrIla M" where
  "rewr_ila_child dst c_src f =
     bnd (get_ila c_src) (\<lambda>mc.
     bnd (NewChild dst (ila_name mc)) (\<lambda>c_dst.
     bnd (set_spec c_dst (ila_spec mc)) (\<lambda>_.
     ret (if rewr_ila_map f c_src = None then f\<lparr>rewr_ila_map := (rewr_ila_map f)(c_src \<mapsto> c_dst)\<rparr> else f))))"

definition parent_state_num :: "Ila \<Rightarrow> nat M" where
  "parent_state_num m = (case ila_parent m of
     None \<Rightarrow> ret 0 | Some q \<Rightarrow> bnd (get_ila q) (\<lambda>mq. ret (kv_size (ila_states mq))))"

definition FuncObjRewrIla_pre :: "nat \<Rightarrow> FuncObjRewrIla \<Rightarrow> (bool \<times> FuncObjRewrIla) M" where
  "FuncObjRewrIla_pre src f =
     (case rewr_ila_map f src of
        None \<Rightarrow> lift (Inl (IlaAssert ''ILA dst not found.''))
      | Some dst \<Rightarrow>
          bnd (get_ila dst) (\<lambda>m.
          bnd (parent_state_num m) (\<lambda>n.
          bnd (ila_assert (kv_size (ila_states m) = n) ''Rewriting ILA to partially constructed ILA not support.'') (\<lambda>_.
          bnd (DuplInps src dst (rewr_expr_map f)) (\<lambda>em.
          bnd (DuplStts src dst em) (\<lambda>em.
          bnd (get_ila src) (\<lambda>ms.
          bnd (foldM (rewr_ila_child dst) (vec (ila_childs ms)) (f\<lparr>rewr_expr_map := em\<rparr>)) (\<lambda>f.
          bnd (DuplFetch src dst em) (\<lambda>_.
          bnd (DuplValid src dst em) (\<lambda>_.
          bnd (DuplInit src dst em) (\<lambda>_.
          bnd (get_ila src) (\<lambda>ms.
          bnd (iterM (\<lambda>i_src. bnd (DuplInstr i_src dst em (rewr_ila_map f)) (\<lambda>_. ret ())) (vec (ila_instrs ms))) (\<lambda>_.
          bnd (DuplInstrSeq src dst) (\<lambda>_. ret (False, f)))))))))))))))"

definition FuncObjRewrIla_post :: "nat \<Rightarrow> FuncObjRewrIla \<Rightarrow> FuncObjRewrIla M" where
  "FuncObjRewrIla_post src f = ret f"

definition rewr_ila_visit :: "nat \<Rightarrow> FuncObjRewrIla \<Rightarrow> FuncObjRewrIla M" where
  "rewr_ila_visit p f = ila_DepthFirstVisitPrePost FuncObjRewrIla_pre FuncObjRewrIla_post p f"

text \<open>\<^verbatim>\<open>FuncObjFlatIla\<close>: the instructions of every ILA below the root are copied into the top.
  The stack of valid conditions is compiled out (\<^verbatim>\<open>VALID_STACK\<close> is undefined).\<close>

definition FuncObjFlatIla_pre ::
  "nat \<Rightarrow> CnstIlaMap \<Rightarrow> ExprMap \<Rightarrow> nat \<Rightarrow> unit \<Rightarrow> (bool \<times> unit) M" where
  "FuncObjFlatIla_pre root ila_map expr_map src _ =
     (if src = root then ret (False, ())
      else case ila_map src of
        None \<Rightarrow> lift (Inl (IlaAssert ''ILA dst not found.''))
      | Some dst \<Rightarrow>
          bnd (get_ila src) (\<lambda>ms.
          bnd (case ila_valid ms of None \<Rightarrow> BoolConst True | Some v \<Rightarrow> ret v) (\<lambda>valid_cond.
          bnd (iterM (\<lambda>i_src. bnd (DuplInstr i_src dst expr_map ila_map) (\<lambda>_. ret ())) (vec (ila_instrs ms))) (\<lambda>_.
          ret (False, ())))))"

definition FuncObjFlatIla_post :: "nat \<Rightarrow> unit \<Rightarrow> unit M" where
  "FuncObjFlatIla_post src _ = ret ()"

definition record_child :: "nat \<Rightarrow> nat \<Rightarrow> ExprMap \<times> CnstIlaMap \<Rightarrow> (ExprMap \<times> CnstIlaMap) M" where
  "record_child root a st =
     (if a = root then ret st
      else
        bnd (DuplInps a root (fst st)) (\<lambda>em.
        bnd (DuplStts a root em) (\<lambda>em.
        bnd (DuplInit a root em) (\<lambda>_.
        ret (em, if snd st a = None then (snd st)(a \<mapsto> root) else snd st)))))"

definition FlattenIla :: "nat \<Rightarrow> unit M" where
  "FlattenIla root =
     bnd (ila_DepthFirstVisit (record_child root) root (Map.empty, Map.empty)) (\<lambda>(expr_map, ila_map).
     ila_DepthFirstVisitPrePost (FuncObjFlatIla_pre root ila_map expr_map) FuncObjFlatIla_post root ())"

definition CopyIlaTree :: "nat \<Rightarrow> string \<Rightarrow> nat M" where
  "CopyIlaTree src dst_name =
     bnd (get_ila src) (\<lambda>ms.
     bnd (InstrLvlAbs_New dst_name None) (\<lambda>dst.
     bnd (set_spec dst (ila_spec ms)) (\<lambda>_.
     bnd (rewr_ila_visit src \<lparr>rewr_ila_map = [src \<mapsto> dst], rewr_expr_map = Map.empty\<rparr>) (\<lambda>_.
     ret dst))))"

text \<open>Extraction of the model an instruction depends on. The catch clauses of the code could see an
  out-of-range access only, which ends the run of the model; a failed check ends the program.\<close>

definition ExtrDeptModl :: "nat \<Rightarrow> string \<Rightarrow> nat M" where
  "ExtrDeptModl instr name =
     bnd (get_instr instr) (\<lambda>x.
     bnd (not_null (instr_host x)) (\<lambda>src.
     bnd (InstrLvlAbs_New name None) (\<lambda>dst.
     bnd (DuplInps src dst Map.empty) (\<lambda>em.
     bnd (DuplStts src dst em) (\<lambda>em.
     bnd (DuplFetch src dst em) (\<lambda>_.
     bnd (DuplValid src dst em) (\<lambda>_.
     bnd (DuplInit src dst em) (\<lambda>_.
     bnd (DuplInstrSeq src dst) (\<lambda>_.
     bnd (case instr_prog x of
            None \<Rightarrow> ret [src \<mapsto> dst]
          | Some prog_src \<Rightarrow>
              bnd (get_ila prog_src) (\<lambda>mp.
              bnd (NewChild dst (ila_name mp)) (\<lambda>prog_dst.
              let ila_map = (if prog_src = src then [src \<mapsto> dst] else [src \<mapsto> dst, prog_src \<mapsto> prog_dst]) in
              bnd (rewr_ila_visit prog_src \<lparr>rewr_ila_map = ila_map, rewr_expr_map = em\<rparr>) (\<lambda>_.
              ret ila_map)))) (\<lambda>ila_map.
     bnd (DuplInstr instr dst em ila_map) (\<lambda>_. ret dst)))))))))))"

section \<open>Facts about the collections\<close>

lemma es_insert_simps [simp]:
  "set (es_insert e vs) = insert e (set vs)" "distinct vs \<Longrightarrow> distinct (es_insert e vs)"
  by (auto simp: es_insert_def)

lemma es_fold_simps [simp]:
  "set (fold es_insert es vs) = set es \<union> set vs" "distinct vs \<Longrightarrow> distinct (fold es_insert es vs)"
  by (induction es arbitrary: vs) auto

text \<open>The variables of an expression.\<close>

lemma var_visit:
  "\<exists>vs'. DepthFirstVisit FuncObjInsertExprVar e vs = Inr vs' \<and>
     set vs' = set vs \<union> {x \<in> subexprs e. is_var x} \<and> (distinct vs \<longrightarrow> distinct vs')"
  "\<exists>vs'. visit_args FuncObjInsertExprVar es vs = Inr vs' \<and>
     set vs' = set vs \<union> {x \<in> (\<Union>a \<in> set es. subexprs a). is_var x} \<and> (distinct vs \<longrightarrow> distinct vs')"
proof (induction FuncObjInsertExprVar e vs and FuncObjInsertExprVar es vs rule: DepthFirstVisit_visit_args.induct)
  case (1 i n s h ps as k st)
  then obtain vs where "visit_args FuncObjInsertExprVar as st = Inr vs"
    "set vs = set st \<union> {x \<in> (\<Union>a \<in> set as. subexprs a). is_var x}" "distinct st \<longrightarrow> distinct vs" by blast
  then show ?case by (auto simp: FuncObjInsertExprVar_def)
next
  case (3 a as st)
  then obtain v1 where v1: "DepthFirstVisit FuncObjInsertExprVar a st = Inr v1"
    "set v1 = set st \<union> {x \<in> subexprs a. is_var x}" "distinct st \<longrightarrow> distinct v1" by blast
  with 3(2) [of v1] obtain v2 where "visit_args FuncObjInsertExprVar as v1 = Inr v2"
    "set v2 = set v1 \<union> {x \<in> (\<Union>a \<in> set as. subexprs a). is_var x}" "distinct v1 \<longrightarrow> distinct v2" by blast
  with v1 show ?case by auto
qed simp

lemma eval_agree:
  "ifun I = ifun J \<Longrightarrow> \<forall>v \<in> subexprs e. is_var v \<longrightarrow> ivar I v = ivar J v \<Longrightarrow> eval I e = eval J e"
proof (induction e)
  case (Expr i n s h ps as k)
  have "map (eval I) as = map (eval J) as" using Expr by auto
  with Expr.prems show ?case by (cases k) (auto cong: map_cong)
qed

text \<open>The ILAs of a tree, and visitors that collect from every one of them.\<close>

inductive in_tree :: "heap \<Rightarrow> nat \<Rightarrow> nat \<Rightarrow> bool" for h where
  self: "in_tree h p p"
| child: "ilas h p = Some m \<Longrightarrow> c \<in> set (vec (ila_childs m)) \<Longrightarrow> in_tree h c q \<Longrightarrow> in_tree h p q"

inductive_simps in_tree_iff: "in_tree h p q"

lemma child_links:
  assumes "heap_inv h" "ilas h p = Some m" "c \<in> set (vec (ila_childs m))"
  shows "p < c" "c \<le> counter h" "ilas h c \<noteq> None"
proof -
  obtain n where "(n, c) \<in> set (kv_entries (ila_childs m))"
    using assms(3) by (auto simp flip: kv_entries_vec)
  then show "p < c" "ilas h c \<noteq> None"
    using heap_invD(2) [OF assms(1,2)] by (auto simp: ila_links_def)
  then show "c \<le> counter h" using heap_invD(3) [OF assms(1), of c] by auto
qed

lemma tree_counter: "in_tree h p q \<Longrightarrow> heap_inv h \<Longrightarrow> ilas h p \<noteq> None \<Longrightarrow> ilas h q \<noteq> None"
  by (induction rule: in_tree.induct) (auto dest: child_links(3))

locale tree_collector =
  fixes func :: "nat \<Rightarrow> 's \<Rightarrow> 's M" and elems :: "'s \<Rightarrow> 'a set" and own :: "Ila \<Rightarrow> 'a set"
  assumes visit_one: "ilas h p = Some m \<Longrightarrow> \<exists>st'. func p st h = Inr (st', h) \<and> elems st' = elems st \<union> own m"
begin

definition tree_elems :: "heap \<Rightarrow> nat \<Rightarrow> 'a set" where
  "tree_elems h p = {x. \<exists>q m. in_tree h p q \<and> ilas h q = Some m \<and> x \<in> own m}"

lemma tree_elems_rec:
  "ilas h p = Some m \<Longrightarrow> tree_elems h p = own m \<union> (\<Union>c \<in> set (vec (ila_childs m)). tree_elems h c)"
  unfolding tree_elems_def by (auto simp: in_tree_iff [of h p])

lemma collect_fold:
  assumes "\<And>c st. c \<in> set cs \<Longrightarrow> \<exists>st'. ila_visit_n n func c st h = Inr (st', h) \<and> elems st' = elems st \<union> tree_elems h c"
  shows "\<exists>st'. foldM (ila_visit_n n func) cs st h = Inr (st', h) \<and> elems st' = elems st \<union> (\<Union>c \<in> set cs. tree_elems h c)"
  using assms
proof (induction cs arbitrary: st)
  case (Cons c cs)
  obtain s1 where s1: "ila_visit_n n func c st h = Inr (s1, h)" "elems s1 = elems st \<union> tree_elems h c"
    using Cons.prems [of c st] by auto
  with Cons.IH [of s1] Cons.prems show ?case by auto
qed simp

lemma collect_n:
  assumes inv: "heap_inv h"
  shows "ilas h p \<noteq> None \<Longrightarrow> counter h - p < n \<Longrightarrow>
    \<exists>st'. ila_visit_n n func p st h = Inr (st', h) \<and> elems st' = elems st \<union> tree_elems h p"
proof (induction n arbitrary: p st)
  case (Suc n)
  then obtain m where m: "ilas h p = Some m" by blast
  have "\<exists>st'. ila_visit_n n func c s h = Inr (st', h) \<and> elems st' = elems s \<union> tree_elems h c"
    if "c \<in> set (vec (ila_childs m))" for c s
    using Suc child_links [OF inv m that] by (intro Suc.IH) auto
  from collect_fold [OF this, of "vec (ila_childs m)" st] obtain s1 where
    s1: "foldM (ila_visit_n n func) (vec (ila_childs m)) st h = Inr (s1, h)"
      "elems s1 = elems st \<union> (\<Union>c \<in> set (vec (ila_childs m)). tree_elems h c)" by auto
  with visit_one [OF m, of s1] show ?case by (auto simp: m tree_elems_rec [OF m])
qed simp

lemma collect:
  assumes "heap_inv h" "ilas h p \<noteq> None"
  shows "\<exists>st'. ila_DepthFirstVisit func p st h = Inr (st', h) \<and> elems st' = elems st \<union> tree_elems h p"
  using collect_n [OF assms, of "Suc (counter h - p)"] by (simp add: ila_DepthFirstVisit_def del: ila_visit_n.simps)

end

interpretation stt: tree_collector InsertStt set "\<lambda>m. set (vec (ila_states m))"
  by unfold_locales (auto simp: InsertStt_def monad_simps)

interpretation inp: tree_collector InsertInp set "\<lambda>m. set (vec (ila_inputs m))"
  by unfold_locales (auto simp: InsertInp_def monad_simps)

interpretation ins: tree_collector InsertInstr set "\<lambda>m. set (vec (ila_instrs m))"
  by unfold_locales (auto simp: InsertInstr_def monad_simps)

section \<open>Copies of expressions and instructions\<close>

text \<open>A table that replaces variables by good expressions of the same sort, and what it means for
  an expression to be the copy of another under the table.\<close>

definition copy_table :: "heap \<Rightarrow> ExprMap \<Rightarrow> bool" where
  "copy_table h em = (\<forall>v p. em v = Some p \<longrightarrow> ekind v = KVar \<and> (\<exists>d. p = Some d \<and> good h d \<and> esort d = esort v))"

definition copies :: "ExprMap \<Rightarrow> heap \<Rightarrow> expr \<Rightarrow> expr \<Rightarrow> bool" where
  "copies em h e d =
     (good h d \<and> esort d = esort e \<and> (\<forall>I. interp_ok I \<longrightarrow> eval I d = eval (subst_interp em I) e))"

lemma copy_dom:
  assumes "dom (ilas h') = dom (ilas h)"
  shows "copy_table h' em = copy_table h em" "copies em h' = copies em h"
  by (simp_all add: copy_table_def copies_def fun_eq_iff good_dom [OF assms])

lemma Rewrite_copies:
  assumes "heap_inv h" "good h e" "copy_table h em"
  shows "\<exists>d h'. absknob_Rewrite (Some e) em h = Inr (d, h') \<and> only_alloc h h' \<and> copies em h' e d"
proof -
  have "\<forall>v p. em v = Some p \<longrightarrow> ekind v = KVar \<and> (\<exists>d. p = Some d \<and> good h d \<and> esort d = esort v)"
    using assms(3) by (simp add: copy_table_def)
  from rewr_subst_sound [OF inv_childs_grow [OF assms(1)] assms(2) this] show ?thesis
    by (auto simp: absknob_Rewrite_def copies_def simp del: run_Inr) (auto simp: monad_simps)
qed

lemma copy_update_run:
  assumes "heap_inv h" "copy_table h em" "update x s = Some e" "good h e"
    "instrs h j = Some y" "update y s = None"
  shows "\<exists>d h' y'. copy_update x j em s h = Inr ((), h') \<and> heap_inv h' \<and> ilas h' = ilas h \<and>
    instrs h' = (instrs h)(j \<mapsto> y') \<and> copies em h' e d \<and> y' = y\<lparr>instr_updates := instr_updates y'\<rparr> \<and>
    (\<forall>n. update y' n = (if n = s then Some d else update y n))"
proof -
  obtain d h1 where d: "absknob_Rewrite (Some e) em h = Inr (d, h1)" "only_alloc h h1" "copies em h1 e d"
    using Rewrite_copies [OF assms(1,4,2)] by blast
  let ?y = "y\<lparr>instr_updates := amap_assign s d (instr_updates y)\<rparr>"
  let ?h = "h1\<lparr>instrs := (instrs h1)(j \<mapsto> ?y)\<rparr>"
  have y: "instrs h1 j = Some y" "ilas h1 = ilas h" "instrs h1 = instrs h" using d(2) assms(5) by (simp_all add: only_alloc_def)
  have inv1: "heap_inv h1" using assms(1) d(2) by (rule heap_inv_alloc)
  have ok: "amap_ok (instr_updates y)" using heap_invD(4) [OF assms(1,5)] by (simp add: instr_ok_def)
  have r: "copy_update x j em s h = Inr ((), ?h)"
    using d(1) y(1) assms(3,6) by (simp add: copy_update_def set_update_def ForceAddUpdate_def update_def Unify_def monad_simps)
  moreover have "heap_inv ?h"
    using inv1 y(1) heap_invD(4) [OF inv1 y(1)] by (intro heap_inv_put_instr) (auto simp: instr_ok_def)
  moreover have "copies em ?h e d" using d(3) copy_dom(2) [of ?h h1] by simp
  moreover have "update ?y n = (if n = s then Some d else update y n)" for n
    using ok by (simp add: update_def map_of_assign)
  ultimately show ?thesis using y by (intro exI [of _ d] exI [of _ ?h] exI [of _ ?y]) simp
qed

lemma copy_updates_run:
  assumes "copy_table h em" "heap_inv h" "instrs h j = Some y" "distinct ss" "\<forall>s \<in> set ss. update y s = None"
    "\<forall>s \<in> set ss. \<exists>e. update x s = Some e \<and> good h e"
  shows "\<exists>h' y'. iterM (copy_update x j em) ss h = Inr ((), h') \<and> heap_inv h' \<and> ilas h' = ilas h \<and>
    instrs h' = (instrs h)(j \<mapsto> y') \<and> y' = y\<lparr>instr_updates := instr_updates y'\<rparr> \<and>
    (\<forall>s. s \<notin> set ss \<longrightarrow> update y' s = update y s) \<and>
    (\<forall>s \<in> set ss. \<exists>e d. update x s = Some e \<and> update y' s = Some d \<and> copies em h' e d)"
  using assms
proof (induction ss arbitrary: h y)
  case Nil
  then show ?case by (auto simp: monad_simps fun_upd_idem intro!: exI [of _ y])
next
  case (Cons s ss)
  then obtain e where e: "update x s = Some e" "good h e" by auto
  obtain d h1 y1 where 1: "copy_update x j em s h = Inr ((), h1)" "heap_inv h1" "ilas h1 = ilas h"
    "instrs h1 = (instrs h)(j \<mapsto> y1)" "copies em h1 e d" "y1 = y\<lparr>instr_updates := instr_updates y1\<rparr>"
    "\<forall>n. update y1 n = (if n = s then Some d else update y n)"
    using copy_update_run [OF Cons.prems(2,1) e Cons.prems(3)] Cons.prems(5) by auto
  have dm: "dom (ilas h1) = dom (ilas h)" using 1(3) by simp
  have "copy_table h1 em" "instrs h1 j = Some y1" "distinct ss" "\<forall>s \<in> set ss. update y1 s = None"
    "\<forall>s \<in> set ss. \<exists>e. update x s = Some e \<and> good h1 e"
    using Cons.prems 1(4,7) copy_dom(1) [OF dm] good_dom [OF dm] by auto
  from Cons.IH [OF this(1) 1(2) this(2-5)] obtain h2 y2 where 2: "iterM (copy_update x j em) ss h1 = Inr ((), h2)"
    "heap_inv h2" "ilas h2 = ilas h1" "instrs h2 = (instrs h1)(j \<mapsto> y2)" "y2 = y1\<lparr>instr_updates := instr_updates y2\<rparr>"
    "\<forall>s. s \<notin> set ss \<longrightarrow> update y2 s = update y1 s"
    "\<forall>s \<in> set ss. \<exists>e d. update x s = Some e \<and> update y2 s = Some d \<and> copies em h2 e d" by blast
  have "copies em h2 e d" using 1(5) copy_dom(2) [of h2 h1] 2(3) by simp
  moreover have "update y2 s = Some d" using 1(7) 2(6) Cons.prems(4) by simp
  moreover have "y2 = y\<lparr>instr_updates := instr_updates y2\<rparr>" using 1(6) 2(5) by (metis Instr.update_convs(4) Instr.surjective)
  ultimately show ?case using 1 2 e(1) by (intro exI [of _ h2] exI [of _ y2]) (auto simp: monad_simps)
qed

lemma NewInstr_run:
  assumes "heap_inv h" "ilas h p = Some m"
  shows "\<exists>h' m' y. NewInstr p nm h = Inr (counter h + 1, h') \<and> heap_inv h' \<and> ilas h' = (ilas h)(p \<mapsto> m') \<and>
    instrs h (counter h + 1) = None \<and> instrs h' = (instrs h)(counter h + 1 \<mapsto> y) \<and>
    y = \<lparr>instr_name = instr_name y, instr_host = Some p, instr_decode = None, instr_updates = [], instr_prog = None\<rparr>"
proof -
  have "instrs h (counter h + 1) = None" using fresh_instr [OF assms(1)] by simp
  moreover obtain r where r: "NewInstr p nm h = Inr r"
    using assms(2) by (auto simp: NewInstr_def Let_def Instr_New_def AddInstr_def monad_simps)
  moreover have "heap_inv (snd r)" using keepsD [OF keeps_NewInstr, of p nm h "fst r" "snd r"] r assms(1) by simp
  ultimately show ?thesis
    using assms(2) by (fastforce simp: NewInstr_def Let_def Instr_New_def AddInstr_def monad_simps)
qed

lemma RewriteInstr_run:
  assumes "heap_inv h" "copy_table h em" "instrs h i = Some x" "instr_decode x = Some e" "good h e"
    "\<forall>u \<in> set (instr_updates x). good h (snd u)"
    "instrs h j = Some y" "instr_decode y = None" "instr_updates y = []" "i \<noteq> j"
  shows "\<exists>h' y' d. RewriteInstr i j em h = Inr ((), h') \<and> heap_inv h' \<and> ilas h' = ilas h \<and>
    instrs h' = (instrs h)(j \<mapsto> y') \<and> instr_host y' = instr_host y \<and> instr_prog y' = instr_prog y \<and>
    instr_decode y' = Some d \<and> copies em h' e d \<and> (\<forall>s. rel_option (copies em h') (update x s) (update y' s))"
proof -
  obtain d h1 where d: "absknob_Rewrite (Some e) em h = Inr (d, h1)" "only_alloc h h1" "copies em h1 e d"
    using Rewrite_copies [OF assms(1,5,2)] by blast
  have same: "ilas h1 = ilas h" "instrs h1 = instrs h" using d(2) by (simp_all add: only_alloc_def)
  have inv1: "heap_inv h1" using assms(1) d(2) by (rule heap_inv_alloc)
  have "e_is_bool d" using d(3) heap_invD(4) [OF assms(1,3)] assms(4) by (auto simp: copies_def instr_ok_def)
  let ?y = "y\<lparr>instr_decode := Some d\<rparr>" and ?h = "h1\<lparr>instrs := (instrs h1)(j \<mapsto> y\<lparr>instr_decode := Some d\<rparr>)\<rparr>"
  have sd: "set_decode j (Some d) h1 = Inr ((), ?h)"
    using assms(7,8) same \<open>e_is_bool d\<close> by (auto simp: set_decode_def ForceSetDecode_def Unify_def monad_simps)
  have inv: "heap_inv ?h" using keepsD [OF keeps_decode(2) sd inv1] .
  have dm: "dom (ilas ?h) = dom (ilas h)" using same by simp
  have ok: "amap_ok (instr_updates x)" using heap_invD(4) [OF assms(1,3)] by (simp add: instr_ok_def)
  have up: "distinct (updated_states x)" "\<forall>s \<in> set (updated_states x). update ?y s = None"
    using ok assms(9) by (simp_all add: updated_states_def amap_ok_def update_def)
  have gd: "\<forall>s \<in> set (updated_states x). \<exists>e. update x s = Some e \<and> good ?h e"
    using ok assms(6) by (force simp: updated_states_def amap_ok_def update_def good_dom [OF dm])
  have tab: "copy_table ?h em" "instrs ?h j = Some ?y" using assms(2) copy_dom(1) [OF dm] by simp_all
  obtain h' y' where r: "iterM (copy_update x j em) (updated_states x) ?h = Inr ((), h')" "heap_inv h'" "ilas h' = ilas ?h"
    "instrs h' = (instrs ?h)(j \<mapsto> y')" "y' = ?y\<lparr>instr_updates := instr_updates y'\<rparr>"
    "\<forall>s. s \<notin> set (updated_states x) \<longrightarrow> update y' s = update ?y s"
    "\<forall>s \<in> set (updated_states x). \<exists>e d. update x s = Some e \<and> update y' s = Some d \<and> copies em h' e d"
    using copy_updates_run [OF tab(1) inv tab(2) up gd] by blast
  have "rel_option (copies em h') (update x s) (update y' s)" for s
  proof (cases "s \<in> set (updated_states x)")
    case True
    then show ?thesis using r(7) by fastforce
  next
    case False
    then have "update x s = None" by (auto simp: updated_states_def update_def map_of_eq_None_iff)
    then show ?thesis using False r(6) assms(9) by (simp add: update_def)
  qed
  moreover have "copies em h' e d" using d(3) copy_dom(2) [of h' h1] r(3) by simp
  moreover have "RewriteInstr i j em h = Inr ((), h')"
    using assms(3,4) d(1) sd r(1) by (simp add: RewriteInstr_def monad_simps)
  moreover have "instr_host y' = instr_host y" "instr_prog y' = instr_prog y" "instr_decode y' = Some d"
    by (subst r(5), simp)+
  ultimately show ?thesis using r(2-4) same by (intro exI [of _ h'] exI [of _ y'] exI [of _ d]) simp
qed

lemma DuplInstr_run:
  assumes "heap_inv h" "copy_table h em" "ilas h dst \<noteq> None" "instrs h i = Some x" "instr_decode x = Some e" "good h e"
    "\<forall>u \<in> set (instr_updates x). good h (snd u)" "\<forall>p. instr_prog x = Some p \<longrightarrow> im p \<noteq> None"
  shows "\<exists>j h' y d. DuplInstr i dst em im h = Inr (j, h') \<and> heap_inv h' \<and> dom (ilas h') = dom (ilas h) \<and>
    instrs h j = None \<and> instrs h' = (instrs h)(j \<mapsto> y) \<and> instr_host y = Some dst \<and>
    instr_prog y = (case instr_prog x of None \<Rightarrow> None | Some p \<Rightarrow> im p) \<and>
    instr_decode y = Some d \<and> copies em h' e d \<and> (\<forall>s. rel_option (copies em h') (update x s) (update y s))"
proof -
  obtain m where m: "ilas h dst = Some m" using assms(3) by blast
  let ?j = "counter h + 1"
  obtain h1 m1 y where 1: "NewInstr dst (instr_name x) h = Inr (?j, h1)" "heap_inv h1" "ilas h1 = (ilas h)(dst \<mapsto> m1)"
    "instrs h ?j = None" "instrs h1 = (instrs h)(?j \<mapsto> y)"
    "y = \<lparr>instr_name = instr_name y, instr_host = Some dst, instr_decode = None, instr_updates = [], instr_prog = None\<rparr>"
    using NewInstr_run [OF assms(1) m, of "instr_name x"] by blast
  have y: "instr_host y = Some dst" "instr_decode y = None" "instr_updates y = []" "instr_prog y = None"
    by (subst 1(6), simp)+
  have dm: "dom (ilas h1) = dom (ilas h)" using 1(3) m by auto
  have ij: "i \<noteq> ?j" "instrs h1 i = Some x" "instrs h1 ?j = Some y" using assms(4) 1(4,5) by auto
  have "copy_table h1 em" "good h1 e" "\<forall>u \<in> set (instr_updates x). good h1 (snd u)"
    using assms(2,6,7) copy_dom(1) [OF dm] good_dom [OF dm] by auto
  then obtain h2 y2 d where 2: "RewriteInstr i ?j em h1 = Inr ((), h2)" "heap_inv h2" "ilas h2 = ilas h1"
    "instrs h2 = (instrs h1)(?j \<mapsto> y2)" "instr_host y2 = instr_host y" "instr_prog y2 = instr_prog y"
    "instr_decode y2 = Some d" "copies em h2 e d" "\<forall>s. rel_option (copies em h2) (update x s) (update y2 s)"
    using RewriteInstr_run [OF 1(2) _ ij(2) assms(5) _ _ ij(3) y(2,3) ij(1)] by blast
  show ?thesis
  proof (cases "instr_prog x")
    case None
    then have "DuplInstr i dst em im h = Inr (?j, h2)"
      using assms(4) 1(1) 2(1) by (simp add: DuplInstr_def monad_simps)
    then show ?thesis using None 1 2 y dm by (intro exI [of _ ?j] exI [of _ h2] exI [of _ y2] exI [of _ d]) auto
  next
    case (Some p)
    then obtain q where q: "im p = Some q" using assms(8) by blast
    let ?y = "y2\<lparr>instr_prog := Some q\<rparr>" and ?h = "h2\<lparr>instrs := (instrs h2)(?j \<mapsto> y2\<lparr>instr_prog := Some q\<rparr>)\<rparr>"
    have sp: "set_program ?j (Some q) h2 = Inr ((), ?h)"
      using 2(4,6) y(4) by (simp add: set_program_def monad_simps)
    then have "DuplInstr i dst em im h = Inr (?j, ?h)"
      using assms(4) 1(1) 2(1) Some q by (simp add: DuplInstr_def monad_simps)
    moreover have "heap_inv ?h" using keepsD [OF keeps_set_program sp 2(2)] .
    moreover have "copies em ?h = copies em h2" by (rule copy_dom(2)) simp
    moreover have "update ?y s = update y2 s" for s by (simp add: update_def)
    ultimately show ?thesis using Some q 1 2 y dm
      by (intro exI [of _ ?j] exI [of _ ?h] exI [of _ ?y] exI [of _ d]) auto
  qed
qed

section \<open>Properties\<close>

text \<open>C17: Copying an instruction into another ILA returns a new instruction of that ILA whose decode
  and update functions are those of the source with every variable replaced by the table: the same
  updated states, the same sorts, and under every interpretation the value of the source with the
  replaced variables read as their replacement. The child-program is the mapped one, no other
  instruction changes, and the invariant is kept.\<close>

theorem DuplInstr_copies:
  assumes "heap_inv h" "copy_table h em" "ilas h dst \<noteq> None" "instrs h i = Some x" "instr_decode x = Some e" "good h e"
    "\<forall>u \<in> set (instr_updates x). good h (snd u)" "\<forall>p. instr_prog x = Some p \<longrightarrow> im p \<noteq> None"
  shows "\<exists>j h' y d. DuplInstr i dst em im h = Inr (j, h') \<and> heap_inv h' \<and> instrs h j = None \<and>
    instrs h' = (instrs h)(j \<mapsto> y) \<and> instr_host y = Some dst \<and>
    instr_prog y = (case instr_prog x of None \<Rightarrow> None | Some p \<Rightarrow> im p) \<and>
    instr_decode y = Some d \<and> copies em h' e d \<and> (\<forall>s. rel_option (copies em h') (update x s) (update y s))"
  using DuplInstr_run [OF assms] by blast

text \<open>C29: The variables of an expression. Collecting them returns each variable node of the
  expression exactly once, and these variables determine its value: two interpretations that agree on
  them and on the functions give the expression the same value.\<close>

theorem GetVar_support:
  "\<exists>vs. GetVar_expr e = Inr vs \<and> distinct vs \<and> set vs = {x \<in> subexprs e. is_var x} \<and>
     (\<forall>I J. ifun I = ifun J \<longrightarrow> (\<forall>v \<in> set vs. ivar I v = ivar J v) \<longrightarrow> eval I e = eval J e)"
proof -
  obtain vs where vs: "DepthFirstVisit FuncObjInsertExprVar e [] = Inr vs" "distinct vs"
    "set vs = {x \<in> subexprs e. is_var x}" using var_visit(1) [of e "[]"] by auto
  then have "eval I e = eval J e" if "ifun I = ifun J" "\<forall>v \<in> set vs. ivar I v = ivar J v" for I J
    using eval_agree [OF that(1), of e] that(2) by simp
  with vs show ?thesis unfolding GetVar_expr_def by blast
qed

text \<open>C28: Collecting over a tree of ILAs always returns, and gives exactly the states, the variables
  and the instructions of the ILAs of the tree; \<^verbatim>\<open>GetInpTree\<close> gives the inputs of the top ILA only.\<close>

theorem tree_collections:
  assumes "heap_inv h" "ilas h root = Some m"
  shows "\<exists>vs ws iv ps. GetSttTree root h = Inr (vs, h) \<and> GetVarTree root h = Inr (ws, h) \<and>
    GetInstrTree root h = Inr (iv, h) \<and> GetInpTree root h = Inr (ps, h) \<and>
    set vs = {x. \<exists>q mq. in_tree h root q \<and> ilas h q = Some mq \<and> x \<in> set (vec (ila_states mq))} \<and>
    set ws = set vs \<union> {x. \<exists>q mq. in_tree h root q \<and> ilas h q = Some mq \<and> x \<in> set (vec (ila_inputs mq))} \<and>
    set iv = {x. \<exists>q mq. in_tree h root q \<and> ilas h q = Some mq \<and> x \<in> set (vec (ila_instrs mq))} \<and>
    set ps = set (vec (ila_inputs m))"
proof -
  have r: "ilas h root \<noteq> None" using assms(2) by simp
  obtain vs where vs: "ila_DepthFirstVisit InsertStt root [] h = Inr (vs, h)" "set vs = stt.tree_elems h root"
    using stt.collect [OF assms(1) r, of "[]"] by auto
  obtain ws where ws: "ila_DepthFirstVisit InsertInp root vs h = Inr (ws, h)" "set ws = set vs \<union> inp.tree_elems h root"
    using inp.collect [OF assms(1) r, of vs] by auto
  obtain iv where iv: "ila_DepthFirstVisit InsertInstr root [] h = Inr (iv, h)" "set iv = ins.tree_elems h root"
    using ins.collect [OF assms(1) r, of "[]"] by auto
  have "GetInpTree root h = Inr (fold es_insert (vec (ila_inputs m)) [], h)"
    using assms(2) by (simp add: GetInpTree_def InsertInp_def monad_simps)
  with vs ws iv show ?thesis
    by (simp add: GetSttTree_def InsertSttTree_def GetVarTree_def InsertVarTree_def InsertInpTree_def
        GetInstrTree_def InsertInstrTree_def stt.tree_elems_def inp.tree_elems_def ins.tree_elems_def monad_simps)
qed

text \<open>An ILA with a state, an instruction that adds 9 to it, and a child with an input of its own.\<close>

definition tree_b :: expr where
  "tree_b = Expr 4 ''b'' SortBool (Some 12) [] [] KVar"

definition tree_heap :: heap where
  "tree_heap =
     \<lparr>counter = 20,
      ilas = [10 \<mapsto> (ila_init ''m'' None)\<lparr>ila_states := snd (push_back ''x'' sub_x KeyVec_new),
                      ila_instrs := snd (push_back ''i'' 11 KeyVec_new),
                      ila_childs := snd (push_back ''c'' 12 KeyVec_new)\<rparr>,
              12 \<mapsto> (ila_init ''c'' (Some 10))\<lparr>ila_inputs := snd (push_back ''b'' tree_b KeyVec_new)\<rparr>],
      instrs = [11 \<mapsto> \<lparr>instr_name = ''i'', instr_host = Some 10,
                       instr_decode = Some (Expr 5 ''$5'' SortBool None [] [] (KConst (BoolVal True))),
                       instr_updates = [(''x'', sum_x9)], instr_prog = None\<rparr>]\<rparr>"

lemma push_new [simp]:
  "kv_entries (snd (push_back k t KeyVec_new)) = [(k, t)]" "vec (snd (push_back k t KeyVec_new)) = [t]"
  using kv.push_eq [OF kv_inv_new, of k t] kv_entries_vec [of "snd (push_back k t KeyVec_new)"] by simp_all

lemma tree_heap_inv: "heap_inv tree_heap"
  using ila_local_init [of "''m''" None] ila_local_init [of "''c''" "Some 10"]
  by (auto simp: heap_inv_def tree_heap_def ila_local_def ila_links_def instr_ok_def ila_init_def amap_ok_def
      var_map_ok_def sub_x_def tree_b_def)

theorem DuplInstr_copies_witness:
  "\<exists>j h' y d. DuplInstr 11 12 [sub_x \<mapsto> Some const9] Map.empty tree_heap = Inr (j, h') \<and>
     instrs h' j = Some y \<and> instr_host y = Some 12 \<and> update y ''x'' = Some d \<and> eval zero_interp d = VBv 2"
proof -
  have g: "good tree_heap const9" "good tree_heap sum_x9"
    "good tree_heap (Expr 5 ''$5'' SortBool None [] [] (KConst (BoolVal True)))"
    by (simp_all add: good_def sum_x9_def sub_x_def const9_def node_wf_def const_wf_def op_sort_def same_sort_def
        sem_ok_def supported_def host_in_def)
  have t: "copy_table tree_heap [sub_x \<mapsto> Some const9]"
    using g(1) by (auto simp: copy_table_def sub_x_def const9_def split: if_splits)
  let ?x = "\<lparr>instr_name = ''i'', instr_host = Some 10,
    instr_decode = Some (Expr 5 ''$5'' SortBool None [] [] (KConst (BoolVal True))),
    instr_updates = [(''x'', sum_x9)], instr_prog = None\<rparr>"
  have h: "ilas tree_heap 12 \<noteq> None" "instrs tree_heap 11 = Some ?x" by (simp_all add: tree_heap_def)
  obtain j h' y d where r: "DuplInstr 11 12 [sub_x \<mapsto> Some const9] Map.empty tree_heap = Inr (j, h')"
    "instrs h' = (instrs tree_heap)(j \<mapsto> y)" "instr_host y = Some 12"
    "\<forall>s. rel_option (copies [sub_x \<mapsto> Some const9] h') (update ?x s) (update y s)"
    using DuplInstr_copies [OF tree_heap_inv t h, of _ Map.empty] g(2,3) by auto
  have "rel_option (copies [sub_x \<mapsto> Some const9] h') (Some sum_x9) (update y ''x'')"
    using r(4) [THEN spec, of "''x''"] by (simp add: update_def)
  then obtain d' where d: "update y ''x'' = Some d'" "copies [sub_x \<mapsto> Some const9] h' sum_x9 d'"
    by (cases "update y ''x''") auto
  have "eval zero_interp d' = VBv 2"
    using d(2) zero_interp_ok
    by (simp add: copies_def subst_interp_def sum_x9_def sub_x_def const9_def const_sem_def op_sem_def bv2_def)
  with r d(1) show ?thesis by auto
qed

theorem GetVar_support_witness:
  "GetVar_expr sum_x9 = Inr [sub_x] \<and>
   eval (zero_interp\<lparr>ivar := (\<lambda>e. if e = sub_x then VBv 0 else VErr)\<rparr>) sum_x9 = eval zero_interp sum_x9"
proof -
  have v: "GetVar_expr sum_x9 = Inr [sub_x]"
    by (simp add: GetVar_expr_def sum_x9_def sub_x_def const9_def FuncObjInsertExprVar_def es_insert_def)
  obtain vs where g: "GetVar_expr sum_x9 = Inr vs"
    "\<And>I J. ifun I = ifun J \<Longrightarrow> \<forall>v \<in> set vs. ivar I v = ivar J v \<Longrightarrow> eval I sum_x9 = eval J sum_x9"
    using GetVar_support [of sum_x9] by blast
  have "ivar zero_interp sub_x = VBv 0" by (simp add: zero_interp_def sub_x_def zero_val_def)
  then show ?thesis
    using v g(1) g(2) [of "zero_interp\<lparr>ivar := (\<lambda>e. if e = sub_x then VBv 0 else VErr)\<rparr>" zero_interp] by simp
qed

theorem tree_collections_witness:
  "\<exists>ws ps. GetVarTree 10 tree_heap = Inr (ws, tree_heap) \<and> tree_b \<in> set ws \<and>
     GetInpTree 10 tree_heap = Inr (ps, tree_heap) \<and> tree_b \<notin> set ps"
proof -
  have vec_new: "vec (KeyVec_new :: (string, expr) KeyVec) = []" by (simp add: KeyVec_new_def)
  obtain m where m: "ilas tree_heap 10 = Some m" "12 \<in> set (vec (ila_childs m))" "vec (ila_inputs m) = []"
    using vec_new by (simp add: tree_heap_def ila_init_def)
  obtain mc where mc: "ilas tree_heap 12 = Some mc" "tree_b \<in> set (vec (ila_inputs mc))"
    by (simp add: tree_heap_def)
  have "in_tree tree_heap 10 12" using m(1,2) in_tree.self by (rule in_tree.child)
  with tree_collections [OF tree_heap_inv m(1)] mc m(3) show ?thesis by fastforce
qed

end
