(* ===== verification/Smt.thy ===== *)
theory Smt
  imports Semantics
begin

text \<open>
  What the two SMT libraries ILAng links against document: the sorts and function symbols of
  the SMT-LIB theories of bit-vectors and arrays with their meaning. The libraries are not part
  of the repository; their interfaces are parameters of the translations (theories Z3Gen and
  SmtSwitch), and this theory is the vocabulary in which their documented behaviour is stated.
\<close>

section \<open>Sorts and function symbols\<close>

text \<open>Structs and vectors get uninterpreted sorts, one per sort object; the model keeps the sort
  itself as their identity.\<close>

datatype smt_sort = SBool | SBv int | SArray smt_sort smt_sort | SOther sort

datatype smt_fun =
    Bvneg | Notf | Bvnot | Andf | Bvand | Orf | Bvor | Xorf | Bvxor | Bvshl | Bvashr | Bvlshr
  | Bvadd | Bvsub | Bvsdiv | Bvsrem | Bvurem | Bvsmod | Bvmul
  | Eqf | Bvslt | Bvsgt | Bvult | Bvugt | Selectf | Storef | Concatf | Extractf
  | Zero_extend | Sign_extend | Rotate_left | Rotate_right | Impliesf | Itef

definition sig_bv1 :: "smt_sort list \<Rightarrow> int list \<Rightarrow> smt_sort option" where
  "sig_bv1 ss ps = (case (ss, ps) of ([SBv w], []) \<Rightarrow> Some (SBv w) | _ \<Rightarrow> None)"

definition sig_bv2 :: "smt_sort list \<Rightarrow> int list \<Rightarrow> smt_sort option" where
  "sig_bv2 ss ps = (case (ss, ps) of
     ([SBv w, SBv v], []) \<Rightarrow> (if w = v then Some (SBv w) else None) | _ \<Rightarrow> None)"

definition sig_bvp :: "smt_sort list \<Rightarrow> int list \<Rightarrow> smt_sort option" where
  "sig_bvp ss ps = (case (ss, ps) of
     ([SBv w, SBv v], []) \<Rightarrow> (if w = v then Some SBool else None) | _ \<Rightarrow> None)"

definition sig_bool2 :: "smt_sort list \<Rightarrow> int list \<Rightarrow> smt_sort option" where
  "sig_bool2 ss ps = (if ss = [SBool, SBool] \<and> ps = [] then Some SBool else None)"

definition smt_sig :: "smt_fun \<Rightarrow> int list \<Rightarrow> smt_sort list \<Rightarrow> smt_sort option" where
  "smt_sig f ps ss = (case f of
       Bvneg \<Rightarrow> sig_bv1 ss ps | Bvnot \<Rightarrow> sig_bv1 ss ps
     | Notf \<Rightarrow> (if ss = [SBool] \<and> ps = [] then Some SBool else None)
     | Andf \<Rightarrow> sig_bool2 ss ps | Orf \<Rightarrow> sig_bool2 ss ps | Xorf \<Rightarrow> sig_bool2 ss ps
     | Impliesf \<Rightarrow> sig_bool2 ss ps
     | Bvand \<Rightarrow> sig_bv2 ss ps | Bvor \<Rightarrow> sig_bv2 ss ps | Bvxor \<Rightarrow> sig_bv2 ss ps
     | Bvshl \<Rightarrow> sig_bv2 ss ps | Bvashr \<Rightarrow> sig_bv2 ss ps | Bvlshr \<Rightarrow> sig_bv2 ss ps
     | Bvadd \<Rightarrow> sig_bv2 ss ps | Bvsub \<Rightarrow> sig_bv2 ss ps | Bvmul \<Rightarrow> sig_bv2 ss ps
     | Bvsdiv \<Rightarrow> sig_bv2 ss ps | Bvsrem \<Rightarrow> sig_bv2 ss ps | Bvurem \<Rightarrow> sig_bv2 ss ps
     | Bvsmod \<Rightarrow> sig_bv2 ss ps
     | Bvslt \<Rightarrow> sig_bvp ss ps | Bvsgt \<Rightarrow> sig_bvp ss ps | Bvult \<Rightarrow> sig_bvp ss ps | Bvugt \<Rightarrow> sig_bvp ss ps
     | Eqf \<Rightarrow> (case (ss, ps) of ([s, t], []) \<Rightarrow> (if s = t then Some SBool else None) | _ \<Rightarrow> None)
     | Selectf \<Rightarrow> (case (ss, ps) of
         ([SArray a d, i], []) \<Rightarrow> (if i = a then Some d else None) | _ \<Rightarrow> None)
     | Storef \<Rightarrow> (case (ss, ps) of
         ([SArray a d, i, v], []) \<Rightarrow> (if i = a \<and> v = d then Some (SArray a d) else None) | _ \<Rightarrow> None)
     | Concatf \<Rightarrow> (case (ss, ps) of ([SBv w, SBv v], []) \<Rightarrow> Some (SBv (w + v)) | _ \<Rightarrow> None)
     | Extractf \<Rightarrow> (case (ss, ps) of
         ([SBv w], [hi, lo]) \<Rightarrow> (if 0 \<le> lo \<and> lo \<le> hi \<and> hi < w then Some (SBv (hi - lo + 1)) else None)
       | _ \<Rightarrow> None)
     | Zero_extend \<Rightarrow> (case (ss, ps) of ([SBv w], [k]) \<Rightarrow> (if 0 \<le> k then Some (SBv (w + k)) else None) | _ \<Rightarrow> None)
     | Sign_extend \<Rightarrow> (case (ss, ps) of ([SBv w], [k]) \<Rightarrow> (if 0 \<le> k then Some (SBv (w + k)) else None) | _ \<Rightarrow> None)
     | Rotate_left \<Rightarrow> (case (ss, ps) of ([SBv w], [k]) \<Rightarrow> (if 0 \<le> k then Some (SBv w) else None) | _ \<Rightarrow> None)
     | Rotate_right \<Rightarrow> (case (ss, ps) of ([SBv w], [k]) \<Rightarrow> (if 0 \<le> k then Some (SBv w) else None) | _ \<Rightarrow> None)
     | Itef \<Rightarrow> (case (ss, ps) of
         ([SBool, s, t], []) \<Rightarrow> (if s = t then Some s else None) | _ \<Rightarrow> None))"

section \<open>Meaning\<close>

definition smt_width :: "smt_sort list \<Rightarrow> nat \<Rightarrow> nat" where
  "smt_width ss i = (if i < length ss then (case ss ! i of SBv w \<Rightarrow> nat w | _ \<Rightarrow> 0) else 0)"

definition bool2 :: "(bool \<Rightarrow> bool \<Rightarrow> bool) \<Rightarrow> sval list \<Rightarrow> sval" where
  "bool2 g vs = (case vs of [VBool a, VBool b] \<Rightarrow> VBool (g a b) | _ \<Rightarrow> VErr)"

definition smt_sem :: "smt_fun \<Rightarrow> int list \<Rightarrow> smt_sort list \<Rightarrow> sval list \<Rightarrow> sval" where
  "smt_sem f ps ss vs = (let w = smt_width ss 0 in case f of
       Bvneg \<Rightarrow> bv1 (\<lambda>a. (- a) mod 2 ^ w) vs
     | Bvnot \<Rightarrow> bv1 (\<lambda>a. 2 ^ w - 1 - a) vs
     | Notf \<Rightarrow> (case vs of [VBool a] \<Rightarrow> VBool (\<not> a) | _ \<Rightarrow> VErr)
     | Andf \<Rightarrow> bool2 (\<and>) vs | Orf \<Rightarrow> bool2 (\<or>) vs | Xorf \<Rightarrow> bool2 (\<noteq>) vs | Impliesf \<Rightarrow> bool2 (\<longrightarrow>) vs
     | Bvand \<Rightarrow> bv2 (AND) vs | Bvor \<Rightarrow> bv2 (OR) vs | Bvxor \<Rightarrow> bv2 (XOR) vs
     | Bvshl \<Rightarrow> bv2 (bv_shl w) vs | Bvashr \<Rightarrow> bv2 (bv_ashr w) vs | Bvlshr \<Rightarrow> bv2 (bv_lshr w) vs
     | Bvadd \<Rightarrow> bv2 (\<lambda>a b. (a + b) mod 2 ^ w) vs
     | Bvsub \<Rightarrow> bv2 (\<lambda>a b. (a - b) mod 2 ^ w) vs
     | Bvmul \<Rightarrow> bv2 (\<lambda>a b. (a * b) mod 2 ^ w) vs
     | Bvsdiv \<Rightarrow> bv2 (bv_sdiv w) vs | Bvsrem \<Rightarrow> bv2 (bv_srem w) vs | Bvurem \<Rightarrow> bv2 bv_urem vs
     | Bvsmod \<Rightarrow> bv2 (bv_smod w) vs
     | Bvslt \<Rightarrow> bvp (\<lambda>a b. bv_signed w a < bv_signed w b) vs
     | Bvsgt \<Rightarrow> bvp (\<lambda>a b. bv_signed w b < bv_signed w a) vs
     | Bvult \<Rightarrow> bvp (\<lambda>a b. a < b) vs
     | Bvugt \<Rightarrow> bvp (\<lambda>a b. b < a) vs
     | Eqf \<Rightarrow> (case vs of [a, b] \<Rightarrow> VBool (a = b) | _ \<Rightarrow> VErr)
     | Selectf \<Rightarrow> (case vs of [VMem m, VBv a] \<Rightarrow> VBv (m a) | _ \<Rightarrow> VErr)
     | Storef \<Rightarrow> (case vs of [VMem m, VBv a, VBv d] \<Rightarrow> VMem (m(a := d)) | _ \<Rightarrow> VErr)
     | Concatf \<Rightarrow> bv2 (\<lambda>a b. a * 2 ^ smt_width ss 1 + b) vs
     | Extractf \<Rightarrow> (case ps of [hi, lo] \<Rightarrow> bv1 (bv_extract hi lo) vs | _ \<Rightarrow> VErr)
     | Zero_extend \<Rightarrow> bv1 (\<lambda>a. a) vs
     | Sign_extend \<Rightarrow> (case ps of [k] \<Rightarrow> bv1 (\<lambda>a. bv_signed w a mod 2 ^ (w + nat k)) vs | _ \<Rightarrow> VErr)
     | Rotate_left \<Rightarrow> (case ps of [k] \<Rightarrow> bv1 (bv_rotl w k) vs | _ \<Rightarrow> VErr)
     | Rotate_right \<Rightarrow> (case ps of [k] \<Rightarrow> bv1 (bv_rotr w k) vs | _ \<Rightarrow> VErr)
     | Itef \<Rightarrow> (case vs of [VBool c, a, b] \<Rightarrow> (if c then a else b) | _ \<Rightarrow> VErr))"

text \<open>Arrays with every index mapped to one value. An array is 0 outside its index range.\<close>

definition const_array :: "int \<Rightarrow> sval \<Rightarrow> sval" where
  "const_array aw v = (case v of
     VBv d \<Rightarrow> VMem (\<lambda>x. if 0 \<le> x \<and> x < 2 ^ nat aw then d else 0) | _ \<Rightarrow> VErr)"

text \<open>Assignments of values to constants, by name and sort, and to functions, by name and
  signature.\<close>

record smt_env =
  env_const :: "string \<Rightarrow> smt_sort \<Rightarrow> sval"
  env_fun :: "string \<Rightarrow> smt_sort list \<Rightarrow> smt_sort \<Rightarrow> sval list \<Rightarrow> sval"

section \<open>The sorts of ILAs\<close>

definition smt_sort_of :: "sort \<Rightarrow> smt_sort" where
  "smt_sort_of s = (case s of
       SortBool \<Rightarrow> SBool
     | SortBv w \<Rightarrow> SBv w
     | SortMem a d \<Rightarrow> SArray (SBv a) (SBv d)
     | _ \<Rightarrow> SOther s)"

lemma smt_sort_simps [simp]:
  "smt_sort_of SortBool = SBool" "smt_sort_of (SortBv w) = SBv w"
  "smt_sort_of (SortMem a d) = SArray (SBv a) (SBv d)"
  by (simp_all add: smt_sort_of_def)

lemma smt_sort_inj [simp]: "smt_sort_of s = smt_sort_of t \<longleftrightarrow> s = t"
  by (cases s; cases t) (auto simp: smt_sort_of_def)

lemma smt_width_cons [simp]:
  "smt_width (SBv w # ss) 0 = nat w" "smt_width (s # SBv w # ss) (Suc 0) = nat w"
  by (simp_all add: smt_width_def)

text \<open>Assignments that give every constant and function a value of its sort.\<close>

definition env_ok :: "smt_env \<Rightarrow> bool" where
  "env_ok E =
     ((\<forall>n s. sort_wf s \<longrightarrow> val_ok s (env_const E n (smt_sort_of s))) \<and>
      (\<forall>n ss s vs. sort_wf s \<longrightarrow> list_all2 val_ok ss vs \<longrightarrow>
         val_ok s (env_fun E n (map smt_sort_of ss) (smt_sort_of s) vs)))"

definition smt_zero :: "smt_sort \<Rightarrow> sval" where
  "smt_zero s = (case s of SBool \<Rightarrow> VBool False | SBv w \<Rightarrow> VBv 0 | SArray a d \<Rightarrow> VMem (\<lambda>x. 0) | _ \<Rightarrow> VErr)"

definition zero_env :: smt_env where
  "zero_env = \<lparr>env_const = (\<lambda>n s. smt_zero s), env_fun = (\<lambda>n ss s vs. smt_zero s)\<rparr>"

lemma zero_env_ok: "env_ok zero_env"
proof -
  have "sort_wf s \<Longrightarrow> val_ok s (smt_zero (smt_sort_of s))" for s by (cases s) (simp_all add: smt_zero_def)
  then show ?thesis by (simp add: env_ok_def zero_env_def)
qed

text \<open>The interpretation of expressions that an assignment gives under a naming of variables,
  functions and functions without arguments.\<close>

definition smt_interp ::
  "(expr \<Rightarrow> string) \<Rightarrow> (Func \<Rightarrow> string) \<Rightarrow> (Func \<Rightarrow> string) \<Rightarrow> smt_env \<Rightarrow> interp" where
  "smt_interp vname fname cname E =
     \<lparr>ivar = (\<lambda>e. env_const E (vname e) (smt_sort_of (esort e))),
      ifun = (\<lambda>f vs. if func_args f = [] then env_const E (cname f) (smt_sort_of (func_out f))
                      else env_fun E (fname f) (map smt_sort_of (func_args f)) (smt_sort_of (func_out f)) vs)\<rparr>"

lemma smt_interp_ok: "env_ok E \<Longrightarrow> interp_ok (smt_interp vname fname cname E)"
  by (auto simp: interp_ok_def smt_interp_def env_ok_def)

section \<open>The function symbol of an operation\<close>

text \<open>What the translations must produce: the symbol and its indices for an operation.\<close>

definition smt_call :: "AstUidExprOp \<Rightarrow> sort list \<Rightarrow> int list \<Rightarrow> (smt_fun \<times> int list) option" where
  "smt_call u ss ps = (let bv = is_bv (ss ! 0) 0; w = int (width_of ss 0) in case u of
       kInvalid \<Rightarrow> None | kApplyFunc \<Rightarrow> None
     | kNegate \<Rightarrow> Some (Bvneg, []) | kNot \<Rightarrow> Some (Notf, []) | kComplement \<Rightarrow> Some (Bvnot, [])
     | kAnd \<Rightarrow> Some (if bv then Bvand else Andf, [])
     | kOr \<Rightarrow> Some (if bv then Bvor else Orf, [])
     | kXor \<Rightarrow> Some (if bv then Bvxor else Xorf, [])
     | kShiftLeft \<Rightarrow> Some (Bvshl, []) | kArithShiftRight \<Rightarrow> Some (Bvashr, [])
     | kLogicShiftRight \<Rightarrow> Some (Bvlshr, [])
     | kAdd \<Rightarrow> Some (Bvadd, []) | kSubtract \<Rightarrow> Some (Bvsub, []) | kMultiply \<Rightarrow> Some (Bvmul, [])
     | kDivide \<Rightarrow> Some (Bvsdiv, []) | kSignedRemainder \<Rightarrow> Some (Bvsrem, [])
     | kUnsignedRemainder \<Rightarrow> Some (Bvurem, []) | kSignedModular \<Rightarrow> Some (Bvsmod, [])
     | kEqual \<Rightarrow> Some (Eqf, []) | kLessThan \<Rightarrow> Some (Bvslt, []) | kGreaterThan \<Rightarrow> Some (Bvsgt, [])
     | kUnsignedLessThan \<Rightarrow> Some (Bvult, []) | kUnsignedGreaterThan \<Rightarrow> Some (Bvugt, [])
     | kLoad \<Rightarrow> Some (Selectf, []) | kStore \<Rightarrow> Some (Storef, [])
     | kConcatenate \<Rightarrow> Some (Concatf, []) | kExtract \<Rightarrow> Some (Extractf, ps)
     | kZeroExtend \<Rightarrow> Some (Zero_extend, [ps ! 0 - w])
     | kSignedExtend \<Rightarrow> Some (Sign_extend, [ps ! 0 - w])
     | kRotateLeft \<Rightarrow> Some (Rotate_left, ps) | kRotateRight \<Rightarrow> Some (Rotate_right, ps)
     | kImply \<Rightarrow> Some (Impliesf, []) | kIfThenElse \<Rightarrow> Some (Itef, []))"

lemmas sig_defs = smt_sig_def sig_bv1_def sig_bv2_def sig_bvp_def sig_bool2_def

lemma op_sort_rules:
  "op_sort kNegate = unary_bv" "op_sort kComplement = unary_bv"
  "op_sort kAnd = same_sort" "op_sort kOr = same_sort" "op_sort kXor = same_sort"
  "op_sort kAdd = same_sort" "op_sort kSubtract = same_sort" "op_sort kMultiply = same_sort"
  "op_sort kDivide = same_sort" "op_sort kSignedRemainder = same_sort"
  "op_sort kUnsignedRemainder = same_sort" "op_sort kSignedModular = same_sort"
  "op_sort kShiftLeft = binary_bv" "op_sort kArithShiftRight = binary_bv"
  "op_sort kLogicShiftRight = binary_bv"
  "op_sort kLessThan = comparison" "op_sort kGreaterThan = comparison"
  "op_sort kUnsignedLessThan = comparison" "op_sort kUnsignedGreaterThan = comparison"
  "op_sort kZeroExtend = extension" "op_sort kSignedExtend = extension"
  "op_sort kRotateLeft = rotation" "op_sort kRotateRight = rotation"
  "op_sort kInvalid ss ps = None" "op_sort kApplyFunc ss ps = None"
  by (simp_all add: fun_eq_iff op_sort_def)

lemmas op_sort_inv = op_sort_Some op_sort_rules sort_rule_Some

lemma smt_call_sig:
  assumes "op_sort u ss ps = Some s" "sem_ok u ss ps" "list_all sort_wf ss" "smt_call u ss ps = Some (f, qs)"
  shows "smt_sig f qs (map smt_sort_of ss) = Some (smt_sort_of s)"
  using assms
  by (cases u) (auto simp: op_sort_inv smt_call_def Let_def sem_ok_def sig_defs)

lemma sval_sems:
  "bool2 g [VBool a, VBool b] = VBool (g a b)" "bv2 k [VBv x, VBv y] = VBv (k x y)"
  "bv1 l [VBv x] = VBv (l x)" "bvp p [VBv x, VBv y] = VBool (p x y)"
  "bool_or_bv g k [VBool a, VBool b] = VBool (g a b)" "bool_or_bv g k [VBv x, VBv y] = VBv (k x y)"
  by (simp_all add: bool2_def bv2_def bv1_def bvp_def bool_or_bv_def)

lemma smt_call_sem:
  assumes "op_sort u ss ps = Some s" "sem_ok u ss ps" "list_all sort_wf ss" "list_all2 val_ok ss vs"
    "smt_call u ss ps = Some (f, qs)"
  shows "smt_sem f qs (map smt_sort_of ss) vs = op_sem u ss ps vs"
  using assms
  by (cases u) (auto simp: op_sort_inv smt_call_def Let_def sem_ok_def list_all2_len val_ok_iff
      smt_sem_def op_sem_def sval_sems nat_diff_distrib)

text \<open>A term that stands for an expression, and the value of an operation on such terms.\<close>

definition stands_for ::
  "('t \<Rightarrow> smt_sort) \<Rightarrow> (smt_env \<Rightarrow> 't \<Rightarrow> sval) \<Rightarrow> (smt_env \<Rightarrow> interp) \<Rightarrow> expr \<Rightarrow> 't \<Rightarrow> bool" where
  "stands_for tsort den meaning e t =
     (tsort t = smt_sort_of (esort e) \<and> (\<forall>E. env_ok E \<longrightarrow> den E t = eval (meaning E) e))"

lemma stands_for_args:
  assumes "list_all2 (stands_for tsort den meaning) es ts"
  shows "map tsort ts = map smt_sort_of (map esort es)"
    and "env_ok E \<Longrightarrow> map (den E) ts = map (eval (meaning E)) es"
  using assms by (auto simp: list_all2_conv_all_nth stands_for_def intro: nth_equalityI)

lemma op_stands_for:
  assumes wf: "wf_expr e" "ekind e = KOp u" and args: "list_all2 (stands_for tsort den meaning) (eargs e) ts"
    and call: "smt_call u (map esort (eargs e)) (eparams e) = Some (f, qs)"
    and ok: "\<And>E. env_ok E \<Longrightarrow> interp_ok (meaning E)"
  shows "smt_sig f qs (map tsort ts) = Some (smt_sort_of (esort e))"
    and "env_ok E \<Longrightarrow> smt_sem f qs (map tsort ts) (map (den E) ts) = eval (meaning E) e"
proof -
  let ?ss = "map esort (eargs e)"
  have n: "op_sort u ?ss (eparams e) = Some (esort e)" "sem_ok u ?ss (eparams e)"
    using wf wf_node [of e] by (simp_all add: node_wf_def)
  have wfa: "\<forall>a \<in> set (eargs e). wf_expr a" using wf(1) by (auto intro: wf_args)
  then have srt: "list_all sort_wf ?ss" by (auto simp: list_all_iff wf_sort)
  note ts = stands_for_args [OF args]
  show "smt_sig f qs (map tsort ts) = Some (smt_sort_of (esort e))"
    using smt_call_sig [OF n srt call] ts(1) by simp
  show "smt_sem f qs (map tsort ts) (map (den E) ts) = eval (meaning E) e" if "env_ok E"
  proof -
    have "list_all2 val_ok ?ss (map (den E) ts)"
      using wfa ok [OF that] by (auto simp: ts(2) [OF that] list_all2_conv_all_nth eval_val_ok)
    from smt_call_sem [OF n srt this call] show ?thesis
      using wf(2) by (cases e) (simp add: ts(1) ts(2) [OF that])
  qed
qed

section \<open>Memory constants\<close>

text \<open>A memory constant is the constant array with the explicit data stored in order.\<close>

lemma fold_store:
  "fold (\<lambda>(a, d) m. m(a := d)) xs f x = (case map_of (rev xs) x of None \<Rightarrow> f x | Some d \<Rightarrow> d)"
  by (induction xs arbitrary: f) (auto simp: map_add_def split: option.splits)

definition entries :: "MemVal \<Rightarrow> (int \<times> int) list" where
  "entries mv = map (\<lambda>(x, y). (uint x, uint y)) (val_map mv)"

lemma entries_lookup:
  assumes "MemVal_ok mv"
  shows "map_of (rev (entries mv)) x =
    (if 0 \<le> x \<and> x < 2 ^ 64 then map_option uint (map_of (val_map mv) (word_of_int x)) else None)"
proof -
  have "distinct (map fst (entries mv))"
    using assms by (fastforce simp: entries_def MemVal_ok_def amap_ok_def split_def comp_def distinct_map
        inj_on_def dest: unsigned_word_eqI)
  then have rev: "map_of (rev (entries mv)) = map_of (entries mv)" 
    by (subst map_of_inject_set) (simp_all flip: rev_map)
  have "map_of (map (\<lambda>(x, y). (uint x, uint y)) vm) x =
    (if 0 \<le> x \<and> x < 2 ^ 64 then map_option uint (map_of vm (word_of_int x)) else None)"
    for vm :: "(BvValType \<times> BvValType) list"
  proof (induction vm)
    case (Cons p vm)
    obtain k v where p: "p = (k, v)" by (cases p)
    have k: "0 \<le> uint k" "uint k < 2 ^ 64" using uint_lt2p [of k] by simp_all
    show ?case
    proof (cases "x = uint k")
      case True
      then show ?thesis using k by (simp add: p)
    next
      case False
      then have "0 \<le> x \<and> x < 2 ^ 64 \<Longrightarrow> k \<noteq> word_of_int x"
        by (auto simp: unsigned_of_int take_bit_int_eq_self)
      then show ?thesis using False Cons by (auto simp: p)
    qed
  qed simp
  then show ?thesis unfolding rev by (simp add: entries_def)
qed

lemma mem_const_stores:
  assumes "const_wf (SortMem a d) (MemV mv)"
  shows "fold (\<lambda>(x, y) m. m(x := y)) (entries mv)
    (\<lambda>x. if 0 \<le> x \<and> x < 2 ^ nat a then uint (def_val mv) else 0) = mem_const a mv"
proof
  fix x
  have ok: "MemVal_ok mv" using assms by (simp add: const_wf_def)
  have "map_of (val_map mv) (word_of_int x) = Some y \<Longrightarrow> 0 \<le> x \<and> x < 2 ^ 64 \<Longrightarrow> x < 2 ^ nat a" for y
    using assms by (auto simp: const_wf_def list_all_iff unsigned_of_int take_bit_int_eq_self dest!: map_of_SomeD)
  then show "fold (\<lambda>(x, y) m. m(x := y)) (entries mv)
      (\<lambda>x. if 0 \<le> x \<and> x < 2 ^ nat a then uint (def_val mv) else 0) x = mem_const a mv x"
    by (auto simp: fold_store entries_lookup [OF ok] mem_const_def get_data_def split: option.splits)
qed

end
