(* ===== verification/Z3Gen.thy ===== *)
theory Z3Gen
  imports Rewriter Smt
begin

text \<open>
  The translation of expressions to Z3: the virtual methods \<^verbatim>\<open>GetZ3Sort\<close> and
  \<^verbatim>\<open>GetZ3Expr\<close> of sorts (src/ila/ast/sort.cc), variables, constants, functions and
  operations (src/ila/ast/expr\_var.cc, expr\_const.cc, func.cc, expr\_op.cc with the wrappers of
  include/ilang/util/z3\_helper.h), and the class \<^verbatim>\<open>Z3ExprAdapter\<close> that visits an
  expression and caches the terms (src/target-smt/z3\_expr\_adapter.cc).

  Z3 is a parameter: a record of the functions of its C++ interface that the code calls. What the
  code relies on is the locale \<open>z3_backend\<close>: each function builds a term of the documented sort
  and meaning.
\<close>

section \<open>The interface of Z3\<close>

datatype z3_fun =
    Z3_neg | Z3_not | Z3_compl | Z3_and | Z3_bvand | Z3_or | Z3_bvor | Z3_mk_xor | Z3_bvxor
  | Z3_shl | Z3_ashr | Z3_lshr | Z3_plus | Z3_minus | Z3_div | Z3_srem | Z3_urem | Z3_smod | Z3_times
  | Z3_eq | Z3_lt | Z3_gt | Z3_ult | Z3_ugt | Z3_select | Z3_store | Z3_concat | Z3_extract
  | Z3_zext | Z3_sext | Z3_rotate_left | Z3_rotate_right | Z3_implies | Z3_ite

record z3_decl =
  decl_name :: string
  decl_domain :: "smt_sort list"
  decl_range :: smt_sort

text \<open>A call that throws \<^verbatim>\<open>z3::exception\<close> is \<open>Inl LibException\<close>.\<close>

record 't z3_api =
  z3_constant :: "string \<Rightarrow> smt_sort \<Rightarrow> 't result"
  z3_bool_val :: "bool \<Rightarrow> 't result"
  z3_bv_val :: "int \<Rightarrow> int \<Rightarrow> 't result"
  z3_bv_str :: "string \<Rightarrow> int \<Rightarrow> 't result"
  z3_const_array :: "smt_sort \<Rightarrow> 't \<Rightarrow> 't result"
  z3_mk :: "z3_fun \<Rightarrow> int list \<Rightarrow> 't list \<Rightarrow> 't result"
  z3_app :: "z3_decl \<Rightarrow> 't list \<Rightarrow> 't result"
  z3_simplify :: "'t \<Rightarrow> 't"

text \<open>The documented meaning of the overloaded operators on Booleans and bit-vectors: the
  comparison operators and \<^verbatim>\<open>/\<close> are the signed ones.\<close>

fun z3_smt :: "z3_fun \<Rightarrow> smt_fun" where
  "z3_smt Z3_neg = Bvneg" | "z3_smt Z3_not = Notf" | "z3_smt Z3_compl = Bvnot"
| "z3_smt Z3_and = Andf" | "z3_smt Z3_bvand = Bvand" | "z3_smt Z3_or = Orf" | "z3_smt Z3_bvor = Bvor"
| "z3_smt Z3_mk_xor = Xorf" | "z3_smt Z3_bvxor = Bvxor" | "z3_smt Z3_shl = Bvshl"
| "z3_smt Z3_ashr = Bvashr" | "z3_smt Z3_lshr = Bvlshr" | "z3_smt Z3_plus = Bvadd"
| "z3_smt Z3_minus = Bvsub" | "z3_smt Z3_div = Bvsdiv" | "z3_smt Z3_srem = Bvsrem"
| "z3_smt Z3_urem = Bvurem" | "z3_smt Z3_smod = Bvsmod" | "z3_smt Z3_times = Bvmul"
| "z3_smt Z3_eq = Eqf" | "z3_smt Z3_lt = Bvslt" | "z3_smt Z3_gt = Bvsgt" | "z3_smt Z3_ult = Bvult"
| "z3_smt Z3_ugt = Bvugt" | "z3_smt Z3_select = Selectf" | "z3_smt Z3_store = Storef"
| "z3_smt Z3_concat = Concatf" | "z3_smt Z3_extract = Extractf" | "z3_smt Z3_zext = Zero_extend"
| "z3_smt Z3_sext = Sign_extend" | "z3_smt Z3_rotate_left = Rotate_left"
| "z3_smt Z3_rotate_right = Rotate_right" | "z3_smt Z3_implies = Impliesf" | "z3_smt Z3_ite = Itef"

text \<open>\<^verbatim>\<open>static_cast<unsigned>\<close> of an \<^verbatim>\<open>int\<close>.\<close>

definition to_unsigned :: "int \<Rightarrow> int" where
  "to_unsigned i = i mod 2 ^ 32"

section \<open>The helpers over the interface\<close>

definition Z3BvVal :: "BvValType \<Rightarrow> BvValType" where
  "Z3BvVal bv_val = bv_val"

definition Z3Implies :: "'t z3_api \<Rightarrow> 't \<Rightarrow> 't \<Rightarrow> 't result" where
  "Z3Implies ctx a b = z3_mk ctx Z3_implies [] [a, b]"

definition Z3Shl :: "'t z3_api \<Rightarrow> 't \<Rightarrow> 't \<Rightarrow> 't result" where
  "Z3Shl ctx a b = z3_mk ctx Z3_shl [] [a, b]"

definition Z3Ashr :: "'t z3_api \<Rightarrow> 't \<Rightarrow> 't \<Rightarrow> 't result" where
  "Z3Ashr ctx a b = z3_mk ctx Z3_ashr [] [a, b]"

definition Z3Lshr :: "'t z3_api \<Rightarrow> 't \<Rightarrow> 't \<Rightarrow> 't result" where
  "Z3Lshr ctx a b = z3_mk ctx Z3_lshr [] [a, b]"

definition Z3SRem :: "'t z3_api \<Rightarrow> 't \<Rightarrow> 't \<Rightarrow> 't result" where
  "Z3SRem ctx a b = z3_mk ctx Z3_srem [] [a, b]"

definition Z3URem :: "'t z3_api \<Rightarrow> 't \<Rightarrow> 't \<Rightarrow> 't result" where
  "Z3URem ctx a b = z3_mk ctx Z3_urem [] [a, b]"

definition Z3SMod :: "'t z3_api \<Rightarrow> 't \<Rightarrow> 't \<Rightarrow> 't result" where
  "Z3SMod ctx a b = z3_mk ctx Z3_smod [] [a, b]"

definition Z3ZExt :: "'t z3_api \<Rightarrow> 't \<Rightarrow> int \<Rightarrow> 't result" where
  "Z3ZExt ctx e w = z3_mk ctx Z3_zext [w] [e]"

definition Z3SExt :: "'t z3_api \<Rightarrow> 't \<Rightarrow> int \<Rightarrow> 't result" where
  "Z3SExt ctx e w = z3_mk ctx Z3_sext [w] [e]"

definition Z3LRotate :: "'t z3_api \<Rightarrow> 't \<Rightarrow> int \<Rightarrow> 't result" where
  "Z3LRotate ctx e w = z3_mk ctx Z3_rotate_left [w] [e]"

definition Z3RRotate :: "'t z3_api \<Rightarrow> 't \<Rightarrow> int \<Rightarrow> 't result" where
  "Z3RRotate ctx e w = z3_mk ctx Z3_rotate_right [w] [e]"

section \<open>Sorts, variables and constants\<close>

definition SortBool_GetZ3Sort :: smt_sort where
  "SortBool_GetZ3Sort = SBool"

definition SortBv_GetZ3Sort :: "int \<Rightarrow> smt_sort" where
  "SortBv_GetZ3Sort w = SBv (to_unsigned w)"

definition SortMem_GetZ3Sort :: "int \<Rightarrow> int \<Rightarrow> smt_sort" where
  "SortMem_GetZ3Sort a d = SArray (SBv (to_unsigned a)) (SBv (to_unsigned d))"

definition SortStruct_GetZ3Sort :: "(string \<times> sort) list \<Rightarrow> smt_sort" where
  "SortStruct_GetZ3Sort ms = SOther (SortStruct ms)"

definition SortVector_GetZ3Sort :: "sort \<Rightarrow> int \<Rightarrow> smt_sort" where
  "SortVector_GetZ3Sort da n = SOther (SortVector da n)"

fun GetZ3Sort :: "sort \<Rightarrow> smt_sort" where
  "GetZ3Sort SortBool = SortBool_GetZ3Sort"
| "GetZ3Sort (SortBv w) = SortBv_GetZ3Sort w"
| "GetZ3Sort (SortMem a d) = SortMem_GetZ3Sort a d"
| "GetZ3Sort (SortStruct ms) = SortStruct_GetZ3Sort ms"
| "GetZ3Sort (SortVector da n) = SortVector_GetZ3Sort da n"

definition SortBool_GetZ3Expr :: "'t z3_api \<Rightarrow> string \<Rightarrow> 't result" where
  "SortBool_GetZ3Expr ctx name = z3_constant ctx name SBool"

definition SortBv_GetZ3Expr :: "'t z3_api \<Rightarrow> int \<Rightarrow> string \<Rightarrow> 't result" where
  "SortBv_GetZ3Expr ctx w name = z3_constant ctx name (SBv (to_unsigned w))"

definition SortMem_GetZ3Expr :: "'t z3_api \<Rightarrow> int \<Rightarrow> int \<Rightarrow> string \<Rightarrow> 't result" where
  "SortMem_GetZ3Expr ctx a d name =
     (let addr_s = SBv (to_unsigned a); data_s = SBv (to_unsigned d); mem_s = SArray addr_s data_s
      in z3_constant ctx name mem_s)"

definition SortStruct_GetZ3Expr :: "'t z3_api \<Rightarrow> (string \<times> sort) list \<Rightarrow> string \<Rightarrow> 't result" where
  "SortStruct_GetZ3Expr ctx ms name = z3_constant ctx name (SortStruct_GetZ3Sort ms)"

definition SortVector_GetZ3Expr :: "'t z3_api \<Rightarrow> sort \<Rightarrow> int \<Rightarrow> string \<Rightarrow> 't result" where
  "SortVector_GetZ3Expr ctx da n name = z3_constant ctx name (SortVector_GetZ3Sort da n)"

fun Sort_GetZ3Expr :: "'t z3_api \<Rightarrow> sort \<Rightarrow> string \<Rightarrow> 't result" where
  "Sort_GetZ3Expr ctx SortBool name = SortBool_GetZ3Expr ctx name"
| "Sort_GetZ3Expr ctx (SortBv w) name = SortBv_GetZ3Expr ctx w name"
| "Sort_GetZ3Expr ctx (SortMem a d) name = SortMem_GetZ3Expr ctx a d name"
| "Sort_GetZ3Expr ctx (SortStruct ms) name = SortStruct_GetZ3Expr ctx ms name"
| "Sort_GetZ3Expr ctx (SortVector da n) name = SortVector_GetZ3Expr ctx da n name"

definition root_of :: "heap \<Rightarrow> nat option \<Rightarrow> string result" where
  "root_of h q = (case q of None \<Rightarrow> Inr [] | Some p \<Rightarrow> rbind (GetRootName p h) (\<lambda>(nm, _). Inr nm))"

definition ExprVar_GetZ3Expr :: "'t z3_api \<Rightarrow> heap \<Rightarrow> expr \<Rightarrow> string \<Rightarrow> 't result" where
  "ExprVar_GetZ3Expr ctx h e suffix =
     rbind (root_of h (ehost e)) (\<lambda>pre.
     Sort_GetZ3Expr ctx (esort e) (format_name (ename e) pre suffix))"

fun z3_stores ::
  "'t z3_api \<Rightarrow> int \<Rightarrow> int \<Rightarrow> (BvValType, BvValType) amap \<Rightarrow> 't \<Rightarrow> 't result" where
  "z3_stores ctx aw dw [] e1 = Inr e1"
| "z3_stores ctx aw dw ((addr, data) # vm) e1 =
     rbind (z3_bv_str ctx (to_string (unat addr)) (to_unsigned aw)) (\<lambda>addr_expr.
     rbind (z3_bv_str ctx (to_string (unat data)) (to_unsigned dw)) (\<lambda>data_expr.
     rbind (z3_mk ctx Z3_store [] [e1, addr_expr, data_expr]) (\<lambda>e2.
     z3_stores ctx aw dw vm e2)))"

definition ExprConst_GetZ3Expr :: "'t z3_api \<Rightarrow> expr \<Rightarrow> 't list \<Rightarrow> 't result" where
  "ExprConst_GetZ3Expr ctx e expr_vec =
     rassert (expr_vec = []) (IlaAssert ''Constant should be terminating nodes.'')
     (if e_is_bool e then rbind (val_bool e) (z3_bool_val ctx)
      else if e_is_bv e then
        rbind (val_bv e) (\<lambda>v. rbind (bit_width (esort e)) (\<lambda>w. z3_bv_val ctx (uint (Z3BvVal v)) (to_unsigned w)))
      else
        rassert (e_is_mem e) (IlaAssert ''Neither bool, bv, nor mem.'')
        (rbind (addr_width (esort e)) (\<lambda>aw.
         rbind (data_width (esort e)) (\<lambda>dw.
         rbind (val_mem e) (\<lambda>mv.
         rbind (z3_bv_str ctx (to_string (unat (def_val mv))) (to_unsigned dw)) (\<lambda>def_expr.
         rbind (z3_const_array ctx (SBv (to_unsigned aw)) def_expr) (\<lambda>e1.
         z3_stores ctx aw dw (val_map mv) e1)))))))"

section \<open>Operations\<close>

definition Neg_GetZ3Expr :: "'t z3_api \<Rightarrow> 't list \<Rightarrow> 't result" where
  "Neg_GetZ3Expr ctx ts = rassert (length ts = 1) (IlaAssert ''Negate is a unary function.'')
     (z3_mk ctx Z3_neg [] [ts ! 0])"

definition Not_GetZ3Expr :: "'t z3_api \<Rightarrow> 't list \<Rightarrow> 't result" where
  "Not_GetZ3Expr ctx ts = rassert (length ts = 1) (IlaAssert ''Not is a unary function.'')
     (z3_mk ctx Z3_not [] [ts ! 0])"

definition Compl_GetZ3Expr :: "'t z3_api \<Rightarrow> 't list \<Rightarrow> 't result" where
  "Compl_GetZ3Expr ctx ts = rassert (length ts = 1) (IlaAssert ''Negate is a unary function.'')
     (z3_mk ctx Z3_compl [] [ts ! 0])"

definition And_GetZ3Expr :: "'t z3_api \<Rightarrow> expr \<Rightarrow> 't list \<Rightarrow> 't result" where
  "And_GetZ3Expr ctx e ts = rassert (length ts = 2) (IlaAssert ''expr_vec.size() == 2'')
     (rassert (e_is_bool e \<or> e_is_bv e) (IlaAssert ''AND can only be either bool or bv.'')
     (if e_is_bool e then z3_mk ctx Z3_and [] [ts ! 0, ts ! 1] else z3_mk ctx Z3_bvand [] [ts ! 0, ts ! 1]))"

definition Or_GetZ3Expr :: "'t z3_api \<Rightarrow> expr \<Rightarrow> 't list \<Rightarrow> 't result" where
  "Or_GetZ3Expr ctx e ts = rassert (length ts = 2) (IlaAssert ''expr_vec.size() == 2'')
     (rassert (e_is_bool e \<or> e_is_bv e) (IlaAssert ''OR can only be either bool or bv.'')
     (if e_is_bool e then z3_mk ctx Z3_or [] [ts ! 0, ts ! 1] else z3_mk ctx Z3_bvor [] [ts ! 0, ts ! 1]))"

definition Xor_GetZ3Expr :: "'t z3_api \<Rightarrow> expr \<Rightarrow> 't list \<Rightarrow> 't result" where
  "Xor_GetZ3Expr ctx e ts = rassert (length ts = 2) (IlaAssert ''expr_vec.size() == 2'')
     (rassert (e_is_bool e \<or> e_is_bv e) (IlaAssert ''XOR can only be either bool or bv.'')
     (if e_is_bv e then z3_mk ctx Z3_bvxor [] [ts ! 0, ts ! 1] else z3_mk ctx Z3_mk_xor [] [ts ! 0, ts ! 1]))"

definition Shl_GetZ3Expr :: "'t z3_api \<Rightarrow> 't list \<Rightarrow> 't result" where
  "Shl_GetZ3Expr ctx ts = rassert (length ts = 2) (IlaAssert ''Left shift is binary operation.'')
     (Z3Shl ctx (ts ! 0) (ts ! 1))"

definition Ashr_GetZ3Expr :: "'t z3_api \<Rightarrow> 't list \<Rightarrow> 't result" where
  "Ashr_GetZ3Expr ctx ts = rassert (length ts = 2) (IlaAssert ''Right shift is binary operation.'')
     (Z3Ashr ctx (ts ! 0) (ts ! 1))"

definition Lshr_GetZ3Expr :: "'t z3_api \<Rightarrow> 't list \<Rightarrow> 't result" where
  "Lshr_GetZ3Expr ctx ts = rassert (length ts = 2) (IlaAssert ''Right shift is binary operation.'')
     (Z3Lshr ctx (ts ! 0) (ts ! 1))"

definition Add_GetZ3Expr :: "'t z3_api \<Rightarrow> expr \<Rightarrow> 't list \<Rightarrow> 't result" where
  "Add_GetZ3Expr ctx e ts = rassert (length ts = 2) (IlaAssert ''Add is binary operation.'')
     (rassert (e_is_bv e) (IlaAssert ''ADD can only be applied to bv.'') (z3_mk ctx Z3_plus [] [ts ! 0, ts ! 1]))"

definition Sub_GetZ3Expr :: "'t z3_api \<Rightarrow> expr \<Rightarrow> 't list \<Rightarrow> 't result" where
  "Sub_GetZ3Expr ctx e ts = rassert (length ts = 2) (IlaAssert ''Sub is binary operation.'')
     (rassert (e_is_bv e) (IlaAssert ''Sub can only be applied to bv.'') (z3_mk ctx Z3_minus [] [ts ! 0, ts ! 1]))"

definition Div_GetZ3Expr :: "'t z3_api \<Rightarrow> expr \<Rightarrow> 't list \<Rightarrow> 't result" where
  "Div_GetZ3Expr ctx e ts = rassert (length ts = 2) (IlaAssert ''Div is binary operation.'')
     (rassert (e_is_bv e) (IlaAssert ''Div can only be applied to bv.'') (z3_mk ctx Z3_div [] [ts ! 0, ts ! 1]))"

definition SRem_GetZ3Expr :: "'t z3_api \<Rightarrow> expr \<Rightarrow> 't list \<Rightarrow> 't result" where
  "SRem_GetZ3Expr ctx e ts = rassert (length ts = 2) (IlaAssert ''SRem is binary operation.'')
     (rassert (e_is_bv e) (IlaAssert ''SRem can only be applied to bv.'') (Z3SRem ctx (ts ! 0) (ts ! 1)))"

definition URem_GetZ3Expr :: "'t z3_api \<Rightarrow> expr \<Rightarrow> 't list \<Rightarrow> 't result" where
  "URem_GetZ3Expr ctx e ts = rassert (length ts = 2) (IlaAssert ''URem is binary operation.'')
     (rassert (e_is_bv e) (IlaAssert ''URem can only be applied to bv.'') (Z3URem ctx (ts ! 0) (ts ! 1)))"

definition SMod_GetZ3Expr :: "'t z3_api \<Rightarrow> expr \<Rightarrow> 't list \<Rightarrow> 't result" where
  "SMod_GetZ3Expr ctx e ts = rassert (length ts = 2) (IlaAssert ''SMod is binary operation.'')
     (rassert (e_is_bv e) (IlaAssert ''SMod can only be applied to bv.'') (Z3SMod ctx (ts ! 0) (ts ! 1)))"

definition Mul_GetZ3Expr :: "'t z3_api \<Rightarrow> expr \<Rightarrow> 't list \<Rightarrow> 't result" where
  "Mul_GetZ3Expr ctx e ts = rassert (length ts = 2) (IlaAssert ''Mul is binary operation.'')
     (rassert (e_is_bv e) (IlaAssert ''Mul can only be applied to bv.'') (z3_mk ctx Z3_times [] [ts ! 0, ts ! 1]))"

definition Eq_GetZ3Expr :: "'t z3_api \<Rightarrow> 't list \<Rightarrow> 't result" where
  "Eq_GetZ3Expr ctx ts = rassert (length ts = 2) (IlaAssert ''Eq is binary comparison.'')
     (z3_mk ctx Z3_eq [] [ts ! 0, ts ! 1])"

definition Lt_GetZ3Expr :: "'t z3_api \<Rightarrow> 't list \<Rightarrow> 't result" where
  "Lt_GetZ3Expr ctx ts = rassert (length ts = 2) (IlaAssert ''Lt is binary comparison.'')
     (z3_mk ctx Z3_lt [] [ts ! 0, ts ! 1])"

definition Gt_GetZ3Expr :: "'t z3_api \<Rightarrow> 't list \<Rightarrow> 't result" where
  "Gt_GetZ3Expr ctx ts = rassert (length ts = 2) (IlaAssert ''Gt is binary comparison.'')
     (z3_mk ctx Z3_gt [] [ts ! 0, ts ! 1])"

definition Ult_GetZ3Expr :: "'t z3_api \<Rightarrow> 't list \<Rightarrow> 't result" where
  "Ult_GetZ3Expr ctx ts = rassert (length ts = 2) (IlaAssert ''ULt is binary comparison.'')
     (z3_mk ctx Z3_ult [] [ts ! 0, ts ! 1])"

definition Ugt_GetZ3Expr :: "'t z3_api \<Rightarrow> 't list \<Rightarrow> 't result" where
  "Ugt_GetZ3Expr ctx ts = rassert (length ts = 2) (IlaAssert ''UGt is binary comparison.'')
     (z3_mk ctx Z3_ugt [] [ts ! 0, ts ! 1])"

definition Load_GetZ3Expr :: "'t z3_api \<Rightarrow> 't list \<Rightarrow> 't result" where
  "Load_GetZ3Expr ctx ts = rassert (length ts = 2) (IlaAssert ''expr_vec.size() == 2'')
     (z3_mk ctx Z3_select [] [ts ! 0, ts ! 1])"

definition Store_GetZ3Expr :: "'t z3_api \<Rightarrow> 't list \<Rightarrow> 't result" where
  "Store_GetZ3Expr ctx ts = rassert (length ts = 3) (IlaAssert ''Store takes 3 arguments.'')
     (let mem = ts ! 0; addr = ts ! 1; data = ts ! 2 in z3_mk ctx Z3_store [] [mem, addr, data])"

definition Concat_GetZ3Expr :: "'t z3_api \<Rightarrow> 't list \<Rightarrow> 't result" where
  "Concat_GetZ3Expr ctx ts = rassert (length ts = 2) (IlaAssert ''Concat takes 2 arguments.'')
     (let hi = ts ! 0; lo = ts ! 1 in z3_mk ctx Z3_concat [] [hi, lo])"

definition Extract_GetZ3Expr :: "'t z3_api \<Rightarrow> expr \<Rightarrow> 't list \<Rightarrow> 't result" where
  "Extract_GetZ3Expr ctx e ts = rassert (length ts = 1) (IlaAssert ''Extract take 1 argument.'')
     (rassert (length (eparams e) = 2) (IlaAssert ''Extract need two parameters.'')
     (rbind (param e 0) (\<lambda>hi. rbind (param e 1) (\<lambda>lo.
      z3_mk ctx Z3_extract [to_unsigned hi, to_unsigned lo] [ts ! 0]))))"

definition ZExt_GetZ3Expr :: "'t z3_api \<Rightarrow> expr \<Rightarrow> 't list \<Rightarrow> 't result" where
  "ZExt_GetZ3Expr ctx e ts = rassert (length ts = 1) (IlaAssert ''Extend take 1 argument.'')
     (rassert (length (eparams e) = 1) (IlaAssert ''Extend need one parameter.'')
     (rbind (arg e 0) (\<lambda>a. rbind (bit_width (esort a)) (\<lambda>org_wid. rbind (param e 0) (\<lambda>p.
      Z3ZExt ctx (ts ! 0) (to_unsigned (p - org_wid)))))))"

definition SExt_GetZ3Expr :: "'t z3_api \<Rightarrow> expr \<Rightarrow> 't list \<Rightarrow> 't result" where
  "SExt_GetZ3Expr ctx e ts = rassert (length ts = 1) (IlaAssert ''Extend take 1 argument.'')
     (rassert (length (eparams e) = 1) (IlaAssert ''Extend need one parameter.'')
     (rbind (arg e 0) (\<lambda>a. rbind (bit_width (esort a)) (\<lambda>org_wid. rbind (param e 0) (\<lambda>p.
      Z3SExt ctx (ts ! 0) (to_unsigned (p - org_wid)))))))"

definition LRotate_GetZ3Expr :: "'t z3_api \<Rightarrow> expr \<Rightarrow> 't list \<Rightarrow> 't result" where
  "LRotate_GetZ3Expr ctx e ts = rassert (length ts = 1) (IlaAssert ''Rotate takes 1 argument.'')
     (rassert (length (eparams e) = 1) (IlaAssert ''Rotate takes 1 parameter.'')
     (rbind (param e 0) (\<lambda>p. Z3LRotate ctx (ts ! 0) (to_unsigned p))))"

definition RRotate_GetZ3Expr :: "'t z3_api \<Rightarrow> expr \<Rightarrow> 't list \<Rightarrow> 't result" where
  "RRotate_GetZ3Expr ctx e ts = rassert (length ts = 1) (IlaAssert ''Rotate takes 1 argument.'')
     (rassert (length (eparams e) = 1) (IlaAssert ''Rotate takes 1 parameter.'')
     (rbind (param e 0) (\<lambda>p. Z3RRotate ctx (ts ! 0) (to_unsigned p))))"

definition Imply_GetZ3Expr :: "'t z3_api \<Rightarrow> 't list \<Rightarrow> 't result" where
  "Imply_GetZ3Expr ctx ts = rassert (length ts = 2) (IlaAssert ''Imply takes two arguments.'')
     (let ante = ts ! 0; cons = ts ! 1 in Z3Implies ctx ante cons)"

definition Ite_GetZ3Expr :: "'t z3_api \<Rightarrow> 't list \<Rightarrow> 't result" where
  "Ite_GetZ3Expr ctx ts = rassert (length ts = 3) (IlaAssert ''Ite takes 3 arguments.'')
     (let cnd = ts ! 0; t_e = ts ! 1; t_f = ts ! 2 in z3_mk ctx Z3_ite [] [cnd, t_e, t_f])"

text \<open>\<^verbatim>\<open>host()->name().str()\<close>, the empty string without host.\<close>

definition host_name :: "heap \<Rightarrow> nat option \<Rightarrow> string result" where
  "host_name h q = (case q of None \<Rightarrow> Inr []
     | Some p \<Rightarrow> (case ilas h p of None \<Rightarrow> Inl NullDeref | Some m \<Rightarrow> Inr (ila_name m)))"

definition GetZ3FuncDecl :: "heap \<Rightarrow> Func \<Rightarrow> z3_decl result" where
  "GetZ3FuncDecl h f =
     rbind (host_name h (func_host f)) (\<lambda>pre.
     Inr \<lparr>decl_name = format_name (func_name f) pre [], decl_domain = map GetZ3Sort (func_args f),
          decl_range = GetZ3Sort (func_out f)\<rparr>)"

definition AppFunc_GetZ3Expr :: "'t z3_api \<Rightarrow> heap \<Rightarrow> Func \<Rightarrow> expr \<Rightarrow> 't list \<Rightarrow> string \<Rightarrow> 't result" where
  "AppFunc_GetZ3Expr ctx h f e ts suffix =
     (if ts = [] then
        rbind (host_name h (ehost e)) (\<lambda>pre.
        Sort_GetZ3Expr ctx (func_out f) (format_name (func_name f) pre suffix))
      else rbind (GetZ3FuncDecl h f) (\<lambda>f_decl. z3_app ctx f_decl ts))"

text \<open>The virtual call: one method per class of operation.\<close>

definition ExprOp_GetZ3Expr :: "'t z3_api \<Rightarrow> AstUidExprOp \<Rightarrow> expr \<Rightarrow> 't list \<Rightarrow> 't result" where
  "ExprOp_GetZ3Expr ctx u e ts = (case u of
       kInvalid \<Rightarrow> Inl NullDeref | kApplyFunc \<Rightarrow> Inl NullDeref
     | kNegate \<Rightarrow> Neg_GetZ3Expr ctx ts | kNot \<Rightarrow> Not_GetZ3Expr ctx ts
     | kComplement \<Rightarrow> Compl_GetZ3Expr ctx ts
     | kAnd \<Rightarrow> And_GetZ3Expr ctx e ts | kOr \<Rightarrow> Or_GetZ3Expr ctx e ts | kXor \<Rightarrow> Xor_GetZ3Expr ctx e ts
     | kShiftLeft \<Rightarrow> Shl_GetZ3Expr ctx ts | kArithShiftRight \<Rightarrow> Ashr_GetZ3Expr ctx ts
     | kLogicShiftRight \<Rightarrow> Lshr_GetZ3Expr ctx ts
     | kAdd \<Rightarrow> Add_GetZ3Expr ctx e ts | kSubtract \<Rightarrow> Sub_GetZ3Expr ctx e ts
     | kMultiply \<Rightarrow> Mul_GetZ3Expr ctx e ts | kDivide \<Rightarrow> Div_GetZ3Expr ctx e ts
     | kSignedRemainder \<Rightarrow> SRem_GetZ3Expr ctx e ts | kUnsignedRemainder \<Rightarrow> URem_GetZ3Expr ctx e ts
     | kSignedModular \<Rightarrow> SMod_GetZ3Expr ctx e ts
     | kEqual \<Rightarrow> Eq_GetZ3Expr ctx ts | kLessThan \<Rightarrow> Lt_GetZ3Expr ctx ts
     | kGreaterThan \<Rightarrow> Gt_GetZ3Expr ctx ts | kUnsignedLessThan \<Rightarrow> Ult_GetZ3Expr ctx ts
     | kUnsignedGreaterThan \<Rightarrow> Ugt_GetZ3Expr ctx ts
     | kLoad \<Rightarrow> Load_GetZ3Expr ctx ts | kStore \<Rightarrow> Store_GetZ3Expr ctx ts
     | kConcatenate \<Rightarrow> Concat_GetZ3Expr ctx ts | kExtract \<Rightarrow> Extract_GetZ3Expr ctx e ts
     | kZeroExtend \<Rightarrow> ZExt_GetZ3Expr ctx e ts | kSignedExtend \<Rightarrow> SExt_GetZ3Expr ctx e ts
     | kRotateLeft \<Rightarrow> LRotate_GetZ3Expr ctx e ts | kRotateRight \<Rightarrow> RRotate_GetZ3Expr ctx e ts
     | kImply \<Rightarrow> Imply_GetZ3Expr ctx ts | kIfThenElse \<Rightarrow> Ite_GetZ3Expr ctx ts)"

definition GetZ3Expr :: "'t z3_api \<Rightarrow> heap \<Rightarrow> expr \<Rightarrow> 't list \<Rightarrow> string \<Rightarrow> 't result" where
  "GetZ3Expr ctx h e ts suffix = (case ekind e of
       KVar \<Rightarrow> ExprVar_GetZ3Expr ctx h e suffix
     | KConst v \<Rightarrow> ExprConst_GetZ3Expr ctx e ts
     | KOp u \<Rightarrow> ExprOp_GetZ3Expr ctx u e ts
     | KApp f \<Rightarrow> AppFunc_GetZ3Expr ctx h f e ts suffix)"

section \<open>Z3ExprAdapter\<close>

text \<open>The state of the function object: the cache of generated terms. The suffix is fixed
  during a visit and passed along.\<close>

type_synonym 't term_map = "expr \<Rightarrow> 't option"

definition find_term :: "'t term_map \<Rightarrow> expr \<Rightarrow> 't result" where
  "find_term expr_map e = (case expr_map e of None \<Rightarrow> Inl (IlaAssert ''No expressions found'') | Some t \<Rightarrow> Inr t)"

definition PopulateExprMap :: "'t z3_api \<Rightarrow> heap \<Rightarrow> string \<Rightarrow> expr \<Rightarrow> 't term_map \<Rightarrow> 't term_map result" where
  "PopulateExprMap ctx h suffix e expr_map =
     rbind (rmap (find_term expr_map) (eargs e)) (\<lambda>expr_vec.
     rbind (GetZ3Expr ctx h e expr_vec suffix) (\<lambda>res.
     Inr (expr_map(e \<mapsto> z3_simplify ctx res))))"

text \<open>The call operator: a thrown \<^verbatim>\<open>z3::exception\<close> is logged and the map kept.\<close>

definition Z3ExprAdapter_call ::
  "'t z3_api \<Rightarrow> heap \<Rightarrow> string \<Rightarrow> expr \<Rightarrow> 't term_map \<Rightarrow> 't term_map result" where
  "Z3ExprAdapter_call ctx h suffix e expr_map =
     (if expr_map e \<noteq> None then Inr expr_map
      else case PopulateExprMap ctx h suffix e expr_map of
        Inl LibException \<Rightarrow> Inr expr_map | r \<Rightarrow> r)"

definition GetExpr :: "'t z3_api \<Rightarrow> heap \<Rightarrow> expr \<Rightarrow> string \<Rightarrow> 't result" where
  "GetExpr ctx h e suffix =
     rbind (DepthFirstVisit (Z3ExprAdapter_call ctx h suffix) e Map.empty) (\<lambda>expr_map.
     case expr_map e of None \<Rightarrow> Inl (IlaAssert ''z3 expr cannot be generated.'') | Some t \<Rightarrow> Inr t)"

text \<open>The shim interface of the adapter.\<close>

definition z3_BoolAnd :: "'t z3_api \<Rightarrow> 't \<Rightarrow> 't \<Rightarrow> 't result" where
  "z3_BoolAnd ctx a b = z3_mk ctx Z3_and [] [a, b]"

definition z3_Equal :: "'t z3_api \<Rightarrow> 't \<Rightarrow> 't \<Rightarrow> 't result" where
  "z3_Equal ctx a b = z3_mk ctx Z3_eq [] [a, b]"

section \<open>What is relied on\<close>

text \<open>Widths and parameters are C++ integers; variables and functions belong to ILAs of the heap.
  A function without arguments becomes a constant named after the host of the node, and the
  constructor leaves such a node without host.\<close>

definition sort_small :: "sort \<Rightarrow> bool" where
  "sort_small s = (case s of SortBv w \<Rightarrow> w < 2 ^ 31 | SortMem a d \<Rightarrow> a < 2 ^ 31 \<and> d < 2 ^ 31 | _ \<Rightarrow> True)"

definition node_enc :: "heap \<Rightarrow> expr \<Rightarrow> bool" where
  "node_enc h e =
     (sort_small (esort e) \<and> list_all (\<lambda>p. p < 2 ^ 31) (eparams e) \<and>
      (case ekind e of
         KVar \<Rightarrow> (\<forall>p. ehost e = Some p \<longrightarrow> ilas h p \<noteq> None)
       | KApp f \<Rightarrow> (func_args f = [] \<longrightarrow> ehost e = None) \<and>
           (\<forall>p. func_host f = Some p \<longrightarrow> ilas h p \<noteq> None) \<and> list_all sort_small (func_args f)
       | _ \<Rightarrow> True))"

definition encodable :: "heap \<Rightarrow> expr \<Rightarrow> bool" where
  "encodable h e = (wf_expr e \<and> every (node_enc h) e)"

definition ok_or_empty :: "string result \<Rightarrow> string" where
  "ok_or_empty r = (case r of Inl _ \<Rightarrow> [] | Inr s \<Rightarrow> s)"

text \<open>The names the translation gives, and the meaning of expressions under an assignment of
  values to the names.\<close>

definition z3_vname :: "heap \<Rightarrow> string \<Rightarrow> expr \<Rightarrow> string" where
  "z3_vname h suffix e = format_name (ename e) (ok_or_empty (root_of h (ehost e))) suffix"

definition z3_fname :: "heap \<Rightarrow> Func \<Rightarrow> string" where
  "z3_fname h f = format_name (func_name f) (ok_or_empty (host_name h (func_host f))) []"

definition z3_cname :: "string \<Rightarrow> Func \<Rightarrow> string" where
  "z3_cname suffix f = format_name (func_name f) [] suffix"

definition z3_interp :: "heap \<Rightarrow> string \<Rightarrow> smt_env \<Rightarrow> interp" where
  "z3_interp h suffix = smt_interp (z3_vname h suffix) (z3_fname h) (z3_cname suffix)"

definition is_term :: "('t \<Rightarrow> smt_sort) \<Rightarrow> (smt_env \<Rightarrow> 't \<Rightarrow> sval) \<Rightarrow> smt_sort \<Rightarrow> (smt_env \<Rightarrow> sval) \<Rightarrow> 't result \<Rightarrow> bool" where
  "is_term tsort den s v r =
     (\<exists>t. r = Inr t \<and> tsort t = s \<and> (\<forall>E. env_ok E \<longrightarrow> den E t = v E))"

definition unsigned_ok :: "int \<Rightarrow> bool" where
  "unsigned_ok p = (0 \<le> p \<and> p < 2 ^ 32)"

lemma root_of_ok:
  assumes "heap_inv h" "\<forall>p. q = Some p \<longrightarrow> ilas h p \<noteq> None"
  shows "\<exists>nm. root_of h q = Inr nm"
proof (cases q)
  case (Some p)
  then obtain m where m: "ilas h p = Some m" using assms(2) by blast
  obtain nm where "GetRootName p h = Inr (nm, h)"
    using root_name_fuel [OF assms(1) m, of "Suc p"] by (auto simp: GetRootName_def simp del: GetRootName_n.simps)
  then show ?thesis using Some by (simp add: root_of_def)
qed (simp add: root_of_def)

lemma host_name_ok: "\<forall>p. q = Some p \<longrightarrow> ilas h p \<noteq> None \<Longrightarrow> \<exists>nm. host_name h q = Inr nm"
  by (cases q) (auto simp: host_name_def)

lemma to_unsigned_id [simp]: "0 \<le> i \<Longrightarrow> i < 2 ^ 31 \<Longrightarrow> to_unsigned i = i"
  by (simp add: to_unsigned_def)

lemma sort_translated: "sort_wf s \<Longrightarrow> sort_small s \<Longrightarrow> GetZ3Sort s = smt_sort_of s"
  by (cases s) (simp_all add: SortBool_GetZ3Sort_def SortBv_GetZ3Sort_def SortMem_GetZ3Sort_def sort_small_def)

lemma sort_constant: "Sort_GetZ3Expr ctx s name = z3_constant ctx name (GetZ3Sort s)"
  by (cases s) (simp_all add: SortBool_GetZ3Sort_def SortBv_GetZ3Sort_def SortMem_GetZ3Sort_def
      SortBool_GetZ3Expr_def SortBv_GetZ3Expr_def SortMem_GetZ3Expr_def Let_def
      SortStruct_GetZ3Expr_def SortVector_GetZ3Expr_def)

text \<open>Every operation class calls the function of Z3 that stands for its symbol.\<close>

lemmas z3_op_defs = Neg_GetZ3Expr_def Not_GetZ3Expr_def Compl_GetZ3Expr_def And_GetZ3Expr_def
  Or_GetZ3Expr_def Xor_GetZ3Expr_def Shl_GetZ3Expr_def Ashr_GetZ3Expr_def Lshr_GetZ3Expr_def
  Add_GetZ3Expr_def Sub_GetZ3Expr_def Div_GetZ3Expr_def SRem_GetZ3Expr_def URem_GetZ3Expr_def
  SMod_GetZ3Expr_def Mul_GetZ3Expr_def Eq_GetZ3Expr_def Lt_GetZ3Expr_def Gt_GetZ3Expr_def
  Ult_GetZ3Expr_def Ugt_GetZ3Expr_def Load_GetZ3Expr_def Store_GetZ3Expr_def Concat_GetZ3Expr_def
  Extract_GetZ3Expr_def ZExt_GetZ3Expr_def SExt_GetZ3Expr_def LRotate_GetZ3Expr_def
  RRotate_GetZ3Expr_def Imply_GetZ3Expr_def Ite_GetZ3Expr_def Z3Shl_def Z3Ashr_def Z3Lshr_def
  Z3SRem_def Z3URem_def Z3SMod_def Z3ZExt_def Z3SExt_def Z3LRotate_def Z3RRotate_def Z3Implies_def

definition calls :: "'t z3_api \<Rightarrow> 't list \<Rightarrow> (smt_fun \<times> int list) option \<Rightarrow> 't result \<Rightarrow> bool" where
  "calls ctx ts c r = (\<exists>zf qs. r = z3_mk ctx zf qs ts \<and> c = Some (z3_smt zf, qs) \<and> list_all unsigned_ok qs)"

lemma calls_I:
  "c = Some (z3_smt zf, qs) \<Longrightarrow> list_all unsigned_ok qs \<Longrightarrow> calls ctx ts c (z3_mk ctx zf qs ts)"
  by (auto simp: calls_def)

lemma length_2_3:
  "length ts = 2 \<longleftrightarrow> (\<exists>a b. ts = [a, b])" "length ts = 3 \<longleftrightarrow> (\<exists>a b c. ts = [a, b, c])"
  "length ts = Suc 0 \<longleftrightarrow> (\<exists>a. ts = [a])"
  by (auto simp: numeral_2_eq_2 numeral_3_eq_3 length_Suc_conv)

lemma op_calls:
  assumes "op_sort u (map esort (eargs e)) (eparams e) = Some (esort e)"
    "sem_ok u (map esort (eargs e)) (eparams e)" "list_all sort_wf (map esort (eargs e))"
    "length ts = length (eargs e)" "node_enc h e"
  shows "calls ctx ts (smt_call u (map esort (eargs e)) (eparams e)) (ExprOp_GetZ3Expr ctx u e ts)"
  using assms
  apply (cases u)
  apply (simp_all add: ExprOp_GetZ3Expr_def op_sort_inv)
  apply (auto simp: z3_op_defs smt_call_def Let_def sem_ok_def map_eq_Cons_conv length_2_3 length_Suc_conv node_enc_def unsigned_ok_def sort_small_def
      intro!: calls_I)
  done

lemma find_terms: "set es \<subseteq> dom m \<Longrightarrow> rmap (find_term m) es = Inr (map (the \<circ> m) es)"
  by (induction es) (auto simp: find_term_def)

text \<open>The documented behaviour of Z3: \<open>tsort\<close> is the sort of a term and \<open>den\<close> its value under an
  assignment.\<close>

locale z3_backend =
  fixes ctx :: "'t z3_api" and tsort :: "'t \<Rightarrow> smt_sort" and den :: "smt_env \<Rightarrow> 't \<Rightarrow> sval"
  assumes free_const: "sort_wf s \<Longrightarrow>
      is_term tsort den (smt_sort_of s) (\<lambda>E. env_const E n (smt_sort_of s)) (z3_constant ctx n (smt_sort_of s))"
    and bool_val: "is_term tsort den SBool (\<lambda>E. VBool b) (z3_bool_val ctx b)"
    and bv_val: "0 < w \<Longrightarrow> unsigned_ok w \<Longrightarrow> 0 \<le> i \<Longrightarrow> i < 2 ^ nat w \<Longrightarrow>
      is_term tsort den (SBv w) (\<lambda>E. VBv i) (z3_bv_val ctx i w)"
    and bv_str: "0 < w \<Longrightarrow> unsigned_ok w \<Longrightarrow> int k < 2 ^ nat w \<Longrightarrow>
      is_term tsort den (SBv w) (\<lambda>E. VBv (int k)) (z3_bv_str ctx (to_string k) w)"
    and const_array: "0 < a \<Longrightarrow> unsigned_ok a \<Longrightarrow> tsort t = SBv d \<Longrightarrow>
      is_term tsort den (SArray (SBv a) (SBv d)) (\<lambda>E. const_array a (den E t)) (z3_const_array ctx (SBv a) t)"
    and mk: "smt_sig (z3_smt f) ps (map tsort ts) = Some z \<Longrightarrow> list_all unsigned_ok ps \<Longrightarrow>
      is_term tsort den z (\<lambda>E. smt_sem (z3_smt f) ps (map tsort ts) (map (den E) ts)) (z3_mk ctx f ps ts)"
    and app: "map tsort ts = decl_domain decl \<Longrightarrow> ts \<noteq> [] \<Longrightarrow>
      is_term tsort den (decl_range decl)
        (\<lambda>E. env_fun E (decl_name decl) (decl_domain decl) (decl_range decl) (map (den E) ts)) (z3_app ctx decl ts)"
    and simplify: "tsort (z3_simplify ctx t) = tsort t"
      "env_ok E \<Longrightarrow> den E (z3_simplify ctx t) = den E t"
begin

definition denotes :: "heap \<Rightarrow> string \<Rightarrow> expr \<Rightarrow> 't \<Rightarrow> bool" where
  "denotes h suffix = stands_for tsort den (z3_interp h suffix)"

lemma node_var:
  assumes "heap_inv h" "node_enc h e" "sort_wf (esort e)" "ekind e = KVar"
  shows "is_term tsort den (smt_sort_of (esort e)) (\<lambda>E. eval (z3_interp h suffix E) e)
    (ExprVar_GetZ3Expr ctx h e suffix)"
proof -
  obtain nm where nm: "root_of h (ehost e) = Inr nm"
    using root_of_ok [OF assms(1), of "ehost e"] assms(2,4) by (auto simp: node_enc_def)
  have "eval (z3_interp h suffix E) e =
      env_const E (format_name (ename e) nm suffix) (smt_sort_of (esort e))" for E
    using assms(4) nm by (cases e) (simp add: z3_interp_def smt_interp_def z3_vname_def ok_or_empty_def)
  then show ?thesis
    using assms nm free_const by (simp add: ExprVar_GetZ3Expr_def sort_constant sort_translated node_enc_def)
qed

lemma node_op:
  assumes "encodable h e" "ekind e = KOp u" "list_all2 (denotes h suffix) (eargs e) ts"
  shows "is_term tsort den (smt_sort_of (esort e)) (\<lambda>E. eval (z3_interp h suffix E) e) (ExprOp_GetZ3Expr ctx u e ts)"
proof -
  let ?ss = "map esort (eargs e)"
  have e: "wf_expr e" "node_enc h e" using assms(1) by (simp_all add: encodable_def every_node)
  then have n: "op_sort u ?ss (eparams e) = Some (esort e)" "sem_ok u ?ss (eparams e)"
    using assms(2) wf_node [of e] by (simp_all add: node_wf_def)
  have srt: "list_all sort_wf ?ss" using e(1) by (auto simp: list_all_iff intro: wf_sort wf_args)
  have len: "length ts = length (eargs e)" using assms(3) by (simp add: list_all2_lengthD)
  obtain zf qs where c: "ExprOp_GetZ3Expr ctx u e ts = z3_mk ctx zf qs ts"
    "smt_call u ?ss (eparams e) = Some (z3_smt zf, qs)" "list_all unsigned_ok qs"
    using op_calls [OF n srt len e(2), of ctx] by (auto simp: calls_def)
  have ok: "env_ok E \<Longrightarrow> interp_ok (z3_interp h suffix E)" for E by (simp add: z3_interp_def smt_interp_ok)
  note s = op_stands_for [OF e(1) assms(2) assms(3) [unfolded denotes_def] c(2) ok]
  show ?thesis using mk [OF s(1) c(3)] s(2) c(1) by (auto simp: is_term_def)
qed

lemma node_app:
  assumes "encodable h e" "ekind e = KApp f" "list_all2 (denotes h suffix) (eargs e) ts"
  shows "is_term tsort den (smt_sort_of (esort e)) (\<lambda>E. eval (z3_interp h suffix E) e)
    (AppFunc_GetZ3Expr ctx h f e ts suffix)"
proof -
  have wf: "func_args f = map esort (eargs e)" "esort e = func_out f" "sort_wf (esort e)"
    using assms(1,2) wf_node [of e] by (auto simp: encodable_def node_wf_def)
  have enc: "node_enc h e" using assms(1) by (simp add: encodable_def every_node)
  show ?thesis
  proof (cases "eargs e = []")
    case True
    then have "ts = []" "ehost e = None" using assms(2,3) wf enc by (simp_all add: node_enc_def)
    then have "AppFunc_GetZ3Expr ctx h f e ts suffix = z3_constant ctx (z3_cname suffix f) (smt_sort_of (esort e))"
      using wf enc by (simp add: AppFunc_GetZ3Expr_def host_name_def sort_constant z3_cname_def
          sort_translated node_enc_def)
    moreover have "eval (z3_interp h suffix E) e = env_const E (z3_cname suffix f) (smt_sort_of (esort e))" for E
      using assms(2) True wf by (cases e) (simp add: z3_interp_def smt_interp_def)
    ultimately show ?thesis using free_const [OF wf(3)] by simp
  next
    case False
    have wfa: "\<forall>a \<in> set (eargs e). wf_expr a" using assms(1) by (auto simp: encodable_def intro: wf_args)
    have ts: "ts \<noteq> []" "map tsort ts = map smt_sort_of (func_args f)"
      using False assms(3) by (auto simp: list_all2_conv_all_nth denotes_def stands_for_def wf intro: nth_equalityI)
    obtain nm where nm: "host_name h (func_host f) = Inr nm"
      using host_name_ok [of "func_host f" h] enc assms(2) by (auto simp: node_enc_def)
    let ?d = "\<lparr>decl_name = z3_fname h f, decl_domain = map smt_sort_of (func_args f),
      decl_range = smt_sort_of (func_out f)\<rparr>"
    have "map GetZ3Sort (func_args f) = map smt_sort_of (func_args f)"
      using enc assms(2) wfa by (auto simp: node_enc_def list_all_iff wf wf_sort intro!: sort_translated)
    then have r: "AppFunc_GetZ3Expr ctx h f e ts suffix = z3_app ctx ?d ts"
      using ts(1) nm wf(2,3) enc assms(2)
      by (simp add: AppFunc_GetZ3Expr_def GetZ3FuncDecl_def z3_fname_def ok_or_empty_def
          sort_translated node_enc_def cong: map_cong)
    have "eval (z3_interp h suffix E) e = env_fun E (z3_fname h f) (map smt_sort_of (func_args f))
        (smt_sort_of (func_out f)) (map (den E) ts)" if E: "env_ok E" for E
    proof -
      have "map (den E) ts = map (eval (z3_interp h suffix E)) (eargs e)"
        using assms(3) E by (auto simp: list_all2_conv_all_nth denotes_def stands_for_def intro: nth_equalityI)
      then show ?thesis using assms(2) False wf by (cases e) (simp add: z3_interp_def smt_interp_def)
    qed
    then show ?thesis using app [of ts ?d] ts wf by (auto simp: r is_term_def)
  qed
qed

lemma stores_ok:
  assumes "0 < a" "a < 2 ^ 31" "0 < d" "d < 2 ^ 31"
  shows "\<forall>(x, y) \<in> set vm. uint x < 2 ^ nat a \<and> uint y < 2 ^ nat d \<Longrightarrow>
    tsort t = SArray (SBv a) (SBv d) \<Longrightarrow> \<forall>E. env_ok E \<longrightarrow> den E t = VMem m \<Longrightarrow>
    is_term tsort den (SArray (SBv a) (SBv d))
      (\<lambda>E. VMem (fold (\<lambda>(x, y) m. m(x := y)) (map (\<lambda>(x, y). (uint x, uint y)) vm) m))
      (z3_stores ctx a d vm t)"
proof (induction vm arbitrary: t m)
  case Nil
  then show ?case by (auto simp: is_term_def)
next
  case (Cons p vm)
  obtain x y where p: "p = (x, y)" by (cases p)
  obtain tx ty where tx: "z3_bv_str ctx (to_string (unat x)) a = Inr tx" "tsort tx = SBv a"
      "\<forall>E. env_ok E \<longrightarrow> den E tx = VBv (uint x)"
    and ty: "z3_bv_str ctx (to_string (unat y)) d = Inr ty" "tsort ty = SBv d"
      "\<forall>E. env_ok E \<longrightarrow> den E ty = VBv (uint y)"
    using bv_str [of a "unat x"] bv_str [of d "unat y"] assms Cons.prems(1)
    by (auto simp: is_term_def unsigned_ok_def p)
  obtain t' where t': "z3_mk ctx Z3_store [] [t, tx, ty] = Inr t'" "tsort t' = SArray (SBv a) (SBv d)"
      "\<forall>E. env_ok E \<longrightarrow> den E t' = VMem (m(uint x := uint y))"
    using mk [of Z3_store "[]" "[t, tx, ty]" "SArray (SBv a) (SBv d)"] tx ty Cons.prems(2,3)
    by (auto simp: is_term_def smt_sig_def smt_sem_def)
  then show ?case
    using Cons.IH [OF _ t'(2,3)] Cons.prems(1) tx ty assms by (simp add: p)
qed

lemma node_const:
  assumes "const_wf (esort e) v" "sort_small (esort e)" "ekind e = KConst v"
  shows "is_term tsort den (smt_sort_of (esort e)) (\<lambda>E. const_sem (esort e) v) (ExprConst_GetZ3Expr ctx e [])"
proof (cases v)
  case (BoolVal b)
  then have "esort e = SortBool" using assms(1) by (auto simp: const_wf_def split: sort.splits)
  then show ?thesis using BoolVal assms(3) bool_val
    by (simp add: ExprConst_GetZ3Expr_def val_bool_def const_sem_def)
next
  case (BvVal x)
  then obtain w where w: "esort e = SortBv w" "0 < w" "uint x < 2 ^ nat w"
    using assms(1) by (auto simp: const_wf_def split: sort.splits)
  then show ?thesis using BvVal assms(2,3) bv_val [of w "uint x"]
    by (simp add: ExprConst_GetZ3Expr_def val_bv_def const_sem_def sort_small_def unsigned_ok_def Z3BvVal_def)
next
  case (MemV mv)
  then obtain a d where s: "esort e = SortMem a d" and wf: "const_wf (SortMem a d) (MemV mv)"
    using assms(1) by (auto simp: const_wf_def split: sort.splits)
  then have ad: "0 < a" "a < 2 ^ 31" "0 < d" "d < 2 ^ 31"
    using assms(2) by (auto simp: const_wf_def sort_small_def)
  obtain td where td: "z3_bv_str ctx (to_string (unat (def_val mv))) d = Inr td" "tsort td = SBv d"
      "\<forall>E. env_ok E \<longrightarrow> den E td = VBv (uint (def_val mv))"
    using bv_str [of d "unat (def_val mv)"] ad wf by (auto simp: is_term_def unsigned_ok_def const_wf_def)
  obtain ta where ta: "z3_const_array ctx (SBv a) td = Inr ta" "tsort ta = SArray (SBv a) (SBv d)"
      "\<forall>E. env_ok E \<longrightarrow> den E ta = VMem (\<lambda>x. if 0 \<le> x \<and> x < 2 ^ nat a then uint (def_val mv) else 0)"
    using const_array [OF _ _ td(2), of a] td(3) ad by (auto simp: is_term_def unsigned_ok_def const_array_def)
  have "\<forall>(x, y) \<in> set (val_map mv). uint x < 2 ^ nat a \<and> uint y < 2 ^ nat d"
    using wf by (auto simp: const_wf_def list_all_iff)
  from stores_ok [OF ad this ta(2,3)] mem_const_stores [OF wf] show ?thesis
    using MemV s assms(3) td ta ad
    by (simp add: ExprConst_GetZ3Expr_def val_mem_def const_sem_def entries_def)
qed

lemma node:
  assumes "heap_inv h" "encodable h e" "list_all2 (denotes h suffix) (eargs e) ts"
  shows "\<exists>t. GetZ3Expr ctx h e ts suffix = Inr t \<and> denotes h suffix e t"
proof -
  have wf: "node_wf (esort e) (eparams e) (map esort (eargs e)) (ekind e)" "sort_wf (esort e)"
    and enc: "node_enc h e"
    using assms(2) by (auto simp: encodable_def every_node wf_node wf_sort)
  have "is_term tsort den (smt_sort_of (esort e)) (\<lambda>E. eval (z3_interp h suffix E) e)
    (GetZ3Expr ctx h e ts suffix)"
  proof (cases e rule: kind_cases)
    case var
    then show ?thesis using node_var [OF assms(1) enc wf(2) var, of suffix] by (simp add: GetZ3Expr_def)
  next
    case (const v)
    then have "const_wf (esort e) v" "ts = []" using wf(1) assms(3) by (auto simp: node_wf_def)
    moreover have "eval (z3_interp h suffix E) e = const_sem (esort e) v" for E
      using const by (cases e) simp
    ultimately show ?thesis using node_const [of e v] const enc by (simp add: GetZ3Expr_def node_enc_def)
  next
    case (opn u)
    then show ?thesis using node_op [OF assms(2) opn assms(3)] by (simp add: GetZ3Expr_def)
  next
    case (app f)
    then show ?thesis using node_app [OF assms(2) app assms(3)] by (simp add: GetZ3Expr_def)
  qed
  then show ?thesis by (auto simp: is_term_def denotes_def stands_for_def)
qed

definition cached :: "heap \<Rightarrow> string \<Rightarrow> 't term_map \<Rightarrow> bool" where
  "cached h suffix m = (\<forall>e t. m e = Some t \<longrightarrow> denotes h suffix e t)"

definition visited :: "heap \<Rightarrow> string \<Rightarrow> expr set \<Rightarrow> 't term_map \<Rightarrow> 't term_map result \<Rightarrow> bool" where
  "visited h suffix D m r = (\<exists>m'. r = Inr m' \<and> cached h suffix m' \<and> m \<subseteq>\<^sub>m m' \<and> D \<subseteq> dom m')"

lemma call_visited:
  assumes "heap_inv h" "encodable h e" "cached h suffix m" "set (eargs e) \<subseteq> dom m"
  shows "visited h suffix {e} m (Z3ExprAdapter_call ctx h suffix e m)"
proof (cases "m e")
  case None
  have "\<exists>ts. rmap (find_term m) (eargs e) = Inr ts \<and> list_all2 (denotes h suffix) (eargs e) ts"
    using find_terms [OF assms(4)] assms(3,4)
    by (fastforce simp: list_all2_map2 list_all2_same cached_def)
  then obtain ts where ts: "rmap (find_term m) (eargs e) = Inr ts" "list_all2 (denotes h suffix) (eargs e) ts"
    by blast
  obtain t where t: "GetZ3Expr ctx h e ts suffix = Inr t" "denotes h suffix e t"
    using node [OF assms(1,2) ts(2)] by blast
  have "denotes h suffix e (z3_simplify ctx t)" using t(2) by (simp add: denotes_def stands_for_def simplify)
  then show ?thesis
    using None ts(1) t(1) assms(3)
    by (auto simp: visited_def Z3ExprAdapter_call_def PopulateExprMap_def cached_def map_le_def)
qed (use assms in \<open>auto simp: visited_def Z3ExprAdapter_call_def\<close>)

lemma visit_visited:
  assumes "heap_inv h"
  shows "encodable h e \<Longrightarrow> cached h suffix m \<Longrightarrow>
      visited h suffix {e} m (DepthFirstVisit (Z3ExprAdapter_call ctx h suffix) e m)"
    and "\<forall>e \<in> set es. encodable h e \<Longrightarrow> cached h suffix m \<Longrightarrow>
      visited h suffix (set es) m (visit_args (Z3ExprAdapter_call ctx h suffix) es m)"
proof (induction "Z3ExprAdapter_call ctx h suffix" e m and "Z3ExprAdapter_call ctx h suffix" es m
    rule: DepthFirstVisit_visit_args.induct)
  case (1 i n s q ps as k m)
  let ?e = "Expr i n s q ps as k"
  have "\<forall>a \<in> set as. encodable h a" using 1(2) by (auto simp: encodable_def list_all_iff)
  with 1 obtain m' where m': "visit_args (Z3ExprAdapter_call ctx h suffix) as m = Inr m'"
    "cached h suffix m'" "m \<subseteq>\<^sub>m m'" "set as \<subseteq> dom m'" by (auto simp: visited_def)
  with call_visited [OF assms 1(2) m'(2)] show ?case
    by (auto simp: visited_def intro: map_le_trans)
next
  case (2 m)
  then show ?case by (simp add: visited_def)
next
  case (3 a as m)
  obtain m1 where m1: "DepthFirstVisit (Z3ExprAdapter_call ctx h suffix) a m = Inr m1"
    "cached h suffix m1" "m \<subseteq>\<^sub>m m1" "a \<in> dom m1"
    using 3 by (auto simp: visited_def)
  then obtain m2 where m2: "visit_args (Z3ExprAdapter_call ctx h suffix) as m1 = Inr m2"
    "cached h suffix m2" "m1 \<subseteq>\<^sub>m m2" "set as \<subseteq> dom m2"
    using 3 by (fastforce simp: visited_def)
  have "a \<in> dom m2" using m1(4) m2(3) map_le_implies_dom_le by blast
  then show ?case using m1 m2 by (auto simp: visited_def intro: map_le_trans)
qed

lemma GetExpr_denotes:
  assumes "heap_inv h" "encodable h e"
  shows "\<exists>t. GetExpr ctx h e suffix = Inr t \<and> denotes h suffix e t"
  using visit_visited(1) [OF assms, of suffix Map.empty]
  by (auto simp: GetExpr_def visited_def cached_def)

lemma BoolAnd_ok:
  assumes "tsort a = SBool" "tsort b = SBool"
  shows "is_term tsort den SBool (\<lambda>E. bool2 (\<and>) [den E a, den E b]) (z3_BoolAnd ctx a b)"
  using mk [of Z3_and "[]" "[a, b]" SBool] assms
  by (simp add: z3_BoolAnd_def smt_sig_def sig_bool2_def smt_sem_def)

lemma Equal_ok:
  assumes "tsort a = tsort b"
  shows "is_term tsort den SBool (\<lambda>E. VBool (den E a = den E b)) (z3_Equal ctx a b)"
  using mk [of Z3_eq "[]" "[a, b]" SBool] assms
  by (simp add: z3_Equal_def smt_sig_def smt_sem_def)

end

section \<open>A model of the interface\<close>

text \<open>Terms as pairs of a sort and a meaning: the functions of the interface read as the SMT-LIB
  functions they are documented to build, and a call outside the signature throws.\<close>

type_synonym sem_term = "smt_sort \<times> (smt_env \<Rightarrow> sval)"

definition sem_mk :: "smt_fun \<Rightarrow> int list \<Rightarrow> sem_term list \<Rightarrow> sem_term result" where
  "sem_mk f ps ts = (case smt_sig f ps (map fst ts) of
     None \<Rightarrow> Inl LibException
   | Some s \<Rightarrow> Inr (s, \<lambda>E. smt_sem f ps (map fst ts) (map (\<lambda>t. snd t E) ts)))"

definition sem_bv :: "int \<Rightarrow> int \<Rightarrow> sem_term result" where
  "sem_bv i w = (if 0 < w then Inr (SBv w, \<lambda>E. VBv (i mod 2 ^ nat w)) else Inl LibException)"

definition sem_api :: "sem_term z3_api" where
  "sem_api =
     \<lparr>z3_constant = (\<lambda>n s. Inr (s, \<lambda>E. env_const E n s)),
      z3_bool_val = (\<lambda>b. Inr (SBool, \<lambda>E. VBool b)),
      z3_bv_val = sem_bv,
      z3_bv_str = (\<lambda>str. sem_bv (int (of_digits str))),
      z3_const_array = (\<lambda>s t. case (s, fst t) of
         (SBv a, SBv d) \<Rightarrow> Inr (SArray s (fst t), \<lambda>E. const_array a (snd t E)) | _ \<Rightarrow> Inl LibException),
      z3_mk = (\<lambda>f. sem_mk (z3_smt f)),
      z3_app = (\<lambda>d ts. if map fst ts = decl_domain d
         then Inr (decl_range d, \<lambda>E. env_fun E (decl_name d) (decl_domain d) (decl_range d) (map (\<lambda>t. snd t E) ts))
         else Inl LibException),
      z3_simplify = (\<lambda>t. t)\<rparr>"

definition sem_den :: "smt_env \<Rightarrow> sem_term \<Rightarrow> sval" where
  "sem_den E t = snd t E"

lemma sem_den_fun: "sem_den E = (\<lambda>t. snd t E)"
  by (simp add: sem_den_def fun_eq_iff)

interpretation sem: z3_backend sem_api fst sem_den
  by unfold_locales (auto simp: sem_api_def is_term_def sem_den_fun sem_bv_def sem_mk_def)

section \<open>Properties\<close>

text \<open>C5: The Z3 translation is sound and complete. With a Z3 that behaves as documented, on a heap
  that satisfies the invariant and for every well-formed expression whose widths and parameters are
  C++ integers, the adapter returns a term (no assertion fails and no exception is thrown); the term
  has the sort of the expression, and under every assignment of values to the generated names its
  value is the value of the expression, with each variable read at its qualified, suffixed name.\<close>

theorem z3_translation:
  assumes "z3_backend ctx tsort den" "heap_inv h" "encodable h e"
  shows "\<exists>t. GetExpr ctx h e suffix = Inr t \<and> tsort t = smt_sort_of (esort e) \<and>
    (\<forall>E. env_ok E \<longrightarrow> den E t = eval (z3_interp h suffix E) e)"
  using z3_backend.GetExpr_denotes [OF assms]
  by (simp add: z3_backend.denotes_def [OF assms(1)] stands_for_def)

text \<open>The sum of a variable and a constant, in the model of the interface.\<close>

theorem z3_translation_witness:
  "\<exists>t. GetExpr sem_api empty_heap sum_x9 ''0_'' = Inr t \<and> fst t = SBv 4 \<and> sem_den zero_env t = VBv 9"
proof -
  have "encodable empty_heap sum_x9"
    by (simp add: encodable_def sum_x9_def sub_x_def const9_def node_wf_def const_wf_def op_sort_def
        same_sort_def sem_ok_def node_enc_def sort_small_def)
  from z3_translation [OF sem.z3_backend_axioms heap_inv_empty this, of "''0_''"]
  obtain t where t: "GetExpr sem_api empty_heap sum_x9 ''0_'' = Inr t" "fst t = SBv 4"
    "sem_den zero_env t = eval (z3_interp empty_heap ''0_'' zero_env) sum_x9"
    using zero_env_ok by (auto simp: sum_x9_def)
  have "eval (z3_interp empty_heap ''0_'' zero_env) sum_x9 = VBv 9"
    by (simp add: sum_x9_def sub_x_def const9_def z3_interp_def smt_interp_def zero_env_def smt_zero_def
        const_sem_def op_sem_def bv2_def)
  with t show ?thesis by auto
qed

end
