(* ===== verification/SmtSwitch.thy ===== *)
theory SmtSwitch
  imports Z3Gen
begin

text \<open>
  The interface to smt-switch (src/target-smt/smt\_switch\_itf.cc): the class \<^verbatim>\<open>SmtSwitchItf\<close>
  translates expressions to terms of a solver and caches the terms of expressions and functions.

  The solver is a parameter, a record of the functions of smt-switch that the code calls. It keeps a
  state, because a symbol can be declared once only. An exception leaves the changes made before it
  in place, so the methods return the new state with the error.
\<close>

section \<open>The interface of smt-switch\<close>

datatype PrimOp =
    Op_And | Op_Or | Op_Xor | Op_Not | Op_Implies | Op_Ite | Op_Equal | Op_Apply
  | Op_BVNeg | Op_BVNot | Op_BVAnd | Op_BVOr | Op_BVXor | Op_BVShl | Op_BVAshr | Op_BVLshr
  | Op_BVAdd | Op_BVSub | Op_BVSdiv | Op_BVSrem | Op_BVUrem | Op_BVSmod | Op_BVMul
  | Op_BVSlt | Op_BVSgt | Op_BVUlt | Op_BVUgt | Op_Select | Op_Store | Op_Concat | Op_Extract
  | Op_Zero_Extend | Op_Sign_Extend | Op_Rotate_Left | Op_Rotate_Right

datatype sw_sort = SwSort smt_sort | SwFun "smt_sort list" smt_sort

record ('w, 't) smt_solver =
  sw_reset :: "'w \<Rightarrow> unit result \<times> 'w"
  sw_symbol :: "string \<Rightarrow> sw_sort \<Rightarrow> 'w \<Rightarrow> 't result \<times> 'w"
  sw_bool :: "bool \<Rightarrow> 't result"
  sw_int :: "int \<Rightarrow> smt_sort \<Rightarrow> 't result"
  sw_const_array :: "'t \<Rightarrow> smt_sort \<Rightarrow> 't result"
  sw_term :: "PrimOp \<Rightarrow> int list \<Rightarrow> 't list \<Rightarrow> 't result"

fun sw_smt :: "PrimOp \<Rightarrow> smt_fun option" where
  "sw_smt Op_And = Some Andf" | "sw_smt Op_Or = Some Orf" | "sw_smt Op_Xor = Some Xorf"
| "sw_smt Op_Not = Some Notf" | "sw_smt Op_Implies = Some Impliesf" | "sw_smt Op_Ite = Some Itef"
| "sw_smt Op_Equal = Some Eqf" | "sw_smt Op_Apply = None" | "sw_smt Op_BVNeg = Some Bvneg"
| "sw_smt Op_BVNot = Some Bvnot" | "sw_smt Op_BVAnd = Some Bvand" | "sw_smt Op_BVOr = Some Bvor"
| "sw_smt Op_BVXor = Some Bvxor" | "sw_smt Op_BVShl = Some Bvshl" | "sw_smt Op_BVAshr = Some Bvashr"
| "sw_smt Op_BVLshr = Some Bvlshr" | "sw_smt Op_BVAdd = Some Bvadd" | "sw_smt Op_BVSub = Some Bvsub"
| "sw_smt Op_BVSdiv = Some Bvsdiv" | "sw_smt Op_BVSrem = Some Bvsrem" | "sw_smt Op_BVUrem = Some Bvurem"
| "sw_smt Op_BVSmod = Some Bvsmod" | "sw_smt Op_BVMul = Some Bvmul" | "sw_smt Op_BVSlt = Some Bvslt"
| "sw_smt Op_BVSgt = Some Bvsgt" | "sw_smt Op_BVUlt = Some Bvult" | "sw_smt Op_BVUgt = Some Bvugt"
| "sw_smt Op_Select = Some Selectf" | "sw_smt Op_Store = Some Storef" | "sw_smt Op_Concat = Some Concatf"
| "sw_smt Op_Extract = Some Extractf" | "sw_smt Op_Zero_Extend = Some Zero_extend"
| "sw_smt Op_Sign_Extend = Some Sign_extend" | "sw_smt Op_Rotate_Left = Some Rotate_left"
| "sw_smt Op_Rotate_Right = Some Rotate_right"

section \<open>The class\<close>

record ('w, 't) SmtSwitchItf =
  itf_solver :: 'w
  itf_expr_map :: "'t term_map"
  itf_func_map :: "Func \<Rightarrow> 't option"
  itf_suffix :: string

text \<open>Methods with the state of the object: an error does not undo changes.\<close>

type_synonym ('w, 't, 'a) itf_op = "('w, 't) SmtSwitchItf \<Rightarrow> 'a result \<times> ('w, 't) SmtSwitchItf"

definition sret :: "'a \<Rightarrow> ('w, 't, 'a) itf_op" where
  "sret x = (\<lambda>st. (Inr x, st))"

definition slift :: "'a result \<Rightarrow> ('w, 't, 'a) itf_op" where
  "slift r = (\<lambda>st. (r, st))"

definition sbind :: "('w, 't, 'a) itf_op \<Rightarrow> ('a \<Rightarrow> ('w, 't, 'b) itf_op) \<Rightarrow> ('w, 't, 'b) itf_op" where
  "sbind m f = (\<lambda>st. case m st of (Inl e, st') \<Rightarrow> (Inl e, st') | (Inr x, st') \<Rightarrow> f x st')"

definition SmtSwitchItf_new :: "'w \<Rightarrow> ('w, 't) SmtSwitchItf" where
  "SmtSwitchItf_new solver =
     \<lparr>itf_solver = solver, itf_expr_map = Map.empty, itf_func_map = Map.empty, itf_suffix = []\<rparr>"

definition Reset :: "('w, 't) smt_solver \<Rightarrow> ('w, 't, unit) itf_op" where
  "Reset api st =
     (case sw_reset api (itf_solver st) of (r, w) \<Rightarrow>
        let st = st\<lparr>itf_solver := w\<rparr> in
        if is_ok r \<or> r = Inl LibException
        then (Inr (), st\<lparr>itf_expr_map := Map.empty, itf_func_map := Map.empty\<rparr>)
        else (r, st))"

definition IlaSort2SmtSort :: "sort \<Rightarrow> smt_sort result" where
  "IlaSort2SmtSort s = (case sort_uid s of
       kBool \<Rightarrow> Inr SBool
     | kBv \<Rightarrow> rbind (bit_width s) (\<lambda>w. Inr (SBv w))
     | u \<Rightarrow> rassert (u = kMem) (IlaAssert ''sort_uid == AstUidSort::kMem'')
         (rbind (addr_width s) (\<lambda>a. rbind (data_width s) (\<lambda>d. Inr (SArray (SBv a) (SBv d))))))"

definition make_symbol :: "('w, 't) smt_solver \<Rightarrow> string \<Rightarrow> sw_sort \<Rightarrow> ('w, 't, 't) itf_op" where
  "make_symbol api name s st =
     (case sw_symbol api name s (itf_solver st) of (r, w) \<Rightarrow> (r, st\<lparr>itf_solver := w\<rparr>))"

definition ExprVar2Term :: "('w, 't) smt_solver \<Rightarrow> heap \<Rightarrow> expr \<Rightarrow> ('w, 't, 't) itf_op" where
  "ExprVar2Term api h e =
     sbind (slift (root_of h (ehost e))) (\<lambda>pre.
     sbind (slift (IlaSort2SmtSort (esort e))) (\<lambda>s.
     (\<lambda>st. make_symbol api (format_name (ename e) pre (itf_suffix st)) (SwSort s) st)))"

text \<open>The 64-bit value of a constant is passed as a signed integer.\<close>

fun sw_stores :: "('w, 't) smt_solver \<Rightarrow> smt_sort \<Rightarrow> smt_sort \<Rightarrow> (BvValType, BvValType) amap \<Rightarrow> 't \<Rightarrow> 't result" where
  "sw_stores api addr_sort data_sort [] m = Inr m"
| "sw_stores api addr_sort data_sort ((a, d) # vm) m =
     rbind (sw_int api (sint a) addr_sort) (\<lambda>addr_term.
     rbind (sw_int api (sint d) data_sort) (\<lambda>data_term.
     rbind (sw_term api Op_Store [] [m, addr_term, data_term]) (\<lambda>memory_wr.
     sw_stores api addr_sort data_sort vm memory_wr)))"

definition ExprConst2Term :: "('w, 't) smt_solver \<Rightarrow> expr \<Rightarrow> 't result" where
  "ExprConst2Term api e = (case GetUidSort e of
       kBool \<Rightarrow> rbind (val_bool e) (sw_bool api)
     | kBv \<Rightarrow> rbind (bit_width (esort e)) (\<lambda>bw. rbind (val_bv e) (\<lambda>v. sw_int api (sint v) (SBv bw)))
     | u \<Rightarrow> rassert (u = kMem) (IlaAssert ''sort_uid == AstUidSort::kMem'')
         (rbind (addr_width (esort e)) (\<lambda>aw.
          rbind (data_width (esort e)) (\<lambda>dw.
          rbind (val_mem e) (\<lambda>mv.
          rbind (sw_int api (sint (def_val mv)) (SBv dw)) (\<lambda>def_val_term.
          rbind (sw_const_array api def_val_term (SArray (SBv aw) (SBv dw))) (\<lambda>const_memory.
          sw_stores api (SBv aw) (SBv dw) (val_map mv) const_memory)))))))"

definition at :: "'t list \<Rightarrow> nat \<Rightarrow> 't result" where
  "at ts i = (if i < length ts then Inr (ts ! i) else Inl OutOfRange)"

definition make_term1 :: "('w, 't) smt_solver \<Rightarrow> PrimOp \<Rightarrow> int list \<Rightarrow> 't list \<Rightarrow> 't result" where
  "make_term1 api p idx ts = rbind (at ts 0) (\<lambda>a. sw_term api p idx [a])"

definition make_term2 :: "('w, 't) smt_solver \<Rightarrow> PrimOp \<Rightarrow> 't list \<Rightarrow> 't result" where
  "make_term2 api p ts = rbind (at ts 0) (\<lambda>a. rbind (at ts 1) (\<lambda>b. sw_term api p [] [a, b]))"

definition make_term3 :: "('w, 't) smt_solver \<Rightarrow> PrimOp \<Rightarrow> 't list \<Rightarrow> 't result" where
  "make_term3 api p ts =
     rbind (at ts 0) (\<lambda>a. rbind (at ts 1) (\<lambda>b. rbind (at ts 2) (\<lambda>c. sw_term api p [] [a, b, c])))"

definition Func2Term :: "('w, 't) smt_solver \<Rightarrow> heap \<Rightarrow> Func \<Rightarrow> ('w, 't, 't) itf_op" where
  "Func2Term api h f =
     sbind (slift (root_of h (func_host f))) (\<lambda>pre.
     sbind (slift (rmap IlaSort2SmtSort (func_args f))) (\<lambda>arg_sorts.
     sbind (slift (IlaSort2SmtSort (func_out f))) (\<lambda>out.
     (\<lambda>st. make_symbol api (format_name (func_name f) pre (itf_suffix st)) (SwFun arg_sorts out) st))))"

definition apply_func :: "('w, 't) smt_solver \<Rightarrow> heap \<Rightarrow> Func \<Rightarrow> 't list \<Rightarrow> ('w, 't, 't) itf_op" where
  "apply_func api h f arg_terms =
     sbind (\<lambda>st. case itf_func_map st f of
         Some t \<Rightarrow> (Inr t, st)
       | None \<Rightarrow> sbind (Func2Term api h f) (\<lambda>t st. (Inr t, st\<lparr>itf_func_map := (itf_func_map st)(f \<mapsto> t)\<rparr>)) st) (\<lambda>func_term.
     slift (sw_term api Op_Apply [] (func_term # arg_terms)))"

definition ExprOp2Term :: "('w, 't) smt_solver \<Rightarrow> heap \<Rightarrow> expr \<Rightarrow> 't list \<Rightarrow> ('w, 't, 't) itf_op" where
  "ExprOp2Term api h e ts =
     sbind (slift (GetUidExprOp e)) (\<lambda>expr_op_uid. case expr_op_uid of
       kNegate \<Rightarrow> slift (make_term1 api Op_BVNeg [] ts)
     | kNot \<Rightarrow> slift (make_term1 api Op_Not [] ts)
     | kComplement \<Rightarrow> slift (make_term1 api Op_BVNot [] ts)
     | kAnd \<Rightarrow> slift (make_term2 api (if e_is_bool e then Op_And else Op_BVAnd) ts)
     | kOr \<Rightarrow> slift (make_term2 api (if e_is_bool e then Op_Or else Op_BVOr) ts)
     | kXor \<Rightarrow> slift (make_term2 api (if e_is_bool e then Op_Xor else Op_BVXor) ts)
     | kShiftLeft \<Rightarrow> slift (make_term2 api Op_BVShl ts)
     | kArithShiftRight \<Rightarrow> slift (make_term2 api Op_BVAshr ts)
     | kLogicShiftRight \<Rightarrow> slift (make_term2 api Op_BVLshr ts)
     | kAdd \<Rightarrow> slift (make_term2 api Op_BVAdd ts)
     | kSubtract \<Rightarrow> slift (make_term2 api Op_BVSub ts)
     | kDivide \<Rightarrow> slift (make_term2 api Op_BVSdiv ts)
     | kSignedRemainder \<Rightarrow> slift (make_term2 api Op_BVSrem ts)
     | kUnsignedRemainder \<Rightarrow> slift (make_term2 api Op_BVUrem ts)
     | kSignedModular \<Rightarrow> slift (make_term2 api Op_BVSmod ts)
     | kMultiply \<Rightarrow> slift (make_term2 api Op_BVMul ts)
     | kEqual \<Rightarrow> slift (make_term2 api Op_Equal ts)
     | kLessThan \<Rightarrow> slift (make_term2 api Op_BVSlt ts)
     | kGreaterThan \<Rightarrow> slift (make_term2 api Op_BVSgt ts)
     | kUnsignedLessThan \<Rightarrow> slift (make_term2 api Op_BVUlt ts)
     | kUnsignedGreaterThan \<Rightarrow> slift (make_term2 api Op_BVUgt ts)
     | kLoad \<Rightarrow> slift (make_term2 api Op_Select ts)
     | kStore \<Rightarrow> slift (make_term3 api Op_Store ts)
     | kConcatenate \<Rightarrow> slift (make_term2 api Op_Concat ts)
     | kExtract \<Rightarrow> slift (rbind (param e 0) (\<lambda>hi. rbind (param e 1) (\<lambda>lo. make_term1 api Op_Extract [hi, lo] ts)))
     | kZeroExtend \<Rightarrow> slift (rbind (param e 0) (\<lambda>p. rbind (arg e 0) (\<lambda>a. rbind (bit_width (esort a)) (\<lambda>w.
         make_term1 api Op_Zero_Extend [p - w] ts))))
     | kSignedExtend \<Rightarrow> slift (rbind (param e 0) (\<lambda>p. rbind (arg e 0) (\<lambda>a. rbind (bit_width (esort a)) (\<lambda>w.
         make_term1 api Op_Sign_Extend [p - w] ts))))
     | kRotateLeft \<Rightarrow> slift (rbind (param e 0) (\<lambda>p. make_term1 api Op_Rotate_Left [p] ts))
     | kRotateRight \<Rightarrow> slift (rbind (param e 0) (\<lambda>p. make_term1 api Op_Rotate_Right [p] ts))
     | kImply \<Rightarrow> slift (make_term2 api Op_Implies ts)
     | kIfThenElse \<Rightarrow> slift (make_term3 api Op_Ite ts)
     | kApplyFunc \<Rightarrow> (case ekind e of KApp f \<Rightarrow> apply_func api h f ts | _ \<Rightarrow> slift (Inl NullDeref))
     | kInvalid \<Rightarrow> slift (Inl (IlaCheck ''Op not supported in smt-switch'')))"

definition Expr2Term :: "('w, 't) smt_solver \<Rightarrow> heap \<Rightarrow> expr \<Rightarrow> 't list \<Rightarrow> ('w, 't, 't) itf_op" where
  "Expr2Term api h e ts =
     (if is_var e then ExprVar2Term api h e
      else if is_const e then slift (ExprConst2Term api e)
      else sbind (slift (rassert (is_op e) (IlaAssert ''e->is_op()'') (Inr ()))) (\<lambda>_. ExprOp2Term api h e ts))"

definition sw_PopulateExprMap :: "('w, 't) smt_solver \<Rightarrow> heap \<Rightarrow> expr \<Rightarrow> ('w, 't, unit) itf_op" where
  "sw_PopulateExprMap api h e =
     sbind (\<lambda>st. (rmap (find_term (itf_expr_map st)) (eargs e), st)) (\<lambda>arg_terms.
     sbind (Expr2Term api h e arg_terms) (\<lambda>res.
     (\<lambda>st. (Inr (), st\<lparr>itf_expr_map := [e \<mapsto> res] ++ itf_expr_map st\<rparr>))))"

definition sw_pre :: "expr \<Rightarrow> ('w, 't) SmtSwitchItf \<Rightarrow> bool" where
  "sw_pre e st = (itf_expr_map st e \<noteq> None)"

text \<open>\<^verbatim>\<open>post\<close> logs a thrown \<^verbatim>\<open>SmtException\<close> and goes on.\<close>

definition sw_post ::
  "('w, 't) smt_solver \<Rightarrow> heap \<Rightarrow> expr \<Rightarrow> ('w, 't) SmtSwitchItf \<Rightarrow> ('w, 't) SmtSwitchItf result" where
  "sw_post api h e st = (case sw_PopulateExprMap api h e st of
       (Inr _, st') \<Rightarrow> Inr st' | (Inl LibException, st') \<Rightarrow> Inr st' | (Inl err, st') \<Rightarrow> Inl err)"

definition GetSmtTerm ::
  "('w, 't) smt_solver \<Rightarrow> heap \<Rightarrow> expr \<Rightarrow> string \<Rightarrow> ('w, 't) SmtSwitchItf \<Rightarrow> ('t \<times> ('w, 't) SmtSwitchItf) result" where
  "GetSmtTerm api h e suffix st =
     rbind (DepthFirstVisitPrePost sw_pre (sw_post api h) e (st\<lparr>itf_suffix := suffix\<rparr>)) (\<lambda>st.
     case itf_expr_map st e of None \<Rightarrow> Inl (IlaAssert ''pos != expr_map_.end()'') | Some t \<Rightarrow> Inr (t, st))"

text \<open>The shim interface.\<close>

definition sw_BoolAnd :: "('w, 't) smt_solver \<Rightarrow> 't \<Rightarrow> 't \<Rightarrow> 't result" where
  "sw_BoolAnd api a b = sw_term api Op_And [] [a, b]"

definition sw_Equal :: "('w, 't) smt_solver \<Rightarrow> 't \<Rightarrow> 't \<Rightarrow> 't result" where
  "sw_Equal api a b = sw_term api Op_Equal [] [a, b]"

section \<open>What is relied on\<close>

text \<open>The symbols of an expression: its variables and uninterpreted functions.\<close>

fun symbols_of :: "expr \<Rightarrow> (expr + Func) list" where
  "symbols_of (Expr i n s q ps as k) =
     concat (map symbols_of as) @
     (case k of KVar \<Rightarrow> [Inl (Expr i n s q ps as k)] | KApp f \<Rightarrow> [Inr f] | _ \<Rightarrow> [])"

definition sw_fname :: "heap \<Rightarrow> string \<Rightarrow> Func \<Rightarrow> string" where
  "sw_fname h suffix f = format_name (func_name f) (ok_or_empty (root_of h (func_host f))) suffix"

definition sw_name :: "heap \<Rightarrow> string \<Rightarrow> expr + Func \<Rightarrow> string" where
  "sw_name h suffix x = (case x of Inl e \<Rightarrow> z3_vname h suffix e | Inr f \<Rightarrow> sw_fname h suffix f)"

definition sw_interp :: "heap \<Rightarrow> string \<Rightarrow> smt_env \<Rightarrow> interp" where
  "sw_interp h suffix = smt_interp (z3_vname h suffix) (sw_fname h suffix) (sw_fname h suffix)"

text \<open>The nodes the translation supports: sorts of SMT-LIB, constants below \<open>2 ^ 63\<close> (they are passed
  as signed numbers), functions with arguments, variables and functions of ILAs of the heap.\<close>

definition sort_plain :: "sort \<Rightarrow> bool" where
  "sort_plain s = (sort_uid s \<in> {kBool, kBv, kMem})"

definition small :: "BvValType \<Rightarrow> bool" where
  "small v = (uint v < 2 ^ 63)"

definition const_small :: "Value \<Rightarrow> bool" where
  "const_small v = (case v of
       BoolVal b \<Rightarrow> True
     | BvVal x \<Rightarrow> small x
     | MemV mv \<Rightarrow> small (def_val mv) \<and> list_all (\<lambda>(a, d). small a \<and> small d) (val_map mv))"

definition node_sw :: "heap \<Rightarrow> expr \<Rightarrow> bool" where
  "node_sw h e = (case ekind e of
       KVar \<Rightarrow> sort_plain (esort e) \<and> (\<forall>p. ehost e = Some p \<longrightarrow> ilas h p \<noteq> None)
     | KConst v \<Rightarrow> const_small v
     | KOp u \<Rightarrow> True
     | KApp f \<Rightarrow> func_args f \<noteq> [] \<and> list_all sort_plain (func_args f) \<and> sort_plain (func_out f) \<and>
         list_all sort_wf (func_args f) \<and> (\<forall>p. func_host f = Some p \<longrightarrow> ilas h p \<noteq> None))"

definition sw_encodable :: "heap \<Rightarrow> string \<Rightarrow> expr \<Rightarrow> bool" where
  "sw_encodable h suffix e =
     (wf_expr e \<and> every (node_sw h) e \<and> inj_on (sw_name h suffix) (set (symbols_of e)))"

lemma sort_plain_ok: "sort_plain s \<Longrightarrow> IlaSort2SmtSort s = Inr (smt_sort_of s)"
  by (cases s) (simp_all add: sort_plain_def IlaSort2SmtSort_def)

lemma small_sint: "small v \<Longrightarrow> sint v = uint v"
  by (simp add: small_def sint_uint signed_take_bit_int_eq_self order.trans [OF _ uint_ge_0])

lemma sorts_plain_ok: "list_all sort_plain ss \<Longrightarrow> rmap IlaSort2SmtSort ss = Inr (map smt_sort_of ss)"
  by (induction ss) (simp_all add: sort_plain_ok)

lemma sbind_simps:
  "m st = (Inr x, st') \<Longrightarrow> sbind m f st = f x st'" "m st = (Inl e, st') \<Longrightarrow> sbind m f st = (Inl e, st')"
  by (simp_all add: sbind_def)

lemma slift_pair [simp]: "fst (slift r st) = r" "snd (slift r st) = st"
  by (simp_all add: slift_def)

lemma slift_bind [simp]: "sbind (slift (Inr x)) f st = f x st" "sbind (slift (Inl e)) f st = (Inl e, st)"
  by (simp_all add: sbind_def slift_def)

text \<open>Every operation calls the function of smt-switch that stands for its symbol.\<close>

definition sw_calls :: "('w, 't) smt_solver \<Rightarrow> 't list \<Rightarrow> (smt_fun \<times> int list) option \<Rightarrow> 't result \<Rightarrow> bool" where
  "sw_calls api ts c r = (\<exists>p qs f. r = sw_term api p qs ts \<and> c = Some (f, qs) \<and> sw_smt p = Some f)"

lemma sw_calls_I:
  "sw_smt p \<noteq> None \<Longrightarrow> c = Some (the (sw_smt p), qs) \<Longrightarrow> sw_calls api ts c (sw_term api p qs ts)"
  by (auto simp: sw_calls_def)

lemma make_terms:
  "length ts = Suc 0 \<Longrightarrow> make_term1 api p idx ts = sw_term api p idx ts"
  "length ts = 2 \<Longrightarrow> make_term2 api p ts = sw_term api p [] ts"
  "length ts = 3 \<Longrightarrow> make_term3 api p ts = sw_term api p [] ts"
  by (auto simp: make_term1_def make_term2_def make_term3_def at_def length_2_3)

lemma op_arity:
  "op_sort u ss ps = Some s \<Longrightarrow> u \<in> {kNegate, kNot, kComplement, kExtract, kZeroExtend, kSignedExtend,
     kRotateLeft, kRotateRight} \<Longrightarrow> length ss = Suc 0"
  "op_sort u ss ps = Some s \<Longrightarrow> u \<in> {kStore, kIfThenElse} \<Longrightarrow> length ss = 3"
  "op_sort u ss ps = Some s \<Longrightarrow> u \<notin> {kNegate, kNot, kComplement, kExtract, kZeroExtend, kSignedExtend,
     kRotateLeft, kRotateRight, kStore, kIfThenElse} \<Longrightarrow> length ss = 2"
  by (cases u; auto simp: op_sort_inv)+

lemma sw_op_calls:
  assumes "op_sort u (map esort (eargs e)) (eparams e) = Some (esort e)"
    "sem_ok u (map esort (eargs e)) (eparams e)" "list_all sort_wf (map esort (eargs e))"
    "length ts = length (eargs e)" "ekind e = KOp u"
  shows "snd (ExprOp2Term api h e ts st) = st"
    "sw_calls api ts (smt_call u (map esort (eargs e)) (eparams e)) (fst (ExprOp2Term api h e ts st))"
proof -
  have eq: "ExprOp2Term api h e ts st =
      slift (fst (ExprOp2Term api h e ts st)) st"
    using assms(5) op_sort_rules(24,25) assms(1) by (cases u) (simp_all add: ExprOp2Term_def GetUidExprOp_def)
  show "snd (ExprOp2Term api h e ts st) = st" by (subst eq) simp
  have len: "length (map esort (eargs e)) = length ts" using assms(4) by simp
  note ar = op_arity [OF assms(1), unfolded len]
  show "sw_calls api ts (smt_call u (map esort (eargs e)) (eparams e)) (fst (ExprOp2Term api h e ts st))"
    using assms ar make_terms [of ts api]
    apply (cases u)
    apply (simp_all add: ExprOp2Term_def GetUidExprOp_def op_sort_inv)
    apply (auto simp: smt_call_def Let_def sem_ok_def map_eq_Cons_conv intro!: sw_calls_I)
    done
qed

text \<open>The documented behaviour of smt-switch. \<open>declared\<close> gives the names of the symbols of a
  solver, \<open>func_sym\<close> tells that a term is a function symbol of a name and signature.\<close>

locale sw_backend =
  fixes api :: "('w, 't) smt_solver" and tsort :: "'t \<Rightarrow> smt_sort" and den :: "smt_env \<Rightarrow> 't \<Rightarrow> sval"
    and declared :: "'w \<Rightarrow> string set"
    and func_sym :: "string \<Rightarrow> smt_sort list \<Rightarrow> smt_sort \<Rightarrow> 't \<Rightarrow> bool"
  assumes reset: "\<exists>w'. sw_reset api w = (Inr (), w') \<and> declared w' = {}"
    and symbol: "n \<notin> declared w \<Longrightarrow> sort_wf s \<Longrightarrow>
      \<exists>r w'. sw_symbol api n (SwSort (smt_sort_of s)) w = (r, w') \<and> declared w' = insert n (declared w) \<and>
        is_term tsort den (smt_sort_of s) (\<lambda>E. env_const E n (smt_sort_of s)) r"
    and fun_symbol: "n \<notin> declared w \<Longrightarrow> ss \<noteq> [] \<Longrightarrow>
      \<exists>t w'. sw_symbol api n (SwFun ss z) w = (Inr t, w') \<and> declared w' = insert n (declared w) \<and> func_sym n ss z t"
    and app: "func_sym n ss z t \<Longrightarrow> map tsort ts = ss \<Longrightarrow>
      is_term tsort den z (\<lambda>E. env_fun E n ss z (map (den E) ts)) (sw_term api Op_Apply [] (t # ts))"
    and bool_val: "is_term tsort den SBool (\<lambda>E. VBool b) (sw_bool api b)"
    and int_val: "0 < bw \<Longrightarrow> 0 \<le> i \<Longrightarrow> i < 2 ^ nat bw \<Longrightarrow> i < 2 ^ 63 \<Longrightarrow>
      is_term tsort den (SBv bw) (\<lambda>E. VBv i) (sw_int api i (SBv bw))"
    and const_arr: "0 < a \<Longrightarrow> tsort t = SBv d \<Longrightarrow>
      is_term tsort den (SArray (SBv a) (SBv d)) (\<lambda>E. const_array a (den E t))
        (sw_const_array api t (SArray (SBv a) (SBv d)))"
    and mk: "sw_smt p = Some f \<Longrightarrow> smt_sig f ps (map tsort ts) = Some z \<Longrightarrow>
      is_term tsort den z (\<lambda>E. smt_sem f ps (map tsort ts) (map (den E) ts)) (sw_term api p ps ts)"
begin

definition denotes :: "heap \<Rightarrow> string \<Rightarrow> expr \<Rightarrow> 't \<Rightarrow> bool" where
  "denotes h suffix = stands_for tsort den (sw_interp h suffix)"

lemma interp_fine: "env_ok E \<Longrightarrow> interp_ok (sw_interp h suffix E)"
  by (simp add: sw_interp_def smt_interp_ok)

lemma node_op:
  assumes "wf_expr e" "ekind e = KOp u" "list_all2 (denotes h suffix) (eargs e) ts"
  shows "\<exists>t. ExprOp2Term api h e ts st = (Inr t, st) \<and> denotes h suffix e t"
proof -
  let ?ss = "map esort (eargs e)"
  have n: "op_sort u ?ss (eparams e) = Some (esort e)" "sem_ok u ?ss (eparams e)"
    using assms wf_node [of e] by (simp_all add: node_wf_def)
  have srt: "list_all sort_wf ?ss" using assms(1) by (auto simp: list_all_iff intro: wf_sort wf_args)
  have len: "length ts = length (eargs e)" using assms(3) by (simp add: list_all2_lengthD)
  note c = sw_op_calls [OF n srt len assms(2), of api h st]
  obtain p qs f where c': "fst (ExprOp2Term api h e ts st) = sw_term api p qs ts"
    "smt_call u ?ss (eparams e) = Some (f, qs)" "sw_smt p = Some f"
    using c(2) by (auto simp: sw_calls_def)
  note s = op_stands_for [OF assms(1,2) assms(3) [unfolded denotes_def] c'(2) interp_fine]
  obtain t where "sw_term api p qs ts = Inr t" "denotes h suffix e t"
    using mk [OF c'(3) s(1)] s(2) by (auto simp: is_term_def denotes_def stands_for_def)
  then show ?thesis using c(1) c'(1) by (metis prod.collapse)
qed

lemma stores_ok:
  assumes "0 < a" "0 < d"
  shows "\<forall>(x, y) \<in> set vm. uint x < 2 ^ nat a \<and> uint y < 2 ^ nat d \<and> small x \<and> small y \<Longrightarrow>
    tsort t = SArray (SBv a) (SBv d) \<Longrightarrow> \<forall>E. env_ok E \<longrightarrow> den E t = VMem m \<Longrightarrow>
    is_term tsort den (SArray (SBv a) (SBv d))
      (\<lambda>E. VMem (fold (\<lambda>(x, y) m. m(x := y)) (map (\<lambda>(x, y). (uint x, uint y)) vm) m))
      (sw_stores api (SBv a) (SBv d) vm t)"
proof (induction vm arbitrary: t m)
  case Nil
  then show ?case by (auto simp: is_term_def)
next
  case (Cons p vm)
  obtain x y where p: "p = (x, y)" by (cases p)
  obtain tx ty where tx: "sw_int api (sint x) (SBv a) = Inr tx" "tsort tx = SBv a"
      "\<forall>E. env_ok E \<longrightarrow> den E tx = VBv (uint x)"
    and ty: "sw_int api (sint y) (SBv d) = Inr ty" "tsort ty = SBv d"
      "\<forall>E. env_ok E \<longrightarrow> den E ty = VBv (uint y)"
    using int_val [of a "uint x"] int_val [of d "uint y"] assms Cons.prems(1)
    by (auto simp: is_term_def p small_sint) (auto simp: small_def)
  obtain t' where t': "sw_term api Op_Store [] [t, tx, ty] = Inr t'" "tsort t' = SArray (SBv a) (SBv d)"
      "\<forall>E. env_ok E \<longrightarrow> den E t' = VMem (m(uint x := uint y))"
    using mk [of Op_Store Storef "[]" "[t, tx, ty]" "SArray (SBv a) (SBv d)"] tx ty Cons.prems(2,3)
    by (auto simp: is_term_def smt_sig_def smt_sem_def)
  then show ?case using Cons.IH [OF _ t'(2,3)] Cons.prems(1) tx ty by (simp add: p)
qed

lemma node_const:
  assumes "const_wf (esort e) v" "const_small v" "ekind e = KConst v"
  shows "is_term tsort den (smt_sort_of (esort e)) (\<lambda>E. const_sem (esort e) v) (ExprConst2Term api e)"
proof (cases v)
  case (BoolVal b)
  then have "esort e = SortBool" using assms(1) by (auto simp: const_wf_def split: sort.splits)
  then show ?thesis using BoolVal assms(3) bool_val
    by (simp add: ExprConst2Term_def GetUidSort_def val_bool_def const_sem_def)
next
  case (BvVal x)
  then obtain w where w: "esort e = SortBv w" "0 < w" "uint x < 2 ^ nat w"
    using assms(1) by (auto simp: const_wf_def split: sort.splits)
  have "small x" using assms(2) BvVal by (simp add: const_small_def)
  then show ?thesis using w BvVal assms(3) int_val [of w "uint x"]
    by (simp add: ExprConst2Term_def GetUidSort_def val_bv_def const_sem_def small_sint) (simp add: small_def)
next
  case (MemV mv)
  then obtain a d where s: "esort e = SortMem a d" and wf: "const_wf (SortMem a d) (MemV mv)"
    using assms(1) by (auto simp: const_wf_def split: sort.splits)
  then have ad: "0 < a" "0 < d" by (auto simp: const_wf_def)
  have sm: "small (def_val mv)" "\<forall>(x, y) \<in> set (val_map mv). small x \<and> small y"
    using assms(2) MemV by (auto simp: const_small_def list_all_iff)
  obtain td where td: "sw_int api (sint (def_val mv)) (SBv d) = Inr td" "tsort td = SBv d"
      "\<forall>E. env_ok E \<longrightarrow> den E td = VBv (uint (def_val mv))"
    using int_val [of d "uint (def_val mv)"] ad wf sm(1)
    by (auto simp: is_term_def const_wf_def small_sint) (auto simp: small_def)
  obtain ta where ta: "sw_const_array api td (SArray (SBv a) (SBv d)) = Inr ta"
      "tsort ta = SArray (SBv a) (SBv d)"
      "\<forall>E. env_ok E \<longrightarrow> den E ta = VMem (\<lambda>x. if 0 \<le> x \<and> x < 2 ^ nat a then uint (def_val mv) else 0)"
    using const_arr [OF ad(1) td(2)] td(3) by (auto simp: is_term_def const_array_def)
  have "\<forall>(x, y) \<in> set (val_map mv). uint x < 2 ^ nat a \<and> uint y < 2 ^ nat d \<and> small x \<and> small y"
    using wf sm(2) by (auto simp: const_wf_def list_all_iff)
  from stores_ok [OF ad this ta(2,3)] mem_const_stores [OF wf] show ?thesis
    using MemV s assms(3) td ta
    by (simp add: ExprConst2Term_def GetUidSort_def val_mem_def const_sem_def entries_def)
qed

text \<open>The invariant of a visit: the cached terms stand for their expressions and functions, and only
  the names of cached symbols are declared.\<close>

definition made :: "('w, 't) SmtSwitchItf \<Rightarrow> (expr + Func) set" where
  "made st = Inl ` {x \<in> dom (itf_expr_map st). ekind x = KVar} \<union> Inr ` dom (itf_func_map st)"

definition inv :: "heap \<Rightarrow> string \<Rightarrow> (expr + Func) set \<Rightarrow> ('w, 't) SmtSwitchItf \<Rightarrow> bool" where
  "inv h suffix S st =
     (itf_suffix st = suffix \<and>
      (\<forall>x t. itf_expr_map st x = Some t \<longrightarrow> denotes h suffix x t) \<and>
      (\<forall>f t. itf_func_map st f = Some t \<longrightarrow>
         func_sym (sw_fname h suffix f) (map smt_sort_of (func_args f)) (smt_sort_of (func_out f)) t) \<and>
      made st \<subseteq> S \<and> declared (itf_solver st) \<subseteq> sw_name h suffix ` made st)"

definition adds :: "heap \<Rightarrow> string \<Rightarrow> (expr + Func) set \<Rightarrow> expr set \<Rightarrow> ('w, 't) SmtSwitchItf \<Rightarrow>
    ('w, 't) SmtSwitchItf result \<Rightarrow> bool" where
  "adds h suffix S D st r = (\<exists>st'. r = Inr st' \<and> inv h suffix S st' \<and>
     itf_expr_map st \<subseteq>\<^sub>m itf_expr_map st' \<and> D \<subseteq> dom (itf_expr_map st'))"

lemma fresh_name:
  assumes "inv h suffix S st" "inj_on (sw_name h suffix) S" "x \<in> S" "x \<notin> made st"
  shows "sw_name h suffix x \<notin> declared (itf_solver st)"
  using inj_on_image_mem_iff [OF assms(2,3)] assms(1,4) unfolding inv_def by blast

lemma node_var:
  assumes "heap_inv h" "node_sw h e" "wf_expr e" "ekind e = KVar" "itf_suffix st = suffix"
    "z3_vname h suffix e \<notin> declared (itf_solver st)"
  shows "\<exists>t w. ExprVar2Term api h e st = (Inr t, st\<lparr>itf_solver := w\<rparr>) \<and> denotes h suffix e t \<and>
    declared w = insert (z3_vname h suffix e) (declared (itf_solver st))"
proof -
  obtain nm where nm: "root_of h (ehost e) = Inr nm"
    using root_of_ok [OF assms(1), of "ehost e"] assms(2,4) by (auto simp: node_sw_def)
  then have name: "z3_vname h suffix e = format_name (ename e) nm suffix"
    by (simp add: z3_vname_def ok_or_empty_def)
  have ev: "eval (sw_interp h suffix E) e = env_const E (z3_vname h suffix e) (smt_sort_of (esort e))" for E
    using assms(4) by (cases e) (simp add: sw_interp_def smt_interp_def)
  obtain r w where r: "sw_symbol api (z3_vname h suffix e) (SwSort (smt_sort_of (esort e))) (itf_solver st) = (r, w)"
      "declared w = insert (z3_vname h suffix e) (declared (itf_solver st))"
      "is_term tsort den (smt_sort_of (esort e)) (\<lambda>E. env_const E (z3_vname h suffix e) (smt_sort_of (esort e))) r"
    using symbol [OF assms(6) wf_sort [OF assms(3)]] by blast
  then obtain t where "r = Inr t" "denotes h suffix e t"
    by (auto simp: is_term_def denotes_def stands_for_def ev)
  then show ?thesis
    using r nm name assms(2,4,5)
    by (auto simp: ExprVar2Term_def node_sw_def sort_plain_ok make_symbol_def intro!: exI [of _ w])
qed

lemma func_term:
  assumes "heap_inv h" "node_sw h e" "ekind e = KApp f" "itf_suffix st = suffix"
    "sw_fname h suffix f \<notin> declared (itf_solver st)"
  shows "\<exists>t w. Func2Term api h f st = (Inr t, st\<lparr>itf_solver := w\<rparr>) \<and>
    func_sym (sw_fname h suffix f) (map smt_sort_of (func_args f)) (smt_sort_of (func_out f)) t \<and>
    declared w = insert (sw_fname h suffix f) (declared (itf_solver st))"
proof -
  obtain nm where nm: "root_of h (func_host f) = Inr nm"
    using root_of_ok [OF assms(1), of "func_host f"] assms(2,3) by (auto simp: node_sw_def)
  then have name: "sw_fname h suffix f = format_name (func_name f) nm suffix"
    by (simp add: sw_fname_def ok_or_empty_def)
  have "map smt_sort_of (func_args f) \<noteq> []" using assms(2,3) by (simp add: node_sw_def)
  from fun_symbol [OF assms(5) this, of "smt_sort_of (func_out f)"]
  show ?thesis
    using nm name assms(2-4)
    by (auto simp: Func2Term_def node_sw_def sort_plain_ok sorts_plain_ok make_symbol_def)
qed

lemma app_denotes:
  assumes "wf_expr e" "ekind e = KApp f" "node_sw h e" "list_all2 (denotes h suffix) (eargs e) ts"
    "func_sym (sw_fname h suffix f) (map smt_sort_of (func_args f)) (smt_sort_of (func_out f)) t"
  shows "\<exists>r. sw_term api Op_Apply [] (t # ts) = Inr r \<and> denotes h suffix e r"
proof -
  have wf: "func_args f = map esort (eargs e)" "esort e = func_out f"
    using assms(1,2) wf_node [of e] by (auto simp: node_wf_def)
  note st = stands_for_args [OF assms(4) [unfolded denotes_def]]
  have "eval (sw_interp h suffix E) e = env_fun E (sw_fname h suffix f) (map smt_sort_of (func_args f))
      (smt_sort_of (func_out f)) (map (den E) ts)" if "env_ok E" for E
    using assms(2,3) wf st(2) [OF that] by (cases e) (auto simp: sw_interp_def smt_interp_def node_sw_def)
  then show ?thesis
    using app [OF assms(5), of ts] st(1) wf by (auto simp: is_term_def denotes_def stands_for_def)
qed

text \<open>One node whose arguments are cached.\<close>

definition grows :: "heap \<Rightarrow> string \<Rightarrow> (expr + Func) set \<Rightarrow> expr \<Rightarrow> ('w, 't) SmtSwitchItf \<Rightarrow>
    't result \<times> ('w, 't) SmtSwitchItf \<Rightarrow> bool" where
  "grows h suffix S e st r = (\<exists>t st'. r = (Inr t, st') \<and> denotes h suffix e t \<and>
     itf_expr_map st' = itf_expr_map st \<and> inv h suffix S (st'\<lparr>itf_expr_map := [e \<mapsto> t] ++ itf_expr_map st\<rparr>))"

lemma inv_add:
  assumes "inv h suffix S st" "denotes h suffix e t" "ekind e = KVar \<Longrightarrow> itf_expr_map st e = None"
    "ekind e = KVar \<Longrightarrow> Inl e \<in> S"
    "declared w \<subseteq> declared (itf_solver st) \<union> (if ekind e = KVar then {z3_vname h suffix e} else {})"
  shows "inv h suffix S (st\<lparr>itf_solver := w, itf_expr_map := [e \<mapsto> t] ++ itf_expr_map st\<rparr>)"
proof -
  let ?st = "st\<lparr>itf_solver := w, itf_expr_map := [e \<mapsto> t] ++ itf_expr_map st\<rparr>"
  have m: "made ?st = made st \<union> (if ekind e = KVar then {Inl e} else {})"
    by (auto simp: made_def)
  have "declared w \<subseteq> sw_name h suffix ` made ?st"
    using assms(1,5) by (auto simp: m inv_def sw_name_def)
  moreover have "made ?st \<subseteq> S" using assms(1,4) by (auto simp: m inv_def)
  moreover have "([e \<mapsto> t] ++ itf_expr_map st) x = Some y \<Longrightarrow> denotes h suffix x y" for x y
    using assms(1,2) by (auto simp: inv_def map_add_Some_iff split: if_splits)
  ultimately show ?thesis using assms(1) by (simp add: inv_def)
qed

lemma inv_add_func:
  assumes "inv h suffix S st" "Inr f \<in> S" "declared w = insert (sw_fname h suffix f) (declared (itf_solver st))"
    "func_sym (sw_fname h suffix f) (map smt_sort_of (func_args f)) (smt_sort_of (func_out f)) t"
  shows "inv h suffix S (st\<lparr>itf_solver := w, itf_func_map := (itf_func_map st)(f \<mapsto> t)\<rparr>)"
proof -
  let ?st = "st\<lparr>itf_solver := w, itf_func_map := (itf_func_map st)(f \<mapsto> t)\<rparr>"
  have m: "made ?st = insert (Inr f) (made st)" by (auto simp: made_def)
  then have "declared w \<subseteq> sw_name h suffix ` made ?st" "made ?st \<subseteq> S"
    using assms(1-3) by (auto simp: inv_def sw_name_def)
  then show ?thesis using assms(1,4) by (simp add: inv_def)
qed

lemma app_grows:
  assumes "heap_inv h" "wf_expr e" "node_sw h e" "inv h suffix S st" "inj_on (sw_name h suffix) S"
    "list_all2 (denotes h suffix) (eargs e) ts" "ekind e = KApp f" "Inr f \<in> S"
  shows "grows h suffix S e st (apply_func api h f ts st)"
proof -
  define ft where "ft = (\<lambda>t. func_sym (sw_fname h suffix f) (map smt_sort_of (func_args f)) (smt_sort_of (func_out f)) t)"
  have fin: "grows h suffix S e st (slift (sw_term api Op_Apply [] (t # ts)) st')"
    if st': "inv h suffix S st'" "itf_expr_map st' = itf_expr_map st" "ft t" for t st'
    using app_denotes [OF assms(2,7,3,6), of t] inv_add [OF st'(1), of e _ "itf_solver st'"] st' assms(7)
    by (auto simp: grows_def slift_def ft_def)
  show ?thesis
  proof (cases "itf_func_map st f")
    case (Some t)
    moreover have "ft t" using assms(4) Some by (simp add: inv_def ft_def)
    ultimately show ?thesis using fin [OF assms(4) refl] by (simp add: apply_func_def sbind_def)
  next
    case None
    then have "Inr f \<notin> made st" by (auto simp: made_def)
    then have "sw_fname h suffix f \<notin> declared (itf_solver st)"
      using fresh_name [OF assms(4,5) assms(8)] by (simp add: sw_name_def)
    moreover have "itf_suffix st = suffix" using assms(4) by (simp add: inv_def)
    ultimately obtain t w where t: "Func2Term api h f st = (Inr t, st\<lparr>itf_solver := w\<rparr>)" "ft t"
      "declared w = insert (sw_fname h suffix f) (declared (itf_solver st))"
      using func_term [OF assms(1,3,7), of st suffix] unfolding ft_def by blast
    from inv_add_func [OF assms(4) assms(8) t(3) t(2) [unfolded ft_def]] fin [OF _ _ t(2)]
    have "grows h suffix S e st (slift (sw_term api Op_Apply [] (t # ts))
      (st\<lparr>itf_solver := w, itf_func_map := (itf_func_map st)(f \<mapsto> t)\<rparr>))" by simp
    then show ?thesis using None t(1) by (simp add: apply_func_def sbind_def)
  qed
qed

lemma node_grows:
  assumes "heap_inv h" "wf_expr e" "node_sw h e" "inv h suffix S st" "inj_on (sw_name h suffix) S"
    "list_all2 (denotes h suffix) (eargs e) ts" "ekind e = KVar \<Longrightarrow> itf_expr_map st e = None"
    "ekind e = KVar \<Longrightarrow> Inl e \<in> S" "\<And>f. ekind e = KApp f \<Longrightarrow> Inr f \<in> S"
  shows "grows h suffix S e st (Expr2Term api h e ts st)"
proof (cases e rule: kind_cases)
  case var
  have sfx: "itf_suffix st = suffix" using assms(4) by (simp add: inv_def)
  have "Inl e \<notin> made st" using assms(7) var by (auto simp: made_def)
  then have "z3_vname h suffix e \<notin> declared (itf_solver st)"
    using fresh_name [OF assms(4,5) assms(8) [OF var]] by (simp add: sw_name_def)
  from node_var [OF assms(1,3,2) var sfx this] obtain t w where
    t: "ExprVar2Term api h e st = (Inr t, st\<lparr>itf_solver := w\<rparr>)" "denotes h suffix e t"
    "declared w = insert (z3_vname h suffix e) (declared (itf_solver st))" by blast
  then show ?thesis
    using inv_add [OF assms(4) t(2), of w] var assms(7,8) by (auto simp: grows_def Expr2Term_def)
next
  case (const v)
  then have "const_wf (esort e) v" "const_small v" 
    using assms(2,3) wf_node [of e] by (auto simp: node_wf_def node_sw_def)
  from node_const [OF this const] obtain t where "ExprConst2Term api e = Inr t" "denotes h suffix e t"
    using const by (cases e) (auto simp: is_term_def denotes_def stands_for_def)
  then show ?thesis
    using inv_add [OF assms(4), of e t "itf_solver st"] const by (auto simp: grows_def Expr2Term_def slift_def)
next
  case (opn u)
  from node_op [OF assms(2) opn assms(6), of st] obtain t
    where "ExprOp2Term api h e ts st = (Inr t, st)" "denotes h suffix e t" by blast
  then show ?thesis
    using inv_add [OF assms(4), of e t "itf_solver st"] opn by (auto simp: grows_def Expr2Term_def)
next
  case (app f)
  then show ?thesis
    using app_grows [OF assms(1-6) app] assms(9) by (simp add: Expr2Term_def ExprOp2Term_def GetUidExprOp_def)
qed

lemma post_adds:
  assumes "heap_inv h" "wf_expr e" "node_sw h e" "inv h suffix S st" "inj_on (sw_name h suffix) S"
    "set (eargs e) \<subseteq> dom (itf_expr_map st)" "ekind e = KVar \<Longrightarrow> itf_expr_map st e = None"
    "set (symbols_of e) \<subseteq> S"
  shows "adds h suffix S {e} st (sw_post api h e st)"
proof -
  let ?ts = "map (the \<circ> itf_expr_map st) (eargs e)"
  have ts: "rmap (find_term (itf_expr_map st)) (eargs e) = Inr ?ts" using find_terms [OF assms(6)] .
  have den: "list_all2 (denotes h suffix) (eargs e) ?ts"
    using assms(4,6) by (fastforce simp: list_all2_map2 list_all2_same inv_def)
  have "ekind e = KVar \<Longrightarrow> Inl e \<in> S" "ekind e = KApp f \<Longrightarrow> Inr f \<in> S" for f
    using assms(8) by (cases e; auto)+
  from node_grows [OF assms(1-5) den assms(7) this] obtain t st' where
    "Expr2Term api h e ?ts st = (Inr t, st')" "itf_expr_map st' = itf_expr_map st"
    "inv h suffix S (st'\<lparr>itf_expr_map := [e \<mapsto> t] ++ itf_expr_map st\<rparr>)" by (auto simp: grows_def)
  then show ?thesis
    by (auto simp: adds_def sw_post_def sw_PopulateExprMap_def sbind_def ts map_le_def map_add_def split: option.splits)
qed

lemma visit_adds:
  assumes "heap_inv h" "inj_on (sw_name h suffix) S"
  shows "wf_expr e \<Longrightarrow> every (node_sw h) e \<Longrightarrow> set (symbols_of e) \<subseteq> S \<Longrightarrow> inv h suffix S st \<Longrightarrow>
      adds h suffix S {e} st (DepthFirstVisitPrePost sw_pre (sw_post api h) e st)"
    and "\<forall>e \<in> set es. wf_expr e \<and> every (node_sw h) e \<and> set (symbols_of e) \<subseteq> S \<Longrightarrow> inv h suffix S st \<Longrightarrow>
      adds h suffix S (set es) st (visit_args_pp sw_pre (sw_post api h) es st)"
proof (induction "sw_pre :: expr \<Rightarrow> ('w, 't) SmtSwitchItf \<Rightarrow> bool" "sw_post api h" e st
    and "sw_pre :: expr \<Rightarrow> ('w, 't) SmtSwitchItf \<Rightarrow> bool" "sw_post api h" es st
    rule: DepthFirstVisitPrePost_visit_args_pp.induct)
  case (1 i n s q ps as k st)
  let ?e = "Expr i n s q ps as k"
  show ?case
  proof (cases "sw_pre ?e st")
    case True
    then show ?thesis using 1(5) by (auto simp: adds_def sw_pre_def)
  next
    case False
    have "\<forall>a \<in> set as. wf_expr a \<and> every (node_sw h) a \<and> set (symbols_of a) \<subseteq> S"
      using 1(2-4) by (auto simp: list_all_iff)
    from 1(1) [OF False this 1(5)] obtain st' where
      st': "visit_args_pp sw_pre (sw_post api h) as st = Inr st'" "inv h suffix S st'"
        "itf_expr_map st \<subseteq>\<^sub>m itf_expr_map st'" "set as \<subseteq> dom (itf_expr_map st')" by (auto simp: adds_def)
    have "k = KVar \<Longrightarrow> as = []" using wf_node [OF 1(2)] by (simp add: node_wf_def)
    then have "k = KVar \<Longrightarrow> itf_expr_map st' ?e = None" using False st'(1) by (auto simp: sw_pre_def)
    moreover have "node_sw h ?e" using 1(3) by (simp add: every_node)
    ultimately have "adds h suffix S {?e} st' (sw_post api h ?e st')"
      using post_adds [OF assms(1) 1(2) _ st'(2) assms(2)] st'(4) 1(4) by simp
    then show ?thesis using False st' by (auto simp: adds_def intro: map_le_trans)
  qed
next
  case (2 st)
  then show ?case by (auto simp: adds_def)
next
  case (3 a as st)
  obtain st1 where st1: "DepthFirstVisitPrePost sw_pre (sw_post api h) a st = Inr st1" "inv h suffix S st1"
    "itf_expr_map st \<subseteq>\<^sub>m itf_expr_map st1" "a \<in> dom (itf_expr_map st1)"
    using 3 by (auto simp: adds_def)
  obtain st2 where st2: "visit_args_pp sw_pre (sw_post api h) as st1 = Inr st2" "inv h suffix S st2"
    "itf_expr_map st1 \<subseteq>\<^sub>m itf_expr_map st2" "set as \<subseteq> dom (itf_expr_map st2)"
    using 3 st1(2) by (fastforce simp: adds_def)
  have "a \<in> dom (itf_expr_map st2)" using st1(4) st2(3) map_le_implies_dom_le by blast
  then show ?case using st1 st2 by (auto simp: adds_def intro: map_le_trans)
qed

lemma GetSmtTerm_denotes:
  assumes "heap_inv h" "sw_encodable h suffix e"
  shows "\<exists>st t st'. Reset api st0 = (Inr (), st) \<and> GetSmtTerm api h e suffix st = Inr (t, st') \<and> denotes h suffix e t"
proof -
  obtain w where w: "sw_reset api (itf_solver st0) = (Inr (), w)" "declared w = {}" using reset by blast
  define st where "st = st0\<lparr>itf_solver := w, itf_expr_map := Map.empty, itf_func_map := Map.empty\<rparr>"
  have "inv h suffix (set (symbols_of e)) (st\<lparr>itf_suffix := suffix\<rparr>)"
    using w(2) by (simp add: inv_def made_def st_def)
  from visit_adds(1) [OF assms(1) _ _ _ _ this, of e] assms(2) obtain st' where
    "DepthFirstVisitPrePost sw_pre (sw_post api h) e (st\<lparr>itf_suffix := suffix\<rparr>) = Inr st'"
    "inv h suffix (set (symbols_of e)) st'" "e \<in> dom (itf_expr_map st')"
    by (auto simp: adds_def sw_encodable_def)
  moreover have "Reset api st0 = (Inr (), st)" using w(1) by (simp add: Reset_def st_def is_ok_def)
  ultimately show ?thesis by (auto simp: GetSmtTerm_def inv_def)
qed

end

text \<open>The cache only grows, whatever the solver does.\<close>

definition keeps_terms :: "('w, 't, 'a) itf_op \<Rightarrow> bool" where
  "keeps_terms m = (\<forall>st. itf_expr_map (snd (m st)) = itf_expr_map st)"

lemma keeps_bind: "keeps_terms m \<Longrightarrow> (\<And>x. keeps_terms (f x)) \<Longrightarrow> keeps_terms (sbind m f)"
  by (simp add: keeps_terms_def sbind_def split: prod.splits sum.splits) (metis snd_conv)

lemma keeps_terms_basic: "keeps_terms (slift r)" "keeps_terms (make_symbol api n z)"
  "keeps_terms (\<lambda>st. make_symbol api (nm st) z st)"
  by (simp_all add: keeps_terms_def make_symbol_def split: prod.splits)

lemma keeps_Func2Term: "keeps_terms (Func2Term api h f)"
  unfolding Func2Term_def by (intro keeps_bind keeps_terms_basic)

lemma keeps_apply_func: "keeps_terms (apply_func api h f ts)"
proof -
  have "keeps_terms (sbind (Func2Term api h f) (\<lambda>t st. (Inr t, st\<lparr>itf_func_map := (itf_func_map st)(f \<mapsto> t)\<rparr>)))"
    by (intro keeps_bind keeps_Func2Term) (simp add: keeps_terms_def)
  then show ?thesis
    unfolding apply_func_def
    by (intro keeps_bind keeps_terms_basic) (simp add: keeps_terms_def split: option.splits)
qed

lemma keeps_ExprOp2Term: "keeps_terms (ExprOp2Term api h e ts)"
  unfolding ExprOp2Term_def
  by (intro keeps_bind keeps_terms_basic) (simp add: keeps_terms_basic keeps_apply_func split: AstUidExprOp.splits ekind.splits)

lemma keeps_Expr2Term: "keeps_terms (Expr2Term api h e ts)"
  by (simp add: Expr2Term_def ExprVar2Term_def keeps_bind keeps_terms_basic keeps_ExprOp2Term)

lemma post_grows:
  assumes "sw_post api h e st = Inr st'"
  shows "itf_expr_map st \<subseteq>\<^sub>m itf_expr_map st'"
proof -
  have "itf_expr_map st \<subseteq>\<^sub>m itf_expr_map (snd (sw_PopulateExprMap api h e st))"
  proof (cases "rmap (find_term (itf_expr_map st)) (eargs e)")
    case (Inr ts)
    obtain r st1 where r: "Expr2Term api h e ts st = (r, st1)" by fastforce
    have "itf_expr_map st1 = itf_expr_map st" using keeps_Expr2Term [of api h e ts] r by (metis keeps_terms_def snd_conv)
    then show ?thesis
      using r Inr by (cases r) (auto simp: sw_PopulateExprMap_def sbind_def map_le_def map_add_def split: option.splits)
  qed (simp add: sw_PopulateExprMap_def sbind_def)
  moreover have "snd (sw_PopulateExprMap api h e st) = st'"
    using assms by (auto simp: sw_post_def split: prod.splits sum.splits error.splits)
  ultimately show ?thesis by simp
qed

lemma visit_grows:
  "DepthFirstVisitPrePost sw_pre (sw_post api h) e st = Inr st' \<Longrightarrow> itf_expr_map st \<subseteq>\<^sub>m itf_expr_map st'"
  "visit_args_pp sw_pre (sw_post api h) es st = Inr st' \<Longrightarrow> itf_expr_map st \<subseteq>\<^sub>m itf_expr_map st'"
proof (induction "sw_pre :: expr \<Rightarrow> ('a, 'b) SmtSwitchItf \<Rightarrow> bool" "sw_post api h" e st
    and "sw_pre :: expr \<Rightarrow> ('a, 'b) SmtSwitchItf \<Rightarrow> bool" "sw_post api h" es st
    arbitrary: st' and st' rule: DepthFirstVisitPrePost_visit_args_pp.induct)
  case (1 i n s q ps as k st)
  then show ?case
    by (auto simp: rbind_Inr_conv split: if_splits dest!: post_grows intro: map_le_trans)
next
  case (2 st)
  then show ?case by simp
next
  case (3 a as st)
  then show ?case by (fastforce simp: rbind_Inr_conv intro: map_le_trans)
qed

lemma GetSmtTerm_grows:
  assumes "GetSmtTerm api h e suffix st = Inr (t, st')"
  shows "itf_expr_map st \<subseteq>\<^sub>m itf_expr_map st'" "itf_expr_map st' e = Some t"
  using assms by (auto simp: GetSmtTerm_def rbind_Inr_conv split: option.splits dest!: visit_grows(1))

lemma GetSmtTerm_cached:
  "itf_expr_map st e = Some t \<Longrightarrow> GetSmtTerm api h e suffix st = Inr (t, st\<lparr>itf_suffix := suffix\<rparr>)"
  by (cases e) (simp add: GetSmtTerm_def sw_pre_def)

section \<open>A model of the interface\<close>

text \<open>Terms are pairs of a sort and a meaning, or function symbols; a solver is the list of its
  declared names.\<close>

datatype sw_model_term = SwVal smt_sort "smt_env \<Rightarrow> sval" | SwSym string "smt_sort list" smt_sort

fun sw_model_sort :: "sw_model_term \<Rightarrow> smt_sort" where
  "sw_model_sort (SwVal s v) = s"
| "sw_model_sort (SwSym n ss s) = s"

fun sw_model_den :: "smt_env \<Rightarrow> sw_model_term \<Rightarrow> sval" where
  "sw_model_den E (SwVal s v) = v E"
| "sw_model_den E (SwSym n ss s) = VErr"

definition sw_model_symbol ::
  "string \<Rightarrow> sw_sort \<Rightarrow> string list \<Rightarrow> sw_model_term result \<times> string list" where
  "sw_model_symbol n z w =
     (if n \<in> set w then (Inl LibException, w)
      else case z of SwSort s \<Rightarrow> (Inr (SwVal s (\<lambda>E. env_const E n s)), n # w)
        | SwFun ss s \<Rightarrow> (Inr (SwSym n ss s), n # w))"

definition sw_model_mk :: "PrimOp \<Rightarrow> int list \<Rightarrow> sw_model_term list \<Rightarrow> sw_model_term result" where
  "sw_model_mk p ps ts = (case (sw_smt p, ts) of
       (Some f, _) \<Rightarrow> (case smt_sig f ps (map sw_model_sort ts) of
           None \<Rightarrow> Inl LibException
         | Some s \<Rightarrow> Inr (SwVal s (\<lambda>E. smt_sem f ps (map sw_model_sort ts) (map (sw_model_den E) ts))))
     | (None, SwSym n ss s # as) \<Rightarrow>
         (if map sw_model_sort as = ss then Inr (SwVal s (\<lambda>E. env_fun E n ss s (map (sw_model_den E) as)))
          else Inl LibException)
     | _ \<Rightarrow> Inl LibException)"

definition sw_model :: "(string list, sw_model_term) smt_solver" where
  "sw_model =
     \<lparr>sw_reset = (\<lambda>w. (Inr (), [])),
      sw_symbol = sw_model_symbol,
      sw_bool = (\<lambda>b. Inr (SwVal SBool (\<lambda>E. VBool b))),
      sw_int = (\<lambda>i s. case s of SBv w \<Rightarrow> Inr (SwVal s (\<lambda>E. VBv (i mod 2 ^ nat w))) | _ \<Rightarrow> Inl LibException),
      sw_const_array = (\<lambda>t s. case s of
         SArray (SBv a) d \<Rightarrow> (if sw_model_sort t = d then Inr (SwVal s (\<lambda>E. const_array a (sw_model_den E t)))
           else Inl LibException)
       | _ \<Rightarrow> Inl LibException),
      sw_term = sw_model_mk\<rparr>"

interpretation swm: sw_backend sw_model sw_model_sort sw_model_den set "\<lambda>n ss s t. t = SwSym n ss s"
  by unfold_locales
    (auto simp: sw_model_def sw_model_symbol_def sw_model_mk_def is_term_def split: option.splits)

section \<open>Properties\<close>

text \<open>C6: The smt-switch translation is sound and complete after a reset. With a solver that behaves as
  documented, on a heap that satisfies the invariant, for every well-formed expression whose
  symbols have different names, whose constants are below $2^{63}$ and whose functions have arguments,
  \<^verbatim>\<open>GetSmtTerm\<close> returns a term (no symbol is declared twice, no exception is lost); it has
  the sort of the expression and its value under every assignment of the generated names.\<close>

theorem smt_switch_translation:
  assumes "sw_backend api tsort den declared func_sym" "heap_inv h" "sw_encodable h suffix e"
  shows "\<exists>st t st'. Reset api st0 = (Inr (), st) \<and> GetSmtTerm api h e suffix st = Inr (t, st') \<and>
    tsort t = smt_sort_of (esort e) \<and> (\<forall>E. env_ok E \<longrightarrow> den E t = eval (sw_interp h suffix E) e)"
  using sw_backend.GetSmtTerm_denotes [OF assms, of st0]
  by (simp add: sw_backend.denotes_def [OF assms(1)] stands_for_def)

text \<open>The sum of a variable and a constant, in the model of the interface.\<close>

lemma sum_x9_encodable: "sw_encodable empty_heap suffix sum_x9"
  by (simp add: sw_encodable_def sum_x9_def sub_x_def const9_def node_wf_def const_wf_def op_sort_def
      same_sort_def sem_ok_def node_sw_def sort_plain_def const_small_def small_def)

theorem smt_switch_translation_witness:
  "\<exists>st t st'. Reset sw_model (SmtSwitchItf_new [''old'']) = (Inr (), st) \<and>
    GetSmtTerm sw_model empty_heap sum_x9 ''0_'' st = Inr (t, st') \<and>
    sw_model_sort t = SBv 4 \<and> sw_model_den zero_env t = VBv 9"
proof -
  have "eval (sw_interp empty_heap ''0_'' zero_env) sum_x9 = VBv 9"
    by (simp add: sum_x9_def sub_x_def const9_def sw_interp_def smt_interp_def zero_env_def smt_zero_def
        const_sem_def op_sem_def bv2_def)
  moreover have "smt_sort_of (esort sum_x9) = SBv 4" by (simp add: sum_x9_def)
  ultimately show ?thesis
    using smt_switch_translation [OF swm.sw_backend_axioms heap_inv_empty sum_x9_encodable [of "''0_''"],
        of "SmtSwitchItf_new [''old'']"] zero_env_ok by metis
qed

end
