(* ===== verification/UnrollerSmt.thy ===== *)
theory UnrollerSmt
  imports AbsKnob SmtSwitch
begin

text \<open>
  Unrolling an instruction sequence to one SMT formula: the shim over the SMT back ends
  (include/ilang/target-smt/smt\_shim.h), the base class \<^verbatim>\<open>UnrollerSmt\<close> and its subclass
  \<^verbatim>\<open>PathUnroller\<close> (include/ilang/ila-mngr/u\_unroller\_smt.h, src/ila-mngr/u\_unroller\_smt.cc).

  The template parameter is a record of the operations the unroller calls on the generator; the
  generator may keep a state (its caches). The two virtual functions of the base class are
  parameters of \<open>Unroll_base\<close>. Step numbers are \<^verbatim>\<open>size_t\<close>, printed modulo $2^{64}$.
\<close>

section \<open>The shim\<close>

record ('g, 't) SmtShim =
  GetShimExpr :: "heap \<Rightarrow> expr \<Rightarrow> string \<Rightarrow> 'g \<Rightarrow> ('t \<times> 'g) result"
  BoolAnd :: "'t \<Rightarrow> 't \<Rightarrow> 't result"
  Equal :: "'t \<Rightarrow> 't \<Rightarrow> 't result"

text \<open>The Z3 adapter clears its cache at every call, so it needs no state.\<close>

definition z3_shim :: "'t z3_api \<Rightarrow> (unit, 't) SmtShim" where
  "z3_shim ctx =
     \<lparr>GetShimExpr = (\<lambda>h e suffix g. rbind (GetExpr ctx h e suffix) (\<lambda>t. Inr (t, ()))),
      BoolAnd = z3_BoolAnd ctx, Equal = z3_Equal ctx\<rparr>"

text \<open>The smt-switch interface keeps its caches.\<close>

definition sw_shim :: "('w, 't) smt_solver \<Rightarrow> (('w, 't) SmtSwitchItf, 't) SmtShim" where
  "sw_shim api =
     \<lparr>GetShimExpr = GetSmtTerm api, BoolAnd = sw_BoolAnd api, Equal = sw_Equal api\<rparr>"

section \<open>UnrollerSmt\<close>

record UnrollerSmt =
  unroller_suffix :: string
  global_pred :: ExprSet
  initial_pred :: ExprSet
  step_pred :: "nat \<Rightarrow> ExprSet option"
  deciding_vars :: "expr list"
  update_holder :: "expr list"
  assert_holder :: "expr list"

definition UnrollerSmt_new :: "string \<Rightarrow> UnrollerSmt" where
  "UnrollerSmt_new suffix =
     \<lparr>unroller_suffix = suffix, global_pred = [], initial_pred = [], step_pred = Map.empty,
      deciding_vars = [], update_holder = [], assert_holder = []\<rparr>"

definition AssertGlobal :: "expr \<Rightarrow> UnrollerSmt \<Rightarrow> UnrollerSmt" where
  "AssertGlobal p u = u\<lparr>global_pred := es_insert p (global_pred u)\<rparr>"

definition AssertInitial :: "expr \<Rightarrow> UnrollerSmt \<Rightarrow> UnrollerSmt" where
  "AssertInitial p u = u\<lparr>initial_pred := es_insert p (initial_pred u)\<rparr>"

text \<open>\<^verbatim>\<open>step_pred_[k]\<close>: a missing entry is an empty set.\<close>

definition step_at :: "UnrollerSmt \<Rightarrow> nat \<Rightarrow> ExprSet" where
  "step_at u k = (case step_pred u k of None \<Rightarrow> [] | Some ps \<Rightarrow> ps)"

definition AssertStep :: "expr \<Rightarrow> int \<Rightarrow> UnrollerSmt \<Rightarrow> UnrollerSmt" where
  "AssertStep p k u =
     (let k = nat (k mod 2 ^ 64) in u\<lparr>step_pred := (step_pred u)(k \<mapsto> es_insert p (step_at u k))\<rparr>)"

definition ClearGlobalAssertion :: "UnrollerSmt \<Rightarrow> UnrollerSmt" where
  "ClearGlobalAssertion u = u\<lparr>global_pred := []\<rparr>"

definition ClearInitialAssertion :: "UnrollerSmt \<Rightarrow> UnrollerSmt" where
  "ClearInitialAssertion u = u\<lparr>initial_pred := []\<rparr>"

definition ClearStepAssertion :: "UnrollerSmt \<Rightarrow> UnrollerSmt" where
  "ClearStepAssertion u = u\<lparr>step_pred := Map.empty\<rparr>"

definition SuffixCurrent :: "UnrollerSmt \<Rightarrow> nat \<Rightarrow> string" where
  "SuffixCurrent u t = to_string (t mod 2 ^ 64) @ ''_'' @ unroller_suffix u"

definition SuffixNext :: "UnrollerSmt \<Rightarrow> nat \<Rightarrow> string" where
  "SuffixNext u t = to_string (t mod 2 ^ 64) @ ''_'' @ unroller_suffix u @ ''.nxt''"

text \<open>The generator and its state in the monad of the heap.\<close>

definition shim_expr :: "('g, 't) SmtShim \<Rightarrow> expr \<Rightarrow> string \<Rightarrow> 'g \<Rightarrow> ('t \<times> 'g) M" where
  "shim_expr smt_gen e suffix g = (\<lambda>h. rbind (GetShimExpr smt_gen h e suffix g) (\<lambda>r. Inr (r, h)))"

definition GetSmtCurrent :: "('g, 't) SmtShim \<Rightarrow> UnrollerSmt \<Rightarrow> expr \<Rightarrow> nat \<Rightarrow> 'g \<Rightarrow> ('t \<times> 'g) M" where
  "GetSmtCurrent smt_gen u e k = shim_expr smt_gen e (SuffixCurrent u k)"

definition GetSmtNext :: "('g, 't) SmtShim \<Rightarrow> UnrollerSmt \<Rightarrow> expr \<Rightarrow> nat \<Rightarrow> 'g \<Rightarrow> ('t \<times> 'g) M" where
  "GetSmtNext smt_gen u e k = shim_expr smt_gen e (SuffixNext u k)"

definition InterpIlaExprAndAppend ::
  "('g, 't) SmtShim \<Rightarrow> expr list \<Rightarrow> string \<Rightarrow> 't list \<times> 'g \<Rightarrow> ('t list \<times> 'g) M" where
  "InterpIlaExprAndAppend smt_gen ila_expr_src suffix =
     foldM (\<lambda>e (dst, g). bnd (shim_expr smt_gen e suffix g) (\<lambda>(t, g). ret (dst @ [t], g))) ila_expr_src"

definition ElementWiseEqualAndAppend :: "('g, 't) SmtShim \<Rightarrow> 't list \<Rightarrow> 't list \<Rightarrow> 't list \<Rightarrow> 't list M" where
  "ElementWiseEqualAndAppend smt_gen a b smt_expr_dst =
     bnd (ila_assert (length a = length b) ''a.size() == b.size()'') (\<lambda>_.
     foldM (\<lambda>(x, y) dst. bnd (lift (Equal smt_gen x y)) (\<lambda>t. ret (dst @ [t]))) (zip a b) smt_expr_dst)"

definition ConjunctAll :: "('g, 't) SmtShim \<Rightarrow> 't list \<times> 'g \<Rightarrow> ('t \<times> 'g) M" where
  "ConjunctAll smt_gen = (\<lambda>(v, g).
     bnd (BoolConst True) (\<lambda>c.
     bnd (shim_expr smt_gen c [] g) (\<lambda>(conjunct_holder, g).
     bnd (foldM (\<lambda>e acc. lift (BoolAnd smt_gen acc e)) v conjunct_holder) (\<lambda>t. ret (t, g)))))"

text \<open>One iteration of the loop of \<^verbatim>\<open>Unroll_\<close>.\<close>

definition Unroll_step ::
  "('g, 't) SmtShim \<Rightarrow> (nat \<Rightarrow> UnrollerSmt \<Rightarrow> UnrollerSmt M) \<Rightarrow> nat \<Rightarrow> nat \<Rightarrow>
   UnrollerSmt \<times> 't list \<times> 'g \<Rightarrow> (UnrollerSmt \<times> 't list \<times> 'g) M" where
  "Unroll_step smt_gen MakeOneTransition begin i = (\<lambda>(u, st).
     let suffix = SuffixCurrent u (begin + i); suffix_next = SuffixCurrent u (begin + i + 1) in
     bnd (MakeOneTransition i u) (\<lambda>u.
     bnd (InterpIlaExprAndAppend smt_gen (global_pred u) suffix st) (\<lambda>st.
     bnd (InterpIlaExprAndAppend smt_gen (step_at u i) suffix st) (\<lambda>st.
     bnd (InterpIlaExprAndAppend smt_gen (assert_holder u) suffix st) (\<lambda>st.
     bnd (if i = 0 then InterpIlaExprAndAppend smt_gen (initial_pred u) suffix st else ret st) (\<lambda>(smt_holder, g).
     bnd (InterpIlaExprAndAppend smt_gen (update_holder u) suffix ([], g)) (\<lambda>(smt_next_val, g).
     bnd (InterpIlaExprAndAppend smt_gen (deciding_vars u) suffix_next ([], g)) (\<lambda>(smt_next_var, g).
     bnd (ElementWiseEqualAndAppend smt_gen smt_next_val smt_next_var smt_holder) (\<lambda>smt_holder.
     ret (u, smt_holder, g))))))))))"

definition Unroll_base ::
  "('g, 't) SmtShim \<Rightarrow> (UnrollerSmt \<Rightarrow> UnrollerSmt M) \<Rightarrow> (nat \<Rightarrow> UnrollerSmt \<Rightarrow> UnrollerSmt M) \<Rightarrow>
   nat \<Rightarrow> nat \<Rightarrow> UnrollerSmt \<Rightarrow> 'g \<Rightarrow> (('t \<times> 'g) \<times> UnrollerSmt) M" where
  "Unroll_base smt_gen SetDecidingVars MakeOneTransition len begin u g =
     bnd (SetDecidingVars (u\<lparr>deciding_vars := [], update_holder := [], assert_holder := []\<rparr>)) (\<lambda>u.
     bnd (ila_assert (deciding_vars u \<noteq> []) ''!deciding_vars_.empty()'') (\<lambda>_.
     bnd (foldM (Unroll_step smt_gen MakeOneTransition begin) [0 ..< len] (u, [], g)) (\<lambda>(u, st).
     let suffix = SuffixCurrent u len in
     bnd (InterpIlaExprAndAppend smt_gen (global_pred u) suffix st) (\<lambda>st.
     bnd (InterpIlaExprAndAppend smt_gen (step_at u len) suffix st) (\<lambda>st.
     bnd (ConjunctAll smt_gen st) (\<lambda>t. ret (t, u)))))))"

section \<open>PathUnroller\<close>

definition SetDecidingVars :: "nat list \<Rightarrow> UnrollerSmt \<Rightarrow> UnrollerSmt M" where
  "SetDecidingVars iseq u =
     bnd (foldM InsertStt_instr iseq []) (\<lambda>unique_vars. ret (u\<lparr>deciding_vars := unique_vars\<rparr>))"

definition CompleteStateUpdate :: "Instr \<Rightarrow> expr \<Rightarrow> expr" where
  "CompleteStateUpdate x s = (case update_var x s of None \<Rightarrow> s | Some e \<Rightarrow> e)"

definition MakeOneTransition :: "nat list \<Rightarrow> nat \<Rightarrow> UnrollerSmt \<Rightarrow> UnrollerSmt M" where
  "MakeOneTransition iseq idx u =
     bnd (ila_assert (idx < length iseq) ''idx < seq_.size()'') (\<lambda>_.
     bnd (get_instr (iseq ! idx)) (\<lambda>x.
     bnd (not_null (instr_decode x)) (\<lambda>decode.
     ret (u\<lparr>update_holder := map (CompleteStateUpdate x) (deciding_vars u), assert_holder := [decode]\<rparr>))))"

definition Unroll ::
  "('g, 't) SmtShim \<Rightarrow> nat list \<Rightarrow> nat \<Rightarrow> UnrollerSmt \<Rightarrow> 'g \<Rightarrow> (('t \<times> 'g) \<times> UnrollerSmt) M" where
  "Unroll smt_gen iseq begin u g =
     Unroll_base smt_gen (SetDecidingVars iseq) (MakeOneTransition iseq) (length iseq) begin u g"

text \<open>The variant that leaves the steps unconnected is not implemented: its check always fails.\<close>

definition UnrollWithStepsUnconnected ::
  "('g, 't) SmtShim \<Rightarrow> nat list \<Rightarrow> nat \<Rightarrow> UnrollerSmt \<Rightarrow> 'g \<Rightarrow> (('t \<times> 'g) \<times> UnrollerSmt) M" where
  "UnrollWithStepsUnconnected smt_gen iseq begin u g = lift (Inl (IlaCheck ''Not implemented''))"

section \<open>Executions\<close>

text \<open>What the formula should say. A run assigns an interpretation to every step. At a step the
  decode function of its instruction holds, and every state variable has in the next step the value
  of its update, or keeps its value; the asserted predicates hold.\<close>

definition holds :: "interp \<Rightarrow> expr \<Rightarrow> bool" where
  "holds I e = (eval I e = VBool True)"

definition exec_step :: "Instr \<Rightarrow> expr set \<Rightarrow> interp \<Rightarrow> interp \<Rightarrow> bool" where
  "exec_step x V I J =
     ((\<forall>d. instr_decode x = Some d \<longrightarrow> holds I d) \<and>
      (\<forall>s \<in> V. eval J s = (case update x (ename s) of Some e \<Rightarrow> eval I e | None \<Rightarrow> eval I s)))"

definition asserted :: "UnrollerSmt \<Rightarrow> nat \<Rightarrow> interp \<Rightarrow> bool" where
  "asserted u i I = ((\<forall>p \<in> set (global_pred u). holds I p) \<and> (\<forall>p \<in> set (step_at u i). holds I p))"

definition path_holds :: "UnrollerSmt \<Rightarrow> Instr list \<Rightarrow> expr set \<Rightarrow> (nat \<Rightarrow> interp) \<Rightarrow> interp \<Rightarrow> bool" where
  "path_holds u xs V tr fin =
     ((\<forall>i < length xs. asserted u i (tr i) \<and> (i = 0 \<longrightarrow> (\<forall>p \<in> set (initial_pred u). holds (tr i) p)) \<and>
         exec_step (xs ! i) V (tr i) (tr (Suc i))) \<and>
      asserted u (length xs) fin)"

text \<open>The instruction objects of a sequence and the states of their hosts.\<close>

definition instr_list :: "heap \<Rightarrow> nat list \<Rightarrow> Instr list" where
  "instr_list h iseq = map (\<lambda>i. the (instrs h i)) iseq"

definition host_states :: "heap \<Rightarrow> nat \<Rightarrow> expr list" where
  "host_states h i = vec (ila_states (the (ilas h (the (instr_host (the (instrs h i)))))))"

definition seq_states :: "heap \<Rightarrow> nat list \<Rightarrow> expr set" where
  "seq_states h iseq = (\<Union>i \<in> set iseq. set (host_states h i))"

definition bool_pred :: "(heap \<Rightarrow> expr \<Rightarrow> bool) \<Rightarrow> heap \<Rightarrow> expr \<Rightarrow> bool" where
  "bool_pred enc h e = (enc h e \<and> esort e = SortBool)"

text \<open>Sequences that can be unrolled: the instructions have a host and a decode function, the
  updates have the sort of their state, and every expression is one the generator accepts.\<close>

definition instr_enc :: "(heap \<Rightarrow> expr \<Rightarrow> bool) \<Rightarrow> heap \<Rightarrow> expr set \<Rightarrow> nat \<Rightarrow> bool" where
  "instr_enc enc h V i =
     (\<exists>x p m d. instrs h i = Some x \<and> instr_host x = Some p \<and> ilas h p = Some m \<and>
        instr_decode x = Some d \<and> bool_pred enc h d \<and>
        (\<forall>s \<in> V. \<forall>e. update x (ename s) = Some e \<longrightarrow> enc h e \<and> esort e = esort s))"

definition unrollable :: "(heap \<Rightarrow> expr \<Rightarrow> bool) \<Rightarrow> heap \<Rightarrow> nat list \<Rightarrow> UnrollerSmt \<Rightarrow> bool" where
  "unrollable enc h iseq u =
     (heap_inv h \<and> seq_states h iseq \<noteq> {} \<and> (\<forall>s \<in> seq_states h iseq. enc h s) \<and>
      (\<forall>i \<in> set iseq. instr_enc enc h (seq_states h iseq) i) \<and>
      (\<forall>p \<in> set (global_pred u) \<union> set (initial_pred u). bool_pred enc h p) \<and>
      (\<forall>k. \<forall>p \<in> set (step_at u k). bool_pred enc h p))"

text \<open>The fields the loop changes do not matter for the predicates.\<close>

lemma holder_simps:
  "step_at (u\<lparr>update_holder := a, assert_holder := b\<rparr>) = step_at u"
  "SuffixCurrent (u\<lparr>update_holder := a, assert_holder := b\<rparr>) = SuffixCurrent u"
  "asserted (u\<lparr>update_holder := a, assert_holder := b\<rparr>) = asserted u"
  "step_at (u\<lparr>deciding_vars := vs\<rparr>) = step_at u" "SuffixCurrent (u\<lparr>deciding_vars := vs\<rparr>) = SuffixCurrent u"
  "step_at (u\<lparr>deciding_vars := vs, update_holder := a, assert_holder := b\<rparr>) = step_at u"
  "SuffixCurrent (u\<lparr>deciding_vars := vs, update_holder := a, assert_holder := b\<rparr>) = SuffixCurrent u"
  by (simp_all add: fun_eq_iff step_at_def SuffixCurrent_def asserted_def)

lemma unrollable_holders [simp]:
  "unrollable enc h iseq (u\<lparr>update_holder := a, assert_holder := b\<rparr>) = unrollable enc h iseq u"
  by (simp add: unrollable_def holder_simps)

lemma foldM_append: "foldM f (xs @ ys) s = bnd (foldM f xs s) (foldM f ys)"
proof (induction xs arbitrary: s)
  case (Cons x xs)
  have "foldM f (xs @ ys) = (\<lambda>s. bnd (foldM f xs s) (foldM f ys))" using Cons by blast
  then show ?case by (simp add: bnd_assoc)
qed simp

lemma seq_states_run:
  "\<forall>i \<in> set iseq. \<exists>x p m. instrs h i = Some x \<and> instr_host x = Some p \<and> ilas h p = Some m \<Longrightarrow>
   \<exists>vs'. foldM InsertStt_instr iseq vs h = Inr (vs', h) \<and> set vs' = set vs \<union> seq_states h iseq"
proof (induction iseq arbitrary: vs)
  case (Cons i iseq)
  then obtain x p m where x: "instrs h i = Some x" "instr_host x = Some p" "ilas h p = Some m" by auto
  then have "InsertStt_instr i vs h = Inr (fold es_insert (host_states h i) vs, h)"
    by (simp add: InsertStt_instr_def InsertStt_def host_states_def monad_simps)
  with Cons.IH [of "fold es_insert (host_states h i) vs"] Cons.prems show ?case
    by (auto simp: seq_states_def)
qed (simp add: seq_states_def)

lemma instr_enc_host:
  "\<forall>i \<in> set iseq. instr_enc enc h V i \<Longrightarrow>
   \<forall>i \<in> set iseq. \<exists>x p m. instrs h i = Some x \<and> instr_host x = Some p \<and> ilas h p = Some m"
  unfolding instr_enc_def by blast

section \<open>The contract of a generator\<close>

locale smt_generator =
  fixes smt_gen :: "('g, 't) SmtShim" and tsort :: "'t \<Rightarrow> smt_sort" and den :: "smt_env \<Rightarrow> 't \<Rightarrow> sval"
    and ginv :: "'g \<Rightarrow> bool" and enc :: "heap \<Rightarrow> expr \<Rightarrow> bool"
    and meaning :: "heap \<Rightarrow> string \<Rightarrow> smt_env \<Rightarrow> interp"
  assumes gen_expr: "heap_inv h \<Longrightarrow> enc h e \<Longrightarrow> ginv g \<Longrightarrow>
      \<exists>t g'. GetShimExpr smt_gen h e suffix g = Inr (t, g') \<and> ginv g' \<and> tsort t = smt_sort_of (esort e) \<and>
        (\<forall>E. env_ok E \<longrightarrow> den E t = eval (meaning h suffix E) e)"
    and gen_and: "tsort a = SBool \<Longrightarrow> tsort b = SBool \<Longrightarrow>
      is_term tsort den SBool (\<lambda>E. bool2 (\<and>) [den E a, den E b]) (BoolAnd smt_gen a b)"
    and gen_eq: "tsort a = tsort b \<Longrightarrow>
      is_term tsort den SBool (\<lambda>E. VBool (den E a = den E b)) (Equal smt_gen a b)"
    and enc_wf: "enc h e \<Longrightarrow> wf_expr e"
    and enc_true: "enc h (Expr i n SortBool None [] [] (KConst (BoolVal True)))"
    and meaning_ok: "env_ok E \<Longrightarrow> interp_ok (meaning h suffix E)"
begin

definition stands :: "heap \<Rightarrow> string \<Rightarrow> expr \<Rightarrow> 't \<Rightarrow> bool" where
  "stands h suffix e t =
     (tsort t = smt_sort_of (esort e) \<and> (\<forall>E. env_ok E \<longrightarrow> den E t = eval (meaning h suffix E) e))"

text \<open>A list of Boolean terms whose conjunction says \<open>P\<close>.\<close>

definition says :: "'t list \<Rightarrow> (smt_env \<Rightarrow> bool) \<Rightarrow> bool" where
  "says ts P =
     ((\<forall>t \<in> set ts. tsort t = SBool) \<and>
      (\<forall>E. env_ok E \<longrightarrow> (\<forall>t \<in> set ts. \<exists>b. den E t = VBool b) \<and> ((\<forall>t \<in> set ts. den E t = VBool True) \<longleftrightarrow> P E)))"

lemma says_Nil: "says [] (\<lambda>E. True)"
  by (simp add: says_def)

lemma says_append: "says ts P \<Longrightarrow> says us Q \<Longrightarrow> says (ts @ us) (\<lambda>E. P E \<and> Q E)"
  by (auto simp: says_def)

lemma says_cong: "says ts P \<Longrightarrow> (\<And>E. env_ok E \<Longrightarrow> P E \<longleftrightarrow> Q E) \<Longrightarrow> says ts Q"
  by (simp add: says_def)

lemma interp_append:
  "heap_inv h \<Longrightarrow> \<forall>e \<in> set es. enc h e \<Longrightarrow> ginv g \<Longrightarrow>
   \<exists>ts g'. InterpIlaExprAndAppend smt_gen es suffix (dst, g) h = Inr ((dst @ ts, g'), h) \<and> ginv g' \<and>
     list_all2 (stands h suffix) es ts"
proof (induction es arbitrary: dst g)
  case Nil
  then show ?case by (simp add: InterpIlaExprAndAppend_def)
next
  case (Cons e es)
  obtain t g1 where t: "GetShimExpr smt_gen h e suffix g = Inr (t, g1)" "ginv g1" "stands h suffix e t"
    using gen_expr [of h e g suffix] Cons.prems by (auto simp: stands_def)
  obtain ts g2 where "InterpIlaExprAndAppend smt_gen es suffix (dst @ [t], g1) h = Inr ((dst @ t # ts, g2), h)"
    "ginv g2" "list_all2 (stands h suffix) es ts"
    using Cons.IH [of g1 "dst @ [t]"] Cons.prems t(2) by auto
  then show ?case using t
    by (intro exI [of _ "t # ts"] exI [of _ g2])
       (auto simp: InterpIlaExprAndAppend_def shim_expr_def monad_simps)
qed

lemma stands_says:
  assumes "list_all2 (stands h suffix) es ts" "\<forall>e \<in> set es. bool_pred enc h e"
  shows "says ts (\<lambda>E. \<forall>e \<in> set es. holds (meaning h suffix E) e)"
  using assms
proof (induction rule: list_all2_induct)
  case Nil
  then show ?case by (simp add: says_def)
next
  case (Cons e es t ts)
  have "\<exists>b. eval (meaning h suffix E) e = VBool b" if "env_ok E" for E
    using Cons.prems that wf_bool_val [OF enc_wf meaning_ok] by (auto simp: bool_pred_def)
  then have "says [t] (\<lambda>E. holds (meaning h suffix E) e)"
    using Cons by (auto simp: says_def stands_def holds_def bool_pred_def)
  from says_append [OF this Cons.IH] Cons.prems show ?case by simp
qed

lemma pred_append:
  assumes "heap_inv h" "\<forall>e \<in> set es. bool_pred enc h e" "ginv g" "says dst P"
  shows "\<exists>ts g'. InterpIlaExprAndAppend smt_gen es suffix (dst, g) h = Inr ((ts, g'), h) \<and> ginv g' \<and>
     says ts (\<lambda>E. P E \<and> (\<forall>e \<in> set es. holds (meaning h suffix E) e))"
proof -
  have "\<forall>e \<in> set es. enc h e" using assms(2) by (simp add: bool_pred_def)
  then obtain ts g' where t: "InterpIlaExprAndAppend smt_gen es suffix (dst, g) h = Inr ((dst @ ts, g'), h)"
    "ginv g'" "list_all2 (stands h suffix) es ts"
    using interp_append [OF assms(1) _ assms(3)] by blast
  with says_append [OF assms(4) stands_says [OF t(3) assms(2)]] show ?thesis by blast
qed

lemma equal_append:
  assumes "list_all2 (\<lambda>a b. tsort a = tsort b) as bs"
  shows "says dst P \<Longrightarrow> \<exists>ts. ElementWiseEqualAndAppend smt_gen as bs dst h = Inr (ts, h) \<and>
     says ts (\<lambda>E. P E \<and> list_all2 (\<lambda>a b. den E a = den E b) as bs)"
  using assms
proof (induction arbitrary: dst P rule: list_all2_induct)
  case Nil
  then show ?case by (simp add: ElementWiseEqualAndAppend_def monad_simps)
next
  case (Cons a as b bs)
  obtain t where t: "Equal smt_gen a b = Inr t" "says [t] (\<lambda>E. den E a = den E b)"
    using gen_eq [OF Cons.hyps(1)] by (auto simp: is_term_def says_def)
  from Cons.IH [OF says_append [OF Cons.prems t(2)]] obtain ts where
    ts: "ElementWiseEqualAndAppend smt_gen as bs (dst @ [t]) h = Inr (ts, h)"
      "says ts (\<lambda>E. (P E \<and> den E a = den E b) \<and> list_all2 (\<lambda>a b. den E a = den E b) as bs)" by blast
  then have "ElementWiseEqualAndAppend smt_gen (a # as) (b # bs) dst h = Inr (ts, h)"
    using t(1) by (simp add: ElementWiseEqualAndAppend_def)
  moreover have "says ts (\<lambda>E. P E \<and> list_all2 (\<lambda>a b. den E a = den E b) (a # as) (b # bs))"
    by (rule says_cong [OF ts(2)]) auto
  ultimately show ?case by blast
qed

lemma and_fold:
  "says (t # ts) P \<Longrightarrow>
   \<exists>r. foldM (\<lambda>e acc. lift (BoolAnd smt_gen acc e)) ts t h = Inr (r, h) \<and> tsort r = SBool \<and>
     (\<forall>E. env_ok E \<longrightarrow> den E r = VBool (P E))"
proof (induction ts arbitrary: t)
  case Nil
  then show ?case by (auto simp: says_def)
next
  case (Cons u ts)
  obtain v where v: "BoolAnd smt_gen t u = Inr v" "tsort v = SBool"
      "\<forall>E. env_ok E \<longrightarrow> den E v = bool2 (\<and>) [den E t, den E u]"
    using gen_and [of t u] Cons.prems by (auto simp: is_term_def says_def)
  have "says (v # ts) P"
    using Cons.prems v(2,3) unfolding says_def by (fastforce simp: bool2_def)
  with Cons.IH [of v] v(1) show ?case by simp
qed

lemma conjunct_all:
  assumes "heap_inv h" "ginv g" "says ts P"
  shows "\<exists>t g' h'. ConjunctAll smt_gen (ts, g) h = Inr ((t, g'), h') \<and> ginv g' \<and> only_alloc h h' \<and>
     tsort t = SBool \<and> (\<forall>E. env_ok E \<longrightarrow> den E t = VBool (P E))"
proof -
  let ?h = "h\<lparr>counter := counter h + 1\<rparr>"
  let ?c = "Expr (counter h + 1) (anon_name (counter h + 1)) SortBool None [] [] (KConst (BoolVal True))"
  have inv: "heap_inv ?h" using assms(1) only_alloc_new by (rule heap_inv_alloc)
  obtain t g' where t: "GetShimExpr smt_gen ?h ?c [] g = Inr (t, g')" "ginv g'" "stands ?h [] ?c t"
    using gen_expr [OF inv enc_true assms(2), of "counter h + 1" "anon_name (counter h + 1)" "[]"]
    by (auto simp: stands_def)
  have "says [t] (\<lambda>E. True)" using t(3) by (auto simp: says_def stands_def const_sem_def)
  from says_append [OF this assms(3)] have "says (t # ts) P" by simp
  from and_fold [OF this, of ?h] t(1,2) only_alloc_new [of h] show ?thesis
    by (auto simp: ConjunctAll_def BoolConst_def ExprConst_bool_def MakeBoolSort_def shim_expr_def monad_simps)
qed

text \<open>One step of the loop.\<close>

definition step_says :: "heap \<Rightarrow> nat list \<Rightarrow> nat \<Rightarrow> UnrollerSmt \<Rightarrow> nat \<Rightarrow> smt_env \<Rightarrow> bool" where
  "step_says h iseq begin u i E =
     (let I = meaning h (SuffixCurrent u (begin + i)) E; J = meaning h (SuffixCurrent u (begin + i + 1)) E in
      asserted u i I \<and> (i = 0 \<longrightarrow> (\<forall>p \<in> set (initial_pred u). holds I p)) \<and>
      exec_step (instr_list h iseq ! i) (seq_states h iseq) I J)"

lemma stands_equal:
  assumes "list_all2 (stands h s1) (map f vs) as" "list_all2 (stands h s2) vs bs" "\<forall>v \<in> set vs. esort (f v) = esort v"
  shows "list_all2 (\<lambda>a b. tsort a = tsort b) as bs"
    and "env_ok E \<Longrightarrow> list_all2 (\<lambda>a b. den E a = den E b) as bs \<longleftrightarrow>
      (\<forall>v \<in> set vs. eval (meaning h s2 E) v = eval (meaning h s1 E) (f v))"
  using assms
  by (induction vs arbitrary: as bs) (auto simp: list_all2_Cons1 stands_def)

lemma unroll_step:
  assumes un: "unrollable enc h iseq u" and V: "set (deciding_vars u) = seq_states h iseq"
    and i: "i < length iseq" and g: "ginv g" and fs: "says fs P"
  shows "\<exists>u' fs' g'. Unroll_step smt_gen (MakeOneTransition iseq) begin i (u, fs, g) h = Inr ((u', fs', g'), h) \<and>
     ginv g' \<and> says fs' (\<lambda>E. P E \<and> step_says h iseq begin u i E) \<and>
     (\<exists>up as. u' = u\<lparr>update_holder := up, assert_holder := as\<rparr>)"
proof -
  let ?s = "SuffixCurrent u (begin + i)" and ?t = "SuffixCurrent u (begin + i + 1)"
  obtain x d where x: "instrs h (iseq ! i) = Some x" "instr_decode x = Some d" "bool_pred enc h d"
    and up: "\<forall>s \<in> seq_states h iseq. \<forall>e. update x (ename s) = Some e \<longrightarrow> enc h e \<and> esort e = esort s"
    using un i by (auto simp: unrollable_def instr_enc_def dest!: bspec [of _ _ "iseq ! i"])
  have inv: "heap_inv h" and st: "\<forall>s \<in> seq_states h iseq. enc h s"
    and preds: "\<forall>p \<in> set (global_pred u). bool_pred enc h p" "\<forall>p \<in> set (initial_pred u). bool_pred enc h p"
      "\<forall>p \<in> set (step_at u i). bool_pred enc h p"
    using un by (auto simp: unrollable_def)
  let ?f = "CompleteStateUpdate x"
  let ?u = "u\<lparr>update_holder := map ?f (deciding_vars u), assert_holder := [d]\<rparr>"
  have m: "MakeOneTransition iseq i u h = Inr (?u, h)" using x i by (simp add: MakeOneTransition_def monad_simps)
  have sfx: "SuffixCurrent ?u = SuffixCurrent u" "step_at ?u = step_at u"
    by (simp_all add: fun_eq_iff SuffixCurrent_def step_at_def)
  obtain f1 g1 where 1: "InterpIlaExprAndAppend smt_gen (global_pred u) ?s (fs, g) h = Inr ((f1, g1), h)" "ginv g1"
      "says f1 (\<lambda>E. P E \<and> (\<forall>e \<in> set (global_pred u). holds (meaning h ?s E) e))"
    using pred_append [OF inv preds(1) g fs] by blast
  obtain f2 g2 where 2: "InterpIlaExprAndAppend smt_gen (step_at u i) ?s (f1, g1) h = Inr ((f2, g2), h)" "ginv g2"
      "says f2 (\<lambda>E. (P E \<and> (\<forall>e \<in> set (global_pred u). holds (meaning h ?s E) e)) \<and>
         (\<forall>e \<in> set (step_at u i). holds (meaning h ?s E) e))"
    using pred_append [OF inv preds(3) 1(2,3)] by blast
  have d: "\<forall>e \<in> set [d]. bool_pred enc h e" using x(3) by simp
  obtain f3 g3 where 3: "InterpIlaExprAndAppend smt_gen [d] ?s (f2, g2) h = Inr ((f3, g3), h)" "ginv g3"
      "says f3 (\<lambda>E. ((P E \<and> (\<forall>e \<in> set (global_pred u). holds (meaning h ?s E) e)) \<and>
         (\<forall>e \<in> set (step_at u i). holds (meaning h ?s E) e)) \<and> (\<forall>e \<in> set [d]. holds (meaning h ?s E) e))"
    using pred_append [OF inv d 2(2,3)] by blast
  define Q where "Q E \<longleftrightarrow> P E \<and> asserted u i (meaning h ?s E) \<and> holds (meaning h ?s E) d" for E
  have f3: "says f3 Q" by (rule says_cong [OF 3(3)]) (auto simp: Q_def asserted_def)
  define R where "R E \<longleftrightarrow> Q E \<and> (i = 0 \<longrightarrow> (\<forall>e \<in> set (initial_pred u). holds (meaning h ?s E) e))" for E
  obtain f4 g4 where 4: "(if i = 0 then InterpIlaExprAndAppend smt_gen (initial_pred u) ?s (f3, g3) else ret (f3, g3)) h =
      Inr ((f4, g4), h)" "ginv g4" "says f4 R"
    using pred_append [OF inv preds(2) 3(2) f3, of ?s] f3 3(2) by (cases "i = 0") (auto simp: R_def [abs_def])
  have enc5: "\<forall>e \<in> set (map ?f (deciding_vars u)). enc h e"
    using st up V by (auto simp: CompleteStateUpdate_def update_var_def split: option.splits)
  obtain vs g5 where 5: "InterpIlaExprAndAppend smt_gen (map ?f (deciding_vars u)) ?s ([], g4) h = Inr ((vs, g5), h)"
      "ginv g5" "list_all2 (stands h ?s) (map ?f (deciding_vars u)) vs"
    using interp_append [OF inv enc5 4(2), of ?s "[]"] by auto
  obtain ws g6 where 6: "InterpIlaExprAndAppend smt_gen (deciding_vars u) ?t ([], g5) h = Inr ((ws, g6), h)"
      "ginv g6" "list_all2 (stands h ?t) (deciding_vars u) ws"
    using interp_append [OF inv _ 5(2), of "deciding_vars u" ?t "[]"] st V by auto
  have same: "\<forall>v \<in> set (deciding_vars u). esort (?f v) = esort v"
    using up V by (auto simp: CompleteStateUpdate_def update_var_def split: option.splits)
  obtain f7 where 7: "ElementWiseEqualAndAppend smt_gen vs ws f4 h = Inr (f7, h)"
      "says f7 (\<lambda>E. R E \<and> list_all2 (\<lambda>a b. den E a = den E b) vs ws)"
    using equal_append [OF stands_equal(1) [OF 5(3) 6(3) same] 4(3)] by blast
  have upd: "(\<forall>v \<in> set (deciding_vars u). eval J v = eval I (?f v)) \<longleftrightarrow>
      (\<forall>s \<in> seq_states h iseq. eval J s = (case update x (ename s) of Some e \<Rightarrow> eval I e | None \<Rightarrow> eval I s))" for I J
    unfolding V CompleteStateUpdate_def update_var_def by (auto split: option.splits)
  have "says f7 (\<lambda>E. P E \<and> step_says h iseq begin u i E)"
    by (rule says_cong [OF 7(2)])
       (use x i in \<open>auto simp: stands_equal(2) [OF 5(3) 6(3) same] upd Q_def R_def step_says_def Let_def
          exec_step_def instr_list_def\<close>)
  moreover have "Unroll_step smt_gen (MakeOneTransition iseq) begin i (u, fs, g) h = Inr ((?u, f7, g6), h)"
    using m 1(1) 2(1) 3(1) 4(1) 5(1) 6(1) 7(1)
    by (cases "i = 0") (simp_all add: Unroll_step_def sfx Let_def monad_simps)
  ultimately show ?thesis using 6(2) by blast
qed

lemma unroll_loop:
  assumes un: "unrollable enc h iseq u" and V: "set (deciding_vars u) = seq_states h iseq" and g: "ginv g"
  shows "k \<le> length iseq \<Longrightarrow>
    \<exists>u' fs' g'. foldM (Unroll_step smt_gen (MakeOneTransition iseq) begin) [0 ..< k] (u, [], g) h = Inr ((u', fs', g'), h) \<and>
     ginv g' \<and> says fs' (\<lambda>E. \<forall>i < k. step_says h iseq begin u i E) \<and>
     (\<exists>up as. u' = u\<lparr>update_holder := up, assert_holder := as\<rparr>)"
proof (induction k)
  case 0
  have "\<exists>up as. u = u\<lparr>update_holder := up, assert_holder := as\<rparr>"
    by (intro exI [of _ "update_holder u"] exI [of _ "assert_holder u"]) simp
  with g says_Nil show ?case by (simp add: monad_simps)
next
  case (Suc k)
  then obtain fs g1 up as where 1:
    "foldM (Unroll_step smt_gen (MakeOneTransition iseq) begin) [0 ..< k] (u, [], g) h =
       Inr ((u\<lparr>update_holder := up, assert_holder := as\<rparr>, fs, g1), h)" "ginv g1"
    "says fs (\<lambda>E. \<forall>i < k. step_says h iseq begin u i E)" by auto
  let ?u = "u\<lparr>update_holder := up, assert_holder := as\<rparr>"
  have u: "unrollable enc h iseq ?u" "set (deciding_vars ?u) = seq_states h iseq" "k < length iseq"
    using un V Suc.prems by simp_all
  obtain u' fs' g' where 2: "Unroll_step smt_gen (MakeOneTransition iseq) begin k (?u, fs, g1) h = Inr ((u', fs', g'), h)"
    "ginv g'" "says fs' (\<lambda>E. (\<forall>i < k. step_says h iseq begin u i E) \<and> step_says h iseq begin ?u k E)"
    "\<exists>up as. u' = ?u\<lparr>update_holder := up, assert_holder := as\<rparr>"
    using unroll_step [OF u 1(2,3), of "begin"] by blast
  have "says fs' (\<lambda>E. \<forall>i < Suc k. step_says h iseq begin u i E)"
    by (rule says_cong [OF 2(3)]) (auto simp: less_Suc_eq step_says_def holder_simps)
  moreover have "\<exists>up as. u' = u\<lparr>update_holder := up, assert_holder := as\<rparr>" using 2(4) by auto
  moreover have "foldM (Unroll_step smt_gen (MakeOneTransition iseq) begin) [0 ..< Suc k] (u, [], g) h = Inr ((u', fs', g'), h)"
    using 1(1) 2(1) by (simp add: foldM_append monad_simps)
  ultimately show ?case using 2(2) by blast
qed

text \<open>The whole unrolling.\<close>

lemma unroll_base:
  assumes un: "unrollable enc h iseq u" and g: "ginv g"
  shows "\<exists>t g' u' h'. Unroll smt_gen iseq begin u g h = Inr (((t, g'), u'), h') \<and> ginv g' \<and> only_alloc h h' \<and>
    tsort t = SBool \<and>
    (\<forall>E. env_ok E \<longrightarrow> den E t = VBool (path_holds u (instr_list h iseq) (seq_states h iseq)
       (\<lambda>i. meaning h (SuffixCurrent u (begin + i)) E) (meaning h (SuffixCurrent u (length iseq)) E)))"
proof -
  let ?n = "length iseq" and ?s = "SuffixCurrent u (length iseq)"
  obtain vs where vs: "foldM InsertStt_instr iseq [] h = Inr (vs, h)" "set vs = seq_states h iseq"
    using seq_states_run [OF instr_enc_host, of iseq enc h "seq_states h iseq" "[]"] un by (auto simp: unrollable_def)
  let ?u = "u\<lparr>deciding_vars := vs, update_holder := [], assert_holder := []\<rparr>"
  have u: "unrollable enc h iseq ?u" using un by (simp add: unrollable_def holder_simps)
  obtain fs g1 up as where 1:
    "foldM (Unroll_step smt_gen (MakeOneTransition iseq) begin) [0 ..< ?n] (?u, [], g) h =
       Inr ((?u\<lparr>update_holder := up, assert_holder := as\<rparr>, fs, g1), h)" "ginv g1"
    "says fs (\<lambda>E. \<forall>i < ?n. step_says h iseq begin ?u i E)"
    using unroll_loop [OF u _ g, of ?n "begin"] vs(2) by auto
  have inv: "heap_inv h" and p: "\<forall>p \<in> set (global_pred u). bool_pred enc h p"
      "\<forall>p \<in> set (step_at u ?n). bool_pred enc h p"
    using un by (auto simp: unrollable_def)
  obtain f2 g2 where 2: "InterpIlaExprAndAppend smt_gen (global_pred u) ?s (fs, g1) h = Inr ((f2, g2), h)" "ginv g2"
      "says f2 (\<lambda>E. (\<forall>i < ?n. step_says h iseq begin ?u i E) \<and> (\<forall>e \<in> set (global_pred u). holds (meaning h ?s E) e))"
    using pred_append [OF inv p(1) 1(2,3)] by blast
  obtain f3 g3 where 3: "InterpIlaExprAndAppend smt_gen (step_at u ?n) ?s (f2, g2) h = Inr ((f3, g3), h)" "ginv g3"
      "says f3 (\<lambda>E. ((\<forall>i < ?n. step_says h iseq begin ?u i E) \<and> (\<forall>e \<in> set (global_pred u). holds (meaning h ?s E) e)) \<and>
        (\<forall>e \<in> set (step_at u ?n). holds (meaning h ?s E) e))"
    using pred_append [OF inv p(2) 2(2,3)] by blast
  define P where "P E \<longleftrightarrow> path_holds u (instr_list h iseq) (seq_states h iseq)
     (\<lambda>i. meaning h (SuffixCurrent u (begin + i)) E) (meaning h ?s E)" for E
  have "says f3 P"
    by (rule says_cong [OF 3(3)])
       (auto simp: P_def path_holds_def step_says_def asserted_def holder_simps Let_def instr_list_def)
  from conjunct_all [OF inv 3(2) this] obtain t g' h' where
    4: "ConjunctAll smt_gen (f3, g3) h = Inr ((t, g'), h')" "ginv g'" "only_alloc h h'" "tsort t = SBool"
      "\<forall>E. env_ok E \<longrightarrow> den E t = VBool (P E)" by blast
  have vars: "SetDecidingVars iseq (u\<lparr>deciding_vars := [], update_holder := [], assert_holder := []\<rparr>) h = Inr (?u, h)"
    using vs(1) by (simp add: SetDecidingVars_def monad_simps)
  have ne: "vs \<noteq> []" using vs(2) un by (auto simp: unrollable_def)
  have "Unroll smt_gen iseq begin u g h =
      Inr (((t, g'), ?u\<lparr>update_holder := up, assert_holder := as\<rparr>), h')"
    using vars ne 1(1) 2(1) 3(1) 4(1)
    by (simp add: Unroll_def Unroll_base_def holder_simps monad_simps Let_def)
  with 4 show ?thesis unfolding P_def by blast
qed

end

text \<open>The Z3 adapter is a generator.\<close>

sublocale z3_backend \<subseteq> z3_gen: smt_generator "z3_shim ctx" tsort den "\<lambda>_. True" encodable z3_interp
proof unfold_locales
  show "encodable h (Expr i n SortBool None [] [] (KConst (BoolVal True)))" for h i n
    by (simp add: encodable_def node_wf_def const_wf_def node_enc_def sort_small_def)
  show "\<exists>t g'. GetShimExpr (z3_shim ctx) h e suffix g = Inr (t, g') \<and> True \<and> tsort t = smt_sort_of (esort e) \<and>
      (\<forall>E. env_ok E \<longrightarrow> den E t = eval (z3_interp h suffix E) e)"
    if "heap_inv h" "encodable h e" for h e g suffix
    using GetExpr_denotes [OF that, of suffix] by (auto simp: z3_shim_def denotes_def stands_for_def)
qed (auto simp: z3_shim_def BoolAnd_ok Equal_ok encodable_def z3_interp_def smt_interp_ok)

context z3_backend
begin

lemma unroll_z3:
  assumes "unrollable encodable h iseq u"
  shows "\<exists>t u' h'. Unroll (z3_shim ctx) iseq begin u () h = Inr (((t, ()), u'), h') \<and> tsort t = SBool \<and>
    (\<forall>E. env_ok E \<longrightarrow> den E t = VBool (path_holds u (instr_list h iseq) (seq_states h iseq)
       (\<lambda>i. z3_interp h (SuffixCurrent u (begin + i)) E) (z3_interp h (SuffixCurrent u (length iseq)) E)))"
  using z3_gen.unroll_base [OF assms, of "begin" "()"] by auto

end

section \<open>The cache of smt-switch terms\<close>

text \<open>A generator with one fixed term for every expression, whatever the suffix.\<close>

definition table_shim :: "('w, 't) smt_solver \<Rightarrow> 't term_map \<Rightarrow> (unit, 't) SmtShim" where
  "table_shim api m =
     \<lparr>GetShimExpr = (\<lambda>h e suffix g. rbind (find_term m e) (\<lambda>t. Inr (t, ()))),
      BoolAnd = sw_BoolAnd api, Equal = sw_Equal api\<rparr>"

text \<open>A run with the interface leaves a cache that has all the terms the run used, because nothing
  is removed from it. So the run with any table that extends the cache is the same, with any other
  suffixes too.\<close>

lemma shim_tabled:
  assumes "shim_expr (sw_shim api) e suffix st h = Inr ((t, st'), h')"
  shows "itf_expr_map st \<subseteq>\<^sub>m itf_expr_map st'"
    and "itf_expr_map st' \<subseteq>\<^sub>m m \<Longrightarrow> shim_expr (table_shim api m) e suffix' () h = Inr ((t, ()), h')"
proof -
  have g: "GetSmtTerm api h e suffix st = Inr (t, st')" "h' = h"
    using assms by (auto simp: shim_expr_def sw_shim_def rbind_Inr_conv)
  show "itf_expr_map st \<subseteq>\<^sub>m itf_expr_map st'" by (rule GetSmtTerm_grows(1) [OF g(1)])
  show "shim_expr (table_shim api m) e suffix' () h = Inr ((t, ()), h')" if "itf_expr_map st' \<subseteq>\<^sub>m m"
  proof -
    have "m e = Some t" using GetSmtTerm_grows(2) [OF g(1)] that by (metis domI map_le_def)
    then show ?thesis using g(2) by (simp add: shim_expr_def table_shim_def find_term_def)
  qed
qed

lemma interp_tabled:
  assumes "InterpIlaExprAndAppend (sw_shim api) es suffix (dst, st) h = Inr ((r, st'), h')"
  shows "itf_expr_map st \<subseteq>\<^sub>m itf_expr_map st' \<and> (itf_expr_map st' \<subseteq>\<^sub>m m \<longrightarrow>
      InterpIlaExprAndAppend (table_shim api m) es suffix' (dst, ()) h = Inr ((r, ()), h'))"
  using assms
proof (induction es arbitrary: dst st h)
  case Nil
  then show ?case by (simp add: InterpIlaExprAndAppend_def)
next
  case (Cons e es)
  obtain t st1 h1 where t: "shim_expr (sw_shim api) e suffix st h = Inr ((t, st1), h1)"
    and rest: "InterpIlaExprAndAppend (sw_shim api) es suffix (dst @ [t], st1) h1 = Inr ((r, st'), h')"
    using Cons.prems by (auto simp: InterpIlaExprAndAppend_def)
  have "itf_expr_map st1 \<subseteq>\<^sub>m m" if "itf_expr_map st' \<subseteq>\<^sub>m m"
    using Cons.IH [OF rest] that map_le_trans by blast
  then show ?case
    using shim_tabled(1) [OF t] shim_tabled(2) [OF t, of m suffix'] Cons.IH [OF rest]
    by (auto simp: InterpIlaExprAndAppend_def intro: map_le_trans)
qed

lemma equal_tabled:
  "ElementWiseEqualAndAppend (table_shim api m) = ElementWiseEqualAndAppend (sw_shim api)"
  by (simp add: ElementWiseEqualAndAppend_def table_shim_def sw_shim_def fun_eq_iff)

lemma step_tabled:
  assumes "Unroll_step (sw_shim api) one_step begin i (u, fs, st) h = Inr ((u', fs', st'), h')"
  shows "itf_expr_map st \<subseteq>\<^sub>m itf_expr_map st' \<and> (itf_expr_map st' \<subseteq>\<^sub>m m \<longrightarrow>
      Unroll_step (table_shim api m) one_step begin' i (u, fs, ()) h = Inr ((u', fs', ()), h'))"
proof -
  let ?I = "InterpIlaExprAndAppend (sw_shim api)"
  let ?s = "SuffixCurrent u (begin + i)" and ?n = "SuffixCurrent u (Suc (begin + i))"
  let ?s' = "SuffixCurrent u (begin' + i)" and ?n' = "SuffixCurrent u (Suc (begin' + i))"
  obtain h0 f1 s1 h1 f2 s2 h2 f3 s3 h3 f4 s4 h4 vs s5 h5 ws h6 where
    m: "one_step i u h = Inr (u', h0)"
    and 1: "?I (global_pred u') ?s (fs, st) h0 = Inr ((f1, s1), h1)"
    and 2: "?I (step_at u' i) ?s (f1, s1) h1 = Inr ((f2, s2), h2)"
    and 3: "?I (assert_holder u') ?s (f2, s2) h2 = Inr ((f3, s3), h3)"
    and 4: "(if i = 0 then ?I (initial_pred u') ?s (f3, s3) else ret (f3, s3)) h3 = Inr ((f4, s4), h4)"
    and 5: "?I (update_holder u') ?s ([], s4) h4 = Inr ((vs, s5), h5)"
    and 6: "?I (deciding_vars u') ?n ([], s5) h5 = Inr ((ws, st'), h6)"
    and 7: "ElementWiseEqualAndAppend (sw_shim api) vs ws f4 h6 = Inr (fs', h')"
    using assms
    by (simp add: Unroll_step_def Let_def split del: if_split) (clarify, rule that, assumption+)
  have 4: "itf_expr_map s3 \<subseteq>\<^sub>m itf_expr_map s4 \<and> (itf_expr_map s4 \<subseteq>\<^sub>m m \<longrightarrow>
      (if i = 0 then InterpIlaExprAndAppend (table_shim api m) (initial_pred u') ?s' (f3, ()) else ret (f3, ())) h3 =
        Inr ((f4, ()), h4))"
    using 4 by (cases "i = 0") (simp_all add: interp_tabled)
  note grow = interp_tabled [OF 1, of m ?s'] interp_tabled [OF 2, of m ?s'] interp_tabled [OF 3, of m ?s'] 4
    interp_tabled [OF 5, of m ?s'] interp_tabled [OF 6, of m ?n']
  have "Unroll_step (table_shim api m) one_step begin' i (u, fs, ()) h = Inr ((u', fs', ()), h')"
    if le: "itf_expr_map st' \<subseteq>\<^sub>m m"
  proof -
    have le5: "itf_expr_map s5 \<subseteq>\<^sub>m m" using grow le map_le_trans by blast
    then have le4: "itf_expr_map s4 \<subseteq>\<^sub>m m" using grow map_le_trans by blast
    then have le3: "itf_expr_map s3 \<subseteq>\<^sub>m m" using grow map_le_trans by blast
    then have le2: "itf_expr_map s2 \<subseteq>\<^sub>m m" using grow map_le_trans by blast
    then have le1: "itf_expr_map s1 \<subseteq>\<^sub>m m" using grow map_le_trans by blast
    show ?thesis
      using m 7 grow le le1 le2 le3 le4 le5
      by (cases "i = 0") (simp_all add: Unroll_step_def Let_def monad_simps equal_tabled)
  qed
  moreover have "itf_expr_map st \<subseteq>\<^sub>m itf_expr_map st'" using grow map_le_trans by meson
  ultimately show ?thesis by blast
qed

lemma loop_tabled:
  assumes "foldM (Unroll_step (sw_shim api) one_step begin) is (u, fs, st) h = Inr ((u', fs', st'), h')"
  shows "itf_expr_map st \<subseteq>\<^sub>m itf_expr_map st' \<and> (itf_expr_map st' \<subseteq>\<^sub>m m \<longrightarrow>
      foldM (Unroll_step (table_shim api m) one_step begin') is (u, fs, ()) h = Inr ((u', fs', ()), h'))"
  using assms
proof (induction "is" arbitrary: u fs st h)
  case Nil
  then show ?case by simp
next
  case (Cons i "is")
  obtain u1 fs1 st1 h1 where
    1: "Unroll_step (sw_shim api) one_step begin i (u, fs, st) h = Inr ((u1, fs1, st1), h1)"
    and 2: "foldM (Unroll_step (sw_shim api) one_step begin) is (u1, fs1, st1) h1 = Inr ((u', fs', st'), h')"
    using Cons.prems by auto
  have "itf_expr_map st1 \<subseteq>\<^sub>m m" if "itf_expr_map st' \<subseteq>\<^sub>m m"
    using Cons.IH [OF 2] that map_le_trans by blast
  then show ?case
    using step_tabled [OF 1, of m begin'] Cons.IH [OF 2] by (auto intro: map_le_trans)
qed

lemma conjunct_tabled:
  assumes "ConjunctAll (sw_shim api) (fs, st) h = Inr ((t, st'), h')"
  shows "itf_expr_map st \<subseteq>\<^sub>m itf_expr_map st'"
    and "itf_expr_map st' \<subseteq>\<^sub>m m \<Longrightarrow> ConjunctAll (table_shim api m) (fs, ()) h = Inr ((t, ()), h')"
proof -
  have a: "BoolAnd (table_shim api m) = BoolAnd (sw_shim api)" by (simp add: table_shim_def sw_shim_def)
  obtain c h1 x h2 where c: "BoolConst True h = Inr (c, h1)"
    and x: "shim_expr (sw_shim api) c [] st h1 = Inr ((x, st'), h2)"
    and r: "foldM (\<lambda>e acc. lift (BoolAnd (sw_shim api) acc e)) fs x h2 = Inr (t, h')"
    using assms by (auto simp: ConjunctAll_def)
  show "itf_expr_map st \<subseteq>\<^sub>m itf_expr_map st'" by (rule shim_tabled(1) [OF x])
  show "ConjunctAll (table_shim api m) (fs, ()) h = Inr ((t, ()), h')" if "itf_expr_map st' \<subseteq>\<^sub>m m"
    using shim_tabled(2) [OF x that] c r by (auto simp: ConjunctAll_def a)
qed

section \<open>Properties\<close>

text \<open>C4: Unrolling is sound and complete, for any first step. With a Z3 that behaves as documented,
  unrolling a sequence of instructions returns a Boolean term, and an assignment makes the term true
  exactly when the values it gives to the variables of the steps are an execution: every decode
  function holds, every state is updated or kept, the global and the step predicates hold, and the
  initial predicates in the first state. The steps are numbered from \<open>begin\<close>, but the predicates of
  the end state are asserted at step \<open>len\<close>, whatever \<open>begin\<close> is: this is the end of the path only
  when \<open>begin\<close> is 0.\<close>

theorem unroll_offset:
  assumes "z3_backend ctx tsort den" "unrollable encodable h iseq u"
  shows "\<exists>t u' h'. Unroll (z3_shim ctx) iseq begin u () h = Inr (((t, ()), u'), h') \<and> tsort t = SBool \<and>
    (\<forall>E. env_ok E \<longrightarrow> den E t = VBool (path_holds u (instr_list h iseq) (seq_states h iseq)
       (\<lambda>i. z3_interp h (SuffixCurrent u (begin + i)) E) (z3_interp h (SuffixCurrent u (length iseq)) E)))"
  using z3_backend.unroll_z3 [OF assms] .

text \<open>An ILA with one 4-bit state and one instruction that adds 9 to it.\<close>

definition ux :: expr where
  "ux = Expr 2 ''x'' (SortBv 4) (Some 1) [] [] KVar"

definition ux_is_0 :: expr where
  "ux_is_0 = Expr 7 ''$7'' SortBool (Some 1) []
     [ux, Expr 6 ''$6'' (SortBv 4) None [] [] (KConst (BvVal 0))] (KOp kEqual)"

definition unroll_heap :: heap where
  "unroll_heap =
     \<lparr>counter = 9,
      ilas = [1 \<mapsto> (ila_init ''m'' None)\<lparr>ila_states := snd (push_back ''x'' ux KeyVec_new),
                     ila_instrs := snd (push_back ''i'' 3 KeyVec_new)\<rparr>],
      instrs = [3 \<mapsto> \<lparr>instr_name = ''i'', instr_host = Some 1,
                      instr_decode = Some (Expr 4 ''$4'' SortBool None [] [] (KConst (BoolVal True))),
                      instr_updates = [(''x'', Expr 5 ''$5'' (SortBv 4) (Some 1) [] [ux, const9] (KOp kAdd))],
                      instr_prog = None\<rparr>]\<rparr>"

definition unroller_u :: UnrollerSmt where
  "unroller_u = AssertGlobal ux_is_0 (UnrollerSmt_new ''u'')"

lemma unroller_u_preds:
  "global_pred unroller_u = [ux_is_0]" "initial_pred unroller_u = []" "step_at unroller_u k = []"
  by (simp_all add: unroller_u_def AssertGlobal_def UnrollerSmt_new_def es_insert_def step_at_def)

lemma unroll_heap_entries:
  "kv_entries (snd (push_back ''i'' (3::nat) KeyVec_new)) = [(''i'', 3)]"
  "kv_entries (snd (push_back ''x'' ux KeyVec_new)) = [(''x'', ux)]"
  using kv.push_eq [OF kv_inv_new, of "''i''" "3::nat"] kv.push_eq [OF kv_inv_new, of "''x''" ux] by simp_all

lemma unroll_heap_inv: "heap_inv unroll_heap"
  using ila_local_init [of "''m''" None] unroll_heap_entries
  by (auto simp: heap_inv_def unroll_heap_def ila_local_def ila_links_def instr_ok_def ila_init_def amap_ok_def
      var_map_ok_def ux_def)

lemma unroll_heap_states: "seq_states unroll_heap [3] = {ux}"
proof -
  have "vec (snd (push_back ''x'' ux KeyVec_new)) = [ux]"
    using unroll_heap_entries(2) kv_entries_vec [of "snd (push_back ''x'' ux KeyVec_new)"] by simp
  then show ?thesis by (simp add: seq_states_def host_states_def unroll_heap_def)
qed

lemma unroll_heap_ok: "unrollable encodable unroll_heap [3] unroller_u"
proof -
  have e: "encodable unroll_heap ux" "encodable unroll_heap ux_is_0" "esort ux_is_0 = SortBool"
    "encodable unroll_heap (Expr 4 ''$4'' SortBool None [] [] (KConst (BoolVal True)))"
    "encodable unroll_heap (Expr 5 ''$5'' (SortBv 4) (Some 1) [] [ux, const9] (KOp kAdd))"
    by (simp_all add: encodable_def ux_def ux_is_0_def const9_def node_wf_def const_wf_def op_sort_def
        same_sort_def comparison_def sem_ok_def node_enc_def sort_small_def unroll_heap_def)
  have "instr_enc encodable unroll_heap {ux} 3"
    using e by (auto simp: instr_enc_def unroll_heap_def bool_pred_def update_def ux_def)
  then show ?thesis
    using e unroll_heap_inv
    by (simp add: unrollable_def unroll_heap_states unroller_u_preds bool_pred_def)
qed

lemma unroll_heap_step:
  "exec_step (the (instrs unroll_heap 3)) {ux} I J \<longleftrightarrow> eval J ux = bv2 (\<lambda>a b. (a + b) mod 16) [eval I ux, VBv 9]"
proof -
  have "ename ux = ''x''" "esort ux = SortBv 4" by (simp_all add: ux_def)
  then show ?thesis
    by (simp add: exec_step_def unroll_heap_def update_def const9_def holds_def const_sem_def op_sem_def)
qed

text \<open>From step 5: an assignment with the state 0 at step 5 and 9 at step 6 makes the formula true,
  although the global predicate does not hold at step 6, the end of the path.\<close>

definition end_env :: smt_env where
  "end_env = zero_env\<lparr>env_const := (\<lambda>n s.
     if n = z3_vname unroll_heap (SuffixCurrent unroller_u 6) ux \<and> s = SBv 4 then VBv 9 else smt_zero s)\<rparr>"

theorem unroll_offset_witness:
  "\<exists>t u' h'. Unroll (z3_shim sem_api) [3] 5 unroller_u () unroll_heap = Inr (((t, ()), u'), h') \<and>
     sem_den end_env t = VBool True \<and>
     \<not> holds (z3_interp unroll_heap (SuffixCurrent unroller_u 6) end_env) ux_is_0"
proof -
  have ok: "env_ok end_env"
  proof -
    have "sort_wf s \<Longrightarrow> val_ok s (smt_zero (smt_sort_of s))" for s by (cases s) (simp_all add: smt_zero_def)
    moreover have "smt_sort_of s = SBv 4 \<Longrightarrow> val_ok s (VBv 9)" for s by (cases s) (auto simp: smt_sort_of_def)
    ultimately show ?thesis by (auto simp: env_ok_def end_env_def zero_env_def)
  qed
  have x: "eval (z3_interp unroll_heap (SuffixCurrent unroller_u k) end_env) ux = (if k mod 2 ^ 64 = 6 then VBv 9 else VBv 0)" for k
  proof -
    have "z3_vname unroll_heap (SuffixCurrent unroller_u k) ux = z3_vname unroll_heap (SuffixCurrent unroller_u 6) ux \<longleftrightarrow>
        k mod 2 ^ 64 = 6"
      by (simp add: z3_vname_def format_name_def Let_def SuffixCurrent_def)
    then show ?thesis
      by (simp add: z3_interp_def smt_interp_def end_env_def ux_def smt_zero_def)
  qed
  have z: "holds (z3_interp unroll_heap (SuffixCurrent unroller_u k) end_env) ux_is_0 \<longleftrightarrow> k mod 2 ^ 64 \<noteq> 6" for k
    using x [of k] by (simp add: holds_def ux_is_0_def const_sem_def op_sem_def)
  have "path_holds unroller_u (instr_list unroll_heap [3]) (seq_states unroll_heap [3])
      (\<lambda>i. z3_interp unroll_heap (SuffixCurrent unroller_u (5 + i)) end_env)
      (z3_interp unroll_heap (SuffixCurrent unroller_u (length [3::nat])) end_env)"
    using x [of 5] x [of 6] z [of 5] z [of 1]
    by (simp add: path_holds_def unroll_heap_states instr_list_def asserted_def unroller_u_preds unroll_heap_step bv2_def)
  with unroll_offset [OF sem.z3_backend_axioms unroll_heap_ok, of 5] ok z [of 6] show ?thesis by fastforce
qed

text \<open>C7: With the smt-switch interface all the steps of a path share their variables. The interface
  caches terms by expression and forgets the suffix, and nothing on the way clears the cache. So
  whatever the solver, the virtual functions and the cache at the start: when unrolling a path of any
  length returns, its formula is the one built from the table of terms that the cache holds at the
  end, where an expression has one term at all the steps, the current and the next; the numbers of
  the steps do not matter. A transition relates a state to itself.\<close>

theorem smt_switch_steps_alias:
  assumes "Unroll_base (sw_shim api) set_vars one_step len begin u st h = Inr (((t, st'), u'), h')"
  shows "Unroll_base (table_shim api (itf_expr_map st')) set_vars one_step len begin' u () h =
    Inr (((t, ()), u'), h')"
proof -
  let ?I = "InterpIlaExprAndAppend (sw_shim api)" and ?m = "itf_expr_map st'"
  obtain u0 h0 fs1 s1 h1 fs2 s2 h2 fs3 s3 h3 where
    d: "set_vars (u\<lparr>deciding_vars := [], update_holder := [], assert_holder := []\<rparr>) h = Inr (u0, h0)"
    "deciding_vars u0 \<noteq> []"
    and 1: "foldM (Unroll_step (sw_shim api) one_step begin) [0 ..< len] (u0, [], st) h0 = Inr ((u', fs1, s1), h1)"
    and 2: "?I (global_pred u') (SuffixCurrent u' len) (fs1, s1) h1 = Inr ((fs2, s2), h2)"
    and 3: "?I (step_at u' len) (SuffixCurrent u' len) (fs2, s2) h2 = Inr ((fs3, s3), h3)"
    and 4: "ConjunctAll (sw_shim api) (fs3, s3) h3 = Inr ((t, st'), h')"
    using assms by (simp add: Unroll_base_def Let_def) (elim exE conjE, rule that, simp_all)
  note grow = loop_tabled [OF 1, of ?m begin'] interp_tabled [OF 2, of ?m "SuffixCurrent u' len"]
    interp_tabled [OF 3, of ?m "SuffixCurrent u' len"]
  have le3: "itf_expr_map s3 \<subseteq>\<^sub>m ?m" by (rule conjunct_tabled(1) [OF 4])
  have le2: "itf_expr_map s2 \<subseteq>\<^sub>m ?m" using grow le3 map_le_trans by blast
  have le1: "itf_expr_map s1 \<subseteq>\<^sub>m ?m" using grow le2 map_le_trans by blast
  show ?thesis
    using d grow le1 le2 le3 conjunct_tabled(2) [OF 4 map_le_refl]
    by (simp add: Unroll_base_def Let_def)
qed

text \<open>Two steps of the instruction that adds 9, with no predicates, in the model of the interface: the
  formula is false under every assignment of bit-vectors, as it says $x + 9 = x$.\<close>

definition unroller_n :: UnrollerSmt where
  "unroller_n = UnrollerSmt_new ''u''"

lemma unroller_n_preds:
  "global_pred unroller_n = []" "initial_pred unroller_n = []"
  "step_at (unroller_n\<lparr>deciding_vars := a, update_holder := b, assert_holder := c\<rparr>) k = []"
  by (simp_all add: unroller_n_def UnrollerSmt_new_def step_at_def)

lemma ux_eq: "ux = Expr 2 ''x'' (SortBv 4) (Some (Suc 0)) [] [] KVar"
  by (simp add: ux_def)

lemma unroll_heap_root: "root_of unroll_heap (Some (Suc 0)) = Inr ''m''"
  by (simp add: root_of_def GetRootName_def unroll_heap_def monad_simps ila_init_def)

lemma unroll_heap_deciding:
  "SetDecidingVars [3, 3] (unroller_n\<lparr>deciding_vars := [], update_holder := [], assert_holder := []\<rparr>) unroll_heap =
    Inr (unroller_n\<lparr>deciding_vars := [ux], update_holder := [], assert_holder := []\<rparr>, unroll_heap)"
proof -
  have "vec (snd (push_back ''x'' ux KeyVec_new)) = [ux]"
    using unroll_heap_entries(2) kv_entries_vec [of "snd (push_back ''x'' ux KeyVec_new)"] by simp
  then show ?thesis
    by (simp add: SetDecidingVars_def InsertStt_instr_def InsertStt_def monad_simps unroll_heap_def es_insert_def
        UnrollerSmt_new_def unroller_n_def)
qed

lemma unroll_heap_transition:
  assumes "i < 2"
  shows "MakeOneTransition [3, 3] i (unroller_n\<lparr>deciding_vars := [ux], update_holder := b, assert_holder := c\<rparr>) unroll_heap =
    Inr (unroller_n\<lparr>deciding_vars := [ux],
        update_holder := [Expr 5 ''$5'' (SortBv 4) (Some (Suc 0)) [] [ux, const9] (KOp kAdd)],
        assert_holder := [Expr 4 ''$4'' SortBool None [] [] (KConst (BoolVal True))]\<rparr>, unroll_heap)"
proof -
  have "instrs unroll_heap 3 = Some
      \<lparr>instr_name = ''i'', instr_host = Some 1,
       instr_decode = Some (Expr 4 ''$4'' SortBool None [] [] (KConst (BoolVal True))),
       instr_updates = [(''x'', Expr 5 ''$5'' (SortBv 4) (Some 1) [] [ux, const9] (KOp kAdd))], instr_prog = None\<rparr>"
    by (simp add: unroll_heap_def)
  moreover have "[3, 3] ! i = (3::nat)" using assms by (auto simp: less_2_cases_iff)
  moreover have "ename ux = ''x''" by (simp add: ux_def)
  ultimately show ?thesis
    using assms by (simp add: MakeOneTransition_def CompleteStateUpdate_def update_var_def update_def monad_simps)
qed

text \<open>Evaluation in the model of the interface.\<close>

lemma sw_model_run:
  "sw_symbol sw_model = sw_model_symbol"
  "sw_bool sw_model b = Inr (SwVal SBool (\<lambda>E. VBool b))"
  "sw_int sw_model i (SBv w) = Inr (SwVal (SBv w) (\<lambda>E. VBv (i mod 2 ^ nat w)))"
  "sw_term sw_model = sw_model_mk"
  "sw_model_mk Op_Equal [] [SwVal s v, SwVal s w'] = Inr (SwVal SBool (\<lambda>E. smt_sem Eqf [] [s, s] [v E, w' E]))"
  "sw_model_mk Op_And [] [SwVal SBool v, SwVal SBool w'] =
    Inr (SwVal SBool (\<lambda>E. smt_sem Andf [] [SBool, SBool] [v E, w' E]))"
  "0 < n \<Longrightarrow> sw_model_mk Op_BVAdd [] [SwVal (SBv n) v, SwVal (SBv n) w'] =
    Inr (SwVal (SBv n) (\<lambda>E. smt_sem Bvadd [] [SBv n, SBv n] [v E, w' E]))"
  by (simp_all add: sw_model_def sw_model_mk_def smt_sig_def sig_bool2_def sig_bv2_def)

lemma smt_sem_run:
  "smt_sem Bvadd [] [SBv 4, SBv 4] [VBv a, VBv b] = VBv ((a + b) mod 16)"
  "smt_sem Eqf [] [s, s'] [x, y] = VBool (x = y)"
  "smt_sem Andf [] [s, s'] [VBool p, VBool q] = VBool (p \<and> q)"
  by (simp_all add: smt_sem_def bool2_def bv2_def)

lemma add9_moves: "(a + 9) mod 16 \<noteq> (a :: int)"
  by presburger

lemmas GetSmtTerm_run =
  GetSmtTerm_def sw_pre_def sw_post_def sw_PopulateExprMap_def sbind_def Expr2Term_def ExprVar2Term_def
  slift_def IlaSort2SmtSort_def make_symbol_def ExprConst2Term_def ExprOp2Term_def make_term2_def at_def
  sw_model_symbol_def find_term_def map_add_def GetUidExprOp_def GetUidSort_def val_bv_def val_bool_def
  sw_Equal_def sw_BoolAnd_def sw_model_run smt_sem_run

lemma unroll_sw_run:
  "\<exists>t st' u' h'. Unroll (sw_shim sw_model) [3, 3] 0 unroller_n (SmtSwitchItf_new []) unroll_heap =
      Inr (((t, st'), u'), h') \<and>
    (\<forall>f. sw_model_den (zero_env\<lparr>env_const := (\<lambda>n s. VBv (f n))\<rparr>) t = VBool False)"
proof -
  have two: "[0 ..< 2] = [0, Suc 0]" by (simp add: upt_rec)
  show ?thesis
    unfolding Unroll_def Unroll_base_def
    by (simp add: two unroll_heap_root unroll_heap_deciding [unfolded ux_eq] unroll_heap_transition [unfolded ux_eq]
        unroller_n_preds ux_eq const9_def monad_simps Unroll_step_def Let_def InterpIlaExprAndAppend_def
        ElementWiseEqualAndAppend_def ConjunctAll_def BoolConst_def ExprConst_bool_def MakeBoolSort_def
        shim_expr_def sw_shim_def SmtSwitchItf_new_def GetSmtTerm_run add9_moves)
qed

theorem smt_switch_steps_alias_witness:
  "\<exists>t st' u' h'. Unroll (sw_shim sw_model) [3, 3] 0 unroller_n (SmtSwitchItf_new []) unroll_heap =
      Inr (((t, st'), u'), h') \<and>
    Unroll (table_shim sw_model (itf_expr_map st')) [3, 3] 5 unroller_n () unroll_heap = Inr (((t, ()), u'), h') \<and>
    (\<forall>f. sw_model_den (zero_env\<lparr>env_const := (\<lambda>n s. VBv (f n))\<rparr>) t = VBool False)"
  using unroll_sw_run smt_switch_steps_alias [of sw_model "SetDecidingVars [3, 3]" "MakeOneTransition [3, 3]"
      "length [3, 3 :: nat]" 0 unroller_n "SmtSwitchItf_new []" _ _ _ _ _ 5]
  unfolding Unroll_def by blast

end
