(* ===== verification/Unroller.thy ===== *)
theory Unroller
  imports UnrollerSmt
begin

text \<open>
  The unrollers over Z3 (src/ila-mngr/u\_unroller.cc and its header): the base class
  \<^verbatim>\<open>Unroller\<close> with three ways of unrolling, \<^verbatim>\<open>PathUnroll\<close> for a sequence of instructions and
  \<^verbatim>\<open>MonoUnroll\<close> for the monolithic transition relation of a tree of ILAs.

  The two virtual functions are parameters of the unrolling functions. \<^verbatim>\<open>z3::expr::substitute\<close> is a
  parameter besides the interface of theory Z3Gen. Step numbers are converted to \<^verbatim>\<open>int\<close>, which wraps
  at 32 bits.
\<close>

section \<open>The base class\<close>

record 't Unroller =
  vars :: "expr list"
  k_pred :: "expr list"
  k_next :: "expr list"
  extra_suff :: string
  g_pred :: "expr list"
  i_pred :: "expr list"
  s_pred :: "(int, expr list) map"
  k_prev_z3 :: "'t list"
  k_curr_z3 :: "'t list"
  k_next_z3 :: "'t list"
  cstr :: "'t list"

definition Unroller_new :: "string \<Rightarrow> 't Unroller" where
  "Unroller_new suff =
     \<lparr>vars = [], k_pred = [], k_next = [], extra_suff = suff, g_pred = [], i_pred = [], s_pred = Map.empty,
      k_prev_z3 = [], k_curr_z3 = [], k_next_z3 = [], cstr = []\<rparr>"

definition AddGlobPred :: "expr \<Rightarrow> 't Unroller \<Rightarrow> 't Unroller" where
  "AddGlobPred p u = u\<lparr>g_pred := g_pred u @ [p]\<rparr>"

definition AddInitPred :: "expr \<Rightarrow> 't Unroller \<Rightarrow> 't Unroller" where
  "AddInitPred p u = u\<lparr>i_pred := i_pred u @ [p]\<rparr>"

definition s_pred_at :: "'t Unroller \<Rightarrow> int \<Rightarrow> expr list" where
  "s_pred_at u k = (case s_pred u k of None \<Rightarrow> [] | Some ps \<Rightarrow> ps)"

definition AddStepPred :: "expr \<Rightarrow> int \<Rightarrow> 't Unroller \<Rightarrow> 't Unroller" where
  "AddStepPred p k u = u\<lparr>s_pred := (s_pred u)(k \<mapsto> s_pred_at u k @ [p])\<rparr>"

definition ClearGlobPred :: "'t Unroller \<Rightarrow> 't Unroller" where
  "ClearGlobPred u = u\<lparr>g_pred := []\<rparr>"

definition ClearInitPred :: "'t Unroller \<Rightarrow> 't Unroller" where
  "ClearInitPred u = u\<lparr>i_pred := []\<rparr>"

definition ClearStepPred :: "'t Unroller \<Rightarrow> 't Unroller" where
  "ClearStepPred u = u\<lparr>s_pred := Map.empty\<rparr>"

definition ClearPred :: "'t Unroller \<Rightarrow> 't Unroller" where
  "ClearPred u = ClearStepPred (ClearInitPred (ClearGlobPred u))"

text \<open>The conversion of \<^verbatim>\<open>size_t\<close> to \<^verbatim>\<open>int\<close>.\<close>

definition c_int :: "int \<Rightarrow> int" where
  "c_int i = signed_take_bit 31 i"

definition SuffCurr :: "'t Unroller \<Rightarrow> int \<Rightarrow> string" where
  "SuffCurr u t = int_to_string t @ ''_'' @ extra_suff u"

definition SuffNext :: "'t Unroller \<Rightarrow> int \<Rightarrow> string" where
  "SuffNext u t = int_to_string t @ ''_'' @ extra_suff u @ ''.nxt''"

text \<open>\<^verbatim>\<open>gen().GetExpr\<close> in the monad of the heap.\<close>

definition gen_GetExpr :: "'t z3_api \<Rightarrow> expr \<Rightarrow> string \<Rightarrow> 't M" where
  "gen_GetExpr ctx e suffix = (\<lambda>h. rbind (GetExpr ctx h e suffix) (\<lambda>t. Inr (t, h)))"

definition CurrState :: "'t z3_api \<Rightarrow> 't Unroller \<Rightarrow> expr \<Rightarrow> int \<Rightarrow> 't M" where
  "CurrState ctx u v t =
     bnd (ila_assert (is_var v) ''Use GetZ3Expr for non-var Expr'') (\<lambda>_. gen_GetExpr ctx v (SuffCurr u t))"

definition NextState :: "'t z3_api \<Rightarrow> 't Unroller \<Rightarrow> expr \<Rightarrow> int \<Rightarrow> 't M" where
  "NextState ctx u v t =
     bnd (ila_assert (is_var v) ''Next state only exist for var'') (\<lambda>_. gen_GetExpr ctx v (SuffNext u t))"

definition Unroller_GetZ3Expr :: "'t z3_api \<Rightarrow> 't Unroller \<Rightarrow> expr \<Rightarrow> int \<Rightarrow> 't M" where
  "Unroller_GetZ3Expr ctx u e t = gen_GetExpr ctx e (SuffCurr u t)"

definition Unroller_GetZ3Expr_plain :: "'t z3_api \<Rightarrow> 't Unroller \<Rightarrow> expr \<Rightarrow> 't M" where
  "Unroller_GetZ3Expr_plain ctx u e = gen_GetExpr ctx e (extra_suff u)"

definition Unroller_Equal :: "'t z3_api \<Rightarrow> 't Unroller \<Rightarrow> expr \<Rightarrow> int \<Rightarrow> expr \<Rightarrow> int \<Rightarrow> 't M" where
  "Unroller_Equal ctx u a ta b tb =
     bnd (gen_GetExpr ctx a (SuffCurr u ta)) (\<lambda>a_expr.
     bnd (gen_GetExpr ctx b (SuffCurr u tb)) (\<lambda>b_expr.
     lift (z3_mk ctx Z3_eq [] [a_expr, b_expr])))"

definition Unroller_GetZ3FuncDecl :: "Func \<Rightarrow> z3_decl M" where
  "Unroller_GetZ3FuncDecl f = (\<lambda>h. rbind (GetZ3FuncDecl h f) (\<lambda>d. Inr (d, h)))"

definition StateUpdCmpl :: "Instr \<Rightarrow> expr \<Rightarrow> expr" where
  "StateUpdCmpl x var = (case update_var x var of Some upd \<Rightarrow> upd | None \<Rightarrow> var)"

definition DecodeCmpl :: "Instr \<Rightarrow> expr M" where
  "DecodeCmpl x = (case instr_decode x of Some dec \<Rightarrow> ret dec | None \<Rightarrow> BoolConst True)"

definition NewFreeVar :: "expr \<Rightarrow> string \<Rightarrow> expr M" where
  "NewFreeVar var name =
     bnd (not_null (ehost var)) (\<lambda>host.
     if e_is_bool var then NewBoolFreeVar host name
     else if e_is_bv var then bnd (lift (bit_width (esort var))) (NewBvFreeVar host name)
     else bnd (ila_assert (e_is_mem var) ''Unknown sort'') (\<lambda>_.
       bnd (lift (addr_width (esort var))) (\<lambda>a. bnd (lift (data_width (esort var))) (\<lambda>d.
         NewMemFreeVar host name a d))))"

definition IExprToZExpr :: "'t z3_api \<Rightarrow> expr list \<Rightarrow> string \<Rightarrow> 't list \<Rightarrow> 't list M" where
  "IExprToZExpr ctx i_expr_src suffix =
     foldM (\<lambda>e dst. bnd (gen_GetExpr ctx e suffix) (\<lambda>z. ret (dst @ [z]))) i_expr_src"

type_synonym 't z3_subst = "'t list \<Rightarrow> 't list \<Rightarrow> 't \<Rightarrow> 't result"

definition IExprToZExpr_subs ::
  "'t z3_api \<Rightarrow> 't z3_subst \<Rightarrow> expr list \<Rightarrow> string \<Rightarrow> 't list \<Rightarrow> 't list \<Rightarrow> 't list \<Rightarrow> 't list M" where
  "IExprToZExpr_subs ctx substitute i_expr_src suffix subs_src subs_dst =
     foldM (\<lambda>e dst. bnd (gen_GetExpr ctx e suffix) (\<lambda>z.
        bnd (lift (substitute subs_src subs_dst z)) (\<lambda>z_subs. ret (dst @ [z_subs])))) i_expr_src"

definition AssertEqual :: "'t z3_api \<Rightarrow> 't list \<Rightarrow> expr list \<Rightarrow> string \<Rightarrow> 't list \<Rightarrow> 't list M" where
  "AssertEqual ctx a b suffix cs =
     bnd (ila_assert (length a = length b) ''Var num mismatch.'') (\<lambda>_.
     foldM (\<lambda>(ai, e) cs. bnd (gen_GetExpr ctx e suffix) (\<lambda>bi.
        bnd (lift (z3_mk ctx Z3_eq [] [ai, bi])) (\<lambda>equal. ret (cs @ [equal])))) (zip a b) cs)"

definition ConjPred :: "'t z3_api \<Rightarrow> 't list \<Rightarrow> 't M" where
  "ConjPred ctx zs =
     bnd (lift (z3_bool_val ctx True)) (\<lambda>conj.
     bnd (foldM (\<lambda>t conj. lift (z3_mk ctx Z3_and [] [conj, t])) zs conj) (\<lambda>conj.
     ret (z3_simplify ctx conj)))"

definition BootStrap ::
  "'t z3_api \<Rightarrow> ('t Unroller \<Rightarrow> 't Unroller M) \<Rightarrow> int \<Rightarrow> bool \<Rightarrow> 't Unroller \<Rightarrow> 't Unroller M" where
  "BootStrap ctx DefineDepVar pos cache u =
     (if \<not> cache then
        bnd (DefineDepVar (u\<lparr>vars := [], k_pred := [], k_next := []\<rparr>)) (\<lambda>u.
        bnd (ila_assert (vars u \<noteq> []) ''No state variable defined.'') (\<lambda>_.
        bnd (IExprToZExpr ctx (vars u) (SuffCurr u pos) []) (\<lambda>zvars.
        ret (u\<lparr>k_prev_z3 := zvars, k_curr_z3 := [], k_next_z3 := [], cstr := []\<rparr>))))
      else if vars u = [] then
        bnd (DefineDepVar u) (\<lambda>u.
        bnd (ila_assert (k_prev_z3 u = []) ''Unexpected behavior in cacheing'') (\<lambda>_.
        bnd (IExprToZExpr ctx (vars u) (SuffCurr u pos) (k_prev_z3 u)) (\<lambda>zvars.
        ret (u\<lparr>k_prev_z3 := zvars\<rparr>))))
      else ret u)"

section \<open>Unrolling with substitution\<close>

definition Subs_step ::
  "'t z3_api \<Rightarrow> 't z3_subst \<Rightarrow> (int \<Rightarrow> 't Unroller \<Rightarrow> 't Unroller M) \<Rightarrow> int \<Rightarrow> nat \<Rightarrow> 't Unroller \<Rightarrow> 't Unroller M" where
  "Subs_step ctx substitute Transition pos i u =
     (let k_suffix = SuffCurr u (c_int (pos + int i)) in
     bnd (Transition (c_int (int i)) u) (\<lambda>u.
     bnd (IExprToZExpr ctx (vars u) k_suffix []) (\<lambda>subs_src.
     let subs_dst = k_prev_z3 u; conv = (\<lambda>es. IExprToZExpr_subs ctx substitute es k_suffix subs_src subs_dst) in
     bnd (if i = 0 then conv (i_pred u) (cstr u) else ret (cstr u)) (\<lambda>cs.
     bnd (conv (g_pred u) cs) (\<lambda>cs.
     bnd (conv (k_pred u) cs) (\<lambda>cs.
     bnd (conv (s_pred_at u (c_int (int i))) cs) (\<lambda>cs.
     bnd (conv (k_next u) []) (\<lambda>nxt.
     ret (u\<lparr>k_curr_z3 := subs_src, cstr := cs, k_next_z3 := nxt, k_prev_z3 := nxt\<rparr>)))))))))"

definition end_preds :: "'t z3_api \<Rightarrow> nat \<Rightarrow> 't Unroller \<Rightarrow> 't Unroller M" where
  "end_preds ctx len u =
     (let k_suffix = SuffCurr u (c_int (int len)) in
     bnd (IExprToZExpr ctx (g_pred u) k_suffix (cstr u)) (\<lambda>cs.
     bnd (IExprToZExpr ctx (s_pred_at u (c_int (int len))) k_suffix cs) (\<lambda>cs.
     ret (u\<lparr>cstr := cs\<rparr>))))"

definition UnrollSubs ::
  "'t z3_api \<Rightarrow> 't z3_subst \<Rightarrow> ('t Unroller \<Rightarrow> 't Unroller M) \<Rightarrow> (int \<Rightarrow> 't Unroller \<Rightarrow> 't Unroller M) \<Rightarrow>
   nat \<Rightarrow> int \<Rightarrow> 't Unroller \<Rightarrow> ('t \<times> 't Unroller) M" where
  "UnrollSubs ctx substitute DefineDepVar Transition len pos u =
     bnd (BootStrap ctx DefineDepVar pos False u) (\<lambda>u.
     bnd (foldM (Subs_step ctx substitute Transition pos) [0 ..< len] u) (\<lambda>u.
     bnd (AssertEqual ctx (k_prev_z3 u) (vars u) (SuffCurr u (c_int (int len))) (cstr u)) (\<lambda>cs.
     bnd (end_preds ctx len (u\<lparr>cstr := cs\<rparr>)) (\<lambda>u.
     bnd (ConjPred ctx (cstr u)) (\<lambda>t. ret (t, u))))))"

section \<open>Unrolling with assertions\<close>

definition Assn_step ::
  "'t z3_api \<Rightarrow> (int \<Rightarrow> 't Unroller \<Rightarrow> 't Unroller M) \<Rightarrow> int \<Rightarrow> nat \<Rightarrow> 't Unroller \<Rightarrow> 't Unroller M" where
  "Assn_step ctx Transition pos i u =
     (let k_suffix = SuffCurr u (c_int (pos + int i)); conv = (\<lambda>es. IExprToZExpr ctx es k_suffix) in
     bnd (Transition (c_int (int i)) u) (\<lambda>u.
     bnd (if i = 0 then conv (i_pred u) (cstr u) else ret (cstr u)) (\<lambda>cs.
     bnd (conv (g_pred u) cs) (\<lambda>cs.
     bnd (conv (s_pred_at u (c_int (int i))) cs) (\<lambda>cs.
     bnd (conv (k_pred u) cs) (\<lambda>cs.
     bnd (conv (k_next u) []) (\<lambda>nxt.
     bnd (AssertEqual ctx nxt (vars u) (SuffCurr u (c_int (pos + int i + 1))) cs) (\<lambda>cs.
     ret (u\<lparr>cstr := cs, k_next_z3 := nxt\<rparr>)))))))))"

definition UnrollAssn ::
  "'t z3_api \<Rightarrow> ('t Unroller \<Rightarrow> 't Unroller M) \<Rightarrow> (int \<Rightarrow> 't Unroller \<Rightarrow> 't Unroller M) \<Rightarrow>
   nat \<Rightarrow> int \<Rightarrow> bool \<Rightarrow> 't Unroller \<Rightarrow> ('t \<times> 't Unroller) M" where
  "UnrollAssn ctx DefineDepVar Transition len pos cache u =
     bnd (BootStrap ctx DefineDepVar pos cache u) (\<lambda>u.
     bnd (foldM (Assn_step ctx Transition pos) [0 ..< len] u) (\<lambda>u.
     bnd (end_preds ctx len u) (\<lambda>u.
     bnd (ConjPred ctx (cstr u)) (\<lambda>t. ret (t, u)))))"

section \<open>Unrolling without connecting the steps\<close>

definition None_step ::
  "'t z3_api \<Rightarrow> (int \<Rightarrow> 't Unroller \<Rightarrow> 't Unroller M) \<Rightarrow> int \<Rightarrow> nat \<Rightarrow> 't Unroller \<Rightarrow> 't Unroller M" where
  "None_step ctx Transition pos i u =
     (let k_suffix = SuffCurr u (c_int (pos + int i)); conv = (\<lambda>es. IExprToZExpr ctx es k_suffix) in
     bnd (Transition (c_int (int i)) u) (\<lambda>u.
     bnd (if i = 0 then conv (i_pred u) (cstr u) else ret (cstr u)) (\<lambda>cs.
     bnd (conv (g_pred u) cs) (\<lambda>cs.
     bnd (conv (k_pred u) cs) (\<lambda>cs.
     bnd (conv (s_pred_at u (c_int (int i))) cs) (\<lambda>cs.
     bnd (conv (k_next u) []) (\<lambda>nxt.
     bnd (AssertEqual ctx nxt (vars u) (SuffNext u (c_int (pos + int i))) cs) (\<lambda>cs.
     ret (u\<lparr>cstr := cs, k_next_z3 := nxt\<rparr>)))))))))"

definition UnrollNone ::
  "'t z3_api \<Rightarrow> ('t Unroller \<Rightarrow> 't Unroller M) \<Rightarrow> (int \<Rightarrow> 't Unroller \<Rightarrow> 't Unroller M) \<Rightarrow>
   nat \<Rightarrow> int \<Rightarrow> 't Unroller \<Rightarrow> ('t \<times> 't Unroller) M" where
  "UnrollNone ctx DefineDepVar Transition len pos u =
     bnd (BootStrap ctx DefineDepVar pos False u) (\<lambda>u.
     bnd (foldM (None_step ctx Transition pos) [0 ..< len] u) (\<lambda>u.
     bnd (ConjPred ctx (cstr u)) (\<lambda>t. ret (t, u))))"

section \<open>PathUnroll\<close>

text \<open>The sequence is set by every call before it is read, so it is an argument.\<close>

definition Path_DefineDepVar :: "nat list \<Rightarrow> 't Unroller \<Rightarrow> 't Unroller M" where
  "Path_DefineDepVar iseq u = bnd (foldM InsertStt_instr iseq []) (\<lambda>dep_var. ret (u\<lparr>vars := dep_var\<rparr>))"

definition Path_Transition :: "nat list \<Rightarrow> int \<Rightarrow> 't Unroller \<Rightarrow> 't Unroller M" where
  "Path_Transition iseq idx u =
     bnd (ila_check (idx < c_int (int (length iseq))) ''Out-of-bound transition not defined.'') (\<lambda>_.
     bnd (lift (if 0 \<le> idx \<and> nat idx < length iseq then Inr (iseq ! nat idx) else Inl OutOfRange)) (\<lambda>i.
     bnd (get_instr i) (\<lambda>x.
     bnd (not_null (instr_decode x)) (\<lambda>dec.
     ret (u\<lparr>k_next := map (StateUpdCmpl x) (vars u), k_pred := [dec]\<rparr>)))))"

definition PathSubs :: "'t z3_api \<Rightarrow> 't z3_subst \<Rightarrow> nat list \<Rightarrow> int \<Rightarrow> 't Unroller \<Rightarrow> ('t \<times> 't Unroller) M" where
  "PathSubs ctx substitute iseq pos u =
     UnrollSubs ctx substitute (Path_DefineDepVar iseq) (Path_Transition iseq) (length iseq) pos u"

definition PathAssn :: "'t z3_api \<Rightarrow> nat list \<Rightarrow> int \<Rightarrow> 't Unroller \<Rightarrow> ('t \<times> 't Unroller) M" where
  "PathAssn ctx iseq pos u =
     UnrollAssn ctx (Path_DefineDepVar iseq) (Path_Transition iseq) (length iseq) pos False u"

definition PathNone :: "'t z3_api \<Rightarrow> nat list \<Rightarrow> int \<Rightarrow> 't Unroller \<Rightarrow> ('t \<times> 't Unroller) M" where
  "PathNone ctx iseq pos u =
     UnrollNone ctx (Path_DefineDepVar iseq) (Path_Transition iseq) (length iseq) pos u"

section \<open>MonoUnroll\<close>

definition Mono_DefineDepVar :: "nat \<Rightarrow> 't Unroller \<Rightarrow> 't Unroller M" where
  "Mono_DefineDepVar root u =
     bnd (GetSttTree root) (\<lambda>dep_var.
     bnd (ila_assert (dep_var \<noteq> []) ''No state var found.'') (\<lambda>_. ret (u\<lparr>vars := dep_var\<rparr>)))"

definition sel_bit :: "nat \<Rightarrow> expr M" where
  "sel_bit i = bnd (get_instr i) (\<lambda>x. bnd (lift (case instr_host x of None \<Rightarrow> Inl NullDeref | Some p \<Rightarrow> Inr p)) (\<lambda>host.
     NewBoolFreeVar host (instr_name x @ ''.sel'')))"

text \<open>The constraints of one instruction on one variable: the accumulators are the negated decodes,
  the decode and the update constraints.\<close>

definition mono_instr :: "expr \<Rightarrow> expr \<Rightarrow> nat \<times> expr \<Rightarrow> expr \<times> expr \<times> expr \<Rightarrow> (expr \<times> expr \<times> expr) M" where
  "mono_instr var var_next = (\<lambda>(i, sel) (not_dec, acc_dec, acc_upd).
     bnd (get_instr i) (\<lambda>x.
     bnd (DecodeCmpl x) (\<lambda>decode.
     bnd (bnd (Imply sel decode) (AndE acc_dec)) (\<lambda>acc_dec.
     bnd (bnd (NotE decode) (AndE not_dec)) (\<lambda>not_dec.
     bnd (EqE var_next (StateUpdCmpl x var)) (\<lambda>equal.
     bnd (bnd (Imply sel equal) (AndE acc_upd)) (\<lambda>acc_upd.
     ret (not_dec, acc_dec, acc_upd))))))))"

definition mono_var ::
  "nat list \<Rightarrow> expr list \<Rightarrow> expr \<Rightarrow> expr \<Rightarrow> expr list \<times> expr list \<Rightarrow> (expr list \<times> expr list) M" where
  "mono_var instr_set sel_bits sel_dum var = (\<lambda>(nxt, pred).
     bnd (NewFreeVar var (ename var @ ''.vnxt'')) (\<lambda>var_next.
     bnd (BoolConst True) (\<lambda>not_dec. bnd (BoolConst True) (\<lambda>acc_dec. bnd (BoolConst True) (\<lambda>acc_upd.
     bnd (foldM (mono_instr var var_next) (zip instr_set sel_bits) (not_dec, acc_dec, acc_upd))
       (\<lambda>(not_dec, acc_dec, acc_upd).
     bnd (bnd (Imply sel_dum not_dec) (AndE acc_dec)) (\<lambda>acc_dec.
     bnd (bnd (EqE var_next var) (\<lambda>eq. bnd (Imply sel_dum eq) (AndE acc_upd))) (\<lambda>acc_upd.
     ret (nxt @ [var_next], pred @ [acc_dec, acc_upd])))))))))"

fun at_most_one :: "expr list \<Rightarrow> expr \<Rightarrow> expr M" where
  "at_most_one [] acc = ret acc"
| "at_most_one (sel_i # sels) acc =
     bnd (foldM (\<lambda>sel_j acc. bnd (NotE sel_i) (\<lambda>ni. bnd (NotE sel_j) (\<lambda>nj.
        bnd (OrE ni nj) (AndE acc)))) sels acc) (at_most_one sels)"

definition Mono_Transition :: "nat \<Rightarrow> int \<Rightarrow> 't Unroller \<Rightarrow> 't Unroller M" where
  "Mono_Transition root idx u =
     (if k_next u \<noteq> [] then
        bnd (ila_assert (length (k_next u) = length (vars u)) ''Table size mismatch.'') (\<lambda>_. ret u)
      else
        bnd (GetInstrTree root) (\<lambda>instr_set.
        bnd (mapM sel_bit instr_set) (\<lambda>sel_bits.
        bnd (get_ila root) (\<lambda>_.
        bnd (NewBoolFreeVar root ''dead.sel'') (\<lambda>sel_dum.
        bnd (foldM (mono_var instr_set sel_bits sel_dum) (vars u) (k_next u, k_pred u)) (\<lambda>(nxt, pred).
        bnd (foldM (\<lambda>sel_i acc. OrE acc sel_i) sel_bits sel_dum) (\<lambda>at_least_one.
        bnd (BoolConst True) (\<lambda>c.
        bnd (at_most_one sel_bits c) (\<lambda>most.
        ret (u\<lparr>k_next := nxt, k_pred := pred @ [at_least_one, most]\<rparr>))))))))))"

text \<open>The conversion of an \<^verbatim>\<open>int\<close> to \<^verbatim>\<open>size_t\<close>.\<close>

definition size_of_int :: "int \<Rightarrow> nat" where
  "size_of_int i = nat (i mod 2 ^ 64)"

definition MonoSubs :: "'t z3_api \<Rightarrow> 't z3_subst \<Rightarrow> nat \<Rightarrow> int \<Rightarrow> int \<Rightarrow> 't Unroller \<Rightarrow> ('t \<times> 't Unroller) M" where
  "MonoSubs ctx substitute root len pos u =
     UnrollSubs ctx substitute (Mono_DefineDepVar root) (Mono_Transition root) (size_of_int len) pos u"

definition MonoAssn :: "'t z3_api \<Rightarrow> nat \<Rightarrow> int \<Rightarrow> int \<Rightarrow> 't Unroller \<Rightarrow> ('t \<times> 't Unroller) M" where
  "MonoAssn ctx root len pos u =
     UnrollAssn ctx (Mono_DefineDepVar root) (Mono_Transition root) (size_of_int len) pos False u"

definition MonoNone :: "'t z3_api \<Rightarrow> nat \<Rightarrow> int \<Rightarrow> int \<Rightarrow> 't Unroller \<Rightarrow> ('t \<times> 't Unroller) M" where
  "MonoNone ctx root len pos u =
     UnrollNone ctx (Mono_DefineDepVar root) (Mono_Transition root) (size_of_int len) pos u"

definition MonoIncr :: "'t z3_api \<Rightarrow> nat \<Rightarrow> int \<Rightarrow> int \<Rightarrow> 't Unroller \<Rightarrow> ('t \<times> 't Unroller) M" where
  "MonoIncr ctx root len pos u =
     UnrollAssn ctx (Mono_DefineDepVar root) (Mono_Transition root) (size_of_int len) pos False u"

section \<open>What an unrolling says\<close>

text \<open>A step under a source and a target interpretation: the predicates hold in the source, and the
  target gives every variable the value that its next-state expression has in the source.\<close>

definition preds_hold :: "'t Unroller \<Rightarrow> nat \<Rightarrow> interp \<Rightarrow> bool" where
  "preds_hold u i I =
     ((\<forall>p \<in> set (g_pred u). holds I p) \<and> (\<forall>p \<in> set (s_pred_at u (c_int (int i))). holds I p))"

definition source_holds :: "'t Unroller \<Rightarrow> (nat \<Rightarrow> expr list) \<Rightarrow> nat \<Rightarrow> interp \<Rightarrow> bool" where
  "source_holds u pr i I =
     (preds_hold u i I \<and> (i = 0 \<longrightarrow> (\<forall>p \<in> set (i_pred u). holds I p)) \<and> (\<forall>p \<in> set (pr i). holds I p))"

definition next_holds :: "expr list \<Rightarrow> expr list \<Rightarrow> interp \<Rightarrow> interp \<Rightarrow> bool" where
  "next_holds nx vs I J = list_all2 (\<lambda>e v. eval J v = eval I e) nx vs"

text \<open>Predicates of the caller that can be translated.\<close>

definition preds_enc :: "heap \<Rightarrow> 't Unroller \<Rightarrow> bool" where
  "preds_enc h u =
     ((\<forall>p \<in> set (g_pred u) \<union> set (i_pred u). bool_pred encodable h p) \<and>
      (\<forall>k. \<forall>p \<in> set (s_pred_at u k). bool_pred encodable h p))"

text \<open>What the virtual function \<open>Transition\<close> provides on a heap: in the states of the loop it sets the
  step predicates \<open>pr i\<close> and the next-state expressions \<open>nx i\<close> of the variables \<open>vs\<close>.\<close>

definition transits ::
  "heap \<Rightarrow> nat \<Rightarrow> expr list \<Rightarrow> (expr list \<Rightarrow> expr list \<Rightarrow> bool) \<Rightarrow> (int \<Rightarrow> 't Unroller \<Rightarrow> 't Unroller M) \<Rightarrow>
   (nat \<Rightarrow> expr list) \<Rightarrow> (nat \<Rightarrow> expr list) \<Rightarrow> bool" where
  "transits h len vs J Transition pr nx =
     (heap_inv h \<and> (\<forall>v \<in> set vs. encodable h v) \<and>
      (\<forall>i < len. J (pr i) (nx i) \<and> (\<forall>p \<in> set (pr i). bool_pred encodable h p) \<and>
         list_all2 (\<lambda>e v. encodable h e \<and> esort e = esort v) (nx i) vs \<and>
         (\<forall>u. vars u = vs \<longrightarrow> J (k_pred u) (k_next u) \<longrightarrow>
            Transition (c_int (int i)) u h = Inr (u\<lparr>k_next := nx i, k_pred := pr i\<rparr>, h))))"

text \<open>Updates of the working fields change neither the predicates nor the suffixes.\<close>

definition same_spec :: "'t Unroller \<Rightarrow> 't Unroller \<Rightarrow> bool" where
  "same_spec u u' =
     (vars u' = vars u \<and> extra_suff u' = extra_suff u \<and> g_pred u' = g_pred u \<and> i_pred u' = i_pred u \<and> s_pred u' = s_pred u)"

lemma same_specD:
  assumes "same_spec u u'"
  shows "vars u' = vars u" "SuffCurr u' = SuffCurr u" "SuffNext u' = SuffNext u" "g_pred u' = g_pred u"
    "i_pred u' = i_pred u" "s_pred_at u' = s_pred_at u" "preds_hold u' = preds_hold u"
    "source_holds u' = source_holds u" "preds_enc h u' = preds_enc h u"
  using assms
  by (auto simp: same_spec_def fun_eq_iff SuffCurr_def SuffNext_def s_pred_at_def preds_hold_def source_holds_def preds_enc_def)

lemma same_spec_trans: "same_spec u v \<Longrightarrow> same_spec v w \<Longrightarrow> same_spec u w"
  by (simp add: same_spec_def)

lemma spec_vars:
  "source_holds (u\<lparr>vars := vs\<rparr>) = source_holds u" "preds_hold (u\<lparr>vars := vs\<rparr>) = preds_hold u"
  "SuffCurr (u\<lparr>vars := vs\<rparr>) = SuffCurr u" "SuffNext (u\<lparr>vars := vs\<rparr>) = SuffNext u"
  "preds_enc h (u\<lparr>vars := vs\<rparr>) = preds_enc h u"
  by (auto simp: fun_eq_iff source_holds_def preds_hold_def s_pred_at_def SuffCurr_def SuffNext_def preds_enc_def)

lemma IExprToZExpr_shim:
  "IExprToZExpr ctx es suffix dst = bnd (InterpIlaExprAndAppend (z3_shim ctx) es suffix (dst, ())) (\<lambda>(ts, _). ret ts)"
proof (induction es arbitrary: dst)
  case Nil
  then show ?case by (simp add: IExprToZExpr_def InterpIlaExprAndAppend_def)
next
  case (Cons e es)
  have "shim_expr (z3_shim ctx) e suffix () = bnd (gen_GetExpr ctx e suffix) (\<lambda>t. ret (t, ()))"
    by (auto simp: fun_eq_iff shim_expr_def z3_shim_def gen_GetExpr_def bnd_def ret_def rbind_def split: sum.splits)
  with Cons show ?case by (simp add: IExprToZExpr_def InterpIlaExprAndAppend_def bnd_assoc)
qed

context z3_backend
begin

lemma iexpr_run:
  assumes "heap_inv h" "\<forall>e \<in> set es. encodable h e"
  shows "\<exists>ts. IExprToZExpr ctx es suffix dst h = Inr (dst @ ts, h) \<and> list_all2 (z3_gen.stands h suffix) es ts"
  using z3_gen.interp_append [OF assms TrueI, of suffix dst] by (auto simp: IExprToZExpr_shim monad_simps)

lemma iexpr_preds:
  assumes "heap_inv h" "\<forall>e \<in> set es. bool_pred encodable h e" "z3_gen.says dst P"
  shows "\<exists>ts. IExprToZExpr ctx es suffix dst h = Inr (ts, h) \<and>
     z3_gen.says ts (\<lambda>E. P E \<and> (\<forall>e \<in> set es. holds (z3_interp h suffix E) e))"
  using z3_gen.pred_append [OF assms(1,2) TrueI assms(3), of suffix] by (auto simp: IExprToZExpr_shim monad_simps)

lemma assert_equal:
  assumes "heap_inv h" "\<forall>v \<in> set vs. encodable h v" "list_all2 (\<lambda>a v. tsort a = smt_sort_of (esort v)) as vs"
  shows "z3_gen.says cs P \<Longrightarrow> \<exists>ts. AssertEqual ctx as vs suffix cs h = Inr (ts, h) \<and>
     z3_gen.says ts (\<lambda>E. P E \<and> list_all2 (\<lambda>a v. den E a = eval (z3_interp h suffix E) v) as vs)"
  using assms(3,2)
proof (induction arbitrary: cs P rule: list_all2_induct)
  case Nil
  then show ?case by (simp add: AssertEqual_def monad_simps)
next
  case (Cons a as v vs)
  obtain b where b: "GetExpr ctx h v suffix = Inr b" "denotes h suffix v b"
    using GetExpr_denotes [OF assms(1), of v suffix] Cons.prems(2) by auto
  obtain t where t: "z3_mk ctx Z3_eq [] [a, b] = Inr t" "z3_gen.says [t] (\<lambda>E. den E a = eval (z3_interp h suffix E) v)"
    using z3_gen.gen_eq [of a b] b(2) Cons.hyps(1)
    by (auto simp: is_term_def z3_gen.says_def z3_shim_def z3_Equal_def denotes_def stands_for_def)
  have vs: "\<forall>v \<in> set vs. encodable h v" using Cons.prems(2) by simp
  from Cons.IH [OF z3_gen.says_append [OF Cons.prems(1) t(2)] vs] obtain ts where
    ts: "AssertEqual ctx as vs suffix (cs @ [t]) h = Inr (ts, h)"
      "z3_gen.says ts (\<lambda>E. (P E \<and> den E a = eval (z3_interp h suffix E) v) \<and>
         list_all2 (\<lambda>a v. den E a = eval (z3_interp h suffix E) v) as vs)" by blast
  have "AssertEqual ctx (a # as) (v # vs) suffix cs h = Inr (ts, h)"
    using ts(1) t(1) b(1) by (simp add: AssertEqual_def gen_GetExpr_def)
  moreover have "z3_gen.says ts (\<lambda>E. P E \<and> list_all2 (\<lambda>a v. den E a = eval (z3_interp h suffix E) v) (a # as) (v # vs))"
    by (rule z3_gen.says_cong [OF ts(2)]) auto
  ultimately show ?case by blast
qed

lemma conj_pred:
  assumes "z3_gen.says ts P"
  shows "\<exists>t. ConjPred ctx ts h = Inr (t, h) \<and> tsort t = SBool \<and> (\<forall>E. env_ok E \<longrightarrow> den E t = VBool (P E))"
proof -
  obtain c where c: "z3_bool_val ctx True = Inr c" "z3_gen.says [c] (\<lambda>E. True)"
    using bool_val [of True] by (auto simp: is_term_def z3_gen.says_def)
  from z3_gen.says_append [OF c(2) assms] have "z3_gen.says (c # ts) P" by simp
  from z3_gen.and_fold [OF this, of h] obtain t where
    "foldM (\<lambda>e acc. lift (BoolAnd (z3_shim ctx) acc e)) ts c h = Inr (t, h)" "tsort t = SBool"
    "\<forall>E. env_ok E \<longrightarrow> den E t = VBool (P E)" by blast
  then show ?thesis using c(1) by (simp add: ConjPred_def z3_shim_def z3_BoolAnd_def [abs_def] simplify)
qed

text \<open>Four lists of predicates in a row, the first under a condition.\<close>

lemma conv_preds:
  assumes h: "heap_inv h" and "\<forall>e \<in> set as. bool_pred encodable h e" "\<forall>e \<in> set bs. bool_pred encodable h e"
    "\<forall>e \<in> set cs. bool_pred encodable h e" "\<forall>e \<in> set ds. bool_pred encodable h e" and P: "z3_gen.says ts P"
  shows "\<exists>t1 t2 t3 t4. (if b then IExprToZExpr ctx as suffix ts else ret ts) h = Inr (t1, h) \<and>
    IExprToZExpr ctx bs suffix t1 h = Inr (t2, h) \<and> IExprToZExpr ctx cs suffix t2 h = Inr (t3, h) \<and>
    IExprToZExpr ctx ds suffix t3 h = Inr (t4, h) \<and>
    z3_gen.says t4 (\<lambda>E. P E \<and> (b \<longrightarrow> (\<forall>e \<in> set as. holds (z3_interp h suffix E) e)) \<and>
      (\<forall>e \<in> set bs \<union> set cs \<union> set ds. holds (z3_interp h suffix E) e))"
proof -
  let ?H = "\<lambda>es E. \<forall>e \<in> set es. holds (z3_interp h suffix E) e"
  obtain t1 where 1: "(if b then IExprToZExpr ctx as suffix ts else ret ts) h = Inr (t1, h)"
    "z3_gen.says t1 (\<lambda>E. P E \<and> (b \<longrightarrow> ?H as E))"
    using iexpr_preds [OF h assms(2) P, of suffix] P by (cases b) auto
  obtain t2 where 2: "IExprToZExpr ctx bs suffix t1 h = Inr (t2, h)"
    "z3_gen.says t2 (\<lambda>E. (P E \<and> (b \<longrightarrow> ?H as E)) \<and> ?H bs E)"
    using iexpr_preds [OF h assms(3) 1(2)] by blast
  obtain t3 where 3: "IExprToZExpr ctx cs suffix t2 h = Inr (t3, h)"
    "z3_gen.says t3 (\<lambda>E. ((P E \<and> (b \<longrightarrow> ?H as E)) \<and> ?H bs E) \<and> ?H cs E)"
    using iexpr_preds [OF h assms(4) 2(2)] by blast
  obtain t4 where 4: "IExprToZExpr ctx ds suffix t3 h = Inr (t4, h)"
    "z3_gen.says t4 (\<lambda>E. (((P E \<and> (b \<longrightarrow> ?H as E)) \<and> ?H bs E) \<and> ?H cs E) \<and> ?H ds E)"
    using iexpr_preds [OF h assms(5) 3(2)] by blast
  have "z3_gen.says t4 (\<lambda>E. P E \<and> (b \<longrightarrow> ?H as E) \<and> (\<forall>e \<in> set bs \<union> set cs \<union> set ds. holds (z3_interp h suffix E) e))"
    by (rule z3_gen.says_cong [OF 4(2)]) auto
  with 1(1) 2(1) 3(1) 4(1) show ?thesis by blast
qed

lemma next_equal:
  assumes "list_all2 (z3_gen.stands h s) nx ts" "list_all2 (\<lambda>e v. encodable h e \<and> esort e = esort v) nx vs"
  shows "list_all2 (\<lambda>a v. tsort a = smt_sort_of (esort v)) ts vs"
    and "env_ok E \<Longrightarrow> list_all2 (\<lambda>a v. den E a = eval J v) ts vs \<longleftrightarrow> next_holds nx vs (z3_interp h s E) J"
  using assms
  by (induction nx arbitrary: ts vs) (auto simp: list_all2_Cons1 z3_gen.stands_def next_holds_def)

lemma assert_next:
  assumes "heap_inv h" "\<forall>v \<in> set vs. encodable h v"
    "list_all2 (\<lambda>e v. encodable h e \<and> esort e = esort v) nx vs" "z3_gen.says cs P"
  shows "\<exists>nxt ts. IExprToZExpr ctx nx s [] h = Inr (nxt, h) \<and> AssertEqual ctx nxt vs s' cs h = Inr (ts, h) \<and>
    z3_gen.says ts (\<lambda>E. P E \<and> next_holds nx vs (z3_interp h s E) (z3_interp h s' E))"
proof -
  have "\<forall>e \<in> set nx. encodable h e" using assms(3) by (auto simp: list_all2_conv_all_nth in_set_conv_nth)
  then obtain nxt where n: "IExprToZExpr ctx nx s [] h = Inr (nxt, h)" "list_all2 (z3_gen.stands h s) nx nxt"
    using iexpr_run [OF assms(1), of nx s "[]"] by auto
  obtain ts where ts: "AssertEqual ctx nxt vs s' cs h = Inr (ts, h)"
    "z3_gen.says ts (\<lambda>E. P E \<and> list_all2 (\<lambda>a v. den E a = eval (z3_interp h s' E) v) nxt vs)"
    using assert_equal [OF assms(1,2) next_equal(1) [OF n(2) assms(3)] assms(4)] by blast
  have "z3_gen.says ts (\<lambda>E. P E \<and> next_holds nx vs (z3_interp h s E) (z3_interp h s' E))"
    by (rule z3_gen.says_cong [OF ts(2)]) (simp add: next_equal(2) [OF n(2) assms(3)])
  with n(1) ts(1) show ?thesis by blast
qed

text \<open>The loops of \<open>UnrollAssn\<close> and \<open>UnrollNone\<close> differ in the target of a step.\<close>

definition extends :: "heap \<Rightarrow> expr list \<Rightarrow> (expr list \<Rightarrow> expr list \<Rightarrow> bool) \<Rightarrow> 't Unroller \<Rightarrow> (smt_env \<Rightarrow> bool) \<Rightarrow>
    't Unroller \<Rightarrow> bool" where
  "extends h vs J u P u' =
     (same_spec u u' \<and> vars u' = vs \<and> J (k_pred u') (k_next u') \<and> z3_gen.says (cstr u') P)"

lemma step_terms:
  assumes tr: "transits h len vs J Transition pr nx" and i: "i < len" and enc: "preds_enc h u0"
    and ext: "extends h vs J u0 P u"
    and ord: "(cs, ds) = (s_pred_at u0 (c_int (int i)), pr i) \<or> (cs, ds) = (pr i, s_pred_at u0 (c_int (int i)))"
  shows "\<exists>t1 t2 t3 t4 nxt ts.
    (if i = 0 then IExprToZExpr ctx (i_pred u0) s (cstr u) else ret (cstr u)) h = Inr (t1, h) \<and>
    IExprToZExpr ctx (g_pred u0) s t1 h = Inr (t2, h) \<and> IExprToZExpr ctx cs s t2 h = Inr (t3, h) \<and>
    IExprToZExpr ctx ds s t3 h = Inr (t4, h) \<and> IExprToZExpr ctx (nx i) s [] h = Inr (nxt, h) \<and>
    AssertEqual ctx nxt vs s' t4 h = Inr (ts, h) \<and>
    z3_gen.says ts (\<lambda>E. P E \<and> source_holds u0 pr i (z3_interp h s E) \<and>
      next_holds (nx i) vs (z3_interp h s E) (z3_interp h s' E))"
proof -
  have t: "heap_inv h" "\<forall>v \<in> set vs. encodable h v"
    and st: "\<forall>p \<in> set (pr i). bool_pred encodable h p"
      "list_all2 (\<lambda>e v. encodable h e \<and> esort e = esort v) (nx i) vs"
    using tr i by (auto simp: transits_def)
  have pe: "\<forall>e \<in> set (i_pred u0). bool_pred encodable h e" "\<forall>e \<in> set (g_pred u0). bool_pred encodable h e"
    "\<forall>e \<in> set cs. bool_pred encodable h e" "\<forall>e \<in> set ds. bool_pred encodable h e"
    using enc st(1) ord by (auto simp: preds_enc_def)
  have P: "z3_gen.says (cstr u) P" using ext by (simp add: extends_def)
  let ?Q = "\<lambda>E. P E \<and> (i = 0 \<longrightarrow> (\<forall>e \<in> set (i_pred u0). holds (z3_interp h s E) e)) \<and>
      (\<forall>e \<in> set (g_pred u0) \<union> set cs \<union> set ds. holds (z3_interp h s E) e)"
  obtain t1 t2 t3 t4 where c: "(if i = 0 then IExprToZExpr ctx (i_pred u0) s (cstr u) else ret (cstr u)) h = Inr (t1, h)"
    "IExprToZExpr ctx (g_pred u0) s t1 h = Inr (t2, h)" "IExprToZExpr ctx cs s t2 h = Inr (t3, h)"
    "IExprToZExpr ctx ds s t3 h = Inr (t4, h)" and says: "z3_gen.says t4 ?Q"
    using conv_preds [OF t(1) pe P, of "i = 0" s] by blast
  obtain nxt ts where n: "IExprToZExpr ctx (nx i) s [] h = Inr (nxt, h)" "AssertEqual ctx nxt vs s' t4 h = Inr (ts, h)"
    and says': "z3_gen.says ts (\<lambda>E. ?Q E \<and> next_holds (nx i) vs (z3_interp h s E) (z3_interp h s' E))"
    using assert_next [OF t st(2) says, of s s'] by blast
  have "z3_gen.says ts (\<lambda>E. P E \<and> source_holds u0 pr i (z3_interp h s E) \<and>
      next_holds (nx i) vs (z3_interp h s E) (z3_interp h s' E))"
    by (rule z3_gen.says_cong [OF says']) (use ord in \<open>auto simp: source_holds_def preds_hold_def\<close>)
  with c n show ?thesis by blast
qed

lemma transition_run:
  assumes "transits h len vs J Transition pr nx" "i < len" "extends h vs J u0 P u"
  shows "Transition (c_int (int i)) u h = Inr (u\<lparr>k_next := nx i, k_pred := pr i\<rparr>, h)" "J (pr i) (nx i)"
    "same_spec u0 u" "same_spec u0 (u\<lparr>k_next := nx i, k_pred := pr i\<rparr>)" "vars u = vs"
  using assms by (auto simp: transits_def extends_def same_spec_def)

lemma assn_step:
  assumes "transits h len vs J Transition pr nx" "i < len" "preds_enc h u0" "extends h vs J u0 P u"
  shows "\<exists>u'. Assn_step ctx Transition pos i u h = Inr (u', h) \<and>
    extends h vs J u0 (\<lambda>E. P E \<and> source_holds u0 pr i (z3_interp h (SuffCurr u0 (c_int (pos + int i))) E) \<and>
      next_holds (nx i) vs (z3_interp h (SuffCurr u0 (c_int (pos + int i))) E)
        (z3_interp h (SuffCurr u0 (c_int (pos + int i + 1))) E)) u'"
proof -
  note t = transition_run [OF assms(1,2,4)]
  note d = same_specD [OF t(3)] same_specD [OF t(4)]
  from step_terms [OF assms, of "s_pred_at u0 (c_int (int i))" "pr i" "SuffCurr u0 (c_int (pos + int i))"
      "SuffCurr u0 (c_int (pos + int i + 1))"] obtain t1 t2 t3 t4 nxt ts where
    r: "(if i = 0 then IExprToZExpr ctx (i_pred u0) (SuffCurr u0 (c_int (pos + int i))) (cstr u) else ret (cstr u)) h = Inr (t1, h)"
      "IExprToZExpr ctx (g_pred u0) (SuffCurr u0 (c_int (pos + int i))) t1 h = Inr (t2, h)"
      "IExprToZExpr ctx (s_pred_at u0 (c_int (int i))) (SuffCurr u0 (c_int (pos + int i))) t2 h = Inr (t3, h)"
      "IExprToZExpr ctx (pr i) (SuffCurr u0 (c_int (pos + int i))) t3 h = Inr (t4, h)"
      "IExprToZExpr ctx (nx i) (SuffCurr u0 (c_int (pos + int i))) [] h = Inr (nxt, h)"
      "AssertEqual ctx nxt vs (SuffCurr u0 (c_int (pos + int i + 1))) t4 h = Inr (ts, h)"
    and says: "z3_gen.says ts (\<lambda>E. P E \<and> source_holds u0 pr i (z3_interp h (SuffCurr u0 (c_int (pos + int i))) E) \<and>
      next_holds (nx i) vs (z3_interp h (SuffCurr u0 (c_int (pos + int i))) E)
        (z3_interp h (SuffCurr u0 (c_int (pos + int i + 1))) E))" by blast
  let ?u = "u\<lparr>k_next := nx i, k_pred := pr i, cstr := ts, k_next_z3 := nxt\<rparr>"
  have "Assn_step ctx Transition pos i u h = Inr (?u, h)"
    using r t(1,5) d by (cases "i = 0") (simp_all add: Assn_step_def Let_def monad_simps)
  moreover have "same_spec u0 ?u" using t(4) by (simp add: same_spec_def)
  ultimately show ?thesis using says t(2,5) by (auto simp: extends_def)
qed

lemma none_step:
  assumes "transits h len vs J Transition pr nx" "i < len" "preds_enc h u0" "extends h vs J u0 P u"
  shows "\<exists>u'. None_step ctx Transition pos i u h = Inr (u', h) \<and>
    extends h vs J u0 (\<lambda>E. P E \<and> source_holds u0 pr i (z3_interp h (SuffCurr u0 (c_int (pos + int i))) E) \<and>
      next_holds (nx i) vs (z3_interp h (SuffCurr u0 (c_int (pos + int i))) E)
        (z3_interp h (SuffNext u0 (c_int (pos + int i))) E)) u'"
proof -
  note t = transition_run [OF assms(1,2,4)]
  note d = same_specD [OF t(3)] same_specD [OF t(4)]
  from step_terms [OF assms, of "pr i" "s_pred_at u0 (c_int (int i))" "SuffCurr u0 (c_int (pos + int i))"
      "SuffNext u0 (c_int (pos + int i))"] obtain t1 t2 t3 t4 nxt ts where
    r: "(if i = 0 then IExprToZExpr ctx (i_pred u0) (SuffCurr u0 (c_int (pos + int i))) (cstr u) else ret (cstr u)) h = Inr (t1, h)"
      "IExprToZExpr ctx (g_pred u0) (SuffCurr u0 (c_int (pos + int i))) t1 h = Inr (t2, h)"
      "IExprToZExpr ctx (pr i) (SuffCurr u0 (c_int (pos + int i))) t2 h = Inr (t3, h)"
      "IExprToZExpr ctx (s_pred_at u0 (c_int (int i))) (SuffCurr u0 (c_int (pos + int i))) t3 h = Inr (t4, h)"
      "IExprToZExpr ctx (nx i) (SuffCurr u0 (c_int (pos + int i))) [] h = Inr (nxt, h)"
      "AssertEqual ctx nxt vs (SuffNext u0 (c_int (pos + int i))) t4 h = Inr (ts, h)"
    and says: "z3_gen.says ts (\<lambda>E. P E \<and> source_holds u0 pr i (z3_interp h (SuffCurr u0 (c_int (pos + int i))) E) \<and>
      next_holds (nx i) vs (z3_interp h (SuffCurr u0 (c_int (pos + int i))) E)
        (z3_interp h (SuffNext u0 (c_int (pos + int i))) E))" by blast
  let ?u = "u\<lparr>k_next := nx i, k_pred := pr i, cstr := ts, k_next_z3 := nxt\<rparr>"
  have "None_step ctx Transition pos i u h = Inr (?u, h)"
    using r t(1,5) d by (cases "i = 0") (simp_all add: None_step_def Let_def monad_simps)
  moreover have "same_spec u0 ?u" using t(4) by (simp add: same_spec_def)
  ultimately show ?thesis using says t(2,5) by (auto simp: extends_def)
qed

text \<open>A loop of such steps.\<close>

lemma fold_steps:
  assumes step: "\<And>i P u. i < len \<Longrightarrow> extends h vs J u0 P u \<Longrightarrow>
      \<exists>u'. f i u h = Inr (u', h) \<and> extends h vs J u0 (\<lambda>E. P E \<and> R i E) u'"
    and init: "extends h vs J u0 P u"
  shows "k \<le> len \<Longrightarrow> \<exists>u'. foldM f [0 ..< k] u h = Inr (u', h) \<and> extends h vs J u0 (\<lambda>E. P E \<and> (\<forall>i < k. R i E)) u'"
proof (induction k)
  case 0
  then show ?case using init by (simp add: monad_simps)
next
  case (Suc k)
  then obtain u1 where u1: "foldM f [0 ..< k] u h = Inr (u1, h)" "extends h vs J u0 (\<lambda>E. P E \<and> (\<forall>i < k. R i E)) u1"
    by auto
  obtain u2 where u2: "f k u1 h = Inr (u2, h)" "extends h vs J u0 (\<lambda>E. (P E \<and> (\<forall>i < k. R i E)) \<and> R k E) u2"
    using step [of k, OF _ u1(2)] Suc.prems by auto
  have "(\<lambda>E. (P E \<and> (\<forall>i < k. R i E)) \<and> R k E) = (\<lambda>E. P E \<and> (\<forall>i < Suc k. R i E))"
    by (auto simp: fun_eq_iff less_Suc_eq)
  with u1(1) u2 show ?case by (simp add: foldM_append monad_simps)
qed

lemma bootstrap:
  assumes "heap_inv h" "\<forall>v \<in> set vs. encodable h v" "vs \<noteq> []"
    "Dep (u\<lparr>vars := [], k_pred := [], k_next := []\<rparr>) h = Inr (u\<lparr>vars := vs, k_pred := [], k_next := []\<rparr>, h)"
  shows "\<exists>zs. BootStrap ctx Dep pos False u h =
      Inr (u\<lparr>vars := vs, k_pred := [], k_next := [], k_prev_z3 := zs, k_curr_z3 := [], k_next_z3 := [], cstr := []\<rparr>, h) \<and>
    list_all2 (z3_gen.stands h (SuffCurr u pos)) vs zs"
  using iexpr_run [OF assms(1,2), of "SuffCurr u pos" "[]"] assms(3,4)
  by (auto simp: BootStrap_def monad_simps SuffCurr_def)

lemma end_run:
  assumes "heap_inv h" "preds_enc h u" "z3_gen.says (cstr u) P"
  shows "\<exists>u'. end_preds ctx len u h = Inr (u', h) \<and>
    z3_gen.says (cstr u') (\<lambda>E. P E \<and> preds_hold u len (z3_interp h (SuffCurr u (c_int (int len))) E))"
proof -
  let ?s = "SuffCurr u (c_int (int len))"
  have pe: "\<forall>e \<in> set (g_pred u). bool_pred encodable h e"
    "\<forall>e \<in> set (s_pred_at u (c_int (int len))). bool_pred encodable h e"
    using assms(2) by (auto simp: preds_enc_def)
  obtain t1 where 1: "IExprToZExpr ctx (g_pred u) ?s (cstr u) h = Inr (t1, h)"
    "z3_gen.says t1 (\<lambda>E. P E \<and> (\<forall>e \<in> set (g_pred u). holds (z3_interp h ?s E) e))"
    using iexpr_preds [OF assms(1) pe(1) assms(3)] by blast
  obtain t2 where 2: "IExprToZExpr ctx (s_pred_at u (c_int (int len))) ?s t1 h = Inr (t2, h)"
    "z3_gen.says t2 (\<lambda>E. (P E \<and> (\<forall>e \<in> set (g_pred u). holds (z3_interp h ?s E) e)) \<and>
       (\<forall>e \<in> set (s_pred_at u (c_int (int len))). holds (z3_interp h ?s E) e))"
    using iexpr_preds [OF assms(1) pe(2) 1(2)] by blast
  have "z3_gen.says t2 (\<lambda>E. P E \<and> preds_hold u len (z3_interp h ?s E))"
    by (rule z3_gen.says_cong [OF 2(2)]) (auto simp: preds_hold_def)
  then show ?thesis using 1(1) 2(1) by (simp add: end_preds_def Let_def monad_simps)
qed

text \<open>The state of the loop at its start.\<close>

lemma boot_extends:
  assumes "J [] []"
  shows "extends h vs J (u\<lparr>vars := vs\<rparr>) (\<lambda>E. True)
    (u\<lparr>vars := vs, k_pred := [], k_next := [], k_prev_z3 := zs, k_curr_z3 := [], k_next_z3 := [], cstr := []\<rparr>)"
  using assms z3_gen.says_Nil by (simp add: extends_def same_spec_def)

text \<open>The start of an unrolling, and a loop from there.\<close>

lemma boot_loop:
  assumes "transits h len vs J Transition pr nx" "preds_enc h u" "J [] []" "vs \<noteq> []"
    "Dep (u\<lparr>vars := [], k_pred := [], k_next := []\<rparr>) h = Inr (u\<lparr>vars := vs, k_pred := [], k_next := []\<rparr>, h)"
    and step: "\<And>i P u'. i < len \<Longrightarrow> extends h vs J (u\<lparr>vars := vs\<rparr>) P u' \<Longrightarrow>
      \<exists>u''. f i u' h = Inr (u'', h) \<and> extends h vs J (u\<lparr>vars := vs\<rparr>) (\<lambda>E. P E \<and> R i E) u''"
  shows "\<exists>u1 u2. BootStrap ctx Dep pos False u h = Inr (u1, h) \<and> foldM f [0 ..< len] u1 h = Inr (u2, h) \<and>
    same_spec (u\<lparr>vars := vs\<rparr>) u2 \<and> z3_gen.says (cstr u2) (\<lambda>E. \<forall>i < len. R i E)"
proof -
  have h: "heap_inv h" "\<forall>v \<in> set vs. encodable h v" using assms(1) by (auto simp: transits_def)
  obtain zs where b: "BootStrap ctx Dep pos False u h = Inr (u\<lparr>vars := vs, k_pred := [], k_next := [],
      k_prev_z3 := zs, k_curr_z3 := [], k_next_z3 := [], cstr := []\<rparr>, h)" (is "_ = Inr (?u1, h)")
    using bootstrap [where Dep = Dep and u = u, OF h assms(4,5)] by blast
  have "extends h vs J (u\<lparr>vars := vs\<rparr>) (\<lambda>E. True) ?u1" by (rule boot_extends) (rule assms(3))
  from fold_steps [where f = f, OF step this, of len] obtain u2 where
    "foldM f [0 ..< len] ?u1 h = Inr (u2, h)" "extends h vs J (u\<lparr>vars := vs\<rparr>) (\<lambda>E. True \<and> (\<forall>i < len. R i E)) u2" by blast
  then show ?thesis using b by (auto simp: extends_def)
qed

lemma unroll_assn:
  assumes tr: "transits h len vs J Transition pr nx" and pe: "preds_enc h u" and J: "J [] []" and vs: "vs \<noteq> []"
    and dep: "Dep (u\<lparr>vars := [], k_pred := [], k_next := []\<rparr>) h = Inr (u\<lparr>vars := vs, k_pred := [], k_next := []\<rparr>, h)"
  shows "\<exists>t u'. UnrollAssn ctx Dep Transition len pos False u h = Inr ((t, u'), h) \<and> tsort t = SBool \<and>
    (\<forall>E. env_ok E \<longrightarrow> den E t = VBool
      ((\<forall>i < len. source_holds u pr i (z3_interp h (SuffCurr u (c_int (pos + int i))) E) \<and>
         next_holds (nx i) vs (z3_interp h (SuffCurr u (c_int (pos + int i))) E)
           (z3_interp h (SuffCurr u (c_int (pos + int i + 1))) E)) \<and>
       preds_hold u len (z3_interp h (SuffCurr u (c_int (int len))) E)))"
proof -
  let ?R = "\<lambda>i E. source_holds u pr i (z3_interp h (SuffCurr u (c_int (pos + int i))) E) \<and>
         next_holds (nx i) vs (z3_interp h (SuffCurr u (c_int (pos + int i))) E)
           (z3_interp h (SuffCurr u (c_int (pos + int i + 1))) E)"
  have pe': "preds_enc h (u\<lparr>vars := vs\<rparr>)" using pe by (simp add: spec_vars)
  have "\<exists>u''. Assn_step ctx Transition pos i u' h = Inr (u'', h) \<and>
      extends h vs J (u\<lparr>vars := vs\<rparr>) (\<lambda>E. P E \<and> ?R i E) u''"
    if "i < len" "extends h vs J (u\<lparr>vars := vs\<rparr>) P u'" for i P u'
    using assn_step [OF tr that(1) pe' that(2), of pos] by (simp add: spec_vars)
  from boot_loop [where f = "Assn_step ctx Transition pos" and R = ?R and Dep = Dep and u = u and J = J, OF assms this, of pos] obtain u1 u2 where
    u: "BootStrap ctx Dep pos False u h = Inr (u1, h)" "foldM (Assn_step ctx Transition pos) [0 ..< len] u1 h = Inr (u2, h)"
    "same_spec (u\<lparr>vars := vs\<rparr>) u2" "z3_gen.says (cstr u2) (\<lambda>E. \<forall>i < len. ?R i E)" by blast
  note d = same_specD [OF u(3)]
  have h: "heap_inv h" "preds_enc h u2" using tr pe' d by (simp_all add: transits_def)
  obtain u3 where u3: "end_preds ctx len u2 h = Inr (u3, h)"
    "z3_gen.says (cstr u3) (\<lambda>E. (\<forall>i < len. ?R i E) \<and> preds_hold u len (z3_interp h (SuffCurr u (c_int (int len))) E))"
    using end_run [OF h u(4)] d by (auto simp: spec_vars)
  from conj_pred [OF u3(2), of h] u(1,2) u3(1) show ?thesis by (auto simp: UnrollAssn_def monad_simps)
qed

lemma unroll_none:
  assumes tr: "transits h len vs J Transition pr nx" and pe: "preds_enc h u" and J: "J [] []" and vs: "vs \<noteq> []"
    and dep: "Dep (u\<lparr>vars := [], k_pred := [], k_next := []\<rparr>) h = Inr (u\<lparr>vars := vs, k_pred := [], k_next := []\<rparr>, h)"
  shows "\<exists>t u'. UnrollNone ctx Dep Transition len pos u h = Inr ((t, u'), h) \<and> tsort t = SBool \<and>
    (\<forall>E. env_ok E \<longrightarrow> den E t = VBool
      (\<forall>i < len. source_holds u pr i (z3_interp h (SuffCurr u (c_int (pos + int i))) E) \<and>
         next_holds (nx i) vs (z3_interp h (SuffCurr u (c_int (pos + int i))) E)
           (z3_interp h (SuffNext u (c_int (pos + int i))) E)))"
proof -
  let ?R = "\<lambda>i E. source_holds u pr i (z3_interp h (SuffCurr u (c_int (pos + int i))) E) \<and>
         next_holds (nx i) vs (z3_interp h (SuffCurr u (c_int (pos + int i))) E)
           (z3_interp h (SuffNext u (c_int (pos + int i))) E)"
  have pe': "preds_enc h (u\<lparr>vars := vs\<rparr>)" using pe by (simp add: spec_vars)
  have "\<exists>u''. None_step ctx Transition pos i u' h = Inr (u'', h) \<and>
      extends h vs J (u\<lparr>vars := vs\<rparr>) (\<lambda>E. P E \<and> ?R i E) u''"
    if "i < len" "extends h vs J (u\<lparr>vars := vs\<rparr>) P u'" for i P u'
    using none_step [OF tr that(1) pe' that(2), of pos] by (simp add: spec_vars)
  from boot_loop [where f = "None_step ctx Transition pos" and R = ?R and Dep = Dep and u = u and J = J, OF assms this, of pos] obtain u1 u2 where
    u: "BootStrap ctx Dep pos False u h = Inr (u1, h)" "foldM (None_step ctx Transition pos) [0 ..< len] u1 h = Inr (u2, h)"
    "z3_gen.says (cstr u2) (\<lambda>E. \<forall>i < len. ?R i E)" by blast
  from conj_pred [OF u(3), of h] u(1,2) show ?thesis by (auto simp: UnrollNone_def monad_simps)
qed

end

section \<open>Paths\<close>

lemma c_int_id: "0 \<le> i \<Longrightarrow> i < 2 ^ 31 \<Longrightarrow> c_int i = i"
  by (simp add: c_int_def signed_take_bit_int_eq_self)

definition path_ok :: "heap \<Rightarrow> nat list \<Rightarrow> 't Unroller \<Rightarrow> bool" where
  "path_ok h iseq u =
     (heap_inv h \<and> length iseq < 2 ^ 31 \<and> seq_states h iseq \<noteq> {} \<and> (\<forall>s \<in> seq_states h iseq. encodable h s) \<and>
      (\<forall>i \<in> set iseq. instr_enc encodable h (seq_states h iseq) i) \<and> preds_enc h u)"

definition path_pr :: "heap \<Rightarrow> nat list \<Rightarrow> nat \<Rightarrow> expr list" where
  "path_pr h iseq i = [the (instr_decode (instr_list h iseq ! i))]"

definition path_nx :: "heap \<Rightarrow> nat list \<Rightarrow> expr list \<Rightarrow> nat \<Rightarrow> expr list" where
  "path_nx h iseq vs i = map (StateUpdCmpl (instr_list h iseq ! i)) vs"

lemma path_dep:
  assumes "path_ok h iseq u"
  shows "\<exists>vs. set vs = seq_states h iseq \<and> vs \<noteq> [] \<and>
    (\<forall>u'. Path_DefineDepVar iseq u' h = Inr (u'\<lparr>vars := vs\<rparr>, h))"
proof -
  have enc: "\<forall>i \<in> set iseq. instr_enc encodable h (seq_states h iseq) i" and ne: "seq_states h iseq \<noteq> {}"
    using assms by (simp_all add: path_ok_def)
  obtain vs where "foldM InsertStt_instr iseq [] h = Inr (vs, h)" "set vs = seq_states h iseq"
    using seq_states_run [OF instr_enc_host [OF enc], of "[]"] by auto
  then show ?thesis using ne by (intro exI [of _ vs]) (auto simp: Path_DefineDepVar_def monad_simps)
qed

lemma path_transits:
  fixes u :: "'t Unroller"
  assumes ok: "path_ok h iseq u" and vs: "set vs = seq_states h iseq"
  shows "transits h (length iseq) vs (\<lambda>_ _. True) (Path_Transition iseq :: int \<Rightarrow> 't Unroller \<Rightarrow> 't Unroller M) (path_pr h iseq) (path_nx h iseq vs)"
proof -
  have "(\<forall>p \<in> set (path_pr h iseq i). bool_pred encodable h p) \<and>
      list_all2 (\<lambda>e v. encodable h e \<and> esort e = esort v) (path_nx h iseq vs i) vs \<and>
      (\<forall>u :: 't Unroller. vars u = vs \<longrightarrow> Path_Transition iseq (c_int (int i)) u h =
         Inr (u\<lparr>k_next := path_nx h iseq vs i, k_pred := path_pr h iseq i\<rparr>, h))" if i: "i < length iseq" for i
  proof -
    have "instr_enc encodable h (seq_states h iseq) (iseq ! i)" using ok i by (simp add: path_ok_def)
    then obtain x d where x: "instrs h (iseq ! i) = Some x" "instr_decode x = Some d" "bool_pred encodable h d"
      and up: "\<forall>s \<in> seq_states h iseq. \<forall>e. update x (ename s) = Some e \<longrightarrow> encodable h e \<and> esort e = esort s"
      unfolding instr_enc_def by blast
    have c: "c_int (int i) = int i" "c_int (int (length iseq)) = int (length iseq)"
      using ok i by (auto intro!: c_int_id simp: path_ok_def)
    have xi: "instr_list h iseq ! i = x" using x(1) i by (simp add: instr_list_def)
    have "list_all2 (\<lambda>e v. encodable h e \<and> esort e = esort v) (path_nx h iseq vs i) vs"
      using up vs ok by (auto simp: path_nx_def xi list_all2_map1 list_all2_same StateUpdCmpl_def update_var_def
          path_ok_def split: option.splits)
    then show ?thesis
      using x i xi by (simp add: path_pr_def path_nx_def Path_Transition_def c monad_simps)
  qed
  then show ?thesis using ok vs by (simp add: transits_def path_ok_def)
qed

text \<open>A step of a path in the terms of executions.\<close>

definition path_step :: "'t Unroller \<Rightarrow> Instr list \<Rightarrow> expr set \<Rightarrow> nat \<Rightarrow> interp \<Rightarrow> interp \<Rightarrow> bool" where
  "path_step u xs V i I J =
     (preds_hold u i I \<and> (i = 0 \<longrightarrow> (\<forall>p \<in> set (i_pred u). holds I p)) \<and> exec_step (xs ! i) V I J)"

lemma path_step_iff:
  assumes "path_ok h iseq u" "set vs = seq_states h iseq" "i < length iseq"
  shows "source_holds u (path_pr h iseq) i I \<and> next_holds (path_nx h iseq vs i) vs I J \<longleftrightarrow>
    path_step u (instr_list h iseq) (seq_states h iseq) i I J"
proof -
  have "instr_enc encodable h (seq_states h iseq) (iseq ! i)" using assms by (simp add: path_ok_def)
  then obtain x d where x: "instrs h (iseq ! i) = Some x" "instr_decode x = Some d" by (auto simp: instr_enc_def)
  then have xi: "instr_list h iseq ! i = x" using assms(3) by (simp add: instr_list_def)
  have "next_holds (path_nx h iseq vs i) vs I J \<longleftrightarrow> (\<forall>s \<in> seq_states h iseq.
      eval J s = (case update x (ename s) of Some e \<Rightarrow> eval I e | None \<Rightarrow> eval I s))"
    by (simp add: next_holds_def path_nx_def xi list_all2_map1 list_all2_same StateUpdCmpl_def update_var_def
        flip: assms(2)) (auto split: option.splits)
  then show ?thesis using x by (auto simp: source_holds_def path_step_def exec_step_def path_pr_def xi)
qed

context z3_backend
begin

lemma path_assn:
  assumes ok: "path_ok h iseq u"
  shows "\<exists>t u'. PathAssn ctx iseq pos u h = Inr ((t, u'), h) \<and> tsort t = SBool \<and>
    (\<forall>E. env_ok E \<longrightarrow> den E t = VBool
      ((\<forall>i < length iseq. path_step u (instr_list h iseq) (seq_states h iseq) i
          (z3_interp h (SuffCurr u (c_int (pos + int i))) E) (z3_interp h (SuffCurr u (c_int (pos + int i + 1))) E)) \<and>
       preds_hold u (length iseq) (z3_interp h (SuffCurr u (int (length iseq))) E)))"
proof -
  obtain vs where vs: "set vs = seq_states h iseq" "vs \<noteq> []"
    "\<forall>u' :: 't Unroller. Path_DefineDepVar iseq u' h = Inr (u'\<lparr>vars := vs\<rparr>, h)" using path_dep [OF ok] by blast
  have len: "c_int (int (length iseq)) = int (length iseq)" using ok by (intro c_int_id) (auto simp: path_ok_def)
  have pe: "preds_enc h u" using ok by (simp add: path_ok_def)
  from unroll_assn [OF path_transits [OF ok vs(1)] pe TrueI vs(2), of "Path_DefineDepVar iseq" pos] vs(3)
  show ?thesis
    by (simp add: PathAssn_def path_step_iff [OF ok vs(1)] len cong: conj_cong)
qed

lemma path_none:
  assumes ok: "path_ok h iseq u"
  shows "\<exists>t u'. PathNone ctx iseq pos u h = Inr ((t, u'), h) \<and> tsort t = SBool \<and>
    (\<forall>E. env_ok E \<longrightarrow> den E t = VBool
      (\<forall>i < length iseq. path_step u (instr_list h iseq) (seq_states h iseq) i
         (z3_interp h (SuffCurr u (c_int (pos + int i))) E) (z3_interp h (SuffNext u (c_int (pos + int i))) E)))"
proof -
  obtain vs where vs: "set vs = seq_states h iseq" "vs \<noteq> []"
    "\<forall>u' :: 't Unroller. Path_DefineDepVar iseq u' h = Inr (u'\<lparr>vars := vs\<rparr>, h)" using path_dep [OF ok] by blast
  have pe: "preds_enc h u" using ok by (simp add: path_ok_def)
  from unroll_none [OF path_transits [OF ok vs(1)] pe TrueI vs(2), of "Path_DefineDepVar iseq" pos] vs(3)
  show ?thesis by (simp add: PathNone_def path_step_iff [OF ok vs(1)] cong: conj_cong)
qed

end

text \<open>The same predicates and suffix in the two families of unrollers.\<close>

definition agrees :: "'t Unroller \<Rightarrow> UnrollerSmt \<Rightarrow> bool" where
  "agrees u us =
     (extra_suff u = unroller_suffix us \<and> set (g_pred u) = set (global_pred us) \<and>
      set (i_pred u) = set (initial_pred us) \<and>
      (\<forall>k < 2 ^ 31. set (s_pred_at u (int k)) = set (step_at us k)))"

lemma suffix_agrees:
  "agrees u us \<Longrightarrow> k < 2 ^ 31 \<Longrightarrow> SuffCurr u (int k) = SuffixCurrent us k"
  by (simp add: agrees_def SuffCurr_def SuffixCurrent_def int_to_string_def)

lemma preds_agree:
  "agrees u us \<Longrightarrow> k < 2 ^ 31 \<Longrightarrow> preds_hold u k I = asserted us k I"
  by (simp add: agrees_def preds_hold_def asserted_def c_int_id)

lemma path_agrees:
  assumes "agrees u us" "start + length xs < 2 ^ 31"
  shows "((\<forall>i < length xs. path_step u xs V i (z3_interp h (SuffCurr u (c_int (int start + int i))) E)
        (z3_interp h (SuffCurr u (c_int (int start + int i + 1))) E)) \<and>
      preds_hold u (length xs) (z3_interp h (SuffCurr u (int (length xs))) E)) \<longleftrightarrow>
    path_holds us xs V (\<lambda>i. z3_interp h (SuffixCurrent us (start + i)) E) (z3_interp h (SuffixCurrent us (length xs)) E)"
proof -
  have s: "SuffCurr u (c_int (int start + int i)) = SuffixCurrent us (start + i)"
    "SuffCurr u (c_int (int start + int i + 1)) = SuffixCurrent us (start + Suc i)" if "i < length xs" for i
    using that assms suffix_agrees [OF assms(1), of "start + i"] suffix_agrees [OF assms(1), of "start + Suc i"]
    by (simp_all add: c_int_id ac_simps)
  have "set (i_pred u) = set (initial_pred us)" using assms(1) by (simp add: agrees_def)
  then show ?thesis
    using assms suffix_agrees [OF assms(1), of "length xs"] preds_agree [OF assms(1)]
    by (auto simp: path_holds_def path_step_def s)
qed

section \<open>Properties\<close>

text \<open>C10: The two families of unrollers agree. With a Z3 that behaves as documented, for a
  sequence of fewer than $2^{31}$ steps and the same predicates and suffix, \<^verbatim>\<open>PathUnroll::PathAssn\<close> and
  \<^verbatim>\<open>PathUnroller::Unroll\<close> both return a term, and the terms have the same value under every assignment:
  true exactly for the executions of the sequence from step \<open>start\<close>, with the predicates of the end
  state asserted at step \<open>length iseq\<close> in both.\<close>

theorem unrollers_agree:
  assumes "z3_backend ctx tsort den" "path_ok h iseq u" "unrollable encodable h iseq us" "agrees u us"
    "start + length iseq < 2 ^ 31"
  shows "\<exists>t u' t' us' h'. PathAssn ctx iseq (int start) u h = Inr ((t, u'), h) \<and>
    Unroll (z3_shim ctx) iseq start us () h = Inr (((t', ()), us'), h') \<and>
    (\<forall>E. env_ok E \<longrightarrow> den E t = den E t' \<and>
       den E t = VBool (path_holds us (instr_list h iseq) (seq_states h iseq)
         (\<lambda>i. z3_interp h (SuffixCurrent us (start + i)) E) (z3_interp h (SuffixCurrent us (length iseq)) E)))"
proof -
  have len: "length (instr_list h iseq) = length iseq" by (simp add: instr_list_def)
  note p = path_agrees [OF assms(4), of start "instr_list h iseq", unfolded len, OF assms(5)]
  show ?thesis
    using z3_backend.path_assn [OF assms(1,2), of "int start"] z3_backend.unroll_z3 [OF assms(1,3), of start]
    by (auto simp: p)
qed

text \<open>Unrolling without connecting the steps. \<^verbatim>\<open>PathUnroll::PathNone\<close> returns a term that is true
  exactly when at every step the predicates and the decode function hold and the separate
  next-state variables of the step have the updated values; nothing relates the next-state variables of a
  step to the variables of the following one.\<close>

theorem path_none_says:
  assumes "z3_backend ctx tsort den" "path_ok h iseq u"
  shows "\<exists>t u'. PathNone ctx iseq pos u h = Inr ((t, u'), h) \<and> tsort t = SBool \<and>
    (\<forall>E. env_ok E \<longrightarrow> den E t = VBool
      (\<forall>i < length iseq. path_step u (instr_list h iseq) (seq_states h iseq) i
         (z3_interp h (SuffCurr u (c_int (pos + int i))) E) (z3_interp h (SuffNext u (c_int (pos + int i))) E)))"
  using z3_backend.path_none [OF assms] .

text \<open>The example of the other unroller.\<close>

definition legacy_u :: "'t Unroller" where
  "legacy_u = AddGlobPred ux_is_0 (Unroller_new ''u'')"

lemma legacy_u_agrees: "agrees legacy_u unroller_u"
  by (simp add: agrees_def unroller_u_preds)
    (simp add: legacy_u_def AddGlobPred_def Unroller_new_def s_pred_at_def unroller_u_def AssertGlobal_def UnrollerSmt_new_def)

lemma legacy_u_ok: "path_ok unroll_heap [3] legacy_u"
proof -
  have "bool_pred encodable unroll_heap ux_is_0"
    using unroll_heap_ok by (simp add: unrollable_def unroller_u_preds)
  then have "preds_enc unroll_heap legacy_u"
    by (simp add: preds_enc_def legacy_u_def AddGlobPred_def Unroller_new_def s_pred_at_def)
  then show ?thesis using unroll_heap_ok by (simp add: path_ok_def unrollable_def)
qed

theorem unrollers_agree_witness:
  "\<exists>t u' t' us' h'. PathAssn sem_api [3] 0 legacy_u unroll_heap = Inr ((t, u'), unroll_heap) \<and>
     Unroll (z3_shim sem_api) [3] 0 unroller_u () unroll_heap = Inr (((t', ()), us'), h') \<and>
     sem_den zero_env t = sem_den zero_env t'"
  using unrollers_agree [OF sem.z3_backend_axioms legacy_u_ok unroll_heap_ok legacy_u_agrees, of 0] zero_env_ok
  by (simp, metis)

theorem path_none_says_witness:
  "\<exists>t u'. PathNone sem_api [3] 0 legacy_u unroll_heap = Inr ((t, u'), unroll_heap) \<and>
     sem_den zero_env t = VBool False"
proof -
  have step: "\<not> exec_step (the (instrs unroll_heap 3)) {ux} (z3_interp h s zero_env) (z3_interp h s' zero_env)" for h s s'
    by (simp add: unroll_heap_step) (simp add: ux_def z3_interp_def smt_interp_def zero_env_def smt_zero_def bv2_def)
  let ?u = "legacy_u :: sem_term Unroller"
  let ?I = "\<lambda>i. z3_interp unroll_heap (SuffCurr ?u (c_int (0 + int i))) zero_env"
  let ?J = "\<lambda>i. z3_interp unroll_heap (SuffNext ?u (c_int (0 + int i))) zero_env"
  have "\<not> (\<forall>i < length [3::nat]. path_step ?u (instr_list unroll_heap [3]) (seq_states unroll_heap [3]) i (?I i) (?J i))"
    using step by (auto simp: path_step_def instr_list_def unroll_heap_states)
  with path_none_says [OF sem.z3_backend_axioms legacy_u_ok, of 0] zero_env_ok show ?thesis by fastforce
qed

end
