(* ===== verification/MonoUnroll.thy ===== *)
theory MonoUnroll
  imports Unroller
begin

text \<open>
  The monolithic transition relation (\<^verbatim>\<open>MonoUnroll\<close> of src/ila-mngr/u\_unroller.cc, modelled in theory
  Unroller): one step of the tree of ILAs executes one selected instruction whose decode function holds,
  or nothing when no decode function holds.
\<close>

section \<open>Building formulas\<close>

text \<open>An expression that can be translated and used to build others.\<close>

definition node :: "heap \<Rightarrow> sort \<Rightarrow> expr \<Rightarrow> bool" where
  "node h s e = (encodable h e \<and> host_in h e \<and> esort e = s)"

text \<open>A Boolean node that means \<open>P\<close>.\<close>

definition form :: "heap \<Rightarrow> expr \<Rightarrow> (interp \<Rightarrow> bool) \<Rightarrow> bool" where
  "form h e P = (node h SortBool e \<and> (\<forall>I. interp_ok I \<longrightarrow> (holds I e \<longleftrightarrow> P I)))"

text \<open>A computation that succeeds on every heap with the objects of \<open>h\<close>, changes no object and returns a
  value with the property \<open>Q\<close>.\<close>

definition runs :: "heap \<Rightarrow> 'a M \<Rightarrow> ('a \<Rightarrow> bool) \<Rightarrow> bool" where
  "runs h m Q = (\<forall>h1. only_alloc h h1 \<longrightarrow> (\<exists>r h2. m h1 = Inr (r, h2) \<and> only_alloc h1 h2 \<and> Q r))"

definition builds :: "heap \<Rightarrow> expr M \<Rightarrow> (interp \<Rightarrow> bool) \<Rightarrow> bool" where
  "builds h m P = runs h m (\<lambda>e. form h e P)"

lemma runs_bnd:
  assumes "runs h m Q" "\<And>r. Q r \<Longrightarrow> runs h (f r) R"
  shows "runs h (bnd m f) R"
  unfolding runs_def
proof (intro allI impI)
  fix h1 assume a: "only_alloc h h1"
  then obtain r h2 where r: "m h1 = Inr (r, h2)" "only_alloc h1 h2" "Q r" using assms(1) by (auto simp: runs_def)
  then obtain r' h3 where "f r h2 = Inr (r', h3)" "only_alloc h2 h3" "R r'"
    using assms(2) [of r] only_alloc_trans [OF a r(2)] by (auto simp: runs_def)
  then show "\<exists>r h2. bnd m f h1 = Inr (r, h2) \<and> only_alloc h1 h2 \<and> R r" using r by (auto intro: only_alloc_trans)
qed

lemma runs_ret [simp]: "runs h (ret x) Q = Q x"
  by (auto simp: runs_def intro: exI [of _ h])

lemma runs_get_instr: "instrs h i = Some x \<Longrightarrow> runs h (get_instr i) (\<lambda>y. y = x)"
  by (auto simp: runs_def only_alloc_def)

lemma runsD: "runs h m Q \<Longrightarrow> \<exists>r h1. m h = Inr (r, h1) \<and> only_alloc h h1 \<and> Q r"
  by (simp add: runs_def)

lemma runs_weaken: "runs h m Q \<Longrightarrow> (\<And>r. Q r \<Longrightarrow> R r) \<Longrightarrow> runs h m R"
  by (fastforce simp: runs_def)

lemma runs_foldM:
  assumes "\<And>i s. i < length xs \<Longrightarrow> Q i s \<Longrightarrow> runs h (f (xs ! i) s) (Q (Suc i))" "Q 0 s"
  shows "runs h (foldM f xs s) (Q (length xs))"
  using assms
proof (induction xs arbitrary: s Q)
  case (Cons x xs)
  have "runs h (f x s) (Q (Suc 0))" using Cons.prems(1) [of 0 s] Cons.prems(2) by simp
  moreover have "runs h (foldM f xs r) (\<lambda>r. Q (Suc (length xs)) r)" if "Q (Suc 0) r" for r
    using Cons.prems(1) [of "Suc _"] that by (intro Cons.IH [of "\<lambda>i. Q (Suc i)"]) auto
  ultimately show ?case by (simp add: runs_bnd)
qed simp

lemma encodable_alloc: "only_alloc h h' \<Longrightarrow> encodable h' e = encodable h e"
proof -
  assume "only_alloc h h'"
  then have "node_enc h' = node_enc h" by (auto simp: fun_eq_iff node_enc_def only_alloc_def split: ekind.splits)
  then show ?thesis by (simp add: encodable_def)
qed

lemma node_alloc: "only_alloc h h' \<Longrightarrow> node h' s e = node h s e"
  by (simp add: node_def encodable_alloc) (simp add: host_in_def only_alloc_def)

lemma form_alloc: "form h e P \<Longrightarrow> only_alloc h h' \<Longrightarrow> form h' e P"
  by (simp add: form_def node_alloc)

lemma form_cong: "form h e P \<Longrightarrow> (\<And>I. interp_ok I \<Longrightarrow> P I \<longleftrightarrow> Q I) \<Longrightarrow> form h e Q"
  by (simp add: form_def)

lemma node_form: "node h SortBool e \<Longrightarrow> form h e (\<lambda>I. holds I e)"
  by (simp add: form_def)

lemma form_value:
  assumes "form h e P" "interp_ok I"
  shows "eval I e = VBool (P I)"
proof -
  have "wf_expr e" "esort e = SortBool" using assms(1) by (simp_all add: form_def node_def encodable_def)
  then obtain b where "eval I e = VBool b" using wf_bool_val assms(2) by blast
  then show ?thesis using assms by (cases b) (auto simp: form_def holds_def)
qed

lemma built_node:
  assumes "heap_inv h" "\<forall>a \<in> set as. encodable h a \<and> host_in h a" "op_sort u (map esort as) [] = Some SortBool"
    "sem_ok u (map esort as) []"
  shows "\<exists>e h'. built (KOp u) as [] SortBool h e h' \<and> only_alloc h h' \<and> node h' SortBool e \<and>
    (\<forall>I. eval I e = op_sem u (map esort as) [] (map (eval I) as))"
proof -
  have "hosts_ok h as" using assms(1,2) by (auto simp: hosts_ok_def host_in_def inv_childs_grow)
  then obtain e h' where b: "built (KOp u) as [] SortBool h e h'" "hosts_ok h' (e # as)"
    using built_total [of h as as] by blast
  have a: "only_alloc h h'" using built_fields(6) [OF b(1)] .
  have wf: "list_all wf_expr as" using assms(2) by (simp add: list_all_iff encodable_def)
  have "wf_expr e" using built_wf [OF b(1) assms(3,4) wf] .
  moreover have "\<forall>a \<in> set as. encodable h' a" using assms(2) encodable_alloc [OF a] by simp
  ultimately have "encodable h' e"
    using b(1) by (auto simp: encodable_def built_def node_enc_def sort_small_def list_all_iff)
  moreover have "host_in h' e" using b(2) by (simp add: hosts_ok_def host_in_def)
  ultimately show ?thesis
    using a b(1) built_eval [OF b(1)] built_fields(4) [OF b(1)] by (auto simp: node_def)
qed

lemma logic_built:
  assumes "heap_inv h" "form h a P" "form h b Q" "u \<in> {kAnd, kOr, kImply}"
  shows "\<exists>e h'. built (KOp u) [a, b] [] SortBool h e h' \<and> only_alloc h h' \<and>
    form h' e (\<lambda>I. case u of kAnd \<Rightarrow> P I \<and> Q I | kOr \<Rightarrow> P I \<or> Q I | _ \<Rightarrow> P I \<longrightarrow> Q I)"
proof -
  have n: "node h SortBool a" "node h SortBool b" using assms(2,3) by (simp_all add: form_def)
  then have "op_sort u (map esort [a, b]) [] = Some SortBool" "sem_ok u (map esort [a, b]) []"
    using assms(4) by (auto simp: node_def op_sort_def same_sort_def sem_ok_def)
  from built_node [OF assms(1) _ this] n obtain e h' where
    e: "built (KOp u) [a, b] [] SortBool h e h'" "only_alloc h h'" "node h' SortBool e"
      "\<forall>I. eval I e = op_sem u (map esort [a, b]) [] (map (eval I) [a, b])"
    by (auto simp: node_def)
  have "holds I e \<longleftrightarrow> (case u of kAnd \<Rightarrow> P I \<and> Q I | kOr \<Rightarrow> P I \<or> Q I | _ \<Rightarrow> P I \<longrightarrow> Q I)" if "interp_ok I" for I
    using e(4) assms(4) form_value [OF assms(2) that] form_value [OF assms(3) that] n
    by (auto simp: holds_def op_sem_def bool_or_bv_def node_def)
  with e show ?thesis by (auto simp: form_def)
qed

lemma builds_intro:
  assumes "heap_inv h" "\<And>h1. heap_inv h1 \<Longrightarrow> only_alloc h h1 \<Longrightarrow> \<exists>e h2. m h1 = Inr (e, h2) \<and> only_alloc h1 h2 \<and> form h2 e P"
  shows "builds h m P"
proof -
  have "form h2 e P \<Longrightarrow> only_alloc h h1 \<Longrightarrow> only_alloc h1 h2 \<Longrightarrow> form h e P" for h1 h2 e
    by (simp add: form_def node_alloc)
  then show ?thesis using assms heap_inv_alloc unfolding builds_def runs_def by blast
qed

lemma builds_logic:
  assumes "heap_inv h" "form h a P" "form h b Q"
  shows "builds h (AndE a b) (\<lambda>I. P I \<and> Q I)" "builds h (OrE a b) (\<lambda>I. P I \<or> Q I)"
    "builds h (Imply a b) (\<lambda>I. P I \<longrightarrow> Q I)"
proof -
  have s: "esort a = SortBool" "esort b = SortBool" using assms(2,3) by (simp_all add: form_def node_def)
  note l = logic_built [OF _ form_alloc [OF assms(2)] form_alloc [OF assms(3)]]
  show "builds h (AndE a b) (\<lambda>I. P I \<and> Q I)"
    by (rule builds_intro [OF assms(1)]) (use l [of _ kAnd] s in \<open>auto simp: AndE_def ctor_Inr\<close>)
  show "builds h (OrE a b) (\<lambda>I. P I \<or> Q I)"
    by (rule builds_intro [OF assms(1)]) (use l [of _ kOr] s in \<open>auto simp: OrE_def ctor_Inr\<close>)
  show "builds h (Imply a b) (\<lambda>I. P I \<longrightarrow> Q I)"
    by (rule builds_intro [OF assms(1)]) (use l [of _ kImply] s in \<open>auto simp: Imply_def ctor_Inr\<close>)
qed

lemma builds_Not:
  assumes "heap_inv h" "form h a P"
  shows "builds h (NotE a) (\<lambda>I. \<not> P I)"
proof (rule builds_intro [OF assms(1)])
  fix h1 assume h1: "heap_inv h1" "only_alloc h h1"
  have n: "node h1 SortBool a" using form_alloc [OF assms(2) h1(2)] by (simp add: form_def)
  then have "op_sort kNot (map esort [a]) [] = Some SortBool" "sem_ok kNot (map esort [a]) []"
    by (auto simp: node_def op_sort_def sem_ok_def)
  from built_node [OF h1(1) _ this] n obtain e h' where
    e: "built (KOp kNot) [a] [] SortBool h1 e h'" "only_alloc h1 h'" "node h' SortBool e"
      "\<forall>I. eval I e = op_sem kNot (map esort [a]) [] (map (eval I) [a])"
    by (auto simp: node_def)
  have "holds I e \<longleftrightarrow> \<not> P I" if "interp_ok I" for I
    using e(4) form_value [OF assms(2) that] by (simp add: holds_def op_sem_def)
  with e n show "\<exists>e h2. NotE a h1 = Inr (e, h2) \<and> only_alloc h1 h2 \<and> form h2 e (\<lambda>I. \<not> P I)"
    by (auto simp: form_def NotE_def ctor_Inr node_def)
qed

lemma builds_Eq:
  assumes "heap_inv h" "node h s a" "node h s b"
  shows "builds h (EqE a b) (\<lambda>I. eval I a = eval I b)"
proof (rule builds_intro [OF assms(1)])
  fix h1 assume h1: "heap_inv h1" "only_alloc h h1"
  have n: "node h1 s a" "node h1 s b" using assms(2,3) by (simp_all add: node_alloc [OF h1(2)])
  then have "op_sort kEqual (map esort [a, b]) [] = Some SortBool" "sem_ok kEqual (map esort [a, b]) []"
    by (auto simp: node_def op_sort_def comparison_def sem_ok_def)
  from built_node [OF h1(1) _ this] n obtain e h' where
    e: "built (KOp kEqual) [a, b] [] SortBool h1 e h'" "only_alloc h1 h'" "node h' SortBool e"
      "\<forall>I. eval I e = op_sem kEqual (map esort [a, b]) [] (map (eval I) [a, b])"
    by (auto simp: node_def)
  then have "form h' e (\<lambda>I. eval I a = eval I b)" by (simp add: form_def holds_def op_sem_def)
  with e(1,2) n show "\<exists>e h2. EqE a b h1 = Inr (e, h2) \<and> only_alloc h1 h2 \<and> form h2 e (\<lambda>I. eval I a = eval I b)"
    by (auto simp: EqE_def ctor_Inr node_def)
qed

lemma builds_const: "heap_inv h \<Longrightarrow> builds h (BoolConst b) (\<lambda>I. b)"
  by (rule builds_intro)
    (auto simp: BoolConst_Inr form_def node_def encodable_def node_wf_def const_wf_def node_enc_def
      sort_small_def host_in_def holds_def const_sem_def only_alloc_def)

lemmas builds_True = builds_const [where b = True]

text \<open>Adding a conjunct to an accumulated formula.\<close>

lemma imply_and:
  assumes "heap_inv h" "form h a P" "form h b Q" "form h acc R"
  shows "runs h (bnd (Imply a b) (AndE acc)) (\<lambda>e. form h e (\<lambda>I. R I \<and> (P I \<longrightarrow> Q I)))"
  using builds_logic(3) [OF assms(1,2,3)] builds_logic(1) [OF assms(1,4)]
  unfolding builds_def by (rule runs_bnd)

lemma not_and:
  assumes "heap_inv h" "form h a P" "form h acc R"
  shows "runs h (bnd (NotE a) (AndE acc)) (\<lambda>e. form h e (\<lambda>I. R I \<and> \<not> P I))"
  using builds_Not [OF assms(1,2)] builds_logic(1) [OF assms(1,3)]
  unfolding builds_def by (rule runs_bnd)

section \<open>Free variables\<close>

definition free_var :: "heap \<Rightarrow> sort \<Rightarrow> nat \<Rightarrow> string \<Rightarrow> expr \<Rightarrow> bool" where
  "free_var h s p nm v = (node h s v \<and> is_var v \<and> ename v = nm \<and> ehost v = Some p)"

lemma runs_vars:
  assumes "ilas h p \<noteq> None"
  shows "runs h (NewBoolFreeVar p nm) (free_var h SortBool p nm)"
    "sort_wf (SortBv w) \<Longrightarrow> sort_small (SortBv w) \<Longrightarrow> runs h (NewBvFreeVar p nm w) (free_var h (SortBv w) p nm)"
    "sort_wf (SortMem a d) \<Longrightarrow> sort_small (SortMem a d) \<Longrightarrow>
      runs h (NewMemFreeVar p nm a d) (free_var h (SortMem a d) p nm)"
  using assms
  by (auto simp: runs_def NewBoolFreeVar_def NewBvFreeVar_def NewMemFreeVar_def NewBoolVar_def NewBvVar_def
      NewMemVar_def ExprVar_bool_def ExprVar_bv_def ExprVar_mem_def MakeBoolSort_def MakeBvSort_def MakeMemSort_def
      free_var_def node_def encodable_def node_wf_def node_enc_def sort_small_def host_in_def set_host_def monad_simps
      only_alloc_def)

lemma runs_free_var:
  assumes "encodable h v" "is_var v" "ehost v = Some p"
  shows "runs h (NewFreeVar v nm) (free_var h (esort v) p nm)"
proof -
  have wf: "wf_expr v" "node_enc h v" using assms(1) every_node by (auto simp: encodable_def)
  then have s: "sort_wf (esort v)" "sort_small (esort v)" "ilas h p \<noteq> None"
    using wf_node [OF wf(1)] assms(2,3) by (auto simp: node_wf_def node_enc_def)
  have nn: "bnd (not_null (Some p)) f = f p" for f :: "nat \<Rightarrow> expr M" by (auto simp: fun_eq_iff monad_simps)
  have ll: "bnd (lift (Inr w)) f = f w" for f :: "int \<Rightarrow> expr M" and w by (auto simp: fun_eq_iff monad_simps)
  have aa: "bnd (ila_assert True msg) f = f ()" for f :: "unit \<Rightarrow> expr M" and msg by (auto simp: fun_eq_iff monad_simps)
  show ?thesis
    using s runs_vars [OF s(3), where nm = nm] assms(3)
    by (cases "esort v") (simp_all add: NewFreeVar_def nn ll aa)
qed

section \<open>One step of the tree\<close>

definition dec_holds :: "Instr \<Rightarrow> interp \<Rightarrow> bool" where
  "dec_holds x I = (case instr_decode x of Some d \<Rightarrow> holds I d | None \<Rightarrow> True)"

text \<open>One selection bit per instruction and one for the step that does nothing: when that one is set no
  instruction is selected, no decode function holds and the states keep their values; otherwise exactly one instruction is
  selected, its decode function holds and it updates the states.\<close>

definition mono_choice :: "Instr list \<Rightarrow> expr list \<Rightarrow> expr \<Rightarrow> expr set \<Rightarrow> interp \<Rightarrow> interp \<Rightarrow> bool" where
  "mono_choice xs sels dum V I J =
     (if holds I dum
      then (\<forall>j < length xs. \<not> holds I (sels ! j) \<and> \<not> dec_holds (xs ! j) I) \<and> (\<forall>v \<in> V. eval J v = eval I v)
      else \<exists>j < length xs. (\<forall>k < length xs. holds I (sels ! k) \<longleftrightarrow> k = j) \<and> dec_holds (xs ! j) I \<and>
             (\<forall>v \<in> V. eval J v = eval I (StateUpdCmpl (xs ! j) v)))"

text \<open>An instruction that the construction accepts.\<close>

definition mono_enc :: "heap \<Rightarrow> expr set \<Rightarrow> nat \<Rightarrow> bool" where
  "mono_enc h V i =
     (\<exists>x p. instrs h i = Some x \<and> instr_host x = Some p \<and> ilas h p \<noteq> None \<and>
        (\<forall>d. instr_decode x = Some d \<longrightarrow> node h SortBool d) \<and> (\<forall>v \<in> V. node h (esort v) (StateUpdCmpl x v)))"

lemma runs_decode:
  assumes "heap_inv h" "\<forall>d. instr_decode x = Some d \<longrightarrow> node h SortBool d"
  shows "runs h (DecodeCmpl x) (\<lambda>e. form h e (dec_holds x))"
proof (cases "instr_decode x")
  case None
  then show ?thesis using builds_True [OF assms(1)] by (simp add: builds_def DecodeCmpl_def dec_holds_def [abs_def])
next
  case (Some d)
  then show ?thesis using assms(2) node_form by (simp add: DecodeCmpl_def dec_holds_def [abs_def])
qed

lemma runs_mono_instr:
  assumes inv: "heap_inv h" and x: "instrs h i = Some x" "\<forall>d. instr_decode x = Some d \<longrightarrow> node h SortBool d"
    "node h s (StateUpdCmpl x var)" and sel: "node h SortBool sel" and nxt: "node h s nv"
    and acc: "form h nd N" "form h ad D" "form h au U"
  shows "runs h (mono_instr var nv (i, sel) (nd, ad, au)) (\<lambda>(nd, ad, au).
    form h nd (\<lambda>I. N I \<and> \<not> dec_holds x I) \<and> form h ad (\<lambda>I. D I \<and> (holds I sel \<longrightarrow> dec_holds x I)) \<and>
    form h au (\<lambda>I. U I \<and> (holds I sel \<longrightarrow> eval I nv = eval I (StateUpdCmpl x var))))"
proof -
  note eq = builds_Eq [OF inv nxt x(3), unfolded builds_def]
  note s = node_form [OF sel]
  show ?thesis
    unfolding mono_instr_def prod.case
    by (rule runs_bnd [OF runs_get_instr [OF x(1)]], simp,
        rule runs_bnd [OF runs_decode [OF inv x(2)]],
        rule runs_bnd [OF imply_and [OF inv s _ acc(2)]], assumption,
        rule runs_bnd [OF not_and [OF inv _ acc(1)]], assumption,
        rule runs_bnd [OF eq],
        rule runs_bnd [OF imply_and [OF inv s _ acc(3)]], assumption, simp)
qed

text \<open>The constraints of one variable.\<close>

definition decides :: "Instr list \<Rightarrow> expr list \<Rightarrow> expr \<Rightarrow> interp \<Rightarrow> bool" where
  "decides xs sels dum I =
     ((\<forall>j < length xs. holds I (sels ! j) \<longrightarrow> dec_holds (xs ! j) I) \<and>
      (holds I dum \<longrightarrow> (\<forall>j < length xs. \<not> dec_holds (xs ! j) I)))"

definition updates :: "Instr list \<Rightarrow> expr list \<Rightarrow> expr \<Rightarrow> expr \<Rightarrow> expr \<Rightarrow> interp \<Rightarrow> bool" where
  "updates xs sels dum var nv I =
     ((\<forall>j < length xs. holds I (sels ! j) \<longrightarrow> eval I nv = eval I (StateUpdCmpl (xs ! j) var)) \<and>
      (holds I dum \<longrightarrow> eval I nv = eval I var))"

lemma runs_mono_instrs:
  assumes inv: "heap_inv h" and iv: "\<forall>i \<in> set iv. mono_enc h V i" and var: "var \<in> V"
    and nv: "node h (esort var) nv" and sels: "length sels = length iv" "\<forall>s \<in> set sels. node h SortBool s"
    and acc: "form h nd (\<lambda>I. True)" "form h ad (\<lambda>I. True)" "form h au (\<lambda>I. True)"
  shows "runs h (foldM (mono_instr var nv) (zip iv sels) (nd, ad, au)) (\<lambda>(nd, ad, au).
    form h nd (\<lambda>I. \<forall>j < length iv. \<not> dec_holds (instr_list h iv ! j) I) \<and>
    form h ad (\<lambda>I. \<forall>j < length iv. holds I (sels ! j) \<longrightarrow> dec_holds (instr_list h iv ! j) I) \<and>
    form h au (\<lambda>I. \<forall>j < length iv. holds I (sels ! j) \<longrightarrow> eval I nv = eval I (StateUpdCmpl (instr_list h iv ! j) var)))"
proof -
  let ?Q = "\<lambda>k (nd, ad, au).
    form h nd (\<lambda>I. \<forall>j < k. \<not> dec_holds (instr_list h iv ! j) I) \<and>
    form h ad (\<lambda>I. \<forall>j < k. holds I (sels ! j) \<longrightarrow> dec_holds (instr_list h iv ! j) I) \<and>
    form h au (\<lambda>I. \<forall>j < k. holds I (sels ! j) \<longrightarrow> eval I nv = eval I (StateUpdCmpl (instr_list h iv ! j) var))"
  have "runs h (mono_instr var nv (zip iv sels ! k) st) (?Q (Suc k))" if k: "k < length (zip iv sels)" and Q: "?Q k st" for k st
  proof -
    obtain nd ad au where st: "st = (nd, ad, au)" by (cases st)
    have "mono_enc h V (iv ! k)" using iv k by simp
    then obtain x where x: "instrs h (iv ! k) = Some x" "\<forall>d. instr_decode x = Some d \<longrightarrow> node h SortBool d"
      "node h (esort var) (StateUpdCmpl x var)" using var by (auto simp: mono_enc_def)
    have xk: "instr_list h iv ! k = x" using x(1) k by (simp add: instr_list_def)
    have "node h SortBool (sels ! k)" using sels k by simp
    from runs_mono_instr [OF inv x this nv, of nd _ ad _ au] Q have
      "runs h (mono_instr var nv (iv ! k, sels ! k) (nd, ad, au)) (\<lambda>(nd, ad, au).
        form h nd (\<lambda>I. (\<forall>j < k. \<not> dec_holds (instr_list h iv ! j) I) \<and> \<not> dec_holds x I) \<and>
        form h ad (\<lambda>I. (\<forall>j < k. holds I (sels ! j) \<longrightarrow> dec_holds (instr_list h iv ! j) I) \<and> (holds I (sels ! k) \<longrightarrow> dec_holds x I)) \<and>
        form h au (\<lambda>I. (\<forall>j < k. holds I (sels ! j) \<longrightarrow> eval I nv = eval I (StateUpdCmpl (instr_list h iv ! j) var)) \<and>
          (holds I (sels ! k) \<longrightarrow> eval I nv = eval I (StateUpdCmpl x var))))"
      by (simp add: st)
    then show ?thesis using k sels(1)
      by (auto simp: st less_Suc_eq xk elim!: runs_weaken form_cong)
  qed
  from runs_foldM [of "zip iv sels" ?Q, OF this] acc sels(1) show ?thesis by simp
qed

lemma runs_mono_var:
  assumes inv: "heap_inv h" and iv: "\<forall>i \<in> set iv. mono_enc h V i" and var: "var \<in> V"
    and v: "encodable h var" "is_var var" "ehost var = Some p"
    and sels: "length sels = length iv" "\<forall>s \<in> set sels. node h SortBool s" and dum: "node h SortBool dum"
  shows "runs h (mono_var iv sels dum var (nxt, pred)) (\<lambda>(nxt', pred').
    \<exists>nv ad au. nxt' = nxt @ [nv] \<and> pred' = pred @ [ad, au] \<and> free_var h (esort var) p (ename var @ ''.vnxt'') nv \<and>
      form h ad (decides (instr_list h iv) sels dum) \<and> form h au (updates (instr_list h iv) sels dum var nv))"
proof -
  note true = builds_True [OF inv, unfolded builds_def]
  have len: "length (instr_list h iv) = length iv" by (simp add: instr_list_def)
  have "node h (esort var) var" using v wf_node every_node [of "node_enc h" var]
    by (auto simp: node_def encodable_def host_in_def node_enc_def)
  note eq = builds_Eq [OF inv _ this, unfolded builds_def]
  have "runs h (foldM (mono_instr var nv) (zip iv sels) (nd, ad, au)) (\<lambda>(nd, ad, au).
      form h nd (\<lambda>I. \<forall>j < length iv. \<not> dec_holds (instr_list h iv ! j) I) \<and>
      form h ad (\<lambda>I. \<forall>j < length iv. holds I (sels ! j) \<longrightarrow> dec_holds (instr_list h iv ! j) I) \<and>
      form h au (\<lambda>I. \<forall>j < length iv. holds I (sels ! j) \<longrightarrow> eval I nv = eval I (StateUpdCmpl (instr_list h iv ! j) var)))"
    if "free_var h (esort var) p nm nv" "form h nd (\<lambda>I. True)" "form h ad (\<lambda>I. True)" "form h au (\<lambda>I. True)" for nv nd ad au nm
    using that by (intro runs_mono_instrs [OF inv iv var _ sels]) (simp_all add: free_var_def)
  note instrs = this
  show ?thesis
    unfolding mono_var_def prod.case
    apply (rule runs_bnd [OF runs_free_var [OF v]])
    apply (rule runs_bnd [OF true], rule runs_bnd [OF true], rule runs_bnd [OF true])
    apply (rule runs_bnd [OF instrs], assumption+)
    apply (clarsimp)
    apply (rule runs_bnd [OF imply_and [OF inv node_form [OF dum]]], assumption+)
    apply (rule runs_bnd [OF runs_bnd [OF eq imply_and [OF inv node_form [OF dum]]]])
    apply (simp add: free_var_def, assumption+)
    apply (simp add: decides_def [abs_def] updates_def [abs_def] len)
    done
qed

text \<open>A list of formulas read as their conjunction.\<close>

definition forms :: "heap \<Rightarrow> expr list \<Rightarrow> (interp \<Rightarrow> bool) \<Rightarrow> bool" where
  "forms h ps P = ((\<forall>p \<in> set ps. node h SortBool p) \<and> (\<forall>I. interp_ok I \<longrightarrow> ((\<forall>p \<in> set ps. holds I p) \<longleftrightarrow> P I)))"

lemma forms_add:
  assumes "forms h ps P" "form h a Q" "form h b R"
  shows "forms h (ps @ [a, b]) (\<lambda>I. P I \<and> Q I \<and> R I)"
  using assms by (auto simp: forms_def form_def)

lemma forms_cong: "forms h ps P \<Longrightarrow> (\<And>I. P I \<longleftrightarrow> Q I) \<Longrightarrow> forms h ps Q"
  by (simp add: forms_def)

definition next_var :: "heap \<Rightarrow> expr \<Rightarrow> expr \<Rightarrow> bool" where
  "next_var h v n = (\<exists>p. ehost v = Some p \<and> free_var h (esort v) p (ename v @ ''.vnxt'') n)"

definition state_var :: "heap \<Rightarrow> expr \<Rightarrow> bool" where
  "state_var h v = (encodable h v \<and> is_var v \<and> ehost v \<noteq> None)"

lemma runs_mono_vars:
  assumes inv: "heap_inv h" and iv: "\<forall>i \<in> set iv. mono_enc h (set vs) i" and vs: "\<forall>v \<in> set vs. state_var h v"
    and sels: "length sels = length iv" "\<forall>s \<in> set sels. node h SortBool s" and dum: "node h SortBool dum"
  shows "runs h (foldM (mono_var iv sels dum) vs ([], [])) (\<lambda>(nxt, pred). list_all2 (next_var h) vs nxt \<and>
    forms h pred (\<lambda>I. \<forall>j < length vs. decides (instr_list h iv) sels dum I \<and>
      updates (instr_list h iv) sels dum (vs ! j) (nxt ! j) I))"
proof -
  let ?Q = "\<lambda>k (nxt, pred). list_all2 (next_var h) (take k vs) nxt \<and>
    forms h pred (\<lambda>I. \<forall>j < k. decides (instr_list h iv) sels dum I \<and> updates (instr_list h iv) sels dum (vs ! j) (nxt ! j) I)"
  have "runs h (mono_var iv sels dum (vs ! k) st) (?Q (Suc k))" if k: "k < length vs" and Q: "?Q k st" for k st
  proof -
    obtain nxt pred where st: "st = (nxt, pred)" by (cases st)
    have n: "length nxt = k" using Q k list_all2_lengthD [of "next_var h" "take k vs" nxt] by (simp add: st)
    have v: "vs ! k \<in> set vs" using k by simp
    then obtain p where p: "encodable h (vs ! k)" "is_var (vs ! k)" "ehost (vs ! k) = Some p"
      using vs by (auto simp: state_var_def)
    show ?thesis unfolding st
    proof (rule runs_weaken [OF runs_mono_var [OF inv iv v p sels dum]], clarify)
      fix nv ad au
      assume nv: "free_var h (esort (vs ! k)) p (ename (vs ! k) @ ''.vnxt'') nv"
        and f: "form h ad (decides (instr_list h iv) sels dum)" "form h au (updates (instr_list h iv) sels dum (vs ! k) nv)"
      have "list_all2 (next_var h) (take (Suc k) vs) (nxt @ [nv])"
        using Q nv p(3) k by (auto simp: st take_Suc_conv_app_nth next_var_def intro!: list_all2_appendI)
      moreover have "forms h (pred @ [ad, au]) (\<lambda>I. \<forall>j < Suc k. decides (instr_list h iv) sels dum I \<and>
          updates (instr_list h iv) sels dum (vs ! j) ((nxt @ [nv]) ! j) I)"
        using Q by (intro forms_cong [OF forms_add [OF _ f, of pred]]) (auto simp: st n nth_append less_Suc_eq)
      ultimately show "list_all2 (next_var h) (take (Suc k) vs) (nxt @ [nv]) \<and>
        forms h (pred @ [ad, au]) (\<lambda>I. \<forall>j < Suc k. decides (instr_list h iv) sels dum I \<and>
          updates (instr_list h iv) sels dum (vs ! j) ((nxt @ [nv]) ! j) I)" ..
    qed
  qed
  from runs_foldM [of vs ?Q, OF this] show ?thesis by (simp add: forms_def)
qed

lemma runs_form_cong:
  "runs h m (\<lambda>e. form h e P) \<Longrightarrow> (\<And>I. P I \<longleftrightarrow> Q I) \<Longrightarrow> runs h m (\<lambda>e. form h e Q)"
  by (simp add: form_def)

text \<open>The selection bits: at least one and at most one.\<close>

lemma runs_least:
  assumes "heap_inv h" "\<forall>s \<in> set sels. node h SortBool s" "form h acc P"
  shows "runs h (foldM (\<lambda>sel acc. OrE acc sel) sels acc) (\<lambda>e. form h e (\<lambda>I. P I \<or> (\<exists>s \<in> set sels. holds I s)))"
  using assms(2,3)
proof (induction sels arbitrary: acc P)
  case (Cons s sels)
  have s: "form h s (\<lambda>I. holds I s)" using node_form Cons.prems(1) by simp
  show ?case
    unfolding foldM.simps
  proof (rule runs_bnd [OF builds_logic(2) [OF assms(1) Cons.prems(2) s, unfolded builds_def]])
    fix r assume r: "form h r (\<lambda>I. P I \<or> holds I s)"
    have n: "\<forall>s \<in> set sels. node h SortBool s" using Cons.prems(1) by simp
    show "runs h (foldM (\<lambda>sel acc. OrE acc sel) sels r) (\<lambda>e. form h e (\<lambda>I. P I \<or> (\<exists>s \<in> set (s # sels). holds I s)))"
      by (rule runs_form_cong [OF Cons.IH [OF n r]]) auto
  qed
qed (simp add: node_form)

lemma runs_excludes:
  assumes "heap_inv h" "node h SortBool s" "\<forall>s \<in> set sels. node h SortBool s" "form h acc P"
  shows "runs h (foldM (\<lambda>sel_j acc. bnd (NotE s) (\<lambda>ni. bnd (NotE sel_j) (\<lambda>nj. bnd (OrE ni nj) (AndE acc)))) sels acc)
    (\<lambda>e. form h e (\<lambda>I. P I \<and> (\<forall>t \<in> set sels. \<not> (holds I s \<and> holds I t))))"
  using assms(3,4)
proof (induction sels arbitrary: acc P)
  case (Cons t sels)
  have t: "form h t (\<lambda>I. holds I t)" using node_form Cons.prems(1) by simp
  note n = builds_Not [OF assms(1) node_form [OF assms(2)], unfolded builds_def] builds_Not [OF assms(1) t, unfolded builds_def]
  have "runs h (bnd (NotE s) (\<lambda>ni. bnd (NotE t) (\<lambda>nj. bnd (OrE ni nj) (AndE acc))))
      (\<lambda>e. form h e (\<lambda>I. P I \<and> (\<not> holds I s \<or> \<not> holds I t)))"
    by (rule runs_bnd [OF n(1)], rule runs_bnd [OF n(2)], rule runs_bnd [OF builds_logic(2) [OF assms(1), unfolded builds_def]],
        assumption+, rule builds_logic(1) [OF assms(1) Cons.prems(2), unfolded builds_def])
  then show ?case
    unfolding foldM.simps
  proof (rule runs_bnd)
    fix r assume r: "form h r (\<lambda>I. P I \<and> (\<not> holds I s \<or> \<not> holds I t))"
    have n: "\<forall>s \<in> set sels. node h SortBool s" using Cons.prems(1) by simp
    show "runs h (foldM (\<lambda>sel_j acc. bnd (NotE s) (\<lambda>ni. bnd (NotE sel_j) (\<lambda>nj. bnd (OrE ni nj) (AndE acc)))) sels r)
        (\<lambda>e. form h e (\<lambda>I. P I \<and> (\<forall>u \<in> set (t # sels). \<not> (holds I s \<and> holds I u))))"
      by (rule runs_form_cong [OF Cons.IH [OF n r]]) auto
  qed
qed (simp add: node_form)

lemma runs_most:
  assumes "heap_inv h" "\<forall>s \<in> set sels. node h SortBool s" "form h acc P"
  shows "runs h (at_most_one sels acc) (\<lambda>e. form h e (\<lambda>I. P I \<and> sorted_wrt (\<lambda>s t. \<not> (holds I s \<and> holds I t)) sels))"
  using assms(2,3)
proof (induction sels arbitrary: acc P)
  case (Cons s sels)
  have s: "node h SortBool s" "\<forall>s \<in> set sels. node h SortBool s" using Cons.prems(1) by simp_all
  show ?case
    unfolding at_most_one.simps
  proof (rule runs_bnd [OF runs_excludes [OF assms(1) s Cons.prems(2)]])
    fix r assume "form h r (\<lambda>I. P I \<and> (\<forall>t \<in> set sels. \<not> (holds I s \<and> holds I t)))"
    from Cons.IH [OF s(2) this]
    show "runs h (at_most_one sels r)
        (\<lambda>e. form h e (\<lambda>I. P I \<and> sorted_wrt (\<lambda>s t. \<not> (holds I s \<and> holds I t)) (s # sels)))"
      by (elim runs_form_cong) auto
  qed
qed (simp add: node_form)

text \<open>The constraints together say that one choice is made.\<close>

definition chosen :: "Instr list \<Rightarrow> expr list \<Rightarrow> expr \<Rightarrow> expr list \<Rightarrow> expr list \<Rightarrow> interp \<Rightarrow> bool" where
  "chosen xs sels dum vs nxt I =
     ((\<forall>j < length vs. decides xs sels dum I \<and> updates xs sels dum (vs ! j) (nxt ! j) I) \<and>
      (holds I dum \<or> (\<exists>s \<in> set sels. holds I s)) \<and> sorted_wrt (\<lambda>s t. \<not> (holds I s \<and> holds I t)) sels)"

lemma one_selected:
  assumes "sorted_wrt (\<lambda>s t. \<not> (holds I s \<and> holds I t)) sels" "j < length sels" "holds I (sels ! j)" "k < length sels"
  shows "holds I (sels ! k) \<longleftrightarrow> k = j"
  using assms by (cases k j rule: linorder_cases) (auto simp: sorted_wrt_iff_nth_less)

lemma chosen_iff:
  assumes "vs \<noteq> []" "length sels = length xs" "next_holds nxt vs I J"
  shows "chosen xs sels dum vs nxt I \<longleftrightarrow> mono_choice xs sels dum (set vs) I J"
proof -
  have n: "eval J (vs ! k) = eval I (nxt ! k)" if "k < length vs" for k
    using assms(3) that by (simp add: next_holds_def list_all2_conv_all_nth)
  have all: "(\<forall>v \<in> set vs. eval J v = f v) \<longleftrightarrow> (\<forall>k < length vs. eval I (nxt ! k) = f (vs ! k))" for f
    using n by (auto simp: all_set_conv_all_nth)
  have some: "(\<exists>s \<in> set sels. holds I s) \<longleftrightarrow> (\<exists>j < length xs. holds I (sels ! j))"
    using assms(2) by (metis in_set_conv_nth)
  have ne: "0 < length vs" using assms(1) by simp
  show ?thesis
  proof (cases "holds I dum")
    case True
    have "chosen xs sels dum vs nxt I \<longleftrightarrow> (\<forall>j < length xs. \<not> holds I (sels ! j) \<and> \<not> dec_holds (xs ! j) I) \<and>
        (\<forall>k < length vs. eval I (nxt ! k) = eval I (vs ! k))"
      using True ne assms(2) by (auto simp: chosen_def decides_def updates_def sorted_wrt_iff_nth_less)
    then show ?thesis using True by (simp add: mono_choice_def all)
  next
    case False
    have "chosen xs sels dum vs nxt I \<longleftrightarrow> (\<exists>j < length xs. (\<forall>k < length xs. holds I (sels ! k) \<longleftrightarrow> k = j) \<and>
        dec_holds (xs ! j) I \<and> (\<forall>k < length vs. eval I (nxt ! k) = eval I (StateUpdCmpl (xs ! j) (vs ! k))))"
      (is "_ \<longleftrightarrow> ?R")
    proof
      assume c: "chosen xs sels dum vs nxt I"
      then obtain j where j: "j < length xs" "holds I (sels ! j)" using False some by (auto simp: chosen_def)
      with c have "\<forall>k < length xs. holds I (sels ! k) \<longleftrightarrow> k = j"
        using one_selected [of I sels j] assms(2) by (simp add: chosen_def)
      then show ?R using c j ne by (auto simp: chosen_def decides_def updates_def)
    next
      assume ?R
      then show "chosen xs sels dum vs nxt I"
        using False some assms(2) by (auto simp: chosen_def decides_def updates_def sorted_wrt_iff_nth_less)
    qed
    then show ?thesis using False by (simp add: mono_choice_def all)
  qed
qed

section \<open>The transition\<close>

definition tree_states :: "heap \<Rightarrow> nat \<Rightarrow> expr set" where
  "tree_states h root = {v. \<exists>q m. in_tree h root q \<and> ilas h q = Some m \<and> v \<in> set (vec (ila_states m))}"

definition tree_instrs :: "heap \<Rightarrow> nat \<Rightarrow> nat set" where
  "tree_instrs h root = {i. \<exists>q m. in_tree h root q \<and> ilas h q = Some m \<and> i \<in> set (vec (ila_instrs m))}"

text \<open>Trees of ILAs that can be unrolled.\<close>

definition mono_ok :: "heap \<Rightarrow> nat \<Rightarrow> 't Unroller \<Rightarrow> bool" where
  "mono_ok h root u =
     (heap_inv h \<and> ilas h root \<noteq> None \<and> tree_states h root \<noteq> {} \<and> (\<forall>v \<in> tree_states h root. state_var h v) \<and>
      (\<forall>i \<in> tree_instrs h root. mono_enc h (tree_states h root) i) \<and> preds_enc h u)"

definition sel_var :: "heap \<Rightarrow> nat \<Rightarrow> expr \<Rightarrow> bool" where
  "sel_var h i s = (\<exists>x p. instrs h i = Some x \<and> instr_host x = Some p \<and> free_var h SortBool p (instr_name x @ ''.sel'') s)"

lemma runs_mapM:
  assumes "\<And>x. x \<in> set xs \<Longrightarrow> runs h (f x) (R x)"
  shows "runs h (mapM f xs) (list_all2 R xs)"
  using assms
proof (induction xs)
  case (Cons x xs)
  show ?case
    unfolding mapM.simps
    by (rule runs_bnd [OF Cons.prems [of x]], simp, rule runs_bnd [OF Cons.IH], use Cons.prems in simp_all)
qed simp

lemma runs_sel_bit:
  assumes "mono_enc h V i"
  shows "runs h (sel_bit i) (sel_var h i)"
proof -
  obtain x p where x: "instrs h i = Some x" "instr_host x = Some p" "ilas h p \<noteq> None" using assms by (auto simp: mono_enc_def)
  have "bnd (lift (Inr p)) f = f p" for f :: "nat \<Rightarrow> expr M" by (auto simp: fun_eq_iff monad_simps)
  moreover have "runs h (NewBoolFreeVar p (instr_name x @ ''.sel'')) (sel_var h i)"
    using x by (intro runs_weaken [OF runs_vars(1) [OF x(3)]]) (auto simp: sel_var_def)
  ultimately show ?thesis
    using x(2) unfolding sel_bit_def by (intro runs_bnd [OF runs_get_instr [OF x(1)]]) simp
qed

text \<open>The lists that the code collects. They depend on the objects of the heap only.\<close>

definition stt_list :: "heap \<Rightarrow> nat \<Rightarrow> expr list" where
  "stt_list h root = (case GetSttTree root h of Inl _ \<Rightarrow> [] | Inr (vs, _) \<Rightarrow> vs)"

definition instr_ids :: "heap \<Rightarrow> nat \<Rightarrow> nat list" where
  "instr_ids h root = (case GetInstrTree root h of Inl _ \<Rightarrow> [] | Inr (iv, _) \<Rightarrow> iv)"

lemma foldM_mono:
  assumes "\<And>c st r h'. c \<in> set cs \<Longrightarrow> f c st h = Inr (r, h') \<Longrightarrow> h' = h \<and> g c st h1 = Inr (r, h1)"
  shows "foldM f cs st h = Inr (r, h') \<Longrightarrow> h' = h \<and> foldM g cs st h1 = Inr (r, h1)"
  using assms
proof (induction cs arbitrary: st)
  case (Cons c cs)
  then obtain s' h2 where s': "f c st h = Inr (s', h2)" "foldM f cs s' h2 = Inr (r, h')" by auto
  then have "h2 = h" "g c st h1 = Inr (s', h1)" using Cons.prems(2) [of c] by auto
  with s'(2) Cons.IH [of s'] Cons.prems(2) show ?case by auto
qed simp

lemma visit_alloc:
  assumes f: "\<And>p st r h'. f p st h = Inr (r, h') \<Longrightarrow> h' = h \<and> f p st h1 = Inr (r, h1)" and i: "ilas h1 = ilas h"
  shows "ila_visit_n n f p st h = Inr (r, h') \<Longrightarrow> n \<le> k \<Longrightarrow> h' = h \<and> ila_visit_n k f p st h1 = Inr (r, h1)"
proof (induction n arbitrary: p st r h' k)
  case (Suc n)
  then obtain k' where k: "k = Suc k'" "n \<le> k'" by (cases k) auto
  from Suc.prems(1) obtain m s' h2 where m: "ilas h p = Some m"
    "foldM (ila_visit_n n f) (vec (ila_childs m)) st h = Inr (s', h2)" "f p s' h2 = Inr (r, h')" by auto
  have "h2 = h \<and> foldM (ila_visit_n k' f) (vec (ila_childs m)) st h1 = Inr (s', h1)"
    by (rule foldM_mono [OF _ m(2)]) (use Suc.IH k(2) in blast)
  with m f show ?case by (auto simp: k(1) i)
qed simp

lemma collect_alloc:
  assumes "\<And>p st r h'. f p st h = Inr (r, h') \<Longrightarrow> h' = h \<and> f p st h1 = Inr (r, h1)" "only_alloc h h1"
    "ila_DepthFirstVisit f p st h = Inr (r, h)"
  shows "ila_DepthFirstVisit f p st h1 = Inr (r, h1)"
  using visit_alloc [of f h h1 "Suc (counter h - p)" p st r h "Suc (counter h1 - p)"] assms
  by (simp add: ila_DepthFirstVisit_def only_alloc_def diff_le_mono del: ila_visit_n.simps)

lemma trees_run:
  assumes "heap_inv h" "ilas h root \<noteq> None"
  shows "GetSttTree root h = Inr (stt_list h root, h)" "set (stt_list h root) = tree_states h root"
    "GetInstrTree root h = Inr (instr_ids h root, h)" "set (instr_ids h root) = tree_instrs h root"
proof -
  obtain vs iv where "GetSttTree root h = Inr (vs, h)" "set vs = tree_states h root"
    "GetInstrTree root h = Inr (iv, h)" "set iv = tree_instrs h root"
    using stt.collect [OF assms, of "[]"] ins.collect [OF assms, of "[]"]
    unfolding GetSttTree_def InsertSttTree_def GetInstrTree_def InsertInstrTree_def stt.tree_elems_def ins.tree_elems_def
      tree_states_def tree_instrs_def list.set(1) Un_empty_left by blast
  then show "GetSttTree root h = Inr (stt_list h root, h)" "set (stt_list h root) = tree_states h root"
    "GetInstrTree root h = Inr (instr_ids h root, h)" "set (instr_ids h root) = tree_instrs h root"
    by (simp_all add: stt_list_def instr_ids_def)
qed

lemma trees_alloc:
  assumes "heap_inv h" "ilas h root \<noteq> None" "only_alloc h h1"
  shows "GetSttTree root h1 = Inr (stt_list h root, h1)" "GetInstrTree root h1 = Inr (instr_ids h root, h1)"
proof -
  have i: "ilas h1 = ilas h" using assms(3) by (simp add: only_alloc_def)
  have "h' = h \<and> InsertStt p st h1 = Inr (r, h1)" if "InsertStt p st h = Inr (r, h')" for p st r h'
    using that i by (auto simp: InsertStt_def)
  from collect_alloc [where f = InsertStt, OF this assms(3)] trees_run(1) [OF assms(1,2)] show "GetSttTree root h1 = Inr (stt_list h root, h1)"
    by (simp add: GetSttTree_def InsertSttTree_def)
  have "h' = h \<and> InsertInstr p st h1 = Inr (r, h1)" if "InsertInstr p st h = Inr (r, h')" for p st r h'
    using that i by (auto simp: InsertInstr_def)
  from collect_alloc [where f = InsertInstr, OF this assms(3)] trees_run(3) [OF assms(1,2)] show "GetInstrTree root h1 = Inr (instr_ids h root, h1)"
    by (simp add: GetInstrTree_def InsertInstrTree_def)
qed

lemma runs_instr_tree:
  assumes "heap_inv h" "ilas h root \<noteq> None"
  shows "runs h (GetInstrTree root) (\<lambda>iv. iv = instr_ids h root)"
  using trees_alloc(2) [OF assms] by (auto simp: runs_def)

text \<open>What the first transition of a run builds: the selection bits, the next-state variables and the
  predicates.\<close>

definition mono_built :: "heap \<Rightarrow> nat \<Rightarrow> expr list \<Rightarrow> nat list \<Rightarrow> expr list \<Rightarrow> expr \<Rightarrow> expr list \<Rightarrow> expr list \<Rightarrow> bool" where
  "mono_built h root vs iv sels dum nxt pred =
     (iv = instr_ids h root \<and> list_all2 (sel_var h) iv sels \<and> free_var h SortBool root ''dead.sel'' dum \<and>
      list_all2 (next_var h) vs nxt \<and> forms h pred (chosen (instr_list h iv) sels dum vs nxt))"

lemma mono_nodes:
  assumes "list_all2 (sel_var h) iv sels" "free_var h SortBool root ''dead.sel'' dum"
  shows "length sels = length iv" "\<forall>s \<in> set sels. node h SortBool s" "node h SortBool dum"
proof -
  show "length sels = length iv" using list_all2_lengthD [OF assms(1)] by simp
  show "node h SortBool dum" using assms(2) by (simp add: free_var_def)
  show "\<forall>s \<in> set sels. node h SortBool s"
    using assms(1) by (induction rule: list_all2_induct) (auto simp: sel_var_def free_var_def)
qed

lemma runs_one_hot:
  assumes inv: "heap_inv h" and iv: "iv = instr_ids h root" and sels: "list_all2 (sel_var h) iv sels"
    and dum: "free_var h SortBool root ''dead.sel'' dum" and n: "list_all2 (next_var h) vs nxt"
    and p: "forms h pred (\<lambda>I. \<forall>j < length vs. decides (instr_list h iv) sels dum I \<and>
      updates (instr_list h iv) sels dum (vs ! j) (nxt ! j) I)"
    and f: "\<And>lo hi. mono_built h root vs iv sels dum nxt (pred @ [lo, hi]) \<Longrightarrow> runs h (f lo hi) R"
  shows "runs h (bnd (foldM (\<lambda>sel_i acc. OrE acc sel_i) sels dum) (\<lambda>at_least_one.
      bnd (BoolConst True) (\<lambda>c. bnd (at_most_one sels c) (\<lambda>most. f at_least_one most))))
    R"
proof -
  note s = mono_nodes [OF sels dum]
  show ?thesis
  proof (rule runs_bnd [OF runs_least [OF inv s(2) node_form [OF s(3)]]],
      rule runs_bnd [OF builds_True [OF inv, unfolded builds_def]], rule runs_bnd [OF runs_most [OF inv s(2)]], assumption)
    fix lo c hi assume lo: "form h lo (\<lambda>I. holds I dum \<or> (\<exists>s \<in> set sels. holds I s))"
      and hi: "form h hi (\<lambda>I. True \<and> sorted_wrt (\<lambda>s t. \<not> (holds I s \<and> holds I t)) sels)"
    have "forms h (pred @ [lo, hi]) (chosen (instr_list h iv) sels dum vs nxt)"
      by (rule forms_cong [OF forms_add [OF p lo hi]]) (simp add: chosen_def)
    then show "runs h (f lo hi) R" using iv sels dum n by (intro f) (simp add: mono_built_def)
  qed
qed

lemma runs_mono_transition:
  assumes ok: "mono_ok h root u" and vs: "set vs = tree_states h root"
    and u': "vars u' = vs" "k_next u' = []" "k_pred u' = []"
  shows "runs h (Mono_Transition root idx u') (\<lambda>u''. \<exists>iv sels dum nxt pred.
    u'' = u'\<lparr>k_next := nxt, k_pred := pred\<rparr> \<and> mono_built h root vs iv sels dum nxt pred)"
proof -
  have inv: "heap_inv h" and r: "ilas h root \<noteq> None" and st: "\<forall>v \<in> set vs. state_var h v"
    and ie: "\<forall>i \<in> set (instr_ids h root). mono_enc h (set vs) i" using ok vs trees_run(4) [of h root] by (auto simp: mono_ok_def)
  have root: "runs h (get_ila root) (\<lambda>_. True)" using r by (auto simp: runs_def only_alloc_def)
  have sels: "runs h (mapM sel_bit iv) (list_all2 (sel_var h) iv)" if "iv = instr_ids h root" for iv
    using ie that by (intro runs_mapM runs_sel_bit) blast
  have vars: "runs h (foldM (mono_var iv sels dum) vs ([], [])) (\<lambda>(nxt, pred). list_all2 (next_var h) vs nxt \<and>
      forms h pred (\<lambda>I. \<forall>j < length vs. decides (instr_list h iv) sels dum I \<and>
        updates (instr_list h iv) sels dum (vs ! j) (nxt ! j) I))"
    if "iv = instr_ids h root" "list_all2 (sel_var h) iv sels" "free_var h SortBool root ''dead.sel'' dum" for iv sels dum
    using ie that(1) by (intro runs_mono_vars [OF inv _ st mono_nodes [OF that(2,3)]]) simp
  have "runs h (Mono_Transition root idx u') (\<lambda>u''. \<exists>iv sels dum nxt pred.
      u'' = u'\<lparr>k_next := nxt, k_pred := pred\<rparr> \<and> mono_built h root (vars u') iv sels dum nxt pred)"
    unfolding Mono_Transition_def if_not_P [OF not_not [THEN iffD2, OF u'(2)]]
    apply (rule runs_bnd [OF runs_instr_tree [OF inv r]])
    apply (rule runs_bnd [OF sels], assumption)
    apply (rule runs_bnd [OF root])
    apply (rule runs_bnd [OF runs_vars(1) [OF r]])
    unfolding u'
    apply (rule runs_bnd [OF vars], assumption+)
    apply clarify
    apply (rule runs_one_hot [OF inv refl], assumption+)
    unfolding runs_ret
    apply blast
    done
  then show ?thesis by (simp add: u')
qed

section \<open>The unrolling\<close>

text \<open>Names depend on the names and parents of the ILAs only, not on the identifiers drawn.\<close>

definition naming :: "heap \<Rightarrow> nat \<Rightarrow> (string \<times> nat option) option" where
  "naming h p = map_option (\<lambda>x. (ila_name x, ila_parent x)) (ilas h p)"

lemma naming_cases:
  assumes "naming h' = naming h"
  obtains "ilas h p = None" "ilas h' p = None"
    | x x' where "ilas h p = Some x" "ilas h' p = Some x'" "ila_name x' = ila_name x" "ila_parent x' = ila_parent x"
  using fun_cong [OF assms, of p] by (cases "ilas h p"; cases "ilas h' p") (auto simp: naming_def)

lemma root_name_naming:
  assumes "naming h' = naming h"
  shows "rbind (GetRootName_n n p h') (\<lambda>(nm, _). Inr nm) = rbind (GetRootName_n n p h) (\<lambda>(nm, _). Inr nm)"
proof (induction n arbitrary: p)
  case (Suc n)
  show ?case
  proof (cases rule: naming_cases [OF assms, of p])
    case (2 x x')
    then show ?thesis
    proof (cases "ila_parent x")
      case (Some q)
      then show ?thesis using 2 Suc [of q]
        by (cases "GetRootName_n n q h"; cases "GetRootName_n n q h'") (auto simp: monad_simps rbind_def)
    qed (simp add: monad_simps rbind_def)
  qed (simp add: monad_simps rbind_def)
qed (simp add: monad_simps)

lemma z3_interp_naming:
  assumes "naming h' = naming h"
  shows "z3_interp h' = z3_interp h"
proof -
  have "root_of h' = root_of h"
    using root_name_naming [OF assms] by (simp add: fun_eq_iff root_of_def GetRootName_def split: option.splits del: GetRootName_n.simps)
  moreover have "host_name h' q = host_name h q" for q
  proof (cases q)
    case (Some p)
    then show ?thesis by (cases rule: naming_cases [OF assms, of p]) (simp_all add: host_name_def)
  qed (simp add: host_name_def)
  ultimately show ?thesis by (simp add: fun_eq_iff z3_interp_def z3_vname_def [abs_def] z3_fname_def [abs_def])
qed

lemma z3_interp_alloc: "only_alloc h h1 \<Longrightarrow> z3_interp h1 = z3_interp h"
  by (rule z3_interp_naming) (simp add: fun_eq_iff naming_def only_alloc_def)

text \<open>The names of the free variables: every run builds new variables with the same names, which a
  translation does not distinguish.\<close>

definition fvar :: "sort \<Rightarrow> nat \<Rightarrow> string \<Rightarrow> expr" where
  "fvar s p nm = Expr 0 nm s (Some p) [] [] KVar"

definition sel_of :: "heap \<Rightarrow> nat \<Rightarrow> expr" where
  "sel_of h i = fvar SortBool (the (instr_host (the (instrs h i)))) (instr_name (the (instrs h i)) @ ''.sel'')"

definition next_of :: "expr \<Rightarrow> expr" where
  "next_of v = fvar (esort v) (the (ehost v)) (ename v @ ''.vnxt'')"

lemma eval_free: "free_var h s p nm v \<Longrightarrow> eval (z3_interp h0 suf E) v = eval (z3_interp h0 suf E) (fvar s p nm)"
  by (cases v) (auto simp: free_var_def fvar_def node_def z3_interp_def smt_interp_def z3_vname_def)

text \<open>A step of the tree under the interpretations of two consecutive steps.\<close>

definition mono_step :: "heap \<Rightarrow> nat \<Rightarrow> 't Unroller \<Rightarrow> nat \<Rightarrow> interp \<Rightarrow> interp \<Rightarrow> bool" where
  "mono_step h root u i I J =
     (preds_hold u i I \<and> (i = 0 \<longrightarrow> (\<forall>p \<in> set (i_pred u). holds I p)) \<and>
      (\<forall>v \<in> tree_states h root. eval J v = eval I (next_of v)) \<and>
      mono_choice (instr_list h (instr_ids h root)) (map (sel_of h) (instr_ids h root)) (fvar SortBool root ''dead.sel'')
        (tree_states h root) I J)"

lemma mono_choice_cong:
  assumes "holds I dum = holds I dum'" "\<And>j. j < length xs \<Longrightarrow> holds I (sels ! j) = holds I (sels' ! j)"
  shows "mono_choice xs sels dum V I J = mono_choice xs sels' dum' V I J"
  using assms by (simp add: mono_choice_def cong: conj_cong)

lemma mono_step_iff:
  fixes E :: smt_env and suf :: string
  assumes b: "mono_built h root vs iv sels dum nxt pred" and vs: "vs \<noteq> []" "set vs = tree_states h root" and E: "env_ok E"
  defines "I \<equiv> z3_interp h suf E"
  shows "source_holds u (\<lambda>_. pred) i I \<and> next_holds nxt vs I J \<longleftrightarrow> mono_step h root u i I J"
proof -
  have iv: "iv = instr_ids h root" and sels: "list_all2 (sel_var h) iv sels" and dum: "free_var h SortBool root ''dead.sel'' dum"
    and nxt: "list_all2 (next_var h) vs nxt" using b unfolding mono_built_def by blast+
  have len: "length sels = length (instr_list h iv)" using list_all2_lengthD [OF sels] by (simp add: instr_list_def)
  have "interp_ok I" using smt_interp_ok [OF E] by (simp add: I_def z3_interp_def)
  then have p: "(\<forall>p \<in> set pred. holds I p) \<longleftrightarrow> chosen (instr_list h iv) sels dum vs nxt I"
    using b by (simp add: mono_built_def forms_def)
  have "holds I (sels ! j) = holds I (map (sel_of h) iv ! j)" if "j < length iv" for j
    using sels that eval_free [of h SortBool _ _ "sels ! j" h suf E]
    by (fastforce simp: holds_def I_def sel_var_def sel_of_def list_all2_conv_all_nth)
  then have c: "mono_choice (instr_list h iv) sels dum V I J =
      mono_choice (instr_list h iv) (map (sel_of h) iv) (fvar SortBool root ''dead.sel'') V I J" for V
    using eval_free [OF dum, of h suf E] by (intro mono_choice_cong) (simp_all add: holds_def I_def instr_list_def)
  have "next_holds nxt vs I J \<longleftrightarrow> (\<forall>v \<in> set vs. eval J v = eval I (next_of v))"
    using nxt eval_free [where h0 = h and suf = suf and E = E] unfolding next_holds_def I_def
    by (induction rule: list_all2_induct) (auto simp: next_var_def next_of_def)
  then show ?thesis using chosen_iff [OF vs(1) len, of nxt I J dum] p c iv vs(2) by (auto simp: source_holds_def mono_step_def)
qed

text \<open>After the first transition the unroller is in a fixed point of the following ones.\<close>

lemma mono_transits:
  fixes u :: "'t Unroller"
  assumes ok: "mono_ok h root u" and vs: "set vs = tree_states h root" and b: "mono_built h root vs iv sels dum nxt pred"
    and a: "only_alloc h h1"
  shows "transits h1 len vs (\<lambda>p n. p = pred \<and> n = nxt) (Mono_Transition root :: int \<Rightarrow> 't Unroller \<Rightarrow> 't Unroller M)
    (\<lambda>_. pred) (\<lambda>_. nxt)"
proof -
  have inv: "heap_inv h1" using heap_inv_alloc [OF _ a] ok by (simp add: mono_ok_def)
  have v: "\<forall>v \<in> set vs. encodable h1 v" using ok vs by (simp add: mono_ok_def state_var_def encodable_alloc [OF a])
  have p: "\<forall>p \<in> set pred. bool_pred encodable h1 p"
    using b by (simp add: mono_built_def forms_def node_def bool_pred_def encodable_alloc [OF a])
  have nv: "list_all2 (next_var h) vs nxt" using b by (simp add: mono_built_def)
  then have n: "list_all2 (\<lambda>e v. encodable h1 e \<and> esort e = esort v) nxt vs"
    by (induction rule: list_all2_induct) (auto simp: next_var_def free_var_def node_def encodable_alloc [OF a])
  have len: "length nxt = length vs" "nxt \<noteq> []"
    using list_all2_lengthD [OF nv] ok vs by (auto simp: mono_ok_def)
  then have "Mono_Transition root j u h1 = Inr (u\<lparr>k_next := nxt, k_pred := pred\<rparr>, h1)"
    if "vars u = vs" "k_pred u = pred" "k_next u = nxt" for u :: "'t Unroller" and j
    using that by (cases u) (simp add: Mono_Transition_def monad_simps)
  then show ?thesis using inv v p n by (simp add: transits_def)
qed

lemma assn_step_after:
  assumes "Transition (c_int (int i)) u h = Inr (u1, h1)" "Transition (c_int (int i)) u1 h1 = Inr (u1, h1)"
    "SuffCurr u1 = SuffCurr u"
  shows "Assn_step ctx Transition pos i u h = Assn_step ctx Transition pos i u1 h1"
  using assms by (simp add: Assn_step_def Let_def monad_simps)

lemma preds_enc_alloc: "only_alloc h h1 \<Longrightarrow> preds_enc h1 u = preds_enc h u"
  by (simp add: preds_enc_def bool_pred_def encodable_alloc)

lemma mono_dep:
  assumes "mono_ok h root u"
  shows "\<exists>vs. set vs = tree_states h root \<and> vs \<noteq> [] \<and> (\<forall>u'. Mono_DefineDepVar root u' h = Inr (u'\<lparr>vars := vs\<rparr>, h))"
proof -
  have "heap_inv h" "ilas h root \<noteq> None" "tree_states h root \<noteq> {}" using assms by (simp_all add: mono_ok_def)
  then show ?thesis
    using trees_run(1,2) [of h root] by (intro exI [of _ "stt_list h root"]) (auto simp: Mono_DefineDepVar_def monad_simps)
qed

text \<open>A run of \<open>len\<close> steps from step \<open>pos\<close>, under the assignment of the variables of all steps.\<close>

definition mono_path :: "heap \<Rightarrow> nat \<Rightarrow> 't Unroller \<Rightarrow> int \<Rightarrow> int \<Rightarrow> smt_env \<Rightarrow> bool" where
  "mono_path h root u len pos E =
     ((\<forall>i < nat len. mono_step h root u i (z3_interp h (SuffCurr u (c_int (pos + int i))) E)
         (z3_interp h (SuffCurr u (c_int (pos + int i + 1))) E)) \<and>
      preds_hold u (nat len) (z3_interp h (SuffCurr u len) E))"

context z3_backend
begin

lemma mono_loop:
  fixes u :: "'t Unroller"
  assumes ok: "mono_ok h root u" and vs: "set vs = tree_states h root" "vs \<noteq> []"
    and u1: "same_spec (u\<lparr>vars := vs\<rparr>) u1" "k_next u1 = []" "k_pred u1 = []" "cstr u1 = []"
  shows "\<exists>u2 h1. only_alloc h h1 \<and>
    foldM (Assn_step ctx (Mono_Transition root) pos) [0 ..< len] u1 h = Inr (u2, h1) \<and> same_spec (u\<lparr>vars := vs\<rparr>) u2 \<and>
    z3_gen.says (cstr u2) (\<lambda>E. \<forall>i < len. mono_step h root u i
      (z3_interp h (SuffCurr u (c_int (pos + int i))) E) (z3_interp h (SuffCurr u (c_int (pos + int i + 1))) E))"
proof -
  have "vars u1 = vs" using same_specD(1) [OF u1(1)] by simp
  from runsD [OF runs_mono_transition [OF ok vs(1) this u1(2,3), of "c_int (int 0)"]] obtain iv sels dum nxt pred h1 where
    t: "Mono_Transition root (c_int (int 0)) u1 h = Inr (u1\<lparr>k_next := nxt, k_pred := pred\<rparr>, h1)" (is "_ = Inr (?u1, h1)")
    and b: "mono_built h root vs iv sels dum nxt pred" and a: "only_alloc h h1" by blast
  let ?J = "\<lambda>p n. p = pred \<and> n = nxt" let ?u = "u\<lparr>vars := vs\<rparr>"
  let ?I = "\<lambda>i E. z3_interp h (SuffCurr u (c_int (pos + int i))) E"
  let ?I1 = "\<lambda>i E. z3_interp h (SuffCurr u (c_int (pos + int i + 1))) E"
  let ?R = "\<lambda>i E. source_holds u (\<lambda>_. pred) i (?I i E) \<and> next_holds nxt vs (?I i E) (?I1 i E)"
  note tr = mono_transits [OF ok vs(1) b a]
  have ext: "extends h1 vs ?J ?u (\<lambda>E. True) ?u1"
    using u1 z3_gen.says_Nil by (simp add: extends_def same_spec_def)
  have pe: "preds_enc h1 ?u" using ok by (simp add: preds_enc_alloc [OF a] spec_vars mono_ok_def)
  have step: "\<exists>u''. Assn_step ctx (Mono_Transition root) pos i u' h1 = Inr (u'', h1) \<and>
      extends h1 vs ?J ?u (\<lambda>E. P E \<and> ?R i E) u''" if "i < len" "extends h1 vs ?J ?u P u'" for i P u'
    using assn_step [OF tr that(1) pe that(2), of pos] by (simp add: spec_vars z3_interp_alloc [OF a])
  obtain u2 where u2: "foldM (Assn_step ctx (Mono_Transition root) pos) [0 ..< len] ?u1 h1 = Inr (u2, h1)"
    "extends h1 vs ?J ?u (\<lambda>E. True \<and> (\<forall>i < len. ?R i E)) u2"
    using fold_steps [where f = "Assn_step ctx (Mono_Transition root) pos", OF step ext, of len] by blast
  note iff = mono_step_iff [OF b vs(2,1)]
  have "z3_gen.says (cstr u2) (\<lambda>E. True \<and> (\<forall>i < len. ?R i E))" using u2(2) unfolding extends_def by blast
  then have says: "z3_gen.says (cstr u2) (\<lambda>E. \<forall>i < len. mono_step h root u i (?I i E) (?I1 i E))"
    by (rule z3_gen.says_cong) (simp only: iff simp_thms)
  show ?thesis
  proof (cases len)
    case 0
    then have "foldM (Assn_step ctx (Mono_Transition root) pos) [0 ..< len] u1 h = Inr (u1, h)" by (simp add: monad_simps)
    moreover have "z3_gen.says (cstr u1) (\<lambda>E. \<forall>i < len. mono_step h root u i (?I i E) (?I1 i E))"
      using 0 u1(4) z3_gen.says_Nil by simp
    ultimately show ?thesis using u1(1) only_alloc_refl by blast
  next
    case (Suc n)
    have "[0 ..< len] = 0 # [Suc 0 ..< len]" using Suc by (simp add: upt_conv_Cons)
    moreover have "Assn_step ctx (Mono_Transition root) pos 0 u1 h = Assn_step ctx (Mono_Transition root) pos 0 ?u1 h1"
      using transition_run(1) [OF tr _ ext, of 0 1] t by (intro assn_step_after) (simp_all add: fun_eq_iff SuffCurr_def)
    ultimately have "foldM (Assn_step ctx (Mono_Transition root) pos) [0 ..< len] u1 h = Inr (u2, h1)"
      using u2(1) by (simp add: monad_simps)
    moreover have "same_spec ?u u2" using u2(2) by (simp add: extends_def)
    ultimately show ?thesis using a says by blast
  qed
qed

lemma mono_assn:
  assumes ok: "mono_ok h root u" and len: "0 \<le> len" "len < 2 ^ 31"
  shows "\<exists>t u' h'. MonoAssn ctx root len pos u h = Inr ((t, u'), h') \<and> only_alloc h h' \<and>
    extra_suff u' = extra_suff u \<and> preds_enc h u' \<and> tsort t = SBool \<and> (\<forall>E. env_ok E \<longrightarrow> den E t = VBool (mono_path h root u len pos E))"
proof -
  have n: "size_of_int len = nat len" "c_int len = len" using len by (simp_all add: size_of_int_def c_int_id)
  obtain vs where vs: "set vs = tree_states h root" "vs \<noteq> []"
    and dep: "\<forall>u' :: 't Unroller. Mono_DefineDepVar root u' h = Inr (u'\<lparr>vars := vs\<rparr>, h)" using mono_dep [OF ok] by blast
  have inv: "heap_inv h" "\<forall>v \<in> set vs. encodable h v" using ok vs(1) by (auto simp: mono_ok_def state_var_def)
  obtain zs where b: "BootStrap ctx (Mono_DefineDepVar root) pos False u h = Inr (u\<lparr>vars := vs, k_pred := [], k_next := [],
      k_prev_z3 := zs, k_curr_z3 := [], k_next_z3 := [], cstr := []\<rparr>, h)" (is "_ = Inr (?u1, h)")
    using bootstrap [where Dep = "Mono_DefineDepVar root" and u = u and pos = pos, OF inv vs(2)] dep by auto
  have "same_spec (u\<lparr>vars := vs\<rparr>) ?u1" by (simp add: same_spec_def)
  from mono_loop [OF ok vs this, of pos "nat len"] obtain u2 h1 where a: "only_alloc h h1"
    and l: "foldM (Assn_step ctx (Mono_Transition root) pos) [0 ..< nat len] ?u1 h = Inr (u2, h1)" "same_spec (u\<lparr>vars := vs\<rparr>) u2"
    and says: "z3_gen.says (cstr u2) (\<lambda>E. \<forall>i < nat len. mono_step h root u i
      (z3_interp h (SuffCurr u (c_int (pos + int i))) E) (z3_interp h (SuffCurr u (c_int (pos + int i + 1))) E))" by auto
  note d = same_specD [OF l(2)]
  have h1: "heap_inv h1" "preds_enc h1 u2"
    using heap_inv_alloc [OF inv(1) a] ok d(9) by (simp_all add: preds_enc_alloc [OF a] spec_vars mono_ok_def)
  from end_run [OF h1 says, of "nat len"] obtain u3 where e: "end_preds ctx (nat len) u2 h1 = Inr (u3, h1)"
    "z3_gen.says (cstr u3) (mono_path h root u len pos)"
    by (auto simp: d spec_vars n len(1) z3_interp_alloc [OF a] mono_path_def [abs_def])
  have "extra_suff u3 = extra_suff u" using e(1) l(2) by (auto simp: end_preds_def Let_def same_spec_def)
  moreover have "preds_enc h (u2\<lparr>cstr := x\<rparr>) = preds_enc h u2" for x by (simp add: preds_enc_def s_pred_at_def)
  then have "preds_enc h u3" using h1(2) e(1) unfolding preds_enc_alloc [OF a] by (auto simp: end_preds_def Let_def)
  moreover from conj_pred [OF e(2), of h1] obtain t where
    t: "ConjPred ctx (cstr u3) h1 = Inr (t, h1)" "tsort t = SBool"
    "\<forall>E. env_ok E \<longrightarrow> den E t = VBool (mono_path h root u len pos E)" by blast
  moreover have "MonoAssn ctx root len pos u h = Inr ((t, u3), h1)"
    using b l(1) e(1) t(1) by (simp add: MonoAssn_def UnrollAssn_def n monad_simps)
  ultimately show ?thesis using a by blast
qed

end

section \<open>Properties\<close>

text \<open>C9: The monolithic transition relation. For a tree of ILAs and a number of steps below $2^{31}$,
  \<^verbatim>\<open>MonoUnroll::MonoAssn\<close> returns a term that is true exactly when at every step the predicates hold and
  either no instruction of the tree can be decoded and the states keep their values, or exactly one
  instruction is selected, its decode function holds and it alone updates the states. The selections are
  read from one free variable per instruction of the tree and one for the idle step, and the new values of
  the states from one more variable per state, all named after their owners.\<close>

theorem mono_assn_says:
  assumes "z3_backend ctx tsort den" "mono_ok h root u" "0 \<le> len" "len < 2 ^ 31"
  shows "\<exists>t u' h'. MonoAssn ctx root len pos u h = Inr ((t, u'), h') \<and> ilas h' = ilas h \<and> instrs h' = instrs h \<and>
    tsort t = SBool \<and> (\<forall>E. env_ok E \<longrightarrow> den E t = VBool (mono_path h root u len pos E))"
  using z3_backend.mono_assn [OF assms, of pos] unfolding only_alloc_def by blast

lemma unroll_heap_tree: "in_tree unroll_heap 1 q \<longleftrightarrow> q = 1"
  by (subst in_tree_iff) (auto simp: unroll_heap_def ila_init_def KeyVec_new_def)

lemma unroll_heap_mono: "mono_ok unroll_heap 1 legacy_u"
proof -
  have e: "vec (snd (push_back ''x'' ux KeyVec_new)) = [ux]" "vec (snd (push_back ''i'' (3::nat) KeyVec_new)) = [3]"
    using unroll_heap_entries kv_entries_vec [of "snd (push_back ''x'' ux KeyVec_new)"]
      kv_entries_vec [of "snd (push_back ''i'' (3::nat) KeyVec_new)"] by simp_all
  have t: "tree_states unroll_heap 1 = {ux}" "tree_instrs unroll_heap 1 = {3}"
    using e unfolding tree_states_def tree_instrs_def unroll_heap_tree by (simp_all add: unroll_heap_def)
  have x: "encodable unroll_heap ux" "instr_enc encodable unroll_heap {ux} 3"
    using unroll_heap_ok by (simp_all add: unrollable_def unroll_heap_states)
  then obtain y p d where y: "instrs unroll_heap 3 = Some y" "instr_host y = Some p" "ilas unroll_heap p \<noteq> None"
    "instr_decode y = Some d" "encodable unroll_heap d" "esort d = SortBool"
    "\<forall>e. update y (ename ux) = Some e \<longrightarrow> encodable unroll_heap e \<and> esort e = esort ux"
    by (auto simp: instr_enc_def bool_pred_def)
  have "host_in unroll_heap d" "host_in unroll_heap ux" "\<forall>e. update y (ename ux) = Some e \<longrightarrow> host_in unroll_heap e"
    using y(1,4) by (auto simp: unroll_heap_def host_in_def update_def ux_def)
  with x(1) y have "mono_enc unroll_heap {ux} 3"
    by (auto simp: mono_enc_def node_def StateUpdCmpl_def update_var_def split: option.splits)
  moreover have "preds_enc unroll_heap legacy_u" using legacy_u_ok unfolding path_ok_def by blast
  moreover have "ilas unroll_heap 1 \<noteq> None" "state_var unroll_heap ux"
    using x(1) by (simp_all add: unroll_heap_def state_var_def ux_def)
  ultimately show ?thesis using unroll_heap_inv t by (simp add: mono_ok_def)
qed

text \<open>With every variable 0 nothing is selected although the instruction can be decoded: the formula of
  one step is false.\<close>

theorem mono_assn_says_witness:
  "\<exists>t u' h'. MonoAssn sem_api 1 1 0 legacy_u unroll_heap = Inr ((t, u'), h') \<and> sem_den zero_env t = VBool False"
proof -
  let ?u = "legacy_u :: sem_term Unroller"
  have "\<not> holds (z3_interp unroll_heap suf zero_env) (fvar SortBool p nm)" for suf p nm
    by (simp add: fvar_def holds_def z3_interp_def smt_interp_def zero_env_def smt_zero_def)
  then have "\<not> mono_step unroll_heap 1 ?u 0 (z3_interp unroll_heap suf zero_env) J" for suf J
    by (auto simp: mono_step_def mono_choice_def instr_list_def sel_of_def)
  then have "\<not> mono_path unroll_heap 1 ?u 1 0 zero_env" by (simp add: mono_path_def)
  with mono_assn_says [OF sem.z3_backend_axioms unroll_heap_mono, of 1 0] zero_env_ok show ?thesis by fastforce
qed

end
