(* ===== verification/Z3Solver.thy ===== *)
theory Z3Solver
  imports MonoUnroll
begin

text \<open>
  The solver object of Z3 as the equivalence checkers use it, and rules for building formulas with the
  operators of \<^verbatim>\<open>z3::expr\<close>. The solver is a parameter: a record of the functions of \<^verbatim>\<open>z3::solver\<close> that the
  code calls, on a state of any type. The locale \<open>z3_solver_backend\<close> names what is documented: a stack of
  sets of assertions, and answers that are right unless they are \<^verbatim>\<open>unknown\<close>.
\<close>

section \<open>The interface\<close>

datatype check_result = Unsat | Sat | Unknown

record ('t, 's) z3_solver =
  sol_new :: 's
  sol_add :: "'t \<Rightarrow> 's \<Rightarrow> 's result"
  sol_push :: "'s \<Rightarrow> 's"
  sol_pop :: "'s \<Rightarrow> 's result"
  sol_reset :: "'s \<Rightarrow> 's"
  sol_check :: "'s \<Rightarrow> check_result \<times> 's"

text \<open>The operators on terms, in the monad of the heap.\<close>

definition t_not :: "'t z3_api \<Rightarrow> 't \<Rightarrow> 't M" where
  "t_not ctx a = lift (z3_mk ctx Z3_not [] [a])"

definition t_and :: "'t z3_api \<Rightarrow> 't \<Rightarrow> 't \<Rightarrow> 't M" where
  "t_and ctx a b = lift (z3_mk ctx Z3_and [] [a, b])"

definition t_or :: "'t z3_api \<Rightarrow> 't \<Rightarrow> 't \<Rightarrow> 't M" where
  "t_or ctx a b = lift (z3_mk ctx Z3_or [] [a, b])"

definition t_eq :: "'t z3_api \<Rightarrow> 't \<Rightarrow> 't \<Rightarrow> 't M" where
  "t_eq ctx a b = lift (z3_mk ctx Z3_eq [] [a, b])"

definition t_implies :: "'t z3_api \<Rightarrow> 't \<Rightarrow> 't \<Rightarrow> 't M" where
  "t_implies ctx a b = lift (Z3Implies ctx a b)"

definition t_bool :: "'t z3_api \<Rightarrow> bool \<Rightarrow> 't M" where
  "t_bool ctx b = lift (z3_bool_val ctx b)"

section \<open>Formulas as terms\<close>

context z3_backend
begin

definition bterm :: "'t \<Rightarrow> (smt_env \<Rightarrow> bool) \<Rightarrow> bool" where
  "bterm t P = (tsort t = SBool \<and> (\<forall>E. env_ok E \<longrightarrow> den E t = VBool (P E)))"

lemma bterm_cong: "bterm t P \<Longrightarrow> (\<And>E. env_ok E \<Longrightarrow> P E \<longleftrightarrow> Q E) \<Longrightarrow> bterm t Q"
  by (simp add: bterm_def)

lemma runs_is_term:
  assumes "is_term tsort den SBool v r" "\<And>E. env_ok E \<Longrightarrow> v E = VBool (P E)"
  shows "runs h (lift r) (\<lambda>t. bterm t P)"
  using assms by (auto simp: runs_def is_term_def bterm_def)

lemma runs_ops:
  assumes "bterm a P" "bterm b Q"
  shows "runs h (t_not ctx a) (\<lambda>t. bterm t (\<lambda>E. \<not> P E))" "runs h (t_and ctx a b) (\<lambda>t. bterm t (\<lambda>E. P E \<and> Q E))"
    "runs h (t_or ctx a b) (\<lambda>t. bterm t (\<lambda>E. P E \<or> Q E))" "runs h (t_eq ctx a b) (\<lambda>t. bterm t (\<lambda>E. P E \<longleftrightarrow> Q E))"
    "runs h (t_implies ctx a b) (\<lambda>t. bterm t (\<lambda>E. P E \<longrightarrow> Q E))"
  unfolding t_not_def t_and_def t_or_def t_eq_def t_implies_def Z3Implies_def
  by (rule runs_is_term [OF mk]; use assms in \<open>simp add: bterm_def smt_sig_def smt_sem_def sig_bool2_def bool2_def\<close>)+

lemma runs_bool: "runs h (t_bool ctx b) (\<lambda>t. bterm t (\<lambda>E. b))"
  unfolding t_bool_def by (rule runs_is_term [OF bool_val]) simp

lemma runs_expr:
  assumes "heap_inv h" "encodable h e"
  shows "runs h (gen_GetExpr ctx e s) (denotes h s e)"
proof -
  have "\<exists>t. GetExpr ctx h1 e s = Inr t \<and> denotes h s e t" if "only_alloc h h1" for h1
    using GetExpr_denotes [OF heap_inv_alloc [OF assms(1) that], of e s] assms(2)
    by (auto simp: encodable_alloc [OF that] denotes_def z3_interp_alloc [OF that])
  then show ?thesis by (fastforce simp: runs_def gen_GetExpr_def)
qed

lemma runs_pred:
  assumes "heap_inv h" "bool_pred encodable h e"
  shows "runs h (gen_GetExpr ctx e s) (\<lambda>t. bterm t (\<lambda>E. holds (z3_interp h s E) e))"
proof -
  have "bterm t (\<lambda>E. holds (z3_interp h s E) e)" if "denotes h s e t" for t
  proof -
    have e: "wf_expr e" "esort e = SortBool" using assms(2) by (simp_all add: bool_pred_def encodable_def)
    have "eval (z3_interp h s E) e = VBool (holds (z3_interp h s E) e)" if E: "env_ok E" for E
    proof -
      have "interp_ok (z3_interp h s E)" using smt_interp_ok [OF E] by (simp add: z3_interp_def)
      then obtain b where "eval (z3_interp h s E) e = VBool b" using wf_bool_val e by blast
      then show ?thesis by (simp add: holds_def)
    qed
    then show ?thesis using that e(2) by (simp add: bterm_def denotes_def stands_for_def smt_sort_of_def)
  qed
  then show ?thesis using assms by (intro runs_weaken [OF runs_expr]) (simp_all add: bool_pred_def)
qed

lemma runs_equal:
  assumes "denotes h1 s1 e1 a" "denotes h2 s2 e2 b" "esort e1 = esort e2" "sort_wf (esort e2)"
  shows "runs h (t_eq ctx a b) (\<lambda>t. bterm t (\<lambda>E. eval (z3_interp h1 s1 E) e1 = eval (z3_interp h2 s2 E) e2))"
  unfolding t_eq_def
  using assms by (intro runs_is_term [OF mk]) (auto simp: denotes_def stands_for_def smt_sig_def smt_sem_def)

end

section \<open>What is relied on\<close>

definition add_top :: "'t \<Rightarrow> 't list list \<Rightarrow> 't list list" where
  "add_top t fs = (case fs of [] \<Rightarrow> [[t]] | f # fs \<Rightarrow> (t # f) # fs)"

lemma concat_add_top [simp]: "set (concat (add_top t fs)) = insert t (set (concat fs))"
  by (auto simp: add_top_def split: list.splits)

locale z3_solver_backend = z3_backend ctx tsort den
  for ctx :: "'t z3_api" and tsort :: "'t \<Rightarrow> smt_sort" and den :: "smt_env \<Rightarrow> 't \<Rightarrow> sval" +
  fixes sol :: "('t, 's) z3_solver" and frames :: "'s \<Rightarrow> 't list list"
  assumes new: "frames (sol_new sol) = [[]]"
    and add: "tsort t = SBool \<Longrightarrow> \<exists>s'. sol_add sol t s = Inr s' \<and> frames s' = add_top t (frames s)"
    and push: "frames (sol_push sol s) = [] # frames s"
    and pop: "frames s = f # f' # fs \<Longrightarrow> \<exists>s'. sol_pop sol s = Inr s' \<and> frames s' = f' # fs"
    and reset: "frames (sol_reset sol s) = [[]]"
    and check_frames: "frames (snd (sol_check sol s)) = frames s"
    and check_unsat: "fst (sol_check sol s) = Unsat \<Longrightarrow> env_ok E \<Longrightarrow> \<exists>t \<in> set (concat (frames s)). den E t \<noteq> VBool True"
    and check_sat: "fst (sol_check sol s) = Sat \<Longrightarrow> \<exists>E. env_ok E \<and> (\<forall>t \<in> set (concat (frames s)). den E t = VBool True)"
begin

text \<open>A solver whose assertions together say \<open>P\<close>.\<close>

definition assumes_that :: "'s \<Rightarrow> (smt_env \<Rightarrow> bool) \<Rightarrow> bool" where
  "assumes_that s P = (\<forall>E. env_ok E \<longrightarrow> ((\<forall>t \<in> set (concat (frames s)). den E t = VBool True) \<longleftrightarrow> P E))"

lemma assumes_new: "assumes_that (sol_new sol) (\<lambda>E. True)"
  by (simp add: assumes_that_def new)

lemma assumes_reset: "assumes_that (sol_reset sol s) (\<lambda>E. True)"
  by (simp add: assumes_that_def reset)

lemma assumes_cong: "assumes_that s P \<Longrightarrow> (\<And>E. env_ok E \<Longrightarrow> P E \<longleftrightarrow> Q E) \<Longrightarrow> assumes_that s Q"
  by (simp add: assumes_that_def)

lemma runs_add:
  assumes "bterm t Q" "assumes_that s P"
  shows "runs h (lift (sol_add sol t s)) (\<lambda>s'. assumes_that s' (\<lambda>E. P E \<and> Q E) \<and> frames s' = add_top t (frames s))"
proof -
  obtain s' where s': "sol_add sol t s = Inr s'" "frames s' = add_top t (frames s)"
    using add [of t s] assms(1) by (auto simp: bterm_def)
  have "assumes_that s' (\<lambda>E. P E \<and> Q E)"
    using assms unfolding assumes_that_def s'(2) concat_add_top bterm_def by auto
  then show ?thesis using s' by (auto simp: runs_def)
qed

lemma check_right:
  assumes "assumes_that s P"
  shows "fst (sol_check sol s) = Unsat \<Longrightarrow> env_ok E \<Longrightarrow> \<not> P E" "fst (sol_check sol s) = Sat \<Longrightarrow> \<exists>E. env_ok E \<and> P E"
    "assumes_that (snd (sol_check sol s)) P"
  using assms check_unsat check_sat unfolding assumes_that_def check_frames by blast+

end

section \<open>A model of the solver\<close>

text \<open>The exact solver over the model of Z3's terms.\<close>

definition sem_check :: "sem_term list list \<Rightarrow> check_result \<times> sem_term list list" where
  "sem_check fs = (if \<exists>E. env_ok E \<and> (\<forall>t \<in> set (concat fs). sem_den E t = VBool True) then Sat else Unsat, fs)"

definition sem_solver :: "(sem_term, sem_term list list) z3_solver" where
  "sem_solver =
     \<lparr>sol_new = [[]], sol_add = (\<lambda>t fs. Inr (add_top t fs)), sol_push = (\<lambda>fs. [] # fs),
      sol_pop = (\<lambda>fs. case fs of f # f' # fs \<Rightarrow> Inr (f' # fs) | _ \<Rightarrow> Inl LibException),
      sol_reset = (\<lambda>fs. [[]]), sol_check = sem_check\<rparr>"

interpretation exact: z3_solver_backend sem_api fst sem_den sem_solver "\<lambda>fs. fs"
  by unfold_locales (auto simp: sem_solver_def sem_check_def split: if_splits)

end
