(* ===== verification/LegacyBmc.thy ===== *)
theory LegacyBmc
  imports Z3Solver
begin

text \<open>
  Bounded equivalence of two ILAs (src/ila-mngr/v\_eq\_check\_bmc.cc and its header): both are unrolled
  from equal states and inputs, and the solver is asked for different final states.
\<close>

section \<open>The checker\<close>

record LegacyBmc =
  bmc_invs :: "expr list"
  bmc_inits :: "expr list"

definition LegacyBmc_new :: LegacyBmc where
  "LegacyBmc_new = \<lparr>bmc_invs = [], bmc_inits = []\<rparr>"

definition bmc_AddInit :: "expr \<Rightarrow> LegacyBmc \<Rightarrow> LegacyBmc" where
  "bmc_AddInit init b = b\<lparr>bmc_inits := bmc_inits b @ [init]\<rparr>"

definition bmc_AddInvariant :: "expr \<Rightarrow> LegacyBmc \<Rightarrow> LegacyBmc" where
  "bmc_AddInvariant p b = b\<lparr>bmc_invs := bmc_invs b @ [p]\<rparr>"

definition bmc_update :: "'t z3_api \<Rightarrow> Instr \<Rightarrow> string \<Rightarrow> string \<Rightarrow> bool \<Rightarrow> expr \<Rightarrow> 't \<Rightarrow> 't M" where
  "bmc_update ctx x suffix_prev suffix_next complete state_n cnst =
     (case update_var x state_n of
        Some update_n \<Rightarrow>
          bnd (gen_GetExpr ctx update_n suffix_prev) (\<lambda>next_val.
          bnd (gen_GetExpr ctx state_n suffix_next) (\<lambda>next_var.
          bnd (t_eq ctx next_var next_val) (t_and ctx cnst)))
      | None \<Rightarrow>
          if complete then
            bnd (gen_GetExpr ctx state_n suffix_prev) (\<lambda>next_val.
            bnd (gen_GetExpr ctx state_n suffix_next) (\<lambda>next_var.
            bnd (t_eq ctx next_var next_val) (t_and ctx cnst)))
          else ret cnst)"

definition bmc_Instr :: "'t z3_api \<Rightarrow> nat \<Rightarrow> string \<Rightarrow> string \<Rightarrow> bool \<Rightarrow> 't M" where
  "bmc_Instr ctx instr suffix_prev suffix_next complete =
     bnd (get_instr instr) (\<lambda>x.
     bnd (not_null (instr_host x)) (\<lambda>p.
     bnd (get_ila p) (\<lambda>ila.
     bnd (t_bool ctx True) (\<lambda>cnst.
     bnd (foldM (bmc_update ctx x suffix_prev suffix_next complete) (vec (ila_states ila)) cnst) (\<lambda>cnst.
     bnd (not_null (instr_decode x)) (\<lambda>decode_n.
     bnd (gen_GetExpr ctx decode_n suffix_prev) (\<lambda>decode_e.
     t_implies ctx decode_e cnst)))))))"

definition IlaOneHotFlat :: "'t z3_api \<Rightarrow> nat \<Rightarrow> string \<Rightarrow> string \<Rightarrow> 't M" where
  "IlaOneHotFlat ctx m suffix_prev suffix_next =
     bnd (get_ila m) (\<lambda>ila.
     bnd (not_null (ila_valid ila)) (\<lambda>valid_n.
     bnd (gen_GetExpr ctx valid_n suffix_prev) (\<lambda>valid_e.
     bnd (t_bool ctx True) (\<lambda>cnst.
     bnd (foldM (\<lambda>i cnst. bnd (bmc_Instr ctx i suffix_prev suffix_next True) (t_and ctx cnst)) (vec (ila_instrs ila)) cnst) (\<lambda>cnst.
     t_implies ctx valid_e cnst)))))"

definition UnrollCmplIla :: "'t z3_api \<Rightarrow> nat \<Rightarrow> int \<Rightarrow> int \<Rightarrow> 't M" where
  "UnrollCmplIla ctx m k pos =
     bnd (ila_assert (k > 0) ''Invalid unroll steps.'') (\<lambda>_.
     bnd (ila_assert (pos \<ge> 0) ''Negative starting frame number.'') (\<lambda>_.
     bnd (t_bool ctx True) (\<lambda>cnst.
     foldM (\<lambda>i cnst.
        bnd (IlaOneHotFlat ctx m (int_to_string (pos + int i)) (int_to_string (pos + int i + 1))) (\<lambda>cnst_i.
        t_and ctx cnst_i cnst)) [0 ..< nat k] cnst)))"

text \<open>The loops of \<^verbatim>\<open>Check\<close> over the states, the inputs and the predicates.\<close>

definition bmc_state :: "'t z3_api \<Rightarrow> ('t, 's) z3_solver \<Rightarrow> Ila \<Rightarrow> string \<Rightarrow> string \<Rightarrow> string \<Rightarrow> expr \<Rightarrow> 's \<Rightarrow> 's M" where
  "bmc_state ctx sol m1 suffix_init suffix_k0 suffix_k1 state_m0 s =
     bnd (not_null (find_state m1 (ename state_m0))) (\<lambda>state_m1.
     bnd (gen_GetExpr ctx state_m0 suffix_init) (\<lambda>state_m0_init.
     bnd (gen_GetExpr ctx state_m1 suffix_init) (\<lambda>state_m1_init.
     bnd (t_eq ctx state_m0_init state_m1_init) (\<lambda>init_cnst_i.
     bnd (lift (sol_add sol init_cnst_i s)) (\<lambda>s.
     bnd (gen_GetExpr ctx state_m0 suffix_k0) (\<lambda>state_m0_final.
     bnd (gen_GetExpr ctx state_m1 suffix_k1) (\<lambda>state_m1_final.
     bnd (t_eq ctx state_m0_final state_m1_final) (\<lambda>assert_i.
     bnd (t_not ctx assert_i) (\<lambda>not_assert_i.
     lift (sol_add sol not_assert_i s))))))))))"

definition bmc_input :: "'t z3_api \<Rightarrow> ('t, 's) z3_solver \<Rightarrow> Ila \<Rightarrow> string \<Rightarrow> expr \<Rightarrow> 's \<Rightarrow> 's M" where
  "bmc_input ctx sol m1 suffix_init input_m0 s =
     bnd (not_null (find_input m1 (ename input_m0))) (\<lambda>input_m1.
     bnd (gen_GetExpr ctx input_m0 suffix_init) (\<lambda>input_m0_init.
     bnd (gen_GetExpr ctx input_m1 suffix_init) (\<lambda>input_m1_init.
     bnd (t_eq ctx input_m0_init input_m1_init) (\<lambda>init_input.
     lift (sol_add sol init_input s)))))"

definition bmc_pred :: "'t z3_api \<Rightarrow> ('t, 's) z3_solver \<Rightarrow> string \<Rightarrow> expr \<Rightarrow> 's \<Rightarrow> 's M" where
  "bmc_pred ctx sol suffix_init p s =
     bnd (gen_GetExpr ctx p suffix_init) (\<lambda>e. lift (sol_add sol e s))"

definition bmc_Check ::
  "'t z3_api \<Rightarrow> ('t, 's) z3_solver \<Rightarrow> LegacyBmc \<Rightarrow> nat \<Rightarrow> int \<Rightarrow> nat \<Rightarrow> int \<Rightarrow> check_result M" where
  "bmc_Check ctx sol b m0 k0 m1 k1 =
     bnd (UnrollCmplIla ctx m0 k0 0) (\<lambda>cnst_m0.
     bnd (lift (sol_add sol cnst_m0 (sol_new sol))) (\<lambda>s.
     bnd (UnrollCmplIla ctx m1 k1 0) (\<lambda>cnst_m1.
     bnd (lift (sol_add sol cnst_m1 s)) (\<lambda>s.
     bnd (get_ila m0) (\<lambda>ila0.
     bnd (get_ila m1) (\<lambda>ila1.
     let suffix_init = int_to_string 0; suffix_k0 = int_to_string k0; suffix_k1 = int_to_string k1 in
     bnd (foldM (bmc_state ctx sol ila1 suffix_init suffix_k0 suffix_k1) (vec (ila_states ila0)) s) (\<lambda>s.
     bnd (foldM (bmc_input ctx sol ila1 suffix_init) (vec (ila_inputs ila0)) s) (\<lambda>s.
     bnd (foldM (bmc_pred ctx sol suffix_init) (bmc_inits b) s) (\<lambda>s.
     bnd (foldM (bmc_pred ctx sol suffix_init) (bmc_invs b) s) (\<lambda>s.
     ret (fst (sol_check sol s))))))))))))"

section \<open>What is checked\<close>

text \<open>A step as the checker encodes it: when the ILA is valid, every instruction that decodes updates the
  states of its host.\<close>

definition bmc_instr_rel :: "heap \<Rightarrow> nat \<Rightarrow> interp \<Rightarrow> interp \<Rightarrow> bool" where
  "bmc_instr_rel h i I J =
     (let x = the (instrs h i) in
      holds I (the (instr_decode x)) \<longrightarrow> (\<forall>s \<in> set (host_states h i). eval J s = eval I (StateUpdCmpl x s)))"

definition bmc_ila_rel :: "heap \<Rightarrow> nat \<Rightarrow> interp \<Rightarrow> interp \<Rightarrow> bool" where
  "bmc_ila_rel h m I J =
     (holds I (the (ila_valid (the (ilas h m)))) \<longrightarrow> (\<forall>i \<in> set (vec (ila_instrs (the (ilas h m)))). bmc_instr_rel h i I J))"

definition bmc_run :: "heap \<Rightarrow> nat \<Rightarrow> int \<Rightarrow> smt_env \<Rightarrow> bool" where
  "bmc_run h m k E =
     (\<forall>i < nat k. bmc_ila_rel h m (z3_interp h (int_to_string (int i)) E) (z3_interp h (int_to_string (int i + 1)) E))"

text \<open>Corresponding variables have the same value.\<close>

definition same_at :: "heap \<Rightarrow> (string \<Rightarrow> expr option) \<Rightarrow> string \<Rightarrow> string \<Rightarrow> smt_env \<Rightarrow> expr \<Rightarrow> bool" where
  "same_at h look s0 s1 E v = (eval (z3_interp h s0 E) v = eval (z3_interp h s1 E) (the (look (ename v))))"

text \<open>What the solver is asked for: runs of both ILAs from equal states and inputs under the predicates
  in which \<^emph>\<open>every\<close> state ends with a different value.\<close>

definition bmc_query :: "heap \<Rightarrow> LegacyBmc \<Rightarrow> nat \<Rightarrow> int \<Rightarrow> nat \<Rightarrow> int \<Rightarrow> smt_env \<Rightarrow> bool" where
  "bmc_query h b m0 k0 m1 k1 E =
     (let ila0 = the (ilas h m0); ila1 = the (ilas h m1); s0 = int_to_string 0 in
      bmc_run h m0 k0 E \<and> bmc_run h m1 k1 E \<and>
      (\<forall>v \<in> set (vec (ila_states ila0)). same_at h (find_state ila1) s0 s0 E v \<and>
         \<not> same_at h (find_state ila1) (int_to_string k0) (int_to_string k1) E v) \<and>
      (\<forall>v \<in> set (vec (ila_inputs ila0)). same_at h (find_input ila1) s0 s0 E v) \<and>
      (\<forall>p \<in> set (bmc_inits b) \<union> set (bmc_invs b). holds (z3_interp h s0 E) p))"

text \<open>Inputs that the checker accepts.\<close>

definition bmc_instr_ok :: "heap \<Rightarrow> nat \<Rightarrow> bool" where
  "bmc_instr_ok h i =
     (\<exists>x p m d. instrs h i = Some x \<and> instr_host x = Some p \<and> ilas h p = Some m \<and>
        instr_decode x = Some d \<and> bool_pred encodable h d \<and>
        (\<forall>s \<in> set (vec (ila_states m)). encodable h s \<and> encodable h (StateUpdCmpl x s) \<and> esort (StateUpdCmpl x s) = esort s))"

definition flat_ok :: "heap \<Rightarrow> nat \<Rightarrow> bool" where
  "flat_ok h m =
     (\<exists>ila v. ilas h m = Some ila \<and> ila_valid ila = Some v \<and> bool_pred encodable h v \<and>
        (\<forall>i \<in> set (vec (ila_instrs ila)). bmc_instr_ok h i))"

definition paired :: "heap \<Rightarrow> expr list \<Rightarrow> (string \<Rightarrow> expr option) \<Rightarrow> bool" where
  "paired h vs look =
     (\<forall>v \<in> set vs. encodable h v \<and> (\<exists>w. look (ename v) = Some w \<and> encodable h w \<and> esort v = esort w))"

definition bmc_ok :: "heap \<Rightarrow> LegacyBmc \<Rightarrow> nat \<Rightarrow> int \<Rightarrow> nat \<Rightarrow> int \<Rightarrow> bool" where
  "bmc_ok h b m0 k0 m1 k1 =
     (heap_inv h \<and> 0 < k0 \<and> 0 < k1 \<and> flat_ok h m0 \<and> flat_ok h m1 \<and>
      paired h (vec (ila_states (the (ilas h m0)))) (find_state (the (ilas h m1))) \<and>
      paired h (vec (ila_inputs (the (ilas h m0)))) (find_input (the (ilas h m1))) \<and>
      (\<forall>p \<in> set (bmc_inits b) \<union> set (bmc_invs b). bool_pred encodable h p))"

section \<open>Correctness of the encoding\<close>

lemma runs_get_ila: "ilas h p = Some m \<Longrightarrow> runs h (get_ila p) (\<lambda>x. x = m)"
  by (auto simp: runs_def only_alloc_def)

lemma runs_not_null: "runs h (not_null (Some x)) (\<lambda>y. y = x)"
  by (auto simp: runs_def)

lemma runs_assert: "runs h (ila_assert True msg) (\<lambda>_. True)"
  by (auto simp: runs_def)

text \<open>Folds that add one conjunct per element.\<close>

lemma runs_fold_conj:
  assumes step: "\<And>x s P. x \<in> set xs \<Longrightarrow> A s P \<Longrightarrow> runs h (f x s) (\<lambda>s'. A s' (\<lambda>E. P E \<and> R x E))"
    and init: "A s P" and cong: "\<And>s P Q. A s P \<Longrightarrow> (\<And>E. P E \<longleftrightarrow> Q E) \<Longrightarrow> A s Q"
  shows "runs h (foldM f xs s) (\<lambda>s'. A s' (\<lambda>E. P E \<and> (\<forall>x \<in> set xs. R x E)))"
  using step init
proof (induction xs arbitrary: s P)
  case Nil
  then show ?case using cong [of s P] by simp
next
  case (Cons x xs)
  show ?case
    unfolding foldM.simps
  proof (rule runs_bnd)
    show "runs h (f x s) (\<lambda>s'. A s' (\<lambda>E. P E \<and> R x E))" using Cons.prems by simp
    fix r assume "A r (\<lambda>E. P E \<and> R x E)"
    then show "runs h (foldM f xs r) (\<lambda>s'. A s' (\<lambda>E. P E \<and> (\<forall>x \<in> set (x # xs). R x E)))"
      using Cons.prems(1) by (intro runs_weaken [OF Cons.IH]) (auto elim: cong)
  qed
qed

context z3_backend
begin

lemma runs_same:
  assumes inv: "heap_inv h" and e: "encodable h a" "encodable h b" "esort a = esort b"
    and f: "\<And>t. bterm t (\<lambda>E. eval (z3_interp h s1 E) a = eval (z3_interp h s2 E) b) \<Longrightarrow> runs h (f t) R"
  shows "runs h (bnd (gen_GetExpr ctx a s1) (\<lambda>x. bnd (gen_GetExpr ctx b s2) (\<lambda>y. bnd (t_eq ctx x y) f))) R"
  by (rule runs_bnd [OF runs_expr [OF inv e(1)]], rule runs_bnd [OF runs_expr [OF inv e(2)]],
      rule runs_bnd [OF runs_equal], assumption, assumption, rule e(3), use e(2) wf_sort encodable_def in blast, rule f)

lemma runs_same_rev:
  assumes inv: "heap_inv h" and e: "encodable h a" "encodable h b" "esort b = esort a"
    and f: "\<And>t. bterm t (\<lambda>E. eval (z3_interp h s2 E) b = eval (z3_interp h s1 E) a) \<Longrightarrow> runs h (f t) R"
  shows "runs h (bnd (gen_GetExpr ctx a s1) (\<lambda>x. bnd (gen_GetExpr ctx b s2) (\<lambda>y. bnd (t_eq ctx y x) f))) R"
  by (rule runs_bnd [OF runs_expr [OF inv e(1)]], rule runs_bnd [OF runs_expr [OF inv e(2)]],
      rule runs_bnd [OF runs_equal], assumption, assumption, rule e(3), use e(1) wf_sort encodable_def in blast, rule f)

lemma runs_bmc_update:
  assumes inv: "heap_inv h" and e: "encodable h s" "encodable h (StateUpdCmpl x s)" "esort (StateUpdCmpl x s) = esort s"
    and c: "bterm c P"
  shows "runs h (bmc_update ctx x sp sn True s c)
    (\<lambda>t. bterm t (\<lambda>E. P E \<and> eval (z3_interp h sn E) s = eval (z3_interp h sp E) (StateUpdCmpl x s)))"
proof (cases "update_var x s")
  case None
  then show ?thesis
    using runs_same_rev [OF inv e(1) e(1) refl runs_ops(2) [OF c], of sn sp] by (simp add: bmc_update_def StateUpdCmpl_def)
next
  case (Some u)
  then have u: "encodable h u" "esort s = esort u" using e by (simp_all add: StateUpdCmpl_def)
  show ?thesis
    using runs_same_rev [OF inv u(1) e(1) u(2) runs_ops(2) [OF c], of sn sp] Some by (simp add: bmc_update_def StateUpdCmpl_def)
qed

lemma runs_bmc_Instr:
  assumes inv: "heap_inv h" and ok: "bmc_instr_ok h i"
  shows "runs h (bmc_Instr ctx i sp sn True) (\<lambda>t. bterm t (\<lambda>E. bmc_instr_rel h i (z3_interp h sp E) (z3_interp h sn E)))"
proof -
  obtain x p m d where x: "instrs h i = Some x" "instr_host x = Some p" "ilas h p = Some m"
      "instr_decode x = Some d" "bool_pred encodable h d"
    and st: "\<forall>s \<in> set (vec (ila_states m)). encodable h s \<and> encodable h (StateUpdCmpl x s) \<and> esort (StateUpdCmpl x s) = esort s"
    using ok unfolding bmc_instr_ok_def by blast
  have fold: "runs h (foldM (bmc_update ctx x sp sn True) (vec (ila_states m)) c)
      (\<lambda>t. bterm t (\<lambda>E. True \<and> (\<forall>s \<in> set (vec (ila_states m)). eval (z3_interp h sn E) s = eval (z3_interp h sp E) (StateUpdCmpl x s))))"
    if "bterm c (\<lambda>E. True)" for c
    using st that by (intro runs_fold_conj [where A = bterm] runs_bmc_update [OF inv]) (auto elim: bterm_cong)
  show ?thesis
    unfolding bmc_Instr_def
    apply (rule runs_bnd [OF runs_get_instr [OF x(1)]], simp only: x(2))
    apply (rule runs_bnd [OF runs_not_null], simp only:)
    apply (rule runs_bnd [OF runs_get_ila [OF x(3)]], simp only:)
    apply (rule runs_bnd [OF runs_bool], rule runs_bnd [OF fold], assumption, simp only: x(4))
    apply (rule runs_bnd [OF runs_not_null], simp only:)
    apply (rule runs_bnd [OF runs_pred [OF inv x(5)]])
    apply (rule runs_weaken [OF runs_ops(5)], assumption+)
    apply (erule bterm_cong)
    using x by (simp add: bmc_instr_rel_def host_states_def)
qed

lemma runs_flat:
  assumes inv: "heap_inv h" and ok: "flat_ok h m"
  shows "runs h (IlaOneHotFlat ctx m sp sn) (\<lambda>t. bterm t (\<lambda>E. bmc_ila_rel h m (z3_interp h sp E) (z3_interp h sn E)))"
proof -
  obtain ila v where m: "ilas h m = Some ila" "ila_valid ila = Some v" "bool_pred encodable h v"
    and ii: "\<forall>i \<in> set (vec (ila_instrs ila)). bmc_instr_ok h i" using ok unfolding flat_ok_def by blast
  have fold: "runs h (foldM (\<lambda>i c. bnd (bmc_Instr ctx i sp sn True) (t_and ctx c)) (vec (ila_instrs ila)) c)
      (\<lambda>t. bterm t (\<lambda>E. True \<and> (\<forall>i \<in> set (vec (ila_instrs ila)). bmc_instr_rel h i (z3_interp h sp E) (z3_interp h sn E))))"
    if "bterm c (\<lambda>E. True)" for c
    using ii that
    by (intro runs_fold_conj [where A = bterm] runs_bnd [OF runs_bmc_Instr [OF inv]] runs_ops(2)) (auto elim: bterm_cong)
  show ?thesis
    unfolding IlaOneHotFlat_def
    apply (rule runs_bnd [OF runs_get_ila [OF m(1)]], simp only: m(2))
    apply (rule runs_bnd [OF runs_not_null], simp only:)
    apply (rule runs_bnd [OF runs_pred [OF inv m(3)]])
    apply (rule runs_bnd [OF runs_bool], rule runs_bnd [OF fold], assumption)
    apply (rule runs_weaken [OF runs_ops(5)], assumption+)
    apply (erule bterm_cong)
    using m by (simp add: bmc_ila_rel_def)
qed

lemma runs_unroll_flat:
  assumes inv: "heap_inv h" and ok: "flat_ok h m" and k: "0 < k"
  shows "runs h (UnrollCmplIla ctx m k 0) (\<lambda>t. bterm t (bmc_run h m k))"
proof -
  let ?R = "\<lambda>i E. bmc_ila_rel h m (z3_interp h (int_to_string (int i)) E) (z3_interp h (int_to_string (int i + 1)) E)"
  let ?f = "\<lambda>i c. bnd (IlaOneHotFlat ctx m (int_to_string (0 + int i)) (int_to_string (0 + int i + 1))) (\<lambda>t. t_and ctx t c)"
  have step: "runs h (?f i c) (\<lambda>t. bterm t (\<lambda>E. P E \<and> ?R i E))" if c: "bterm c P" for i c P
    unfolding add_0
    by (rule runs_bnd [OF runs_flat [OF inv ok]], rule runs_weaken [OF runs_ops(2)], assumption, rule c, erule bterm_cong) auto
  have fold: "runs h (foldM ?f [0 ..< nat k] c) (\<lambda>t. bterm t (bmc_run h m k))" if "bterm c (\<lambda>E. True)" for c
    by (rule runs_weaken [OF runs_fold_conj [where A = bterm, OF step that]], assumption)
      (auto elim!: bterm_cong simp: bmc_run_def)
  show ?thesis
    unfolding UnrollCmplIla_def using k
    by (simp only: order_refl) (rule runs_bnd [OF runs_assert], rule runs_bnd [OF runs_assert], rule runs_bnd [OF runs_bool], rule fold)
qed

end

context z3_solver_backend
begin

lemma runs_fold_assumes:
  assumes "\<And>x s P. x \<in> set xs \<Longrightarrow> assumes_that s P \<Longrightarrow> runs h (f x s) (\<lambda>s'. assumes_that s' (\<lambda>E. P E \<and> R x E))"
    "assumes_that s P"
  shows "runs h (foldM f xs s) (\<lambda>s'. assumes_that s' (\<lambda>E. P E \<and> (\<forall>x \<in> set xs. R x E)))"
  by (rule runs_fold_conj [where A = assumes_that, OF assms]) (auto elim: assumes_cong)

lemma runs_bmc_state:
  assumes inv: "heap_inv h" and v: "encodable h v" "find_state m (ename v) = Some w" "encodable h w" "esort v = esort w"
    and s: "assumes_that s P"
  shows "runs h (bmc_state ctx sol m si s0 s1 v s) (\<lambda>s'. assumes_that s' (\<lambda>E. P E \<and>
    (same_at h (find_state m) si si E v \<and> \<not> same_at h (find_state m) s0 s1 E v)))"
  unfolding bmc_state_def v(2) same_at_def option.sel
  apply (rule runs_bnd [OF runs_not_null], simp only:)
  apply (rule runs_same [OF inv v(1,3,4)])
  apply (rule runs_bnd [OF runs_add [OF _ s]], assumption)
  apply (rule runs_same [OF inv v(1,3,4)])
  apply (rule runs_bnd [OF runs_ops(1)], assumption, assumption)
  apply (rule runs_weaken [OF runs_add], assumption)
   apply (erule conjunct1)
  apply (erule conjE, erule assumes_cong)
  by blast

lemma runs_bmc_input:
  assumes inv: "heap_inv h" and v: "encodable h v" "find_input m (ename v) = Some w" "encodable h w" "esort v = esort w"
    and s: "assumes_that s P"
  shows "runs h (bmc_input ctx sol m si v s) (\<lambda>s'. assumes_that s' (\<lambda>E. P E \<and> same_at h (find_input m) si si E v))"
  unfolding bmc_input_def v(2) same_at_def option.sel
  by (rule runs_bnd [OF runs_not_null], simp only:)
    (rule runs_same [OF inv v(1,3,4)], rule runs_weaken [OF runs_add [OF _ s]], assumption, erule conjunct1)

lemma runs_bmc_pred:
  assumes inv: "heap_inv h" and p: "bool_pred encodable h p" and s: "assumes_that s P"
  shows "runs h (bmc_pred ctx sol si p s) (\<lambda>s'. assumes_that s' (\<lambda>E. P E \<and> holds (z3_interp h si E) p))"
  unfolding bmc_pred_def
  by (rule runs_bnd [OF runs_pred [OF inv p]], rule runs_weaken [OF runs_add [OF _ s]], assumption, erule conjunct1)

lemma runs_bmc_check:
  assumes ok: "bmc_ok h b m0 k0 m1 k1"
  shows "runs h (bmc_Check ctx sol b m0 k0 m1 k1) (\<lambda>r. \<exists>s. r = fst (sol_check sol s) \<and> assumes_that s (bmc_query h b m0 k0 m1 k1))"
proof -
  have inv: "heap_inv h" and k: "0 < k0" "0 < k1" and fl: "flat_ok h m0" "flat_ok h m1"
    and pr: "\<forall>p \<in> set (bmc_inits b). bool_pred encodable h p" "\<forall>p \<in> set (bmc_invs b). bool_pred encodable h p"
    using ok by (auto simp: bmc_ok_def)
  obtain ila0 ila1 where m: "ilas h m0 = Some ila0" "ilas h m1 = Some ila1" using fl by (auto simp: flat_ok_def)
  have pair: "paired h (vec (ila_states ila0)) (find_state ila1)" "paired h (vec (ila_inputs ila0)) (find_input ila1)"
    using ok m by (simp_all add: bmc_ok_def)
  have st: "runs h (bmc_state ctx sol ila1 si s0 s1 v s) (\<lambda>s'. assumes_that s' (\<lambda>E. P E \<and>
      (same_at h (find_state ila1) si si E v \<and> \<not> same_at h (find_state ila1) s0 s1 E v)))"
    if "v \<in> set (vec (ila_states ila0))" "assumes_that s P" for si s0 s1 v s P
    using pair(1) that runs_bmc_state [OF inv] unfolding paired_def by blast
  have inp: "runs h (bmc_input ctx sol ila1 si v s) (\<lambda>s'. assumes_that s' (\<lambda>E. P E \<and> same_at h (find_input ila1) si si E v))"
    if "v \<in> set (vec (ila_inputs ila0))" "assumes_that s P" for si v s P
    using pair(2) that runs_bmc_input [OF inv] unfolding paired_def by blast
  have prd: "runs h (bmc_pred ctx sol si p s) (\<lambda>s'. assumes_that s' (\<lambda>E. P E \<and> holds (z3_interp h si E) p))"
    if "p \<in> set (bmc_inits b) \<union> set (bmc_invs b)" "assumes_that s P" for si p s P
    using pr that runs_bmc_pred [OF inv] by blast
  show ?thesis
    unfolding bmc_Check_def Let_def
    apply (rule runs_bnd [OF runs_unroll_flat [OF inv fl(1) k(1)]])
    apply (rule runs_bnd [OF runs_add [OF _ assumes_new]], assumption)
    apply (rule runs_bnd [OF runs_unroll_flat [OF inv fl(2) k(2)]])
    apply (erule conjE, rule runs_bnd [OF runs_add], assumption, assumption)
    apply (rule runs_bnd [OF runs_get_ila [OF m(1)]], rule runs_bnd [OF runs_get_ila [OF m(2)]], simp only:)
    apply (erule conjE, rule runs_bnd [OF runs_fold_assumes], rule st, assumption, assumption, assumption)
    apply (rule runs_bnd [OF runs_fold_assumes], rule inp, assumption, assumption, assumption)
    apply (rule runs_bnd [OF runs_fold_assumes], rule prd, erule UnI1, assumption, assumption)
    apply (rule runs_bnd [OF runs_fold_assumes], rule prd, erule UnI2, assumption, assumption)
    apply (simp only: runs_ret, rule exI, rule conjI, rule refl, erule assumes_cong)
    using m by (auto simp: bmc_query_def Let_def)
qed

end

section \<open>Properties\<close>

text \<open>C15: The bounded equivalence check. With a solver that answers as documented, \<^verbatim>\<open>LegacyBmc::Check\<close> returns
  on ILAs with corresponding states and inputs, and its answer is about runs of the two ILAs from equal states and
  inputs in which \<^emph>\<open>all\<close> states end with different values: unsat means that there are none, sat that there is
  one. A difference in some of the states only is not looked for.\<close>

theorem bmc_check_says:
  assumes "z3_solver_backend ctx tsort den sol frames" "bmc_ok h b m0 k0 m1 k1"
  shows "\<exists>r h'. bmc_Check ctx sol b m0 k0 m1 k1 h = Inr (r, h') \<and> ilas h' = ilas h \<and> instrs h' = instrs h \<and>
    (r = Unsat \<longrightarrow> (\<forall>E. env_ok E \<longrightarrow> \<not> bmc_query h b m0 k0 m1 k1 E)) \<and>
    (r = Sat \<longrightarrow> (\<exists>E. env_ok E \<and> bmc_query h b m0 k0 m1 k1 E))"
proof -
  from runsD [OF z3_solver_backend.runs_bmc_check [OF assms]] obtain s h' where
    r: "bmc_Check ctx sol b m0 k0 m1 k1 h = Inr (fst (sol_check sol s), h')" "only_alloc h h'"
    and s: "z3_solver_backend.assumes_that den frames s (bmc_query h b m0 k0 m1 k1)" by blast
  show ?thesis
    using r z3_solver_backend.check_right(1,2) [OF assms(1) s]
    by (intro exI [of _ "fst (sol_check sol s)"] exI [of _ h']) (auto simp: only_alloc_def)
qed

text \<open>Two ILAs with the states \<open>x\<close> and \<open>y\<close>: an instruction of the second one sets \<open>y\<close>.\<close>

definition bmc_true :: "nat \<Rightarrow> expr" where
  "bmc_true i = Expr i (anon_name i) SortBool None [] [] (KConst (BoolVal True))"

definition bmc_var :: "nat \<Rightarrow> string \<Rightarrow> nat \<Rightarrow> expr" where
  "bmc_var i nm p = Expr i nm SortBool (Some p) [] [] KVar"

definition bmc_ila :: "string \<Rightarrow> expr \<Rightarrow> expr \<Rightarrow> nat \<Rightarrow> Ila" where
  "bmc_ila nm x y i = (ila_init nm None)\<lparr>ila_states := snd (push_back ''y'' y (snd (push_back ''x'' x KeyVec_new))),
     ila_instrs := snd (push_back ''i'' i KeyVec_new), ila_valid := Some (bmc_true 20)\<rparr>"

definition bmc_instr :: "nat \<Rightarrow> (string \<times> expr) list \<Rightarrow> Instr" where
  "bmc_instr p us = \<lparr>instr_name = ''i'', instr_host = Some p, instr_decode = Some (bmc_true 21),
     instr_updates = us, instr_prog = None\<rparr>"

definition bmc_heap :: heap where
  "bmc_heap =
     \<lparr>counter = 30,
      ilas = [1 \<mapsto> bmc_ila ''a'' (bmc_var 2 ''x'' 1) (bmc_var 3 ''y'' 1) 4,
              5 \<mapsto> bmc_ila ''b'' (bmc_var 6 ''x'' 5) (bmc_var 7 ''y'' 5) 8],
      instrs = [4 \<mapsto> bmc_instr 1 [], 8 \<mapsto> bmc_instr 5 [(''y'', bmc_true 22)]]\<rparr>"

lemma bmc_entries:
  "kv_entries (snd (push_back ''i'' (i::nat) KeyVec_new)) = [(''i'', i)]"
  "kv_entries (snd (push_back ''y'' y (snd (push_back ''x'' (x::expr) KeyVec_new)))) = [(''x'', x), (''y'', y)]"
  "kv_inv (snd (push_back ''i'' (i::nat) KeyVec_new))"
  "kv_inv (snd (push_back ''y'' y (snd (push_back ''x'' (x::expr) KeyVec_new))))"
  using kv.push_eq [OF kv_inv_new, of "''i''" i] kv.push_eq [OF kv_inv_new, of "''x''" x] kv.push_eq [of "snd (push_back ''x'' x KeyVec_new)" "''y''" y]
  by simp_all

lemma bmc_vecs:
  "vec (ila_states (bmc_ila nm x y i)) = [x, y]" "vec (ila_instrs (bmc_ila nm x y i)) = [i]"
  "find_state (bmc_ila nm x y i) v = map_of [(''x'', x), (''y'', y)] v"
  "ila_valid (bmc_ila nm x y i) = Some (bmc_true 20)" "vec (ila_inputs (bmc_ila nm x y i)) = []"
  using bmc_entries kv_entries_vec [of "snd (push_back ''y'' y (snd (push_back ''x'' x KeyVec_new)))"]
    kv_entries_vec [of "snd (push_back ''i'' i KeyVec_new)"] kv.get_spec [OF bmc_entries(4), of y x v]
  by (simp_all add: bmc_ila_def find_state_def ila_init_def KeyVec_new_def)

lemma bmc_heap_inv: "heap_inv bmc_heap"
proof -
  have l: "ila_local (bmc_ila nm (bmc_var a ''x'' p) (bmc_var c ''y'' p) i)" for nm a c p i
    using ila_local_init [of nm None] bmc_entries
    by (auto simp: bmc_ila_def ila_local_def var_map_ok_def bmc_var_def bmc_true_def ila_init_def)
  show ?thesis
    using l bmc_entries
    by (auto simp: heap_inv_def bmc_heap_def ila_links_def instr_ok_def amap_ok_def bmc_instr_def bmc_true_def)
      (auto simp: bmc_ila_def ila_init_def)
qed

lemma bmc_encodable:
  "encodable bmc_heap (bmc_true i)" "p \<in> {1, 5} \<Longrightarrow> encodable bmc_heap (bmc_var i nm p)"
  by (auto simp: encodable_def bmc_true_def bmc_var_def node_wf_def const_wf_def node_enc_def sort_small_def bmc_heap_def)

lemma bmc_heap_ok: "bmc_ok bmc_heap LegacyBmc_new 1 1 5 1"
proof -
  have s: "esort (bmc_true i) = SortBool" "esort (bmc_var i nm p) = SortBool" "ename (bmc_var i nm p) = nm" for i nm p
    by (simp_all add: bmc_true_def bmc_var_def)
  have i: "ilas bmc_heap 1 = Some (bmc_ila ''a'' (bmc_var 2 ''x'' 1) (bmc_var 3 ''y'' 1) 4)"
    "ilas bmc_heap 5 = Some (bmc_ila ''b'' (bmc_var 6 ''x'' 5) (bmc_var 7 ''y'' 5) 8)"
    "instrs bmc_heap 4 = Some (bmc_instr 1 [])" "instrs bmc_heap 8 = Some (bmc_instr 5 [(''y'', bmc_true 22)])"
    by (simp_all add: bmc_heap_def)
  have "bmc_instr_ok bmc_heap 4" "bmc_instr_ok bmc_heap 8"
    unfolding bmc_instr_ok_def using i
    by (simp_all add: bmc_instr_def bmc_vecs bool_pred_def bmc_encodable s StateUpdCmpl_def update_var_def update_def)
  then show ?thesis
    using bmc_heap_inv i by (simp add: bmc_ok_def flat_ok_def bmc_vecs paired_def bool_pred_def bmc_encodable s LegacyBmc_new_def)
qed

text \<open>The checker answers unsat although \<open>y\<close> can end with different values: \<open>x\<close> never does.\<close>

definition bmc_env :: smt_env where
  "bmc_env = zero_env\<lparr>env_const := (\<lambda>n s. if n = format_name ''y'' ''b'' (int_to_string 1) \<and> s = SBool then VBool True else smt_zero s)\<rparr>"

lemma bmc_ilas:
  "ilas bmc_heap 1 = Some (bmc_ila ''a'' (bmc_var 2 ''x'' 1) (bmc_var 3 ''y'' 1) 4)"
  "ilas bmc_heap 5 = Some (bmc_ila ''b'' (bmc_var 6 ''x'' 5) (bmc_var 7 ''y'' 5) 8)"
  "instrs bmc_heap 4 = Some (bmc_instr 1 [])" "instrs bmc_heap 8 = Some (bmc_instr 5 [(''y'', bmc_true 22)])"
  by (simp_all add: bmc_heap_def)

lemma bmc_roots: "root_of bmc_heap (Some 1) = Inr ''a''" "root_of bmc_heap (Some 5) = Inr ''b''"
  unfolding root_of_def option.case GetRootName_def GetRootName_n.simps
  by (simp_all add: bmc_heap_def monad_simps bmc_ila_def ila_init_def rbind_def)

lemma bmc_eval:
  "eval (z3_interp bmc_heap s E) (bmc_var i nm 1) = env_const E (format_name nm ''a'' s) SBool"
  "eval (z3_interp bmc_heap s E) (bmc_var i nm 5) = env_const E (format_name nm ''b'' s) SBool"
  "eval (z3_interp bmc_heap s E) (bmc_true i) = VBool True"
  using bmc_roots
  by (simp_all add: bmc_var_def bmc_true_def const_sem_def z3_interp_def smt_interp_def z3_vname_def ok_or_empty_def smt_sort_of_def)

lemma bmc_rels:
  "bmc_ila_rel bmc_heap 1 (z3_interp bmc_heap s E) (z3_interp bmc_heap s' E) \<longleftrightarrow>
     (\<forall>nm \<in> {''x'', ''y''}. env_const E (format_name nm ''a'' s') SBool = env_const E (format_name nm ''a'' s) SBool)"
  "bmc_ila_rel bmc_heap 5 (z3_interp bmc_heap s E) (z3_interp bmc_heap s' E) \<longleftrightarrow>
     env_const E (format_name ''x'' ''b'' s') SBool = env_const E (format_name ''x'' ''b'' s) SBool \<and>
     env_const E (format_name ''y'' ''b'' s') SBool = VBool True"
proof -
  have n: "ename (bmc_var i nm p) = nm" for i nm p by (simp add: bmc_var_def)
  show "bmc_ila_rel bmc_heap 1 (z3_interp bmc_heap s E) (z3_interp bmc_heap s' E) \<longleftrightarrow>
     (\<forall>nm \<in> {''x'', ''y''}. env_const E (format_name nm ''a'' s') SBool = env_const E (format_name nm ''a'' s) SBool)"
   "bmc_ila_rel bmc_heap 5 (z3_interp bmc_heap s E) (z3_interp bmc_heap s' E) \<longleftrightarrow>
     env_const E (format_name ''x'' ''b'' s') SBool = env_const E (format_name ''x'' ''b'' s) SBool \<and>
     env_const E (format_name ''y'' ''b'' s') SBool = VBool True"
    by (simp_all add: bmc_ila_rel_def bmc_instr_rel_def host_states_def bmc_ilas bmc_vecs bmc_instr_def holds_def bmc_eval
        StateUpdCmpl_def update_var_def update_def n del: One_nat_def)
qed

lemma bmc_same:
  "same_at bmc_heap (find_state (the (ilas bmc_heap 5))) s0 s1 E (bmc_var i nm 1) \<longleftrightarrow>
     env_const E (format_name nm ''a'' s0) SBool = env_const E (format_name nm ''b'' s1) SBool" if "nm \<in> {''x'', ''y''}"
  using that by (auto simp: same_at_def bmc_ilas bmc_vecs bmc_eval bmc_var_def [of _ nm 1, THEN arg_cong, of ename] simp del: One_nat_def)

theorem bmc_check_says_witness:
  "\<exists>h'. bmc_Check sem_api sem_solver LegacyBmc_new 1 1 5 1 bmc_heap = Inr (Unsat, h') \<and>
     env_ok bmc_env \<and> bmc_run bmc_heap 1 1 bmc_env \<and> bmc_run bmc_heap 5 1 bmc_env \<and>
     (\<forall>v \<in> set (vec (ila_states (the (ilas bmc_heap 1)))).
        same_at bmc_heap (find_state (the (ilas bmc_heap 5))) (int_to_string 0) (int_to_string 0) bmc_env v) \<and>
     \<not> same_at bmc_heap (find_state (the (ilas bmc_heap 5))) (int_to_string 1) (int_to_string 1) bmc_env (bmc_var 3 ''y'' 1)"
proof -
  let ?q = "bmc_query bmc_heap LegacyBmc_new 1 1 5 1"
  have none: "\<not> ?q E" for E
    by (auto simp: bmc_query_def Let_def bmc_run_def bmc_rels bmc_ilas bmc_vecs bmc_same [unfolded bmc_ilas option.sel]
        simp del: One_nat_def)
  obtain r h' where r: "bmc_Check sem_api sem_solver LegacyBmc_new 1 1 5 1 bmc_heap = Inr (r, h')"
    "r = Sat \<longrightarrow> (\<exists>E. env_ok E \<and> ?q E)"
    using bmc_check_says [OF exact.z3_solver_backend_axioms bmc_heap_ok] by blast
  from runsD [OF exact.runs_bmc_check [OF bmc_heap_ok]] r(1) obtain s where
    "r = fst (sol_check sem_solver s)" by auto
  then have "r \<noteq> Unknown" by (simp add: sem_solver_def sem_check_def)
  with r(2) none have "r = Unsat" by (cases r) auto
  moreover have "env_ok bmc_env"
    using zero_env_ok by (auto simp: env_ok_def bmc_env_def zero_env_def smt_sort_of_def split: sort.splits)
  moreover have "bmc_run bmc_heap 1 1 bmc_env" "bmc_run bmc_heap 5 1 bmc_env"
    by (simp_all add: bmc_run_def bmc_rels bmc_env_def format_name_def int_to_string_def smt_zero_def del: One_nat_def)
  ultimately show ?thesis
    using r(1) by (simp add: bmc_ilas bmc_vecs bmc_same [unfolded bmc_ilas option.sel] bmc_env_def format_name_def int_to_string_def smt_zero_def del: One_nat_def)
qed

end
