(* ===== verification/EqCheck.thy ===== *)
theory EqCheck
  imports LegacyBmc
begin

text \<open>
  Equivalence of two ILAs by commuting diagrams (src/ila-mngr/v\_refinement.cc, v\_eq\_check\_crr.cc and their
  header). A refinement map gives for one ILA the apply function, the flushing function, the completion
  condition and invariants; a relation maps states of the two ILAs. The checker compares the flushed state of a run
  with the flushed state of the run that applies one instruction first.

  The Z3 interface, the solver and \<^verbatim>\<open>z3::forall\<close> are parameters. \<^verbatim>\<open>int\<close> values are unbounded. Log messages,
  including the printing of models, are not modelled.
\<close>

section \<open>Refinement maps and relations\<close>

record RefinementMap =
  ref_coi :: "nat option"
  ref_appl :: "expr option"
  ref_flush :: "expr option"
  ref_cmpl :: "expr option"
  step_appl :: int
  step_orig :: int
  ref_invs :: "expr list"

definition RefinementMap_New :: "RefinementMap M" where
  "RefinementMap_New =
     bnd (BoolConst True) (\<lambda>c.
     ret \<lparr>ref_coi = None, ref_appl = None, ref_flush = None, ref_cmpl = Some c, step_appl = -1, step_orig = -1, ref_invs = []\<rparr>)"

definition set_tgt_ila :: "nat option \<Rightarrow> RefinementMap \<Rightarrow> RefinementMap M" where
  "set_tgt_ila tgt r = bnd (ila_assert (tgt \<noteq> None) ''tgt'') (\<lambda>_. ret (r\<lparr>ref_coi := tgt\<rparr>))"

definition set_tgt_instr :: "nat \<Rightarrow> RefinementMap \<Rightarrow> RefinementMap M" where
  "set_tgt_instr tgt r =
     bnd (get_instr tgt) (\<lambda>x.
     bnd (lift (case instr_host x of None \<Rightarrow> Inl (IlaAssert ''tgt && tgt->host()'') | Some p \<Rightarrow> Inr p)) (\<lambda>p.
     bnd (get_ila p) (\<lambda>m.
     bnd (ExtrDeptModl tgt (ila_name m)) (\<lambda>c. ret (r\<lparr>ref_coi := Some c\<rparr>)))))"

text \<open>The setters that take a Boolean expression.\<close>

definition bool_arg :: "expr option \<Rightarrow> string \<Rightarrow> unit M" where
  "bool_arg e msg = ila_assert (case e of None \<Rightarrow> False | Some x \<Rightarrow> e_is_bool x) msg"

definition set_appl :: "expr option \<Rightarrow> RefinementMap \<Rightarrow> RefinementMap M" where
  "set_appl e r = bnd (bool_arg e ''Apply function should be represented as Boolean constraint.'') (\<lambda>_. ret (r\<lparr>ref_appl := e\<rparr>))"

definition set_flush :: "expr option \<Rightarrow> RefinementMap \<Rightarrow> RefinementMap M" where
  "set_flush e r = bnd (bool_arg e ''Flushing function should be represented as Boolean constraint.'') (\<lambda>_. ret (r\<lparr>ref_flush := e\<rparr>))"

definition set_cmpl :: "expr option \<Rightarrow> RefinementMap \<Rightarrow> RefinementMap M" where
  "set_cmpl e r = bnd (bool_arg e ''Completion should be indicated as Boolean constraint.'') (\<lambda>_. ret (r\<lparr>ref_cmpl := e\<rparr>))"

definition set_step_appl :: "int \<Rightarrow> RefinementMap \<Rightarrow> RefinementMap M" where
  "set_step_appl k r = bnd (ila_assert (k \<ge> 0) ''Can only be flushed positive times.'') (\<lambda>_. ret (r\<lparr>step_appl := k\<rparr>))"

definition set_step_orig :: "int \<Rightarrow> RefinementMap \<Rightarrow> RefinementMap M" where
  "set_step_orig k r = bnd (ila_assert (k \<ge> 0) ''Can only be flushed positive times.'') (\<lambda>_. ret (r\<lparr>step_orig := k\<rparr>))"

definition add_inv :: "expr option \<Rightarrow> RefinementMap \<Rightarrow> RefinementMap M" where
  "add_inv e r =
     bnd (bool_arg e ''Invariant should be Boolean.'') (\<lambda>_.
     bnd (not_null e) (\<lambda>x. ret (r\<lparr>ref_invs := ref_invs r @ [x]\<rparr>)))"

text \<open>A relation map is its accumulated conjunction.\<close>

definition RelationMap_New :: "expr M" where
  "RelationMap_New = BoolConst True"

definition RelationMap_add :: "expr option \<Rightarrow> expr \<Rightarrow> expr M" where
  "RelationMap_add e acc =
     bnd (bool_arg e ''Relation mapping should be Boolean typed.'') (\<lambda>_. bnd (not_null e) (AndE acc))"

record CompRefRel =
  refine_a :: RefinementMap
  refine_b :: RefinementMap
  relation :: expr

definition CompRefRel_New :: "RefinementMap option \<Rightarrow> RefinementMap option \<Rightarrow> expr option \<Rightarrow> CompRefRel M" where
  "CompRefRel_New ra rb rl =
     lift (case (ra, rb, rl) of
        (Some a, Some b, Some l) \<Rightarrow> Inr \<lparr>refine_a = a, refine_b = b, relation = l\<rparr>
      | _ \<Rightarrow> Inl (IlaAssert ''Incomplete refinement relation.''))"

section \<open>The checker object\<close>

datatype UID = A_OLD | A_NEW | B_OLD | B_NEW

record UnrlUnit =
  lo :: int
  hi :: int

definition k_suff_orig :: string where "k_suff_orig = ''org''"

definition k_suff_appl :: string where "k_suff_appl = ''apl''"

definition k_suff_old :: string where "k_suff_old = ''old''"

definition k_suff_new :: string where "k_suff_new = ''new''"

definition k_suff_apl :: string where "k_suff_apl = ''apl''"

record 't CommDiag =
  crr :: CompRefRel
  uu_a_old :: UnrlUnit
  uu_a_new :: UnrlUnit
  uu_b_old :: UnrlUnit
  uu_b_new :: UnrlUnit
  unrl_a_old :: "'t Unroller"
  unrl_a_new :: "'t Unroller"
  unrl_b_old :: "'t Unroller"
  unrl_b_new :: "'t Unroller"
  stts_a :: ExprSet
  stts_b :: ExprSet
  unrl_old :: "'t Unroller"
  unrl_new :: "'t Unroller"
  unrl_apl :: "'t Unroller"
  unroll_appl :: "'t Unroller"
  unroll_orig :: "'t Unroller"

text \<open>A pointer that is followed without a test.\<close>

definition ptr :: "'a option \<Rightarrow> 'a M" where
  "ptr q = lift (case q of None \<Rightarrow> Inl NullDeref | Some x \<Rightarrow> Inr x)"

definition GetUnrl :: "UID \<Rightarrow> 't CommDiag \<Rightarrow> 't Unroller" where
  "GetUnrl uid cd = (case uid of A_OLD \<Rightarrow> unrl_old cd | A_NEW \<Rightarrow> unrl_new cd | B_OLD \<Rightarrow> unrl_old cd | B_NEW \<Rightarrow> unrl_new cd)"

definition put_unrl :: "UID \<Rightarrow> 't Unroller \<Rightarrow> 't CommDiag \<Rightarrow> 't CommDiag" where
  "put_unrl uid u cd = (case uid of A_OLD \<Rightarrow> cd\<lparr>unrl_old := u\<rparr> | A_NEW \<Rightarrow> cd\<lparr>unrl_new := u\<rparr>
     | B_OLD \<Rightarrow> cd\<lparr>unrl_old := u\<rparr> | B_NEW \<Rightarrow> cd\<lparr>unrl_new := u\<rparr>)"

definition GetUnrlOld :: "'t CommDiag \<Rightarrow> 't Unroller" where
  "GetUnrlOld cd = unrl_a_old cd"

definition GetUnrlNew :: "'t CommDiag \<Rightarrow> 't Unroller" where
  "GetUnrlNew cd = unrl_a_new cd"

definition GetUnrlApl :: "'t CommDiag \<Rightarrow> 't Unroller" where
  "GetUnrlApl cd = unrl_apl cd"

definition GetRefine :: "UID \<Rightarrow> 't CommDiag \<Rightarrow> RefinementMap" where
  "GetRefine uid cd = (case uid of A_OLD \<Rightarrow> refine_a (crr cd) | A_NEW \<Rightarrow> refine_a (crr cd)
     | B_OLD \<Rightarrow> refine_b (crr cd) | B_NEW \<Rightarrow> refine_b (crr cd))"

definition GetUnrlUnit :: "UID \<Rightarrow> 't CommDiag \<Rightarrow> UnrlUnit" where
  "GetUnrlUnit uid cd = (case uid of A_OLD \<Rightarrow> uu_a_old cd | A_NEW \<Rightarrow> uu_a_new cd | B_OLD \<Rightarrow> uu_b_old cd | B_NEW \<Rightarrow> uu_b_new cd)"

definition put_unit :: "UID \<Rightarrow> UnrlUnit \<Rightarrow> 't CommDiag \<Rightarrow> 't CommDiag" where
  "put_unit uid u cd = (case uid of A_OLD \<Rightarrow> cd\<lparr>uu_a_old := u\<rparr> | A_NEW \<Rightarrow> cd\<lparr>uu_a_new := u\<rparr>
     | B_OLD \<Rightarrow> cd\<lparr>uu_b_old := u\<rparr> | B_NEW \<Rightarrow> cd\<lparr>uu_b_new := u\<rparr>)"

definition GetStts :: "UID \<Rightarrow> 't CommDiag \<Rightarrow> ExprSet" where
  "GetStts uid cd = (case uid of A_OLD \<Rightarrow> stts_a cd | A_NEW \<Rightarrow> stts_a cd | B_OLD \<Rightarrow> stts_b cd | B_NEW \<Rightarrow> stts_b cd)"

definition all_uids :: "UID list" where
  "all_uids = [A_OLD, A_NEW, B_OLD, B_NEW]"

section \<open>Formulas of the diagram\<close>

text \<open>The representative state equals the state of a step.\<close>

definition mark_states :: "'t z3_api \<Rightarrow> 't Unroller \<Rightarrow> ExprSet \<Rightarrow> int \<Rightarrow> 't M" where
  "mark_states ctx un stts pos =
     bnd (t_bool ctx True) (\<lambda>eq.
     foldM (\<lambda>v eq.
        bnd (CurrState ctx un v pos) (\<lambda>s_i.
        bnd (Unroller_GetZ3Expr_plain ctx un v) (\<lambda>s.
        bnd (t_eq ctx s s_i) (t_and ctx eq)))) stts eq)"

definition add_mark :: "'t z3_api \<Rightarrow> 't Unroller \<Rightarrow> expr option \<Rightarrow> ExprSet \<Rightarrow> int \<Rightarrow> 't \<Rightarrow> 't M" where
  "add_mark ctx un c stts pos acc =
     bnd (ptr c) (\<lambda>c.
     bnd (Unroller_GetZ3Expr ctx un c pos) (\<lambda>cmpl.
     bnd (mark_states ctx un stts pos) (\<lambda>eq.
     bnd (t_implies ctx cmpl eq) (t_and ctx acc))))"

definition GenInit :: "'t z3_api \<Rightarrow> 't CommDiag \<Rightarrow> RefinementMap \<Rightarrow> 't M" where
  "GenInit ctx cd r =
     bnd (ptr (ref_coi r)) (\<lambda>coi.
     bnd (GetSttTree coi) (\<lambda>vs.
     bnd (t_bool ctx True) (\<lambda>eq.
     bnd (foldM (\<lambda>v eq.
        bnd (CurrState ctx (unroll_orig cd) v 0) (\<lambda>so.
        bnd (CurrState ctx (unroll_appl cd) v 0) (\<lambda>sn.
        bnd (t_eq ctx so sn) (t_and ctx eq)))) vs eq) (\<lambda>eq.
     bnd (ptr (ref_appl r)) (\<lambda>a. bnd (Unroller_GetZ3Expr ctx (unroll_appl cd) a 0) (\<lambda>an.
     bnd (ptr (ref_flush r)) (\<lambda>f. bnd (Unroller_GetZ3Expr ctx (unroll_orig cd) f 0) (\<lambda>fo.
     bnd (t_and ctx an fo) (\<lambda>x. t_and ctx x eq)))))))))"

definition UnrollFlush ::
  "'t z3_api \<Rightarrow> 't Unroller \<Rightarrow> RefinementMap \<Rightarrow> int \<Rightarrow> int \<Rightarrow> int \<Rightarrow> ('t \<times> 't Unroller) M" where
  "UnrollFlush ctx un r base len start =
     bnd (ila_assert (base + len \<ge> start) ''base + length >= start'') (\<lambda>_.
     bnd (ptr (ref_flush r)) (\<lambda>f.
     bnd (ptr (ref_coi r)) (\<lambda>coi.
     let un = fold AddGlobPred (ref_invs r) (ClearPred un);
         un = fold (AddStepPred f) [start .. base + len] un in
     bnd (MonoAssn ctx coi len base un) (\<lambda>(path, un).
     bnd (GetStt coi) (\<lambda>vs.
     bnd (t_bool ctx True) (\<lambda>mark.
     bnd (foldM (add_mark ctx un (ref_cmpl r) vs) [start .. base + len] mark) (\<lambda>mark.
     bnd (t_and ctx path mark) (\<lambda>t. ret (t, un)))))))))"

definition GenTranRel :: "'t z3_api \<Rightarrow> 't CommDiag \<Rightarrow> RefinementMap \<Rightarrow> int \<Rightarrow> int \<Rightarrow> ('t \<times> 't CommDiag) M" where
  "GenTranRel ctx cd r k_orig k_appl =
     bnd (GenInit ctx cd r) (\<lambda>init.
     bnd (UnrollFlush ctx (unroll_orig cd) r 0 k_orig 0) (\<lambda>(orig, un).
     let cd = cd\<lparr>unroll_orig := un\<rparr> in
     bnd (UnrollFlush ctx (unroll_appl cd) r 0 (k_appl + 1) 1) (\<lambda>(appl, un).
     let cd = cd\<lparr>unroll_appl := un\<rparr> in
     bnd (t_and ctx init orig) (\<lambda>x. bnd (t_and ctx x appl) (\<lambda>t. ret (t, cd))))))"

definition GenAssm :: "'t z3_api \<Rightarrow> 't CommDiag \<Rightarrow> 't M" where
  "GenAssm ctx cd = Unroller_GetZ3Expr_plain ctx (unroll_orig cd) (relation (crr cd))"

definition GenProp :: "'t z3_api \<Rightarrow> 't CommDiag \<Rightarrow> 't M" where
  "GenProp ctx cd = Unroller_GetZ3Expr_plain ctx (unroll_appl cd) (relation (crr cd))"

definition AtLeastOnce :: "'t z3_api \<Rightarrow> 't Unroller \<Rightarrow> expr option \<Rightarrow> int \<Rightarrow> int \<Rightarrow> 't M" where
  "AtLeastOnce ctx un c start fin =
     bnd (BoolConst False) (\<lambda>b. bnd (Unroller_GetZ3Expr ctx un b 0) (\<lambda>cstr.
     foldM (\<lambda>i cstr. bnd (ptr c) (\<lambda>c. bnd (Unroller_GetZ3Expr ctx un c i) (t_or ctx cstr))) [start .. fin] cstr))"

definition AtMostOnce :: "'t z3_api \<Rightarrow> 't Unroller \<Rightarrow> expr option \<Rightarrow> int \<Rightarrow> int \<Rightarrow> 't M" where
  "AtMostOnce ctx un c start fin =
     bnd (BoolConst True) (\<lambda>b. bnd (Unroller_GetZ3Expr ctx un b 0) (\<lambda>cstr.
     foldM (\<lambda>i cstr. bnd (ptr c) (\<lambda>c. bnd (Unroller_GetZ3Expr ctx un c i) (\<lambda>cmpl_i.
        foldM (\<lambda>j cstr. bnd (Unroller_GetZ3Expr ctx un c j) (\<lambda>cmpl_j.
          bnd (t_not ctx cmpl_i) (\<lambda>ni. bnd (t_not ctx cmpl_j) (\<lambda>nj. bnd (t_or ctx ni nj) (t_and ctx cstr)))))
          [i + 1 .. fin] cstr))) [start .. fin] cstr))"

section \<open>Sanity checks\<close>

text \<open>One query to the solver; \<^verbatim>\<open>check()\<close> leaves the assertions in place.\<close>

definition s_add :: "('t, 's) z3_solver \<Rightarrow> 't \<Rightarrow> 's \<Rightarrow> 's M" where
  "s_add sol t s = lift (sol_add sol t s)"

definition SanityCheckRefinement ::
  "'t z3_api \<Rightarrow> ('t, 's) z3_solver \<Rightarrow> ('t list \<Rightarrow> 't \<Rightarrow> 't result) \<Rightarrow> 't CommDiag \<Rightarrow> RefinementMap \<Rightarrow> bool M" where
  "SanityCheckRefinement ctx sol z3_forall cd r =
     bnd (ila_check (ref_coi r \<noteq> None) ''Refinement target not set.'') (\<lambda>_.
     bnd (ila_check (ref_flush r \<noteq> None) ''Flushing function not set for '') (\<lambda>_.
     bnd (ila_check (ref_appl r \<noteq> None) ''Apply function not set set for '') (\<lambda>_.
     bnd (ila_check (ref_cmpl r \<noteq> None) ''Complete condition not set for '') (\<lambda>_.
     bnd (ptr (ref_flush r)) (\<lambda>f. bnd (ptr (ref_appl r)) (\<lambda>a. bnd (ptr (ref_cmpl r)) (\<lambda>c.
     bnd (AndE f a) (\<lambda>fa. bnd (gen_GetExpr ctx fa []) (\<lambda>exc.
     bnd (s_add sol exc (sol_reset sol (sol_new sol))) (\<lambda>s.
     let (res, s) = sol_check sol s in
     if res = Sat then ret False else
     bnd (if step_orig r \<noteq> 0 \<or> step_appl r \<noteq> 0 then
            bnd (Imply f c) (\<lambda>fc. bnd (gen_GetExpr ctx fc []) (\<lambda>cmpl_unique. bnd (t_not ctx cmpl_unique) (\<lambda>n.
            bnd (s_add sol n (sol_reset sol s)) (\<lambda>s. let (res, s) = sol_check sol s in ret (res = Unsat, s)))))
          else ret (False, s)) (\<lambda>(stop, s).
     if stop then ret False else
     bnd (GenInit ctx cd r) (\<lambda>init.
     bnd (Unroller_GetZ3Expr ctx (unroll_appl cd) a 0) (\<lambda>an.
     bnd (lift (GetVar_expr a)) (\<lambda>appl_vars.
     bnd (mapM (\<lambda>v. CurrState ctx (unroll_appl cd) v 0) appl_vars) (\<lambda>appl_z3.
     bnd (t_not ctx init) (\<lambda>ni. bnd (t_and ctx an ni) (\<lambda>body.
     bnd (lift (z3_forall appl_z3 body)) (\<lambda>q.
     bnd (s_add sol q (sol_reset sol s)) (\<lambda>s.
     let (res, s) = sol_check sol s in ret (res \<noteq> Sat))))))))))))))))))))"

definition SanityCheckRelation :: "expr \<Rightarrow> nat \<Rightarrow> nat \<Rightarrow> bool M" where
  "SanityCheckRelation rel ma mb =
     bnd (get_ila ma) (\<lambda>_. bnd (get_ila mb) (\<lambda>_.
     bnd (lift (GetVar_expr rel)) (\<lambda>rel_vars.
     bnd (bnd (InsertStt ma []) (InsertStt mb)) (\<lambda>ref_vars.
     ret (list_all (\<lambda>v. v \<in> set ref_vars) rel_vars)))))"

definition SanityCheck ::
  "'t z3_api \<Rightarrow> ('t, 's) z3_solver \<Rightarrow> ('t list \<Rightarrow> 't \<Rightarrow> 't result) \<Rightarrow> 't CommDiag \<Rightarrow> bool M" where
  "SanityCheck ctx sol z3_forall cd =
     bnd (SanityCheckRefinement ctx sol z3_forall cd (refine_a (crr cd))) (\<lambda>res_a.
     bnd (SanityCheckRefinement ctx sol z3_forall cd (refine_b (crr cd))) (\<lambda>res_b.
     bnd (ptr (ref_coi (refine_a (crr cd)))) (\<lambda>ma. bnd (ptr (ref_coi (refine_b (crr cd)))) (\<lambda>mb.
     bnd (SanityCheckRelation (relation (crr cd)) ma mb) (\<lambda>res_r.
     ret (res_a \<and> res_b \<and> res_r))))))"

text \<open>The constructor.\<close>

definition CommDiag_Init ::
  "'t z3_api \<Rightarrow> ('t, 's) z3_solver \<Rightarrow> ('t list \<Rightarrow> 't \<Rightarrow> 't result) \<Rightarrow> 't CommDiag \<Rightarrow> 't CommDiag M" where
  "CommDiag_Init ctx sol z3_forall cd =
     bnd (SanityCheck ctx sol z3_forall cd) (\<lambda>_.
     bnd (foldM (\<lambda>uid cd.
        let un = ClearPred (GetUnrl uid cd) in
        bnd (ptr (ref_flush (GetRefine uid cd))) (\<lambda>f. ret (put_unrl uid (AddGlobPred f un) cd))) all_uids cd) (\<lambda>cd.
     bnd (ptr (ref_coi (refine_a (crr cd)))) (\<lambda>ma. bnd (GetSttTree ma) (\<lambda>sa.
     bnd (ptr (ref_coi (refine_b (crr cd)))) (\<lambda>mb. bnd (GetSttTree mb) (\<lambda>sb.
     ret (cd\<lparr>stts_a := sa, stts_b := sb\<rparr>)))))))"

definition CommDiag_fields :: "CompRefRel \<Rightarrow> 't CommDiag" where
  "CommDiag_fields c =
     \<lparr>crr = c, uu_a_old = \<lparr>lo = 0, hi = 0\<rparr>, uu_a_new = \<lparr>lo = 0, hi = 0\<rparr>, uu_b_old = \<lparr>lo = 0, hi = 0\<rparr>,
      uu_b_new = \<lparr>lo = 0, hi = 0\<rparr>, unrl_a_old = Unroller_new k_suff_old, unrl_a_new = Unroller_new k_suff_new,
      unrl_b_old = Unroller_new k_suff_old, unrl_b_new = Unroller_new k_suff_new, stts_a = [], stts_b = [],
      unrl_old = Unroller_new k_suff_old, unrl_new = Unroller_new k_suff_new, unrl_apl = Unroller_new k_suff_apl,
      unroll_appl = Unroller_new k_suff_appl, unroll_orig = Unroller_new k_suff_orig\<rparr>"

definition CommDiag_New ::
  "'t z3_api \<Rightarrow> ('t, 's) z3_solver \<Rightarrow> ('t list \<Rightarrow> 't \<Rightarrow> 't result) \<Rightarrow> CompRefRel \<Rightarrow> 't CommDiag M" where
  "CommDiag_New ctx sol z3_forall c = CommDiag_Init ctx sol z3_forall (CommDiag_fields c)"

section \<open>The monolithic check\<close>

text \<open>The part that \<^verbatim>\<open>CheckStepOrig\<close> and \<^verbatim>\<open>CheckStepAppl\<close> share. The second query is added to the assertions of
  the first one.\<close>

definition check_once ::
  "'t z3_api \<Rightarrow> ('t, 's) z3_solver \<Rightarrow> 't Unroller \<Rightarrow> expr option \<Rightarrow> int \<Rightarrow> int \<Rightarrow> 't \<Rightarrow> 't \<Rightarrow> 's \<Rightarrow> bool M" where
  "check_once ctx sol un c start fin init tran s =
     bnd (AtLeastOnce ctx un c start fin) (\<lambda>at_least_once.
     bnd (t_and ctx init tran) (\<lambda>it. bnd (t_not ctx at_least_once) (\<lambda>n. bnd (t_and ctx it n) (\<lambda>q.
     bnd (s_add sol q (sol_reset sol s)) (\<lambda>s.
     let (res, s) = sol_check sol s in
     if res = Sat then ret False else
     bnd (AtMostOnce ctx un c start fin) (\<lambda>at_most_once.
     bnd (t_and ctx init tran) (\<lambda>it. bnd (t_not ctx at_most_once) (\<lambda>n. bnd (t_and ctx it n) (\<lambda>q.
     bnd (s_add sol q s) (\<lambda>s.
     let (res, s) = sol_check sol s in ret (res \<noteq> Sat)))))))))))"

definition CheckStepOrig ::
  "'t z3_api \<Rightarrow> ('t, 's) z3_solver \<Rightarrow> RefinementMap \<Rightarrow> int \<Rightarrow> 't CommDiag \<Rightarrow> (bool \<times> 't CommDiag) M" where
  "CheckStepOrig ctx sol r k cd =
     bnd (GenInit ctx cd r) (\<lambda>init.
     bnd (ptr (ref_flush r)) (\<lambda>f. bnd (ptr (ref_coi r)) (\<lambda>coi.
     let u = fold AddGlobPred (ref_invs r) (AddGlobPred f (ClearPred (unroll_orig cd))) in
     bnd (MonoAssn ctx coi k 0 u) (\<lambda>(tran, u).
     bnd (t_and ctx init tran) (\<lambda>it. bnd (s_add sol it (sol_new sol)) (\<lambda>s.
     let (res, s) = sol_check sol s in
     bnd (ila_check (res \<noteq> Unsat) ''Dead transition'') (\<lambda>_.
     bnd (check_once ctx sol u (ref_cmpl r) 0 k init tran s) (\<lambda>b. ret (b, cd\<lparr>unroll_orig := u\<rparr>)))))))))"

definition CheckStepAppl ::
  "'t z3_api \<Rightarrow> ('t, 's) z3_solver \<Rightarrow> RefinementMap \<Rightarrow> int \<Rightarrow> 't CommDiag \<Rightarrow> (bool \<times> 't CommDiag) M" where
  "CheckStepAppl ctx sol r k cd =
     bnd (GenInit ctx cd r) (\<lambda>init.
     bnd (ptr (ref_appl r)) (\<lambda>a. bnd (ptr (ref_flush r)) (\<lambda>f. bnd (ptr (ref_coi r)) (\<lambda>coi.
     let u = AddInitPred a (ClearPred (unroll_appl cd));
         u = fold AddGlobPred (ref_invs r) (fold (AddStepPred f) [1 .. k + 1] u) in
     bnd (MonoAssn ctx coi (k + 1) 0 u) (\<lambda>(tran, u).
     bnd (check_once ctx sol u (ref_cmpl r) 1 (k + 1) init tran (sol_new sol)) (\<lambda>b. ret (b, cd\<lparr>unroll_appl := u\<rparr>)))))))"

text \<open>The first number of steps that passes.\<close>

fun det_step :: "(int \<Rightarrow> 'a \<Rightarrow> (bool \<times> 'a) M) \<Rightarrow> int list \<Rightarrow> 'a \<Rightarrow> (int \<times> 'a) M" where
  "det_step chk [] a = ret (-1, a)"
| "det_step chk (n # ns) a = bnd (chk n a) (\<lambda>(res, a). if res then ret (n, a) else det_step chk ns a)"

definition DetStepOrig ::
  "'t z3_api \<Rightarrow> ('t, 's) z3_solver \<Rightarrow> RefinementMap \<Rightarrow> int \<Rightarrow> 't CommDiag \<Rightarrow> (int \<times> 't CommDiag) M" where
  "DetStepOrig ctx sol r mx cd =
     det_step (CheckStepOrig ctx sol r) [if step_orig r \<ge> 0 then step_orig r else 0 .. mx] cd"

definition DetStepAppl ::
  "'t z3_api \<Rightarrow> ('t, 's) z3_solver \<Rightarrow> RefinementMap \<Rightarrow> int \<Rightarrow> 't CommDiag \<Rightarrow> (int \<times> 't CommDiag) M" where
  "DetStepAppl ctx sol r mx cd =
     det_step (CheckStepAppl ctx sol r) [if step_appl r \<ge> 0 then step_appl r else 0 .. mx] cd"

text \<open>The two queries whether a transition relation is dead, and the final query.\<close>

definition dead_tran :: "('t, 's) z3_solver \<Rightarrow> 't \<Rightarrow> 's \<Rightarrow> (bool \<times> 's) M" where
  "dead_tran sol t s = bnd (s_add sol t s) (\<lambda>s. let (res, s) = sol_check sol s in ret (res = Unsat, s))"

definition EqCheck_query ::
  "'t z3_api \<Rightarrow> ('t, 's) z3_solver \<Rightarrow> int \<Rightarrow> int \<Rightarrow> int \<Rightarrow> int \<Rightarrow> 't CommDiag \<Rightarrow> (bool \<times> 't CommDiag) M" where
  "EqCheck_query ctx sol step_orig_a step_appl_a step_orig_b step_appl_b cd =
     bnd (GenTranRel ctx cd (refine_a (crr cd)) step_orig_a step_appl_a) (\<lambda>(cstr_tran_a, cd).
     bnd (GenTranRel ctx cd (refine_b (crr cd)) step_orig_b step_appl_b) (\<lambda>(cstr_tran_b, cd).
     bnd (dead_tran sol cstr_tran_a (sol_new sol)) (\<lambda>(dead, s).
     if dead then ret (False, cd) else
     bnd (dead_tran sol cstr_tran_b (sol_reset sol s)) (\<lambda>(dead, s).
     if dead then ret (False, cd) else
     bnd (GenAssm ctx cd) (\<lambda>cstr_assm.
     bnd (GenProp ctx cd) (\<lambda>cstr_prop.
     bnd (t_and ctx cstr_tran_a cstr_tran_b) (\<lambda>ab. bnd (t_and ctx ab cstr_assm) (\<lambda>q.
     bnd (s_add sol q (sol_reset sol s)) (\<lambda>s.
     bnd (t_not ctx cstr_prop) (\<lambda>n.
     bnd (s_add sol n s) (\<lambda>s.
     ret (fst (sol_check sol s) = Unsat, cd))))))))))))"

definition EqCheck ::
  "'t z3_api \<Rightarrow> ('t, 's) z3_solver \<Rightarrow> ('t list \<Rightarrow> 't \<Rightarrow> 't result) \<Rightarrow> int \<Rightarrow> 't CommDiag \<Rightarrow> (bool \<times> 't CommDiag) M" where
  "EqCheck ctx sol z3_forall mx cd =
     bnd (SanityCheck ctx sol z3_forall cd) (\<lambda>_.
     bnd (DetStepOrig ctx sol (refine_a (crr cd)) mx cd) (\<lambda>(step_orig_a, cd).
     bnd (DetStepAppl ctx sol (refine_a (crr cd)) mx cd) (\<lambda>(step_appl_a, cd).
     bnd (DetStepOrig ctx sol (refine_b (crr cd)) mx cd) (\<lambda>(step_orig_b, cd).
     bnd (DetStepAppl ctx sol (refine_b (crr cd)) mx cd) (\<lambda>(step_appl_b, cd).
     if step_orig_a < 0 \<or> step_appl_a < 0 \<or> step_orig_b < 0 \<or> step_appl_b < 0 then ret (False, cd)
     else EqCheck_query ctx sol step_orig_a step_appl_a step_orig_b step_appl_b cd)))))"

section \<open>The incremental checks\<close>

definition GetZ3Assm :: "'t z3_api \<Rightarrow> 't CommDiag \<Rightarrow> 't M" where
  "GetZ3Assm ctx cd = Unroller_GetZ3Expr_plain ctx (GetUnrlOld cd) (relation (crr cd))"

definition GetZ3Prop :: "'t z3_api \<Rightarrow> 't CommDiag \<Rightarrow> 't M" where
  "GetZ3Prop ctx cd = Unroller_GetZ3Expr_plain ctx (GetUnrlNew cd) (relation (crr cd))"

text \<open>One step with the apply function, from the old to the new state.\<close>

definition GetZ3ApplInstr :: "'t z3_api \<Rightarrow> ExprSet \<Rightarrow> RefinementMap \<Rightarrow> 't CommDiag \<Rightarrow> ('t \<times> 't CommDiag) M" where
  "GetZ3ApplInstr ctx stts r cd =
     bnd (t_bool ctx True) (\<lambda>acc.
     bnd (ptr (ref_appl r)) (\<lambda>a. bnd (ptr (ref_coi r)) (\<lambda>coi.
     let un = AddStepPred a 0 (fold AddGlobPred (ref_invs r) (ClearPred (unrl_apl cd))) in
     bnd (MonoAssn ctx coi 1 0 un) (\<lambda>(apply_one_step, un).
     let un = ClearPred un; cd = cd\<lparr>unrl_apl := un\<rparr> in
     bnd (t_and ctx acc apply_one_step) (\<lambda>acc.
     bnd (t_bool ctx True) (\<lambda>eq.
     bnd (foldM (\<lambda>v eq.
        bnd (CurrState ctx (unrl_apl cd) v 0) (\<lambda>sa_0. bnd (CurrState ctx (unrl_old cd) v 0) (\<lambda>so_0.
        bnd (t_eq ctx sa_0 so_0) (\<lambda>e. bnd (t_and ctx eq e) (\<lambda>eq.
        bnd (CurrState ctx (unrl_apl cd) v 1) (\<lambda>sa_1. bnd (CurrState ctx (unrl_new cd) v 0) (\<lambda>sn_0.
        bnd (t_eq ctx sa_1 sn_0) (t_and ctx eq)))))))) stts eq) (\<lambda>eq.
     bnd (t_and ctx acc eq) (\<lambda>acc.
     bnd (ptr (ref_flush r)) (\<lambda>f.
     bnd (Unroller_GetZ3Expr ctx (unrl_old cd) f 0) (\<lambda>flush_on_old.
     bnd (Unroller_GetZ3Expr ctx (unrl_new cd) f 0) (\<lambda>flush_on_new.
     bnd (t_and ctx acc flush_on_old) (\<lambda>x. bnd (t_and ctx x flush_on_new) (\<lambda>t. ret (t, cd))))))))))))))"

definition GetZ3IncFlsh :: "'t z3_api \<Rightarrow> UID \<Rightarrow> 't CommDiag \<Rightarrow> ('t \<times> 't CommDiag) M" where
  "GetZ3IncFlsh ctx uid cd =
     (let uu = GetUnrlUnit uid cd; r = GetRefine uid cd; stts = GetStts uid cd in
     bnd (ptr (ref_coi r)) (\<lambda>ila.
     bnd (MonoIncr ctx ila (hi uu - lo uu) (lo uu) (GetUnrl uid cd)) (\<lambda>(tran, un).
     bnd (foldM (add_mark ctx un (ref_cmpl r) stts) [lo uu .. hi uu] tran) (\<lambda>tran.
     ret (tran, put_unrl uid un cd)))))"

definition GetZ3Cmpl :: "'t z3_api \<Rightarrow> expr option \<Rightarrow> 't Unroller \<Rightarrow> int \<Rightarrow> int \<Rightarrow> 't M" where
  "GetZ3Cmpl ctx c un start fin =
     bnd (t_bool ctx False) (\<lambda>cmpl_acc.
     foldM (\<lambda>i acc. bnd (ptr c) (\<lambda>c. bnd (Unroller_GetZ3Expr ctx un c i) (t_or ctx acc))) [start .. fin] cmpl_acc)"

definition GetZ3IncCmpl :: "'t z3_api \<Rightarrow> UID \<Rightarrow> 't CommDiag \<Rightarrow> 't M" where
  "GetZ3IncCmpl ctx uid cd =
     GetZ3Cmpl ctx (ref_cmpl (GetRefine uid cd)) (GetUnrl uid cd) 0 (hi (GetUnrlUnit uid cd))"

definition GetZ3IncUnrl ::
  "'t z3_api \<Rightarrow> 't Unroller \<Rightarrow> RefinementMap \<Rightarrow> int \<Rightarrow> int \<Rightarrow> ExprSet \<Rightarrow> ('t \<times> 't Unroller) M" where
  "GetZ3IncUnrl ctx un r start len stts =
     bnd (ptr (ref_coi r)) (\<lambda>coi.
     bnd (MonoIncr ctx coi len start un) (\<lambda>(tran, un).
     bnd (foldM (add_mark ctx un (ref_cmpl r) stts) [start .. start + len] tran) (\<lambda>tran.
     ret (tran, un))))"

definition CheckCmpl :: "'t z3_api \<Rightarrow> ('t, 's) z3_solver \<Rightarrow> 't \<Rightarrow> 's \<Rightarrow> (bool \<times> 's) M" where
  "CheckCmpl ctx sol cmpl_expr s =
     bnd (t_not ctx cmpl_expr) (\<lambda>n.
     bnd (s_add sol n (sol_push sol s)) (\<lambda>s.
     let (res, s) = sol_check sol s in
     bnd (lift (sol_pop sol s)) (\<lambda>s.
     if res = Unsat then bnd (s_add sol cmpl_expr s) (\<lambda>s. ret (True, sol_push sol s)) else ret (False, s))))"

text \<open>A loop with a step that may return early.\<close>

fun for_step :: "nat \<Rightarrow> (int \<Rightarrow> 'a \<Rightarrow> (bool option \<times> 'a) M) \<Rightarrow> int \<Rightarrow> int \<Rightarrow> int \<Rightarrow> 'a \<Rightarrow> (bool \<times> 'a) M" where
  "for_step 0 body i mx stp a = (if i \<le> mx then lift (Inl Diverges) else ret (True, a))"
| "for_step (Suc n) body i mx stp a =
     (if i \<le> mx then
        bnd (body i a) (\<lambda>(r, a). case r of Some b \<Rightarrow> ret (b, a) | None \<Rightarrow> for_step n body (i + stp) mx stp a)
      else ret (True, a))"

text \<open>The steps that both incremental checks take on the solver: the base condition, the query, and what
  is kept after it.\<close>

definition inc_base :: "'t z3_api \<Rightarrow> ('t, 's) z3_solver \<Rightarrow> ExprSet \<Rightarrow> ExprSet \<Rightarrow> 't CommDiag \<Rightarrow> ('s \<times> 't CommDiag) M" where
  "inc_base ctx sol sa sb cd =
     bnd (GetZ3ApplInstr ctx sa (refine_a (crr cd)) cd) (\<lambda>(appl_instr_a, cd).
     bnd (GetZ3ApplInstr ctx sb (refine_b (crr cd)) cd) (\<lambda>(appl_instr_b, cd).
     bnd (s_add sol appl_instr_a (sol_new sol)) (\<lambda>s.
     bnd (s_add sol appl_instr_b s) (\<lambda>s.
     ret (sol_push sol s, cd)))))"

definition inc_query :: "'t z3_api \<Rightarrow> ('t, 's) z3_solver \<Rightarrow> 't \<Rightarrow> 't \<Rightarrow> 't \<Rightarrow> 't \<Rightarrow> 's \<Rightarrow> (check_result \<times> 's) M" where
  "inc_query ctx sol cf cmpl_acc assm prop s =
     bnd (t_eq ctx cf cmpl_acc) (\<lambda>e. bnd (s_add sol e (sol_push sol s)) (\<lambda>s.
     bnd (s_add sol assm s) (\<lambda>s.
     bnd (t_not ctx prop) (\<lambda>n. bnd (s_add sol n s) (\<lambda>s.
     ret (sol_check sol s))))))"

definition inc_partial :: "'t z3_api \<Rightarrow> ('t, 's) z3_solver \<Rightarrow> 't CommDiag \<Rightarrow> 't \<Rightarrow> 's \<Rightarrow> 's M" where
  "inc_partial ctx sol cd cmpl_acc s =
     bnd (lift (sol_pop sol s)) (\<lambda>s.
     bnd (GetZ3Assm ctx cd) (\<lambda>partial_assm.
     bnd (t_implies ctx cmpl_acc partial_assm) (\<lambda>partial_cmpl.
     bnd (GetZ3Prop ctx cd) (\<lambda>partial_prop.
     bnd (t_and ctx partial_cmpl partial_assm) (\<lambda>x. bnd (t_implies ctx x partial_prop) (\<lambda>p.
     bnd (s_add sol p s) (\<lambda>s. ret (sol_push sol s))))))))"

definition IncCheck_body ::
  "'t z3_api \<Rightarrow> ('t, 's) z3_solver \<Rightarrow> 't \<Rightarrow> 't \<Rightarrow> 't \<Rightarrow> int \<Rightarrow> int \<Rightarrow> 's \<times> 't CommDiag \<Rightarrow> (bool option \<times> 's \<times> 't CommDiag) M" where
  "IncCheck_body ctx sol cf assm prop stp i = (\<lambda>(s, cd).
     if list_all (\<lambda>uid. hi (GetUnrlUnit uid cd) < i) all_uids then ret (Some True, s, cd) else
     bnd (foldM (\<lambda>uid (s, cd).
        if hi (GetUnrlUnit uid cd) = i
        then bnd (GetZ3IncFlsh ctx uid cd) (\<lambda>(tran, cd). bnd (s_add sol tran s) (\<lambda>s. ret (s, cd)))
        else ret (s, cd)) all_uids (s, cd)) (\<lambda>(s, cd).
     bnd (bnd (t_bool ctx True) (foldM (\<lambda>uid acc. bnd (GetZ3IncCmpl ctx uid cd) (t_and ctx acc)) all_uids)) (\<lambda>cmpl_acc.
     bnd (inc_query ctx sol cf cmpl_acc assm prop s) (\<lambda>(res, s).
     if res = Sat then ret (Some False, s, cd) else
     bnd (inc_partial ctx sol cd cmpl_acc s) (\<lambda>s.
     bnd (foldM (\<lambda>uid (s, cd).
        let uu = GetUnrlUnit uid cd; cd = put_unit uid (uu\<lparr>lo := hi uu\<rparr>) cd in
        if hi uu = i
        then bnd (GetZ3IncCmpl ctx uid cd) (\<lambda>cmpl_i. bnd (CheckCmpl ctx sol cmpl_i s) (\<lambda>(sufficient, s).
             ret (s, put_unit uid \<lparr>lo = hi uu, hi = (if sufficient then hi uu else hi uu + stp)\<rparr> cd)))
        else ret (s, cd)) all_uids (s, cd)) (\<lambda>(s, cd).
     ret (None, s, cd)))))))"

definition IncCheck ::
  "'t z3_api \<Rightarrow> ('t, 's) z3_solver \<Rightarrow> int \<Rightarrow> int \<Rightarrow> int \<Rightarrow> 't CommDiag \<Rightarrow> (bool \<times> 't CommDiag) M" where
  "IncCheck ctx sol mn mx stp cd =
     (let cd = fold (\<lambda>uid. put_unit uid \<lparr>lo = 0, hi = mn\<rparr>) all_uids cd in
     bnd (inc_base ctx sol (stts_a cd) (stts_b cd) cd) (\<lambda>(s, cd).
     bnd (lift (z3_constant ctx ''cmpl_flag'' SBool)) (\<lambda>cf.
     bnd (GetZ3Assm ctx cd) (\<lambda>assm. bnd (GetZ3Prop ctx cd) (\<lambda>prop.
     bnd (t_implies ctx cf assm) (\<lambda>assm. bnd (t_implies ctx cf prop) (\<lambda>prop.
     bnd (for_step (Suc (nat (mx - mn))) (IncCheck_body ctx sol cf assm prop stp) mn mx stp (s, cd)) (\<lambda>(b, s, cd).
     ret (b, cd)))))))))"

text \<open>\<^verbatim>\<open>IncEqCheck\<close> keeps the numbers of steps and the unrollers of the four paths in local variables.\<close>

definition IncEqCheck_body ::
  "'t z3_api \<Rightarrow> ('t, 's) z3_solver \<Rightarrow> 't CommDiag \<Rightarrow> ExprSet \<Rightarrow> ExprSet \<Rightarrow> 't \<Rightarrow> 't \<Rightarrow> 't \<Rightarrow> int \<Rightarrow> int \<Rightarrow>
   's \<times> (UID \<Rightarrow> int) \<times> (UID \<Rightarrow> 't Unroller) \<Rightarrow> (bool option \<times> 's \<times> (UID \<Rightarrow> int) \<times> (UID \<Rightarrow> 't Unroller)) M" where
  "IncEqCheck_body ctx sol cd sa sb cf assm prop stp i = (\<lambda>(s, num, unrl).
     let stts = (\<lambda>uid. if uid \<in> {A_OLD, A_NEW} then sa else sb) in
     if num A_OLD < i \<and> num B_OLD < i \<and> num A_NEW < i \<and> num B_NEW < i then ret (Some True, s, num, unrl) else
     bnd (foldM (\<lambda>uid (s, unrl).
        if num uid = i
        then bnd (GetZ3IncUnrl ctx (unrl uid) (GetRefine uid cd) i stp (stts uid)) (\<lambda>(tran, un).
             bnd (s_add sol tran s) (\<lambda>s. ret (s, unrl(uid := un))))
        else ret (s, unrl)) all_uids (s, unrl)) (\<lambda>(s, unrl).
     let cmpl = (\<lambda>uid. GetZ3Cmpl ctx (ref_cmpl (GetRefine uid cd)) (unrl uid) 0 (num uid)) in
     bnd (cmpl A_OLD) (\<lambda>c1. bnd (cmpl A_NEW) (\<lambda>c2. bnd (cmpl B_OLD) (\<lambda>c3. bnd (cmpl B_NEW) (\<lambda>c4.
     bnd (t_and ctx c1 c2) (\<lambda>c. bnd (t_and ctx c c3) (\<lambda>c. bnd (t_and ctx c c4) (\<lambda>cmpl_acc.
     bnd (inc_query ctx sol cf cmpl_acc assm prop s) (\<lambda>(res, s).
     if res = Sat then ret (Some False, s, num, unrl) else
     bnd (inc_partial ctx sol cd cmpl_acc s) (\<lambda>s.
     bnd (foldM (\<lambda>(uid, c) (s, num).
        if num uid = i
        then bnd (CheckCmpl ctx sol c s) (\<lambda>(sufficient, s).
             ret (s, num(uid := (if sufficient then num uid else num uid + stp))))
        else ret (s, num)) [(A_OLD, c1), (A_NEW, c2), (B_OLD, c3), (B_NEW, c4)] (s, num)) (\<lambda>(s, num).
     ret (None, s, num, unrl)))))))))))))"

definition IncEqCheck ::
  "'t z3_api \<Rightarrow> ('t, 's) z3_solver \<Rightarrow> ('t list \<Rightarrow> 't \<Rightarrow> 't result) \<Rightarrow> int \<Rightarrow> int \<Rightarrow> int \<Rightarrow> 't CommDiag \<Rightarrow> (bool \<times> 't CommDiag) M" where
  "IncEqCheck ctx sol z3_forall mn mx stp cd =
     bnd (SanityCheck ctx sol z3_forall cd) (\<lambda>_.
     bnd (ptr (ref_coi (refine_a (crr cd)))) (\<lambda>ma. bnd (ptr (ref_coi (refine_b (crr cd)))) (\<lambda>mb.
     bnd (GetSttTree ma) (\<lambda>sa. bnd (GetSttTree mb) (\<lambda>sb.
     bnd (inc_base ctx sol sa sb cd) (\<lambda>(s, cd).
     bnd (lift (z3_constant ctx ''cmpl_flag'' SBool)) (\<lambda>cf.
     bnd (GetZ3Assm ctx cd) (\<lambda>assm. bnd (GetZ3Prop ctx cd) (\<lambda>prop.
     bnd (t_implies ctx cf assm) (\<lambda>assm. bnd (t_implies ctx cf prop) (\<lambda>prop.
     bnd (ila_assert (mx \<ge> mn) ''Invalid range'') (\<lambda>_.
     bnd (ptr (ref_flush (refine_a (crr cd)))) (\<lambda>fa. bnd (ptr (ref_flush (refine_b (crr cd)))) (\<lambda>fb.
     let unrl = (\<lambda>uid. AddGlobPred (if uid \<in> {A_OLD, A_NEW} then fa else fb)
                   (Unroller_new (if uid \<in> {A_OLD, B_OLD} then k_suff_old else k_suff_new))) in
     bnd (for_step (Suc (nat (mx - mn))) (IncEqCheck_body ctx sol cd sa sb cf assm prop stp) mn mx stp (s, (\<lambda>uid. mn), unrl))
       (\<lambda>(b, _). ret (b, cd))))))))))))))))"

end
