(* ===== verification/Substitution.thy ===== *)
theory Substitution
  imports Unroller
begin

text \<open>
  Unrolling with substitution (\<^verbatim>\<open>Unroller::UnrollSubs\<close> of src/ila-mngr/u\_unroller.cc): the terms of a
  step are rewritten over the values computed so far, so that only the variables of the first and the
  last step and the inputs remain. The locale adds the documented behaviour of
  \<^verbatim>\<open>z3::expr::substitute\<close> to that of theory Z3Gen.
\<close>

section \<open>Substitution in terms\<close>

text \<open>An assignment with some constants bound to other values.\<close>

definition bind_env :: "smt_env \<Rightarrow> ((string \<times> smt_sort) \<times> sval) list \<Rightarrow> smt_env" where
  "bind_env E bs = E\<lparr>env_const := (\<lambda>n s. case map_of bs (n, s) of Some v \<Rightarrow> v | None \<Rightarrow> env_const E n s)\<rparr>"

locale z3_subst_backend = z3_backend ctx tsort den
  for ctx :: "'t z3_api" and tsort :: "'t \<Rightarrow> smt_sort" and den :: "smt_env \<Rightarrow> 't \<Rightarrow> sval" +
  fixes substitute :: "'t z3_subst"
  assumes simplify_const: "z3_constant ctx n s = Inr c \<Longrightarrow> z3_simplify ctx c = c"
    and substitute: "list_all2 (\<lambda>k c. z3_constant ctx (fst k) (snd k) = Inr c) ks src \<Longrightarrow> distinct ks \<Longrightarrow>
      map tsort dst = map snd ks \<Longrightarrow> \<exists>t'. substitute src dst t = Inr t' \<and> tsort t' = tsort t \<and>
        (\<forall>E. env_ok E \<longrightarrow> den E t' = den (bind_env E (zip ks (map (den E) dst))) t)"

section \<open>Computed states\<close>

text \<open>The interpretations of the steps: inputs are read at the step, the variables \<open>vs\<close> have the
  values of their next-state expressions in the previous one.\<close>

definition override :: "interp \<Rightarrow> expr list \<Rightarrow> sval list \<Rightarrow> interp" where
  "override I vs xs = I\<lparr>ivar := (\<lambda>e. case map_of (zip vs xs) e of Some v \<Rightarrow> v | None \<Rightarrow> ivar I e)\<rparr>"

fun computed :: "(nat \<Rightarrow> interp) \<Rightarrow> expr list \<Rightarrow> (nat \<Rightarrow> expr list) \<Rightarrow> nat \<Rightarrow> interp" where
  "computed B vs nx 0 = B 0"
| "computed B vs nx (Suc i) = override (B (Suc i)) vs (map (eval (computed B vs nx i)) (nx i))"

text \<open>Expressions whose symbols are not confused with the variables by their names.\<close>

definition separated :: "heap \<Rightarrow> expr set \<Rightarrow> expr \<Rightarrow> bool" where
  "separated h V e =
     (\<forall>x \<in> set (symbols_of e). \<forall>v \<in> V. case x of
        Inl y \<Rightarrow> z3_vname h [] y = z3_vname h [] v \<longrightarrow> y = v
      | Inr f \<Rightarrow> func_args f = [] \<longrightarrow> z3_cname [] f \<noteq> z3_vname h [] v)"

lemma vname_suffix:
  "s \<noteq> [] \<Longrightarrow> z3_vname h s x = z3_vname h s y \<longleftrightarrow> z3_vname h [] x = z3_vname h [] y"
  "s \<noteq> [] \<Longrightarrow> z3_cname s f = z3_vname h s y \<longleftrightarrow> z3_cname [] f = z3_vname h [] y"
  by (simp_all add: z3_vname_def z3_cname_def format_name_def Let_def)

lemma suffix_nonempty [simp]: "SuffCurr u t \<noteq> []"
  by (simp add: SuffCurr_def)

definition keys :: "heap \<Rightarrow> string \<Rightarrow> expr list \<Rightarrow> (string \<times> smt_sort) list" where
  "keys h s vs = map (\<lambda>v. (z3_vname h s v, smt_sort_of (esort v))) vs"

lemma map_of_keys:
  assumes "inj_on (z3_vname h s) (set vs)" "length xs = length vs" "v \<in> set vs" "distinct vs"
  shows "map_of (zip (keys h s vs) xs) (z3_vname h s v, smt_sort_of (esort v)) = map_of (zip vs xs) v"
  using assms
proof (induction vs arbitrary: xs)
  case (Cons w vs)
  then obtain x ys where "xs = x # ys" by (cases xs) auto
  with Cons show ?case by (auto simp: keys_def inj_on_def)
qed simp

lemma map_of_zip_None: "length xs = length ks \<Longrightarrow> k \<notin> set ks \<Longrightarrow> map_of (zip ks xs) k = None"
  by (metis map_fst_zip map_of_eq_None_iff set_map)

text \<open>Binding the names of the variables is overriding the variables.\<close>

lemma bind_eval:
  assumes sep: "separated h (set vs) e" and vs: "\<forall>v \<in> set vs. ekind v = KVar" "distinct vs" "inj_on (z3_vname h []) (set vs)"
    and s: "s \<noteq> []" and xs: "length xs = length vs"
  shows "eval (z3_interp h s (bind_env E (zip (keys h s vs) xs))) e = eval (override (z3_interp h s E) vs xs) e"
  using sep
proof (induction e)
  case (Expr i n srt q ps as k)
  let ?e = "Expr i n srt q ps as k"
  let ?L = "z3_interp h s (bind_env E (zip (keys h s vs) xs))" and ?R = "override (z3_interp h s E) vs xs"
  have inj: "inj_on (z3_vname h s) (set vs)" using vs(3) s by (auto simp: inj_on_def vname_suffix)
  have dom: "map_of (zip (keys h s vs) xs) (m, z) = None" if "\<forall>v \<in> set vs. m \<noteq> z3_vname h s v" for m z
    using that xs by (intro map_of_zip_None) (auto simp: keys_def)
  have "separated h (set vs) a" if "a \<in> set as" for a using Expr.prems that by (auto simp: separated_def)
  then have args: "map (eval ?L) as = map (eval ?R) as" using Expr.IH by auto
  show ?case
  proof (cases k)
    case KVar
    show ?thesis
    proof (cases "?e \<in> set vs")
      case True
      then show ?thesis
        using KVar map_of_keys [OF inj xs True vs(2)] xs
        by (cases "map_of (zip vs xs) ?e") (simp_all add: z3_interp_def smt_interp_def bind_env_def override_def)
    next
      case False
      then have "\<forall>v \<in> set vs. z3_vname h s ?e \<noteq> z3_vname h s v"
        using Expr.prems KVar s by (auto simp: separated_def vname_suffix)
      moreover have "map_of (zip vs xs) ?e = None"
        using False xs by (simp add: map_of_zip_None)
      ultimately show ?thesis
        using KVar dom by (simp add: z3_interp_def smt_interp_def bind_env_def override_def)
    qed
  next
    case (KApp f)
    have "func_args f = [] \<Longrightarrow> \<forall>v \<in> set vs. z3_cname s f \<noteq> z3_vname h s v"
      using Expr.prems KApp s by (auto simp: separated_def vname_suffix)
    then have "ifun ?L f = ifun ?R f"
      using dom by (auto simp: fun_eq_iff z3_interp_def smt_interp_def bind_env_def override_def)
    then show ?thesis using KApp args by (simp del: map_eq_conv)
  qed (use args in \<open>simp_all del: map_eq_conv\<close>)
qed

lemma eval_var: "ekind v = KVar \<Longrightarrow> eval I v = ivar I v"
  by (cases v) simp

text \<open>Overriding with the values that the variables already have changes nothing.\<close>

lemma override_same:
  assumes "\<forall>v \<in> set vs. ekind v = KVar" "\<And>x. x \<notin> set vs \<Longrightarrow> ivar C x = ivar I x" "ifun C = ifun I"
    "xs = map (eval C) vs"
  shows "eval (override I vs xs) e = eval C e"
proof (rule eval_agree)
  show "ifun (override I vs xs) = ifun C" using assms(3) by (simp add: override_def)
  show "\<forall>v \<in> subexprs e. is_var v \<longrightarrow> ivar (override I vs xs) v = ivar C v"
  proof (intro ballI impI)
    fix v assume "is_var v"
    show "ivar (override I vs xs) v = ivar C v"
    proof (cases "v \<in> set vs")
      case True
      then have "eval C v = ivar C v" using assms(1) by (simp add: eval_var)
      then show ?thesis using True assms(4) by (simp add: override_def map_of_zip_map)
    qed (simp add: override_def assms(2,4) map_of_zip_None)
  qed
qed

lemma computed_fields:
  assumes "\<forall>k < i. length (nx k) = length vs"
  shows "x \<notin> set vs \<Longrightarrow> ivar (computed B vs nx i) x = ivar (B i) x" "ifun (computed B vs nx i) = ifun (B i)"
  using assms by (cases i; simp add: override_def map_of_zip_None)+

lemma computed_vars:
  assumes "length (nx i) = length vs" "\<forall>v \<in> set vs. ekind v = KVar" "distinct vs"
  shows "map (eval (computed B vs nx (Suc i))) vs = map (eval (computed B vs nx i)) (nx i)"
proof (rule nth_equalityI)
  fix j assume "j < length (map (eval (computed B vs nx (Suc i))) vs)"
  then have j: "j < length vs" by simp
  have "eval (override I vs xs) (vs ! j) = xs ! j" if "length xs = length vs" for I xs
  proof -
    have "map_of (zip vs xs) (vs ! j) = Some (xs ! j)" using j that assms(3) by (simp add: map_of_zip_nth)
    then show ?thesis using j assms(2) by (simp add: eval_var) (simp add: override_def)
  qed
  then show "map (eval (computed B vs nx (Suc i))) vs ! j = map (eval (computed B vs nx i)) (nx i) ! j"
    using j assms(1) by simp
qed (use assms in simp)

lemma override_ok:
  assumes "interp_ok I" "list_all2 (\<lambda>v x. val_ok (esort v) x) vs xs"
  shows "interp_ok (override I vs xs)"
proof -
  have "map_of (zip vs xs) e = Some x \<Longrightarrow> val_ok (esort e) x" for e x
    using assms(2) by (induction rule: list_all2_induct) (auto split: if_splits)
  then show ?thesis using assms(1) by (auto simp: interp_ok_def override_def split: option.splits)
qed

definition subs_vars :: "heap \<Rightarrow> expr list \<Rightarrow> bool" where
  "subs_vars h vs =
     ((\<forall>v \<in> set vs. encodable h v \<and> ekind v = KVar) \<and> distinct vs \<and> inj_on (z3_vname h []) (set vs))"

text \<open>An interpretation for every assignment that differs from that of the step only on the variables.\<close>

definition framed :: "heap \<Rightarrow> string \<Rightarrow> expr list \<Rightarrow> (smt_env \<Rightarrow> interp) \<Rightarrow> bool" where
  "framed h s vs C = (\<forall>E. env_ok E \<longrightarrow> interp_ok (C E) \<and>
     (\<forall>x. x \<notin> set vs \<longrightarrow> ivar (C E) x = ivar (z3_interp h s E) x) \<and> ifun (C E) = ifun (z3_interp h s E))"

lemma bind_env_ok:
  assumes "env_ok E" "list_all2 (\<lambda>v x. val_ok (esort v) x) vs xs"
  shows "env_ok (bind_env E (zip (keys h s vs) xs))"
proof -
  have "map_of (zip (keys h s vs) xs) (n, smt_sort_of z) = Some x \<Longrightarrow> val_ok z x" for n z x
    using assms(2) by (induction rule: list_all2_induct) (auto simp: keys_def split: if_splits)
  then show ?thesis using assms(1) by (auto simp: env_ok_def bind_env_def split: option.splits)
qed

context z3_backend
begin

lemma stands_for_says:
  assumes "list_all2 (stands_for tsort den C) es ts" "\<forall>e \<in> set es. bool_pred encodable h e"
    "\<And>E. env_ok E \<Longrightarrow> interp_ok (C E)"
  shows "z3_gen.says ts (\<lambda>E. \<forall>e \<in> set es. holds (C E) e)"
  using assms(1,2)
proof (induction rule: list_all2_induct)
  case Nil
  then show ?case by (simp add: z3_gen.says_def)
next
  case (Cons e es t ts)
  have "\<exists>b. eval (C E) e = VBool b" if "env_ok E" for E
    using Cons.prems wf_bool_val [OF _ assms(3) [OF that]] by (auto simp: bool_pred_def encodable_def)
  then have "z3_gen.says [t] (\<lambda>E. holds (C E) e)"
    using Cons by (auto simp: z3_gen.says_def stands_for_def holds_def bool_pred_def)
  from z3_gen.says_append [OF this Cons.IH] Cons.prems show ?case by simp
qed

lemma var_term:
  assumes "heap_inv h" "encodable h v" "ekind v = KVar"
  shows "\<exists>c. GetExpr ctx h v s = Inr (z3_simplify ctx c) \<and>
    z3_constant ctx (z3_vname h s v) (smt_sort_of (esort v)) = Inr c"
proof -
  have v: "node_enc h v" "sort_wf (esort v)" "eargs v = []"
    using assms(2,3) wf_node [of v] by (auto simp: encodable_def every_node wf_sort node_wf_def)
  obtain nm where nm: "root_of h (ehost v) = Inr nm"
    using root_of_ok [OF assms(1), of "ehost v"] v(1) assms(3) by (auto simp: node_enc_def)
  obtain c where c: "z3_constant ctx (z3_vname h s v) (smt_sort_of (esort v)) = Inr c"
    using free_const [OF v(2)] by (auto simp: is_term_def)
  have "GetZ3Expr ctx h v [] s = Inr c"
    using c v(1,2) assms(3) nm
    by (simp add: GetZ3Expr_def ExprVar_GetZ3Expr_def sort_constant sort_translated node_enc_def z3_vname_def ok_or_empty_def)
  then have "GetExpr ctx h v s = Inr (z3_simplify ctx c)"
    using v(3) by (cases v) (simp add: GetExpr_def Z3ExprAdapter_call_def PopulateExprMap_def)
  with c show ?thesis by blast
qed

end

context z3_subst_backend
begin

lemma var_terms:
  assumes "heap_inv h" "subs_vars h vs" "IExprToZExpr ctx vs s [] h = Inr (src, h)"
  shows "list_all2 (\<lambda>k c. z3_constant ctx (fst k) (snd k) = Inr c) (keys h s vs) src"
proof -
  have "\<forall>v \<in> set vs. encodable h v \<and> ekind v = KVar" using assms(2) by (simp add: subs_vars_def)
  then have "\<exists>ts. IExprToZExpr ctx vs s dst h = Inr (dst @ ts, h) \<and>
      list_all2 (\<lambda>k c. z3_constant ctx (fst k) (snd k) = Inr c) (keys h s vs) ts" for dst
  proof (induction vs arbitrary: dst)
    case (Cons v vs)
    obtain c where c: "GetExpr ctx h v s = Inr c" "z3_constant ctx (z3_vname h s v) (smt_sort_of (esort v)) = Inr c"
      using var_term [OF assms(1), of v s] Cons.prems simplify_const by auto
    obtain ts where "IExprToZExpr ctx vs s (dst @ [c]) h = Inr (dst @ c # ts, h)"
      "list_all2 (\<lambda>k c. z3_constant ctx (fst k) (snd k) = Inr c) (keys h s vs) ts"
      using Cons.IH [of "dst @ [c]"] Cons.prems by auto
    then show ?case using c by (intro exI [of _ "c # ts"]) (simp add: IExprToZExpr_def gen_GetExpr_def keys_def)
  qed (simp add: IExprToZExpr_def keys_def)
  from this [of "[]"] assms(3) show ?thesis by auto
qed

lemma subst_expr:
  assumes h: "heap_inv h" and vs: "subs_vars h vs" and e: "encodable h e" "separated h (set vs) e" and s: "s \<noteq> []"
    and src: "list_all2 (\<lambda>k c. z3_constant ctx (fst k) (snd k) = Inr c) (keys h s vs) src"
    and zs: "list_all2 (stands_for tsort den C) vs zs" and C: "framed h s vs C"
  shows "\<exists>z z'. GetExpr ctx h e s = Inr z \<and> substitute src zs z = Inr z' \<and> stands_for tsort den C e z'"
proof -
  obtain z where z: "GetExpr ctx h e s = Inr z" "denotes h s e z" using GetExpr_denotes [OF h e(1)] by blast
  have v: "\<forall>v \<in> set vs. encodable h v" "\<forall>v \<in> set vs. ekind v = KVar" "distinct vs" "inj_on (z3_vname h []) (set vs)"
    using vs by (auto simp: subs_vars_def)
  have dist: "distinct (keys h s vs)"
    using v(3,4) s by (auto simp: keys_def distinct_map inj_on_def vname_suffix)
  have sorts: "map tsort zs = map snd (keys h s vs)"
    using zs by (auto simp: keys_def list_all2_conv_all_nth stands_for_def intro: nth_equalityI)
  obtain z' where z': "substitute src zs z = Inr z'" "tsort z' = tsort z"
    "\<forall>E. env_ok E \<longrightarrow> den E z' = den (bind_env E (zip (keys h s vs) (map (den E) zs))) z"
    using substitute [OF src dist sorts] by blast
  have "den E z' = eval (C E) e" if E: "env_ok E" for E
  proof -
    have vals: "map (den E) zs = map (eval (C E)) vs"
      using zs E by (auto simp: list_all2_conv_all_nth stands_for_def intro: nth_equalityI)
    have ok: "interp_ok (C E)" using C E by (simp add: framed_def)
    have "list_all2 (\<lambda>v x. val_ok (esort v) x) vs (map (den E) zs)"
      unfolding vals using v(1) eval_val_ok [OF _ ok] by (auto simp: list_all2_map2 list_all2_same encodable_def)
    from bind_env_ok [OF E this, of h s] z'(3) z(2) E
    have "den E z' = eval (z3_interp h s (bind_env E (zip (keys h s vs) (map (den E) zs)))) e"
      by (simp add: denotes_def stands_for_def)
    also have "\<dots> = eval (override (z3_interp h s E) vs (map (den E) zs)) e"
      using bind_eval [OF e(2) v(2,3,4) s] zs by (simp add: list_all2_lengthD)
    also have "\<dots> = eval (C E) e"
      using override_same [OF v(2) _ _ vals] C E by (auto simp: framed_def)
    finally show ?thesis .
  qed
  with z z' show ?thesis by (auto simp: stands_for_def denotes_def)
qed

lemma subs_list:
  assumes "heap_inv h" "subs_vars h vs" "s \<noteq> []"
    "list_all2 (\<lambda>k c. z3_constant ctx (fst k) (snd k) = Inr c) (keys h s vs) src"
    "list_all2 (stands_for tsort den C) vs zs" "framed h s vs C"
  shows "\<forall>e \<in> set es. encodable h e \<and> separated h (set vs) e \<Longrightarrow>
    \<exists>ts. IExprToZExpr_subs ctx substitute es s src zs dst h = Inr (dst @ ts, h) \<and> list_all2 (stands_for tsort den C) es ts"
proof (induction es arbitrary: dst)
  case Nil
  then show ?case by (simp add: IExprToZExpr_subs_def)
next
  case (Cons e es)
  obtain z z' where z: "GetExpr ctx h e s = Inr z" "substitute src zs z = Inr z'" "stands_for tsort den C e z'"
    using subst_expr [OF assms(1,2) _ _ assms(3-6), of e] Cons.prems by auto
  obtain ts where "IExprToZExpr_subs ctx substitute es s src zs (dst @ [z']) h = Inr (dst @ z' # ts, h)"
    "list_all2 (stands_for tsort den C) es ts" using Cons.IH [of "dst @ [z']"] Cons.prems by auto
  with z show ?case
    by (intro exI [of _ "z' # ts"]) (simp add: IExprToZExpr_subs_def gen_GetExpr_def)
qed

lemma subs_preds:
  assumes "heap_inv h" "subs_vars h vs" "s \<noteq> []"
    "list_all2 (\<lambda>k c. z3_constant ctx (fst k) (snd k) = Inr c) (keys h s vs) src"
    "list_all2 (stands_for tsort den C) vs zs" "framed h s vs C"
    "\<forall>e \<in> set es. bool_pred encodable h e \<and> separated h (set vs) e" "z3_gen.says dst P"
  shows "\<exists>ts. IExprToZExpr_subs ctx substitute es s src zs dst h = Inr (ts, h) \<and>
    z3_gen.says ts (\<lambda>E. P E \<and> (\<forall>e \<in> set es. holds (C E) e))"
proof -
  have "\<forall>e \<in> set es. encodable h e \<and> separated h (set vs) e" using assms(7) by (simp add: bool_pred_def)
  from subs_list [OF assms(1-6) this, of dst] obtain ts where
    ts: "IExprToZExpr_subs ctx substitute es s src zs dst h = Inr (dst @ ts, h)" "list_all2 (stands_for tsort den C) es ts"
    by blast
  have "z3_gen.says ts (\<lambda>E. \<forall>e \<in> set es. holds (C E) e)"
    using stands_for_says [OF ts(2), of h] assms(6,7) by (simp add: framed_def)
  from z3_gen.says_append [OF assms(8) this] ts(1) show ?thesis by blast
qed

lemma subs_preds4:
  assumes b: "heap_inv h" "subs_vars h vs" "s \<noteq> []"
    "list_all2 (\<lambda>k c. z3_constant ctx (fst k) (snd k) = Inr c) (keys h s vs) src"
    "list_all2 (stands_for tsort den C) vs zs" "framed h s vs C"
    and e: "\<forall>e \<in> set as. bool_pred encodable h e \<and> separated h (set vs) e"
      "\<forall>e \<in> set bs. bool_pred encodable h e \<and> separated h (set vs) e"
      "\<forall>e \<in> set cs. bool_pred encodable h e \<and> separated h (set vs) e"
      "\<forall>e \<in> set ds. bool_pred encodable h e \<and> separated h (set vs) e" and P: "z3_gen.says ts P"
  shows "\<exists>t1 t2 t3 t4.
    (if c then IExprToZExpr_subs ctx substitute as s src zs ts else ret ts) h = Inr (t1, h) \<and>
    IExprToZExpr_subs ctx substitute bs s src zs t1 h = Inr (t2, h) \<and>
    IExprToZExpr_subs ctx substitute cs s src zs t2 h = Inr (t3, h) \<and>
    IExprToZExpr_subs ctx substitute ds s src zs t3 h = Inr (t4, h) \<and>
    z3_gen.says t4 (\<lambda>E. P E \<and> (c \<longrightarrow> (\<forall>e \<in> set as. holds (C E) e)) \<and>
      (\<forall>e \<in> set bs \<union> set cs \<union> set ds. holds (C E) e))"
proof -
  let ?H = "\<lambda>es E. \<forall>e \<in> set es. holds (C E) e" and ?conv = "\<lambda>es. IExprToZExpr_subs ctx substitute es s src zs"
  obtain t1 where 1: "(if c then ?conv as ts else ret ts) h = Inr (t1, h)"
    "z3_gen.says t1 (\<lambda>E. P E \<and> (c \<longrightarrow> ?H as E))"
    using subs_preds [OF b e(1) P] P by (cases c) auto
  obtain t2 where 2: "?conv bs t1 h = Inr (t2, h)" "z3_gen.says t2 (\<lambda>E. (P E \<and> (c \<longrightarrow> ?H as E)) \<and> ?H bs E)"
    using subs_preds [OF b e(2) 1(2)] by blast
  obtain t3 where 3: "?conv cs t2 h = Inr (t3, h)"
    "z3_gen.says t3 (\<lambda>E. ((P E \<and> (c \<longrightarrow> ?H as E)) \<and> ?H bs E) \<and> ?H cs E)"
    using subs_preds [OF b e(3) 2(2)] by blast
  obtain t4 where 4: "?conv ds t3 h = Inr (t4, h)"
    "z3_gen.says t4 (\<lambda>E. (((P E \<and> (c \<longrightarrow> ?H as E)) \<and> ?H bs E) \<and> ?H cs E) \<and> ?H ds E)"
    using subs_preds [OF b e(4) 3(2)] by blast
  have "z3_gen.says t4 (\<lambda>E. P E \<and> (c \<longrightarrow> ?H as E) \<and> (\<forall>e \<in> set bs \<union> set cs \<union> set ds. holds (C E) e))"
    by (rule z3_gen.says_cong [OF 4(2)]) auto
  with 1(1) 2(1) 3(1) 4(1) show ?thesis by blast
qed

end

text \<open>Unrollings that can be substituted: no symbol is taken for a variable.\<close>

definition subs_ok :: "heap \<Rightarrow> nat \<Rightarrow> expr list \<Rightarrow> (nat \<Rightarrow> expr list) \<Rightarrow> (nat \<Rightarrow> expr list) \<Rightarrow> 't Unroller \<Rightarrow> bool" where
  "subs_ok h len vs pr nx u =
     (subs_vars h vs \<and>
      (\<forall>e \<in> set (g_pred u) \<union> set (i_pred u). separated h (set vs) e) \<and> (\<forall>k. \<forall>e \<in> set (s_pred_at u k). separated h (set vs) e) \<and>
      (\<forall>i < len. \<forall>e \<in> set (pr i) \<union> set (nx i). separated h (set vs) e))"

text \<open>The interpretations of the steps under an assignment.\<close>

definition step_base :: "heap \<Rightarrow> 't Unroller \<Rightarrow> int \<Rightarrow> smt_env \<Rightarrow> nat \<Rightarrow> interp" where
  "step_base h u pos E i = z3_interp h (SuffCurr u (c_int (pos + int i))) E"

lemma computed_framed:
  assumes len: "\<And>k. k < i \<Longrightarrow> list_all2 (\<lambda>e v. encodable h e \<and> esort e = esort v) (nx k) vs"
  shows "framed h (SuffCurr u (c_int (pos + int i))) vs (\<lambda>E. computed (step_base h u pos E) vs nx i)"
proof -
  have l: "\<forall>k < i. length (nx k) = length vs" using len by (auto dest: list_all2_lengthD)
  have base: "env_ok E \<Longrightarrow> interp_ok (step_base h u pos E k)" for E k
    by (simp add: step_base_def z3_interp_def smt_interp_ok)
  have "interp_ok (computed (step_base h u pos E) vs nx i)" if "env_ok E" for E
    using len
  proof (induction i)
    case (Suc i)
    let ?C = "computed (step_base h u pos E) vs nx i"
    have C: "interp_ok ?C" using Suc by simp
    have "list_all2 (\<lambda>v x. val_ok (esort v) x) vs (map (eval ?C) (nx i))"
      using Suc.prems [of i] eval_val_ok [OF _ C] by (simp add: list_all2_conv_all_nth encodable_def) metis
    from override_ok [OF base [OF that] this] show ?case by simp
  qed (simp add: base that)
  then show ?thesis
    using computed_fields [OF l] by (simp add: framed_def step_base_def)
qed

context z3_subst_backend
begin

definition subs_inv :: "heap \<Rightarrow> expr list \<Rightarrow> (expr list \<Rightarrow> expr list \<Rightarrow> bool) \<Rightarrow> (nat \<Rightarrow> expr list) \<Rightarrow> (nat \<Rightarrow> expr list) \<Rightarrow>
    't Unroller \<Rightarrow> int \<Rightarrow> nat \<Rightarrow> 't Unroller \<Rightarrow> bool" where
  "subs_inv h vs J pr nx u0 pos i u =
     (extends h vs J u0 (\<lambda>E. \<forall>k < i. source_holds u0 pr k (computed (step_base h u0 pos E) vs nx k)) u \<and>
      list_all2 (stands_for tsort den (\<lambda>E. computed (step_base h u0 pos E) vs nx i)) vs (k_prev_z3 u))"

lemma next_stands:
  assumes "list_all2 (stands_for tsort den (\<lambda>E. computed (B E) vs nx i)) (nx i) nxt" "subs_vars h vs"
    "list_all2 (\<lambda>e v. encodable h e \<and> esort e = esort v) (nx i) vs"
  shows "list_all2 (stands_for tsort den (\<lambda>E. computed (B E) vs nx (Suc i))) vs nxt"
proof -
  have l: "length (nx i) = length vs" "length nxt = length vs" using list_all2_lengthD [OF assms(3)] list_all2_lengthD [OF assms(1)] by simp_all
  have v: "\<forall>v \<in> set vs. ekind v = KVar" "distinct vs" using assms(2) by (auto simp: subs_vars_def)
  have "eval (computed (B E) vs nx (Suc i)) (vs ! j) = eval (computed (B E) vs nx i) (nx i ! j)" if "j < length vs" for E j
    using arg_cong [OF computed_vars [of nx i vs "B E", OF l(1) v], of "\<lambda>xs. xs ! j"] that l(1)
    by (simp del: computed.simps)
  moreover have "stands_for tsort den (\<lambda>E. computed (B E) vs nx i) (nx i ! j) (nxt ! j)" "esort (nx i ! j) = esort (vs ! j)"
    if "j < length vs" for j
    using list_all2_nthD [OF assms(1)] list_all2_nthD [OF assms(3)] that l by simp_all
  ultimately have "stands_for tsort den (\<lambda>E. computed (B E) vs nx (Suc i)) (vs ! j) (nxt ! j)" if "j < length vs" for j
    using that unfolding stands_for_def by (simp del: computed.simps)
  then show ?thesis using l by (simp add: list_all2_conv_all_nth del: computed.simps)
qed

lemma subs_step:
  assumes tr: "transits h len vs J Transition pr nx" and i: "i < len" and enc: "preds_enc h u0"
    and ok: "subs_ok h len vs pr nx u0" and inv: "subs_inv h vs J pr nx u0 pos i u"
  shows "\<exists>u'. Subs_step ctx substitute Transition pos i u h = Inr (u', h) \<and> subs_inv h vs J pr nx u0 pos (Suc i) u'"
proof -
  let ?s = "SuffCurr u0 (c_int (pos + int i))" and ?C = "\<lambda>E. computed (step_base h u0 pos E) vs nx i"
  let ?P = "\<lambda>E. \<forall>k < i. source_holds u0 pr k (computed (step_base h u0 pos E) vs nx k)"
  have ext: "extends h vs J u0 ?P u" and zs: "list_all2 (stands_for tsort den ?C) vs (k_prev_z3 u)"
    using inv by (simp_all add: subs_inv_def)
  note t = transition_run [OF tr i ext]
  note d = same_specD [OF t(3)] same_specD [OF t(4)]
  have h: "heap_inv h" "\<forall>v \<in> set vs. encodable h v"
    and nx: "\<And>k. k < len \<Longrightarrow> list_all2 (\<lambda>e v. encodable h e \<and> esort e = esort v) (nx k) vs"
    and pr: "\<forall>p \<in> set (pr i). bool_pred encodable h p"
    using tr i by (auto simp: transits_def)
  have vs: "subs_vars h vs" using ok by (simp add: subs_ok_def)
  have C: "framed h ?s vs ?C" using i nx by (intro computed_framed) auto
  obtain src where src: "IExprToZExpr ctx vs ?s [] h = Inr (src, h)"
    using iexpr_run [OF h, of ?s "[]"] by auto
  note b = h(1) vs suffix_nonempty var_terms [OF h(1) vs src] zs C
  let ?conv = "\<lambda>es. IExprToZExpr_subs ctx substitute es ?s src (k_prev_z3 u)"
  have pe: "\<forall>e \<in> set (i_pred u0). bool_pred encodable h e \<and> separated h (set vs) e"
    "\<forall>e \<in> set (g_pred u0). bool_pred encodable h e \<and> separated h (set vs) e"
    "\<forall>e \<in> set (pr i). bool_pred encodable h e \<and> separated h (set vs) e"
    "\<forall>e \<in> set (s_pred_at u0 (c_int (int i))). bool_pred encodable h e \<and> separated h (set vs) e"
    using enc ok pr i by (auto simp: preds_enc_def subs_ok_def)
  have says: "z3_gen.says (cstr u) ?P" using ext by (simp add: extends_def)
  obtain t1 t2 t3 t4 where c: "(if i = 0 then ?conv (i_pred u0) (cstr u) else ret (cstr u)) h = Inr (t1, h)"
    "?conv (g_pred u0) t1 h = Inr (t2, h)" "?conv (pr i) t2 h = Inr (t3, h)"
    "?conv (s_pred_at u0 (c_int (int i))) t3 h = Inr (t4, h)"
    and says4: "z3_gen.says t4 (\<lambda>E. ?P E \<and> (i = 0 \<longrightarrow> (\<forall>e \<in> set (i_pred u0). holds (?C E) e)) \<and>
      (\<forall>e \<in> set (g_pred u0) \<union> set (pr i) \<union> set (s_pred_at u0 (c_int (int i))). holds (?C E) e))"
    using subs_preds4 [OF b pe says, of "i = 0"] by blast
  have "\<forall>e \<in> set (nx i). encodable h e \<and> separated h (set vs) e"
    using nx [OF i] ok i by (auto simp: subs_ok_def list_all2_conv_all_nth in_set_conv_nth)
  then obtain nxt where n: "?conv (nx i) [] h = Inr (nxt, h)" "list_all2 (stands_for tsort den ?C) (nx i) nxt"
    using subs_list [OF b, of "nx i" "[]"] by auto
  let ?u = "u\<lparr>k_next := nx i, k_pred := pr i, k_curr_z3 := src, cstr := t4, k_next_z3 := nxt, k_prev_z3 := nxt\<rparr>"
  have run: "Subs_step ctx substitute Transition pos i u h = Inr (?u, h)"
    using c n(1) src t(1,5) d
    by (cases "i = 0") (simp_all add: Subs_step_def Let_def monad_simps)
  have "z3_gen.says t4 (\<lambda>E. \<forall>k < Suc i. source_holds u0 pr k (computed (step_base h u0 pos E) vs nx k))"
    by (rule z3_gen.says_cong [OF says4]) (auto simp: source_holds_def preds_hold_def less_Suc_eq)
  then have "subs_inv h vs J pr nx u0 pos (Suc i) ?u"
    using next_stands [OF n(2) vs nx [OF i]] t(2,4,5)
    by (auto simp: subs_inv_def extends_def same_spec_def simp del: computed.simps)
  with run show ?thesis by blast
qed

lemma subs_loop:
  assumes "transits h len vs J Transition pr nx" "preds_enc h u0" "subs_ok h len vs pr nx u0"
    and "subs_inv h vs J pr nx u0 pos 0 u"
  shows "k \<le> len \<Longrightarrow> \<exists>u'. foldM (Subs_step ctx substitute Transition pos) [0 ..< k] u h = Inr (u', h) \<and>
    subs_inv h vs J pr nx u0 pos k u'"
proof (induction k)
  case 0
  then show ?case using assms(4) by (simp add: monad_simps)
next
  case (Suc k)
  then obtain u1 where u1: "foldM (Subs_step ctx substitute Transition pos) [0 ..< k] u h = Inr (u1, h)"
    "subs_inv h vs J pr nx u0 pos k u1" by auto
  obtain u2 where "Subs_step ctx substitute Transition pos k u1 h = Inr (u2, h)" "subs_inv h vs J pr nx u0 pos (Suc k) u2"
    using subs_step [OF assms(1) _ assms(2,3) u1(2)] Suc.prems by auto
  with u1(1) show ?case by (simp add: foldM_append monad_simps)
qed

text \<open>The last values equal the variables of the end.\<close>

lemma prev_equal:
  assumes "list_all2 (stands_for tsort den C) vs zs"
  shows "list_all2 (\<lambda>a v. tsort a = smt_sort_of (esort v)) zs vs"
    and "env_ok E \<Longrightarrow> list_all2 (\<lambda>a v. den E a = eval J v) zs vs \<longleftrightarrow> (\<forall>v \<in> set vs. eval J v = eval (C E) v)"
  using assms by (induction rule: list_all2_induct) (auto simp: stands_for_def)

lemma subs_start:
  assumes h: "heap_inv h" "\<forall>v \<in> set vs. encodable h v" and vs: "vs \<noteq> []"
    and dep: "Dep (u\<lparr>vars := [], k_pred := [], k_next := []\<rparr>) h = Inr (u\<lparr>vars := vs, k_pred := [], k_next := []\<rparr>, h)"
    and J: "J [] []" and pos: "c_int pos = pos"
  shows "\<exists>u1. BootStrap ctx Dep pos False u h = Inr (u1, h) \<and> subs_inv h vs J pr nx (u\<lparr>vars := vs\<rparr>) pos 0 u1"
proof -
  obtain zs where b: "BootStrap ctx Dep pos False u h = Inr (u\<lparr>vars := vs, k_pred := [], k_next := [],
      k_prev_z3 := zs, k_curr_z3 := [], k_next_z3 := [], cstr := []\<rparr>, h)" (is "_ = Inr (?u1, h)")
    "list_all2 (z3_gen.stands h (SuffCurr u pos)) vs zs"
    using bootstrap [where Dep = Dep and u = u, OF h vs dep] by blast
  have "list_all2 (stands_for tsort den (\<lambda>E. computed (step_base h (u\<lparr>vars := vs\<rparr>) pos E) vs nx 0)) vs zs"
    using b(2) pos by (simp add: step_base_def spec_vars stands_for_def [abs_def] z3_gen.stands_def [abs_def])
  moreover have "extends h vs J (u\<lparr>vars := vs\<rparr>) (\<lambda>E. True) ?u1" by (rule boot_extends) (rule J)
  ultimately have "subs_inv h vs J pr nx (u\<lparr>vars := vs\<rparr>) pos 0 ?u1" by (simp add: subs_inv_def)
  with b(1) show ?thesis by blast
qed

lemma unroll_subs:
  assumes tr: "transits h len vs J Transition pr nx" and pe: "preds_enc h u" and J: "J [] []" and vs: "vs \<noteq> []"
    and dep: "Dep (u\<lparr>vars := [], k_pred := [], k_next := []\<rparr>) h = Inr (u\<lparr>vars := vs, k_pred := [], k_next := []\<rparr>, h)"
    and ok: "subs_ok h len vs pr nx u" and pos: "c_int pos = pos"
  shows "\<exists>t u'. UnrollSubs ctx substitute Dep Transition len pos u h = Inr ((t, u'), h) \<and> tsort t = SBool \<and>
    (\<forall>E. env_ok E \<longrightarrow> den E t = VBool
      ((\<forall>i < len. source_holds u pr i (computed (step_base h u pos E) vs nx i)) \<and>
       (\<forall>v \<in> set vs. eval (z3_interp h (SuffCurr u (c_int (int len))) E) v = eval (computed (step_base h u pos E) vs nx len) v) \<and>
       preds_hold u len (z3_interp h (SuffCurr u (c_int (int len))) E)))"
proof -
  have h: "heap_inv h" "\<forall>v \<in> set vs. encodable h v" using tr by (auto simp: transits_def)
  let ?u0 = "u\<lparr>vars := vs\<rparr>" and ?s = "SuffCurr u (c_int (int len))" and ?C = "\<lambda>i E. computed (step_base h u pos E) vs nx i"
  have base: "step_base h ?u0 pos = step_base h u pos" by (simp add: fun_eq_iff step_base_def spec_vars)
  have sok: "subs_ok h len vs pr nx ?u0" using ok by (simp add: subs_ok_def s_pred_at_def)
  have pe0: "preds_enc h ?u0" using pe by (simp add: spec_vars)
  obtain u1 where b: "BootStrap ctx Dep pos False u h = Inr (u1, h)" "subs_inv h vs J pr nx ?u0 pos 0 u1"
    using subs_start [where Dep = Dep and u = u and J = J, OF h vs dep J pos] by blast
  from subs_loop [OF tr pe0 sok b(2) order_refl] obtain u2 where
    u2: "foldM (Subs_step ctx substitute Transition pos) [0 ..< len] u1 h = Inr (u2, h)" "subs_inv h vs J pr nx ?u0 pos len u2"
    by blast
  have inv: "same_spec ?u0 u2" "z3_gen.says (cstr u2) (\<lambda>E. \<forall>i < len. source_holds u pr i (?C i E))"
    "list_all2 (stands_for tsort den (?C len)) vs (k_prev_z3 u2)"
    using u2(2) by (simp_all add: subs_inv_def extends_def base spec_vars)
  note d = same_specD [OF inv(1)]
  obtain cs where cs: "AssertEqual ctx (k_prev_z3 u2) vs ?s (cstr u2) h = Inr (cs, h)"
    "z3_gen.says cs (\<lambda>E. (\<forall>i < len. source_holds u pr i (?C i E)) \<and>
       list_all2 (\<lambda>a v. den E a = eval (z3_interp h ?s E) v) (k_prev_z3 u2) vs)"
    using assert_equal [OF h prev_equal(1) [OF inv(3)] inv(2)] by blast
  have cs': "z3_gen.says (cstr (u2\<lparr>cstr := cs\<rparr>)) (\<lambda>E. (\<forall>i < len. source_holds u pr i (?C i E)) \<and>
      (\<forall>v \<in> set vs. eval (z3_interp h ?s E) v = eval (?C len E) v))"
    using z3_gen.says_cong [OF cs(2)] prev_equal(2) [OF inv(3)] by simp
  have "same_spec ?u0 (u2\<lparr>cstr := cs\<rparr>)" using inv(1) by (simp add: same_spec_def)
  note d' = same_specD [OF this]
  have "preds_enc h (u2\<lparr>cstr := cs\<rparr>)" using pe0 d' by simp
  from end_run [OF h(1) this cs', of len] obtain u3 where u3: "end_preds ctx len (u2\<lparr>cstr := cs\<rparr>) h = Inr (u3, h)"
    "z3_gen.says (cstr u3) (\<lambda>E. ((\<forall>i < len. source_holds u pr i (?C i E)) \<and>
       (\<forall>v \<in> set vs. eval (z3_interp h ?s E) v = eval (?C len E) v)) \<and> preds_hold u len (z3_interp h ?s E))"
    using d' by (auto simp: spec_vars)
  from conj_pred [OF u3(2), of h] b(1) u2(1) cs(1) u3(1) d show ?thesis
    by (auto simp: UnrollSubs_def monad_simps spec_vars)
qed

end

section \<open>Paths\<close>

text \<open>A run from given interpretations of the steps: the first state is read at the first step, later
  ones are updated, and everything that is not a variable of the path is read at its step.\<close>

definition run_of :: "'t Unroller \<Rightarrow> Instr list \<Rightarrow> expr set \<Rightarrow> (nat \<Rightarrow> interp) \<Rightarrow> (nat \<Rightarrow> interp) \<Rightarrow> bool" where
  "run_of u xs V B tr =
     (tr 0 = B 0 \<and> (\<forall>i < length xs. path_step u xs V i (tr i) (tr (Suc i)) \<and>
        (\<forall>x. x \<notin> V \<longrightarrow> ivar (tr (Suc i)) x = ivar (B (Suc i)) x) \<and> ifun (tr (Suc i)) = ifun (B (Suc i))))"

definition path_sep :: "heap \<Rightarrow> nat list \<Rightarrow> 't Unroller \<Rightarrow> bool" where
  "path_sep h iseq u =
     (let V = seq_states h iseq in
      (\<forall>v \<in> V. ekind v = KVar) \<and> inj_on (z3_vname h []) V \<and>
      (\<forall>e \<in> set (g_pred u) \<union> set (i_pred u). separated h V e) \<and> (\<forall>k. \<forall>e \<in> set (s_pred_at u k). separated h V e) \<and>
      (\<forall>x \<in> set (instr_list h iseq). (\<forall>d. instr_decode x = Some d \<longrightarrow> separated h V d) \<and>
         (\<forall>v \<in> V. \<forall>e. update x (ename v) = Some e \<longrightarrow> separated h V e)))"

lemma computed_next:
  assumes "length (nx i) = length vs" "\<forall>v \<in> set vs. ekind v = KVar" "distinct vs"
  shows "next_holds (nx i) vs (computed B vs nx i) (computed B vs nx (Suc i))"
proof -
  have "eval (computed B vs nx (Suc i)) (vs ! j) = eval (computed B vs nx i) (nx i ! j)" if "j < length vs" for j
    using arg_cong [OF computed_vars [of nx i vs B, OF assms], of "\<lambda>xs. xs ! j"] that assms(1) by (simp del: computed.simps)
  then show ?thesis using assms(1) by (simp add: next_holds_def list_all2_conv_all_nth del: computed.simps)
qed

lemma run_is_computed:
  assumes ok: "path_ok h iseq u" and vs: "set vs = seq_states h iseq" "distinct vs" "\<forall>v \<in> set vs. ekind v = KVar"
    and run: "run_of u (instr_list h iseq) (seq_states h iseq) B tr"
  shows "i \<le> length iseq \<Longrightarrow> tr i = computed B vs (path_nx h iseq vs) i"
proof (induction i)
  case 0
  then show ?case using run by (simp add: run_of_def)
next
  case (Suc i)
  let ?C = "computed B vs (path_nx h iseq vs)" and ?xs = "instr_list h iseq"
  have i: "i < length iseq" and eq: "tr i = ?C i" using Suc by simp_all
  have len: "length (path_nx h iseq vs k) = length vs" for k by (simp add: path_nx_def)
  have st: "path_step u ?xs (seq_states h iseq) i (tr i) (tr (Suc i))"
    and other: "\<And>x. x \<notin> set vs \<Longrightarrow> ivar (tr (Suc i)) x = ivar (B (Suc i)) x" "ifun (tr (Suc i)) = ifun (B (Suc i))"
    using run i vs(1) by (auto simp: run_of_def instr_list_def)
  have n: "next_holds (path_nx h iseq vs i) vs (?C i) (tr (Suc i))"
    using st path_step_iff [OF ok vs(1) i] eq by metis
  have "eval (tr (Suc i)) v = eval (?C (Suc i)) v" if "v \<in> set vs" for v
    using n computed_next [where nx = "path_nx h iseq vs" and i = i and B = B, OF len vs(3,2)] that
    by (auto simp: next_holds_def list_all2_conv_all_nth in_set_conv_nth simp del: computed.simps)
  then have "ivar (tr (Suc i)) x = ivar (?C (Suc i)) x" for x
    using other(1) computed_fields(1) [of "Suc i" "path_nx h iseq vs" vs x B] vs(3) len
    by (cases "x \<in> set vs") (simp_all add: eval_var del: computed.simps)
  moreover have "ifun (tr (Suc i)) = ifun (?C (Suc i))"
    using other(2) computed_fields(2) [of "Suc i" "path_nx h iseq vs" vs B] len by (simp del: computed.simps)
  ultimately show ?case by (intro interp.equality) (auto simp: fun_eq_iff simp del: computed.simps)
qed

lemma computed_run:
  assumes ok: "path_ok h iseq u" and vs: "set vs = seq_states h iseq" "distinct vs" "\<forall>v \<in> set vs. ekind v = KVar"
  shows "(\<exists>tr. run_of u (instr_list h iseq) (seq_states h iseq) B tr \<and> Q (tr (length iseq))) \<longleftrightarrow>
    (\<forall>i < length iseq. source_holds u (path_pr h iseq) i (computed B vs (path_nx h iseq vs) i)) \<and>
    Q (computed B vs (path_nx h iseq vs) (length iseq))" (is "?l \<longleftrightarrow> ?r")
proof -
  let ?C = "computed B vs (path_nx h iseq vs)"
  have len: "length (path_nx h iseq vs k) = length vs" for k by (simp add: path_nx_def)
  have nx: "next_holds (path_nx h iseq vs i) vs (?C i) (?C (Suc i))" for i
    using computed_next [where nx = "path_nx h iseq vs" and i = i and B = B, OF len vs(3,2)] .
  show ?thesis
  proof
    assume ?l
    then obtain tr where tr: "run_of u (instr_list h iseq) (seq_states h iseq) B tr" "Q (tr (length iseq))" by blast
    note c = run_is_computed [OF ok vs tr(1)]
    have "source_holds u (path_pr h iseq) i (?C i)" if "i < length iseq" for i
    proof -
      have "path_step u (instr_list h iseq) (seq_states h iseq) i (tr i) (tr (Suc i))"
        using tr(1) that by (simp add: run_of_def instr_list_def)
      then show ?thesis using path_step_iff [OF ok vs(1) that] c [of i] that by auto
    qed
    then show ?r using tr(2) c by simp
  next
    assume r: ?r
    have "path_step u (instr_list h iseq) (seq_states h iseq) i (?C i) (?C (Suc i))" if "i < length iseq" for i
      using r that nx path_step_iff [OF ok vs(1) that] by blast
    moreover have "x \<notin> set vs \<Longrightarrow> ivar (?C (Suc i)) x = ivar (B (Suc i)) x" "ifun (?C (Suc i)) = ifun (B (Suc i))" for i x
      using computed_fields [of "Suc i" "path_nx h iseq vs" vs] len by blast+
    ultimately have "run_of u (instr_list h iseq) (seq_states h iseq) B ?C"
      using vs(1) by (simp add: run_of_def instr_list_def del: computed.simps(2))
    then show ?l using r by blast
  qed
qed

lemma InsertStt_distinct:
  "foldM InsertStt_instr iseq vs h = Inr (vs', h') \<Longrightarrow> distinct vs \<Longrightarrow> distinct vs'"
proof (induction iseq arbitrary: vs h)
  case (Cons i iseq)
  have d: "distinct ws \<Longrightarrow> distinct (fold es_insert xs ws)" for xs ws
    by (induction xs arbitrary: ws) (simp_all add: es_insert_def)
  from Cons show ?case by (auto simp: InsertStt_instr_def InsertStt_def d)
qed simp

lemma path_subs_ok:
  assumes ok: "path_ok h iseq u" and sep: "path_sep h iseq u" and vs: "set vs = seq_states h iseq" "distinct vs"
  shows "subs_ok h (length iseq) vs (path_pr h iseq) (path_nx h iseq vs) u"
proof -
  have v: "separated h (set vs) v" if "v \<in> set vs" for v
  proof -
    have "ekind v = KVar" "encodable h v" using sep ok that vs(1) by (auto simp: path_sep_def path_ok_def Let_def)
    then have "eargs v = []" "ekind v = KVar" using wf_node [of v] by (auto simp: encodable_def node_wf_def)
    then have "symbols_of v = [Inl v]" by (cases v) simp
    then show ?thesis using sep that vs(1) by (auto simp: separated_def path_sep_def Let_def inj_on_def)
  qed
  have "separated h (set vs) e" if i: "i < length iseq" and e: "e \<in> set (path_pr h iseq i) \<union> set (path_nx h iseq vs i)" for i e
  proof -
    have x: "instr_list h iseq ! i \<in> set (instr_list h iseq)" using i by (simp add: instr_list_def)
    have "instr_enc encodable h (seq_states h iseq) (iseq ! i)" using ok i by (simp add: path_ok_def)
    then obtain d where "instr_decode (instr_list h iseq ! i) = Some d" using i by (auto simp: instr_enc_def instr_list_def)
    with x e sep v vs(1) show ?thesis
      by (auto simp: path_pr_def path_nx_def path_sep_def Let_def StateUpdCmpl_def update_var_def split: option.splits)
  qed
  then show ?thesis
    using sep ok vs by (auto simp: subs_ok_def subs_vars_def path_sep_def path_ok_def Let_def)
qed

context z3_subst_backend
begin

lemma path_subs:
  assumes ok: "path_ok h iseq u" and sep: "path_sep h iseq u" and pos: "c_int pos = pos"
  shows "\<exists>t u'. PathSubs ctx substitute iseq pos u h = Inr ((t, u'), h) \<and> tsort t = SBool \<and>
    (\<forall>E. env_ok E \<longrightarrow> den E t = VBool (\<exists>tr. run_of u (instr_list h iseq) (seq_states h iseq) (step_base h u pos E) tr \<and>
       (\<forall>v \<in> seq_states h iseq. eval (z3_interp h (SuffCurr u (int (length iseq))) E) v = eval (tr (length iseq)) v) \<and>
       preds_hold u (length iseq) (z3_interp h (SuffCurr u (int (length iseq))) E)))"
proof -
  obtain vs where vs: "set vs = seq_states h iseq" "vs \<noteq> []"
    "\<forall>u' :: 't Unroller. Path_DefineDepVar iseq u' h = Inr (u'\<lparr>vars := vs\<rparr>, h)" using path_dep [OF ok] by blast
  have "foldM InsertStt_instr iseq [] h = Inr (vs, h)"
    using vs(3) [rule_format, of u] by (auto simp: Path_DefineDepVar_def dest!: arg_cong [where f = vars])
  then have dist: "distinct vs" using InsertStt_distinct [of iseq "[]" h vs h] by simp
  have kv: "\<forall>v \<in> set vs. ekind v = KVar" using sep vs(1) by (simp add: path_sep_def Let_def)
  have len: "c_int (int (length iseq)) = int (length iseq)" using ok by (intro c_int_id) (auto simp: path_ok_def)
  have pe: "preds_enc h u" using ok by (simp add: path_ok_def)
  note sok = path_subs_ok [OF ok sep vs(1) dist]
  from unroll_subs [OF path_transits [OF ok vs(1)] pe TrueI vs(2) _ sok pos, of "Path_DefineDepVar iseq"] vs(3)
  show ?thesis
    by (simp add: PathSubs_def len vs(1) computed_run [OF ok vs(1) dist kv, where Q = "\<lambda>I.
      (\<forall>v \<in> seq_states h iseq. eval (z3_interp h (SuffCurr u (int (length iseq))) E) v = eval I v) \<and>
      preds_hold u (length iseq) (z3_interp h (SuffCurr u (int (length iseq))) E)" for E])
qed

end

section \<open>A syntactic model of the interface\<close>

datatype z3_term =
    TConst string smt_sort
  | TVal smt_sort sval
  | TArr int z3_term
  | TMk z3_fun "int list" "z3_term list" smt_sort
  | TApp z3_decl "z3_term list"

fun syn_sort :: "z3_term \<Rightarrow> smt_sort" where
  "syn_sort (TConst n s) = s"
| "syn_sort (TVal s v) = s"
| "syn_sort (TArr a t) = SArray (SBv a) (syn_sort t)"
| "syn_sort (TMk f ps ts s) = s"
| "syn_sort (TApp d ts) = decl_range d"

fun syn_den :: "smt_env \<Rightarrow> z3_term \<Rightarrow> sval" where
  "syn_den E (TConst n s) = env_const E n s"
| "syn_den E (TVal s v) = v"
| "syn_den E (TArr a t) = const_array a (syn_den E t)"
| "syn_den E (TMk f ps ts s) = smt_sem (z3_smt f) ps (map syn_sort ts) (map (syn_den E) ts)"
| "syn_den E (TApp d ts) = env_fun E (decl_name d) (decl_domain d) (decl_range d) (map (syn_den E) ts)"

definition syn_bv :: "int \<Rightarrow> int \<Rightarrow> z3_term result" where
  "syn_bv i w = (if 0 < w then Inr (TVal (SBv w) (VBv (i mod 2 ^ nat w))) else Inl LibException)"

definition syn_api :: "z3_term z3_api" where
  "syn_api =
     \<lparr>z3_constant = (\<lambda>n s. Inr (TConst n s)),
      z3_bool_val = (\<lambda>b. Inr (TVal SBool (VBool b))),
      z3_bv_val = syn_bv,
      z3_bv_str = (\<lambda>str. syn_bv (int (of_digits str))),
      z3_const_array = (\<lambda>s t. case (s, syn_sort t) of (SBv a, SBv d) \<Rightarrow> Inr (TArr a t) | _ \<Rightarrow> Inl LibException),
      z3_mk = (\<lambda>f ps ts. case smt_sig (z3_smt f) ps (map syn_sort ts) of
         None \<Rightarrow> Inl LibException | Some s \<Rightarrow> Inr (TMk f ps ts s)),
      z3_app = (\<lambda>d ts. if map syn_sort ts = decl_domain d then Inr (TApp d ts) else Inl LibException),
      z3_simplify = (\<lambda>t. t)\<rparr>"

fun replace_consts :: "(z3_term \<Rightarrow> z3_term option) \<Rightarrow> z3_term \<Rightarrow> z3_term" where
  "replace_consts \<sigma> (TConst n s) = (case \<sigma> (TConst n s) of Some t \<Rightarrow> t | None \<Rightarrow> TConst n s)"
| "replace_consts \<sigma> (TVal s v) = TVal s v"
| "replace_consts \<sigma> (TArr a t) = TArr a (replace_consts \<sigma> t)"
| "replace_consts \<sigma> (TMk f ps ts s) = TMk f ps (map (replace_consts \<sigma>) ts) s"
| "replace_consts \<sigma> (TApp d ts) = TApp d (map (replace_consts \<sigma>) ts)"

definition syn_subst :: "z3_term z3_subst" where
  "syn_subst src dst t = Inr (replace_consts (map_of (zip src dst)) t)"

lemma replace_lookup:
  assumes "map syn_sort dst = map snd ks" "src = map (\<lambda>(n, s). TConst n s) ks"
  shows "map_of (zip src dst) (TConst n s) = Some t \<Longrightarrow>
      syn_sort t = s \<and> map_of (zip ks (map (syn_den E) dst)) (n, s) = Some (syn_den E t)"
    and "map_of (zip src dst) (TConst n s) = None \<Longrightarrow> map_of (zip ks (map (syn_den E) dst)) (n, s) = None"
  using assms
  by (induction ks arbitrary: src dst) (auto simp: Cons_eq_map_conv map_eq_Cons_conv split: if_splits)

lemma replace_sound:
  assumes "map syn_sort dst = map snd ks" "src = map (\<lambda>(n, s). TConst n s) ks"
  shows "syn_sort (replace_consts (map_of (zip src dst)) t) = syn_sort t \<and>
    syn_den E (replace_consts (map_of (zip src dst)) t) = syn_den (bind_env E (zip ks (map (syn_den E) dst))) t"
proof (induction t)
  case (TConst n s)
  show ?case
    using replace_lookup [OF assms, of n s]
    by (cases "map_of (zip src dst) (TConst n s)") (auto simp: bind_env_def)
next
  case (TMk f ps ts s)
  then show ?case by (simp add: comp_def cong: map_cong)
next
  case (TApp d ts)
  then show ?case by (simp add: comp_def bind_env_def cong: map_cong)
qed simp_all

interpretation syn: z3_subst_backend syn_api syn_sort syn_den syn_subst
proof unfold_locales
  fix ks :: "(string \<times> smt_sort) list" and src dst and t :: z3_term
  assume a: "list_all2 (\<lambda>k c. z3_constant syn_api (fst k) (snd k) = Inr c) ks src"
    and b: "map syn_sort dst = map snd ks"
  have "src = map (\<lambda>(n, s). TConst n s) ks"
    using a by (induction rule: list_all2_induct) (auto simp: syn_api_def)
  from replace_sound [OF b this, of t] show "\<exists>t'. syn_subst src dst t = Inr t' \<and> syn_sort t' = syn_sort t \<and>
      (\<forall>E. env_ok E \<longrightarrow> syn_den E t' = syn_den (bind_env E (zip ks (map (syn_den E) dst))) t)"
    by (simp add: syn_subst_def)
qed (auto simp: syn_api_def is_term_def syn_bv_def)

section \<open>Properties\<close>

text \<open>C8: Unrolling with substitution computes the states. With a Z3 that behaves as documented, and
  when no other symbol shares the name of a state variable, \<^verbatim>\<open>PathUnroll::PathSubs\<close> returns a term that is
  true exactly when there is a run of the sequence from the state at step \<open>pos\<close>, with the inputs of every
  step and without variables for the states between, that satisfies the predicates, ends with
  the values of the variables of step \<open>length iseq\<close>, and the predicates of the end hold there.\<close>

theorem path_subs_says:
  assumes "z3_subst_backend ctx tsort den substitute" "path_ok h iseq u" "path_sep h iseq u" "c_int pos = pos"
  shows "\<exists>t u'. PathSubs ctx substitute iseq pos u h = Inr ((t, u'), h) \<and> tsort t = SBool \<and>
    (\<forall>E. env_ok E \<longrightarrow> den E t = VBool (\<exists>tr. run_of u (instr_list h iseq) (seq_states h iseq) (step_base h u pos E) tr \<and>
       (\<forall>v \<in> seq_states h iseq. eval (z3_interp h (SuffCurr u (int (length iseq))) E) v = eval (tr (length iseq)) v) \<and>
       preds_hold u (length iseq) (z3_interp h (SuffCurr u (int (length iseq))) E)))"
  using z3_subst_backend.path_subs [OF assms] .

lemma legacy_u_sep: "path_sep unroll_heap [3] legacy_u"
proof -
  have k: "ekind ux = KVar" and sym: "symbols_of ux = [Inl ux]" "symbols_of const9 = []"
    by (simp_all add: ux_def const9_def)
  have "separated unroll_heap {ux} ux_is_0" by (simp add: separated_def ux_is_0_def sym)
  then show ?thesis
    by (simp add: path_sep_def unroll_heap_states k Let_def instr_list_def legacy_u_def AddGlobPred_def Unroller_new_def
        s_pred_at_def) (auto simp: separated_def unroll_heap_def update_def sym)
qed

text \<open>One step from the state 0 computes 9, which is not the value 0 of the variable at the end.\<close>

theorem path_subs_says_witness:
  "\<exists>t u'. PathSubs syn_api syn_subst [3] 0 legacy_u unroll_heap = Inr ((t, u'), unroll_heap) \<and>
     syn_den zero_env t = VBool False"
proof -
  let ?u = "legacy_u :: z3_term Unroller"
  have zero: "eval (z3_interp h s zero_env) ux = VBv 0" for h s
    by (simp add: ux_def z3_interp_def smt_interp_def zero_env_def smt_zero_def)
  have "\<not> (\<exists>tr. run_of ?u (instr_list unroll_heap [3]) (seq_states unroll_heap [3]) (step_base unroll_heap ?u 0 zero_env) tr \<and>
      (\<forall>v \<in> seq_states unroll_heap [3].
         eval (z3_interp unroll_heap (SuffCurr ?u (int (length [3::nat]))) zero_env) v = eval (tr (length [3::nat])) v))"
  proof
    assume "\<exists>tr. run_of ?u (instr_list unroll_heap [3]) (seq_states unroll_heap [3]) (step_base unroll_heap ?u 0 zero_env) tr \<and>
      (\<forall>v \<in> seq_states unroll_heap [3].
         eval (z3_interp unroll_heap (SuffCurr ?u (int (length [3::nat]))) zero_env) v = eval (tr (length [3::nat])) v)"
    then obtain tr where tr: "tr 0 = step_base unroll_heap ?u 0 zero_env 0"
      "exec_step (the (instrs unroll_heap 3)) {ux} (tr 0) (tr (Suc 0))" "VBv 0 = eval (tr (Suc 0)) ux"
      by (auto simp: run_of_def instr_list_def path_step_def unroll_heap_states zero)
    have "eval (tr 0) ux = VBv 0" using tr(1) by (simp add: step_base_def zero)
    with tr(2) have "eval (tr (Suc 0)) ux = VBv 9" by (simp add: unroll_heap_step bv2_def)
    with tr(3) show False by simp
  qed
  moreover have "c_int 0 = 0" by (simp add: c_int_id)
  ultimately show ?thesis
    using path_subs_says [OF syn.z3_subst_backend_axioms legacy_u_ok legacy_u_sep, of 0] zero_env_ok by fastforce
qed

end
