(* ===== verification/EqCheckProps.thy ===== *)
theory EqCheckProps
  imports EqCheck Substitution
begin

text \<open>
  What the equivalence checkers of theory EqCheck compute, for every solver that answers as documented.
\<close>

section \<open>Independence of the identifiers drawn\<close>

lemma in_tree_alloc: "only_alloc h h1 \<Longrightarrow> in_tree h1 p q = in_tree h p q"
proof -
  assume a: "only_alloc h h1"
  have "in_tree h1 p q" if "in_tree h p q" "ilas h1 = ilas h" for h h1 p q
    using that by (induction rule: in_tree.induct) (auto intro: in_tree.intros)
  then show ?thesis using a by (auto simp: only_alloc_def)
qed

lemma tree_alloc:
  assumes "only_alloc h h1"
  shows "tree_states h1 root = tree_states h root" "tree_instrs h1 root = tree_instrs h root"
  using assms by (simp_all add: tree_states_def tree_instrs_def in_tree_alloc) (simp_all add: only_alloc_def)

lemma mono_ok_alloc:
  assumes "only_alloc h h1" "mono_ok h root u"
  shows "mono_ok h1 root u"
proof -
  have "mono_enc h1 V i = mono_enc h V i" for V i
    using assms(1) by (simp add: mono_enc_def node_alloc [OF assms(1)]) (simp add: only_alloc_def)
  moreover have "ilas h1 = ilas h" using assms(1) by (simp add: only_alloc_def)
  ultimately show ?thesis
    using assms(2) heap_inv_alloc [OF _ assms(1)]
    by (simp add: mono_ok_def tree_alloc [OF assms(1)] state_var_def encodable_alloc [OF assms(1)] preds_enc_alloc [OF assms(1)])
qed

lemma mono_path_alloc:
  assumes a: "only_alloc h h1" and ok: "mono_ok h root u"
  shows "mono_path h1 root u = mono_path h root u"
proof -
  have "instr_ids h1 root = instr_ids h root"
    using trees_alloc(2) [OF _ _ a, of root] ok by (simp add: instr_ids_def mono_ok_def)
  moreover have "instrs h1 = instrs h" using a by (simp add: only_alloc_def)
  ultimately have "mono_step h1 root u = mono_step h root u"
    by (simp add: fun_eq_iff mono_step_def tree_alloc [OF a] instr_list_def sel_of_def [abs_def])
  then show ?thesis by (simp add: fun_eq_iff mono_path_def z3_interp_alloc [OF a])
qed

section \<open>What the formulas say\<close>

text \<open>The interpretation of a step of a path with a suffix; the suffix alone names the representative
  state.\<close>

definition frame_at :: "heap \<Rightarrow> string \<Rightarrow> int \<Rightarrow> smt_env \<Rightarrow> interp" where
  "frame_at h s t = z3_interp h (int_to_string t @ ''_'' @ s)"

lemma at_suff: "z3_interp h (SuffCurr u t) = frame_at h (extra_suff u) t"
  by (simp add: frame_at_def SuffCurr_def)

definition marked :: "heap \<Rightarrow> string \<Rightarrow> expr set \<Rightarrow> int \<Rightarrow> smt_env \<Rightarrow> bool" where
  "marked h s V i E = (\<forall>v \<in> V. eval (z3_interp h s E) v = eval (frame_at h s i E) v)"

definition top_states :: "heap \<Rightarrow> nat \<Rightarrow> expr set" where
  "top_states h m = set (vec (ila_states (the (ilas h m))))"

text \<open>The two paths start in the same state, one flushing and the other applying an instruction.\<close>

definition init_holds :: "heap \<Rightarrow> RefinementMap \<Rightarrow> smt_env \<Rightarrow> bool" where
  "init_holds h r E =
     ((\<forall>v \<in> tree_states h (the (ref_coi r)). eval (frame_at h k_suff_orig 0 E) v = eval (frame_at h k_suff_appl 0 E) v) \<and>
      holds (frame_at h k_suff_appl 0 E) (the (ref_appl r)) \<and> holds (frame_at h k_suff_orig 0 E) (the (ref_flush r)))"

text \<open>A path that flushes from step \<open>start\<close> on; a step that completes fixes the representative state.\<close>

definition flush_unroller :: "RefinementMap \<Rightarrow> string \<Rightarrow> int \<Rightarrow> int \<Rightarrow> unit Unroller" where
  "flush_unroller r s start fin =
     fold (AddStepPred (the (ref_flush r))) [start .. fin] (fold AddGlobPred (ref_invs r) (Unroller_new s))"

definition flush_path :: "heap \<Rightarrow> RefinementMap \<Rightarrow> string \<Rightarrow> int \<Rightarrow> int \<Rightarrow> smt_env \<Rightarrow> bool" where
  "flush_path h r s start len E =
     (mono_path h (the (ref_coi r)) (flush_unroller r s start len) len 0 E \<and>
      (\<forall>i \<in> {start .. len}. holds (frame_at h s i E) (the (ref_cmpl r)) \<longrightarrow> marked h s (top_states h (the (ref_coi r))) i E))"

definition diagram :: "heap \<Rightarrow> RefinementMap \<Rightarrow> int \<Rightarrow> int \<Rightarrow> smt_env \<Rightarrow> bool" where
  "diagram h r k_orig k_appl E =
     (init_holds h r E \<and> flush_path h r k_suff_orig 0 k_orig E \<and> flush_path h r k_suff_appl 1 (k_appl + 1) E)"

text \<open>Refinement maps that the checker accepts.\<close>

definition mono_tree :: "heap \<Rightarrow> nat \<Rightarrow> bool" where
  "mono_tree h root = mono_ok h root (Unroller_new [] :: unit Unroller)"

lemma mono_ok_tree: "mono_ok h root u \<longleftrightarrow> mono_tree h root \<and> preds_enc h u"
  by (auto simp: mono_tree_def mono_ok_def preds_enc_def Unroller_new_def s_pred_at_def)

definition ref_ok :: "heap \<Rightarrow> RefinementMap \<Rightarrow> bool" where
  "ref_ok h r =
     (\<exists>m f a c. ref_coi r = Some m \<and> ref_flush r = Some f \<and> ref_appl r = Some a \<and> ref_cmpl r = Some c \<and>
        mono_tree h m \<and> node h SortBool f \<and> node h SortBool a \<and> node h SortBool c \<and>
        (\<forall>p \<in> set (ref_invs r). bool_pred encodable h p) \<and> (\<exists>v \<in> subexprs a. is_var v))"

definition crr_ok :: "heap \<Rightarrow> CompRefRel \<Rightarrow> bool" where
  "crr_ok h c = (ref_ok h (refine_a c) \<and> ref_ok h (refine_b c) \<and> bool_pred encodable h (relation c))"

text \<open>Adding predicates.\<close>

definition same_preds :: "'t Unroller \<Rightarrow> 'u Unroller \<Rightarrow> bool" where
  "same_preds u v = (extra_suff v = extra_suff u \<and> g_pred v = g_pred u \<and> i_pred v = i_pred u \<and> s_pred v = s_pred u)"

lemma same_preds_add:
  assumes "same_preds u v"
  shows "same_preds (fold AddGlobPred ps u) (fold AddGlobPred ps v)" "same_preds (fold (AddStepPred p) ks u) (fold (AddStepPred p) ks v)"
    "same_preds (AddInitPred p u) (AddInitPred p v)"
proof -
  show "same_preds (fold AddGlobPred ps u) (fold AddGlobPred ps v)"
    using assms by (induction ps arbitrary: u v) (auto simp: same_preds_def AddGlobPred_def)
  show "same_preds (fold (AddStepPred p) ks u) (fold (AddStepPred p) ks v)"
    using assms by (induction ks arbitrary: u v) (auto simp: same_preds_def AddStepPred_def s_pred_at_def)
  show "same_preds (AddInitPred p u) (AddInitPred p v)"
    using assms by (simp add: same_preds_def AddInitPred_def)
qed

lemma same_preds_clear: "same_preds (ClearPred u) (Unroller_new (extra_suff u))"
  by (simp add: same_preds_def ClearPred_def ClearGlobPred_def ClearInitPred_def ClearStepPred_def Unroller_new_def)

lemma same_preds_path: "same_preds u v \<Longrightarrow> mono_path h root u = mono_path h root v"
proof -
  assume "same_preds u v"
  then have "SuffCurr u = SuffCurr v" "preds_hold u = preds_hold v" "i_pred u = i_pred v"
    by (simp_all add: same_preds_def fun_eq_iff SuffCurr_def preds_hold_def s_pred_at_def)
  then show ?thesis by (simp add: fun_eq_iff mono_path_def mono_step_def)
qed

lemma preds_enc_add:
  assumes "preds_enc h u"
  shows "\<forall>p \<in> set ps. bool_pred encodable h p \<Longrightarrow> preds_enc h (fold AddGlobPred ps u)"
    "bool_pred encodable h p \<Longrightarrow> preds_enc h (fold (AddStepPred p) ks u)"
    "bool_pred encodable h p \<Longrightarrow> preds_enc h (AddInitPred p u)"
proof -
  show "preds_enc h (fold AddGlobPred ps u)" if "\<forall>p \<in> set ps. bool_pred encodable h p"
    using assms that
  proof (induction ps arbitrary: u)
    case (Cons p ps)
    have "preds_enc h (AddGlobPred p u)"
      using Cons.prems by (simp add: preds_enc_def AddGlobPred_def s_pred_at_def ball_Un)
    then show ?case using Cons.IH Cons.prems(2) by simp
  qed simp
  show "preds_enc h (fold (AddStepPred p) ks u)" if p: "bool_pred encodable h p"
    using assms
  proof (induction ks arbitrary: u)
    case (Cons k ks)
    have "preds_enc h (AddStepPred p k u)"
      using Cons.prems p by (auto simp: preds_enc_def AddStepPred_def s_pred_at_def split: option.splits)
    then show ?case using Cons.IH by simp
  qed simp
  show "preds_enc h (AddInitPred p u)" if "bool_pred encodable h p"
    using assms that by (simp add: preds_enc_def AddInitPred_def s_pred_at_def ball_Un)
qed

lemma preds_enc_clear: "preds_enc h (ClearPred u)"
  by (simp add: preds_enc_def ClearPred_def ClearGlobPred_def ClearInitPred_def ClearStepPred_def s_pred_at_def)

lemma extra_suff_preds [simp]:
  "extra_suff (fold AddGlobPred ps u) = extra_suff u" "extra_suff (fold (AddStepPred p) ks u) = extra_suff u"
  "extra_suff (ClearPred u) = extra_suff u" "extra_suff (AddInitPred p u) = extra_suff u"
proof -
  show "extra_suff (fold AddGlobPred ps u) = extra_suff u" by (induction ps arbitrary: u) (simp_all add: AddGlobPred_def)
  show "extra_suff (fold (AddStepPred p) ks u) = extra_suff u" by (induction ks arbitrary: u) (simp_all add: AddStepPred_def)
qed (simp_all add: ClearPred_def ClearGlobPred_def ClearInitPred_def ClearStepPred_def AddInitPred_def)

section \<open>Building blocks\<close>

lemma runs_if: "(b \<Longrightarrow> runs h x Q) \<Longrightarrow> (\<not> b \<Longrightarrow> runs h y Q) \<Longrightarrow> runs h (if b then x else y) Q"
  by simp

lemma runs_ptr: "runs h (ptr (Some x)) (\<lambda>y. y = x)"
  by (auto simp: runs_def ptr_def)

context z3_backend
begin

lemma runs_fold_bterm:
  assumes "\<And>x s P. x \<in> set xs \<Longrightarrow> bterm s P \<Longrightarrow> runs h (f x s) (\<lambda>s'. bterm s' (\<lambda>E. P E \<and> R x E))" "bterm s P"
  shows "runs h (foldM f xs s) (\<lambda>s'. bterm s' (\<lambda>E. P E \<and> (\<forall>x \<in> set xs. R x E)))"
  by (rule runs_fold_conj [where A = bterm, OF assms]) (auto elim: bterm_cong)

lemma runs_bterm_cong:
  "runs h m (\<lambda>t. bterm t P) \<Longrightarrow> (\<And>E. env_ok E \<Longrightarrow> P E \<longleftrightarrow> Q E) \<Longrightarrow> runs h m (\<lambda>t. bterm t Q)"
  by (erule runs_weaken) (erule bterm_cong)

lemma runs_mono:
  assumes "mono_ok h root u" "0 \<le> len" "len < 2 ^ 31"
  shows "runs h (MonoAssn ctx root len pos u) (\<lambda>(t, u'). bterm t (mono_path h root u len pos) \<and> extra_suff u' = extra_suff u)"
proof -
  have "\<exists>t u' h2. MonoAssn ctx root len pos u h1 = Inr ((t, u'), h2) \<and> only_alloc h1 h2 \<and>
      bterm t (mono_path h root u len pos) \<and> extra_suff u' = extra_suff u" if "only_alloc h h1" for h1
    using mono_assn [OF mono_ok_alloc [OF that assms(1)] assms(2,3), of pos] mono_path_alloc [OF that assms(1)]
    by (auto simp: bterm_def)
  then show ?thesis by (fastforce simp: runs_def)
qed

lemma runs_curr:
  assumes "heap_inv h" "encodable h v" "is_var v"
  shows "runs h (CurrState ctx u v t) (denotes h (SuffCurr u t) v)"
  unfolding CurrState_def using assms(3) by (simp only: simp_thms) (rule runs_bnd [OF runs_assert runs_expr [OF assms(1,2)]])

lemma runs_at:
  assumes "heap_inv h" "bool_pred encodable h c"
  shows "runs h (Unroller_GetZ3Expr ctx u c t) (\<lambda>b. bterm b (\<lambda>E. holds (frame_at h (extra_suff u) t E) c))"
  unfolding Unroller_GetZ3Expr_def at_suff [symmetric] by (rule runs_pred [OF assms])

lemma runs_rep:
  assumes "heap_inv h" "bool_pred encodable h c"
  shows "runs h (Unroller_GetZ3Expr_plain ctx u c) (\<lambda>b. bterm b (\<lambda>E. holds (z3_interp h (extra_suff u) E) c))"
  unfolding Unroller_GetZ3Expr_plain_def by (rule runs_pred [OF assms])

text \<open>Two states that are equated.\<close>

lemma runs_state_eq:
  assumes inv: "heap_inv h" and v: "encodable h v" "is_var v" and c: "bterm c P"
  shows "runs h (bnd (CurrState ctx u v t) (\<lambda>x. bnd (CurrState ctx u' v t') (\<lambda>y. bnd (t_eq ctx x y) (t_and ctx c))))
    (\<lambda>r. bterm r (\<lambda>E. P E \<and> eval (frame_at h (extra_suff u) t E) v = eval (frame_at h (extra_suff u') t' E) v))"
  unfolding at_suff [symmetric]
  by (rule runs_bnd [OF runs_curr [OF inv v]], rule runs_bnd [OF runs_curr [OF inv v]], rule runs_bnd [OF runs_equal],
      assumption, assumption, rule refl, use v(1) wf_sort encodable_def in blast, rule runs_ops(2) [OF c])

lemma runs_mark_states:
  assumes inv: "heap_inv h" and vs: "\<forall>v \<in> set vs. encodable h v \<and> is_var v"
  shows "runs h (mark_states ctx u vs i) (\<lambda>t. bterm t (marked h (extra_suff u) (set vs) i))"
proof -
  let ?f = "\<lambda>v eq. bnd (CurrState ctx u v i) (\<lambda>s_i. bnd (Unroller_GetZ3Expr_plain ctx u v) (\<lambda>s. bnd (t_eq ctx s s_i) (t_and ctx eq)))"
  have step: "runs h (?f v c) (\<lambda>r. bterm r (\<lambda>E. P E \<and> eval (z3_interp h (extra_suff u) E) v = eval (z3_interp h (SuffCurr u i) E) v))"
    if "v \<in> set vs" "bterm c P" for v c P
  proof -
    have v: "encodable h v" "is_var v" using vs that(1) by auto
    show ?thesis
      unfolding Unroller_GetZ3Expr_plain_def
      by (rule runs_bnd [OF runs_curr [OF inv v]], rule runs_bnd [OF runs_expr [OF inv v(1)]], rule runs_bnd [OF runs_equal],
        assumption, assumption, rule refl, use v(1) wf_sort encodable_def in blast, rule runs_ops(2) [OF that(2)])
  qed
  show ?thesis
    unfolding mark_states_def
    by (rule runs_bnd [OF runs_bool], rule runs_bterm_cong [OF runs_fold_bterm [OF step]]) (auto simp: marked_def at_suff)
qed

lemma runs_add_mark:
  assumes inv: "heap_inv h" and vs: "\<forall>v \<in> set vs. encodable h v \<and> is_var v" and c: "bool_pred encodable h c" and acc: "bterm acc P"
  shows "runs h (add_mark ctx u (Some c) vs i acc)
    (\<lambda>t. bterm t (\<lambda>E. P E \<and> (holds (frame_at h (extra_suff u) i E) c \<longrightarrow> marked h (extra_suff u) (set vs) i E)))"
  unfolding add_mark_def
  by (rule runs_bnd [OF runs_ptr], simp only:)
    (rule runs_bnd [OF runs_at [OF inv c]], rule runs_bnd [OF runs_mark_states [OF inv vs]],
     rule runs_bnd [OF runs_ops(5)], assumption, assumption, rule runs_ops(2) [OF acc])

lemma tree_vars:
  assumes "mono_tree h m"
  shows "heap_inv h" "ilas h m \<noteq> None" "\<forall>v \<in> tree_states h m. encodable h v \<and> is_var v" "\<forall>v \<in> top_states h m. encodable h v \<and> is_var v"
proof -
  show 1: "heap_inv h" "ilas h m \<noteq> None" "\<forall>v \<in> tree_states h m. encodable h v \<and> is_var v"
    using assms by (auto simp: mono_tree_def mono_ok_def state_var_def)
  have "top_states h m \<subseteq> tree_states h m" using 1(2) in_tree.self [of h m] by (auto simp: top_states_def tree_states_def)
  then show "\<forall>v \<in> top_states h m. encodable h v \<and> is_var v" using 1(3) by blast
qed

lemma runs_stt_tree: "mono_tree h m \<Longrightarrow> runs h (GetSttTree m) (\<lambda>vs. set vs = tree_states h m)"
  using tree_vars [of h m] trees_alloc(1) [of h m] trees_run(2) [of h m] by (auto simp: runs_def)

lemma runs_stt: "ilas h m \<noteq> None \<Longrightarrow> runs h (GetStt m) (\<lambda>vs. set vs = top_states h m)"
  by (auto simp: runs_def GetStt_def InsertStt_def top_states_def only_alloc_def)

lemma node_pred: "node h SortBool e \<Longrightarrow> bool_pred encodable h e"
  by (simp add: node_def bool_pred_def)

lemma runs_GenInit:
  assumes r: "ref_ok h r" and u: "extra_suff (unroll_orig cd) = k_suff_orig" "extra_suff (unroll_appl cd) = k_suff_appl"
  shows "runs h (GenInit ctx cd r) (\<lambda>t. bterm t (init_holds h r))"
proof -
  obtain m f a c where m: "ref_coi r = Some m" "ref_flush r = Some f" "ref_appl r = Some a" "mono_tree h m"
    "node h SortBool f" "node h SortBool a" using r by (auto simp: ref_ok_def)
  note inv = tree_vars(1) [OF m(4)]
  let ?f = "\<lambda>v eq. bnd (CurrState ctx (unroll_orig cd) v 0) (\<lambda>so. bnd (CurrState ctx (unroll_appl cd) v 0) (\<lambda>sn.
      bnd (t_eq ctx so sn) (t_and ctx eq)))"
  have fold: "runs h (foldM ?f vs t) (\<lambda>t. bterm t (\<lambda>E. True \<and> (\<forall>v \<in> set vs. eval (frame_at h k_suff_orig 0 E) v = eval (frame_at h k_suff_appl 0 E) v)))"
    if "set vs = tree_states h m" "bterm t (\<lambda>E. True)" for vs t
    using runs_state_eq [OF inv, of _ _ _ "unroll_orig cd" 0 "unroll_appl cd" 0] tree_vars(3) [OF m(4)] that unfolding u
    by (intro runs_fold_bterm) auto
  note a = runs_at [OF inv node_pred [OF m(6)], of "unroll_appl cd" 0, unfolded u]
  note f = runs_at [OF inv node_pred [OF m(5)], of "unroll_orig cd" 0, unfolded u]
  show ?thesis
    unfolding GenInit_def m(1,2,3)
    apply (rule runs_bnd [OF runs_ptr], simp only:)
    apply (rule runs_bnd [OF runs_stt_tree [OF m(4)]], rule runs_bnd [OF runs_bool], rule runs_bnd [OF fold], assumption, assumption)
    apply (rule runs_bnd [OF runs_ptr], simp only:, rule runs_bnd [OF a])
    apply (rule runs_bnd [OF runs_ptr], simp only:, rule runs_bnd [OF f])
    apply (rule runs_bnd [OF runs_ops(2)], assumption, assumption, rule runs_bterm_cong [OF runs_ops(2)], assumption, assumption)
    using m(1,2,3) by (auto simp: init_holds_def)
qed

lemma flush_unroller_ok:
  assumes "ref_ok h r" "ref_coi r = Some m" "ref_flush r = Some f"
  shows "mono_ok h m (fold (AddStepPred f) ks (fold AddGlobPred (ref_invs r) (ClearPred u)))"
    "mono_path h m (fold (AddStepPred f) [start .. fin] (fold AddGlobPred (ref_invs r) (ClearPred u))) =
     mono_path h m (flush_unroller r (extra_suff u) start fin)"
proof -
  have "mono_tree h m" "bool_pred encodable h f" "\<forall>p \<in> set (ref_invs r). bool_pred encodable h p"
    using assms node_pred by (auto simp: ref_ok_def)
  then show "mono_ok h m (fold (AddStepPred f) ks (fold AddGlobPred (ref_invs r) (ClearPred u)))"
    unfolding mono_ok_tree by (intro conjI preds_enc_add preds_enc_clear)
  show "mono_path h m (fold (AddStepPred f) [start .. fin] (fold AddGlobPred (ref_invs r) (ClearPred u))) =
      mono_path h m (flush_unroller r (extra_suff u) start fin)"
    unfolding flush_unroller_def assms(3) option.sel by (intro same_preds_path same_preds_add same_preds_clear)
qed

lemma runs_UnrollFlush:
  assumes r: "ref_ok h r" and k: "start \<le> len" "0 \<le> len" "len < 2 ^ 31"
  shows "runs h (UnrollFlush ctx u r 0 len start) (\<lambda>(t, u'). bterm t (flush_path h r (extra_suff u) start len) \<and> extra_suff u' = extra_suff u)"
proof -
  obtain m f a c where m: "ref_coi r = Some m" "ref_flush r = Some f" "ref_cmpl r = Some c" "mono_tree h m" "bool_pred encodable h c"
    using r node_pred by (auto simp: ref_ok_def)
  note t = tree_vars [OF m(4)]
  let ?u = "fold (AddStepPred f) [start .. 0 + len] (fold AddGlobPred (ref_invs r) (ClearPred u))"
  have path: "runs h (MonoAssn ctx m len 0 ?u) (\<lambda>(t, u'). bterm t (mono_path h m (flush_unroller r (extra_suff u) start len) len 0) \<and> extra_suff u' = extra_suff u)"
    using runs_mono [OF flush_unroller_ok(1) [OF r m(1,2), of "[start .. 0 + len]" u] k(2,3), of 0]
    by (simp add: flush_unroller_ok(2) [OF r m(1,2)])
  have marks: "runs h (foldM (add_mark ctx u' (Some c) vs) [start .. 0 + len] t)
      (\<lambda>t. bterm t (\<lambda>E. True \<and> (\<forall>i \<in> set [start .. 0 + len]. holds (frame_at h (extra_suff u) i E) c \<longrightarrow> marked h (extra_suff u) (top_states h m) i E)))"
    if "set vs = top_states h m" "bterm t (\<lambda>E. True)" "extra_suff u' = extra_suff u" for u' vs t
    using runs_add_mark [OF t(1) _ m(5), of vs _ _ u'] t(4) that
    by (intro runs_fold_bterm) auto
  show ?thesis
    unfolding UnrollFlush_def m(1,2,3) Let_def using k(1)
    apply (simp only: add_0_left)
    apply (rule runs_bnd [OF runs_assert])
    apply (rule runs_bnd [OF runs_ptr], simp only:, rule runs_bnd [OF runs_ptr], simp only:)
    apply (rule runs_bnd [OF path [unfolded add_0_left]], clarify)
    apply (rule runs_bnd [OF runs_stt [OF t(2)]], rule runs_bnd [OF runs_bool])
    apply (rule runs_bnd [OF marks [unfolded add_0_left]], assumption, assumption, assumption)
    apply (rule runs_bnd [OF runs_ops(2)], assumption, assumption)
    apply (simp only: runs_ret prod.case simp_thms)
    apply (erule bterm_cong)
    using m(1,3) by (auto simp: flush_path_def)
qed

lemma runs_GenTranRel:
  assumes r: "ref_ok h r" and u: "extra_suff (unroll_orig cd) = k_suff_orig" "extra_suff (unroll_appl cd) = k_suff_appl"
    and k: "0 \<le> ko" "ko < 2 ^ 31" "0 \<le> ka" "ka + 1 < 2 ^ 31"
  shows "runs h (GenTranRel ctx cd r ko ka) (\<lambda>(t, cd'). bterm t (diagram h r ko ka) \<and>
    extra_suff (unroll_orig cd') = k_suff_orig \<and> extra_suff (unroll_appl cd') = k_suff_appl \<and> crr cd' = crr cd)"
proof -
  have f: "runs h (UnrollFlush ctx (unroll_appl (cd\<lparr>unroll_orig := un\<rparr>)) r 0 (ka + 1) 1)
      (\<lambda>(t, u'). bterm t (flush_path h r k_suff_appl 1 (ka + 1)) \<and> extra_suff u' = k_suff_appl)" for un
    using runs_UnrollFlush [OF r, of 1 "ka + 1" "unroll_appl cd"] u k by simp
  show ?thesis
    unfolding GenTranRel_def Let_def
    apply (rule runs_bnd [OF runs_GenInit [OF r u]])
    apply (rule runs_bnd [OF runs_UnrollFlush [OF r k(1) k(1,2), where u = "unroll_orig cd", unfolded u]], clarify)
    apply (rule runs_bnd [OF f], clarify)
    apply (rule runs_bnd [OF runs_ops(2)], assumption, assumption, rule runs_bnd [OF runs_ops(2)], assumption, assumption)
    apply (simp only: runs_ret prod.case)
    by (auto elim: bterm_cong simp: diagram_def)
qed

lemma runs_once:
  assumes inv: "heap_inv h" and c: "bool_pred encodable h c" and t: "bterm t P"
  shows "runs h (foldM (\<lambda>i cstr. bnd (ptr (Some c)) (\<lambda>c. bnd (Unroller_GetZ3Expr ctx u c i) (t_or ctx cstr))) iv t)
    (\<lambda>t. bterm t (\<lambda>E. P E \<or> (\<exists>i \<in> set iv. holds (frame_at h (extra_suff u) i E) c)))"
  using t
proof (induction iv arbitrary: t P)
  case (Cons i iv)
  have "runs h (bnd (ptr (Some c)) (\<lambda>c. bnd (Unroller_GetZ3Expr ctx u c i) (t_or ctx t)))
      (\<lambda>t. bterm t (\<lambda>E. P E \<or> holds (frame_at h (extra_suff u) i E) c))"
    by (rule runs_bnd [OF runs_ptr], simp only:) (rule runs_bnd [OF runs_at [OF inv c]], rule runs_ops(3) [OF Cons.prems])
  then show ?case
    unfolding foldM.simps by (rule runs_bnd) (rule runs_bterm_cong [OF Cons.IH], assumption, auto)
qed (simp add: bterm_def)

lemma runs_const_at:
  assumes "heap_inv h"
  shows "runs h (bnd (BoolConst b) (\<lambda>e. Unroller_GetZ3Expr ctx u e t)) (\<lambda>x. bterm x (\<lambda>E. b))"
proof -
  have e: "runs h (BoolConst b) (\<lambda>e. bool_pred encodable h e \<and> (\<forall>I. eval I e = VBool b))"
    by (auto simp: runs_def BoolConst_Inr bool_pred_def encodable_def node_wf_def const_wf_def node_enc_def sort_small_def
        const_sem_def only_alloc_def)
  show ?thesis
    by (rule runs_bnd [OF e]) (erule conjE, rule runs_bterm_cong [OF runs_at [OF assms]], assumption, simp add: holds_def)
qed

lemma runs_AtLeastOnce:
  assumes "heap_inv h" "bool_pred encodable h c"
  shows "runs h (AtLeastOnce ctx u (Some c) start fin)
    (\<lambda>t. bterm t (\<lambda>E. \<exists>i \<in> {start .. fin}. holds (frame_at h (extra_suff u) i E) c))"
  unfolding AtLeastOnce_def
  by (subst bnd_assoc [symmetric], rule runs_bnd [OF runs_const_at [OF assms(1)]])
    (rule runs_bterm_cong [OF runs_once [OF assms]], assumption, simp)

lemma runs_foldM_inv:
  assumes "\<And>x s. x \<in> set xs \<Longrightarrow> A s \<Longrightarrow> runs h (f x s) A" "A s"
  shows "runs h (foldM f xs s) A"
  using assms
proof (induction xs arbitrary: s)
  case (Cons x xs)
  then show ?case unfolding foldM.simps by (intro runs_bnd [of h "f x s" A]) auto
qed simp

lemma runs_AtMostOnce:
  assumes inv: "heap_inv h" and c: "bool_pred encodable h c"
  shows "runs h (AtMostOnce ctx u (Some c) start fin) (\<lambda>t. \<exists>P. bterm t P)"
proof -
  have inner: "runs h (bnd (Unroller_GetZ3Expr ctx u c j) (\<lambda>cj. bnd (t_not ctx ci) (\<lambda>ni. bnd (t_not ctx cj) (\<lambda>nj.
      bnd (t_or ctx ni nj) (t_and ctx t))))) (\<lambda>t. \<exists>P. bterm t P)"
    if t: "\<exists>P. bterm t P" and ci: "bterm ci Q" for t ci Q j
  proof -
    obtain P where P: "bterm t P" using t by blast
    show ?thesis
      by (rule runs_bnd [OF runs_at [OF inv c]], rule runs_bnd [OF runs_ops(1) [OF ci ci]], rule runs_bnd [OF runs_ops(1)],
          assumption, assumption, rule runs_bnd [OF runs_ops(3)], assumption, assumption,
          rule runs_weaken [OF runs_ops(2) [OF P]], assumption, rule exI, assumption)
  qed
  show ?thesis
    unfolding AtMostOnce_def bnd_assoc [symmetric]
    apply (rule runs_bnd [OF runs_const_at [OF inv]])
    apply (rule runs_foldM_inv)
     apply (simp only: bnd_assoc)
     apply (rule runs_bnd [OF runs_ptr], simp only:)
     apply (rule runs_bnd [OF runs_at [OF inv c]])
     apply (rule runs_foldM_inv, rule inner, assumption+)
    apply (rule exI, assumption)
    done
qed

end

text \<open>A solver that never answers \<^verbatim>\<open>unknown\<close>.\<close>

definition decisive :: "('t, 's) z3_solver \<Rightarrow> bool" where
  "decisive sol = (\<forall>s. fst (sol_check sol s) \<noteq> Unknown)"

context z3_solver_backend
begin

lemma check_cases:
  assumes "sol_check sol s = (res, s')" "assumes_that s P"
  shows "assumes_that s' P" "res = Sat \<Longrightarrow> \<exists>E. env_ok E \<and> P E" "res = Unsat \<Longrightarrow> env_ok E \<Longrightarrow> \<not> P E"
    "res \<noteq> Sat \<Longrightarrow> decisive sol \<Longrightarrow> env_ok E \<Longrightarrow> \<not> P E" "frames s' = frames s"
proof -
  show "assumes_that s' P" "res = Sat \<Longrightarrow> \<exists>E. env_ok E \<and> P E" "res = Unsat \<Longrightarrow> env_ok E \<Longrightarrow> \<not> P E"
    using check_right [OF assms(2)] assms(1) by auto
  then show "res \<noteq> Sat \<Longrightarrow> decisive sol \<Longrightarrow> env_ok E \<Longrightarrow> \<not> P E"
    using assms(1) by (cases res) (auto simp: decisive_def, metis fst_conv)
  show "frames s' = frames s" using check_frames [of s] assms(1) by simp
qed

lemma runs_s_add:
  "bterm t Q \<Longrightarrow> assumes_that s P \<Longrightarrow> runs h (s_add sol t s) (\<lambda>s'. assumes_that s' (\<lambda>E. P E \<and> Q E))"
  unfolding s_add_def by (rule runs_weaken [OF runs_add]) auto

lemma runs_reset_add: "bterm t Q \<Longrightarrow> runs h (s_add sol t (sol_reset sol s)) (\<lambda>s'. assumes_that s' Q)"
  by (rule runs_weaken [OF runs_s_add [OF _ assumes_reset]], assumption, erule assumes_cong) simp

lemma runs_check_once:
  assumes inv: "heap_inv h" and c: "bool_pred encodable h c" and it: "bterm init PI" "bterm tran PT"
  shows "runs h (check_once ctx sol u (Some c) start fin init tran s) (\<lambda>b.
    (\<not> b \<longrightarrow> (\<exists>E. env_ok E \<and> PI E \<and> PT E \<and> \<not> (\<exists>i \<in> {start .. fin}. holds (frame_at h (extra_suff u) i E) c))) \<and>
    (b \<longrightarrow> decisive sol \<longrightarrow> (\<forall>E. env_ok E \<longrightarrow> PI E \<longrightarrow> PT E \<longrightarrow> (\<exists>i \<in> {start .. fin}. holds (frame_at h (extra_suff u) i E) c))))"
    (is "runs h _ ?Q")
proof -
  let ?O = "\<lambda>E. \<exists>i \<in> {start .. fin}. holds (frame_at h (extra_suff u) i E) c"
  have tail: "runs h (let (res, s) = sol_check sol s1 in
      if res = Sat then ret False else
      bnd (AtMostOnce ctx u (Some c) start fin) (\<lambda>at_most_once.
      bnd (t_and ctx init tran) (\<lambda>it. bnd (t_not ctx at_most_once) (\<lambda>n. bnd (t_and ctx it n) (\<lambda>q.
      bnd (s_add sol q s) (\<lambda>s. let (res, s) = sol_check sol s in ret (res \<noteq> Sat))))))) ?Q"
    if s1: "assumes_that s1 (\<lambda>E. (PI E \<and> PT E) \<and> \<not> ?O E)" for s1
  proof (cases "sol_check sol s1")
    case (Pair res s2)
    note k = check_cases [OF Pair s1]
    have last: "runs h (let (res, s) = sol_check sol s3 in ret (res \<noteq> Sat)) ?Q"
      if "assumes_that s3 (\<lambda>E. ((PI E \<and> PT E) \<and> \<not> ?O E) \<and> R E)" "res \<noteq> Sat" for s3 R
    proof (cases "sol_check sol s3")
      case (Pair res' s4)
      show ?thesis using check_cases [OF Pair that(1)] k(4) [OF that(2)] by (auto simp: Pair)
    qed
    have most: "runs h (AtMostOnce ctx u (Some c) start fin) (\<lambda>t. \<exists>P. bterm t P)" by (rule runs_AtMostOnce [OF inv c])
    show ?thesis
    proof (cases "res = Sat")
      case True
      then show ?thesis using k(2) by (auto simp: Pair)
    next
      case False
      then show ?thesis
        unfolding Pair Let_def prod.case if_not_P [OF False]
        apply (intro runs_bnd [OF most])
        apply (erule exE, rule runs_bnd [OF runs_ops(2) [OF it]])
        apply (rule runs_bnd [OF runs_ops(1)], assumption, assumption)
        apply (rule runs_bnd [OF runs_ops(2)], assumption, assumption)
        apply (rule runs_bnd [OF runs_s_add [OF _ k(1)]], assumption)
        apply (rule last [unfolded Let_def], assumption, assumption)
        done
    qed
  qed
  show ?thesis
    unfolding check_once_def
    apply (rule runs_bnd [OF runs_AtLeastOnce [OF inv c]])
    apply (rule runs_bnd [OF runs_ops(2) [OF it]])
    apply (rule runs_bnd [OF runs_ops(1)], assumption, assumption)
    apply (rule runs_bnd [OF runs_ops(2)], assumption, assumption)
    apply (rule runs_bnd [OF runs_reset_add], assumption)
    apply (rule tail, assumption)
    done
qed

end

section \<open>The number of steps\<close>

text \<open>Computations that may also stop with an error of \<open>X\<close>.\<close>

definition runs_or :: "heap \<Rightarrow> error set \<Rightarrow> 'a M \<Rightarrow> ('a \<Rightarrow> bool) \<Rightarrow> bool" where
  "runs_or h X m Q = (\<forall>h1. only_alloc h h1 \<longrightarrow>
     (case m h1 of Inl e \<Rightarrow> e \<in> X | Inr (r, h2) \<Rightarrow> only_alloc h1 h2 \<and> Q r))"

lemma runs_or_runs: "runs h m Q \<Longrightarrow> runs_or h X m Q"
  unfolding runs_def runs_or_def by fastforce

lemma runs_or_ret [simp]: "runs_or h X (ret x) Q = Q x"
  by (auto simp: runs_or_def monad_simps intro: exI [of _ h])

lemma runs_or_bnd:
  assumes "runs_or h X m Q" "\<And>r. Q r \<Longrightarrow> runs_or h X (f r) R"
  shows "runs_or h X (bnd m f) R"
  unfolding runs_or_def
proof (intro allI impI)
  fix h1 assume a: "only_alloc h h1"
  show "case bnd m f h1 of Inl e \<Rightarrow> e \<in> X | Inr (r, h2) \<Rightarrow> only_alloc h1 h2 \<and> R r"
  proof (cases "m h1")
    case (Inl e)
    then show ?thesis using assms(1) a by (auto simp: runs_or_def monad_simps split: sum.splits)
  next
    case (Inr rh)
    obtain r h2 where rh: "rh = (r, h2)" by (cases rh)
    have q: "only_alloc h1 h2" "Q r" using assms(1) a Inr rh by (auto simp: runs_or_def split: sum.splits)
    have "case f r h2 of Inl e \<Rightarrow> e \<in> X | Inr (r', h3) \<Rightarrow> only_alloc h2 h3 \<and> R r'"
      using assms(2) [OF q(2)] only_alloc_trans [OF a q(1)] by (auto simp: runs_or_def)
    then show ?thesis using Inr rh q(1) by (auto simp: monad_simps intro: only_alloc_trans split: sum.splits)
  qed
qed

lemma runs_orD: "runs_or h X m Q \<Longrightarrow> (case m h of Inl e \<Rightarrow> e \<in> X | Inr (r, h') \<Rightarrow> only_alloc h h' \<and> Q r)"
  by (simp add: runs_or_def only_alloc_def)

lemma runs_or_first:
  assumes "runs h m Q" "\<And>r. Q r \<Longrightarrow> runs_or h X (f r) R"
  shows "runs_or h X (bnd m f) R"
  using runs_or_bnd [OF runs_or_runs [OF assms(1)] assms(2)] .

lemma runs_or_check: "(\<not> b \<Longrightarrow> IlaCheck msg \<in> X) \<Longrightarrow> runs_or h X (ila_check b msg) (\<lambda>_. b)"
  by (auto simp: runs_or_def monad_simps)

text \<open>Every flushing path of \<open>k\<close> steps completes.\<close>

definition orig_unroller :: "RefinementMap \<Rightarrow> unit Unroller" where
  "orig_unroller r = fold AddGlobPred (ref_invs r) (AddGlobPred (the (ref_flush r)) (Unroller_new k_suff_orig))"

definition appl_unroller :: "RefinementMap \<Rightarrow> int \<Rightarrow> unit Unroller" where
  "appl_unroller r k = fold AddGlobPred (ref_invs r)
     (fold (AddStepPred (the (ref_flush r))) [1 .. k + 1] (AddInitPred (the (ref_appl r)) (Unroller_new k_suff_appl)))"

definition orig_completes :: "heap \<Rightarrow> RefinementMap \<Rightarrow> int \<Rightarrow> bool" where
  "orig_completes h r k = (\<forall>E. env_ok E \<longrightarrow> init_holds h r E \<longrightarrow> mono_path h (the (ref_coi r)) (orig_unroller r) k 0 E \<longrightarrow>
     (\<exists>i \<in> {0 .. k}. holds (frame_at h k_suff_orig i E) (the (ref_cmpl r))))"

definition orig_dead :: "heap \<Rightarrow> RefinementMap \<Rightarrow> int \<Rightarrow> bool" where
  "orig_dead h r k = (\<forall>E. env_ok E \<longrightarrow> init_holds h r E \<longrightarrow> \<not> mono_path h (the (ref_coi r)) (orig_unroller r) k 0 E)"

definition appl_completes :: "heap \<Rightarrow> RefinementMap \<Rightarrow> int \<Rightarrow> bool" where
  "appl_completes h r k = (\<forall>E. env_ok E \<longrightarrow> init_holds h r E \<longrightarrow> mono_path h (the (ref_coi r)) (appl_unroller r k) (k + 1) 0 E \<longrightarrow>
     (\<exists>i \<in> {1 .. k + 1}. holds (frame_at h k_suff_appl i E) (the (ref_cmpl r))))"

text \<open>The first number of steps from a given one that has a property, or $-1$.\<close>

definition first_that :: "(int \<Rightarrow> bool) \<Rightarrow> int list \<Rightarrow> int" where
  "first_that P ns = (case filter P ns of [] \<Rightarrow> -1 | k # _ \<Rightarrow> k)"

definition first_step :: "(int \<Rightarrow> bool) \<Rightarrow> int \<Rightarrow> int \<Rightarrow> int" where
  "first_step P k mx = first_that P [if k \<ge> 0 then k else 0 .. mx]"

definition cd_ok :: "heap \<Rightarrow> CompRefRel \<Rightarrow> 't CommDiag \<Rightarrow> bool" where
  "cd_ok h c cd = (crr_ok h c \<and> crr cd = c \<and> extra_suff (unroll_orig cd) = k_suff_orig \<and> extra_suff (unroll_appl cd) = k_suff_appl)"

text \<open>After construction both flushing unrollers of the incremental check have the flushing function of the second
  ILA as their only predicate: the four flushing paths share two unrollers.\<close>

definition inc_ok :: "heap \<Rightarrow> CompRefRel \<Rightarrow> 't CommDiag \<Rightarrow> bool" where
  "inc_ok h c cd =
     ((\<forall>uid. g_pred (GetUnrl uid cd) = [the (ref_flush (refine_b c))] \<and> i_pred (GetUnrl uid cd) = [] \<and> s_pred (GetUnrl uid cd) = Map.empty) \<and>
      extra_suff (GetUnrlOld cd) = k_suff_old \<and> extra_suff (GetUnrlNew cd) = k_suff_new \<and>
      (\<forall>uid. set (GetStts uid cd) = tree_states h (the (ref_coi (GetRefine uid cd)))))"

context z3_solver_backend
begin

lemma orig_path:
  assumes r: "ref_ok h r" and m: "ref_coi r = Some m" "ref_flush r = Some f" and k: "0 \<le> k" "k < 2 ^ 31"
    and u: "extra_suff u = k_suff_orig"
  shows "runs h (MonoAssn ctx m k 0 (fold AddGlobPred (ref_invs r) (AddGlobPred f (ClearPred u))))
    (\<lambda>(t, u'). bterm t (mono_path h m (orig_unroller r) k 0) \<and> extra_suff u' = k_suff_orig)"
proof -
  let ?u = "fold AddGlobPred (f # ref_invs r) (ClearPred u)"
  have "mono_tree h m" "\<forall>p \<in> set (f # ref_invs r). bool_pred encodable h p" using r m node_pred by (auto simp: ref_ok_def)
  then have ok: "mono_ok h m ?u" unfolding mono_ok_tree by (intro conjI preds_enc_add preds_enc_clear)
  have "same_preds ?u (fold AddGlobPred (f # ref_invs r) (Unroller_new k_suff_orig :: unit Unroller))"
    unfolding u [symmetric] by (rule same_preds_add(1) [OF same_preds_clear])
  then have "mono_path h m ?u = mono_path h m (orig_unroller r)"
    using same_preds_path m(2) unfolding orig_unroller_def by fastforce
  then show ?thesis using runs_mono [OF ok k, of 0] u extra_suff_preds(1) [of "f # ref_invs r" "ClearPred u"] by simp
qed

lemma appl_path:
  assumes r: "ref_ok h r" and m: "ref_coi r = Some m" "ref_flush r = Some f" "ref_appl r = Some a" and k: "0 \<le> k" "k + 1 < 2 ^ 31"
    and u: "extra_suff u = k_suff_appl"
  shows "runs h (MonoAssn ctx m (k + 1) 0 (fold AddGlobPred (ref_invs r) (fold (AddStepPred f) [1 .. k + 1] (AddInitPred a (ClearPred u)))))
    (\<lambda>(t, u'). bterm t (mono_path h m (appl_unroller r k) (k + 1) 0) \<and> extra_suff u' = k_suff_appl)"
proof -
  let ?u = "fold AddGlobPred (ref_invs r) (fold (AddStepPred f) [1 .. k + 1] (AddInitPred a (ClearPred u)))"
  have "mono_tree h m" "bool_pred encodable h f" "bool_pred encodable h a" "\<forall>p \<in> set (ref_invs r). bool_pred encodable h p"
    using r m node_pred by (auto simp: ref_ok_def)
  then have ok: "mono_ok h m ?u" unfolding mono_ok_tree by (intro conjI preds_enc_add preds_enc_clear)
  have "mono_path h m ?u = mono_path h m (appl_unroller r k)"
    unfolding appl_unroller_def m option.sel u [symmetric]
    by (intro same_preds_path same_preds_add same_preds_clear)
  then show ?thesis using runs_mono [OF ok, of "k + 1" 0] k u by simp
qed

lemma runs_CheckStepOrig:
  assumes cd: "cd_ok h c cd" and r: "ref_ok h r" and k: "0 \<le> k" "k < 2 ^ 31"
    and X: "orig_dead h r k \<Longrightarrow> IlaCheck ''Dead transition'' \<in> X"
  shows "runs_or h X (CheckStepOrig ctx sol r k cd) (\<lambda>(b, cd'). cd_ok h c cd' \<and>
    (b \<longrightarrow> decisive sol \<longrightarrow> orig_completes h r k) \<and> (\<not> b \<longrightarrow> \<not> orig_completes h r k))"
proof -
  obtain m f a e where m: "ref_coi r = Some m" "ref_flush r = Some f" "ref_cmpl r = Some e" "mono_tree h m" "bool_pred encodable h e"
    using r node_pred by (auto simp: ref_ok_def)
  have u: "extra_suff (unroll_orig cd) = k_suff_orig" "extra_suff (unroll_appl cd) = k_suff_appl" using cd by (simp_all add: cd_ok_def)
  have final: "cd_ok h c (cd\<lparr>unroll_orig := un\<rparr>)" if "extra_suff un = k_suff_orig" for un
    using cd that by (simp add: cd_ok_def)
  have dead: "assumes_that s (\<lambda>E. True \<and> init_holds h r E \<and> mono_path h m (orig_unroller r) k 0 E) \<Longrightarrow>
      \<not> fst (sol_check sol s) \<noteq> Unsat \<Longrightarrow> orig_dead h r k" for s
    using check_right(1) [of s] m(1) by (auto simp: orig_dead_def)
  show ?thesis
    unfolding CheckStepOrig_def m(1,2,3) Let_def
    apply (rule runs_or_first [OF runs_GenInit [OF r u]])
    apply (rule runs_or_first [OF runs_ptr], simp only:, rule runs_or_first [OF runs_ptr], simp only:)
    apply (rule runs_or_first [OF orig_path [OF r m(1,2) k u(1)]], clarify)
    apply (rule runs_or_first [OF runs_ops(2)], assumption, assumption)
    apply (rule runs_or_first [OF runs_s_add [OF _ assumes_new]], assumption)
    apply (simp only: split_beta)
    apply (rule runs_or_bnd [OF runs_or_check], rule X, erule dead, assumption)
    apply (rule runs_or_first [OF runs_check_once [OF tree_vars(1) [OF m(4)] m(5)]], assumption, assumption)
    using m final by (auto simp: orig_completes_def)
qed

lemma runs_CheckStepAppl:
  assumes cd: "cd_ok h c cd" and r: "ref_ok h r" and k: "0 \<le> k" "k + 1 < 2 ^ 31"
  shows "runs h (CheckStepAppl ctx sol r k cd) (\<lambda>(b, cd'). cd_ok h c cd' \<and>
    (b \<longrightarrow> decisive sol \<longrightarrow> appl_completes h r k) \<and> (\<not> b \<longrightarrow> \<not> appl_completes h r k))"
proof -
  obtain m f a e where m: "ref_coi r = Some m" "ref_flush r = Some f" "ref_appl r = Some a" "ref_cmpl r = Some e" "mono_tree h m"
    "bool_pred encodable h e" using r node_pred by (auto simp: ref_ok_def)
  have u: "extra_suff (unroll_orig cd) = k_suff_orig" "extra_suff (unroll_appl cd) = k_suff_appl" using cd by (simp_all add: cd_ok_def)
  have final: "cd_ok h c (cd\<lparr>unroll_appl := un\<rparr>)" if "extra_suff un = k_suff_appl" for un
    using cd that by (simp add: cd_ok_def)
  show ?thesis
    unfolding CheckStepAppl_def m(1,2,3,4) Let_def
    apply (rule runs_bnd [OF runs_GenInit [OF r u]])
    apply (rule runs_bnd [OF runs_ptr], simp only:, rule runs_bnd [OF runs_ptr], simp only:, rule runs_bnd [OF runs_ptr], simp only:)
    apply (rule runs_bnd [OF appl_path [OF r m(1,2,3) k u(2)]], clarify)
    apply (rule runs_bnd [OF runs_check_once [OF tree_vars(1) [OF m(5)] m(6)]], assumption, assumption)
    using m final by (auto simp: appl_completes_def)
qed

lemma runs_det_step:
  assumes "\<And>n a. n \<in> set ns \<Longrightarrow> A a \<Longrightarrow> runs_or h X (chk n a) (\<lambda>(b, a'). A a' \<and> (b \<longrightarrow> D \<longrightarrow> R n) \<and> (\<not> b \<longrightarrow> \<not> R n))" "A a"
  shows "runs_or h X (det_step chk ns a) (\<lambda>(k, a'). A a' \<and> (k = -1 \<or> k \<in> set ns) \<and> (D \<longrightarrow> k = first_that R ns))"
  using assms
proof (induction ns arbitrary: a)
  case (Cons n ns)
  have step: "runs_or h X (chk n a) (\<lambda>(b, a'). A a' \<and> (b \<longrightarrow> D \<longrightarrow> R n) \<and> (\<not> b \<longrightarrow> \<not> R n))" using Cons.prems by simp
  have rest: "runs_or h X (det_step chk ns a') (\<lambda>(k, a'). A a' \<and> (k = -1 \<or> k \<in> set (n # ns)) \<and> (D \<longrightarrow> k = first_that R (n # ns)))"
    if "A a'" "\<not> R n" for a'
  proof -
    have "runs_or h X (det_step chk ns a') (\<lambda>(k, a'). A a' \<and> (k = -1 \<or> k \<in> set ns) \<and> (D \<longrightarrow> k = first_that R ns))"
      using Cons.prems(1) that(1) by (intro Cons.IH) auto
    then show ?thesis using that(2) unfolding runs_or_def by (fastforce simp: first_that_def split: sum.splits)
  qed
  show ?case
    unfolding det_step.simps by (rule runs_or_bnd [OF step]) (use rest in \<open>auto simp: first_that_def\<close>)
qed (simp add: first_that_def)

lemma runs_DetStepOrig:
  assumes cd: "cd_ok h c cd" and r: "ref_ok h r" and mx: "mx + 1 < 2 ^ 31"
    and X: "\<And>k. 0 \<le> k \<Longrightarrow> k \<le> mx \<Longrightarrow> orig_dead h r k \<Longrightarrow> IlaCheck ''Dead transition'' \<in> X"
  shows "runs_or h X (DetStepOrig ctx sol r mx cd) (\<lambda>(k, cd'). cd_ok h c cd' \<and>
    (k = -1 \<or> k \<in> {0 .. mx}) \<and> (decisive sol \<longrightarrow> k = first_step (orig_completes h r) (step_orig r) mx))"
proof -
  let ?l = "if step_orig r \<ge> 0 then step_orig r else 0"
  have "runs_or h X (CheckStepOrig ctx sol r n a) (\<lambda>(b, a'). cd_ok h c a' \<and>
      (b \<longrightarrow> decisive sol \<longrightarrow> orig_completes h r n) \<and> (\<not> b \<longrightarrow> \<not> orig_completes h r n))"
    if "n \<in> set [?l .. mx]" "cd_ok h c a" for n a
    using that(1) mx by (intro runs_CheckStepOrig [OF that(2) r] X) (auto split: if_splits)
  from runs_det_step [where A = "cd_ok h c", OF this cd] show ?thesis
    unfolding DetStepOrig_def first_step_def runs_or_def by (fastforce split: sum.splits)
qed

lemma runs_DetStepAppl:
  assumes cd: "cd_ok h c cd" and r: "ref_ok h r" and mx: "mx + 1 < 2 ^ 31"
  shows "runs_or h X (DetStepAppl ctx sol r mx cd) (\<lambda>(k, cd'). cd_ok h c cd' \<and>
    (k = -1 \<or> k \<in> {0 .. mx}) \<and> (decisive sol \<longrightarrow> k = first_step (appl_completes h r) (step_appl r) mx))"
proof -
  let ?l = "if step_appl r \<ge> 0 then step_appl r else 0"
  have "runs_or h X (CheckStepAppl ctx sol r n a) (\<lambda>(b, a'). cd_ok h c a' \<and>
      (b \<longrightarrow> decisive sol \<longrightarrow> appl_completes h r n) \<and> (\<not> b \<longrightarrow> \<not> appl_completes h r n))"
    if "n \<in> set [?l .. mx]" "cd_ok h c a" for n a
    using that(1) mx by (intro runs_or_runs runs_CheckStepAppl [OF that(2) r]) (auto split: if_splits)
  from runs_det_step [where A = "cd_ok h c", OF this cd] show ?thesis
    unfolding DetStepAppl_def first_step_def runs_or_def by (fastforce split: sum.splits)
qed

end

section \<open>Sanity checks\<close>

text \<open>What is documented of \<^verbatim>\<open>z3::forall\<close>: over a non-empty list of constants it builds a Boolean term. The
  result of the sanity checks is only logged, so its meaning is not relied on.\<close>

definition forall_ok :: "'t z3_api \<Rightarrow> ('t \<Rightarrow> smt_sort) \<Rightarrow> ('t list \<Rightarrow> 't \<Rightarrow> 't result) \<Rightarrow> bool" where
  "forall_ok ctx tsort z3_forall =
     (\<forall>xs body. xs \<noteq> [] \<longrightarrow> tsort body = SBool \<longrightarrow>
        (\<forall>x \<in> set xs. \<exists>n s c. z3_constant ctx n s = Inr c \<and> x = z3_simplify ctx c) \<longrightarrow>
        (\<exists>t. z3_forall xs body = Inr t \<and> tsort t = SBool))"

lemma sub_encodable: "encodable h e \<Longrightarrow> v \<in> subexprs e \<Longrightarrow> encodable h v"
proof (induction e rule: subexprs.induct)
  case (1 i n s p ps as k)
  then have "encodable h a" if "a \<in> set as" for a
    using that every_args [of "node_enc h" "Expr i n s p ps as k" a] by (auto simp: encodable_def list_all_iff)
  then show ?case using 1 by auto
qed

context z3_solver_backend
begin

lemma runs_s_add_any: "tsort t = SBool \<Longrightarrow> runs h (s_add sol t s) (\<lambda>_. True)"
  using add [of t s] by (auto simp: s_add_def runs_def)

lemma bterm_sort: "bterm t P \<Longrightarrow> tsort t = SBool"
  by (simp add: bterm_def)

lemma form_pred: "form h e P \<Longrightarrow> bool_pred encodable h e"
  by (simp add: form_def node_def bool_pred_def)

lemma runs_curr_const:
  assumes "heap_inv h" "encodable h v" "is_var v"
  shows "runs h (CurrState ctx u v t) (\<lambda>x. \<exists>n s c. z3_constant ctx n s = Inr c \<and> x = z3_simplify ctx c)"
proof -
  have "\<exists>x. CurrState ctx u v t h1 = Inr (x, h1) \<and> (\<exists>n s c. z3_constant ctx n s = Inr c \<and> x = z3_simplify ctx c)"
    if a: "only_alloc h h1" for h1
  proof -
    obtain c where c: "GetExpr ctx h1 v (SuffCurr u t) = Inr (z3_simplify ctx c)"
      "z3_constant ctx (z3_vname h1 (SuffCurr u t) v) (smt_sort_of (esort v)) = Inr c"
      using var_term [OF heap_inv_alloc [OF assms(1) a], of v "SuffCurr u t"] assms(2,3) by (auto simp: encodable_alloc [OF a])
    then have "CurrState ctx u v t h1 = Inr (z3_simplify ctx c, h1)" using assms(3) by (simp add: CurrState_def gen_GetExpr_def monad_simps)
    then show ?thesis using c(2) by blast
  qed
  then show ?thesis by (fastforce simp: runs_def)
qed

lemma runs_forall:
  assumes fa: "forall_ok ctx tsort z3_forall" and xs: "list_all2 (\<lambda>v x. \<exists>n s c. z3_constant ctx n s = Inr c \<and> x = z3_simplify ctx c) vs xs"
    and ne: "vs \<noteq> []" and body: "tsort body = SBool"
  shows "runs h (lift (z3_forall xs body)) (\<lambda>t. tsort t = SBool)"
proof -
  have "xs \<noteq> []" using xs ne by auto
  moreover have "\<forall>x \<in> set xs. \<exists>n s c. z3_constant ctx n s = Inr c \<and> x = z3_simplify ctx c"
    using xs by (induction rule: list_all2_induct) auto
  ultimately show ?thesis using fa body unfolding forall_ok_def by (fastforce simp: runs_def)
qed

lemma runs_SanityRefinement:
  assumes fa: "forall_ok ctx tsort z3_forall" and r: "ref_ok h r"
    and u: "extra_suff (unroll_orig cd) = k_suff_orig" "extra_suff (unroll_appl cd) = k_suff_appl"
  shows "runs h (SanityCheckRefinement ctx sol z3_forall cd r) (\<lambda>_. True)"
proof -
  obtain m f a c where m: "ref_coi r = Some m" "ref_flush r = Some f" "ref_appl r = Some a" "ref_cmpl r = Some c" "mono_tree h m"
    "node h SortBool f" "node h SortBool a" "node h SortBool c" and v: "\<exists>v \<in> subexprs a. is_var v"
    using r unfolding ref_ok_def by blast
  note inv = tree_vars(1) [OF m(5)]
  note pc = builds_logic [OF inv node_form [OF m(6)] node_form [OF m(7)], unfolded builds_def]
    builds_logic [OF inv node_form [OF m(6)] node_form [OF m(8)], unfolded builds_def]
  obtain vs where vs: "GetVar_expr a = Inr vs" "set vs = {x \<in> subexprs a. is_var x}"
    using var_visit(1) [of a "[]"] by (auto simp: GetVar_expr_def)
  have ne: "vs \<noteq> []" using vs(2) v by auto
  have vars: "runs h (mapM (\<lambda>v. CurrState ctx (unroll_appl cd) v 0) vs)
      (list_all2 (\<lambda>v x. \<exists>n s c. z3_constant ctx n s = Inr c \<and> x = z3_simplify ctx c) vs)"
    using vs(2) m(7) sub_encodable by (intro runs_mapM runs_curr_const [OF inv]) (auto simp: node_def)
  have get: "runs h (lift (GetVar_expr a)) (\<lambda>r. r = vs)" using vs(1) by (auto simp: runs_def)
  have cond: "runs h (if step_orig r \<noteq> 0 \<or> step_appl r \<noteq> 0 then
            bnd (Imply f c) (\<lambda>fc. bnd (gen_GetExpr ctx fc []) (\<lambda>cmpl_unique. bnd (t_not ctx cmpl_unique) (\<lambda>n.
            bnd (s_add sol n (sol_reset sol s)) (\<lambda>s. let (res, s) = sol_check sol s in ret (res = Unsat, s)))))
          else ret (False, s)) (\<lambda>_. True)" for s
  proof (cases "step_orig r \<noteq> 0 \<or> step_appl r \<noteq> 0")
    case True
    show ?thesis
      unfolding if_P [OF True]
      by (rule runs_bnd [OF pc(6)], rule runs_bnd [OF runs_pred [OF inv]], erule form_pred,
          rule runs_bnd [OF runs_ops(1)], assumption, assumption,
          rule runs_bnd [OF runs_s_add_any], erule bterm_sort, simp add: split_beta)
  qed simp
  have tail: "runs h (bnd (GenInit ctx cd r) (\<lambda>init.
     bnd (Unroller_GetZ3Expr ctx (unroll_appl cd) a 0) (\<lambda>an.
     bnd (lift (GetVar_expr a)) (\<lambda>appl_vars.
     bnd (mapM (\<lambda>v. CurrState ctx (unroll_appl cd) v 0) appl_vars) (\<lambda>appl_z3.
     bnd (t_not ctx init) (\<lambda>ni. bnd (t_and ctx an ni) (\<lambda>body.
     bnd (lift (z3_forall appl_z3 body)) (\<lambda>q.
     bnd (s_add sol q (sol_reset sol s)) (\<lambda>s.
     let (res, s) = sol_check sol s in ret (res \<noteq> Sat)))))))))) (\<lambda>_. True)" for s
    apply (rule runs_bnd [OF runs_GenInit [OF r u]])
    apply (rule runs_bnd [OF runs_at [OF inv node_pred [OF m(7)]]])
    apply (rule runs_bnd [OF get], simp only:)
    apply (rule runs_bnd [OF vars])
    apply (rule runs_bnd [OF runs_ops(1)], assumption, assumption)
    apply (rule runs_bnd [OF runs_ops(2)], assumption, assumption)
    apply (rule runs_bnd [OF runs_forall [OF fa _ ne]], assumption, erule bterm_sort)
    apply (rule runs_bnd [OF runs_s_add_any], assumption)
    by (simp add: split_beta)
  have chk: "runs h (ila_check (Some x \<noteq> None) msg) (\<lambda>_. True)" for x :: 'z and msg by (auto simp: runs_def)
  show ?thesis
    unfolding SanityCheckRefinement_def m(1,2,3,4)
    apply (rule runs_bnd [OF chk], rule runs_bnd [OF chk], rule runs_bnd [OF chk], rule runs_bnd [OF chk])
    apply (rule runs_bnd [OF runs_ptr], simp only:, rule runs_bnd [OF runs_ptr], simp only:, rule runs_bnd [OF runs_ptr], simp only:)
    apply (rule runs_bnd [OF pc(1)], rule runs_bnd [OF runs_pred [OF inv]], erule form_pred)
    apply (rule runs_bnd [OF runs_s_add_any], erule bterm_sort)
    apply (simp only: split_beta Let_def)
    apply (rule runs_if, simp)
    apply (rule runs_bnd [OF cond [unfolded Let_def split_beta]])
    apply (simp only: split_beta, rule runs_if, simp)
    apply (rule tail [unfolded Let_def split_beta])
    done
qed

lemma runs_SanityRelation:
  assumes "ilas h ma \<noteq> None" "ilas h mb \<noteq> None"
  shows "runs h (SanityCheckRelation rel ma mb) (\<lambda>_. True)"
proof -
  obtain vs where "GetVar_expr rel = Inr vs" using var_visit(1) [of rel "[]"] by (auto simp: GetVar_expr_def)
  then show ?thesis using assms by (auto simp: runs_def SanityCheckRelation_def InsertStt_def only_alloc_def monad_simps)
qed

lemma runs_SanityCheck:
  assumes fa: "forall_ok ctx tsort z3_forall" and cd: "cd_ok h c cd"
  shows "runs h (SanityCheck ctx sol z3_forall cd) (\<lambda>_. True)"
proof -
  have r: "ref_ok h (refine_a (crr cd))" "ref_ok h (refine_b (crr cd))"
    and u: "extra_suff (unroll_orig cd) = k_suff_orig" "extra_suff (unroll_appl cd) = k_suff_appl"
    using cd by (simp_all add: cd_ok_def crr_ok_def)
  obtain ma mb where m: "ref_coi (refine_a (crr cd)) = Some ma" "ref_coi (refine_b (crr cd)) = Some mb" "mono_tree h ma" "mono_tree h mb"
    using r by (auto simp: ref_ok_def)
  show ?thesis
    unfolding SanityCheck_def m(1,2)
    apply (rule runs_bnd [OF runs_SanityRefinement [OF fa r(1) u]])
    apply (rule runs_bnd [OF runs_SanityRefinement [OF fa r(2) u]])
    apply (rule runs_bnd [OF runs_ptr], simp only:, rule runs_bnd [OF runs_ptr], simp only:)
    apply (rule runs_bnd [OF runs_SanityRelation [OF tree_vars(2) [OF m(3)] tree_vars(2) [OF m(4)]]])
    by simp
qed

section \<open>The monolithic check\<close>

text \<open>The constructor keeps what the checks rely on.\<close>

lemma runs_CommDiag_New:
  assumes fa: "forall_ok ctx tsort z3_forall" and c: "crr_ok h c"
  shows "runs h (CommDiag_New ctx sol z3_forall c) (\<lambda>cd. cd_ok h c cd \<and> inc_ok h c cd)"
proof -
  obtain ma fa' mb fb where m: "ref_coi (refine_a c) = Some ma" "ref_coi (refine_b c) = Some mb" "mono_tree h ma" "mono_tree h mb"
    "ref_flush (refine_a c) = Some fa'" "ref_flush (refine_b c) = Some fb"
    using c by (auto simp: crr_ok_def ref_ok_def)
  have ok: "cd_ok h c (CommDiag_fields c)" using c by (simp add: cd_ok_def CommDiag_fields_def Unroller_new_def)
  let ?cd = "(CommDiag_fields c)\<lparr>unrl_old := AddGlobPred fb (ClearPred (AddGlobPred fa' (ClearPred (Unroller_new k_suff_old)))),
     unrl_new := AddGlobPred fb (ClearPred (AddGlobPred fa' (ClearPred (Unroller_new k_suff_new))))\<rparr>"
  have un: "foldM (\<lambda>uid cd. let un = ClearPred (GetUnrl uid cd) in
        bnd (ptr (ref_flush (GetRefine uid cd))) (\<lambda>f. ret (put_unrl uid (AddGlobPred f un) cd))) all_uids (CommDiag_fields c) = ret ?cd"
    using m by (simp add: fun_eq_iff all_uids_def GetRefine_def CommDiag_fields_def ptr_def GetUnrl_def put_unrl_def monad_simps)
  have built: "cd_ok h c (?cd\<lparr>stts_a := sa, stts_b := sb\<rparr>) \<and> inc_ok h c (?cd\<lparr>stts_a := sa, stts_b := sb\<rparr>)"
    if "set sa = tree_states h ma" "set sb = tree_states h mb" for sa sb
    using ok m that by (simp add: cd_ok_def inc_ok_def GetUnrl_def GetUnrlOld_def GetUnrlNew_def GetStts_def GetRefine_def CommDiag_fields_def Unroller_new_def AddGlobPred_def ClearPred_def ClearGlobPred_def
        ClearInitPred_def ClearStepPred_def split: UID.split)
  have crr: "crr ?cd = c" by (simp add: CommDiag_fields_def)
  show ?thesis
    unfolding CommDiag_New_def CommDiag_Init_def un
    apply (rule runs_bnd [OF runs_SanityCheck [OF fa ok]])
    apply (simp only: bnd_ret(1) crr m(1,2))
    apply (rule runs_bnd [OF runs_ptr], simp only:, rule runs_bnd [OF runs_stt_tree [OF m(3)]])
    apply (rule runs_bnd [OF runs_ptr], simp only:, rule runs_bnd [OF runs_stt_tree [OF m(4)]])
    apply (simp only: runs_ret, rule built, assumption, assumption)
    done
qed

lemma runs_dead:
  assumes "bterm t P"
  shows "runs h (dead_tran sol t (sol_reset sol s)) (\<lambda>(b, s'). (b \<longrightarrow> \<not> (\<exists>E. env_ok E \<and> P E)) \<and> (\<not> b \<longrightarrow> decisive sol \<longrightarrow> (\<exists>E. env_ok E \<and> P E)))"
    and "runs h (dead_tran sol t (sol_new sol)) (\<lambda>(b, s'). (b \<longrightarrow> \<not> (\<exists>E. env_ok E \<and> P E)) \<and> (\<not> b \<longrightarrow> decisive sol \<longrightarrow> (\<exists>E. env_ok E \<and> P E)))"
proof -
  let ?Q = "\<lambda>(b, s' :: 's). (b \<longrightarrow> \<not> (\<exists>E. env_ok E \<and> P E)) \<and> (\<not> b \<longrightarrow> decisive sol \<longrightarrow> (\<exists>E. env_ok E \<and> P E))"
  have q: "runs h (let (res, s) = sol_check sol s1 in ret (res = Unsat, s)) ?Q"
    if "assumes_that s1 P" for s1
  proof (cases "sol_check sol s1")
    case (Pair res s2)
    then have "decisive sol \<Longrightarrow> res \<noteq> Unknown" by (metis decisive_def fst_conv)
    then show ?thesis using check_cases(2,3) [OF Pair that] by (cases res) (auto simp: Pair)
  qed
  show "runs h (dead_tran sol t (sol_reset sol s)) ?Q"
    unfolding dead_tran_def by (rule runs_bnd [OF runs_reset_add [OF assms]], rule q)
  show "runs h (dead_tran sol t (sol_new sol)) ?Q"
    unfolding dead_tran_def
    by (rule runs_bnd [OF runs_s_add [OF assms assumes_new]], rule q) simp
qed

end

text \<open>For given numbers of steps, every pair of diagrams with related flushed states has related flushed states
  after the applied instructions.\<close>

definition commutes :: "heap \<Rightarrow> CompRefRel \<Rightarrow> int \<Rightarrow> int \<Rightarrow> int \<Rightarrow> int \<Rightarrow> bool" where
  "commutes h c oa aa ob ab =
     (\<forall>E. env_ok E \<longrightarrow> diagram h (refine_a c) oa aa E \<longrightarrow> diagram h (refine_b c) ob ab E \<longrightarrow>
        holds (z3_interp h k_suff_orig E) (relation c) \<longrightarrow> holds (z3_interp h k_suff_appl E) (relation c))"

definition alive :: "heap \<Rightarrow> RefinementMap \<Rightarrow> int \<Rightarrow> int \<Rightarrow> bool" where
  "alive h r ko ka = (\<exists>E. env_ok E \<and> diagram h r ko ka E)"

text \<open>What the check decides: the least numbers of steps after which the four paths complete exist within the bound, the
  diagrams with these numbers are not empty, and they commute.\<close>

definition equivalent :: "heap \<Rightarrow> CompRefRel \<Rightarrow> int \<Rightarrow> bool" where
  "equivalent h c mx =
     (let a = refine_a c; b = refine_b c;
          oa = first_step (orig_completes h a) (step_orig a) mx; aa = first_step (appl_completes h a) (step_appl a) mx;
          ob = first_step (orig_completes h b) (step_orig b) mx; ab = first_step (appl_completes h b) (step_appl b) mx in
      0 \<le> oa \<and> 0 \<le> aa \<and> 0 \<le> ob \<and> 0 \<le> ab \<and> alive h a oa aa \<and> alive h b ob ab \<and> commutes h c oa aa ob ab)"

definition dead_error :: "heap \<Rightarrow> CompRefRel \<Rightarrow> int \<Rightarrow> error set" where
  "dead_error h c mx =
     {e. e = IlaCheck ''Dead transition'' \<and> (\<exists>k \<in> {0 .. mx}. orig_dead h (refine_a c) k \<or> orig_dead h (refine_b c) k)}"

lemma runs_or_if: "(b \<Longrightarrow> runs_or h X x Q) \<Longrightarrow> (\<not> b \<Longrightarrow> runs_or h X y Q) \<Longrightarrow> runs_or h X (if b then x else y) Q"
  by simp

context z3_solver_backend
begin

lemma query_answer:
  assumes "assumes_that s (\<lambda>E. (((DA E \<and> DB E) \<and> RO E) \<and> \<not> RA E))"
  shows "(fst (sol_check sol s) = Unsat \<longrightarrow> (\<forall>E. env_ok E \<longrightarrow> DA E \<longrightarrow> DB E \<longrightarrow> RO E \<longrightarrow> RA E)) \<and>
    (decisive sol \<longrightarrow> fst (sol_check sol s) \<noteq> Unsat \<longrightarrow> \<not> (\<forall>E. env_ok E \<longrightarrow> DA E \<longrightarrow> DB E \<longrightarrow> RO E \<longrightarrow> RA E))"
proof (cases "fst (sol_check sol s)")
  case Unknown
  then show ?thesis unfolding decisive_def by force
qed (use check_right(1,2) [OF assms] in auto)

lemma runs_EqCheck_query:
  assumes cd: "cd_ok h c cd" and k: "{oa, aa, ob, ab} \<subseteq> {0 .. mx}" and mx: "mx + 1 < 2 ^ 31"
  shows "runs h (EqCheck_query ctx sol oa aa ob ab cd) (\<lambda>(b, cd'). (b \<longrightarrow> commutes h c oa aa ob ab) \<and>
    (decisive sol \<longrightarrow> (b \<longleftrightarrow> alive h (refine_a c) oa aa \<and> alive h (refine_b c) ob ab \<and> commutes h c oa aa ob ab)))"
proof -
  have c: "ref_ok h (refine_a c)" "ref_ok h (refine_b c)" "bool_pred encodable h (relation c)"
    and u: "crr cd = c" "extra_suff (unroll_orig cd) = k_suff_orig" "extra_suff (unroll_appl cd) = k_suff_appl"
    using cd by (simp_all add: cd_ok_def crr_ok_def)
  have inv: "heap_inv h" using c(1) tree_vars(1) by (auto simp: ref_ok_def)
  have ks: "0 \<le> oa" "oa < 2 ^ 31" "0 \<le> aa" "aa + 1 < 2 ^ 31" "0 \<le> ob" "ob < 2 ^ 31" "0 \<le> ab" "ab + 1 < 2 ^ 31"
    using k mx by auto
  have rel: "runs h (GenAssm ctx cd') (\<lambda>t. bterm t (\<lambda>E. holds (z3_interp h k_suff_orig E) (relation c)))"
    "runs h (GenProp ctx cd') (\<lambda>t. bterm t (\<lambda>E. holds (z3_interp h k_suff_appl E) (relation c)))"
    if "crr cd' = c" "extra_suff (unroll_orig cd') = k_suff_orig" "extra_suff (unroll_appl cd') = k_suff_appl" for cd'
    using runs_rep [OF inv c(3)] that by (simp_all add: GenAssm_def GenProp_def) (metis that)+
  show ?thesis
    unfolding EqCheck_query_def u(1)
    apply (rule runs_bnd [OF runs_GenTranRel [OF c(1) u(2,3) ks(1-4)]], clarify, simp only: u(1))
    apply (rule runs_bnd [OF runs_GenTranRel [OF c(2) _ _ ks(5-8)]], assumption, assumption, clarify)
    apply (rule runs_bnd [OF runs_dead(2)], assumption, clarify, rule runs_if, simp add: alive_def)
    apply (rule runs_bnd [OF runs_dead(1)], assumption, clarify, rule runs_if, simp add: alive_def)
    apply (rule runs_bnd [OF rel(1)], simp only:, assumption, assumption)
    apply (rule runs_bnd [OF rel(2)], simp only:, assumption, assumption)
    apply (rule runs_bnd [OF runs_ops(2)], assumption, assumption, rule runs_bnd [OF runs_ops(2)], assumption, assumption)
    apply (rule runs_bnd [OF runs_reset_add], assumption)
    apply (rule runs_bnd [OF runs_ops(1)], assumption, assumption)
    apply (rule runs_bnd [OF runs_s_add], assumption, assumption)
    apply (simp only: runs_ret prod.case)
    apply (drule query_answer)
    apply (unfold commutes_def alive_def)
    apply blast
    done
qed

lemma runs_EqCheck:
  assumes fa: "forall_ok ctx tsort z3_forall" and cd: "cd_ok h c cd" and mx: "mx + 1 < 2 ^ 31"
  shows "runs_or h (dead_error h c mx) (EqCheck ctx sol z3_forall mx cd) (\<lambda>(b, cd'). 
    (b \<longrightarrow> (\<exists>oa aa ob ab. {oa, aa, ob, ab} \<subseteq> {0 .. mx} \<and> commutes h c oa aa ob ab)) \<and>
    (decisive sol \<longrightarrow> (b \<longleftrightarrow> equivalent h c mx)))"
    (is "runs_or h (dead_error h c mx) _ ?Q")
proof -
  have c: "ref_ok h (refine_a c)" "ref_ok h (refine_b c)" "bool_pred encodable h (relation c)"
    using cd by (simp_all add: cd_ok_def crr_ok_def)
  have crr: "crr cd' = c" if "cd_ok h c cd'" for cd' :: "'t CommDiag" using that by (simp_all add: cd_ok_def)
  have dead: "0 \<le> k \<Longrightarrow> k \<le> mx \<Longrightarrow> orig_dead h (refine_a c) k \<Longrightarrow> IlaCheck ''Dead transition'' \<in> dead_error h c mx"
    "0 \<le> k \<Longrightarrow> k \<le> mx \<Longrightarrow> orig_dead h (refine_b c) k \<Longrightarrow> IlaCheck ''Dead transition'' \<in> dead_error h c mx" for k
    by (auto simp: dead_error_def)
  let ?s = "\<lambda>oa aa ob ab. decisive sol \<longrightarrow> oa = first_step (orig_completes h (refine_a c)) (step_orig (refine_a c)) mx \<and>
    aa = first_step (appl_completes h (refine_a c)) (step_appl (refine_a c)) mx \<and>
    ob = first_step (orig_completes h (refine_b c)) (step_orig (refine_b c)) mx \<and>
    ab = first_step (appl_completes h (refine_b c)) (step_appl (refine_b c)) mx"
  have last: "runs_or h (dead_error h c mx) (EqCheck_query ctx sol oa aa ob ab cd1) ?Q"
    if k: "{oa, aa, ob, ab} \<subseteq> {0 .. mx}" and ok: "cd_ok h c cd1" and st: "?s oa aa ob ab" for cd1 :: "'t CommDiag" and oa aa ob ab
    using k st
    by (intro runs_or_runs, intro runs_weaken [OF runs_EqCheck_query [OF ok k mx]]) (auto simp: equivalent_def Let_def)
  have none: "?Q (False, cd1)" if "oa < 0 \<or> aa < 0 \<or> ob < 0 \<or> ab < 0" "?s oa aa ob ab" for cd1 :: "'t CommDiag" and oa aa ob ab
    using that by (auto simp: equivalent_def Let_def)
  show ?thesis
    unfolding EqCheck_def
    apply (rule runs_or_first [OF runs_SanityCheck [OF fa cd]])
    apply (simp only: crr [OF cd])
    apply (rule runs_or_bnd [OF runs_DetStepOrig [OF cd c(1) mx dead(1)]], assumption, assumption, assumption)
    apply (clarify, simp only: crr)
    apply (rule runs_or_bnd [OF runs_DetStepAppl [OF _ c(1) mx]], assumption)
    apply (clarify, simp only: crr)
    apply (rule runs_or_bnd [OF runs_DetStepOrig [OF _ c(2) mx dead(2)]], assumption, assumption, assumption, assumption)
    apply (clarify, simp only: crr)
    apply (rule runs_or_bnd [OF runs_DetStepAppl [OF _ c(2) mx]], assumption)
    apply clarify
    apply (rule runs_or_if)
     apply (simp only: runs_or_ret, rule none, assumption, blast)
    apply (rule last, auto)
    done
qed

end

section \<open>An example\<close>

text \<open>The two ILAs of the bounded check: \<open>x\<close> is kept by both, and the instruction of the second one sets \<open>y\<close>.
  An instruction is applied when \<open>x\<close> holds, every step flushes and completes, and the relation is that
  \<open>x\<close> has the same value on both sides.\<close>

definition same_x :: expr where
  "same_x = Expr 23 (anon_name 23) SortBool (Some 1) [] [bmc_var 2 ''x'' 1, bmc_var 6 ''x'' 5] (KOp kEqual)"

definition ex_ref :: "nat \<Rightarrow> expr \<Rightarrow> RefinementMap" where
  "ex_ref m x = \<lparr>ref_coi = Some m, ref_appl = Some x, ref_flush = Some (bmc_true 20), ref_cmpl = Some (bmc_true 20),
     step_appl = -1, step_orig = -1, ref_invs = []\<rparr>"

definition ex_crr :: CompRefRel where
  "ex_crr = \<lparr>refine_a = ex_ref 1 (bmc_var 2 ''x'' 1), refine_b = ex_ref 5 (bmc_var 6 ''x'' 5), relation = same_x\<rparr>"

lemma bmc_tree: "p \<in> {1, 5} \<Longrightarrow> in_tree bmc_heap p q \<longleftrightarrow> q = p"
  by (subst in_tree_iff) (auto simp: bmc_heap_def bmc_ila_def ila_init_def KeyVec_new_def)

lemma bmc_trees:
  "tree_states bmc_heap 1 = {bmc_var 2 ''x'' 1, bmc_var 3 ''y'' 1}" "tree_instrs bmc_heap 1 = {4}"
  "tree_states bmc_heap 5 = {bmc_var 6 ''x'' 5, bmc_var 7 ''y'' 5}" "tree_instrs bmc_heap 5 = {8}"
  using bmc_tree by (auto simp: tree_states_def tree_instrs_def bmc_ilas bmc_vecs simp del: One_nat_def)

lemma bmc_nodes:
  "node bmc_heap SortBool (bmc_true i)" "p \<in> {1, 5} \<Longrightarrow> node bmc_heap SortBool (bmc_var i nm p)"
  using bmc_encodable by (auto simp: node_def host_in_def bmc_true_def bmc_var_def bmc_heap_def)

lemma bmc_mono: "mono_tree bmc_heap 1" "mono_tree bmc_heap 5"
proof -
  have v: "state_var bmc_heap (bmc_var i nm p)" if "p \<in> {1, 5}" for i nm p
    using bmc_encodable(2) [OF that] by (simp add: state_var_def bmc_var_def)
  have s: "esort (bmc_var i nm p) = SortBool" "ename (bmc_var i nm p) = nm" for i nm p by (simp_all add: bmc_var_def)
  have e: "mono_enc bmc_heap {bmc_var 2 ''x'' 1, bmc_var 3 ''y'' 1} 4" "mono_enc bmc_heap {bmc_var 6 ''x'' 5, bmc_var 7 ''y'' 5} 8"
    unfolding mono_enc_def
    by (simp_all add: bmc_ilas bmc_instr_def bmc_nodes StateUpdCmpl_def update_var_def update_def s del: One_nat_def)
  have n: "preds_enc bmc_heap (Unroller_new [] :: unit Unroller)" by (simp add: preds_enc_def Unroller_new_def s_pred_at_def)
  show "mono_tree bmc_heap 1" "mono_tree bmc_heap 5"
    using bmc_heap_inv v e n by (simp_all add: mono_tree_def mono_ok_def bmc_trees bmc_ilas del: One_nat_def)
qed

lemma ex_crr_ok: "crr_ok bmc_heap ex_crr"
proof -
  have "ref_ok bmc_heap (ex_ref p (bmc_var i nm p))" if "p \<in> {1, 5}" for p i nm
    using that bmc_mono bmc_nodes by (auto simp: ref_ok_def ex_ref_def bmc_var_def)
  moreover have "bool_pred encodable bmc_heap same_x"
    using bmc_encodable(2) [of 1 2 "''x''"] bmc_encodable(2) [of 5 6 "''x''"]
    by (simp add: bool_pred_def same_x_def encodable_def node_wf_def op_sort_def same_sort_def comparison_def sem_ok_def node_enc_def
        sort_small_def bmc_heap_def bmc_var_def del: One_nat_def)
  ultimately show ?thesis by (simp add: crr_ok_def ex_crr_def)
qed

lemma bmc_ids: "instr_ids bmc_heap 1 = [4]" "instr_ids bmc_heap 5 = [8]"
proof -
  have "vec (ila_childs (bmc_ila nm x y i)) = []" for nm x y i by (simp add: bmc_ila_def ila_init_def KeyVec_new_def)
  then show "instr_ids bmc_heap 1 = [4]" "instr_ids bmc_heap 5 = [8]"
    unfolding instr_ids_def GetInstrTree_def InsertInstrTree_def ila_DepthFirstVisit_def ila_visit_n.simps InsertInstr_def
    by (simp_all add: bmc_ilas monad_simps bmc_vecs del: One_nat_def)
qed

lemma bmc_updates:
  "StateUpdCmpl (bmc_instr p []) v = v" "StateUpdCmpl (bmc_instr p [(''y'', e)]) (bmc_var i ''x'' q) = bmc_var i ''x'' q"
  "StateUpdCmpl (bmc_instr p [(''y'', e)]) (bmc_var i ''y'' q) = e"
  by (simp_all add: StateUpdCmpl_def update_var_def update_def bmc_instr_def bmc_var_def)

lemma ex_step_keeps:
  "mono_step bmc_heap 1 u i I J \<Longrightarrow> eval J (bmc_var 2 ''x'' 1) = eval I (bmc_var 2 ''x'' 1)"
  "mono_step bmc_heap 5 u i I J \<Longrightarrow> eval J (bmc_var 6 ''x'' 5) = eval I (bmc_var 6 ''x'' 5)"
  by (auto simp: mono_step_def mono_choice_def instr_list_def bmc_ids bmc_trees bmc_ilas bmc_updates split: if_splits simp del: One_nat_def)

lemma ex_diagram_keeps:
  assumes d: "diagram bmc_heap (ex_ref p x) 0 0 E" and x: "x \<in> top_states bmc_heap p" "x \<in> tree_states bmc_heap p"
    and keep: "\<And>u :: unit Unroller. \<And>i I J. mono_step bmc_heap p u i I J \<Longrightarrow> eval J x = eval I x"
  shows "eval (z3_interp bmc_heap k_suff_orig E) x = eval (z3_interp bmc_heap k_suff_appl E) x"
proof -
  have t: "holds (frame_at bmc_heap s i E) (bmc_true 20)" for s i by (simp add: holds_def frame_at_def bmc_eval)
  have suff: "SuffCurr (flush_unroller r s k n) i = int_to_string i @ ''_'' @ s" for r s k n i
    by (simp add: SuffCurr_def flush_unroller_def Unroller_new_def)
  have "eval (frame_at bmc_heap k_suff_appl 1 E) x = eval (frame_at bmc_heap k_suff_appl 0 E) x"
    using d unfolding diagram_def flush_path_def mono_path_def
    by (auto simp: ex_ref_def suff c_int_def frame_at_def dest: keep)
  moreover have "eval (frame_at bmc_heap k_suff_orig 0 E) x = eval (frame_at bmc_heap k_suff_appl 0 E) x"
    "eval (z3_interp bmc_heap k_suff_orig E) x = eval (frame_at bmc_heap k_suff_orig 0 E) x"
    "eval (z3_interp bmc_heap k_suff_appl E) x = eval (frame_at bmc_heap k_suff_appl 1 E) x"
    using d x t by (simp_all add: diagram_def init_holds_def flush_path_def marked_def ex_ref_def)
  ultimately show ?thesis by simp
qed

lemma ex_commutes: "commutes bmc_heap ex_crr 0 0 0 0"
proof -
  have t: "bmc_var 2 ''x'' 1 \<in> top_states bmc_heap 1" "bmc_var 6 ''x'' 5 \<in> top_states bmc_heap 5"
    by (simp_all add: top_states_def bmc_ilas bmc_vecs del: One_nat_def)
  have "holds I same_x \<longleftrightarrow> eval I (bmc_var 2 ''x'' 1) = eval I (bmc_var 6 ''x'' 5)" for I
    by (simp add: holds_def same_x_def op_sem_def Let_def)
  moreover have "bmc_var 2 ''x'' 1 \<in> tree_states bmc_heap 1" "bmc_var 6 ''x'' 5 \<in> tree_states bmc_heap 5"
    by (simp_all add: bmc_trees del: One_nat_def)
  then have "eval (z3_interp bmc_heap k_suff_orig E) (bmc_var 2 ''x'' 1) = eval (z3_interp bmc_heap k_suff_appl E) (bmc_var 2 ''x'' 1)"
    "eval (z3_interp bmc_heap k_suff_orig E) (bmc_var 6 ''x'' 5) = eval (z3_interp bmc_heap k_suff_appl E) (bmc_var 6 ''x'' 5)"
    if "diagram bmc_heap (ex_ref 1 (bmc_var 2 ''x'' 1)) 0 0 E" "diagram bmc_heap (ex_ref 5 (bmc_var 6 ''x'' 5)) 0 0 E" for E
    using ex_diagram_keeps [OF that(1) t(1)] ex_diagram_keeps [OF that(2) t(2)] ex_step_keeps by blast+
  ultimately show ?thesis by (simp add: commutes_def ex_crr_def del: One_nat_def)
qed

text \<open>An assignment of the diagrams: every Boolean is true, except the choice of an idle step.\<close>

definition ex_env :: smt_env where
  "ex_env = zero_env\<lparr>env_const := (\<lambda>n s. if s = SBool
     then VBool (n \<notin> {format_name ''dead.sel'' ''a'' ''0_apl'', format_name ''dead.sel'' ''b'' ''0_apl''}) else smt_zero s)\<rparr>"

lemma ex_env_ok: "env_ok ex_env"
  using zero_env_ok by (auto simp: env_ok_def ex_env_def zero_env_def smt_sort_of_def split: sort.splits)

lemma ex_evals:
  assumes "nm \<in> {''x'', ''y'', ''x.vnxt'', ''y.vnxt'', ''i.sel''}" "p \<in> {1, 5}"
  shows "eval (z3_interp bmc_heap suf ex_env) (Expr i nm SortBool (Some p) [] [] KVar) = VBool True"
  using assms bmc_roots
  by (auto simp: z3_interp_def smt_interp_def z3_vname_def ok_or_empty_def smt_sort_of_def ex_env_def format_name_def)

lemma ex_dead:
  assumes "p \<in> {1, 5}"
  shows "eval (z3_interp bmc_heap ''0_apl'' ex_env) (fvar SortBool p ''dead.sel'') = VBool False"
  using assms bmc_roots
  by (auto simp: fvar_def z3_interp_def smt_interp_def z3_vname_def ok_or_empty_def smt_sort_of_def ex_env_def)

lemma ex_true: "eval (z3_interp bmc_heap suf E) (bmc_true i) = VBool True"
  by (simp add: bmc_eval)

lemma flush_preds:
  "g_pred (flush_unroller (ex_ref p x) s k n) = []" "i_pred (flush_unroller (ex_ref p x) s k n) = []"
  "SuffCurr (flush_unroller (ex_ref p x) s k n) i = int_to_string i @ ''_'' @ s"
  "p' \<in> set (s_pred_at (flush_unroller (ex_ref p x) s k n) j) \<Longrightarrow> p' = bmc_true 20"
proof -
  have g: "g_pred (fold (AddStepPred e) ks u) = g_pred u" "i_pred (fold (AddStepPred e) ks u) = i_pred u"
    for e ks and u :: "unit Unroller"
    by (induction ks arbitrary: u) (simp_all add: AddStepPred_def)
  show "g_pred (flush_unroller (ex_ref p x) s k n) = []" "i_pred (flush_unroller (ex_ref p x) s k n) = []"
    by (simp_all add: flush_unroller_def ex_ref_def g Unroller_new_def)
  show "SuffCurr (flush_unroller (ex_ref p x) s k n) i = int_to_string i @ ''_'' @ s"
    by (simp add: SuffCurr_def flush_unroller_def Unroller_new_def)
  have st: "\<forall>q \<in> set (s_pred_at (fold (AddStepPred e) ks u) j). q = e" if "\<And>k. \<forall>q \<in> set (s_pred_at u k). q = e"
    for e ks j and u :: "unit Unroller"
    using that
  proof (induction ks arbitrary: u)
    case (Cons k ks)
    show ?case using Cons.prems by (simp, intro Cons.IH) (auto simp: AddStepPred_def s_pred_at_def split: option.splits)
  qed simp
  show "p' \<in> set (s_pred_at (flush_unroller (ex_ref p x) s k n) j) \<Longrightarrow> p' = bmc_true 20"
    using st [of "Unroller_new s" "bmc_true 20" "[k .. n]" j]
    by (simp add: flush_unroller_def ex_ref_def) (simp add: Unroller_new_def s_pred_at_def)
qed

lemma ex_preds: "preds_hold (flush_unroller (ex_ref p x) s k n) i (z3_interp bmc_heap suf E)"
  by (auto simp: preds_hold_def flush_preds(1) holds_def ex_true dest: flush_preds(4))

lemma ex_step:
  assumes p: "p \<in> {1, 5}"
  shows "mono_step bmc_heap p (flush_unroller (ex_ref p x) s k n) 0 (z3_interp bmc_heap ''0_apl'' ex_env) (z3_interp bmc_heap suf ex_env)"
proof -
  have v: "eval (z3_interp bmc_heap suf ex_env) (next_of (bmc_var i nm p)) = VBool True"
    "eval (z3_interp bmc_heap suf ex_env) (bmc_var i nm p) = VBool True" if "nm \<in> {''x'', ''y''}" for i nm suf
    using ex_evals [of "nm @ ''.vnxt''" p suf] ex_evals [of nm p suf] p that by (auto simp: next_of_def fvar_def bmc_var_def)
  have sel: "holds (z3_interp bmc_heap ''0_apl'' ex_env) (sel_of bmc_heap (if p = 1 then 4 else 8))"
    using ex_evals [of "''i.sel''" p] p by (auto simp: sel_of_def bmc_ilas bmc_instr_def fvar_def holds_def)
  have dec: "dec_holds (bmc_instr q us) (z3_interp bmc_heap suf ex_env)" for q us suf
    by (simp add: dec_holds_def bmc_instr_def holds_def ex_true)
  show ?thesis
    using p sel v dec ex_dead [of p] ex_preds
    by (auto simp: mono_step_def mono_choice_def flush_preds(2) bmc_ids bmc_trees bmc_ilas instr_list_def bmc_updates ex_true holds_def
        simp del: One_nat_def)
qed

lemma ex_alive:
  assumes p: "p \<in> {1, 5}" and x: "x \<in> {bmc_var 2 ''x'' 1, bmc_var 6 ''x'' 5}"
  shows "alive bmc_heap (ex_ref p x) 0 0"
proof -
  have e: "eval (z3_interp bmc_heap suf ex_env) (bmc_var i nm q) = VBool True" if "nm \<in> {''x'', ''y''}" "q \<in> {1, 5}" for suf i nm q
    using ex_evals [of nm q suf i] that by (auto simp: bmc_var_def)
  have vs: "\<forall>v \<in> tree_states bmc_heap p \<union> top_states bmc_heap p. eval (z3_interp bmc_heap suf ex_env) v = VBool True" for suf
    using p e by (auto simp: bmc_trees top_states_def bmc_ilas bmc_vecs simp del: One_nat_def)
  have "init_holds bmc_heap (ex_ref p x) ex_env"
    using vs x e by (auto simp: init_holds_def ex_ref_def frame_at_def holds_def ex_true)
  moreover have "flush_path bmc_heap (ex_ref p x) k_suff_orig 0 0 ex_env"
    using vs ex_preds by (auto simp: flush_path_def mono_path_def marked_def ex_ref_def frame_at_def)
  moreover have "to_string 0 = ''0''" by code_simp
  then have "mono_path bmc_heap p (flush_unroller (ex_ref p x) k_suff_appl 1 1) 1 0 ex_env"
    using ex_step [OF p, of x k_suff_appl 1 1] ex_preds
    by (simp add: mono_path_def flush_preds(3) c_int_def int_to_string_def k_suff_appl_def)
  then have "flush_path bmc_heap (ex_ref p x) k_suff_appl 1 1 ex_env"
    using vs by (auto simp: flush_path_def marked_def ex_ref_def frame_at_def)
  ultimately show ?thesis using ex_env_ok by (auto simp: alive_def diagram_def)
qed

lemma ex_completes: "orig_completes bmc_heap (ex_ref p x) 0" "appl_completes bmc_heap (ex_ref p x) 0"
  by (simp_all add: orig_completes_def appl_completes_def ex_ref_def holds_def frame_at_def ex_true)

lemma ex_equivalent: "equivalent bmc_heap ex_crr 0" "dead_error bmc_heap ex_crr 0 = {}"
proof -
  have f: "first_step P (- 1) 0 = 0" if "P 0" for P using that by (simp add: first_step_def first_that_def)
  have "first_step (orig_completes bmc_heap (ex_ref p x)) (- 1) 0 = 0" "first_step (appl_completes bmc_heap (ex_ref p x)) (- 1) 0 = 0" for p x
    using f ex_completes by blast+
  moreover have "step_orig (ex_ref p x) = -1" "step_appl (ex_ref p x) = -1" for p x by (simp_all add: ex_ref_def)
  ultimately show "equivalent bmc_heap ex_crr 0"
    using ex_alive [of 1 "bmc_var 2 ''x'' 1"] ex_alive [of 5 "bmc_var 6 ''x'' 5"] ex_commutes
    by (simp add: equivalent_def Let_def ex_crr_def del: One_nat_def)
  have "\<not> orig_dead bmc_heap (ex_ref p x) 0" if al: "alive bmc_heap (ex_ref p x) 0 0" for p x
  proof -
    obtain E where "env_ok E" "init_holds bmc_heap (ex_ref p x) E" using al by (auto simp: alive_def diagram_def)
    moreover have "mono_path bmc_heap p (orig_unroller (ex_ref p x)) 0 0 E"
      by (simp add: mono_path_def preds_hold_def orig_unroller_def ex_ref_def AddGlobPred_def Unroller_new_def s_pred_at_def holds_def ex_true)
    ultimately show ?thesis by (auto simp: orig_dead_def ex_ref_def)
  qed
  then show "dead_error bmc_heap ex_crr 0 = {}"
    using ex_alive [of 1 "bmc_var 2 ''x'' 1"] ex_alive [of 5 "bmc_var 6 ''x'' 5"]
    by (auto simp: dead_error_def ex_crr_def simp del: One_nat_def)
qed

section \<open>Properties\<close>

text \<open>C11: The monolithic check by commuting diagrams, from the construction of the checker to its answer, with
  a solver that answers as documented. It stops with an error only when one of the ILAs has no flushing path of some number of
  steps within the bound. A positive answer means that for some numbers of steps every two diagrams with related
  flushed states have related flushed states after the applied instructions. When the solver always decides, the
  answer is positive exactly when the four paths complete within the bound and, for the least numbers of
  steps after which they do, the diagrams are not empty and commute.\<close>

theorem eq_check_decides:
  assumes "z3_solver_backend ctx tsort den sol frames" "forall_ok ctx tsort z3_forall" "crr_ok h c" "mx + 1 < 2 ^ 31"
  shows "case bnd (CommDiag_New ctx sol z3_forall c) (EqCheck ctx sol z3_forall mx) h of
      Inl e \<Rightarrow> e \<in> dead_error h c mx
    | Inr ((b, cd), h') \<Rightarrow> ilas h' = ilas h \<and> instrs h' = instrs h \<and>
        (b \<longrightarrow> (\<exists>oa aa ob ab. {oa, aa, ob, ab} \<subseteq> {0 .. mx} \<and> commutes h c oa aa ob ab)) \<and>
        (decisive sol \<longrightarrow> (b \<longleftrightarrow> equivalent h c mx))"
proof -
  let ?Q = "\<lambda>(b, cd :: 'a CommDiag). (b \<longrightarrow> (\<exists>oa aa ob ab. {oa, aa, ob, ab} \<subseteq> {0 .. mx} \<and> commutes h c oa aa ob ab)) \<and>
    (decisive sol \<longrightarrow> (b \<longleftrightarrow> equivalent h c mx))"
  have "runs_or h (dead_error h c mx) (bnd (CommDiag_New ctx sol z3_forall c) (EqCheck ctx sol z3_forall mx)) ?Q"
    by (rule runs_or_first [OF z3_solver_backend.runs_CommDiag_New [OF assms(1-3)]])
      (rule z3_solver_backend.runs_EqCheck [OF assms(1,2) _ assms(4)], erule conjunct1)
  note r = runs_orD [OF this]
  show ?thesis
  proof (cases "bnd (CommDiag_New ctx sol z3_forall c) (EqCheck ctx sol z3_forall mx) h")
    case (Inr x)
    obtain b cd h' where x: "x = ((b, cd), h')" by (metis surj_pair)
    show ?thesis using r unfolding Inr x sum.case prod.case only_alloc_def by blast
  qed (use r in \<open>simp only: sum.case\<close>)
qed

text \<open>Quantification in the model of Z3's terms: over the constants of the given terms.\<close>

definition sem_forall :: "sem_term list \<Rightarrow> sem_term \<Rightarrow> sem_term result" where
  "sem_forall xs body =
     (if xs = [] \<or> fst body \<noteq> SBool then Inl LibException
      else Inr (SBool, \<lambda>E. VBool (\<forall>E'. env_ok E' \<longrightarrow> env_fun E' = env_fun E \<longrightarrow>
        (\<forall>n s. (s, \<lambda>E. env_const E n s) \<notin> set xs \<longrightarrow> env_const E' n s = env_const E n s) \<longrightarrow> snd body E' = VBool True)))"

theorem eq_check_decides_witness:
  "\<exists>cd h'. bnd (CommDiag_New sem_api sem_solver sem_forall ex_crr) (EqCheck sem_api sem_solver sem_forall 0) bmc_heap = Inr ((True, cd), h')"
proof -
  have "forall_ok sem_api fst sem_forall" by (simp add: forall_ok_def sem_forall_def)
  moreover have "decisive sem_solver" by (simp add: decisive_def sem_solver_def sem_check_def)
  ultimately show ?thesis
    using eq_check_decides [OF exact.z3_solver_backend_axioms _ ex_crr_ok, of sem_forall 0] ex_equivalent
    by (auto split: sum.splits)
qed

text \<open>C16: The constructor of the checker returns on every accepted refinement relation, and leaves the unrollers of
  all four flushing paths of the incremental check, those of the first ILA too, with the flushing function of the
  second ILA as their only predicate: the paths of the two ILAs share one old and one new unroller, and setting
  up the second ILA clears what was set for the first.\<close>

theorem comm_diag_init:
  assumes "z3_solver_backend ctx tsort den sol frames" "forall_ok ctx tsort z3_forall" "crr_ok h c"
  shows "\<exists>cd h'. CommDiag_New ctx sol z3_forall c h = Inr (cd, h') \<and> ilas h' = ilas h \<and> instrs h' = instrs h \<and> crr cd = c \<and>
    (\<forall>uid. g_pred (GetUnrl uid cd) = [the (ref_flush (refine_b c))] \<and> i_pred (GetUnrl uid cd) = [] \<and> s_pred (GetUnrl uid cd) = Map.empty)"
  using runsD [OF z3_solver_backend.runs_CommDiag_New [OF assms]] unfolding inc_ok_def cd_ok_def only_alloc_def by blast

theorem comm_diag_init_witness:
  "\<exists>cd h'. CommDiag_New sem_api sem_solver sem_forall ex_crr bmc_heap = Inr (cd, h') \<and> g_pred (GetUnrl A_OLD cd) = [bmc_true 20]"
proof -
  have "forall_ok sem_api fst sem_forall" by (simp add: forall_ok_def sem_forall_def)
  moreover have "the (ref_flush (refine_b ex_crr)) = bmc_true 20" by (simp add: ex_crr_def ex_ref_def)
  ultimately show ?thesis using comm_diag_init [OF exact.z3_solver_backend_axioms _ ex_crr_ok, of sem_forall] by metis
qed

end
