(* ===== verification/IncCheckProps.thy ===== *)
theory IncCheckProps
  imports EqCheckProps
begin

text \<open>
  The incremental checks of theory EqCheck. After the first number of steps they assert the property under its
  assumption before they look for a violation of it with more steps, so that no later query can find one.
\<close>

section \<open>Assertions that stay\<close>

context z3_solver_backend
begin

definition asserted :: "'s \<Rightarrow> 't set" where
  "asserted s = set (concat (frames s))"

definition entails :: "'s \<Rightarrow> (smt_env \<Rightarrow> bool) \<Rightarrow> bool" where
  "entails s P = (\<forall>E. env_ok E \<longrightarrow> (\<forall>t \<in> asserted s. den E t = VBool True) \<longrightarrow> P E)"

definition formula :: "'t \<Rightarrow> bool" where
  "formula t = (\<exists>P. bterm t P)"

text \<open>A solver reached from \<open>s\<close> that still has the assertions of \<open>s\<close>, with a level to add to.\<close>

definition grown :: "'s \<Rightarrow> 's \<Rightarrow> bool" where
  "grown s s' = (asserted s \<subseteq> asserted s' \<and> frames s' \<noteq> [])"

lemma entails_grown: "entails s P \<Longrightarrow> grown s s' \<Longrightarrow> entails s' P"
  unfolding entails_def grown_def by blast

lemma grown_trans: "grown s s' \<Longrightarrow> grown s' s'' \<Longrightarrow> grown s s''"
  unfolding grown_def by blast

lemma grown_push: "grown s s' \<Longrightarrow> grown s (sol_push sol s')"
  unfolding grown_def asserted_def by (simp add: push)

lemma formula_sort: "formula t \<Longrightarrow> tsort t = SBool"
  by (auto simp: formula_def bterm_def)

lemma formula_ops:
  assumes "formula a" "formula b"
  shows "runs h (t_not ctx a) formula" "runs h (t_and ctx a b) formula" "runs h (t_or ctx a b) formula"
    "runs h (t_eq ctx a b) formula" "runs h (t_implies ctx a b) formula"
proof -
  obtain P Q where pq: "bterm a P" "bterm b Q" using assms by (auto simp: formula_def)
  show "runs h (t_not ctx a) formula" "runs h (t_and ctx a b) formula" "runs h (t_or ctx a b) formula"
    "runs h (t_eq ctx a b) formula" "runs h (t_implies ctx a b) formula"
    by (rule runs_weaken [OF runs_ops(1) [OF pq]], auto simp: formula_def,
        rule runs_weaken [OF runs_ops(2) [OF pq]], auto simp: formula_def,
        rule runs_weaken [OF runs_ops(3) [OF pq]], auto simp: formula_def,
        rule runs_weaken [OF runs_ops(4) [OF pq]], auto simp: formula_def,
        rule runs_weaken [OF runs_ops(5) [OF pq]], auto simp: formula_def)
qed

lemma add_top_ne [simp]: "add_top t fs \<noteq> []"
  by (simp add: add_top_def split: list.splits)

lemma runs_s_add_frames: "formula t \<Longrightarrow> runs h (s_add sol t s) (\<lambda>s'. frames s' = add_top t (frames s))"
  using add [of t s] by (auto simp: formula_def bterm_def s_add_def runs_def)

lemma grown_add: "frames s' = add_top t (frames s) \<Longrightarrow> grown s s'"
  unfolding grown_def asserted_def by (simp add: concat_add_top del: set_concat) blast

lemma runs_s_add_grown: "formula t \<Longrightarrow> grown s0 s \<Longrightarrow> runs h (s_add sol t s) (grown s0)"
  by (rule runs_weaken [OF runs_s_add_frames], assumption, erule grown_trans [OF _ grown_add])

lemma runs_pop:
  assumes "frames s = f # frames s0" "frames s0 \<noteq> []"
  shows "runs h (lift (sol_pop sol s)) (\<lambda>s'. frames s' = frames s0)"
proof -
  obtain f' fs where "frames s0 = f' # fs" using assms(2) by (cases "frames s0") auto
  then show ?thesis using pop [of s f f' fs] assms(1) by (auto simp: runs_def)
qed

text \<open>Asking whether a formula is implied keeps the assertions, and adds the formula when it is.\<close>

lemma runs_CheckCmpl:
  assumes c: "formula c" and s: "grown s0 s"
  shows "runs h (CheckCmpl ctx sol c s) (\<lambda>(b, s'). grown s0 s')"
proof -
  have ne: "frames s \<noteq> []" using s by (simp add: grown_def)
  have same: "grown s0 s'" if "frames s' = frames s" for s'
    using s that by (simp add: grown_def asserted_def)
  have pop: "runs h (lift (sol_pop sol (snd (sol_check sol s')))) (\<lambda>s'. frames s' = frames s)"
    if "frames s' = add_top n (frames (sol_push sol s))" for s' n
    using that push [of s] check_frames [of s'] by (intro runs_pop [OF _ ne, where f = "[n]"]) (simp add: add_top_def)
  show ?thesis
    unfolding CheckCmpl_def Let_def split_beta
    apply (rule runs_bnd [OF formula_ops(1) [OF c c]])
    apply (rule runs_bnd [OF runs_s_add_frames], assumption)
    apply (rule runs_bnd [OF pop], assumption)
    apply (rule runs_if)
     apply (rule runs_bnd [OF runs_s_add_grown [OF c]], erule same)
     apply (simp add: grown_push)
    apply (simp add: same)
    done
qed

text \<open>The query of a number of steps, which leaves one more level on the solver.\<close>

lemma runs_inc_query:
  assumes t: "bterm cf CF" "formula acc" "bterm assm (\<lambda>E. CF E \<longrightarrow> A E)" "bterm prop (\<lambda>E. CF E \<longrightarrow> P E)" and s: "frames s \<noteq> []"
  shows "runs h (inc_query ctx sol cf acc assm prop s) (\<lambda>(res, s').
    (\<exists>f. frames s' = f # frames s) \<and> (entails s (\<lambda>E. A E \<longrightarrow> P E) \<longrightarrow> res \<noteq> Sat))"
proof -
  have cf: "formula cf" "formula assm" using t by (auto simp: formula_def)
  have final: "case sol_check sol s3 of (res, s') \<Rightarrow> (\<exists>f. frames s' = f # frames s) \<and> (entails s (\<lambda>E. A E \<longrightarrow> P E) \<longrightarrow> res \<noteq> Sat)"
    if n: "bterm n (\<lambda>E. \<not> (CF E \<longrightarrow> P E))" and fr: "frames s1 = add_top e (frames (sol_push sol s))" "frames s2 = add_top assm (frames s1)"
      "frames s3 = add_top n (frames s2)" for e n s1 s2 s3
  proof -
    have fs: "frames s3 = [n, assm, e] # frames s" using fr push [of s] by (simp add: add_top_def)
    have "fst (sol_check sol s3) \<noteq> Sat" if "entails s (\<lambda>E. A E \<longrightarrow> P E)"
    proof
      assume "fst (sol_check sol s3) = Sat"
      from check_sat [OF this] obtain E where E: "env_ok E" "\<forall>t \<in> set (concat (frames s3)). den E t = VBool True" by blast
      then have "A E \<longrightarrow> P E" using that fs by (simp add: entails_def asserted_def)
      moreover have "den E n = VBool True" "den E assm = VBool True" using E(2) fs by simp_all
      ultimately show False using n t(3) E(1) by (simp add: bterm_def)
    qed
    then show ?thesis using fs check_frames [of s3] by (auto simp: split_beta)
  qed
  show ?thesis
    unfolding inc_query_def
    apply (rule runs_bnd [OF formula_ops(4) [OF cf(1) t(2)]])
    apply (rule runs_bnd [OF runs_s_add_frames], assumption)
    apply (rule runs_bnd [OF runs_s_add_frames [OF cf(2)]])
    apply (rule runs_bnd [OF runs_ops(1) [OF t(4) t(4)]])
    apply (rule runs_bnd [OF runs_s_add_frames], unfold formula_def, erule exI)
    apply (subst runs_ret, rule final, assumption+)
    done
qed

end

text \<open>The parts of the checker that the incremental checks read and change.\<close>

definition rel_old :: "heap \<Rightarrow> CompRefRel \<Rightarrow> smt_env \<Rightarrow> bool" where
  "rel_old h c E = holds (z3_interp h k_suff_old E) (relation c)"

definition rel_new :: "heap \<Rightarrow> CompRefRel \<Rightarrow> smt_env \<Rightarrow> bool" where
  "rel_new h c E = holds (z3_interp h k_suff_new E) (relation c)"

definition rel_suffs :: "CompRefRel \<Rightarrow> 't CommDiag \<Rightarrow> bool" where
  "rel_suffs c cd = (crr cd = c \<and> extra_suff (GetUnrlOld cd) = k_suff_old \<and> extra_suff (GetUnrlNew cd) = k_suff_new)"

context z3_solver_backend
begin

lemma runs_rel:
  assumes "heap_inv h" "bool_pred encodable h (relation c)" "rel_suffs c cd"
  shows "runs h (GetZ3Assm ctx cd) (\<lambda>t. bterm t (rel_old h c))" "runs h (GetZ3Prop ctx cd) (\<lambda>t. bterm t (rel_new h c))"
  using runs_rep [OF assms(1,2), of "GetUnrlOld cd"] runs_rep [OF assms(1,2), of "GetUnrlNew cd"] assms(3)
  unfolding GetZ3Assm_def GetZ3Prop_def rel_suffs_def rel_old_def [abs_def] rel_new_def [abs_def] by simp_all

lemma runs_inc_partial:
  assumes h: "heap_inv h" "bool_pred encodable h (relation c)" "rel_suffs c cd" and acc: "formula acc"
    and s: "frames s = f # frames s0" "grown s1 s0"
  shows "runs h (inc_partial ctx sol cd acc s) (\<lambda>s'. grown s1 s' \<and> entails s' (\<lambda>E. rel_old h c E \<longrightarrow> rel_new h c E))"
proof -
  have ne: "frames s0 \<noteq> []" using s(2) by (simp add: grown_def)
  obtain C where C: "bterm acc C" using acc by (auto simp: formula_def)
  have final: "grown s1 (sol_push sol s3) \<and> entails (sol_push sol s3) (\<lambda>E. rel_old h c E \<longrightarrow> rel_new h c E)"
    if p: "bterm p (\<lambda>E. (C E \<longrightarrow> rel_old h c E) \<and> rel_old h c E \<longrightarrow> rel_new h c E)"
      and fr: "frames s2 = frames s0" "frames s3 = add_top p (frames s2)" for p s2 s3
  proof
    have "grown s1 s2" using s(2) fr(1) by (simp add: grown_def asserted_def)
    then have "grown s1 s3" using grown_trans [OF _ grown_add [OF fr(2)]] by blast
    then show "grown s1 (sol_push sol s3)" by (rule grown_push)
    have "p \<in> asserted (sol_push sol s3)" unfolding asserted_def push fr(2) by (simp add: add_top_def split: list.splits)
    then show "entails (sol_push sol s3) (\<lambda>E. rel_old h c E \<longrightarrow> rel_new h c E)"
      using p unfolding entails_def bterm_def by auto
  qed
  show ?thesis
    unfolding inc_partial_def
    apply (rule runs_bnd [OF runs_pop [OF s(1) ne]])
    apply (rule runs_bnd [OF runs_rel(1) [OF h]])
    apply (rule runs_bnd [OF runs_ops(5) [OF C]], assumption)
    apply (rule runs_bnd [OF runs_rel(2) [OF h]])
    apply (rule runs_bnd [OF runs_ops(2)], assumption, assumption)
    apply (rule runs_bnd [OF runs_ops(5)], assumption, assumption)
    apply (rule runs_bnd [OF runs_s_add_frames], unfold formula_def, erule exI)
    apply (subst runs_ret, rule final, assumption+)
    done
qed

end

section \<open>The formulas of the paths\<close>

definition inc_inv :: "heap \<Rightarrow> CompRefRel \<Rightarrow> int \<Rightarrow> 't CommDiag \<Rightarrow> bool" where
  "inc_inv h c bd cd =
     (rel_suffs c cd \<and>
      (\<forall>uid. preds_enc h (GetUnrl uid cd) \<and> set (GetStts uid cd) = tree_states h (the (ref_coi (GetRefine uid cd))) \<and>
         0 \<le> lo (GetUnrlUnit uid cd) \<and> lo (GetUnrlUnit uid cd) \<le> hi (GetUnrlUnit uid cd) \<and> hi (GetUnrlUnit uid cd) \<le> bd))"

lemma inc_inv_put:
  assumes "inc_inv h c bd cd"
  shows "preds_enc h un \<Longrightarrow> inc_inv h c bd (put_unrl uid un cd)"
    "0 \<le> lo uu \<Longrightarrow> lo uu \<le> hi uu \<Longrightarrow> hi uu \<le> bd \<Longrightarrow> inc_inv h c bd (put_unit uid uu cd)"
    "inc_inv h c bd (cd\<lparr>unrl_apl := un\<rparr>)"
  using assms unfolding inc_inv_def rel_suffs_def
  by (auto simp: put_unrl_def put_unit_def GetUnrl_def GetUnrlOld_def GetUnrlNew_def GetStts_def GetRefine_def GetUnrlUnit_def
      split: UID.splits)

lemma inc_inv_stts:
  assumes "inc_inv h c bd cd"
  shows "rel_suffs c cd" "set (stts_a cd) = tree_states h (the (ref_coi (refine_a c)))" "set (stts_b cd) = tree_states h (the (ref_coi (refine_b c)))"
proof -
  have s: "set (GetStts uid cd) = tree_states h (the (ref_coi (GetRefine uid cd)))" for uid using assms by (simp add: inc_inv_def)
  show r: "rel_suffs c cd" using assms by (simp add: inc_inv_def)
  show "set (stts_a cd) = tree_states h (the (ref_coi (refine_a c)))" "set (stts_b cd) = tree_states h (the (ref_coi (refine_b c)))"
    using s [of A_OLD] s [of B_OLD] r by (simp_all add: GetStts_def GetRefine_def rel_suffs_def)
qed

lemma inc_ref: "crr_ok h c \<Longrightarrow> inc_inv h c bd cd \<Longrightarrow> ref_ok h (GetRefine uid cd)"
  by (auto simp: crr_ok_def inc_inv_def rel_suffs_def GetRefine_def split: UID.split)

context z3_solver_backend
begin

lemma runs_incr:
  assumes "mono_tree h m" "preds_enc h u" "0 \<le> len" "len < 2 ^ 31"
  shows "runs h (MonoIncr ctx m len pos u) (\<lambda>(t, u'). formula t \<and> preds_enc h u')"
    "runs h (MonoAssn ctx m len pos u) (\<lambda>(t, u'). formula t \<and> preds_enc h u')"
proof -
  have ok: "mono_ok h m u" using assms(1,2) by (simp add: mono_ok_tree)
  have "\<exists>t u' h2. MonoAssn ctx m len pos u h1 = Inr ((t, u'), h2) \<and> only_alloc h1 h2 \<and> formula t \<and> preds_enc h u'"
    if "only_alloc h h1" for h1
    using mono_assn [OF mono_ok_alloc [OF that ok] assms(3,4), of pos]
    unfolding formula_def bterm_def preds_enc_alloc [OF that] by blast
  then show "runs h (MonoAssn ctx m len pos u) (\<lambda>(t, u'). formula t \<and> preds_enc h u')" by (fastforce simp: runs_def)
  then show "runs h (MonoIncr ctx m len pos u) (\<lambda>(t, u'). formula t \<and> preds_enc h u')" by (simp add: MonoIncr_def MonoAssn_def)
qed

lemma runs_marks:
  assumes inv: "heap_inv h" and vs: "\<forall>v \<in> set vs. encodable h v \<and> is_var v" and c: "bool_pred encodable h c" and t: "formula t"
  shows "runs h (foldM (add_mark ctx u (Some c) vs) ks t) formula"
proof (rule runs_foldM_inv)
  fix k t assume "formula t"
  then obtain P where "bterm t P" by (auto simp: formula_def)
  then show "runs h (add_mark ctx u (Some c) vs k t) formula"
    using runs_weaken [OF runs_add_mark [OF inv vs c]] formula_def by blast
qed (rule t)

lemma runs_Cmpl:
  assumes "heap_inv h" "bool_pred encodable h c"
  shows "runs h (GetZ3Cmpl ctx (Some c) u start fin) formula"
  unfolding GetZ3Cmpl_def
  by (rule runs_bnd [OF runs_bool], rule runs_weaken [OF runs_once [OF assms]], assumption, unfold formula_def, erule exI)

lemma runs_IncFlsh:
  assumes c: "crr_ok h c" and cd: "inc_inv h c bd cd" and bd: "bd < 2 ^ 31"
  shows "runs h (GetZ3IncFlsh ctx uid cd) (\<lambda>(t, cd'). formula t \<and> inc_inv h c bd cd')"
proof -
  have r: "ref_ok h (GetRefine uid cd)" by (rule inc_ref [OF c cd])
  then obtain m e where m: "ref_coi (GetRefine uid cd) = Some m" "ref_cmpl (GetRefine uid cd) = Some e" "mono_tree h m" "bool_pred encodable h e"
    using node_pred by (auto simp: ref_ok_def)
  have u: "preds_enc h (GetUnrl uid cd)" "\<forall>v \<in> set (GetStts uid cd). encodable h v \<and> is_var v"
    "0 \<le> hi (GetUnrlUnit uid cd) - lo (GetUnrlUnit uid cd)" "hi (GetUnrlUnit uid cd) - lo (GetUnrlUnit uid cd) < 2 ^ 31"
    using cd bd m(1) tree_vars(3) [OF m(3)] unfolding inc_inv_def by (fastforce, fastforce, fastforce, smt (verit))
  show ?thesis
    unfolding GetZ3IncFlsh_def Let_def m(1,2)
    apply (rule runs_bnd [OF runs_ptr], simp only:)
    apply (rule runs_bnd [OF runs_incr(1) [OF m(3) u(1,3,4)]], clarify)
    apply (rule runs_bnd [OF runs_marks [OF tree_vars(1) [OF m(3)] u(2) m(4)]], assumption)
    apply (simp add: inc_inv_put(1) [OF cd])
    done
qed

lemma runs_IncCmpl:
  assumes c: "crr_ok h c" and cd: "inc_inv h c bd cd"
  shows "runs h (GetZ3IncCmpl ctx uid cd) formula"
proof -
  have r: "ref_ok h (GetRefine uid cd)" by (rule inc_ref [OF c cd])
  then obtain m e where m: "ref_cmpl (GetRefine uid cd) = Some e" "mono_tree h m" "bool_pred encodable h e"
    using node_pred by (auto simp: ref_ok_def)
  show ?thesis unfolding GetZ3IncCmpl_def m(1) by (rule runs_Cmpl [OF tree_vars(1) [OF m(2)] m(3)])
qed

lemma runs_ApplInstr:
  assumes r: "ref_ok h r" and vs: "set vs = tree_states h (the (ref_coi r))"
  shows "runs h (GetZ3ApplInstr ctx vs r cd) (\<lambda>(t, cd'). formula t \<and> (\<exists>un. cd' = cd\<lparr>unrl_apl := un\<rparr>))"
proof -
  obtain m f a where m: "ref_coi r = Some m" "ref_flush r = Some f" "ref_appl r = Some a" "mono_tree h m"
    "bool_pred encodable h f" "bool_pred encodable h a" "\<forall>p \<in> set (ref_invs r). bool_pred encodable h p"
    using r node_pred by (auto simp: ref_ok_def)
  note inv = tree_vars(1) [OF m(4)]
  have u: "preds_enc h (AddStepPred a 0 (fold AddGlobPred (ref_invs r) (ClearPred (unrl_apl cd))))"
    using preds_enc_add(2) [OF preds_enc_add(1) [OF preds_enc_clear m(7)] m(6), of "[0]"] by simp
  have v: "encodable h v" "is_var v" if "v \<in> set vs" for v using tree_vars(3) [OF m(4)] vs m(1) that by auto
  have eq: "runs h (bnd (CurrState ctx u1 v 0) (\<lambda>sa_0. bnd (CurrState ctx u2 v 0) (\<lambda>so_0.
        bnd (t_eq ctx sa_0 so_0) (\<lambda>e. bnd (t_and ctx eq e) (\<lambda>eq.
        bnd (CurrState ctx u1 v 1) (\<lambda>sa_1. bnd (CurrState ctx u3 v 0) (\<lambda>sn_0.
        bnd (t_eq ctx sa_1 sn_0) (t_and ctx eq)))))))) formula"
    if "v \<in> set vs" "formula eq" for v eq and u1 u2 u3 :: "'t Unroller"
  proof -
    have e: "runs h (bnd (CurrState ctx x v i) (\<lambda>a. bnd (CurrState ctx y v j) (\<lambda>b. bnd (t_eq ctx a b) (t_and ctx q)))) formula"
      if q: "formula q" for q i j and x y :: "'t Unroller"
    proof -
      obtain P where "bterm q P" using q by (auto simp: formula_def)
      then show ?thesis
        by (intro runs_weaken [OF runs_state_eq [OF inv v [OF \<open>v \<in> set vs\<close>]]]) (auto simp: formula_def)
    qed
    have "runs h (bnd (bnd (CurrState ctx u1 v 0) (\<lambda>a. bnd (CurrState ctx u2 v 0) (\<lambda>b. bnd (t_eq ctx a b) (t_and ctx eq))))
        (\<lambda>q. bnd (CurrState ctx u1 v 1) (\<lambda>a. bnd (CurrState ctx u3 v 0) (\<lambda>b. bnd (t_eq ctx a b) (t_and ctx q))))) formula"
      by (rule runs_bnd [OF e [OF that(2)] e])
    then show ?thesis by (simp only: bnd_assoc)
  qed
  show ?thesis
    unfolding GetZ3ApplInstr_def Let_def m(1,2,3)
    apply (rule runs_bnd [OF runs_bool])
    apply (rule runs_bnd [OF runs_ptr], simp only:, rule runs_bnd [OF runs_ptr], simp only:)
    apply (rule runs_bnd [OF runs_incr(2) [OF m(4) u]], simp, simp, clarify)
    apply (rule runs_bnd [OF formula_ops(2)], unfold formula_def, erule exI, blast)
    apply (rule runs_bnd [OF runs_bool])
    apply (rule runs_bnd [OF runs_foldM_inv [where A = formula]], rule eq, assumption, assumption, unfold formula_def, erule exI)
    apply (rule runs_bnd [OF formula_ops(2)], unfold formula_def, blast, blast)
    apply (rule runs_bnd [OF runs_ptr], simp only:)
    apply (rule runs_bnd [OF runs_at [OF inv m(5)]], rule runs_bnd [OF runs_at [OF inv m(5)]])
    apply (rule runs_bnd [OF formula_ops(2)], unfold formula_def, blast, blast)
    apply (rule runs_bnd [OF formula_ops(2)], unfold formula_def, blast, blast)
    apply (subst runs_ret, simp, blast)
    done
qed

end

section \<open>The loop\<close>

text \<open>A loop whose body does not answer no, once \<open>A\<close> holds, answers yes.\<close>

lemma runs_for_step:
  assumes "\<And>i a. i \<le> mx \<Longrightarrow> A a \<Longrightarrow> runs h (body i a) (\<lambda>(r, a'). r \<noteq> Some False \<and> (r = None \<longrightarrow> A a'))" "A a" "mx - i < int n" "1 \<le> stp"
  shows "runs h (for_step n body i mx stp a) (\<lambda>(b, _). b)"
  using assms(2,3)
proof (induction n arbitrary: i a)
  case (Suc n)
  show ?case
  proof (cases "i \<le> mx")
    case True
    have step: "runs h (case r of Some b \<Rightarrow> ret (b, a') | None \<Rightarrow> for_step n body (i + stp) mx stp a') (\<lambda>(b, _). b)"
      if "r \<noteq> Some False" "r = None \<longrightarrow> A a'" for r a'
      using that Suc.IH [of a' "i + stp"] Suc.prems(2) assms(4) by (cases r) auto
    show ?thesis
      unfolding for_step.simps if_P [OF True]
      by (rule runs_bnd [OF assms(1) [OF True Suc.prems(1)]], clarify, rule step, assumption, blast)
  qed simp
qed simp

text \<open>Two computations that return the same answer.\<close>

definition agree :: "heap \<Rightarrow> (bool \<times> 'a) M \<Rightarrow> (bool \<times> 'a) M \<Rightarrow> bool" where
  "agree h m1 m2 = (\<forall>h1. only_alloc h h1 \<longrightarrow>
     (\<exists>b a1 h2 a2 h3. m1 h1 = Inr ((b, a1), h2) \<and> m2 h1 = Inr ((b, a2), h3) \<and> only_alloc h1 h2 \<and> only_alloc h1 h3))"

lemma agree_bnd:
  assumes "runs h m Q" "\<And>r. Q r \<Longrightarrow> agree h (f r) (g r)"
  shows "agree h (bnd m f) (bnd m g)"
  unfolding agree_def
proof (intro allI impI)
  fix h1 assume a: "only_alloc h h1"
  obtain r h2 where m: "m h1 = Inr (r, h2)" "only_alloc h1 h2" "Q r" using assms(1) a unfolding runs_def by blast
  from assms(2) [OF m(3)] only_alloc_trans [OF a m(2)] obtain b a1 h3 a2 h4 where
    "f r h2 = Inr ((b, a1), h3)" "g r h2 = Inr ((b, a2), h4)" "only_alloc h2 h3" "only_alloc h2 h4" unfolding agree_def by blast
  then show "\<exists>b a1 h2 a2 h3. bnd m f h1 = Inr ((b, a1), h2) \<and> bnd m g h1 = Inr ((b, a2), h3) \<and> only_alloc h1 h2 \<and> only_alloc h1 h3"
    using m(1) only_alloc_trans [OF m(2)] by (auto simp: monad_simps)
qed

lemma agree_map: "agree h m1 m2 \<Longrightarrow> agree h (bnd m1 (\<lambda>(b, x). ret (b, f x))) (bnd m2 (\<lambda>(b, x). ret (b, f x)))"
  unfolding agree_def by (fastforce simp: monad_simps)

text \<open>When the first run of the body establishes \<open>A\<close>, a larger bound does not change the answer.\<close>

lemma for_step_bound:
  assumes first: "runs h (body mn a) (\<lambda>(r, a'). r = None \<longrightarrow> A a')"
    and later: "\<And>i a. i \<le> mx \<Longrightarrow> A a \<Longrightarrow> runs h (body i a) (\<lambda>(r, a'). r \<noteq> Some False \<and> (r = None \<longrightarrow> A a'))"
    and mx: "mn \<le> mx" "1 \<le> stp"
  shows "agree h (for_step (Suc (nat (mn - mn))) body mn mn stp a) (for_step (Suc (nat (mx - mn))) body mn mx stp a)"
  unfolding agree_def
proof (intro allI impI)
  fix h1 assume h1: "only_alloc h h1"
  obtain r a' h2 where b: "body mn a h1 = Inr ((r, a'), h2)" "only_alloc h1 h2" "r = None \<longrightarrow> A a'"
    using first [unfolded runs_def, rule_format, OF h1] by (auto simp: split_beta)
  show "\<exists>b a1 h2 a2 h3. for_step (Suc (nat (mn - mn))) body mn mn stp a h1 = Inr ((b, a1), h2) \<and>
    for_step (Suc (nat (mx - mn))) body mn mx stp a h1 = Inr ((b, a2), h3) \<and> only_alloc h1 h2 \<and> only_alloc h1 h3"
  proof (cases r)
    case None
    have "runs h (for_step (nat (mx - mn)) body (mn + stp) mx stp a') (\<lambda>(b, _). b)"
      using b(3) None mx by (intro runs_for_step [where A = A, OF later]) auto
    from this [unfolded runs_def, rule_format, OF only_alloc_trans [OF h1 b(2)]] obtain a2 h3 where
      "for_step (nat (mx - mn)) body (mn + stp) mx stp a' h2 = Inr ((True, a2), h3)" "only_alloc h2 h3" by (auto simp: split_beta)
    then show ?thesis using b(1,2) None mx by (auto simp: monad_simps intro: only_alloc_trans)
  qed (use b mx in \<open>auto simp: monad_simps\<close>)
qed

context z3_solver_backend
begin

abbreviation assm_prop :: "heap \<Rightarrow> CompRefRel \<Rightarrow> smt_env \<Rightarrow> bool" where
  "assm_prop h c E \<equiv> rel_old h c E \<longrightarrow> rel_new h c E"

lemma runs_IncCheck_body:
  assumes c: "crr_ok h c" and cd: "inc_inv h c bd cd" "frames s \<noteq> []" and bd: "bd < 2 ^ 31" "i + stp \<le> bd" "0 \<le> stp"
    and t: "bterm cf CF" "bterm assm (\<lambda>E. CF E \<longrightarrow> rel_old h c E)" "bterm prop (\<lambda>E. CF E \<longrightarrow> rel_new h c E)"
  shows "runs h (IncCheck_body ctx sol cf assm prop stp i (s, cd)) (\<lambda>(r, s', cd').
    (r = None \<longrightarrow> frames s' \<noteq> [] \<and> inc_inv h c bd cd' \<and> entails s' (assm_prop h c)) \<and>
    (entails s (assm_prop h c) \<longrightarrow> r \<noteq> Some False))"
proof -
  have rel: "heap_inv h" "bool_pred encodable h (relation c)"
    using c tree_vars(1) by (auto simp: crr_ok_def ref_ok_def)
  have s: "grown s s" using cd(2) by (simp add: grown_def)
  have flush: "runs h (foldM (\<lambda>uid (s, cd). if hi (GetUnrlUnit uid cd) = i
        then bnd (GetZ3IncFlsh ctx uid cd) (\<lambda>(tran, cd). bnd (s_add sol tran s) (\<lambda>s. ret (s, cd)))
        else ret (s, cd)) all_uids (s, cd)) (\<lambda>(s', cd'). grown s s' \<and> inc_inv h c bd cd')"
  proof (rule runs_foldM_inv, clarify)
    fix uid s' and cd' :: "'t CommDiag" assume a: "grown s s'" "inc_inv h c bd cd'"
    show "runs h (if hi (GetUnrlUnit uid cd') = i
        then bnd (GetZ3IncFlsh ctx uid cd') (\<lambda>(tran, cd). bnd (s_add sol tran s') (\<lambda>s. ret (s, cd)))
        else ret (s', cd')) (\<lambda>(s', cd'). grown s s' \<and> inc_inv h c bd cd')"
      by (rule runs_if, rule runs_bnd [OF runs_IncFlsh [OF c a(2) bd(1)]], clarify,
          rule runs_bnd [OF runs_s_add_grown [OF _ a(1)]], assumption) (use a in simp_all)
  qed (use s cd in simp)
  have acc: "runs h (bnd (t_bool ctx True) (foldM (\<lambda>uid acc. bnd (GetZ3IncCmpl ctx uid cd') (t_and ctx acc)) all_uids)) formula"
    if "inc_inv h c bd cd'" for cd' :: "'t CommDiag"
    by (rule runs_bnd [OF runs_bool], rule runs_foldM_inv, rule runs_bnd [OF runs_IncCmpl [OF c that]], rule formula_ops(2))
      (auto simp: formula_def)
  have suff: "runs h (foldM (\<lambda>uid (s, cd).
        let uu = GetUnrlUnit uid cd; cd = put_unit uid (uu\<lparr>lo := hi uu\<rparr>) cd in
        if hi uu = i
        then bnd (GetZ3IncCmpl ctx uid cd) (\<lambda>cmpl_i. bnd (CheckCmpl ctx sol cmpl_i s) (\<lambda>(sufficient, s).
             ret (s, put_unit uid \<lparr>lo = hi uu, hi = (if sufficient then hi uu else hi uu + stp)\<rparr> cd)))
        else ret (s, cd)) all_uids (s1, cd1)) (\<lambda>(s', cd'). grown s1 s' \<and> inc_inv h c bd cd')"
    if "frames s1 \<noteq> []" "inc_inv h c bd cd1" for s1 and cd1 :: "'t CommDiag"
  proof (rule runs_foldM_inv, clarify)
    fix uid s' and cd' :: "'t CommDiag" assume a: "grown s1 s'" "inc_inv h c bd cd'"
    let ?u = "GetUnrlUnit uid cd'"
    have u: "0 \<le> hi ?u" "hi ?u \<le> bd" using a(2) unfolding inc_inv_def by (meson order_trans)+
    have cd1: "inc_inv h c bd (put_unit uid (?u\<lparr>lo := hi ?u\<rparr>) cd')" using u by (intro inc_inv_put(2) [OF a(2)]) simp_all
    have cd2: "inc_inv h c bd (put_unit uid \<lparr>lo = hi ?u, hi = (if b then hi ?u else hi ?u + stp)\<rparr> (put_unit uid (?u\<lparr>lo := hi ?u\<rparr>) cd'))"
      if "hi ?u = i" for b
      using u bd(2,3) that by (intro inc_inv_put(2) [OF cd1]) simp_all
    show "runs h (let uu = ?u; cd = put_unit uid (uu\<lparr>lo := hi uu\<rparr>) cd' in
        if hi uu = i
        then bnd (GetZ3IncCmpl ctx uid cd) (\<lambda>cmpl_i. bnd (CheckCmpl ctx sol cmpl_i s') (\<lambda>(sufficient, s).
             ret (s, put_unit uid \<lparr>lo = hi uu, hi = (if sufficient then hi uu else hi uu + stp)\<rparr> cd)))
        else ret (s', cd)) (\<lambda>(s', cd'). grown s1 s' \<and> inc_inv h c bd cd')"
      unfolding Let_def
      by (rule runs_if, rule runs_bnd [OF runs_IncCmpl [OF c cd1]], rule runs_bnd [OF runs_CheckCmpl [OF _ a(1)]], assumption, clarify)
        (use a cd1 cd2 in simp_all)
  qed (use that in \<open>simp add: grown_def\<close>)
  have ok: "entails s (assm_prop h c) \<Longrightarrow> grown s s' \<Longrightarrow> entails s' (assm_prop h c)" for s' by (rule entails_grown)
  have rs: "rel_suffs c cd'" if "inc_inv h c bd cd'" for cd' :: "'t CommDiag" using that by (simp add: inc_inv_def)
  show ?thesis
    unfolding IncCheck_body_def prod.case
    apply (rule runs_if, simp)
    apply (rule runs_bnd [OF flush], clarify)
    apply (rule runs_bnd [OF acc], assumption)
    apply (rule runs_bnd [OF runs_inc_query [OF t(1) _ t(2,3)]], assumption, simp only: grown_def, blast, clarify)
    apply (rule runs_if, use ok in \<open>simp only: runs_ret prod.case, blast\<close>)
    apply (rule runs_bnd [OF runs_inc_partial [OF rel rs]], assumption, assumption, assumption, assumption, clarify)
    apply (rule runs_bnd [OF suff], simp only: grown_def, blast, assumption, clarify)
    apply (subst runs_ret, simp only: prod.case simp_thms)
    using entails_grown grown_def apply blast
    done
qed

end

section \<open>The checks\<close>

text \<open>What both checks do before the loop.\<close>

definition inc_prefix ::
  "'t z3_api \<Rightarrow> ('t, 's) z3_solver \<Rightarrow> ExprSet \<Rightarrow> ExprSet \<Rightarrow> 't CommDiag \<Rightarrow> ('s \<times> 't CommDiag \<times> 't \<times> 't \<times> 't) M" where
  "inc_prefix ctx sol sa sb cd =
     bnd (inc_base ctx sol sa sb cd) (\<lambda>(s, cd).
     bnd (lift (z3_constant ctx ''cmpl_flag'' SBool)) (\<lambda>cf.
     bnd (GetZ3Assm ctx cd) (\<lambda>assm. bnd (GetZ3Prop ctx cd) (\<lambda>prop.
     bnd (t_implies ctx cf assm) (\<lambda>assm. bnd (t_implies ctx cf prop) (\<lambda>prop.
     ret (s, cd, cf, assm, prop)))))))"

lemma IncCheck_split:
  "IncCheck ctx sol mn mx stp cd =
     (let cd = fold (\<lambda>uid. put_unit uid \<lparr>lo = 0, hi = mn\<rparr>) all_uids cd in
     bnd (inc_prefix ctx sol (stts_a cd) (stts_b cd) cd) (\<lambda>(s, cd, cf, assm, prop).
     bnd (for_step (Suc (nat (mx - mn))) (IncCheck_body ctx sol cf assm prop stp) mn mx stp (s, cd)) (\<lambda>(b, s, cd). ret (b, cd))))"
  by (simp only: IncCheck_def inc_prefix_def Let_def bnd_assoc case_prod_unfold bnd_ret fst_conv snd_conv)

context z3_solver_backend
begin

lemma runs_flag: "runs h (lift (z3_constant ctx ''cmpl_flag'' SBool)) (\<lambda>t. bterm t (\<lambda>E. env_const E ''cmpl_flag'' SBool = VBool True))"
proof -
  have b: "sort_wf SortBool" "smt_sort_of SortBool = SBool" by (simp_all add: smt_sort_of_def)
  have "env_const E ''cmpl_flag'' SBool = VBool (env_const E ''cmpl_flag'' SBool = VBool True)" if "env_ok E" for E
  proof -
    have "val_ok SortBool (env_const E ''cmpl_flag'' SBool)" using that b unfolding env_ok_def by metis
    then show ?thesis by (cases "env_const E ''cmpl_flag'' SBool") auto
  qed
  then show ?thesis by (intro runs_is_term [OF free_const [OF b(1), unfolded b(2)]]) blast
qed

lemma runs_inc_prefix:
  assumes c: "crr_ok h c" and cd: "rel_suffs c cd" and v: "set sa = tree_states h (the (ref_coi (refine_a c)))" "set sb = tree_states h (the (ref_coi (refine_b c)))"
  shows "runs h (inc_prefix ctx sol sa sb cd) (\<lambda>(s, cd', cf, assm, prop). frames s \<noteq> [] \<and> (\<exists>un. cd' = cd\<lparr>unrl_apl := un\<rparr>) \<and>
    (\<exists>CF. bterm cf CF \<and> bterm assm (\<lambda>E. CF E \<longrightarrow> rel_old h c E) \<and> bterm prop (\<lambda>E. CF E \<longrightarrow> rel_new h c E)))"
proof -
  have r: "ref_ok h (refine_a c)" "ref_ok h (refine_b c)" using c by (simp_all add: crr_ok_def)
  have rel: "heap_inv h" "bool_pred encodable h (relation c)" using c tree_vars(1) by (auto simp: crr_ok_def ref_ok_def)
  have crr: "crr cd = c" "crr (cd\<lparr>unrl_apl := un\<rparr>) = c" for un using cd by (simp_all add: rel_suffs_def)
  have rs: "rel_suffs c (cd\<lparr>unrl_apl := un\<rparr>)" for un using cd by (simp add: rel_suffs_def GetUnrlOld_def GetUnrlNew_def)
  have upd: "cd\<lparr>unrl_apl := un, unrl_apl := un'\<rparr> = cd\<lparr>unrl_apl := un'\<rparr>" for un un' by simp
  have base: "runs h (inc_base ctx sol sa sb cd) (\<lambda>(s, cd'). frames s \<noteq> [] \<and> (\<exists>un. cd' = cd\<lparr>unrl_apl := un\<rparr>))"
    unfolding inc_base_def crr(1)
    apply (rule runs_bnd [OF runs_ApplInstr [OF r(1) v(1)]], clarify, unfold crr)
    apply (rule runs_bnd [OF runs_ApplInstr [OF r(2) v(2)]], clarify)
    apply (rule runs_bnd [OF runs_s_add_any], erule formula_sort)
    apply (rule runs_bnd [OF runs_s_add_any], erule formula_sort)
    apply (subst runs_ret, unfold prod.case upd push)
    apply (rule conjI, rule list.simps(3), rule exI, rule refl)
    done
  show ?thesis
    unfolding inc_prefix_def
    apply (rule runs_bnd [OF base], clarify)
    apply (rule runs_bnd [OF runs_flag])
    apply (rule runs_bnd [OF runs_rel(1) [OF rel rs]], rule runs_bnd [OF runs_rel(2) [OF rel rs]])
    apply (rule runs_bnd [OF runs_ops(5)], assumption, assumption, rule runs_bnd [OF runs_ops(5)], assumption, assumption)
    apply (subst runs_ret, simp only: prod.case, blast)
    done
qed

end

lemma inc_inv_start:
  assumes "crr_ok h c" "cd_ok h c cd" "inc_ok h c cd" "0 \<le> mn" "mn \<le> bd"
  shows "inc_inv h c bd (fold (\<lambda>uid. put_unit uid \<lparr>lo = 0, hi = mn\<rparr>) all_uids cd)"
proof -
  have f: "bool_pred encodable h (the (ref_flush (refine_b c)))"
    using assms(1) by (auto simp: crr_ok_def ref_ok_def node_def bool_pred_def)
  have "preds_enc h (GetUnrl uid cd)" for uid
    using assms(3) f by (auto simp: inc_ok_def preds_enc_def s_pred_at_def)
  then have "rel_suffs c cd" "\<forall>uid. preds_enc h (GetUnrl uid cd) \<and> set (GetStts uid cd) = tree_states h (the (ref_coi (GetRefine uid cd)))"
    using assms(2,3) by (auto simp: rel_suffs_def inc_ok_def cd_ok_def)
  then show ?thesis
    using assms(4,5) unfolding inc_inv_def rel_suffs_def
    by (auto simp: all_uids_def put_unit_def GetUnrl_def GetUnrlOld_def GetUnrlNew_def GetStts_def GetRefine_def GetUnrlUnit_def
        split: UID.splits)
qed

context z3_solver_backend
begin

lemma agree_IncCheck:
  assumes c: "crr_ok h c" and cd: "cd_ok h c cd" "inc_ok h c cd" and mx: "0 \<le> mn" "mn \<le> mx" "1 \<le> stp" "mx + stp < 2 ^ 31"
  shows "agree h (IncCheck ctx sol mn mn stp cd) (IncCheck ctx sol mn mx stp cd)"
proof -
  let ?cd = "fold (\<lambda>uid. put_unit uid \<lparr>lo = 0, hi = mn\<rparr>) all_uids cd"
  let ?bd = "mx + stp"
  have inv: "inc_inv h c ?bd ?cd" using mx by (intro inc_inv_start [OF c cd]) simp_all
  note v = inc_inv_stts [OF inv]
  let ?A = "\<lambda>(s, cd). frames s \<noteq> [] \<and> inc_inv h c ?bd cd \<and> entails s (assm_prop h c)"
  have loop: "agree h (for_step (Suc (nat (mn - mn))) (IncCheck_body ctx sol cf assm prp stp) mn mn stp (s, cd1))
      (for_step (Suc (nat (mx - mn))) (IncCheck_body ctx sol cf assm prp stp) mn mx stp (s, cd1))"
    if s: "frames s \<noteq> []" "inc_inv h c ?bd cd1"
      and t: "bterm cf CF" "bterm assm (\<lambda>E. CF E \<longrightarrow> rel_old h c E)" "bterm prp (\<lambda>E. CF E \<longrightarrow> rel_new h c E)" for s cd1 cf assm prp CF
  proof (rule for_step_bound [where A = ?A, OF _ _ mx(2,3)])
    note body = runs_IncCheck_body [OF c _ _ mx(4) _ _ t]
    show "runs h (IncCheck_body ctx sol cf assm prp stp mn (s, cd1)) (\<lambda>(r, a'). r = None \<longrightarrow> ?A a')"
      using mx by (intro runs_weaken [OF body [OF s(2,1)]]) auto
    fix i and a :: "'s \<times> 't CommDiag" assume i: "i \<le> mx" and a: "?A a"
    obtain s1 cd2 where a': "a = (s1, cd2)" by (cases a)
    show "runs h (IncCheck_body ctx sol cf assm prp stp i a) (\<lambda>(r, a'). r \<noteq> Some False \<and> (r = None \<longrightarrow> ?A a'))"
      unfolding a' using i a mx by (intro runs_weaken [OF body]) (auto simp: a')
  qed
  have keep: "inc_inv h c ?bd (?cd\<lparr>unrl_apl := un\<rparr>)" for un by (rule inc_inv_put(3) [OF inv])
  show ?thesis
    unfolding IncCheck_split Let_def
    apply (rule agree_bnd [OF runs_inc_prefix [OF c v]], clarify)
    apply (unfold case_prod_unfold prod.collapse)
    apply (rule agree_map [unfolded case_prod_unfold])
    apply (rule loop, assumption, rule keep, assumption+)
    done
qed

end

section \<open>The check with local unrollers\<close>

context z3_solver_backend
begin

lemma runs_IncUnrl:
  assumes r: "ref_ok h r" and u: "preds_enc h u" and vs: "set vs = tree_states h (the (ref_coi r))" and len: "0 \<le> len" "len < 2 ^ 31"
  shows "runs h (GetZ3IncUnrl ctx u r start len vs) (\<lambda>(t, u'). formula t \<and> preds_enc h u')"
proof -
  obtain m e where m: "ref_coi r = Some m" "ref_cmpl r = Some e" "mono_tree h m" "bool_pred encodable h e"
    using r node_pred by (auto simp: ref_ok_def)
  have v: "\<forall>v \<in> set vs. encodable h v \<and> is_var v" using tree_vars(3) [OF m(3)] vs m(1) by simp
  show ?thesis
    unfolding GetZ3IncUnrl_def m(1,2)
    apply (rule runs_bnd [OF runs_ptr], simp only:)
    apply (rule runs_bnd [OF runs_incr(1) [OF m(3) u len]], clarify)
    apply (rule runs_bnd [OF runs_marks [OF tree_vars(1) [OF m(3)] v m(4)]], assumption)
    apply simp
    done
qed

lemma runs_IncEqCheck_body:
  assumes c: "crr_ok h c" and cd: "rel_suffs c cd" and v: "set sa = tree_states h (the (ref_coi (refine_a c)))" "set sb = tree_states h (the (ref_coi (refine_b c)))"
    and st: "frames s \<noteq> []" "\<forall>uid. preds_enc h (unrl uid)" and stp: "0 \<le> stp" "stp < 2 ^ 31"
    and t: "bterm cf CF" "bterm assm (\<lambda>E. CF E \<longrightarrow> rel_old h c E)" "bterm prp (\<lambda>E. CF E \<longrightarrow> rel_new h c E)"
  shows "runs h (IncEqCheck_body ctx sol cd sa sb cf assm prp stp i (s, num, unrl)) (\<lambda>(r, s', num', unrl').
    (r = None \<longrightarrow> frames s' \<noteq> [] \<and> (\<forall>uid. preds_enc h (unrl' uid)) \<and> entails s' (assm_prop h c)) \<and>
    (entails s (assm_prop h c) \<longrightarrow> r \<noteq> Some False))"
proof -
  have rel: "heap_inv h" "bool_pred encodable h (relation c)" using c tree_vars(1) by (auto simp: crr_ok_def ref_ok_def)
  have crr: "crr cd = c" using cd by (simp add: rel_suffs_def)
  have r: "ref_ok h (GetRefine uid cd)" for uid using c crr by (auto simp: crr_ok_def GetRefine_def split: UID.split)
  let ?v = "\<lambda>uid. if uid \<in> {A_OLD, A_NEW} then sa else sb"
  have vs: "set (?v uid) = tree_states h (the (ref_coi (GetRefine uid cd)))" for uid
    using v crr by (cases uid) (simp_all add: GetRefine_def)
  let ?I = "\<lambda>s0 (s', unrl' :: UID \<Rightarrow> 't Unroller). grown s0 s' \<and> (\<forall>uid. preds_enc h (unrl' uid))"
  have flush: "runs h (foldM (\<lambda>uid (s, unrl). if num uid = i
        then bnd (GetZ3IncUnrl ctx (unrl uid) (GetRefine uid cd) i stp (?v uid)) (\<lambda>(tran, un).
             bnd (s_add sol tran s) (\<lambda>s. ret (s, unrl(uid := un))))
        else ret (s, unrl)) all_uids (s, unrl)) (?I s)"
  proof (rule runs_foldM_inv, clarify)
    fix uid s' and unrl' :: "UID \<Rightarrow> 't Unroller" assume a: "grown s s'" "\<forall>uid. preds_enc h (unrl' uid)"
    show "runs h (if num uid = i
        then bnd (GetZ3IncUnrl ctx (unrl' uid) (GetRefine uid cd) i stp (?v uid)) (\<lambda>(tran, un).
             bnd (s_add sol tran s') (\<lambda>s. ret (s, unrl'(uid := un))))
        else ret (s', unrl')) (?I s)"
      by (rule runs_if, rule runs_bnd [OF runs_IncUnrl [OF r spec [OF a(2)] vs stp]], clarify,
          rule runs_bnd [OF runs_s_add_grown [OF _ a(1)]], assumption) (use a in simp_all)
  qed (use st in \<open>simp add: grown_def\<close>)
  have cmpl: "runs h (GetZ3Cmpl ctx (ref_cmpl (GetRefine uid cd)) u 0 k) formula" for uid u k
  proof -
    obtain e where "ref_cmpl (GetRefine uid cd) = Some e" "bool_pred encodable h e" using r [of uid] node_pred by (auto simp: ref_ok_def)
    then show ?thesis using runs_Cmpl [OF rel(1)] by simp
  qed
  have suff: "runs h (foldM (\<lambda>(uid, c) (s, num). if num uid = i
        then bnd (CheckCmpl ctx sol c s) (\<lambda>(sufficient, s).
             ret (s, num(uid := (if sufficient then num uid else num uid + stp))))
        else ret (s, num)) [(A_OLD, c1), (A_NEW, c2), (B_OLD, c3), (B_NEW, c4)] (s1, num)) (\<lambda>(s', num'). grown s1 s')"
    if f: "formula c1" "formula c2" "formula c3" "formula c4" and ne: "frames s1 \<noteq> []" for s1 c1 c2 c3 c4
  proof (rule runs_foldM_inv, clarify)
    fix uid c s' and num :: "UID \<Rightarrow> int" assume a: "(uid, c) \<in> set [(A_OLD, c1), (A_NEW, c2), (B_OLD, c3), (B_NEW, c4)]" "grown s1 s'"
    then have "formula c" using f by auto
    then show "runs h (if num uid = i then bnd (CheckCmpl ctx sol c s') (\<lambda>(sufficient, s).
             ret (s, num(uid := (if sufficient then num uid else num uid + stp)))) else ret (s', num)) (\<lambda>(s', num'). grown s1 s')"
      by (intro runs_if runs_bnd [OF runs_CheckCmpl [OF _ a(2)]]) (use a in \<open>auto simp: split_beta\<close>)
  qed (use ne in \<open>simp add: grown_def\<close>)
  have ok: "entails s (assm_prop h c) \<Longrightarrow> grown s s' \<Longrightarrow> entails s' (assm_prop h c)" for s' by (rule entails_grown)
  show ?thesis
    unfolding IncEqCheck_body_def prod.case Let_def
    apply (rule runs_if, simp)
    apply (rule runs_bnd [OF flush], clarify)
    apply (rule runs_bnd [OF cmpl], rule runs_bnd [OF cmpl], rule runs_bnd [OF cmpl], rule runs_bnd [OF cmpl])
    apply (rule runs_bnd [OF formula_ops(2)], assumption, assumption)
    apply (rule runs_bnd [OF formula_ops(2)], assumption, assumption)
    apply (rule runs_bnd [OF formula_ops(2)], assumption, assumption)
    apply (rule runs_bnd [OF runs_inc_query [OF t(1) _ t(2,3)]], assumption, simp only: grown_def, blast, clarify)
    apply (rule runs_if, use ok in \<open>simp only: runs_ret prod.case, blast\<close>)
    apply (rule runs_bnd [OF runs_inc_partial [OF rel cd]], assumption, assumption, assumption, clarify)
    apply (rule runs_bnd [OF suff], assumption, assumption, assumption, assumption, simp only: grown_def, blast, clarify)
    apply (subst runs_ret, simp only: prod.case simp_thms)
    using entails_grown grown_def apply blast
    done
qed

end

lemma IncEqCheck_split:
  "IncEqCheck ctx sol z3_forall mn mx stp cd =
     bnd (SanityCheck ctx sol z3_forall cd) (\<lambda>_.
     bnd (ptr (ref_coi (refine_a (crr cd)))) (\<lambda>ma. bnd (ptr (ref_coi (refine_b (crr cd)))) (\<lambda>mb.
     bnd (GetSttTree ma) (\<lambda>sa. bnd (GetSttTree mb) (\<lambda>sb.
     bnd (inc_prefix ctx sol sa sb cd) (\<lambda>(s, cd, cf, assm, prp).
     bnd (ila_assert (mx \<ge> mn) ''Invalid range'') (\<lambda>_.
     bnd (ptr (ref_flush (refine_a (crr cd)))) (\<lambda>fa. bnd (ptr (ref_flush (refine_b (crr cd)))) (\<lambda>fb.
     bnd (for_step (Suc (nat (mx - mn))) (IncEqCheck_body ctx sol cd sa sb cf assm prp stp) mn mx stp (s, (\<lambda>uid. mn),
         (\<lambda>uid. AddGlobPred (if uid \<in> {A_OLD, A_NEW} then fa else fb)
            (Unroller_new (if uid \<in> {A_OLD, B_OLD} then k_suff_old else k_suff_new)))))
       (\<lambda>(b, _). ret (b, cd)))))))))))"
  by (simp only: IncEqCheck_def inc_prefix_def Let_def bnd_assoc case_prod_unfold bnd_ret fst_conv snd_conv)

context z3_solver_backend
begin

lemma agree_IncEqCheck:
  assumes fa: "forall_ok ctx tsort z3_forall" and c: "crr_ok h c" and cd: "cd_ok h c cd" "inc_ok h c cd"
    and mx: "mn \<le> mx" "1 \<le> stp" "stp < 2 ^ 31"
  shows "agree h (IncEqCheck ctx sol z3_forall mn mn stp cd) (IncEqCheck ctx sol z3_forall mn mx stp cd)"
proof -
  have crr: "crr cd = c" "crr (cd\<lparr>unrl_apl := un\<rparr>) = c" for un using cd(1) by (simp_all add: cd_ok_def)
  have rs: "rel_suffs c cd" "rel_suffs c (cd\<lparr>unrl_apl := un\<rparr>)" for un
    using cd by (simp_all add: rel_suffs_def inc_ok_def cd_ok_def GetUnrlOld_def GetUnrlNew_def)
  obtain ma mb f1 f2 where m: "ref_coi (refine_a c) = Some ma" "ref_coi (refine_b c) = Some mb" "mono_tree h ma" "mono_tree h mb"
    "ref_flush (refine_a c) = Some f1" "ref_flush (refine_b c) = Some f2" "bool_pred encodable h f1" "bool_pred encodable h f2"
    using c node_pred by (auto simp: crr_ok_def ref_ok_def)
  let ?u = "\<lambda>uid. AddGlobPred (if uid \<in> {A_OLD, A_NEW} then f1 else f2)
            (Unroller_new (if uid \<in> {A_OLD, B_OLD} then k_suff_old else k_suff_new)) :: 't Unroller"
  have u: "\<forall>uid. preds_enc h (?u uid)" using m(7,8) by (simp add: preds_enc_def AddGlobPred_def Unroller_new_def s_pred_at_def)
  let ?A = "\<lambda>(s, num :: UID \<Rightarrow> int, unrl :: UID \<Rightarrow> 't Unroller). frames s \<noteq> [] \<and> (\<forall>uid. preds_enc h (unrl uid)) \<and> entails s (assm_prop h c)"
  have loop: "agree h (for_step (Suc (nat (mn - mn))) (IncEqCheck_body ctx sol cd1 sa sb cf assm prp stp) mn mn stp (s, (\<lambda>uid. mn), ?u))
      (for_step (Suc (nat (mx - mn))) (IncEqCheck_body ctx sol cd1 sa sb cf assm prp stp) mn mx stp (s, (\<lambda>uid. mn), ?u))"
    if s: "frames s \<noteq> []" "rel_suffs c cd1" and v: "set sa = tree_states h ma" "set sb = tree_states h mb"
      and t: "bterm cf CF" "bterm assm (\<lambda>E. CF E \<longrightarrow> rel_old h c E)" "bterm prp (\<lambda>E. CF E \<longrightarrow> rel_new h c E)" for s cd1 cf assm prp CF sa sb
  proof (rule for_step_bound [where A = ?A, OF _ _ mx(1,2)])
    have st: "0 \<le> stp" using mx(2) by simp
    have v': "set sa = tree_states h (the (ref_coi (refine_a c)))" "set sb = tree_states h (the (ref_coi (refine_b c)))" using v m by simp_all
    note body = runs_IncEqCheck_body [OF c s(2) v' _ _ st mx(3) t]
    show "runs h (IncEqCheck_body ctx sol cd1 sa sb cf assm prp stp mn (s, (\<lambda>uid. mn), ?u)) (\<lambda>(r, a'). r = None \<longrightarrow> ?A a')"
      by (rule runs_weaken [OF body [OF s(1) u]]) auto
    fix i and a :: "'s \<times> (UID \<Rightarrow> int) \<times> (UID \<Rightarrow> 't Unroller)" assume a: "?A a"
    obtain s1 num1 un1 where a': "a = (s1, num1, un1)" by (cases a)
    show "runs h (IncEqCheck_body ctx sol cd1 sa sb cf assm prp stp i a) (\<lambda>(r, a'). r \<noteq> Some False \<and> (r = None \<longrightarrow> ?A a'))"
      unfolding a' using a by (intro runs_weaken [OF body]) (auto simp: a')
  qed
  have chk: "runs h (ila_assert True msg) (\<lambda>_. True)" for msg by (auto simp: runs_def)
  have le: "(mn \<le> mn) = True" "(mn \<le> mx) = True" using mx(1) by simp_all
  show ?thesis
    unfolding IncEqCheck_split crr(1) m(1,2) le
    apply (rule agree_bnd [OF runs_SanityCheck [OF fa cd(1)]])
    apply (rule agree_bnd [OF runs_ptr], simp only:, rule agree_bnd [OF runs_ptr], simp only:)
    apply (rule agree_bnd [OF runs_stt_tree [OF m(3)]], rule agree_bnd [OF runs_stt_tree [OF m(4)]])
    apply (rule agree_bnd [OF runs_inc_prefix [OF c rs(1)]], simp only: m option.sel, simp only: m option.sel, clarify)
    apply (rule agree_bnd [OF chk], unfold crr m(5,6))
    apply (rule agree_bnd [OF runs_ptr], simp only:, rule agree_bnd [OF runs_ptr], simp only:)
    apply (rule agree_map)
    apply (rule loop, assumption, rule rs(2), assumption+)
    done
qed

end

section \<open>Properties\<close>

lemma agreeD:
  assumes "agree h m1 m2"
  shows "\<exists>b a1 h1 a2 h2. m1 h = Inr ((b, a1), h1) \<and> m2 h = Inr ((b, a2), h2) \<and> ilas h2 = ilas h \<and> instrs h2 = instrs h"
  using assms only_alloc_refl [of h] unfolding agree_def only_alloc_def by blast

text \<open>C13: The incremental checks do not use their upper bound. On every accepted refinement relation, with a solver
  that answers as documented, a step of at least 1 and numbers of steps below $2^{31}$, \<^verbatim>\<open>IncCheck\<close> and
  \<^verbatim>\<open>IncEqCheck\<close> from \<open>mn\<close> to \<open>mx\<close> steps return, and each gives the answer it gives with \<open>mn\<close> as the upper
  bound: after the first query they assert the property under its assumption, whether or not the paths
  are complete, so no later query can be satisfied.\<close>

theorem inc_checks_bound:
  assumes "z3_solver_backend ctx tsort den sol frames" "forall_ok ctx tsort z3_forall" "crr_ok h c"
    "0 \<le> mn" "mn \<le> mx" "1 \<le> stp" "mx + stp < 2 ^ 31"
  shows "(\<exists>b cd1 h1 cd2 h2. bnd (CommDiag_New ctx sol z3_forall c) (IncCheck ctx sol mn mn stp) h = Inr ((b, cd1), h1) \<and>
      bnd (CommDiag_New ctx sol z3_forall c) (IncCheck ctx sol mn mx stp) h = Inr ((b, cd2), h2) \<and> ilas h2 = ilas h \<and> instrs h2 = instrs h) \<and>
    (\<exists>b cd1 h1 cd2 h2. bnd (CommDiag_New ctx sol z3_forall c) (IncEqCheck ctx sol z3_forall mn mn stp) h = Inr ((b, cd1), h1) \<and>
      bnd (CommDiag_New ctx sol z3_forall c) (IncEqCheck ctx sol z3_forall mn mx stp) h = Inr ((b, cd2), h2) \<and>
      ilas h2 = ilas h \<and> instrs h2 = instrs h)"
proof -
  note new = z3_solver_backend.runs_CommDiag_New [OF assms(1-3)]
  have stp: "stp < 2 ^ 31" using assms(4-7) by simp
  show ?thesis
    by (intro conjI agreeD, (rule agree_bnd [OF new], elim conjE, rule z3_solver_backend.agree_IncCheck [OF assms(1,3) _ _ assms(4-7)], assumption, assumption),
        rule agree_bnd [OF new], elim conjE, rule z3_solver_backend.agree_IncEqCheck [OF assms(1-3) _ _ assms(5,6) stp])
qed

theorem inc_checks_bound_witness:
  "\<exists>b cd1 h1 cd2 h2. bnd (CommDiag_New sem_api sem_solver sem_forall ex_crr) (IncCheck sem_api sem_solver 0 0 1) bmc_heap = Inr ((b, cd1), h1) \<and>
     bnd (CommDiag_New sem_api sem_solver sem_forall ex_crr) (IncCheck sem_api sem_solver 0 10 1) bmc_heap = Inr ((b, cd2), h2)"
proof -
  have "forall_ok sem_api fst sem_forall" by (simp add: forall_ok_def sem_forall_def)
  then show ?thesis using inc_checks_bound [OF exact.z3_solver_backend_axioms _ ex_crr_ok, of sem_forall 0 10 1] by auto
qed

end
