(* ===== verification/Passes.thy ===== *)
theory Passes
  imports Rewriter HashAst
begin

text \<open>
  The passes over an ILA (include/ilang/ila-mngr/pass.h): the template that applies a
  rewriting to every expression of a tree of ILAs (src/ila-mngr/p\_rewrite\_generic.cc) and
  its uses.
\<close>

section \<open>The pass template\<close>

text \<open>
  The rewriting is a \<^verbatim>\<open>std::function\<close> with a state of its own (the table, the
  expression manager), threaded through the calls. A null result is stored by
  \<^verbatim>\<open>ForceAddUpdate\<close>; the model stops there. The children are visited after the ILA;
  they are younger, so the fuel suffices.
\<close>

type_synonym 's rewriting = "'s \<Rightarrow> expr \<Rightarrow> (expr option \<times> 's) M"

definition rewrite_update :: "'s rewriting \<Rightarrow> nat \<Rightarrow> string \<Rightarrow> 's \<Rightarrow> 's M" where
  "rewrite_update Rewr i state s =
     bnd (get_instr i) (\<lambda>x.
     bnd (deref (update x state)) (\<lambda>e.
     bnd (Rewr s e) (\<lambda>(p, s).
     bnd (deref p) (\<lambda>d.
     bnd (ForceAddUpdate i state d) (\<lambda>_. ret s)))))"

definition rewrite_instr :: "'s rewriting \<Rightarrow> nat \<Rightarrow> 's \<Rightarrow> 's M" where
  "rewrite_instr Rewr i s =
     bnd (get_instr i) (\<lambda>x.
     bnd (not_null (instr_decode x)) (\<lambda>e.
     bnd (Rewr s e) (\<lambda>(d, s).
     bnd (ForceSetDecode i d) (\<lambda>_.
     bnd (get_instr i) (\<lambda>x.
     foldM (rewrite_update Rewr i) (updated_states x) s)))))"

fun RewriteGeneric_n :: "nat \<Rightarrow> 's rewriting \<Rightarrow> nat \<Rightarrow> 's \<Rightarrow> 's M" where
  "RewriteGeneric_n 0 Rewr m s = lift (Inl Diverges)"
| "RewriteGeneric_n (Suc n) Rewr m s =
     bnd (bnd (get_ila m) (\<lambda>x. case ila_valid x of None \<Rightarrow> ret s
          | Some e \<Rightarrow> bnd (Rewr s e) (\<lambda>(d, s). bnd (ForceSetValid m d) (\<lambda>_. ret s)))) (\<lambda>s.
     bnd (bnd (get_ila m) (\<lambda>x. case ila_fetch x of None \<Rightarrow> ret s
          | Some e \<Rightarrow> bnd (Rewr s e) (\<lambda>(d, s). bnd (ForceSetFetch m d) (\<lambda>_. ret s)))) (\<lambda>s.
     bnd (bnd (get_ila m) (\<lambda>x. foldM (rewrite_instr Rewr) (vec (ila_instrs x)) s)) (\<lambda>s.
     bnd (get_ila m) (\<lambda>x. foldM (RewriteGeneric_n n Rewr) (vec (ila_childs x)) s))))"

definition RewriteGeneric :: "'s rewriting \<Rightarrow> nat \<Rightarrow> 's \<Rightarrow> bool M" where
  "RewriteGeneric Rewr m s =
     (\<lambda>h. bnd (RewriteGeneric_n (Suc (counter h - m)) Rewr m s) (\<lambda>_. ret True) h)"

definition RewriteConditionalStore :: "nat \<Rightarrow> bool M" where
  "RewriteConditionalStore m = RewriteGeneric (rewr_expr CondStore_RewriteOp) m Map.empty"

definition RewriteStoreLoad :: "nat \<Rightarrow> bool M" where
  "RewriteStoreLoad m = RewriteGeneric (rewr_expr RewriteOp) m Map.empty"

section \<open>What a pass keeps\<close>

text \<open>The expressions the template rewrites are good, and every instruction has a decode.\<close>

definition exprs_good :: "heap \<Rightarrow> bool" where
  "exprs_good h =
     ((\<forall>p m. ilas h p = Some m \<longrightarrow>
         (\<forall>e. ila_valid m = Some e \<longrightarrow> good h e) \<and> (\<forall>e. ila_fetch m = Some e \<longrightarrow> good h e)) \<and>
      (\<forall>i x. instrs h i = Some x \<longrightarrow>
         (\<exists>d. instr_decode x = Some d \<and> good h d) \<and> list_all (\<lambda>u. good h (snd u)) (instr_updates x)))"

text \<open>\<open>same h e d\<close>: \<open>d\<close> is a good expression with the sort and the meaning of \<open>e\<close>.\<close>

abbreviation same_meaning :: "heap \<Rightarrow> expr \<Rightarrow> expr \<Rightarrow> bool" where
  "same_meaning \<equiv> replaces same_pairs"

definition ila_rel :: "heap \<Rightarrow> Ila \<Rightarrow> Ila \<Rightarrow> bool" where
  "ila_rel h m m' =
     (m' = m\<lparr>ila_valid := ila_valid m', ila_fetch := ila_fetch m'\<rparr> \<and>
      rel_option (same_meaning h) (ila_valid m) (ila_valid m') \<and>
      rel_option (same_meaning h) (ila_fetch m) (ila_fetch m'))"

definition update_rel :: "heap \<Rightarrow> string \<times> expr \<Rightarrow> string \<times> expr \<Rightarrow> bool" where
  "update_rel h u u' = (fst u' = fst u \<and> same_meaning h (snd u) (snd u'))"

definition instr_rel :: "heap \<Rightarrow> Instr \<Rightarrow> Instr \<Rightarrow> bool" where
  "instr_rel h x x' =
     (x' = x\<lparr>instr_decode := instr_decode x', instr_updates := instr_updates x'\<rparr> \<and>
      rel_option (same_meaning h) (instr_decode x) (instr_decode x') \<and>
      list_all2 (update_rel h) (instr_updates x) (instr_updates x'))"

text \<open>A heap after a pass: the same objects, with equivalent expressions.\<close>

definition rewritten :: "heap \<Rightarrow> heap \<Rightarrow> bool" where
  "rewritten h h' =
     (counter h \<le> counter h' \<and> (\<forall>p. rel_option (ila_rel h') (ilas h p) (ilas h' p)) \<and>
      (\<forall>i. rel_option (instr_rel h') (instrs h i) (instrs h' i)))"

lemma rewritten_dom:
  assumes "rewritten h h'"
  shows "dom (ilas h') = dom (ilas h)" "dom (instrs h') = dom (instrs h)"
proof -
  have "ilas h' p = None \<longleftrightarrow> ilas h p = None" "instrs h' i = None \<longleftrightarrow> instrs h i = None" for p i
    using assms unfolding rewritten_def by (metis option.rel_distinct option.exhaust)+
  then show "dom (ilas h') = dom (ilas h)" "dom (instrs h') = dom (instrs h)" by (auto simp: dom_def)
qed

lemma same_refl: "good h e \<Longrightarrow> same_meaning h e e"
  by (simp add: replaces_same)

lemma same_trans:
  assumes "dom (ilas h') = dom (ilas h)"
  shows "same_meaning h e d \<Longrightarrow> same_meaning h' d c \<Longrightarrow> same_meaning h' e c"
  by (auto simp: replaces_same)

lemma rel_option_refl: "(\<And>x. p = Some x \<Longrightarrow> R x x) \<Longrightarrow> rel_option R p p"
  by (cases p) simp_all

lemma ila_rel_refl:
  assumes "exprs_good h" "ilas h p = Some m" "dom (ilas h') = dom (ilas h)"
  shows "ila_rel h' m m"
proof -
  have "good h' e" if "ila_valid m = Some e \<or> ila_fetch m = Some e" for e
    using assms(1,2) that good_dom [OF assms(3)] unfolding exprs_good_def by blast
  then show ?thesis by (simp add: ila_rel_def rel_option_refl same_refl)
qed

lemma instr_rel_refl:
  assumes "exprs_good h" "instrs h i = Some x" "dom (ilas h') = dom (ilas h)"
  shows "instr_rel h' x x"
proof -
  have "good h' e" if "instr_decode x = Some e" for e
    using assms(1,2) that good_dom [OF assms(3)] unfolding exprs_good_def by fastforce
  moreover have "good h' (snd u)" if "u \<in> set (instr_updates x)" for u
    using assms(1,2) that good_dom [OF assms(3)] unfolding exprs_good_def list_all_iff by blast
  ultimately show ?thesis
    by (simp add: instr_rel_def rel_option_refl same_refl update_rel_def list.rel_refl_strong)
qed

lemma rewritten_alloc:
  assumes "exprs_good h" "only_alloc h h'"
  shows "rewritten h h'"
proof -
  have eq: "ilas h' = ilas h" "instrs h' = instrs h" "counter h \<le> counter h'"
    using assms(2) by (simp_all add: only_alloc_def)
  then show ?thesis
    using ila_rel_refl [OF assms(1), where h' = h'] instr_rel_refl [OF assms(1), where h' = h']
    by (simp add: rewritten_def rel_option_refl)
qed

lemma rewritten_refl: "exprs_good h \<Longrightarrow> rewritten h h"
  by (simp add: rewritten_alloc)

lemma ila_rel_trans:
  assumes "dom (ilas h') = dom (ilas h)" "ila_rel h m m'" "ila_rel h' m' m''"
  shows "ila_rel h' m m''"
proof -
  have "rel_option (same_meaning h') a c" if "rel_option (same_meaning h) a b" "rel_option (same_meaning h') b c"
    for a b c
    using that by (cases a; cases b; cases c) (auto intro: same_trans [OF assms(1)])
  moreover have "m'' = m\<lparr>ila_valid := ila_valid m'', ila_fetch := ila_fetch m''\<rparr>"
    using assms(2,3) unfolding ila_rel_def by (cases m; cases m'; cases m'') simp
  ultimately show ?thesis using assms(2,3) unfolding ila_rel_def by blast
qed

lemma instr_rel_trans:
  assumes "dom (ilas h') = dom (ilas h)" "instr_rel h x x'" "instr_rel h' x' x''"
  shows "instr_rel h' x x''"
proof -
  have "rel_option (same_meaning h') a c" if "rel_option (same_meaning h) a b" "rel_option (same_meaning h') b c"
    for a b c
    using that by (cases a; cases b; cases c) (auto intro: same_trans [OF assms(1)])
  moreover have "update_rel h' a c" if "update_rel h a b" "update_rel h' b c" for a b c
    using that same_trans [OF assms(1)] by (auto simp: update_rel_def)
  then have "list_all2 (update_rel h') as cs" if "list_all2 (update_rel h) as bs" "list_all2 (update_rel h') bs cs"
    for as bs cs
    using that list_all2_trans [of "update_rel h" "update_rel h'" "update_rel h'"] by blast
  moreover have "x'' = x\<lparr>instr_decode := instr_decode x'', instr_updates := instr_updates x''\<rparr>"
    using assms(2,3) unfolding instr_rel_def by (cases x; cases x'; cases x'') simp
  ultimately show ?thesis using assms(2,3) unfolding instr_rel_def by blast
qed

lemma rewritten_trans:
  assumes "rewritten h1 h2" "rewritten h2 h3"
  shows "rewritten h1 h3"
proof -
  note d = rewritten_dom(1) [OF assms(2)]
  have "rel_option (ila_rel h3) (ilas h1 p) (ilas h3 p)" for p
    using assms ila_rel_trans [OF d] unfolding rewritten_def
    by (cases "ilas h1 p"; cases "ilas h2 p"; cases "ilas h3 p") (metis option.rel_distinct option.rel_inject(2) option.rel_inject(1))+
  moreover have "rel_option (instr_rel h3) (instrs h1 i) (instrs h3 i)" for i
    using assms instr_rel_trans [OF d] unfolding rewritten_def
    by (cases "instrs h1 i"; cases "instrs h2 i"; cases "instrs h3 i") (metis option.rel_distinct option.rel_inject(2) option.rel_inject(1))+
  ultimately show ?thesis using assms by (simp add: rewritten_def)
qed

lemma same_good: "same_meaning h e d \<Longrightarrow> good h d"
  by (simp add: replaces_def)

lemma rewritten_good:
  assumes "rewritten h h'" "exprs_good h"
  shows "exprs_good h'"
proof -
  have ila: "good h' e" if m': "ilas h' p = Some m'" and e: "ila_valid m' = Some e \<or> ila_fetch m' = Some e" for p m' e
  proof -
    obtain m where "ila_rel h' m m'"
      using assms(1) m' unfolding rewritten_def by (metis option.rel_cases option.distinct(1) option.inject)
    with e show ?thesis by (auto simp: ila_rel_def option_rel_Some2 intro: same_good)
  qed
  have ins: "(\<exists>d. instr_decode x' = Some d \<and> good h' d) \<and> list_all (\<lambda>u. good h' (snd u)) (instr_updates x')"
    if x': "instrs h' i = Some x'" for i x'
  proof -
    obtain x where x: "instrs h i = Some x" "instr_rel h' x x'"
      using assms(1) x' unfolding rewritten_def by (metis option.rel_cases option.distinct(1) option.inject)
    obtain d where "instr_decode x = Some d" using assms(2) x(1) unfolding exprs_good_def by blast
    moreover have "list_all (\<lambda>u. good h' (snd u)) (instr_updates x')"
      using x(2) by (auto simp: instr_rel_def update_rel_def list_all_length list_all2_conv_all_nth intro: same_good)
    ultimately show ?thesis using x(2) by (auto simp: instr_rel_def option_rel_Some1 intro: same_good)
  qed
  from ila ins show ?thesis unfolding exprs_good_def by blast
qed

lemma rewritten_put_ila:
  assumes "exprs_good h" "ilas h p = Some m" "ila_rel h m m'"
  shows "rewritten h (h\<lparr>ilas := (ilas h)(p \<mapsto> m')\<rparr>)"
proof -
  let ?h = "h\<lparr>ilas := (ilas h)(p \<mapsto> m')\<rparr>"
  have d: "dom (ilas ?h) = dom (ilas h)" using assms(2) by auto
  have "same_meaning ?h = same_meaning h" by (auto simp: replaces_same good_dom [OF d] fun_eq_iff)
  then have "ila_rel ?h m m'" using assms(3) by (simp add: ila_rel_def)
  then show ?thesis
    using ila_rel_refl [OF assms(1) _ d] instr_rel_refl [OF assms(1) _ d] assms(2)
    by (simp add: rewritten_def rel_option_refl)
qed

lemma rewritten_put_instr:
  assumes "exprs_good h" "instrs h i = Some x" "instr_rel h x x'"
  shows "rewritten h (h\<lparr>instrs := (instrs h)(i \<mapsto> x')\<rparr>)"
proof -
  let ?h = "h\<lparr>instrs := (instrs h)(i \<mapsto> x')\<rparr>"
  have d: "dom (ilas ?h) = dom (ilas h)" by simp
  have "same_meaning ?h = same_meaning h" by (auto simp: replaces_same good_dom [OF d] fun_eq_iff)
  then have "instr_rel ?h x x'" using assms(3) by (simp add: instr_rel_def update_rel_def [abs_def])
  then show ?thesis
    using ila_rel_refl [OF assms(1) _ d] instr_rel_refl [OF assms(1) _ d] assms(2)
    by (simp add: rewritten_def rel_option_refl)
qed

text \<open>Replacing an update that is there changes one entry.\<close>

lemma assign_rel:
  assumes "amap_ok u" "map_of u k = Some e" "same_meaning h e d" "\<forall>x \<in> set u. good h (snd x)"
  shows "list_all2 (update_rel h) u (amap_assign k d u)"
  using assms
proof (induction u)
  case (Cons a u)
  obtain k' e' where a: "a = (k', e')" by (cases a)
  have rest: "list_all2 (update_rel h) u u"
    using Cons.prems(4) by (intro list.rel_refl_strong) (auto simp: update_rel_def intro: same_refl)
  show ?case
  proof (cases "k = k'")
    case True
    then have "update_rel h a (k, d)" using a Cons.prems by (simp add: update_rel_def)
    with a rest True show ?thesis by simp
  next
    case False
    then have m: "map_of u k = Some e" using Cons.prems(2) a by simp
    then have "k' < k" using Cons.prems(1) a by (force simp: amap_ok_Cons dest: map_of_SomeD)
    moreover have "update_rel h a a" using Cons.prems(4) a by (simp add: update_rel_def same_refl)
    ultimately show ?thesis using Cons False a m by (auto simp: amap_ok_Cons)
  qed
qed simp

section \<open>The template, proved once\<close>

text \<open>The contract of a rewriting: it returns, only draws identifiers, gives an expression of
  the same sort and meaning, and its state stays usable, also after the pass stored results.\<close>

locale expr_pass =
  fixes Rewr :: "'s rewriting" and ok :: "'s \<Rightarrow> heap \<Rightarrow> bool"
  assumes rewr: "ok s h \<Longrightarrow> good h e \<Longrightarrow>
      \<exists>d s' h'. Rewr s e h = Inr ((Some d, s'), h') \<and> only_alloc h h' \<and> same_meaning h' e d \<and> ok s' h'"
    and stable: "ok s h \<Longrightarrow> rewritten h h' \<Longrightarrow> ok s h'"
begin

definition pass_inv :: "'s \<Rightarrow> heap \<Rightarrow> bool" where
  "pass_inv s h = (ok s h \<and> heap_inv h \<and> exprs_good h)"

text \<open>\<open>goes h r\<close>: the run succeeded with a heap that is a rewriting of \<open>h\<close>.\<close>

definition goes :: "heap \<Rightarrow> ('s \<times> heap) result \<Rightarrow> bool" where
  "goes h r = (\<exists>s' h'. r = Inr (s', h') \<and> pass_inv s' h' \<and> rewritten h h')"

lemma goes_ret: "pass_inv s h \<Longrightarrow> goes h (ret s h)"
  by (auto simp: goes_def pass_inv_def monad_simps intro: rewritten_refl)

lemma goes_bnd:
  assumes "goes h (f h)" "\<And>s' h'. pass_inv s' h' \<Longrightarrow> rewritten h h' \<Longrightarrow> goes h' (g s' h')"
  shows "goes h (bnd f g h)"
proof -
  obtain s' h' where f: "f h = Inr (s', h')" "pass_inv s' h'" "rewritten h h'" using assms(1) by (auto simp: goes_def)
  with assms(2) [OF f(2,3)] show ?thesis
    by (auto simp: goes_def monad_simps intro: rewritten_trans)
qed

lemma goes_foldM:
  assumes "pass_inv s h" "\<And>x s' h'. x \<in> set xs \<Longrightarrow> pass_inv s' h' \<Longrightarrow> rewritten h h' \<Longrightarrow> goes h' (f x s' h')"
  shows "goes h (foldM f xs s h)"
  using assms
proof (induction xs arbitrary: s h)
  case Nil
  then show ?case by (simp add: goes_ret)
next
  case (Cons x xs)
  have r: "rewritten h h" using Cons.prems(1) by (simp add: pass_inv_def rewritten_refl)
  have "goes h (bnd (f x s) (foldM f xs) h)"
  proof (rule goes_bnd)
    show "goes h (f x s h)" using Cons.prems(1,2) r by simp
    fix s' h' assume h': "pass_inv s' h'" "rewritten h h'"
    show "goes h' (foldM f xs s' h')"
    proof (rule Cons.IH [OF h'(1)])
      fix y s2 h2 assume "y \<in> set xs" "pass_inv s2 h2" "rewritten h' h2"
      then show "goes h2 (f y s2 h2)" using Cons.prems(2) rewritten_trans [OF h'(2)] by simp
    qed
  qed
  then show ?case by simp
qed

text \<open>One rewriting followed by storing its result.\<close>

lemma goes_store:
  assumes "pass_inv s h" "good h e"
    and put: "\<And>d h1. only_alloc h h1 \<Longrightarrow> same_meaning h1 e d \<Longrightarrow> heap_inv h1 \<Longrightarrow> exprs_good h1 \<Longrightarrow>
      \<exists>h2. put (Some d) h1 = Inr ((), h2) \<and> heap_inv h2 \<and> rewritten h1 h2"
  shows "goes h (bnd (Rewr s e) (\<lambda>(d, s). bnd (put d) (\<lambda>_. ret s)) h)"
proof -
  obtain d s' h1 where r: "Rewr s e h = Inr ((Some d, s'), h1)" "only_alloc h h1" "same_meaning h1 e d" "ok s' h1"
    using rewr [of s h e] assms(1,2) by (auto simp: pass_inv_def)
  have rw: "rewritten h h1" using assms(1) r(2) by (simp add: pass_inv_def rewritten_alloc)
  have g1: "exprs_good h1" using rewritten_good [OF rw] assms(1) by (simp add: pass_inv_def)
  have "heap_inv h1" using heap_inv_alloc assms(1) r(2) by (auto simp: pass_inv_def)
  then obtain h2 where h2: "put (Some d) h1 = Inr ((), h2)" "heap_inv h2" "rewritten h1 h2"
    using put [OF r(2,3)] g1 by blast
  have "pass_inv s' h2" using stable [OF r(4) h2(3)] h2(2) rewritten_good [OF h2(3) g1] by (simp add: pass_inv_def)
  then show ?thesis using r(1) h2 rewritten_trans [OF rw h2(3)] by (auto simp: goes_def monad_simps)
qed

lemma goes_valid:
  assumes "pass_inv s h" "ilas h m = Some x" "ila_valid x = Some e"
  shows "goes h (bnd (Rewr s e) (\<lambda>(d, s). bnd (ForceSetValid m d) (\<lambda>_. ret s)) h)"
proof (rule goes_store [OF assms(1)])
  show g: "good h e" using assms by (auto simp: pass_inv_def exprs_good_def)
  fix d h1
  assume a: "only_alloc h h1" and d: "same_meaning h1 e d" and inv: "heap_inv h1" and ex: "exprs_good h1"
  have x: "ilas h1 m = Some x" using a assms(2) by (simp add: only_alloc_def)
  have "e_is_bool e" using heap_invD(1) [OF inv x] assms(3) by (simp add: ila_local_def)
  then have "e_is_bool d" using d by (simp add: replaces_same)
  then have run: "ForceSetValid m (Some d) h1 = Inr ((), h1\<lparr>ilas := (ilas h1)(m \<mapsto> x\<lparr>ila_valid := Some d\<rparr>)\<rparr>)"
    using x by (simp add: ForceSetValid_def Unify_def monad_simps)
  have "ila_rel h1 x (x\<lparr>ila_valid := Some d\<rparr>)"
    using d assms(3) ila_rel_refl [OF ex x refl] by (simp add: ila_rel_def)
  then show "\<exists>h2. ForceSetValid m (Some d) h1 = Inr ((), h2) \<and> heap_inv h2 \<and> rewritten h1 h2"
    using run keepsD [OF keeps_Valid(1) run inv] rewritten_put_ila [OF ex x] by blast
qed

lemma goes_fetch:
  assumes "pass_inv s h" "ilas h m = Some x" "ila_fetch x = Some e"
  shows "goes h (bnd (Rewr s e) (\<lambda>(d, s). bnd (ForceSetFetch m d) (\<lambda>_. ret s)) h)"
proof (rule goes_store [OF assms(1)])
  show g: "good h e" using assms by (auto simp: pass_inv_def exprs_good_def)
  fix d h1
  assume a: "only_alloc h h1" and d: "same_meaning h1 e d" and inv: "heap_inv h1" and ex: "exprs_good h1"
  have x: "ilas h1 m = Some x" using a assms(2) by (simp add: only_alloc_def)
  have "e_is_bv e" using heap_invD(1) [OF inv x] assms(3) by (simp add: ila_local_def)
  then have "e_is_bv d" using d by (simp add: replaces_same)
  then have run: "ForceSetFetch m (Some d) h1 = Inr ((), h1\<lparr>ilas := (ilas h1)(m \<mapsto> x\<lparr>ila_fetch := Some d\<rparr>)\<rparr>)"
    using x by (simp add: ForceSetFetch_def Unify_def monad_simps)
  have "ila_rel h1 x (x\<lparr>ila_fetch := Some d\<rparr>)"
    using d assms(3) ila_rel_refl [OF ex x refl] by (simp add: ila_rel_def)
  then show "\<exists>h2. ForceSetFetch m (Some d) h1 = Inr ((), h2) \<and> heap_inv h2 \<and> rewritten h1 h2"
    using run keepsD [OF keeps_Fetch(1) run inv] rewritten_put_ila [OF ex x] by blast
qed

lemma goes_decode:
  assumes "pass_inv s h" "instrs h i = Some x" "instr_decode x = Some e"
  shows "goes h (bnd (Rewr s e) (\<lambda>(d, s). bnd (ForceSetDecode i d) (\<lambda>_. ret s)) h)"
proof (rule goes_store [OF assms(1)])
  show g: "good h e" using assms by (fastforce simp: pass_inv_def exprs_good_def)
  fix d h1
  assume a: "only_alloc h h1" and d: "same_meaning h1 e d" and inv: "heap_inv h1" and ex: "exprs_good h1"
  have x: "instrs h1 i = Some x" using a assms(2) by (simp add: only_alloc_def)
  have "e_is_bool e" using heap_invD(4) [OF inv x] assms(3) by (simp add: instr_ok_def)
  then have "e_is_bool d" using d by (simp add: replaces_same)
  then have run: "ForceSetDecode i (Some d) h1 = Inr ((), h1\<lparr>instrs := (instrs h1)(i \<mapsto> x\<lparr>instr_decode := Some d\<rparr>)\<rparr>)"
    using x by (simp add: ForceSetDecode_def Unify_def monad_simps)
  have "instr_rel h1 x (x\<lparr>instr_decode := Some d\<rparr>)"
    using d assms(3) instr_rel_refl [OF ex x refl] by (simp add: instr_rel_def)
  then show "\<exists>h2. ForceSetDecode i (Some d) h1 = Inr ((), h2) \<and> heap_inv h2 \<and> rewritten h1 h2"
    using run keepsD [OF keeps_decode(1) run inv] rewritten_put_instr [OF ex x] by blast
qed

lemma goes_update:
  assumes "pass_inv s h" "instrs h i = Some x" "st \<in> set (updated_states x)"
  shows "goes h (rewrite_update Rewr i st s h)"
proof -
  have ok: "amap_ok (instr_updates x)" using assms(1,2) heap_invD(4) by (auto simp: pass_inv_def instr_ok_def)
  then obtain e where e: "map_of (instr_updates x) st = Some e"
    using assms(3) by (auto simp: updated_states_def amap_ok_def)
  have "goes h (bnd (Rewr s e) (\<lambda>(p, s). bnd (bnd (deref p) (ForceAddUpdate i st)) (\<lambda>_. ret s)) h)"
  proof (rule goes_store [OF assms(1)])
    show "good h e"
      using assms(1,2) map_of_SomeD [OF e] by (fastforce simp: pass_inv_def exprs_good_def list_all_iff)
    fix d h1
    assume a: "only_alloc h h1" and d: "same_meaning h1 e d" and inv: "heap_inv h1" and ex: "exprs_good h1"
    have x: "instrs h1 i = Some x" using a assms(2) by (simp add: only_alloc_def)
    let ?x = "x\<lparr>instr_updates := amap_assign st d (instr_updates x)\<rparr>"
    have run: "ForceAddUpdate i st d h1 = Inr ((), h1\<lparr>instrs := (instrs h1)(i \<mapsto> ?x)\<rparr>)"
      using x by (simp add: ForceAddUpdate_def Unify_def monad_simps)
    have "\<forall>u \<in> set (instr_updates x). good h1 (snd u)"
      using ex x by (fastforce simp: exprs_good_def list_all_iff)
    then have "instr_rel h1 x ?x"
      using assign_rel [OF ok e d] instr_rel_refl [OF ex x refl] by (simp add: instr_rel_def)
    then show "\<exists>h2. bnd (deref (Some d)) (ForceAddUpdate i st) h1 = Inr ((), h2) \<and> heap_inv h2 \<and> rewritten h1 h2"
      using run keepsD [OF keeps_updates(1) run inv] rewritten_put_instr [OF ex x] by simp
  qed
  moreover have "rewrite_update Rewr i st s h =
      bnd (Rewr s e) (\<lambda>(p, s). bnd (bnd (deref p) (ForceAddUpdate i st)) (\<lambda>_. ret s)) h"
    using assms(2) e by (simp add: rewrite_update_def update_def bnd_assoc monad_simps)
  ultimately show ?thesis by simp
qed

lemma updated_states_rel: "instr_rel h x x' \<Longrightarrow> updated_states x' = updated_states x"
proof -
  assume "instr_rel h x x'"
  then have "list_all2 (update_rel h) (instr_updates x) (instr_updates x')" by (simp add: instr_rel_def)
  then show ?thesis unfolding updated_states_def by (induction rule: list_all2_induct) (auto simp: update_rel_def)
qed

lemma rewritten_instr:
  "rewritten h h' \<Longrightarrow> instrs h i = Some x \<Longrightarrow> \<exists>x'. instrs h' i = Some x' \<and> instr_rel h' x x'"
  unfolding rewritten_def by (metis option_rel_Some1)

lemma rewritten_ila:
  "rewritten h h' \<Longrightarrow> ilas h i = Some x \<Longrightarrow> \<exists>x'. ilas h' i = Some x' \<and> ila_rel h' x x'"
  unfolding rewritten_def by (metis option_rel_Some1)

lemma goes_instr:
  assumes "pass_inv s h" "instrs h i = Some x"
  shows "goes h (rewrite_instr Rewr i s h)"
proof -
  obtain e where e: "instr_decode x = Some e" using assms unfolding pass_inv_def exprs_good_def by blast
  have "goes h (bnd (bnd (Rewr s e) (\<lambda>(d, s). bnd (ForceSetDecode i d) (\<lambda>_. ret s)))
      (\<lambda>s. bnd (get_instr i) (\<lambda>x. foldM (rewrite_update Rewr i) (updated_states x) s)) h)"
  proof (rule goes_bnd)
    show "goes h (bnd (Rewr s e) (\<lambda>(d, s). bnd (ForceSetDecode i d) (\<lambda>_. ret s)) h)"
      by (rule goes_decode [OF assms e])
    fix s1 h1 assume h1: "pass_inv s1 h1" "rewritten h h1"
    obtain x1 where x1: "instrs h1 i = Some x1" using rewritten_instr [OF h1(2) assms(2)] by blast
    have "goes h1 (foldM (rewrite_update Rewr i) (updated_states x1) s1 h1)"
    proof (rule goes_foldM [OF h1(1)])
      fix st s2 h2 assume st: "st \<in> set (updated_states x1)" "pass_inv s2 h2" "rewritten h1 h2"
      obtain x2 where "instrs h2 i = Some x2" "updated_states x2 = updated_states x1"
        using rewritten_instr [OF st(3) x1] updated_states_rel by blast
      then show "goes h2 (rewrite_update Rewr i st s2 h2)" using goes_update [OF st(2)] st(1) by simp
    qed
    then show "goes h1 (bnd (get_instr i) (\<lambda>x. foldM (rewrite_update Rewr i) (updated_states x) s1) h1)"
      using x1 by (simp add: monad_simps)
  qed
  moreover have "rewrite_instr Rewr i s h = bnd (bnd (Rewr s e) (\<lambda>(d, s). bnd (ForceSetDecode i d) (\<lambda>_. ret s)))
      (\<lambda>s. bnd (get_instr i) (\<lambda>x. foldM (rewrite_update Rewr i) (updated_states x) s)) h"
    using assms(2) e
    by (simp add: rewrite_instr_def bnd_assoc monad_simps case_prod_unfold split: sum.splits)
  ultimately show ?thesis by simp
qed

text \<open>The links are not touched, so the children and instructions found at the start exist
  throughout; children are younger, so the fuel suffices when it exceeds the distance to a
  bound on the identifiers.\<close>

lemma linked:
  assumes "pass_inv s h" "ilas h m = Some x"
  shows "\<forall>i \<in> set (vec (ila_instrs x)). instrs h i \<noteq> None"
    "\<forall>c \<in> set (vec (ila_childs x)). m < c \<and> ilas h c \<noteq> None"
proof -
  have lk: "ila_links h m x" using assms heap_invD(2) by (auto simp: pass_inv_def)
  show "\<forall>i \<in> set (vec (ila_instrs x)). instrs h i \<noteq> None"
    using lk by (force simp: ila_links_def simp flip: kv_entries_vec)
  show "\<forall>c \<in> set (vec (ila_childs x)). m < c \<and> ilas h c \<noteq> None"
    using lk by (force simp: ila_links_def simp flip: kv_entries_vec)
qed

lemma goes_generic:
  assumes "pass_inv s h" "ilas h m = Some x" "B - m < n" "\<forall>p \<in> dom (ilas h). p \<le> B"
  shows "goes h (RewriteGeneric_n n Rewr m s h)"
  using assms
proof (induction n arbitrary: m s h x)
  case (Suc n)
  have at: "\<exists>y. ilas h' m = Some y" if "rewritten h h'" for h' using rewritten_ila [OF that Suc.prems(2)] by blast
  have 1: "goes h (bnd (get_ila m) (\<lambda>x. case ila_valid x of None \<Rightarrow> ret s
          | Some e \<Rightarrow> bnd (Rewr s e) (\<lambda>(d, s). bnd (ForceSetValid m d) (\<lambda>_. ret s))) h)"
    using goes_valid [OF Suc.prems(1,2)] goes_ret [OF Suc.prems(1)] Suc.prems(2)
    by (simp add: monad_simps(2,8) split: option.split)
  have 2: "goes h' (bnd (get_ila m) (\<lambda>x. case ila_fetch x of None \<Rightarrow> ret s'
          | Some e \<Rightarrow> bnd (Rewr s' e) (\<lambda>(d, s). bnd (ForceSetFetch m d) (\<lambda>_. ret s))) h')"
    if h': "pass_inv s' h'" "rewritten h h'" for s' h'
    using at [OF h'(2)] goes_fetch [OF h'(1)] goes_ret [OF h'(1)]
    by (auto simp: monad_simps(2,8) split: option.split)
  have 3: "goes h' (bnd (get_ila m) (\<lambda>x. foldM (rewrite_instr Rewr) (vec (ila_instrs x)) s') h')"
    if h': "pass_inv s' h'" "rewritten h h'" for s' h'
  proof -
    obtain y where y: "ilas h' m = Some y" using at [OF h'(2)] by blast
    have "goes h' (foldM (rewrite_instr Rewr) (vec (ila_instrs y)) s' h')"
    proof (rule goes_foldM [OF h'(1)])
      fix i s2 h2 assume i: "i \<in> set (vec (ila_instrs y))" "pass_inv s2 h2" "rewritten h' h2"
      then obtain z where "instrs h' i = Some z" using linked(1) [OF h'(1) y] by blast
      then show "goes h2 (rewrite_instr Rewr i s2 h2)"
        using rewritten_instr [OF i(3)] goes_instr [OF i(2)] by blast
    qed
    then show ?thesis using y by (simp add: monad_simps(2,8))
  qed
  have 4: "goes h' (bnd (get_ila m) (\<lambda>x. foldM (RewriteGeneric_n n Rewr) (vec (ila_childs x)) s') h')"
    if h': "pass_inv s' h'" "rewritten h h'" for s' h'
  proof -
    obtain y where y: "ilas h' m = Some y" using at [OF h'(2)] by blast
    have "goes h' (foldM (RewriteGeneric_n n Rewr) (vec (ila_childs y)) s' h')"
    proof (rule goes_foldM [OF h'(1)])
      fix c s2 h2 assume c: "c \<in> set (vec (ila_childs y))" "pass_inv s2 h2" "rewritten h' h2"
      have d: "dom (ilas h2) = dom (ilas h)"
        using rewritten_dom(1) [OF c(3)] rewritten_dom(1) [OF h'(2)] by simp
      obtain z where z: "m < c" "ilas h2 c = Some z"
        using linked(2) [OF h'(1) y] c(1) rewritten_ila [OF c(3)] by blast
      have "c \<le> B" using z(2) d Suc.prems(4) by blast
      then show "goes h2 (RewriteGeneric_n n Rewr c s2 h2)"
        using Suc.IH [OF c(2) z(2)] z(1) Suc.prems(3,4) d by simp
    qed
    then show ?thesis using y by (simp add: monad_simps(2,8))
  qed
  have 34: "goes h' (bnd (bnd (get_ila m) (\<lambda>x. foldM (rewrite_instr Rewr) (vec (ila_instrs x)) s')) (\<lambda>s.
      bnd (get_ila m) (\<lambda>x. foldM (RewriteGeneric_n n Rewr) (vec (ila_childs x)) s)) h')"
    if h': "pass_inv s' h'" "rewritten h h'" for s' h'
    by (rule goes_bnd, rule 3 [OF h'], rule 4) (auto intro: rewritten_trans [OF h'(2)])
  have 234: "goes h' (bnd (bnd (get_ila m) (\<lambda>x. case ila_fetch x of None \<Rightarrow> ret s'
          | Some e \<Rightarrow> bnd (Rewr s' e) (\<lambda>(d, s). bnd (ForceSetFetch m d) (\<lambda>_. ret s)))) (\<lambda>s.
      bnd (bnd (get_ila m) (\<lambda>x. foldM (rewrite_instr Rewr) (vec (ila_instrs x)) s)) (\<lambda>s.
      bnd (get_ila m) (\<lambda>x. foldM (RewriteGeneric_n n Rewr) (vec (ila_childs x)) s))) h')"
    if h': "pass_inv s' h'" "rewritten h h'" for s' h'
    by (rule goes_bnd, rule 2 [OF h'], rule 34) (auto intro: rewritten_trans [OF h'(2)])
  show ?case unfolding RewriteGeneric_n.simps by (rule goes_bnd, rule 1, rule 234)
qed simp

lemma RewriteGeneric_ok:
  assumes "ok s h" "heap_inv h" "exprs_good h" "ilas h m \<noteq> None"
  shows "\<exists>h'. RewriteGeneric Rewr m s h = Inr (True, h') \<and> heap_inv h' \<and> exprs_good h' \<and> rewritten h h'"
proof -
  obtain x where x: "ilas h m = Some x" using assms(4) by blast
  have "\<forall>p \<in> dom (ilas h). p \<le> counter h" using heap_invD(3) [OF assms(2)] by blast
  with goes_generic [OF _ x, of s "counter h" "Suc (counter h - m)"] assms show ?thesis
    by (auto simp: goes_def pass_inv_def RewriteGeneric_def monad_simps)
qed

end

lemma rewritten_childs: "rewritten h h' \<Longrightarrow> childs_grow h \<Longrightarrow> childs_grow h'"
proof -
  assume r: "rewritten h h'" and g: "childs_grow h"
  have "\<forall>c \<in> set (vec (ila_childs m')). p < c" if m': "ilas h' p = Some m'" for p m'
  proof -
    obtain m where m: "ilas h p = Some m" "ila_rel h' m m'"
      using r m' unfolding rewritten_def by (metis option_rel_Some2)
    then have "ila_childs m' = ila_childs m" unfolding ila_rel_def by (metis Ila.select_convs(11) Ila.surjective Ila.update_convs(8,9))
    with m(1) g show ?thesis by (simp add: childs_grow_def)
  qed
  then show "childs_grow h'" by (simp add: childs_grow_def)
qed

lemma table_rewritten: "rewritten h h' \<Longrightarrow> table_ok same_pairs h rule \<Longrightarrow> table_ok same_pairs h' rule"
  using good_dom [OF rewritten_dom(1)] by (fastforce simp: table_ok_def replaces_same)

interpretation cond_pass: expr_pass "rewr_expr CondStore_RewriteOp" cond_store.ready
proof unfold_locales
  show "\<exists>d s' h'. rewr_expr CondStore_RewriteOp s e h = Inr ((Some d, s'), h') \<and> only_alloc h h' \<and>
      same_meaning h' e d \<and> cond_store.ready s' h'" if "cond_store.ready s h" "good h e" for s h e
    using cond_store.rewr_expr_sound [OF that(2,1)] by blast
  show "cond_store.ready s h'" if "cond_store.ready s h" "rewritten h h'" for s h h'
    using that rewritten_childs [OF that(2)] table_rewritten [OF that(2)] by (simp add: cond_store.ready_def)
qed

interpretation base_pass: expr_pass "rewr_expr RewriteOp" cond_store.ready
proof unfold_locales
  show "\<exists>d s' h'. rewr_expr RewriteOp s e h = Inr ((Some d, s'), h') \<and> only_alloc h h' \<and>
      same_meaning h' e d \<and> cond_store.ready s' h'" if "cond_store.ready s h" "good h e" for s h e
    using same.rewr_expr_sound [OF that(2,1)] by blast
  show "cond_store.ready s h'" if "cond_store.ready s h" "rewritten h h'" for s h h'
    using that rewritten_childs [OF that(2)] table_rewritten [OF that(2)] by (simp add: cond_store.ready_def)
qed

lemma empty_ready: "heap_inv h \<Longrightarrow> cond_store.ready Map.empty h"
proof -
  assume "heap_inv h"
  then have "childs_grow h" by (rule inv_childs_grow)
  moreover have "cond_store.leaves_agree Map.empty"
    unfolding cond_store.leaves_agree_def by (auto simp: same_pairs_def)
  ultimately show ?thesis by (simp add: cond_store.ready_def table_ok_def)
qed

section \<open>Properties\<close>

text \<open>C18: The two store passes on an ILA of a heap that satisfies the invariant and whose
  expressions the rewriter accepts return true, keep the invariant, and leave the same ILAs and
  instructions, where valid, fetch, decode and update functions have the same sort and
  the same value under every interpretation as before. The recursion over the children ends.\<close>

theorem store_passes_preserve:
  assumes "heap_inv h" "exprs_good h" "ilas h m \<noteq> None"
  shows "\<exists>h1 h2. RewriteConditionalStore m h = Inr (True, h1) \<and> heap_inv h1 \<and> rewritten h h1 \<and>
     RewriteStoreLoad m h = Inr (True, h2) \<and> heap_inv h2 \<and> rewritten h h2"
  using cond_pass.RewriteGeneric_ok [OF empty_ready [OF assms(1)] assms]
    base_pass.RewriteGeneric_ok [OF empty_ready [OF assms(1)] assms]
  by (auto simp: RewriteConditionalStore_def RewriteStoreLoad_def)

text \<open>An ILA with one instruction that stores under a condition.\<close>

definition pass_heap :: heap where
  "pass_heap =
     \<lparr>counter = 20,
      ilas = [10 \<mapsto> (ila_init ''m'' None)\<lparr>ila_instrs := snd (push_back ''i'' 11 KeyVec_new)\<rparr>],
      instrs = [11 \<mapsto> \<lparr>instr_name = ''i'', instr_host = Some 10,
                       instr_decode = Some (Expr 5 ''c'' SortBool None [] [] KVar),
                       instr_updates = [(''m'', cond_mem_expr)], instr_prog = None\<rparr>]\<rparr>"

lemma pass_heap_ok: "heap_inv pass_heap" "exprs_good pass_heap" "ilas pass_heap 10 \<noteq> None"
proof -
  have "kv_entries (snd (push_back ''i'' (11::nat) KeyVec_new)) = [(''i'', 11)]"
    using kv.push_eq [OF kv_inv_new, of "''i''" "11::nat"] by simp
  then show "heap_inv pass_heap"
    using ila_local_init [of "''m''" None]
    by (auto simp: heap_inv_def pass_heap_def ila_local_def ila_links_def instr_ok_def ila_init_def amap_ok_def)
  have "good h (Expr 5 ''c'' SortBool None [] [] KVar)" "good h cond_mem_expr" for h
    by (simp_all add: good_def cond_mem_expr_def const9_def node_wf_def Let_def const_wf_def op_sort_def
        sem_ok_def supported_def host_in_def)
  then show "exprs_good pass_heap" by (auto simp: exprs_good_def pass_heap_def ila_init_def)
  show "ilas pass_heap 10 \<noteq> None" by (simp add: pass_heap_def)
qed

theorem store_passes_preserve_witness:
  "\<exists>h1. RewriteConditionalStore 10 pass_heap = Inr (True, h1) \<and> heap_inv h1 \<and> rewritten pass_heap h1"
  using store_passes_preserve [OF pass_heap_ok] by blast

end
