(* ===== verification/SolverPasses.thy ===== *)
theory SolverPasses
  imports Passes LegacyBmc
begin

text \<open>
  The passes that ask a solver, and the syntactic simplification: determinism and completeness of the
  instruction set (src/ila-mngr/p\_sanity\_check\_and\_fix.cc), simplification of updates
  (p\_simplify\_semantic.cc, p\_simplify\_syntactic.cc) and the inference of child programs
  (p\_infer\_child\_prog\_cfg.cc, p\_map\_child\_prog\_entry.cc).

  Z3, its solver and its operator \<^verbatim>\<open>!=\<close> are parameters. The solver of the sanity check is a global object, so
  its state is an argument. A warning that is only logged is left out, but the query it needs is kept.
\<close>

section \<open>Sanity check\<close>

definition decode_of :: "nat \<Rightarrow> expr M" where
  "decode_of i = bnd (get_instr i) (\<lambda>x. deref (instr_decode x))"

text \<open>\<^verbatim>\<open>loc->valid() ? loc->valid() : asthub::BoolConst(true)\<close>\<close>

definition valid_or_true :: "Ila \<Rightarrow> expr M" where
  "valid_or_true m = (case ila_valid m of Some v \<Rightarrow> ret v | None \<Rightarrow> BoolConst True)"

definition overlap_query :: "'t z3_api \<Rightarrow> ('t, 's) z3_solver \<Rightarrow> expr \<Rightarrow> nat \<Rightarrow> nat \<Rightarrow> 's \<Rightarrow> (check_result \<times> 's) M" where
  "overlap_query ctx sol valid i j s =
     bnd (decode_of i) (\<lambda>di. bnd (decode_of j) (\<lambda>dj.
     bnd (AndE di dj) (\<lambda>non_det.
     bnd (gen_GetExpr ctx valid []) (\<lambda>v. bnd (lift (sol_add sol v (sol_reset sol s))) (\<lambda>s.
     bnd (gen_GetExpr ctx non_det []) (\<lambda>n. bnd (lift (sol_add sol n s)) (\<lambda>s.
     ret (sol_check sol s))))))))"

text \<open>The two nested loops over the instructions; the first overlap ends both.\<close>

fun determ_inner :: "'t z3_api \<Rightarrow> ('t, 's) z3_solver \<Rightarrow> expr \<Rightarrow> nat \<Rightarrow> nat list \<Rightarrow> 's \<Rightarrow> (bool \<times> 's) M" where
  "determ_inner ctx sol valid i [] s = ret (True, s)"
| "determ_inner ctx sol valid i (j # js) s =
     bnd (overlap_query ctx sol valid i j s) (\<lambda>(res, s).
     if res = Sat then ret (False, s) else determ_inner ctx sol valid i js s)"

fun determ_outer :: "'t z3_api \<Rightarrow> ('t, 's) z3_solver \<Rightarrow> expr \<Rightarrow> nat list \<Rightarrow> 's \<Rightarrow> (bool \<times> 's) M" where
  "determ_outer ctx sol valid [] s = ret (True, s)"
| "determ_outer ctx sol valid (i # js) s =
     bnd (determ_inner ctx sol valid i js s) (\<lambda>(ok, s). if ok then determ_outer ctx sol valid js s else ret (False, s))"

definition determ_pre :: "nat \<Rightarrow> bool \<times> 's \<Rightarrow> (bool \<times> bool \<times> 's) M" where
  "determ_pre loc st = ret (\<not> fst st, st)"

definition determ_post :: "'t z3_api \<Rightarrow> ('t, 's) z3_solver \<Rightarrow> nat \<Rightarrow> bool \<times> 's \<Rightarrow> (bool \<times> 's) M" where
  "determ_post ctx sol loc = (\<lambda>(is_determ, s).
     if \<not> is_determ then ret (is_determ, s) else
     bnd (get_ila loc) (\<lambda>m. bnd (valid_or_true m) (\<lambda>valid. determ_outer ctx sol valid (vec (ila_instrs m)) s)))"

definition CheckDeterminism :: "'t z3_api \<Rightarrow> ('t, 's) z3_solver \<Rightarrow> nat \<Rightarrow> 's \<Rightarrow> (bool \<times> 's) M" where
  "CheckDeterminism ctx sol m s = ila_DepthFirstVisitPrePost determ_pre (determ_post ctx sol) m (True, s)"

definition add_decode :: "nat \<Rightarrow> expr \<Rightarrow> expr M" where
  "add_decode i acc =
     bnd (get_instr i) (\<lambda>x. bnd (not_null (instr_host x)) (\<lambda>p. bnd (get_ila p) (\<lambda>m.
     bnd (valid_or_true m) (\<lambda>valid. bnd (deref (instr_decode x)) (\<lambda>d.
     bnd (AndE valid d) (OrE acc))))))"

definition add_default :: "nat \<Rightarrow> expr \<Rightarrow> bool M" where
  "add_default m acc =
     bnd (lift (GetVar_expr acc)) (\<lambda>vs. bnd (get_ila m) (\<lambda>x.
     let clean = list_all (\<lambda>v. find_state x (ename v) \<noteq> None \<or> find_input x (ename v) \<noteq> None) vs in
     bnd (if clean then bnd (NewInstr m ''PASS_ADD_DEFAULT_INSTR'') (\<lambda>i. bnd (NotE acc) (\<lambda>d. set_decode i (Some d)))
          else ret ()) (\<lambda>_. ret clean)))"

definition SanityCheckAndFix :: "'t z3_api \<Rightarrow> ('t, 's) z3_solver \<Rightarrow> nat \<Rightarrow> 's \<Rightarrow> (bool \<times> 's) M" where
  "SanityCheckAndFix ctx sol m s =
     bnd (CheckDeterminism ctx sol m s) (\<lambda>(is_determ, s).
     bnd (BoolConst False) (\<lambda>acc.
     bnd (GetInstrTree m) (\<lambda>iv.
     bnd (foldM add_decode iv acc) (\<lambda>acc.
     bnd (gen_GetExpr ctx acc []) (\<lambda>t. bnd (t_not ctx t) (\<lambda>n.
     bnd (lift (sol_add sol n (sol_reset sol s))) (\<lambda>s.
     let (res, s) = sol_check sol s; is_complete = (res = Unsat) in
     bnd (if \<not> is_complete then bnd (add_default m acc) (\<lambda>clean. ret (is_complete \<and> clean)) else ret is_complete) (\<lambda>is_complete.
     ret (is_determ \<and> is_complete, s)))))))))"

section \<open>Simplification\<close>

text \<open>A thrown exception can be caught; a failed assertion or a null pointer ends the program.\<close>

definition thrown :: "error \<Rightarrow> bool" where
  "thrown e = (e \<in> {LibException, OutOfRange})"

text \<open>Syntactic simplification replaces every expression by its representative. The nodes that the manager rewrites
  in place are seen by the program wherever they are shared; the model puts the representatives only where the pass
  stores them. After a caught exception the program keeps the changes made before it, the model starts over.\<close>

definition rep_expr :: "emap rewriting" where
  "rep_expr m e = lift (rbind (GetRep e m) (\<lambda>(r, _, m'). Inr (Some r, m')))"

definition SimplifySyntactic :: "nat \<Rightarrow> bool M" where
  "SimplifySyntactic m = (\<lambda>h. case RewriteGeneric rep_expr m Map.empty h of
     Inl er \<Rightarrow> if thrown er then Inr (False, h) else Inl er | Inr r \<Rightarrow> Inr r)"

text \<open>Semantic simplification replaces an update by the first of its subexpressions that the solver finds to be equal
  whenever the instruction is valid and decoded. The function object has a table and the candidate.\<close>

record FuncObjEqSubtree =
  eq_rule :: "expr \<rightharpoonup> expr"
  eq_candidate :: "expr option"

definition CheckEqModAssump ::
  "'t z3_api \<Rightarrow> ('t, 's) z3_solver \<Rightarrow> ('t \<Rightarrow> 't \<Rightarrow> 't result) \<Rightarrow> expr \<Rightarrow> expr \<Rightarrow> expr \<Rightarrow> bool M" where
  "CheckEqModAssump ctx sol z3_neq target assump x =
     bnd (gen_GetExpr ctx assump []) (\<lambda>ass. bnd (gen_GetExpr ctx target []) (\<lambda>tar. bnd (gen_GetExpr ctx x []) (\<lambda>can.
     bnd (lift (z3_neq can tar)) (\<lambda>ne. bnd (t_and ctx ass ne) (\<lambda>q.
     bnd (lift (sol_add sol q (sol_new sol))) (\<lambda>s.
     ret (fst (sol_check sol s) = Unsat)))))))"

definition eq_Rewrite ::
  "'t z3_api \<Rightarrow> ('t, 's) z3_solver \<Rightarrow> ('t \<Rightarrow> 't \<Rightarrow> 't result) \<Rightarrow> expr \<Rightarrow> expr \<Rightarrow> expr \<Rightarrow> expr option \<Rightarrow> (expr \<times> expr option) M" where
  "eq_Rewrite ctx sol z3_neq target assump e cand =
     (if e = target then ret (case cand of Some c \<Rightarrow> c | None \<Rightarrow> e, cand)
      else if cand = None \<and> sort_Equal (esort e) (esort target) then
        bnd (CheckEqModAssump ctx sol z3_neq target assump e) (\<lambda>b. ret (e, if b then Some e else cand))
      else ret (e, cand))"

definition eq_post ::
  "'t z3_api \<Rightarrow> ('t, 's) z3_solver \<Rightarrow> ('t \<Rightarrow> 't \<Rightarrow> 't result) \<Rightarrow> expr \<Rightarrow> expr \<Rightarrow> expr \<Rightarrow> FuncObjEqSubtree \<Rightarrow> FuncObjEqSubtree M" where
  "eq_post ctx sol z3_neq target assump e f =
     bnd (eq_Rewrite ctx sol z3_neq target assump e (eq_candidate f)) (\<lambda>(dst, cand).
     ret \<lparr>eq_rule = (if eq_rule f e = None then (eq_rule f)(e \<mapsto> dst) else eq_rule f), eq_candidate = cand\<rparr>)"

definition eq_get :: "FuncObjEqSubtree \<Rightarrow> expr \<Rightarrow> expr M" where
  "eq_get f e = lift (case eq_rule f e of None \<Rightarrow> Inl (IlaCheck ''No mapping for '') | Some d \<Rightarrow> Inr d)"

definition SimpEqSubtree ::
  "'t z3_api \<Rightarrow> ('t, 's) z3_solver \<Rightarrow> ('t \<Rightarrow> 't \<Rightarrow> 't result) \<Rightarrow> expr \<Rightarrow> nat \<Rightarrow> expr M" where
  "SimpEqSubtree ctx sol z3_neq e i =
     bnd (get_instr i) (\<lambda>x. bnd (not_null (instr_host x)) (\<lambda>p. bnd (get_ila p) (\<lambda>m.
     bnd (not_null (ila_valid m)) (\<lambda>valid. bnd (not_null (instr_decode x)) (\<lambda>d.
     bnd (AndE valid d) (\<lambda>assump.
     bnd (\<lambda>h. DepthFirstVisitPrePost (\<lambda>y st. eq_rule (fst st) y \<noteq> None)
            (\<lambda>y st. eq_post ctx sol z3_neq e assump y (fst st) (snd st)) e (\<lparr>eq_rule = Map.empty, eq_candidate = None\<rparr>, h)) (\<lambda>f.
     eq_get f e)))))))"

text \<open>A thrown exception ends the simplification of the ILA that is visited, not the pass. The answer says whether
  the loops go on. The identifiers that a failed query has drawn are drawn again.\<close>

definition simp_update ::
  "'t z3_api \<Rightarrow> ('t, 's) z3_solver \<Rightarrow> ('t \<Rightarrow> 't \<Rightarrow> 't result) \<Rightarrow> nat \<Rightarrow> string \<Rightarrow> bool \<Rightarrow> bool M" where
  "simp_update ctx sol z3_neq i state go =
     (if \<not> go then ret False else
      bnd (get_instr i) (\<lambda>x. bnd (deref (update x state)) (\<lambda>e.
      (\<lambda>h. case SimpEqSubtree ctx sol z3_neq e i h of
             Inl er \<Rightarrow> if thrown er then Inr (False, h) else Inl er
           | Inr (d, h) \<Rightarrow> bnd (ForceAddUpdate i state d) (\<lambda>_. ret True) h))))"

definition simp_instr ::
  "'t z3_api \<Rightarrow> ('t, 's) z3_solver \<Rightarrow> ('t \<Rightarrow> 't \<Rightarrow> 't result) \<Rightarrow> nat \<Rightarrow> bool \<Rightarrow> bool M" where
  "simp_instr ctx sol z3_neq i go =
     (if \<not> go then ret False else
      bnd (get_instr i) (\<lambda>x. foldM (simp_update ctx sol z3_neq i) (updated_states x) go))"

definition simp_visiter ::
  "'t z3_api \<Rightarrow> ('t, 's) z3_solver \<Rightarrow> ('t \<Rightarrow> 't \<Rightarrow> 't result) \<Rightarrow> nat \<Rightarrow> unit \<Rightarrow> unit M" where
  "simp_visiter ctx sol z3_neq p u =
     bnd (get_ila p) (\<lambda>m. bnd (foldM (simp_instr ctx sol z3_neq) (vec (ila_instrs m)) True) (\<lambda>_. ret ()))"

definition SimplifySemantic ::
  "'t z3_api \<Rightarrow> ('t, 's) z3_solver \<Rightarrow> ('t \<Rightarrow> 't \<Rightarrow> 't result) \<Rightarrow> nat \<Rightarrow> bool M" where
  "SimplifySemantic ctx sol z3_neq m = bnd (ila_DepthFirstVisit (simp_visiter ctx sol z3_neq) m ()) (\<lambda>_. ret True)"

section \<open>Child programs\<close>

text \<open>Whether an instruction can be decoded right after another one.\<close>

definition CheckCausality_cfg :: "'t z3_api \<Rightarrow> ('t, 's) z3_solver \<Rightarrow> nat \<Rightarrow> nat \<Rightarrow> nat \<Rightarrow> unit M" where
  "CheckCausality_cfg ctx sol child a b =
     bnd (PathAssn ctx [a] 0 (Unroller_new [])) (\<lambda>(path, u).
     bnd (decode_of b) (\<lambda>d. bnd (Unroller_GetZ3Expr ctx u d 1) (\<lambda>decode.
     bnd (t_and ctx path decode) (\<lambda>q. bnd (lift (sol_add sol q (sol_new sol))) (\<lambda>s.
     if fst (sol_check sol s) = Sat then bnd (BoolConst True) (AddSeqTran child a b) else ret ())))))"

fun infer_pairs :: "'t z3_api \<Rightarrow> ('t, 's) z3_solver \<Rightarrow> nat \<Rightarrow> nat list \<Rightarrow> unit M" where
  "infer_pairs ctx sol child [] = ret ()"
| "infer_pairs ctx sol child (j # js) =
     bnd (CheckCausality_cfg ctx sol child j j) (\<lambda>_.
     bnd (iterM (\<lambda>k. bnd (CheckCausality_cfg ctx sol child j k) (\<lambda>_. CheckCausality_cfg ctx sol child k j)) js) (\<lambda>_.
     infer_pairs ctx sol child js))"

fun InferChildProgCFG_n :: "nat \<Rightarrow> 't z3_api \<Rightarrow> ('t, 's) z3_solver \<Rightarrow> nat \<Rightarrow> unit M" where
  "InferChildProgCFG_n 0 ctx sol m = lift (Inl Diverges)"
| "InferChildProgCFG_n (Suc n) ctx sol m =
     bnd (get_ila m) (\<lambda>x.
     iterM (\<lambda>c. bnd (get_ila c) (\<lambda>y.
        bnd (if ila_seq y = None then infer_pairs ctx sol c (vec (ila_instrs y)) else ret ()) (\<lambda>_.
        InferChildProgCFG_n n ctx sol c))) (vec (ila_childs x)))"

definition InferChildProgCFG :: "'t z3_api \<Rightarrow> ('t, 's) z3_solver \<Rightarrow> nat \<Rightarrow> bool M" where
  "InferChildProgCFG ctx sol m = (\<lambda>h. bnd (InferChildProgCFG_n (Suc (counter h - m)) ctx sol m) (\<lambda>_. ret True) h)"

text \<open>Whether an instruction can start a child program.\<close>

definition CheckCausality_entry :: "'t z3_api \<Rightarrow> ('t, 's) z3_solver \<Rightarrow> nat \<Rightarrow> nat \<Rightarrow> bool M" where
  "CheckCausality_entry ctx sol a b =
     bnd (PathAssn ctx [a] 0 (Unroller_new [])) (\<lambda>(path, u).
     bnd (decode_of b) (\<lambda>d. bnd (Unroller_GetZ3Expr ctx u d 1) (\<lambda>decode.
     bnd (get_instr b) (\<lambda>y. bnd (not_null (instr_host y)) (\<lambda>p. bnd (get_ila p) (\<lambda>m. bnd (deref (ila_valid m)) (\<lambda>v.
     bnd (Unroller_GetZ3Expr ctx u v 0) (\<lambda>valid_prev. bnd (Unroller_GetZ3Expr ctx u v 1) (\<lambda>valid_next.
     bnd (t_not ctx valid_prev) (\<lambda>n. bnd (lift (sol_add sol n (sol_new sol))) (\<lambda>s.
     let (_, s) = sol_check sol s; s = sol_reset sol s in
     bnd (t_not ctx valid_prev) (\<lambda>n. bnd (t_and ctx n path) (\<lambda>q. bnd (t_and ctx q decode) (\<lambda>q. bnd (t_and ctx q valid_next) (\<lambda>q.
     bnd (lift (sol_add sol q s)) (\<lambda>s.
     ret (fst (sol_check sol s) = Sat)))))))))))))))))"

definition set_program_once :: "nat \<Rightarrow> nat \<Rightarrow> unit M" where
  "set_program_once i child = bnd (get_instr i) (\<lambda>x. if instr_prog x = None then set_program i (Some child) else ret ())"

definition map_entry :: "'t z3_api \<Rightarrow> ('t, 's) z3_solver \<Rightarrow> nat \<Rightarrow> nat \<Rightarrow> nat \<Rightarrow> unit M" where
  "map_entry ctx sol i child k =
     bnd (CheckCausality_entry ctx sol i k) (\<lambda>res.
     bnd (get_ila child) (\<lambda>y. bnd (deref (ila_seq y)) (\<lambda>q.
     if res \<and> seq_root q = None
     then bnd (put_ila child (y\<lparr>ila_seq := Some (set_root k q)\<rparr>)) (\<lambda>_. set_program_once i child)
     else ret ())))"

definition map_child :: "'t z3_api \<Rightarrow> ('t, 's) z3_solver \<Rightarrow> nat \<Rightarrow> nat \<Rightarrow> unit M" where
  "map_child ctx sol i child =
     bnd (get_ila child) (\<lambda>y. case ila_seq y of None \<Rightarrow> ret ()
      | Some q \<Rightarrow> (case seq_root q of
          Some entry \<Rightarrow> bnd (CheckCausality_entry ctx sol i entry) (\<lambda>res. if res then set_program_once i child else ret ())
        | None \<Rightarrow> iterM (map_entry ctx sol i child) (vec (ila_instrs y))))"

definition MapChildProgEntryPoint :: "'t z3_api \<Rightarrow> ('t, 's) z3_solver \<Rightarrow> nat \<Rightarrow> bool M" where
  "MapChildProgEntryPoint ctx sol m =
     bnd (get_ila m) (\<lambda>x.
     bnd (iterM (\<lambda>i. bnd (get_ila m) (\<lambda>x. iterM (map_child ctx sol i) (vec (ila_childs x)))) (vec (ila_instrs x))) (\<lambda>_. ret True))"

end
