(* ===== verification/SolverPassProps.thy ===== *)
theory SolverPassProps
  imports SolverPasses EqCheckProps
begin

text \<open>
  What the passes of theory SolverPasses establish, for every solver that answers as documented.
\<close>

section \<open>Determinism and completeness\<close>

definition valid_holds :: "heap \<Rightarrow> nat \<Rightarrow> interp \<Rightarrow> bool" where
  "valid_holds h p I = (case ila_valid (the (ilas h p)) of None \<Rightarrow> True | Some v \<Rightarrow> holds I v)"

definition decoded :: "heap \<Rightarrow> nat \<Rightarrow> interp \<Rightarrow> bool" where
  "decoded h i I = dec_holds (the (instrs h i)) I"

text \<open>The interpretation of names without a suffix.\<close>

abbreviation plain :: "heap \<Rightarrow> smt_env \<Rightarrow> interp" where
  "plain h \<equiv> z3_interp h []"

definition no_overlap :: "heap \<Rightarrow> nat \<Rightarrow> nat \<Rightarrow> nat \<Rightarrow> bool" where
  "no_overlap h q i j = (\<forall>E. env_ok E \<longrightarrow> \<not> (valid_holds h q (plain h E) \<and> decoded h i (plain h E) \<and> decoded h j (plain h E)))"

text \<open>No two instructions of an ILA can be decoded together when it is valid.\<close>

definition exclusive :: "heap \<Rightarrow> nat \<Rightarrow> bool" where
  "exclusive h q = sorted_wrt (no_overlap h q) (vec (ila_instrs (the (ilas h q))))"

text \<open>An instruction of the tree whose host is valid is decoded.\<close>

definition some_decoded :: "heap \<Rightarrow> nat \<Rightarrow> interp \<Rightarrow> bool" where
  "some_decoded h m I = (\<exists>i \<in> tree_instrs h m. valid_holds h (the (instr_host (the (instrs h i)))) I \<and> decoded h i I)"

definition complete :: "heap \<Rightarrow> nat \<Rightarrow> bool" where
  "complete h m = (\<forall>E. env_ok E \<longrightarrow> some_decoded h m (plain h E))"

text \<open>Trees that the sanity check accepts.\<close>

definition instr_decodes :: "heap \<Rightarrow> nat \<Rightarrow> bool" where
  "instr_decodes h i = (\<exists>x p d. instrs h i = Some x \<and> instr_host x = Some p \<and> ilas h p \<noteq> None \<and> instr_decode x = Some d \<and> node h SortBool d)"

definition sane :: "heap \<Rightarrow> nat \<Rightarrow> bool" where
  "sane h m = (heap_inv h \<and> ilas h m \<noteq> None \<and> (\<forall>p x v. ilas h p = Some x \<longrightarrow> ila_valid x = Some v \<longrightarrow> node h SortBool v) \<and>
     (\<forall>i \<in> tree_instrs h m. instr_decodes h i))"

lemma runs_deref: "runs h (deref (Some x)) (\<lambda>y. y = x)"
  by (auto simp: runs_def deref_def)

lemma runs_decode_of: "instr_decodes h i \<Longrightarrow> runs h (decode_of i) (\<lambda>d. form h d (decoded h i))"
  unfolding instr_decodes_def decode_of_def
  by (elim exE conjE, rule runs_bnd [OF runs_get_instr], assumption, simp only:)
    (rule runs_weaken [OF runs_deref], simp add: decoded_def [abs_def] dec_holds_def [abs_def] node_form)

lemma runs_valid:
  assumes "heap_inv h" "ilas h p = Some x" "\<forall>v. ila_valid x = Some v \<longrightarrow> node h SortBool v"
  shows "runs h (valid_or_true x) (\<lambda>v. form h v (valid_holds h p))"
proof (cases "ila_valid x")
  case None
  then show ?thesis using builds_const [OF assms(1), of True] assms(2) by (simp add: valid_or_true_def builds_def valid_holds_def [abs_def])
next
  case (Some v)
  then show ?thesis using assms node_form by (simp add: valid_or_true_def valid_holds_def [abs_def])
qed

context z3_solver_backend
begin

lemma runs_form:
  assumes "heap_inv h" "form h e P"
  shows "runs h (gen_GetExpr ctx e []) (\<lambda>t. bterm t (\<lambda>E. P (plain h E)))"
proof -
  have "holds (plain h E) e \<longleftrightarrow> P (plain h E)" if "env_ok E" for E
    using assms(2) smt_interp_ok [OF that] by (simp add: form_def z3_interp_def)
  then show ?thesis by (intro runs_bterm_cong [OF runs_pred [OF assms(1) form_pred [OF assms(2)]]])
qed

lemma runs_lift_add:
  "bterm t Q \<Longrightarrow> assumes_that s P \<Longrightarrow> runs h (lift (sol_add sol t s)) (\<lambda>s'. assumes_that s' (\<lambda>E. P E \<and> Q E))"
  by (rule runs_weaken [OF runs_add], assumption, assumption, erule conjunct1)

lemma runs_overlap_query:
  assumes inv: "heap_inv h" and v: "form h v (valid_holds h q)" and d: "instr_decodes h i" "instr_decodes h j"
  shows "runs h (overlap_query ctx sol v i j s) (\<lambda>(res, s'). (res = Sat \<longrightarrow> \<not> no_overlap h q i j) \<and>
    (res \<noteq> Sat \<longrightarrow> decisive sol \<longrightarrow> no_overlap h q i j))"
proof -
  have final: "case sol_check sol s2 of (res, s') \<Rightarrow> (res = Sat \<longrightarrow> \<not> no_overlap h q i j) \<and> (res \<noteq> Sat \<longrightarrow> decisive sol \<longrightarrow> no_overlap h q i j)"
    if "assumes_that s2 (\<lambda>E. (True \<and> valid_holds h q (plain h E)) \<and> decoded h i (plain h E) \<and> decoded h j (plain h E))" for s2
  proof (cases "sol_check sol s2")
    case (Pair res s')
    show ?thesis using check_cases(2,4) [OF Pair that] unfolding Pair prod.case no_overlap_def by blast
  qed
  show ?thesis
    unfolding overlap_query_def
    apply (rule runs_bnd [OF runs_decode_of [OF d(1)]], rule runs_bnd [OF runs_decode_of [OF d(2)]])
    apply (rule runs_bnd [OF builds_logic(1) [OF inv, unfolded builds_def]], assumption, assumption)
    apply (rule runs_bnd [OF runs_form [OF inv v]])
    apply (rule runs_bnd [OF runs_lift_add [OF _ assumes_reset]], assumption)
    apply (rule runs_bnd [OF runs_form [OF inv]], assumption)
    apply (rule runs_bnd [OF runs_lift_add], assumption, assumption)
    apply (subst runs_ret, rule final, assumption)
    done
qed

lemma runs_determ_inner:
  assumes inv: "heap_inv h" and v: "form h v (valid_holds h q)" and d: "instr_decodes h i" "\<forall>j \<in> set js. instr_decodes h j"
  shows "runs h (determ_inner ctx sol v i js s) (\<lambda>(b, s'). (\<not> b \<longrightarrow> \<not> (\<forall>j \<in> set js. no_overlap h q i j)) \<and>
    (b \<longrightarrow> decisive sol \<longrightarrow> (\<forall>j \<in> set js. no_overlap h q i j)))"
  using d(2)
proof (induction js arbitrary: s)
  case (Cons j js)
  then show ?case
    unfolding determ_inner.simps
    by (intro runs_bnd [OF runs_overlap_query [OF inv v d(1)]]) (simp, clarify, rule runs_if, simp, rule runs_weaken [OF Cons.IH], auto)
qed simp

lemma runs_determ_outer:
  assumes inv: "heap_inv h" and v: "form h v (valid_holds h q)" and d: "\<forall>j \<in> set js. instr_decodes h j"
  shows "runs h (determ_outer ctx sol v js s) (\<lambda>(b, s'). (\<not> b \<longrightarrow> \<not> sorted_wrt (no_overlap h q) js) \<and>
    (b \<longrightarrow> decisive sol \<longrightarrow> sorted_wrt (no_overlap h q) js))"
  using d
proof (induction js arbitrary: s)
  case (Cons j js)
  then show ?case
    unfolding determ_outer.simps
    by (intro runs_bnd [OF runs_determ_inner [OF inv v]]) (simp, simp, clarify, rule runs_if, rule runs_weaken [OF Cons.IH], auto)
qed simp

end

text \<open>The visit of the tree: \<open>verdict d b S\<close> relates the flag before and after the ILAs of \<open>S\<close>.\<close>

definition verdict :: "bool \<Rightarrow> heap \<Rightarrow> bool \<Rightarrow> bool \<Rightarrow> nat set \<Rightarrow> bool" where
  "verdict dec h d b S = ((\<not> b \<longrightarrow> \<not> d \<or> (\<exists>q \<in> S. \<not> exclusive h q)) \<and> (b \<longrightarrow> d \<and> (dec \<longrightarrow> (\<forall>q \<in> S. exclusive h q))))"

lemma verdict_join: "verdict dec h d b S \<Longrightarrow> verdict dec h b b' T \<Longrightarrow> verdict dec h d b' (S \<union> T)"
  unfolding verdict_def by blast

abbreviation tree_of :: "heap \<Rightarrow> nat \<Rightarrow> nat set" where
  "tree_of h p \<equiv> {q. in_tree h p q}"

lemma tree_of_rec: "ilas h p = Some x \<Longrightarrow> tree_of h p = (\<Union>c \<in> set (vec (ila_childs x)). tree_of h c) \<union> {p}"
  by (auto simp: in_tree_iff [of h p] intro: in_tree.self)

context z3_solver_backend
begin

lemma runs_determ_post:
  assumes sn: "sane h m" and p: "in_tree h m p" "ilas h p = Some x"
  shows "runs h (determ_post ctx sol p (d, s)) (\<lambda>(b, s'). verdict (decisive sol) h d b {p})"
proof -
  have inv: "heap_inv h" and v: "\<forall>v. ila_valid x = Some v \<longrightarrow> node h SortBool v" using sn p(2) by (auto simp: sane_def)
  have d: "\<forall>j \<in> set (vec (ila_instrs x)). instr_decodes h j" using sn p unfolding sane_def tree_instrs_def by blast
  show ?thesis
    unfolding determ_post_def prod.case
    apply (rule runs_if, simp add: verdict_def)
    apply (rule runs_bnd [OF runs_get_ila [OF p(2)]], simp only:)
    apply (rule runs_bnd [OF runs_valid [OF inv p(2) v]])
    apply (rule runs_weaken [OF runs_determ_outer [OF inv _ d]], assumption)
    using p(2) by (auto simp: verdict_def exclusive_def)
qed

lemma runs_determ_fold:
  assumes "\<And>c d s. c \<in> set cs \<Longrightarrow> runs h (f c (d, s)) (\<lambda>(b, s'). verdict (decisive sol) h d b (tree_of h c))"
  shows "runs h (foldM f cs (d, s)) (\<lambda>(b, s'). verdict (decisive sol) h d b (\<Union>c \<in> set cs. tree_of h c))"
  using assms
proof (induction cs arbitrary: d s)
  case (Cons c cs)
  have rest: "runs h (foldM f cs (d', s')) (\<lambda>(b, s'). verdict (decisive sol) h d' b (\<Union>c \<in> set cs. tree_of h c))" for d' s'
    using Cons by auto
  show ?case
    unfolding foldM.simps
    by (rule runs_bnd [OF Cons.prems [of c]], simp, clarify, rule runs_weaken [OF rest], auto dest: verdict_join)
qed (simp add: verdict_def)

lemma runs_determ_n:
  assumes sn: "sane h m"
  shows "in_tree h m p \<Longrightarrow> ilas h p \<noteq> None \<Longrightarrow> counter h - p < n \<Longrightarrow>
    runs h (ila_visit_pp n determ_pre (determ_post ctx sol) p (d, s)) (\<lambda>(b, s'). verdict (decisive sol) h d b (tree_of h p))"
proof (induction n arbitrary: p d s)
  case (Suc n)
  then obtain x where x: "ilas h p = Some x" by blast
  have inv: "heap_inv h" using sn by (simp add: sane_def)
  have tr: "in_tree h m c" if "c \<in> set (vec (ila_childs x))" for c
  proof -
    have "in_tree h a b \<Longrightarrow> in_tree h b c \<Longrightarrow> in_tree h a c" for a b
      by (induction rule: in_tree.induct) (auto intro: in_tree.intros)
    then show ?thesis using Suc.prems(1) in_tree.child [OF x that in_tree.self] by blast
  qed
  have fold: "runs h (foldM (ila_visit_pp n determ_pre (determ_post ctx sol)) (vec (ila_childs x)) (d, s))
      (\<lambda>(b, s'). verdict (decisive sol) h d b (\<Union>c \<in> set (vec (ila_childs x)). tree_of h c))"
    using Suc child_links [OF inv x] tr by (intro runs_determ_fold Suc.IH) force+
  have pre: "determ_pre p (d, s) = ret (\<not> d, d, s)" by (simp add: determ_pre_def)
  show ?case
    unfolding ila_visit_pp.simps pre bnd_ret prod.case fst_conv
    apply (rule runs_if, simp add: verdict_def)
    apply (drule notnotD)
    apply (rule runs_bnd [OF runs_get_ila [OF x]], erule ssubst)
    apply (rule runs_bnd [OF fold], clarify)
    apply (rule runs_weaken [OF runs_determ_post [OF sn Suc.prems(1) x]], clarify)
    unfolding tree_of_rec [OF x] by (erule verdict_join)
qed simp

lemma runs_CheckDeterminism:
  assumes "sane h m"
  shows "runs h (CheckDeterminism ctx sol m s) (\<lambda>(b, s'). verdict (decisive sol) h True b (tree_of h m))"
  unfolding runs_def
proof (intro allI impI)
  fix h1 assume a: "only_alloc h h1"
  have "counter h - m < Suc (counter h1 - m)" using a by (auto simp: only_alloc_def)
  from runs_determ_n [OF assms in_tree.self _ this, of True s] assms a
  show "\<exists>r h2. CheckDeterminism ctx sol m s h1 = Inr (r, h2) \<and> only_alloc h1 h2 \<and> (case r of (b, s') \<Rightarrow> verdict (decisive sol) h True b (tree_of h m))"
    unfolding CheckDeterminism_def ila_DepthFirstVisitPrePost_def runs_def sane_def by blast
qed

text \<open>The accumulated decode functions.\<close>

lemma runs_add_decode:
  assumes sn: "sane h m" and i: "instr_decodes h i" and acc: "form h acc P"
  shows "runs h (add_decode i acc) (\<lambda>e. form h e (\<lambda>I. P I \<or> valid_holds h (the (instr_host (the (instrs h i)))) I \<and> decoded h i I))"
proof -
  obtain x p d y where x: "instrs h i = Some x" "instr_host x = Some p" "ilas h p = Some y" "instr_decode x = Some d" "node h SortBool d"
    using i by (auto simp: instr_decodes_def)
  have inv: "heap_inv h" and v: "\<forall>v. ila_valid y = Some v \<longrightarrow> node h SortBool v" using sn x(3) by (auto simp: sane_def)
  have fd: "form h d (decoded h i)" using node_form [OF x(5)] x by (simp add: decoded_def [abs_def] dec_holds_def [abs_def])
  have host: "the (instr_host (the (instrs h i))) = p" using x by simp
  show ?thesis
    unfolding add_decode_def host
    apply (rule runs_bnd [OF runs_get_instr [OF x(1)]], simp only: x(2))
    apply (rule runs_bnd [OF runs_not_null], simp only:)
    apply (rule runs_bnd [OF runs_get_ila [OF x(3)]], simp only:)
    apply (rule runs_bnd [OF runs_valid [OF inv x(3) v]], simp only: x(4))
    apply (rule runs_bnd [OF runs_deref], simp only:)
    apply (rule runs_bnd [OF builds_logic(1) [OF inv _ fd, unfolded builds_def]], assumption)
    apply (rule builds_logic(2) [OF inv acc, unfolded builds_def], assumption)
    done
qed

lemma runs_decodes:
  assumes sn: "sane h m" and i: "\<forall>i \<in> set iv. instr_decodes h i" and acc: "form h acc P"
  shows "runs h (foldM add_decode iv acc) (\<lambda>e. form h e (\<lambda>I. P I \<or>
    (\<exists>i \<in> set iv. valid_holds h (the (instr_host (the (instrs h i)))) I \<and> decoded h i I)))"
  using i acc
proof (induction iv arbitrary: acc P)
  case (Cons i iv)
  have "runs h (foldM add_decode iv a) (\<lambda>e. form h e (\<lambda>I. Q I \<or> (\<exists>i \<in> set iv. valid_holds h (the (instr_host (the (instrs h i)))) I \<and> decoded h i I)))"
    if "form h a Q" for a Q using Cons that by simp
  then show ?case
    unfolding foldM.simps using Cons.prems
    by (intro runs_bnd [OF runs_add_decode [OF sn]]) (simp, assumption, rule runs_weaken, blast, erule form_cong, auto)
qed simp

end

text \<open>The default instruction.\<close>

lemma node_dom: "dom (ilas h') = dom (ilas h) \<Longrightarrow> node h' s e = node h s e"
proof -
  assume "dom (ilas h') = dom (ilas h)"
  then have d: "(ilas h' p = None) = (ilas h p = None)" for p by (metis domIff)
  then have "node_enc h' = node_enc h" by (simp add: fun_eq_iff node_enc_def split: ekind.splits)
  then show ?thesis by (simp add: node_def encodable_def host_in_def d)
qed

lemma form_dom: "dom (ilas h') = dom (ilas h) \<Longrightarrow> form h e P \<Longrightarrow> form h' e P"
  unfolding form_def using node_dom by blast

definition default_name :: string where
  "default_name = ''PASS_ADD_DEFAULT_INSTR''"

lemma NewInstr_default:
  assumes "heap_inv h" "ilas h m = Some x"
  defines "i \<equiv> Suc (counter h)"
  shows "NewInstr m default_name h = Inr (i, \<lparr>counter = i, ilas = (ilas h)(m \<mapsto> x\<lparr>ila_instrs := snd (push_back default_name i (ila_instrs x))\<rparr>),
    instrs = (instrs h)(i \<mapsto> \<lparr>instr_name = default_name, instr_host = Some m, instr_decode = None, instr_updates = [], instr_prog = None\<rparr>)\<rparr>)"
  using assms by (cases h) (simp add: NewInstr_def Instr_New_def AddInstr_def default_name_def)

text \<open>The decode function of the added instruction holds exactly where \<open>P\<close> does not, and nothing else changes.\<close>

definition default_added :: "heap \<Rightarrow> nat \<Rightarrow> heap \<Rightarrow> (interp \<Rightarrow> bool) \<Rightarrow> bool" where
  "default_added h m h' P = (\<exists>i d. instrs h i = None \<and> form h' d (\<lambda>I. \<not> P I) \<and>
     ilas h' = (ilas h)(m \<mapsto> (the (ilas h m))\<lparr>ila_instrs := snd (push_back default_name i (ila_instrs (the (ilas h m))))\<rparr>) \<and>
     instrs h' = (instrs h)(i \<mapsto> \<lparr>instr_name = default_name, instr_host = Some m, instr_decode = Some d, instr_updates = [], instr_prog = None\<rparr>))"

lemma set_decode_run:
  "instrs h i = Some x \<Longrightarrow> instr_decode x = None \<Longrightarrow> e_is_bool d \<Longrightarrow>
   set_decode i (Some d) h = Inr ((), h\<lparr>instrs := (instrs h)(i \<mapsto> x\<lparr>instr_decode := Some d\<rparr>)\<rparr>)"
  unfolding set_decode_def ForceSetDecode_def Unify_def bnd_def get_instr_def put_instr_def by (simp add: not_null_def ila_check_def ret_def)

lemma add_default_run:
  assumes inv: "heap_inv h" and x: "ilas h m = Some x" and acc: "form h acc P"
  shows "\<exists>clean h'. add_default m acc h = Inr (clean, h') \<and> (if clean then default_added h m h' P else h' = h)"
proof -
  obtain vs where vs: "GetVar_expr acc = Inr vs" using var_visit(1) [of acc "[]"] by (auto simp: GetVar_expr_def)
  let ?clean = "list_all (\<lambda>v. find_state x (ename v) \<noteq> None \<or> find_input x (ename v) \<noteq> None) vs"
  obtain i h1 where n: "NewInstr m default_name h = Inr (i, h1)" "i = Suc (counter h)"
    "ilas h1 = (ilas h)(m \<mapsto> x\<lparr>ila_instrs := snd (push_back default_name i (ila_instrs x))\<rparr>)"
    "instrs h1 = (instrs h)(i \<mapsto> \<lparr>instr_name = default_name, instr_host = Some m, instr_decode = None, instr_updates = [], instr_prog = None\<rparr>)"
    using NewInstr_default [OF inv x] by simp
  have inv1: "heap_inv h1" using keepsD [OF keeps_NewInstr n(1) inv] .
  have "dom (ilas h1) = dom (ilas h)" using n(3) x by auto
  from form_dom [OF this acc] have "form h1 acc P" .
  from runsD [OF builds_Not [OF inv1 this, unfolded builds_def]] obtain d h2 where
    d: "NotE acc h1 = Inr (d, h2)" "only_alloc h1 h2" "form h1 d (\<lambda>I. \<not> P I)" by blast
  let ?h = "h2\<lparr>instrs := (instrs h2)(i \<mapsto> (the (instrs h1 i))\<lparr>instr_decode := Some d\<rparr>)\<rparr>"
  have "e_is_bool d" using d(3) by (simp add: form_def node_def)
  moreover have "instrs h2 i = instrs h1 i" "instrs h1 i \<noteq> None" "instr_decode (the (instrs h1 i)) = None"
    using d(2) n(4) by (simp_all add: only_alloc_def)
  ultimately have sd: "set_decode i (Some d) h2 = Inr ((), ?h)" by (auto simp: set_decode_run)
  have "instrs h i = None" using heap_invD(5) [OF inv, of i] n(2) by (cases "instrs h i") auto
  moreover have "form ?h d (\<lambda>I. \<not> P I)" by (rule form_dom [OF _ d(3)]) (use d(2) in \<open>simp add: only_alloc_def\<close>)
  ultimately have added: "default_added h m ?h P"
    unfolding default_added_def using d(2) n(3,4) x by (intro exI [of _ i] exI [of _ d]) (simp add: only_alloc_def)
  show ?thesis
  proof (cases ?clean)
    case True
    have "add_default m acc h = Inr (True, ?h)"
      using vs x n(1) d(1) sd True unfolding default_name_def by (simp add: add_default_def Let_def)
    then show ?thesis using added by auto
  next
    case False
    have "add_default m acc h = Inr (False, h)" using vs x False by (simp add: add_default_def Let_def)
    then show ?thesis by auto
  qed
qed

text \<open>A computation whose last steps change objects: \<open>R\<close> also speaks of the final heap.\<close>

definition lands :: "heap \<Rightarrow> 'a M \<Rightarrow> ('a \<Rightarrow> heap \<Rightarrow> bool) \<Rightarrow> bool" where
  "lands h m R = (\<forall>h1. only_alloc h h1 \<longrightarrow> (\<exists>r h2. m h1 = Inr (r, h2) \<and> R r h2))"

lemma lands_bnd:
  assumes "runs h m Q" "\<And>r. Q r \<Longrightarrow> lands h (f r) R"
  shows "lands h (bnd m f) R"
  unfolding lands_def
proof (intro allI impI)
  fix h1 assume a: "only_alloc h h1"
  then obtain r h2 where r: "m h1 = Inr (r, h2)" "only_alloc h1 h2" "Q r" using assms(1) by (auto simp: runs_def)
  then show "\<exists>r h2. bnd m f h1 = Inr (r, h2) \<and> R r h2"
    using assms(2) [OF r(3)] only_alloc_trans [OF a r(2)] by (auto simp: lands_def)
qed

lemma lands_bnd_ret:
  assumes "lands h m Q" "\<And>r h'. Q r h' \<Longrightarrow> R (g r) h'"
  shows "lands h (bnd m (\<lambda>r. ret (g r))) R"
  using assms unfolding lands_def by (simp, blast)

lemma lands_ret: "(\<And>h'. only_alloc h h' \<Longrightarrow> R x h') \<Longrightarrow> lands h (ret x) R"
  by (simp add: lands_def)

definition same_objects :: "heap \<Rightarrow> heap \<Rightarrow> bool" where
  "same_objects h h' = (ilas h' = ilas h \<and> instrs h' = instrs h)"

lemma lands_add_default:
  assumes inv: "heap_inv h" and x: "ilas h m = Some x" and acc: "form h acc P"
  shows "lands h (add_default m acc) (\<lambda>clean h'. if clean then default_added h m h' P else same_objects h h')"
  unfolding lands_def
proof (intro allI impI)
  fix h1 assume a: "only_alloc h h1"
  have "heap_inv h1" "ilas h1 m = Some x" "form h1 acc P"
    using heap_inv_alloc [OF inv a] x form_alloc [OF acc a] a by (simp_all add: only_alloc_def)
  from add_default_run [OF this] obtain clean h' where
    "add_default m acc h1 = Inr (clean, h')" "if clean then default_added h1 m h' P else h' = h1" by blast
  then show "\<exists>r h2. add_default m acc h1 = Inr (r, h2) \<and> (if r then default_added h m h2 P else same_objects h h2)"
    using a by (intro exI [of _ clean] exI [of _ h']) (auto simp: default_added_def same_objects_def only_alloc_def)
qed

text \<open>The added instruction is the only change of \<open>some_decoded\<close>.\<close>

lemma default_completes:
  assumes sn: "sane h m" and x: "ilas h m = Some x" "ila_valid x = None" "find_instr x default_name = None"
    and add: "default_added h m h' (some_decoded h m)"
  shows "complete h' m"
proof -
  obtain i d where i: "instrs h i = None" "form h' d (\<lambda>I. \<not> some_decoded h m I)"
    "ilas h' = (ilas h)(m \<mapsto> x\<lparr>ila_instrs := snd (push_back default_name i (ila_instrs x))\<rparr>)"
    "instrs h' = (instrs h)(i \<mapsto> \<lparr>instr_name = default_name, instr_host = Some m, instr_decode = Some d, instr_updates = [], instr_prog = None\<rparr>)"
    using add x(1) unfolding default_added_def by auto
  have new: "set (vec (snd (push_back default_name i (ila_instrs x)))) = insert i (set (vec (ila_instrs x)))"
    using x(3) by (simp add: push_back_def Let_def find_instr_def kv_get_conv)
  have step: "\<exists>y'. ilas h' p = Some y' \<and> set (vec (ila_instrs y)) \<subseteq> set (vec (ila_instrs y')) \<and>
      ila_childs y' = ila_childs y \<and> ila_valid y' = ila_valid y" if "ilas h p = Some y" for p y
    using that x(1) new by (cases "p = m") (auto simp: i(3))
  have tree: "in_tree h' q r" if "in_tree h q r" for q r
    using that by (induction rule: in_tree.induct) (auto intro: in_tree.self, metis step in_tree.child)
  have "naming h' = naming h" using x(1) by (auto simp: naming_def i(3))
  from z3_interp_naming [OF this] have pl: "plain h' = plain h" by simp
  have old: "some_decoded h' m I" if dec: "some_decoded h m I" for I
  proof -
    obtain j where j: "j \<in> tree_instrs h m" "valid_holds h (the (instr_host (the (instrs h j)))) I" "decoded h j I"
      using dec by (auto simp: some_decoded_def)
    have "instr_decodes h j" using sn j(1) by (simp add: sane_def)
    then obtain y p z where y: "instrs h j = Some y" "instr_host y = Some p" "ilas h p = Some z" by (auto simp: instr_decodes_def)
    have same: "instrs h' j = Some y" using y(1) i(1,4) by auto
    have "j \<in> tree_instrs h' m" using j(1) step tree unfolding tree_instrs_def by blast
    moreover have "valid_holds h' p I" using j(2) y step [OF y(3)] by (auto simp: valid_holds_def)
    ultimately show ?thesis unfolding some_decoded_def using same y j(3) by (intro bexI [of _ j]) (simp_all add: decoded_def)
  qed
  have "i \<in> tree_instrs h' m" unfolding tree_instrs_def using new in_tree.self [of h' m] by (auto simp: i(3))
  then have "some_decoded h' m I" if "holds I d" for I
    unfolding some_decoded_def using that x(2)
    by (intro bexI [of _ i]) (simp_all add: i(3,4) valid_holds_def decoded_def dec_holds_def)
  moreover have "interp_ok (plain h E)" if "env_ok E" for E using smt_interp_ok [OF that] by (simp add: z3_interp_def)
  ultimately show ?thesis unfolding complete_def pl using old i(2) by (auto simp: form_def)
qed

text \<open>What the pass returns and leaves: the tree as it was, or with the default instruction.\<close>

definition sanity_result :: "bool \<Rightarrow> heap \<Rightarrow> nat \<Rightarrow> bool \<Rightarrow> heap \<Rightarrow> bool" where
  "sanity_result dec h m b h' = ((b \<longrightarrow> complete h m \<and> same_objects h h') \<and>
     (dec \<longrightarrow> (b \<longleftrightarrow> complete h m \<and> (\<forall>q. in_tree h m q \<longrightarrow> exclusive h q))) \<and>
     (same_objects h h' \<or> default_added h m h' (some_decoded h m)))"

context z3_solver_backend
begin

lemma sanity_tail:
  assumes inv: "heap_inv h" and x: "ilas h m = Some x" and acc: "form h acc (some_decoded h m)"
    and s2: "assumes_that s2 (\<lambda>E. True \<and> \<not> some_decoded h m (plain h E))"
    and d: "verdict (decisive sol) h True d (tree_of h m)"
  shows "lands h (let (res, s) = sol_check sol s2; is_complete = (res = Unsat) in
     bnd (if \<not> is_complete then bnd (add_default m acc) (\<lambda>clean. ret (is_complete \<and> clean)) else ret is_complete) (\<lambda>is_complete.
     ret (d \<and> is_complete, s))) (\<lambda>(b, s'). sanity_result (decisive sol) h m b)"
proof (cases "sol_check sol s2")
  case (Pair res s3)
  have c: "res = Unsat \<Longrightarrow> complete h m" "res = Sat \<Longrightarrow> \<not> complete h m" "decisive sol \<Longrightarrow> res \<noteq> Sat \<Longrightarrow> complete h m"
    using check_cases [OF Pair s2] unfolding complete_def by blast+
  show ?thesis
  proof (cases "res = Unsat")
    case True
    then show ?thesis
      unfolding Pair using c(1) d
      by (auto simp: Let_def sanity_result_def same_objects_def only_alloc_def verdict_def intro!: lands_ret)
  next
    case False
    then have n: "decisive sol \<Longrightarrow> \<not> complete h m" using c Pair unfolding decisive_def by (cases res) (auto, metis fst_conv)
    show ?thesis
      unfolding Pair Let_def prod.case if_P [OF False] using False n
      by (intro lands_bnd_ret [OF lands_bnd_ret [OF lands_add_default [OF inv x acc], of "\<lambda>b h'. \<not> b \<and> (same_objects h h' \<or> default_added h m h' (some_decoded h m))"]])
        (auto simp: sanity_result_def split: if_splits)
  qed
qed

lemma lands_sanity:
  assumes sn: "sane h m"
  shows "lands h (SanityCheckAndFix ctx sol m s) (\<lambda>(b, s'). sanity_result (decisive sol) h m b)"
proof -
  obtain x where inv: "heap_inv h" and x: "ilas h m = Some x" using sn by (auto simp: sane_def)
  have ids: "set (instr_ids h m) = tree_instrs h m" using trees_run(4) [OF inv] x by simp
  have d: "\<forall>i \<in> set (instr_ids h m). instr_decodes h i" using sn ids by (simp add: sane_def)
  have some: "form h e (\<lambda>I. False \<or> (\<exists>i \<in> set (instr_ids h m). valid_holds h (the (instr_host (the (instrs h i)))) I \<and> decoded h i I)) \<Longrightarrow>
    form h e (some_decoded h m)" for e
    by (erule form_cong) (simp add: some_decoded_def ids)
  show ?thesis
    unfolding SanityCheckAndFix_def
    apply (rule lands_bnd [OF runs_CheckDeterminism [OF sn]], clarify)
    apply (rule lands_bnd [OF builds_const [OF inv, unfolded builds_def]])
    apply (rule lands_bnd [OF runs_instr_tree [OF inv]], simp add: x, erule ssubst)
    apply (rule lands_bnd [OF runs_decodes [OF sn d]], assumption, drule some)
    apply (rule lands_bnd [OF runs_form [OF inv]], assumption)
    apply (rule lands_bnd [OF runs_ops(1)], assumption, assumption)
    apply (rule lands_bnd [OF runs_lift_add [OF _ assumes_reset]], assumption)
    apply (rule sanity_tail [OF inv x], assumption, assumption, assumption)
    done
qed

end

text \<open>C14: The sanity check returns on every tree whose instructions have decode functions. It answers true only if
  in every state some instruction of the tree is decoded, and with a solver that decides every query it answers true
  exactly if, moreover, no two instructions of one ILA can be decoded together. The objects are left alone, or one
  instruction is added to the root that is decoded exactly where no other is. With it the tree is complete, if the root
  has no valid condition and had no instruction of that name, but the answer is false.\<close>

theorem sanity_check_says:
  assumes "z3_solver_backend ctx tsort den sol frames" and "sane h m"
  shows "\<exists>b s' h'. SanityCheckAndFix ctx sol m s h = Inr ((b, s'), h') \<and>
    (b \<longrightarrow> complete h m \<and> ilas h' = ilas h \<and> instrs h' = instrs h) \<and>
    (decisive sol \<longrightarrow> (b \<longleftrightarrow> complete h m \<and> (\<forall>q. in_tree h m q \<longrightarrow> exclusive h q))) \<and>
    (ilas h' = ilas h \<and> instrs h' = instrs h \<or> default_added h m h' (some_decoded h m) \<and>
       (ila_valid (the (ilas h m)) = None \<longrightarrow> find_instr (the (ilas h m)) default_name = None \<longrightarrow> complete h' m))"
proof -
  obtain r h' where r: "SanityCheckAndFix ctx sol m s h = Inr (r, h')" "case r of (b, s') \<Rightarrow> sanity_result (decisive sol) h m b h'"
    using z3_solver_backend.lands_sanity [OF assms] only_alloc_refl unfolding lands_def by fast
  obtain b s' where b: "r = (b, s')" by fastforce
  obtain x where "ilas h m = Some x" using assms(2) by (auto simp: sane_def)
  then have "default_added h m h' (some_decoded h m) \<longrightarrow>
    ila_valid (the (ilas h m)) = None \<longrightarrow> find_instr (the (ilas h m)) default_name = None \<longrightarrow> complete h' m"
    using default_completes [OF assms(2)] by auto
  with r show ?thesis
    unfolding b prod.case sanity_result_def same_objects_def by (intro exI [of _ b] exI [of _ s'] exI [of _ h']) blast
qed

lemma bmc_sane: "sane bmc_heap 1"
  using bmc_heap_inv bmc_nodes(1)
  by (auto simp: sane_def bmc_trees instr_decodes_def bmc_ilas bmc_instr_def simp del: One_nat_def)
     (auto simp: bmc_heap_def bmc_ila_def ila_init_def split: if_splits)

theorem sanity_check_says_witness:
  "\<exists>s' h'. SanityCheckAndFix sem_api sem_solver 1 [[]] bmc_heap = Inr ((True, s'), h') \<and> ilas h' = ilas bmc_heap"
proof -
  have "decisive sem_solver" by (simp add: decisive_def sem_solver_def sem_check_def)
  moreover have "some_decoded bmc_heap 1 (plain bmc_heap E)" for E
    by (simp add: some_decoded_def bmc_trees valid_holds_def decoded_def dec_holds_def bmc_ilas bmc_instr_def bmc_ila_def ila_init_def
        holds_def bmc_eval del: One_nat_def)
  then have "complete bmc_heap 1" by (simp add: complete_def)
  moreover have "exclusive bmc_heap 1" by (simp add: exclusive_def bmc_ilas bmc_vecs del: One_nat_def)
  then have "\<forall>q. in_tree bmc_heap 1 q \<longrightarrow> exclusive bmc_heap q" by (simp add: bmc_tree)
  moreover obtain b s' h' where
    "SanityCheckAndFix sem_api sem_solver 1 [[]] bmc_heap = Inr ((b, s'), h')" "b \<longrightarrow> ilas h' = ilas bmc_heap"
    "decisive sem_solver \<longrightarrow> (b \<longleftrightarrow> complete bmc_heap 1 \<and> (\<forall>q. in_tree bmc_heap 1 q \<longrightarrow> exclusive bmc_heap q))"
    using sanity_check_says [OF exact.z3_solver_backend_axioms bmc_sane, of "[[]]"] by blast
  ultimately show ?thesis by simp
qed

end
