(* ===== verification/JsonTarget.thy ===== *)
theory JsonTarget
  imports HashAst Rewriter
begin

text \<open>
  The JSON target: the serializer of ILAs (src/target-json/ila\_to\_json\_serializer.cc), the deserializer
  (json\_to\_ila\_deserializer.cc) and their interface (interface.cc, without the files). The keys are those of
  include/target-json/serdes\_config.h.

  A JSON value is a datatype; a number is an integer, since no floating-point value is written. An object is an ordered
  map, as in the library. An access that the library rejects throws an exception.
\<close>

section \<open>JSON values\<close>

datatype json =
    JNull
  | JBool bool
  | JNum int
  | JStr string
  | JArr "json list"
  | JObj "(string \<times> json) list"

definition j_at :: "json \<Rightarrow> string \<Rightarrow> json result" where
  "j_at j key = (case j of
       JObj kvs \<Rightarrow> (case map_of kvs key of None \<Rightarrow> Inl LibException | Some v \<Rightarrow> Inr v)
     | _ \<Rightarrow> Inl LibException)"

definition j_index :: "json \<Rightarrow> nat \<Rightarrow> json result" where
  "j_index j idx = (case j of
       JArr xs \<Rightarrow> (if idx < length xs then Inr (xs ! idx) else Inl LibException)
     | _ \<Rightarrow> Inl LibException)"

text \<open>\<^verbatim>\<open>find\<close> on a value that is not an object finds nothing.\<close>

definition j_find :: "json \<Rightarrow> string \<Rightarrow> json option" where
  "j_find j key = (case j of JObj kvs \<Rightarrow> map_of kvs key | _ \<Rightarrow> None)"

text \<open>A null value becomes an array with its first element.\<close>

definition j_push_back :: "json \<Rightarrow> json \<Rightarrow> json result" where
  "j_push_back v j = (case j of
       JNull \<Rightarrow> Inr (JArr [v])
     | JArr xs \<Rightarrow> Inr (JArr (xs @ [v]))
     | _ \<Rightarrow> Inl LibException)"

definition j_size :: "json \<Rightarrow> nat" where
  "j_size j = (case j of JNull \<Rightarrow> 0 | JArr xs \<Rightarrow> length xs | JObj kvs \<Rightarrow> length kvs | _ \<Rightarrow> 1)"

text \<open>The elements of a range-based loop; a scalar is its own only element.\<close>

definition j_elems :: "json \<Rightarrow> json list" where
  "j_elems j = (case j of JNull \<Rightarrow> [] | JArr xs \<Rightarrow> xs | JObj kvs \<Rightarrow> map snd kvs | _ \<Rightarrow> [j])"

text \<open>\<^verbatim>\<open>items\<close>: keys with values; the key of an array element is its index, that of a scalar is empty.\<close>

definition j_items :: "json \<Rightarrow> (string \<times> json) list" where
  "j_items j = (case j of
       JNull \<Rightarrow> []
     | JArr xs \<Rightarrow> zip (map to_string [0 ..< length xs]) xs
     | JObj kvs \<Rightarrow> kvs
     | _ \<Rightarrow> [([], j)])"

text \<open>Conversions cast between the integer types; only \<^verbatim>\<open>int\<close> accepts a Boolean value.\<close>

definition get_size :: "json \<Rightarrow> nat result" where
  "get_size j = (case j of JNum n \<Rightarrow> Inr (unat (word_of_int n :: 64 word)) | _ \<Rightarrow> Inl LibException)"

definition get_bv :: "json \<Rightarrow> BvValType result" where
  "get_bv j = (case j of JNum n \<Rightarrow> Inr (word_of_int n) | _ \<Rightarrow> Inl LibException)"

definition get_int :: "json \<Rightarrow> int result" where
  "get_int j = (case j of
       JNum n \<Rightarrow> Inr (sint (word_of_int n :: 32 word))
     | JBool b \<Rightarrow> Inr (if b then 1 else 0)
     | _ \<Rightarrow> Inl LibException)"

definition get_bool :: "json \<Rightarrow> bool result" where
  "get_bool j = (case j of JBool b \<Rightarrow> Inr b | _ \<Rightarrow> Inl LibException)"

definition get_str :: "json \<Rightarrow> string result" where
  "get_str j = (case j of JStr s \<Rightarrow> Inr s | _ \<Rightarrow> Inl LibException)"

section \<open>Serialization\<close>

record I2JSer =
  id_idx_map :: "nat \<rightharpoonup> nat"
  func_id_idx_map :: "nat \<rightharpoonup> nat"
  j_expr_arr :: json
  j_func_arr :: json

definition I2JSer_New :: I2JSer where
  "I2JSer_New = \<lparr>id_idx_map = Map.empty, func_id_idx_map = Map.empty, j_expr_arr = JNull, j_func_arr = JNull\<rparr>"

text \<open>An object with the given members, emplaced in order.\<close>

definition j_object :: "(string \<times> json) list \<Rightarrow> json" where
  "j_object kvs = JObj (fold (\<lambda>(k, v). amap_emplace k v) kvs [])"

text \<open>\<^verbatim>\<open>ExprTypeId\<close> of a node: variable, constant or operation.\<close>

definition GetUidExpr :: "expr \<Rightarrow> nat" where
  "GetUidExpr e = (if is_var e then 1 else if is_op e then 3 else 2)"

definition j_nat :: "nat \<Rightarrow> json" where
  "j_nat n = JNum (int n)"

definition SerSort :: "sort \<Rightarrow> json result" where
  "SerSort s =
     (let uid = (''u'', j_nat (sort_uid_num (sort_uid s))) in
      case sort_uid s of
        kBv \<Rightarrow> rbind (bit_width s) (\<lambda>w. Inr (j_object [uid, (''w'', JNum w)]))
      | kMem \<Rightarrow> rbind (addr_width s) (\<lambda>a. rbind (data_width s) (\<lambda>d. Inr (j_object [uid, (''a'', JNum a), (''d'', JNum d)])))
      | _ \<Rightarrow> rassert (is_bool s) (IlaAssert ''unknown sort'') (Inr (j_object [uid])))"

text \<open>The index map of functions is never filled, so a function is appended once per application.\<close>

definition SerFunc :: "Func \<Rightarrow> I2JSer \<Rightarrow> (json \<times> I2JSer) result" where
  "SerFunc f st = (case func_id_idx_map st (func_id f) of
       Some idx \<Rightarrow> rbind (j_index (j_func_arr st) idx) (\<lambda>j. Inr (j, st))
     | None \<Rightarrow>
         rbind (SerSort (func_out f)) (\<lambda>out.
         rbind (rmap SerSort (func_args f)) (\<lambda>args.
         let j_func = j_object [(''i'', j_nat (func_id f)), (''n'', JStr (func_name f)), (''o'', out), (''a'', JArr args)] in
         rbind (j_push_back j_func (j_func_arr st)) (\<lambda>arr.
         Inr (j_func, st\<lparr>j_func_arr := arr\<rparr>)))))"

definition SerConstVal :: "expr \<Rightarrow> json result" where
  "SerConstVal e =
     (if e_is_bool e then rbind (val_bool e) (\<lambda>b. Inr (j_object [(''v'', JBool b)]))
      else if e_is_bv e then rbind (val_bv e) (\<lambda>v. Inr (j_object [(''v'', j_nat (unat v))]))
      else rbind (val_mem e) (\<lambda>mv. Inr (j_object
        [(''d'', j_nat (unat (def_val mv))),
         (''m'', j_object (map (\<lambda>(a, d). (to_string (unat a), j_nat (unat d))) (val_map mv)))])))"

definition SerExprUnit :: "expr \<Rightarrow> I2JSer \<Rightarrow> (json \<times> I2JSer) result" where
  "SerExprUnit e st = (case id_idx_map st (eid e) of
       Some idx \<Rightarrow> rbind (j_index (j_expr_arr st) idx) (\<lambda>j. Inr (j, st))
     | None \<Rightarrow>
         let hd = [(''i'', j_nat (eid e)), (''u'', j_nat (GetUidExpr e))] in
         rbind (if GetUidExpr e = 1 then
                  rbind (SerSort (esort e)) (\<lambda>s. Inr (j_object (hd @ [(''s'', s), (''n'', JStr (ename e))]), st))
                else if GetUidExpr e = 2 then
                  rbind (SerSort (esort e)) (\<lambda>s. rbind (SerConstVal e) (\<lambda>v. Inr (j_object (hd @ [(''s'', s), (''v'', v)]), st)))
                else
                  rbind (GetUidExprOp e) (\<lambda>u.
                  let body = hd @ [(''o'', j_nat (op_uid_num u)), (''a'', JArr (map (\<lambda>a. j_nat (eid a)) (eargs e))),
                        (''p'', JArr (map JNum (eparams e)))] in
                  if u = kApplyFunc then
                    (case ekind e of
                       KApp f \<Rightarrow> rbind (SerFunc f st) (\<lambda>(j_func, st).
                         rbind (j_at j_func ''i'') (\<lambda>j. rbind (get_size j) (\<lambda>i. Inr (j_object (body @ [(''f'', j_nat i)]), st))))
                     | _ \<Rightarrow> Inl NullDeref)
                  else Inr (j_object body, st)))
           (\<lambda>(j_expr, st).
         rbind (j_push_back j_expr (j_expr_arr st)) (\<lambda>arr.
         Inr (j_expr, st\<lparr>id_idx_map := (id_idx_map st)(eid e \<mapsto> j_size (j_expr_arr st)), j_expr_arr := arr\<rparr>))))"

definition SerExpr :: "expr \<Rightarrow> I2JSer \<Rightarrow> (json \<times> I2JSer) result" where
  "SerExpr e st =
     rbind (DepthFirstVisit (\<lambda>x st. rbind (SerExprUnit x st) (\<lambda>(_, st). Inr st)) e st) (\<lambda>st.
     case id_idx_map st (eid e) of
       None \<Rightarrow> Inl (IlaAssert ''Fail Ser'')
     | Some idx \<Rightarrow> rbind (j_index (j_expr_arr st) idx) (\<lambda>j. Inr (j, st)))"

text \<open>Serialize an expression that must not be null and take its identifier from the object.\<close>

definition ser_id :: "expr option \<Rightarrow> I2JSer \<Rightarrow> (nat \<times> I2JSer) M" where
  "ser_id p st =
     bnd (not_null p) (\<lambda>e. bnd (lift (SerExpr e st)) (\<lambda>(j, st).
     bnd (lift (rbind (j_at j ''i'') get_size)) (\<lambda>i. ret (i, st))))"

definition ser_ids :: "expr list \<Rightarrow> I2JSer \<Rightarrow> (json \<times> I2JSer) M" where
  "ser_ids es st =
     bnd (foldM (\<lambda>e (js, st). bnd (ser_id (Some e) st) (\<lambda>(i, st). ret (js @ [j_nat i], st))) es ([], st)) (\<lambda>(js, st).
     ret (JArr js, st))"

definition ser_update :: "Instr \<Rightarrow> expr \<Rightarrow> (string, json) amap \<times> I2JSer \<Rightarrow> ((string, json) amap \<times> I2JSer) M" where
  "ser_update x state = (\<lambda>(j_update, st).
     let i_next = (case update_var x state of Some e \<Rightarrow> e | None \<Rightarrow> state) in
     bnd (ser_id (Some i_next) st) (\<lambda>(i, st). ret (amap_emplace (ename state) (j_nat i) j_update, st)))"

definition SerInstr :: "nat \<Rightarrow> I2JSer \<Rightarrow> (json \<times> I2JSer) M" where
  "SerInstr i st =
     bnd (get_instr i) (\<lambda>x.
     bnd (ser_id (instr_decode x) st) (\<lambda>(decode, st).
     bnd (deref (instr_host x)) (\<lambda>p. bnd (get_ila p) (\<lambda>host.
     bnd (foldM (ser_update x) (vec (ila_states host)) ([], st)) (\<lambda>(j_update, st).
     ret (j_object [(''n'', JStr (instr_name x)), (''d'', j_nat decode), (''u'', JObj j_update)], st))))))"

fun SerInstrLvlAbsNoAst_n :: "nat \<Rightarrow> nat \<Rightarrow> I2JSer \<Rightarrow> (json \<times> I2JSer) M" where
  "SerInstrLvlAbsNoAst_n 0 p st = lift (Inl Diverges)"
| "SerInstrLvlAbsNoAst_n (Suc n) p st =
     bnd (get_ila p) (\<lambda>m.
     bnd (ser_ids (vec (ila_inputs m)) st) (\<lambda>(j_inp_arr, st).
     bnd (ser_ids (vec (ila_states m)) st) (\<lambda>(j_state_arr, st).
     bnd (case ila_fetch m of None \<Rightarrow> ret ([], st)
          | Some e \<Rightarrow> bnd (ser_id (Some e) st) (\<lambda>(i, st). ret ([(''f'', j_nat i)], st))) (\<lambda>(j_fetch, st).
     bnd (ser_id (ila_valid m) st) (\<lambda>(valid, st).
     bnd (foldM (\<lambda>i (js, st). bnd (SerInstr i st) (\<lambda>(j, st). ret (js @ [j], st))) (vec (ila_instrs m)) ([], st)) (\<lambda>(j_instr_arr, st).
     bnd (ser_ids (ila_inits m) st) (\<lambda>(j_init_arr, st).
     bnd (foldM (\<lambda>c (js, st). bnd (SerInstrLvlAbsNoAst_n n c st) (\<lambda>(j, st). ret (js @ [j], st))) (vec (ila_childs m)) ([], st)) (\<lambda>(j_child_arr, st).
     ret (j_object ([(''n'', JStr (ila_name m)), (''i'', j_inp_arr), (''s'', j_state_arr)] @ j_fetch @
       [(''v'', j_nat valid), (''instr'', JArr j_instr_arr), (''init'', j_init_arr), (''c'', JArr j_child_arr)]), st)))))))))"

definition SerInstrLvlAbsNoAst :: "nat \<Rightarrow> I2JSer \<Rightarrow> (json \<times> I2JSer) M" where
  "SerInstrLvlAbsNoAst p st = (\<lambda>h. SerInstrLvlAbsNoAst_n (Suc (counter h - p)) p st h)"

definition SerInstrLvlAbs :: "nat option \<Rightarrow> I2JSer \<Rightarrow> (json \<times> I2JSer) M" where
  "SerInstrLvlAbs i_ila st =
     bnd (not_null i_ila) (\<lambda>p. bnd (SerInstrLvlAbsNoAst p st) (\<lambda>(j_top, st).
     ret (j_object [(''t'', j_top), (''a'', j_expr_arr st), (''f'', j_func_arr st)], st)))"

definition Serialize :: "nat option \<Rightarrow> json M" where
  "Serialize m = bnd (SerInstrLvlAbs m I2JSer_New) (\<lambda>(res, _). ret res)"

section \<open>Deserialization\<close>

record J2IDes =
  id_expr_map :: "nat \<rightharpoonup> expr"
  id_func_map :: "nat \<rightharpoonup> Func"
  ila_name_ptr_map :: "string \<rightharpoonup> nat"

definition J2IDes_New :: J2IDes where
  "J2IDes_New = \<lparr>id_expr_map = Map.empty, id_func_map = Map.empty, ila_name_ptr_map = Map.empty\<rparr>"

text \<open>Members of a JSON object with their conversion.\<close>

definition at_size :: "json \<Rightarrow> string \<Rightarrow> nat M" where
  "at_size j key = lift (rbind (j_at j key) get_size)"

definition at_int :: "json \<Rightarrow> string \<Rightarrow> int M" where
  "at_int j key = lift (rbind (j_at j key) get_int)"

definition at_str :: "json \<Rightarrow> string \<Rightarrow> string M" where
  "at_str j key = lift (rbind (j_at j key) get_str)"

text \<open>A null sort is passed on by the code and used later; the model stops where it is stored.\<close>

definition DesSort :: "json \<Rightarrow> sort option M" where
  "DesSort j_sort =
     bnd (at_size j_sort ''u'') (\<lambda>uid.
     if uid = sort_uid_num kBool then ret (Some MakeBoolSort)
     else if uid = sort_uid_num kBv then bnd (at_int j_sort ''w'') (\<lambda>w. ret (Some (MakeBvSort w)))
     else if uid = sort_uid_num kMem then
       bnd (at_int j_sort ''a'') (\<lambda>a. bnd (at_int j_sort ''d'') (\<lambda>d. ret (Some (MakeMemSort a d))))
     else ret None)"

text \<open>A null sort, which only a value that the serializer did not write has, is an error here; the code keeps it in the function
  and dereferences it when the function is applied.\<close>

definition DesFunc :: "json \<Rightarrow> J2IDes \<Rightarrow> (Func \<times> J2IDes) M" where
  "DesFunc j_func st =
     bnd (at_size j_func ''i'') (\<lambda>i. case id_func_map st i of
       Some f \<Rightarrow> ret (f, st)
     | None \<Rightarrow>
         bnd (at_str j_func ''n'') (\<lambda>name.
         bnd (lift (j_at j_func ''o'')) (\<lambda>j_out. bnd (DesSort j_out) (\<lambda>out.
         bnd (lift (j_at j_func ''a'')) (\<lambda>j_args. bnd (mapM DesSort (j_elems j_args)) (\<lambda>args.
         bnd (deref out) (\<lambda>out. bnd (mapM deref args) (\<lambda>args.
         bnd (Func_New name out args) (\<lambda>f.
         ret (f, st\<lparr>id_func_map := (id_func_map st)(i \<mapsto> f)\<rparr>))))))))))"

text \<open>A variable of the sort in the JSON object; a null pointer for an unknown sort.\<close>

definition DesExprState :: "json \<Rightarrow> string \<Rightarrow> nat \<Rightarrow> expr option M" where
  "DesExprState j_sort name i_host =
     bnd (at_size j_sort ''u'') (\<lambda>uid.
     if uid = sort_uid_num kBool then bnd (NewBoolState i_host name) (\<lambda>v. ret (Some v))
     else if uid = sort_uid_num kBv then bnd (at_int j_sort ''w'') (\<lambda>w. bnd (NewBvState i_host name w) (\<lambda>v. ret (Some v)))
     else if uid = sort_uid_num kMem then
       bnd (at_int j_sort ''a'') (\<lambda>a. bnd (at_int j_sort ''d'') (\<lambda>d. bnd (NewMemState i_host name a d) (\<lambda>v. ret (Some v))))
     else ret None)"

definition DesExprInput :: "json \<Rightarrow> string \<Rightarrow> nat \<Rightarrow> expr option M" where
  "DesExprInput j_sort name i_host =
     bnd (at_size j_sort ''u'') (\<lambda>uid.
     if uid = sort_uid_num kBool then bnd (NewBoolInput i_host name) (\<lambda>v. ret (Some v))
     else if uid = sort_uid_num kBv then bnd (at_int j_sort ''w'') (\<lambda>w. bnd (NewBvInput i_host name w) (\<lambda>v. ret (Some v)))
     else if uid = sort_uid_num kMem then
       bnd (at_int j_sort ''a'') (\<lambda>a. bnd (at_int j_sort ''d'') (\<lambda>d. bnd (NewMemInput i_host name a d) (\<lambda>v. ret (Some v))))
     else ret None)"

definition des_mem_map :: "(string \<times> json) list \<Rightarrow> (BvValType, BvValType) amap M" where
  "des_mem_map items =
     foldM (\<lambda>(addr_str, data) m. bnd (lift (get_bv data)) (\<lambda>d. ret (amap_assign (StrToULongLong addr_str 10) d m))) items []"

definition DesExprConst :: "json \<Rightarrow> json \<Rightarrow> expr option M" where
  "DesExprConst j_sort j_val =
     bnd (at_size j_sort ''u'') (\<lambda>uid.
     if uid = sort_uid_num kBool then
       bnd (lift (rbind (j_at j_val ''v'') get_bool)) (\<lambda>b. bnd (BoolConst b) (\<lambda>e. ret (Some e)))
     else if uid = sort_uid_num kBv then
       bnd (at_int j_sort ''w'') (\<lambda>w. bnd (lift (rbind (j_at j_val ''v'') get_bv)) (\<lambda>v. bnd (BvConst v w) (\<lambda>e. ret (Some e))))
     else if uid = sort_uid_num kMem then
       bnd (at_int j_sort ''a'') (\<lambda>a. bnd (at_int j_sort ''d'') (\<lambda>d.
       bnd (lift (rbind (j_at j_val ''d'') get_bv)) (\<lambda>default_value. bnd (lift (j_at j_val ''m'')) (\<lambda>j_value_map.
       bnd (des_mem_map (j_items j_value_map)) (\<lambda>i_value_map.
       bnd (MemConst_v (MemVal_with default_value i_value_map) a d) (\<lambda>e. ret (Some e)))))))
     else ret None)"

text \<open>Checked accesses to the vectors of arguments and parameters.\<close>

definition at1 :: "expr list \<Rightarrow> (expr \<Rightarrow> expr M) \<Rightarrow> expr option M" where
  "at1 args f = (case args of a # _ \<Rightarrow> bnd (f a) (\<lambda>e. ret (Some e)) | _ \<Rightarrow> lift (Inl OutOfRange))"

definition at2 :: "expr list \<Rightarrow> (expr \<Rightarrow> expr \<Rightarrow> expr M) \<Rightarrow> expr option M" where
  "at2 args f = (case args of a # b # _ \<Rightarrow> bnd (f a b) (\<lambda>e. ret (Some e)) | _ \<Rightarrow> lift (Inl OutOfRange))"

definition at3 :: "expr list \<Rightarrow> (expr \<Rightarrow> expr \<Rightarrow> expr \<Rightarrow> expr M) \<Rightarrow> expr option M" where
  "at3 args f = (case args of a # b # c # _ \<Rightarrow> bnd (f a b c) (\<lambda>e. ret (Some e)) | _ \<Rightarrow> lift (Inl OutOfRange))"

definition param_at :: "int list \<Rightarrow> nat \<Rightarrow> int M" where
  "param_at params i = lift (if i < length params then Inr (params ! i) else Inl OutOfRange)"

text \<open>The constructor that the identifier of the operation selects.\<close>

definition des_op :: "AstUidExprOp \<Rightarrow> expr list \<Rightarrow> int list \<Rightarrow> expr option M" where
  "des_op u args params = (case u of
       kNegate \<Rightarrow> at1 args Negate
     | kNot \<Rightarrow> at1 args NotE
     | kComplement \<Rightarrow> at1 args Complement
     | kAnd \<Rightarrow> at2 args AndE
     | kOr \<Rightarrow> at2 args OrE
     | kXor \<Rightarrow> at2 args XorE
     | kShiftLeft \<Rightarrow> at2 args Shl
     | kArithShiftRight \<Rightarrow> at2 args Ashr
     | kLogicShiftRight \<Rightarrow> at2 args Lshr
     | kAdd \<Rightarrow> at2 args Add
     | kSubtract \<Rightarrow> at2 args Sub
     | kDivide \<Rightarrow> at2 args Div
     | kSignedRemainder \<Rightarrow> at2 args SRem
     | kUnsignedRemainder \<Rightarrow> at2 args URem
     | kSignedModular \<Rightarrow> at2 args SMod
     | kMultiply \<Rightarrow> at2 args Mul
     | kEqual \<Rightarrow> at2 args EqE
     | kLessThan \<Rightarrow> at2 args Lt
     | kGreaterThan \<Rightarrow> at2 args Gt
     | kUnsignedLessThan \<Rightarrow> at2 args Ult
     | kUnsignedGreaterThan \<Rightarrow> at2 args Ugt
     | kLoad \<Rightarrow> at2 args Load
     | kStore \<Rightarrow> at3 args Store
     | kConcatenate \<Rightarrow> at2 args Concat
     | kExtract \<Rightarrow> at1 args (\<lambda>a. bnd (param_at params 0) (\<lambda>p0. bnd (param_at params 1) (Extract a p0)))
     | kZeroExtend \<Rightarrow> at1 args (\<lambda>a. bnd (param_at params 0) (ZExt a))
     | kSignedExtend \<Rightarrow> at1 args (\<lambda>a. bnd (param_at params 0) (SExt a))
     | kRotateLeft \<Rightarrow> at1 args (\<lambda>a. bnd (param_at params 0) (LRotate a))
     | kRotateRight \<Rightarrow> at1 args (\<lambda>a. bnd (param_at params 0) (RRotate a))
     | kImply \<Rightarrow> at2 args Imply
     | kIfThenElse \<Rightarrow> at3 args Ite
     | kApplyFunc \<Rightarrow> ret None
     | kInvalid \<Rightarrow> ret None)"

definition des_arg :: "J2IDes \<Rightarrow> json \<Rightarrow> expr M" where
  "des_arg st j =
     bnd (lift (get_size j)) (\<lambda>i. lift (case id_expr_map st i of None \<Rightarrow> Inl (IlaAssert ''Missing arg'') | Some a \<Rightarrow> Inr a))"

text \<open>The identifier is passed on as a 32-bit number.\<close>

definition DesExprOp :: "J2IDes \<Rightarrow> nat \<Rightarrow> json \<Rightarrow> json \<Rightarrow> expr option M" where
  "DesExprOp st uid j_arg_arr j_param_arr =
     bnd (mapM (des_arg st) (j_elems j_arg_arr)) (\<lambda>args.
     bnd (mapM (\<lambda>j. lift (get_int j)) (j_elems j_param_arr)) (\<lambda>params.
     let op = uid mod 2 ^ 32 in if op < length op_uids then des_op (op_uids ! op) args params else ret None))"

definition DesExprOpAppFunc :: "J2IDes \<Rightarrow> json \<Rightarrow> json \<Rightarrow> expr M" where
  "DesExprOpAppFunc st j_func j_arg_arr =
     bnd (lift (get_size j_func)) (\<lambda>i.
     bnd (lift (case id_func_map st i of None \<Rightarrow> Inl (IlaAssert ''func'') | Some f \<Rightarrow> Inr f)) (\<lambda>f.
     bnd (mapM (des_arg st) (j_elems j_arg_arr)) (AppFunc f)))"

definition DesExpr :: "json \<Rightarrow> J2IDes \<Rightarrow> (expr \<times> J2IDes) M" where
  "DesExpr j_expr st =
     bnd (at_size j_expr ''i'') (\<lambda>i. case id_expr_map st i of
       Some e \<Rightarrow> ret (e, st)
     | None \<Rightarrow>
         bnd (at_size j_expr ''u'') (\<lambda>uid.
         bnd (if uid = 1 then bnd (lift (j_at j_expr ''n'')) (\<lambda>_. ret None)
              else if uid = 2 then
                bnd (lift (j_at j_expr ''s'')) (\<lambda>sort. bnd (lift (j_at j_expr ''v'')) (\<lambda>val. DesExprConst sort val))
              else if uid = 3 then
                bnd (at_size j_expr ''o'') (\<lambda>op.
                if op = op_uid_num kApplyFunc then
                  bnd (lift (j_at j_expr ''f'')) (\<lambda>j_func. bnd (lift (j_at j_expr ''a'')) (\<lambda>j_args.
                  bnd (DesExprOpAppFunc st j_func j_args) (\<lambda>e. ret (Some e))))
                else
                  bnd (lift (j_at j_expr ''a'')) (\<lambda>j_args. bnd (lift (j_at j_expr ''p'')) (\<lambda>j_params.
                  DesExprOp st op j_args j_params)))
              else ret None) (\<lambda>i_expr.
         bnd (not_null i_expr) (\<lambda>e.
         ret (e, st\<lparr>id_expr_map := (id_expr_map st)(i \<mapsto> e)\<rparr>)))))"

text \<open>One node of the list: a variable that the ILA registers and that is not there yet.\<close>

definition des_var :: "nat \<Rightarrow> nat list \<Rightarrow> nat list \<Rightarrow> json \<Rightarrow> J2IDes \<Rightarrow> J2IDes M" where
  "des_var i_ila input_ids state_ids j_expr st =
     bnd (at_size j_expr ''i'') (\<lambda>i.
     if id_expr_map st i \<noteq> None then ret st else
     bnd (at_size j_expr ''u'') (\<lambda>uid.
     if uid = 1 then
       bnd (at_str j_expr ''n'') (\<lambda>name. bnd (lift (j_at j_expr ''s'')) (\<lambda>sort.
       if i \<in> set state_ids \<or> i \<in> set input_ids then
         bnd (if i \<in> set state_ids then DesExprState sort name i_ila else DesExprInput sort name i_ila) (\<lambda>v.
         bnd (not_null v) (\<lambda>e. ret (st\<lparr>id_expr_map := (id_expr_map st)(i \<mapsto> e)\<rparr>)))
       else ret st))
     else ret st))"

definition DesVarUnit :: "json \<Rightarrow> json \<Rightarrow> nat option \<Rightarrow> J2IDes \<Rightarrow> J2IDes M" where
  "DesVarUnit j_ila j_ast_list i_parent st =
     bnd (at_str j_ila ''n'') (\<lambda>name.
     bnd (ila_check (ila_name_ptr_map st name = None) name) (\<lambda>_.
     bnd (case i_parent of Some q \<Rightarrow> NewChild q name | None \<Rightarrow> InstrLvlAbs_New name None) (\<lambda>i_ila.
     let st = st\<lparr>ila_name_ptr_map := (ila_name_ptr_map st)(name \<mapsto> i_ila)\<rparr> in
     bnd (lift (j_at j_ila ''i'')) (\<lambda>j_input_arr. bnd (mapM (\<lambda>j. lift (get_size j)) (j_elems j_input_arr)) (\<lambda>input_ids.
     bnd (lift (j_at j_ila ''s'')) (\<lambda>j_state_arr. bnd (mapM (\<lambda>j. lift (get_size j)) (j_elems j_state_arr)) (\<lambda>state_ids.
     foldM (des_var i_ila input_ids state_ids) (j_elems j_ast_list) st)))))))"

definition ila_named :: "J2IDes \<Rightarrow> string \<Rightarrow> nat M" where
  "ila_named st name = lift (case ila_name_ptr_map st name of None \<Rightarrow> Inl (IlaAssert name) | Some p \<Rightarrow> Inr p)"

fun DesVarHier_n :: "nat \<Rightarrow> json \<Rightarrow> json \<Rightarrow> nat option \<Rightarrow> J2IDes \<Rightarrow> J2IDes M" where
  "DesVarHier_n 0 j_ila j_ast_list i_parent st = lift (Inl Diverges)"
| "DesVarHier_n (Suc n) j_ila j_ast_list i_parent st =
     bnd (DesVarUnit j_ila j_ast_list i_parent st) (\<lambda>st.
     bnd (at_str j_ila ''n'') (\<lambda>name. bnd (ila_named st name) (\<lambda>i_ila.
     bnd (lift (j_at j_ila ''c'')) (\<lambda>j_child_arr.
     foldM (\<lambda>j_child st. DesVarHier_n n j_child j_ast_list (Some i_ila) st) (j_elems j_child_arr) st))))"

text \<open>The children are nested in the value, so its size bounds the depth.\<close>

definition DesVarHier :: "json \<Rightarrow> json \<Rightarrow> nat option \<Rightarrow> J2IDes \<Rightarrow> J2IDes M" where
  "DesVarHier j_ila = DesVarHier_n (Suc (size j_ila)) j_ila"

definition expr_with :: "J2IDes \<Rightarrow> nat \<Rightarrow> string \<Rightarrow> expr M" where
  "expr_with st i msg = lift (case id_expr_map st i of None \<Rightarrow> Inl (IlaAssert msg) | Some e \<Rightarrow> Inr e)"

definition des_update :: "J2IDes \<Rightarrow> nat \<Rightarrow> json \<Rightarrow> expr \<Rightarrow> unit M" where
  "des_update st i upd state =
     (case j_find upd (ename state) of
        None \<Rightarrow> lift (Inl (IlaAssert ''No ID''))
      | Some j \<Rightarrow> bnd (lift (get_size j)) (\<lambda>next_id. bnd (expr_with st next_id ''No next'') (\<lambda>e. set_update_var i state e)))"

definition DesInstr :: "J2IDes \<Rightarrow> json \<Rightarrow> nat \<Rightarrow> nat M" where
  "DesInstr st j_instr i_host =
     bnd (at_str j_instr ''n'') (\<lambda>name. bnd (NewInstr i_host name) (\<lambda>i.
     bnd (at_size j_instr ''d'') (\<lambda>decode_id. bnd (expr_with st decode_id ''No decode'') (\<lambda>d.
     bnd (set_decode i (Some d)) (\<lambda>_.
     bnd (lift (j_at j_instr ''u'')) (\<lambda>upd. bnd (get_ila i_host) (\<lambda>m.
     bnd (iterM (des_update st i upd) (vec (ila_states m))) (\<lambda>_. ret i))))))))"

text \<open>A missing or malformed identifier throws and the default is set; an identifier that is not in the map is only
  reported and the end iterator is dereferenced.\<close>

definition des_or_default :: "J2IDes \<Rightarrow> json \<Rightarrow> string \<Rightarrow> (expr option \<Rightarrow> unit M) \<Rightarrow> expr M \<Rightarrow> unit M" where
  "des_or_default st j_ila key setter def = (case rbind (j_at j_ila key) get_size of
       Inl _ \<Rightarrow> bnd def (\<lambda>e. setter (Some e))
     | Inr i \<Rightarrow> bnd (deref (id_expr_map st i)) (\<lambda>e. setter (Some e)))"

definition DesIlaUnit :: "json \<Rightarrow> J2IDes \<Rightarrow> unit M" where
  "DesIlaUnit j_ila st =
     bnd (at_str j_ila ''n'') (\<lambda>name. bnd (ila_named st name) (\<lambda>m.
     bnd (des_or_default st j_ila ''f'' (SetFetch m) (BvConst 1 1)) (\<lambda>_.
     bnd (des_or_default st j_ila ''v'' (SetValid m) (BoolConst True)) (\<lambda>_.
     bnd (lift (j_at j_ila ''instr'')) (\<lambda>j_instr_arr.
     bnd (iterM (\<lambda>j. bnd (DesInstr st j m) (\<lambda>_. ret ())) (j_elems j_instr_arr)) (\<lambda>_.
     bnd (lift (j_at j_ila ''init'')) (\<lambda>j_init_arr.
     iterM (\<lambda>j. bnd (lift (get_size j)) (\<lambda>i. bnd (expr_with st i ''Init not found'') (\<lambda>e. AddInit m (Some e)))) (j_elems j_init_arr))))))))"

fun DesIlaHier_n :: "nat \<Rightarrow> json \<Rightarrow> J2IDes \<Rightarrow> unit M" where
  "DesIlaHier_n 0 j_ila st = lift (Inl Diverges)"
| "DesIlaHier_n (Suc n) j_ila st =
     bnd (DesIlaUnit j_ila st) (\<lambda>_.
     bnd (lift (j_at j_ila ''c'')) (\<lambda>j_child_arr.
     iterM (\<lambda>j_child. DesIlaHier_n n j_child st) (j_elems j_child_arr)))"

definition DesIlaHier :: "json \<Rightarrow> J2IDes \<Rightarrow> unit M" where
  "DesIlaHier j_ila = DesIlaHier_n (Suc (size j_ila)) j_ila"

definition DesInstrLvlAbs :: "json \<Rightarrow> J2IDes \<Rightarrow> nat M" where
  "DesInstrLvlAbs j_global st =
     bnd (lift (j_at j_global ''a'')) (\<lambda>j_expr_arr. bnd (lift (j_at j_global ''f'')) (\<lambda>j_func_arr.
     bnd (lift (j_at j_global ''t'')) (\<lambda>j_top.
     bnd (DesVarHier j_top j_expr_arr None st) (\<lambda>st.
     bnd (foldM (\<lambda>j st. bnd (DesFunc j st) (\<lambda>(_, st). ret st)) (j_elems j_func_arr) st) (\<lambda>st.
     bnd (foldM (\<lambda>j st. bnd (DesExpr j st) (\<lambda>(_, st). ret st)) (j_elems j_expr_arr) st) (\<lambda>st.
     bnd (DesIlaHier j_top st) (\<lambda>_.
     bnd (at_str j_top ''n'') (ila_named st))))))))"

definition Deserialize :: "json \<Rightarrow> nat M" where
  "Deserialize j = DesInstrLvlAbs j J2IDes_New"

end
