(* ===== verification/JsonSer.thy ===== *)
theory JsonSer
  imports JsonTarget AbsKnob
begin

text \<open>
  What the serializer writes: a list of nodes in which arguments come before the nodes that use them, with distinct
  identifiers, and for every ILA an object that refers to them.
\<close>

section \<open>Lists and objects\<close>

definition j_list :: "json list \<Rightarrow> json" where
  "j_list xs = (if xs = [] then JNull else JArr xs)"

lemma j_list_ops [simp]:
  "j_push_back v (j_list xs) = Inr (j_list (xs @ [v]))" "j_size (j_list xs) = length xs"
  "i < length xs \<Longrightarrow> j_index (j_list xs) i = Inr (xs ! i)" "j_elems (j_list xs) = xs" "j_elems (JArr xs) = xs"
  by (auto simp: j_list_def j_push_back_def j_size_def j_index_def j_elems_def)

lemma fold_emplace:
  assumes "amap_ok m"
  shows "map_of (fold (\<lambda>(k, v). amap_emplace k v) kvs m) k = (case map_of m k of Some v \<Rightarrow> Some v | None \<Rightarrow> map_of kvs k)"
  using assms
proof (induction kvs arbitrary: m)
  case (Cons kv kvs)
  then show ?case by (cases kv) (auto simp: map_of_emplace split: option.splits)
qed (simp split: option.splits)

lemma at_object [simp]: "j_at (j_object kvs) k = (case map_of kvs k of None \<Rightarrow> Inl LibException | Some v \<Rightarrow> Inr v)"
  by (simp add: j_at_def j_object_def fold_emplace)

lemma get_nat [simp]: "n < 2 ^ 64 \<Longrightarrow> get_size (j_nat n) = Inr n"
  by (simp add: get_size_def j_nat_def unat_of_nat take_bit_nat_eq_self)

section \<open>Nodes\<close>

text \<open>The JSON values of sorts, functions and nodes as functions of what is serialized.\<close>

definition sort_json :: "sort \<Rightarrow> json" where
  "sort_json s = j_object ((''u'', j_nat (sort_uid_num (sort_uid s))) # (case s of
       SortBv w \<Rightarrow> [(''w'', JNum w)] | SortMem a d \<Rightarrow> [(''a'', JNum a), (''d'', JNum d)] | _ \<Rightarrow> []))"

definition func_json :: "Func \<Rightarrow> json" where
  "func_json f = j_object [(''i'', j_nat (func_id f)), (''n'', JStr (func_name f)), (''o'', sort_json (func_out f)),
     (''a'', JArr (map sort_json (func_args f)))]"

definition val_json :: "Value \<Rightarrow> json" where
  "val_json v = (case v of
       BoolVal b \<Rightarrow> j_object [(''v'', JBool b)]
     | BvVal x \<Rightarrow> j_object [(''v'', j_nat (unat x))]
     | MemV mv \<Rightarrow> j_object [(''d'', j_nat (unat (def_val mv))),
         (''m'', j_object (map (\<lambda>(a, d). (to_string (unat a), j_nat (unat d))) (val_map mv)))])"

definition op_members :: "expr \<Rightarrow> AstUidExprOp \<Rightarrow> (string \<times> json) list" where
  "op_members e u = [(''o'', j_nat (op_uid_num u)), (''a'', JArr (map (\<lambda>a. j_nat (eid a)) (eargs e))),
     (''p'', JArr (map JNum (eparams e)))]"

definition node_members :: "expr \<Rightarrow> (string \<times> json) list" where
  "node_members e = (case ekind e of
       KVar \<Rightarrow> [(''s'', sort_json (esort e)), (''n'', JStr (ename e))]
     | KConst v \<Rightarrow> [(''s'', sort_json (esort e)), (''v'', val_json v)]
     | KOp u \<Rightarrow> op_members e u
     | KApp f \<Rightarrow> op_members e kApplyFunc @ [(''f'', j_nat (func_id f))])"

definition node_json :: "expr \<Rightarrow> json" where
  "node_json e = j_object ([(''i'', j_nat (eid e)), (''u'', j_nat (GetUidExpr e))] @ node_members e)"

lemma SerSort_run: "prim_sort s \<Longrightarrow> SerSort s = Inr (sort_json s)"
  by (cases s) (simp_all add: SerSort_def sort_json_def prim_sort_def)

lemma SerConstVal_run: "node_ok e \<Longrightarrow> ekind e = KConst v \<Longrightarrow> SerConstVal e = Inr (val_json v)"
  by (cases "esort e"; cases v) (simp_all add: SerConstVal_def val_json_def node_ok_def val_bool_def val_bv_def val_mem_def)

text \<open>A set of nodes that can be written: coherent, and identifiers fit into \<^verbatim>\<open>size_t\<close>.\<close>

definition funs :: "expr set \<Rightarrow> Func set" where
  "funs S = {f. \<exists>e \<in> S. ekind e = KApp f}"

definition writable :: "expr set \<Rightarrow> bool" where
  "writable S = (coherent S \<and> (\<forall>e \<in> S. eid e < 2 ^ 64) \<and>
     (\<forall>f \<in> funs S. func_id f < 2 ^ 64 \<and> prim_sort (func_out f) \<and> list_all prim_sort (func_args f)))"

text \<open>The state of the serializer for a list of nodes and a list of functions.\<close>

definition closed :: "expr list \<Rightarrow> bool" where
  "closed es = (\<forall>i < length es. set (eargs (es ! i)) \<subseteq> set (take i es))"

definition ser_inv :: "expr set \<Rightarrow> I2JSer \<Rightarrow> expr list \<Rightarrow> Func list \<Rightarrow> bool" where
  "ser_inv S st es fs =
     (j_expr_arr st = j_list (map node_json es) \<and> j_func_arr st = j_list (map func_json fs) \<and>
      func_id_idx_map st = Map.empty \<and> (\<forall>i k. id_idx_map st i = Some k \<longleftrightarrow> k < length es \<and> eid (es ! k) = i) \<and>
      set es \<subseteq> S \<and> distinct es \<and> closed es \<and> set fs \<subseteq> funs S \<and> funs (set es) \<subseteq> set fs)"

lemma rmap_sorts: "list_all prim_sort ss \<Longrightarrow> rmap SerSort ss = Inr (map sort_json ss)"
  by (induction ss) (auto simp: SerSort_run)

lemma SerFunc_run:
  assumes "ser_inv S st es fs" "writable S" "f \<in> funs S"
  shows "SerFunc f st = Inr (func_json f, st\<lparr>j_func_arr := j_list (map func_json (fs @ [f]))\<rparr>)"
    and "ser_inv S (st\<lparr>j_func_arr := j_list (map func_json (fs @ [f]))\<rparr>) es (fs @ [f])"
proof -
  have "prim_sort (func_out f)" "list_all prim_sort (func_args f)" using assms(2,3) by (auto simp: writable_def)
  then show "SerFunc f st = Inr (func_json f, st\<lparr>j_func_arr := j_list (map func_json (fs @ [f]))\<rparr>)"
    using assms(1) by (simp add: SerFunc_def ser_inv_def SerSort_run rmap_sorts Let_def flip: func_json_def)
  show "ser_inv S (st\<lparr>j_func_arr := j_list (map func_json (fs @ [f]))\<rparr>) es (fs @ [f])"
    using assms(1,3) by (auto simp: ser_inv_def)
qed

lemma closed_snoc: "closed es \<Longrightarrow> set (eargs e) \<subseteq> set es \<Longrightarrow> closed (es @ [e])"
  by (auto simp: closed_def nth_append less_Suc_eq)

lemma ser_inv_snoc:
  assumes inv: "ser_inv S st es fs" and e: "e \<in> S" "e \<notin> set es" "set (eargs e) \<subseteq> set es" "funs {e} \<subseteq> set fs" and S: "writable S"
  shows "ser_inv S (st\<lparr>id_idx_map := (id_idx_map st)(eid e \<mapsto> length es), j_expr_arr := j_list (map node_json (es @ [e]))\<rparr>) (es @ [e]) fs"
proof -
  have "eid (es ! k) \<noteq> eid e" if "k < length es" for k
  proof -
    have "es ! k \<in> S" "es ! k \<noteq> e" using inv e(2) that nth_mem [OF that] by (auto simp: ser_inv_def)
    then show ?thesis using S e(1) by (auto simp: writable_def coherent_def inj_on_def)
  qed
  then show ?thesis
    using inv e closed_snoc by (auto simp: ser_inv_def nth_append less_Suc_eq funs_def)
qed

text \<open>One node: it is appended unless it is there.\<close>

definition add_node :: "expr \<Rightarrow> expr list \<Rightarrow> expr list" where
  "add_node e es = (if e \<in> set es then es else es @ [e])"

lemma SerExprUnit_old:
  assumes inv: "ser_inv S st es fs" and e: "e \<in> set es"
  shows "SerExprUnit e st = Inr (node_json e, st)"
    "\<exists>k. id_idx_map st (eid e) = Some k \<and> j_index (j_expr_arr st) k = Inr (node_json e)"
proof -
  obtain k where k: "k < length es" "es ! k = e" using e by (auto simp: in_set_conv_nth)
  then have "id_idx_map st (eid e) = Some k" "j_index (j_expr_arr st) k = Inr (node_json e)"
    using inv by (auto simp: ser_inv_def)
  then show "SerExprUnit e st = Inr (node_json e, st)"
    "\<exists>k. id_idx_map st (eid e) = Some k \<and> j_index (j_expr_arr st) k = Inr (node_json e)"
    by (auto simp: SerExprUnit_def)
qed

lemma SerExprUnit_new:
  assumes inv: "ser_inv S st es fs" and S: "writable S" and e: "e \<in> S" "e \<notin> set es" "set (eargs e) \<subseteq> set es"
  shows "\<exists>st' fs'. SerExprUnit e st = Inr (node_json e, st') \<and> ser_inv S st' (es @ [e]) fs'"
proof -
  have ok: "node_ok e" using S e(1) by (simp add: writable_def coherent_def)
  have prim: "prim_sort (esort e)" using ok by (simp add: node_ok_def)
  have no: "id_idx_map st (eid e) = None"
  proof (rule ccontr)
    assume "id_idx_map st (eid e) \<noteq> None"
    then obtain k where k: "k < length es" "eid (es ! k) = eid e" using inv unfolding ser_inv_def by blast
    then have "es ! k \<in> set es" by simp
    moreover have "set es \<subseteq> S" using inv by (simp add: ser_inv_def)
    ultimately show False using S e k(2) unfolding writable_def coherent_def inj_on_def by blast
  qed
  have arr: "j_expr_arr st = j_list (map node_json es)" using inv by (simp add: ser_inv_def)
  show ?thesis
  proof (cases "ekind e")
    case (KApp f)
    have f: "f \<in> funs S" using KApp e(1) by (auto simp: funs_def)
    then have i: "func_id f < 2 ^ 64" using S by (simp add: writable_def)
    let ?st = "st\<lparr>j_func_arr := j_list (map func_json (fs @ [f]))\<rparr>"
    have "ser_inv S (?st\<lparr>id_idx_map := (id_idx_map ?st)(eid e \<mapsto> length es), j_expr_arr := j_list (map node_json (es @ [e]))\<rparr>) (es @ [e]) (fs @ [f])"
      by (rule ser_inv_snoc [OF SerFunc_run(2) [OF inv S f] e _ S]) (auto simp: funs_def KApp)
    moreover have "j_at (func_json f) ''i'' = Inr (j_nat (func_id f))" by (simp add: func_json_def)
    ultimately show ?thesis
      using SerFunc_run(1) [OF inv S f] KApp no arr i
      by (intro exI [of _ "?st\<lparr>id_idx_map := (id_idx_map ?st)(eid e \<mapsto> length es), j_expr_arr := j_list (map node_json (es @ [e]))\<rparr>"] exI [of _ "fs @ [f]"])
        (simp add: SerExprUnit_def GetUidExpr_def GetUidExprOp_def node_json_def node_members_def op_members_def Let_def)
  next
    case KVar
    show ?thesis
      using KVar no arr prim ser_inv_snoc [OF inv e _ S]
      by (intro exI [of _ "st\<lparr>id_idx_map := (id_idx_map st)(eid e \<mapsto> length es), j_expr_arr := j_list (map node_json (es @ [e]))\<rparr>"] exI [of _ fs])
        (simp add: SerExprUnit_def GetUidExpr_def node_json_def node_members_def Let_def SerSort_run funs_def)
  next
    case (KConst v)
    show ?thesis
      using KConst no arr prim ser_inv_snoc [OF inv e _ S] SerConstVal_run [OF ok KConst]
      by (intro exI [of _ "st\<lparr>id_idx_map := (id_idx_map st)(eid e \<mapsto> length es), j_expr_arr := j_list (map node_json (es @ [e]))\<rparr>"] exI [of _ fs])
        (simp add: SerExprUnit_def GetUidExpr_def node_json_def node_members_def Let_def SerSort_run funs_def)
  next
    case (KOp u)
    have "u \<noteq> kApplyFunc" using ok KOp by (simp add: node_ok_def)
    then show ?thesis
      using KOp no arr ser_inv_snoc [OF inv e _ S]
      by (intro exI [of _ "st\<lparr>id_idx_map := (id_idx_map st)(eid e \<mapsto> length es), j_expr_arr := j_list (map node_json (es @ [e]))\<rparr>"] exI [of _ fs])
        (simp add: SerExprUnit_def GetUidExpr_def GetUidExprOp_def node_json_def node_members_def op_members_def Let_def funs_def)
  qed
qed

lemma SerExprUnit_run:
  assumes "ser_inv S st es fs" "writable S" "e \<in> S" "set (eargs e) \<subseteq> set es"
  shows "\<exists>st' fs'. SerExprUnit e st = Inr (node_json e, st') \<and> ser_inv S st' (add_node e es) fs'"
  using SerExprUnit_old(1) [OF assms(1)] SerExprUnit_new [OF assms(1-3) _ assms(4)] assms(1)
  by (cases "e \<in> set es") (auto simp: add_node_def)

section \<open>Expressions\<close>

abbreviation ser_node :: "expr \<Rightarrow> I2JSer \<Rightarrow> I2JSer result" where
  "ser_node \<equiv> \<lambda>x st. rbind (SerExprUnit x st) (\<lambda>(_, st). Inr st)"

lemma set_add_node: "set (add_node e es) = insert e (set es)"
  by (auto simp: add_node_def)

lemma ser_visits:
  assumes "\<And>a st es fs. a \<in> set as \<Longrightarrow> ser_inv S st es fs \<Longrightarrow>
      \<exists>st' es' fs'. DepthFirstVisit ser_node a st = Inr st' \<and> ser_inv S st' es' fs' \<and> set es' = set es \<union> subexprs a"
    and "ser_inv S st es fs"
  shows "\<exists>st' es' fs'. visit_args ser_node as st = Inr st' \<and> ser_inv S st' es' fs' \<and> set es' = set es \<union> (\<Union>a \<in> set as. subexprs a)"
  using assms
proof (induction as arbitrary: st es fs)
  case (Cons a as)
  obtain st1 es1 fs1 where 1: "DepthFirstVisit ser_node a st = Inr st1" "ser_inv S st1 es1 fs1" "set es1 = set es \<union> subexprs a"
    using Cons.prems(1) [of a, OF _ Cons.prems(2)] by auto
  have "\<exists>st2 es2 fs2. visit_args ser_node as st1 = Inr st2 \<and> ser_inv S st2 es2 fs2 \<and> set es2 = set es1 \<union> (\<Union>a \<in> set as. subexprs a)"
    by (rule Cons.IH [OF Cons.prems(1) 1(2)]) simp_all
  then obtain st2 es2 fs2 where 2: "visit_args ser_node as st1 = Inr st2" "ser_inv S st2 es2 fs2"
    "set es2 = set es1 \<union> (\<Union>a \<in> set as. subexprs a)" by blast
  show ?case using 1 2 by (intro exI [of _ st2] exI [of _ es2] exI [of _ fs2]) auto
qed auto

lemma ser_visit:
  assumes S: "writable S"
  shows "e \<in> S \<Longrightarrow> ser_inv S st es fs \<Longrightarrow>
      \<exists>st' es' fs'. DepthFirstVisit ser_node e st = Inr st' \<and> ser_inv S st' es' fs' \<and> set es' = set es \<union> subexprs e"
proof (induction e arbitrary: st es fs)
  case (Expr i n s h ps as k)
  let ?e = "Expr i n s h ps as k"
  have "set as \<subseteq> S" using S Expr.prems(1) by (force simp: writable_def coherent_def)
  then have "\<exists>st1 es1 fs1. visit_args ser_node as st = Inr st1 \<and> ser_inv S st1 es1 fs1 \<and> set es1 = set es \<union> (\<Union>a \<in> set as. subexprs a)"
    by (intro ser_visits [OF Expr.IH Expr.prems(2)]) auto
  then obtain st1 es1 fs1 where 1: "visit_args ser_node as st = Inr st1" "ser_inv S st1 es1 fs1"
    "set es1 = set es \<union> (\<Union>a \<in> set as. subexprs a)" by blast
  have "a \<in> subexprs a" for a by (cases a) simp
  then have "set (eargs ?e) \<subseteq> set es1" using 1(3) by auto
  from SerExprUnit_run [OF 1(2) S Expr.prems(1) this] obtain st2 fs2 where
    "SerExprUnit ?e st1 = Inr (node_json ?e, st2)" "ser_inv S st2 (add_node ?e es1) fs2" by blast
  then show ?case using 1 by (intro exI [of _ st2] exI [of _ "add_node ?e es1"] exI [of _ fs2]) (simp add: set_add_node)
qed

lemma SerExpr_run:
  assumes "writable S" "e \<in> S" "ser_inv S st es fs"
  shows "\<exists>st' es' fs'. SerExpr e st = Inr (node_json e, st') \<and> ser_inv S st' es' fs' \<and> set es' = set es \<union> subexprs e"
proof -
  obtain st1 es1 fs1 where 1: "DepthFirstVisit ser_node e st = Inr st1" "ser_inv S st1 es1 fs1" "set es1 = set es \<union> subexprs e"
    using ser_visit(1) [OF assms] by blast
  have "e \<in> set es1" using 1(3) by (cases e) auto
  from SerExprUnit_old(2) [OF 1(2) this] show ?thesis using 1 by (intro exI [of _ st1] exI [of _ es1] exI [of _ fs1]) (auto simp: SerExpr_def)
qed

text \<open>\<open>sers S h m r X\<close>: from every state of the serializer, \<open>m\<close> returns \<open>r\<close>, leaves the heap alone and writes the nodes \<open>X\<close>.\<close>

definition sers :: "expr set \<Rightarrow> heap \<Rightarrow> (I2JSer \<Rightarrow> ('a \<times> I2JSer) M) \<Rightarrow> 'a \<Rightarrow> expr set \<Rightarrow> bool" where
  "sers S h m r X = (\<forall>st es fs. ser_inv S st es fs \<longrightarrow>
     (\<exists>st' es' fs'. m st h = Inr ((r, st'), h) \<and> ser_inv S st' es' fs' \<and> set es' = set es \<union> X))"

lemma sers_ret: "sers S h (\<lambda>st. ret (r, st)) r {}"
  by (auto simp: sers_def)

lemma sers_bnd:
  assumes "sers S h m r X" "sers S h (f r) r' Y"
  shows "sers S h (\<lambda>st. bnd (m st) (\<lambda>(a, st). f a st)) r' (X \<union> Y)"
  unfolding sers_def
proof (intro allI impI)
  fix st es fs assume "ser_inv S st es fs"
  with assms(1) obtain st1 es1 fs1 where 1: "m st h = Inr ((r, st1), h)" "ser_inv S st1 es1 fs1" "set es1 = set es \<union> X"
    unfolding sers_def by blast
  with assms(2) obtain st2 es2 fs2 where "f r st1 h = Inr ((r', st2), h)" "ser_inv S st2 es2 fs2" "set es2 = set es1 \<union> Y"
    unfolding sers_def by blast
  with 1 show "\<exists>st' es' fs'. bnd (m st) (\<lambda>(a, st). f a st) h = Inr ((r', st'), h) \<and> ser_inv S st' es' fs' \<and> set es' = set es \<union> (X \<union> Y)"
    by (intro exI [of _ st2] exI [of _ es2] exI [of _ fs2]) auto
qed

lemma sers_read: "m h = Inr (x, h) \<Longrightarrow> sers S h (f x) r X \<Longrightarrow> sers S h (\<lambda>st. bnd m (\<lambda>x. f x st)) r X"
  by (simp add: sers_def)

lemma sers_cong: "sers S h m r X \<Longrightarrow> X = Y \<Longrightarrow> sers S h m r Y"
  by simp

lemma sers_id:
  assumes "writable S" "e \<in> S"
  shows "sers S h (ser_id (Some e)) (eid e) (subexprs e)"
  unfolding sers_def
proof (intro allI impI)
  fix st es fs assume "ser_inv S st es fs"
  from SerExpr_run [OF assms this] obtain st' es' fs' where
    "SerExpr e st = Inr (node_json e, st')" "ser_inv S st' es' fs'" "set es' = set es \<union> subexprs e" by blast
  moreover have "eid e < 2 ^ 64" using assms by (simp add: writable_def)
  ultimately show "\<exists>st' es' fs'. ser_id (Some e) st h = Inr ((eid e, st'), h) \<and> ser_inv S st' es' fs' \<and> set es' = set es \<union> subexprs e"
    by (intro exI [of _ st'] exI [of _ es'] exI [of _ fs']) (simp add: ser_id_def node_json_def)
qed

text \<open>A loop that appends to a list or fills a map.\<close>

lemma sers_fold:
  assumes "\<And>x acc. x \<in> set xs \<Longrightarrow> sers S h (\<lambda>st. step x (acc, st)) (g x acc) (X x)"
  shows "sers S h (\<lambda>st. foldM step xs (acc, st)) (fold g xs acc) (\<Union>x \<in> set xs. X x)"
  using assms
proof (induction xs arbitrary: acc)
  case (Cons x xs)
  have "sers S h (\<lambda>st. foldM step xs (g x acc, st)) (fold g xs (g x acc)) (\<Union>x \<in> set xs. X x)" using Cons by simp
  from sers_bnd [OF Cons.prems [of x acc], where f = "\<lambda>a st. foldM step xs (a, st)", OF _ this]
  show ?case by (simp add: case_prod_unfold)
qed (simp add: sers_ret)

lemma fold_snoc: "fold (\<lambda>x js. js @ [f x]) xs js = js @ map f xs"
  by (induction xs arbitrary: js) simp_all

lemma sers_ids:
  assumes "writable S" "set es \<subseteq> S"
  shows "sers S h (ser_ids es) (JArr (map (\<lambda>e. j_nat (eid e)) es)) (\<Union>e \<in> set es. subexprs e)"
proof -
  have "sers S h (\<lambda>st. (\<lambda>e (js, st). bnd (ser_id (Some e) st) (\<lambda>(i, st). ret (js @ [j_nat i], st))) e (js, st)) (js @ [j_nat (eid e)]) (subexprs e)"
    if "e \<in> set es" for e js
    using sers_bnd [OF sers_id, where f = "\<lambda>i st. ret (js @ [j_nat i], st)", OF assms(1) _ sers_ret] that assms(2) by fastforce
  from sers_fold [where g = "\<lambda>e js. js @ [j_nat (eid e)]" and xs = es and acc = "[]", OF this]
  have "sers S h (\<lambda>st. foldM (\<lambda>e (js, st). bnd (ser_id (Some e) st) (\<lambda>(i, st). ret (js @ [j_nat i], st))) es ([], st))
      (map (\<lambda>e. j_nat (eid e)) es) (\<Union>e \<in> set es. subexprs e)" by (simp add: fold_snoc)
  from sers_bnd [OF this, where f = "\<lambda>js st. ret (JArr js, st)", OF sers_ret] show ?thesis by (simp add: ser_ids_def [abs_def])
qed

section \<open>Instructions and ILAs\<close>

definition next_expr :: "Instr \<Rightarrow> expr \<Rightarrow> expr" where
  "next_expr x v = (case update_var x v of Some e \<Rightarrow> e | None \<Rightarrow> v)"

definition upd_json :: "Instr \<Rightarrow> expr list \<Rightarrow> (string, json) amap" where
  "upd_json x vs = fold (\<lambda>v. amap_emplace (ename v) (j_nat (eid (next_expr x v)))) vs []"

definition instr_json :: "heap \<Rightarrow> Ila \<Rightarrow> nat \<Rightarrow> json" where
  "instr_json h m i = (let x = the (instrs h i) in j_object [(''n'', JStr (instr_name x)), (''d'', j_nat (eid (the (instr_decode x)))),
     (''u'', JObj (upd_json x (vec (ila_states m))))])"

fun ila_json :: "heap \<Rightarrow> nat \<Rightarrow> nat \<Rightarrow> json" where
  "ila_json h 0 p = JNull"
| "ila_json h (Suc n) p = (let m = the (ilas h p); ids = map (\<lambda>e. j_nat (eid e)) in
     j_object ([(''n'', JStr (ila_name m)), (''i'', JArr (ids (vec (ila_inputs m)))), (''s'', JArr (ids (vec (ila_states m))))] @
       (case ila_fetch m of None \<Rightarrow> [] | Some e \<Rightarrow> [(''f'', j_nat (eid e))]) @
       [(''v'', j_nat (eid (the (ila_valid m)))), (''instr'', JArr (map (instr_json h m) (vec (ila_instrs m)))),
        (''init'', JArr (ids (ila_inits m))), (''c'', JArr (map (ila_json h n) (vec (ila_childs m))))]))"

definition instr_exprs :: "Ila \<Rightarrow> Instr \<Rightarrow> expr set" where
  "instr_exprs m x = set_option (instr_decode x) \<union> next_expr x ` set (vec (ila_states m))"

definition ila_exprs :: "heap \<Rightarrow> Ila \<Rightarrow> expr set" where
  "ila_exprs h m = set (vec (ila_inputs m)) \<union> set (vec (ila_states m)) \<union> set_option (ila_fetch m) \<union> set_option (ila_valid m) \<union>
     (\<Union>i \<in> set (vec (ila_instrs m)). instr_exprs m (the (instrs h i))) \<union> set (ila_inits m)"

text \<open>An ILA that can be written: a valid function, decode functions, and instructions of its own.\<close>

definition ser_ok :: "heap \<Rightarrow> nat \<Rightarrow> Ila \<Rightarrow> bool" where
  "ser_ok h p m = (ila_valid m \<noteq> None \<and>
     (\<forall>i \<in> set (vec (ila_instrs m)). \<exists>x. instrs h i = Some x \<and> instr_host x = Some p \<and> instr_decode x \<noteq> None))"

abbreviation subs :: "expr set \<Rightarrow> expr set" where
  "subs X \<equiv> \<Union>e \<in> X. subexprs e"

lemma sers_instr:
  assumes S: "writable S" and m: "ilas h p = Some m" and x: "instrs h i = Some x" "instr_host x = Some p" "instr_decode x = Some d"
    and sub: "instr_exprs m x \<subseteq> S"
  shows "sers S h (SerInstr i) (instr_json h m i) (subs (instr_exprs m x))"
proof -
  have "sers S h (\<lambda>st. ser_update x v (js, st)) (amap_emplace (ename v) (j_nat (eid (next_expr x v))) js) (subexprs (next_expr x v))"
    if "v \<in> set (vec (ila_states m))" for v js
    using sers_bnd [OF sers_id [OF S], where f = "\<lambda>i st. ret (amap_emplace (ename v) (j_nat i) js, st)", OF _ sers_ret, of "next_expr x v"] that sub
    by (auto simp: ser_update_def next_expr_def Let_def instr_exprs_def)
  from sers_fold [where xs = "vec (ila_states m)" and acc = "[]" and g = "\<lambda>v. amap_emplace (ename v) (j_nat (eid (next_expr x v)))", OF this]
  have upd: "sers S h (\<lambda>st. foldM (ser_update x) (vec (ila_states m)) ([], st)) (upd_json x (vec (ila_states m)))
      (\<Union>v \<in> set (vec (ila_states m)). subexprs (next_expr x v))" by (simp add: upd_json_def)
  have d: "d \<in> S" using sub x(3) by (auto simp: instr_exprs_def)
  have r: "instr_json h m i = j_object [(''n'', JStr (instr_name x)), (''d'', j_nat (eid d)), (''u'', JObj (upd_json x (vec (ila_states m))))]"
    using x by (simp add: instr_json_def)
  have "sers S h (SerInstr i) (instr_json h m i) (subexprs d \<union> ((\<Union>v \<in> set (vec (ila_states m)). subexprs (next_expr x v)) \<union> {}))"
    unfolding SerInstr_def [abs_def] r
    apply (rule sers_read, simp add: get_instr_def x(1))
    apply (simp only: x(2,3) deref_Some bnd_ret)
    apply (rule sers_bnd [OF sers_id [OF S d]])
    apply (rule sers_read, simp add: get_ila_def m)
    apply (rule sers_bnd [OF upd], rule sers_ret)
    done
  then show ?thesis using x(3) by (simp add: instr_exprs_def)
qed

definition tree_exprs :: "heap \<Rightarrow> nat \<Rightarrow> expr set" where
  "tree_exprs h p = (\<Union>q \<in> {q. in_tree h p q}. ila_exprs h (the (ilas h q)))"

lemma tree_exprs_rec: "ilas h p = Some m \<Longrightarrow> tree_exprs h p = ila_exprs h m \<union> (\<Union>c \<in> set (vec (ila_childs m)). tree_exprs h c)"
  by (auto simp: tree_exprs_def in_tree_iff [of h p])

definition ser_tree :: "expr set \<Rightarrow> heap \<Rightarrow> nat \<Rightarrow> bool" where
  "ser_tree S h p = (\<forall>q m. in_tree h p q \<longrightarrow> ilas h q = Some m \<longrightarrow> ser_ok h q m \<and> ila_exprs h m \<subseteq> S)"

lemma ser_tree_child: "ser_tree S h p \<Longrightarrow> ilas h p = Some m \<Longrightarrow> c \<in> set (vec (ila_childs m)) \<Longrightarrow> ser_tree S h c"
  unfolding ser_tree_def by (blast intro: in_tree.child)

lemma sers_instrs:
  assumes S: "writable S" and m: "ilas h p = Some m" "ser_ok h p m" and sub: "ila_exprs h m \<subseteq> S"
  shows "sers S h (\<lambda>st. foldM (\<lambda>i (js, st). bnd (SerInstr i st) (\<lambda>(j, st). ret (js @ [j], st))) (vec (ila_instrs m)) ([], st))
    (map (instr_json h m) (vec (ila_instrs m))) (\<Union>i \<in> set (vec (ila_instrs m)). subs (instr_exprs m (the (instrs h i))))"
proof -
  have "sers S h (\<lambda>st. (\<lambda>i (js, st). bnd (SerInstr i st) (\<lambda>(j, st). ret (js @ [j], st))) i (js, st))
      (js @ [instr_json h m i]) (subs (instr_exprs m (the (instrs h i))))" if i: "i \<in> set (vec (ila_instrs m))" for i js
  proof -
    obtain x d where x: "instrs h i = Some x" "instr_host x = Some p" "instr_decode x = Some d"
      using m(2) i by (auto simp: ser_ok_def)
    have "instr_exprs m x \<subseteq> S" using sub i x(1) by (force simp: ila_exprs_def)
    from sers_bnd [OF sers_instr [OF S m(1) x this], where f = "\<lambda>j st. ret (js @ [j], st)", OF sers_ret]
    show ?thesis using x(1) by simp
  qed
  from sers_fold [where xs = "vec (ila_instrs m)" and acc = "[]" and g = "\<lambda>i js. js @ [instr_json h m i]", OF this]
  show ?thesis by (simp add: fold_snoc)
qed

lemma sers_fetch:
  assumes "writable S" "set_option f \<subseteq> S"
  shows "sers S h (\<lambda>st. case f of None \<Rightarrow> ret ([], st) | Some e \<Rightarrow> bnd (ser_id (Some e) st) (\<lambda>(i, st). ret ([(''f'', j_nat i)], st)))
    (case f of None \<Rightarrow> [] | Some e \<Rightarrow> [(''f'', j_nat (eid e))]) (subs (set_option f))"
proof (cases f)
  case (Some e)
  from sers_bnd [OF sers_id [OF assms(1)], where f = "\<lambda>i st. ret ([(''f'', j_nat i)], st)", OF _ sers_ret, of e] Some assms(2)
  show ?thesis by simp
qed (simp add: sers_ret)

lemma sers_ila:
  assumes S: "writable S" and inv: "heap_inv h"
  shows "ilas h p \<noteq> None \<Longrightarrow> counter h - p < n \<Longrightarrow> ser_tree S h p \<Longrightarrow>
    sers S h (SerInstrLvlAbsNoAst_n n p) (ila_json h n p) (subs (tree_exprs h p))"
proof (induction n arbitrary: p)
  case (Suc n)
  then obtain m where m: "ilas h p = Some m" by blast
  have ok: "ser_ok h p m" and sub: "ila_exprs h m \<subseteq> S" using Suc.prems(3) m in_tree.self [of h p] by (auto simp: ser_tree_def)
  obtain v where v: "ila_valid m = Some v" using ok by (auto simp: ser_ok_def)
  have sets: "set (vec (ila_inputs m)) \<subseteq> S" "set (vec (ila_states m)) \<subseteq> S" "set_option (ila_fetch m) \<subseteq> S" "v \<in> S" "set (ila_inits m) \<subseteq> S"
    using sub v by (auto simp: ila_exprs_def)
  have "sers S h (\<lambda>st. (\<lambda>c (js, st). bnd (SerInstrLvlAbsNoAst_n n c st) (\<lambda>(j, st). ret (js @ [j], st))) c (js, st))
      (js @ [ila_json h n c]) (subs (tree_exprs h c))" if c: "c \<in> set (vec (ila_childs m))" for c js
  proof -
    have "sers S h (SerInstrLvlAbsNoAst_n n c) (ila_json h n c) (subs (tree_exprs h c))"
      using child_links [OF inv m c] Suc.prems(2) ser_tree_child [OF Suc.prems(3) m c] by (intro Suc.IH) auto
    from sers_bnd [OF this, where f = "\<lambda>j st. ret (js @ [j], st)", OF sers_ret] show ?thesis by simp
  qed
  from sers_fold [where xs = "vec (ila_childs m)" and acc = "[]" and g = "\<lambda>c js. js @ [ila_json h n c]", OF this]
  have childs: "sers S h (\<lambda>st. foldM (\<lambda>c (js, st). bnd (SerInstrLvlAbsNoAst_n n c st) (\<lambda>(j, st). ret (js @ [j], st))) (vec (ila_childs m)) ([], st))
      (map (ila_json h n) (vec (ila_childs m))) (\<Union>c \<in> set (vec (ila_childs m)). subs (tree_exprs h c))" by (simp add: fold_snoc)
  have r: "ila_json h (Suc n) p = j_object ([(''n'', JStr (ila_name m)), (''i'', JArr (map (\<lambda>e. j_nat (eid e)) (vec (ila_inputs m)))),
       (''s'', JArr (map (\<lambda>e. j_nat (eid e)) (vec (ila_states m))))] @
       (case ila_fetch m of None \<Rightarrow> [] | Some e \<Rightarrow> [(''f'', j_nat (eid e))]) @
       [(''v'', j_nat (eid v)), (''instr'', JArr (map (instr_json h m) (vec (ila_instrs m)))),
        (''init'', JArr (map (\<lambda>e. j_nat (eid e)) (ila_inits m))), (''c'', JArr (map (ila_json h n) (vec (ila_childs m))))])"
    by (simp add: m v Let_def)
  show ?case
    unfolding SerInstrLvlAbsNoAst_n.simps r
    apply (rule sers_cong)
     apply (rule sers_read, simp add: get_ila_def m)
     apply (rule sers_bnd [OF sers_ids [OF S sets(1)]])
     apply (rule sers_bnd [OF sers_ids [OF S sets(2)]])
     apply (rule sers_bnd [OF sers_fetch [OF S sets(3)]])
     apply (simp only: v)
     apply (rule sers_bnd [OF sers_id [OF S sets(4)]])
     apply (rule sers_bnd [OF sers_instrs [OF S m ok sub]])
     apply (rule sers_bnd [OF sers_ids [OF S sets(5)]])
     apply (rule sers_bnd [OF childs])
     apply (rule sers_ret)
    by (auto simp: tree_exprs_rec [OF m] ila_exprs_def v)
qed simp

lemma ser_inv_new: "ser_inv S I2JSer_New [] []"
  by (simp add: ser_inv_def I2JSer_New_def j_list_def closed_def funs_def)

text \<open>The whole value: the tree, the nodes and the functions.\<close>

lemma Serialize_run:
  assumes "writable S" "heap_inv h" "ilas h p \<noteq> None" "ser_tree S h p"
  shows "\<exists>es fs. Serialize (Some p) h = Inr (j_object [(''t'', ila_json h (Suc (counter h - p)) p), (''a'', j_list (map node_json es)),
      (''f'', j_list (map func_json fs))], h) \<and> set es = subs (tree_exprs h p) \<and> set es \<subseteq> S \<and> distinct es \<and> closed es \<and>
      set fs \<subseteq> funs S \<and> funs (set es) \<subseteq> set fs"
proof -
  let ?n = "Suc (counter h - p)"
  have "sers S h (SerInstrLvlAbsNoAst_n ?n p) (ila_json h ?n p) (subs (tree_exprs h p))"
    by (rule sers_ila [OF assms(1-3) _ assms(4)]) simp
  from this [unfolded sers_def, rule_format, OF ser_inv_new] obtain st es fs where
    st: "SerInstrLvlAbsNoAst_n ?n p I2JSer_New h = Inr ((ila_json h ?n p, st), h)" "ser_inv S st es fs" "set es = subs (tree_exprs h p)"
    by (elim exE conjE) simp
  have "Serialize (Some p) h = Inr (j_object [(''t'', ila_json h ?n p), (''a'', j_expr_arr st), (''f'', j_func_arr st)], h)"
    using st(1) by (simp add: Serialize_def SerInstrLvlAbs_def SerInstrLvlAbsNoAst_def not_null_def
        del: SerInstrLvlAbsNoAst_n.simps ila_json.simps)
  then show ?thesis
    using st(2,3) unfolding ser_inv_def by (intro exI [of _ es] exI [of _ fs]) (simp del: ila_json.simps)
qed

end
