(* ===== verification/JsonDes.thy ===== *)
theory JsonDes
  imports JsonSer
begin

text \<open>
  What the deserializer builds from the nodes that the serializer writes: functions with the same name and sorts, and for
  every node an expression that stands for it.
\<close>

section \<open>Sorts and functions\<close>

definition int_sort :: "sort \<Rightarrow> bool" where
  "int_sort s = (case s of
       SortBool \<Rightarrow> True
     | SortBv w \<Rightarrow> - (2 ^ 31) \<le> w \<and> w < 2 ^ 31
     | SortMem a d \<Rightarrow> - (2 ^ 31) \<le> a \<and> a < 2 ^ 31 \<and> - (2 ^ 31) \<le> d \<and> d < 2 ^ 31
     | _ \<Rightarrow> False)"

lemma get_int_num [simp]: "- (2 ^ 31) \<le> w \<Longrightarrow> w < 2 ^ 31 \<Longrightarrow> get_int (JNum w) = Inr w"
proof -
  assume "- (2 ^ 31) \<le> w" "w < 2 ^ 31"
  then have "sint (word_of_int w :: 32 word) = w" by transfer (simp add: signed_take_bit_int_eq_self)
  then show ?thesis by (simp add: get_int_def)
qed

lemma sort_uid_small [simp]: "sort_uid_num u < 2 ^ 64"
  by (cases u) simp_all

lemma DesSort_run: "int_sort s \<Longrightarrow> DesSort (sort_json s) = ret (Some s)"
  by (cases s) (simp_all add: DesSort_def sort_json_def int_sort_def at_size_def at_int_def MakeBoolSort_def MakeBvSort_def MakeMemSort_def)

lemma mapM_map: "\<forall>x \<in> set xs. f (g x) = ret (k x) \<Longrightarrow> mapM f (map g xs) = ret (map k xs)"
  by (induction xs) simp_all

definition same_func :: "Func \<Rightarrow> Func \<Rightarrow> bool" where
  "same_func f f' = (func_name f' = func_name f \<and> func_out f' = func_out f \<and> func_args f' = func_args f)"

definition readable :: "expr set \<Rightarrow> bool" where
  "readable S = (writable S \<and> (\<forall>e \<in> S. wf_expr e \<and> int_sort (esort e)) \<and>
     (\<forall>f \<in> funs S. int_sort (func_out f) \<and> list_all int_sort (func_args f)))"

definition funcs_ok :: "expr set \<Rightarrow> (nat \<rightharpoonup> Func) \<Rightarrow> bool" where
  "funcs_ok S F = (\<forall>f \<in> funs S. \<forall>f'. F (func_id f) = Some f' \<longrightarrow> same_func f f')"

lemma DesFunc_run:
  assumes S: "readable S" and f: "f \<in> funs S" and F: "funcs_ok S (id_func_map st)"
  shows "\<exists>f' F' h'. DesFunc (func_json f) st h = Inr ((f', st\<lparr>id_func_map := F'\<rparr>), h') \<and> only_alloc h h' \<and>
    funcs_ok S F' \<and> id_func_map st \<subseteq>\<^sub>m F' \<and> F' (func_id f) \<noteq> None"
proof -
  have i: "func_id f < 2 ^ 64" and s: "int_sort (func_out f)" "list_all int_sort (func_args f)"
    using S f by (auto simp: readable_def writable_def)
  show ?thesis
  proof (cases "id_func_map st (func_id f)")
    case (Some f')
    then show ?thesis using i F by (intro exI [of _ f'] exI [of _ "id_func_map st"] exI [of _ h]) (simp add: DesFunc_def at_size_def func_json_def)
  next
    case None
    let ?f = "\<lparr>func_id = Suc (counter h), func_name = func_name f, func_out = func_out f, func_args = func_args f, func_host = None\<rparr>"
    let ?F = "(id_func_map st)(func_id f \<mapsto> ?f)" and ?h = "h\<lparr>counter := Suc (counter h)\<rparr>"
    have "mapM DesSort (map sort_json (func_args f)) = ret (map Some (func_args f))"
      by (rule mapM_map) (use s(2) in \<open>simp add: list_all_iff DesSort_run\<close>)
    moreover have "mapM deref (map Some (func_args f)) = ret (func_args f)" using mapM_map [of _ deref Some "\<lambda>x. x"] by simp
    ultimately have "DesFunc (func_json f) st h = Inr ((?f, st\<lparr>id_func_map := ?F\<rparr>), ?h)"
      using i None s(1) by (simp add: DesFunc_def at_size_def at_str_def func_json_def get_str_def DesSort_run Func_New_def)
    moreover have "g = f" if "g \<in> funs S" "func_id g = func_id f" for g
      using S f that by (auto simp: readable_def writable_def coherent_def funs_def)
    then have "funcs_ok S ?F" using F by (auto simp: funcs_ok_def same_func_def)
    ultimately show ?thesis
      using None by (intro exI [of _ ?f] exI [of _ ?F] exI [of _ ?h]) (auto simp: only_alloc_def map_le_def)
  qed
qed

lemma DesFuncs_run:
  assumes S: "readable S"
  shows "set fs \<subseteq> funs S \<Longrightarrow> funcs_ok S (id_func_map st) \<Longrightarrow>
    \<exists>F h'. foldM (\<lambda>j st. bnd (DesFunc j st) (\<lambda>(_, st). ret st)) (map func_json fs) st h = Inr (st\<lparr>id_func_map := F\<rparr>, h') \<and> only_alloc h h' \<and>
      funcs_ok S F \<and> id_func_map st \<subseteq>\<^sub>m F \<and> (\<forall>f \<in> set fs. F (func_id f) \<noteq> None)"
proof (induction fs arbitrary: st h)
  case Nil
  then show ?case by (intro exI [of _ "id_func_map st"] exI [of _ h]) simp
next
  case (Cons f fs)
  obtain f' F1 h1 where 1: "DesFunc (func_json f) st h = Inr ((f', st\<lparr>id_func_map := F1\<rparr>), h1)" "only_alloc h h1"
    "funcs_ok S F1" "id_func_map st \<subseteq>\<^sub>m F1" "F1 (func_id f) \<noteq> None"
    using DesFunc_run [OF S, of f st h] Cons.prems by auto
  obtain F h' where 2: "foldM (\<lambda>j st. bnd (DesFunc j st) (\<lambda>(_, st). ret st)) (map func_json fs) (st\<lparr>id_func_map := F1\<rparr>) h1 = Inr (st\<lparr>id_func_map := F\<rparr>, h')"
    "only_alloc h1 h'" "funcs_ok S F" "F1 \<subseteq>\<^sub>m F" "\<forall>f \<in> set fs. F (func_id f) \<noteq> None"
    using Cons.IH [of "st\<lparr>id_func_map := F1\<rparr>" h1] Cons.prems(1) 1(3) by auto
  have "F (func_id f) \<noteq> None" using 1(5) 2(4) by (metis domIff map_le_def)
  then show ?case
    using 1(1) 2 only_alloc_trans [OF 1(2) 2(2)] map_le_trans [OF 1(4) 2(4)] by (intro exI [of _ F] exI [of _ h']) simp
qed

section \<open>Constants\<close>

text \<open>Addresses are printed in decimal and parsed back.\<close>

lemma read_digits_append:
  "\<forall>c \<in> set xs. digit_val c b \<noteq> None \<Longrightarrow> read_digits b acc (xs @ ys) = read_digits b (read_digits b acc xs) ys"
  by (induction xs arbitrary: acc) auto

lemma digit_char_base: "d < 10 \<Longrightarrow> digit_char d = base_digit u d"
  by (simp add: digit_char_def base_digit_def)

lemma to_string_base: "set (to_string n) \<subseteq> {base_digit u d | d. d < 10} \<and> read_digits 10 0 (to_string n) = n"
proof (induction n rule: to_string.induct)
  case (1 n)
  show ?case
  proof (cases "n < 10")
    case True
    then show ?thesis using digit_char_base [OF True, of u] by (auto simp: to_string.simps [of n])
  next
    case False
    have "\<forall>c \<in> set (to_string (n div 10)). digit_val c 10 \<noteq> None" using 1 [OF False] by auto
    with False show ?thesis
      using 1 [OF False] digit_char_base [of "n mod 10" u] by (auto simp: to_string.simps [of n] read_digits_append)
  qed
qed

lemma parse_addr [simp]: "StrToULongLong (to_string (unat a)) 10 = a"
  using c_strto_digits [of 10 "to_string (unat a)" True] to_string_base [of "unat a" True] unsigned_less [where ?'a = nat and w = a]
  by (simp add: StrToULongLong_def)

lemma get_bv_num [simp]: "get_bv (j_nat (unat d)) = Inr d"
  by (simp add: get_bv_def j_nat_def)

text \<open>Two ordered maps with the same entries are equal.\<close>

lemma amap_eqI: "amap_ok m \<Longrightarrow> amap_ok m' \<Longrightarrow> set m = set m' \<Longrightarrow> m = m'"
  unfolding amap_ok_def using map_sorted_distinct_set_unique [of fst m m'] by (simp add: distinct_map)

lemma set_map_of: "distinct (map fst kvs) \<Longrightarrow> distinct (map fst m) \<Longrightarrow> (\<And>k. map_of m k = map_of kvs k) \<Longrightarrow> set m = set kvs"
  by (metis map_of_eq_Some_iff subsetI subset_antisym surj_pair)

lemma object_ok: "amap_ok m \<Longrightarrow> amap_ok (fold (\<lambda>(k, v). amap_emplace k v) kvs m)"
  by (induction kvs arbitrary: m) auto

lemma set_object:
  assumes "distinct (map fst kvs)"
  shows "set (fold (\<lambda>(k, v). amap_emplace k v) kvs []) = set kvs"
proof (rule set_map_of [OF assms])
  show "distinct (map fst (fold (\<lambda>(k, v). amap_emplace k v) kvs []))"
    using object_ok [OF amap_ok_Nil] unfolding amap_ok_def by blast
qed (simp add: fold_emplace)

abbreviation mem_entry :: "BvValType \<times> BvValType \<Rightarrow> string \<times> json" where
  "mem_entry \<equiv> \<lambda>(a, d). (to_string (unat a), j_nat (unat d))"

lemma unat_inj [simp]: "unat a = unat b \<longleftrightarrow> a = b" for a b :: "'a::len word"
  by (simp add: word_unat_eq_iff)

lemma mem_entry_inj: "inj mem_entry"
  by (auto intro!: injI simp: j_nat_def word_uint_eq_iff)

lemma mem_entry_keys: "distinct (map fst (map mem_entry ps)) \<longleftrightarrow> distinct (map fst ps)"
proof -
  have "map fst (map mem_entry ps) = map (\<lambda>a. to_string (unat a)) (map fst ps)" by (simp add: case_prod_unfold)
  then show ?thesis by (simp only: distinct_map [of "\<lambda>a. to_string (unat a)"]) (simp add: inj_on_def)
qed

lemma des_entries:
  "distinct (map fst ps) \<Longrightarrow> amap_ok m \<Longrightarrow> fst ` set ps \<inter> fst ` set m = {} \<Longrightarrow>
   \<exists>m'. foldM (\<lambda>(addr_str, data) m. bnd (lift (get_bv data)) (\<lambda>d. ret (amap_assign (StrToULongLong addr_str 10) d m))) (map mem_entry ps) m = ret m' \<and>
     amap_ok m' \<and> set m' = set ps \<union> set m"
proof (induction ps arbitrary: m)
  case (Cons p ps)
  obtain a d where p: "p = (a, d)" by (cases p)
  have new: "map_of m a = None" using Cons.prems(3) by (auto simp: p map_of_eq_None_iff)
  have "set (amap_assign a d m) = insert (a, d) (set m)"
    using set_map_of [of "(a, d) # m" "amap_assign a d m"] new Cons.prems(2) amap_ok_assign [OF Cons.prems(2), of a d]
    by (auto simp: amap_ok_def map_of_assign map_of_eq_None_iff)
  moreover from this obtain m' where "foldM (\<lambda>(addr_str, data) m. bnd (lift (get_bv data)) (\<lambda>d. ret (amap_assign (StrToULongLong addr_str 10) d m))) (map mem_entry ps) (amap_assign a d m) = ret m'"
    "amap_ok m'" "set m' = set ps \<union> set (amap_assign a d m)"
    using Cons.IH [of "amap_assign a d m"] Cons.prems by (auto simp: p)
  ultimately show ?case by (auto simp: p)
qed auto

lemma des_mem_map_run:
  assumes "amap_ok vm"
  shows "des_mem_map (j_items (j_object (map mem_entry vm))) = ret vm"
proof -
  let ?items = "fold (\<lambda>(k, v). amap_emplace k v) (map mem_entry vm) []"
  have "distinct (map fst vm)" using assms by (simp add: amap_ok_def)
  then have "distinct (map fst (map mem_entry vm))" unfolding mem_entry_keys .
  then have items: "set ?items = set (map mem_entry vm)" by (rule set_object)
  then obtain ps where ps: "?items = map mem_entry ps" using ex_map_conv [of ?items mem_entry] by force
  then have "set ps = set vm" using items mem_entry_inj by (simp add: inj_image_eq_iff)
  moreover have "distinct (map fst ?items)" using object_ok [OF amap_ok_Nil] unfolding amap_ok_def by blast
  then have "distinct (map fst ps)" unfolding ps mem_entry_keys .
  ultimately obtain m' where m': "des_mem_map (map mem_entry ps) = ret m'" "amap_ok m'" "set m' = set vm"
    using des_entries [of ps "[]"] by (auto simp: des_mem_map_def)
  from amap_eqI [OF m'(2) assms m'(3)] m'(1) show ?thesis by (simp add: j_object_def j_items_def ps)
qed

section \<open>Expressions\<close>

text \<open>The interpretation of the nodes that were written which an interpretation of the new nodes gives: a variable is read
  as the one that replaces it, and so is a function.\<close>

definition pull :: "(nat \<rightharpoonup> expr) \<Rightarrow> (nat \<rightharpoonup> Func) \<Rightarrow> interp \<Rightarrow> interp" where
  "pull D F I = \<lparr>ivar = (\<lambda>v. ivar I (the (D (eid v)))), ifun = (\<lambda>f. ifun I (the (F (func_id f))))\<rparr>"

text \<open>\<open>d\<close> stands for the node \<open>e\<close>.\<close>

definition stands :: "(nat \<rightharpoonup> expr) \<Rightarrow> (nat \<rightharpoonup> Func) \<Rightarrow> heap \<Rightarrow> expr \<Rightarrow> expr \<Rightarrow> bool" where
  "stands D F h e d = (wf_expr d \<and> host_in h d \<and> esort d = esort e \<and> (\<forall>I. eval I d = eval (pull D F I) e))"

lemma stands_alloc: "only_alloc h h' \<Longrightarrow> stands D F h' e d = stands D F h e d"
  by (simp add: stands_def host_in_def only_alloc_def)

lemma DesExprConst_run:
  assumes "wf_expr e" "ekind e = KConst v" "int_sort (esort e)"
  shows "\<exists>d h'. DesExprConst (sort_json (esort e)) (val_json v) h = Inr (Some d, h') \<and> only_alloc h h' \<and> stands D F h' e d"
proof -
  have wf: "eargs e = []" "eparams e = []" "const_wf (esort e) v" using wf_node [OF assms(1)] assms(2) by (simp_all add: node_wf_def)
  let ?i = "Suc (counter h)" and ?h = "h\<lparr>counter := Suc (counter h)\<rparr>"
  let ?d = "Expr ?i (anon_name ?i) (esort e) None [] [] (KConst v)"
  have "DesExprConst (sort_json (esort e)) (val_json v) h = Inr (Some ?d, ?h)"
  proof (cases "esort e")
    case SortBool
    then show ?thesis using wf(3)
      by (auto simp: const_wf_def DesExprConst_def sort_json_def val_json_def at_size_def get_bool_def BoolConst_Inr split: Value.splits)
  next
    case (SortBv w)
    then show ?thesis using wf(3) assms(3)
      by (auto simp: const_wf_def DesExprConst_def sort_json_def val_json_def at_size_def at_int_def int_sort_def BvConst_Inr split: Value.splits)
  next
    case (SortMem a d)
    then obtain mv where mv: "v = MemV mv" "amap_ok (val_map mv)"
      using wf(3) by (auto simp: const_wf_def MemVal_ok_def split: Value.splits)
    show ?thesis using SortMem mv assms(3) des_mem_map_run [OF mv(2)]
      by (auto simp: DesExprConst_def sort_json_def val_json_def at_size_def at_int_def int_sort_def MemConst_v_def ExprConst_mem_def
          MemVal_with_def MakeMemSort_def)
  qed (use wf(3) in \<open>auto simp: const_wf_def\<close>)
  moreover have "stands D F ?h e ?d"
    using wf assms(2) by (auto simp: stands_def node_wf_def host_in_def eval_op_node [of _ e])
  ultimately show ?thesis by (intro exI [of _ ?d] exI [of _ ?h]) (simp add: only_alloc_def)
qed

text \<open>On the arguments of an operation the switch of the deserializer is its constructor.\<close>

lemma des_op_run:
  assumes "op_sort u (map esort ds) ps = Some s"
  shows "des_op u ds ps h = some_of (construct u ds ps (if u = kConcatenate then h\<lparr>counter := counter h + 2\<rparr> else h))"
proof -
  have at: "at1 [a] f h = some_of (f a h)" "at2 [a, b] g h = some_of (g a b h)" "at3 [a, b, c] k h = some_of (k a b c h)" for a b c f g k
    by (simp_all add: at1_def at2_def at3_def some_of_def monad_simps split: sum.splits)
  show ?thesis
  proof (cases "u = kConcatenate")
    case True
    with assms obtain d0 d1 w v where ds: "ds = [d0, d1]" "ps = []" "esort d0 = SortBv w" "esort d1 = SortBv v"
      by (auto simp: op_sort_Some map_eq_Cons_conv)
    with True show ?thesis by (simp add: des_op_def at concat_run construct_def binary_ctor_def)
  next
    case False
    show ?thesis
    proof (cases "u \<in> {kLoad, kStore, kExtract, kNot, kImply, kIfThenElse}")
      case True
      with assms show ?thesis
        by (auto simp: des_op_def op_sort_Some map_eq_Cons_conv at param_at_def hub_defs construct_def arity_ctor_defs)
    next
      case rest: False
      show ?thesis
        using assms False rest
        by (cases u) (auto simp: des_op_def op_sort_def sort_rule_Some map_eq_Cons_conv at param_at_def hub_defs SRem_def SMod_def
            construct_def arity_ctor_defs)
    qed
  qed
qed

definition table :: "expr set \<Rightarrow> (nat \<rightharpoonup> expr) \<Rightarrow> (nat \<rightharpoonup> Func) \<Rightarrow> heap \<Rightarrow> (nat \<rightharpoonup> expr) \<Rightarrow> bool" where
  "table S D F h M = (\<forall>e \<in> S. \<forall>d. M (eid e) = Some d \<longrightarrow> stands D F h e d)"

lemma table_alloc': "only_alloc h h' \<Longrightarrow> table S D F h' M = table S D F h M"
  by (simp add: table_def stands_alloc)

lemma table_upd:
  assumes "readable S" "e \<in> S" "table S D F h M" "stands D F h e d"
  shows "table S D F h (M(eid e \<mapsto> d))"
  using assms by (auto simp: table_def readable_def writable_def coherent_def inj_on_def)

text \<open>The arguments of a node, as a list.\<close>

lemma des_args_run:
  assumes "readable S" "table S D F h (id_expr_map st)"
  shows "set as \<subseteq> S \<Longrightarrow> \<forall>a \<in> set as. id_expr_map st (eid a) \<noteq> None \<Longrightarrow>
    \<exists>ds. mapM (des_arg st) (map (\<lambda>a. j_nat (eid a)) as) = ret ds \<and> list_all2 (stands D F h) as ds"
proof (induction as)
  case (Cons a as)
  then obtain ds d where ds: "mapM (des_arg st) (map (\<lambda>a. j_nat (eid a)) as) = ret ds" "list_all2 (stands D F h) as ds"
    "id_expr_map st (eid a) = Some d" by auto
  have "eid a < 2 ^ 64" using assms(1) Cons.prems(1) by (simp add: readable_def writable_def)
  then have "des_arg st (j_nat (eid a)) = ret d" using ds(3) by (simp add: des_arg_def)
  moreover have "stands D F h a d" using assms(2) ds(3) Cons.prems(1) by (simp add: table_def)
  ultimately show ?case using ds by (intro exI [of _ "d # ds"]) simp
qed auto

lemma stands_list:
  assumes "list_all2 (stands D F h) as ds"
  shows "map esort ds = map esort as" "list_all wf_expr ds" "\<forall>d \<in> set ds. host_in h d" "map (eval I) ds = map (eval (pull D F I)) as"
  using assms by (induction rule: list_all2_induct) (auto simp: stands_def)

lemma DesOp_run:
  assumes e: "wf_expr e" "ekind e = KOp u" and ds: "list_all2 (stands D F h) (eargs e) ds" and g: "childs_grow h"
  shows "\<exists>d h'. des_op u ds (eparams e) h = Inr (Some d, h') \<and> only_alloc h h' \<and> stands D F h' e d"
proof -
  note r = stands_list [OF ds]
  have wf: "op_sort u (map esort ds) (eparams e) = Some (esort e)" "sem_ok u (map esort ds) (eparams e)"
    using wf_node [OF e(1)] e(2) r(1) by (simp_all add: node_wf_def)
  let ?h = "if u = kConcatenate then h\<lparr>counter := counter h + 2\<rparr> else h"
  have a: "only_alloc h ?h" by (simp add: only_alloc_def)
  have "hosts_ok ?h ds" using g r(3) by (auto simp: hosts_ok_def host_in_def childs_grow_def)
  then obtain d h' where b: "built (KOp u) ds (eparams e) (esort e) ?h d h'" "hosts_ok h' (d # ds)"
    using built_total [of ?h ds ds] by blast
  have "construct u ds (eparams e) ?h = Inr (d, h')" using b(1) wf(1) by (auto simp: construct_Inr)
  then have "des_op u ds (eparams e) h = Inr (Some d, h')" using des_op_run [OF wf(1)] by (simp add: some_of_def)
  moreover have "stands D F h' e d"
    using built_wf [OF b(1) wf r(2)] b(2) built_fields [OF b(1)] built_eval [OF b(1)] r(1,4) e(2)
    by (auto simp: stands_def hosts_ok_def host_in_def eval_op_node [of _ e])
  ultimately show ?thesis using only_alloc_trans [OF a built_fields(6) [OF b(1)]] by blast
qed

lemma DesApp_run:
  assumes e: "wf_expr e" "ekind e = KApp f" and ds: "list_all2 (stands D F h) (eargs e) ds" and g: "childs_grow h"
    and f: "F (func_id f) = Some f'" "same_func f f'"
  shows "\<exists>d h'. AppFunc f' ds h = Inr (d, h') \<and> only_alloc h h' \<and> stands D F h' e d"
proof -
  note r = stands_list [OF ds]
  have wf: "map esort ds = func_args f'" "eparams e = []" "esort e = func_out f'" "sort_wf (func_out f')"
    using wf_node [OF e(1)] e(2) r(1) f(2) by (auto simp: node_wf_def same_func_def)
  have "hosts_ok h ds" using g r(3) by (auto simp: hosts_ok_def host_in_def)
  then obtain d h' where b: "built (KApp f') ds [] (func_out f') h d h'" "hosts_ok h' (d # ds)"
    using built_total [of h ds ds] by blast
  note bf = built_fields [OF b(1)]
  have "wf_expr d" using bf wf r(2) by (cases d) (auto simp: node_wf_def)
  then have "stands D F h' e d"
    using b(2) bf wf r(4) e(2) f(1) by (auto simp: stands_def hosts_ok_def host_in_def eval_op_node pull_def)
  moreover have "AppFunc f' ds h = Inr (d, h')" using b(1) wf(1) by (simp add: AppFunc_def ctor_Inr)
  ultimately show ?thesis using bf(6) by blast
qed

lemma op_uid_small: "op_uid_num u < length op_uids" "op_uids ! op_uid_num u = u" "op_uid_num u = op_uid_num v \<longleftrightarrow> u = v"
proof -
  show "op_uid_num u < length op_uids" "op_uids ! op_uid_num u = u" by (cases u; simp add: op_uid_num_def op_uids_def)+
  show "op_uid_num u = op_uid_num v \<longleftrightarrow> u = v" using op_uid_num_inj by blast
qed

text \<open>What the deserializer needs of its state to read a node.\<close>

definition des_ready :: "expr set \<Rightarrow> (nat \<rightharpoonup> expr) \<Rightarrow> heap \<Rightarrow> J2IDes \<Rightarrow> bool" where
  "des_ready S D h st = (readable S \<and> childs_grow h \<and> funcs_ok S (id_func_map st) \<and> table S D (id_func_map st) h (id_expr_map st))"

lemma node_at:
  "eid e < 2 ^ 64 \<Longrightarrow> at_size (node_json e) ''i'' = ret (eid e)" "at_size (node_json e) ''u'' = ret (GetUidExpr e)"
  by (simp_all add: at_size_def node_json_def GetUidExpr_def)

lemma des_new_node:
  assumes ok: "des_ready S D h st" and e: "e \<in> S" "\<not> is_var e"
    and args: "\<forall>a \<in> set (eargs e). id_expr_map st (eid a) \<noteq> None" and f: "\<forall>f. ekind e = KApp f \<longrightarrow> id_func_map st (func_id f) \<noteq> None"
    and no: "id_expr_map st (eid e) = None"
  shows "\<exists>d h'. DesExpr (node_json e) st h = Inr ((d, st\<lparr>id_expr_map := (id_expr_map st)(eid e \<mapsto> d)\<rparr>), h') \<and> only_alloc h h' \<and>
    stands D (id_func_map st) h' e d"
proof -
  have S: "readable S" and g: "childs_grow h" and t: "table S D (id_func_map st) h (id_expr_map st)" using ok by (auto simp: des_ready_def)
  have i: "eid e < 2 ^ 64" and wf: "wf_expr e" "int_sort (esort e)" and ok: "node_ok e" and sub: "set (eargs e) \<subseteq> S"
    using S e(1) by (auto simp: readable_def writable_def coherent_def)
  obtain ds where ds: "mapM (des_arg st) (map (\<lambda>a. j_nat (eid a)) (eargs e)) = ret ds" "list_all2 (stands D (id_func_map st) h) (eargs e) ds"
    using des_args_run [OF S t sub args] by blast
  show ?thesis
  proof (cases "ekind e")
    case KVar
    then show ?thesis using e(2) by simp
  next
    case (KConst v)
    then show ?thesis
      using DesExprConst_run [OF wf(1) KConst wf(2), of h D "id_func_map st"] i no
      by (auto simp: DesExpr_def node_at GetUidExpr_def not_null_def) (auto simp: node_json_def node_members_def)
  next
    case (KOp u)
    have u: "u \<noteq> kApplyFunc" using ok KOp by (simp add: node_ok_def)
    have "mapM (\<lambda>j. lift (get_int j)) (map JNum (eparams e)) = ret (eparams e)"
      using mapM_map [of "eparams e" _ JNum "\<lambda>p. p"] ok by (simp add: node_ok_def list_all_iff)
    moreover have "op_uid_num u < 2 ^ 32" using op_uid_small(1) [of u] by (simp add: op_uids_def)
    ultimately have "DesExprOp st (op_uid_num u) (JArr (map (\<lambda>a. j_nat (eid a)) (eargs e))) (JArr (map JNum (eparams e))) = des_op u ds (eparams e)"
      using ds(1) op_uid_small by (simp add: DesExprOp_def)
    moreover have "at_size (node_json e) ''o'' = ret (op_uid_num u)"
      using KOp \<open>op_uid_num u < 2 ^ 32\<close> by (simp add: at_size_def node_json_def node_members_def op_members_def)
    ultimately show ?thesis
      using DesOp_run [OF wf(1) KOp ds(2) g] KOp i no u
      by (auto simp: DesExpr_def node_at GetUidExpr_def not_null_def op_uid_small) (auto simp: node_json_def node_members_def op_members_def)
  next
    case (KApp f)
    then obtain f' where f': "id_func_map st (func_id f) = Some f'" using f by auto
    have "f \<in> funs S" using KApp e(1) by (auto simp: funs_def)
    then have s: "same_func f f'" and fi: "func_id f < 2 ^ 64" using f' \<open>des_ready S D h st\<close> by (auto simp: des_ready_def funcs_ok_def readable_def writable_def)
    have "DesExprOpAppFunc st (j_nat (func_id f)) (JArr (map (\<lambda>a. j_nat (eid a)) (eargs e))) = AppFunc f' ds"
      using ds(1) fi f' by (simp add: DesExprOpAppFunc_def)
    moreover have "at_size (node_json e) ''o'' = ret (op_uid_num kApplyFunc)"
      using KApp by (simp add: at_size_def node_json_def node_members_def op_members_def op_uid_num_def op_uids_def)
    ultimately show ?thesis
      using DesApp_run [OF wf(1) KApp ds(2) g f' s] KApp i no
      by (auto simp: DesExpr_def node_at GetUidExpr_def not_null_def) (auto simp: node_json_def node_members_def op_members_def)
  qed
qed

lemma DesExpr_run:
  assumes ok: "des_ready S D h st" and e: "e \<in> S" "is_var e \<Longrightarrow> id_expr_map st (eid e) \<noteq> None"
    and args: "\<forall>a \<in> set (eargs e). id_expr_map st (eid a) \<noteq> None" and f: "\<forall>f. ekind e = KApp f \<longrightarrow> id_func_map st (func_id f) \<noteq> None"
  shows "\<exists>d M h'. DesExpr (node_json e) st h = Inr ((d, st\<lparr>id_expr_map := M\<rparr>), h') \<and> only_alloc h h' \<and>
    des_ready S D h' (st\<lparr>id_expr_map := M\<rparr>) \<and> id_expr_map st \<subseteq>\<^sub>m M \<and> M (eid e) \<noteq> None"
proof (cases "id_expr_map st (eid e)")
  case (Some d)
  have "eid e < 2 ^ 64" using ok e(1) by (auto simp: des_ready_def readable_def writable_def)
  then have "DesExpr (node_json e) st h = Inr ((d, st), h)" using Some by (simp add: DesExpr_def node_at)
  then show ?thesis using Some ok by (intro exI [of _ d] exI [of _ "id_expr_map st"] exI [of _ h]) simp
next
  case None
  then obtain d h' where d: "DesExpr (node_json e) st h = Inr ((d, st\<lparr>id_expr_map := (id_expr_map st)(eid e \<mapsto> d)\<rparr>), h')" "only_alloc h h'"
    "stands D (id_func_map st) h' e d" using des_new_node [OF ok e(1) _ args f] e(2) by blast
  have "readable S" using ok by (simp add: des_ready_def)
  moreover have "table S D (id_func_map st) h' (id_expr_map st)" using ok table_alloc' [OF d(2)] by (simp add: des_ready_def)
  ultimately have "table S D (id_func_map st) h' ((id_expr_map st)(eid e \<mapsto> d))" using table_upd [OF _ e(1) _ d(3)] by blast
  moreover have "childs_grow h'" using ok d(2) by (simp add: des_ready_def only_alloc_def childs_grow_def)
  ultimately show ?thesis
    using d(1,2) ok None by (intro exI [of _ d] exI [of _ "(id_expr_map st)(eid e \<mapsto> d)"] exI [of _ h']) (auto simp: des_ready_def map_le_def)
qed

lemma DesExprs_run:
  assumes "des_ready S D h st" "closed (es1 @ es2)" "set (es1 @ es2) \<subseteq> S" "\<forall>e \<in> set es1. id_expr_map st (eid e) \<noteq> None"
    and "\<forall>v \<in> set es2. is_var v \<longrightarrow> id_expr_map st (eid v) \<noteq> None" "\<forall>f \<in> funs (set es2). id_func_map st (func_id f) \<noteq> None"
  shows "\<exists>M h'. foldM (\<lambda>j st. bnd (DesExpr j st) (\<lambda>(_, st). ret st)) (map node_json es2) st h = Inr (st\<lparr>id_expr_map := M\<rparr>, h') \<and> only_alloc h h' \<and>
    des_ready S D h' (st\<lparr>id_expr_map := M\<rparr>) \<and> id_expr_map st \<subseteq>\<^sub>m M \<and> (\<forall>e \<in> set (es1 @ es2). M (eid e) \<noteq> None)"
  using assms
proof (induction es2 arbitrary: es1 st h)
  case Nil
  then show ?case by (intro exI [of _ "id_expr_map st"] exI [of _ h]) simp
next
  case (Cons e es2)
  have "(es1 @ e # es2) ! length es1 = e" "take (length es1) (es1 @ e # es2) = es1" "length es1 < length (es1 @ e # es2)" by simp_all
  then have "set (eargs e) \<subseteq> set es1" using Cons.prems(2) unfolding closed_def by metis
  then have "\<forall>a \<in> set (eargs e). id_expr_map st (eid a) \<noteq> None" using Cons.prems(4) by blast
  moreover have "\<forall>f. ekind e = KApp f \<longrightarrow> id_func_map st (func_id f) \<noteq> None" using Cons.prems(6) by (auto simp: funs_def)
  ultimately obtain d M1 h1 where 1: "DesExpr (node_json e) st h = Inr ((d, st\<lparr>id_expr_map := M1\<rparr>), h1)" "only_alloc h h1"
    "des_ready S D h1 (st\<lparr>id_expr_map := M1\<rparr>)" "id_expr_map st \<subseteq>\<^sub>m M1" "M1 (eid e) \<noteq> None"
    using DesExpr_run [OF Cons.prems(1), of e] Cons.prems(3,5) by auto
  have keep: "M1 i \<noteq> None" if "id_expr_map st i \<noteq> None" for i using 1(4) that by (metis domIff map_le_def)
  have "funs (set es2) \<subseteq> funs (set (e # es2))" by (auto simp: funs_def)
  then have "\<forall>f \<in> funs (set es2). id_func_map st (func_id f) \<noteq> None" using Cons.prems(6) by blast
  then obtain M h' where 2: "foldM (\<lambda>j st. bnd (DesExpr j st) (\<lambda>(_, st). ret st)) (map node_json es2) (st\<lparr>id_expr_map := M1\<rparr>) h1 = Inr (st\<lparr>id_expr_map := M\<rparr>, h')"
    "only_alloc h1 h'" "des_ready S D h' (st\<lparr>id_expr_map := M\<rparr>)" "M1 \<subseteq>\<^sub>m M" "\<forall>e \<in> set ((es1 @ [e]) @ es2). M (eid e) \<noteq> None"
    using Cons.IH [OF 1(3), of "es1 @ [e]"] Cons.prems(2-5) 1(5) keep by auto
  show ?case
    using 1(1) 2 only_alloc_trans [OF 1(2) 2(2)] map_le_trans [OF 1(4) 2(4)] by (intro exI [of _ M] exI [of _ h']) simp
qed

end
