(* ===== verification/JsonVars.thy ===== *)
theory JsonVars
  imports JsonDes
begin

text \<open>
  The variables that the deserializer creates: every ILA of the tree that is read has the inputs and states of the ILA
  that was written, under the same names, and a child shares those of its parent.
\<close>

section \<open>Variables of one ILA\<close>

text \<open>The new node of a variable.\<close>

definition newvar :: "heap \<Rightarrow> expr \<Rightarrow> expr \<Rightarrow> bool" where
  "newvar h v d = (is_var d \<and> wf_expr d \<and> esort d = esort v \<and> ename d = ename v \<and> host_in h d)"

lemma AddState_run:
  assumes "ilas h c = Some m" "is_var v" "find_input m (ename v) = None" "find_state m (ename v) = None"
  shows "AddState c (Some v) h = Inr ((), h\<lparr>ilas := (ilas h)(c \<mapsto> m\<lparr>ila_states := snd (push_back (ename v) v (ila_states m))\<rparr>)\<rparr>)"
  using assms by (simp add: AddState_def not_null_def Unify_def)

lemma AddInput_run:
  assumes "ilas h c = Some m" "is_var v" "find_input m (ename v) = None" "find_state m (ename v) = None"
  shows "AddInput c (Some v) h = Inr ((), h\<lparr>ilas := (ilas h)(c \<mapsto> m\<lparr>ila_inputs := snd (push_back (ename v) v (ila_inputs m))\<rparr>)\<rparr>)"
  using assms by (simp add: AddInput_def not_null_def Unify_def)

abbreviation read_var :: "heap \<Rightarrow> nat \<Rightarrow> string \<Rightarrow> sort \<Rightarrow> expr" where
  "read_var h c nm s \<equiv> Expr (Suc (counter h)) nm s (Some c) [] [] KVar"

lemma DesExprState_run:
  assumes "ilas h c = Some m" "find_input m nm = None" "find_state m nm = None" "int_sort s"
  shows "DesExprState (sort_json s) nm c h = Inr (Some (read_var h c nm s),
    h\<lparr>counter := Suc (counter h), ilas := (ilas h)(c \<mapsto> m\<lparr>ila_states := snd (push_back nm (read_var h c nm s) (ila_states m))\<rparr>)\<rparr>)"
proof -
  let ?h = "h\<lparr>counter := Suc (counter h)\<rparr>" and ?v = "read_var h c nm s"
  have "AddState c (Some ?v) ?h = Inr ((), ?h\<lparr>ilas := (ilas ?h)(c \<mapsto> m\<lparr>ila_states := snd (push_back nm ?v (ila_states m))\<rparr>)\<rparr>)"
    using AddState_run [of ?h c m ?v] assms by simp
  then show ?thesis
    using assms(4)
    by (cases s) (simp_all add: DesExprState_def sort_json_def int_sort_def at_size_def at_int_def NewBoolState_def NewBvState_def NewMemState_def
        NewBoolVar_def NewBvVar_def NewMemVar_def ExprVar_bool_def ExprVar_bv_def ExprVar_mem_def MakeBoolSort_def MakeBvSort_def MakeMemSort_def
        set_host_def Let_def)
qed

lemma DesExprInput_run:
  assumes "ilas h c = Some m" "find_input m nm = None" "find_state m nm = None" "int_sort s"
  shows "DesExprInput (sort_json s) nm c h = Inr (Some (read_var h c nm s),
    h\<lparr>counter := Suc (counter h), ilas := (ilas h)(c \<mapsto> m\<lparr>ila_inputs := snd (push_back nm (read_var h c nm s) (ila_inputs m))\<rparr>)\<rparr>)"
proof -
  let ?h = "h\<lparr>counter := Suc (counter h)\<rparr>" and ?v = "read_var h c nm s"
  have "AddInput c (Some ?v) ?h = Inr ((), ?h\<lparr>ilas := (ilas ?h)(c \<mapsto> m\<lparr>ila_inputs := snd (push_back nm ?v (ila_inputs m))\<rparr>)\<rparr>)"
    using AddInput_run [of ?h c m ?v] assms by simp
  then show ?thesis
    using assms(4)
    by (cases s) (simp_all add: DesExprInput_def sort_json_def int_sort_def at_size_def at_int_def NewBoolInput_def NewBvInput_def NewMemInput_def
        NewBoolVar_def NewBvVar_def NewMemVar_def ExprVar_bool_def ExprVar_bv_def ExprVar_mem_def MakeBoolSort_def MakeBvSort_def MakeMemSort_def
        set_host_def Let_def)
qed

text \<open>The variables of an ILA by name.\<close>

lemma var_map_get:
  assumes "var_map_ok kv"
  shows "v \<in> set (vec kv) \<longleftrightarrow> kv_get kv (ename v) = Some v" "kv_get kv n = Some v \<Longrightarrow> ename v = n \<and> is_var v"
proof -
  have k: "kv_inv kv" and e: "\<forall>(n, e) \<in> set (kv_entries kv). ename e = n \<and> is_var e" using assms by (simp_all add: var_map_ok_def)
  have "v \<in> set (vec kv) \<longleftrightarrow> (ename v, v) \<in> set (kv_entries kv)"
    by (subst var_map_vec(1) [OF assms, symmetric]) auto
  then show "v \<in> set (vec kv) \<longleftrightarrow> kv_get kv (ename v) = Some v" using kv.get_iff_mem [OF k] by blast
  show "kv_get kv n = Some v \<Longrightarrow> ename v = n \<and> is_var v" using e kv.get_mem [OF k] by fastforce
qed

definition regs :: "Ila \<Rightarrow> expr set" where
  "regs m = set (vec (ila_inputs m)) \<union> set (vec (ila_states m))"

lemma find_vars:
  assumes "ila_local m"
  shows "v \<in> set (vec (ila_states m)) \<longleftrightarrow> find_state m (ename v) = Some v" "v \<in> set (vec (ila_inputs m)) \<longleftrightarrow> find_input m (ename v) = Some v"
    "find_state m n = Some v \<Longrightarrow> ename v = n \<and> is_var v" "find_input m n = Some v \<Longrightarrow> ename v = n \<and> is_var v"
    "find_state m n = Some v \<Longrightarrow> find_input m n = None" "find_input m n = Some v \<Longrightarrow> find_state m n = None"
proof -
  have ok: "var_map_ok (ila_states m)" "var_map_ok (ila_inputs m)" and k: "kv_inv (ila_states m)" "kv_inv (ila_inputs m)"
    and dis: "kv_keys (ila_inputs m) \<inter> kv_keys (ila_states m) = {}"
    using assms by (simp_all add: ila_local_def var_map_ok_def)
  show "v \<in> set (vec (ila_states m)) \<longleftrightarrow> find_state m (ename v) = Some v"
    unfolding find_state_def by (rule var_map_get(1) [OF ok(1)])
  show "v \<in> set (vec (ila_inputs m)) \<longleftrightarrow> find_input m (ename v) = Some v"
    unfolding find_input_def by (rule var_map_get(1) [OF ok(2)])
  show "find_state m n = Some v \<Longrightarrow> ename v = n \<and> is_var v"
    unfolding find_state_def by (rule var_map_get(2) [OF ok(1)])
  show "find_input m n = Some v \<Longrightarrow> ename v = n \<and> is_var v"
    unfolding find_input_def by (rule var_map_get(2) [OF ok(2)])
  have "n \<notin> kv_keys (ila_states m) \<or> n \<notin> kv_keys (ila_inputs m)" using dis by blast
  then have "kv_get (ila_states m) n = None \<or> kv_get (ila_inputs m) n = None" by (simp only: get_None_iff [OF k(1)] get_None_iff [OF k(2)])
  then show "find_state m n = Some v \<Longrightarrow> find_input m n = None" "find_input m n = Some v \<Longrightarrow> find_state m n = None"
    by (auto simp: find_state_def find_input_def)
qed

text \<open>The new ILA has those variables that have been read.\<close>

definition vars_read :: "Ila \<Rightarrow> (nat \<rightharpoonup> expr) \<Rightarrow> Ila \<Rightarrow> bool" where
  "vars_read m M mc = (\<forall>n. find_state mc n = Option.bind (find_state m n) (\<lambda>v. M (eid v)) \<and>
     find_input mc n = Option.bind (find_input m n) (\<lambda>v. M (eid v)))"

definition same_rest :: "Ila \<Rightarrow> Ila \<Rightarrow> bool" where
  "same_rest mc mc' = (mc' = mc\<lparr>ila_states := ila_states mc', ila_inputs := ila_inputs mc'\<rparr>)"

definition var_step :: "Ila \<Rightarrow> nat \<Rightarrow> Ila \<Rightarrow> heap \<Rightarrow> (nat \<rightharpoonup> expr) \<Rightarrow> Ila \<Rightarrow> heap \<Rightarrow> (nat \<rightharpoonup> expr) \<Rightarrow> bool" where
  "var_step m c mc h M mc' h' M' = (heap_inv h' \<and> ilas h' = (ilas h)(c \<mapsto> mc') \<and> instrs h' = instrs h \<and> counter h \<le> counter h' \<and>
     vars_read m M' mc' \<and> M \<subseteq>\<^sub>m M' \<and> same_rest mc mc' \<and> (\<forall>i d. M' i = Some d \<longrightarrow> M i = Some d \<or> (\<exists>v \<in> regs m. eid v = i \<and> newvar h' v d)))"

lemma find_state_push:
  assumes "kv_inv (ila_states m)" "find_state m k = None"
  shows "find_state (m\<lparr>ila_states := snd (push_back k v (ila_states m))\<rparr>) n = (if n = k then Some v else find_state m n)"
  using assms by (simp add: find_state_def kv.get_push)

lemma find_input_push:
  assumes "kv_inv (ila_inputs m)" "find_input m k = None"
  shows "find_input (m\<lparr>ila_inputs := snd (push_back k v (ila_inputs m))\<rparr>) n = (if n = k then Some v else find_input m n)"
  using assms by (simp add: find_input_def kv.get_push)

lemma vars_read_upd:
  assumes S: "readable S" "regs m \<subseteq> S" and loc: "ila_local m" and r: "vars_read m M mc" and e: "e \<in> regs m"
    and fs: "\<And>n. find_state mc' n = (if n = ename e \<and> e \<in> set (vec (ila_states m)) then Some d else find_state mc n)"
    and fi: "\<And>n. find_input mc' n = (if n = ename e \<and> e \<in> set (vec (ila_inputs m)) then Some d else find_input mc n)"
  shows "vars_read m (M(eid e \<mapsto> d)) mc'"
  unfolding vars_read_def
proof
  fix n
  have old: "find_state mc n = Option.bind (find_state m n) (\<lambda>v. M (eid v))" "find_input mc n = Option.bind (find_input m n) (\<lambda>v. M (eid v))"
    using r by (simp_all add: vars_read_def)
  have same: "Option.bind x (\<lambda>v. (M(eid e \<mapsto> d)) (eid v)) = Option.bind x (\<lambda>v. M (eid v))" if "\<And>v. x = Some v \<Longrightarrow> eid v \<noteq> eid e" for x
    using that by (cases x) auto
  have inj: "eid v \<noteq> eid e" if "v \<in> regs m" "v \<noteq> e" for v
    using S e that unfolding readable_def writable_def coherent_def inj_on_def by blast
  have reg: "v \<in> regs m \<and> ename v = n" if "find_state m n = Some v \<or> find_input m n = Some v" for v
    using that find_vars(1,2) [OF loc, of v] find_vars(3,4) [OF loc, of n v] unfolding regs_def by blast
  show "find_state mc' n = Option.bind (find_state m n) (\<lambda>v. (M(eid e \<mapsto> d)) (eid v)) \<and>
    find_input mc' n = Option.bind (find_input m n) (\<lambda>v. (M(eid e \<mapsto> d)) (eid v))"
  proof (cases "n = ename e")
    case True
    show ?thesis
    proof (cases "e \<in> set (vec (ila_states m))")
      case st: True
      then have "find_state m n = Some e" "find_input m n = None"
        using True find_vars(1) [OF loc, of e] find_vars(5) [OF loc, of "ename e" e] by simp_all
      moreover then have "e \<notin> set (vec (ila_inputs m))" using True find_vars(2) [OF loc, of e] by simp
      ultimately show ?thesis using True st old fs [of n] fi [of n] by simp
    next
      case False
      then have inp: "e \<in> set (vec (ila_inputs m))" using e by (simp add: regs_def)
      then have "find_input m n = Some e" "find_state m n = None"
        using True find_vars(2) [OF loc, of e] find_vars(6) [OF loc, of "ename e" e] by simp_all
      then show ?thesis using True inp False old fs [of n] fi [of n] by simp
    qed
  next
    case False
    then have no: "eid v \<noteq> eid e" if "find_state m n = Some v \<or> find_input m n = Some v" for v using reg [OF that] inj by blast
    have "Option.bind (find_state m n) (\<lambda>v. (M(eid e \<mapsto> d)) (eid v)) = find_state mc n"
      "Option.bind (find_input m n) (\<lambda>v. (M(eid e \<mapsto> d)) (eid v)) = find_input mc n"
      unfolding old by (rule same, rule no, blast)+
    then show ?thesis using False fs [of n] fi [of n] by simp
  qed
qed

lemma var_node_at:
  assumes "is_var e" "eid e < 2 ^ 64"
  shows "at_size (node_json e) ''i'' = ret (eid e)" "at_size (node_json e) ''u'' = ret 1" "at_str (node_json e) ''n'' = ret (ename e)"
    "j_at (node_json e) ''s'' = Inr (sort_json (esort e))"
  using assms by (simp_all add: at_size_def at_str_def node_json_def node_members_def GetUidExpr_def get_str_def)

lemma read_var_new:
  assumes "is_var e" "wf_expr e" "ilas h' c \<noteq> None"
  shows "newvar h' e (read_var h c (ename e) (esort e))"
  using assms wf_node [OF assms(2)] by (simp add: newvar_def host_in_def node_wf_def)

abbreviation read_vars :: "Ila \<Rightarrow> nat \<Rightarrow> json \<Rightarrow> J2IDes \<Rightarrow> J2IDes M" where
  "read_vars m c \<equiv> des_var c (map eid (vec (ila_inputs m))) (map eid (vec (ila_states m)))"

lemma var_step_new:
  assumes S: "readable S" "regs m \<subseteq> S" and loc: "ila_local m" and h: "heap_inv h" "ilas h c = Some mc" "vars_read m (id_expr_map st) mc"
    and e: "e \<in> regs m" "id_expr_map st (eid e) = None"
  shows "\<exists>mc' h' M'. read_vars m c (node_json e) st h = Inr (st\<lparr>id_expr_map := M'\<rparr>, h') \<and> var_step m c mc h (id_expr_map st) mc' h' M' \<and> M' (eid e) \<noteq> None"
proof -
  have S': "e \<in> S" "eid e < 2 ^ 64" "int_sort (esort e)" "wf_expr e" using S e(1) by (auto simp: readable_def writable_def)
  have kv: "kv_inv (ila_states mc)" "kv_inv (ila_inputs mc)" using heap_invD(1) [OF h(1,2)] by (simp_all add: ila_local_def var_map_ok_def)
  let ?h = "h\<lparr>counter := Suc (counter h)\<rparr>" and ?d = "read_var h c (ename e) (esort e)"
  let ?M = "(id_expr_map st)(eid e \<mapsto> ?d)"
  have inv: "heap_inv ?h" by (rule heap_inv_alloc [OF h(1)]) (simp add: only_alloc_def)
  have ids: "eid e \<in> eid ` set vs \<longleftrightarrow> e \<in> set vs" if "set vs \<subseteq> regs m" for vs
    using that S S'(1) unfolding readable_def writable_def coherent_def by (meson image_eqI inj_on_image_mem_iff subset_trans)
  have st: "set (vec (ila_states m)) \<subseteq> regs m" "set (vec (ila_inputs m)) \<subseteq> regs m" by (auto simp: regs_def)
  show ?thesis
  proof (cases "e \<in> set (vec (ila_states m))")
    case True
    have f: "find_state m (ename e) = Some e" "find_input m (ename e) = None" and var: "is_var e"
      using True find_vars(1) [OF loc, of e] find_vars(3,5) [OF loc, of "ename e" e] by blast+
    have no: "find_input mc (ename e) = None" "find_state mc (ename e) = None" using h(3) f e(2) by (simp_all add: vars_read_def)
    let ?mc = "mc\<lparr>ila_states := snd (push_back (ename e) ?d (ila_states mc))\<rparr>"
    have "e \<notin> set (vec (ila_inputs m))" using f(2) find_vars(2) [OF loc, of e] by simp
    then have "vars_read m ?M ?mc"
      using True find_state_push [OF kv(1) no(2), of ?d] by (intro vars_read_upd [OF S loc h(3) e(1)]) (auto simp: find_input_def)
    moreover have "heap_inv (?h\<lparr>ilas := (ilas h)(c \<mapsto> ?mc)\<rparr>)" using AddState_inv [OF AddState_run [of ?h c mc ?d] inv] h(2) no by simp
    moreover have "read_vars m c (node_json e) st h = Inr (st\<lparr>id_expr_map := ?M\<rparr>, ?h\<lparr>ilas := (ilas h)(c \<mapsto> ?mc)\<rparr>)"
      using True e(2) DesExprState_run [OF h(2) no S'(3)] var_node_at [OF var S'(2)] by (simp add: des_var_def not_null_def)
    ultimately show ?thesis
      using e read_var_new [OF var S'(4), of "?h\<lparr>ilas := (ilas h)(c \<mapsto> ?mc)\<rparr>" c h]
      by (intro exI [of _ ?mc] exI [of _ "?h\<lparr>ilas := (ilas h)(c \<mapsto> ?mc)\<rparr>"] exI [of _ ?M]) (auto simp: var_step_def map_le_def same_rest_def)
  next
    case False
    then have True: "e \<in> set (vec (ila_inputs m))" using e(1) by (simp add: regs_def)
    have f: "find_input m (ename e) = Some e" "find_state m (ename e) = None" and var: "is_var e"
      using True find_vars(2) [OF loc, of e] find_vars(4,6) [OF loc, of "ename e" e] by blast+
    have no: "find_input mc (ename e) = None" "find_state mc (ename e) = None" using h(3) f e(2) by (simp_all add: vars_read_def)
    let ?mc = "mc\<lparr>ila_inputs := snd (push_back (ename e) ?d (ila_inputs mc))\<rparr>"
    have "vars_read m ?M ?mc"
      using True False find_input_push [OF kv(2) no(1), of ?d] by (intro vars_read_upd [OF S loc h(3) e(1)]) (auto simp: find_state_def)
    moreover have "heap_inv (?h\<lparr>ilas := (ilas h)(c \<mapsto> ?mc)\<rparr>)" using AddInput_inv [OF AddInput_run [of ?h c mc ?d] inv] h(2) no by simp
    moreover have "read_vars m c (node_json e) st h = Inr (st\<lparr>id_expr_map := ?M\<rparr>, ?h\<lparr>ilas := (ilas h)(c \<mapsto> ?mc)\<rparr>)"
      using True False e(2) DesExprInput_run [OF h(2) no S'(3)] var_node_at [OF var S'(2)] ids [OF st(1)] by (simp add: des_var_def not_null_def)
    ultimately show ?thesis
      using e read_var_new [OF var S'(4), of "?h\<lparr>ilas := (ilas h)(c \<mapsto> ?mc)\<rparr>" c h]
      by (intro exI [of _ ?mc] exI [of _ "?h\<lparr>ilas := (ilas h)(c \<mapsto> ?mc)\<rparr>"] exI [of _ ?M]) (auto simp: var_step_def map_le_def same_rest_def)
  qed
qed

lemma newvar_mono: "newvar h v d \<Longrightarrow> dom (ilas h) \<subseteq> dom (ilas h') \<Longrightarrow> newvar h' v d"
  by (auto simp: newvar_def host_in_def)

lemma var_step_refl: "heap_inv h \<Longrightarrow> ilas h c = Some mc \<Longrightarrow> vars_read m M mc \<Longrightarrow> var_step m c mc h M mc h M"
  by (simp add: var_step_def same_rest_def fun_upd_idem)

lemma var_step_trans:
  assumes 1: "var_step m c mc h M mc1 h1 M1" and 2: "var_step m c mc1 h1 M1 mc2 h2 M2"
  shows "var_step m c mc h M mc2 h2 M2"
proof -
  have "dom (ilas h1) \<subseteq> dom (ilas h2)" using 2 by (auto simp: var_step_def)
  then have "newvar h2 v d" if "newvar h1 v d" for v d using newvar_mono [OF that] by blast
  then have "\<forall>i d. M2 i = Some d \<longrightarrow> M i = Some d \<or> (\<exists>v \<in> regs m. eid v = i \<and> newvar h2 v d)"
    using 1 2 unfolding var_step_def by blast
  moreover have "same_rest mc mc2" using 1 2 by (cases mc; cases mc1; cases mc2) (simp add: var_step_def same_rest_def)
  ultimately show ?thesis using 1 2 map_le_trans by (auto simp: var_step_def)
qed

lemma des_var_skip:
  assumes S: "readable S" "regs m \<subseteq> S" "e \<in> S" and e: "e \<notin> regs m \<or> id_expr_map st (eid e) \<noteq> None"
  shows "read_vars m c (node_json e) st h = Inr (st, h)"
proof (cases "id_expr_map st (eid e) = None \<and> is_var e")
  case True
  have lt: "eid e < 2 ^ 64" using S by (auto simp: readable_def writable_def)
  have "eid e \<notin> eid ` regs m"
    using e True S unfolding readable_def writable_def coherent_def by (meson inj_on_image_mem_iff)
  then have "eid e \<notin> eid ` set (vec (ila_inputs m))" "eid e \<notin> eid ` set (vec (ila_states m))" by (auto simp: regs_def)
  then show ?thesis using True var_node_at [of e] lt by (simp add: des_var_def)
next
  case False
  have lt: "eid e < 2 ^ 64" using S by (auto simp: readable_def writable_def)
  show ?thesis
  proof (cases "is_var e")
    case True
    then show ?thesis using False lt by (simp add: des_var_def node_at)
  next
    case no: False
    then have "GetUidExpr e \<noteq> 1" by (cases "ekind e") (simp_all add: GetUidExpr_def)
    then show ?thesis using lt by (simp add: des_var_def node_at)
  qed
qed

lemma DesVars_run:
  assumes S: "readable S" "regs m \<subseteq> S" and loc: "ila_local m"
  shows "set es \<subseteq> S \<Longrightarrow> heap_inv h \<Longrightarrow> ilas h c = Some mc \<Longrightarrow> vars_read m (id_expr_map st) mc \<Longrightarrow>
    \<exists>mc' h' M'. foldM (read_vars m c) (map node_json es) st h = Inr (st\<lparr>id_expr_map := M'\<rparr>, h') \<and>
      var_step m c mc h (id_expr_map st) mc' h' M' \<and> (\<forall>v \<in> set es \<inter> regs m. M' (eid v) \<noteq> None)"
proof (induction es arbitrary: st h mc)
  case Nil
  then show ?case
    using var_step_refl [OF Nil(2-4)] by (intro exI [of _ mc] exI [of _ h] exI [of _ "id_expr_map st"]) simp
next
  case (Cons e es)
  have "\<exists>mc1 h1 M1. read_vars m c (node_json e) st h = Inr (st\<lparr>id_expr_map := M1\<rparr>, h1) \<and> var_step m c mc h (id_expr_map st) mc1 h1 M1 \<and>
      (e \<in> regs m \<longrightarrow> M1 (eid e) \<noteq> None)"
  proof (cases "e \<in> regs m \<and> id_expr_map st (eid e) = None")
    case True
    then show ?thesis using var_step_new [OF S loc Cons.prems(2-4), of e] by blast
  next
    case False
    then have "read_vars m c (node_json e) st h = Inr (st, h)" using Cons.prems(1) by (intro des_var_skip [OF S]) auto
    then show ?thesis
      using var_step_refl [OF Cons.prems(2-4)] False by (intro exI [of _ mc] exI [of _ h] exI [of _ "id_expr_map st"]) simp
  qed
  then obtain mc1 h1 M1 where 1: "read_vars m c (node_json e) st h = Inr (st\<lparr>id_expr_map := M1\<rparr>, h1)"
    "var_step m c mc h (id_expr_map st) mc1 h1 M1" "e \<in> regs m \<Longrightarrow> M1 (eid e) \<noteq> None" by blast
  have "heap_inv h1" "ilas h1 c = Some mc1" "vars_read m M1 mc1" using 1(2) by (simp_all add: var_step_def)
  then obtain mc' h' M' where 2: "foldM (read_vars m c) (map node_json es) (st\<lparr>id_expr_map := M1\<rparr>) h1 = Inr (st\<lparr>id_expr_map := M'\<rparr>, h')"
    "var_step m c mc1 h1 M1 mc' h' M'" "\<forall>v \<in> set es \<inter> regs m. M' (eid v) \<noteq> None"
    using Cons.IH [of h1 mc1 "st\<lparr>id_expr_map := M1\<rparr>"] Cons.prems(1) by auto
  have "M' (eid e) \<noteq> None" if "e \<in> regs m" using 1(3) [OF that] 2(2) by (metis var_step_def domIff map_le_def)
  then show ?case
    using 1(1) 2 var_step_trans [OF 1(2) 2(2)] by (intro exI [of _ mc'] exI [of _ h'] exI [of _ M']) auto
qed

end
