(* ===== verification/JsonTree.thy ===== *)
theory JsonTree
  imports JsonVars
begin

text \<open>
  The tree of ILAs that the deserializer creates: one ILA for every ILA of the tree that was written, with its name, its
  variables and its children.
\<close>

section \<open>Trees with distinct names\<close>

abbreviation ila_at :: "heap \<Rightarrow> nat \<Rightarrow> Ila" where
  "ila_at h q \<equiv> the (ilas h q)"

abbreviation name_at :: "heap \<Rightarrow> nat \<Rightarrow> string" where
  "name_at h q \<equiv> ila_name (ila_at h q)"

abbreviation tree :: "heap \<Rightarrow> nat \<Rightarrow> nat set" where
  "tree h p \<equiv> {q. in_tree h p q}"

fun tree_names :: "heap \<Rightarrow> nat \<Rightarrow> nat \<Rightarrow> string list" where
  "tree_names h 0 p = []"
| "tree_names h (Suc n) p = name_at h p # concat (map (tree_names h n) (vec (ila_childs (ila_at h p))))"

lemma tree_rec: "ilas h p = Some m \<Longrightarrow> tree h p = insert p (\<Union>c \<in> set (vec (ila_childs m)). tree h c)"
  by (auto simp: in_tree_iff [of h p])

lemma set_tree_names:
  assumes "heap_inv h"
  shows "ilas h p \<noteq> None \<Longrightarrow> counter h - p < n \<Longrightarrow> set (tree_names h n p) = name_at h ` tree h p"
proof (induction n arbitrary: p)
  case (Suc n)
  then obtain m where m: "ilas h p = Some m" by blast
  have "set (tree_names h n c) = name_at h ` tree h c" if c: "c \<in> set (vec (ila_childs m))" for c
    using child_links [OF assms m c] Suc.prems(2) by (intro Suc.IH) auto
  then show ?case using m by (auto simp: tree_rec [OF m])
qed simp

section \<open>The new ILA of an ILA\<close>

abbreviation twin :: "heap \<Rightarrow> (string \<rightharpoonup> nat) \<Rightarrow> nat \<Rightarrow> nat" where
  "twin h N q \<equiv> the (N (name_at h q))"

text \<open>It has no functions yet, and the children that have been read.\<close>

definition blank :: "Ila \<Rightarrow> bool" where
  "blank mc = (ila_fetch mc = None \<and> ila_valid mc = None \<and> ila_inits mc = [] \<and> ila_instrs mc = KeyVec_new)"

definition childs_read :: "heap \<Rightarrow> (string \<rightharpoonup> nat) \<Rightarrow> nat list \<Rightarrow> Ila \<Rightarrow> bool" where
  "childs_read h N cs mc = (kv_entries (ila_childs mc) = map (\<lambda>r. (name_at h r, twin h N r)) cs)"

definition raw :: "heap \<Rightarrow> (string \<rightharpoonup> nat) \<Rightarrow> (nat \<rightharpoonup> expr) \<Rightarrow> nat list \<Rightarrow> nat \<Rightarrow> Ila \<Rightarrow> bool" where
  "raw h N M cs q mc = (ila_name mc = name_at h q \<and> vars_read (ila_at h q) M mc \<and> blank mc \<and> childs_read h N cs mc)"

text \<open>The state after the ILAs \<open>K\<close> have been created, each with the children \<open>C\<close>.\<close>

definition vinv :: "expr set \<Rightarrow> heap \<Rightarrow> nat set \<Rightarrow> (nat \<Rightarrow> nat list) \<Rightarrow> heap \<Rightarrow> J2IDes \<Rightarrow> bool" where
  "vinv S h K C g st = (heap_inv g \<and> dom (ila_name_ptr_map st) = name_at h ` K \<and> inj_on (ila_name_ptr_map st) (name_at h ` K) \<and>
     (\<forall>q \<in> K. ila_local (ila_at h q) \<and> regs (ila_at h q) \<subseteq> S \<and> set (C q) \<subseteq> K \<and>
        (\<exists>mc. ilas g (twin h (ila_name_ptr_map st) q) = Some mc \<and> raw h (ila_name_ptr_map st) (id_expr_map st) (C q) q mc)) \<and>
     (\<forall>i d. id_expr_map st i = Some d \<longrightarrow> (\<exists>q \<in> K. \<exists>v \<in> regs (ila_at h q). eid v = i \<and> newvar g v d \<and> ehost v \<in> Some ` K)))"

definition all_read :: "heap \<Rightarrow> nat set \<Rightarrow> J2IDes \<Rightarrow> bool" where
  "all_read h K st = (\<forall>q \<in> K. \<forall>v \<in> regs (ila_at h q). id_expr_map st (eid v) \<noteq> None)"

lemma map_le_Some: "M \<subseteq>\<^sub>m M' \<Longrightarrow> M i = Some d \<Longrightarrow> M' i = Some d"
  by (metis domI map_le_def)

lemma vars_read_cong:
  assumes loc: "ila_local m" and eq: "\<And>v. v \<in> regs m \<Longrightarrow> M' (eid v) = M (eid v)"
  shows "vars_read m M' mc = vars_read m M mc"
proof -
  have reg: "v \<in> regs m" if "find_state m n = Some v \<or> find_input m n = Some v" for n v
    using that find_vars(1,2) [OF loc, of v] find_vars(3,4) [OF loc, of n v] unfolding regs_def by blast
  have "Option.bind x (\<lambda>v. M' (eid v)) = Option.bind x (\<lambda>v. M (eid v))" if "\<And>v. x = Some v \<Longrightarrow> v \<in> regs m" for x
    using eq that by (cases x) simp_all
  then have "Option.bind (find_state m n) (\<lambda>v. M' (eid v)) = Option.bind (find_state m n) (\<lambda>v. M (eid v))"
    "Option.bind (find_input m n) (\<lambda>v. M' (eid v)) = Option.bind (find_input m n) (\<lambda>v. M (eid v))" for n
    using reg by blast+
  then show ?thesis by (simp add: vars_read_def)
qed

lemma vinvD:
  assumes "vinv S h K C g st" "q \<in> K"
  shows "regs (ila_at h q) \<subseteq> S" "set (C q) \<subseteq> K"
    "\<exists>mc. ilas g (twin h (ila_name_ptr_map st) q) = Some mc \<and> raw h (ila_name_ptr_map st) (id_expr_map st) (C q) q mc"
    "ila_name_ptr_map st (name_at h q) = Some (twin h (ila_name_ptr_map st) q)" "ila_local (ila_at h q)"
proof -
  show "regs (ila_at h q) \<subseteq> S" "set (C q) \<subseteq> K" "ila_local (ila_at h q)"
    "\<exists>mc. ilas g (twin h (ila_name_ptr_map st) q) = Some mc \<and> raw h (ila_name_ptr_map st) (id_expr_map st) (C q) q mc"
    using assms unfolding vinv_def by blast+
  have "name_at h q \<in> dom (ila_name_ptr_map st)" using assms by (auto simp: vinv_def)
  then show "ila_name_ptr_map st (name_at h q) = Some (twin h (ila_name_ptr_map st) q)" by (simp add: domIff)
qed

lemma twin_inj:
  assumes "vinv S h K C g st" "q \<in> K" "r \<in> K" "twin h (ila_name_ptr_map st) q = twin h (ila_name_ptr_map st) r"
  shows "name_at h q = name_at h r"
  using assms vinvD(4) [OF assms(1,2)] vinvD(4) [OF assms(1,3)] by (auto simp: vinv_def dest: inj_onD)

text \<open>The variables of one ILA: only its own new ILA changes.\<close>

lemma vinv_vars:
  assumes S: "readable S" and inv: "vinv S h K C g st" and cov: "all_read h (K - {q}) st" and q: "q \<in> K" "inj_on (name_at h) K"
    and mc: "ilas g (twin h (ila_name_ptr_map st) q) = Some mc"
    and host: "\<forall>v \<in> regs (ila_at h q). id_expr_map st (eid v) = None \<longrightarrow> ehost v = Some q"
    and step: "var_step (ila_at h q) (twin h (ila_name_ptr_map st) q) mc g (id_expr_map st) mc' g' M'"
  shows "vinv S h K C g' (st\<lparr>id_expr_map := M'\<rparr>)"
proof -
  let ?N = "ila_name_ptr_map st" and ?M = "id_expr_map st"
  have s: "heap_inv g'" "ilas g' = (ilas g)(twin h ?N q \<mapsto> mc')" "vars_read (ila_at h q) M' mc'" "?M \<subseteq>\<^sub>m M'" "same_rest mc mc'"
    using step by (simp_all add: var_step_def)
  have "\<exists>m'. ilas g' (twin h ?N r) = Some m' \<and> raw h ?N M' (C r) r m'" if r: "r \<in> K" for r
  proof (cases "r = q")
    case True
    have "raw h ?N ?M (C q) q mc" using vinvD(3) [OF inv q(1)] mc by simp
    moreover have "ila_name mc' = ila_name mc \<and> blank mc' = blank mc \<and> childs_read h ?N (C q) mc' = childs_read h ?N (C q) mc"
      using s(5) by (cases mc; cases mc') (simp add: same_rest_def blank_def childs_read_def)
    ultimately show ?thesis using True s(2,3) by (simp add: raw_def)
  next
    case False
    obtain m' where m': "ilas g (twin h ?N r) = Some m'" "raw h ?N ?M (C r) r m'" using vinvD(3) [OF inv r] by blast
    have "twin h ?N r \<noteq> twin h ?N q" using twin_inj [OF inv r q(1)] q(2) r q(1) False by (auto dest: inj_onD)
    moreover have "M' (eid v) = ?M (eid v)" if v: "v \<in> regs (ila_at h r)" for v
    proof -
      have "?M (eid v) \<noteq> None" using cov r False v by (auto simp: all_read_def)
      then show ?thesis using map_le_Some [OF s(4)] by (cases "?M (eid v)") auto
    qed
    then have "vars_read (ila_at h r) M' m' = vars_read (ila_at h r) ?M m'" using vinvD(5) [OF inv r] by (intro vars_read_cong) auto
    ultimately show ?thesis using s(2) m' by (simp add: raw_def)
  qed
  moreover have "\<exists>r \<in> K. \<exists>v \<in> regs (ila_at h r). eid v = i \<and> newvar g' v d \<and> ehost v \<in> Some ` K" if "M' i = Some d" for i d
  proof (cases "?M i")
    case None
    then obtain v where "v \<in> regs (ila_at h q)" "eid v = i" "newvar g' v d" using step \<open>M' i = Some d\<close> unfolding var_step_def by fastforce
    then show ?thesis using host None q(1) by blast
  next
    case (Some d')
    then have "?M i = Some d" using map_le_Some [OF s(4) Some] that by simp
    then obtain r v where "r \<in> K" "v \<in> regs (ila_at h r)" "eid v = i" "newvar g v d" "ehost v \<in> Some ` K" using inv unfolding vinv_def by blast
    moreover have "dom (ilas g) \<subseteq> dom (ilas g')" using s(2) by auto
    ultimately show ?thesis using newvar_mono by blast
  qed
  ultimately show ?thesis using inv s(1) by (simp add: vinv_def)
qed

text \<open>A child has the variables of its parent, of the same kind; the others are its own.\<close>

definition inherits :: "Ila \<Rightarrow> nat \<Rightarrow> Ila \<Rightarrow> bool" where
  "inherits m c mc = ((\<forall>n v. find_state m n = Some v \<longrightarrow> find_state mc n = Some v) \<and>
     (\<forall>n v. find_input m n = Some v \<longrightarrow> find_input mc n = Some v) \<and> (\<forall>v \<in> regs mc - regs m. ehost v = Some c))"

lemma childs_read_other:
  "nm \<notin> name_at h ` set cs \<Longrightarrow> childs_read h (N(nm \<mapsto> c)) cs mc = childs_read h N cs mc"
  by (auto simp: childs_read_def cong: map_cong)

lemma find_regs:
  assumes "ila_local m" "find_state m n = Some v \<or> find_input m n = Some v"
  shows "v \<in> regs m"
  using assms(2) find_vars(1,2) [OF assms(1), of v] find_vars(3,4) [OF assms(1), of n v] unfolding regs_def by blast

lemma vars_read_child:
  assumes loc: "ila_local m" "ila_local mq" and i: "inherits m q mq" and r: "vars_read m M mp"
    and no: "\<And>v. v \<in> regs mq \<Longrightarrow> v \<notin> regs m \<Longrightarrow> M (eid v) = None"
    and mc: "\<And>n. find_state mc n = find_state mp n" "\<And>n. find_input mc n = find_input mp n"
  shows "vars_read mq M mc"
  unfolding vars_read_def
proof (intro allI conjI)
  fix n
  have regs: "v \<in> regs m \<longrightarrow> find_state m n = Some v \<or> find_input m n = Some v" if "ename v = n" for v
    using that find_vars(1,2) [OF loc(1), of v] by (auto simp: regs_def)
  have p: "find_state mp n = Option.bind (find_state m n) (\<lambda>v. M (eid v))" "find_input mp n = Option.bind (find_input m n) (\<lambda>v. M (eid v))"
    using r by (simp_all add: vars_read_def)
  have new: "M (eid v) = None" if v: "find_state mq n = Some v \<or> find_input mq n = Some v" "find_state m n \<noteq> Some v" "find_input m n \<noteq> Some v" for v
    using no find_regs [OF loc(2) v(1)] regs v find_vars(3,4) [OF loc(2), of n v] by blast
  show "find_state mc n = Option.bind (find_state mq n) (\<lambda>v. M (eid v))"
  proof (cases "find_state m n")
    case (Some v)
    then show ?thesis using i p(1) mc(1) [of n] by (simp add: inherits_def)
  next
    case None
    have "M (eid v) = None" if v: "find_state mq n = Some v" for v
    proof (rule new)
      have "find_input mq n = None" by (rule find_vars(5) [OF loc(2) v])
      then show "find_input m n \<noteq> Some v" using i by (auto simp: inherits_def)
    qed (use None v in simp_all)
    then show ?thesis using None p(1) mc(1) [of n] by (cases "find_state mq n") simp_all
  qed
  show "find_input mc n = Option.bind (find_input mq n) (\<lambda>v. M (eid v))"
  proof (cases "find_input m n")
    case (Some v)
    then show ?thesis using i p(2) mc(2) [of n] by (simp add: inherits_def)
  next
    case None
    have "M (eid v) = None" if v: "find_input mq n = Some v" for v
    proof (rule new)
      have "find_state mq n = None" by (rule find_vars(6) [OF loc(2) v])
      then show "find_state m n \<noteq> Some v" using i by (auto simp: inherits_def)
    qed (use None v in simp_all)
    then show ?thesis using None p(2) mc(2) [of n] by (cases "find_input mq n") simp_all
  qed
qed

lemma raw_push:
  assumes mp: "raw h N M cs r mp" "ila_local mp" and nm: "name_at h q \<notin> name_at h ` set cs"
  shows "raw h (N(name_at h q \<mapsto> c)) M (cs @ [q]) r (mp\<lparr>ila_childs := snd (push_back (name_at h q) c (ila_childs mp))\<rparr>)"
proof -
  have "kv_entries (ila_childs mp) = map (\<lambda>s. (name_at h s, twin h N s)) cs" using mp(1) by (simp add: raw_def childs_read_def)
  then have "name_at h q \<notin> fst ` set (kv_entries (ila_childs mp))" using nm by auto
  then have "kv_entries (snd (push_back (name_at h q) c (ila_childs mp))) = kv_entries (ila_childs mp) @ [(name_at h q, c)]"
    using mp(2) kv.push_eq [of "ila_childs mp" "name_at h q" c] by (simp add: ila_local_def)
  moreover have "childs_read h (N(name_at h q \<mapsto> c)) cs mp" using mp(1) childs_read_other [OF nm] by (simp add: raw_def)
  ultimately show ?thesis using mp(1) by (simp add: raw_def childs_read_def blank_def vars_read_def find_state_def find_input_def)
qed

lemma vinv_root:
  assumes "heap_inv g" "ila_local (ila_at h p)" "regs (ila_at h p) \<subseteq> S"
  shows "vinv S h {p} (\<lambda>_. []) (g\<lparr>counter := counter g + 1, ilas := (ilas g)(counter g + 1 \<mapsto> ila_init (name_at h p) None)\<rparr>)
    (J2IDes_New\<lparr>ila_name_ptr_map := [name_at h p \<mapsto> counter g + 1]\<rparr>)"
proof -
  let ?g = "g\<lparr>counter := counter g + 1, ilas := (ilas g)(counter g + 1 \<mapsto> ila_init (name_at h p) None)\<rparr>"
  have "heap_inv ?g" by (rule New_inv [OF assms(1)]) (simp_all add: New_run)
  moreover have "raw h [name_at h p \<mapsto> counter g + 1] Map.empty [] p (ila_init (name_at h p) None)"
  proof -
    have "Option.bind x (\<lambda>v. None) = None" for x :: "expr option" by (cases x) simp_all
    then show ?thesis by (simp add: raw_def blank_def childs_read_def vars_read_def ila_init_def find_state_def find_input_def kv.get_spec)
  qed
  ultimately show ?thesis using assms(2,3) by (simp add: vinv_def J2IDes_New_def)
qed

lemma map_upd_inj: "inj_on N A \<Longrightarrow> a \<notin> A \<Longrightarrow> Some c \<notin> N ` A \<Longrightarrow> inj_on (N(a \<mapsto> c)) (insert a A)"
  unfolding inj_on_def by (metis fun_upd_apply imageI insert_iff)

lemma vinv_fresh:
  assumes S: "readable S" and inv: "vinv S h K C g st" and q: "q \<notin> K" "v \<in> S" "ehost v = Some q"
  shows "id_expr_map st (eid v) = None"
proof (rule ccontr)
  assume "id_expr_map st (eid v) \<noteq> None"
  then obtain r w where w: "r \<in> K" "w \<in> regs (ila_at h r)" "eid w = eid v" "ehost w \<in> Some ` K"
    using inv unfolding vinv_def by blast
  then have "w \<in> S" using vinvD(1) [OF inv] by blast
  then have "w = v" using S q(2) w(3) unfolding readable_def writable_def coherent_def inj_on_def by blast
  then show False using w(4) q by auto
qed

lemma raw_child:
  assumes S: "readable S" and inv: "vinv S h K C g st" and r: "r \<in> K" and q: "q \<notin> K" "ila_local (ila_at h q)" "regs (ila_at h q) \<subseteq> S"
    and i: "inherits (ila_at h r) q (ila_at h q)" and mp: "raw h N (id_expr_map st) cs r mp"
    and fs: "\<And>n. find_state mc n = find_state mp n" "\<And>n. find_input mc n = find_input mp n"
    and mc: "ila_name mc = name_at h q" "blank mc" "kv_entries (ila_childs mc) = []"
  shows "raw h N' (id_expr_map st) [] q mc"
proof -
  have no: "id_expr_map st (eid v) = None" if "v \<in> regs (ila_at h q)" "v \<notin> regs (ila_at h r)" for v
    using vinv_fresh [OF S inv q(1), of v] that q(3) i unfolding inherits_def by blast
  have vr: "vars_read (ila_at h r) (id_expr_map st) mp" using mp by (simp add: raw_def)
  have "vars_read (ila_at h q) (id_expr_map st) mc" by (rule vars_read_child [OF vinvD(5) [OF inv r] q(2) i vr no fs])
  then show ?thesis using mc by (simp add: raw_def childs_read_def)
qed

lemma vinv_names:
  assumes inv: "vinv S h K C g st" and q: "name_at h q \<notin> name_at h ` K" and c: "\<And>s. s \<in> K \<Longrightarrow> twin h (ila_name_ptr_map st) s \<noteq> c"
  shows "dom ((ila_name_ptr_map st)(name_at h q \<mapsto> c)) = name_at h ` insert q K"
    "inj_on ((ila_name_ptr_map st)(name_at h q \<mapsto> c)) (name_at h ` insert q K)"
proof -
  let ?N = "ila_name_ptr_map st"
  have dom: "dom ?N = name_at h ` K" "inj_on ?N (name_at h ` K)" using inv by (simp_all add: vinv_def)
  then show "dom (?N(name_at h q \<mapsto> c)) = name_at h ` insert q K" by auto
  have "Some c \<noteq> ?N (name_at h s)" if "s \<in> K" for s using c [OF that] vinvD(4) [OF inv that] by (metis option.sel)
  then have "Some c \<notin> ?N ` name_at h ` K" by blast
  from map_upd_inj [OF dom(2) q this] show "inj_on (?N(name_at h q \<mapsto> c)) (name_at h ` insert q K)" by simp
qed

lemma vinv_child:
  assumes S: "readable S" and inv: "vinv S h K C g st" and cov: "all_read h K st" and r: "r \<in> K" "inj_on (name_at h) K"
    and q: "ila_local (ila_at h q)" "regs (ila_at h q) \<subseteq> S" "name_at h q \<notin> name_at h ` K" and i: "inherits (ila_at h r) q (ila_at h q)"
  shows "\<exists>c g'. NewChild (twin h (ila_name_ptr_map st) r) (name_at h q) g = Inr (c, g') \<and>
    vinv S h (insert q K) (C(q := [], r := C r @ [q])) g' (st\<lparr>ila_name_ptr_map := (ila_name_ptr_map st)(name_at h q \<mapsto> c)\<rparr>) \<and>
    (\<forall>v \<in> regs (ila_at h q). id_expr_map st (eid v) = None \<longrightarrow> ehost v = Some q)"
proof -
  let ?N = "ila_name_ptr_map st" and ?M = "id_expr_map st" and ?c = "counter g + 1" and ?nm = "name_at h q"
  let ?N' = "?N(?nm \<mapsto> ?c)" and ?C = "C(q := [], r := C r @ [q])"
  have g: "heap_inv g" and qK: "q \<notin> K" using inv q(3) by (auto simp: vinv_def)
  obtain mp where mp: "ilas g (twin h ?N r) = Some mp" "raw h ?N ?M (C r) r mp" using vinvD(3) [OF inv r(1)] by blast
  let ?p' = "mp\<lparr>ila_childs := snd (push_back ?nm ?c (ila_childs mp))\<rparr>"
  obtain sts inp where new: "NewChild (twin h ?N r) ?nm g = Inr (?c, g\<lparr>counter := ?c, ilas := (ilas g)
       (?c \<mapsto> (ila_init ?nm (Some (twin h ?N r)))\<lparr>ila_states := sts, ila_inputs := inp\<rparr>, twin h ?N r \<mapsto> ?p')\<rparr>)"
     and kv: "kv_inv sts" "kv_inv inp" "kv_entries sts = kv_entries (ila_states mp)" "kv_entries inp = kv_entries (ila_inputs mp)"
    using NewChild_run [OF g mp(1), of ?nm] by blast
  let ?mc = "(ila_init ?nm (Some (twin h ?N r)))\<lparr>ila_states := sts, ila_inputs := inp\<rparr>"
  let ?g = "g\<lparr>counter := ?c, ilas := (ilas g)(?c \<mapsto> ?mc, twin h ?N r \<mapsto> ?p')\<rparr>"
  have locp: "ila_local mp" by (rule heap_invD(1) [OF g mp(1)])
  have inv': "heap_inv ?g" using NewChild_inv [OF _ new g] mp(1) by simp
  have old: "twin h ?N s \<noteq> ?c" "?N' (name_at h s) = ?N (name_at h s)" if s: "s \<in> K" for s
  proof -
    obtain ms where "ilas g (twin h ?N s) = Some ms" using vinvD(3) [OF inv s] by blast
    from heap_invD(3) [OF g this] show "twin h ?N s \<noteq> ?c" by simp
    have "name_at h s \<noteq> ?nm" using q(3) s by (metis imageI)
    then show "?N' (name_at h s) = ?N (name_at h s)" by simp
  qed
  have own: "\<forall>v \<in> regs (ila_at h q). ?M (eid v) = None \<longrightarrow> ehost v = Some q"
    using i cov r(1) unfolding inherits_def all_read_def by blast
  have "raw h ?N' ?M [] q ?mc"
    by (rule raw_child [OF S inv r(1) qK q(1,2) i mp(2)]) (use kv locp in \<open>simp_all add: find_state_def find_input_def kv.get_spec
      ila_local_def var_map_ok_def blank_def ila_init_def\<close>)
  moreover have "raw h ?N' ?M (C r @ [q]) r ?p'"
    using raw_push [OF mp(2) locp] vinvD(2) [OF inv r(1)] q(3) by blast
  moreover have "\<exists>m'. ilas ?g (twin h ?N' s) = Some m' \<and> raw h ?N' ?M (C s) s m'" if s: "s \<in> K" "s \<noteq> r" for s
  proof -
    obtain m' where m': "ilas g (twin h ?N s) = Some m'" "raw h ?N ?M (C s) s m'" using vinvD(3) [OF inv s(1)] by blast
    have "?nm \<notin> name_at h ` set (C s)" using vinvD(2) [OF inv s(1)] q(3) by auto
    then have "raw h ?N' ?M (C s) s m'" using m'(2) childs_read_other by (simp add: raw_def)
    moreover have "twin h ?N s \<noteq> twin h ?N r" using twin_inj [OF inv s(1) r(1)] r s by (auto dest: inj_onD)
    ultimately show ?thesis using m'(1) old [OF s(1)] by simp
  qed
  ultimately have twins: "\<exists>m'. ilas ?g (twin h ?N' s) = Some m' \<and> raw h ?N' ?M (?C s) s m'" if "s \<in> insert q K" for s
    using that old [OF r(1)] r(1) qK by (cases "s = q"; cases "s = r") auto
  have "dom ?N' = name_at h ` insert q K" "inj_on ?N' (name_at h ` insert q K)" using vinv_names [OF inv q(3)] old(1) by blast+
  moreover have "set (?C s) \<subseteq> insert q K \<and> ila_local (ila_at h s) \<and> regs (ila_at h s) \<subseteq> S" if "s \<in> insert q K" for s
    using that vinvD(1,2,5) [OF inv, of s] vinvD(2) [OF inv r(1)] q(1,2) by auto
  moreover have "\<exists>s \<in> insert q K. \<exists>v \<in> regs (ila_at h s). eid v = j \<and> newvar ?g v d \<and> ehost v \<in> Some ` insert q K" if "?M j = Some d" for j d
  proof -
    obtain s v where v: "s \<in> K" "v \<in> regs (ila_at h s)" "eid v = j" "newvar g v d" "ehost v \<in> Some ` K"
      using inv \<open>?M j = Some d\<close> unfolding vinv_def by blast
    have "dom (ilas g) \<subseteq> dom (ilas ?g)" by auto
    from newvar_mono [OF v(4) this] show ?thesis using v by blast
  qed
  ultimately have "vinv S h (insert q K) ?C ?g (st\<lparr>ila_name_ptr_map := ?N'\<rparr>)"
    unfolding vinv_def using inv' twins by simp
  then show ?thesis using new own by blast
qed

section \<open>Reading the variables of the tree\<close>

lemma ila_json_at:
  assumes "ilas h q = Some m"
  shows "at_str (ila_json h (Suc n) q) ''n'' = ret (ila_name m)"
    "j_at (ila_json h (Suc n) q) ''i'' = Inr (JArr (map (\<lambda>e. j_nat (eid e)) (vec (ila_inputs m))))"
    "j_at (ila_json h (Suc n) q) ''s'' = Inr (JArr (map (\<lambda>e. j_nat (eid e)) (vec (ila_states m))))"
    "j_at (ila_json h (Suc n) q) ''f'' = (case ila_fetch m of None \<Rightarrow> Inl LibException | Some e \<Rightarrow> Inr (j_nat (eid e)))"
    "j_at (ila_json h (Suc n) q) ''v'' = Inr (j_nat (eid (the (ila_valid m))))"
    "j_at (ila_json h (Suc n) q) ''instr'' = Inr (JArr (map (instr_json h m) (vec (ila_instrs m))))"
    "j_at (ila_json h (Suc n) q) ''init'' = Inr (JArr (map (\<lambda>e. j_nat (eid e)) (ila_inits m)))"
    "j_at (ila_json h (Suc n) q) ''c'' = Inr (JArr (map (ila_json h n) (vec (ila_childs m))))"
  using assms by (simp_all add: at_str_def get_str_def Let_def map_add_def split: option.splits)

lemma DesVarUnit_run:
  assumes q: "ilas h q = Some m" "\<forall>v \<in> regs m. eid v < 2 ^ 64" and no: "ila_name_ptr_map st (ila_name m) = None"
    and new: "(case par of Some p \<Rightarrow> NewChild p (ila_name m) | None \<Rightarrow> InstrLvlAbs_New (ila_name m) None) g = Inr (c, g')"
  shows "DesVarUnit (ila_json h (Suc n) q) (j_list js) par st g =
    foldM (read_vars m c) js (st\<lparr>ila_name_ptr_map := (ila_name_ptr_map st)(ila_name m \<mapsto> c)\<rparr>) g'"
proof -
  have "mapM (\<lambda>j. lift (get_size j)) (map (\<lambda>e. j_nat (eid e)) vs) = ret (map eid vs)" if "set vs \<subseteq> regs m" for vs
    using that q(2) by (intro mapM_map) auto
  then have "mapM (\<lambda>j. lift (get_size j)) (map (\<lambda>e. j_nat (eid e)) (vec (ila_inputs m))) = ret (map eid (vec (ila_inputs m)))"
    "mapM (\<lambda>j. lift (get_size j)) (map (\<lambda>e. j_nat (eid e)) (vec (ila_states m))) = ret (map eid (vec (ila_states m)))"
    by (simp_all add: regs_def)
  with no new show ?thesis
    unfolding DesVarUnit_def ila_json_at [OF q(1)] by (simp add: ila_check_def Let_def) (simp add: bnd_def)
qed

lemma vinv_unit:
  assumes S: "readable S" and inv: "vinv S h K C g st" and cov: "all_read h (K - {q}) st" and q: "q \<in> K" "inj_on (name_at h) K"
    and host: "\<forall>v \<in> regs (ila_at h q). id_expr_map st (eid v) = None \<longrightarrow> ehost v = Some q"
    and es: "set es \<subseteq> S" "regs (ila_at h q) \<subseteq> set es"
  shows "\<exists>M' g'. foldM (read_vars (ila_at h q) (twin h (ila_name_ptr_map st) q)) (map node_json es) st g = Inr (st\<lparr>id_expr_map := M'\<rparr>, g') \<and>
    vinv S h K C g' (st\<lparr>id_expr_map := M'\<rparr>) \<and> all_read h K (st\<lparr>id_expr_map := M'\<rparr>)"
proof -
  obtain mc where mc: "ilas g (twin h (ila_name_ptr_map st) q) = Some mc" "raw h (ila_name_ptr_map st) (id_expr_map st) (C q) q mc"
    using vinvD(3) [OF inv q(1)] by blast
  have g: "heap_inv g" "vars_read (ila_at h q) (id_expr_map st) mc" using inv mc(2) by (simp_all add: vinv_def raw_def)
  obtain mc' g' M' where 1: "foldM (read_vars (ila_at h q) (twin h (ila_name_ptr_map st) q)) (map node_json es) st g = Inr (st\<lparr>id_expr_map := M'\<rparr>, g')"
    "var_step (ila_at h q) (twin h (ila_name_ptr_map st) q) mc g (id_expr_map st) mc' g' M'" "\<forall>v \<in> set es \<inter> regs (ila_at h q). M' (eid v) \<noteq> None"
    using DesVars_run [OF S vinvD(1,5) [OF inv q(1)] es(1) g(1) mc(1) g(2)] by blast
  have le: "id_expr_map st \<subseteq>\<^sub>m M'" using 1(2) by (simp add: var_step_def)
  have "M' (eid v) \<noteq> None" if v: "r \<in> K" "v \<in> regs (ila_at h r)" for r v
  proof (cases "r = q")
    case True
    then show ?thesis using 1(3) es(2) v(2) by blast
  next
    case False
    then obtain d where "id_expr_map st (eid v) = Some d" using cov v unfolding all_read_def by blast
    from map_le_Some [OF le this] show ?thesis by simp
  qed
  then have "all_read h K (st\<lparr>id_expr_map := M'\<rparr>)" by (simp add: all_read_def)
  then show ?thesis using 1(1) vinv_vars [OF S inv cov q mc(1) host 1(2)] by blast
qed

text \<open>What reading the subtrees of some children of \<open>r\<close> changes.\<close>

definition vstate :: "expr set \<Rightarrow> heap \<Rightarrow> nat set \<Rightarrow> (nat \<Rightarrow> nat list) \<Rightarrow> heap \<Rightarrow> J2IDes \<Rightarrow> bool" where
  "vstate S h K C g st = (vinv S h K C g st \<and> all_read h K st \<and> inj_on (name_at h) K \<and> id_func_map st = Map.empty)"

abbreviation trees :: "heap \<Rightarrow> nat list \<Rightarrow> nat set" where
  "trees h cs \<equiv> \<Union>c \<in> set cs. tree h c"

definition spread :: "expr set \<Rightarrow> heap \<Rightarrow> nat \<Rightarrow> nat list \<Rightarrow> nat set \<Rightarrow> (nat \<Rightarrow> nat list) \<Rightarrow> J2IDes \<Rightarrow> (nat \<Rightarrow> nat list) \<Rightarrow> heap \<Rightarrow> J2IDes \<Rightarrow> bool" where
  "spread S h r cs K C st C' g' st' = (vstate S h (K \<union> trees h cs) C' g' st' \<and> ila_name_ptr_map st \<subseteq>\<^sub>m ila_name_ptr_map st' \<and>
     (\<forall>s \<in> trees h cs. C' s = vec (ila_childs (ila_at h s))) \<and> (\<forall>s. s \<notin> trees h cs \<longrightarrow> C' s = (if s = r then C r @ cs else C s)))"

lemma spread_trans:
  assumes "spread S h r cs K C st C1 g1 st1" "spread S h r ds (K \<union> trees h cs) C1 st1 C2 g2 st2" "r \<notin> trees h cs"
  shows "spread S h r (cs @ ds) K C st C2 g2 st2"
proof -
  have "K \<union> trees h (cs @ ds) = K \<union> trees h cs \<union> trees h ds" by auto
  moreover have "C2 s = vec (ila_childs (ila_at h s))" if "s \<in> trees h (cs @ ds)" for s
    using assms that by (cases "s \<in> trees h ds") (auto simp: spread_def)
  moreover have "C2 s = (if s = r then C r @ (cs @ ds) else C s)" if "s \<notin> trees h (cs @ ds)" for s
    using assms that by (auto simp: spread_def)
  ultimately show ?thesis using assms(1,2) map_le_trans unfolding spread_def by metis
qed

lemma spread_fold:
  assumes step: "\<And>c K C g st. c \<in> set cs \<Longrightarrow> vstate S h K C g st \<Longrightarrow> ila_name_ptr_map st (name_at h r) = Some p \<Longrightarrow> r \<in> K \<Longrightarrow>
      name_at h ` tree h c \<inter> name_at h ` K = {} \<Longrightarrow> \<exists>C' g' st'. f (j c) st g = Inr (st', g') \<and> spread S h r [c] K C st C' g' st'"
    and st: "vstate S h K C g st" "ila_name_ptr_map st (name_at h r) = Some p" "r \<in> K"
    and names: "\<And>c. c \<in> set cs \<Longrightarrow> set (nms c) = name_at h ` tree h c" "distinct (concat (map nms cs))"
      "name_at h ` trees h cs \<inter> name_at h ` K = {}"
  shows "\<exists>C' g' st'. foldM f (map j cs) st g = Inr (st', g') \<and> spread S h r cs K C st C' g' st'"
  using assms
proof (induction cs arbitrary: K C g st)
  case Nil
  then show ?case by (intro exI [of _ C] exI [of _ g] exI [of _ st]) (simp add: spread_def)
next
  case (Cons c cs)
  have "name_at h ` tree h c \<inter> name_at h ` K = {}" using Cons.prems(7) by auto
  then obtain C1 g1 st1 where 1: "f (j c) st g = Inr (st1, g1)" "spread S h r [c] K C st C1 g1 st1"
    using Cons.prems(1) [of c, OF _ Cons.prems(2-4)] by auto
  have "set (nms c) = name_at h ` tree h c" "set (concat (map nms cs)) = name_at h ` trees h cs"
    using Cons.prems(5) by (simp_all add: image_UN)
  moreover have "set (nms c) \<inter> set (concat (map nms cs)) = {}" using Cons.prems(6) by simp
  ultimately have "name_at h ` trees h cs \<inter> name_at h ` tree h c = {}" by blast
  then have dis: "name_at h ` trees h cs \<inter> name_at h ` (K \<union> tree h c) = {}" using Cons.prems(7) by (simp only: image_Un image_insert list.set UN_insert) blast
  have st1: "vstate S h (K \<union> tree h c) C1 g1 st1" "ila_name_ptr_map st1 (name_at h r) = Some p"
    using 1(2) map_le_Some [of "ila_name_ptr_map st" "ila_name_ptr_map st1" "name_at h r" p] Cons.prems(3) by (simp_all add: spread_def)
  have "\<exists>C' g' st'. foldM f (map j cs) st1 g1 = Inr (st', g') \<and> spread S h r cs (K \<union> tree h c) C1 st1 C' g' st'"
    by (rule Cons.IH [OF Cons.prems(1) st1 _ Cons.prems(5) _ dis]) (use Cons.prems(4,6) in auto)
  then obtain C2 g2 st2 where 2: "foldM f (map j cs) st1 g1 = Inr (st2, g2)" "spread S h r cs (K \<union> tree h c) C1 st1 C2 g2 st2" by blast
  have "r \<notin> trees h [c]" using Cons.prems(4,7) by auto
  then have "spread S h r (c # cs) K C st C2 g2 st2" using spread_trans [OF 1(2), of cs C2 g2 st2] 2(2) by simp
  then show ?case using 1(1) 2(1) by (intro exI [of _ C2] exI [of _ g2] exI [of _ st2]) simp
qed

text \<open>The children are nested in the value of their parent.\<close>

lemma j_at_size: "j_at j k = Inr v \<Longrightarrow> size v < size j"
proof -
  assume "j_at j k = Inr v"
  then obtain kvs where j: "j = JObj kvs" "map_of kvs k = Some v" by (auto simp: j_at_def split: json.splits option.splits)
  then have "(k, v) \<in> set kvs" by (simp add: map_of_SomeD)
  then have "size v \<le> size_list (size_prod (\<lambda>x. 0) size) kvs" by (induction kvs) auto
  then show ?thesis using j(1) by simp
qed

lemma j_elem_size: "x \<in> set xs \<Longrightarrow> size x < size (JArr xs)"
  by (induction xs) auto

lemma child_json_size:
  assumes "ilas h q = Some m" "c \<in> set (vec (ila_childs m))"
  shows "size (ila_json h n c) < size (ila_json h (Suc n) q)"
proof -
  have "size (ila_json h n c) < size (JArr (map (ila_json h n) (vec (ila_childs m))))" using assms(2) by (intro j_elem_size) simp
  also have "\<dots> < size (ila_json h (Suc n) q)" by (rule j_at_size [OF ila_json_at(8) [OF assms(1)]])
  finally show ?thesis .
qed

definition hier_ok :: "expr list \<Rightarrow> heap \<Rightarrow> nat \<Rightarrow> bool" where
  "hier_ok es h p = (\<forall>q m. in_tree h p q \<longrightarrow> ilas h q = Some m \<longrightarrow>
     regs m \<subseteq> set es \<and> (\<forall>c \<in> set (vec (ila_childs m)). inherits m c (ila_at h c)))"

lemma hier_ok_child: "hier_ok es h p \<Longrightarrow> ilas h p = Some m \<Longrightarrow> c \<in> set (vec (ila_childs m)) \<Longrightarrow> hier_ok es h c"
  unfolding hier_ok_def by (blast intro: in_tree.child)

lemma DesVarUnit_child:
  assumes S: "readable S" "set es \<subseteq> S" and inv: "heap_inv h" and q: "ilas h q = Some m" "regs m \<subseteq> set es"
    and st: "vstate S h K C g st" "ila_name_ptr_map st (name_at h r) = Some p" "r \<in> K"
    and i: "inherits (ila_at h r) q m" "ila_name m \<notin> name_at h ` K"
  shows "\<exists>g' st'. DesVarUnit (ila_json h (Suc n) q) (j_list (map node_json es)) (Some p) st g = Inr (st', g') \<and>
    vstate S h (insert q K) (C(q := [], r := C r @ [q])) g' st' \<and> ila_name_ptr_map st \<subseteq>\<^sub>m ila_name_ptr_map st'"
proof -
  have m: "ila_at h q = m" "ila_local m" "regs m \<subseteq> S" using q S(2) heap_invD(1) [OF inv q(1)] by auto
  have v: "vinv S h K C g st" "all_read h K st" "inj_on (name_at h) K" "id_func_map st = Map.empty" using st(1) by (simp_all add: vstate_def)
  have p: "twin h (ila_name_ptr_map st) r = p" using st(2) by simp
  obtain c g1 where 1: "NewChild p (ila_name m) g = Inr (c, g1)"
    "vinv S h (insert q K) (C(q := [], r := C r @ [q])) g1 (st\<lparr>ila_name_ptr_map := (ila_name_ptr_map st)(ila_name m \<mapsto> c)\<rparr>)"
    "\<forall>v \<in> regs m. id_expr_map st (eid v) = None \<longrightarrow> ehost v = Some q"
    using vinv_child [OF S(1) v(1,2) st(3) v(3), of q] m i unfolding p by auto
  let ?st = "st\<lparr>ila_name_ptr_map := (ila_name_ptr_map st)(ila_name m \<mapsto> c)\<rparr>"
  have no: "ila_name_ptr_map st (ila_name m) = None" using v(1) i(2) by (simp add: vinv_def flip: domIff) (metis domIff)
  have qK: "q \<notin> K" using i(2) m(1) by auto
  have "all_read h (insert q K - {q}) ?st" using v(2) qK by (simp add: all_read_def)
  moreover have inj: "inj_on (name_at h) (insert q K)" using v(3) i(2) m(1) qK by simp
  ultimately obtain M' g' where 2: "foldM (read_vars m c) (map node_json es) ?st g1 = Inr (?st\<lparr>id_expr_map := M'\<rparr>, g')"
    "vinv S h (insert q K) (C(q := [], r := C r @ [q])) g' (?st\<lparr>id_expr_map := M'\<rparr>)" "all_read h (insert q K) (?st\<lparr>id_expr_map := M'\<rparr>)"
    using vinv_unit [OF S(1) 1(2), of q es] 1(3) q(2) S(2) m(1) by auto
  have "\<forall>v \<in> regs m. eid v < 2 ^ 64" using S(1) m(3) by (auto simp: readable_def writable_def)
  then have "DesVarUnit (ila_json h (Suc n) q) (j_list (map node_json es)) (Some p) st g = Inr (?st\<lparr>id_expr_map := M'\<rparr>, g')"
    using DesVarUnit_run [OF q(1) _ no, of "Some p" g c g1 n] 1(1) 2(1) by simp
  then show ?thesis
    using 2 inj v(4) no by (intro exI [of _ g'] exI [of _ "?st\<lparr>id_expr_map := M'\<rparr>"]) (auto simp: vstate_def map_le_def)
qed

text \<open>The subtrees of an ILA after its own variables.\<close>

lemma disjoint_shift: "x \<notin> A \<Longrightarrow> insert x A \<inter> B = {} \<Longrightarrow> A \<inter> insert x B = {}"
  by blast

lemma DesVarHier_rest:
  assumes inv: "heap_inv h" and m: "ilas h q = Some m" and n: "counter h - q < Suc n" and dist: "distinct (tree_names h (Suc n) q)"
    and dis: "name_at h ` tree h q \<inter> name_at h ` K = {}"
    and unit: "DesVarUnit (ila_json h (Suc n) q) ast par st g = Inr (st1, g1)" "vstate S h (insert q K) C1 g1 st1" "C1 q = []"
    and IH: "\<And>c K C g st p. c \<in> set (vec (ila_childs m)) \<Longrightarrow> vstate S h K C g st \<Longrightarrow> ila_name_ptr_map st (name_at h q) = Some p \<Longrightarrow> q \<in> K \<Longrightarrow>
      name_at h ` tree h c \<inter> name_at h ` K = {} \<Longrightarrow>
      \<exists>C' g' st'. DesVarHier_n k (ila_json h n c) ast (Some p) st g = Inr (st', g') \<and> spread S h q [c] K C st C' g' st'"
  shows "\<exists>C' g' st'. DesVarHier_n (Suc k) (ila_json h (Suc n) q) ast par st g = Inr (st', g') \<and>
    vstate S h (K \<union> tree h q) C' g' st' \<and> ila_name_ptr_map st1 \<subseteq>\<^sub>m ila_name_ptr_map st' \<and>
    (\<forall>s \<in> tree h q. C' s = vec (ila_childs (ila_at h s))) \<and> (\<forall>s. s \<notin> tree h q \<longrightarrow> C' s = C1 s)"
proof -
  let ?cs = "vec (ila_childs m)"
  have at: "ila_at h q = m" using m by simp
  have "vinv S h (insert q K) C1 g1 st1" using unit(2) by (simp add: vstate_def)
  from vinvD(4) [OF this, of q] obtain p where p: "ila_name_ptr_map st1 (name_at h q) = Some p" by blast
  have nms: "set (tree_names h n c) = name_at h ` tree h c" if "c \<in> set ?cs" for c
    using child_links [OF inv m that] n by (intro set_tree_names [OF inv]) auto
  then have cn: "set (concat (map (tree_names h n) ?cs)) = name_at h ` trees h ?cs" by (simp add: image_UN)
  have d: "distinct (concat (map (tree_names h n) ?cs))" "name_at h q \<notin> name_at h ` trees h ?cs" using dist unfolding cn [symmetric] by (simp_all add: m)
  have rec: "tree h q = insert q (trees h ?cs)" by (rule tree_rec [OF m])
  have "name_at h ` trees h ?cs \<inter> name_at h ` insert q K = {}" using disjoint_shift [OF d(2)] dis unfolding rec by simp
  then obtain C' g' st' where 1: "foldM (\<lambda>j st. DesVarHier_n k j ast (Some p) st) (map (ila_json h n) ?cs) st1 g1 = Inr (st', g')"
    "spread S h q ?cs (insert q K) C1 st1 C' g' st'"
    using spread_fold [where f = "\<lambda>j st. DesVarHier_n k j ast (Some p) st" and j = "ila_json h n" and nms = "tree_names h n", OF IH unit(2) p insertI1 nms d(1)]
    by blast
  have "q \<notin> trees h ?cs" using d(2) by blast
  then have "\<forall>s \<in> tree h q. C' s = vec (ila_childs (ila_at h s))" "\<forall>s. s \<notin> tree h q \<longrightarrow> C' s = C1 s"
    using 1(2) unit(3) unfolding rec spread_def by (auto simp: at)
  moreover have "vstate S h (K \<union> tree h q) C' g' st'" using 1(2) by (simp add: spread_def rec)
  moreover have "DesVarHier_n (Suc k) (ila_json h (Suc n) q) ast par st g = Inr (st', g')"
    using unit(1) 1(1) p by (simp add: ila_json_at [OF m] ila_named_def at del: ila_json.simps)
  ultimately show ?thesis using 1(2) unfolding spread_def by blast
qed

lemma DesVarHier_run:
  assumes S: "readable S" "set es \<subseteq> S" and inv: "heap_inv h"
  shows "ilas h q \<noteq> None \<Longrightarrow> counter h - q < n \<Longrightarrow> size (ila_json h n q) < k \<Longrightarrow> distinct (tree_names h n q) \<Longrightarrow> hier_ok es h q \<Longrightarrow>
    vstate S h K C g st \<Longrightarrow> ila_name_ptr_map st (name_at h r) = Some p \<Longrightarrow> r \<in> K \<Longrightarrow> inherits (ila_at h r) q (ila_at h q) \<Longrightarrow>
    name_at h ` tree h q \<inter> name_at h ` K = {} \<Longrightarrow>
    \<exists>C' g' st'. DesVarHier_n k (ila_json h n q) (j_list (map node_json es)) (Some p) st g = Inr (st', g') \<and> spread S h r [q] K C st C' g' st'"
proof (induction n arbitrary: q r p k K C g st)
  case (Suc n)
  obtain m where m: "ilas h q = Some m" using Suc.prems(1) by blast
  obtain k' where k: "k = Suc k'" using Suc.prems(3) by (cases k) auto
  have h: "regs m \<subseteq> set es" "\<forall>c \<in> set (vec (ila_childs m)). inherits m c (ila_at h c)"
    using Suc.prems(5) m in_tree.self [of h q] unfolding hier_ok_def by blast+
  have qt: "q \<in> tree h q" by (simp add: in_tree.self)
  then have qK: "ila_name m \<notin> name_at h ` K" using Suc.prems(10) m by force
  have i: "inherits (ila_at h r) q m" using Suc.prems(9) m by simp
  obtain g1 st1 where 1: "DesVarUnit (ila_json h (Suc n) q) (j_list (map node_json es)) (Some p) st g = Inr (st1, g1)"
    "vstate S h (insert q K) (C(q := [], r := C r @ [q])) g1 st1" "ila_name_ptr_map st \<subseteq>\<^sub>m ila_name_ptr_map st1"
    using DesVarUnit_child [OF S inv m h(1) Suc.prems(6-8) i qK] by blast
  have IH: "\<exists>C' g' st'. DesVarHier_n k' (ila_json h n c) (j_list (map node_json es)) (Some p) st g = Inr (st', g') \<and> spread S h q [c] K C st C' g' st'"
    if "c \<in> set (vec (ila_childs m))" "vstate S h K C g st" "ila_name_ptr_map st (name_at h q) = Some p" "q \<in> K" "name_at h ` tree h c \<inter> name_at h ` K = {}"
    for c K C g st p
  proof (rule Suc.IH [OF _ _ _ _ _ that(2-4) _ that(5)])
    show "ilas h c \<noteq> None" "counter h - c < n" using child_links [OF inv m that(1)] Suc.prems(2) by auto
    show "size (ila_json h n c) < k'" using child_json_size [OF m that(1), of n] Suc.prems(3) k by linarith
    show "distinct (tree_names h n c)" using Suc.prems(4) that(1) m by (auto simp: distinct_concat_iff)
    show "hier_ok es h c" by (rule hier_ok_child [OF Suc.prems(5) m that(1)])
    show "inherits (ila_at h q) c (ila_at h c)" using h(2) that(1) m by simp
  qed
  have rq: "r \<noteq> q" using Suc.prems(8) qK m by force
  then have "(C(q := [], r := C r @ [q])) q = []" by simp
  then have "\<exists>C' g' st'. DesVarHier_n k (ila_json h (Suc n) q) (j_list (map node_json es)) (Some p) st g = Inr (st', g') \<and>
      vstate S h (K \<union> tree h q) C' g' st' \<and> ila_name_ptr_map st1 \<subseteq>\<^sub>m ila_name_ptr_map st' \<and>
      (\<forall>s \<in> tree h q. C' s = vec (ila_childs (ila_at h s))) \<and> (\<forall>s. s \<notin> tree h q \<longrightarrow> C' s = (C(q := [], r := C r @ [q])) s)"
    unfolding k by (rule DesVarHier_rest [OF inv m Suc.prems(2,4,10) 1(1,2)]) (rule IH)
  then obtain C' g' st' where 2: "DesVarHier_n k (ila_json h (Suc n) q) (j_list (map node_json es)) (Some p) st g = Inr (st', g')"
    "vstate S h (K \<union> tree h q) C' g' st'" "ila_name_ptr_map st1 \<subseteq>\<^sub>m ila_name_ptr_map st'"
    "\<forall>s \<in> tree h q. C' s = vec (ila_childs (ila_at h s))" "\<forall>s. s \<notin> tree h q \<longrightarrow> C' s = (C(q := [], r := C r @ [q])) s"
    by (elim exE conjE) (rule that)
  have "spread S h r [q] K C st C' g' st'"
    using 2(2-5) map_le_trans [OF 1(3) 2(3)] qt by (auto simp: spread_def)
  then show ?case using 2(1) by blast
qed simp

lemma DesVarUnit_root:
  assumes S: "readable S" "set es \<subseteq> S" and inv: "heap_inv h" "heap_inv g" and m: "ilas h p = Some m" "regs m \<subseteq> set es"
    and host: "\<forall>v \<in> regs m. ehost v = Some p"
  shows "\<exists>g' st'. DesVarUnit (ila_json h (Suc n) p) (j_list (map node_json es)) None J2IDes_New g = Inr (st', g') \<and>
    vstate S h {p} (\<lambda>_. []) g' st'"
proof -
  let ?c = "counter g + 1" and ?st = "J2IDes_New\<lparr>ila_name_ptr_map := [ila_name m \<mapsto> counter g + 1]\<rparr>"
  let ?g = "g\<lparr>counter := counter g + 1, ilas := (ilas g)(counter g + 1 \<mapsto> ila_init (ila_name m) None)\<rparr>"
  have loc: "ila_at h p = m" "ila_local m" "regs m \<subseteq> S" using m S(2) heap_invD(1) [OF inv(1) m(1)] by auto
  have v: "vinv S h {p} (\<lambda>_. []) ?g ?st" using vinv_root [OF inv(2), of h p S] loc by simp
  have c: "all_read h ({p} - {p}) ?st" by (simp add: all_read_def)
  obtain M' g' where 1: "foldM (read_vars m ?c) (map node_json es) ?st ?g = Inr (?st\<lparr>id_expr_map := M'\<rparr>, g')"
    "vinv S h {p} (\<lambda>_. []) g' (?st\<lparr>id_expr_map := M'\<rparr>)" "all_read h {p} (?st\<lparr>id_expr_map := M'\<rparr>)"
    using vinv_unit [OF S(1) v c, of es] host m(2) S(2) loc(1) by auto
  have lt: "\<forall>v \<in> regs m. eid v < 2 ^ 64" using S(1) loc(3) by (auto simp: readable_def writable_def)
  have "ila_name_ptr_map J2IDes_New (ila_name m) = None" "InstrLvlAbs_New (ila_name m) None g = Inr (?c, ?g)"
    by (simp_all add: J2IDes_New_def New_run)
  then have "DesVarUnit (ila_json h (Suc n) p) (j_list (map node_json es)) None J2IDes_New g = Inr (?st\<lparr>id_expr_map := M'\<rparr>, g')"
    using DesVarUnit_run [OF m(1) lt, of J2IDes_New None g ?c ?g n] 1(1) by (simp add: J2IDes_New_def)
  moreover have "vstate S h {p} (\<lambda>_. []) g' (?st\<lparr>id_expr_map := M'\<rparr>)" using 1(2,3) by (simp add: vstate_def J2IDes_New_def)
  ultimately show ?thesis by blast
qed

lemma DesVarHier_root:
  assumes S: "readable S" "set es \<subseteq> S" and inv: "heap_inv h" "heap_inv g" and m: "ilas h p = Some m" and n: "counter h - p < Suc n"
    and t: "distinct (tree_names h (Suc n) p)" "hier_ok es h p" "\<forall>v \<in> regs m. ehost v = Some p"
  shows "\<exists>C g' st. DesVarHier (ila_json h (Suc n) p) (j_list (map node_json es)) None J2IDes_New g = Inr (st, g') \<and>
    vstate S h (tree h p) C g' st \<and> (\<forall>s \<in> tree h p. C s = vec (ila_childs (ila_at h s)))"
proof -
  have h: "regs m \<subseteq> set es" "\<forall>c \<in> set (vec (ila_childs m)). inherits m c (ila_at h c)"
    using t(2) m in_tree.self [of h p] unfolding hier_ok_def by blast+
  let ?k = "size (ila_json h (Suc n) p)"
  obtain g1 st1 where 1: "DesVarUnit (ila_json h (Suc n) p) (j_list (map node_json es)) None J2IDes_New g = Inr (st1, g1)"
    "vstate S h {p} (\<lambda>_. []) g1 st1" using DesVarUnit_root [OF S inv m h(1) t(3)] by blast
  have IH: "\<exists>C' g' st'. DesVarHier_n ?k (ila_json h n c) (j_list (map node_json es)) (Some q) st g = Inr (st', g') \<and> spread S h p [c] K C st C' g' st'"
    if "c \<in> set (vec (ila_childs m))" "vstate S h K C g st" "ila_name_ptr_map st (name_at h p) = Some q" "p \<in> K" "name_at h ` tree h c \<inter> name_at h ` K = {}"
    for c K C g st q
  proof (rule DesVarHier_run [OF S inv(1) _ _ _ _ _ that(2-4) _ that(5)])
    show "ilas h c \<noteq> None" "counter h - c < n" using child_links [OF inv(1) m that(1)] n by auto
    show "size (ila_json h n c) < ?k" by (rule child_json_size [OF m that(1)])
    show "distinct (tree_names h n c)" using t(1) that(1) m by (auto simp: distinct_concat_iff)
    show "hier_ok es h c" by (rule hier_ok_child [OF t(2) m that(1)])
    show "inherits (ila_at h p) c (ila_at h c)" using h(2) that(1) m by simp
  qed
  have "\<exists>C' g' st'. DesVarHier_n (Suc ?k) (ila_json h (Suc n) p) (j_list (map node_json es)) None J2IDes_New g = Inr (st', g') \<and>
      vstate S h ({} \<union> tree h p) C' g' st' \<and> ila_name_ptr_map st1 \<subseteq>\<^sub>m ila_name_ptr_map st' \<and>
      (\<forall>s \<in> tree h p. C' s = vec (ila_childs (ila_at h s))) \<and> (\<forall>s. s \<notin> tree h p \<longrightarrow> C' s = [])"
    by (rule DesVarHier_rest [OF inv(1) m n t(1) _ 1 refl]) (simp, rule IH)
  then show ?thesis by (simp add: DesVarHier_def del: DesVarHier_n.simps ila_json.simps) blast
qed

end
