(* ===== verification/JsonFuncs.thy ===== *)
theory JsonFuncs
  imports JsonTree
begin

text \<open>
  The functions of the ILAs that the deserializer creates: fetch and valid functions, instructions with their decode and
  update functions, and initial conditions.
\<close>

section \<open>Expressions that have been read\<close>

abbreviation got :: "J2IDes \<Rightarrow> expr \<Rightarrow> expr" where
  "got st e \<equiv> the (id_expr_map st (eid e))"

definition reads :: "(nat \<rightharpoonup> expr) \<Rightarrow> (nat \<rightharpoonup> Func) \<Rightarrow> heap \<Rightarrow> J2IDes \<Rightarrow> expr set \<Rightarrow> bool" where
  "reads D F g st X = (\<forall>e \<in> X. eid e < 2 ^ 64 \<and> id_expr_map st (eid e) \<noteq> None \<and> stands D F g e (got st e))"

lemma stands_mono: "stands D F g e d \<Longrightarrow> dom (ilas g) \<subseteq> dom (ilas g') \<Longrightarrow> stands D F g' e d"
  by (auto simp: stands_def host_in_def)

lemma reads_mono: "reads D F g st X \<Longrightarrow> dom (ilas g) \<subseteq> dom (ilas g') \<Longrightarrow> Y \<subseteq> X \<Longrightarrow> reads D F g' st Y"
  unfolding reads_def using stands_mono by blast

lemma reads_at:
  assumes "reads D F g st X" "e \<in> X"
  shows "eid e < 2 ^ 64" "id_expr_map st (eid e) = Some (got st e)" "stands D F g e (got st e)" "esort (got st e) = esort e"
  using assms by (auto simp: reads_def stands_def)

section \<open>One instruction\<close>

lemma upd_json_at:
  assumes "distinct (map ename vs)" "v \<in> set vs"
  shows "j_find (JObj (upd_json x vs)) (ename v) = Some (j_nat (eid (next_expr x v)))"
proof -
  let ?kv = "\<lambda>v. (ename v, j_nat (eid (next_expr x v)))"
  have "upd_json x vs = fold (\<lambda>(k, v). amap_emplace k v) (map ?kv vs) []" by (simp add: upd_json_def fold_map comp_def)
  moreover have "map_of (map ?kv vs) (ename v) = Some (j_nat (eid (next_expr x v)))"
    using assms by (intro map_of_is_SomeI) (auto simp: comp_def)
  ultimately show ?thesis by (simp add: j_find_def fold_emplace)
qed

lemma des_updates_run:
  assumes "instrs g i = Some x" "amap_ok (instr_updates x)" "distinct (map ename vs)" "\<forall>v \<in> set vs. map_of (instr_updates x) (ename v) = None"
    and "\<forall>v \<in> set vs. \<exists>k. j_find upd (ename v) = Some (j_nat k) \<and> k < 2 ^ 64 \<and> id_expr_map st k = Some (new (ename v))"
  shows "\<exists>U. iterM (des_update st i upd) vs g = Inr ((), g\<lparr>instrs := (instrs g)(i \<mapsto> x\<lparr>instr_updates := U\<rparr>)\<rparr>) \<and> amap_ok U \<and>
    (\<forall>n. map_of U n = (if n \<in> ename ` set vs then Some (new n) else map_of (instr_updates x) n))"
  using assms
proof (induction vs arbitrary: g x)
  case Nil
  then show ?case by (intro exI [of _ "instr_updates x"]) (simp add: fun_upd_idem)
next
  case (Cons v vs)
  let ?x = "x\<lparr>instr_updates := amap_assign (ename v) (new (ename v)) (instr_updates x)\<rparr>"
  let ?g = "g\<lparr>instrs := (instrs g)(i \<mapsto> ?x)\<rparr>"
  have 1: "des_update st i upd v g = Inr ((), ?g)"
    using Cons.prems by (auto simp: des_update_def expr_with_def set_update_var_def set_update_def ForceAddUpdate_def Unify_def)
  have vs: "ename v \<notin> ename ` set vs" using Cons.prems(3) by simp
  have no: "map_of (instr_updates ?x) (ename w) = None" if "w \<in> set vs" for w
  proof -
    have "ename w \<noteq> ename v" using vs that by (metis imageI)
    then show ?thesis using Cons.prems(2,4) that by (simp add: map_of_assign)
  qed
  have "\<exists>U. iterM (des_update st i upd) vs ?g = Inr ((), ?g\<lparr>instrs := (instrs ?g)(i \<mapsto> ?x\<lparr>instr_updates := U\<rparr>)\<rparr>) \<and> amap_ok U \<and>
    (\<forall>n. map_of U n = (if n \<in> ename ` set vs then Some (new n) else map_of (instr_updates ?x) n))"
    by (rule Cons.IH) (use Cons.prems no in simp_all)
  then obtain U where 2: "iterM (des_update st i upd) vs ?g = Inr ((), ?g\<lparr>instrs := (instrs ?g)(i \<mapsto> ?x\<lparr>instr_updates := U\<rparr>)\<rparr>)" "amap_ok U"
    "\<forall>n. map_of U n = (if n \<in> ename ` set vs then Some (new n) else map_of (instr_updates ?x) n)" by blast
  then have "iterM (des_update st i upd) (v # vs) g = Inr ((), g\<lparr>instrs := (instrs g)(i \<mapsto> x\<lparr>instr_updates := U\<rparr>)\<rparr>)" using 1 by simp
  moreover have "\<forall>n. map_of U n = (if n \<in> ename ` set (v # vs) then Some (new n) else map_of (instr_updates x) n)"
    using 2(3) vs Cons.prems(2) by (auto simp: map_of_assign)
  ultimately show ?case using 2(2) by blast
qed

text \<open>The new instruction of an instruction.\<close>

definition instr_twin :: "(nat \<rightharpoonup> expr) \<Rightarrow> (nat \<rightharpoonup> Func) \<Rightarrow> heap \<Rightarrow> Ila \<Rightarrow> nat \<Rightarrow> Instr \<Rightarrow> Instr \<Rightarrow> bool" where
  "instr_twin D F g m c x y = (instr_name y = instr_name x \<and> instr_host y = Some c \<and>
     (\<exists>d. instr_decode y = Some d \<and> stands D F g (the (instr_decode x)) d) \<and>
     (\<forall>v \<in> set (vec (ila_states m)). \<exists>d. update y (ename v) = Some d \<and> stands D F g (next_expr x v) d))"

text \<open>The ILAs that are related: the original, and the new one with its variables.\<close>

definition vars_ok :: "(nat \<rightharpoonup> expr) \<Rightarrow> Ila \<Rightarrow> Ila \<Rightarrow> bool" where
  "vars_ok D m mc = (ila_local m \<and> vars_read m D mc \<and> (\<forall>v \<in> regs m. D (eid v) \<noteq> None))"

lemma DesInstr_run:
  assumes x: "instrs h i = Some x" "instr_decode x = Some d" "e_is_bool d" "instr_name x \<noteq> []"
    and g: "heap_inv g" "ilas g c = Some mc" "vars_ok D m mc" and r: "reads D F g st (instr_exprs m x)"
  shows "\<exists>y. DesInstr st (instr_json h m i) c g = Inr (Suc (counter g), g\<lparr>counter := Suc (counter g),
      ilas := (ilas g)(c \<mapsto> mc\<lparr>ila_instrs := snd (push_back (instr_name x) (Suc (counter g)) (ila_instrs mc))\<rparr>),
      instrs := (instrs g)(Suc (counter g) \<mapsto> y)\<rparr>) \<and> instr_twin D F g m c x y"
proof -
  have d: "d \<in> instr_exprs m x" using x(2) by (simp add: instr_exprs_def)
  then obtain d' where d': "id_expr_map st (eid d) = Some d'" "stands D F g d d'" "eid d < 2 ^ 64" "esort d' = esort d"
    using reads_at [OF r d] by blast
  let ?i = "Suc (counter g)" and ?new = "\<lambda>n. got st (next_expr x (the (find_state m n)))"
  let ?mc = "mc\<lparr>ila_instrs := snd (push_back (instr_name x) ?i (ila_instrs mc))\<rparr>"
  let ?y = "\<lparr>instr_name = instr_name x, instr_host = Some c, instr_decode = Some d', instr_updates = [], instr_prog = None\<rparr>"
  let ?g = "g\<lparr>counter := ?i, ilas := (ilas g)(c \<mapsto> ?mc), instrs := (instrs g)(?i \<mapsto> ?y)\<rparr>"
  have loc: "ila_local m" "ila_local mc" using g(3) heap_invD(1) [OF g(1,2)] by (simp_all add: vars_ok_def)
  then have vm: "var_map_ok (ila_states m)" "var_map_ok (ila_states mc)" by (simp_all add: ila_local_def)
  have old: "\<exists>v. find_state m (ename w) = Some v \<and> v \<in> set (vec (ila_states m)) \<and> ename v = ename w" if "w \<in> set (vec (ila_states mc))" for w
  proof -
    have "find_state mc (ename w) = Some w" using that find_vars(1) [OF loc(2), of w] by simp
    then obtain v where "find_state m (ename w) = Some v" using g(3) by (cases "find_state m (ename w)") (auto simp: vars_ok_def vars_read_def)
    then show ?thesis using find_vars(3) [OF loc(1), of "ename w" v] find_vars(1) [OF loc(1), of v] by auto
  qed
  have upd: "\<forall>w \<in> set (vec (ila_states mc)). \<exists>k. j_find (JObj (upd_json x (vec (ila_states m)))) (ename w) = Some (j_nat k) \<and> k < 2 ^ 64 \<and>
      id_expr_map st k = Some (?new (ename w))"
  proof
    fix w assume "w \<in> set (vec (ila_states mc))"
    then obtain v where v: "find_state m (ename w) = Some v" "v \<in> set (vec (ila_states m))" "ename v = ename w" using old by blast
    have "next_expr x v \<in> instr_exprs m x" using v(2) by (simp add: instr_exprs_def)
    from reads_at(1,2) [OF r this] upd_json_at [OF var_map_vec(3) [OF vm(1)] v(2), of x] v
    show "\<exists>k. j_find (JObj (upd_json x (vec (ila_states m)))) (ename w) = Some (j_nat k) \<and> k < 2 ^ 64 \<and> id_expr_map st k = Some (?new (ename w))" by auto
  qed
  obtain U where U: "iterM (des_update st ?i (JObj (upd_json x (vec (ila_states m))))) (vec (ila_states mc)) ?g =
      Inr ((), ?g\<lparr>instrs := (instrs ?g)(?i \<mapsto> ?y\<lparr>instr_updates := U\<rparr>)\<rparr>)" "\<forall>n. map_of U n = (if n \<in> ename ` set (vec (ila_states mc)) then Some (?new n) else None)"
    using des_updates_run [of ?g ?i ?y "vec (ila_states mc)" "JObj (upd_json x (vec (ila_states m)))" st ?new] var_map_vec(3) [OF vm(2)] upd by auto
  have "j_at (instr_json h m i) ''u'' = Inr (JObj (upd_json x (vec (ila_states m))))" "at_size (instr_json h m i) ''d'' = ret (eid d)"
    "at_str (instr_json h m i) ''n'' = ret (instr_name x)"
    using x(1,2) d'(3) by (simp_all add: instr_json_def at_size_def at_str_def get_str_def)
  then have run: "DesInstr st (instr_json h m i) c g = Inr (?i, ?g\<lparr>instrs := (instrs ?g)(?i \<mapsto> ?y\<lparr>instr_updates := U\<rparr>)\<rparr>)"
    using U(1) g(2) x(3,4) d'(1,4)
    by (simp add: DesInstr_def NewInstr_def Instr_New_def AddInstr_def set_decode_def ForceSetDecode_def expr_with_def not_null_def Unify_def Let_def)
  have "\<exists>e. update (?y\<lparr>instr_updates := U\<rparr>) (ename v) = Some e \<and> stands D F g (next_expr x v) e" if v: "v \<in> set (vec (ila_states m))" for v
  proof -
    have f: "find_state m (ename v) = Some v" "D (eid v) \<noteq> None" using v find_vars(1) [OF loc(1), of v] g(3) by (auto simp: vars_ok_def regs_def)
    then obtain w where w: "find_state mc (ename v) = Some w" using g(3) by (auto simp: vars_ok_def vars_read_def)
    then have "w \<in> set (vec (ila_states mc))" "ename w = ename v" using find_vars(3) [OF loc(2) w] find_vars(1) [OF loc(2), of w] by auto
    then have "ename v \<in> ename ` set (vec (ila_states mc))" by (metis imageI)
    then have "update (?y\<lparr>instr_updates := U\<rparr>) (ename v) = Some (got st (next_expr x v))" using U(2) f(1) by (simp add: update_def)
    moreover have "next_expr x v \<in> instr_exprs m x" using v by (simp add: instr_exprs_def)
    ultimately show ?thesis using reads_at(3) [OF r] by blast
  qed
  then have "instr_twin D F g m c x (?y\<lparr>instr_updates := U\<rparr>)" using d'(2) x(2) by (simp add: instr_twin_def)
  then show ?thesis using run by (intro exI [of _ "?y\<lparr>instr_updates := U\<rparr>"]) simp
qed

lemma keeps_DesInstr: "keeps (DesInstr st j c)"
proof -
  have "keeps (des_update st i upd v)" for i upd v
    by (cases "j_find upd (ename v)") (simp_all add: des_update_def expr_with_def set_update_var_def keeps_intros)
  then show ?thesis unfolding DesInstr_def at_str_def at_size_def expr_with_def by (intro keeps_intros)
qed

section \<open>The instructions of an ILA\<close>

definition instr_reads :: "(nat \<rightharpoonup> expr) \<Rightarrow> (nat \<rightharpoonup> Func) \<Rightarrow> heap \<Rightarrow> J2IDes \<Rightarrow> heap \<Rightarrow> Ila \<Rightarrow> nat \<Rightarrow> bool" where
  "instr_reads D F g st h m i = (\<exists>x d. instrs h i = Some x \<and> instr_decode x = Some d \<and> e_is_bool d \<and> instr_name x \<noteq> [] \<and>
     reads D F g st (instr_exprs m x))"

definition instrs_twin :: "(nat \<rightharpoonup> expr) \<Rightarrow> (nat \<rightharpoonup> Func) \<Rightarrow> heap \<Rightarrow> heap \<Rightarrow> Ila \<Rightarrow> nat \<Rightarrow> nat list \<Rightarrow> (string \<times> nat) list \<Rightarrow> bool" where
  "instrs_twin D F h g m c is es = list_all2 (\<lambda>i (nm, k). \<exists>x y. instrs h i = Some x \<and> instrs g k = Some y \<and> nm = instr_name x \<and>
     instr_twin D F g m c x y) is es"

lemma instr_twin_mono: "instr_twin D F g m c x y \<Longrightarrow> dom (ilas g) \<subseteq> dom (ilas g') \<Longrightarrow> instr_twin D F g' m c x y"
  unfolding instr_twin_def using stands_mono by blast

lemma instrs_twin_mono:
  assumes "instrs_twin D F h g m c is es" "dom (ilas g) \<subseteq> dom (ilas g')" "instrs g \<subseteq>\<^sub>m instrs g'"
  shows "instrs_twin D F h g' m c is es"
  using assms(1) unfolding instrs_twin_def
proof (rule list_all2_mono)
  fix i e
  assume "case e of (nm, k) \<Rightarrow> \<exists>x y. instrs h i = Some x \<and> instrs g k = Some y \<and> nm = instr_name x \<and> instr_twin D F g m c x y"
  then show "case e of (nm, k) \<Rightarrow> \<exists>x y. instrs h i = Some x \<and> instrs g' k = Some y \<and> nm = instr_name x \<and> instr_twin D F g' m c x y"
    using map_le_Some [OF assms(3)] instr_twin_mono [OF _ assms(2)] by (cases e) fastforce
qed

lemma vars_ok_instrs [simp]: "vars_ok D m (mc\<lparr>ila_instrs := k\<rparr>) = vars_ok D m mc"
  by (simp add: vars_ok_def vars_read_def find_state_def find_input_def)

lemma DesInstrs_run:
  assumes "\<forall>i \<in> set is. instr_reads D F g st h m i" "distinct (map (\<lambda>i. instr_name (the (instrs h i))) is)"
    and "\<forall>i \<in> set is. instr_name (the (instrs h i)) \<notin> kv_keys (ila_instrs mc)" "heap_inv g" "ilas g c = Some mc" "vars_ok D m mc"
  shows "\<exists>g' k es. iterM (\<lambda>j. bnd (DesInstr st j c) (\<lambda>_. ret ())) (map (instr_json h m) is) g = Inr ((), g') \<and>
    ilas g' = (ilas g)(c \<mapsto> mc\<lparr>ila_instrs := k\<rparr>) \<and> instrs g \<subseteq>\<^sub>m instrs g' \<and>
    kv_entries k = kv_entries (ila_instrs mc) @ es \<and> instrs_twin D F h g' m c is es"
  using assms
proof (induction "is" arbitrary: g mc)
  case Nil
  then show ?case by (intro exI [of _ g] exI [of _ "ila_instrs mc"] exI [of _ "[]"]) (simp add: instrs_twin_def fun_upd_idem)
next
  case (Cons i "is")
  obtain x d where x: "instrs h i = Some x" "instr_decode x = Some d" "e_is_bool d" "instr_name x \<noteq> []" "reads D F g st (instr_exprs m x)"
    using Cons.prems(1) by (auto simp: instr_reads_def)
  let ?i = "Suc (counter g)" and ?nm = "instr_name x"
  let ?mc = "mc\<lparr>ila_instrs := snd (push_back ?nm ?i (ila_instrs mc))\<rparr>"
  obtain y where y: "DesInstr st (instr_json h m i) c g = Inr (?i, g\<lparr>counter := ?i, ilas := (ilas g)(c \<mapsto> ?mc), instrs := (instrs g)(?i \<mapsto> y)\<rparr>)"
    "instr_twin D F g m c x y" using DesInstr_run [OF x(1-4) Cons.prems(4-6) x(5)] by blast
  let ?g = "g\<lparr>counter := ?i, ilas := (ilas g)(c \<mapsto> ?mc), instrs := (instrs g)(?i \<mapsto> y)\<rparr>"
  have fresh: "instrs g ?i = None" using fresh_instr [OF Cons.prems(4)] by simp
  then have le: "instrs g \<subseteq>\<^sub>m instrs ?g" by (auto simp: map_le_def)
  have dom: "dom (ilas g) \<subseteq> dom (ilas ?g)" by auto
  have inv: "heap_inv ?g" using keeps_DesInstr [of st "instr_json h m i" c] y(1) Cons.prems(4) unfolding keeps_def by blast
  have kv: "kv_inv (ila_instrs mc)" using heap_invD(1) [OF Cons.prems(4,5)] by (simp add: ila_local_def)
  have ents: "kv_entries (ila_instrs ?mc) = kv_entries (ila_instrs mc) @ [(?nm, ?i)]"
    using kv.push_eq [OF kv, of ?nm ?i] Cons.prems(3) x(1) by simp
  have "instr_reads D F ?g st h m j" if "j \<in> set is" for j
    using Cons.prems(1) that reads_mono [OF _ dom subset_refl] unfolding instr_reads_def by fastforce
  moreover have "instr_name (the (instrs h j)) \<notin> kv_keys (ila_instrs ?mc)" if "j \<in> set is" for j
  proof -
    have "instr_name (the (instrs h j)) \<noteq> ?nm" using Cons.prems(2) x(1) that by force
    then show ?thesis using Cons.prems(3) that unfolding ents by simp
  qed
  ultimately have "\<exists>g' k es. iterM (\<lambda>j. bnd (DesInstr st j c) (\<lambda>_. ret ())) (map (instr_json h m) is) ?g = Inr ((), g') \<and>
    ilas g' = (ilas ?g)(c \<mapsto> ?mc\<lparr>ila_instrs := k\<rparr>) \<and> instrs ?g \<subseteq>\<^sub>m instrs g' \<and>
    kv_entries k = kv_entries (ila_instrs ?mc) @ es \<and> instrs_twin D F h g' m c is es"
    using Cons.prems(2,6) inv by (intro Cons.IH) simp_all
  then obtain g' k es where 2: "iterM (\<lambda>j. bnd (DesInstr st j c) (\<lambda>_. ret ())) (map (instr_json h m) is) ?g = Inr ((), g')"
    "ilas g' = (ilas ?g)(c \<mapsto> ?mc\<lparr>ila_instrs := k\<rparr>)" "instrs ?g \<subseteq>\<^sub>m instrs g'"
    "kv_entries k = kv_entries (ila_instrs ?mc) @ es" "instrs_twin D F h g' m c is es" by blast
  have "dom (ilas g) \<subseteq> dom (ilas g')" using 2(2) by auto
  moreover have "instrs g' ?i = Some y" by (rule map_le_Some [OF 2(3)]) simp
  ultimately have "instrs_twin D F h g' m c (i # is) ((?nm, ?i) # es)"
    using 2(5) x(1) instr_twin_mono [OF y(2)] by (simp add: instrs_twin_def)
  then show ?case
    using y(1) 2(1,2,4) map_le_trans [OF le 2(3)] ents
    by (intro exI [of _ g'] exI [of _ k] exI [of _ "(?nm, ?i) # es"]) simp
qed

section \<open>The functions of an ILA\<close>

text \<open>An ILA without a fetch function gets the constant that the deserializer uses as default.\<close>

definition fetch_twin :: "(nat \<rightharpoonup> expr) \<Rightarrow> (nat \<rightharpoonup> Func) \<Rightarrow> heap \<Rightarrow> expr option \<Rightarrow> expr option \<Rightarrow> bool" where
  "fetch_twin D F g f f' = (case f of
       Some e \<Rightarrow> (\<exists>d. f' = Some d \<and> stands D F g e d)
     | None \<Rightarrow> (\<exists>d. f' = Some d \<and> esort d = SortBv 1 \<and> ekind d = KConst (BvVal 1)))"

definition ila_twin :: "(nat \<rightharpoonup> expr) \<Rightarrow> (nat \<rightharpoonup> Func) \<Rightarrow> heap \<Rightarrow> heap \<Rightarrow> Ila \<Rightarrow> nat \<Rightarrow> Ila \<Rightarrow> bool" where
  "ila_twin D F h g m c mc = (ila_name mc = ila_name m \<and> vars_ok D m mc \<and> fetch_twin D F g (ila_fetch m) (ila_fetch mc) \<and>
     (\<exists>d. ila_valid mc = Some d \<and> stands D F g (the (ila_valid m)) d) \<and>
     instrs_twin D F h g m c (vec (ila_instrs m)) (kv_entries (ila_instrs mc)) \<and> list_all2 (stands D F g) (ila_inits m) (ila_inits mc))"

lemma fetch_twin_mono: "fetch_twin D F g f f' \<Longrightarrow> dom (ilas g) \<subseteq> dom (ilas g') \<Longrightarrow> fetch_twin D F g' f f'"
  using stands_mono [of D F g _ _ g'] by (auto simp: fetch_twin_def split: option.splits)

lemma ila_twin_mono:
  assumes "ila_twin D F h g m c mc" "dom (ilas g) \<subseteq> dom (ilas g')" "instrs g \<subseteq>\<^sub>m instrs g'"
  shows "ila_twin D F h g' m c mc"
proof -
  have "fetch_twin D F g' (ila_fetch m) (ila_fetch mc)" using assms(1) fetch_twin_mono [OF _ assms(2)] by (simp add: ila_twin_def)
  moreover have "list_all2 (stands D F g') (ila_inits m) (ila_inits mc)"
    using assms(1) list_all2_mono stands_mono [OF _ assms(2)] unfolding ila_twin_def by blast
  ultimately show ?thesis using assms(1) stands_mono [OF _ assms(2)] instrs_twin_mono [OF _ assms(2,3)] unfolding ila_twin_def by blast
qed

lemma DesInits_run:
  assumes "reads D F g0 st (set es)" "list_all e_is_bool es" "ilas g c = Some mc"
  shows "iterM (\<lambda>j. bnd (lift (get_size j)) (\<lambda>i. bnd (expr_with st i msg) (\<lambda>e. AddInit c (Some e)))) (map (\<lambda>e. j_nat (eid e)) es) g =
    Inr ((), g\<lparr>ilas := (ilas g)(c \<mapsto> mc\<lparr>ila_inits := ila_inits mc @ map (got st) es\<rparr>)\<rparr>)"
  using assms
proof (induction es arbitrary: g mc)
  case Nil
  then show ?case by (simp add: fun_upd_idem)
next
  case (Cons e es)
  obtain d where d: "id_expr_map st (eid e) = Some d" "eid e < 2 ^ 64" "esort d = esort e" using reads_at [OF Cons.prems(1), of e] by auto
  let ?mc = "mc\<lparr>ila_inits := ila_inits mc @ [d]\<rparr>"
  let ?g = "g\<lparr>ilas := (ilas g)(c \<mapsto> ?mc)\<rparr>"
  have "iterM (\<lambda>j. bnd (lift (get_size j)) (\<lambda>i. bnd (expr_with st i msg) (\<lambda>e. AddInit c (Some e)))) (map (\<lambda>e. j_nat (eid e)) es) ?g =
      Inr ((), ?g\<lparr>ilas := (ilas ?g)(c \<mapsto> ?mc\<lparr>ila_inits := ila_inits ?mc @ map (got st) es\<rparr>)\<rparr>)"
    using Cons.prems by (intro Cons.IH) (auto simp: reads_def)
  moreover have "AddInit c (Some d) g = Inr ((), ?g)" using Cons.prems(2,3) d(3) by (simp add: AddInit_def not_null_def Unify_def)
  ultimately show ?case using d(1,2) by (simp add: expr_with_def) (simp add: fun_upd_def)
qed

lemma SetFetch_run: "ilas g c = Some mc \<Longrightarrow> ila_fetch mc = None \<Longrightarrow> e_is_bv e \<Longrightarrow>
    SetFetch c (Some e) g = Inr ((), g\<lparr>ilas := (ilas g)(c \<mapsto> mc\<lparr>ila_fetch := Some e\<rparr>)\<rparr>)"
  by (simp add: SetFetch_def ForceSetFetch_def not_null_def Unify_def)

lemma SetValid_run: "ilas g c = Some mc \<Longrightarrow> ila_valid mc = None \<Longrightarrow> e_is_bool e \<Longrightarrow>
    SetValid c (Some e) g = Inr ((), g\<lparr>ilas := (ilas g)(c \<mapsto> mc\<lparr>ila_valid := Some e\<rparr>)\<rparr>)"
  by (simp add: SetValid_def ForceSetValid_def not_null_def Unify_def)

lemma DesFetch_run:
  assumes m: "ilas h q = Some m" "\<forall>e. ila_fetch m = Some e \<longrightarrow> e_is_bv e" and g: "ilas g c = Some mc" "ila_fetch mc = None"
    and r: "reads D F g st (set_option (ila_fetch m))"
  shows "\<exists>d g'. des_or_default st (ila_json h (Suc n) q) ''f'' (SetFetch c) (BvConst 1 1) g = Inr ((), g') \<and> counter g \<le> counter g' \<and>
    instrs g' = instrs g \<and> ilas g' = (ilas g)(c \<mapsto> mc\<lparr>ila_fetch := Some d\<rparr>) \<and> fetch_twin D F g (ila_fetch m) (Some d)"
proof (cases "ila_fetch m")
  case None
  let ?g = "g\<lparr>counter := Suc (counter g)\<rparr>"
  let ?d = "Expr (Suc (counter g)) (anon_name (Suc (counter g))) (SortBv 1) None [] [] (KConst (BvVal 1))"
  have "BvConst 1 1 g = Inr (?d, ?g)" by (simp add: BvConst_def ExprConst_bv_def MakeBvSort_def)
  moreover have "SetFetch c (Some ?d) ?g = Inr ((), ?g\<lparr>ilas := (ilas ?g)(c \<mapsto> mc\<lparr>ila_fetch := Some ?d\<rparr>)\<rparr>)" using g by (intro SetFetch_run) simp_all
  ultimately have "des_or_default st (ila_json h (Suc n) q) ''f'' (SetFetch c) (BvConst 1 1) g =
      Inr ((), ?g\<lparr>ilas := (ilas ?g)(c \<mapsto> mc\<lparr>ila_fetch := Some ?d\<rparr>)\<rparr>)"
    using None by (simp add: des_or_default_def ila_json_at [OF m(1)] del: ila_json.simps)
  then show ?thesis
    using None by (intro exI [of _ ?d] exI [of _ "?g\<lparr>ilas := (ilas ?g)(c \<mapsto> mc\<lparr>ila_fetch := Some ?d\<rparr>)\<rparr>"]) (simp add: fetch_twin_def)
next
  case (Some e)
  obtain d where d: "id_expr_map st (eid e) = Some d" "eid e < 2 ^ 64" "esort d = esort e" "stands D F g e d" using reads_at [OF r, of e] Some by auto
  have "SetFetch c (Some d) g = Inr ((), g\<lparr>ilas := (ilas g)(c \<mapsto> mc\<lparr>ila_fetch := Some d\<rparr>)\<rparr>)" using g m(2) Some d(3) by (intro SetFetch_run) simp_all
  then have "des_or_default st (ila_json h (Suc n) q) ''f'' (SetFetch c) (BvConst 1 1) g = Inr ((), g\<lparr>ilas := (ilas g)(c \<mapsto> mc\<lparr>ila_fetch := Some d\<rparr>)\<rparr>)"
    using Some d by (simp add: des_or_default_def ila_json_at [OF m(1)] del: ila_json.simps)
  then show ?thesis
    using Some d(4) by (intro exI [of _ d] exI [of _ "g\<lparr>ilas := (ilas g)(c \<mapsto> mc\<lparr>ila_fetch := Some d\<rparr>)\<rparr>"]) (simp add: fetch_twin_def)
qed

lemma DesValid_run:
  assumes m: "ilas h q = Some m" "ila_valid m = Some e" "e_is_bool e" and g: "ilas g c = Some mc" "ila_valid mc = None"
    and r: "eid e < 2 ^ 64" "id_expr_map st (eid e) = Some d" "esort d = esort e"
  shows "des_or_default st (ila_json h (Suc n) q) ''v'' (SetValid c) def g = Inr ((), g\<lparr>ilas := (ilas g)(c \<mapsto> mc\<lparr>ila_valid := Some d\<rparr>)\<rparr>)"
  using SetValid_run [OF g, of d] m r by (simp add: des_or_default_def ila_json_at [OF m(1)] del: ila_json.simps)

lemma keeps_des_default:
  "keeps (des_or_default st j k (SetFetch c) (BvConst a b))" "keeps (des_or_default st j k (SetValid c) (BoolConst v))"
proof -
  have "keeps (BvConst a b)" unfolding BvConst_def ExprConst_bv_def by (intro keeps_intros)
  moreover have "keeps (BoolConst v)" unfolding BoolConst_def ExprConst_bool_def by (intro keeps_intros)
  moreover have "keeps (deref x)" for x :: "expr option" by (cases x) (simp_all add: deref_def keeps_def)
  ultimately show "keeps (des_or_default st j k (SetFetch c) (BvConst a b))" "keeps (des_or_default st j k (SetValid c) (BoolConst v))"
    unfolding des_or_default_def by (auto split: sum.split intro!: keeps_intros)
qed

lemma keeps_DesIlaUnit: "keeps (DesIlaUnit j st)"
  unfolding DesIlaUnit_def at_str_def ila_named_def expr_with_def by (intro keeps_intros keeps_des_default keeps_DesInstr)

lemma instr_names:
  assumes "heap_inv h" "ilas h q = Some m"
  shows "distinct (map (\<lambda>i. instr_name (the (instrs h i))) (vec (ila_instrs m)))"
proof -
  have "\<forall>(n, i) \<in> set (kv_entries (ila_instrs m)). instr_name (the (instrs h i)) = n"
    using heap_invD(2) [OF assms] by (auto simp: ila_links_def)
  then have "map (\<lambda>i. instr_name (the (instrs h i))) (vec (ila_instrs m)) = map fst (kv_entries (ila_instrs m))"
    unfolding kv_entries_vec [of "ila_instrs m", symmetric] by (auto simp: case_prod_unfold)
  moreover have "kv_inv (ila_instrs m)" using heap_invD(1) [OF assms] by (simp add: ila_local_def)
  ultimately show ?thesis using kv.keys_distinct by simp
qed

text \<open>An ILA that can be read: it can be written and its instructions have names.\<close>

definition des_ok :: "heap \<Rightarrow> nat \<Rightarrow> Ila \<Rightarrow> bool" where
  "des_ok h q m = (ser_ok h q m \<and> (\<forall>i \<in> set (vec (ila_instrs m)). instr_name (the (instrs h i)) \<noteq> []))"

lemma reads_instr:
  assumes inv: "heap_inv h" and m: "des_ok h q m" and r: "reads D F g st (ila_exprs h m)" and i: "i \<in> set (vec (ila_instrs m))"
  shows "instr_reads D F g st h m i"
proof -
  obtain x d where x: "instrs h i = Some x" "instr_decode x = Some d" "instr_name x \<noteq> []" using m i by (fastforce simp: des_ok_def ser_ok_def)
  then have "e_is_bool d" using heap_invD(4) [OF inv x(1)] by (simp add: instr_ok_def)
  moreover have "instr_exprs m x \<subseteq> ila_exprs h m" using i x(1) by (force simp: ila_exprs_def)
  then have "reads D F g st (instr_exprs m x)" using reads_mono [OF r] by blast
  ultimately show ?thesis using x unfolding instr_reads_def by blast
qed

lemma DesIlaUnit_run:
  assumes inv: "heap_inv h" and m: "ilas h q = Some m" "des_ok h q m" and r: "reads D F g st (ila_exprs h m)"
    and g: "heap_inv g" "ila_name_ptr_map st (ila_name m) = Some c" "ilas g c = Some mc" "ila_name mc = ila_name m" "blank mc" "vars_ok D m mc"
  shows "\<exists>g' mc'. DesIlaUnit (ila_json h (Suc n) q) st g = Inr ((), g') \<and> ilas g' = (ilas g)(c \<mapsto> mc') \<and> instrs g \<subseteq>\<^sub>m instrs g' \<and>
    ila_twin D F h g' m c mc' \<and> ila_childs mc' = ila_childs mc"
proof -
  let ?j = "ila_json h (Suc n) q"
  have loc: "ila_local m" by (rule heap_invD(1) [OF inv m(1)])
  have b: "ila_fetch mc = None" "ila_valid mc = None" "ila_inits mc = []" "ila_instrs mc = KeyVec_new" using g(5) by (simp_all add: blank_def)
  have f: "\<forall>e. ila_fetch m = Some e \<longrightarrow> e_is_bv e" using loc by (simp add: ila_local_def)
  have rf: "reads D F g st (set_option (ila_fetch m))" by (rule reads_mono [OF r]) (auto simp: ila_exprs_def)
  obtain df g1 where 1: "des_or_default st ?j ''f'' (SetFetch c) (BvConst 1 1) g = Inr ((), g1)" "instrs g1 = instrs g"
    "ilas g1 = (ilas g)(c \<mapsto> mc\<lparr>ila_fetch := Some df\<rparr>)" "fetch_twin D F g (ila_fetch m) (Some df)"
    using DesFetch_run [OF m(1) f g(3) b(1) rf] by blast
  have inv1: "heap_inv g1" using keeps_des_default(1) 1(1) g(1) unfolding keeps_def by blast
  obtain e where e: "ila_valid m = Some e" "e_is_bool e" "e \<in> ila_exprs h m" using m(2) loc by (auto simp: des_ok_def ser_ok_def ila_local_def ila_exprs_def)
  obtain dv where dv: "id_expr_map st (eid e) = Some dv" "eid e < 2 ^ 64" "esort dv = esort e" "stands D F g e dv" using reads_at [OF r e(3)] by blast
  let ?mc2 = "mc\<lparr>ila_fetch := Some df, ila_valid := Some dv\<rparr>"
  let ?g2 = "g1\<lparr>ilas := (ilas g1)(c \<mapsto> ?mc2)\<rparr>"
  have 2: "des_or_default st ?j ''v'' (SetValid c) (BoolConst True) g1 = Inr ((), ?g2)"
    using DesValid_run [OF m(1) e(1,2), of g1 c "mc\<lparr>ila_fetch := Some df\<rparr>" st dv n] 1(3) b(2) dv by simp
  have inv2: "heap_inv ?g2" using keeps_des_default(2) 2 inv1 unfolding keeps_def by blast
  have dom2: "dom (ilas g) \<subseteq> dom (ilas ?g2)" using 1(3) by auto
  have "vars_ok D m ?mc2" using g(6) by (simp add: vars_ok_def vars_read_def find_state_def find_input_def)
  moreover have "\<forall>i \<in> set (vec (ila_instrs m)). instr_reads D F ?g2 st h m i"
    using reads_instr [OF inv m(2) reads_mono [OF r dom2 subset_refl]] by blast
  ultimately have "\<exists>g' k es. iterM (\<lambda>j. bnd (DesInstr st j c) (\<lambda>_. ret ())) (map (instr_json h m) (vec (ila_instrs m))) ?g2 = Inr ((), g') \<and>
      ilas g' = (ilas ?g2)(c \<mapsto> ?mc2\<lparr>ila_instrs := k\<rparr>) \<and> instrs ?g2 \<subseteq>\<^sub>m instrs g' \<and>
      kv_entries k = kv_entries (ila_instrs ?mc2) @ es \<and> instrs_twin D F h g' m c (vec (ila_instrs m)) es"
    using instr_names [OF inv m(1)] inv2 by (intro DesInstrs_run) (simp_all add: b(4))
  then obtain g3 k where 3: "iterM (\<lambda>j. bnd (DesInstr st j c) (\<lambda>_. ret ())) (map (instr_json h m) (vec (ila_instrs m))) ?g2 = Inr ((), g3)"
    "ilas g3 = (ilas ?g2)(c \<mapsto> ?mc2\<lparr>ila_instrs := k\<rparr>)" "instrs ?g2 \<subseteq>\<^sub>m instrs g3" "instrs_twin D F h g3 m c (vec (ila_instrs m)) (kv_entries k)"
    by (auto simp: b(4))
  have ri: "reads D F g st (set (ila_inits m))" by (rule reads_mono [OF r]) (auto simp: ila_exprs_def)
  let ?mc4 = "?mc2\<lparr>ila_instrs := k, ila_inits := map (got st) (ila_inits m)\<rparr>"
  let ?g4 = "g3\<lparr>ilas := (ilas g3)(c \<mapsto> ?mc4)\<rparr>"
  have 4: "iterM (\<lambda>j. bnd (lift (get_size j)) (\<lambda>i. bnd (expr_with st i ''Init not found'') (\<lambda>e. AddInit c (Some e)))) (map (\<lambda>e. j_nat (eid e)) (ila_inits m)) g3 = Inr ((), ?g4)"
    using DesInits_run [OF ri, of g3 c "?mc2\<lparr>ila_instrs := k\<rparr>" "''Init not found''"] loc 3(2) b(3) by (simp add: ila_local_def)
  have run: "DesIlaUnit ?j st g = Inr ((), ?g4)"
    using 1(1) 2 3(1) 4 g(2) unfolding DesIlaUnit_def ila_json_at [OF m(1)] by (simp add: ila_named_def del: ila_json.simps)
  have ilas4: "ilas ?g4 = (ilas g)(c \<mapsto> ?mc4)" using 1(3) 3(2) by simp
  have dom: "dom (ilas g) \<subseteq> dom (ilas ?g4)" "dom (ilas g3) \<subseteq> dom (ilas ?g4)" using 1(3) 3(2) by auto
  have "list_all2 (stands D F g) (ila_inits m) (map (got st) (ila_inits m))"
    using reads_at(3) [OF ri] by (simp add: list_all2_map2 list_all2_same)
  then have "list_all2 (stands D F ?g4) (ila_inits m) (map (got st) (ila_inits m))" by (rule list_all2_mono) (rule stands_mono [OF _ dom(1)])
  moreover have "instrs_twin D F h ?g4 m c (vec (ila_instrs m)) (kv_entries k)" by (rule instrs_twin_mono [OF 3(4) dom(2)]) simp
  moreover have "vars_ok D m ?mc4" using g(6) by (simp add: vars_ok_def vars_read_def find_state_def find_input_def)
  ultimately have "ila_twin D F h ?g4 m c ?mc4"
    using fetch_twin_mono [OF 1(4) dom(1)] stands_mono [OF dv(4) dom(1)] e(1) g(4) by (simp add: ila_twin_def)
  moreover have "instrs g \<subseteq>\<^sub>m instrs ?g4" using 3(3) 1(2) by simp
  moreover have "ila_childs ?mc4 = ila_childs mc" by simp
  ultimately show ?thesis using run ilas4 by blast
qed

end
