(* ===== verification/JsonProps.thy ===== *)
theory JsonProps
  imports JsonFuncs
begin

text \<open>
  Serialization and deserialization of a tree of ILAs: the tree that is read has the names, the variables and the children
  of the tree that was written, and functions that mean the same.
\<close>

section \<open>Reading the functions of the tree\<close>

text \<open>Outside of the ILAs \<open>X\<close> nothing changes.\<close>

definition frame :: "nat set \<Rightarrow> heap \<Rightarrow> heap \<Rightarrow> bool" where
  "frame X g g' = ((\<forall>c. c \<notin> X \<longrightarrow> ilas g' c = ilas g c) \<and> dom (ilas g) \<subseteq> dom (ilas g') \<and> instrs g \<subseteq>\<^sub>m instrs g')"

lemma frame_trans: "frame X g g1 \<Longrightarrow> frame Y g1 g2 \<Longrightarrow> frame (X \<union> Y) g g2"
  unfolding frame_def using map_le_trans by (metis Un_iff subset_trans)

text \<open>The new ILA before and after its functions have been read.\<close>

definition started :: "(nat \<rightharpoonup> expr) \<Rightarrow> heap \<Rightarrow> (string \<rightharpoonup> nat) \<Rightarrow> heap \<Rightarrow> nat \<Rightarrow> bool" where
  "started D h N g q = (\<exists>mc. ilas g (twin h N q) = Some mc \<and> raw h N D (vec (ila_childs (ila_at h q))) q mc \<and> vars_ok D (ila_at h q) mc)"

definition whole :: "(nat \<rightharpoonup> expr) \<Rightarrow> (nat \<rightharpoonup> Func) \<Rightarrow> heap \<Rightarrow> (string \<rightharpoonup> nat) \<Rightarrow> heap \<Rightarrow> nat \<Rightarrow> bool" where
  "whole D F h N g q = (\<exists>mc. ilas g (twin h N q) = Some mc \<and> ila_twin D F h g (ila_at h q) (twin h N q) mc \<and>
     childs_read h N (vec (ila_childs (ila_at h q))) mc)"

lemma started_frame: "started D h N g q \<Longrightarrow> frame X g g' \<Longrightarrow> twin h N q \<notin> X \<Longrightarrow> started D h N g' q"
  by (simp add: started_def frame_def)

lemma whole_frame: "whole D F h N g q \<Longrightarrow> frame X g g' \<Longrightarrow> twin h N q \<notin> X \<Longrightarrow> whole D F h N g' q"
  unfolding whole_def frame_def using ila_twin_mono by metis

text \<open>One subtree: what is needed before and what holds after.\<close>

definition tree_pre :: "(nat \<rightharpoonup> expr) \<Rightarrow> (nat \<rightharpoonup> Func) \<Rightarrow> heap \<Rightarrow> J2IDes \<Rightarrow> nat set \<Rightarrow> heap \<Rightarrow> bool" where
  "tree_pre D F h st K g = (heap_inv g \<and> (\<forall>q \<in> K. started D h (ila_name_ptr_map st) g q \<and> reads D F g st (ila_exprs h (ila_at h q))))"

definition tree_post :: "(nat \<rightharpoonup> expr) \<Rightarrow> (nat \<rightharpoonup> Func) \<Rightarrow> heap \<Rightarrow> (string \<rightharpoonup> nat) \<Rightarrow> nat set \<Rightarrow> heap \<Rightarrow> heap \<Rightarrow> bool" where
  "tree_post D F h N K g g' = (heap_inv g' \<and> (\<forall>q \<in> K. whole D F h N g' q) \<and> frame (twin h N ` K) g g')"

lemma tree_post_trans:
  assumes "tree_post D F h N K g g1" "tree_post D F h N L g1 g2" "twin h N ` K \<inter> twin h N ` L = {}"
  shows "tree_post D F h N (K \<union> L) g g2"
proof -
  have "whole D F h N g2 q" if q: "q \<in> K" for q
  proof -
    have "twin h N q \<notin> twin h N ` L" using assms(3) q by blast
    then show ?thesis using assms(1,2) q whole_frame unfolding tree_post_def by blast
  qed
  then show ?thesis using assms(1,2) frame_trans unfolding tree_post_def by (auto simp: image_Un)
qed

lemma tree_pre_frame:
  assumes "tree_pre D F h st L g" "heap_inv g'" "frame X g g'" "X \<inter> twin h (ila_name_ptr_map st) ` L = {}"
  shows "tree_pre D F h st L g'"
proof -
  have "started D h (ila_name_ptr_map st) g' q \<and> reads D F g' st (ila_exprs h (ila_at h q))" if q: "q \<in> L" for q
  proof -
    have "twin h (ila_name_ptr_map st) q \<notin> X" using assms(4) q by blast
    moreover have "dom (ilas g) \<subseteq> dom (ilas g')" using assms(3) by (simp add: frame_def)
    ultimately show ?thesis using assms(1,3) q started_frame reads_mono unfolding tree_pre_def by blast
  qed
  then show ?thesis using assms(2) by (simp add: tree_pre_def)
qed

lemma twin_disjoint:
  assumes N: "inj_on N (name_at h ` K)" "name_at h ` K \<subseteq> dom N" and s: "A \<subseteq> K" "B \<subseteq> K" and dis: "name_at h ` A \<inter> name_at h ` B = {}"
  shows "twin h N ` A \<inter> twin h N ` B = {}"
proof (rule ccontr)
  assume "twin h N ` A \<inter> twin h N ` B \<noteq> {}"
  then obtain q r where q: "q \<in> A" "r \<in> B" "twin h N q = twin h N r" by blast
  then have mem: "name_at h q \<in> name_at h ` K" "name_at h r \<in> name_at h ` K" using s by auto
  then have "N (name_at h q) = N (name_at h r)" using q(3) N(2) by (metis domIff option.expand subsetD)
  from inj_onD [OF N(1) this mem] have "name_at h q = name_at h r" .
  moreover have "name_at h q \<in> name_at h ` A" "name_at h r \<in> name_at h ` B" using q(1,2) by simp_all
  ultimately show False using dis by auto
qed

lemma des_childs_run:
  assumes step: "\<And>c g. c \<in> set cs \<Longrightarrow> tree_pre D F h st (tree h c) g \<Longrightarrow>
      \<exists>g'. f (j c) g = Inr ((), g') \<and> tree_post D F h (ila_name_ptr_map st) (tree h c) g g'"
    and pre: "tree_pre D F h st (trees h cs) g" and inj: "inj_on (ila_name_ptr_map st) (name_at h ` trees h cs)" "name_at h ` trees h cs \<subseteq> dom (ila_name_ptr_map st)"
    and names: "\<And>c. c \<in> set cs \<Longrightarrow> set (nms c) = name_at h ` tree h c" "distinct (concat (map nms cs))"
  shows "\<exists>g'. iterM f (map j cs) g = Inr ((), g') \<and> tree_post D F h (ila_name_ptr_map st) (trees h cs) g g'"
  using assms
proof (induction cs arbitrary: g)
  case Nil
  then show ?case by (intro exI [of _ g]) (simp add: tree_post_def tree_pre_def frame_def)
next
  case (Cons c cs)
  let ?N = "ila_name_ptr_map st"
  have "tree_pre D F h st (tree h c) g" using Cons.prems(2) by (simp add: tree_pre_def)
  then obtain g1 where 1: "f (j c) g = Inr ((), g1)" "tree_post D F h ?N (tree h c) g g1" using Cons.prems(1) [of c g] by auto
  have "set (nms c) = name_at h ` tree h c" "set (concat (map nms cs)) = name_at h ` trees h cs"
    using Cons.prems(5) by (simp_all add: image_UN)
  moreover have "set (nms c) \<inter> set (concat (map nms cs)) = {}" using Cons.prems(6) by simp
  ultimately have names: "name_at h ` tree h c \<inter> name_at h ` trees h cs = {}" by blast
  have dis: "twin h ?N ` tree h c \<inter> twin h ?N ` trees h cs = {}"
    by (rule twin_disjoint [OF Cons.prems(3,4)]) (use names in auto)
  have "tree_pre D F h st (trees h cs) g" using Cons.prems(2) by (simp add: tree_pre_def)
  then have pre: "tree_pre D F h st (trees h cs) g1" using 1(2) dis by (intro tree_pre_frame [of D F h st "trees h cs" g g1 "twin h ?N ` tree h c"]) (simp_all add: tree_post_def)
  have "\<exists>g'. iterM f (map j cs) g1 = Inr ((), g') \<and> tree_post D F h ?N (trees h cs) g1 g'"
    by (rule Cons.IH [OF Cons.prems(1) pre _ _ Cons.prems(5)]) (use Cons.prems(3,4,6) in \<open>auto intro: inj_on_subset\<close>)
  then obtain g2 where 2: "iterM f (map j cs) g1 = Inr ((), g2)" "tree_post D F h ?N (trees h cs) g1 g2" by blast
  have "trees h (c # cs) = tree h c \<union> trees h cs" by simp
  then show ?case using 1(1) 2(1) tree_post_trans [OF 1(2) 2(2) dis] by (intro exI [of _ g2]) simp
qed

lemma keeps_DesIlaHier_n: "keeps (DesIlaHier_n k j st)"
proof (induction k arbitrary: j)
  case (Suc k)
  then show ?case by (simp, intro keeps_intros keeps_DesIlaUnit)
qed (simp add: keeps_intros)

lemma DesIlaHier_run:
  assumes inv: "heap_inv h" and K: "inj_on (ila_name_ptr_map st) (name_at h ` K)" "name_at h ` K \<subseteq> dom (ila_name_ptr_map st)"
  shows "ilas h q \<noteq> None \<Longrightarrow> counter h - q < n \<Longrightarrow> size (ila_json h n q) < k \<Longrightarrow> distinct (tree_names h n q) \<Longrightarrow> tree h q \<subseteq> K \<Longrightarrow>
    \<forall>s \<in> tree h q. des_ok h s (ila_at h s) \<Longrightarrow> tree_pre D F h st (tree h q) g \<Longrightarrow>
    \<exists>g'. DesIlaHier_n k (ila_json h n q) st g = Inr ((), g') \<and> tree_post D F h (ila_name_ptr_map st) (tree h q) g g'"
proof (induction n arbitrary: q k g)
  case (Suc n)
  let ?N = "ila_name_ptr_map st" and ?c = "twin h (ila_name_ptr_map st) q"
  obtain m where m: "ilas h q = Some m" using Suc.prems(1) by blast
  let ?cs = "vec (ila_childs m)"
  obtain k' where k: "k = Suc k'" using Suc.prems(3) by (cases k) auto
  have at: "ila_at h q = m" and qt: "q \<in> tree h q" using m by (simp_all add: in_tree.self)
  have rec: "tree h q = insert q (trees h ?cs)" by (rule tree_rec [OF m])
  obtain mc where mc: "ilas g ?c = Some mc" "raw h ?N D ?cs q mc" "vars_ok D m mc" "reads D F g st (ila_exprs h m)" "heap_inv g"
    using Suc.prems(7) qt at unfolding tree_pre_def started_def by fastforce
  have "name_at h q \<in> dom ?N" using K(2) Suc.prems(5) qt by blast
  then have c: "?N (ila_name m) = Some ?c" using at by (simp add: domIff)
  have ok: "des_ok h q m" using Suc.prems(6) qt at by auto
  have raw: "ila_name mc = ila_name m" "blank mc" "childs_read h ?N ?cs mc" using mc(2) at by (simp_all add: raw_def)
  obtain g1 mc' where 1: "DesIlaUnit (ila_json h (Suc n) q) st g = Inr ((), g1)" "ilas g1 = (ilas g)(?c \<mapsto> mc')" "instrs g \<subseteq>\<^sub>m instrs g1"
    "ila_twin D F h g1 m ?c mc'" "ila_childs mc' = ila_childs mc"
    using DesIlaUnit_run [OF inv m ok mc(4,5) c mc(1) raw(1,2) mc(3)] by blast
  have inv1: "heap_inv g1" using keeps_DesIlaUnit 1(1) mc(5) unfolding keeps_def by blast
  have fr: "frame {?c} g g1" using 1(2,3) by (auto simp: frame_def)
  have "childs_read h ?N ?cs mc'" using raw(3) 1(5) by (simp add: childs_read_def)
  then have post1: "tree_post D F h ?N {q} g g1" using inv1 fr 1(2,4) at by (simp add: tree_post_def whole_def)
  have nms: "set (tree_names h n d) = name_at h ` tree h d" if "d \<in> set ?cs" for d
    using child_links [OF inv m that] Suc.prems(2) by (intro set_tree_names [OF inv]) auto
  then have cn: "set (concat (map (tree_names h n) ?cs)) = name_at h ` trees h ?cs" by (simp add: image_UN)
  have d: "distinct (concat (map (tree_names h n) ?cs))" "name_at h q \<notin> name_at h ` trees h ?cs"
    using Suc.prems(4) unfolding cn [symmetric] by (simp_all add: m)
  have sub: "name_at h ` trees h ?cs \<subseteq> name_at h ` K" "name_at h q \<in> name_at h ` K" using Suc.prems(5) rec by auto
  have dis: "twin h ?N ` {q} \<inter> twin h ?N ` trees h ?cs = {}"
    by (rule twin_disjoint [OF K]) (use Suc.prems(5) rec d(2) in auto)
  have "tree_pre D F h st (trees h ?cs) g" using Suc.prems(7) unfolding rec by (simp add: tree_pre_def)
  from tree_pre_frame [OF this inv1 fr] dis have pre: "tree_pre D F h st (trees h ?cs) g1" by simp
  have step: "\<exists>g'. DesIlaHier_n k' (ila_json h n d) st g = Inr ((), g') \<and> tree_post D F h ?N (tree h d) g g'"
    if d: "d \<in> set ?cs" "tree_pre D F h st (tree h d) g" for d g
  proof (rule Suc.IH [OF _ _ _ _ _ _ d(2)])
    show "ilas h d \<noteq> None" "counter h - d < n" using child_links [OF inv m d(1)] Suc.prems(2) by auto
    show "size (ila_json h n d) < k'" using child_json_size [OF m d(1), of n] Suc.prems(3) k by linarith
    show "distinct (tree_names h n d)" using Suc.prems(4) d(1) m by (auto simp: distinct_concat_iff)
    show "tree h d \<subseteq> K" "\<forall>s \<in> tree h d. des_ok h s (ila_at h s)" using Suc.prems(5,6) d(1) unfolding rec by blast+
  qed
  have "\<exists>g'. iterM (\<lambda>j. DesIlaHier_n k' j st) (map (ila_json h n) ?cs) g1 = Inr ((), g') \<and> tree_post D F h ?N (trees h ?cs) g1 g'"
    by (rule des_childs_run [where f = "\<lambda>j. DesIlaHier_n k' j st" and j = "ila_json h n", OF step pre inj_on_subset [OF K(1) sub(1)] subset_trans [OF sub(1) K(2)] nms d(1)])
  then obtain g2 where 2: "iterM (\<lambda>j. DesIlaHier_n k' j st) (map (ila_json h n) ?cs) g1 = Inr ((), g2)" "tree_post D F h ?N (trees h ?cs) g1 g2" by blast
  have "DesIlaHier_n k (ila_json h (Suc n) q) st g = Inr ((), g2)"
    using 1(1) 2(1) by (simp add: k ila_json_at [OF m] del: ila_json.simps)
  then show ?case using tree_post_trans [OF post1 2(2) dis] by (simp add: rec del: DesIlaHier_n.simps ila_json.simps)
qed simp

section \<open>The round trip\<close>

text \<open>A tree that survives: identifiers and sorts fit into their types, names are distinct, the variables of the expressions are
  registered, those of the top are its own and a child inherits the variables of its parent.\<close>

definition json_tree :: "heap \<Rightarrow> nat \<Rightarrow> bool" where
  "json_tree h p = (readable (subs (tree_exprs h p)) \<and> distinct (tree_names h (Suc (counter h - p)) p) \<and>
     (\<forall>q m. in_tree h p q \<longrightarrow> ilas h q = Some m \<longrightarrow> des_ok h q m \<and> (\<forall>c \<in> set (vec (ila_childs m)). inherits m c (ila_at h c))) \<and>
     (\<forall>v \<in> regs (ila_at h p). ehost v = Some p) \<and>
     (\<forall>v \<in> subs (tree_exprs h p). is_var v \<longrightarrow> (\<exists>q. in_tree h p q \<and> v \<in> regs (ila_at h q))))"

lemma json_treeD:
  assumes "json_tree h p"
  shows "readable (subs (tree_exprs h p))" "distinct (tree_names h (Suc (counter h - p)) p)" "\<forall>v \<in> regs (ila_at h p). ehost v = Some p"
    "in_tree h p q \<Longrightarrow> ilas h q = Some m \<Longrightarrow> des_ok h q m"
    "in_tree h p q \<Longrightarrow> ilas h q = Some m \<Longrightarrow> c \<in> set (vec (ila_childs m)) \<Longrightarrow> inherits m c (ila_at h c)"
    "v \<in> subs (tree_exprs h p) \<Longrightarrow> is_var v \<Longrightarrow> \<exists>q. in_tree h p q \<and> v \<in> regs (ila_at h q)"
  using assms unfolding json_tree_def by metis+

lemma subs_self: "e \<in> X \<Longrightarrow> e \<in> subs X"
  by (cases e) (auto intro!: bexI [of _ e])

lemma tree_ilas: "in_tree h p q \<Longrightarrow> heap_inv h \<Longrightarrow> ilas h p \<noteq> None \<Longrightarrow> ilas h q \<noteq> None"
  by (induction rule: in_tree.induct) (auto dest: child_links(3))

lemma tree_exprs_ila: "in_tree h p q \<Longrightarrow> ila_exprs h (ila_at h q) \<subseteq> tree_exprs h p"
  by (auto simp: tree_exprs_def)

lemma regs_exprs: "regs m \<subseteq> ila_exprs h m"
  by (auto simp: regs_def ila_exprs_def)

lemma json_tree_ser:
  assumes "json_tree h p"
  shows "ser_tree (subs (tree_exprs h p)) h p"
proof -
  have "ila_exprs h m \<subseteq> subs (tree_exprs h p)" if "in_tree h p q" "ilas h q = Some m" for q m
  proof
    fix e assume "e \<in> ila_exprs h m"
    then have "e \<in> tree_exprs h p" using tree_exprs_ila [OF that(1)] that(2) by auto
    then show "e \<in> subs (tree_exprs h p)" by (rule subs_self)
  qed
  moreover have "ser_ok h q m" if "in_tree h p q" "ilas h q = Some m" for q m using json_treeD(4) [OF assms that] by (simp add: des_ok_def)
  ultimately show ?thesis unfolding ser_tree_def by blast
qed

lemma json_tree_hier:
  assumes "json_tree h p" "set es = subs (tree_exprs h p)"
  shows "hier_ok es h p"
proof -
  have "regs m \<subseteq> set es" if "in_tree h p q" "ilas h q = Some m" for q m
  proof
    fix e assume "e \<in> regs m"
    then have "e \<in> tree_exprs h p" using tree_exprs_ila [OF that(1)] that(2) regs_exprs [of m h] by auto
    then show "e \<in> set es" unfolding assms(2) by (rule subs_self)
  qed
  then show ?thesis using json_treeD(5) [OF assms(1)] unfolding hier_ok_def by blast
qed

text \<open>The variables stand for those that were written.\<close>

lemma stands_newvar:
  assumes "newvar g v d" "is_var v" "D (eid v) = Some d"
  shows "stands D F g v d"
proof -
  have "eval I d = ivar I d" "eval (pull D F I) v = ivar (pull D F I) v" for I
    using assms(1,2) by (cases d; cases v; simp add: newvar_def)+
  then show ?thesis using assms by (simp add: stands_def newvar_def pull_def)
qed

lemma table_vars:
  assumes S: "readable S" and inv: "vinv S h K C g st"
  shows "table S (id_expr_map st) F g (id_expr_map st)"
  unfolding table_def
proof (intro ballI allI impI)
  fix e d assume e: "e \<in> S" "id_expr_map st (eid e) = Some d"
  then obtain q v where v: "q \<in> K" "v \<in> regs (ila_at h q)" "eid v = eid e" "newvar g v d" using inv unfolding vinv_def by blast
  then have "v \<in> S" using vinvD(1) [OF inv] by blast
  then have "v = e" using S e(1) v(3) unfolding readable_def writable_def coherent_def inj_on_def by blast
  moreover have "is_var v"
    using v(2) find_vars(1,2) [OF vinvD(5) [OF inv v(1)], of v] find_vars(3,4) [OF vinvD(5) [OF inv v(1)], of "ename v" v] unfolding regs_def by blast
  ultimately show "stands (id_expr_map st) F g e d" using stands_newvar [OF v(4)] e(2) by simp
qed

lemma vstate_started:
  assumes "vstate S h K C g st" "\<forall>s \<in> K. C s = vec (ila_childs (ila_at h s))" "q \<in> K"
  shows "started (id_expr_map st) h (ila_name_ptr_map st) g q"
proof -
  have v: "vinv S h K C g st" "all_read h K st" using assms(1) by (simp_all add: vstate_def)
  obtain mc where mc: "ilas g (twin h (ila_name_ptr_map st) q) = Some mc" "raw h (ila_name_ptr_map st) (id_expr_map st) (C q) q mc"
    using vinvD(3) [OF v(1) assms(3)] by blast
  moreover have "vars_ok (id_expr_map st) (ila_at h q) mc"
    using mc(2) vinvD(5) [OF v(1) assms(3)] v(2) assms(3) by (simp add: vars_ok_def raw_def all_read_def)
  ultimately show ?thesis using assms(2,3) unfolding started_def by metis
qed

text \<open>Functions and nodes after the variables.\<close>

lemma des_nodes_run:
  assumes S: "readable S" "S = set es" and st: "vstate S h K C g st"
    and es: "closed es" "\<forall>v \<in> set es. is_var v \<longrightarrow> id_expr_map st (eid v) \<noteq> None" and fs: "set fs \<subseteq> funs S" "funs S \<subseteq> set fs"
  shows "\<exists>M F g' g''. foldM (\<lambda>j st. bnd (DesFunc j st) (\<lambda>(_, st). ret st)) (map func_json fs) st g = Inr (st\<lparr>id_func_map := F\<rparr>, g') \<and>
    foldM (\<lambda>j st. bnd (DesExpr j st) (\<lambda>(_, st). ret st)) (map node_json es) (st\<lparr>id_func_map := F\<rparr>) g' = Inr (st\<lparr>id_func_map := F, id_expr_map := M\<rparr>, g'') \<and>
    only_alloc g g'' \<and> reads (id_expr_map st) F g'' (st\<lparr>id_func_map := F, id_expr_map := M\<rparr>) S \<and>
    (\<forall>f \<in> funs S. \<exists>f'. F (func_id f) = Some f' \<and> same_func f f')"
proof -
  let ?D = "id_expr_map st"
  have v: "vinv S h K C g st" "heap_inv g" "id_func_map st = Map.empty" using st by (simp_all add: vstate_def vinv_def)
  have "funcs_ok S (id_func_map st)" using v(3) by (simp add: funcs_ok_def)
  then obtain F g1 where 1: "foldM (\<lambda>j st. bnd (DesFunc j st) (\<lambda>(_, st). ret st)) (map func_json fs) st g = Inr (st\<lparr>id_func_map := F\<rparr>, g1)"
    "only_alloc g g1" "funcs_ok S F" "\<forall>f \<in> set fs. F (func_id f) \<noteq> None" using DesFuncs_run [OF S(1) fs(1)] by blast
  let ?st = "st\<lparr>id_func_map := F\<rparr>"
  have "childs_grow g1" by (rule inv_childs_grow [OF heap_inv_alloc [OF v(2) 1(2)]])
  moreover have "table S ?D F g1 ?D" using table_vars [OF S(1) v(1)] table_alloc' [OF 1(2)] by blast
  ultimately have ready: "des_ready S ?D g1 ?st" using S(1) 1(3) by (simp add: des_ready_def)
  have "\<forall>f \<in> funs (set es). id_func_map ?st (func_id f) \<noteq> None" using 1(4) fs(2) S(2) by auto
  then obtain M g2 where 2: "foldM (\<lambda>j st. bnd (DesExpr j st) (\<lambda>(_, st). ret st)) (map node_json es) ?st g1 = Inr (?st\<lparr>id_expr_map := M\<rparr>, g2)"
    "only_alloc g1 g2" "des_ready S ?D g2 (?st\<lparr>id_expr_map := M\<rparr>)" "\<forall>e \<in> set es. M (eid e) \<noteq> None"
    using DesExprs_run [OF ready, of "[]" es] es S(2) by auto
  have "reads ?D F g2 (?st\<lparr>id_expr_map := M\<rparr>) S"
    using 2(3,4) S by (auto simp: reads_def des_ready_def table_def readable_def writable_def)
  moreover have "\<forall>f \<in> funs S. \<exists>f'. F (func_id f) = Some f' \<and> same_func f f'" using 1(3,4) fs(2) unfolding funcs_ok_def by blast
  ultimately show ?thesis using 1(1) 2(1) only_alloc_trans [OF 1(2) 2(2)] by (intro exI [of _ M] exI [of _ F] exI [of _ g1] exI [of _ g2]) simp
qed

text \<open>The tree that is read.\<close>

definition json_twin :: "heap \<Rightarrow> nat \<Rightarrow> heap \<Rightarrow> nat \<Rightarrow> bool" where
  "json_twin h p g p' = (\<exists>N D F. N (name_at h p) = Some p' \<and> inj_on N (name_at h ` tree h p) \<and> (\<forall>q \<in> tree h p. whole D F h N g q) \<and>
     (\<forall>q \<in> tree h p. \<forall>v \<in> regs (ila_at h q). \<exists>d. D (eid v) = Some d \<and> newvar g v d) \<and>
     (\<forall>f \<in> funs (subs (tree_exprs h p)). \<exists>f'. F (func_id f) = Some f' \<and> same_func f f'))"

lemma vinv_newvar:
  assumes S: "readable S" and inv: "vinv S h K C g st" "all_read h K st" and q: "q \<in> K" "v \<in> regs (ila_at h q)"
  shows "\<exists>d. id_expr_map st (eid v) = Some d \<and> newvar g v d"
proof -
  obtain d where d: "id_expr_map st (eid v) = Some d" using inv(2) q unfolding all_read_def by blast
  then obtain r w where w: "r \<in> K" "w \<in> regs (ila_at h r)" "eid w = eid v" "newvar g w d" using inv(1) unfolding vinv_def by blast
  have "w \<in> S" "v \<in> S" using w(1,2) q vinvD(1) [OF inv(1)] by blast+
  then have "w = v" using S w(3) unfolding readable_def writable_def coherent_def inj_on_def by blast
  then show ?thesis using d w(4) by blast
qed

lemma Deserialize_run:
  assumes inv: "heap_inv h" "heap_inv g" and m: "ilas h p = Some m" and t: "json_tree h p"
    and es: "set es = subs (tree_exprs h p)" "closed es" and fs: "set fs \<subseteq> funs (set es)" "funs (set es) \<subseteq> set fs"
  shows "\<exists>p' g'. Deserialize (j_object [(''t'', ila_json h (Suc (counter h - p)) p), (''a'', j_list (map node_json es)), (''f'', j_list (map func_json fs))]) g =
    Inr (p', g') \<and> heap_inv g' \<and> json_twin h p g' p'"
proof -
  let ?n = "counter h - p" and ?S = "subs (tree_exprs h p)"
  have S: "readable ?S" "set es \<subseteq> ?S" "?S = set es" using json_treeD(1) [OF t] es(1) by auto
  have host: "\<forall>v \<in> regs m. ehost v = Some p" using json_treeD(3) [OF t] m by simp
  obtain C g1 st where 1: "DesVarHier (ila_json h (Suc ?n) p) (j_list (map node_json es)) None J2IDes_New g = Inr (st, g1)"
    "vstate ?S h (tree h p) C g1 st" "\<forall>s \<in> tree h p. C s = vec (ila_childs (ila_at h s))"
    using DesVarHier_root [OF S(1,2) inv m lessI json_treeD(2) [OF t] json_tree_hier [OF t es(1)] host] by blast
  let ?N = "ila_name_ptr_map st" and ?D = "id_expr_map st"
  have v: "vinv ?S h (tree h p) C g1 st" "all_read h (tree h p) st" "heap_inv g1" "dom ?N = name_at h ` tree h p" "inj_on ?N (name_at h ` tree h p)"
    using 1(2) by (simp_all add: vstate_def vinv_def)
  have vars: "\<forall>v \<in> set es. is_var v \<longrightarrow> ?D (eid v) \<noteq> None"
  proof (intro ballI impI)
    fix v assume "v \<in> set es" "is_var v"
    then obtain q where "in_tree h p q" "v \<in> regs (ila_at h q)" using json_treeD(6) [OF t] es(1) by metis
    then show "?D (eid v) \<noteq> None" using v(2) by (simp add: all_read_def)
  qed
  have fs': "set fs \<subseteq> funs ?S" "funs ?S \<subseteq> set fs" using fs es(1) by simp_all
  obtain M F g2 g3 where 2: "foldM (\<lambda>j st. bnd (DesFunc j st) (\<lambda>(_, st). ret st)) (map func_json fs) st g1 = Inr (st\<lparr>id_func_map := F\<rparr>, g2)"
    "foldM (\<lambda>j st. bnd (DesExpr j st) (\<lambda>(_, st). ret st)) (map node_json es) (st\<lparr>id_func_map := F\<rparr>) g2 = Inr (st\<lparr>id_func_map := F, id_expr_map := M\<rparr>, g3)"
    "only_alloc g1 g3" "reads ?D F g3 (st\<lparr>id_func_map := F, id_expr_map := M\<rparr>) ?S" "\<forall>f \<in> funs ?S. \<exists>f'. F (func_id f) = Some f' \<and> same_func f f'"
    using des_nodes_run [OF S(1,3) 1(2) es(2) vars fs'] by (elim exE conjE) (rule that)
  let ?st = "st\<lparr>id_func_map := F, id_expr_map := M\<rparr>"
  have g3: "heap_inv g3" "ilas g3 = ilas g1" using heap_inv_alloc [OF v(3) 2(3)] 2(3) by (simp_all add: only_alloc_def)
  have "started ?D h ?N g3 q \<and> reads ?D F g3 ?st (ila_exprs h (ila_at h q))" if q: "q \<in> tree h p" for q
  proof -
    have "in_tree h p q" using q by simp
    then have "ila_exprs h (ila_at h q) \<subseteq> ?S" using tree_exprs_ila subs_self by (metis subset_iff)
    then show ?thesis using vstate_started [OF 1(2,3) q] g3(2) reads_mono [OF 2(4) subset_refl] by (simp add: started_def)
  qed
  then have pre: "tree_pre ?D F h ?st (tree h p) g3" using g3(1) by (simp add: tree_pre_def)
  have ok: "\<forall>q \<in> tree h p. des_ok h q (ila_at h q)" using tree_ilas [OF _ inv(1)] m json_treeD(4) [OF t] by fastforce
  have N: "inj_on (ila_name_ptr_map ?st) (name_at h ` tree h p)" "name_at h ` tree h p \<subseteq> dom (ila_name_ptr_map ?st)" using v(4,5) by simp_all
  obtain g4 where 4: "DesIlaHier (ila_json h (Suc ?n) p) ?st g3 = Inr ((), g4)" "tree_post ?D F h ?N (tree h p) g3 g4"
    using DesIlaHier_run [OF inv(1) N _ lessI lessI json_treeD(2) [OF t] subset_refl ok pre] m
    unfolding DesIlaHier_def by auto
  have "p \<in> tree h p" by (simp add: in_tree.self)
  from vinvD(4) [OF v(1) this] obtain p' where p': "?N (name_at h p) = Some p'" by blast
  have "Deserialize (j_object [(''t'', ila_json h (Suc ?n) p), (''a'', j_list (map node_json es)), (''f'', j_list (map func_json fs))]) g = Inr (p', g4)"
    using 1(1) 2(1,2) 4(1) p' m by (simp add: Deserialize_def DesInstrLvlAbs_def ila_json_at [OF m] ila_named_def del: ila_json.simps)
  moreover have "\<exists>d. ?D (eid v) = Some d \<and> newvar g4 v d" if "q \<in> tree h p" "v \<in> regs (ila_at h q)" for q v
  proof -
    have "dom (ilas g1) \<subseteq> dom (ilas g4)" using 4(2) g3(2) by (simp add: tree_post_def frame_def)
    then show ?thesis using vinv_newvar [OF S(1) v(1,2) that] newvar_mono by blast
  qed
  then have "json_twin h p g4 p'" using p' v(5) 4(2) 2(5) unfolding json_twin_def tree_post_def by blast
  ultimately show ?thesis using 4(2) unfolding tree_post_def by blast
qed

text \<open>An ILA with a state and an instruction that doubles it, and a child with an input of its own.\<close>

definition json_x :: expr where
  "json_x = Expr 2 ''x'' (SortBv 8) (Some 1) [] [] KVar"

definition json_t :: expr where
  "json_t = Expr 5 ''$5'' SortBool None [] [] (KConst (BoolVal True))"

definition json_sum :: expr where
  "json_sum = Expr 6 ''$6'' (SortBv 8) (Some 1) [] [json_x, json_x] (KOp kAdd)"

definition json_b :: expr where
  "json_b = Expr 8 ''b'' SortBool (Some 7) [] [] KVar"

definition json_heap :: heap where
  "json_heap =
     \<lparr>counter = 8,
      ilas = [1 \<mapsto> (ila_init ''m'' None)\<lparr>ila_states := snd (push_back ''x'' json_x KeyVec_new), ila_valid := Some json_t,
                      ila_instrs := snd (push_back ''i'' 4 KeyVec_new), ila_childs := snd (push_back ''c'' 7 KeyVec_new)\<rparr>,
              7 \<mapsto> (ila_init ''c'' (Some 1))\<lparr>ila_states := snd (push_back ''x'' json_x KeyVec_new), ila_valid := Some json_b,
                      ila_inputs := snd (push_back ''b'' json_b KeyVec_new)\<rparr>],
      instrs = [4 \<mapsto> \<lparr>instr_name = ''i'', instr_host = Some 1, instr_decode = Some json_t,
                      instr_updates = [(''x'', json_sum)], instr_prog = None\<rparr>]\<rparr>"

lemma vec_new [simp]: "vec KeyVec_new = []"
  by (simp add: KeyVec_new_def)

lemma json_ilas:
  "ilas json_heap 1 = Some ((ila_init ''m'' None)\<lparr>ila_states := snd (push_back ''x'' json_x KeyVec_new), ila_valid := Some json_t,
     ila_instrs := snd (push_back ''i'' 4 KeyVec_new), ila_childs := snd (push_back ''c'' 7 KeyVec_new)\<rparr>)"
  "ilas json_heap 7 = Some ((ila_init ''c'' (Some 1))\<lparr>ila_states := snd (push_back ''x'' json_x KeyVec_new), ila_valid := Some json_b,
     ila_inputs := snd (push_back ''b'' json_b KeyVec_new)\<rparr>)"
  by (simp_all add: json_heap_def)

lemma json_heap_inv: "heap_inv json_heap"
  using ila_local_init [of "''m''" None] ila_local_init [of "''c''" "Some 1"]
  by (auto simp: heap_inv_def json_heap_def ila_local_def ila_links_def instr_ok_def ila_init_def amap_ok_def
      var_map_ok_def json_x_def json_b_def json_t_def)

lemma json_trees: "in_tree json_heap 1 q \<longleftrightarrow> q = 1 \<or> q = 7"
proof -
  have "in_tree json_heap 7 q \<longleftrightarrow> q = 7" by (subst in_tree_iff) (simp add: json_ilas ila_init_def)
  then show ?thesis by (subst in_tree_iff) (simp add: json_ilas ila_init_def del: One_nat_def)
qed

lemma json_nodes: "subs (tree_exprs json_heap 1) = {json_x, json_t, json_sum, json_b}"
proof -
  have "tree_exprs json_heap 1 = ila_exprs json_heap (ila_at json_heap 1) \<union> ila_exprs json_heap (ila_at json_heap 7)"
    unfolding tree_exprs_def json_trees by blast
  also have "\<dots> = {json_x, json_t, json_sum, json_b}"
    by (auto simp: ila_exprs_def json_ilas ila_init_def instr_exprs_def json_heap_def next_expr_def update_var_def update_def json_x_def)
  finally show ?thesis by (auto simp: json_x_def json_t_def json_sum_def json_b_def)
qed

lemma json_regs:
  "regs (ila_at json_heap 1) = {json_x}" "regs (ila_at json_heap 7) = {json_x, json_b}"
  by (auto simp: regs_def json_ilas ila_init_def simp del: One_nat_def)

lemma json_instrs: "instrs json_heap 4 = Some \<lparr>instr_name = ''i'', instr_host = Some 1, instr_decode = Some json_t,
    instr_updates = [(''x'', json_sum)], instr_prog = None\<rparr>"
  by (simp add: json_heap_def)

lemma json_names: "tree_names json_heap (Suc (Suc n)) 1 = [''m'', ''c'']"
  by (simp add: json_ilas ila_init_def del: One_nat_def)

lemma json_heap_tree: "json_tree json_heap 1"
proof -
  have "coherent {json_x, json_t, json_sum, json_b}"
    by (auto simp: coherent_def node_ok_def prim_sort_def json_x_def json_t_def json_sum_def json_b_def)
  then have "readable (subs (tree_exprs json_heap 1))"
    unfolding json_nodes
    by (auto simp: readable_def writable_def funs_def int_sort_def node_wf_def const_wf_def op_sort_def same_sort_def sem_ok_def
        json_x_def json_t_def json_sum_def json_b_def)
  moreover have "distinct (tree_names json_heap (Suc (counter json_heap - 1)) 1)"
  proof -
    have "counter json_heap - 1 = Suc 6" by (simp add: json_heap_def)
    then show ?thesis using json_names [of 6] by (simp del: tree_names.simps One_nat_def)
  qed
  moreover have "des_ok json_heap q m \<and> (\<forall>c \<in> set (vec (ila_childs m)). inherits m c (ila_at json_heap c))"
    if "in_tree json_heap 1 q" "ilas json_heap q = Some m" for q m
    using that unfolding json_trees
    by (auto simp: json_ilas ila_init_def des_ok_def ser_ok_def json_instrs inherits_def regs_def find_state_def find_input_def kv.get_spec
        json_b_def simp del: One_nat_def)
  moreover have "\<forall>v \<in> regs (ila_at json_heap 1). ehost v = Some 1" by (simp only: json_regs) (simp add: json_x_def)
  moreover have "\<exists>q. in_tree json_heap 1 q \<and> v \<in> regs (ila_at json_heap q)" if "v \<in> subs (tree_exprs json_heap 1)" "is_var v" for v
    using that unfolding json_nodes json_trees
    by (intro exI [of _ 7]) (auto simp: json_regs json_t_def json_sum_def)
  ultimately show ?thesis unfolding json_tree_def by blast
qed

text \<open>C12: \<^verbatim>\<open>Serialize\<close> returns for every tree of ILAs whose names are distinct, whose identifiers and sorts fit, whose variables
  are registered and inherited by the children, and leaves the heap alone; \<^verbatim>\<open>Deserialize\<close> of the result returns on any heap.
  The tree it builds has, for every ILA, one with the same name, the same input and state names with variables of the same
  sorts, the children in the same order, and a valid function, initial conditions and instructions whose decode and update
  functions evaluate as the original ones, with every variable and function read as its replacement; a missing fetch
  function becomes the constant one of width one.\<close>

theorem Serialize_Deserialize:
  assumes "heap_inv h" "heap_inv g" "ilas h p \<noteq> None" "json_tree h p"
  shows "\<exists>j p' g'. Serialize (Some p) h = Inr (j, h) \<and> Deserialize j g = Inr (p', g') \<and> heap_inv g' \<and> json_twin h p g' p'"
proof -
  obtain m where m: "ilas h p = Some m" using assms(3) by blast
  have "writable (subs (tree_exprs h p))" using json_treeD(1) [OF assms(4)] by (simp add: readable_def)
  then obtain es fs where 1: "Serialize (Some p) h = Inr (j_object [(''t'', ila_json h (Suc (counter h - p)) p), (''a'', j_list (map node_json es)),
      (''f'', j_list (map func_json fs))], h)" "set es = subs (tree_exprs h p)" "closed es" "set fs \<subseteq> funs (subs (tree_exprs h p))" "funs (set es) \<subseteq> set fs"
    using Serialize_run [OF _ assms(1,3) json_tree_ser [OF assms(4)]] by blast
  from Deserialize_run [OF assms(1,2) m assms(4) 1(2,3) _ 1(5)] 1(2,4) 1(1) show ?thesis by auto
qed

theorem Serialize_Deserialize_witness:
  "\<exists>j p' g'. Serialize (Some 1) json_heap = Inr (j, json_heap) \<and> Deserialize j empty_heap = Inr (p', g') \<and> json_twin json_heap 1 g' p'"
  using Serialize_Deserialize [OF json_heap_inv heap_inv_empty _ json_heap_tree] json_ilas(1) by (simp del: One_nat_def) blast

end
