(* ===== verification/Spec2Isabelle.thy ===== *)
theory Spec2Isabelle
  imports StrUtil HashAst IncCheckProps SolverPassProps JsonProps
begin

text \<open>
  Verification development for ILAng, a platform that models hardware as instruction-level
  abstractions (ILAs) and generates verification problems from them. All paths below are relative
  to the source tree; \<^verbatim>\<open>include/\<close> stands for \<^verbatim>\<open>include/ilang/\<close>.

  \<^bold>\<open>The program.\<close> An ILA has inputs, states, initial conditions, a fetch and a valid
  function, instructions (a decode function and one update function per state) and child ILAs. All of
  these are expressions over typed variables. The data model builds and links these objects; the
  manager rewrites and collects expressions, copies and flattens ILAs and runs passes; the SMT
  back ends translate expressions; the unrollers turn instruction sequences into formulas, and the
  equivalence checkers compare two ILAs with them. A tree of ILAs can be stored as a JSON value.

  \<^bold>\<open>Theories and sources.\<close>
  \<^item> \<^verbatim>\<open>Prelude\<close>: errors, results, \<^verbatim>\<open>std::map\<close>, decimal printing, string search.
  \<^item> \<^verbatim>\<open>Containers\<close>: \<^verbatim>\<open>KeyVec\<close> and \<^verbatim>\<open>MapSet\<close> (include/util/container.h).
  \<^item> \<^verbatim>\<open>StrUtil\<close>: the string utilities (src/util/str\_util.cc).
  \<^item> \<^verbatim>\<open>Symbols\<close>, \<^verbatim>\<open>Sorts\<close>, \<^verbatim>\<open>Ast\<close>: symbols, sorts, constant values, functions and expression
    nodes with their visitors (src/ila/symbol.cc, src/ila/ast/).
  \<^item> \<^verbatim>\<open>Heap\<close>: ILAs and instructions as records in a heap, and the monad of fallible operations
    on it. A pointer is the identifier of an object.
  \<^item> \<^verbatim>\<open>ExprOps\<close>: the constructors of variables, constants, functions and all operations
    (src/ila/ast/expr\_var.cc, expr\_const.cc, expr\_op.cc, func.cc).
  \<^item> \<^verbatim>\<open>Semantics\<close>: the meaning of expressions in the SMT-LIB theories of bit-vectors and
    arrays, well-formedness and type soundness. It is the specification of the later theories.
  \<^item> \<^verbatim>\<open>AstHub\<close>: the builder functions (src/ila/ast\_hub.cc).
  \<^item> \<^verbatim>\<open>HashAst\<close>: hashing, representatives and structural equality (src/ila/hash\_ast.cc).
  \<^item> \<^verbatim>\<open>VarContainers\<close>: containers of variables (src/ila/var\_container.cc).
  \<^item> \<^verbatim>\<open>Ilas\<close>: instructions, sequencing and ILAs with the invariant of the heap
    (src/ila/instr.cc, transition.cc, instr\_lvl\_abs.cc).
  \<^item> \<^verbatim>\<open>Rewriter\<close>: the rewriting function object and its subclasses
    (src/ila-mngr/u\_rewrite\_expr.cc, p\_rewrite\_conditional\_store.cc, p\_rewrite\_store\_load.cc).
  \<^item> \<^verbatim>\<open>Passes\<close>: the pass template and the two store passes (src/ila-mngr/p\_rewrite\_generic.cc).
  \<^item> \<^verbatim>\<open>AbsKnob\<close>: collecting variables and instructions, copying expressions, instructions and
    trees of ILAs (src/ila-mngr/u\_abs\_knob.cc, u\_rewrite\_ila.cc).
  \<^item> \<^verbatim>\<open>Smt\<close>: the sorts, function symbols and meanings of SMT-LIB that the solver libraries
    document. \<^verbatim>\<open>Z3Gen\<close>: the translation to Z3 (the methods \<^verbatim>\<open>GetZ3Expr\<close> of src/ila/ast/,
    include/util/z3\_helper.h, src/target-smt/z3\_expr\_adapter.cc). \<^verbatim>\<open>SmtSwitch\<close>: the interface to smt-switch with its
    caches (src/target-smt/smt\_switch\_itf.cc).
  \<^item> \<^verbatim>\<open>UnrollerSmt\<close>: the shim (include/target-smt/smt\_shim.h) and the path unroller
    (src/ila-mngr/u\_unroller\_smt.cc and its header). \<^verbatim>\<open>Unroller\<close>: the
    unrollers over Z3 (src/ila-mngr/u\_unroller.cc); \<^verbatim>\<open>Substitution\<close> and \<^verbatim>\<open>MonoUnroll\<close>: what unrolling by
    substitution and the monolithic transition relation of a tree of ILAs say.
  \<^item> \<^verbatim>\<open>Z3Solver\<close>: the solver object of Z3 and rules for building formulas. \<^verbatim>\<open>LegacyBmc\<close>: the bounded equivalence check
    (src/ila-mngr/v\_eq\_check\_bmc.cc). \<^verbatim>\<open>EqCheck\<close>: refinement maps and the checks by commuting diagrams
    (src/ila-mngr/v\_refinement.cc, v\_eq\_check\_crr.cc); \<^verbatim>\<open>EqCheckProps\<close> and \<^verbatim>\<open>IncCheckProps\<close>: what they decide.
  \<^item> \<^verbatim>\<open>SolverPasses\<close>: the sanity check, the semantic and the syntactic simplification, and the inference and mapping of
    child programs (src/ila-mngr/p\_sanity\_check\_and\_fix.cc, p\_simplify\_semantic.cc, p\_simplify\_syntactic.cc,
    p\_infer\_child\_prog\_cfg.cc, p\_map\_child\_prog\_entry.cc); \<^verbatim>\<open>SolverPassProps\<close>: what they establish.
  \<^item> \<^verbatim>\<open>JsonTarget\<close>: JSON values, the serializer and the deserializer of ILAs (src/target-json/, the accessors of
    extern/json that they call). \<^verbatim>\<open>JsonSer\<close>: what is written. \<^verbatim>\<open>JsonDes\<close>, \<^verbatim>\<open>JsonVars\<close>, \<^verbatim>\<open>JsonTree\<close> and \<^verbatim>\<open>JsonFuncs\<close>: what is read
    from it, for expressions, variables, the tree of ILAs and their functions. \<^verbatim>\<open>JsonProps\<close>: the round trip.

  \<^bold>\<open>How code is modelled.\<close> A class is a record or a constructor of a datatype, a method a
  definition of the same name. A shared mutable object is an entry of the heap, its operations
  run in the monad \<open>'a M = heap \<Rightarrow> ('a \<times> heap) result\<close>. An expression node is a value that carries
  the unique identifier of its symbol, so equality of nodes is equality of pointers. A failed
  \<^verbatim>\<open>ILA_ASSERT\<close> (debug build), \<^verbatim>\<open>ILA_CHECK\<close> or \<^verbatim>\<open>ILA_NOT_NULL\<close>, a null dereference, an
  out-of-range access and a thrown exception are values of \<open>error\<close>. Constants keep their 64-bit width;
  widths and parameters are mathematical integers, with the casts to \<^verbatim>\<open>unsigned\<close> of the Z3
  translation written out. A hash set iterates in insertion order.

  \<^bold>\<open>Loops and fuel.\<close> Recursion over expressions and lists is structural. Walks along
  pointers carry fuel: up the parents \<open>Suc p\<close> steps for ILA \<open>p\<close>, since a parent is older, and down the
  children \<open>Suc (counter - p)\<close>, since a child is younger; the theorems show that this is enough.
  The deserializer recurses over nested JSON objects with the size of the value as fuel, which its theorem shows to be enough.
  The loops of the incremental checks have fuel for a step of at least 1.

  \<^bold>\<open>What the theorems show.\<close> Every heap that the operations of the data model reach
  satisfies the structural invariant. Constructors accept exactly the documented sorts, and
  well-formed expressions evaluate to values of their sort. The builders mean what their names say.
  Structural equality and representatives agree with structure. Rewriting is substitution, and the
  two store passes keep the meaning of every function they rewrite. Copied instructions mean their source under
  the variable table. The Z3 translation returns a term with the meaning of the expression, the smt-switch translation
  does so after a reset. A formula unrolled with Z3 is true exactly for the executions of the instruction sequence, up to the
  step at which the predicates of the end are asserted; with smt-switch the cache makes all the steps of a path share their terms.
  The check by commuting diagrams answers yes only when the diagrams commute, and decides exactly that with a solver
  that always decides; the incremental checks give the same answer for every upper bound; the bounded check looks for runs in which all states differ. The sanity check answers yes only for complete
  instruction sets and, with a solver that always decides, exactly for complete and deterministic ones; an instruction it adds
  otherwise is decoded exactly where no other is. A tree of ILAs that is serialized
  to JSON and deserialized has the same names, variables and children, and functions that mean the same. The
  containers, containers of variables and string utilities have their functional
  specifications and round trips.

  \<^bold>\<open>Interfaces.\<close> Locales state what one part relies on in another: the contract of a
  keyed vector (Containers), of a node rewriting (Rewriter) and of a pass over it (Passes), of a
  collecting visitor (AbsKnob), of the Z3 library (\<open>z3_backend\<close>, Z3Gen), of smt-switch (\<open>sw_backend\<close>, SmtSwitch) and of an SMT generator
  (\<open>smt_generator\<close>, UnrollerSmt), which the Z3 adapter is shown to satisfy, and of Z3's solver object
  (\<open>z3_solver_backend\<close>, Z3Solver), which extends that of the Z3 library. The solver libraries are not
  part of the source: their interfaces are parameters, and the locales name the documented behaviour
  that is relied on; a model of each interface shows that it can be met.

  \<^bold>\<open>Not modelled.\<close> The regular expression helpers, logging and file system wrappers are
  input and output. The Verilog parser, the generators of Verilog and SystemC text and of
  verification targets print text for external tools or wrap vendored libraries, and their meaning is defined only
  there. The memory consistency models build axioms over traces of a Z3 context that they share with their callers, and
  are left out. Null pointers are modelled only where the
  code tests for them or a caller can pass them.
\<close>

end
